(* ===== verification/Prelude.thy ===== *)
theory Prelude
  imports Main "HOL-Library.Word" "HOL-Library.Char_ord" "HOL-Library.List_Lexorder"
    "HOL-Library.Sublist"
begin

text \<open>
  Shared ground of the development: the machine types, Rust's \<open>?\<close> operator on
  \<open>Result\<close>, checked arithmetic, byte strings and UTF-8, and the generic facts about them that
  every component uses.

  A Rust \<open>String\<close> is a list of bytes, here a \<^typ>\<open>char list\<close> (a HOL character is one byte),
  so \<open>len()\<close> is \<^const>\<open>length\<close>, equality and order are those of the bytes, and
  \<open>chars()\<close> is \<open>utf8_chars\<close> below.
\<close>

named_theorems codec "what the third-party encoders and decoders promise"
named_theorems keeps "operations that keep a component's invariant"

type_synonym bytes = "char list"
type_synonym u64 = "64 word"
type_synonym u32 = "32 word"

subsection \<open>Results and early returns\<close>

text \<open>
  \<open>r?\<close> in a method with a \<open>&mut self\<close>: on an error the method returns it, with the state as
  it is at that point.
\<close>

definition qmark :: "'e + 'a \<Rightarrow> 's \<Rightarrow> ('a \<Rightarrow> ('e + 'b) \<times> 's) \<Rightarrow> ('e + 'b) \<times> 's" where
  "qmark r s k = (case r of Inl e \<Rightarrow> (Inl e, s) | Inr x \<Rightarrow> k x)"

lemma qmark_simps [simp]:
  "qmark (Inl e) s k = (Inl e, s)"
  "qmark (Inr x) s k = k x"
  by (simp_all add: qmark_def)

lemma qmark_Inr_iff: "qmark r s k = (Inr y, s') \<longleftrightarrow> (\<exists>x. r = Inr x \<and> k x = (Inr y, s'))"
  by (cases r) auto

lemma qmark_Inl_iff:
  "qmark r s k = (Inl e, s') \<longleftrightarrow> (r = Inl e \<and> s' = s) \<or> (\<exists>x. r = Inr x \<and> k x = (Inl e, s'))"
  by (cases r) auto

lemmas qmark_iffs = qmark_Inr_iff qmark_Inl_iff

text \<open>\<open>match step \{ Err(e) => .., Ok(x) => .. \}\<close> where the step also leaves a state.\<close>

lemma case_step_Inr:
  "(case p of (x, f) \<Rightarrow> (case x of Inl e \<Rightarrow> (Inl (E e f), X e f) | Inr k \<Rightarrow> R k f)) = (Inr u, s) \<longleftrightarrow>
     (\<exists>k f. p = (Inr k, f) \<and> R k f = (Inr u, s))"
  by (auto split: prod.splits sum.splits)

lemma case_step_Inl:
  "(case p of (x, f) \<Rightarrow> (case x of Inl e \<Rightarrow> (Inl (E e f), X e f) | Inr k \<Rightarrow> R k f)) = (Inl y, s) \<longleftrightarrow>
     (\<exists>e f. p = (Inl e, f) \<and> E e f = y \<and> X e f = s) \<or> (\<exists>k f. p = (Inr k, f) \<and> R k f = (Inl y, s))"
  by (auto split: prod.splits sum.splits)

lemmas case_step_iffs = case_step_Inr case_step_Inl

text \<open>\<open>r?\<close> in a function with no state.\<close>

definition rbind :: "'e + 'a \<Rightarrow> ('a \<Rightarrow> 'e + 'b) \<Rightarrow> 'e + 'b" where
  "rbind r k = (case r of Inl e \<Rightarrow> Inl e | Inr x \<Rightarrow> k x)"

lemma rbind_simps [simp]:
  "rbind (Inl e) k = Inl e"
  "rbind (Inr x) k = k x"
  by (simp_all add: rbind_def)

lemma rbind_eq_Inr: "rbind r k = Inr y \<longleftrightarrow> (\<exists>x. r = Inr x \<and> k x = Inr y)"
  by (cases r) auto

definition map_err :: "('e \<Rightarrow> 'f) \<Rightarrow> 'e + 'a \<Rightarrow> 'f + 'a" where
  "map_err f r = (case r of Inl e \<Rightarrow> Inl (f e) | Inr x \<Rightarrow> Inr x)"

lemma map_err_simps [simp]:
  "map_err f (Inl e) = Inl (f e)"
  "map_err f (Inr x) = Inr x"
  by (simp_all add: map_err_def)

lemma map_err_eq_Inr [simp]: "map_err f r = Inr x \<longleftrightarrow> r = Inr x"
  by (cases r) auto

definition is_ok :: "'e + 'a \<Rightarrow> bool" where
  "is_ok r \<longleftrightarrow> (case r of Inl _ \<Rightarrow> False | Inr _ \<Rightarrow> True)"

lemma is_ok_simps [simp]: "is_ok (Inr x)" "\<not> is_ok (Inl e)"
  by (simp_all add: is_ok_def)

lemma is_ok_iff: "is_ok r \<longleftrightarrow> (\<exists>x. r = Inr x)"
  by (cases r) auto

subsection \<open>Checked and saturating arithmetic on \<open>u64\<close>\<close>

definition checked_add_u64 :: "u64 \<Rightarrow> u64 \<Rightarrow> u64 option" where
  "checked_add_u64 a b = (if unat a + unat b < 2 ^ 64 then Some (a + b) else None)"

definition saturating_add_u64 :: "u64 \<Rightarrow> u64 \<Rightarrow> u64" where
  "saturating_add_u64 a b = (if unat a + unat b < 2 ^ 64 then a + b else - 1)"

definition saturating_sub_u64 :: "u64 \<Rightarrow> u64 \<Rightarrow> u64" where
  "saturating_sub_u64 a b = (if a \<le> b then 0 else a - b)"

lemma unat_checked_add: "checked_add_u64 a b = Some c \<Longrightarrow> unat c = unat a + unat b"
  by (auto simp: checked_add_u64_def unat_word_ariths split: if_splits)

lemma checked_add_1_greater: "checked_add_u64 n 1 = Some m \<Longrightarrow> n < m"
  using unat_checked_add [of n 1 m] by (simp add: word_less_nat_alt)

lemma checked_add_1_None: "checked_add_u64 n 1 = None \<longleftrightarrow> n = - 1"
proof
  assume "checked_add_u64 n 1 = None"
  then have "2 ^ 64 - 1 \<le> unat n" by (auto simp: checked_add_u64_def split: if_splits)
  moreover have "unat n < 2 ^ 64" using unsigned_less [of n] by simp
  ultimately have "unat n = unat (- 1 :: u64)"
    by (simp add: unsigned_minus_1_eq_mask mask_eq_exp_minus_1)
  then show "n = - 1" by (simp only: unsigned_word_eqI)
qed (simp add: checked_add_u64_def unsigned_minus_1_eq_mask mask_eq_exp_minus_1)

lemma checked_add_max [simp]: "checked_add_u64 (- 1) 1 = None"
  by (simp add: checked_add_1_None)

lemma unat_Suc_less:
  assumes "x < (y :: 'a :: len word)"
  shows "unat (x + 1) = Suc (unat x)"
proof -
  have "unat x < unat y" using assms by (simp add: word_less_nat_alt)
  then have "Suc (unat x) < 2 ^ LENGTH('a)" using unsigned_less [of y, where 'a = nat] by linarith
  then show ?thesis by (simp add: unat_word_ariths)
qed

subsection \<open>Bytes\<close>

definition newline :: char where
  "newline = CHR 0x0A"

definition byte :: "char \<Rightarrow> nat" where
  "byte c = of_char c"

definition ascii_digit :: "char \<Rightarrow> bool" where
  "ascii_digit c \<longleftrightarrow> 48 \<le> byte c \<and> byte c \<le> 57"

definition ascii_alphanumeric :: "char \<Rightarrow> bool" where
  "ascii_alphanumeric c \<longleftrightarrow>
     ascii_digit c \<or> (65 \<le> byte c \<and> byte c \<le> 90) \<or> (97 \<le> byte c \<and> byte c \<le> 122)"

text \<open>\<open>u8::is_ascii_whitespace\<close>: space, tab, line feed, form feed, carriage return.\<close>

definition ascii_whitespace :: "char \<Rightarrow> bool" where
  "ascii_whitespace c \<longleftrightarrow> byte c \<in> {32, 9, 10, 12, 13}"

subsection \<open>UTF-8\<close>

definition continuation :: "char \<Rightarrow> bool" where
  "continuation c \<longleftrightarrow> 128 \<le> byte c \<and> byte c < 192"

text \<open>
  \<open>str::chars\<close>: the characters of a string, each as the bytes that encode it. In a
  Rust string (always valid UTF-8) a character is a byte that is not a continuation byte and the
  continuation bytes after it.
\<close>

function utf8_chars :: "bytes \<Rightarrow> bytes list" where
  "utf8_chars [] = []"
| "utf8_chars (c # cs) =
     (c # takeWhile continuation cs) # utf8_chars (dropWhile continuation cs)"
  by pat_completeness auto
termination
  by (relation "measure length") (auto simp: le_imp_less_Suc length_dropWhile_le)

lemma concat_utf8_chars [simp]: "concat (utf8_chars s) = s"
  by (induction s rule: utf8_chars.induct) (auto simp: takeWhile_dropWhile_id)

text \<open>\<open>str::is_char_boundary\<close>.\<close>

definition char_boundary :: "bytes \<Rightarrow> nat \<Rightarrow> bool" where
  "char_boundary s i \<longleftrightarrow> i = 0 \<or> i = length s \<or> (i < length s \<and> \<not> continuation (s ! i))"

text \<open>
  Unicode's tables: \<open>str::to_lowercase\<close>, \<open>char::is_alphanumeric\<close> and \<open>char::is_whitespace\<close>
  (a character is its bytes).
\<close>

record unicode =
  lowercase :: "bytes \<Rightarrow> bytes"
  alphanumeric :: "bytes \<Rightarrow> bool"
  whitespace :: "bytes \<Rightarrow> bool"

text \<open>\<open>s.trim().is_empty()\<close>.\<close>

definition blank :: "unicode \<Rightarrow> bytes \<Rightarrow> bool" where
  "blank U s \<longleftrightarrow> list_all (whitespace U) (utf8_chars s)"

lemma blank_Nil [simp]: "blank U []"
  by (simp add: blank_def)

text \<open>\<open>str::trim\<close>.\<close>

definition trim :: "unicode \<Rightarrow> bytes \<Rightarrow> bytes" where
  "trim U s = concat (rev (dropWhile (whitespace U) (rev (dropWhile (whitespace U) (utf8_chars s)))))"

lemma trim_length: "length (trim U s) \<le> length s"
proof -
  have c: "length (concat (dropWhile P xs)) \<le> length (concat xs)" for P and xs :: "bytes list"
    by (induction xs) auto
  have r: "length (concat (rev xs)) = length (concat xs)" for xs :: "bytes list"
    by (induction xs) auto
  have "length (trim U s) \<le> length (concat (rev (dropWhile (whitespace U) (utf8_chars s))))"
    unfolding trim_def by (subst r) (rule c)
  also have "\<dots> \<le> length (concat (utf8_chars s))" by (subst r) (rule c)
  finally show ?thesis by simp
qed

text \<open>\<open>str::eq_ignore_ascii_case\<close>.\<close>

definition ascii_lower :: "char \<Rightarrow> char" where
  "ascii_lower c = (if 65 \<le> byte c \<and> byte c \<le> 90 then char_of (byte c + 32) else c)"

definition eq_ignore_case :: "bytes \<Rightarrow> bytes \<Rightarrow> bool" where
  "eq_ignore_case a b \<longleftrightarrow> map ascii_lower a = map ascii_lower b"

lemma eq_ignore_case_refl [simp]: "eq_ignore_case a a"
  by (simp add: eq_ignore_case_def)

text \<open>\<open>std::str::from_utf8\<close> succeeds: the well-formed byte sequences of the Unicode standard.\<close>

definition in_range :: "nat \<Rightarrow> nat \<Rightarrow> char \<Rightarrow> bool" where
  "in_range a b c \<longleftrightarrow> a \<le> byte c \<and> byte c \<le> b"

fun valid_utf8 :: "bytes \<Rightarrow> bool" where
  "valid_utf8 [] = True"
| "valid_utf8 (a # bs) =
    (if byte a < 128 then valid_utf8 bs
     else if in_range 0xC2 0xDF a then
       (case bs of b # r \<Rightarrow> continuation b \<and> valid_utf8 r | _ \<Rightarrow> False)
     else if in_range 0xE0 0xEF a then
       (case bs of b # c # r \<Rightarrow>
          in_range (if byte a = 0xE0 then 0xA0 else 0x80) (if byte a = 0xED then 0x9F else 0xBF) b
          \<and> continuation c \<and> valid_utf8 r
        | _ \<Rightarrow> False)
     else if in_range 0xF0 0xF4 a then
       (case bs of b # c # d # r \<Rightarrow>
          in_range (if byte a = 0xF0 then 0x90 else 0x80) (if byte a = 0xF4 then 0x8F else 0xBF) b
          \<and> continuation c \<and> continuation d \<and> valid_utf8 r
        | _ \<Rightarrow> False)
     else False)"

lemma valid_utf8_ascii: "(\<And>c. c \<in> set s \<Longrightarrow> byte c < 128) \<Longrightarrow> valid_utf8 s"
  by (induction s) auto

text \<open>\<open>safe_truncate\<close> of \<open>src/utils.rs\<close>: at most \<open>n\<close> bytes, cut at a character boundary.\<close>

fun boundary_below :: "bytes \<Rightarrow> nat \<Rightarrow> nat" where
  "boundary_below s 0 = 0"
| "boundary_below s (Suc n) = (if char_boundary s (Suc n) then Suc n else boundary_below s n)"

definition safe_truncate :: "bytes \<Rightarrow> nat \<Rightarrow> bytes" where
  "safe_truncate s n = (if length s \<le> n then s else take (boundary_below s n) s)"

lemma boundary_below_le: "boundary_below s n \<le> n"
  by (induction n) auto

lemma safe_truncate_length: "length (safe_truncate s n) \<le> n"
  using boundary_below_le [of s n] by (auto simp: safe_truncate_def)

lemma safe_truncate_prefix: "prefix (safe_truncate s n) s"
  by (simp add: safe_truncate_def take_is_prefix)

subsection \<open>Prefixes and decimal text\<close>

text \<open>\<open>str::strip_prefix\<close>.\<close>

definition strip_prefix :: "bytes \<Rightarrow> bytes \<Rightarrow> bytes option" where
  "strip_prefix p s = (if take (length p) s = p then Some (drop (length p) s) else None)"

lemma strip_prefix_append [simp]: "strip_prefix p (p @ s) = Some s"
  by (simp add: strip_prefix_def)

lemma strip_prefix_SomeD: "strip_prefix p s = Some r \<Longrightarrow> s = p @ r"
  by (metis append_take_drop_id option.distinct(1) option.inject strip_prefix_def)

definition starts_with :: "bytes \<Rightarrow> bytes \<Rightarrow> bool" where
  "starts_with p s \<longleftrightarrow> take (length p) s = p"

text \<open>\<open>str::contains\<close>.\<close>

fun contains_str :: "bytes \<Rightarrow> bytes \<Rightarrow> bool" where
  "contains_str p [] \<longleftrightarrow> p = []"
| "contains_str p (c # s) \<longleftrightarrow> starts_with p (c # s) \<or> contains_str p s"

lemma contains_str_append: "contains_str p (a @ p @ b)"
proof (induction a)
  case Nil
  then show ?case by (cases p; cases b) (auto simp: starts_with_def)
next
  case (Cons c a)
  then show ?case by simp
qed

text \<open>The decimal text of an unsigned integer, as \<open>{}\<close> prints it.\<close>

fun decimal :: "nat \<Rightarrow> bytes" where
  "decimal n =
     (if n < 10 then [char_of (48 + n)] else decimal (n div 10) @ [char_of (48 + n mod 10)])"

declare decimal.simps [simp del]

lemma byte_char_of: "n < 256 \<Longrightarrow> byte (char_of n) = n"
  by (simp add: byte_def)

lemma decimal_digits: "c \<in> set (decimal n) \<Longrightarrow> ascii_digit c"
proof (induction n arbitrary: c rule: decimal.induct)
  case (1 n)
  have d: "ascii_digit (char_of (48 + m mod 10))" for m :: nat
  proof -
    have "48 + m mod 10 < 256" by simp
    then show ?thesis by (simp only: ascii_digit_def byte_char_of) simp
  qed
  show ?case
  proof (cases "n < 10")
    case True
    then have "ascii_digit (char_of (48 + n))" using d [of n] by simp
    with True "1.prems" show ?thesis by (simp add: decimal.simps [of n])
  next
    case False
    with "1.prems" have "c \<in> set (decimal (n div 10)) \<or> c = char_of (48 + n mod 10)"
      by (auto simp: decimal.simps [of n])
    with d "1.IH" [OF False] show ?thesis by blast
  qed
qed

lemma decimal_nonempty [simp]: "decimal n \<noteq> []"
  by (subst decimal.simps) simp

lemma decimal_length: "n < 10 ^ k \<Longrightarrow> 0 < k \<Longrightarrow> length (decimal n) \<le> k"
proof (induction k arbitrary: n)
  case (Suc k)
  show ?case
  proof (cases "n < 10")
    case False
    with Suc.prems have "0 < k" by (cases k) auto
    moreover have "n div 10 < 10 ^ k" using Suc.prems(1) by (simp add: less_mult_imp_div_less)
    ultimately have "length (decimal (n div 10)) \<le> k" using Suc.IH by blast
    with False show ?thesis by (subst decimal.simps) simp
  qed (simp add: decimal.simps [of n])
qed simp

definition digits_value :: "bytes \<Rightarrow> nat" where
  "digits_value ds = foldl (\<lambda>n d. 10 * n + (byte d - 48)) 0 ds"

lemma digits_value_snoc: "digits_value (ds @ [c]) = 10 * digits_value ds + (byte c - 48)"
  by (simp add: digits_value_def)

lemma digits_value_decimal [simp]: "digits_value (decimal n) = n"
proof (induction n rule: decimal.induct)
  case (1 n)
  have d: "byte (char_of (48 + m mod 10)) - 48 = m mod 10" for m :: nat
  proof -
    have "48 + m mod 10 < 256" by simp
    then show ?thesis by (simp only: byte_char_of)
  qed
  show ?case
  proof (cases "n < 10")
    case True
    then show ?thesis using d [of n] by (simp add: decimal.simps [of n] digits_value_def)
  next
    case False
    with 1 d [of n] show ?thesis by (simp add: decimal.simps [of n] digits_value_snoc)
  qed
qed

text \<open>\<open>str::parse\<close> of an unsigned integer of \<open>w\<close> bits: an optional plus, then digits, within range.\<close>

definition parse_unsigned :: "nat \<Rightarrow> bytes \<Rightarrow> nat option" where
  "parse_unsigned w s =
     (let ds = (case s of c # r \<Rightarrow> if c = CHR ''+'' then r else s | [] \<Rightarrow> [])
      in if ds \<noteq> [] \<and> list_all ascii_digit ds \<and> digits_value ds < 2 ^ w then Some (digits_value ds) else None)"

lemma ascii_digit_not_plus: "ascii_digit c \<Longrightarrow> c \<noteq> CHR ''+''"
  by (auto simp: ascii_digit_def byte_def)

lemma parse_unsigned_decimal [simp]: "n < 2 ^ w \<Longrightarrow> parse_unsigned w (decimal n) = Some n"
proof -
  assume n: "n < 2 ^ w"
  obtain c r where d: "decimal n = c # r" by (metis decimal_nonempty list.exhaust)
  then have "c \<noteq> CHR ''+''" using decimal_digits [of c n] ascii_digit_not_plus by simp
  moreover have "list_all ascii_digit (decimal n)" by (simp add: list_all_iff decimal_digits)
  ultimately show ?thesis using n d digits_value_decimal [of n] by (simp add: parse_unsigned_def)
qed

subsection \<open>Lines\<close>

text \<open>
  A file as its terminated lines (each with its newline) and the bytes after the last newline.
\<close>

definition unlines :: "bytes list \<Rightarrow> bytes" where
  "unlines ls = concat (map (\<lambda>l. l @ [newline]) ls)"

lemma unlines_simps [simp]:
  "unlines [] = []"
  "unlines (l # ls) = l @ newline # unlines ls"
  by (simp_all add: unlines_def)

lemma unlines_append [simp]: "unlines (xs @ ys) = unlines xs @ unlines ys"
  by (simp add: unlines_def)

definition terminated_bytes :: "bytes \<Rightarrow> bool" where
  "terminated_bytes bs \<longleftrightarrow> bs = [] \<or> last bs = newline"

lemma terminated_unlines [simp]: "terminated_bytes (unlines ls)"
  by (induction ls rule: rev_induct) (auto simp: terminated_bytes_def)

lemma terminated_bytes_append_nl: "terminated_bytes (bs @ [newline])"
  by (simp add: terminated_bytes_def)

text \<open>Every file is its terminated part followed by an unterminated tail.\<close>

lemma terminated_split:
  obtains p t where "bs = p @ t" and "terminated_bytes p" and "newline \<notin> set t"
proof (cases "newline \<in> set bs")
  case True
  then obtain p t where "bs = p @ newline # t" and "newline \<notin> set t"
    by (meson split_list_last)
  then show ?thesis by (intro that [of "p @ [newline]" t]) (auto simp: terminated_bytes_append_nl)
next
  case False
  then show ?thesis by (intro that [of "[]" bs]) (auto simp: terminated_bytes_def)
qed

lemma takeWhile_line [simp]:
  "newline \<notin> set l \<Longrightarrow> takeWhile (\<lambda>b. b \<noteq> newline) (l @ newline # r) = l"
  by (induction l) auto

lemma takeWhile_no_newline [simp]:
  "newline \<notin> set l \<Longrightarrow> takeWhile (\<lambda>b. b \<noteq> newline) l = l"
  by (induction l) auto

end
