(* ===== verification/Lease.thy ===== *)
theory Lease
  imports Prelude
begin

text \<open>
  \<open>src/coordinator/lease.rs\<close>: leases with a time to live, made safe by fencing tokens.

  Instants are nanoseconds since the epoch (\<^typ>\<open>int\<close>), durations nanoseconds (\<^typ>\<open>nat\<close>),
  a fencing token a \<^typ>\<open>u64\<close>, a \<open>HashMap\<close> a map. \<open>M\<close> is chrono's
  \<open>DateTime::<Utc>::MAX_UTC\<close>, a parameter of the operations that compute an expiry.
\<close>

subsection \<open>Data\<close>

definition secs :: "nat \<Rightarrow> nat" where
  "secs n = n * 10 ^ 9"

definition MAX_TTL :: nat where
  "MAX_TTL = secs 86400"

definition MAX_ID_BYTES :: nat where
  "MAX_ID_BYTES = 128"

text \<open>
  \<open>TimeDelta::from_std\<close>: refused past chrono's longest \<open>TimeDelta\<close>, which is documented
  as \<open>i64::MAX\<close> milliseconds.
\<close>

definition from_std :: "nat \<Rightarrow> int option" where
  "from_std d = (if d \<le> (2 ^ 63 - 1) * 10 ^ 6 then Some (int d) else None)"

record lease =
  resource_id :: bytes
  holder_id :: bytes
  fencing_token :: u64
  granted_at :: int
  ttl :: nat

definition expires_at :: "int \<Rightarrow> lease \<Rightarrow> int" where
  "expires_at M l =
     (case from_std (ttl l) of
        None \<Rightarrow> M
      | Some d \<Rightarrow> (if granted_at l + d \<le> M then granted_at l + d else M))"

definition is_expired :: "int \<Rightarrow> lease \<Rightarrow> int \<Rightarrow> bool" where
  "is_expired M l now \<longleftrightarrow> expires_at M l \<le> now"

datatype lease_error =
    Held bytes bytes int
  | NotHeld bytes
  | NotHolder bytes bytes bytes
  | Expired bytes bytes int
  | TokenOverflow bytes
  | InvalidTtl bytes nat
  | InvalidId string bytes

datatype lease_event =
    Acquired int lease
  | Reclaimed int lease
  | Renewed int lease
  | Released int bytes bytes

datatype apply_error =
    TokenRegression bytes u64 u64
  | HolderMismatch string bytes bytes bytes
  | NoLease string bytes
  | RenewMintedToken bytes u64 u64
  | RenewedExpired bytes int int
  | ImplausibleGrantTime bytes int int
  | InvalidLease lease_error

record lease_table =
  leases :: "bytes \<rightharpoonup> lease"
  watermarks :: "bytes \<rightharpoonup> u64"

definition table_new :: lease_table where
  "table_new = \<lparr>leases = Map.empty, watermarks = Map.empty\<rparr>"

subsection \<open>Validation\<close>

definition id_char :: "char \<Rightarrow> bool" where
  "id_char c \<longleftrightarrow> ascii_alphanumeric c \<or> c \<in> {CHR ''.'', CHR ''_'', CHR ''-''}"

definition validate_id :: "string \<Rightarrow> bytes \<Rightarrow> lease_error + unit" where
  "validate_id kind i =
     (let len_ok = (i \<noteq> [] \<and> length i \<le> MAX_ID_BYTES);
          chars_ok = list_all id_char i
      in if len_ok \<and> chars_ok then Inr () else Inl (InvalidId kind i))"

definition validate_ttl :: "bytes \<Rightarrow> nat \<Rightarrow> lease_error + unit" where
  "validate_ttl r d = (if 0 < d \<and> d \<le> MAX_TTL then Inr () else Inl (InvalidTtl r d))"

subsection \<open>Operations\<close>

definition next_token :: "lease_table \<Rightarrow> bytes \<Rightarrow> lease_error + u64" where
  "next_token t r =
     (case watermarks t r of
        None \<Rightarrow> Inr 1
      | Some n \<Rightarrow>
          (case checked_add_u64 n 1 of None \<Rightarrow> Inl (TokenOverflow r) | Some m \<Rightarrow> Inr m))"

definition table_acquire ::
  "int \<Rightarrow> lease_table \<Rightarrow> bytes \<Rightarrow> bytes \<Rightarrow> nat \<Rightarrow> int \<Rightarrow> (lease_error + lease) \<times> lease_table" where
  "table_acquire M t r h d now =
     qmark (validate_id ''resource'' r) t (\<lambda>_.
     qmark (validate_id ''holder'' h) t (\<lambda>_.
     qmark (validate_ttl r d) t (\<lambda>_.
     qmark (case leases t r of
              None \<Rightarrow> Inr ()
            | Some e \<Rightarrow>
                (if \<not> is_expired M e now then Inl (Held r (holder_id e) (expires_at M e))
                 else Inr ())) t (\<lambda>_.
     qmark (next_token t r) t (\<lambda>token.
       let l = \<lparr>resource_id = r, holder_id = h, fencing_token = token,
                granted_at = now, ttl = d\<rparr>
       in (Inr l, t\<lparr>leases := (leases t)(r \<mapsto> l),
                    watermarks := (watermarks t)(r \<mapsto> token)\<rparr>))))))"

definition table_renew ::
  "int \<Rightarrow> lease_table \<Rightarrow> bytes \<Rightarrow> bytes \<Rightarrow> nat \<Rightarrow> int \<Rightarrow> (lease_error + lease) \<times> lease_table" where
  "table_renew M t r h d now =
     qmark (validate_id ''resource'' r) t (\<lambda>_.
     qmark (validate_id ''holder'' h) t (\<lambda>_.
     qmark (validate_ttl r d) t (\<lambda>_.
     qmark (case leases t r of None \<Rightarrow> Inl (NotHeld r) | Some l \<Rightarrow> Inr l) t (\<lambda>l.
       if holder_id l \<noteq> h then (Inl (NotHolder r h (holder_id l)), t)
       else if is_expired M l now then (Inl (Expired r h (expires_at M l)), t)
       else (let l' = l\<lparr>granted_at := now, ttl := d\<rparr>
             in (Inr l', t\<lparr>leases := (leases t)(r \<mapsto> l')\<rparr>))))))"

definition table_release ::
  "lease_table \<Rightarrow> bytes \<Rightarrow> bytes \<Rightarrow> (lease_error + unit) \<times> lease_table" where
  "table_release t r h =
     qmark (case leases t r of None \<Rightarrow> Inl (NotHeld r) | Some l \<Rightarrow> Inr l) t (\<lambda>l.
       if holder_id l \<noteq> h then (Inl (NotHolder r h (holder_id l)), t)
       else (Inr (), t\<lparr>leases := (leases t)(r := None)\<rparr>))"

definition table_get :: "lease_table \<Rightarrow> bytes \<Rightarrow> lease option" where
  "table_get t r = leases t r"

definition table_watermark :: "lease_table \<Rightarrow> bytes \<Rightarrow> u64 option" where
  "table_watermark t r = watermarks t r"

subsection \<open>Replay of one event\<close>

text \<open>
  The \<open>expect\<close> on \<open>TimeDelta::from_std(MAX_TTL)\<close> never panics:
  \<open>max_ttl_fits\<close> below.
\<close>

definition validate_event_lease :: "lease \<Rightarrow> int \<Rightarrow> apply_error + unit" where
  "validate_event_lease l ts =
     rbind (map_err InvalidLease (validate_id ''resource'' (resource_id l))) (\<lambda>_.
     rbind (map_err InvalidLease (validate_id ''holder'' (holder_id l))) (\<lambda>_.
     rbind (map_err InvalidLease (validate_ttl (resource_id l) (ttl l))) (\<lambda>_.
       if \<bar>granted_at l - ts\<bar> > int MAX_TTL
       then Inl (ImplausibleGrantTime (resource_id l) (granted_at l) ts)
       else Inr ())))"

definition apply_grant :: "lease_table \<Rightarrow> int \<Rightarrow> lease \<Rightarrow> (apply_error + unit) \<times> lease_table" where
  "apply_grant t ts l =
     qmark (validate_event_lease l ts) t (\<lambda>_.
     qmark (case table_watermark t (resource_id l) of
              None \<Rightarrow> Inr ()
            | Some w \<Rightarrow>
                (if fencing_token l \<le> w
                 then Inl (TokenRegression (resource_id l) (fencing_token l) w) else Inr ())) t (\<lambda>_.
       (Inr (), t\<lparr>leases := (leases t)(resource_id l \<mapsto> l),
                  watermarks := (watermarks t)(resource_id l \<mapsto> fencing_token l)\<rparr>)))"

fun apply_event :: "int \<Rightarrow> lease_table \<Rightarrow> lease_event \<Rightarrow> (apply_error + unit) \<times> lease_table" where
  "apply_event M t (Acquired ts l) = apply_grant t ts l"
| "apply_event M t (Reclaimed ts l) = apply_grant t ts l"
| "apply_event M t (Renewed ts l) =
     qmark (validate_event_lease l ts) t (\<lambda>_.
     qmark (case leases t (resource_id l) of
              None \<Rightarrow> Inl (NoLease ''renew'' (resource_id l)) | Some c \<Rightarrow> Inr c) t (\<lambda>c.
       if is_expired M c ts then (Inl (RenewedExpired (resource_id l) (expires_at M c) ts), t)
       else if holder_id c \<noteq> holder_id l
         then (Inl (HolderMismatch ''renew'' (resource_id l) (holder_id l) (holder_id c)), t)
       else if fencing_token c \<noteq> fencing_token l
         then (Inl (RenewMintedToken (resource_id l) (fencing_token l) (fencing_token c)), t)
       else (Inr (), t\<lparr>leases := (leases t)(resource_id l \<mapsto> l)\<rparr>)))"
| "apply_event M t (Released ts r h) =
     qmark (case leases t r of None \<Rightarrow> Inl (NoLease ''release'' r) | Some c \<Rightarrow> Inr c) t (\<lambda>c.
       if holder_id c \<noteq> h then (Inl (HolderMismatch ''release'' r h (holder_id c)), t)
       else (Inr (), t\<lparr>leases := (leases t)(r := None)\<rparr>))"

subsection \<open>What the validators accept\<close>

definition id_ok :: "bytes \<Rightarrow> bool" where
  "id_ok i \<longleftrightarrow> i \<noteq> [] \<and> length i \<le> MAX_ID_BYTES \<and> list_all id_char i"

definition ttl_ok :: "nat \<Rightarrow> bool" where
  "ttl_ok d \<longleftrightarrow> 0 < d \<and> d \<le> MAX_TTL"

lemma validate_id_iff [simp]: "validate_id k i = Inr u \<longleftrightarrow> id_ok i"
  by (auto simp: validate_id_def id_ok_def Let_def)

lemma validate_ttl_iff [simp]: "validate_ttl r d = Inr u \<longleftrightarrow> ttl_ok d"
  by (auto simp: validate_ttl_def ttl_ok_def)

lemma validate_id_ok: "id_ok i \<Longrightarrow> validate_id k i = Inr ()"
  by simp

lemma validate_ttl_ok: "ttl_ok d \<Longrightarrow> validate_ttl r d = Inr ()"
  by simp

lemma max_ttl_fits: "from_std MAX_TTL = Some (int MAX_TTL)"
  by (simp add: from_std_def MAX_TTL_def secs_def)

lemma ttl_ok_from_std: "ttl_ok d \<Longrightarrow> from_std d = Some (int d)"
  by (simp add: ttl_ok_def from_std_def MAX_TTL_def secs_def)

lemma expires_at_ttl_ok:
  "ttl_ok (ttl l) \<Longrightarrow> expires_at M l = min M (granted_at l + int (ttl l))"
  by (simp add: expires_at_def ttl_ok_from_std)

lemma expires_at_le_max: "expires_at M l \<le> M"
  by (simp add: expires_at_def split: option.splits)

lemma is_expired_mono: "is_expired M l a \<Longrightarrow> a \<le> b \<Longrightarrow> is_expired M l b"
  by (simp add: is_expired_def)

subsection \<open>Each operation, success and failure\<close>

definition free_at :: "int \<Rightarrow> lease_table \<Rightarrow> bytes \<Rightarrow> int \<Rightarrow> bool" where
  "free_at M t r now \<longleftrightarrow> (\<forall>l. leases t r = Some l \<longrightarrow> is_expired M l now)"

lemma next_token_greater:
  "next_token t r = Inr n \<Longrightarrow> watermarks t r = Some w \<Longrightarrow> w < n"
  by (auto simp: next_token_def dest: checked_add_1_greater split: option.splits)

lemma next_token_ok_iff: "is_ok (next_token t r) \<longleftrightarrow> watermarks t r \<noteq> Some (- 1)"
  by (auto simp: next_token_def checked_add_1_None is_ok_iff split: option.splits)

lemma acquire_Inr_iff:
  "table_acquire M t r h d now = (Inr l, t') \<longleftrightarrow>
     id_ok r \<and> id_ok h \<and> ttl_ok d \<and> free_at M t r now \<and>
     next_token t r = Inr (fencing_token l) \<and>
     l = \<lparr>resource_id = r, holder_id = h, fencing_token = fencing_token l,
          granted_at = now, ttl = d\<rparr> \<and>
     t' = t\<lparr>leases := (leases t)(r \<mapsto> l), watermarks := (watermarks t)(r \<mapsto> fencing_token l)\<rparr>"
  by (auto simp: table_acquire_def qmark_iffs free_at_def Let_def split: option.splits if_splits)

lemma acquire_Inl: "table_acquire M t r h d now = (Inl e, t') \<Longrightarrow> t' = t"
  by (auto simp: table_acquire_def qmark_iffs Let_def split: option.splits if_splits)

lemma renew_Inr_iff:
  "table_renew M t r h d now = (Inr l, t') \<longleftrightarrow>
     id_ok r \<and> id_ok h \<and> ttl_ok d \<and>
     (\<exists>l0. leases t r = Some l0 \<and> holder_id l0 = h \<and> \<not> is_expired M l0 now \<and>
        l = l0\<lparr>granted_at := now, ttl := d\<rparr> \<and> t' = t\<lparr>leases := (leases t)(r \<mapsto> l)\<rparr>)"
  by (auto simp: table_renew_def qmark_iffs Let_def split: option.splits if_splits)

lemma renew_Inl: "table_renew M t r h d now = (Inl e, t') \<Longrightarrow> t' = t"
  by (auto simp: table_renew_def qmark_iffs Let_def split: option.splits if_splits)

lemma release_Inr_iff:
  "table_release t r h = (Inr u, t') \<longleftrightarrow>
     (\<exists>l0. leases t r = Some l0 \<and> holder_id l0 = h) \<and> t' = t\<lparr>leases := (leases t)(r := None)\<rparr>"
  by (auto simp: table_release_def qmark_iffs split: option.splits if_splits)

lemma release_Inl: "table_release t r h = (Inl e, t') \<Longrightarrow> t' = t"
  by (auto simp: table_release_def qmark_iffs split: option.splits if_splits)

lemmas table_op_iffs = acquire_Inr_iff renew_Inr_iff release_Inr_iff
lemmas table_op_errors = acquire_Inl renew_Inl release_Inl

subsection \<open>Invariant\<close>

text \<open>
  A lease sits under its own resource id, carries valid ids and a valid ttl, and its token is
  the resource's watermark: a lease below the watermark would be one the guard already fences.
\<close>

definition lease_ok :: "bytes \<Rightarrow> lease \<Rightarrow> bool" where
  "lease_ok r l \<longleftrightarrow> resource_id l = r \<and> id_ok r \<and> id_ok (holder_id l) \<and> ttl_ok (ttl l)"

definition table_wf :: "lease_table \<Rightarrow> bool" where
  "table_wf t \<longleftrightarrow> (\<forall>r l. leases t r = Some l \<longrightarrow>
     lease_ok r l \<and> watermarks t r = Some (fencing_token l))"

lemma table_wfD:
  assumes "table_wf t" and "leases t r = Some l"
  shows "resource_id l = r" and "id_ok r" and "id_ok (holder_id l)" and "ttl_ok (ttl l)"
    and "watermarks t r = Some (fencing_token l)"
  using assms by (auto simp: table_wf_def lease_ok_def)

lemma table_wf_new [keeps]: "table_wf table_new"
  by (simp add: table_wf_def table_new_def)

text \<open>The three ways an operation changes the table keep it.\<close>

lemma table_wf_grant:
  "table_wf t \<Longrightarrow> lease_ok r l \<Longrightarrow>
     table_wf (t\<lparr>leases := (leases t)(r \<mapsto> l), watermarks := (watermarks t)(r \<mapsto> fencing_token l)\<rparr>)"
  by (simp add: table_wf_def)

lemma table_wf_extend:
  "table_wf t \<Longrightarrow> leases t r = Some c \<Longrightarrow> lease_ok r l \<Longrightarrow> fencing_token l = fencing_token c \<Longrightarrow>
     table_wf (t\<lparr>leases := (leases t)(r \<mapsto> l)\<rparr>)"
  by (simp add: table_wf_def)

lemma table_wf_drop: "table_wf t \<Longrightarrow> table_wf (t\<lparr>leases := (leases t)(r := None)\<rparr>)"
  by (simp add: table_wf_def)

lemma table_wf_acquire [keeps]:
  "table_wf t \<Longrightarrow> table_acquire M t r h d now = (x, t') \<Longrightarrow> table_wf t'"
proof (cases x)
  case (Inr l)
  assume "table_wf t" and "table_acquire M t r h d now = (x, t')"
  with Inr have "lease_ok r l"
    and "t' = t\<lparr>leases := (leases t)(r \<mapsto> l), watermarks := (watermarks t)(r \<mapsto> fencing_token l)\<rparr>"
    by (auto simp: acquire_Inr_iff lease_ok_def) (metis lease.select_convs)+
  with \<open>table_wf t\<close> show ?thesis by (simp add: table_wf_grant)
qed (auto dest: acquire_Inl)

lemma table_wf_renew [keeps]:
  assumes "table_wf t" and "table_renew M t r h d now = (x, t')"
  shows "table_wf t'"
proof (cases x)
  case (Inr l)
  with assms obtain l0 where l0: "leases t r = Some l0" "ttl_ok d"
    "l = l0\<lparr>granted_at := now, ttl := d\<rparr>" "t' = t\<lparr>leases := (leases t)(r \<mapsto> l)\<rparr>"
    by (auto simp: renew_Inr_iff)
  with assms(1) have "lease_ok r l" by (auto simp: lease_ok_def dest: table_wfD)
  with assms(1) l0 show ?thesis by (simp add: table_wf_extend)
qed (use assms in \<open>auto dest: renew_Inl\<close>)

lemma table_wf_release [keeps]:
  "table_wf t \<Longrightarrow> table_release t r h = (x, t') \<Longrightarrow> table_wf t'"
  by (cases x) (auto simp: release_Inr_iff table_wf_drop dest: release_Inl)

lemma validate_event_lease_iff:
  "validate_event_lease l ts = Inr u \<longleftrightarrow>
     lease_ok (resource_id l) l \<and> \<bar>granted_at l - ts\<bar> \<le> int MAX_TTL"
  by (auto simp: validate_event_lease_def rbind_eq_Inr lease_ok_def)

lemma apply_grant_Inr_iff:
  "apply_grant t ts l = (Inr u, t') \<longleftrightarrow>
     lease_ok (resource_id l) l \<and> \<bar>granted_at l - ts\<bar> \<le> int MAX_TTL \<and>
     (\<forall>w. watermarks t (resource_id l) = Some w \<longrightarrow> w < fencing_token l) \<and>
     t' = t\<lparr>leases := (leases t)(resource_id l \<mapsto> l),
            watermarks := (watermarks t)(resource_id l \<mapsto> fencing_token l)\<rparr>"
  by (auto simp: apply_grant_def qmark_iffs validate_event_lease_iff table_watermark_def
      split: option.splits if_splits)

lemma apply_renewed_Inr_iff:
  "apply_event M t (Renewed ts l) = (Inr u, t') \<longleftrightarrow>
     lease_ok (resource_id l) l \<and> \<bar>granted_at l - ts\<bar> \<le> int MAX_TTL \<and>
     (\<exists>c. leases t (resource_id l) = Some c \<and> \<not> is_expired M c ts \<and>
        holder_id c = holder_id l \<and> fencing_token c = fencing_token l) \<and>
     t' = t\<lparr>leases := (leases t)(resource_id l \<mapsto> l)\<rparr>"
  by (auto simp: qmark_iffs validate_event_lease_iff split: option.splits if_splits)

lemma apply_released_Inr_iff:
  "apply_event M t (Released ts r h) = (Inr u, t') \<longleftrightarrow>
     (\<exists>c. leases t r = Some c \<and> holder_id c = h) \<and> t' = t\<lparr>leases := (leases t)(r := None)\<rparr>"
  by (auto simp: qmark_iffs split: option.splits if_splits)

lemmas apply_event_iffs = apply_grant_Inr_iff apply_renewed_Inr_iff apply_released_Inr_iff

lemma apply_event_Inl: "apply_event M t e = (Inl x, t') \<Longrightarrow> t' = t"
  by (cases e) (auto simp: apply_grant_def qmark_iffs split: option.splits if_splits)

lemma table_wf_apply_grant: "table_wf t \<Longrightarrow> apply_grant t ts l = (Inr u, t') \<Longrightarrow> table_wf t'"
  by (simp add: apply_grant_Inr_iff table_wf_grant)

lemma table_wf_apply_event [keeps]:
  assumes "table_wf t" and "apply_event M t e = (Inr u, t')"
  shows "table_wf t'"
proof (cases e)
  case (Renewed ts l)
  with assms(2) obtain c where c: "leases t (resource_id l) = Some c" "fencing_token c = fencing_token l"
    "lease_ok (resource_id l) l" "t' = t\<lparr>leases := (leases t)(resource_id l \<mapsto> l)\<rparr>"
    by (simp only: apply_renewed_Inr_iff) blast
  from table_wf_extend [OF assms(1) c(1) c(3)] c show ?thesis by simp
next
  case (Released ts r h)
  with assms(2) have "t' = t\<lparr>leases := (leases t)(r := None)\<rparr>"
    by (simp only: apply_released_Inr_iff)
  with assms(1) show ?thesis by (simp add: table_wf_drop)
qed (use assms in \<open>simp_all add: table_wf_apply_grant\<close>)

subsection \<open>Watermarks only rise\<close>

definition marks_le :: "(bytes \<rightharpoonup> u64) \<Rightarrow> (bytes \<rightharpoonup> u64) \<Rightarrow> bool" where
  "marks_le m m' \<longleftrightarrow> (\<forall>r w. m r = Some w \<longrightarrow> (\<exists>w'. m' r = Some w' \<and> w \<le> w'))"

lemma marks_le_refl [simp, intro]: "marks_le m m"
  by (simp add: marks_le_def)

lemma marks_le_trans [trans]: "marks_le a b \<Longrightarrow> marks_le b c \<Longrightarrow> marks_le a c"
  unfolding marks_le_def by (blast intro: order_trans)

lemma marks_le_raise: "(\<And>w. m r = Some w \<Longrightarrow> w \<le> n) \<Longrightarrow> marks_le m (m(r \<mapsto> n))"
  by (auto simp: marks_le_def)

lemma acquire_marks:
  "table_acquire M t r h d now = (Inr l, t') \<Longrightarrow>
     watermarks t' = (watermarks t)(r \<mapsto> fencing_token l) \<and>
     (\<forall>w. watermarks t r = Some w \<longrightarrow> w < fencing_token l)"
  by (auto simp: acquire_Inr_iff dest: next_token_greater)

lemma table_ops_marks_le:
  "table_acquire M t r h d now = (x, t') \<Longrightarrow> marks_le (watermarks t) (watermarks t')"
  "table_renew M t r h d now = (x, t') \<Longrightarrow> marks_le (watermarks t) (watermarks t')"
  "table_release t r h = (y, t') \<Longrightarrow> marks_le (watermarks t) (watermarks t')"
proof -
  show "table_acquire M t r h d now = (x, t') \<Longrightarrow> marks_le (watermarks t) (watermarks t')"
    by (cases x) (auto dest!: acquire_Inl acquire_marks intro!: marks_le_raise order_less_imp_le)
  show "table_renew M t r h d now = (x, t') \<Longrightarrow> marks_le (watermarks t) (watermarks t')"
    by (cases x) (auto simp: renew_Inr_iff dest!: renew_Inl)
  show "table_release t r h = (y, t') \<Longrightarrow> marks_le (watermarks t) (watermarks t')"
    by (cases y) (auto simp: release_Inr_iff dest!: release_Inl)
qed

lemma apply_event_marks_le:
  assumes "apply_event M t e = (Inr u, t')"
  shows "marks_le (watermarks t) (watermarks t')"
proof (cases e)
  case (Renewed ts l)
  with assms show ?thesis by (simp only: apply_renewed_Inr_iff) auto
next
  case (Released ts r h)
  with assms show ?thesis by (simp only: apply_released_Inr_iff) auto
qed (use assms in \<open>auto simp: apply_grant_Inr_iff intro!: marks_le_raise order_less_imp_le\<close>)

subsection \<open>The interface claimants use\<close>

text \<open>
  What the coordinator, the intent drain and the farm rely on: a grant excludes everyone else
  until it expires and carries a token above every earlier one, a renewal or a release succeeds
  only for the recorded holder, and an error changes nothing. \<open>'io\<close> is what the environment
  contributes to a call (nothing for the bare table, the outcome of the disk for the durable one).
\<close>

locale lease_service =
  fixes acq :: "'io \<Rightarrow> 's \<Rightarrow> bytes \<Rightarrow> bytes \<Rightarrow> nat \<Rightarrow> int \<Rightarrow> ('e + lease) \<times> 's"
    and ren :: "'s \<Rightarrow> bytes \<Rightarrow> bytes \<Rightarrow> nat \<Rightarrow> int \<Rightarrow> ('e + lease) \<times> 's"
    and rel :: "'io \<Rightarrow> 's \<Rightarrow> bytes \<Rightarrow> bytes \<Rightarrow> int \<Rightarrow> ('e + unit) \<times> 's"
    and look :: "'s \<Rightarrow> bytes \<Rightarrow> lease option"
    and mark :: "'s \<Rightarrow> bytes \<Rightarrow> u64 option"
    and inv :: "'s \<Rightarrow> bool"
    and M :: int
  assumes look_mark: "inv s \<Longrightarrow> look s r = Some l \<Longrightarrow> mark s r = Some (fencing_token l)"
    and acq_inv: "inv s \<Longrightarrow> acq io s r h d now = (x, s') \<Longrightarrow> inv s'"
    and ren_inv: "inv s \<Longrightarrow> ren s r h d now = (x, s') \<Longrightarrow> inv s'"
    and rel_inv: "inv s \<Longrightarrow> rel io s r h now = (y, s') \<Longrightarrow> inv s'"
    and acq_ok: "acq io s r h d now = (Inr l, s') \<Longrightarrow>
      holder_id l = h \<and> resource_id l = r \<and> granted_at l = now \<and> ttl l = d \<and> ttl_ok d \<and>
      (\<forall>e. look s r = Some e \<longrightarrow> is_expired M e now) \<and>
      (\<forall>w. mark s r = Some w \<longrightarrow> w < fencing_token l) \<and>
      look s' = (look s)(r \<mapsto> l) \<and> mark s' = (mark s)(r \<mapsto> fencing_token l)"
    and acq_err: "acq io s r h d now = (Inl e, s') \<Longrightarrow> look s' = look s \<and> mark s' = mark s"
    and ren_ok: "ren s r h d now = (Inr l, s') \<Longrightarrow>
      (\<exists>l0. look s r = Some l0 \<and> holder_id l0 = h \<and> \<not> is_expired M l0 now \<and>
         l = l0\<lparr>granted_at := now, ttl := d\<rparr>) \<and>
      look s' = (look s)(r \<mapsto> l) \<and> mark s' = mark s"
    and ren_err: "ren s r h d now = (Inl e, s') \<Longrightarrow> look s' = look s \<and> mark s' = mark s"
    and rel_ok: "rel io s r h now = (Inr u, s') \<Longrightarrow>
      (\<exists>l0. look s r = Some l0 \<and> holder_id l0 = h) \<and>
      look s' = (look s)(r := None) \<and> mark s' = mark s"
    and rel_err: "rel io s r h now = (Inl e, s') \<Longrightarrow> look s' = look s \<and> mark s' = mark s"
begin

lemma held_excludes:
  assumes "look s r = Some l" and "\<not> is_expired M l now"
  shows "\<not> is_ok (fst (acq io s r h d now))"
proof
  assume "is_ok (fst (acq io s r h d now))"
  then obtain l' s' where "acq io s r h d now = (Inr l', s')"
    by (metis is_ok_iff prod.exhaust_sel)
  from acq_ok [OF this] assms show False by blast
qed

lemma grant_excludes:
  assumes "acq io s r h d now = (Inr l, s')" and "\<not> is_expired M l now'"
  shows "\<not> is_ok (fst (acq io' s' r h' d' now'))"
  using acq_ok [OF assms(1)] assms(2) by (intro held_excludes [of s' r l]) auto

lemma stranger_cannot_renew:
  assumes "\<And>l. look s r = Some l \<Longrightarrow> holder_id l \<noteq> h"
  shows "\<not> is_ok (fst (ren s r h d now))"
  using assms ren_ok by (metis is_ok_iff prod.exhaust_sel)

lemma stranger_cannot_release:
  assumes "\<And>l. look s r = Some l \<Longrightarrow> holder_id l \<noteq> h"
  shows "\<not> is_ok (fst (rel io s r h now))"
  using assms rel_ok by (metis is_ok_iff prod.exhaust_sel)

lemma expired_cannot_renew:
  assumes "look s r = Some l" and "is_expired M l now"
  shows "\<not> is_ok (fst (ren s r h d now))"
  using assms ren_ok by (metis is_ok_iff option.inject prod.exhaust_sel)

lemma acq_marks_le: "acq io s r h d now = (x, s') \<Longrightarrow> marks_le (mark s) (mark s')"
proof (cases x)
  case (Inr l)
  assume "acq io s r h d now = (x, s')"
  with Inr acq_ok have "mark s' = (mark s)(r \<mapsto> fencing_token l)"
    and "\<forall>w. mark s r = Some w \<longrightarrow> w < fencing_token l" by blast+
  then show ?thesis by (auto intro!: marks_le_raise order_less_imp_le)
qed (auto dest: acq_err)

lemma ren_marks: "ren s r h d now = (x, s') \<Longrightarrow> mark s' = mark s"
  by (cases x) (auto dest: ren_ok ren_err)

lemma rel_marks: "rel io s r h now = (y, s') \<Longrightarrow> mark s' = mark s"
  by (cases y) (auto dest: rel_ok rel_err)

text \<open>A grant's token is above every token the resource had before, in any earlier state whose
  watermarks the current one dominates.\<close>

lemma later_grant_higher:
  assumes "marks_le (mark s1) (mark s)" and "mark s1 r = Some w"
    and "acq io s r h d now = (Inr l, s')"
  shows "w < fencing_token l"
proof -
  from assms(1,2) obtain w' where "mark s r = Some w'" "w \<le> w'" by (auto simp: marks_le_def)
  with acq_ok [OF assms(3)] show ?thesis by auto
qed

end

interpretation lt: lease_service "\<lambda>_::unit. table_acquire M" "table_renew M"
  "\<lambda>_ t r h _. table_release t r h" leases watermarks table_wf M for M :: int
proof (unfold_locales, goal_cases)
  case (1 s r l)
  then show ?case by (rule table_wfD)
next
  case (2 s io r h d now x s')
  then show ?case by (rule table_wf_acquire)
next
  case (3 s r h d now x s')
  then show ?case by (rule table_wf_renew)
next
  case (4 s io r h now y s')
  then show ?case by (rule table_wf_release)
next
  case (5 io s r h d now l s')
  note acq = 5 [unfolded acquire_Inr_iff]
  from acq have l: "l = \<lparr>resource_id = r, holder_id = h, fencing_token = fencing_token l,
    granted_at = now, ttl = d\<rparr>" by blast
  from acq have "\<forall>w. watermarks s r = Some w \<longrightarrow> w < fencing_token l"
    by (blast dest: next_token_greater)
  with acq l show ?case by (auto simp: free_at_def) (metis lease.select_convs)+
qed (auto simp: renew_Inr_iff release_Inr_iff dest: table_op_errors)

end
