(* ===== verification/LeaseWal.thy ===== *)
theory LeaseWal
  imports Lease
begin

text \<open>
  \<open>src/coordinator/wal.rs\<close>: the lease event log, a file of JSON lines.

  The log is the bytes of the file and the poisoned flag. \<open>serde_json\<close> is a parameter: a record
  of the encoder and the decoder of one line, with what it promises in \<open>codec_ok\<close>. The outcome of
  every system call is a parameter too, so each failure the code handles is a branch here.
\<close>

subsection \<open>Data\<close>

definition WAL_VERSION :: u32 where
  "WAL_VERSION = 1"

definition MAX_LINE_BYTES :: nat where
  "MAX_LINE_BYTES = 64 * 1024"

datatype io_error = WouldBlock | NotFound | InvalidInput | InvalidData | OtherIo

text \<open>\<open>serde_json::to_string\<close> of a \<open>WalLineRef\<close> and \<open>from_str\<close> of a \<open>WalLine\<close>.\<close>

record wal_codec =
  enc :: "u32 \<Rightarrow> lease_event \<Rightarrow> bytes option"
  dec :: "bytes \<Rightarrow> (u32 \<times> lease_event) option"

datatype replay_error =
    ReplayIo io_error
  | Locked
  | Corrupt nat
  | Version nat u32
  | ApplyAt nat apply_error

record raw_line =
  line_number :: nat
  line_bytes :: bytes
  line_terminated :: bool

record lease_wal =
  contents :: bytes
  poisoned :: bool

subsection \<open>Opening: modes, links, the lock\<close>

text \<open>The directory the log lives in, as far as \<open>LeaseWal::new\<close> looks at it.\<close>

datatype file_kind = RegularFile | SymbolicLink | SpecialFile

record dir_entry =
  entry_kind :: file_kind
  entry_data :: bytes
  entry_mode :: nat
  entry_links :: nat

record wal_dir =
  dir_mode :: nat
  wal_entry :: "dir_entry option"
  lock_taken :: bool

text \<open>The system calls that may fail, and the errors they fail with.\<close>

datatype wal_call =
    CreateDir | DirMeta | DirChmod | OpenFile | FileMeta | FileChmod
  | TailMeta | TailRead | TailSetLen | TailSync | SyncDir

type_synonym faults = "wal_call \<Rightarrow> io_error option"

definition sys :: "faults \<Rightarrow> wal_call \<Rightarrow> io_error + unit" where
  "sys io c = (case io c of None \<Rightarrow> Inr () | Some e \<Rightarrow> Inl e)"

definition loose :: "nat \<Rightarrow> bool" where
  "loose mode \<longleftrightarrow> take_bit 6 mode \<noteq> 0"

text \<open>The modes are octal in the source: \<open>0o077\<close> is the low six bits, \<open>0o700\<close> is
  \<open>0x1C0\<close>, \<open>0o600\<close> is \<open>0x180\<close>.\<close>

definition tighten_dir_modes :: "faults \<Rightarrow> wal_dir \<Rightarrow> (io_error + unit) \<times> wal_dir" where
  "tighten_dir_modes io d =
     qmark (sys io DirMeta) d (\<lambda>_.
       if loose (dir_mode d)
       then qmark (sys io DirChmod) d (\<lambda>_. (Inr (), d\<lparr>dir_mode := 0x1C0\<rparr>))
       else (Inr (), d))"

definition tighten_file_modes :: "faults \<Rightarrow> dir_entry \<Rightarrow> (io_error + unit) \<times> dir_entry" where
  "tighten_file_modes io f =
     (if entry_links f \<noteq> 1 then (Inl InvalidInput, f)
      else if loose (entry_mode f)
      then qmark (sys io FileChmod) f (\<lambda>_. (Inr (), f\<lparr>entry_mode := 0x180\<rparr>))
      else (Inr (), f))"

text \<open>
  The scan of \<open>repair_tail\<close>: \<open>keep\<close> is one past the last newline seen, whatever the chunks
  the file is read in.
\<close>

fun scan_keep :: "nat \<Rightarrow> nat \<Rightarrow> bytes \<Rightarrow> nat" where
  "scan_keep offset keep [] = keep"
| "scan_keep offset keep (b # bs) =
     scan_keep (offset + 1) (if b = newline then offset + 1 else keep) bs"

definition repair_tail :: "faults \<Rightarrow> bytes \<Rightarrow> (io_error + unit) \<times> bytes" where
  "repair_tail io c =
     qmark (sys io TailMeta) c (\<lambda>_.
       if length c = 0 then (Inr (), c)
       else qmark (sys io TailRead) c (\<lambda>_.
         let keep = scan_keep 0 0 c
         in if keep < length c
            then qmark (sys io TailSetLen) c (\<lambda>_.
                 qmark (sys io TailSync) (take keep c) (\<lambda>_. (Inr (), take keep c)))
            else (Inr (), c)))"

text \<open>
  \<open>LeaseWal::new\<close>. \<open>open\<close> creates a missing file, empty, with mode 0600; the error of a
  taken lock is \<open>WouldBlock\<close>.
\<close>

definition fresh_entry :: dir_entry where
  "fresh_entry = \<lparr>entry_kind = RegularFile, entry_data = [], entry_mode = 0x180, entry_links = 1\<rparr>"

definition opened_entry :: "wal_dir \<Rightarrow> dir_entry" where
  "opened_entry d = (case wal_entry d of None \<Rightarrow> fresh_entry | Some f \<Rightarrow> f)"

definition wal_lock_and_repair ::
  "faults \<Rightarrow> wal_dir \<Rightarrow> dir_entry \<Rightarrow> (io_error + lease_wal) \<times> wal_dir" where
  "wal_lock_and_repair io d f =
     (if lock_taken d then (Inl WouldBlock, d)
      else (case repair_tail io (entry_data f) of
          (Inl e, c) \<Rightarrow> (Inl e, d\<lparr>wal_entry := Some (f\<lparr>entry_data := c\<rparr>)\<rparr>)
        | (Inr _, c) \<Rightarrow>
            (let d' = d\<lparr>wal_entry := Some (f\<lparr>entry_data := c\<rparr>)\<rparr>
             in qmark (sys io SyncDir) d' (\<lambda>_.
                (Inr \<lparr>contents = c, poisoned = False\<rparr>, d'\<lparr>lock_taken := True\<rparr>)))))"

definition wal_new :: "faults \<Rightarrow> wal_dir \<Rightarrow> (io_error + lease_wal) \<times> wal_dir" where
  "wal_new io d0 =
     qmark (sys io CreateDir) d0 (\<lambda>_.
     case tighten_dir_modes io d0 of
       (Inl e, d) \<Rightarrow> (Inl e, d)
     | (Inr _, d) \<Rightarrow>
         if wal_entry d \<noteq> None \<and> entry_kind (the (wal_entry d)) = SymbolicLink
         then (Inl InvalidInput, d)
         else qmark (sys io OpenFile) d (\<lambda>_.
           let f = opened_entry d; d1 = d\<lparr>wal_entry := Some f\<rparr>
           in qmark (sys io FileMeta) d1 (\<lambda>_.
             if entry_kind f \<noteq> RegularFile then (Inl InvalidInput, d1)
             else (case tighten_file_modes io f of
                 (Inl e, f1) \<Rightarrow> (Inl e, d1\<lparr>wal_entry := Some f1\<rparr>)
               | (Inr _, f1) \<Rightarrow> wal_lock_and_repair io (d1\<lparr>wal_entry := Some f1\<rparr>) f1))))"

subsection \<open>Appending\<close>

text \<open>
  What the disk does to one append: the length it reports, how much of the line is written, the
  fsync, and the rewind that follows a failure (\<open>None\<close> is success).
\<close>

datatype write_result = WriteAll | WriteShort nat io_error

record append_io =
  meta_res :: "io_error option"
  write_res :: write_result
  sync_res :: "io_error option"
  rewind_len :: "io_error option"
  rewind_sync :: "io_error option"

definition io_fine :: append_io where
  "io_fine = \<lparr>meta_res = None, write_res = WriteAll, sync_res = None, rewind_len = None,
              rewind_sync = None\<rparr>"

definition written :: "write_result \<Rightarrow> bytes \<Rightarrow> bytes" where
  "written r line = (case r of WriteAll \<Rightarrow> line | WriteShort n _ \<Rightarrow> take n line)"

definition write_error :: "append_io \<Rightarrow> io_error option" where
  "write_error io = (case write_res io of WriteAll \<Rightarrow> sync_res io | WriteShort _ e \<Rightarrow> Some e)"

definition wal_append ::
  "wal_codec \<Rightarrow> append_io \<Rightarrow> lease_wal \<Rightarrow> lease_event \<Rightarrow> (io_error + unit) \<times> lease_wal" where
  "wal_append K io w e =
     (if poisoned w then (Inl OtherIo, w)
      else (case enc K WAL_VERSION e of
        None \<Rightarrow> (Inl InvalidData, w)
      | Some text \<Rightarrow>
          (let line = text @ [newline]
           in case meta_res io of
             Some err \<Rightarrow> (Inl err, w)
           | None \<Rightarrow>
             (let before = length (contents w);
                  c1 = contents w @ written (write_res io) line
              in case write_error io of
                None \<Rightarrow> (Inr (), w\<lparr>contents := c1\<rparr>)
              | Some err \<Rightarrow>
                  (case rewind_len io of
                     Some _ \<Rightarrow> (Inl OtherIo, w\<lparr>contents := c1, poisoned := True\<rparr>)
                   | None \<Rightarrow>
                     (case rewind_sync io of
                        Some _ \<Rightarrow> (Inl OtherIo, w\<lparr>contents := take before c1, poisoned := True\<rparr>)
                      | None \<Rightarrow> (Inl err, w\<lparr>contents := take before c1\<rparr>)))))))"

subsection \<open>Reading\<close>

text \<open>
  \<open>(&mut reader).take(n).read_until(newline)\<close>: the bytes up to and with the first newline,
  \<open>n\<close> at most, and what is left to read.
\<close>

definition read_until :: "nat \<Rightarrow> bytes \<Rightarrow> bytes \<times> bytes" where
  "read_until n bs =
     (let l = takeWhile (\<lambda>b. b \<noteq> newline) bs
      in if length l < n \<and> length l < length bs
         then (l @ [newline], drop (length l + 1) bs) else (take n bs, drop n bs))"

function read_raw_from :: "nat \<Rightarrow> bytes \<Rightarrow> raw_line list" where
  "read_raw_from number bs =
     (let (buf, rest) = read_until (MAX_LINE_BYTES + 1) bs
      in if buf = [] then []
         else (let terminated = (last buf = newline);
                   text = (if terminated then butlast buf else buf);
                   l = \<lparr>line_number = number + 1, line_bytes = text, line_terminated = terminated\<rparr>
               in l # (if \<not> terminated \<and> MAX_LINE_BYTES < length text then []
                       else read_raw_from (number + 1) rest)))"
  by pat_completeness auto
termination
  by (relation "measure (length \<circ> snd)") (auto simp: read_until_def Let_def split: if_splits)

declare read_raw_from.simps [simp del]

text \<open>
  \<open>read_raw\<close> opens the file again: a missing file reads as empty, any other failure of the
  open or of a read is returned.
\<close>

datatype read_io = ReadFine | OpenFails io_error | ReadFails io_error

fun read_raw :: "read_io \<Rightarrow> bytes \<Rightarrow> io_error + raw_line list" where
  "read_raw (OpenFails e) c = (if e = NotFound then Inr [] else Inl e)"
| "read_raw (ReadFails e) c = Inl e"
| "read_raw ReadFine c = Inr (read_raw_from 0 c)"

definition decode_line :: "wal_codec \<Rightarrow> bytes \<Rightarrow> (u32 \<times> lease_event) option" where
  "decode_line K bs = (if valid_utf8 bs then dec K bs else None)"

fun parse_lines :: "wal_codec \<Rightarrow> raw_line list \<Rightarrow> replay_error + (nat \<times> lease_event) list" where
  "parse_lines K [] = Inr []"
| "parse_lines K (l # ls) =
     (if list_all ascii_whitespace (line_bytes l) then parse_lines K ls
      else if MAX_LINE_BYTES < length (line_bytes l) then Inl (Corrupt (line_number l))
      else (case decode_line K (line_bytes l) of
          Some (v, e) \<Rightarrow>
            (if v = WAL_VERSION
             then rbind (parse_lines K ls) (\<lambda>es. Inr ((line_number l, e) # es))
             else Inl (Version (line_number l) v))
        | None \<Rightarrow>
            (if \<not> line_terminated l then parse_lines K ls else Inl (Corrupt (line_number l)))))"

definition read_numbered ::
  "wal_codec \<Rightarrow> read_io \<Rightarrow> lease_wal \<Rightarrow> replay_error + (nat \<times> lease_event) list" where
  "read_numbered K rio w = rbind (map_err ReplayIo (read_raw rio (contents w))) (parse_lines K)"

definition wal_read :: "wal_codec \<Rightarrow> read_io \<Rightarrow> lease_wal \<Rightarrow> replay_error + lease_event list" where
  "wal_read K rio w = rbind (read_numbered K rio w) (\<lambda>es. Inr (map snd es))"

fun replay_fold ::
  "int \<Rightarrow> lease_table \<Rightarrow> (nat \<times> lease_event) list \<Rightarrow> replay_error + lease_table" where
  "replay_fold M t [] = Inr t"
| "replay_fold M t ((n, e) # es) =
     (case apply_event M t e of
        (Inl err, _) \<Rightarrow> Inl (ApplyAt n err)
      | (Inr _, t') \<Rightarrow> replay_fold M t' es)"

definition replay ::
  "wal_codec \<Rightarrow> int \<Rightarrow> read_io \<Rightarrow> lease_wal \<Rightarrow> replay_error + lease_table" where
  "replay K M rio w = rbind (read_numbered K rio w) (replay_fold M table_new)"

subsection \<open>What the codec promises\<close>

text \<open>
  What \<open>serde_json\<close> is relied on for: the line it writes of an event whose ids the table accepts
  (at most 128 plain characters each) holds no raw newline, is short, not blank, and reads back
  as the version and the event it was written from.
\<close>

fun event_ids_ok :: "lease_event \<Rightarrow> bool" where
  "event_ids_ok (Acquired ts l) \<longleftrightarrow> lease_ok (resource_id l) l"
| "event_ids_ok (Reclaimed ts l) \<longleftrightarrow> lease_ok (resource_id l) l"
| "event_ids_ok (Renewed ts l) \<longleftrightarrow> lease_ok (resource_id l) l"
| "event_ids_ok (Released ts r h) \<longleftrightarrow> id_ok r \<and> id_ok h"

lemma apply_event_ids:
  assumes "table_wf t" and "apply_event M t e = (Inr u, t')"
  shows "event_ids_ok e"
proof (cases e)
  case (Renewed ts l)
  with assms(2) show ?thesis by (simp only: apply_renewed_Inr_iff event_ids_ok.simps)
next
  case (Released ts r h)
  with assms show ?thesis by (simp only: apply_released_Inr_iff) (auto dest: table_wfD)
qed (use assms(2) in \<open>simp_all add: apply_grant_Inr_iff\<close>)

definition loggable :: "wal_codec \<Rightarrow> lease_event \<Rightarrow> bool" where
  "loggable K e \<longleftrightarrow> enc K WAL_VERSION e \<noteq> None \<and> event_ids_ok e"

definition codec_ok :: "wal_codec \<Rightarrow> bool" where
  "codec_ok K \<longleftrightarrow> (\<forall>e text. event_ids_ok e \<and> enc K WAL_VERSION e = Some text \<longrightarrow>
     newline \<notin> set text \<and> length text \<le> MAX_LINE_BYTES \<and> valid_utf8 text \<and>
     \<not> list_all ascii_whitespace text \<and> dec K text = Some (WAL_VERSION, e))"

lemma codec_okD [codec]:
  assumes "codec_ok K" and "event_ids_ok e" and "enc K WAL_VERSION e = Some text"
  shows "newline \<notin> set text" and "length text \<le> MAX_LINE_BYTES"
    and "\<not> list_all ascii_whitespace text" and "decode_line K text = Some (WAL_VERSION, e)"
  using assms by (auto simp: codec_ok_def decode_line_def)

definition enc_line :: "wal_codec \<Rightarrow> lease_event \<Rightarrow> bytes" where
  "enc_line K e = the (enc K WAL_VERSION e)"

definition encodable :: "wal_codec \<Rightarrow> lease_event list \<Rightarrow> bool" where
  "encodable K es \<longleftrightarrow> (\<forall>e \<in> set es. loggable K e)"

definition log_bytes :: "wal_codec \<Rightarrow> lease_event list \<Rightarrow> bytes" where
  "log_bytes K es = unlines (map (enc_line K) es)"

lemma encodable_simps [simp]:
  "encodable K []"
  "encodable K (e # es) \<longleftrightarrow> loggable K e \<and> encodable K es"
  "encodable K (es @ fs) \<longleftrightarrow> encodable K es \<and> encodable K fs"
  by (auto simp: encodable_def)

lemma log_bytes_simps [simp]:
  "log_bytes K [] = []"
  "log_bytes K (es @ [e]) = log_bytes K es @ enc_line K e @ [newline]"
  by (simp_all add: log_bytes_def)

lemma terminated_log [simp]: "terminated_bytes (log_bytes K es)"
  by (simp add: log_bytes_def)

subsection \<open>Tail repair\<close>

lemma scan_keep_append:
  "scan_keep i k (xs @ ys) = scan_keep (i + length xs) (scan_keep i k xs) ys"
  by (induction xs arbitrary: i k) auto

lemma scan_keep_none: "newline \<notin> set t \<Longrightarrow> scan_keep i k t = k"
  by (induction t arbitrary: i k) auto

lemma scan_keep_split:
  assumes "terminated_bytes p" and "newline \<notin> set t"
  shows "scan_keep 0 0 (p @ t) = length p"
proof (cases p rule: rev_cases)
  case Nil
  with assms show ?thesis by (simp add: scan_keep_none)
next
  case (snoc q b)
  with assms show ?thesis by (simp add: scan_keep_append scan_keep_none terminated_bytes_def)
qed

lemma repair_tail_split:
  assumes "terminated_bytes p" and "newline \<notin> set t" and "repair_tail io (p @ t) = (Inr u, c)"
  shows "c = p"
  using assms(3)
  by (auto simp: repair_tail_def scan_keep_split [OF assms(1,2)] qmark_Inr_iff Let_def
      split: if_splits)

subsection \<open>Reading back what was written\<close>

lemma read_until_line:
  "newline \<notin> set l \<Longrightarrow> length l < n \<Longrightarrow> read_until n (l @ newline # r) = (l @ [newline], r)"
  by (simp add: read_until_def)

lemma read_until_tail: "newline \<notin> set t \<Longrightarrow> read_until n t = (take n t, drop n t)"
  by (simp add: read_until_def)

fun raw_of :: "nat \<Rightarrow> bytes list \<Rightarrow> raw_line list" where
  "raw_of n [] = []"
| "raw_of n (l # ls) =
     \<lparr>line_number = n + 1, line_bytes = l, line_terminated = True\<rparr> # raw_of (n + 1) ls"

definition short_line :: "bytes \<Rightarrow> bool" where
  "short_line l \<longleftrightarrow> newline \<notin> set l \<and> length l \<le> MAX_LINE_BYTES"

lemma read_raw_line:
  assumes "short_line l"
  shows "read_raw_from n (l @ newline # r) =
    \<lparr>line_number = n + 1, line_bytes = l, line_terminated = True\<rparr> # read_raw_from (n + 1) r"
  using assms by (subst read_raw_from.simps) (simp add: read_until_line short_line_def)

lemma read_raw_lines:
  "list_all short_line ls \<Longrightarrow>
     read_raw_from n (unlines ls @ r) = raw_of n ls @ read_raw_from (n + length ls) r"
  by (induction ls arbitrary: n) (auto simp: read_raw_line)

lemma read_raw_nil [simp]: "read_raw_from n [] = []"
  by (subst read_raw_from.simps) (simp add: read_until_def)

lemma read_raw_tail:
  assumes "newline \<notin> set t" and "t \<noteq> []" and "length t \<le> MAX_LINE_BYTES"
  shows "read_raw_from n t = [\<lparr>line_number = n + 1, line_bytes = t, line_terminated = False\<rparr>]"
proof -
  from assms(1,2) have "last t \<noteq> newline" by (metis last_in_set)
  with assms show ?thesis by (subst read_raw_from.simps) (simp add: read_until_tail)
qed

fun num_events :: "nat \<Rightarrow> lease_event list \<Rightarrow> (nat \<times> lease_event) list" where
  "num_events n [] = []"
| "num_events n (e # es) = (n + 1, e) # num_events (n + 1) es"

lemma map_snd_num_events [simp]: "map snd (num_events n es) = es"
  by (induction es arbitrary: n) auto

lemma enc_line_ok:
  assumes "codec_ok K" and "loggable K e"
  shows "short_line (enc_line K e)" and "\<not> list_all ascii_whitespace (enc_line K e)"
    and "decode_line K (enc_line K e) = Some (WAL_VERSION, e)"
  using assms codec_okD [OF assms(1)] by (auto simp: enc_line_def short_line_def loggable_def)

lemma short_lines_log:
  "codec_ok K \<Longrightarrow> encodable K es \<Longrightarrow> list_all short_line (map (enc_line K) es)"
  by (induction es) (auto dest: enc_line_ok)

lemma parse_lines_log:
  assumes "codec_ok K" and "encodable K es"
  shows "parse_lines K (raw_of n (map (enc_line K) es) @ ls) =
    rbind (parse_lines K ls) (\<lambda>r. Inr (num_events n es @ r))"
  using assms(2)
proof (induction es arbitrary: n)
  case Nil
  show ?case by (cases "parse_lines K ls") simp_all
next
  case (Cons e es)
  then have "loggable K e" and "encodable K es" by auto
  note line = enc_line_ok [OF assms(1) this(1)]
  from line(1) have "\<not> MAX_LINE_BYTES < length (enc_line K e)" by (simp add: short_line_def)
  with line(2,3) Cons.IH [OF \<open>encodable K es\<close>, of "n + 1"] show ?case
    by (cases "parse_lines K ls") simp_all
qed

text \<open>
  A torn tail: a proper prefix of some line, or anything else the decoder refuses. It is
  dropped on reading, as it is by the repair at open.
\<close>

definition torn_tail :: "wal_codec \<Rightarrow> bytes \<Rightarrow> bool" where
  "torn_tail K t \<longleftrightarrow> newline \<notin> set t \<and> length t \<le> MAX_LINE_BYTES \<and>
     (list_all ascii_whitespace t \<or> decode_line K t = None)"

lemma read_numbered_log:
  assumes "codec_ok K" and "encodable K es"
    and "contents w = log_bytes K es @ t" and "torn_tail K t"
  shows "read_numbered K ReadFine w = Inr (num_events 0 es)"
proof -
  have tail: "parse_lines K (read_raw_from (length es) t) = Inr []"
    using assms(4) by (cases "t = []") (auto simp: torn_tail_def read_raw_tail)
  have "read_raw ReadFine (contents w) = Inr (raw_of 0 (map (enc_line K) es) @ read_raw_from (length es) t)"
    using read_raw_lines [OF short_lines_log [OF assms(1,2)], of 0 t] assms(3)
    by (simp add: log_bytes_def)
  with tail show ?thesis by (simp add: read_numbered_def parse_lines_log [OF assms(1,2)])
qed

lemma torn_tail_nil [simp]: "torn_tail K []"
  by (simp add: torn_tail_def)

subsection \<open>Replaying a list of events\<close>

fun apply_all :: "int \<Rightarrow> lease_table \<Rightarrow> lease_event list \<Rightarrow> lease_table option" where
  "apply_all M t [] = Some t"
| "apply_all M t (e # es) =
     (case apply_event M t e of (Inl _, _) \<Rightarrow> None | (Inr _, t') \<Rightarrow> apply_all M t' es)"

lemma apply_all_append:
  "apply_all M t (es @ fs) =
     (case apply_all M t es of None \<Rightarrow> None | Some t' \<Rightarrow> apply_all M t' fs)"
  by (induction es arbitrary: t) (auto split: prod.splits sum.splits)

lemma replay_fold_num: "apply_all M t es = Some t' \<Longrightarrow> replay_fold M t (num_events n es) = Inr t'"
  by (induction es arbitrary: t n) (auto split: prod.splits sum.splits)

lemma replay_log:
  assumes "codec_ok K" and "encodable K es" and "contents w = log_bytes K es @ t"
    and "torn_tail K t" and "apply_all M table_new es = Some tbl"
  shows "replay K M ReadFine w = Inr tbl"
  by (simp add: replay_def read_numbered_log [OF assms(1-4)] replay_fold_num [OF assms(5)])

lemma apply_all_wf: "apply_all M t es = Some t' \<Longrightarrow> table_wf t \<Longrightarrow> table_wf t'"
  by (induction es arbitrary: t) (auto split: prod.splits sum.splits dest: table_wf_apply_event)

lemma replay_fold_wf: "replay_fold M t es = Inr t' \<Longrightarrow> table_wf t \<Longrightarrow> table_wf t'"
  by (induction M t es rule: replay_fold.induct)
    (auto split: prod.splits sum.splits dest: table_wf_apply_event)

subsection \<open>Failure of an append\<close>

lemma wal_append_Inr_iff:
  "wal_append K io w e = (Inr u, w') \<longleftrightarrow>
     \<not> poisoned w \<and> enc K WAL_VERSION e \<noteq> None \<and> meta_res io = None \<and> write_error io = None \<and>
     w' = w\<lparr>contents := contents w @ enc_line K e @ [newline]\<rparr>"
  by (auto simp: wal_append_def Let_def enc_line_def write_error_def written_def
      split: option.splits write_result.splits)

lemma written_take: "\<exists>n. written r line = take n line"
  by (cases r) (auto simp: written_def intro: exI [of _ "length line"])

lemma wal_append_Inl:
  assumes "wal_append K io w e = (Inl err, w')"
  shows "w' = w \<or> (\<not> poisoned w \<and> poisoned w' \<and> enc K WAL_VERSION e \<noteq> None \<and>
    (\<exists>n. contents w' = contents w @ take n (enc_line K e @ [newline])))"
proof (cases "\<exists>text. \<not> poisoned w \<and> enc K WAL_VERSION e = Some text \<and> meta_res io = None")
  case True
  then obtain s where t: "\<not> poisoned w" "enc K WAL_VERSION e = Some s" "meta_res io = None"
    by blast
  obtain n where "written (write_res io) (s @ [newline]) = take n (s @ [newline])"
    using written_take by blast
  with assms t show ?thesis
    by (auto simp: wal_append_def Let_def enc_line_def split: option.splits
        intro: exI [of _ n] exI [of _ 0])
next
  case False
  with assms show ?thesis by (auto simp: wal_append_def Let_def split: option.splits if_splits)
qed

end
