(* ===== verification/Fenced.thy ===== *)
theory Fenced
  imports Lease
begin

text \<open>
  \<open>src/coordinator/fenced.rs\<close>: the guard at the protected resource. It remembers the highest
  token it has accepted and rejects every lower one.
\<close>

record fenced_resource =
  high_water :: "u64 option"

datatype rejected = Rejected u64 u64

definition fenced_new :: fenced_resource where
  "fenced_new = \<lparr>high_water = None\<rparr>"

definition fenced_at :: "u64 \<Rightarrow> fenced_resource" where
  "fenced_at w = \<lparr>high_water = Some w\<rparr>"

definition accept :: "fenced_resource \<Rightarrow> u64 \<Rightarrow> (rejected + unit) \<times> fenced_resource" where
  "accept g token =
     (case high_water g of
        Some high \<Rightarrow>
          (if token < high then (Inl (Rejected token high), g)
           else (Inr (), g\<lparr>high_water := Some token\<rparr>))
      | None \<Rightarrow> (Inr (), g\<lparr>high_water := Some token\<rparr>))"

lemma accept_Inr_iff:
  "accept g token = (Inr u, g') \<longleftrightarrow>
     (\<forall>high. high_water g = Some high \<longrightarrow> high \<le> token) \<and> g' = g\<lparr>high_water := Some token\<rparr>"
  by (auto simp: accept_def split: option.splits)

lemma accept_Inl_iff:
  "accept g token = (Inl e, g') \<longleftrightarrow>
     (\<exists>high. high_water g = Some high \<and> token < high \<and> e = Rejected token high) \<and> g' = g"
  by (auto simp: accept_def split: option.splits)

text \<open>A run of presented tokens: the verdicts in order, and the guard it leaves.\<close>

fun accept_all :: "fenced_resource \<Rightarrow> u64 list \<Rightarrow> bool list \<times> fenced_resource" where
  "accept_all g [] = ([], g)"
| "accept_all g (t # ts) =
     (let (r, g') = accept g t; (bs, g'') = accept_all g' ts in (is_ok r # bs, g''))"

text \<open>
  The contract of a guard: an accepted token becomes the high water, a lower one is refused and
  changes nothing.
\<close>

locale fence =
  fixes adm :: "'g \<Rightarrow> u64 \<Rightarrow> ('r + unit) \<times> 'g"
    and level :: "'g \<Rightarrow> u64 option"
  assumes adm_ok: "adm g t = (Inr u, g') \<Longrightarrow>
      (\<forall>w. level g = Some w \<longrightarrow> w \<le> t) \<and> level g' = Some t"
    and adm_err: "adm g t = (Inl e, g') \<Longrightarrow> g' = g \<and> (\<exists>w. level g = Some w \<and> t < w)"
begin

lemma stale_refused: "level g = Some w \<Longrightarrow> t < w \<Longrightarrow> \<not> is_ok (fst (adm g t))"
  by (metis adm_ok is_ok_iff leD prod.exhaust_sel)

lemma current_admitted: "\<forall>w. level g = Some w \<longrightarrow> w \<le> t \<Longrightarrow> is_ok (fst (adm g t))"
  by (metis adm_err is_ok_iff leD old.sum.exhaust prod.exhaust_sel)

lemma level_rises: "adm g t = (x, g') \<Longrightarrow> level g = Some w \<Longrightarrow> \<exists>w'. level g' = Some w' \<and> w \<le> w'"
  by (cases x) (auto dest: adm_ok adm_err)

end

interpretation fg: fence accept high_water
  by unfold_locales (auto simp: accept_Inr_iff accept_Inl_iff)

lemma accept_all_rises:
  "accept_all g ts = (bs, g') \<Longrightarrow> high_water g = Some w \<Longrightarrow>
     \<exists>w'. high_water g' = Some w' \<and> w \<le> w'"
proof (induction ts arbitrary: g w bs g')
  case (Cons t ts)
  obtain r g1 where a: "accept g t = (r, g1)" by force
  obtain bs' g2 where b: "accept_all g1 ts = (bs', g2)" by force
  from fg.level_rises [OF a Cons.prems(2)] obtain w1 where "high_water g1 = Some w1" "w \<le> w1"
    by blast
  with Cons.IH [OF b] Cons.prems(1) a b show ?case by (fastforce intro: order_trans)
qed simp

end
