(* ===== verification/Durable.thy ===== *)
theory Durable
  imports LeaseWal Fenced
begin

text \<open>
  \<open>src/coordinator/durable.rs\<close>: the lease table whose every grant is on disk before it is
  returned. Each mutation is staged on a copy, appended to the log, and only then installed.
\<close>

record durable =
  tbl :: lease_table
  wal :: lease_wal

datatype durable_error = LeaseErr lease_error | WalErr io_error

text \<open>
  \<open>DurableLeaseTable::open\<close>. When the replay fails the log is dropped, which unlocks it.
\<close>

definition durable_open ::
  "wal_codec \<Rightarrow> int \<Rightarrow> faults \<Rightarrow> read_io \<Rightarrow> wal_dir \<Rightarrow> (replay_error + durable) \<times> wal_dir" where
  "durable_open K M io rio dir =
     (case wal_new io dir of
        (Inl e, d) \<Rightarrow> (Inl (if e = WouldBlock then Locked else ReplayIo e), d)
      | (Inr w, d) \<Rightarrow>
          (case replay K M rio w of
             Inl x \<Rightarrow> (Inl x, d\<lparr>lock_taken := False\<rparr>)
           | Inr t \<Rightarrow> (Inr \<lparr>tbl = t, wal = w\<rparr>, d)))"

definition grant_event :: "int \<Rightarrow> lease_table \<Rightarrow> bytes \<Rightarrow> int \<Rightarrow> lease \<Rightarrow> lease_event" where
  "grant_event M t r now l =
     (let reclaim = (case table_get t r of None \<Rightarrow> False | Some e \<Rightarrow> is_expired M e now)
      in if reclaim then Reclaimed now l else Acquired now l)"

definition durable_acquire ::
  "wal_codec \<Rightarrow> int \<Rightarrow> append_io \<Rightarrow> durable \<Rightarrow> bytes \<Rightarrow> bytes \<Rightarrow> nat \<Rightarrow> int \<Rightarrow>
     (durable_error + lease) \<times> durable" where
  "durable_acquire K M io d r h q now =
     (case table_acquire M (tbl d) r h q now of
        (Inl e, _) \<Rightarrow> (Inl (LeaseErr e), d)
      | (Inr l, staged) \<Rightarrow>
          (case wal_append K io (wal d) (grant_event M (tbl d) r now l) of
             (Inl e, w) \<Rightarrow> (Inl (WalErr e), d\<lparr>wal := w\<rparr>)
           | (Inr _, w) \<Rightarrow> (Inr l, d\<lparr>wal := w, tbl := staged\<rparr>)))"

definition durable_renew ::
  "int \<Rightarrow> durable \<Rightarrow> bytes \<Rightarrow> bytes \<Rightarrow> nat \<Rightarrow> int \<Rightarrow> (durable_error + lease) \<times> durable" where
  "durable_renew M d r h q now =
     (case table_renew M (tbl d) r h q now of
        (x, t) \<Rightarrow> (map_err LeaseErr x, d\<lparr>tbl := t\<rparr>))"

definition durable_release ::
  "wal_codec \<Rightarrow> append_io \<Rightarrow> durable \<Rightarrow> bytes \<Rightarrow> bytes \<Rightarrow> int \<Rightarrow> (durable_error + unit) \<times> durable" where
  "durable_release K io d r h now =
     (case table_release (tbl d) r h of
        (Inl e, _) \<Rightarrow> (Inl (LeaseErr e), d)
      | (Inr _, staged) \<Rightarrow>
          (case wal_append K io (wal d) (Released now r h) of
             (Inl e, w) \<Rightarrow> (Inl (WalErr e), d\<lparr>wal := w\<rparr>)
           | (Inr _, w) \<Rightarrow> (Inr (), d\<lparr>wal := w, tbl := staged\<rparr>)))"

definition durable_get :: "durable \<Rightarrow> bytes \<Rightarrow> lease option" where
  "durable_get d r = table_get (tbl d) r"

text \<open>
  \<open>leases\<close>: the leases of the table in the order the hash map iterates, which nothing
  fixes; \<open>ls\<close> is one possible answer.
\<close>

definition durable_leases :: "durable \<Rightarrow> lease list \<Rightarrow> bool" where
  "durable_leases d ls \<longleftrightarrow> distinct ls \<and> set ls = ran (leases (tbl d))"

subsection \<open>Each operation, success and failure\<close>

lemma durable_acquire_Inr_iff:
  "durable_acquire K M io d r h q now = (Inr l, d') \<longleftrightarrow>
     (\<exists>staged w. table_acquire M (tbl d) r h q now = (Inr l, staged) \<and>
        wal_append K io (wal d) (grant_event M (tbl d) r now l) = (Inr (), w) \<and>
        d' = \<lparr>tbl = staged, wal = w\<rparr>)"
  by (cases d) (auto simp: durable_acquire_def split: prod.splits sum.splits)

lemma durable_acquire_Inl:
  "durable_acquire K M io d r h q now = (Inl e, d') \<Longrightarrow>
     d' = d \<or> (\<exists>l staged w err. table_acquire M (tbl d) r h q now = (Inr l, staged) \<and>
       wal_append K io (wal d) (grant_event M (tbl d) r now l) = (Inl err, w) \<and>
       d' = d\<lparr>wal := w\<rparr>)"
  by (auto simp: durable_acquire_def split: prod.splits sum.splits)

lemma durable_release_Inr_iff:
  "durable_release K io d r h now = (Inr u, d') \<longleftrightarrow>
     (\<exists>staged w. table_release (tbl d) r h = (Inr (), staged) \<and>
        wal_append K io (wal d) (Released now r h) = (Inr (), w) \<and>
        d' = \<lparr>tbl = staged, wal = w\<rparr>)"
  by (cases d) (auto simp: durable_release_def split: prod.splits sum.splits)

lemma durable_release_Inl:
  "durable_release K io d r h now = (Inl e, d') \<Longrightarrow>
     d' = d \<or> (\<exists>staged w err. table_release (tbl d) r h = (Inr (), staged) \<and>
       wal_append K io (wal d) (Released now r h) = (Inl err, w) \<and> d' = d\<lparr>wal := w\<rparr>)"
  by (auto simp: durable_release_def split: prod.splits sum.splits)

lemma durable_renew_eq:
  "durable_renew M d r h q now = (x, d') \<longleftrightarrow>
     (\<exists>y t. table_renew M (tbl d) r h q now = (y, t) \<and> x = map_err LeaseErr y \<and>
       d' = d\<lparr>tbl := t\<rparr>)"
  by (auto simp: durable_renew_def split: prod.splits)

lemma durable_renew_Inr_iff:
  "durable_renew M d r h q now = (Inr l, d') \<longleftrightarrow>
     (\<exists>t. table_renew M (tbl d) r h q now = (Inr l, t) \<and> d' = d\<lparr>tbl := t\<rparr>)"
  by (cases "table_renew M (tbl d) r h q now") (auto simp: durable_renew_def)

text \<open>An error leaves the table as it was, whatever the disk did.\<close>

lemma durable_error_tbl:
  "durable_acquire K M io d r h q now = (Inl e, d') \<Longrightarrow> tbl d' = tbl d"
  "durable_release K io d r h now = (Inl e, d') \<Longrightarrow> tbl d' = tbl d"
  "durable_renew M d r h q now = (Inl e, d') \<Longrightarrow> d' = d"
proof -
  show "durable_acquire K M io d r h q now = (Inl e, d') \<Longrightarrow> tbl d' = tbl d"
    by (auto dest: durable_acquire_Inl)
  show "durable_release K io d r h now = (Inl e, d') \<Longrightarrow> tbl d' = tbl d"
    by (auto dest: durable_release_Inl)
  assume "durable_renew M d r h q now = (Inl e, d')"
  then obtain y t where y: "table_renew M (tbl d) r h q now = (y, t)" "Inl e = map_err LeaseErr y"
    "d' = d\<lparr>tbl := t\<rparr>" by (auto simp: durable_renew_eq)
  then obtain e' where "y = Inl e'" by (cases y) auto
  with y renew_Inl [of M "tbl d" r h q now e' t] show "d' = d" by simp
qed

interpretation dl: lease_service "durable_acquire K M" "durable_renew M" "durable_release K"
  "\<lambda>d. leases (tbl d)" "\<lambda>d. watermarks (tbl d)" "\<lambda>d. table_wf (tbl d)" M
  for K :: wal_codec and M :: int
proof (unfold_locales, goal_cases)
  case (1 s r l)
  then show ?case by (rule table_wfD)
next
  case (2 s io r h d now x s')
  then show ?case
    by (cases x) (auto simp: durable_acquire_Inr_iff table_wf_acquire dest: durable_error_tbl)
next
  case (3 s r h d now x s')
  then show ?case by (auto simp: durable_renew_eq table_wf_renew)
next
  case (4 s io r h now y s')
  then show ?case
    by (cases y) (auto simp: durable_release_Inr_iff table_wf_release dest: durable_error_tbl)
next
  case (5 io s r h d now l s')
  then obtain staged where "table_acquire M (tbl s) r h d now = (Inr l, staged)" "tbl s' = staged"
    by (auto simp: durable_acquire_Inr_iff)
  with lt.acq_ok show ?case by metis
next
  case (6 io s r h d now e s')
  then show ?case by (auto dest: durable_error_tbl)
next
  case (7 s r h d now l s')
  then obtain t where "table_renew M (tbl s) r h d now = (Inr l, t)" "tbl s' = t"
    by (auto simp: durable_renew_Inr_iff)
  with lt.ren_ok show ?case by metis
next
  case (8 s r h d now e s')
  then show ?case by (auto dest: durable_error_tbl)
next
  case (9 io s r h now u s')
  then show ?case by (auto simp: durable_release_Inr_iff release_Inr_iff)
next
  case (10 io s r h now e s')
  then show ?case by (auto dest: durable_error_tbl)
qed

end
