(* ===== verification/Recovery.thy ===== *)
theory Recovery
  imports Durable
begin

text \<open>
  Executions of the durable lease table: any sequence of operations, each with any outcome of the
  disk, and crashes at any byte of an append, each followed by a reopening. The ghost component
  of a configuration is the list of events that are on disk and acknowledged. Modelled on the
  state machine of \<open>src/coordinator/proptests.rs\<close>.
\<close>

subsection \<open>The step relation\<close>

text \<open>The event an operation on table \<open>t\<close> would append, were it called.\<close>

definition in_flight :: "int \<Rightarrow> lease_table \<Rightarrow> lease_event \<Rightarrow> bool" where
  "in_flight M t e \<longleftrightarrow>
     (\<exists>r h q now l st. table_acquire M t r h q now = (Inr l, st) \<and> e = grant_event M t r now l) \<or>
     (\<exists>r h now st. table_release t r h = (Inr (), st) \<and> e = Released now r h)"

text \<open>
  What a crash leaves of the file: every acknowledged byte, then any prefix of what a failed
  append may have left behind, or of the line an interrupted append was writing.
\<close>

definition crash_image :: "wal_codec \<Rightarrow> int \<Rightarrow> durable \<Rightarrow> lease_event list \<Rightarrow> bytes \<Rightarrow> bool" where
  "crash_image K M d es c \<longleftrightarrow>
     (\<exists>k. c = log_bytes K es @ take k (drop (length (log_bytes K es)) (contents (wal d)))) \<or>
     (\<exists>e n. \<not> poisoned (wal d) \<and> in_flight M (tbl d) e \<and> enc K WAL_VERSION e \<noteq> None \<and>
        c = contents (wal d) @ take n (enc_line K e @ [newline]))"

type_synonym config = "durable \<times> lease_event list"

definition durable_empty :: durable where
  "durable_empty = \<lparr>tbl = table_new, wal = \<lparr>contents = [], poisoned = False\<rparr>\<rparr>"

inductive durable_step :: "wal_codec \<Rightarrow> int \<Rightarrow> config \<Rightarrow> config \<Rightarrow> bool" for K M where
  acquire_ok: "durable_acquire K M io d r h q now = (Inr l, d') \<Longrightarrow>
     durable_step K M (d, es) (d', es @ [grant_event M (tbl d) r now l])"
| acquire_err: "durable_acquire K M io d r h q now = (Inl err, d') \<Longrightarrow>
     durable_step K M (d, es) (d', es)"
| renew: "durable_renew M d r h q now = (x, d') \<Longrightarrow> durable_step K M (d, es) (d', es)"
| release_ok: "durable_release K io d r h now = (Inr u, d') \<Longrightarrow>
     durable_step K M (d, es) (d', es @ [Released now r h])"
| release_err: "durable_release K io d r h now = (Inl err, d') \<Longrightarrow>
     durable_step K M (d, es) (d', es)"
| crash: "crash_image K M d es c \<Longrightarrow> wal_entry dir = Some f \<Longrightarrow> entry_data f = c \<Longrightarrow>
     durable_open K M io ReadFine dir = (Inr d', dir') \<Longrightarrow>
     wal_read K ReadFine (wal d') = Inr es' \<Longrightarrow> durable_step K M (d, es) (d', es')"

inductive durable_reach :: "wal_codec \<Rightarrow> int \<Rightarrow> config \<Rightarrow> bool" for K M where
  start: "durable_reach K M (durable_empty, [])"
| more: "durable_reach K M c \<Longrightarrow> durable_step K M c c' \<Longrightarrow> durable_reach K M c'"

inductive_cases durable_stepE: "durable_step K M (d, es) c"

subsection \<open>Tables that agree on every grant\<close>

text \<open>
  Renewals are not logged, so a replayed table agrees with the live one up to the grant time and
  ttl of each lease.
\<close>

definition epoch :: "lease \<Rightarrow> bytes \<times> bytes \<times> u64" where
  "epoch l = (resource_id l, holder_id l, fencing_token l)"

definition same_grants :: "lease_table \<Rightarrow> lease_table \<Rightarrow> bool" where
  "same_grants t t' \<longleftrightarrow> watermarks t = watermarks t' \<and>
     (\<forall>r. map_option epoch (leases t r) = map_option epoch (leases t' r))"

lemma same_grants_refl [simp, intro]: "same_grants t t"
  by (simp add: same_grants_def)

lemma same_grants_lookup:
  assumes "same_grants t t'" and "leases t' r = Some l'"
  obtains l where "leases t r = Some l" and "epoch l = epoch l'"
proof -
  from assms have "map_option epoch (leases t r) = Some (epoch l')" by (simp add: same_grants_def)
  then show ?thesis using that by auto
qed

lemma same_grants_grant:
  "same_grants t t' \<Longrightarrow> same_grants
     (t\<lparr>leases := (leases t)(r \<mapsto> l), watermarks := (watermarks t)(r \<mapsto> n)\<rparr>)
     (t'\<lparr>leases := (leases t')(r \<mapsto> l), watermarks := (watermarks t')(r \<mapsto> n)\<rparr>)"
  by (simp add: same_grants_def)

lemma same_grants_drop:
  "same_grants t t' \<Longrightarrow> same_grants
     (t\<lparr>leases := (leases t)(r := None)\<rparr>) (t'\<lparr>leases := (leases t')(r := None)\<rparr>)"
  by (simp add: same_grants_def)

lemma same_grants_renew:
  assumes "same_grants t t'" and "table_renew M t' r h q now = (x, t'')"
  shows "same_grants t t''"
proof (cases x)
  case (Inr l)
  with assms(2) obtain l0 where "leases t' r = Some l0" "l = l0\<lparr>granted_at := now, ttl := q\<rparr>"
    "t'' = t'\<lparr>leases := (leases t')(r \<mapsto> l)\<rparr>" by (auto simp: renew_Inr_iff)
  then show ?thesis using assms(1) by (auto simp: same_grants_def epoch_def)
qed (use assms in \<open>auto dest: renew_Inl\<close>)

lemma grant_event_cases:
  "grant_event M t r now l = Acquired now l \<or> grant_event M t r now l = Reclaimed now l"
  by (simp add: grant_event_def Let_def)

lemma apply_grant_event:
  "apply_event M t (grant_event M' t' r now l) = apply_grant t now l"
  using grant_event_cases [of M' t' r now l] by auto

text \<open>The log accepts what the live table did: one lemma for each logged operation.\<close>

lemma replay_acquire:
  assumes sim: "same_grants t t'" and acq: "table_acquire M t' r h q now = (Inr l, st')"
  shows "\<exists>st. apply_event M t (grant_event M t' r now l) = (Inr (), st) \<and> same_grants st st'"
proof -
  note a = acq [unfolded acquire_Inr_iff]
  let ?st = "t\<lparr>leases := (leases t)(r \<mapsto> l), watermarks := (watermarks t)(r \<mapsto> fencing_token l)\<rparr>"
  from a have l: "resource_id l = r" "holder_id l = h" "granted_at l = now" "ttl l = q"
    by (metis lease.select_convs)+
  from a sim have "\<forall>w. watermarks t r = Some w \<longrightarrow> w < fencing_token l"
    by (auto simp: same_grants_def dest: next_token_greater)
  then have "apply_grant t now l = (Inr (), ?st)"
    using a l by (auto simp: apply_grant_Inr_iff lease_ok_def)
  moreover have "same_grants ?st st'"
    using same_grants_grant [OF sim, where r = r and l = l and n = "fencing_token l"] a by auto
  ultimately show ?thesis by (simp add: apply_grant_event)
qed

lemma replay_release:
  assumes sim: "same_grants t t'" and rel: "table_release t' r h = (Inr (), st')"
  shows "\<exists>st. apply_event M t (Released now r h) = (Inr (), st) \<and> same_grants st st'"
proof -
  from rel obtain l' where l': "leases t' r = Some l'" "holder_id l' = h"
    and st': "st' = t'\<lparr>leases := (leases t')(r := None)\<rparr>" by (auto simp: release_Inr_iff)
  from same_grants_lookup [OF sim l'(1)] obtain l where "leases t r = Some l" "epoch l = epoch l'" .
  then have "apply_event M t (Released now r h) = (Inr (), t\<lparr>leases := (leases t)(r := None)\<rparr>)"
    using l' by (simp only: apply_released_Inr_iff) (auto simp: epoch_def)
  with st' same_grants_drop [OF sim] show ?thesis by auto
qed

lemma replay_in_flight:
  assumes "same_grants t t'" and "in_flight M t' e"
  shows "\<exists>st. apply_event M t e = (Inr (), st)"
  using assms(2) unfolding in_flight_def
proof (elim disjE exE conjE)
  fix r h q now l st
  assume "table_acquire M t' r h q now = (Inr l, st)" "e = grant_event M t' r now l"
  then show ?thesis using replay_acquire [OF assms(1)] by blast
next
  fix r h now st
  assume "table_release t' r h = (Inr (), st)" "e = Released now r h"
  then show ?thesis using replay_release [OF assms(1)] by blast
qed

subsection \<open>The invariant of an execution\<close>

definition replays :: "int \<Rightarrow> lease_event list \<Rightarrow> lease_table \<Rightarrow> bool" where
  "replays M es t' \<longleftrightarrow> (\<exists>t. apply_all M table_new es = Some t \<and> same_grants t t')"

text \<open>
  \<open>junk\<close> is what a poisoned append left behind: some prefix of the line of an event that the log
  would accept next.
\<close>

definition legal_next :: "wal_codec \<Rightarrow> int \<Rightarrow> lease_event list \<Rightarrow> lease_event \<Rightarrow> bool" where
  "legal_next K M es e \<longleftrightarrow> loggable K e \<and> (\<exists>t. apply_all M table_new (es @ [e]) = Some t)"

definition junk_ok :: "wal_codec \<Rightarrow> int \<Rightarrow> lease_event list \<Rightarrow> bytes \<Rightarrow> bool" where
  "junk_ok K M es junk \<longleftrightarrow> junk = [] \<or>
     (\<exists>e n. legal_next K M es e \<and> junk = take n (enc_line K e @ [newline]))"

definition durable_inv :: "wal_codec \<Rightarrow> int \<Rightarrow> config \<Rightarrow> bool" where
  "durable_inv K M c \<longleftrightarrow> (case c of (d, es) \<Rightarrow>
     encodable K es \<and> table_wf (tbl d) \<and> replays M es (tbl d) \<and>
     (\<exists>junk. contents (wal d) = log_bytes K es @ junk \<and> (\<not> poisoned (wal d) \<longrightarrow> junk = []) \<and>
        junk_ok K M es junk))"

lemma durable_inv_empty: "durable_inv K M (durable_empty, [])"
  by (simp add: durable_inv_def durable_empty_def replays_def junk_ok_def table_wf_new)

lemma replays_in_flight:
  assumes "replays M es t" and "in_flight M t e" and "enc K WAL_VERSION e \<noteq> None"
  shows "legal_next K M es e"
proof -
  from assms(1) obtain t0 where t0: "apply_all M table_new es = Some t0" "same_grants t0 t"
    by (auto simp: replays_def)
  from replay_in_flight [OF t0(2) assms(2)] obtain st where st: "apply_event M t0 e = (Inr (), st)"
    by blast
  with apply_event_ids [OF apply_all_wf [OF t0(1) table_wf_new]] assms(3) t0(1) show ?thesis
    by (auto simp: legal_next_def loggable_def apply_all_append)
qed

lemma replays_snoc:
  assumes "replays M es t"
    and "\<And>t0. same_grants t0 t \<Longrightarrow> \<exists>st. apply_event M t0 e = (Inr (), st) \<and> same_grants st t'"
  shows "replays M (es @ [e]) t'"
  using assms by (fastforce simp: replays_def apply_all_append)

lemma in_flight_acquire:
  "table_acquire M t r h q now = (Inr l, st) \<Longrightarrow> in_flight M t (grant_event M t r now l)"
  unfolding in_flight_def by blast

lemma in_flight_release: "table_release t r h = (Inr (), st) \<Longrightarrow> in_flight M t (Released now r h)"
  unfolding in_flight_def by blast

text \<open>An append in an execution, successful or not.\<close>

lemma append_ok_inv:
  assumes inv: "durable_inv K M (d, es)" and app: "wal_append K io (wal d) e = (Inr (), w)"
    and "in_flight M (tbl d) e" and "table_wf t" and rep: "replays M (es @ [e]) t"
  shows "durable_inv K M (\<lparr>tbl = t, wal = w\<rparr>, es @ [e])"
proof -
  from inv app replays_in_flight [OF _ assms(3)] have "loggable K e"
    by (auto simp: durable_inv_def wal_append_Inr_iff legal_next_def)
  with assms show ?thesis by (auto simp: durable_inv_def wal_append_Inr_iff junk_ok_def)
qed

lemma append_err_inv:
  assumes inv: "durable_inv K M (d, es)" and app: "wal_append K io (wal d) e = (Inl err, w)"
    and fl: "in_flight M (tbl d) e"
  shows "durable_inv K M (d\<lparr>wal := w\<rparr>, es)"
proof -
  from wal_append_Inl [OF app] consider "w = wal d"
    | n where "\<not> poisoned (wal d)" "poisoned w" "enc K WAL_VERSION e \<noteq> None"
        "contents w = contents (wal d) @ take n (enc_line K e @ [newline])" by blast
  then show ?thesis
  proof cases
    case 1
    with inv show ?thesis by simp
  next
    case 2
    with inv have "legal_next K M es e" by (auto simp: durable_inv_def intro: replays_in_flight fl)
    with 2 inv show ?thesis unfolding durable_inv_def junk_ok_def by auto
  qed
qed

subsection \<open>A crash and the reopening\<close>

lemma cut_line:
  assumes "codec_ok K" and "legal_next K M es e" and "encodable K es"
  obtains es' t where "es' = es \<or> (\<exists>e. es' = es @ [e])" and "encodable K es'"
    and "\<exists>tb. apply_all M table_new es' = Some tb \<or> es' = es"
    and "log_bytes K es @ take n (enc_line K e @ [newline]) = log_bytes K es' @ t"
    and "newline \<notin> set t"
proof (cases "n \<le> length (enc_line K e)")
  case True
  from assms(1,2) have "newline \<notin> set (enc_line K e)"
    by (auto simp: legal_next_def short_line_def dest: enc_line_ok)
  with True assms(3) show ?thesis
    by (intro that [of es "take n (enc_line K e)"]) (auto dest: in_set_takeD)
next
  case False
  with assms show ?thesis
    by (intro that [of "es @ [e]" "[]"]) (auto simp: legal_next_def)
qed

lemma crash_image_cut:
  assumes inv: "durable_inv K M (d, es)" and img: "crash_image K M d es c"
  shows "c = log_bytes K es \<or>
    (\<exists>e n. legal_next K M es e \<and> c = log_bytes K es @ take n (enc_line K e @ [newline]))"
proof -
  from inv obtain junk where junk: "contents (wal d) = log_bytes K es @ junk"
    "\<not> poisoned (wal d) \<longrightarrow> junk = []" "junk_ok K M es junk"
    by (auto simp: durable_inv_def)
  from img consider k where "c = log_bytes K es @ take k junk"
    | e n where "\<not> poisoned (wal d)" "in_flight M (tbl d) e" "enc K WAL_VERSION e \<noteq> None"
        "c = contents (wal d) @ take n (enc_line K e @ [newline])"
    using junk(1) by (auto simp: crash_image_def)
  then show ?thesis
  proof cases
    case 1
    with junk(3) show ?thesis by (fastforce simp: junk_ok_def simp del: take_append)
  next
    case 2
    with inv junk show ?thesis by (auto simp: durable_inv_def intro: replays_in_flight)
  qed
qed

lemma tighten_dir_entry: "tighten_dir_modes io d = (x, d') \<Longrightarrow> wal_entry d' = wal_entry d"
  by (auto simp: tighten_dir_modes_def qmark_def split: sum.splits if_splits)

lemma tighten_file_data: "tighten_file_modes io f = (x, f') \<Longrightarrow> entry_data f' = entry_data f"
  by (auto simp: tighten_file_modes_def qmark_def split: sum.splits if_splits)

lemma wal_new_contents:
  assumes "wal_new io dir = (Inr w, dir')" and "wal_entry dir = Some f"
  shows "\<not> poisoned w" and "repair_tail io (entry_data f) = (Inr (), contents w)"
proof -
  obtain x d where td: "tighten_dir_modes io dir = (x, d)" by force
  from tighten_dir_entry [OF td] assms(2) have f: "opened_entry d = f" by (simp add: opened_entry_def)
  obtain y f1 where tf: "tighten_file_modes io f = (y, f1)" by force
  note fd = tighten_file_data [OF tf]
  have "\<not> poisoned w \<and> repair_tail io (entry_data f) = (Inr (), contents w)"
    using assms(1) td f tf fd
    by (cases "repair_tail io (entry_data f)")
      (auto simp: wal_new_def wal_lock_and_repair_def qmark_Inr_iff Let_def
        split: sum.splits if_splits)
  then show "\<not> poisoned w" and "repair_tail io (entry_data f) = (Inr (), contents w)" by auto
qed

lemma reopen_log:
  assumes ok: "codec_ok K" and enc: "encodable K es" and tb: "apply_all M table_new es = Some tb"
    and nl: "newline \<notin> set t" and f: "wal_entry dir = Some f" "entry_data f = log_bytes K es @ t"
    and op: "durable_open K M io ReadFine dir = (Inr d, dir')"
  shows "d = \<lparr>tbl = tb, wal = \<lparr>contents = log_bytes K es, poisoned = False\<rparr>\<rparr>"
    and "wal_read K ReadFine (wal d) = Inr es"
proof -
  from op obtain w where w: "wal_new io dir = (Inr w, dir')"
    and d: "replay K M ReadFine w = Inr (tbl d)" "wal d = w"
    by (auto simp: durable_open_def split: sum.splits prod.splits)
  from wal_new_contents [OF w f(1)] f(2)
  have "repair_tail io (log_bytes K es @ t) = (Inr (), contents w)" and np: "\<not> poisoned w" by auto
  from repair_tail_split [OF terminated_log nl this(1)] have c: "contents w = log_bytes K es @ []"
    by simp
  from replay_log [OF ok enc c torn_tail_nil tb] d have "tbl d = tb" by simp
  with c np d(2) show "d = \<lparr>tbl = tb, wal = \<lparr>contents = log_bytes K es, poisoned = False\<rparr>\<rparr>"
    by (cases d; cases w) simp
  from read_numbered_log [OF ok enc c torn_tail_nil] d(2)
  show "wal_read K ReadFine (wal d) = Inr es" by (simp add: wal_read_def)
qed

text \<open>The log a crash leaves, cut into the events it still holds and a torn line.\<close>

lemma crash_image_log:
  assumes ok: "codec_ok K" and inv: "durable_inv K M (d, es)" and img: "crash_image K M d es c"
  obtains fs tl tb where "fs = es \<or> (\<exists>e. fs = es @ [e])" and "encodable K fs"
    and "c = log_bytes K fs @ tl" and "newline \<notin> set tl" and "apply_all M table_new fs = Some tb"
proof -
  from inv obtain t0 where t0: "apply_all M table_new es = Some t0" and enc: "encodable K es"
    by (auto simp: durable_inv_def replays_def)
  from crash_image_cut [OF inv img] show thesis
  proof (elim disjE exE conjE)
    assume "c = log_bytes K es"
    then show thesis using t0 enc by (intro that [of es "[]"]) auto
  next
    fix e n
    assume e: "legal_next K M es e" and c: "c = log_bytes K es @ take n (enc_line K e @ [newline])"
    from cut_line [OF ok e enc, of n] show thesis using that t0 c by (metis option.exhaust)
  qed
qed

text \<open>Recovery: the acknowledged events, and at most the one event a failed or interrupted append
  left complete on disk.\<close>

lemma crash_recovers:
  assumes ok: "codec_ok K" and inv: "durable_inv K M (d, es)" and img: "crash_image K M d es c"
    and f: "wal_entry dir = Some f" "entry_data f = c"
    and op: "durable_open K M io ReadFine dir = (Inr d', dir')"
    and rd: "wal_read K ReadFine (wal d') = Inr es'"
  shows "es' = es \<or> (\<exists>e. es' = es @ [e])" and "durable_inv K M (d', es')"
    and "apply_all M table_new es' = Some (tbl d')"
proof -
  from crash_image_log [OF ok inv img] obtain fs tl tb where
    fs: "fs = es \<or> (\<exists>e. fs = es @ [e])" "encodable K fs" "c = log_bytes K fs @ tl"
      "newline \<notin> set tl" and tb: "apply_all M table_new fs = Some tb" by metis
  note re = reopen_log [OF ok fs(2) tb fs(4) f(1) _ op] f(2) fs(3)
  then have es': "es' = fs" using rd by simp
  with fs(1) show "es' = es \<or> (\<exists>e. es' = es @ [e])" by simp
  from re have d': "d' = \<lparr>tbl = tb, wal = \<lparr>contents = log_bytes K fs, poisoned = False\<rparr>\<rparr>" by simp
  with es' tb show "apply_all M table_new es' = Some (tbl d')" by simp
  from apply_all_wf [OF tb table_wf_new] have "table_wf tb" .
  with d' es' fs(2) tb show "durable_inv K M (d', es')"
    by (auto simp: durable_inv_def replays_def junk_ok_def)
qed

subsection \<open>Every step keeps the invariant\<close>

lemma acquire_ok_inv:
  assumes inv: "durable_inv K M (d, es)" and acq: "durable_acquire K M io d r h q now = (Inr l, d')"
  shows "durable_inv K M (d', es @ [grant_event M (tbl d) r now l])"
proof -
  from acq obtain staged w where a: "table_acquire M (tbl d) r h q now = (Inr l, staged)"
    "wal_append K io (wal d) (grant_event M (tbl d) r now l) = (Inr (), w)"
    "d' = \<lparr>tbl = staged, wal = w\<rparr>" by (auto simp: durable_acquire_Inr_iff)
  from inv have "table_wf (tbl d)" "replays M es (tbl d)" by (auto simp: durable_inv_def)
  then have "table_wf staged" "replays M (es @ [grant_event M (tbl d) r now l]) staged"
    using a(1) by (auto intro: table_wf_acquire replays_snoc replay_acquire)
  with append_ok_inv [OF inv a(2) in_flight_acquire [OF a(1)]] a(3) show ?thesis by simp
qed

lemma release_ok_inv:
  assumes inv: "durable_inv K M (d, es)" and rel: "durable_release K io d r h now = (Inr u, d')"
  shows "durable_inv K M (d', es @ [Released now r h])"
proof -
  from rel obtain staged w where a: "table_release (tbl d) r h = (Inr (), staged)"
    "wal_append K io (wal d) (Released now r h) = (Inr (), w)"
    "d' = \<lparr>tbl = staged, wal = w\<rparr>" by (auto simp: durable_release_Inr_iff)
  from inv have "table_wf (tbl d)" "replays M es (tbl d)" by (auto simp: durable_inv_def)
  then have "table_wf staged" "replays M (es @ [Released now r h]) staged"
    using a(1) by (auto intro: table_wf_release replays_snoc replay_release)
  with append_ok_inv [OF inv a(2) in_flight_release [OF a(1)]] a(3) show ?thesis by simp
qed

lemma renew_inv:
  assumes inv: "durable_inv K M (d, es)" and ren: "durable_renew M d r h q now = (x, d')"
  shows "durable_inv K M (d', es)"
proof -
  from ren obtain y t where t: "table_renew M (tbl d) r h q now = (y, t)" "d' = d\<lparr>tbl := t\<rparr>"
    by (auto simp: durable_renew_eq)
  from inv have "table_wf t" "replays M es t"
    using t(1) by (auto simp: durable_inv_def replays_def intro: table_wf_renew same_grants_renew)
  with inv t(2) show ?thesis by (simp add: durable_inv_def)
qed

lemma errors_inv:
  assumes inv: "durable_inv K M (d, es)"
  shows "durable_acquire K M io d r h q now = (Inl e, d') \<Longrightarrow> durable_inv K M (d', es)"
    and "durable_release K io d r h now = (Inl e, d') \<Longrightarrow> durable_inv K M (d', es)"
proof -
  show "durable_acquire K M io d r h q now = (Inl e, d') \<Longrightarrow> durable_inv K M (d', es)"
    by (drule durable_acquire_Inl)
      (metis append_err_inv [OF inv] in_flight_acquire inv)
  show "durable_release K io d r h now = (Inl e, d') \<Longrightarrow> durable_inv K M (d', es)"
    by (drule durable_release_Inl)
      (metis append_err_inv [OF inv] in_flight_release inv)
qed

lemma durable_step_inv:
  assumes ok: "codec_ok K" and inv: "durable_inv K M c" and step: "durable_step K M c c'"
  shows "durable_inv K M c'"
  using step inv
proof cases
  case crash
  then show ?thesis using crash_recovers(2) [OF ok] inv by blast
qed (auto intro: acquire_ok_inv release_ok_inv renew_inv errors_inv)

lemma durable_reach_inv: "durable_reach K M c \<Longrightarrow> codec_ok K \<Longrightarrow> durable_inv K M c"
  by (induction rule: durable_reach.induct) (auto intro: durable_inv_empty durable_step_inv)

subsection \<open>Watermarks across steps and crashes\<close>

lemma apply_all_marks_le:
  "apply_all M t es = Some t' \<Longrightarrow> marks_le (watermarks t) (watermarks t')"
  by (induction es arbitrary: t)
    (auto split: prod.splits sum.splits dest!: apply_event_marks_le intro: marks_le_trans)

lemma crash_marks:
  assumes "durable_inv K M (d, es)" and "apply_all M table_new es' = Some t"
    and "es' = es \<or> (\<exists>e. es' = es @ [e])"
  shows "marks_le (watermarks (tbl d)) (watermarks t)"
proof -
  from assms(1) obtain t0 where t0: "apply_all M table_new es = Some t0"
    "watermarks t0 = watermarks (tbl d)" by (auto simp: durable_inv_def replays_def same_grants_def)
  from assms(3) obtain fs where "es' = es @ fs" by (metis append_Nil2)
  with assms(2) t0(1) have "apply_all M t0 fs = Some t" by (simp add: apply_all_append)
  then have "marks_le (watermarks t0) (watermarks t)" by (rule apply_all_marks_le)
  with t0(2) show ?thesis by simp
qed

lemma durable_step_marks:
  assumes ok: "codec_ok K" and inv: "durable_inv K M (d, es)"
    and step: "durable_step K M (d, es) (d', es')"
  shows "marks_le (watermarks (tbl d)) (watermarks (tbl d'))"
  using step
proof cases
  case (crash c dir f io dir')
  from crash_recovers [OF ok inv crash] show ?thesis by (blast intro: crash_marks [OF inv])
qed (auto dest: dl.acq_marks_le dl.ren_marks dl.rel_marks)

inductive durable_run :: "wal_codec \<Rightarrow> int \<Rightarrow> config \<Rightarrow> config \<Rightarrow> bool" for K M where
  stay: "durable_run K M c c"
| onward: "durable_run K M c c' \<Longrightarrow> durable_step K M c' c'' \<Longrightarrow> durable_run K M c c''"

lemma durable_run_keeps:
  assumes "durable_run K M c c'" and ok: "codec_ok K" and "durable_inv K M c"
  shows "durable_inv K M c' \<and> marks_le (watermarks (tbl (fst c))) (watermarks (tbl (fst c')))"
  using assms(1,3)
proof (induction rule: durable_run.induct)
  case (onward c c' c'')
  then have inv: "durable_inv K M c'"
    and le: "marks_le (watermarks (tbl (fst c))) (watermarks (tbl (fst c')))" by auto
  from durable_step_inv [OF ok inv onward(2)] have "durable_inv K M c''" .
  moreover have "marks_le (watermarks (tbl (fst c'))) (watermarks (tbl (fst c'')))"
    using durable_step_marks [OF ok] inv onward(2) by (metis prod.collapse)
  ultimately show ?case using le marks_le_trans by blast
qed auto

end
