(* ===== verification/LeaseSafety.thy ===== *)
theory LeaseSafety
  imports Recovery
begin

text \<open>
  What the durable lease table guarantees over whole executions: exclusion, tokens that never come
  back, recovery after a crash at any byte, fail-closed replay.
\<close>

subsection \<open>Reopening after a crash\<close>

definition no_faults :: faults where
  "no_faults = (\<lambda>_. None)"

text \<open>A directory \<open>LeaseWal::new\<close> has no objection to, holding the log \<open>c\<close>.\<close>

definition plain_dir :: "bytes \<Rightarrow> wal_dir \<Rightarrow> bool" where
  "plain_dir c dir \<longleftrightarrow> \<not> lock_taken dir \<and>
     (\<exists>f. wal_entry dir = Some f \<and> entry_kind f = RegularFile \<and> entry_links f = 1 \<and> entry_data f = c)"

lemma sys_no_faults [simp]: "sys no_faults c = Inr ()"
  by (simp add: sys_def no_faults_def)

lemma repair_tail_no_faults: "\<exists>c'. repair_tail no_faults c = (Inr (), c')"
  by (simp add: repair_tail_def Let_def)

lemma wal_new_no_faults:
  assumes "plain_dir c dir"
  shows "\<exists>w dir'. wal_new no_faults dir = (Inr w, dir')"
proof -
  obtain f where f: "wal_entry dir = Some f" "entry_kind f = RegularFile" "entry_links f = 1"
    "\<not> lock_taken dir" using assms by (auto simp: plain_dir_def)
  obtain d1 where d1: "tighten_dir_modes no_faults dir = (Inr (), d1)" "wal_entry d1 = Some f"
    "\<not> lock_taken d1" using f by (cases "loose (dir_mode dir)") (auto simp: tighten_dir_modes_def)
  obtain f1 where f1: "tighten_file_modes no_faults f = (Inr (), f1)" using f
    by (cases "loose (entry_mode f)") (auto simp: tighten_file_modes_def)
  obtain c' where c': "repair_tail no_faults (entry_data f1) = (Inr (), c')"
    by (metis repair_tail_no_faults)
  show ?thesis using f d1 f1 c'
    by (simp add: wal_new_def opened_entry_def wal_lock_and_repair_def Let_def)
qed

lemma reopen_no_faults:
  assumes ok: "codec_ok K" and inv: "durable_inv K M (d, es)" and img: "crash_image K M d es c"
    and dir: "plain_dir c dir"
  shows "\<exists>d' dir'. durable_open K M no_faults ReadFine dir = (Inr d', dir')"
proof -
  from crash_image_log [OF ok inv img] obtain fs tl tb
    where fs: "encodable K fs" "c = log_bytes K fs @ tl" "newline \<notin> set tl"
      "apply_all M table_new fs = Some tb" by metis
  from dir obtain f where f: "wal_entry dir = Some f" "entry_data f = c"
    by (auto simp: plain_dir_def)
  from wal_new_no_faults [OF dir] obtain w dir' where w: "wal_new no_faults dir = (Inr w, dir')"
    by blast
  from wal_new_contents (2) [OF w f(1)] f(2) fs(2,3) have "contents w = log_bytes K fs @ []"
    by (simp add: repair_tail_split [OF terminated_log])
  from replay_log [OF ok fs(1) this torn_tail_nil fs(4)] w show ?thesis
    by (simp add: durable_open_def)
qed

subsection \<open>A concrete line codec for the witnesses\<close>

definition lease_one :: lease where
  "lease_one = \<lparr>resource_id = ''r'', holder_id = ''h1'', fencing_token = 1, granted_at = 0, ttl = 10\<rparr>"

definition lease_two :: lease where
  "lease_two = \<lparr>resource_id = ''r'', holder_id = ''h2'', fencing_token = 2, granted_at = 20, ttl = 10\<rparr>"

definition two_lines :: wal_codec where
  "two_lines = \<lparr>
     enc = (\<lambda>v e. if v = WAL_VERSION \<and> e = Acquired 0 lease_one then Some ''a''
                  else if v = WAL_VERSION \<and> e = Reclaimed 20 lease_two then Some ''b'' else None),
     dec = (\<lambda>s. if s = ''a'' then Some (WAL_VERSION, Acquired 0 lease_one)
                else if s = ''b'' then Some (WAL_VERSION, Reclaimed 20 lease_two) else None)\<rparr>"

lemma two_lines_ok: "codec_ok two_lines"
  by (auto simp: codec_ok_def two_lines_def newline_def MAX_LINE_BYTES_def ascii_whitespace_def
      valid_utf8_ascii byte_def split: if_splits)

lemmas demo_defs = two_lines_def lease_one_def lease_two_def durable_empty_def io_fine_def

definition demo1 :: durable where
  "demo1 = \<lparr>tbl = \<lparr>leases = [''r'' \<mapsto> lease_one], watermarks = [''r'' \<mapsto> 1]\<rparr>,
            wal = \<lparr>contents = ''a'' @ [newline], poisoned = False\<rparr>\<rparr>"

definition demo2 :: durable where
  "demo2 = \<lparr>tbl = \<lparr>leases = [''r'' \<mapsto> lease_two], watermarks = [''r'' \<mapsto> 2]\<rparr>,
            wal = \<lparr>contents = ''a'' @ [newline] @ ''b'' @ [newline], poisoned = False\<rparr>\<rparr>"

lemma id_ok_demo: "id_ok ''r''" "id_ok ''h1''" "id_ok ''h2''"
  by (simp_all add: id_ok_def MAX_ID_BYTES_def id_char_def ascii_alphanumeric_def ascii_digit_def
      in_range_def byte_def)

lemma ttl_ok_demo: "ttl_ok 10"
  by (simp add: ttl_ok_def MAX_TTL_def secs_def)

lemma demo_acquire1:
  "durable_acquire two_lines 1000 io_fine durable_empty ''r'' ''h1'' 10 0 = (Inr lease_one, demo1)"
  by (simp add: durable_acquire_Inr_iff acquire_Inr_iff wal_append_Inr_iff id_ok_demo ttl_ok_demo
      demo_defs demo1_def free_at_def next_token_def table_new_def grant_event_def table_get_def
      write_error_def enc_line_def)

lemma demo_acquire2:
  "durable_acquire two_lines 1000 io_fine demo1 ''r'' ''h2'' 10 20 = (Inr lease_two, demo2)"
  by (simp add: durable_acquire_Inr_iff acquire_Inr_iff wal_append_Inr_iff id_ok_demo ttl_ok_demo
      demo_defs demo1_def demo2_def free_at_def next_token_def grant_event_def table_get_def
      write_error_def enc_line_def is_expired_def expires_at_def from_std_def checked_add_u64_def)

lemma demo_reach1: "durable_reach two_lines 1000 (demo1, [Acquired 0 lease_one])"
  using durable_reach.more [OF durable_reach.start durable_step.acquire_ok [OF demo_acquire1]]
  by (simp add: grant_event_def table_get_def durable_empty_def table_new_def)

lemma demo_in_flight: "in_flight 1000 (tbl demo1) (Reclaimed 20 lease_two)"
proof -
  from demo_acquire2 obtain st where "table_acquire 1000 (tbl demo1) ''r'' ''h2'' 10 20 = (Inr lease_two, st)"
    by (auto simp: durable_acquire_Inr_iff)
  from in_flight_acquire [OF this] show ?thesis
    by (simp add: grant_event_def table_get_def demo1_def lease_one_def is_expired_def
        expires_at_def from_std_def)
qed

lemma later_token:
  assumes "codec_ok K" and "durable_reach K M (d1, es1)"
    and "durable_acquire K M io d1 r h q now = (Inr l, d2)"
    and "durable_run K M (d2, es1 @ [grant_event M (tbl d1) r now l]) (d3, es3)"
    and "durable_acquire K M io' d3 r h' q' now' = (Inr l', d4)"
  shows "fencing_token l < fencing_token l'"
proof -
  from durable_step_inv [OF assms(1) durable_reach_inv [OF assms(2,1)] acquire_ok [OF assms(3)]]
  have "marks_le (watermarks (tbl d2)) (watermarks (tbl d3))"
    using durable_run_keeps [OF assms(4,1)] by simp
  moreover from assms(3) have "watermarks (tbl d2) r = Some (fencing_token l)"
    using dl.acq_ok by fastforce
  ultimately show ?thesis using dl.later_grant_higher assms(5) by blast
qed

subsection \<open>Properties\<close>

text \<open>
  C1: recovery after a crash at any byte. From every reachable configuration, whatever prefix of
  the line being written (or of the junk of a failed append) is on disk, reopening without a
  disk fault succeeds; the recovered table is the replay of exactly the acknowledged events, or
  of these and the one event that had been written in full, and in the first case it agrees
  with the live table on every grant, holder, token and watermark. The log is left holding
  those events and nothing else.
\<close>

theorem crash_recovery:
  assumes "codec_ok K" and "durable_reach K M (d, es)" and "crash_image K M d es c"
    and "plain_dir c dir"
  shows "\<exists>d' dir' es'. durable_open K M no_faults ReadFine dir = (Inr d', dir') \<and>
    (es' = es \<or> (\<exists>e. es' = es @ [e])) \<and> apply_all M table_new es' = Some (tbl d') \<and>
    wal d' = \<lparr>contents = log_bytes K es', poisoned = False\<rparr> \<and>
    (es' = es \<longrightarrow> same_grants (tbl d') (tbl d))"
proof -
  note inv = durable_reach_inv [OF assms(2,1)]
  from crash_image_log [OF assms(1) inv assms(3)] obtain fs tl tb
    where fs: "fs = es \<or> (\<exists>e. fs = es @ [e])" "encodable K fs" "c = log_bytes K fs @ tl"
      "newline \<notin> set tl" "apply_all M table_new fs = Some tb" by metis
  from assms(4) obtain f where f: "wal_entry dir = Some f" "entry_data f = log_bytes K fs @ tl"
    using fs(3) by (auto simp: plain_dir_def)
  from reopen_no_faults [OF assms(1) inv assms(3,4)] obtain d' dir'
    where op: "durable_open K M no_faults ReadFine dir = (Inr d', dir')" by blast
  note re = reopen_log(1) [OF assms(1) fs(2,5,4) f op]
  from inv fs(5) have "fs = es \<longrightarrow> same_grants tb (tbl d)"
    by (auto simp: durable_inv_def replays_def)
  with op re fs(1,5) show ?thesis by auto
qed

theorem crash_recovery_witness:
  "\<exists>d' dir' es'. durable_open two_lines 1000 no_faults ReadFine
      \<lparr>dir_mode = 0x1C0, wal_entry = Some (fresh_entry\<lparr>entry_data := ''a'' @ [newline] @ ''b''\<rparr>),
       lock_taken = False\<rparr> = (Inr d', dir') \<and>
    (es' = [Acquired 0 lease_one] \<or> (\<exists>e. es' = [Acquired 0 lease_one] @ [e])) \<and>
    apply_all 1000 table_new es' = Some (tbl d') \<and>
    wal d' = \<lparr>contents = log_bytes two_lines es', poisoned = False\<rparr> \<and>
    (es' = [Acquired 0 lease_one] \<longrightarrow> same_grants (tbl d') (tbl demo1))"
proof (rule crash_recovery [OF two_lines_ok demo_reach1, where c = "''a'' @ [newline] @ ''b''"])
  show "crash_image two_lines 1000 demo1 [Acquired 0 lease_one] (''a'' @ [newline] @ ''b'')"
    unfolding crash_image_def using demo_in_flight
    by (intro disjI2 exI [of _ "Reclaimed 20 lease_two"] exI [of _ 1])
      (simp add: demo1_def two_lines_def enc_line_def lease_one_def lease_two_def)
qed (simp add: plain_dir_def fresh_entry_def)

text \<open>
  C2: a fencing token is never issued twice. Between two successful acquires of the same
  resource the table may run any operations with any disk outcome, crash any number of times
  at any byte and be reopened; the later grant still carries a strictly higher token.
\<close>

theorem tokens_never_reused:
  assumes "codec_ok K" and "durable_reach K M (d1, es1)"
    and "durable_acquire K M io d1 r h q now = (Inr l, d2)"
    and "durable_run K M (d2, es1 @ [grant_event M (tbl d1) r now l]) (d3, es3)"
    and "durable_acquire K M io' d3 r h' q' now' = (Inr l', d4)"
  shows "fencing_token l < fencing_token l'"
  using assms by (rule later_token)

theorem tokens_never_reused_witness:
  "fencing_token lease_one < fencing_token lease_two"
  by (rule tokens_never_reused [OF two_lines_ok durable_reach.start demo_acquire1
        durable_run.stay demo_acquire2])

text \<open>
  C3: the fencing discipline. Once the guard at the resource has accepted the token of a later
  grant, the token of every earlier holder is refused, whatever tokens the guard is shown in
  between: a paused holder that wakes up late cannot act.
\<close>

theorem stale_holder_fenced:
  assumes "codec_ok K" and "durable_reach K M (d1, es1)"
    and "durable_acquire K M io d1 r h q now = (Inr l, d2)"
    and "durable_run K M (d2, es1 @ [grant_event M (tbl d1) r now l]) (d3, es3)"
    and "durable_acquire K M io' d3 r h' q' now' = (Inr l', d4)"
    and "accept guard (fencing_token l') = (Inr (), guardA)" and "accept_all guardA ts = (bs, guardB)"
  shows "\<exists>high. accept guardB (fencing_token l) = (Inl (Rejected (fencing_token l) high), guardB)"
proof -
  from later_token [OF assms(1-5)] have "fencing_token l < fencing_token l'" .
  moreover from assms(6) have "high_water guardA = Some (fencing_token l')"
    by (simp add: accept_Inr_iff)
  then obtain w where "high_water guardB = Some w" "fencing_token l' \<le> w"
    using accept_all_rises [OF assms(7)] by blast
  ultimately show ?thesis by (auto simp: accept_def)
qed

theorem stale_holder_fenced_witness:
  "\<exists>high. accept (fenced_at 2) (fencing_token lease_one) =
     (Inl (Rejected (fencing_token lease_one) high), fenced_at 2)"
  by (rule stale_holder_fenced [OF two_lines_ok durable_reach.start demo_acquire1
        durable_run.stay demo_acquire2, where guard = fenced_new and ts = "[1]" and guardA = "fenced_at 2" and bs = "[False]"])
    (simp_all add: accept_def fenced_new_def fenced_at_def lease_two_def)

text \<open>
  Acquire, on every branch and in the order of the checks: bad ids, bad ttl, a live holder,
  an exhausted token; an error leaves the table alone, a success installs exactly the new lease
  and raises only this resource's watermark, by one (to 1 for a fresh resource).
\<close>

theorem acquire_spec:
  "table_acquire M t r h d now =
     (if \<not> id_ok r then (Inl (InvalidId ''resource'' r), t)
      else if \<not> id_ok h then (Inl (InvalidId ''holder'' h), t)
      else if \<not> ttl_ok d then (Inl (InvalidTtl r d), t)
      else if \<not> free_at M t r now
        then (Inl (Held r (holder_id (the (leases t r))) (expires_at M (the (leases t r)))), t)
      else if watermarks t r = Some (- 1) then (Inl (TokenOverflow r), t)
      else (let l = \<lparr>resource_id = r, holder_id = h,
                     fencing_token = (case watermarks t r of None \<Rightarrow> 1 | Some w \<Rightarrow> w + 1),
                     granted_at = now, ttl = d\<rparr>
            in (Inr l, t\<lparr>leases := (leases t)(r \<mapsto> l),
                         watermarks := (watermarks t)(r \<mapsto> fencing_token l)\<rparr>)))"
proof -
  have checked: "checked_add_u64 w 1 = (if w = - 1 then None else Some (w + 1))" for w
    using checked_add_1_None [of w] by (auto simp: checked_add_u64_def split: if_splits)
  show ?thesis
    by (auto simp: table_acquire_def validate_id_def validate_ttl_def id_ok_def ttl_ok_def Let_def
        free_at_def next_token_def checked split: option.splits)
qed

text \<open>
  C4: a failed operation is atomic. Whatever the disk did, an error of acquire or release leaves
  the table as it was, and the log either byte for byte as it was or poisoned with the
  acknowledged bytes still in front; a poisoned log refuses every later append, unchanged.
\<close>

theorem failed_mutation_atomic:
  assumes "(\<exists>h q. durable_acquire K M io d r h q now = (Inl e, d')) \<or>
    (\<exists>h. durable_release K io d r h now = (Inl e, d'))"
  shows "tbl d' = tbl d \<and>
    (wal d' = wal d \<or>
     poisoned (wal d') \<and> (\<exists>junk. contents (wal d') = contents (wal d) @ junk) \<and>
     (\<forall>io' ev. wal_append K io' (wal d') ev = (Inl OtherIo, wal d')))"
proof -
  have app: "wal_append K io (wal d) ev = (Inl err, w) \<Longrightarrow> w = wal d \<or>
      poisoned w \<and> (\<exists>junk. contents w = contents (wal d) @ junk) \<and>
      (\<forall>io' ev. wal_append K io' w ev = (Inl OtherIo, w))" for ev err w
    using wal_append_Inl [of K io "wal d" ev err w] by (auto simp: wal_append_def)
  from assms show ?thesis
  proof (elim disjE exE)
    fix h q assume a: "durable_acquire K M io d r h q now = (Inl e, d')"
    from durable_acquire_Inl [OF a] durable_error_tbl(1) [OF a] app show ?thesis by fastforce
  next
    fix h assume a: "durable_release K io d r h now = (Inl e, d')"
    from durable_release_Inl [OF a] durable_error_tbl(2) [OF a] app show ?thesis by fastforce
  qed
qed

definition torn_write :: append_io where
  "torn_write = \<lparr>meta_res = None, write_res = WriteShort 1 OtherIo, sync_res = None,
     rewind_len = Some OtherIo, rewind_sync = None\<rparr>"

lemma demo_torn:
  "durable_acquire two_lines 1000 torn_write durable_empty ''r'' ''h1'' 10 0 =
     (Inl (WalErr OtherIo), durable_empty\<lparr>wal := \<lparr>contents = ''a'', poisoned = True\<rparr>\<rparr>)"
  by (simp add: durable_acquire_def acquire_Inr_iff wal_append_def torn_write_def write_error_def
      written_def demo_defs table_acquire_def validate_id_ok [OF id_ok_demo(1)]
      validate_id_ok [OF id_ok_demo(2)] validate_ttl_ok [OF ttl_ok_demo] next_token_def table_new_def
      grant_event_def table_get_def Let_def)

theorem failed_mutation_atomic_witness:
  "tbl (durable_empty\<lparr>wal := \<lparr>contents = ''a'', poisoned = True\<rparr>\<rparr>) = tbl durable_empty"
  by (rule conjunct1 [OF failed_mutation_atomic]) (blast intro: demo_torn)

text \<open>
  C5: in every reachable configuration the table is well formed (each lease sits under its own
  valid id, with a valid ttl, and its token is the resource's watermark), the acknowledged events
  replay to the table up to grant times and ttls, and the file holds their lines, followed by
  junk only when poisoned.
\<close>

theorem reachable_consistent:
  assumes "codec_ok K" and "durable_reach K M (d, es)"
  shows "table_wf (tbl d) \<and> (\<exists>t. apply_all M table_new es = Some t \<and> same_grants t (tbl d)) \<and>
    (\<exists>junk. contents (wal d) = log_bytes K es @ junk \<and> (junk \<noteq> [] \<longrightarrow> poisoned (wal d)))"
  using durable_reach_inv [OF assms(2,1)] by (auto simp: durable_inv_def replays_def)

theorem reachable_consistent_witness:
  "table_wf (tbl demo1) \<and>
   (\<exists>t. apply_all 1000 table_new [Acquired 0 lease_one] = Some t \<and> same_grants t (tbl demo1)) \<and>
   (\<exists>junk. contents (wal demo1) = log_bytes two_lines [Acquired 0 lease_one] @ junk \<and>
      (junk \<noteq> [] \<longrightarrow> poisoned (wal demo1)))"
  by (rule reachable_consistent [OF two_lines_ok demo_reach1])

text \<open>
  Replay fails closed. A terminated line that is not blank and does not decode aborts the
  replay with its own line number, whatever follows it.
\<close>

theorem replay_fails_closed:
  assumes "codec_ok K" and "encodable K es" and "short_line bad"
    and "\<not> list_all ascii_whitespace bad" and "decode_line K bad = None"
    and "contents w = log_bytes K es @ bad @ [newline] @ rest"
  shows "replay K M ReadFine w = Inl (Corrupt (length es + 1))"
proof -
  have "read_raw_from 0 (contents w) = raw_of 0 (map (enc_line K) es) @
    \<lparr>line_number = length es + 1, line_bytes = bad, line_terminated = True\<rparr> #
    read_raw_from (length es + 1) rest"
    using read_raw_lines [OF short_lines_log [OF assms(1,2)], of 0 "bad @ newline # rest"] assms(6)
      read_raw_line [OF assms(3)]
    by (simp add: log_bytes_def)
  then show ?thesis using assms(3-5)
    by (simp add: replay_def read_numbered_def parse_lines_log [OF assms(1,2)] short_line_def)
qed

theorem replay_fails_closed_witness:
  "replay two_lines 1000 ReadFine
     \<lparr>contents = ''a'' @ [newline] @ ''x'' @ [newline] @ ''b'', poisoned = False\<rparr> = Inl (Corrupt 2)"
  using replay_fails_closed [OF two_lines_ok, of "[Acquired 0 lease_one]" "''x''"
      "\<lparr>contents = ''a'' @ [newline] @ ''x'' @ [newline] @ ''b'', poisoned = False\<rparr>" "''b''" 1000]
  by (simp add: loggable_def lease_ok_def id_ok_demo ttl_ok_demo demo_defs short_line_def newline_def
      MAX_LINE_BYTES_def ascii_whitespace_def byte_def decode_line_def log_bytes_def enc_line_def)

text \<open>
  The repair of the tail. When it succeeds it keeps the file up to and with its last
  newline and drops only an unterminated rest, so no terminated line is lost; a second repair
  finds nothing to do.
\<close>

theorem repair_tail_exact:
  assumes "repair_tail io c = (Inr (), c')"
  shows "terminated_bytes c' \<and> (\<exists>t. c = c' @ t \<and> newline \<notin> set t) \<and>
    repair_tail no_faults c' = (Inr (), c')"
proof -
  obtain p t where pt: "c = p @ t" "terminated_bytes p" "newline \<notin> set t"
    using terminated_split by blast
  with assms have "c' = p" by (auto dest: repair_tail_split)
  moreover obtain c'' where "repair_tail no_faults p = (Inr (), c'')"
    using repair_tail_no_faults by blast
  moreover from this have "c'' = p" using repair_tail_split [OF pt(2), of "[]"] by simp
  ultimately show ?thesis using pt by auto
qed

theorem repair_tail_exact_witness:
  "terminated_bytes (''a'' @ [newline]) \<and>
   (\<exists>t. ''a'' @ [newline] @ ''b'' = (''a'' @ [newline]) @ t \<and> newline \<notin> set t) \<and>
   repair_tail no_faults (''a'' @ [newline]) = (Inr (), ''a'' @ [newline])"
  by (rule repair_tail_exact [where io = no_faults]) (simp add: repair_tail_def Let_def newline_def)

text \<open>
  A blind spot of the reader. A run of blanks longer than the line limit is cut before its
  newline, so reading stops there, and being blank it is skipped before its length is checked:
  every event after it is silently ignored instead of aborting the replay.
\<close>

theorem blank_run_hides_the_rest:
  assumes "codec_ok K" and "encodable K es"
    and "list_all ascii_whitespace run" and "newline \<notin> set run" and "MAX_LINE_BYTES < length run"
    and "contents w = log_bytes K es @ run @ [newline] @ rest"
  shows "wal_read K ReadFine w = Inr es"
proof -
  have ne: "run \<noteq> []" and lt: "\<not> length run < MAX_LINE_BYTES + 1" using assms(5) by auto
  let ?cut = "take (MAX_LINE_BYTES + 1) run"
  have "read_until (MAX_LINE_BYTES + 1) (run @ newline # rest) =
      (?cut, drop (MAX_LINE_BYTES + 1) (run @ newline # rest))"
    using assms(4,5) by (simp add: read_until_def)
  moreover have "last ?cut \<noteq> newline"
    using assms(4) ne by (metis in_set_takeD last_in_set take_eq_Nil Suc_eq_plus1 nat.distinct(1))
  moreover have "length ?cut = MAX_LINE_BYTES + 1" using lt by simp
  moreover have "?cut \<noteq> []" using ne by simp
  ultimately have "read_raw_from n (run @ newline # rest) =
      [\<lparr>line_number = n + 1, line_bytes = ?cut, line_terminated = False\<rparr>]" for n
    by (subst read_raw_from.simps) (simp add: Let_def)
  moreover have "list_all ascii_whitespace ?cut"
    using assms(3) by (auto simp: list_all_iff dest: in_set_takeD)
  ultimately show ?thesis
    using read_raw_lines [OF short_lines_log [OF assms(1,2)], of 0 "run @ newline # rest"] assms(6)
    by (simp add: log_bytes_def wal_read_def read_numbered_def parse_lines_log [OF assms(1,2)])
qed

theorem blank_run_hides_the_rest_witness:
  "wal_read two_lines ReadFine
     \<lparr>contents = ''a'' @ [newline] @ replicate (64 * 1024 + 1) CHR '' '' @ [newline] @ ''b'' @ [newline],
      poisoned = False\<rparr> = Inr [Acquired 0 lease_one]"
  by (rule blank_run_hides_the_rest [OF two_lines_ok])
    (simp_all add: loggable_def lease_ok_def id_ok_demo ttl_ok_demo demo_defs newline_def
      MAX_LINE_BYTES_def ascii_whitespace_def byte_def log_bytes_def enc_line_def list_all_iff)

end
