(* ===== verification/Control.thy ===== *)
theory Control
  imports LeaseSafety
begin

text \<open>
  \<open>src/coordinator/control.rs\<close>: the leadership loop, which runs the scheduler only while it
  holds the \<open>control-plane\<close> lease, and parks in isolation.

  The loop is a state machine whose phases are its suspension points; one step is the code from
  one to the next. What the environment contributes to a step (the clock, the disk, the isolation
  marker, the outcome of a load) is an argument of it. The shared schedule and intent queue,
  which the loop only replaces, are of type \<open>'p\<close>.
\<close>

subsection \<open>Names\<close>

definition CONTROL_PLANE_RESOURCE :: bytes where
  "CONTROL_PLANE_RESOURCE = ''control-plane''"

definition LEASE_TTL :: nat where
  "LEASE_TTL = secs 90"

definition RENEW_INTERVAL :: int where
  "RENEW_INTERVAL = int (secs 30)"

definition lease_safe :: "bytes \<Rightarrow> bytes" where
  "lease_safe input =
     (let sanitized = take 64 (map (\<lambda>u. case u of
              [c] \<Rightarrow> (if ascii_alphanumeric c \<or> c \<in> {CHR ''.'', CHR ''_'', CHR ''-''} then c
                      else CHR ''-'')
            | _ \<Rightarrow> CHR ''-'') (utf8_chars input))
      in if sanitized = [] then ''unnamed'' else sanitized)"

definition holder_id_of :: "bytes \<Rightarrow> u32 \<Rightarrow> bytes" where
  "holder_id_of pulse_name pid = lease_safe pulse_name @ ''-'' @ decimal (unat pid)"

definition tenure_holder_of :: "bytes \<Rightarrow> u64 \<Rightarrow> bytes" where
  "tenure_holder_of base n = base @ ''-t'' @ decimal (unat n)"

subsection \<open>State\<close>

datatype phase = Opening | Seeking | Holding | Starting | Leading | Stopped

datatype tenure_end = Shutdown | Lost | Isolated

text \<open>
  The tasks \<open>scheduler::start\<close> spawns: the tension tick, one loop for each enabled task, the
  watchdog, and the intent drain. The loops and the drain claim under the holder id they are given.
\<close>

datatype sched_task = TickTask | LoopTask bytes bytes | WatchdogTask | DrainTask bytes

fun claims_as :: "sched_task \<Rightarrow> bytes option" where
  "claims_as TickTask = None"
| "claims_as (LoopTask entry h) = Some h"
| "claims_as WatchdogTask = None"
| "claims_as (DrainTask h) = Some h"

record 'p coord =
  phase :: phase
  shut :: bool
  handle_held :: bool
  shared :: "durable option"
  plane :: 'p
  tenure :: u64
  failed_acquires :: u32
  parked_logged :: bool
  tenure_holder :: bytes
  handles :: "sched_task list"
  left_running :: "sched_task list"
  cut_off :: "sched_task list"
  leadership :: bool
  last_renew :: int

text \<open>
  \<open>Coordinator::start\<close>. \<open>handles\<close> are the tasks whose handles the coordinator holds and can
  abort (an abort takes effect where the task next waits). \<open>left_running\<close> and \<open>cut_off\<close> are spawned
  tasks whose handles were dropped, which tokio leaves running: those of a scheduler start that
  failed, and those of one that was aborted half way.
\<close>

definition coord_start :: "bool \<Rightarrow> 'p \<Rightarrow> 'p coord" where
  "coord_start enabled p =
     \<lparr>phase = (if enabled then Opening else Stopped), shut = False, handle_held = enabled,
      shared = None, plane = p, tenure = 0, failed_acquires = 0, parked_logged = False,
      tenure_holder = [], handles = [], left_running = [], cut_off = [], leadership = False,
      last_renew = 0\<rparr>"

definition abort_all :: "'p coord \<Rightarrow> 'p coord" where
  "abort_all c = c\<lparr>handles := []\<rparr>"

text \<open>
  \<open>Coordinator::shutdown\<close>, before and after its bounded wait for the loop (the end includes
  the drop of the handle), and \<open>Drop\<close>.
\<close>

definition coord_shutdown_begin :: "'p coord \<Rightarrow> 'p coord" where
  "coord_shutdown_begin c = c\<lparr>shut := True, handle_held := False\<rparr>"

definition coord_drop :: "'p coord \<Rightarrow> 'p coord" where
  "coord_drop c =
     (let c1 = (if handle_held c then c\<lparr>phase := Stopped, handle_held := False\<rparr> else c)
      in (abort_all c1)\<lparr>leadership := False\<rparr>)"

definition coord_shutdown_end :: "'p coord \<Rightarrow> 'p coord" where
  "coord_shutdown_end c = coord_drop (abort_all c)"

subsection \<open>The leadership loop\<close>

definition wait_or_shutdown :: "bool \<Rightarrow> 'p coord \<Rightarrow> bool" where
  "wait_or_shutdown fired c \<longleftrightarrow> fired \<or> shut c"

text \<open>\<open>if wait_or_shutdown(..) \{ return; \} continue;\<close>\<close>

definition pause :: "bool \<Rightarrow> 'p coord \<Rightarrow> 'p coord" where
  "pause fired c = c\<lparr>phase := (if wait_or_shutdown fired c then Stopped else Seeking)\<rparr>"

definition open_step :: "replay_error + durable \<Rightarrow> bool \<Rightarrow> 'p coord \<Rightarrow> 'p coord" where
  "open_step opened fired c =
     (if shut c then c\<lparr>phase := Stopped\<rparr>
      else (case opened of
          Inr t \<Rightarrow> c\<lparr>phase := Seeking, shared := Some t\<rparr>
        | Inl _ \<Rightarrow> (if wait_or_shutdown fired c then c\<lparr>phase := Stopped\<rparr> else c)))"

definition seek_step ::
  "wal_codec \<Rightarrow> int \<Rightarrow> bytes \<Rightarrow> bool \<Rightarrow> bool \<Rightarrow> append_io \<Rightarrow> int \<Rightarrow> durable \<Rightarrow> 'p coord \<Rightarrow> 'p coord" where
  "seek_step K M base isolated fired io now t c =
     (if shut c then c\<lparr>phase := Stopped\<rparr>
      else if isolated then pause fired (c\<lparr>parked_logged := True\<rparr>)
      else (let n = tenure c + 1; h = tenure_holder_of base n;
                c1 = c\<lparr>parked_logged := False, tenure := n, tenure_holder := h\<rparr>
            in (case durable_acquire K M io t CONTROL_PLANE_RESOURCE h LEASE_TTL now of
                 (Inl _, t') \<Rightarrow>
                   pause fired (c1\<lparr>shared := Some t', failed_acquires := failed_acquires c + 1\<rparr>)
               | (Inr _, t') \<Rightarrow>
                   c1\<lparr>shared := Some t', failed_acquires := 0, leadership := True,
                      phase := Holding\<rparr>)))"

text \<open>
  \<open>sweep_stale_claims\<close>: \<open>ls\<close> is the order the table lists its leases in, \<open>env\<close> the disk and
  the clock of each release, in that order.
\<close>

definition claim_resource :: "bytes \<Rightarrow> bool" where
  "claim_resource r \<longleftrightarrow>
     starts_with ''task-'' r \<or> starts_with ''intent-'' r \<or> starts_with ''farm-'' r"

definition stale_claim :: "bytes \<Rightarrow> lease \<Rightarrow> bool" where
  "stale_claim h l \<longleftrightarrow> holder_id l \<noteq> h \<and> claim_resource (resource_id l)"

fun release_each ::
  "wal_codec \<Rightarrow> (append_io \<times> int) list \<Rightarrow> lease list \<Rightarrow> durable \<Rightarrow> durable" where
  "release_each K ((io, now) # env) (l # ls) d =
     release_each K env ls (snd (durable_release K io d (resource_id l) (holder_id l) now))"
| "release_each K env ls d = d"

definition sweep_stale_claims ::
  "wal_codec \<Rightarrow> (append_io \<times> int) list \<Rightarrow> lease list \<Rightarrow> bytes \<Rightarrow> durable \<Rightarrow> durable" where
  "sweep_stale_claims K env ls h d = release_each K env (filter (stale_claim h) ls) d"

definition release_plane :: "wal_codec \<Rightarrow> append_io \<Rightarrow> int \<Rightarrow> bytes \<Rightarrow> durable \<Rightarrow> durable" where
  "release_plane K io now h d = snd (durable_release K io d CONTROL_PLANE_RESOURCE h now)"

text \<open>
  From the grant to the start of the scheduler: the sweep, the reconciliation with the files
  (\<open>loaded\<close> is what they hold, \<open>None\<close> when they do not load) and the second look at the
  isolation marker. A failed reconciliation leaves \<open>leadership\<close> set.
\<close>

definition reconcile_control_plane :: "'p option \<Rightarrow> 'p coord \<Rightarrow> 'p coord option" where
  "reconcile_control_plane loaded c = map_option (\<lambda>p. c\<lparr>plane := p\<rparr>) loaded"

definition holding_step ::
  "wal_codec \<Rightarrow> (append_io \<times> int) list \<Rightarrow> lease list \<Rightarrow> 'p option \<Rightarrow> bool \<Rightarrow> bool \<Rightarrow>
     append_io \<Rightarrow> int \<Rightarrow> durable \<Rightarrow> 'p coord \<Rightarrow> 'p coord" where
  "holding_step K env ls loaded isolated fired io now t c =
     (let h = tenure_holder c;
          t1 = sweep_stale_claims K env ls h t
      in case reconcile_control_plane loaded c of
           None \<Rightarrow> pause fired (c\<lparr>shared := Some (release_plane K io now h t1)\<rparr>)
         | Some c1 \<Rightarrow>
             if isolated
             then c1\<lparr>leadership := False, shared := Some (release_plane K io now h t1),
                     phase := Seeking\<rparr>
             else c1\<lparr>shared := Some t1, phase := Starting\<rparr>)"

text \<open>
  \<open>scheduler::start\<close> under the holder id \<open>h\<close>: the tasks it has spawned when it returns, and whether
  it returns them. The tension tick is spawned first; a time zone that does not parse ends the
  start after it. \<open>enabled_ids\<close> are the enabled entries of the schedule.
\<close>

record start_env =
  tension_on :: bool
  scheduler_on :: bool
  timezone_ok :: bool
  enabled_ids :: "bytes list"
  liveness_on :: bool
  autonomy_on :: bool

definition started_ticks :: "start_env \<Rightarrow> sched_task list" where
  "started_ticks E = (if tension_on E then [TickTask] else [])"

definition scheduler_start :: "start_env \<Rightarrow> bytes \<Rightarrow> sched_task list \<times> bool" where
  "scheduler_start E h =
     (if \<not> scheduler_on E then (started_ticks E, True)
      else if \<not> timezone_ok E then (started_ticks E, False)
      else (started_ticks E @ map (\<lambda>i. LoopTask i h) (enabled_ids E) @
             (if liveness_on E then [WatchdogTask] else []) @ (if autonomy_on E then [DrainTask h] else []), True))"

text \<open>
  What has been spawned at each point where the start waits, for the lock of the schedule and
  for that of the queue: an abort of the loop takes effect there.
\<close>

definition start_awaits :: "start_env \<Rightarrow> bytes \<Rightarrow> sched_task list list" where
  "start_awaits E h =
     (if scheduler_on E \<and> timezone_ok E
      then started_ticks E # (if autonomy_on E then [fst (scheduler_start E h)] else [])
      else [])"

text \<open>
  The start and what follows it. When it fails the handles are dropped with the error and the
  loop gives up: what was spawned keeps running, and \<open>leadership\<close> stays set.
\<close>

definition starting_step ::
  "wal_codec \<Rightarrow> start_env \<Rightarrow> int \<Rightarrow> append_io \<Rightarrow> int \<Rightarrow> durable \<Rightarrow> 'p coord \<Rightarrow> 'p coord" where
  "starting_step K E instant io now t c =
     (case scheduler_start E (tenure_holder c) of
        (spawned, True) \<Rightarrow> c\<lparr>handles := spawned, last_renew := instant, phase := Leading\<rparr>
      | (spawned, False) \<Rightarrow> c\<lparr>left_running := left_running c @ spawned,
          shared := Some (release_plane K io now (tenure_holder c) t), phase := Stopped\<rparr>)"

text \<open>One turn of \<open>renew_until_lost_or_shutdown\<close>.\<close>

definition renew_turn ::
  "int \<Rightarrow> bool \<Rightarrow> bool \<Rightarrow> int \<Rightarrow> int \<Rightarrow> durable \<Rightarrow> 'p coord \<Rightarrow> tenure_end option \<times> 'p coord" where
  "renew_turn M fired isolated instant now t c =
     (if wait_or_shutdown fired c then (Some Shutdown, c)
      else if isolated then (Some Isolated, c)
      else if instant - last_renew c < RENEW_INTERVAL then (None, c)
      else (case durable_renew M t CONTROL_PLANE_RESOURCE (tenure_holder c) LEASE_TTL now of
          (Inr _, t') \<Rightarrow> (None, c\<lparr>last_renew := instant, shared := Some t'\<rparr>)
        | (Inl _, t') \<Rightarrow> (Some Lost, c\<lparr>last_renew := instant, shared := Some t'\<rparr>)))"

definition end_tenure ::
  "wal_codec \<Rightarrow> append_io \<Rightarrow> int \<Rightarrow> tenure_end \<Rightarrow> durable \<Rightarrow> 'p coord \<Rightarrow> 'p coord" where
  "end_tenure K io now e t c =
     (let c1 = abort_all (c\<lparr>leadership := False\<rparr>);
          c2 = c1\<lparr>shared := Some (release_plane K io now (tenure_holder c) t)\<rparr>
      in case e of
           Shutdown \<Rightarrow> c2\<lparr>phase := Stopped\<rparr>
         | Lost \<Rightarrow> c2\<lparr>phase := Seeking\<rparr>
         | Isolated \<Rightarrow> c2\<lparr>phase := Seeking\<rparr>)"

definition leading_step ::
  "wal_codec \<Rightarrow> int \<Rightarrow> bool \<Rightarrow> bool \<Rightarrow> int \<Rightarrow> int \<Rightarrow> append_io \<Rightarrow> durable \<Rightarrow> 'p coord \<Rightarrow> 'p coord" where
  "leading_step K M fired isolated instant now io t c =
     (case renew_turn M fired isolated instant now t c of
        (None, c1) \<Rightarrow> c1
      | (Some e, c1) \<Rightarrow> end_tenure K io now e (the (shared c1)) c1)"

subsection \<open>Executions\<close>

text \<open>
  The loop, the handle's shutdown and drop, and the claims the scheduler's tasks and the intent
  drain take on the same table, in any order.
\<close>

inductive ctl_step :: "wal_codec \<Rightarrow> int \<Rightarrow> bytes \<Rightarrow> 'p coord \<Rightarrow> 'p coord \<Rightarrow> bool" for K M base where
  in_opening: "phase c = Opening \<Longrightarrow> ctl_step K M base c (open_step opened fired c)"
| in_seeking: "phase c = Seeking \<Longrightarrow> shared c = Some t \<Longrightarrow>
     ctl_step K M base c (seek_step K M base isolated fired io now t c)"
| in_holding: "phase c = Holding \<Longrightarrow> shared c = Some t \<Longrightarrow> durable_leases t ls \<Longrightarrow>
     ctl_step K M base c (holding_step K env ls loaded isolated fired io now t c)"
| in_starting: "phase c = Starting \<Longrightarrow> shared c = Some t \<Longrightarrow>
     ctl_step K M base c (starting_step K E instant io now t c)"
| in_leading: "phase c = Leading \<Longrightarrow> shared c = Some t \<Longrightarrow>
     ctl_step K M base c (leading_step K M fired isolated instant now io t c)"
| shutdown_begin: "ctl_step K M base c (coord_shutdown_begin c)"
| shutdown_end: "\<not> handle_held c \<Longrightarrow> ctl_step K M base c (coord_shutdown_end c)"
| dropped: "ctl_step K M base c (coord_drop c)"
| dropped_in_start: "phase c = Starting \<Longrightarrow> handle_held c \<Longrightarrow> spawned \<in> set (start_awaits E (tenure_holder c)) \<Longrightarrow>
     ctl_step K M base c ((coord_drop c)\<lparr>cut_off := cut_off c @ spawned\<rparr>)"
| claim_acquire: "shared c = Some t \<Longrightarrow> claim_resource r \<Longrightarrow>
     durable_acquire K M io t r h q now = (x, t') \<Longrightarrow> ctl_step K M base c (c\<lparr>shared := Some t'\<rparr>)"
| claim_renew: "shared c = Some t \<Longrightarrow> claim_resource r \<Longrightarrow>
     durable_renew M t r h q now = (x, t') \<Longrightarrow> ctl_step K M base c (c\<lparr>shared := Some t'\<rparr>)"
| claim_release: "shared c = Some t \<Longrightarrow> claim_resource r \<Longrightarrow>
     durable_release K io t r h now = (y, t') \<Longrightarrow> ctl_step K M base c (c\<lparr>shared := Some t'\<rparr>)"

inductive ctl_reach :: "wal_codec \<Rightarrow> int \<Rightarrow> bytes \<Rightarrow> 'p coord \<Rightarrow> bool" for K M base where
  start: "ctl_reach K M base (coord_start enabled p)"
| more: "ctl_reach K M base c \<Longrightarrow> ctl_step K M base c c' \<Longrightarrow> ctl_reach K M base c'"

subsection \<open>What claims leave alone\<close>

lemma claim_resource_plane: "\<not> claim_resource CONTROL_PLANE_RESOURCE"
  by (simp add: claim_resource_def CONTROL_PLANE_RESOURCE_def starts_with_def)

lemma acquire_other:
  "durable_acquire K M io d r h q now = (x, d') \<Longrightarrow> r' \<noteq> r \<Longrightarrow> leases (tbl d') r' = leases (tbl d) r'"
  by (cases x) (auto dest: dl.acq_ok dl.acq_err)

lemma renew_other:
  "durable_renew M d r h q now = (x, d') \<Longrightarrow> r' \<noteq> r \<Longrightarrow> leases (tbl d') r' = leases (tbl d) r'"
  by (cases x) (auto dest: dl.ren_ok dl.ren_err)

lemma release_other:
  "durable_release K io d r h now = (y, d') \<Longrightarrow> r' \<noteq> r \<Longrightarrow> leases (tbl d') r' = leases (tbl d) r'"
  by (cases y) (auto dest: dl.rel_ok dl.rel_err)

lemmas other_resource = acquire_other renew_other release_other

lemma release_each_other:
  "(\<And>l. l \<in> set ls \<Longrightarrow> resource_id l \<noteq> r) \<Longrightarrow>
     leases (tbl (release_each K env ls d)) r = leases (tbl d) r"
proof (induction K env ls d rule: release_each.induct)
  case (1 K io now env l ls d)
  then show ?case
    using release_other [of K io d "resource_id l" "holder_id l" now _ _ r]
    by (metis list.set_intros(1,2) prod.collapse release_each.simps(1))
qed simp_all

lemma sweep_keeps_plane:
  "leases (tbl (sweep_stale_claims K env ls h d)) CONTROL_PLANE_RESOURCE =
     leases (tbl d) CONTROL_PLANE_RESOURCE"
  unfolding sweep_stale_claims_def
  by (rule release_each_other) (use claim_resource_plane in \<open>auto simp: stale_claim_def\<close>)

subsection \<open>The invariant\<close>

definition holds_plane :: "'p coord \<Rightarrow> bool" where
  "holds_plane c \<longleftrightarrow> (\<exists>t l. shared c = Some t \<and>
     leases (tbl t) CONTROL_PLANE_RESOURCE = Some l \<and> holder_id l = tenure_holder c)"

definition ctl_inv :: "'p coord \<Rightarrow> bool" where
  "ctl_inv c \<longleftrightarrow>
     (phase c \<in> {Holding, Starting, Leading} \<longrightarrow> holds_plane c) \<and>
     (\<forall>x \<in> set (handles c). claims_as x \<in> {None, Some (tenure_holder c)}) \<and>
     (handles c \<noteq> [] \<longrightarrow> phase c = Leading) \<and>
     (phase c \<in> {Holding, Starting, Leading} \<longrightarrow> leadership c \<or> \<not> handle_held c)"

text \<open>The tasks nobody can abort any more.\<close>

definition stray_inv :: "'p coord \<Rightarrow> bool" where
  "stray_inv c \<longleftrightarrow> (phase c \<noteq> Stopped \<longrightarrow> left_running c = [] \<and> cut_off c = []) \<and>
     set (left_running c) \<subseteq> {TickTask} \<and> (cut_off c \<noteq> [] \<longrightarrow> \<not> handle_held c \<and> left_running c = [])"

lemma ctl_inv_start: "ctl_inv (coord_start enabled p)"
  by (simp add: ctl_inv_def coord_start_def)

lemma ctl_inv_idle:
  "ctl_inv c \<Longrightarrow> phase c \<noteq> Leading \<Longrightarrow> handles c = []"
  by (auto simp: ctl_inv_def)

lemma ctl_inv_quiet: "handles c = [] \<Longrightarrow> phase c \<notin> {Holding, Starting, Leading} \<Longrightarrow> ctl_inv c"
  by (simp add: ctl_inv_def)

lemma ctl_inv_open: "ctl_inv c \<Longrightarrow> phase c = Opening \<Longrightarrow> ctl_inv (open_step r fired c)"
  by (rule ctl_inv_quiet) (auto simp: open_step_def ctl_inv_idle split: sum.splits)

lemma ctl_inv_seek:
  assumes inv: "ctl_inv c" and ph: "phase c = Seeking"
  shows "ctl_inv (seek_step K M base isolated fired io now t c)"
proof -
  have h: "handles c = []" using inv ph by (simp add: ctl_inv_idle)
  obtain x t' where a: "durable_acquire K M io t CONTROL_PLANE_RESOURCE
    (tenure_holder_of base (tenure c + 1)) LEASE_TTL now = (x, t')" by force
  show ?thesis
  proof (cases "\<not> shut c \<and> \<not> isolated \<and> is_ok x")
    case True
    then obtain l where "x = Inr l" by (auto simp: is_ok_iff)
    with True a h dl.acq_ok [OF a [unfolded \<open>x = Inr l\<close>]] show ?thesis
      by (auto simp: ctl_inv_def seek_step_def Let_def holds_plane_def)
  next
    case False
    with a h ph show ?thesis
      by (intro ctl_inv_quiet) (auto simp: seek_step_def Let_def pause_def split: sum.splits)
  qed
qed

lemma ctl_inv_holding:
  assumes inv: "ctl_inv c" and ph: "phase c = Holding" and t: "shared c = Some t"
  shows "ctl_inv (holding_step K env ls loaded isolated fired io now t c)"
proof -
  have h: "handles c = []" using inv ph by (simp add: ctl_inv_idle)
  show ?thesis
  proof (cases "loaded \<noteq> None \<and> \<not> isolated")
    case True
    with inv ph t h show ?thesis
      by (auto simp: ctl_inv_def holding_step_def reconcile_control_plane_def Let_def holds_plane_def
          sweep_keeps_plane)
  next
    case False
    with h show ?thesis
      by (intro ctl_inv_quiet)
        (auto simp: holding_step_def reconcile_control_plane_def Let_def pause_def split: option.splits)
  qed
qed

lemma scheduler_start_claims:
  "x \<in> set (fst (scheduler_start E h)) \<Longrightarrow> claims_as x \<in> {None, Some h}"
  by (auto simp: scheduler_start_def started_ticks_def split: if_splits)

lemma failed_start_ticks:
  "\<not> snd (scheduler_start E h) \<Longrightarrow> set (fst (scheduler_start E h)) \<subseteq> {TickTask}"
  by (auto simp: scheduler_start_def started_ticks_def split: if_splits)

lemma starting_step_cases:
  "starting_step K E instant io now t c =
     (if snd (scheduler_start E (tenure_holder c))
      then c\<lparr>handles := fst (scheduler_start E (tenure_holder c)), last_renew := instant, phase := Leading\<rparr>
      else c\<lparr>left_running := left_running c @ fst (scheduler_start E (tenure_holder c)),
        shared := Some (release_plane K io now (tenure_holder c) t), phase := Stopped\<rparr>)"
  by (simp add: starting_step_def split: prod.splits bool.splits)

lemma ctl_inv_starting:
  assumes inv: "ctl_inv c" and ph: "phase c = Starting" and t: "shared c = Some t"
  shows "ctl_inv (starting_step K E instant io now t c)"
proof (cases "snd (scheduler_start E (tenure_holder c))")
  case False
  with inv ph show ?thesis by (intro ctl_inv_quiet) (auto simp: starting_step_cases ctl_inv_idle)
next
  case True
  with inv ph show ?thesis
    using scheduler_start_claims [of _ E "tenure_holder c"]
    by (auto simp: ctl_inv_def starting_step_cases holds_plane_def)
qed

lemma end_tenure_stops:
  "handles (end_tenure K io now e t c) = []"
  "leadership (end_tenure K io now e t c) = False"
  "phase (end_tenure K io now e t c) = (if e = Shutdown then Stopped else Seeking)"
  "shared (end_tenure K io now e t c) = Some (release_plane K io now (tenure_holder c) t)"
  by (cases e; simp add: end_tenure_def abort_all_def Let_def)+

lemma ctl_inv_leading:
  assumes inv: "ctl_inv c" and ph: "phase c = Leading" and t: "shared c = Some t"
  shows "ctl_inv (leading_step K M fired isolated instant now io t c)"
proof -
  obtain e c1 where r: "renew_turn M fired isolated instant now t c = (e, c1)" by force
  show ?thesis
  proof (cases e)
    case (Some e')
    with r show ?thesis
      by (intro ctl_inv_quiet) (auto simp: leading_step_def end_tenure_stops)
  next
    case None
    obtain x t' where n: "durable_renew M t CONTROL_PLANE_RESOURCE (tenure_holder c) LEASE_TTL now = (x, t')"
      by force
    from None r n consider "c1 = c"
      | l where "x = Inr l" "c1 = c\<lparr>last_renew := instant, shared := Some t'\<rparr>"
      by (auto simp: renew_turn_def split: if_splits sum.splits)
    then show ?thesis
    proof cases
      case 1
      with inv r None show ?thesis by (simp add: leading_step_def)
    next
      case 2
      from dl.ren_ok [OF n [unfolded 2(1)]] obtain l0
        where "holder_id l = tenure_holder c" "leases (tbl t') CONTROL_PLANE_RESOURCE = Some l"
        by auto
      with inv ph 2 r None show ?thesis
        by (auto simp: leading_step_def ctl_inv_def holds_plane_def)
    qed
  qed
qed

lemma ctl_inv_claim:
  assumes inv: "ctl_inv c" and t: "shared c = Some t"
    and keep: "leases (tbl t') CONTROL_PLANE_RESOURCE = leases (tbl t) CONTROL_PLANE_RESOURCE"
  shows "ctl_inv (c\<lparr>shared := Some t'\<rparr>)"
  using assms by (auto simp: ctl_inv_def holds_plane_def)

lemma ctl_inv_handle:
  assumes "ctl_inv c"
  shows "ctl_inv (coord_shutdown_begin c)" "ctl_inv (coord_shutdown_end c)" "ctl_inv (coord_drop c)"
  using assms
  by (auto simp: ctl_inv_def coord_shutdown_begin_def coord_shutdown_end_def coord_drop_def
      abort_all_def holds_plane_def Let_def)

lemma ctl_step_inv: "ctl_step K M base c c' \<Longrightarrow> ctl_inv c \<Longrightarrow> ctl_inv c'"
proof (induction rule: ctl_step.cases)
  case (claim_acquire c t r io h q now x t')
  then show ?case using acquire_other claim_resource_plane by (metis ctl_inv_claim)
next
  case (claim_renew c t r h q now x t')
  then show ?case using renew_other claim_resource_plane by (metis ctl_inv_claim)
next
  case (claim_release c t r io h now y t')
  then show ?case using release_other claim_resource_plane by (metis ctl_inv_claim)
next
  case (dropped_in_start c spawned E)
  then show ?case using ctl_inv_handle(3) [of c] by (auto simp: ctl_inv_def holds_plane_def)
qed (simp_all add: ctl_inv_open ctl_inv_seek ctl_inv_holding ctl_inv_starting ctl_inv_leading
    ctl_inv_handle)

lemma ctl_reach_inv: "ctl_reach K M base c \<Longrightarrow> ctl_inv c"
  by (induction rule: ctl_reach.induct) (auto intro: ctl_inv_start ctl_step_inv)

subsection \<open>Stray tasks\<close>

text \<open>Only a failed start and an abort within a start let go of spawned tasks.\<close>

lemma strays_kept [simp]:
  "left_running (open_step r fired c) = left_running c" "cut_off (open_step r fired c) = cut_off c"
  "left_running (seek_step K M base isolated fired io now t c) = left_running c"
  "cut_off (seek_step K M base isolated fired io now t c) = cut_off c"
  "left_running (holding_step K env ls loaded isolated fired io now t c) = left_running c"
  "cut_off (holding_step K env ls loaded isolated fired io now t c) = cut_off c"
  "cut_off (starting_step K E instant io now t c) = cut_off c"
  "left_running (coord_drop c) = left_running c" "cut_off (coord_drop c) = cut_off c"
  by (auto simp: open_step_def seek_step_def holding_step_def starting_step_cases pause_def coord_drop_def
      abort_all_def reconcile_control_plane_def Let_def split: sum.splits option.splits prod.splits)

lemma strays_kept_leading [simp]:
  "left_running (leading_step K M fired isolated instant now io t c) = left_running c"
  "cut_off (leading_step K M fired isolated instant now io t c) = cut_off c"
  by (auto simp: leading_step_def renew_turn_def end_tenure_def abort_all_def Let_def
      split: sum.splits option.splits prod.splits tenure_end.splits if_splits)

lemma handle_kept [simp]:
  "handle_held (starting_step K E instant io now t c) = handle_held c"
  by (simp add: starting_step_cases)

lemma stray_inv_live: "stray_inv c \<Longrightarrow> phase c \<noteq> Stopped \<Longrightarrow> left_running c = [] \<and> cut_off c = []"
  by (simp add: stray_inv_def)

lemma stray_inv_same:
  "left_running c = [] \<Longrightarrow> cut_off c = [] \<Longrightarrow> stray_inv c"
  by (simp add: stray_inv_def)

lemma ctl_step_stray: "ctl_step K M base c c' \<Longrightarrow> stray_inv c \<Longrightarrow> stray_inv c'"
proof (induction rule: ctl_step.cases)
  case (in_starting c t E instant io now)
  then show ?case using failed_start_ticks [of E "tenure_holder c"]
    by (auto simp: stray_inv_def starting_step_cases)
next
  case (dropped_in_start c spawned E)
  then show ?case by (auto simp: stray_inv_def coord_drop_def abort_all_def Let_def)
next
  case (shutdown_begin c)
  then show ?case by (simp add: stray_inv_def coord_shutdown_begin_def)
next
  case (shutdown_end c)
  then show ?case by (auto simp: stray_inv_def coord_shutdown_end_def coord_drop_def abort_all_def Let_def)
next
  case (dropped c)
  then show ?case by (auto simp: stray_inv_def coord_drop_def abort_all_def Let_def)
next
  case (claim_acquire c t r io h q now x t')
  then show ?case by (simp add: stray_inv_def)
next
  case (claim_renew c t r h q now x t')
  then show ?case by (simp add: stray_inv_def)
next
  case (claim_release c t r io h now y t')
  then show ?case by (simp add: stray_inv_def)
qed (auto intro!: stray_inv_same dest!: stray_inv_live)

lemma ctl_reach_stray: "ctl_reach K M base c \<Longrightarrow> stray_inv c"
proof (induction rule: ctl_reach.induct)
  case (start enabled p)
  then show ?case by (simp add: stray_inv_def coord_start_def)
next
  case (more c c')
  then show ?case by (blast intro: ctl_step_stray)
qed

subsection \<open>The ids claimants use\<close>

lemma ascii_digit_id_char: "ascii_digit c \<Longrightarrow> id_char c"
  by (simp add: id_char_def ascii_alphanumeric_def)

lemma decimal_id: "list_all id_char (decimal n)"
  by (auto simp: list_all_iff intro: ascii_digit_id_char dest: decimal_digits)

lemma lease_safe_ok:
  "lease_safe s \<noteq> []" "length (lease_safe s) \<le> 64" "list_all id_char (lease_safe s)"
proof -
  show "lease_safe s \<noteq> []" by (simp add: lease_safe_def Let_def)
  show "length (lease_safe s) \<le> 64" by (simp add: lease_safe_def Let_def)
  have "list_all id_char ''unnamed''"
    by (simp add: id_char_def ascii_alphanumeric_def byte_def)
  then show "list_all id_char (lease_safe s)"
    by (auto simp: lease_safe_def Let_def list_all_iff id_char_def dest!: in_set_takeD split: list.split)
qed

lemma decimal_word_length: "length (decimal (unat (w :: u64))) \<le> 20" "length (decimal (unat (v :: u32))) \<le> 10"
proof -
  have "unat w < 2 ^ 64" "unat v < 2 ^ 32" using unsigned_less [of w] unsigned_less [of v] by simp_all
  then have "unat w < 10 ^ 20" "unat v < 10 ^ 10" by simp_all
  then show "length (decimal (unat w)) \<le> 20" "length (decimal (unat v)) \<le> 10"
    by (simp_all only: decimal_length zero_less_numeral)
qed

subsection \<open>The sweep\<close>

text \<open>A release meets no obstacle: the log is sound, its event can be written.\<close>

definition releasable :: "wal_codec \<Rightarrow> durable \<Rightarrow> lease \<Rightarrow> int \<Rightarrow> bool" where
  "releasable K d l now \<longleftrightarrow> \<not> poisoned (wal d) \<and>
     enc K WAL_VERSION (Released now (resource_id l) (holder_id l)) \<noteq> None"

lemma release_fine:
  assumes "releasable K d l now" and "leases (tbl d) (resource_id l) = Some l'"
    and "holder_id l' = holder_id l"
  shows "\<exists>d'. durable_release K io_fine d (resource_id l) (holder_id l) now = (Inr (), d') \<and>
    poisoned (wal d') = False \<and> leases (tbl d') = (leases (tbl d))(resource_id l := None) \<and>
    watermarks (tbl d') = watermarks (tbl d)"
  using assms
  by (auto simp: durable_release_Inr_iff release_Inr_iff wal_append_Inr_iff releasable_def io_fine_def
      write_error_def)

lemma release_each_fine:
  assumes "\<And>l now. l \<in> set ls \<Longrightarrow> now \<in> set nows \<Longrightarrow> releasable K d l now"
    and "distinct (map resource_id ls)"
    and "\<And>l. l \<in> set ls \<Longrightarrow> leases (tbl d) (resource_id l) = Some l"
    and "length nows = length ls"
  shows "leases (tbl (release_each K (map (Pair io_fine) nows) ls d)) =
      (\<lambda>r. if r \<in> resource_id ` set ls then None else leases (tbl d) r) \<and>
    watermarks (tbl (release_each K (map (Pair io_fine) nows) ls d)) = watermarks (tbl d)"
  using assms
proof (induction ls arbitrary: nows d)
  case (Cons l ls)
  then obtain now ns where nows: "nows = now # ns" by (cases nows) auto
  with Cons.prems(1) have "releasable K d l now" by simp
  from release_fine [OF this Cons.prems(3)] obtain d' where
    d': "durable_release K io_fine d (resource_id l) (holder_id l) now = (Inr (), d')"
    "poisoned (wal d') = False" "leases (tbl d') = (leases (tbl d))(resource_id l := None)"
    "watermarks (tbl d') = watermarks (tbl d)" by auto
  have r: "releasable K d' k n" if "k \<in> set ls" "n \<in> set ns" for k n
    using Cons.prems(1) [of k n] that d'(2) nows by (simp add: releasable_def)
  have at: "leases (tbl d') (resource_id k) = Some k" if "k \<in> set ls" for k
    using that d'(3) Cons.prems(2,3) by (force simp: image_iff)
  from Cons.IH [OF r _ at] Cons.prems(2,4) nows d' show ?case by (auto simp: fun_eq_iff)
qed auto

lemma durable_leases_distinct:
  assumes "table_wf (tbl d)" and "durable_leases d ls"
  shows "distinct (map resource_id ls)"
    and "\<And>l. l \<in> set ls \<Longrightarrow> leases (tbl d) (resource_id l) = Some l"
proof -
  show at: "leases (tbl d) (resource_id l) = Some l" if "l \<in> set ls" for l
    using assms that by (auto simp: durable_leases_def ran_def dest: table_wfD)
  then have "inj_on resource_id (set ls)" by (metis inj_onI option.inject)
  with assms(2) show "distinct (map resource_id ls)" by (simp add: durable_leases_def distinct_map)
qed

subsection \<open>A concrete tenure, for the witnesses\<close>

definition plane_lease :: lease where
  "plane_lease = \<lparr>resource_id = ''control-plane'', holder_id = ''p-t1'', fencing_token = 1,
     granted_at = 0, ttl = 90 * 10 ^ 9\<rparr>"

definition plane_lines :: wal_codec where
  "plane_lines = \<lparr>
     enc = (\<lambda>v e. if v = WAL_VERSION \<and> e = Acquired 0 plane_lease then Some ''a''
                  else if v = WAL_VERSION \<and> e = Released 5 ''control-plane'' ''p-t1'' then Some ''b''
                  else if v = WAL_VERSION \<and> e = Released 5 ''task-a'' ''p-t0'' then Some ''c''
                  else None),
     dec = (\<lambda>s. if s = ''a'' then Some (WAL_VERSION, Acquired 0 plane_lease)
                else if s = ''b'' then Some (WAL_VERSION, Released 5 ''control-plane'' ''p-t1'')
                else if s = ''c'' then Some (WAL_VERSION, Released 5 ''task-a'' ''p-t0'') else None)\<rparr>"

definition plane_table :: durable where
  "plane_table = \<lparr>tbl = \<lparr>leases = [''control-plane'' \<mapsto> plane_lease], watermarks = [''control-plane'' \<mapsto> 1]\<rparr>,
     wal = \<lparr>contents = ''a'' @ [newline], poisoned = False\<rparr>\<rparr>"

definition demo_seeking :: "unit coord" where
  "demo_seeking = (coord_start True ())\<lparr>phase := Seeking, shared := Some durable_empty\<rparr>"

definition demo_holding :: "unit coord" where
  "demo_holding = demo_seeking\<lparr>phase := Holding, shared := Some plane_table, tenure := 1,
     tenure_holder := ''p-t1'', leadership := True\<rparr>"

definition demo_env :: start_env where
  "demo_env = \<lparr>tension_on = True, scheduler_on = True, timezone_ok = True, enabled_ids = [''dream''],
     liveness_on = True, autonomy_on = True\<rparr>"

definition demo_leading :: "unit coord" where
  "demo_leading = demo_holding\<lparr>phase := Leading, handles := [TickTask, LoopTask ''dream'' ''p-t1'', WatchdogTask, DrainTask ''p-t1'']\<rparr>"

lemma id_ok_plane: "id_ok ''control-plane''" "id_ok ''p-t1''"
  by (simp_all add: id_ok_def MAX_ID_BYTES_def id_char_def ascii_alphanumeric_def ascii_digit_def byte_def)

lemma plane_acquire:
  "durable_acquire plane_lines 10000000000000 io_fine durable_empty CONTROL_PLANE_RESOURCE ''p-t1''
     LEASE_TTL 0 = (Inr plane_lease, plane_table)"
  by (simp add: durable_acquire_Inr_iff acquire_Inr_iff wal_append_Inr_iff id_ok_plane ttl_ok_def
      CONTROL_PLANE_RESOURCE_def LEASE_TTL_def MAX_TTL_def secs_def plane_lease_def plane_table_def
      plane_lines_def durable_empty_def table_new_def next_token_def free_at_def grant_event_def
      table_get_def write_error_def enc_line_def io_fine_def)

lemma tenure_one: "tenure_holder_of ''p'' 1 = ''p-t1''"
  by (simp add: tenure_holder_of_def decimal.simps) (simp add: char_of_def bit_iff_odd)

lemma demo_reach_seeking: "ctl_reach K M base demo_seeking"
  using ctl_reach.more [OF ctl_reach.start in_opening [of "coord_start True ()" K M base "Inr durable_empty" False]]
  by (simp add: coord_start_def demo_seeking_def open_step_def)

lemma demo_reach_holding: "ctl_reach plane_lines 10000000000000 ''p'' demo_holding"
proof -
  have "seek_step plane_lines 10000000000000 ''p'' False False io_fine 0 durable_empty demo_seeking =
      demo_holding"
    by (simp add: seek_step_def demo_seeking_def demo_holding_def coord_start_def Let_def tenure_one
        plane_acquire)
  then show ?thesis
    using ctl_reach.more [OF demo_reach_seeking in_seeking, of durable_empty plane_lines 10000000000000
        "''p''" False False io_fine 0]
    by (simp add: demo_seeking_def)
qed

lemma demo_reach_starting: "ctl_reach plane_lines 10000000000000 ''p'' (demo_holding\<lparr>phase := Starting\<rparr>)"
proof -
  have "durable_leases plane_table [plane_lease]"
    by (simp add: durable_leases_def plane_table_def)
  then have "ctl_step plane_lines 10000000000000 ''p'' demo_holding
      (holding_step plane_lines [] [plane_lease] (Some ()) False False io_fine 5 plane_table demo_holding)"
    by (intro in_holding) (simp_all add: demo_holding_def)
  then have "ctl_step plane_lines 10000000000000 ''p'' demo_holding (demo_holding\<lparr>phase := Starting\<rparr>)"
    by (simp add: holding_step_def reconcile_control_plane_def Let_def sweep_stale_claims_def
        stale_claim_def plane_lease_def demo_holding_def demo_seeking_def coord_start_def)
  from ctl_reach.more [OF demo_reach_holding this] show ?thesis .
qed

lemma demo_reach_leading: "ctl_reach plane_lines 10000000000000 ''p'' demo_leading"
proof -
  let ?starting = "demo_holding\<lparr>phase := Starting\<rparr>"
  have "ctl_step plane_lines 10000000000000 ''p'' ?starting
      (starting_step plane_lines demo_env 0 io_fine 5 plane_table ?starting)"
    by (rule in_starting) (simp_all add: demo_holding_def)
  from ctl_reach.more [OF demo_reach_starting this] show ?thesis
    by (simp add: starting_step_def demo_leading_def demo_holding_def demo_seeking_def coord_start_def
        demo_env_def scheduler_start_def started_ticks_def)
qed

subsection \<open>Properties\<close>

text \<open>
  C6: leadership. In every reachable state of the loop and of the claimants around it, the
  coordinator has scheduler tasks only in its renewal phase; the task loops and the drain among
  them claim under this tenure's holder id; and the table records this tenure as the holder of the
  control plane from the grant on; nothing but this loop can take that lease from it. A
  spawned task escapes the coordinator in two ways only: a start that fails, after which the loop
  has stopped for good and the tension tick, which claims nothing, is all that can be left of it;
  and an abort of the loop inside a start, when the coordinator is dropped.
\<close>

theorem scheduler_only_under_lease:
  assumes "ctl_reach K M base c"
  shows "(handles c \<noteq> [] \<longrightarrow> phase c = Leading) \<and>
    (\<forall>x \<in> set (handles c). claims_as x \<in> {None, Some (tenure_holder c)}) \<and>
    (phase c \<in> {Holding, Starting, Leading} \<longrightarrow>
      (\<exists>t l. shared c = Some t \<and> durable_get t CONTROL_PLANE_RESOURCE = Some l \<and>
         holder_id l = tenure_holder c)) \<and>
    set (left_running c) \<subseteq> {TickTask} \<and>
    (left_running c \<noteq> [] \<longrightarrow> phase c = Stopped) \<and>
    (cut_off c \<noteq> [] \<longrightarrow> phase c = Stopped \<and> \<not> handle_held c)"
  using ctl_reach_inv [OF assms] ctl_reach_stray [OF assms]
  by (auto simp: ctl_inv_def stray_inv_def holds_plane_def durable_get_def table_get_def)

theorem scheduler_only_under_lease_witness:
  "handles demo_leading \<noteq> [] \<and> phase demo_leading = Leading \<and>
   (\<exists>t l. shared demo_leading = Some t \<and> durable_get t CONTROL_PLANE_RESOURCE = Some l \<and>
      holder_id l = tenure_holder demo_leading)"
  using scheduler_only_under_lease [OF demo_reach_leading] by (simp add: demo_leading_def)

text \<open>
  Isolation sheds the control plane. A turn of a reachable leading loop that sees the
  isolation marker, while not shutting down, stops every scheduler task, drops the leadership
  flag and, when the release can be logged, leaves the control-plane lease free.
\<close>

theorem isolation_sheds_control_plane:
  assumes "ctl_reach K M base c" and "phase c = Leading" and "shared c = Some t"
    and "\<not> wait_or_shutdown fired c" and "\<not> poisoned (wal t)"
    and "enc K WAL_VERSION (Released now CONTROL_PLANE_RESOURCE (tenure_holder c)) \<noteq> None"
  shows "\<exists>c' t'. leading_step K M fired True instant now io_fine t c = c' \<and> phase c' = Seeking \<and>
    handles c' = [] \<and> \<not> leadership c' \<and> shared c' = Some t' \<and>
    durable_get t' CONTROL_PLANE_RESOURCE = None"
proof -
  from ctl_reach_inv [OF assms(1)] assms(2,3) obtain l
    where l: "leases (tbl t) CONTROL_PLANE_RESOURCE = Some l" "holder_id l = tenure_holder c"
    by (auto simp: ctl_inv_def holds_plane_def)
  then have "durable_get (release_plane K io_fine now (tenure_holder c) t) CONTROL_PLANE_RESOURCE = None"
    using release_fine [of K t "l\<lparr>resource_id := CONTROL_PLANE_RESOURCE\<rparr>" now l] assms(5,6)
    by (auto simp: releasable_def release_plane_def durable_get_def table_get_def)
  moreover have "leading_step K M fired True instant now io_fine t c = end_tenure K io_fine now Isolated t c"
    using assms(3,4) by (simp add: leading_step_def renew_turn_def)
  ultimately show ?thesis by (simp add: end_tenure_stops)
qed

theorem isolation_sheds_control_plane_witness:
  "\<exists>c' t'. leading_step plane_lines 10000000000000 False True 7 5 io_fine plane_table demo_leading = c' \<and>
    phase c' = Seeking \<and> handles c' = [] \<and> \<not> leadership c' \<and> shared c' = Some t' \<and>
    durable_get t' CONTROL_PLANE_RESOURCE = None"
  by (rule isolation_sheds_control_plane [OF demo_reach_leading])
    (simp_all add: demo_leading_def demo_holding_def demo_seeking_def coord_start_def
      wait_or_shutdown_def plane_table_def plane_lines_def CONTROL_PLANE_RESOURCE_def plane_lease_def)

text \<open>
  Nothing starts into isolation. While the marker is there no acquire is attempted (the
  lease table is untouched and the loop keeps waiting or stops), and a marker that appears
  between the grant and the start is seen by the second check: the scheduler is not started.
\<close>

theorem isolation_blocks_start:
  "shared (seek_step K M base True fired io now t c) = shared c \<and>
   phase (seek_step K M base True fired io now t c) \<in> {Seeking, Stopped} \<and>
   phase (holding_step K env ls loaded True fired io now t c) \<in> {Seeking, Stopped} \<and>
   handles (holding_step K env ls loaded True fired io now t c) = handles c"
  by (auto simp: seek_step_def holding_step_def pause_def reconcile_control_plane_def Let_def
      split: option.splits)

text \<open>
  A tenure that lost its lease stops. When the renewal is due and the table's lease has
  expired, or is held by another holder, or is gone, the turn ends the tenure: no scheduler
  task and no leadership flag survive it.
\<close>

theorem lost_tenure_stops:
  assumes "RENEW_INTERVAL \<le> instant - last_renew c"
    and "\<And>l. durable_get t CONTROL_PLANE_RESOURCE = Some l \<Longrightarrow>
      holder_id l \<noteq> tenure_holder c \<or> is_expired M l now"
  shows "handles (leading_step K M fired isolated instant now io t c) = [] \<and>
    \<not> leadership (leading_step K M fired isolated instant now io t c) \<and>
    phase (leading_step K M fired isolated instant now io t c) \<in> {Seeking, Stopped}"
proof -
  obtain x t' where n: "durable_renew M t CONTROL_PLANE_RESOURCE (tenure_holder c) LEASE_TTL now = (x, t')"
    by force
  have "\<not> is_ok x"
  proof
    assume "is_ok x"
    with n obtain l where "durable_renew M t CONTROL_PLANE_RESOURCE (tenure_holder c) LEASE_TTL now = (Inr l, t')"
      by (auto simp: is_ok_iff)
    from dl.ren_ok [OF this] assms(2) show False by (auto simp: durable_get_def table_get_def)
  qed
  then obtain e where "x = Inl e" by (cases x) auto
  then have "fst (renew_turn M fired isolated instant now t c) \<noteq> None"
    using n assms(1) by (auto simp: renew_turn_def)
  then show ?thesis
    by (auto simp: leading_step_def end_tenure_stops split: prod.splits)
qed

theorem lost_tenure_stops_witness:
  "handles (leading_step plane_lines 10000000000000 False False (10 ^ 11) (10 ^ 12) io_fine plane_table demo_leading) = []"
  by (rule conjunct1 [OF lost_tenure_stops])
    (simp_all add: demo_leading_def demo_holding_def demo_seeking_def coord_start_def RENEW_INTERVAL_def
      secs_def plane_table_def durable_get_def table_get_def CONTROL_PLANE_RESOURCE_def plane_lease_def
      is_expired_def expires_at_def from_std_def)

text \<open>
  The sweep of a new tenure. On a well-formed table whose releases can be logged it frees
  exactly the task, intent and farm claims of other holders: every other lease is as it was,
  the control plane's included, and no watermark moves.
\<close>

theorem sweep_frees_stale_claims:
  assumes "table_wf (tbl d)" and "durable_leases d ls" and "length nows = length (filter (stale_claim h) ls)"
    and "\<And>l now. l \<in> set ls \<Longrightarrow> stale_claim h l \<Longrightarrow> now \<in> set nows \<Longrightarrow> releasable K d l now"
  shows "leases (tbl (sweep_stale_claims K (map (Pair io_fine) nows) ls h d)) =
      (\<lambda>r. case durable_get d r of None \<Rightarrow> None | Some l \<Rightarrow> if stale_claim h l then None else Some l) \<and>
    watermarks (tbl (sweep_stale_claims K (map (Pair io_fine) nows) ls h d)) = watermarks (tbl d)"
proof -
  let ?st = "filter (stale_claim h) ls"
  note dist = durable_leases_distinct [OF assms(1,2)]
  have "distinct (map resource_id ?st)" using dist(1) by (rule distinct_map_filter)
  then have rel: "leases (tbl (release_each K (map (Pair io_fine) nows) ?st d)) =
      (\<lambda>r. if r \<in> resource_id ` set ?st then None else leases (tbl d) r) \<and>
    watermarks (tbl (release_each K (map (Pair io_fine) nows) ?st d)) = watermarks (tbl d)"
    using release_each_fine [of ?st nows K d] assms(3,4) dist(2) by simp
  have "r \<in> resource_id ` set ?st \<longleftrightarrow> (\<exists>l. leases (tbl d) r = Some l \<and> stale_claim h l)" for r
    using assms(1,2) dist(2)
    by (auto simp: durable_leases_def ran_def image_iff dest: table_wfD)
  with rel show ?thesis
    by (auto simp: sweep_stale_claims_def durable_get_def table_get_def fun_eq_iff split: option.splits)
qed

definition orphan_table :: durable where
  "orphan_table = plane_table\<lparr>tbl :=
     \<lparr>leases = [''task-a'' \<mapsto> plane_lease\<lparr>resource_id := ''task-a'', holder_id := ''p-t0''\<rparr>],
      watermarks = [''task-a'' \<mapsto> 1]\<rparr>\<rparr>"

lemma id_ok_orphan: "id_ok ''task-a''" "id_ok ''p-t0''"
  by (simp_all add: id_ok_def MAX_ID_BYTES_def id_char_def ascii_alphanumeric_def ascii_digit_def byte_def)

theorem sweep_frees_stale_claims_witness:
  "leases (tbl (sweep_stale_claims plane_lines [(io_fine, 5)]
     [plane_lease\<lparr>resource_id := ''task-a'', holder_id := ''p-t0''\<rparr>] ''p-t1'' orphan_table)) ''task-a'' = None"
proof -
  let ?l = "plane_lease\<lparr>resource_id := ''task-a'', holder_id := ''p-t0''\<rparr>"
  have "table_wf (tbl orphan_table)"
    by (simp add: table_wf_def orphan_table_def lease_ok_def id_ok_orphan plane_lease_def ttl_ok_def
        MAX_TTL_def secs_def)
  moreover have "durable_leases orphan_table [?l]" by (simp add: durable_leases_def orphan_table_def)
  moreover have "stale_claim ''p-t1'' ?l"
    by (simp add: stale_claim_def claim_resource_def starts_with_def)
  moreover have "releasable plane_lines orphan_table ?l 5"
    by (simp add: releasable_def orphan_table_def plane_table_def plane_lines_def)
  ultimately have "leases (tbl (sweep_stale_claims plane_lines (map (Pair io_fine) [5]) [?l] ''p-t1'' orphan_table)) =
      (\<lambda>r. case durable_get orphan_table r of None \<Rightarrow> None
        | Some l \<Rightarrow> if stale_claim ''p-t1'' l then None else Some l)"
    by (intro conjunct1 [OF sweep_frees_stale_claims]) simp_all
  then show ?thesis
    using \<open>stale_claim ''p-t1'' ?l\<close>
    by (simp add: orphan_table_def durable_get_def table_get_def)
qed

text \<open>
  Every id the loop claims under is one the lease table accepts: whatever the pulse is
  called, the tenure's holder id passes the validation, so an acquire of the control plane never
  fails on its ids.
\<close>

theorem tenure_ids_accepted:
  "validate_id kind (tenure_holder_of (holder_id_of name pid) n) = Inr () \<and>
   validate_id kind CONTROL_PLANE_RESOURCE = Inr () \<and> validate_ttl r LEASE_TTL = Inr ()"
proof -
  have "length (tenure_holder_of (holder_id_of name pid) n) \<le> 64 + 1 + 10 + 2 + 20"
    using lease_safe_ok(2) [of name] decimal_word_length(1) [of n] decimal_word_length(2) [of pid]
    by (simp add: tenure_holder_of_def holder_id_of_def)
  moreover have "list_all id_char ''-t''" "list_all id_char ''-''"
    by (simp_all add: id_char_def ascii_alphanumeric_def byte_def)
  ultimately have "id_ok (tenure_holder_of (holder_id_of name pid) n)"
    using lease_safe_ok [of name]
    by (simp add: id_ok_def MAX_ID_BYTES_def tenure_holder_of_def holder_id_of_def decimal_id)
  then show ?thesis
    by (simp add: CONTROL_PLANE_RESOURCE_def id_ok_plane ttl_ok_def LEASE_TTL_def MAX_TTL_def secs_def)
qed

text \<open>
  The leadership flag can outlive the leadership. When the scheduler fails to start the loop
  releases the lease and returns for good, but the flag it set at the grant stays set: from
  every reachable state about to start, with the handle still held.
\<close>

theorem leadership_flag_left_set:
  assumes "ctl_reach K M base c" and "phase c = Starting" and "handle_held c"
    and "\<not> snd (scheduler_start E (tenure_holder c))"
  shows "leadership (starting_step K E instant io now t c) \<and>
    phase (starting_step K E instant io now t c) = Stopped \<and>
    handles (starting_step K E instant io now t c) = []"
  using ctl_reach_inv [OF assms(1)] assms(2-) by (auto simp: starting_step_cases ctl_inv_def)

theorem leadership_flag_left_set_witness:
  "leadership (starting_step plane_lines (demo_env\<lparr>timezone_ok := False\<rparr>) 0 io_fine 5 plane_table
     (demo_holding\<lparr>phase := Starting\<rparr>))"
  by (rule conjunct1 [OF leadership_flag_left_set [OF demo_reach_starting]])
    (simp_all add: demo_holding_def demo_seeking_def coord_start_def demo_env_def scheduler_start_def)

text \<open>
  The tension tick can outlive the lease. A start that fails on its time zone leaves it running
  after the control plane was released, and no handle of it is left to abort.
\<close>

lemma failed_start_leaves_the_tick:
  assumes "tension_on E" and "scheduler_on E" and "\<not> timezone_ok E"
  shows "TickTask \<in> set (left_running (starting_step K E instant io now t c)) \<and>
    shared (starting_step K E instant io now t c) = Some (release_plane K io now (tenure_holder c) t)"
  using assms by (simp add: starting_step_def scheduler_start_def started_ticks_def)

end
