(* ===== verification/Farm.thy ===== *)
theory Farm
  imports Control "HOL-Library.Multiset"
begin

text \<open>
  \<open>src/coordinator/farm.rs\<close>: a farm delegates subtasks to child executions. Each attempt takes
  the subtask's lease, raises the fence of the result store to its token, spawns a child and
  waits for it; a child that outlives its lease is reclaimed by the next attempt.

  The controller of a subtask is a state machine over its suspension points. Children run
  concurrently: a spawned child may commit at any later moment, also after it was aborted
  (an abort takes effect only at the child's next suspension), so no property rests on the abort.
\<close>

subsection \<open>Specifications and limits\<close>

definition MAX_SUBTASKS :: nat where
  "MAX_SUBTASKS = 8"

record subtask_spec =
  sub_id :: bytes
  prompt :: bytes

record farm_spec =
  farm_spec_id :: bytes
  description :: bytes
  subtasks :: "subtask_spec list"
  synthesis :: "bytes option"

record farm_caps =
  max_concurrency :: nat
  max_attempts :: nat
  subtask_ttl :: nat
  wall_budget :: nat
  reclaim_abort :: bool

definition default_caps :: farm_caps where
  "default_caps = \<lparr>max_concurrency = 3, max_attempts = 2, subtask_ttl = secs (16 * 60),
     wall_budget = secs (20 * 60), reclaim_abort = True\<rparr>"

record subtask_result =
  result_id :: bytes
  result_text :: bytes
  result_attempts :: nat

record farm_outcome =
  results :: "subtask_result list"
  failed :: "bytes list"
  outcome_late :: u32
  outcome_reclaims :: u32

subsection \<open>The fenced result store\<close>

record farm_results =
  inner :: "bytes \<rightharpoonup> fenced_resource \<times> (u64 \<times> bytes) option"
  late_fenced :: u32

definition results_new :: farm_results where
  "results_new = \<lparr>inner = Map.empty, late_fenced = 0\<rparr>"

definition entry_of :: "farm_results \<Rightarrow> bytes \<Rightarrow> fenced_resource \<times> (u64 \<times> bytes) option" where
  "entry_of fr i = (case inner fr i of None \<Rightarrow> (fenced_new, None) | Some e \<Rightarrow> e)"

definition raise_fence :: "farm_results \<Rightarrow> bytes \<Rightarrow> u64 \<Rightarrow> farm_results" where
  "raise_fence fr i token =
     (let e = entry_of fr i;
          target = (case high_water (fst e) of None \<Rightarrow> token | Some high \<Rightarrow> max high token)
      in fr\<lparr>inner := (inner fr)(i \<mapsto> (fenced_at target, snd e))\<rparr>)"

definition commit :: "farm_results \<Rightarrow> bytes \<Rightarrow> u64 \<Rightarrow> bytes \<Rightarrow> bool \<times> farm_results" where
  "commit fr i token text =
     (let e = entry_of fr i
      in case accept (fst e) token of
           (Inr _, g) \<Rightarrow> (True, fr\<lparr>inner := (inner fr)(i \<mapsto> (g, Some (token, text)))\<rparr>)
         | (Inl _, g) \<Rightarrow> (False, fr\<lparr>inner := (inner fr)(i \<mapsto> (g, snd e)),
                                   late_fenced := late_fenced fr + 1\<rparr>))"

definition take_if_token :: "farm_results \<Rightarrow> bytes \<Rightarrow> u64 \<Rightarrow> bytes option \<times> farm_results" where
  "take_if_token fr i token =
     (case inner fr i of
        None \<Rightarrow> (None, fr)
      | Some (g, r) \<Rightarrow>
          (case r of
             Some (t, text) \<Rightarrow>
               (if t = token then (Some text, fr\<lparr>inner := (inner fr)(i \<mapsto> (g, None))\<rparr>) else (None, fr))
           | None \<Rightarrow> (None, fr)))"

subsection \<open>The controller of one subtask\<close>

datatype ctrl_phase = Attempting | Claimed | Waiting | Finished "(nat \<times> bytes) option"

record controller =
  cphase :: ctrl_phase
  attempt :: nat
  token :: u64
  child_done :: "bool option"
  table :: durable
  store :: farm_results
  reclaims :: u32
  live :: "u64 list"

text \<open>Index-keyed resource ids, attempt-scoped holders.\<close>

definition farm_resource :: "bytes \<Rightarrow> nat \<Rightarrow> bytes" where
  "farm_resource farm_id index = ''farm-'' @ lease_safe farm_id @ ''-s'' @ decimal index"

definition attempt_holder :: "bytes \<Rightarrow> nat \<Rightarrow> bytes" where
  "attempt_holder base n = base @ ''-a'' @ decimal n"

definition controller_start :: "durable \<Rightarrow> farm_results \<Rightarrow> u32 \<Rightarrow> controller" where
  "controller_start d fr n =
     \<lparr>cphase = Attempting, attempt = 1, token = 0, child_done = None, table = d, store = fr,
      reclaims = n, live = []\<rparr>"

text \<open>The head of the loop: isolation, the claim, the fence, and the count of reclaims.\<close>

definition attempt_step ::
  "wal_codec \<Rightarrow> int \<Rightarrow> farm_caps \<Rightarrow> bytes \<Rightarrow> bytes \<Rightarrow> bytes \<Rightarrow> bool \<Rightarrow> append_io \<Rightarrow> int \<Rightarrow>
     controller \<Rightarrow> controller" where
  "attempt_step K M caps resource holder i isolated io now c =
     (if max_attempts caps < attempt c then c\<lparr>cphase := Finished None\<rparr>
      else if isolated then c\<lparr>cphase := Finished None\<rparr>
      else (case durable_acquire K M io (table c) resource (attempt_holder holder (attempt c))
                   (subtask_ttl caps) now of
          (Inl _, t) \<Rightarrow> c\<lparr>table := t, cphase := Finished None\<rparr>
        | (Inr l, t) \<Rightarrow>
            c\<lparr>table := t, token := fencing_token l, store := raise_fence (store c) i (fencing_token l),
              reclaims := (if 1 < attempt c then reclaims c + 1 else reclaims c), child_done := None,
              cphase := Claimed\<rparr>))"

text \<open>The permit; a closed semaphore ends the controller. The child is spawned under the token.\<close>

definition spawn_step :: "bool \<Rightarrow> controller \<Rightarrow> controller" where
  "spawn_step permitted c =
     (if permitted then c\<lparr>live := token c # live c, cphase := Waiting\<rparr> else c\<lparr>cphase := Finished None\<rparr>)"

text \<open>A child ends: with a text, which it commits under its token, or with an error.\<close>

definition child_step :: "bytes \<Rightarrow> u64 \<Rightarrow> string + bytes \<Rightarrow> controller \<Rightarrow> controller" where
  "child_step i tk outcome c =
     (let (ok, fr) = (case outcome of Inr text \<Rightarrow> commit (store c) i tk text | Inl _ \<Rightarrow> (False, store c))
      in c\<lparr>store := fr, live := remove1 tk (live c),
           child_done := (if tk = token c then Some ok else child_done c)\<rparr>)"

text \<open>The two arms of the wait.\<close>

definition stalled_step :: "controller \<Rightarrow> controller" where
  "stalled_step c = c\<lparr>attempt := attempt c + 1, cphase := Attempting\<rparr>"

definition joined_step ::
  "wal_codec \<Rightarrow> bytes \<Rightarrow> bytes \<Rightarrow> bytes \<Rightarrow> append_io \<Rightarrow> int \<Rightarrow> bool \<Rightarrow> controller \<Rightarrow> controller" where
  "joined_step K resource holder i io now committed c =
     (let t = snd (durable_release K io (table c) resource (attempt_holder holder (attempt c)) now);
          c1 = c\<lparr>table := t\<rparr>
      in if committed
         then (case take_if_token (store c) i (token c) of
             (Some text, fr) \<Rightarrow> c1\<lparr>store := fr, cphase := Finished (Some (attempt c, text))\<rparr>
           | (None, fr) \<Rightarrow> c1\<lparr>store := fr, attempt := attempt c + 1, cphase := Attempting\<rparr>)
         else c1\<lparr>attempt := attempt c + 1, cphase := Attempting\<rparr>)"

subsection \<open>Executions\<close>

text \<open>
  The ghost component is the set of texts the children produced, each with the token of the
  child. The rest of the process may work on the same table and on the other entries of the store.
\<close>

type_synonym produced = "(u64 \<times> bytes) set"

inductive sub_step ::
  "wal_codec \<Rightarrow> int \<Rightarrow> farm_caps \<Rightarrow> bytes \<Rightarrow> bytes \<Rightarrow> bytes \<Rightarrow> controller \<times> produced \<Rightarrow>
     controller \<times> produced \<Rightarrow> bool" for K M caps res h i where
  attempts: "cphase c = Attempting \<Longrightarrow>
     sub_step K M caps res h i (c, p) (attempt_step K M caps res h i isolated io now c, p)"
| spawns: "cphase c = Claimed \<Longrightarrow> sub_step K M caps res h i (c, p) (spawn_step permitted c, p)"
| commits: "tk \<in> set (live c) \<Longrightarrow>
     sub_step K M caps res h i (c, p) (child_step i tk (Inr text) c, insert (tk, text) p)"
| errs: "tk \<in> set (live c) \<Longrightarrow> sub_step K M caps res h i (c, p) (child_step i tk (Inl e) c, p)"
| aborts: "tk \<in> set (live c) \<Longrightarrow>
     sub_step K M caps res h i (c, p) (c\<lparr>live := remove1 tk (live c)\<rparr>, p)"
| stalls: "cphase c = Waiting \<Longrightarrow> sub_step K M caps res h i (c, p) (stalled_step c, p)"
| joins: "cphase c = Waiting \<Longrightarrow> child_done c = Some ok \<Longrightarrow>
     sub_step K M caps res h i (c, p) (joined_step K res h i io now ok c, p)"
| other_table: "marks_le (watermarks (tbl (table c))) (watermarks (tbl t)) \<Longrightarrow>
     sub_step K M caps res h i (c, p) (c\<lparr>table := t\<rparr>, p)"
| other_store: "inner fr i = inner (store c) i \<Longrightarrow>
     sub_step K M caps res h i (c, p) (c\<lparr>store := fr\<rparr>, p)"

inductive sub_reach ::
  "wal_codec \<Rightarrow> int \<Rightarrow> farm_caps \<Rightarrow> bytes \<Rightarrow> bytes \<Rightarrow> bytes \<Rightarrow> controller \<times> produced \<Rightarrow> bool"
  for K M caps res h i where
  start: "inner fr i = None \<Longrightarrow> sub_reach K M caps res h i (controller_start d fr n, {})"
| more: "sub_reach K M caps res h i s \<Longrightarrow> sub_step K M caps res h i s s' \<Longrightarrow>
     sub_reach K M caps res h i s'"

subsection \<open>The fence of a subtask\<close>

text \<open>
  \<open>fenced_to\<close>: the entry's guard stands at the current attempt's token, and the text it holds
  came from a child under its token, at most the current one.
\<close>

definition fenced_to :: "controller \<Rightarrow> bytes \<Rightarrow> produced \<Rightarrow> bool" where
  "fenced_to c i p \<longleftrightarrow> (\<exists>r. inner (store c) i = Some (fenced_at (token c), r) \<and>
     (\<forall>t text. r = Some (t, text) \<longrightarrow> t \<le> token c \<and> (t, text) \<in> p))"

definition fence_ok :: "bytes \<Rightarrow> bytes \<Rightarrow> controller \<Rightarrow> produced \<Rightarrow> bool" where
  "fence_ok res i c p \<longleftrightarrow>
     token c = 0 \<and> live c = [] \<and> inner (store c) i = None \<and> cphase c \<notin> {Claimed, Waiting} \<or>
     fenced_to c i p \<and> (\<exists>w. watermarks (tbl (table c)) res = Some w \<and> token c \<le> w)"

definition live_ok :: "controller \<Rightarrow> bool" where
  "live_ok c \<longleftrightarrow> (\<forall>tk \<in> set (live c). tk \<le> token c) \<and>
     (cphase c = Claimed \<longrightarrow> child_done c = None \<and> (\<forall>tk \<in> set (live c). tk < token c))"

definition done_ok :: "bytes \<Rightarrow> controller \<Rightarrow> bool" where
  "done_ok i c \<longleftrightarrow> (cphase c = Waiting \<and> child_done c = Some True \<longrightarrow>
     (\<exists>g msg. inner (store c) i = Some (g, Some (token c, msg))))"

definition out_ok :: "controller \<Rightarrow> produced \<Rightarrow> bool" where
  "out_ok c p \<longleftrightarrow> (\<forall>n msg. cphase c = Finished (Some (n, msg)) \<longrightarrow> (token c, msg) \<in> p)"

definition seen_ok :: "controller \<Rightarrow> produced \<Rightarrow> bool" where
  "seen_ok c p \<longleftrightarrow> (\<forall>tk msg. (tk, msg) \<in> p \<longrightarrow> tk \<le> token c)"

definition sub_inv :: "bytes \<Rightarrow> bytes \<Rightarrow> controller \<times> produced \<Rightarrow> bool" where
  "sub_inv res i s \<longleftrightarrow> (case s of (c, p) \<Rightarrow>
     fence_ok res i c p \<and> live_ok c \<and> done_ok i c \<and> out_ok c p \<and> seen_ok c p)"

lemma sub_invI:
  "fence_ok res i c p \<Longrightarrow> live_ok c \<Longrightarrow> done_ok i c \<Longrightarrow> out_ok c p \<Longrightarrow> seen_ok c p \<Longrightarrow> sub_inv res i (c, p)"
  by (simp add: sub_inv_def)

lemma sub_invD:
  assumes "sub_inv res i (c, p)"
  shows "fence_ok res i c p" "live_ok c" "done_ok i c" "out_ok c p" "seen_ok c p"
  using assms by (simp_all add: sub_inv_def)

text \<open>Entering a phase that asks for nothing more keeps the parts that speak of others.\<close>

lemmas ctrl_parts = fence_ok_def live_ok_def done_ok_def out_ok_def seen_ok_def fenced_to_def

lemma commit_at:
  assumes "inner fr i = Some (fenced_at w, r)"
  shows "commit fr i tk text =
    (if tk < w then (False, fr\<lparr>late_fenced := late_fenced fr + 1\<rparr>)
     else (True, fr\<lparr>inner := (inner fr)(i \<mapsto> (fenced_at tk, Some (tk, text)))\<rparr>))"
  using assms by (auto simp: commit_def entry_of_def accept_def fenced_at_def Let_def fun_upd_idem)

lemma fence_okE:
  assumes "fence_ok res i c p" and "live c \<noteq> [] \<or> cphase c \<in> {Claimed, Waiting}"
  obtains r w where "inner (store c) i = Some (fenced_at (token c), r)"
    and "\<And>t msg. r = Some (t, msg) \<Longrightarrow> t \<le> token c \<and> (t, msg) \<in> p"
    and "watermarks (tbl (table c)) res = Some w" and "token c \<le> w"
  using assms by (auto simp: fence_ok_def fenced_to_def)

lemma raise_fence_entry:
  assumes "fence_ok res i c p" and "token c \<le> n"
  shows "\<exists>r. inner (raise_fence (store c) i n) i = Some (fenced_at n, r) \<and>
    (\<forall>t msg. r = Some (t, msg) \<longrightarrow> t \<le> n \<and> (t, msg) \<in> p)"
proof (cases "inner (store c) i")
  case None
  then show ?thesis by (simp add: raise_fence_def entry_of_def fenced_new_def Let_def)
next
  case (Some e)
  with assms(1) obtain r where "e = (fenced_at (token c), r)"
    "\<forall>t msg. r = Some (t, msg) \<longrightarrow> t \<le> token c \<and> (t, msg) \<in> p"
    by (auto simp: fence_ok_def fenced_to_def)
  with Some assms(2) show ?thesis
    by (auto simp: raise_fence_def entry_of_def fenced_at_def Let_def max_def)
qed

lemma sub_inv_halt:
  assumes "sub_inv res i (c, p)"
    and "watermarks (tbl t) = watermarks (tbl (table c))"
    and "ph \<notin> {Claimed, Waiting}" and "\<forall>n msg. ph \<noteq> Finished (Some (n, msg))"
  shows "sub_inv res i (c\<lparr>table := t, attempt := k, cphase := ph\<rparr>, p)"
proof -
  note d = sub_invD [OF assms(1)]
  show ?thesis
  proof (rule sub_invI)
    show "fence_ok res i (c\<lparr>table := t, attempt := k, cphase := ph\<rparr>) p"
      using d(1) assms(2,3) by (auto simp: fence_ok_def fenced_to_def)
  qed (use d assms(3,4) in \<open>simp_all add: live_ok_def done_ok_def out_ok_def seen_ok_def\<close>)
qed

lemma sub_inv_grant:
  assumes inv: "sub_inv res i (c, p)"
    and mark: "watermarks (tbl t) res = Some n" and above: "\<forall>w. watermarks (tbl (table c)) res = Some w \<longrightarrow> w < n"
  shows "sub_inv res i (c\<lparr>table := t, token := n, store := raise_fence (store c) i n, reclaims := m,
    child_done := None, cphase := Claimed\<rparr>, p)"
proof -
  note d = sub_invD [OF inv]
  have le: "token c \<le> n" and lt: "live c \<noteq> [] \<Longrightarrow> token c < n"
    using d(1) above by (auto simp: fence_ok_def)
  have lv: "\<forall>tk \<in> set (live c). tk < n"
    using d(2) lt by (fastforce simp: live_ok_def)
  show ?thesis
  proof (rule sub_invI)
    show "live_ok (c\<lparr>table := t, token := n, store := raise_fence (store c) i n, reclaims := m,
        child_done := None, cphase := Claimed\<rparr>)" using lv by (auto simp: live_ok_def)
    show "seen_ok (c\<lparr>table := t, token := n, store := raise_fence (store c) i n, reclaims := m,
        child_done := None, cphase := Claimed\<rparr>) p"
      using d(5) le by (auto simp: seen_ok_def intro: order_trans)
    show "fence_ok res i (c\<lparr>table := t, token := n, store := raise_fence (store c) i n, reclaims := m,
        child_done := None, cphase := Claimed\<rparr>) p"
      using raise_fence_entry [OF d(1) le] mark by (simp add: fence_ok_def fenced_to_def)
  qed (simp_all add: done_ok_def out_ok_def)
qed

lemma sub_inv_attempt:
  assumes inv: "sub_inv res i (c, p)"
  shows "sub_inv res i (attempt_step K M caps res h i isolated io now c, p)"
proof -
  obtain x t where a: "durable_acquire K M io (table c) res (attempt_holder h (attempt c))
    (subtask_ttl caps) now = (x, t)" by force
  show ?thesis
  proof (cases "attempt c \<le> max_attempts caps \<and> \<not> isolated")
    case False
    with sub_inv_halt [OF inv refl, of "Finished None" "attempt c"] show ?thesis
      by (auto simp: attempt_step_def)
  next
    case go: True
    show ?thesis
    proof (cases x)
      case (Inl e)
      with a have "watermarks (tbl t) = watermarks (tbl (table c))" by (auto dest: dl.acq_err)
      from sub_inv_halt [OF inv this, of "Finished None" "attempt c"] go a Inl show ?thesis
        by (simp add: attempt_step_def)
    next
      case (Inr l)
      from dl.acq_ok [OF a [unfolded Inr]]
      have "watermarks (tbl t) res = Some (fencing_token l)"
        "\<forall>w. watermarks (tbl (table c)) res = Some w \<longrightarrow> w < fencing_token l" by auto
      from sub_inv_grant [OF inv this] go a Inr show ?thesis by (simp add: attempt_step_def)
    qed
  qed
qed

text \<open>What a child's commit does: accepted under the current token, refused under an older one.\<close>

lemma child_commit:
  assumes inv: "sub_inv res i (c, p)" and tk: "tk \<in> set (live c)"
  shows "child_step i tk (Inr msg) c =
    (if tk = token c
     then c\<lparr>store := (store c)\<lparr>inner := (inner (store c))(i \<mapsto> (fenced_at tk, Some (tk, msg)))\<rparr>,
            live := remove1 tk (live c), child_done := Some True\<rparr>
     else c\<lparr>store := (store c)\<lparr>late_fenced := late_fenced (store c) + 1\<rparr>, live := remove1 tk (live c)\<rparr>)"
proof -
  from tk have "live c \<noteq> []" by auto
  with sub_invD(1) [OF inv] obtain r where r: "inner (store c) i = Some (fenced_at (token c), r)"
    by (metis fence_okE)
  have "tk \<le> token c" using sub_invD(2) [OF inv] tk by (auto simp: live_ok_def)
  then show ?thesis by (auto simp: child_step_def commit_at [OF r])
qed

lemma live_ok_remove: "live_ok c \<Longrightarrow> live_ok (c\<lparr>live := remove1 tk (live c)\<rparr>)"
  by (auto simp: live_ok_def dest: set_remove1_subset [THEN subsetD])

lemma claimed_stale: "live_ok c \<Longrightarrow> token c \<in> set (live c) \<Longrightarrow> cphase c \<noteq> Claimed"
  by (auto simp: live_ok_def)

lemma sub_inv_commit:
  assumes inv: "sub_inv res i (c, p)" and tk: "tk \<in> set (live c)"
  shows "sub_inv res i (child_step i tk (Inr msg) c, insert (tk, msg) p)"
proof -
  note d = sub_invD [OF inv]
  from tk have "live c \<noteq> []" by auto
  with d(1) obtain r w where r: "inner (store c) i = Some (fenced_at (token c), r)"
    "\<And>t msg. r = Some (t, msg) \<Longrightarrow> t \<le> token c \<and> (t, msg) \<in> p"
    and w: "watermarks (tbl (table c)) res = Some w" "token c \<le> w"
    by (auto simp: fence_ok_def fenced_to_def)
  have le: "tk \<le> token c" using d(2) tk by (auto simp: live_ok_def)
  have lv: "\<forall>tk' \<in> set (remove1 tk (live c)). tk' \<le> token c"
    using d(2) by (auto simp: live_ok_def dest: set_remove1_subset [THEN subsetD])
  have cl: "cphase c = Claimed \<Longrightarrow> tk \<noteq> token c" using claimed_stale [OF d(2)] tk by auto
  show ?thesis
  proof (rule sub_invI)
    show "fence_ok res i (child_step i tk (Inr msg) c) (insert (tk, msg) p)"
      using r w by (auto simp: child_commit [OF inv tk] fence_ok_def fenced_to_def)
    show "live_ok (child_step i tk (Inr msg) c)"
      using lv cl d(2) by (auto simp: child_commit [OF inv tk] live_ok_def dest: set_remove1_subset [THEN subsetD])
    show "done_ok i (child_step i tk (Inr msg) c)"
      using d(3) by (auto simp: child_commit [OF inv tk] done_ok_def)
    show "out_ok (child_step i tk (Inr msg) c) (insert (tk, msg) p)"
      using d(4) by (auto simp: child_commit [OF inv tk] out_ok_def)
    show "seen_ok (child_step i tk (Inr msg) c) (insert (tk, msg) p)"
      using d(5) le by (auto simp: child_commit [OF inv tk] seen_ok_def)
  qed
qed

lemma sub_inv_err:
  assumes inv: "sub_inv res i (c, p)" and tk: "tk \<in> set (live c)"
  shows "sub_inv res i (child_step i tk (Inl e) c, p)"
proof -
  note d = sub_invD [OF inv]
  have cl: "cphase c = Claimed \<Longrightarrow> tk \<noteq> token c" using claimed_stale [OF d(2)] tk by auto
  show ?thesis
  proof (rule sub_invI)
    show "fence_ok res i (child_step i tk (Inl e) c) p"
      using d(1) tk by (auto simp: child_step_def fence_ok_def fenced_to_def)
    show "live_ok (child_step i tk (Inl e) c)"
      using cl d(2) by (auto simp: child_step_def live_ok_def dest: set_remove1_subset [THEN subsetD])
  qed (use d in \<open>simp_all add: child_step_def done_ok_def out_ok_def seen_ok_def\<close>)
qed

lemma take_at:
  "inner fr i = Some (g, Some (t, text)) \<Longrightarrow>
     take_if_token fr i t = (Some text, fr\<lparr>inner := (inner fr)(i \<mapsto> (g, None))\<rparr>)"
  by (simp add: take_if_token_def)

lemma release_table_marks:
  "watermarks (tbl (snd (durable_release K io d r h now))) = watermarks (tbl d)"
  by (metis dl.rel_marks prod.collapse)

lemma sub_inv_joined:
  assumes inv: "sub_inv res i (c, p)" and ph: "cphase c = Waiting" and dn: "child_done c = Some ok"
  shows "sub_inv res i (joined_step K res h i io now ok c, p)"
proof (cases ok)
  case False
  with sub_inv_halt [OF inv release_table_marks, of Attempting] show ?thesis
    by (simp add: joined_step_def Let_def)
next
  case True
  note d = sub_invD [OF inv]
  from d(3) ph dn True obtain g msg where e: "inner (store c) i = Some (g, Some (token c, msg))"
    by (auto simp: done_ok_def)
  from d(1) ph obtain w where g: "g = fenced_at (token c)" "(token c, msg) \<in> p"
    and w: "watermarks (tbl (table c)) res = Some w" "token c \<le> w"
    using e by (auto simp: fence_ok_def fenced_to_def)
  have j: "joined_step K res h i io now ok c =
      c\<lparr>table := snd (durable_release K io (table c) res (attempt_holder h (attempt c)) now),
        store := (store c)\<lparr>inner := (inner (store c))(i \<mapsto> (g, None))\<rparr>,
        cphase := Finished (Some (attempt c, msg))\<rparr>"
    using True by (simp add: joined_step_def Let_def take_at [OF e])
  show ?thesis unfolding j
  proof (rule sub_invI)
    show "fence_ok res i (c\<lparr>table := snd (durable_release K io (table c) res (attempt_holder h (attempt c)) now),
        store := (store c)\<lparr>inner := (inner (store c))(i \<mapsto> (g, None))\<rparr>,
        cphase := Finished (Some (attempt c, msg))\<rparr>) p"
      using g w by (simp add: fence_ok_def fenced_to_def release_table_marks)
  qed (use d g in \<open>simp_all add: live_ok_def done_ok_def out_ok_def seen_ok_def\<close>)
qed

lemma sub_inv_spawn:
  assumes inv: "sub_inv res i (c, p)" and ph: "cphase c = Claimed"
  shows "sub_inv res i (spawn_step permitted c, p)"
proof (cases permitted)
  case False
  then show ?thesis using sub_inv_halt [OF inv refl, of "Finished None" "attempt c"]
    by (simp add: spawn_step_def)
next
  case True
  note d = sub_invD [OF inv]
  show ?thesis
  proof (rule sub_invI)
    show "fence_ok res i (spawn_step permitted c) p"
      using True d(1) ph by (simp add: spawn_step_def fence_ok_def fenced_to_def)
  qed (use True d ph in \<open>simp_all add: spawn_step_def live_ok_def done_ok_def out_ok_def seen_ok_def\<close>)
qed

lemma sub_inv_other_table:
  assumes inv: "sub_inv res i (c, p)" and le: "marks_le (watermarks (tbl (table c))) (watermarks (tbl t))"
  shows "sub_inv res i (c\<lparr>table := t\<rparr>, p)"
proof -
  note d = sub_invD [OF inv]
  have "\<exists>w. watermarks (tbl t) res = Some w \<and> token c \<le> w"
    if "watermarks (tbl (table c)) res = Some w" "token c \<le> w" for w
    using that le by (fastforce simp: marks_le_def)
  then show ?thesis
    using d by (intro sub_invI) (auto simp: fence_ok_def fenced_to_def live_ok_def done_ok_def out_ok_def seen_ok_def)
qed

lemma sub_inv_other_store:
  assumes inv: "sub_inv res i (c, p)" and eq: "inner fr i = inner (store c) i"
  shows "sub_inv res i (c\<lparr>store := fr\<rparr>, p)"
  using sub_invD [OF inv] eq
  by (intro sub_invI) (simp_all add: fence_ok_def fenced_to_def live_ok_def done_ok_def out_ok_def seen_ok_def)

lemma sub_inv_abort:
  assumes inv: "sub_inv res i (c, p)"
  shows "sub_inv res i (c\<lparr>live := remove1 tk (live c)\<rparr>, p)"
  using sub_invD [OF inv] live_ok_remove [of c tk]
  by (intro sub_invI) (auto simp: fence_ok_def fenced_to_def done_ok_def out_ok_def seen_ok_def)

lemma sub_step_inv: "sub_step K M caps res h i s s' \<Longrightarrow> sub_inv res i s \<Longrightarrow> sub_inv res i s'"
proof (induction rule: sub_step.cases)
  case (stalls c p)
  then show ?case using sub_inv_halt [of res i c p "table c" Attempting "attempt c + 1"]
    by (simp add: stalled_step_def)
qed (simp_all add: sub_inv_attempt sub_inv_spawn sub_inv_commit sub_inv_err sub_inv_abort
    sub_inv_joined sub_inv_other_table sub_inv_other_store)

lemma sub_reach_inv: "sub_reach K M caps res h i s \<Longrightarrow> sub_inv res i s"
proof (induction rule: sub_reach.induct)
  case (start fr d n)
  then show ?case
    by (intro sub_invI) (simp_all add: ctrl_parts controller_start_def)
qed (rule sub_step_inv)

subsection \<open>The farm\<close>

text \<open>Dedup within the cap: the kept subtasks and the ids of the dropped duplicates, in order.\<close>

fun dedup :: "bytes set \<Rightarrow> subtask_spec list \<Rightarrow> subtask_spec list \<times> bytes list" where
  "dedup seen [] = ([], [])"
| "dedup seen (s # ss) =
     (if sub_id s \<in> seen then (let (ks, fs) = dedup seen ss in (ks, sub_id s # fs))
      else (let (ks, fs) = dedup (insert (sub_id s) seen) ss in (s # ks, fs)))"

text \<open>
  The join of the controllers, in order: \<open>outs\<close> gives what each one returned, \<open>None\<close> also
  for a controller that panicked or was cut off by the wall budget.
\<close>

fun join_all :: "subtask_spec list \<Rightarrow> (nat \<times> bytes) option list \<Rightarrow> farm_outcome \<Rightarrow> farm_outcome" where
  "join_all (s # ss) (x # xs) o1 =
     join_all ss xs (case x of
         Some (n, msg) \<Rightarrow> o1\<lparr>results := results o1 @
           [\<lparr>result_id = sub_id s, result_text = msg, result_attempts = n\<rparr>]\<rparr>
       | None \<Rightarrow> o1\<lparr>failed := failed o1 @ [sub_id s]\<rparr>)"
| "join_all ss xs o1 = o1"

definition run_farm :: "farm_spec \<Rightarrow> (nat \<times> bytes) option list \<Rightarrow> u32 \<Rightarrow> u32 \<Rightarrow> farm_outcome" where
  "run_farm spec outs late recl =
     (let (ks, fs) = dedup {} (take MAX_SUBTASKS (subtasks spec));
          o1 = join_all ks outs \<lparr>results = [], failed = fs, outcome_late = 0, outcome_reclaims = 0\<rparr>
      in o1\<lparr>outcome_late := late, outcome_reclaims := recl\<rparr>)"

datatype farm_error = InvalidJson | NoSubtasks | TooManySubtasks nat

text \<open>\<open>de\<close> is \<open>serde_json::from_str::<FarmSpec>\<close>.\<close>

definition parse_farm_marker :: "(bytes \<Rightarrow> farm_spec option) \<Rightarrow> bytes \<Rightarrow> farm_error + farm_spec" where
  "parse_farm_marker de json =
     (case de json of
        None \<Rightarrow> Inl InvalidJson
      | Some spec \<Rightarrow>
          (if subtasks spec = [] then Inl NoSubtasks
           else if MAX_SUBTASKS < length (subtasks spec) then Inl (TooManySubtasks (length (subtasks spec)))
           else Inr spec))"

lemma dedup_spec:
  assumes "dedup seen ss = (ks, fs)"
  shows "mset (map sub_id ks) + mset fs = mset (map sub_id ss)" and "distinct (map sub_id ks)"
    and "sub_id ` set ks \<inter> seen = {}" and "set fs \<subseteq> seen \<union> sub_id ` set ks"
proof -
  have "mset (map sub_id ks) + mset fs = mset (map sub_id ss) \<and> distinct (map sub_id ks) \<and>
    sub_id ` set ks \<inter> seen = {} \<and> set fs \<subseteq> seen \<union> sub_id ` set ks"
    using assms
  proof (induction seen ss arbitrary: ks fs rule: dedup.induct)
    case (2 seen s ss)
    show ?case
    proof (cases "sub_id s \<in> seen")
      case True
      obtain ks' fs' where e: "dedup seen ss = (ks', fs')" by force
      with 2(1) [OF True e] 2(3) True show ?thesis by auto
    next
      case False
      obtain ks' fs' where e: "dedup (insert (sub_id s) seen) ss = (ks', fs')" by force
      with 2(2) [OF False e] 2(3) False show ?thesis by auto blast
    qed
  qed simp
  then show "mset (map sub_id ks) + mset fs = mset (map sub_id ss)" and "distinct (map sub_id ks)"
    and "sub_id ` set ks \<inter> seen = {}" and "set fs \<subseteq> seen \<union> sub_id ` set ks" by auto
qed

lemma join_all_spec:
  "length ks = length xs \<Longrightarrow>
     mset (map result_id (results (join_all ks xs o1))) + mset (failed (join_all ks xs o1)) =
       mset (map result_id (results o1)) + mset (failed o1) + mset (map sub_id ks)"
  by (induction ks xs o1 rule: join_all.induct) (auto split: option.splits prod.splits)

lemma join_all_results:
  "length ks = length xs \<Longrightarrow>
     \<exists>rs. results (join_all ks xs o1) = results o1 @ rs \<and>
       map result_id rs = map sub_id (map fst (filter (\<lambda>(s, x). x \<noteq> None) (zip ks xs)))"
  by (induction ks xs o1 rule: join_all.induct) (fastforce split: option.splits prod.splits)+

subsection \<open>A concrete attempt, for the witnesses\<close>

definition farm_lease :: lease where
  "farm_lease = \<lparr>resource_id = ''r'', holder_id = ''x-a1'', fencing_token = 1, granted_at = 0,
     ttl = 960 * 10 ^ 9\<rparr>"

definition farm_lease2 :: lease where
  "farm_lease2 = \<lparr>resource_id = ''r'', holder_id = ''x-a2'', fencing_token = 2, granted_at = 10 ^ 12,
     ttl = 960 * 10 ^ 9\<rparr>"

definition farm_lines :: wal_codec where
  "farm_lines = \<lparr>
     enc = (\<lambda>v e. if v = WAL_VERSION \<and> e = Acquired 0 farm_lease then Some ''a''
                  else if v = WAL_VERSION \<and> e = Reclaimed (10 ^ 12) farm_lease2 then Some ''b'' else None),
     dec = (\<lambda>s. if s = ''a'' then Some (WAL_VERSION, Acquired 0 farm_lease)
                else if s = ''b'' then Some (WAL_VERSION, Reclaimed (10 ^ 12) farm_lease2) else None)\<rparr>"

definition farm_table :: durable where
  "farm_table = \<lparr>tbl = \<lparr>leases = [''r'' \<mapsto> farm_lease], watermarks = [''r'' \<mapsto> 1]\<rparr>,
     wal = \<lparr>contents = ''a'' @ [newline], poisoned = False\<rparr>\<rparr>"

lemma attempt_one: "attempt_holder ''x'' 1 = ''x-a1''"
  by (simp add: attempt_holder_def decimal.simps) (simp add: char_of_def bit_iff_odd)

lemma farm_acquire:
  "durable_acquire farm_lines 10000000000000 io_fine durable_empty ''r'' ''x-a1'' (subtask_ttl default_caps) 0 =
     (Inr farm_lease, farm_table)"
proof -
  have "id_ok ''x-a1''"
    by (simp add: id_ok_def MAX_ID_BYTES_def id_char_def ascii_alphanumeric_def ascii_digit_def byte_def)
  then show ?thesis
    by (simp add: durable_acquire_Inr_iff acquire_Inr_iff wal_append_Inr_iff id_ok_demo ttl_ok_def
      default_caps_def MAX_TTL_def secs_def farm_lease_def farm_table_def farm_lines_def
      durable_empty_def table_new_def next_token_def free_at_def grant_event_def table_get_def
      write_error_def enc_line_def io_fine_def)
qed

definition farm_waiting :: controller where
  "farm_waiting = \<lparr>cphase = Waiting, attempt = 1, token = 1, child_done = None, table = farm_table,
     store = \<lparr>inner = [''s'' \<mapsto> (fenced_at 1, None)], late_fenced = 0\<rparr>, reclaims = 0, live = [1]\<rparr>"

definition farm_claimed :: controller where
  "farm_claimed = \<lparr>cphase = Claimed, attempt = 1, token = 1, child_done = None, table = farm_table,
     store = \<lparr>inner = [''s'' \<mapsto> (fenced_at 1, None)], late_fenced = 0\<rparr>, reclaims = 0, live = []\<rparr>"

lemma farm_first_attempt:
  "attempt_step farm_lines 10000000000000 default_caps ''r'' ''x'' ''s'' False io_fine 0
     (controller_start durable_empty results_new 0) = farm_claimed"
proof -
  have "attempt (controller_start durable_empty results_new 0) = 1"
    "table (controller_start durable_empty results_new 0) = durable_empty"
    by (simp_all add: controller_start_def)
  moreover have "\<not> max_attempts default_caps < 1" by (simp add: default_caps_def)
  ultimately have "attempt_step farm_lines 10000000000000 default_caps ''r'' ''x'' ''s'' False io_fine 0
     (controller_start durable_empty results_new 0) =
     (controller_start durable_empty results_new 0)\<lparr>table := farm_table, token := 1,
       store := raise_fence results_new ''s'' 1, reclaims := 0, child_done := None, cphase := Claimed\<rparr>"
    by (simp only: attempt_step_def if_False attempt_one farm_acquire prod.case sum.case)
      (simp add: farm_lease_def controller_start_def)
  then show ?thesis
    by (simp add: controller_start_def raise_fence_def entry_of_def results_new_def fenced_new_def
        fenced_at_def farm_claimed_def Let_def)
qed

lemma farm_reach_waiting:
  "sub_reach farm_lines 10000000000000 default_caps ''r'' ''x'' ''s'' (farm_waiting, {})"
proof -
  let ?R = "sub_reach farm_lines 10000000000000 default_caps ''r'' ''x'' ''s''"
  have "inner results_new ''s'' = None" by (simp add: results_new_def)
  then have "?R (controller_start durable_empty results_new 0, {})" by (rule sub_reach.start)
  moreover have "cphase (controller_start durable_empty results_new 0) = Attempting"
    by (simp add: controller_start_def)
  ultimately have "?R (farm_claimed, {})"
    using sub_reach.more attempts farm_first_attempt by metis
  moreover have "cphase farm_claimed = Claimed" "spawn_step True farm_claimed = farm_waiting"
    by (simp_all add: farm_claimed_def spawn_step_def farm_waiting_def)
  ultimately show ?thesis using sub_reach.more spawns by metis
qed

subsection \<open>Properties\<close>

text \<open>
  C7: a controller reports only its own attempt's work. Whatever the children of earlier,
  reclaimed attempts do and whenever they do it, the text a controller returns was produced by a
  child that ran under the token of the attempt it reports.
\<close>

theorem own_result_only:
  assumes "sub_reach K M caps res h i (c, p)" and "cphase c = Finished (Some (n, msg))"
  shows "(token c, msg) \<in> p"
  using sub_invD(4) [OF sub_reach_inv [OF assms(1)]] assms(2) by (simp add: out_ok_def)

theorem own_result_only_witness: "(1, ''hi'') \<in> {(1 :: u64, ''hi'')}"
proof -
  define c where "c = child_step ''s'' 1 (Inr ''hi'') farm_waiting"
  let ?d = "joined_step farm_lines ''r'' ''x'' ''s'' io_fine 0 True c"
  have "1 \<in> set (live farm_waiting)" by (simp add: farm_waiting_def)
  from sub_reach.more [OF farm_reach_waiting commits [OF this]]
  have r: "sub_reach farm_lines 10000000000000 default_caps ''r'' ''x'' ''s'' (c, {(1, ''hi'')})"
    unfolding c_def .
  have c: "c = farm_waiting\<lparr>store := \<lparr>inner = [''s'' \<mapsto> (fenced_at 1, Some (1, ''hi''))], late_fenced = 0\<rparr>,
      live := [], child_done := Some True\<rparr>"
    by (simp add: c_def child_step_def farm_waiting_def commit_def entry_of_def accept_def fenced_at_def Let_def)
  then have f: "cphase c = Waiting" "child_done c = Some True" "attempt c = 1" "token c = 1"
    "inner (store c) ''s'' = Some (fenced_at 1, Some (token c, ''hi''))"
    by (simp_all add: farm_waiting_def)
  from sub_reach.more [OF r joins [OF f(1,2), where io = io_fine and now = 0]]
  have d: "sub_reach farm_lines 10000000000000 default_caps ''r'' ''x'' ''s'' (?d, {(1, ''hi'')})" .
  have "cphase ?d = Finished (Some (1, ''hi''))" "token ?d = token c"
    by (simp_all add: joined_step_def take_at [OF f(5)] Let_def f(3))
  with own_result_only [OF d] f(4) show ?thesis by simp
qed

text \<open>
  A reclaimed child is fenced. In every reachable state the commit of any live child other
  than the current attempt's is refused: the store's entries stay as they are and the refusal
  is counted.
\<close>

theorem reclaimed_child_fenced:
  assumes "sub_reach K M caps res h i (c, p)" and "tk \<in> set (live c)" and "tk \<noteq> token c"
  shows "commit (store c) i tk msg = (False, (store c)\<lparr>late_fenced := late_fenced (store c) + 1\<rparr>)"
proof -
  note d = sub_invD [OF sub_reach_inv [OF assms(1)]]
  from assms(2) have "live c \<noteq> []" by auto
  with d(1) obtain r where r: "inner (store c) i = Some (fenced_at (token c), r)"
    by (metis fence_okE)
  from d(2) assms(2,3) have "tk < token c" by (force simp: live_ok_def)
  then show ?thesis by (simp add: commit_at [OF r])
qed

definition farm_table2 :: durable where
  "farm_table2 = \<lparr>tbl = \<lparr>leases = [''r'' \<mapsto> farm_lease2], watermarks = [''r'' \<mapsto> 2]\<rparr>,
     wal = \<lparr>contents = ''a'' @ [newline] @ ''b'' @ [newline], poisoned = False\<rparr>\<rparr>"

lemma attempt_two: "attempt_holder ''x'' 2 = ''x-a2''"
  by (simp add: attempt_holder_def decimal.simps) (simp add: char_of_def bit_iff_odd)

lemma farm_acquire2:
  "durable_acquire farm_lines 10000000000000 io_fine farm_table ''r'' ''x-a2'' (subtask_ttl default_caps) (10 ^ 12) =
     (Inr farm_lease2, farm_table2)"
proof -
  have "id_ok ''x-a2''"
    by (simp add: id_ok_def MAX_ID_BYTES_def id_char_def ascii_alphanumeric_def ascii_digit_def byte_def)
  then show ?thesis
    by (simp add: durable_acquire_Inr_iff acquire_Inr_iff wal_append_Inr_iff id_ok_demo ttl_ok_def
      default_caps_def MAX_TTL_def secs_def farm_lease_def farm_lease2_def farm_table_def farm_table2_def
      farm_lines_def next_token_def free_at_def grant_event_def table_get_def checked_add_u64_def
      write_error_def enc_line_def io_fine_def is_expired_def expires_at_def from_std_def)
qed

theorem reclaimed_child_fenced_witness:
  "\<exists>fr. inner fr ''s'' = Some (fenced_at 2, None) \<and>
     commit fr ''s'' 1 ''late'' = (False, fr\<lparr>late_fenced := late_fenced fr + 1\<rparr>)"
proof -
  define c where "c = stalled_step farm_waiting"
  define c2 where "c2 = attempt_step farm_lines 10000000000000 default_caps ''r'' ''x'' ''s'' False io_fine (10 ^ 12) c"
  have "cphase farm_waiting = Waiting" by (simp add: farm_waiting_def)
  from sub_reach.more [OF farm_reach_waiting stalls [OF this]]
  have r: "sub_reach farm_lines 10000000000000 default_caps ''r'' ''x'' ''s'' (c, {})" unfolding c_def .
  have c: "cphase c = Attempting" "attempt c = 2" "table c = farm_table" "live c = [1]"
    "store c = \<lparr>inner = [''s'' \<mapsto> (fenced_at 1, None)], late_fenced = 0\<rparr>"
    by (simp_all add: c_def stalled_step_def farm_waiting_def)
  from sub_reach.more [OF r attempts [OF c(1)]]
  have r2: "sub_reach farm_lines 10000000000000 default_caps ''r'' ''x'' ''s'' (c2, {})" unfolding c2_def .
  have "\<not> max_attempts default_caps < 2" by (simp add: default_caps_def)
  then have c2: "c2 = c\<lparr>table := farm_table2, token := fencing_token farm_lease2,
      store := raise_fence (store c) ''s'' (fencing_token farm_lease2),
      reclaims := (if 1 < attempt c then reclaims c + 1 else reclaims c), child_done := None, cphase := Claimed\<rparr>"
    unfolding c2_def
    by (simp only: attempt_step_def if_False c(2,3) attempt_two farm_acquire2 prod.case sum.case)
  then have "live c2 = [1]" "token c2 = 2" "inner (store c2) ''s'' = Some (fenced_at 2, None)"
    by (simp_all add: c farm_lease2_def raise_fence_def entry_of_def fenced_at_def Let_def)
  with reclaimed_child_fenced [OF r2, of 1 "''late''"] show ?thesis by auto
qed

text \<open>
  A commit of the current attempt is not lost. When the awaited child reports a committed
  result, the controller finds it under its own token and finishes with it: no stale child can
  have overwritten or taken it.
\<close>

theorem committed_result_returned:
  assumes "sub_reach K M caps res h i (c, p)" and "cphase c = Waiting" and "child_done c = Some True"
  shows "\<exists>msg. cphase (joined_step K res h i io now True c) = Finished (Some (attempt c, msg)) \<and>
    (token c, msg) \<in> p"
proof -
  note d = sub_invD [OF sub_reach_inv [OF assms(1)]]
  from d(3) assms(2,3) obtain g msg where e: "inner (store c) i = Some (g, Some (token c, msg))"
    by (auto simp: done_ok_def)
  moreover from d(1) assms(2) e have "(token c, msg) \<in> p" by (auto simp: fence_ok_def fenced_to_def)
  ultimately show ?thesis by (simp add: joined_step_def Let_def take_at [OF e])
qed

theorem committed_result_returned_witness:
  "\<exists>msg. cphase (joined_step farm_lines ''r'' ''x'' ''s'' io_fine 0 True
     (child_step ''s'' 1 (Inr ''hi'') farm_waiting)) = Finished (Some (1, msg)) \<and> (1, msg) \<in> {(1 :: u64, ''hi'')}"
proof -
  have l: "1 \<in> set (live farm_waiting)" by (simp add: farm_waiting_def)
  note r = sub_reach.more [OF farm_reach_waiting commits [OF l]]
  have f: "cphase (child_step ''s'' 1 (Inr ''hi'') farm_waiting) = Waiting"
    "child_done (child_step ''s'' 1 (Inr ''hi'') farm_waiting) = Some True"
    "attempt (child_step ''s'' 1 (Inr ''hi'') farm_waiting) = 1"
    "token (child_step ''s'' 1 (Inr ''hi'') farm_waiting) = 1"
    by (simp_all add: child_step_def farm_waiting_def commit_def entry_of_def accept_def fenced_at_def Let_def)
  from committed_result_returned [OF r f(1,2), where io = io_fine and now = 0] show ?thesis
    unfolding f(3,4) .
qed

text \<open>
  A farm accounts for every subtask. Whatever the controllers return, the results and the
  failures together name each of the first eight subtasks exactly once per occurrence in the
  specification, no subtask id has two results, and nothing else is reported.
\<close>

theorem farm_accounts_for_every_subtask:
  assumes "length outs = length (fst (dedup {} (take MAX_SUBTASKS (subtasks spec))))"
  shows "mset (map result_id (results (run_farm spec outs late recl))) +
      mset (failed (run_farm spec outs late recl)) = mset (map sub_id (take MAX_SUBTASKS (subtasks spec))) \<and>
    distinct (map result_id (results (run_farm spec outs late recl)))"
proof
  obtain ks fs where kf: "dedup {} (take MAX_SUBTASKS (subtasks spec)) = (ks, fs)" by force
  note ds = dedup_spec [OF kf]
  have len: "length ks = length outs" using assms kf by simp
  let ?o = "\<lparr>results = [], failed = fs, outcome_late = 0, outcome_reclaims = 0\<rparr>"
  show "mset (map result_id (results (run_farm spec outs late recl))) +
      mset (failed (run_farm spec outs late recl)) = mset (map sub_id (take MAX_SUBTASKS (subtasks spec)))"
    using join_all_spec [OF len, of ?o] ds(1) by (simp add: run_farm_def kf Let_def ac_simps)
  from join_all_results [OF len, of ?o] obtain rs where
    rs: "results (join_all ks outs ?o) = rs"
      "map result_id rs = map sub_id (map fst (filter (\<lambda>(s, x). x \<noteq> None) (zip ks outs)))" by auto
  have "distinct (map (sub_id \<circ> fst) (zip ks outs))"
    using ds(2) len by (metis map_fst_zip map_map)
  then have "distinct (map result_id rs)"
    unfolding rs(2) map_map by (rule distinct_map_filter)
  with rs(1) show "distinct (map result_id (results (run_farm spec outs late recl)))"
    by (simp add: run_farm_def kf Let_def)
qed

theorem farm_accounts_for_every_subtask_witness:
  "distinct (map result_id (results (run_farm
     \<lparr>farm_spec_id = ''f'', description = [], subtasks = [\<lparr>sub_id = ''a'', prompt = []\<rparr>,
        \<lparr>sub_id = ''a'', prompt = []\<rparr>, \<lparr>sub_id = ''b'', prompt = []\<rparr>], synthesis = None\<rparr>
     [Some (1, ''hi''), None] 0 0)))"
  by (rule conjunct2 [OF farm_accounts_for_every_subtask]) (simp add: MAX_SUBTASKS_def)

text \<open>
  The ids a farm claims under are ones the lease table accepts, for any farm id a model may
  choose, any index within the cap and every attempt of the coordinator's tenure holders.
\<close>

theorem farm_ids_accepted:
  assumes "index < MAX_SUBTASKS" and "n < 2 ^ 32"
  shows "validate_id k (farm_resource farm_id index) = Inr () \<and>
    validate_id k' (attempt_holder (tenure_holder_of (holder_id_of name pid) t) n) = Inr ()"
proof -
  have i: "length (decimal index) \<le> 1" using assms(1) by (intro decimal_length) (auto simp: MAX_SUBTASKS_def)
  have n: "length (decimal n) \<le> 10" using assms(2) by (intro decimal_length) auto
  have lits: "list_all id_char ''farm-''" "list_all id_char ''-s''" "list_all id_char ''-a''"
    "list_all id_char ''-t''" "list_all id_char ''-''"
    by (simp_all add: id_char_def ascii_alphanumeric_def byte_def)
  have "id_ok (farm_resource farm_id index)"
    using i lits lease_safe_ok [of farm_id]
    by (simp add: id_ok_def MAX_ID_BYTES_def farm_resource_def decimal_id)
  moreover have "id_ok (attempt_holder (tenure_holder_of (holder_id_of name pid) t) n)"
    using n lits lease_safe_ok [of name] decimal_word_length(1) [of t] decimal_word_length(2) [of pid]
    by (simp add: id_ok_def MAX_ID_BYTES_def attempt_holder_def tenure_holder_of_def holder_id_of_def decimal_id)
  ultimately show ?thesis by simp
qed

theorem farm_ids_accepted_witness:
  "validate_id ''resource'' (farm_resource ''my farm!'' 3) = Inr () \<and>
   validate_id ''holder'' (attempt_holder (tenure_holder_of (holder_id_of ''pulse'' 42) 1) 2) = Inr ()"
  by (rule farm_ids_accepted) (simp_all add: MAX_SUBTASKS_def)

end
