(* ===== verification/Chain.thy ===== *)
theory Chain
  imports Prelude "HOL-Library.Multiset"
begin

text \<open>
  \<open>src/oneself/event.rs\<close> and \<open>src/oneself/chain.rs\<close>: the receipt file, one JSON object per
  line, each row hashed into the next, and the check of a file.

  Third-party code is the record \<open>json_lib\<close>: \<open>serde_json\<close>'s parser, its string printer and the
  derived (de)serializers, SHA-256, and chrono's RFC 3339 parser. A number is the text
  \<open>Number::to_string\<close> prints for it.
\<close>

subsection \<open>Events\<close>

datatype fd_source = Systemd | SelfOpened

datatype outcome = Acted | Silent | ErrorOutcome | Aborted | LostOutcome | IsolatedOutcome | Refused

datatype action_class = Reply | NoAction

record identity =
  self_md :: "bytes option"
  rules :: "bytes option"
  config :: "bytes option"

record boot_info =
  boot_pulse :: bytes
  boot_version :: bytes
  boot_provider :: bytes
  boot_adapter :: bytes
  boot_model :: bytes
  fallback_model :: "bytes option"
  boot_identity :: identity
  boot_fd_source :: fd_source
  protected :: bool
  append_only :: bool

record open_info =
  open_stream :: bytes
  channel :: bytes
  principal :: bytes
  principal_sha256 :: "bytes option"
  task_id :: "bytes option"
  parent :: "bytes option"

record close_info =
  close_stream :: bytes
  close_outcome :: outcome
  close_action :: action_class
  close_provider :: bytes
  close_adapter :: bytes
  close_model :: "bytes option"
  fallback :: bool
  input_sha256 :: "bytes option"
  output_sha256 :: "bytes option"
  tokens_in :: "u64 option"
  tokens_out :: "u64 option"
  duration_ms :: u64

datatype receipt_event =
    Genesis bytes
  | Boot boot_info
  | OpenEv open_info
  | CloseEv close_info
  | ShutdownEv bytes
  | Recover u64 u64 bytes
  | Gap u64 bytes bytes

definition named :: "bytes \<Rightarrow> bytes \<Rightarrow> bool" where
  "named val pre \<longleftrightarrow>
     (case strip_prefix pre val of
        Some name \<Rightarrow> name \<noteq> [] \<and>
          list_all (\<lambda>c. ascii_alphanumeric c \<or> c = CHR ''-'' \<or> c = CHR ''_'') name
      | None \<Rightarrow> False)"

definition is_principal :: "bytes \<Rightarrow> bool" where
  "is_principal val \<longleftrightarrow>
     val \<in> {''owner'', ''guest'', ''task'', ''intent'', ''farm'', ''comms''} \<or>
     named val ''peer:'' \<or> named val ''plugin:''"

subsection \<open>JSON\<close>

datatype json =
    JNull
  | JBool bool
  | JNum bytes
  | JStr bytes
  | JArr "json list"
  | JObj "(bytes \<times> json) list"

record row =
  row_v :: u32
  row_seq :: u64
  row_prev :: bytes
  row_ts :: bytes
  row_e :: json

text \<open>
  A deserializer returns the error's message or the value; the derived one of the event takes the
  validator the source attaches to the field \<open>principal\<close>.
\<close>

record json_lib =
  parse :: "bytes \<Rightarrow> json option"
  print_str :: "bytes \<Rightarrow> bytes"
  de_row :: "json \<Rightarrow> bytes + row"
  ser_row :: "row \<Rightarrow> json option"
  de_event :: "(bytes \<Rightarrow> bool) \<Rightarrow> json \<Rightarrow> bytes + receipt_event"
  sha256 :: "bytes \<Rightarrow> bytes"
  rfc3339 :: "bytes \<Rightarrow> bool"

definition MAX_LINE_BYTES :: nat where
  "MAX_LINE_BYTES = 64 * 1024"

definition GENESIS_PREV :: bytes where
  "GENESIS_PREV = replicate 64 (CHR ''0'')"

datatype chain_error = Float | RowError

definition is_float :: "bytes \<Rightarrow> bool" where
  "is_float n \<longleftrightarrow> CHR ''.'' \<in> set n \<or> CHR ''e'' \<in> set n \<or> CHR ''E'' \<in> set n"

fun has_sig :: "json \<Rightarrow> bool" where
  "has_sig (JObj kvs) \<longleftrightarrow> ''sig'' \<in> fst ` set kvs \<or> list_ex (\<lambda>kv. has_sig (snd kv)) kvs"
| "has_sig (JArr vs) \<longleftrightarrow> list_ex has_sig vs"
| "has_sig _ \<longleftrightarrow> False"

fun contains_float :: "json \<Rightarrow> bool" where
  "contains_float (JNum n) \<longleftrightarrow> is_float n"
| "contains_float (JObj kvs) \<longleftrightarrow> list_ex (\<lambda>kv. contains_float (snd kv)) kvs"
| "contains_float (JArr vs) \<longleftrightarrow> list_ex contains_float vs"
| "contains_float _ \<longleftrightarrow> False"

subsection \<open>Canonical text\<close>

fun commas :: "bytes list \<Rightarrow> bytes" where
  "commas [] = []"
| "commas [x] = x"
| "commas (x # xs) = x @ CHR '','' # commas xs"

fun all_ok :: "('e + 'a) list \<Rightarrow> 'e + 'a list" where
  "all_ok [] = Inr []"
| "all_ok (r # rs) = rbind r (\<lambda>x. rbind (all_ok rs) (\<lambda>xs. Inr (x # xs)))"

text \<open>
  \<open>write_sorted\<close>: the source sorts the keys and then writes each value; here each value is
  written and the pairs are sorted by their keys. The only error is \<^const>\<open>Float\<close>.
\<close>

fun write_sorted :: "json_lib \<Rightarrow> json \<Rightarrow> chain_error + bytes" where
  "write_sorted L (JObj kvs) =
     rbind (all_ok (map (\<lambda>(k, r). rbind r (\<lambda>s. Inr (print_str L k @ CHR '':'' # s)))
         (sort_key fst (map (\<lambda>kv. (fst kv, write_sorted L (snd kv))) kvs))))
       (\<lambda>fields. Inr (CHR ''{'' # commas fields @ ''}''))"
| "write_sorted L (JArr vs) =
     rbind (all_ok (map (write_sorted L) vs)) (\<lambda>items. Inr (CHR ''['' # commas items @ '']''))"
| "write_sorted L (JNum n) = (if is_float n then Inl Float else Inr n)"
| "write_sorted L (JStr s) = Inr (print_str L s)"
| "write_sorted L (JBool b) = Inr (if b then ''true'' else ''false'')"
| "write_sorted L JNull = Inr ''null''"

definition canonical :: "json_lib \<Rightarrow> json \<Rightarrow> chain_error + bytes" where
  "canonical L v = write_sorted L v"

definition row_hash :: "json_lib \<Rightarrow> row \<Rightarrow> chain_error + bytes" where
  "row_hash L r =
     (case ser_row L r of
        None \<Rightarrow> Inl RowError
      | Some v \<Rightarrow> rbind (canonical L v) (\<lambda>s. Inr (sha256 L s)))"

definition hex_digit :: "nat \<Rightarrow> char" where
  "hex_digit n = ''0123456789abcdef'' ! n"

definition hex :: "bytes \<Rightarrow> bytes" where
  "hex bs = concat (map (\<lambda>b. [hex_digit (byte b div 16), hex_digit (byte b mod 16)]) bs)"

definition sha256_hex :: "json_lib \<Rightarrow> bytes \<Rightarrow> bytes" where
  "sha256_hex L bs = hex (sha256 L bs)"

subsection \<open>One row\<close>

definition ascii_digits_at :: "nat list \<Rightarrow> bytes \<Rightarrow> bool" where
  "ascii_digits_at is bs \<longleftrightarrow> list_all (\<lambda>i. ascii_digit (bs ! i)) is"

definition ts_ok :: "json_lib \<Rightarrow> bytes \<Rightarrow> bool" where
  "ts_ok L ts \<longleftrightarrow> length ts = 24 \<and>
     ts ! 4 = CHR ''-'' \<and> ts ! 7 = CHR ''-'' \<and> ts ! 10 = CHR ''T'' \<and> ts ! 13 = CHR '':'' \<and>
     ts ! 16 = CHR '':'' \<and> ts ! 19 = CHR ''.'' \<and> ts ! 23 = CHR ''Z'' \<and>
     ascii_digits_at [0, 1, 2, 3, 5, 6, 8, 9, 11, 12, 14, 15, 17, 18, 20, 21, 22] ts \<and> rfc3339 L ts"

definition digest_ok :: "bytes \<Rightarrow> bool" where
  "digest_ok val \<longleftrightarrow> length val = 64 \<and>
     list_all (\<lambda>c. ascii_digit c \<or> (CHR ''a'' \<le> c \<and> c \<le> CHR ''f'')) val"

definition opt_digest :: "bytes option \<Rightarrow> bool" where
  "opt_digest val \<longleftrightarrow> (case val of Some s \<Rightarrow> digest_ok s | None \<Rightarrow> True)"

fun digests_ok :: "receipt_event \<Rightarrow> bool" where
  "digests_ok (Boot b) \<longleftrightarrow> opt_digest (self_md (boot_identity b)) \<and>
     opt_digest (rules (boot_identity b)) \<and> opt_digest (config (boot_identity b))"
| "digests_ok (OpenEv oi) \<longleftrightarrow> opt_digest (principal_sha256 oi)"
| "digests_ok (CloseEv ci) \<longleftrightarrow> opt_digest (input_sha256 ci) \<and> opt_digest (output_sha256 ci)"
| "digests_ok (Recover _ _ torn) \<longleftrightarrow> digest_ok torn"
| "digests_ok (Genesis _) \<longleftrightarrow> True"
| "digests_ok (ShutdownEv _) \<longleftrightarrow> True"
| "digests_ok (Gap _ _ _) \<longleftrightarrow> True"

definition schema_reason :: "bytes \<Rightarrow> string" where
  "schema_reason msg =
     (if sublist ''unknown field'' msg \<or> sublist ''unknown variant'' msg
      then ''unknown field'' else ''not a row'')"

fun chain_reason :: "chain_error \<Rightarrow> string" where
  "chain_reason Float = ''float''"
| "chain_reason RowError = ''not a row''"

definition parse_text :: "json_lib \<Rightarrow> bytes \<Rightarrow> json option" where
  "parse_text L bs = (if valid_utf8 bs then parse L bs else None)"

definition stored_line_is_canonical :: "json_lib \<Rightarrow> bytes \<Rightarrow> string + unit" where
  "stored_line_is_canonical L s =
     (case parse L s of
        None \<Rightarrow> Inl ''not a row''
      | Some v \<Rightarrow>
          (case canonical L v of
             Inl e \<Rightarrow> Inl (chain_reason e)
           | Inr canon \<Rightarrow> if canon = s then Inr () else Inl ''not canonical''))"

record phys =
  phys_number :: nat
  phys_offset :: nat
  phys_bytes :: bytes
  has_newline :: bool

record accepted =
  acc_seq :: u64
  acc_hash :: bytes
  acc_ts :: bytes
  acc_event :: receipt_event

text \<open>\<open>if bad \{ return Err(reason); \}\<close>\<close>

definition guard :: "bool \<Rightarrow> 'e \<Rightarrow> 'e + unit" where
  "guard ok e = (if ok then Inr () else Inl e)"

definition is_genesis :: "receipt_event \<Rightarrow> bool" where
  "is_genesis e \<longleftrightarrow> (case e of Genesis _ \<Rightarrow> True | _ \<Rightarrow> False)"

definition is_recover :: "receipt_event \<Rightarrow> bool" where
  "is_recover e \<longleftrightarrow> (case e of Recover _ _ _ \<Rightarrow> True | _ \<Rightarrow> False)"

definition gap_ok :: "json_lib \<Rightarrow> receipt_event \<Rightarrow> bool" where
  "gap_ok L e \<longleftrightarrow> (case e of
      Gap _ first_at last_at \<Rightarrow> ts_ok L first_at \<and> ts_ok L last_at \<and> \<not> first_at > last_at
    | _ \<Rightarrow> True)"

definition check_row :: "json_lib \<Rightarrow> phys \<Rightarrow> u64 \<Rightarrow> bytes \<Rightarrow> string + accepted" where
  "check_row L line seq prev =
     (case parse_text L (phys_bytes line) of
        None \<Rightarrow> Inl ''not a row''
      | Some v \<Rightarrow>
          rbind (guard (case v of JObj _ \<Rightarrow> True | _ \<Rightarrow> False) ''not a row'') (\<lambda>_.
          rbind (guard (\<not> has_sig v) ''sig'') (\<lambda>_.
          rbind (guard (\<not> contains_float v) ''float'') (\<lambda>_.
          rbind (map_err schema_reason (de_row L v)) (\<lambda>r.
          rbind (guard (row_v r = 1) ''bad version'') (\<lambda>_.
          rbind (guard (row_seq r = seq) ''seq'') (\<lambda>_.
          rbind (guard (row_prev r = prev \<and> digest_ok (row_prev r)) ''prev'') (\<lambda>_.
          rbind (guard (ts_ok L (row_ts r)) ''ts'') (\<lambda>_.
          rbind (map_err schema_reason (de_event L is_principal (row_e r))) (\<lambda>e.
          rbind (guard ((row_seq r = 0) = is_genesis e) ''genesis'') (\<lambda>_.
          rbind (guard (gap_ok L e) ''ts'') (\<lambda>_.
          rbind (guard (digests_ok e) ''sha256'') (\<lambda>_.
          rbind (stored_line_is_canonical L (phys_bytes line)) (\<lambda>_.
          rbind (map_err chain_reason (row_hash L r)) (\<lambda>h.
            Inr \<lparr>acc_seq = row_seq r, acc_hash = hex h, acc_ts = row_ts r, acc_event = e\<rparr>)))))))))))))))"

definition accepts_line :: "json_lib \<Rightarrow> bytes \<Rightarrow> u64 \<Rightarrow> bytes \<Rightarrow> bool" where
  "accepts_line L bs seq prev \<longleftrightarrow>
     is_ok (check_row L \<lparr>phys_number = 1, phys_offset = 0, phys_bytes = bs, has_newline = True\<rparr> seq prev)"

definition valid_json_value :: "json_lib \<Rightarrow> bytes \<Rightarrow> bool" where
  "valid_json_value L bs \<longleftrightarrow> parse_text L bs \<noteq> None"

definition torn_payload :: "json_lib \<Rightarrow> phys \<Rightarrow> bool" where
  "torn_payload L line \<longleftrightarrow> \<not> has_newline line \<or> parse_text L (phys_bytes line) = None"

definition matching_recover ::
  "json_lib \<Rightarrow> phys \<Rightarrow> phys \<Rightarrow> u64 \<Rightarrow> bytes \<Rightarrow> accepted option" where
  "matching_recover L nxt torn seq prev =
     (if \<not> has_newline nxt \<or> MAX_LINE_BYTES < length (phys_bytes nxt) then None
      else (case check_row L nxt seq prev of
          Inl _ \<Rightarrow> None
        | Inr a \<Rightarrow>
            (case acc_event a of
               Recover off len sha \<Rightarrow>
                 (if unat off = phys_offset torn \<and> unat len = length (phys_bytes torn) \<and>
                     sha = sha256_hex L (phys_bytes torn) then Some a else None)
             | _ \<Rightarrow> None)))"

subsection \<open>The walk\<close>

record verify_note =
  note_line :: nat
  note_reason :: string

record verify_report =
  rows :: nat
  report_seq :: "u64 option"
  head :: bytes
  warns :: "verify_note list"
  first_break :: "verify_note option"

datatype verify_state = VerifyOk | VerifyWarn | VerifyBroken

definition report_state :: "verify_report \<Rightarrow> verify_state" where
  "report_state r =
     (if first_break r \<noteq> None then VerifyBroken else if warns r = [] then VerifyOk else VerifyWarn)"

definition report_empty :: verify_report where
  "report_empty = \<lparr>rows = 0, report_seq = None, head = GENESIS_PREV, warns = [], first_break = None\<rparr>"

record indexed_row =
  ix_seq :: u64
  ix_hash :: bytes
  ix_ts :: bytes

record chain_index =
  report :: verify_report
  pulse :: "bytes option"
  genesis_hash :: "bytes option"
  kept_rows :: "indexed_row list"

definition note_at :: "phys \<Rightarrow> string \<Rightarrow> verify_note" where
  "note_at line reason = \<lparr>note_line = phys_number line, note_reason = reason\<rparr>"

text \<open>
  \<open>split_lines\<close>: the terminated lines with their offsets, then the bytes after the last newline,
  if any.
\<close>

function split_from :: "nat \<Rightarrow> nat \<Rightarrow> bytes \<Rightarrow> phys list" where
  "split_from number start buf =
     (if buf = [] then []
      else (let l = takeWhile (\<lambda>b. b \<noteq> newline) buf; rest = drop (length l + 1) buf
            in if length l < length buf
               then \<lparr>phys_number = number, phys_offset = start, phys_bytes = l, has_newline = True\<rparr> #
                    split_from (number + 1) (start + length l + 1) rest
               else [\<lparr>phys_number = number, phys_offset = start, phys_bytes = l, has_newline = False\<rparr>]))"
  by pat_completeness auto
termination
  by (relation "measure (\<lambda>(_, _, buf). length buf)") auto

declare split_from.simps [simp del]

definition split_lines :: "bytes \<Rightarrow> phys list" where
  "split_lines buf = split_from 1 0 buf"

text \<open>
  The state of the walk: what it has kept, the report, the expected \<open>seq\<close> (\<open>None\<close> after the
  last \<open>u64\<close>) and the expected \<open>prev\<close>.
\<close>

record walk_state =
  wk_kept :: chain_index
  wk_report :: verify_report
  wk_seq :: "u64 option"
  wk_prev :: bytes

definition accept :: "bool \<Rightarrow> accepted \<Rightarrow> walk_state \<Rightarrow> walk_state" where
  "accept keep a st =
     (let k = wk_kept st;
          k1 = (if \<not> keep then k
                else (case acc_event a of
                    Genesis p \<Rightarrow> k\<lparr>pulse := Some p, genesis_hash := Some (acc_hash a)\<rparr>
                  | _ \<Rightarrow> k)\<lparr>kept_rows := kept_rows k @
                    [\<lparr>ix_seq = acc_seq a, ix_hash = acc_hash a, ix_ts = acc_ts a\<rparr>]\<rparr>)
      in st\<lparr>wk_kept := k1,
            wk_report := (wk_report st)\<lparr>rows := rows (wk_report st) + 1,
              report_seq := Some (acc_seq a), head := acc_hash a\<rparr>,
            wk_prev := acc_hash a, wk_seq := checked_add_u64 (acc_seq a) 1\<rparr>)"

definition break_at :: "phys \<Rightarrow> string \<Rightarrow> walk_state \<Rightarrow> walk_state" where
  "break_at line reason st =
     st\<lparr>wk_report := (wk_report st)\<lparr>first_break := Some (note_at line reason)\<rparr>\<rparr>"

definition warn_at :: "phys \<Rightarrow> string \<Rightarrow> walk_state \<Rightarrow> walk_state" where
  "warn_at line reason st =
     st\<lparr>wk_report := (wk_report st)\<lparr>warns := warns (wk_report st) @ [note_at line reason]\<rparr>\<rparr>"

definition recovery_of :: "json_lib \<Rightarrow> phys \<Rightarrow> phys list \<Rightarrow> u64 \<Rightarrow> bytes \<Rightarrow> accepted option" where
  "recovery_of L line rest seq prev =
     (case rest of
        nxt # _ \<Rightarrow> if torn_payload L line then matching_recover L nxt line seq prev else None
      | [] \<Rightarrow> None)"

function walk_loop :: "json_lib \<Rightarrow> bool \<Rightarrow> phys list \<Rightarrow> walk_state \<Rightarrow> walk_state" where
  "walk_loop L keep [] st = st"
| "walk_loop L keep (line # rest) st =
     (if MAX_LINE_BYTES < length (phys_bytes line) then break_at line ''oversize'' st
      else (case wk_seq st of
          None \<Rightarrow> break_at line ''seq'' st
        | Some seq \<Rightarrow>
            (case recovery_of L line rest seq (wk_prev st) of
               Some a \<Rightarrow> walk_loop L keep (tl rest) (accept keep a (warn_at line ''torn line'' st))
             | None \<Rightarrow>
                 if torn_payload L line then break_at line ''torn line'' st
                 else (case check_row L line seq (wk_prev st) of
                     Inl reason \<Rightarrow> break_at line reason st
                   | Inr a \<Rightarrow>
                       if is_recover (acc_event a) then break_at line ''recover'' st
                       else walk_loop L keep rest (accept keep a st)))))"
  by pat_completeness auto
termination
  by (relation "measure (\<lambda>(_, _, ls, _). length ls)") auto

definition walk_start :: walk_state where
  "walk_start =
     \<lparr>wk_kept = \<lparr>report = report_empty, pulse = None, genesis_hash = None, kept_rows = []\<rparr>,
      wk_report = report_empty, wk_seq = Some 0, wk_prev = GENESIS_PREV\<rparr>"

definition walk :: "json_lib \<Rightarrow> bytes \<Rightarrow> bool \<Rightarrow> chain_index" where
  "walk L buf keep =
     (let lines = split_lines buf;
          st = walk_loop L keep lines walk_start;
          rep = (if lines = [] \<and> first_break (wk_report st) = None
                 then (wk_report st)\<lparr>warns := warns (wk_report st) @
                        [\<lparr>note_line = 1, note_reason = ''empty''\<rparr>]\<rparr>
                 else wk_report st)
      in (wk_kept st)\<lparr>report := rep\<rparr>)"

text \<open>\<open>verify_lines\<close>: \<open>None\<close> is a reader that fails.\<close>

definition verify_lines :: "json_lib \<Rightarrow> bytes option \<Rightarrow> verify_report" where
  "verify_lines L input =
     (case input of
        None \<Rightarrow> report_empty\<lparr>first_break := Some \<lparr>note_line = 1, note_reason = ''read''\<rparr>\<rparr>
      | Some buf \<Rightarrow> report (walk L buf False))"

definition index_bytes :: "json_lib \<Rightarrow> bytes \<Rightarrow> chain_index" where
  "index_bytes L buf = walk L buf True"

subsection \<open>Splitting loses nothing\<close>

definition phys_text :: "phys \<Rightarrow> bytes" where
  "phys_text l = phys_bytes l @ (if has_newline l then [newline] else [])"

lemma split_from_text: "concat (map phys_text (split_from n i buf)) = buf"
proof (induction n i buf rule: split_from.induct)
  case (1 n i buf)
  let ?l = "takeWhile (\<lambda>b. b \<noteq> newline) buf"
  show ?case
  proof (cases "buf = [] \<or> length ?l = length buf")
    case True
    then have l: "?l = buf" using takeWhile_eq_take [of _ buf] by (metis list.size(3) take_all_iff order_refl takeWhile.simps(1))
    show ?thesis
      by (subst split_from.simps) (simp add: l phys_text_def Let_def)
  next
    case False
    then have lt: "length ?l < length buf" and ne: "buf \<noteq> []"
      by (auto simp: le_neq_implies_less length_takeWhile_le)
    have nl: "buf ! length ?l = newline" using nth_length_takeWhile [OF lt] by simp
    have "?l @ newline # drop (length ?l + 1) buf = buf"
      using id_take_nth_drop [OF lt] nl by (simp add: takeWhile_eq_take [symmetric])
    moreover have "concat (map phys_text (split_from (n + 1) (i + length ?l + 1) (drop (length ?l + 1) buf))) =
        drop (length ?l + 1) buf" by (rule 1 [OF ne refl refl lt])
    moreover have "split_from n i buf =
        \<lparr>phys_number = n, phys_offset = i, phys_bytes = ?l, has_newline = True\<rparr> #
        split_from (n + 1) (i + length ?l + 1) (drop (length ?l + 1) buf)"
      using ne lt by (subst split_from.simps) (simp add: Let_def)
    ultimately show ?thesis by (simp only: list.map concat.simps) (simp add: phys_text_def)
  qed
qed

lemma split_lines_text: "concat (map phys_text (split_lines buf)) = buf"
  by (simp add: split_lines_def split_from_text)

subsection \<open>What an accepted row tells\<close>

lemma guard_eq_Inr [simp]: "guard ok e = Inr u \<longleftrightarrow> ok"
  by (simp add: guard_def)

text \<open>
  What the derived row (de)serializer promises: a value that reads as a row is, as JSON, what the
  row is written as, up to the order of keys, which canonical text does not see.
\<close>

definition row_codec_ok :: "json_lib \<Rightarrow> bool" where
  "row_codec_ok L \<longleftrightarrow> (\<forall>v r. de_row L v = Inr r \<longrightarrow>
     (\<exists>v'. ser_row L r = Some v' \<and> canonical L v' = canonical L v))"

lemma stored_canonical_Inr:
  "stored_line_is_canonical L s = Inr u \<longleftrightarrow> (\<exists>v. parse L s = Some v \<and> canonical L v = Inr s)"
  by (auto simp: stored_line_is_canonical_def split: option.splits sum.splits if_splits)

lemma check_row_Inr:
  assumes "check_row L line seq prev = Inr a"
  shows "\<exists>v r h. parse_text L (phys_bytes line) = Some v \<and> de_row L v = Inr r \<and> row_seq r = seq \<and>
    row_prev r = prev \<and> digest_ok prev \<and> de_event L is_principal (row_e r) = Inr (acc_event a) \<and>
    (seq = 0) = is_genesis (acc_event a) \<and> canonical L v = Inr (phys_bytes line) \<and>
    row_hash L r = Inr h \<and> a = \<lparr>acc_seq = seq, acc_hash = hex h, acc_ts = row_ts r, acc_event = acc_event a\<rparr>"
proof -
  from assms obtain v where v: "parse_text L (phys_bytes line) = Some v"
    by (auto simp: check_row_def split: option.splits)
  then have "parse L (phys_bytes line) = Some v" by (auto simp: parse_text_def split: if_splits)
  with assms v show ?thesis
    by (auto simp: check_row_def rbind_eq_Inr stored_canonical_Inr)
qed

lemma check_row_hash:
  assumes "row_codec_ok L" and "check_row L line seq prev = Inr a"
  shows "acc_hash a = sha256_hex L (phys_bytes line)" and "acc_seq a = seq"
    and "is_genesis (acc_event a) \<longleftrightarrow> seq = 0"
proof -
  from check_row_Inr [OF assms(2)] obtain v r h where f: "de_row L v = Inr r"
    "canonical L v = Inr (phys_bytes line)" "row_hash L r = Inr h"
    "a = \<lparr>acc_seq = seq, acc_hash = hex h, acc_ts = row_ts r, acc_event = acc_event a\<rparr>"
    "(seq = 0) = is_genesis (acc_event a)" by blast
  from assms(1) f(1) obtain v' where "ser_row L r = Some v'" "canonical L v' = canonical L v"
    unfolding row_codec_ok_def by blast
  with f(2,3) have "h = sha256 L (phys_bytes line)" by (simp add: row_hash_def)
  moreover from f(4) have "acc_hash a = hex h" "acc_seq a = seq"
    by (metis accepted.select_convs(2), metis accepted.select_convs(1))
  ultimately show "acc_hash a = sha256_hex L (phys_bytes line)" "acc_seq a = seq"
    by (simp_all add: sha256_hex_def)
  from f(5) show "is_genesis (acc_event a) \<longleftrightarrow> seq = 0" by simp
qed

text \<open>The bytes of a line fix the row: where two checks accept them, they agree.\<close>

lemma check_row_same:
  assumes "check_row L line seq prev = Inr a" and "check_row L line' seq' prev' = Inr a'"
    and "phys_bytes line = phys_bytes line'"
  shows "seq = seq'" and "prev = prev'" and "a = a'"
proof -
  from check_row_Inr [OF assms(1)] obtain v r h where f: "parse_text L (phys_bytes line) = Some v"
    "de_row L v = Inr r" "row_seq r = seq" "row_prev r = prev"
    "de_event L is_principal (row_e r) = Inr (acc_event a)" "row_hash L r = Inr h"
    "a = \<lparr>acc_seq = seq, acc_hash = hex h, acc_ts = row_ts r, acc_event = acc_event a\<rparr>" by blast
  from check_row_Inr [OF assms(2)] obtain v' r' h' where g: "parse_text L (phys_bytes line') = Some v'"
    "de_row L v' = Inr r'" "row_seq r' = seq'" "row_prev r' = prev'"
    "de_event L is_principal (row_e r') = Inr (acc_event a')" "row_hash L r' = Inr h'"
    "a' = \<lparr>acc_seq = seq', acc_hash = hex h', acc_ts = row_ts r', acc_event = acc_event a'\<rparr>" by blast
  from f(1,2) g(1,2) assms(3) have r: "r = r'" by simp
  with f(3,4) g(3,4) show "seq = seq'" "prev = prev'" by simp_all
  from r f(5,6) g(5,6) have "acc_event a = acc_event a'" "h = h'" by simp_all
  with r f(7) g(7) \<open>seq = seq'\<close> show "a = a'" by simp
qed

lemma matching_recover_Some:
  "matching_recover L nxt torn seq prev = Some a \<Longrightarrow>
     has_newline nxt \<and> check_row L nxt seq prev = Inr a \<and> is_recover (acc_event a) \<and>
     (\<exists>off len. acc_event a = Recover off len (sha256_hex L (phys_bytes torn)) \<and>
        unat off = phys_offset torn \<and> unat len = length (phys_bytes torn))"
  by (auto simp: matching_recover_def is_recover_def split: if_splits sum.splits receipt_event.splits)

subsection \<open>The walk without a break\<close>

text \<open>
  \<open>chain L ls n h\<close>: the lines \<open>ls\<close> are \<open>n\<close> rows, each with the next \<open>seq\<close> and the hash of
  the one before, the last one's hash being \<open>h\<close>; a torn line stands only before the row that
  names its bytes.
\<close>

inductive chain :: "json_lib \<Rightarrow> phys list \<Rightarrow> nat \<Rightarrow> bytes \<Rightarrow> bool" for L where
  chain_nil: "chain L [] 0 GENESIS_PREV"
| chain_row: "chain L ls n h \<Longrightarrow> n < 2 ^ 64 \<Longrightarrow>
     length (phys_bytes line) \<le> MAX_LINE_BYTES \<Longrightarrow> \<not> torn_payload L line \<Longrightarrow>
     check_row L line (of_nat n) h = Inr a \<Longrightarrow> \<not> is_recover (acc_event a) \<Longrightarrow>
     chain L (ls @ [line]) (Suc n) (acc_hash a)"
| chain_recover: "chain L ls n h \<Longrightarrow> n < 2 ^ 64 \<Longrightarrow>
     length (phys_bytes line) \<le> MAX_LINE_BYTES \<Longrightarrow> torn_payload L line \<Longrightarrow>
     matching_recover L nxt line (of_nat n) h = Some a \<Longrightarrow>
     chain L (ls @ [line, nxt]) (Suc n) (acc_hash a)"

definition tracks :: "nat \<Rightarrow> bytes \<Rightarrow> walk_state \<Rightarrow> bool" where
  "tracks n h st \<longleftrightarrow> wk_prev st = h \<and> head (wk_report st) = h \<and> rows (wk_report st) = n \<and>
     wk_seq st = (if n < 2 ^ 64 then Some (of_nat n) else None) \<and>
     report_seq (wk_report st) = (if n = 0 then None else Some (of_nat (n - 1)))"

lemma tracks_start: "tracks 0 GENESIS_PREV walk_start"
  by (simp add: tracks_def walk_start_def report_empty_def)

lemma checked_next:
  assumes "n < 2 ^ 64"
  shows "checked_add_u64 (of_nat n) 1 = (if Suc n < 2 ^ 64 then Some (of_nat (Suc n)) else None)"
proof -
  have "unat (of_nat n :: u64) = n" using assms by (simp add: unat_of_nat)
  then show ?thesis by (simp add: checked_add_u64_def add.commute)
qed

lemma tracks_accept:
  assumes "tracks n h st" and "n < 2 ^ 64" and "acc_seq a = of_nat n"
  shows "tracks (Suc n) (acc_hash a) (accept keep a st)"
  using assms checked_next [OF assms(2)]
  by (auto simp: tracks_def accept_def Let_def)

lemma tracks_warn: "tracks n h st \<Longrightarrow> tracks n h (warn_at line reason st)"
  by (simp add: tracks_def warn_at_def)

lemma no_break_accept [simp]: "first_break (wk_report (accept keep a st)) = first_break (wk_report st)"
  by (simp add: accept_def Let_def)

lemma no_break_warn [simp]: "first_break (wk_report (warn_at line reason st)) = first_break (wk_report st)"
  by (simp add: warn_at_def)

lemma break_at_breaks [simp]: "first_break (wk_report (break_at line reason st)) \<noteq> None"
  by (simp add: break_at_def)

lemma check_row_seq: "check_row L line seq prev = Inr a \<Longrightarrow> acc_seq a = seq"
  using check_row_Inr by (metis accepted.select_convs(1))

lemma recovery_of_Some:
  "recovery_of L line rest seq prev = Some a \<longleftrightarrow>
     (\<exists>nxt more. rest = nxt # more \<and> torn_payload L line \<and> matching_recover L nxt line seq prev = Some a)"
  by (auto simp: recovery_of_def split: list.splits)

lemma walk_chain:
  assumes "chain L ls n h" and "tracks n h st" and "first_break (wk_report (walk_loop L keep rest st)) = None"
  shows "\<exists>m k. chain L (ls @ rest) m k \<and> tracks m k (walk_loop L keep rest st)"
  using assms
proof (induction L keep rest st arbitrary: ls n h rule: walk_loop.induct)
  case (1 L keep st)
  then show ?case by auto
next
  case (2 L keep line rest st)
  note tr = 2(4)
  have len: "length (phys_bytes line) \<le> MAX_LINE_BYTES" using 2(5) by (auto split: if_splits)
  then have nlen: "\<not> MAX_LINE_BYTES < length (phys_bytes line)" by simp
  have "wk_seq st \<noteq> None"
  proof
    assume "wk_seq st = None"
    with 2(5) nlen show False by simp
  qed
  with tr have n: "n < 2 ^ 64" and sq: "wk_seq st = Some (of_nat n)" and pv: "wk_prev st = h"
    by (auto simp: tracks_def split: if_splits)
  show ?case
  proof (cases "recovery_of L line rest (of_nat n) h")
    case (Some a)
    then obtain nxt more where rest: "rest = nxt # more" "torn_payload L line"
      "matching_recover L nxt line (of_nat n) h = Some a" by (auto simp: recovery_of_Some)
    let ?st = "accept keep a (warn_at line ''torn line'' st)"
    have "acc_seq a = of_nat n" using matching_recover_Some [OF rest(3)] check_row_seq by blast
    then have t: "tracks (Suc n) (acc_hash a) ?st" using tracks_accept tracks_warn tr n by blast
    have c: "chain L (ls @ [line, nxt]) (Suc n) (acc_hash a)"
      using chain_recover [OF 2(3) n len rest(2,3)] .
    have w: "walk_loop L keep (line # rest) st = walk_loop L keep (tl rest) ?st"
      using nlen sq pv Some by simp
    from 2(2) [OF nlen sq Some [folded pv] c t] 2(5) w rest(1) show ?thesis by simp
  next
    case None
    have "\<not> torn_payload L line"
      using 2(5) nlen sq pv None by (auto split: if_splits)
    moreover from this obtain a where a: "check_row L line (of_nat n) h = Inr a" "\<not> is_recover (acc_event a)"
      using 2(5) nlen sq pv None by (auto split: if_splits sum.splits)
    moreover have w: "walk_loop L keep (line # rest) st = walk_loop L keep rest (accept keep a st)"
      using calculation nlen sq pv None by simp
    moreover have "tracks (Suc n) (acc_hash a) (accept keep a st)"
      using tracks_accept tr n check_row_seq [OF a(1)] by blast
    moreover have "chain L (ls @ [line]) (Suc n) (acc_hash a)"
      using chain_row [OF 2(3) n len] calculation by blast
    ultimately show ?thesis
      using 2(1) [OF nlen sq None [folded pv], of a "ls @ [line]" "Suc n" "acc_hash a"] 2(5) pv by simp
  qed
qed

definition kept_ok :: "walk_state \<Rightarrow> bool" where
  "kept_ok st \<longleftrightarrow>
     map ix_seq (kept_rows (wk_kept st)) = map of_nat [0..<rows (wk_report st)] \<and>
     (kept_rows (wk_kept st) \<noteq> [] \<longrightarrow> ix_hash (last (kept_rows (wk_kept st))) = head (wk_report st))"

lemma kept_ok_accept:
  "kept_ok st \<Longrightarrow> acc_seq a = of_nat (rows (wk_report st)) \<Longrightarrow> kept_ok (accept True a st)"
  by (auto simp: kept_ok_def accept_def Let_def split: receipt_event.splits)

lemma kept_ok_warn: "kept_ok st \<Longrightarrow> kept_ok (warn_at line reason st)"
  by (simp add: kept_ok_def warn_at_def)

lemma kept_ok_start: "kept_ok walk_start"
  by (simp add: kept_ok_def walk_start_def report_empty_def)

lemma chain_walk:
  "chain L ls n h \<Longrightarrow> \<exists>st. tracks n h st \<and> first_break (wk_report st) = None \<and> (keep \<longrightarrow> kept_ok st) \<and>
     (\<forall>rest. walk_loop L keep (ls @ rest) walk_start = walk_loop L keep rest st)"
proof (induction rule: chain.induct)
  case chain_nil
  then show ?case using tracks_start kept_ok_start by (auto simp: walk_start_def report_empty_def)
next
  case (chain_row ls n h line a)
  then obtain st where st: "tracks n h st" "first_break (wk_report st) = None" "keep \<longrightarrow> kept_ok st"
    "\<And>rest. walk_loop L keep (ls @ rest) walk_start = walk_loop L keep rest st" by auto
  from st(1) chain_row have "wk_seq st = Some (of_nat n)" "wk_prev st = h" by (auto simp: tracks_def)
  then have "walk_loop L keep (line # rest) st = walk_loop L keep rest (accept keep a st)" for rest
    using chain_row by (auto simp: recovery_of_def split: list.splits)
  moreover have "tracks (Suc n) (acc_hash a) (accept keep a st)"
    using tracks_accept [OF st(1) chain_row.hyps(2) check_row_seq [OF chain_row.hyps(5)]] .
  moreover have "keep \<longrightarrow> kept_ok (accept keep a st)"
    using st(1,3) kept_ok_accept [of st a] check_row_seq [OF chain_row.hyps(5)] by (auto simp: tracks_def)
  ultimately show ?case using st by (intro exI [of _ "accept keep a st"]) simp
next
  case (chain_recover ls n h line nxt a)
  then obtain st where st: "tracks n h st" "first_break (wk_report st) = None" "keep \<longrightarrow> kept_ok st"
    "\<And>rest. walk_loop L keep (ls @ rest) walk_start = walk_loop L keep rest st" by auto
  let ?st = "accept keep a (warn_at line ''torn line'' st)"
  from st(1) chain_recover have "wk_seq st = Some (of_nat n)" "wk_prev st = h" by (auto simp: tracks_def)
  then have "walk_loop L keep (line # nxt # rest) st = walk_loop L keep rest ?st" for rest
    using chain_recover by (auto simp: recovery_of_def)
  moreover have "acc_seq a = of_nat n"
    using matching_recover_Some [OF chain_recover.hyps(5)] check_row_seq by blast
  from tracks_accept [OF tracks_warn [OF st(1)] chain_recover.hyps(2) this]
  have "tracks (Suc n) (acc_hash a) ?st" .
  moreover have "keep \<longrightarrow> kept_ok ?st"
    using kept_ok_accept [OF kept_ok_warn, of st a line "''torn line''"] st(1,3) \<open>acc_seq a = of_nat n\<close>
    by (auto simp: tracks_def warn_at_def)
  ultimately show ?case using st by (intro exI [of _ ?st]) simp
qed

text \<open>The verdict on a whole file.\<close>

lemma walk_report:
  "first_break (report (walk L buf keep)) = first_break (wk_report (walk_loop L keep (split_lines buf) walk_start))"
  "rows (report (walk L buf keep)) = rows (wk_report (walk_loop L keep (split_lines buf) walk_start))"
  "head (report (walk L buf keep)) = head (wk_report (walk_loop L keep (split_lines buf) walk_start))"
  "report_seq (report (walk L buf keep)) = report_seq (wk_report (walk_loop L keep (split_lines buf) walk_start))"
  by (simp_all add: walk_def Let_def)

lemma unbroken_iff:
  "first_break (report (walk L buf keep)) = None \<and> rows (report (walk L buf keep)) = n \<and>
     head (report (walk L buf keep)) = h \<longleftrightarrow> chain L (split_lines buf) n h"
proof
  assume a: "first_break (report (walk L buf keep)) = None \<and> rows (report (walk L buf keep)) = n \<and>
     head (report (walk L buf keep)) = h"
  with walk_chain [OF chain_nil tracks_start, of L keep "split_lines buf"]
  show "chain L (split_lines buf) n h" by (auto simp: walk_report tracks_def)
next
  assume "chain L (split_lines buf) n h"
  then obtain st where "tracks n h st" "first_break (wk_report st) = None"
    "walk_loop L keep (split_lines buf @ []) walk_start = walk_loop L keep [] st"
    using chain_walk by blast
  then show "first_break (report (walk L buf keep)) = None \<and> rows (report (walk L buf keep)) = n \<and>
     head (report (walk L buf keep)) = h" by (auto simp: walk_report tracks_def)
qed

subsection \<open>The head binds the file\<close>

lemma hex_digit_inj: "i < 16 \<Longrightarrow> j < 16 \<Longrightarrow> hex_digit i = hex_digit j \<longleftrightarrow> i = j"
  unfolding hex_digit_def by (rule nth_eq_iff_index_eq) simp_all

lemma byte_less: "byte c < 256"
  unfolding byte_def by (metis mod_less_divisor of_char_mod_256 zero_less_numeral)

lemma byte_inj: "byte a = byte b \<Longrightarrow> a = b"
  by (simp add: byte_def of_char_eq_iff)

lemma hex_byte_inj:
  assumes "hex_digit (byte a div 16) = hex_digit (byte b div 16)"
    and "hex_digit (byte a mod 16) = hex_digit (byte b mod 16)"
  shows "a = b"
proof -
  have "byte a div 16 < 16" "byte b div 16 < 16" using byte_less [of a] byte_less [of b] by auto
  with assms have "byte a div 16 = byte b div 16" "byte a mod 16 = byte b mod 16"
    by (simp_all add: hex_digit_inj)
  then have "byte a = byte b" by (metis div_mod_decomp)
  then show ?thesis by (rule byte_inj)
qed

lemma hex_inj: "hex xs = hex ys \<Longrightarrow> xs = ys"
proof (induction xs arbitrary: ys)
  case Nil
  then show ?case by (cases ys) (auto simp: hex_def)
next
  case (Cons x xs)
  then obtain y ys' where ys: "ys = y # ys'" by (cases ys) (auto simp: hex_def)
  with Cons.prems have "hex xs = hex ys'" "hex_digit (byte x div 16) = hex_digit (byte y div 16)"
    "hex_digit (byte x mod 16) = hex_digit (byte y mod 16)" by (auto simp: hex_def)
  with Cons.IH hex_byte_inj ys show ?case by blast
qed

text \<open>Two lines of the two files with different bytes and the same digest.\<close>

definition sha_collision :: "json_lib \<Rightarrow> phys list \<Rightarrow> phys list \<Rightarrow> bool" where
  "sha_collision L ls ls' \<longleftrightarrow> (\<exists>x \<in> phys_bytes ` set ls. \<exists>y \<in> phys_bytes ` set ls'.
     x \<noteq> y \<and> sha256 L x = sha256 L y)"

lemma sha_hex_eq:
  "sha256_hex L x = sha256_hex L y \<Longrightarrow> x \<in> phys_bytes ` set ls \<Longrightarrow> y \<in> phys_bytes ` set ls' \<Longrightarrow>
     x = y \<or> sha_collision L ls ls'"
  unfolding sha_collision_def sha256_hex_def using hex_inj by blast

lemma sha_collision_mono:
  "sha_collision L ls ls' \<Longrightarrow> set ls \<subseteq> set ms \<Longrightarrow> set ls' \<subseteq> set ms' \<Longrightarrow> sha_collision L ms ms'"
  unfolding sha_collision_def by blast

inductive_cases chain_SucE: "chain L ls (Suc n) h"
inductive_cases chain_0E: "chain L ls 0 h"

text \<open>The last row of a chain: its line, its check, and a torn line before it when it recovers one.\<close>

lemma chain_last:
  assumes "chain L ls (Suc n) h"
  obtains ps ts line g a where "ls = ps @ ts @ [line]" and "chain L ps n g"
    and "check_row L line (of_nat n) g = Inr a" and "h = acc_hash a"
    and "if is_recover (acc_event a)
      then (\<exists>t off len. ts = [t] \<and> acc_event a = Recover off len (sha256_hex L (phys_bytes t)))
      else ts = []"
  using assms
proof (rule chain_SucE, goal_cases)
  case (1 ps g line a)
  then show ?thesis by (intro that [of ps "[]" line g a]) auto
next
  case (2 ps g t nxt a)
  from matching_recover_Some [OF 2(8)] 2 show ?thesis
    by (intro that [of ps "[t]" nxt g a]) auto
qed

lemma chain_same:
  assumes ok: "row_codec_ok L"
  shows "chain L ls n h \<Longrightarrow> chain L ls' n h \<Longrightarrow>
    map phys_bytes ls = map phys_bytes ls' \<or> sha_collision L ls ls'"
proof (induction n arbitrary: ls ls' h)
  case 0
  then show ?case by (auto elim: chain_0E)
next
  case (Suc n)
  from chain_last [OF Suc.prems(1)] obtain ps ts line g a where p: "ls = ps @ ts @ [line]" "chain L ps n g"
    "check_row L line (of_nat n) g = Inr a" "h = acc_hash a"
    "if is_recover (acc_event a)
      then (\<exists>t off len. ts = [t] \<and> acc_event a = Recover off len (sha256_hex L (phys_bytes t)))
      else ts = []" .
  from chain_last [OF Suc.prems(2)] obtain ps' ts' line' g' a' where q: "ls' = ps' @ ts' @ [line']" "chain L ps' n g'"
    "check_row L line' (of_nat n) g' = Inr a'" "h = acc_hash a'"
    "if is_recover (acc_event a')
      then (\<exists>t off len. ts' = [t] \<and> acc_event a' = Recover off len (sha256_hex L (phys_bytes t)))
      else ts' = []" .
  have "sha256_hex L (phys_bytes line) = sha256_hex L (phys_bytes line')"
    using check_row_hash(1) [OF ok p(3)] check_row_hash(1) [OF ok q(3)] p(4) q(4) by simp
  then consider "sha_collision L ls ls'" | "phys_bytes line = phys_bytes line'"
    using sha_hex_eq p(1) q(1) by (metis Un_iff image_eqI list.set_intros(1) set_append)
  then show ?case
  proof cases
    case 2
    note same = check_row_same [OF p(3) q(3) 2]
    from Suc.IH [OF p(2)] q(2) same(2) have
      ps: "map phys_bytes ps = map phys_bytes ps' \<or> sha_collision L ls ls'"
      using p(1) q(1) by (metis sha_collision_mono set_append Un_upper1)
    have "map phys_bytes ts = map phys_bytes ts' \<or> sha_collision L ls ls'"
    proof (cases "is_recover (acc_event a)")
      case True
      with p(5) q(5) same(3) obtain t t' where "ts = [t]" "ts' = [t']"
        "sha256_hex L (phys_bytes t) = sha256_hex L (phys_bytes t')" by auto
      with sha_hex_eq [of L "phys_bytes t" "phys_bytes t'" ls ls'] p(1) q(1) show ?thesis by auto
    next
      case False
      with p(5) q(5) same(3) show ?thesis by simp
    qed
    with ps 2 p(1) q(1) show ?thesis by auto
  qed simp
qed

lemma split_from_newlines: "l \<in> set (butlast (split_from n i buf)) \<Longrightarrow> has_newline l"
proof (induction n i buf rule: split_from.induct)
  case (1 n i buf)
  then show ?case
    by (subst (asm) (2) split_from.simps) (auto simp: Let_def split: if_splits)
qed

lemma chain_last_newline: "chain L ls n h \<Longrightarrow> ls \<noteq> [] \<Longrightarrow> has_newline (last ls)"
  by (erule chain.cases) (auto simp: torn_payload_def dest: matching_recover_Some)

lemma chain_all_newlines:
  assumes "chain L (split_lines buf) n h" and "l \<in> set (split_lines buf)"
  shows "has_newline l"
proof -
  from assms(2) have ne: "split_lines buf \<noteq> []" by auto
  then have "set (split_lines buf) = insert (last (split_lines buf)) (set (butlast (split_lines buf)))"
    by (metis append_butlast_last_id list.simps(15) rotate1.simps(2) set_rotate1)
  with assms chain_last_newline [OF assms(1) ne] split_from_newlines show ?thesis
    unfolding split_lines_def by auto
qed

lemma chain_buf:
  assumes "chain L (split_lines buf) n h"
  shows "buf = concat (map (\<lambda>b. b @ [newline]) (map phys_bytes (split_lines buf)))"
proof -
  have "map phys_text (split_lines buf) = map (\<lambda>b. b @ [newline]) (map phys_bytes (split_lines buf))"
    using chain_all_newlines [OF assms] by (simp add: phys_text_def)
  with split_lines_text [of buf] show ?thesis by simp
qed

subsection \<open>Extending a file\<close>

lemma check_row_bytes: "check_row L line seq prev = check_row L line' seq prev"
  if "phys_bytes line = phys_bytes line'"
  unfolding check_row_def that ..

lemma split_from_line:
  assumes "newline \<notin> set l"
  shows "split_from n i (l @ newline # r) =
    \<lparr>phys_number = n, phys_offset = i, phys_bytes = l, has_newline = True\<rparr> #
    split_from (n + 1) (i + length l + 1) r"
  using assms by (subst split_from.simps) (simp add: Let_def)

lemma split_from_nil [simp]: "split_from n i [] = []"
  by (subst split_from.simps) simp

text \<open>After terminated lines, more bytes only add lines.\<close>

lemma split_from_append:
  assumes "terminated_bytes buf"
  shows "split_from n i (buf @ r) =
    split_from n i buf @ split_from (n + length (split_from n i buf)) (i + length buf) r"
  using assms
proof (induction n i buf rule: split_from.induct)
  case (1 n i buf)
  show ?case
  proof (cases "buf = []")
    case False
    with 1(2) have "newline \<in> set buf" by (metis last_in_set terminated_bytes_def)
    then obtain l rest where b: "buf = l @ newline # rest" "newline \<notin> set l"
      by (meson split_list_first)
    then have "terminated_bytes rest" using 1(2) False by (auto simp: terminated_bytes_def split: if_splits)
    with 1(1) [OF False refl refl] b show ?thesis
      by (simp add: split_from_line add.assoc)
  qed simp
qed

lemma chain_terminated:
  assumes "chain L (split_lines buf) n h"
  shows "terminated_bytes buf"
proof -
  have "terminated_bytes (concat (map (\<lambda>b. b @ [newline]) ls))" for ls
    by (induction ls rule: rev_induct) (auto simp: terminated_bytes_def)
  with chain_buf [OF assms] show ?thesis by metis
qed

lemma split_lines_append:
  assumes "terminated_bytes buf" and "newline \<notin> set l"
  shows "split_lines (buf @ l @ [newline]) = split_lines buf @
    [\<lparr>phys_number = 1 + length (split_lines buf), phys_offset = length buf, phys_bytes = l, has_newline = True\<rparr>]"
  using split_from_append [OF assms(1), of 1 0 "l @ [newline]"] split_from_line [OF assms(2), of _ _ "[]"]
  by (simp add: split_lines_def)

lemma chain_lt: "chain L ls n h \<Longrightarrow> n \<le> 2 ^ 64"
  by (erule chain.cases) auto

lemma check_row_parses: "check_row L line seq prev = Inr a \<Longrightarrow> parse_text L (phys_bytes line) \<noteq> None"
  by (auto dest: check_row_Inr)

subsection \<open>A concrete file, for the witnesses\<close>

definition obj_line :: "char \<Rightarrow> bytes" where
  "obj_line c = [CHR ''{'', CHR 0x22, CHR ''e'', CHR 0x22, CHR '':'', CHR ''{'', CHR 0x22] @ ''pulse'' @
     [CHR 0x22, CHR '':'', CHR 0x22, c, CHR 0x22, CHR ''}'', CHR ''}'']"

definition obj_value :: "char \<Rightarrow> json" where
  "obj_value c = JObj [(''e'', JObj [(''pulse'', JStr [c])])]"

definition demo_ts :: bytes where
  "demo_ts = ''2026-01-01T00:00:00.000Z''"

definition demo_row :: "char \<Rightarrow> row" where
  "demo_row c = (if c = CHR ''0''
     then \<lparr>row_v = 1, row_seq = 0, row_prev = GENESIS_PREV, row_ts = demo_ts, row_e = JNull\<rparr>
     else if c = CHR ''1''
     then \<lparr>row_v = 1, row_seq = 1, row_prev = hex (replicate 32 CHR 0x11), row_ts = demo_ts, row_e = JBool True\<rparr>
     else \<lparr>row_v = 1, row_seq = 2, row_prev = hex (replicate 32 CHR 0x22), row_ts = demo_ts, row_e = JBool False\<rparr>)"

definition demo_lib :: "(bool \<Rightarrow> receipt_event) \<Rightarrow> json_lib" where
  "demo_lib ev = \<lparr>
     parse = (\<lambda>s. if s = obj_line CHR ''0'' then Some (obj_value CHR ''0'')
                 else if s = obj_line CHR ''1'' then Some (obj_value CHR ''1'')
                 else if s = obj_line CHR ''2'' then Some (obj_value CHR ''2'') else None),
     print_str = (\<lambda>s. CHR 0x22 # s @ [CHR 0x22]),
     de_row = (\<lambda>v. if v = obj_value CHR ''0'' then Inr (demo_row CHR ''0'')
                 else if v = obj_value CHR ''1'' then Inr (demo_row CHR ''1'')
                 else if v = obj_value CHR ''2'' then Inr (demo_row CHR ''2'') else Inl ''bad''),
     ser_row = (\<lambda>r. if r = demo_row CHR ''0'' then Some (obj_value CHR ''0'')
                 else if r = demo_row CHR ''1'' then Some (obj_value CHR ''1'')
                 else if r = demo_row CHR ''2'' then Some (obj_value CHR ''2'') else None),
     de_event = (\<lambda>_ v. if v = JNull then Inr (Genesis ''0'') else Inr (ev (v = JBool True))),
     sha256 = (\<lambda>s. replicate 32 (if s = obj_line CHR ''0'' then CHR 0x11
                 else if s = obj_line CHR ''1'' then CHR 0x22 else CHR 0x33)),
     rfc3339 = (\<lambda>_. True)\<rparr>"

lemma obj_line_inj [simp]: "obj_line c = obj_line d \<longleftrightarrow> c = d" "obj_value c = obj_value d \<longleftrightarrow> c = d"
  by (simp_all add: obj_line_def obj_value_def)

lemma obj_line_length [simp]: "length (obj_line c) = 19"
  by (simp add: obj_line_def)

lemma obj_line_simps:
  "newline \<notin> set (obj_line CHR ''0'')" "newline \<notin> set (obj_line CHR ''1'')" "newline \<notin> set (obj_line CHR ''2'')"
  "valid_utf8 (obj_line CHR ''0'')" "valid_utf8 (obj_line CHR ''1'')" "valid_utf8 (obj_line CHR ''2'')"
  by (simp_all add: obj_line_def newline_def byte_def)

lemma demo_ts_ok: "ts_ok L demo_ts \<longleftrightarrow> rfc3339 L demo_ts"
  by (simp add: ts_ok_def demo_ts_def ascii_digits_at_def ascii_digit_def byte_def)

lemma hex_replicate:
  "hex (replicate n CHR 0x11) = replicate (2 * n) CHR ''1''"
  "hex (replicate n CHR 0x22) = replicate (2 * n) (CHR ''2'')"
  "hex (replicate n CHR 0x33) = replicate (2 * n) (CHR ''3'')"
  by (induction n) (simp_all add: hex_def hex_digit_def byte_def)

lemma demo_parse: "parse_text (demo_lib ev) (obj_line CHR ''0'') = Some (obj_value CHR ''0'')"
  "parse_text (demo_lib ev) (obj_line CHR ''1'') = Some (obj_value CHR ''1'')"
  "parse_text (demo_lib ev) (obj_line CHR ''2'') = Some (obj_value CHR ''2'')"
  by (simp_all add: parse_text_def obj_line_simps demo_lib_def)

lemma demo_canonical: "canonical (demo_lib ev) (obj_value c) = Inr (obj_line c)"
  by (simp add: canonical_def obj_value_def obj_line_def demo_lib_def)

lemma demo_stored: "stored_line_is_canonical (demo_lib ev) (obj_line CHR ''0'') = Inr ()"
  "stored_line_is_canonical (demo_lib ev) (obj_line CHR ''1'') = Inr ()"
  "stored_line_is_canonical (demo_lib ev) (obj_line CHR ''2'') = Inr ()"
proof -
  have "parse (demo_lib ev) (obj_line CHR ''0'') = Some (obj_value CHR ''0'')"
    "parse (demo_lib ev) (obj_line CHR ''1'') = Some (obj_value CHR ''1'')"
    "parse (demo_lib ev) (obj_line CHR ''2'') = Some (obj_value CHR ''2'')"
    using demo_parse [of ev] by (auto simp: parse_text_def split: if_splits)
  then show "stored_line_is_canonical (demo_lib ev) (obj_line CHR ''0'') = Inr ()"
    "stored_line_is_canonical (demo_lib ev) (obj_line CHR ''1'') = Inr ()"
    "stored_line_is_canonical (demo_lib ev) (obj_line CHR ''2'') = Inr ()"
    by (auto simp: stored_canonical_Inr demo_canonical is_float_def)
qed

lemma demo_clean: "\<not> has_sig (obj_value c)" "\<not> contains_float (obj_value c)"
  "(case obj_value c of JObj _ \<Rightarrow> True | _ \<Rightarrow> False) = True"
  by (simp_all add: obj_value_def)

lemma demo_de: "de_row (demo_lib ev) (obj_value CHR ''0'') = Inr (demo_row CHR ''0'')"
  "de_row (demo_lib ev) (obj_value CHR ''1'') = Inr (demo_row CHR ''1'')"
  "de_row (demo_lib ev) (obj_value CHR ''2'') = Inr (demo_row CHR ''2'')"
  "de_event (demo_lib ev) p JNull = Inr (Genesis ''0'')" "de_event (demo_lib ev) p (JBool b) = Inr (ev b)"
  by (simp_all add: demo_lib_def)

lemma demo_row_inj: "demo_row CHR ''0'' \<noteq> demo_row CHR ''1''" "demo_row CHR ''0'' \<noteq> demo_row CHR ''2''"
  "demo_row CHR ''1'' \<noteq> demo_row CHR ''2''"
  by (simp_all add: demo_row_def)

lemma demo_ser: "ser_row (demo_lib ev) (demo_row CHR ''0'') = Some (obj_value CHR ''0'')"
  "ser_row (demo_lib ev) (demo_row CHR ''1'') = Some (obj_value CHR ''1'')"
  "ser_row (demo_lib ev) (demo_row CHR ''2'') = Some (obj_value CHR ''2'')"
  using demo_row_inj by (simp_all add: demo_lib_def)

lemma demo_sha: "sha256 (demo_lib ev) (obj_line CHR ''0'') = replicate 32 CHR 0x11"
  "sha256 (demo_lib ev) (obj_line CHR ''1'') = replicate 32 CHR 0x22"
  "sha256 (demo_lib ev) (obj_line CHR ''2'') = replicate 32 CHR 0x33"
  by (simp_all add: demo_lib_def)

lemma demo_row_codec: "row_codec_ok (demo_lib ev)"
  using demo_ser [of ev] by (auto simp: row_codec_ok_def demo_lib_def split: if_splits)

lemma demo_hash: "row_hash (demo_lib ev) (demo_row CHR ''0'') = Inr (replicate 32 CHR 0x11)"
  "row_hash (demo_lib ev) (demo_row CHR ''1'') = Inr (replicate 32 CHR 0x22)"
  "row_hash (demo_lib ev) (demo_row CHR ''2'') = Inr (replicate 32 CHR 0x33)"
  using demo_sha [of ev] by (simp_all add: row_hash_def demo_ser demo_canonical is_float_def)

lemma demo_row_simps: "row_v (demo_row c) = 1" "row_ts (demo_row c) = demo_ts"
  "row_seq (demo_row CHR ''0'') = 0" "row_seq (demo_row CHR ''1'') = 1" "row_seq (demo_row CHR ''2'') = 2"
  "row_prev (demo_row CHR ''0'') = GENESIS_PREV" "row_prev (demo_row CHR ''1'') = hex (replicate 32 CHR 0x11)"
  "row_prev (demo_row CHR ''2'') = hex (replicate 32 CHR 0x22)"
  "row_e (demo_row CHR ''0'') = JNull" "row_e (demo_row CHR ''1'') = JBool True" "row_e (demo_row CHR ''2'') = JBool False"
  by (simp_all add: demo_row_def)

lemma demo_digests: "digest_ok GENESIS_PREV" "digest_ok (hex (replicate 32 CHR 0x11))"
  "digest_ok (hex (replicate 32 CHR 0x22))" "digest_ok (hex (replicate 32 CHR 0x33))"
  by (simp_all add: digest_ok_def GENESIS_PREV_def hex_replicate ascii_digit_def byte_def list_all_iff)

lemma demo_ts_rfc: "ts_ok (demo_lib ev) demo_ts"
  by (simp add: demo_ts_ok) (simp add: demo_lib_def)

lemmas demo_row_facts = demo_parse demo_stored demo_clean demo_de demo_hash demo_row_simps demo_digests
  demo_ts_rfc

lemma guard_True [simp]: "guard True e = Inr ()"
  by (simp add: guard_def)

lemma demo_check0:
  "check_row (demo_lib ev) \<lparr>phys_number = n, phys_offset = i, phys_bytes = obj_line CHR ''0'', has_newline = True\<rparr>
     0 GENESIS_PREV = Inr \<lparr>acc_seq = 0, acc_hash = hex (replicate 32 CHR 0x11), acc_ts = demo_ts, acc_event = Genesis ''0''\<rparr>"
  by (simp add: check_row_def demo_row_facts is_float_def is_genesis_def gap_ok_def)

lemma demo_check1:
  assumes "\<not> is_genesis (ev True)" "gap_ok (demo_lib ev) (ev True)" "digests_ok (ev True)"
  shows "check_row (demo_lib ev) \<lparr>phys_number = n, phys_offset = i, phys_bytes = obj_line CHR ''1'', has_newline = True\<rparr>
     1 (hex (replicate 32 CHR 0x11)) = Inr \<lparr>acc_seq = 1, acc_hash = hex (replicate 32 CHR 0x22),
       acc_ts = demo_ts, acc_event = ev True\<rparr>"
  using assms by (simp add: check_row_def demo_row_facts is_float_def)

lemma demo_check2:
  assumes "\<not> is_genesis (ev False)" "gap_ok (demo_lib ev) (ev False)" "digests_ok (ev False)"
  shows "check_row (demo_lib ev) \<lparr>phys_number = n, phys_offset = i, phys_bytes = obj_line CHR ''2'', has_newline = True\<rparr>
     2 (hex (replicate 32 CHR 0x22)) = Inr \<lparr>acc_seq = 2, acc_hash = hex (replicate 32 CHR 0x33),
       acc_ts = demo_ts, acc_event = ev False\<rparr>"
  using assms by (simp add: check_row_def demo_row_facts is_float_def)

lemma demo_split0: "split_lines (obj_line CHR ''0'' @ [newline]) =
  [\<lparr>phys_number = 1, phys_offset = 0, phys_bytes = obj_line CHR ''0'', has_newline = True\<rparr>]"
  using split_lines_append [of "[]" "obj_line CHR ''0''"] obj_line_simps(1)
  by (simp add: terminated_bytes_def) (simp add: split_lines_def)

lemma demo_chain0: "chain (demo_lib ev) (split_lines (obj_line CHR ''0'' @ [newline])) 1 (hex (replicate 32 CHR 0x11))"
proof -
  have "chain (demo_lib ev) ([] @ [\<lparr>phys_number = 1, phys_offset = 0, phys_bytes = obj_line CHR ''0'', has_newline = True\<rparr>])
    (Suc 0) (acc_hash \<lparr>acc_seq = 0, acc_hash = hex (replicate 32 CHR 0x11), acc_ts = demo_ts, acc_event = Genesis ''0''\<rparr>)"
    using demo_check0 demo_parse
    by (intro chain_row [OF chain_nil])
      (simp_all add: torn_payload_def is_recover_def MAX_LINE_BYTES_def)
  then show ?thesis by (simp add: demo_split0)
qed

lemma accepted_line_extends':
  assumes "row_codec_ok L" and c: "chain L (split_lines buf) n h" and "n < 2 ^ 64"
    and "newline \<notin> set l" and "length l \<le> MAX_LINE_BYTES"
    and "check_row L \<lparr>phys_number = 1, phys_offset = 0, phys_bytes = l, has_newline = True\<rparr> (of_nat n) h = Inr a"
    and "\<not> is_recover (acc_event a)"
  shows "chain L (split_lines (buf @ l @ [newline])) (Suc n) (sha256_hex L l)"
proof -
  let ?line = "\<lparr>phys_number = 1 + length (split_lines buf), phys_offset = length buf, phys_bytes = l, has_newline = True\<rparr>"
  have ck: "check_row L ?line (of_nat n) h = Inr a"
    using assms(6) check_row_bytes [of ?line "\<lparr>phys_number = 1, phys_offset = 0, phys_bytes = l, has_newline = True\<rparr>"]
    by simp
  have "\<not> torn_payload L ?line" using check_row_parses [OF ck] by (simp add: torn_payload_def)
  from chain_row [OF c assms(3) _ this ck assms(7)] assms(5)
  have "chain L (split_lines buf @ [?line]) (Suc n) (acc_hash a)" by simp
  then show ?thesis
    using split_lines_append [OF chain_terminated [OF c] assms(4)] check_row_hash(1) [OF assms(1) ck] by simp
qed

subsection \<open>Properties\<close>

text \<open>
  C9: the head binds the file. Two files that pass with the same number of rows and the same
  head are the same bytes, torn lines included, or two of their lines are a collision of
  SHA-256: no row can be edited, dropped, reordered or inserted under an anchored head.
\<close>

theorem head_binds_file:
  assumes "row_codec_ok L"
    and "first_break (verify_lines L (Some buf)) = None" and "first_break (verify_lines L (Some buf')) = None"
    and "rows (verify_lines L (Some buf)) = rows (verify_lines L (Some buf'))"
    and "head (verify_lines L (Some buf)) = head (verify_lines L (Some buf'))"
  shows "buf = buf' \<or> sha_collision L (split_lines buf) (split_lines buf')"
proof -
  let ?n = "rows (verify_lines L (Some buf))" and ?h = "head (verify_lines L (Some buf))"
  have c: "chain L (split_lines buf) ?n ?h" "chain L (split_lines buf') ?n ?h"
    using assms(2-5) unbroken_iff [of L buf False] unbroken_iff [of L buf' False]
    by (auto simp: verify_lines_def)
  from chain_same [OF assms(1) c] chain_buf [OF c(1)] chain_buf [OF c(2)] show ?thesis by metis
qed

theorem head_binds_file_witness:
  "obj_line CHR ''0'' @ [newline] = obj_line CHR ''0'' @ [newline] \<or>
   sha_collision (demo_lib (\<lambda>_. ShutdownEv ''stop'')) (split_lines (obj_line CHR ''0'' @ [newline])) (split_lines (obj_line CHR ''0'' @ [newline]))"
proof -
  have "first_break (verify_lines (demo_lib (\<lambda>_. ShutdownEv ''stop'')) (Some (obj_line CHR ''0'' @ [newline]))) = None"
    using demo_chain0 unbroken_iff [of "demo_lib (\<lambda>_. ShutdownEv ''stop'')" "obj_line CHR ''0'' @ [newline]" False]
    by (simp only: verify_lines_def option.case) blast
  from head_binds_file [OF demo_row_codec this this refl refl] show ?thesis .
qed

text \<open>
  A file grows by one accepted row. Appending to a file that passes a line that is the next
  canonical row (and no \<open>recover\<close>) gives a file that passes, with one row more and the digest
  of the line as its head.
\<close>

theorem accepted_line_extends:
  assumes "row_codec_ok L" and "first_break (verify_lines L (Some buf)) = None"
    and "rows (verify_lines L (Some buf)) = n" and "head (verify_lines L (Some buf)) = h" and "n < 2 ^ 64"
    and "newline \<notin> set l" and "length l \<le> MAX_LINE_BYTES"
    and "check_row L \<lparr>phys_number = 1, phys_offset = 0, phys_bytes = l, has_newline = True\<rparr> (of_nat n) h = Inr a"
    and "\<not> is_recover (acc_event a)"
  shows "first_break (verify_lines L (Some (buf @ l @ [newline]))) = None \<and>
    rows (verify_lines L (Some (buf @ l @ [newline]))) = Suc n \<and>
    head (verify_lines L (Some (buf @ l @ [newline]))) = sha256_hex L l"
proof -
  have c: "chain L (split_lines buf) n h"
    using assms(2-4) unbroken_iff [of L buf False] by (auto simp: verify_lines_def)
  from accepted_line_extends' [OF assms(1) c assms(5-9)] unbroken_iff [of L "buf @ l @ [newline]" False]
  show ?thesis by (auto simp: verify_lines_def)
qed

theorem accepted_line_extends_witness:
  "rows (verify_lines (demo_lib (\<lambda>_. ShutdownEv ''stop'')) (Some ((obj_line CHR ''0'' @ [newline]) @ obj_line CHR ''1'' @ [newline]))) = 2"
proof -
  let ?a = "\<lparr>acc_seq = 1, acc_hash = hex (replicate 32 CHR 0x22), acc_ts = demo_ts, acc_event = ShutdownEv ''stop''\<rparr>"
  from demo_chain0 unbroken_iff [of "demo_lib (\<lambda>_. ShutdownEv ''stop'')" "obj_line CHR ''0'' @ [newline]" False]
  have v: "first_break (verify_lines (demo_lib (\<lambda>_. ShutdownEv ''stop'')) (Some (obj_line CHR ''0'' @ [newline]))) = None"
    "rows (verify_lines (demo_lib (\<lambda>_. ShutdownEv ''stop'')) (Some (obj_line CHR ''0'' @ [newline]))) = 1"
    "head (verify_lines (demo_lib (\<lambda>_. ShutdownEv ''stop'')) (Some (obj_line CHR ''0'' @ [newline]))) = hex (replicate 32 CHR 0x11)"
    by (simp_all only: verify_lines_def option.case) blast+
  have "check_row (demo_lib (\<lambda>_. ShutdownEv ''stop'')) \<lparr>phys_number = 1, phys_offset = 0, phys_bytes = obj_line CHR ''1'', has_newline = True\<rparr>
      (of_nat 1) (hex (replicate 32 CHR 0x11)) = Inr ?a"
    using demo_check1 [of "\<lambda>_. ShutdownEv ''stop''" 1 0] by (simp add: is_genesis_def gap_ok_def)
  from accepted_line_extends [OF demo_row_codec v _ obj_line_simps(2) _ this] show ?thesis
    by (simp add: is_recover_def MAX_LINE_BYTES_def obj_line_def)
qed

text \<open>
  The index of a file. With rows kept, the accepted rows carry the sequence numbers
  \<open>0, 1, ..\<close> in order, one per counted row, and the last one's digest is the head.
\<close>

theorem index_is_contiguous:
  assumes "first_break (report (index_bytes L buf)) = None"
  shows "map ix_seq (kept_rows (index_bytes L buf)) = map of_nat [0..<rows (report (index_bytes L buf))] \<and>
    (kept_rows (index_bytes L buf) \<noteq> [] \<longrightarrow>
       ix_hash (last (kept_rows (index_bytes L buf))) = head (report (index_bytes L buf)))"
proof -
  let ?n = "rows (report (index_bytes L buf))" and ?h = "head (report (index_bytes L buf))"
  have "chain L (split_lines buf) ?n ?h"
    using assms unbroken_iff [of L buf True ?n ?h] by (simp add: index_bytes_def)
  from chain_walk [OF this, of True] obtain st where st: "tracks ?n ?h st" "kept_ok st"
    "walk_loop L True (split_lines buf @ []) walk_start = walk_loop L True [] st" by blast
  then have "kept_rows (index_bytes L buf) = kept_rows (wk_kept st)"
    by (simp add: index_bytes_def walk_def Let_def)
  with st(1,2) show ?thesis by (simp add: kept_ok_def tracks_def)
qed

theorem index_is_contiguous_witness:
  "map ix_seq (kept_rows (index_bytes (demo_lib (\<lambda>_. ShutdownEv ''stop'')) (obj_line CHR ''0'' @ [newline]))) =
     map of_nat [0..<rows (report (index_bytes (demo_lib (\<lambda>_. ShutdownEv ''stop'')) (obj_line CHR ''0'' @ [newline])))]"
  using demo_chain0 unbroken_iff [of "demo_lib (\<lambda>_. ShutdownEv ''stop'')" "obj_line CHR ''0'' @ [newline]" True]
  by (intro conjunct1 [OF index_is_contiguous]) (unfold index_bytes_def, blast)

lemma all_ok_float:
  "(\<And>r. r \<in> set rs \<Longrightarrow> r = Inl Float \<or> is_ok r) \<Longrightarrow>
     all_ok rs = (if Inl Float \<in> set rs then Inl Float else Inr (map projr rs))"
proof (induction rs)
  case (Cons r rs)
  then have "all_ok rs = (if Inl Float \<in> set rs then Inl Float else Inr (map projr rs))" by simp
  with Cons.prems [of r] show ?case by (auto simp: is_ok_iff)
qed simp

lemma write_sorted_float:
  "write_sorted L v = Inl Float \<and> contains_float v \<or> is_ok (write_sorted L v) \<and> \<not> contains_float v"
proof (induction L v rule: write_sorted.induct)
  case (1 L kvs)
  let ?rs = "map (\<lambda>(k, r). rbind r (\<lambda>s. Inr (print_str L k @ CHR '':'' # s)))
    (sort_key fst (map (\<lambda>kv. (fst kv, write_sorted L (snd kv))) kvs))"
  have mem: "r \<in> set ?rs \<longleftrightarrow> (\<exists>kv \<in> set kvs. r = rbind (write_sorted L (snd kv))
      (\<lambda>s. Inr (print_str L (fst kv) @ CHR '':'' # s)))" for r
    by (auto simp: image_iff)
  have "\<forall>kv \<in> set kvs. write_sorted L (snd kv) = Inl Float \<and> contains_float (snd kv) \<or>
      is_ok (write_sorted L (snd kv)) \<and> \<not> contains_float (snd kv)" using 1 by blast
  then have ok: "\<forall>r. r \<in> set ?rs \<longrightarrow> r = Inl Float \<or> is_ok r"
    and f: "Inl Float \<in> set ?rs \<longleftrightarrow> list_ex (\<lambda>kv. contains_float (snd kv)) kvs"
    unfolding mem list_ex_iff by (auto simp: is_ok_iff) force+
  have "all_ok ?rs = (if Inl Float \<in> set ?rs then Inl Float else Inr (map projr ?rs))"
    by (rule all_ok_float) (use ok in blast)
  with f show ?case by simp
next
  case (2 L vs)
  then have "\<forall>v \<in> set vs. write_sorted L v = Inl Float \<and> contains_float v \<or>
      is_ok (write_sorted L v) \<and> \<not> contains_float v" by blast
  then have ok: "\<forall>r. r \<in> set (map (write_sorted L) vs) \<longrightarrow> r = Inl Float \<or> is_ok r"
    and f: "Inl Float \<in> set (map (write_sorted L) vs) \<longleftrightarrow> list_ex contains_float vs"
    unfolding list_ex_iff by (auto simp: is_ok_iff) force+
  have "all_ok (map (write_sorted L) vs) = (if Inl Float \<in> set (map (write_sorted L) vs) then Inl Float
      else Inr (map projr (map (write_sorted L) vs)))"
    by (rule all_ok_float) (use ok in blast)
  with f show ?case by simp
qed simp_all

text \<open>
  Canonical text exists exactly for the values without a float at any depth, the only error
  is the float error, and the text of an object does not depend on the order its keys are in.
\<close>

theorem canonical_text:
  assumes "distinct (map fst kvs)" and "mset kvs = mset kvs'"
  shows "(canonical L v = Inl Float \<longleftrightarrow> contains_float v) \<and> (is_ok (canonical L v) \<longleftrightarrow> \<not> contains_float v) \<and>
    canonical L (JObj kvs) = canonical L (JObj kvs')"
proof -
  let ?f = "\<lambda>kv :: bytes \<times> json. (fst kv, write_sorted L (snd kv))"
  have inj: "inj_on fst (set (map ?f kvs))"
    using assms(1) by (auto simp: distinct_map inj_on_def)
  have "mset (map ?f kvs) = mset (map ?f kvs')" using assms(2) by simp
  then have "sort_key fst (map ?f kvs) = sort_key fst (map ?f kvs')"
    using inj by (intro sort_key_inj_key_eq) simp_all
  then have "canonical L (JObj kvs) = canonical L (JObj kvs')" by (simp add: canonical_def)
  moreover have "(canonical L v = Inl Float \<longleftrightarrow> contains_float v) \<and> (is_ok (canonical L v) \<longleftrightarrow> \<not> contains_float v)"
    using write_sorted_float [of L v] by (auto simp: canonical_def)
  ultimately show ?thesis by blast
qed

theorem canonical_text_witness:
  "canonical (demo_lib (\<lambda>_. ShutdownEv ''stop'')) (JObj [(''b'', JNull), (''a'', JNum ''1'')]) =
   canonical (demo_lib (\<lambda>_. ShutdownEv ''stop'')) (JObj [(''a'', JNum ''1''), (''b'', JNull)])"
  using canonical_text [of "[(''b'', JNull), (''a'', JNum ''1'')]" "[(''a'', JNum ''1''), (''b'', JNull)]" "demo_lib (\<lambda>_. ShutdownEv ''stop'')" JNull]
  by simp

end
