(* ===== verification/ReceiptFormat.thy ===== *)
theory ReceiptFormat
  imports Chain
begin

text \<open>
  What a receipt file is, stated on its bytes and apart from the code that checks it: the
  canonical text of a JSON value as an inductive relation, the row a line holds, and a file as the
  empty one, a file with one more row, or a file with a torn line and the row that recovers it.
  None of these definitions uses the checks of \<open>Chain\<close>. The theorem of this theory is that
  \<open>verify_lines\<close> of \<open>src/oneself/chain.rs\<close> accepts these files and no others.
\<close>

subsection \<open>Canonical text\<close>

text \<open>
  Keys in order, no spaces, numbers as they are printed and no float among them. An object's
  entries are its own, sorted by their keys; entries with one key stay in the order they came in.
\<close>

inductive canonical_text_of :: "json_lib \<Rightarrow> json \<Rightarrow> bytes \<Rightarrow> bool" for L where
  text_null: "canonical_text_of L JNull ''null''"
| text_true: "canonical_text_of L (JBool True) ''true''"
| text_false: "canonical_text_of L (JBool False) ''false''"
| text_number: "set n \<inter> set ''.eE'' = {} \<Longrightarrow> canonical_text_of L (JNum n) n"
| text_string: "canonical_text_of L (JStr s) (print_str L s)"
| text_array: "length ts = length vs \<Longrightarrow> (\<And>i. i < length vs \<Longrightarrow> canonical_text_of L (vs ! i) (ts ! i)) \<Longrightarrow>
     canonical_text_of L (JArr vs) (''['' @ commas ts @ '']'')"
| text_object: "length ts = length kvs \<Longrightarrow>
     (\<And>i. i < length kvs \<Longrightarrow> canonical_text_of L (snd (sort_key fst kvs ! i)) (ts ! i)) \<Longrightarrow>
     canonical_text_of L (JObj kvs)
       (''{'' @ commas (map2 (\<lambda>kv t. print_str L (fst kv) @ '':'' @ t) (sort_key fst kvs) ts) @ ''}'')"

inductive part_of :: "json \<Rightarrow> json \<Rightarrow> bool" where
  part_self: "part_of v v"
| part_array: "v \<in> set vs \<Longrightarrow> part_of u v \<Longrightarrow> part_of u (JArr vs)"
| part_object: "(k, v) \<in> set kvs \<Longrightarrow> part_of u v \<Longrightarrow> part_of u (JObj kvs)"

subsection \<open>Stamps, digests, principals\<close>

definition hex64 :: "bytes \<Rightarrow> bool" where
  "hex64 d \<longleftrightarrow> length d = 64 \<and> set d \<subseteq> set ''0123456789abcdef''"

definition utc_millis :: "json_lib \<Rightarrow> bytes \<Rightarrow> bool" where
  "utc_millis L ts \<longleftrightarrow>
     list_all2 (\<lambda>p c. if p = CHR ''0'' then c \<in> set ''0123456789'' else c = p) ''0000-00-00T00:00:00.000Z'' ts \<and>
     rfc3339 L ts"

definition principal_name :: "bytes \<Rightarrow> bool" where
  "principal_name val \<longleftrightarrow>
     val = ''owner'' \<or> val = ''guest'' \<or> val = ''task'' \<or> val = ''intent'' \<or> val = ''farm'' \<or> val = ''comms'' \<or>
     (\<exists>name. (val = ''peer:'' @ name \<or> val = ''plugin:'' @ name) \<and> name \<noteq> [] \<and>
        set name \<subseteq> {c. ascii_alphanumeric c} \<union> set ''-_'')"

text \<open>The digests an event carries.\<close>

fun event_digests :: "receipt_event \<Rightarrow> bytes set" where
  "event_digests (Boot b) = (case boot_identity b of i \<Rightarrow>
     set_option (self_md i) \<union> set_option (rules i) \<union> set_option (config i))"
| "event_digests (OpenEv oi) = set_option (principal_sha256 oi)"
| "event_digests (CloseEv ci) = set_option (input_sha256 ci) \<union> set_option (output_sha256 ci)"
| "event_digests (Recover off len torn) = {torn}"
| "event_digests e = {}"

subsection \<open>Rows and files\<close>

text \<open>
  \<open>receipt_row L l n h e\<close>: the line \<open>l\<close> is the row with number \<open>n\<close> and event \<open>e\<close>, after a row whose
  digest is \<open>h\<close>.
\<close>

definition receipt_row :: "json_lib \<Rightarrow> bytes \<Rightarrow> nat \<Rightarrow> bytes \<Rightarrow> receipt_event \<Rightarrow> bool" where
  "receipt_row L l n h e \<longleftrightarrow> (\<exists>kvs r.
     valid_utf8 l \<and> parse L l = Some (JObj kvs) \<and> canonical_text_of L (JObj kvs) l \<and>
     (\<forall>sub. part_of (JObj sub) (JObj kvs) \<longrightarrow> ''sig'' \<notin> fst ` set sub) \<and>
     de_row L (JObj kvs) = Inr r \<and> row_v r = 1 \<and> unat (row_seq r) = n \<and> row_prev r = h \<and> hex64 h \<and>
     utc_millis L (row_ts r) \<and> de_event L principal_name (row_e r) = Inr e \<and>
     ((\<exists>p. e = Genesis p) \<longleftrightarrow> n = 0) \<and>
     (\<forall>lost since til. e = Gap lost since til \<longrightarrow> utc_millis L since \<and> utc_millis L til \<and> since \<le> til) \<and>
     (\<forall>d \<in> event_digests e. hex64 d))"

text \<open>
  \<open>receipt_file L buf n h\<close>: the bytes \<open>buf\<close> are a file of \<open>n\<close> rows, the last of which has the
  digest \<open>h\<close>.
\<close>

inductive receipt_file :: "json_lib \<Rightarrow> bytes \<Rightarrow> nat \<Rightarrow> bytes \<Rightarrow> bool" for L where
  empty_file: "receipt_file L [] 0 (replicate 64 CHR ''0'')"
| next_row: "receipt_file L buf n h \<Longrightarrow> newline \<notin> set l \<Longrightarrow> length l \<le> 65536 \<Longrightarrow>
     receipt_row L l n h e \<Longrightarrow> (\<And>off len torn. e \<noteq> Recover off len torn) \<Longrightarrow>
     receipt_file L (buf @ l @ [newline]) (Suc n) (sha256_hex L l)"
| recovered_row: "receipt_file L buf n h \<Longrightarrow> newline \<notin> set t \<Longrightarrow> length t \<le> 65536 \<Longrightarrow>
     \<not> (valid_utf8 t \<and> parse L t \<noteq> None) \<Longrightarrow> newline \<notin> set l \<Longrightarrow> length l \<le> 65536 \<Longrightarrow>
     receipt_row L l n h (Recover off len (sha256_hex L t)) \<Longrightarrow>
     unat off = length buf \<Longrightarrow> unat len = length t \<Longrightarrow>
     receipt_file L (buf @ t @ [newline] @ l @ [newline]) (Suc n) (sha256_hex L l)"

subsection \<open>The code's canonical text is the canonical text\<close>

lemma all_ok_Inr: "all_ok rs = Inr xs \<longleftrightarrow> rs = map Inr xs"
  by (induction rs arbitrary: xs) (auto simp: rbind_eq_Inr)

lemma map_Inr_nth: "map f vs = map Inr ts \<longleftrightarrow> length ts = length vs \<and> (\<forall>i < length vs. f (vs ! i) = Inr (ts ! i))"
  by (auto simp: list_eq_iff_nth_eq)

lemma insort_key_map: "(\<And>x. fst (g x) = fst x) \<Longrightarrow> insort_key fst (g x) (map g xs) = map g (insort_key fst x xs)"
  by (induction xs) auto

lemma sort_key_map: "(\<And>x. fst (g x) = fst x) \<Longrightarrow> sort_key fst (map g xs) = map g (sort_key fst xs)"
  by (induction xs) (auto simp: insort_key_map)

lemma is_float_chars: "is_float n \<longleftrightarrow> set n \<inter> set ''.eE'' \<noteq> {}"
  by (auto simp: is_float_def)

lemma write_object:
  "write_sorted L (JObj kvs) = Inr s \<longleftrightarrow> (\<exists>ts. length ts = length kvs \<and>
     (\<forall>i < length kvs. write_sorted L (snd (sort_key fst kvs ! i)) = Inr (ts ! i)) \<and>
     s = ''{'' @ commas (map2 (\<lambda>kv t. print_str L (fst kv) @ '':'' @ t) (sort_key fst kvs) ts) @ ''}'')"
  (is "_ = (\<exists>ts. ?P ts)")
proof -
  let ?es = "sort_key fst kvs"
  let ?f = "\<lambda>kv. rbind (write_sorted L (snd kv)) (\<lambda>s. Inr (print_str L (fst kv) @ CHR '':'' # s))"
  have e: "map (\<lambda>(k, r). rbind r (\<lambda>s. Inr (print_str L k @ CHR '':'' # s)))
      (sort_key fst (map (\<lambda>kv. (fst kv, write_sorted L (snd kv))) kvs)) = map ?f ?es"
    by (subst sort_key_map) simp_all
  have "write_sorted L (JObj kvs) = Inr s \<longleftrightarrow> (\<exists>fs. length fs = length ?es \<and>
      (\<forall>i < length ?es. ?f (?es ! i) = Inr (fs ! i)) \<and> s = ''{'' @ commas fs @ ''}'')"
    by (simp only: write_sorted.simps e rbind_eq_Inr all_ok_Inr map_Inr_nth) auto
  also have "\<dots> \<longleftrightarrow> (\<exists>ts. ?P ts)"
  proof
    assume "\<exists>fs. length fs = length ?es \<and> (\<forall>i < length ?es. ?f (?es ! i) = Inr (fs ! i)) \<and>
      s = ''{'' @ commas fs @ ''}''"
    then obtain fs where fs: "length fs = length ?es" "\<forall>i < length ?es. ?f (?es ! i) = Inr (fs ! i)"
      "s = ''{'' @ commas fs @ ''}''" by blast
    let ?ts = "map (\<lambda>kv. projr (write_sorted L (snd kv))) ?es"
    have w: "write_sorted L (snd (?es ! i)) = Inr (?ts ! i)"
      "fs ! i = print_str L (fst (?es ! i)) @ '':'' @ ?ts ! i" if "i < length ?es" for i
      using fs(2) that by (auto simp: rbind_eq_Inr)
    have "fs = map2 (\<lambda>kv t. print_str L (fst kv) @ '':'' @ t) ?es ?ts"
      using fs(1) w(2) by (intro nth_equalityI) simp_all
    with fs(3) w(1) have "?P ?ts" by simp
    then show "\<exists>ts. ?P ts" by (rule exI [where P = ?P])
  next
    assume "\<exists>ts. ?P ts"
    then obtain ts where "?P ts" ..
    then show "\<exists>fs. length fs = length ?es \<and> (\<forall>i < length ?es. ?f (?es ! i) = Inr (fs ! i)) \<and>
      s = ''{'' @ commas fs @ ''}''"
      by (intro exI [of _ "map2 (\<lambda>kv t. print_str L (fst kv) @ '':'' @ t) ?es ts"]) simp
  qed
  finally show ?thesis .
qed

lemma write_array:
  "write_sorted L (JArr vs) = Inr s \<longleftrightarrow> (\<exists>ts. length ts = length vs \<and>
     (\<forall>i < length vs. write_sorted L (vs ! i) = Inr (ts ! i)) \<and> s = ''['' @ commas ts @ '']'')"
  by (auto simp: rbind_eq_Inr all_ok_Inr map_Inr_nth)

inductive_cases text_arrayE: "canonical_text_of L (JArr vs) s"
inductive_cases text_objectE: "canonical_text_of L (JObj kvs) s"
inductive_simps text_null_iff: "canonical_text_of L JNull s"
inductive_simps text_bool_iff: "canonical_text_of L (JBool b) s"
inductive_simps text_number_iff: "canonical_text_of L (JNum m) s"
inductive_simps text_string_iff: "canonical_text_of L (JStr t) s"

lemma write_sorted_text: "write_sorted L v = Inr s \<longleftrightarrow> canonical_text_of L v s"
proof (induction L v arbitrary: s rule: write_sorted.induct)
  case (1 L kvs)
  have "write_sorted L (snd (sort_key fst kvs ! i)) = Inr t \<longleftrightarrow> canonical_text_of L (snd (sort_key fst kvs ! i)) t"
    if "i < length kvs" for i t
    using 1 that by (metis length_sort nth_mem set_sort)
  then show ?case unfolding write_object using text_object [of _ kvs L] by (auto elim!: text_objectE)
next
  case (2 L vs)
  then have "write_sorted L (vs ! i) = Inr t \<longleftrightarrow> canonical_text_of L (vs ! i) t" if "i < length vs" for i t
    using that by simp
  then show ?case unfolding write_array using text_array [of _ vs L] by (auto elim!: text_arrayE)
qed (auto simp: text_null_iff text_bool_iff text_number_iff text_string_iff is_float_chars)

lemma canonical_is_text: "canonical L v = Inr s \<longleftrightarrow> canonical_text_of L v s"
  by (simp add: canonical_def write_sorted_text)

subsection \<open>The code's checks are the format\<close>

lemma part_of_array_iff: "part_of (JObj sub) (JArr vs) \<longleftrightarrow> (\<exists>v \<in> set vs. part_of (JObj sub) v)"
  by (auto intro: part_array elim: part_of.cases)

lemma part_of_object_iff: "part_of (JObj sub) (JObj kvs) \<longleftrightarrow> sub = kvs \<or> (\<exists>kv \<in> set kvs. part_of (JObj sub) (snd kv))"
  by (force intro: part_self part_object elim: part_of.cases)

lemma has_sig_part: "has_sig v \<longleftrightarrow> (\<exists>sub. part_of (JObj sub) v \<and> ''sig'' \<in> fst ` set sub)"
proof (induction v rule: has_sig.induct)
  case (1 kvs)
  then show ?case unfolding has_sig.simps part_of_object_iff list_ex_iff by blast
next
  case (2 vs)
  then show ?case unfolding has_sig.simps part_of_array_iff list_ex_iff by blast
qed (auto elim: part_of.cases)

lemma char_of_byte: "c = char_of (byte c)"
  by (simp add: byte_def)

lemma ascii_digit_chars: "ascii_digit c \<longleftrightarrow> c \<in> set ''0123456789''"
proof
  assume "ascii_digit c"
  then have "byte c = 48 \<or> byte c = 49 \<or> byte c = 50 \<or> byte c = 51 \<or> byte c = 52 \<or> byte c = 53 \<or>
      byte c = 54 \<or> byte c = 55 \<or> byte c = 56 \<or> byte c = 57" unfolding ascii_digit_def by presburger
  moreover have "c = char_of (byte c)" by (rule char_of_byte)
  ultimately show "c \<in> set ''0123456789''" by (elim disjE) (simp_all add: char_of_def bit_0)
qed (auto simp: ascii_digit_def byte_def)

lemma hex_letter_chars: "CHR ''a'' \<le> c \<and> c \<le> CHR ''f'' \<longleftrightarrow> c \<in> set ''abcdef''"
proof
  assume "CHR ''a'' \<le> c \<and> c \<le> CHR ''f''"
  then have "97 \<le> byte c \<and> byte c \<le> 102" by (simp add: less_eq_char_def byte_def)
  then have "byte c = 97 \<or> byte c = 98 \<or> byte c = 99 \<or> byte c = 100 \<or> byte c = 101 \<or> byte c = 102"
    by presburger
  moreover have "c = char_of (byte c)" by (rule char_of_byte)
  ultimately show "c \<in> set ''abcdef''" by (elim disjE) (simp_all add: char_of_def bit_0)
qed (auto simp: less_eq_char_def)

lemma hex_chars: "set ''0123456789abcdef'' = set ''0123456789'' \<union> set ''abcdef''"
  by auto

lemma digest_ok_hex64: "digest_ok d \<longleftrightarrow> hex64 d"
  by (simp only: digest_ok_def hex64_def list_all_iff ascii_digit_chars hex_letter_chars hex_chars subset_iff Un_iff Ball_def)

lemma ts_ok_utc: "ts_ok L ts \<longleftrightarrow> utc_millis L ts"
proof (cases "length ts = 24")
  case True
  let ?d = "\<lambda>c. c \<in> set ''0123456789''"
  have l: "(\<forall>i < 24. P i) \<longleftrightarrow> (\<forall>i \<in> {0, 1, 2, 3, 4, 5, 6, 7, 8, 9, 10, 11, 12, 13, 14, 15, 16, 17, 18, 19, 20, 21, 22, 23}. P i)"
    for P :: "nat \<Rightarrow> bool" by (simp add: numeral_eq_Suc All_less_Suc) blast
  have "list_all2 (\<lambda>p c. if p = CHR ''0'' then ?d c else c = p) ''0000-00-00T00:00:00.000Z'' ts \<longleftrightarrow>
      ts ! 4 = CHR ''-'' \<and> ts ! 7 = CHR ''-'' \<and> ts ! 10 = CHR ''T'' \<and> ts ! 13 = CHR '':'' \<and>
      ts ! 16 = CHR '':'' \<and> ts ! 19 = CHR ''.'' \<and> ts ! 23 = CHR ''Z'' \<and>
      list_all (\<lambda>i. ?d (ts ! i)) [0, 1, 2, 3, 5, 6, 8, 9, 11, 12, 14, 15, 17, 18, 20, 21, 22]"
  proof -
    have n: "length ''0000-00-00T00:00:00.000Z'' = 24" by simp
    show ?thesis unfolding list_all2_conv_all_nth n True l by (simp del: list.set) blast
  qed
  with True show ?thesis by (simp only: ts_ok_def utc_millis_def ascii_digits_at_def ascii_digit_chars) simp
next
  case False
  then show ?thesis by (auto simp: ts_ok_def utc_millis_def dest: list_all2_lengthD)
qed

lemma named_iff:
  "named val pre \<longleftrightarrow> (\<exists>name. val = pre @ name \<and> name \<noteq> [] \<and> set name \<subseteq> {c. ascii_alphanumeric c} \<union> set ''-_'')"
proof
  assume n: "named val pre"
  then obtain name where name: "strip_prefix pre val = Some name" "name \<noteq> []"
    "list_all (\<lambda>c. ascii_alphanumeric c \<or> c = CHR ''-'' \<or> c = CHR ''_'') name"
    by (auto simp: named_def split: option.splits)
  then have "val = pre @ name" by (auto simp: strip_prefix_def split: if_splits) (metis append_take_drop_id)
  moreover have "set name \<subseteq> {c. ascii_alphanumeric c} \<union> set ''-_''" using name(3) by (auto simp: list_all_iff)
  ultimately show "\<exists>name. val = pre @ name \<and> name \<noteq> [] \<and> set name \<subseteq> {c. ascii_alphanumeric c} \<union> set ''-_''"
    using name(2) by blast
qed (auto simp: named_def list_all_iff)

lemma named_either:
  "(\<exists>name. (val = p @ name \<or> val = q @ name) \<and> name \<noteq> [] \<and> set name \<subseteq> {c. ascii_alphanumeric c} \<union> set ''-_'') \<longleftrightarrow>
     named val p \<or> named val q"
  unfolding named_iff by blast

lemma is_principal_name: "is_principal = principal_name"
proof
  show "is_principal val = principal_name val" for val
    unfolding is_principal_def principal_name_def named_either insert_iff empty_iff
    by (simp only: simp_thms disj_assoc)
qed

lemma digests_ok_hex64: "digests_ok e \<longleftrightarrow> (\<forall>d \<in> event_digests e. hex64 d)"
  by (cases e) (auto simp: opt_digest_def digest_ok_hex64 split: option.splits)


lemma check_row_format:
  assumes "row_codec_ok L" and "n < 2 ^ 64"
  shows "(\<exists>a. check_row L line (of_nat n) h = Inr a \<and> acc_event a = e) \<longleftrightarrow> receipt_row L (phys_bytes line) n h e"
proof -
  let ?l = "phys_bytes line"
  have q: "unat w = n \<longleftrightarrow> w = of_nat n" for w :: u64
    using assms(2) by (auto simp: unat_of_nat)
  have z: "(of_nat n :: u64) = 0 \<longleftrightarrow> n = 0" using q [of 0] by auto
  note spec = receipt_row_def q canonical_is_text [symmetric] digest_ok_hex64 [symmetric]
    ts_ok_utc [symmetric] is_principal_name [symmetric] digests_ok_hex64 [symmetric]
  have sig: "\<not> has_sig v \<longleftrightarrow> (\<forall>sub. part_of (JObj sub) v \<longrightarrow> ''sig'' \<notin> fst ` set sub)" for v
    using has_sig_part by blast
  have float: "canonical L v = Inr s \<Longrightarrow> \<not> contains_float v" for v s
    using write_sorted_float [of L v] by (auto simp: canonical_def)
  have hash: "\<exists>b. row_hash L r = Inr b" if "de_row L v = Inr r" "canonical L v = Inr s" for v r s
    using that assms(1) unfolding row_codec_ok_def row_hash_def by fastforce
  have gap: "gap_ok L e \<longleftrightarrow> (\<forall>lost since til. e = Gap lost since til \<longrightarrow> ts_ok L since \<and> ts_ok L til \<and> since \<le> til)"
    by (cases e) (auto simp: gap_ok_def)
  have gen: "is_genesis e \<longleftrightarrow> (\<exists>p. e = Genesis p)" by (cases e) (auto simp: is_genesis_def)
  show ?thesis
  proof
    assume "\<exists>a. check_row L line (of_nat n) h = Inr a \<and> acc_event a = e"
    then obtain a where a: "check_row L line (of_nat n) h = Inr a" "acc_event a = e" by blast
    then obtain v where v: "parse_text L ?l = Some v" by (auto simp: check_row_def split: option.splits)
    then have u: "valid_utf8 ?l" "parse L ?l = Some v" by (auto simp: parse_text_def split: if_splits)
    from a v obtain kvs where k: "v = JObj kvs" by (cases v) (auto simp: check_row_def rbind_eq_Inr)
    from a(1) u(2) obtain r e' b where r: "\<not> has_sig v" "de_row L v = Inr r" "row_v r = 1" "row_seq r = of_nat n"
        "row_prev r = h" "digest_ok h" "ts_ok L (row_ts r)" "de_event L is_principal (row_e r) = Inr e'"
        "(row_seq r = 0) = is_genesis e'" "gap_ok L e'" "digests_ok e'" "canonical L v = Inr ?l"
        "a = \<lparr>acc_seq = row_seq r, acc_hash = hex b, acc_ts = row_ts r, acc_event = e'\<rparr>"
      by (auto simp: check_row_def v rbind_eq_Inr stored_canonical_Inr)
    with a(2) have e: "e' = e" by simp
    from r u k e z show "receipt_row L ?l n h e"
      unfolding spec by (intro exI [of _ kvs] exI [of _ r]) (simp add: gap gen sig del: has_sig.simps)
  next
    assume "receipt_row L ?l n h e"
    then obtain kvs r where r: "valid_utf8 ?l" "parse L ?l = Some (JObj kvs)" "canonical L (JObj kvs) = Inr ?l"
        "\<not> has_sig (JObj kvs)" "de_row L (JObj kvs) = Inr r" "row_v r = 1" "row_seq r = of_nat n" "row_prev r = h"
        "digest_ok h" "ts_ok L (row_ts r)" "de_event L is_principal (row_e r) = Inr e"
        "is_genesis e \<longleftrightarrow> n = 0" "gap_ok L e" "digests_ok e"
      unfolding spec gap gen sig by blast
    from hash [OF r(5,3)] obtain b where b: "row_hash L r = Inr b" ..
    have p: "parse_text L ?l = Some (JObj kvs)" using r(1,2) by (simp add: parse_text_def)
    have c: "stored_line_is_canonical L ?l = Inr ()" using r(2,3) by (simp add: stored_canonical_Inr)
    from r b p c z float [OF r(3)] show "\<exists>a. check_row L line (of_nat n) h = Inr a \<and> acc_event a = e"
      by (simp add: check_row_def del: has_sig.simps contains_float.simps)
  qed
qed

lemma receipt_row_parses: "receipt_row L l n h e \<Longrightarrow> parse_text L l \<noteq> None"
  by (auto simp: receipt_row_def parse_text_def)

lemma is_recover_iff: "is_recover e \<longleftrightarrow> (\<exists>off len torn. e = Recover off len torn)"
  by (cases e) (auto simp: is_recover_def)

subsection \<open>Chains of lines and files\<close>

lemma split_lines_two:
  assumes "terminated_bytes buf" and "newline \<notin> set t" and "newline \<notin> set l"
  shows "split_lines (buf @ t @ [newline] @ l @ [newline]) = split_lines buf @
    [\<lparr>phys_number = 1 + length (split_lines buf), phys_offset = length buf, phys_bytes = t, has_newline = True\<rparr>,
     \<lparr>phys_number = 2 + length (split_lines buf), phys_offset = length buf + length t + 1, phys_bytes = l, has_newline = True\<rparr>]"
  using split_from_append [OF assms(1), of 1 0 "t @ [newline] @ l @ [newline]"]
    split_from_line [OF assms(2), of _ _ "l @ [newline]"] split_from_line [OF assms(3), of _ _ "[]"]
  by (simp add: split_lines_def)

lemma file_terminated: "receipt_file L buf n h \<Longrightarrow> terminated_bytes buf"
  by (erule receipt_file.cases) (auto simp: terminated_bytes_def)

lemma receipt_row_number: "receipt_row L l n h e \<Longrightarrow> n < 2 ^ 64"
proof -
  have "unat (w :: u64) < 2 ^ 64" for w using unsigned_less [of w] by simp
  then show "receipt_row L l n h e \<Longrightarrow> n < 2 ^ 64" by (auto simp: receipt_row_def)
qed

lemma file_is_chain:
  assumes "receipt_file L buf n h" and ok: "row_codec_ok L"
  shows "chain L (split_lines buf) n h"
  using assms(1)
proof (induction rule: receipt_file.induct)
  case empty_file
  show ?case using chain_nil by (simp add: split_lines_def GENESIS_PREV_def)
next
  case (next_row buf n h l e)
  let ?p = "\<lparr>phys_number = 1 + length (split_lines buf), phys_offset = length buf, phys_bytes = l, has_newline = True\<rparr>"
  note n = receipt_row_number [OF next_row.hyps(4)]
  from check_row_format [OF ok n, of ?p h e] next_row.hyps(4) obtain a where
    a: "check_row L ?p (of_nat n) h = Inr a" "acc_event a = e" by auto
  have "chain L (split_lines buf @ [?p]) (Suc n) (acc_hash a)"
    using next_row n a check_row_parses [OF a(1)]
    by (intro chain_row) (auto simp: MAX_LINE_BYTES_def torn_payload_def is_recover_iff)
  with split_lines_append [OF file_terminated [OF next_row.hyps(1)] next_row.hyps(2)] check_row_hash(1) [OF ok a(1)]
  show ?case by simp
next
  case (recovered_row buf n h t l off len)
  let ?t = "\<lparr>phys_number = 1 + length (split_lines buf), phys_offset = length buf, phys_bytes = t, has_newline = True\<rparr>"
  let ?p = "\<lparr>phys_number = 2 + length (split_lines buf), phys_offset = length buf + length t + 1, phys_bytes = l, has_newline = True\<rparr>"
  note n = receipt_row_number [OF recovered_row.hyps(7)]
  from check_row_format [OF ok n, of ?p h] recovered_row.hyps(7) obtain a where
    a: "check_row L ?p (of_nat n) h = Inr a" "acc_event a = Recover off len (sha256_hex L t)" by auto
  have "matching_recover L ?p ?t (of_nat n) h = Some a"
    using recovered_row.hyps a by (simp add: matching_recover_def MAX_LINE_BYTES_def)
  moreover have "torn_payload L ?t" using recovered_row.hyps(4) by (auto simp: torn_payload_def parse_text_def)
  ultimately have "chain L (split_lines buf @ [?t, ?p]) (Suc n) (acc_hash a)"
    using recovered_row n by (intro chain_recover) (auto simp: MAX_LINE_BYTES_def)
  with split_lines_two [OF file_terminated [OF recovered_row.hyps(1)] recovered_row.hyps(2,5)] check_row_hash(1) [OF ok a(1)]
  show ?case by simp
qed

lemma split_from_nil_iff: "split_from n i buf = [] \<longleftrightarrow> buf = []"
  by (subst split_from.simps) (simp add: Let_def)

lemma split_from_cons:
  assumes "split_from n i buf = x # xs"
  shows "if has_newline x
    then newline \<notin> set (phys_bytes x) \<and> phys_offset x = i \<and>
      (\<exists>rest. buf = phys_bytes x @ newline # rest \<and> split_from (n + 1) (i + length (phys_bytes x) + 1) rest = xs)
    else xs = []"
proof (cases "newline \<in> set buf")
  case True
  then obtain l rest where b: "buf = l @ newline # rest" "newline \<notin> set l" by (meson split_list_first)
  with assms show ?thesis by (auto simp: split_from_line)
next
  case False
  then have "takeWhile (\<lambda>b. b \<noteq> newline) buf = buf" by (auto simp: takeWhile_eq_all_conv)
  with assms show ?thesis by (subst (asm) split_from.simps) (auto simp: Let_def split: if_splits)
qed

lemma split_from_prefix:
  "split_from n i buf = xs @ ys \<Longrightarrow> \<exists>pre rest. buf = pre @ rest \<and> split_from n i pre = xs"
proof (induction xs arbitrary: n i buf)
  case (Cons x xs)
  from Cons.prems have c: "split_from n i buf = x # (xs @ ys)" by simp
  show ?case
  proof (cases "has_newline x")
    case True
    with split_from_cons [OF c] obtain rest where r: "newline \<notin> set (phys_bytes x)"
      "buf = phys_bytes x @ newline # rest" "split_from (n + 1) (i + length (phys_bytes x) + 1) rest = xs @ ys" by auto
    from Cons.IH [OF r(3)] obtain pre more where "rest = pre @ more"
      "split_from (n + 1) (i + length (phys_bytes x) + 1) pre = xs" by blast
    with r c show ?thesis
      by (intro exI [of _ "phys_bytes x @ newline # pre"] exI [of _ more]) (simp add: split_from_line)
  next
    case False
    with split_from_cons [OF c] c show ?thesis by (intro exI [of _ buf] exI [of _ "[]"]) simp
  qed
next
  case Nil
  then show ?case by (intro exI [of _ "[]"] exI [of _ buf]) simp
qed

lemma chain_prefix:
  assumes "split_lines buf = ls @ ys"
    and IH: "\<And>b. split_lines b = ls \<Longrightarrow> receipt_file L b n h"
  shows "\<exists>pre k rest. buf = pre @ rest \<and> receipt_file L pre n h \<and> split_from k (length pre) rest = ys"
proof -
  from assms(1) split_from_prefix [of 1 0 buf ls ys] obtain pre rest where p: "buf = pre @ rest" "split_lines pre = ls"
    by (auto simp: split_lines_def)
  from IH [OF p(2)] have f: "receipt_file L pre n h" .
  have "split_lines buf = ls @ split_from (1 + length ls) (length pre) rest"
    using split_from_append [OF file_terminated [OF f], of 1 0 rest] p by (simp add: split_lines_def)
  with assms(1) p f show ?thesis by auto
qed

lemma chain_is_file:
  assumes "chain L ls n h" and ok: "row_codec_ok L" and "split_lines buf = ls"
  shows "receipt_file L buf n h"
  using assms(1,3)
proof (induction arbitrary: buf rule: chain.induct)
  case chain_nil
  then show ?case using empty_file by (simp add: split_lines_def split_from_nil_iff GENESIS_PREV_def)
next
  case (chain_row ls n h line a)
  from chain_prefix [OF chain_row.prems chain_row.IH] obtain pre k rest where
    p: "buf = pre @ rest" "receipt_file L pre n h" "split_from k (length pre) rest = [line]" by blast
  have "has_newline line" using chain_row.hyps(4) by (simp add: torn_payload_def)
  with split_from_cons [OF p(3)] have r: "newline \<notin> set (phys_bytes line)" "rest = phys_bytes line @ [newline]"
    by (auto simp: split_from_nil_iff)
  have "receipt_row L (phys_bytes line) n h (acc_event a)"
    using check_row_format [OF ok chain_row.hyps(2)] chain_row.hyps(5) by blast
  from receipt_file.next_row [OF p(2) r(1) _ this] chain_row.hyps(3,6)
  have "receipt_file L (pre @ phys_bytes line @ [newline]) (Suc n) (sha256_hex L (phys_bytes line))"
    by (auto simp: MAX_LINE_BYTES_def is_recover_iff)
  with p(1) r(2) check_row_hash(1) [OF ok chain_row.hyps(5)] show ?case by simp
next
  case (chain_recover ls n h line nxt a)
  from chain_prefix [OF chain_recover.prems chain_recover.IH] obtain pre k rest where
    p: "buf = pre @ rest" "receipt_file L pre n h" "split_from k (length pre) rest = [line, nxt]" by blast
  from matching_recover_Some [OF chain_recover.hyps(5)] obtain off len where
    m: "has_newline nxt" "check_row L nxt (of_nat n) h = Inr a"
      "acc_event a = Recover off len (sha256_hex L (phys_bytes line))"
      "unat off = phys_offset line" "unat len = length (phys_bytes line)" by blast
  have "has_newline line" using split_from_cons [OF p(3)] by (auto split: if_splits)
  with split_from_cons [OF p(3)] obtain rest' where t: "newline \<notin> set (phys_bytes line)" "phys_offset line = length pre"
    "rest = phys_bytes line @ newline # rest'"
    "split_from (k + 1) (length pre + length (phys_bytes line) + 1) rest' = [nxt]" by auto
  from split_from_cons [OF t(4)] m(1) have r: "newline \<notin> set (phys_bytes nxt)" "rest' = phys_bytes nxt @ [newline]"
    by (auto simp: split_from_nil_iff)
  have row: "receipt_row L (phys_bytes nxt) n h (Recover off len (sha256_hex L (phys_bytes line)))"
    using check_row_format [OF ok chain_recover.hyps(2)] m(2,3) by blast
  have torn: "\<not> (valid_utf8 (phys_bytes line) \<and> parse L (phys_bytes line) \<noteq> None)"
    using chain_recover.hyps(4) \<open>has_newline line\<close> by (auto simp: torn_payload_def parse_text_def)
  have len: "length (phys_bytes line) \<le> 65536" "length (phys_bytes nxt) \<le> 65536"
    using chain_recover.hyps(3,5) by (auto simp: MAX_LINE_BYTES_def matching_recover_def split: if_splits)
  from receipt_file.recovered_row [OF p(2) t(1) len(1) torn r(1) len(2) row] m(4,5) t(2)
  have "receipt_file L (pre @ phys_bytes line @ [newline] @ phys_bytes nxt @ [newline]) (Suc n) (sha256_hex L (phys_bytes nxt))"
    by simp
  with p(1) t(3) r(2) check_row_hash(1) [OF ok m(2)] show ?case by simp
qed

subsection \<open>Property\<close>

text \<open>
  C8: what the check accepts. A file passes without a break, with \<open>n\<close> rows and head \<open>h\<close>,
  exactly when its bytes are a receipt file by the format above: every row a line of canonical JSON
  with no \<open>sig\<close> key, version 1, the next number, the digest of the row before as its \<open>prev\<close>, the
  first one and no other a genesis, stamps and digests in their form, and a torn line only in
  front of the \<open>recover\<close> row that names its offset, its length and its digest. The row serializer of
  serde is taken to write what its parser read.
\<close>

theorem verify_accepts_chains:
  assumes "row_codec_ok L"
  shows "first_break (verify_lines L (Some buf)) = None \<and> rows (verify_lines L (Some buf)) = n \<and>
     head (verify_lines L (Some buf)) = h \<longleftrightarrow> receipt_file L buf n h"
  unfolding verify_lines_def option.case unbroken_iff
  using file_is_chain [OF _ assms] chain_is_file [OF _ assms refl] by blast

theorem verify_accepts_chains_witness:
  "receipt_file (demo_lib (\<lambda>_. ShutdownEv ''stop'')) (obj_line CHR ''0'' @ [newline]) 1 (hex (replicate 32 CHR 0x11))"
  using verify_accepts_chains [OF demo_row_codec, of "\<lambda>_. ShutdownEv ''stop''" "obj_line CHR ''0'' @ [newline]" 1 "hex (replicate 32 CHR 0x11)"]
    demo_chain0 unbroken_iff [of "demo_lib (\<lambda>_. ShutdownEv ''stop'')" "obj_line CHR ''0'' @ [newline]" False]
  by (simp only: verify_lines_def option.case)

end
