(* ===== verification/ReceiptStore.thy ===== *)
theory ReceiptStore
  imports Chain
begin

text \<open>
  \<open>src/oneself/store.rs\<close>: the one appender of a receipt file. Opening repairs a torn tail and
  nothing else, an append writes the next row, and an append that failed is told by a \<open>gap\<close> row.

  The file is its bytes; a write appends (the descriptor is open for append). What the disk does
  to each read and write, and the clock, are arguments.
\<close>

subsection \<open>systemd's descriptors\<close>

text \<open>\<open>str::parse::<i32>\<close>: an optional sign, then digits, within range.\<close>

definition parse_i32 :: "bytes \<Rightarrow> int option" where
  "parse_i32 s =
     (let (neg, ds) = (case s of
          c # r \<Rightarrow> if c = CHR ''-'' then (True, r) else if c = CHR ''+'' then (False, r) else (False, s)
        | [] \<Rightarrow> (False, []));
          n = int (digits_value ds); v = (if neg then - n else n)
      in if ds \<noteq> [] \<and> list_all ascii_digit ds \<and> - (2 ^ 31) \<le> v \<and> v < 2 ^ 31 then Some v else None)"

fun split_on :: "char \<Rightarrow> bytes \<Rightarrow> bytes list" where
  "split_on c [] = [[]]"
| "split_on c (x # xs) =
     (if x = c then [] # split_on c xs
      else (case split_on c xs of p # ps \<Rightarrow> (x # p) # ps | [] \<Rightarrow> [[x]]))"

fun position :: "('a \<Rightarrow> bool) \<Rightarrow> 'a list \<Rightarrow> nat option" where
  "position P [] = None"
| "position P (x # xs) = (if P x then Some 0 else map_option Suc (position P xs))"

definition listen_fd ::
  "bytes option \<Rightarrow> bytes option \<Rightarrow> bytes option \<Rightarrow> u32 \<Rightarrow> bytes \<Rightarrow> int option" where
  "listen_fd pid_env fds_env names_env our_pid name =
     (case pid_env of None \<Rightarrow> None | Some pid \<Rightarrow>
        if pid \<noteq> decimal (unat our_pid) then None
        else (case Option.bind fds_env parse_i32 of None \<Rightarrow> None | Some cnt \<Rightarrow>
          if cnt \<le> 0 then None
          else (case Option.bind names_env (\<lambda>ns. position (\<lambda>item. item = name) (split_on CHR '':'' ns)) of
              None \<Rightarrow> None
            | Some index \<Rightarrow>
                if 2 ^ 31 \<le> int index then None
                else if cnt \<le> int index then None else Some (3 + int index))))"

subsection \<open>Data\<close>

record store_lib =
  jl :: json_lib
  ser_event :: "receipt_event \<Rightarrow> json option"
  text_row :: "bytes \<Rightarrow> row option"

datatype store_error =
    StoreLocked
  | NotUsed
  | Rotate
  | Broken nat string
  | AppendFailed u64
  | RowUnbuilt
  | TooLarge nat
  | Foreign bytes bytes
  | NotLedger
  | StoreIo

record receipt_store =
  content :: bytes
  next_seq :: u64
  prev :: bytes
  poisoned :: bool
  dropped :: u64
  gap_first :: "bytes option"
  gap_last :: "bytes option"

record store_head =
  head_seq :: u64
  head_hash :: bytes

record protection =
  systemd_fd :: bool
  owner_root :: bool
  mode_safe :: bool
  append_flag :: bool
  parent_safe :: bool

definition is_protected :: "protection \<Rightarrow> bool" where
  "is_protected p \<longleftrightarrow> systemd_fd p \<and> owner_root p \<and> mode_safe p \<and> append_flag p \<and> parent_safe p"

record opened =
  recovered :: bool
  repaired_newline :: bool
  recreated :: bool
  orphans :: "bytes list"
  protection :: protection
  open_report :: verify_report

datatype open_choice = Ready receipt_store opened | Unprotected protection

datatype repair_kind = RepairReady | RepairNewline | RepairRecovered | RepairNoRow | RepairBroken verify_note

datatype tail_class =
    ClassReady
  | MissingNewline
  | Torn nat bytes bool u64 bytes
  | NoRow
  | ClassBroken verify_note

definition MAX_RECEIPT_BYTES :: nat where
  "MAX_RECEIPT_BYTES = 256 * 1024 * 1024"

subsection \<open>The file\<close>

datatype disk_write = WriteFine | WriteStops nat | SyncFails

definition write_all_sync :: "disk_write \<Rightarrow> bytes \<Rightarrow> bytes \<Rightarrow> (store_error + unit) \<times> bytes" where
  "write_all_sync w f record =
     (case w of
        WriteFine \<Rightarrow> (Inr (), f @ record)
      | WriteStops n \<Rightarrow> (Inl StoreIo, f @ take n record)
      | SyncFails \<Rightarrow> (Inl StoreIo, f @ record))"

text \<open>\<open>ok\<close>: the seek, the stat and the read succeed.\<close>

definition read_all :: "bool \<Rightarrow> bytes \<Rightarrow> store_error + bytes" where
  "read_all ok f =
     (if \<not> ok then Inl StoreIo
      else if MAX_RECEIPT_BYTES < length f then Inl (TooLarge (length f)) else Inr f)"

definition ensure_repair_fits :: "bool \<Rightarrow> bytes \<Rightarrow> nat \<Rightarrow> store_error + unit" where
  "ensure_repair_fits ok f extra =
     (if \<not> ok then Inl StoreIo
      else (let total = length f + extra
            in if MAX_RECEIPT_BYTES < total then Inl (TooLarge total) else Inr ()))"

definition with_newline :: "bytes \<Rightarrow> bytes" where
  "with_newline line = line @ [newline]"

subsection \<open>Reading a file's rows\<close>

text \<open>Streams with an open and no later close.\<close>

definition line_event :: "store_lib \<Rightarrow> bytes \<Rightarrow> receipt_event option" where
  "line_event S line =
     (if valid_utf8 line
      then (case text_row S line of
          None \<Rightarrow> None
        | Some r \<Rightarrow> (case de_event (jl S) is_principal (row_e r) of Inl _ \<Rightarrow> None | Inr e \<Rightarrow> Some e))
      else None)"

fun orphan_fold :: "store_lib \<Rightarrow> bytes list \<Rightarrow> bytes list \<Rightarrow> bytes list" where
  "orphan_fold S open_streams [] = open_streams"
| "orphan_fold S open_streams (line # ls) =
     orphan_fold S
       (if line = [] then open_streams
        else (case line_event S line of
            Some (OpenEv oi) \<Rightarrow> open_streams @ [open_stream oi]
          | Some (CloseEv ci) \<Rightarrow> remove1 (close_stream ci) open_streams
          | _ \<Rightarrow> open_streams)) ls"

definition orphan_streams :: "store_lib \<Rightarrow> bytes \<Rightarrow> bytes list" where
  "orphan_streams S bs = orphan_fold S [] (split_on newline bs)"

text \<open>\<open>str::lines\<close>: split at newlines, a final empty piece and a trailing carriage return dropped.\<close>

definition str_lines :: "bytes \<Rightarrow> bytes list" where
  "str_lines s =
     (let ps = split_on newline s; qs = (if last ps = [] then butlast ps else ps)
      in map (\<lambda>l. if l \<noteq> [] \<and> last l = CHR 0x0D then butlast l else l) qs)"

definition committed_attempt :: "store_lib \<Rightarrow> bytes \<Rightarrow> u64 \<Rightarrow> bool" where
  "committed_attempt S bs attempted \<longleftrightarrow> valid_utf8 bs \<and>
     (case find (\<lambda>l. l \<noteq> []) (rev (str_lines bs)) of
        None \<Rightarrow> False
      | Some line \<Rightarrow>
          (case text_row S line of
             None \<Rightarrow> False
           | Some r \<Rightarrow>
               (case de_event (jl S) is_principal (row_e r) of
                  Inl _ \<Rightarrow> False
                | Inr e \<Rightarrow> row_seq r = attempted \<and> \<not> is_recover e)))"

definition first_physical_line :: "bytes \<Rightarrow> bytes" where
  "first_physical_line bs = takeWhile (\<lambda>b. b \<noteq> newline) bs"

definition json_get :: "bytes \<Rightarrow> json \<Rightarrow> json option" where
  "json_get k v = (case v of JObj kvs \<Rightarrow> map_of kvs k | _ \<Rightarrow> None)"

definition genesis_pulse :: "store_lib \<Rightarrow> bytes \<Rightarrow> bytes option" where
  "genesis_pulse S line =
     (if line = [] \<or> \<not> accepts_line (jl S) line 0 GENESIS_PREV then None
      else (case Option.bind (Option.bind (parse_text (jl S) line) (json_get ''e'')) (json_get ''pulse'') of
          Some (JStr p) \<Rightarrow> Some p
        | _ \<Rightarrow> None))"

subsection \<open>The tail\<close>

text \<open>\<open>split_last\<close>: the prefix with its trailing newline, the last line, whether that has one.\<close>

definition after_last_newline :: "bytes \<Rightarrow> bytes \<times> bytes" where
  "after_last_newline bs =
     (let t = takeWhile (\<lambda>b. b \<noteq> newline) (rev bs)
      in (take (length bs - length t) bs, rev t))"

definition split_last :: "bytes \<Rightarrow> bytes \<times> bytes \<times> bool" where
  "split_last bs =
     (if bs \<noteq> [] \<and> last bs = newline
      then (let (p, l) = after_last_newline (butlast bs) in (p, l, True))
      else (let (p, l) = after_last_newline bs in (p, l, False)))"

definition next_of :: "verify_report \<Rightarrow> store_error + u64" where
  "next_of r =
     (case report_seq r of
        None \<Rightarrow> Inr 0
      | Some s \<Rightarrow> (case checked_add_u64 s 1 of None \<Rightarrow> Inl RowUnbuilt | Some n \<Rightarrow> Inr n))"

definition classify :: "store_lib \<Rightarrow> bytes \<Rightarrow> store_error + tail_class" where
  "classify S bs =
     (if bs = [] \<or> newline \<notin> set bs \<and> \<not> accepts_line (jl S) bs 0 GENESIS_PREV then Inr NoRow
      else if last bs \<noteq> newline \<and> first_break (verify_lines (jl S) (Some (bs @ [newline]))) = None
        then Inr MissingNewline
      else (case split_last bs of (pre, lst, last_nl) \<Rightarrow>
        (let pr = verify_lines (jl S) (Some pre)
         in case first_break pr of
              Some note \<Rightarrow> Inr (ClassBroken note)
            | None \<Rightarrow>
                rbind (next_of pr) (\<lambda>seq.
                  if accepts_line (jl S) lst seq (head pr)
                    then Inr (if last_nl then ClassReady else MissingNewline)
                  else if rows pr = 0
                    then Inr (ClassBroken \<lparr>note_line = 1, note_reason = ''genesis''\<rparr>)
                  else if valid_json_value (jl S) lst
                    then Inr (ClassBroken \<lparr>note_line = rows pr + 1, note_reason = ''not a row''\<rparr>)
                  else if Chain.MAX_LINE_BYTES < length lst
                    then Inr (ClassBroken \<lparr>note_line = count_list pre newline + 1, note_reason = ''oversize''\<rparr>)
                  else Inr (Torn (length pre) lst (\<not> last_nl) seq (head pr))))))"

definition encode_line :: "store_lib \<Rightarrow> u64 \<Rightarrow> bytes \<Rightarrow> bytes \<Rightarrow> receipt_event \<Rightarrow> store_error + bytes" where
  "encode_line S seq pv ts e =
     (case ser_event S e of
        None \<Rightarrow> Inl RowUnbuilt
      | Some j \<Rightarrow>
          (case ser_row (jl S) \<lparr>row_v = 1, row_seq = seq, row_prev = pv, row_ts = ts, row_e = j\<rparr> of
             None \<Rightarrow> Inl RowUnbuilt
           | Some v \<Rightarrow>
               (case canonical (jl S) v of
                  Inl _ \<Rightarrow> Inl RowUnbuilt
                | Inr line \<Rightarrow>
                    if Chain.MAX_LINE_BYTES < length line then Inl RowUnbuilt
                    else if \<not> accepts_line (jl S) line seq pv then Inl RowUnbuilt
                    else Inr line)))"

text \<open>\<open>repair_class\<close>: \<open>meta\<close> is the stat before the write, \<open>w\<close> the write, \<open>ts\<close> the clock.\<close>

definition repair_class ::
  "store_lib \<Rightarrow> bool \<Rightarrow> disk_write \<Rightarrow> bytes \<Rightarrow> bytes \<Rightarrow> tail_class \<Rightarrow> (store_error + repair_kind) \<times> bytes" where
  "repair_class S meta w ts f cls =
     (case cls of
        ClassReady \<Rightarrow> (Inr RepairReady, f)
      | MissingNewline \<Rightarrow>
          qmark (ensure_repair_fits meta f 1) f (\<lambda>_.
          case write_all_sync w f [newline] of
            (Inl e, f') \<Rightarrow> (Inl e, f')
          | (Inr _, f') \<Rightarrow> (Inr RepairNewline, f'))
      | Torn offset torn needs_newline seq pv \<Rightarrow>
          qmark (encode_line S seq pv ts
                  (Recover (of_nat offset) (of_nat (length torn)) (sha256_hex (jl S) torn))) f (\<lambda>line.
          let record = (if needs_newline then newline # with_newline line else with_newline line)
          in qmark (ensure_repair_fits meta f (length record)) f (\<lambda>_.
             case write_all_sync w f record of
               (Inl e, f') \<Rightarrow> (Inl e, f')
             | (Inr _, f') \<Rightarrow> (Inr RepairRecovered, f')))
      | NoRow \<Rightarrow> (Inr RepairNoRow, f)
      | ClassBroken note \<Rightarrow> (Inr (RepairBroken note), f))"

subsection \<open>Opening\<close>

text \<open>
  What the environment contributes to one open: whether the lock is free, the reads, the stat,
  the writes of the repair and of the genesis row, and the clock.
\<close>

record open_env =
  lock_free :: bool
  read1 :: bool
  read2 :: bool
  meta_ok :: bool
  repair_write :: disk_write
  genesis_write :: disk_write
  repair_ts :: bytes
  genesis_ts :: bytes

definition finish_open ::
  "store_lib \<Rightarrow> open_env \<Rightarrow> protection \<Rightarrow> bool \<times> bool \<times> bool \<Rightarrow> bytes \<Rightarrow> (store_error + open_choice) \<times> bytes" where
  "finish_open S env prot did f =
     (case did of (rec, nl, created) \<Rightarrow>
      qmark (read_all (read2 env) f) f (\<lambda>bs.
      let report = verify_lines (jl S) (Some bs)
      in case first_break report of
           Some note \<Rightarrow> (Inl (Broken (note_line note) (note_reason note)), f)
         | None \<Rightarrow>
             qmark (next_of report) f (\<lambda>n.
               (Inr (Ready
                  \<lparr>content = f, next_seq = n, prev = head report, poisoned = False, dropped = 0,
                   gap_first = None, gap_last = None\<rparr>
                  \<lparr>recovered = rec, repaired_newline = nl, recreated = created,
                   orphans = orphan_streams S bs, protection = prot, open_report = report\<rparr>), f))))"

definition after_repair ::
  "store_lib \<Rightarrow> open_env \<Rightarrow> bool \<Rightarrow> protection \<Rightarrow> bytes \<Rightarrow> bytes \<Rightarrow> (store_error + repair_kind) \<times> bytes \<Rightarrow>
     (store_error + open_choice) \<times> bytes" where
  "after_repair S env from_systemd prot pulse_name bs r =
     (case r of
        (Inl e, f1) \<Rightarrow> (Inl e, f1)
      | (Inr RepairReady, f1) \<Rightarrow> finish_open S env prot (False, False, False) f1
      | (Inr RepairNewline, f1) \<Rightarrow> finish_open S env prot (False, True, False) f1
      | (Inr RepairRecovered, f1) \<Rightarrow> finish_open S env prot (True, False, False) f1
      | (Inr (RepairBroken note), f1) \<Rightarrow> (Inl (Broken (note_line note) (note_reason note)), f1)
      | (Inr RepairNoRow, f1) \<Rightarrow>
          if from_systemd \<or> bs \<noteq> [] then (Inl Rotate, f1)
          else qmark (encode_line S 0 GENESIS_PREV (genesis_ts env) (Genesis pulse_name)) f1 (\<lambda>line.
            case write_all_sync (genesis_write env) f1 (with_newline line) of
              (Inl e, f2) \<Rightarrow> (Inl e, f2)
            | (Inr _, f2) \<Rightarrow> finish_open S env prot (False, False, True) f2))"

text \<open>
  \<open>open_once\<close> after the descriptor is adopted; \<open>prot\<close> is the probe's report. The second
  component of the result is the file it leaves.
\<close>

definition open_once ::
  "store_lib \<Rightarrow> open_env \<Rightarrow> bool \<Rightarrow> protection \<Rightarrow> bytes \<Rightarrow> bool \<Rightarrow> bytes \<Rightarrow> (store_error + open_choice) \<times> bytes" where
  "open_once S env from_systemd prot pulse_name stop_if_unprotected f =
     (if stop_if_unprotected \<and> \<not> is_protected prot then (Inr (Unprotected prot), f)
      else if \<not> lock_free env then (Inl StoreLocked, f)
      else qmark (read_all (read1 env) f) f (\<lambda>bs.
      qmark (if bs = [] then Inr ()
             else (case genesis_pulse S (first_physical_line bs) of
                 Some found \<Rightarrow> if found = pulse_name then Inr () else Inl (Foreign found pulse_name)
               | None \<Rightarrow> if from_systemd then Inl Rotate else Inl NotLedger)) f (\<lambda>_.
      qmark (classify S bs) f (\<lambda>cls.
      after_repair S env from_systemd prot pulse_name bs
        (repair_class S (meta_ok env) (repair_write env) (repair_ts env) f cls)))))"

subsection \<open>Appending\<close>

definition saturating_inc :: "u64 \<Rightarrow> u64" where
  "saturating_inc n = saturating_add_u64 n 1"

definition note_failure :: "bytes \<Rightarrow> receipt_store \<Rightarrow> receipt_store" where
  "note_failure ts s =
     s\<lparr>gap_first := (if gap_first s = None then Some ts else gap_first s), gap_last := Some ts,
       dropped := saturating_inc (dropped s), poisoned := True\<rparr>"

fun lose :: "nat \<Rightarrow> bytes \<Rightarrow> receipt_store \<Rightarrow> receipt_store" where
  "lose 0 ts s = s"
| "lose (Suc n) ts s = lose n ts (note_failure ts s)"

text \<open>
  What the environment contributes to one append: the resynchronisation's reads, stat, write and
  clock, then a clock and a write for the gap row and for the event's row, and the clock of a
  failed resynchronisation.
\<close>

record append_env =
  rs_read1 :: bool
  rs_read2 :: bool
  rs_meta :: bool
  rs_write :: disk_write
  rs_ts :: bytes
  rs_fail_ts :: bytes
  gap_ts :: bytes
  gap_write :: disk_write
  ev_ts :: bytes
  ev_write :: disk_write

definition write_event ::
  "store_lib \<Rightarrow> bytes \<Rightarrow> disk_write \<Rightarrow> receipt_event \<Rightarrow> receipt_store \<Rightarrow> (store_error + store_head) \<times> receipt_store" where
  "write_event S ts w e s =
     qmark (encode_line S (next_seq s) (prev s) ts e) s (\<lambda>line.
     let hash = sha256_hex (jl S) line
     in case write_all_sync w (content s) (with_newline line) of
          (Inl _, f) \<Rightarrow>
            (let s1 = note_failure ts (s\<lparr>content := f\<rparr>) in (Inl (AppendFailed (dropped s1)), s1))
        | (Inr _, f) \<Rightarrow>
            (let s1 = s\<lparr>content := f, prev := hash\<rparr>
             in qmark (case checked_add_u64 (next_seq s) 1 of None \<Rightarrow> Inl RowUnbuilt | Some n \<Rightarrow> Inr n) s1 (\<lambda>n.
                  (Inr \<lparr>head_seq = next_seq s, head_hash = hash\<rparr>, s1\<lparr>next_seq := n\<rparr>))))"

definition write_gap ::
  "store_lib \<Rightarrow> bytes \<Rightarrow> disk_write \<Rightarrow> receipt_store \<Rightarrow> (store_error + unit) \<times> receipt_store" where
  "write_gap S ts w s =
     (case gap_first s of None \<Rightarrow> (Inl RowUnbuilt, s) | Some first \<Rightarrow>
      (case gap_last s of None \<Rightarrow> (Inl RowUnbuilt, s) | Some last0 \<Rightarrow>
        (let lst = (if last0 < first then first else last0)
         in case write_event S ts w (Gap (dropped s) first lst) s of
              (Inl e, s1) \<Rightarrow> (Inl e, s1)
            | (Inr _, s1) \<Rightarrow>
                (Inr (), s1\<lparr>poisoned := False, dropped := 0, gap_first := None, gap_last := None\<rparr>))))"

definition count_landed :: "store_lib \<Rightarrow> u64 \<Rightarrow> bytes \<Rightarrow> receipt_store \<Rightarrow> receipt_store" where
  "count_landed S attempted bs s =
     (if committed_attempt S bs attempted
      then (let d = saturating_sub_u64 (dropped s) 1
            in if d = 0 then s\<lparr>dropped := d, poisoned := False, gap_first := None, gap_last := None\<rparr>
               else s\<lparr>dropped := d\<rparr>)
      else s)"

text \<open>\<open>resync\<close> after its repair left the file \<open>f\<close>, and \<open>resync\<close>.\<close>

definition resync_finish ::
  "store_lib \<Rightarrow> append_env \<Rightarrow> receipt_store \<Rightarrow> bytes \<Rightarrow> (store_error + unit) \<times> receipt_store" where
  "resync_finish S env s f =
     (let s1 = s\<lparr>content := f\<rparr>
      in qmark (read_all (rs_read2 env) f) s1 (\<lambda>bs2.
         let report = verify_lines (jl S) (Some bs2)
         in case first_break report of
              Some note \<Rightarrow> (Inl (Broken (note_line note) (note_reason note)), s1)
            | None \<Rightarrow>
                (let s2 = count_landed S (next_seq s) bs2 s1
                 in qmark (next_of report) s2 (\<lambda>n.
                      (Inr (), s2\<lparr>next_seq := n, prev := head report\<rparr>)))))"

definition resync :: "store_lib \<Rightarrow> append_env \<Rightarrow> receipt_store \<Rightarrow> (store_error + unit) \<times> receipt_store" where
  "resync S env s =
     qmark (read_all (rs_read1 env) (content s)) s (\<lambda>bs.
     qmark (classify S bs) s (\<lambda>cls.
     case repair_class S (rs_meta env) (rs_write env) (rs_ts env) (content s) cls of
       (Inl e, f) \<Rightarrow> (Inl e, s\<lparr>content := f\<rparr>)
     | (Inr k, f) \<Rightarrow>
         (case k of
            RepairNoRow \<Rightarrow> (Inl RowUnbuilt, s\<lparr>content := f\<rparr>)
          | RepairBroken note \<Rightarrow> (Inl (Broken (note_line note) (note_reason note)), s\<lparr>content := f\<rparr>)
          | RepairReady \<Rightarrow> resync_finish S env s f
          | RepairNewline \<Rightarrow> resync_finish S env s f
          | RepairRecovered \<Rightarrow> resync_finish S env s f)))"

definition is_gap :: "receipt_event \<Rightarrow> bool" where
  "is_gap e \<longleftrightarrow> (case e of Gap _ _ _ \<Rightarrow> True | _ \<Rightarrow> False)"

definition append_event ::
  "store_lib \<Rightarrow> append_env \<Rightarrow> receipt_event \<Rightarrow> receipt_store \<Rightarrow> (store_error + store_head) \<times> receipt_store" where
  "append_event S env e s =
     (if is_genesis e \<or> is_recover e \<or> is_gap e then (Inl RowUnbuilt, s)
      else if poisoned s then
        (case resync S env s of
           (Inl err, s1) \<Rightarrow> (Inl err, note_failure (rs_fail_ts env) s1)
         | (Inr _, s1) \<Rightarrow>
             if poisoned s1 then
               (case write_gap S (gap_ts env) (gap_write env) s1 of
                  (Inl err, s2) \<Rightarrow> (Inl err, s2)
                | (Inr _, s2) \<Rightarrow> write_event S (ev_ts env) (ev_write env) e s2)
             else write_event S (ev_ts env) (ev_write env) e s1)
      else write_event S (ev_ts env) (ev_write env) e s)"

subsection \<open>Nothing is ever truncated\<close>

definition extends :: "bytes \<Rightarrow> bytes \<Rightarrow> bool" where
  "extends f f' \<longleftrightarrow> (\<exists>x. f' = f @ x)"

lemma extends_refl [simp, intro]: "extends f f"
  by (simp add: extends_def)

lemma extends_append [simp, intro]: "extends f (f @ x)"
  by (simp add: extends_def)

lemma extends_trans [trans]: "extends f g \<Longrightarrow> extends g h \<Longrightarrow> extends f h"
  by (auto simp: extends_def)

lemma write_all_sync_extends: "write_all_sync w f r = (x, f') \<Longrightarrow> extends f f'"
  by (auto simp: write_all_sync_def split: disk_write.splits)

lemma qmark_extends:
  "qmark r f k = (x, f') \<Longrightarrow> (\<And>y. r = Inr y \<Longrightarrow> k y = (x, f') \<Longrightarrow> extends f f') \<Longrightarrow> extends f f'"
  by (cases r) auto

lemma repair_class_extends:
  "repair_class S meta w ts f cls = (x, f') \<Longrightarrow> extends f f'"
  by (auto simp: repair_class_def Let_def qmark_def split: tail_class.splits sum.splits prod.splits
      dest!: write_all_sync_extends)

lemma finish_open_file: "finish_open S env prot did f = (x, f') \<Longrightarrow> f' = f"
  by (auto simp: finish_open_def Let_def qmark_def split: prod.splits sum.splits option.splits)

lemma after_repair_extends: "after_repair S env sys prot pn bs (y, f1) = (x, f') \<Longrightarrow> extends f1 f'"
  by (auto simp: after_repair_def qmark_def split: sum.splits repair_kind.splits if_splits prod.splits
      dest!: write_all_sync_extends dest: finish_open_file)

lemma open_once_cases:
  assumes "open_once S env sys prot pn stop f = (x, f')"
  obtains "f' = f" and "x = Inr (Unprotected prot) \<or> (\<exists>e. x = Inl e)"
  | cls where "\<not> (stop \<and> \<not> is_protected prot)" and "lock_free env" and "length f \<le> MAX_RECEIPT_BYTES"
      and "f = [] \<or> genesis_pulse S (first_physical_line f) = Some pn" and "classify S f = Inr cls"
      and "after_repair S env sys prot pn f
        (repair_class S (meta_ok env) (repair_write env) (repair_ts env) f cls) = (x, f')"
proof -
  show thesis
  proof (cases "\<not> (stop \<and> \<not> is_protected prot) \<and> lock_free env \<and> read1 env \<and> length f \<le> MAX_RECEIPT_BYTES \<and>
      (f = [] \<or> genesis_pulse S (first_physical_line f) = Some pn) \<and> is_ok (classify S f)")
    case True
    then obtain cls where "classify S f = Inr cls" by (auto simp: is_ok_iff)
    with True assms show thesis
      by (intro that(2) [of cls]) (auto simp: open_once_def read_all_def split: if_splits)
  next
    case False
    with assms show thesis
      by (intro that(1))
        (auto simp: open_once_def read_all_def is_ok_def qmark_def split: if_splits option.splits sum.splits)
  qed
qed

lemma open_once_extends: "open_once S env sys prot pn stop f = (x, f') \<Longrightarrow> extends f f'"
proof (elim open_once_cases)
  fix cls
  assume "after_repair S env sys prot pn f
    (repair_class S (meta_ok env) (repair_write env) (repair_ts env) f cls) = (x, f')"
  then show "extends f f'"
    using repair_class_extends after_repair_extends extends_trans by (metis prod.collapse)
qed simp

lemma note_failure_file [simp]: "content (note_failure ts s) = content s"
  by (simp add: note_failure_def)

lemma count_landed_file [simp]: "content (count_landed S a bs s) = content s"
  by (simp add: count_landed_def Let_def)

lemma write_event_extends: "write_event S ts w e s = (x, s') \<Longrightarrow> extends (content s) (content s')"
  by (auto simp: write_event_def qmark_def Let_def split: sum.splits option.splits prod.splits
      dest!: write_all_sync_extends)

lemma write_gap_extends: "write_gap S ts w s = (x, s') \<Longrightarrow> extends (content s) (content s')"
  by (auto simp: write_gap_def Let_def split: option.splits sum.splits prod.splits
      dest!: write_event_extends)

lemma resync_finish_file: "resync_finish S env s f = (x, s') \<Longrightarrow> content s' = f"
  by (auto simp: resync_finish_def qmark_def Let_def split: sum.splits option.splits)

lemma resync_extends:
  assumes "resync S env s = (x, s')"
  shows "extends (content s) (content s')"
proof -
  have "content s' = content s \<or> (\<exists>cls y. repair_class S (rs_meta env) (rs_write env) (rs_ts env) (content s) cls = (y, content s'))"
    using assms
    by (auto simp: resync_def qmark_def split: sum.splits repair_kind.splits prod.splits
        dest!: resync_finish_file)
  then show ?thesis using repair_class_extends by (metis extends_refl)
qed

lemma append_event_extends: "append_event S env e s = (x, s') \<Longrightarrow> extends (content s) (content s')"
  by (auto simp: append_event_def split: if_splits sum.splits prod.splits
      dest!: write_event_extends write_gap_extends resync_extends intro: extends_trans)

subsection \<open>The invariant of a store\<close>

text \<open>The file passes, and the store stands at its end.\<close>

definition at_end :: "store_lib \<Rightarrow> receipt_store \<Rightarrow> nat \<Rightarrow> bool" where
  "at_end S s n \<longleftrightarrow> n < 2 ^ 64 \<and> next_seq s = of_nat n \<and> chain (jl S) (split_lines (content s)) n (prev s)"

lemma verified_chain:
  "first_break (verify_lines L (Some buf)) = None \<longleftrightarrow>
     chain L (split_lines buf) (rows (verify_lines L (Some buf))) (head (verify_lines L (Some buf)))"
  using unbroken_iff [of L buf False] unfolding verify_lines_def option.case by blast

lemma chain_report:
  assumes "chain L (split_lines buf) n h"
  shows "first_break (verify_lines L (Some buf)) = None" "rows (verify_lines L (Some buf)) = n"
    "head (verify_lines L (Some buf)) = h"
    "report_seq (verify_lines L (Some buf)) = (if n = 0 then None else Some (of_nat (n - 1)))"
proof -
  show "first_break (verify_lines L (Some buf)) = None" "rows (verify_lines L (Some buf)) = n"
    "head (verify_lines L (Some buf)) = h"
    using assms unbroken_iff [of L buf False n h] unfolding verify_lines_def option.case by blast+
  from chain_walk [OF assms, of False] obtain st where "tracks n h st"
    "walk_loop L False (split_lines buf @ []) walk_start = walk_loop L False [] st" by blast
  then show "report_seq (verify_lines L (Some buf)) = (if n = 0 then None else Some (of_nat (n - 1)))"
    by (simp add: verify_lines_def walk_report tracks_def)
qed

lemma next_of_Inr:
  assumes "chain L (split_lines buf) n h"
  shows "next_of (verify_lines L (Some buf)) = Inr m \<longleftrightarrow> n < 2 ^ 64 \<and> m = of_nat n"
proof (cases n)
  case 0
  with chain_report(4) [OF assms] show ?thesis by (auto simp: next_of_def)
next
  case (Suc k)
  then have "k < 2 ^ 64" using chain_lt [OF assms] by simp
  from checked_next [OF this] chain_report(4) [OF assms] Suc show ?thesis
    by (auto simp: next_of_def split: option.splits)
qed

lemma finish_open_Ready:
  assumes "finish_open S env prot did f = (Inr (Ready s op), f')"
  shows "content s = f \<and> f' = f \<and> \<not> poisoned s \<and> dropped s = 0 \<and> (\<exists>n. at_end S s n) \<and>
    open_report op = verify_lines (jl S) (Some f) \<and> orphans op = orphan_streams S f \<and>
    (recovered op, repaired_newline op, recreated op) = did"
proof -
  let ?r = "verify_lines (jl S) (Some f)"
  from assms have nb: "first_break ?r = None"
    by (auto simp: finish_open_def Let_def qmark_Inr_iff read_all_def split: prod.splits if_splits option.splits)
  then have c: "chain (jl S) (split_lines f) (rows ?r) (head ?r)" by (simp only: verified_chain)
  from assms nb show ?thesis
    using next_of_Inr [OF c] c
    by (auto simp: finish_open_def Let_def qmark_Inr_iff read_all_def at_end_def
        split: prod.splits if_splits)
qed

lemma after_repair_finish:
  assumes "after_repair S env sys prot pn bs r = (Inr (Ready s op), f')"
  shows "\<exists>did f1. finish_open S env prot did f1 = (Inr (Ready s op), f')"
proof -
  obtain y f1 where r: "r = (y, f1)" by force
  show ?thesis
  proof (cases "y = Inr RepairNoRow")
    case True
    with assms r obtain line where "(case write_all_sync (genesis_write env) f1 (with_newline line) of
        (Inl e, f2) \<Rightarrow> (Inl e, f2)
      | (Inr _, f2) \<Rightarrow> finish_open S env prot (False, False, True) f2) = (Inr (Ready s op), f')"
      by (auto simp: after_repair_def qmark_Inr_iff split: if_splits)
    then show ?thesis by (cases "write_all_sync (genesis_write env) f1 (with_newline line)") (auto split: sum.splits)
  next
    case False
    with assms r show ?thesis
      by (auto simp: after_repair_def split: sum.splits repair_kind.splits)
  qed
qed

lemma after_repair_Ready:
  assumes "after_repair S env sys prot pn bs r = (Inr (Ready s op), f')"
  shows "content s = f' \<and> \<not> poisoned s \<and> dropped s = 0 \<and> (\<exists>n. at_end S s n) \<and>
    open_report op = verify_lines (jl S) (Some f') \<and> orphans op = orphan_streams S f'"
proof -
  from after_repair_finish [OF assms] obtain did f1
    where "finish_open S env prot did f1 = (Inr (Ready s op), f')" by blast
  from finish_open_Ready [OF this] show ?thesis by auto
qed

subsection \<open>What the codecs promise\<close>

text \<open>
  \<open>serde_json\<close>'s printed text holds no raw newline, and a row or an event that was written and
  reads back is the one that was written.
\<close>

definition store_lib_ok :: "store_lib \<Rightarrow> bool" where
  "store_lib_ok S \<longleftrightarrow> row_codec_ok (jl S) \<and>
     (\<forall>r v t v' r'. ser_row (jl S) r = Some v \<and> canonical (jl S) v = Inr t \<longrightarrow>
        newline \<notin> set t \<and> (parse (jl S) t = Some v' \<and> de_row (jl S) v' = Inr r' \<longrightarrow> r' = r)) \<and>
     (\<forall>e j p e'. ser_event S e = Some j \<and> de_event (jl S) p j = Inr e' \<longrightarrow> e' = e)"

lemma encode_line_Inr:
  assumes ok: "store_lib_ok S" and enc: "encode_line S seq pv ts e = Inr line"
  shows "length line \<le> Chain.MAX_LINE_BYTES" and "newline \<notin> set line"
    and "\<exists>a. check_row (jl S) \<lparr>phys_number = n, phys_offset = i, phys_bytes = line, has_newline = True\<rparr> seq pv = Inr a \<and>
      acc_event a = e"
proof -
  let ?p = "\<lparr>phys_number = 1, phys_offset = 0, phys_bytes = line, has_newline = True\<rparr>"
  from enc obtain j v where j: "ser_event S e = Some j"
    and v: "ser_row (jl S) \<lparr>row_v = 1, row_seq = seq, row_prev = pv, row_ts = ts, row_e = j\<rparr> = Some v"
      "canonical (jl S) v = Inr line"
    and len: "length line \<le> Chain.MAX_LINE_BYTES" and acc: "accepts_line (jl S) line seq pv"
    by (auto simp: encode_line_def split: option.splits sum.splits if_splits)
  from ok v show "newline \<notin> set line" unfolding store_lib_ok_def by blast
  from len show "length line \<le> Chain.MAX_LINE_BYTES" .
  from acc obtain a where a: "check_row (jl S) ?p seq pv = Inr a" by (auto simp: accepts_line_def is_ok_iff)
  from check_row_Inr [OF a] obtain v' r where f: "parse_text (jl S) line = Some v'" "de_row (jl S) v' = Inr r"
    "de_event (jl S) is_principal (row_e r) = Inr (acc_event a)" by auto
  then have "parse (jl S) line = Some v'" by (auto simp: parse_text_def split: if_splits)
  with ok v f(2) have "r = \<lparr>row_v = 1, row_seq = seq, row_prev = pv, row_ts = ts, row_e = j\<rparr>"
    unfolding store_lib_ok_def by blast
  with f(3) have "de_event (jl S) is_principal j = Inr (acc_event a)" by simp
  with ok j have "acc_event a = e" unfolding store_lib_ok_def by blast
  moreover have "check_row (jl S) \<lparr>phys_number = n, phys_offset = i, phys_bytes = line, has_newline = True\<rparr> seq pv = Inr a"
    using a check_row_bytes [of "\<lparr>phys_number = n, phys_offset = i, phys_bytes = line, has_newline = True\<rparr>" ?p] by simp
  ultimately show "\<exists>a. check_row (jl S) \<lparr>phys_number = n, phys_offset = i, phys_bytes = line, has_newline = True\<rparr> seq pv = Inr a \<and>
      acc_event a = e" by blast
qed

lemma chain_encoded:
  assumes ok: "store_lib_ok S" and c: "chain (jl S) (split_lines f) n h" and n: "n < 2 ^ 64"
    and enc: "encode_line S (of_nat n) h ts e = Inr line" and nr: "\<not> is_recover e"
  shows "chain (jl S) (split_lines (f @ with_newline line)) (Suc n) (sha256_hex (jl S) line)"
proof -
  note el = encode_line_Inr [OF ok enc]
  from el(3) obtain a where a: "check_row (jl S) \<lparr>phys_number = 1, phys_offset = 0, phys_bytes = line,
      has_newline = True\<rparr> (of_nat n) h = Inr a" "acc_event a = e" by metis
  from ok have rc: "row_codec_ok (jl S)" by (simp add: store_lib_ok_def)
  from accepted_line_extends' [OF rc c n el(2,1) a(1)] a(2) nr show ?thesis by (simp add: with_newline_def)
qed

lemma resync_Inr:
  assumes "resync S env s = (Inr u, s1)"
  shows "\<exists>f. resync_finish S env s f = (Inr u, s1)"
proof -
  from assms obtain k f where "(case k of
      RepairNoRow \<Rightarrow> (Inl RowUnbuilt, s\<lparr>content := f\<rparr>)
    | RepairBroken note \<Rightarrow> (Inl (Broken (note_line note) (note_reason note)), s\<lparr>content := f\<rparr>)
    | RepairReady \<Rightarrow> resync_finish S env s f
    | RepairNewline \<Rightarrow> resync_finish S env s f
    | RepairRecovered \<Rightarrow> resync_finish S env s f) = (Inr u, s1)"
    by (auto simp: resync_def qmark_Inr_iff case_step_Inr)
  then show ?thesis by (cases k) auto
qed

lemma resync_at_end:
  assumes "resync S env s = (Inr u, s1)"
  shows "\<exists>n. at_end S s1 n" and "poisoned s1 \<Longrightarrow> poisoned s"
proof -
  from resync_Inr [OF assms] obtain f where k: "resync_finish S env s f = (Inr u, s1)" ..
  let ?r = "verify_lines (jl S) (Some f)"
  from k have nb: "first_break ?r = None"
    by (auto simp: resync_finish_def Let_def qmark_Inr_iff read_all_def split: option.splits if_splits)
  then have c: "chain (jl S) (split_lines f) (rows ?r) (head ?r)" by (simp only: verified_chain)
  from k nb obtain m where m: "next_of ?r = Inr m"
    "s1 = (count_landed S (next_seq s) f (s\<lparr>content := f\<rparr>))\<lparr>next_seq := m, prev := head ?r\<rparr>"
    by (auto simp: resync_finish_def Let_def qmark_Inr_iff read_all_def split: if_splits)
  with next_of_Inr [OF c] c have "at_end S s1 (rows ?r)" by (auto simp: at_end_def)
  then show "\<exists>n. at_end S s1 n" ..
  from m(2) show "poisoned s1 \<Longrightarrow> poisoned s"
    by (auto simp: count_landed_def Let_def split: if_splits)
qed

lemma write_event_ok:
  assumes ok: "store_lib_ok S" and at: "at_end S s n" and nr: "\<not> is_recover e"
    and w: "write_event S ts w e s = (Inr h, s')"
  shows "\<exists>line. encode_line S (of_nat n) (prev s) ts e = Inr line \<and>
    s' = s\<lparr>content := content s @ with_newline line, prev := sha256_hex (jl S) line, next_seq := of_nat (Suc n)\<rparr> \<and>
    h = \<lparr>head_seq = of_nat n, head_hash = sha256_hex (jl S) line\<rparr> \<and> at_end S s' (Suc n)"
proof -
  from at have n: "n < 2 ^ 64" "next_seq s = of_nat n" and c: "chain (jl S) (split_lines (content s)) n (prev s)"
    by (auto simp: at_end_def)
  from w obtain line where enc: "encode_line S (next_seq s) (prev s) ts e = Inr line"
    by (auto simp: write_event_def qmark_Inr_iff)
  obtain y f where wr: "write_all_sync w (content s) (with_newline line) = (y, f)" by force
  from w n(2) obtain m where l: "encode_line S (of_nat n) (prev s) ts e = Inr line"
    "write_all_sync w (content s) (with_newline line) = (Inr (), f)" "checked_add_u64 (of_nat n) 1 = Some m"
    "h = \<lparr>head_seq = of_nat n, head_hash = sha256_hex (jl S) line\<rparr>"
    "s' = s\<lparr>content := f, prev := sha256_hex (jl S) line, next_seq := m\<rparr>"
    using enc wr by (cases y) (auto simp: write_event_def qmark_Inr_iff Let_def split: option.splits)
  from l(3) checked_next [OF n(1)] have m: "Suc n < 2 ^ 64" "m = of_nat (Suc n)" by (auto split: if_splits)
  from l(2) have "f = content s @ with_newline line" by (auto simp: write_all_sync_def split: disk_write.splits)
  with l m chain_encoded [OF ok c n(1) l(1) nr] show ?thesis by (auto simp: at_end_def)
qed

subsection \<open>A torn tail\<close>

lemma takeWhile_rev_tail:
  "terminated_bytes p \<Longrightarrow> newline \<notin> set t \<Longrightarrow> takeWhile (\<lambda>b. b \<noteq> newline) (rev (p @ t)) = rev t"
  by (cases p rule: rev_cases) (auto simp: terminated_bytes_def takeWhile_append)

lemma split_last_tail:
  assumes "terminated_bytes p" and "newline \<notin> set t" and "t \<noteq> []"
  shows "split_last (p @ t) = (p, t, False)"
proof -
  have "last (p @ t) \<noteq> newline" using assms(2,3) by (metis last_appendR last_in_set)
  then show ?thesis
    using takeWhile_rev_tail [OF assms(1,2)] by (simp add: split_last_def after_last_newline_def Let_def)
qed

lemma tail_breaks:
  assumes c: "chain L (split_lines f) n h" and t: "newline \<notin> set t" "parse_text L t = None"
  shows "first_break (verify_lines L (Some (f @ t @ [newline]))) \<noteq> None"
proof
  assume "first_break (verify_lines L (Some (f @ t @ [newline]))) = None"
  then obtain m k where m: "chain L (split_lines (f @ t @ [newline])) m k" using verified_chain by blast
  note sp = split_lines_append [OF chain_terminated [OF c] t(1)]
  from m sp obtain j where "m = Suc j" by (cases m) (auto elim: chain_0E)
  with m have "chain L (split_lines (f @ t @ [newline])) (Suc j) k" by simp
  from chain_last [OF this] obtain ps ts line g a where
    l: "split_lines (f @ t @ [newline]) = ps @ ts @ [line]" "check_row L line (of_nat j) g = Inr a" by metis
  from l(1) sp have "phys_bytes line = t" by (metis append_assoc last_snoc phys.select_convs(3))
  with check_row_parses [OF l(2)] t(2) show False by simp
qed

lemma classify_torn:
  assumes c: "chain (jl S) (split_lines f) n h" and n: "0 < n" "n < 2 ^ 64"
    and t: "t \<noteq> []" "newline \<notin> set t" "parse_text (jl S) t = None" "length t \<le> Chain.MAX_LINE_BYTES"
  shows "classify S (f @ t) = Inr (Torn (length f) t True (of_nat n) h)"
proof -
  have tm: "terminated_bytes f" using chain_terminated [OF c] .
  from c n(1) have "f \<noteq> []" by (auto simp: split_lines_def elim: chain.cases)
  with tm have "newline \<in> set f" by (metis last_in_set terminated_bytes_def)
  moreover have "last (f @ t) \<noteq> newline" using t(1,2) by (metis last_appendR last_in_set)
  moreover have "\<not> accepts_line (jl S) t (of_nat n) h"
    using t(3) by (simp add: accepts_line_def check_row_def)
  ultimately show ?thesis
    using tail_breaks [OF c t(2,3)] split_last_tail [OF tm t(2,1)] chain_report [OF c] n t
      next_of_Inr [OF c, of "of_nat n"]
    by (simp add: classify_def Let_def valid_json_value_def)
qed

lemma chain_recovered:
  assumes ok: "store_lib_ok S" and c: "chain (jl S) (split_lines f) n h" and n: "n < 2 ^ 64"
    and t: "newline \<notin> set t" "parse_text (jl S) t = None" "length t \<le> Chain.MAX_LINE_BYTES"
    and len: "length f < 2 ^ 64"
    and enc: "encode_line S (of_nat n) h ts
      (Recover (of_nat (length f)) (of_nat (length t)) (sha256_hex (jl S) t)) = Inr line"
  shows "chain (jl S) (split_lines (f @ t @ newline # with_newline line)) (Suc n) (sha256_hex (jl S) line)"
proof -
  let ?torn = "\<lparr>phys_number = 1 + length (split_lines f), phys_offset = length f, phys_bytes = t, has_newline = True\<rparr>"
  let ?nxt = "\<lparr>phys_number = 2 + length (split_lines f), phys_offset = length f + length t + 1, phys_bytes = line, has_newline = True\<rparr>"
  note el = encode_line_Inr [OF ok enc]
  from el(3) [of "phys_number ?nxt" "phys_offset ?nxt"] obtain a where
    a: "check_row (jl S) ?nxt (of_nat n) h = Inr a"
      "acc_event a = Recover (of_nat (length f)) (of_nat (length t)) (sha256_hex (jl S) t)" by auto
  have "unat (of_nat (length f) :: u64) = length f" "unat (of_nat (length t) :: u64) = length t"
    using len t(3) by (simp_all add: unat_of_nat Chain.MAX_LINE_BYTES_def)
  then have m: "matching_recover (jl S) ?nxt ?torn (of_nat n) h = Some a"
    using a el(1) by (simp add: matching_recover_def)
  have "torn_payload (jl S) ?torn" using t(2) by (simp add: torn_payload_def)
  from chain_recover [OF c n _ this m] t(3)
  have ch: "chain (jl S) (split_lines f @ [?torn, ?nxt]) (Suc n) (acc_hash a)" by simp
  have tf: "terminated_bytes (f @ t @ [newline])" by (simp add: terminated_bytes_def)
  have "split_lines (f @ t @ newline # with_newline line) = split_lines f @ [?torn, ?nxt]"
    using split_lines_append [OF tf el(2)] split_lines_append [OF chain_terminated [OF c] t(1)]
    by (simp add: with_newline_def)
  moreover from ok have "row_codec_ok (jl S)" by (simp add: store_lib_ok_def)
  from check_row_hash(1) [OF this a(1)] have "acc_hash a = sha256_hex (jl S) line" by simp
  ultimately show ?thesis using ch by simp
qed

subsection \<open>A concrete store, for the witnesses\<close>

definition demo_store :: "(bool \<Rightarrow> receipt_event) \<Rightarrow> store_lib" where
  "demo_store ev = \<lparr>
     jl = demo_lib ev,
     ser_event = (\<lambda>e. if e = Genesis ''0'' then Some JNull else if e = ev True then Some (JBool True)
       else if e = ev False then Some (JBool False) else None),
     text_row = (\<lambda>s. if s = obj_line CHR ''1'' then Some (demo_row CHR ''1'') else None)\<rparr>"

definition demo_file :: bytes where
  "demo_file = obj_line CHR ''0'' @ [newline]"

definition demo_ready :: receipt_store where
  "demo_ready = \<lparr>content = demo_file, next_seq = 1, prev = hex (replicate 32 CHR 0x11), poisoned = False,
     dropped = 0, gap_first = None, gap_last = None\<rparr>"

lemma demo_store_simps [simp]: "jl (demo_store ev) = demo_lib ev"
  by (simp add: demo_store_def)

lemma demo_store_ok: "ev True \<noteq> Genesis ''0'' \<Longrightarrow> ev False \<noteq> Genesis ''0'' \<Longrightarrow> store_lib_ok (demo_store ev)"
proof -
  assume d: "ev True \<noteq> Genesis ''0''" "ev False \<noteq> Genesis ''0''"
  have "newline \<notin> set t \<and> (parse (demo_lib ev) t = Some v' \<and> de_row (demo_lib ev) v' = Inr r' \<longrightarrow> r' = r)"
    if v: "ser_row (demo_lib ev) r = Some v" "canonical (demo_lib ev) v = Inr t" for r v t v' r'
  proof -
    from v(1) consider "r = demo_row CHR ''0'' \<and> v = obj_value CHR ''0''"
      | "r = demo_row CHR ''1'' \<and> v = obj_value CHR ''1''" | "r = demo_row CHR ''2'' \<and> v = obj_value CHR ''2''"
      by (auto simp: demo_lib_def split: if_splits)
    then show ?thesis
      using v(2) obj_line_simps(1-3) demo_parse [of ev] by cases (auto simp: demo_canonical demo_de parse_text_def split: if_splits)
  qed
  moreover have "e' = e" if "ser_event (demo_store ev) e = Some j" "de_event (demo_lib ev) p j = Inr e'" for e j p e'
    using that d by (auto simp: demo_store_def demo_lib_def split: if_splits)
  ultimately show ?thesis using demo_row_codec unfolding store_lib_ok_def demo_store_simps by blast
qed

lemma demo_ready_at_end: "at_end (demo_store ev) demo_ready 1"
  using demo_chain0 by (simp add: at_end_def demo_ready_def demo_file_def)

lemma demo_encode1:
  assumes "\<not> is_genesis (ev True)" "gap_ok (demo_lib ev) (ev True)" "digests_ok (ev True)"
  shows "encode_line (demo_store ev) 1 (hex (replicate 32 CHR 0x11)) demo_ts (ev True) = Inr (obj_line CHR ''1'')"
proof -
  have "ser_event (demo_store ev) (ev True) = Some (JBool True)"
    using assms(1) by (auto simp: demo_store_def is_genesis_def)
  moreover have "\<lparr>row_v = 1, row_seq = 1, row_prev = hex (replicate 32 CHR 0x11), row_ts = demo_ts, row_e = JBool True\<rparr>
      = demo_row CHR ''1''" by (simp add: demo_row_def)
  ultimately show ?thesis
    using demo_check1 [OF assms] by (simp add: encode_line_def demo_ser demo_canonical accepts_line_def MAX_LINE_BYTES_def is_ok_def)
qed

lemma demo_encode2:
  assumes "\<not> is_genesis (ev False)" "gap_ok (demo_lib ev) (ev False)" "digests_ok (ev False)" "ev False \<noteq> ev True"
  shows "encode_line (demo_store ev) 2 (hex (replicate 32 CHR 0x22)) demo_ts (ev False) = Inr (obj_line CHR ''2'')"
proof -
  have "ser_event (demo_store ev) (ev False) = Some (JBool False)"
    using assms by (auto simp: demo_store_def is_genesis_def)
  moreover have "\<lparr>row_v = 1, row_seq = 2, row_prev = hex (replicate 32 CHR 0x22), row_ts = demo_ts, row_e = JBool False\<rparr>
      = demo_row CHR ''2''" by (simp add: demo_row_def)
  ultimately show ?thesis
    using demo_check2 [OF assms(1-3)] by (simp add: encode_line_def demo_ser demo_canonical accepts_line_def MAX_LINE_BYTES_def is_ok_def)
qed

lemma demo_sha_hex: "sha256_hex (demo_lib ev) (obj_line CHR ''1'') = hex (replicate 32 CHR 0x22)"
  by (simp add: sha256_hex_def demo_sha)

lemma demo_report: "first_break (verify_lines (demo_lib ev) (Some demo_file)) = None"
  "next_of (verify_lines (demo_lib ev) (Some demo_file)) = Inr 1"
  "head (verify_lines (demo_lib ev) (Some demo_file)) = hex (replicate 32 CHR 0x11)"
  using chain_report [OF demo_chain0] next_of_Inr [OF demo_chain0] by (simp_all add: demo_file_def)

lemma demo_accepts0: "accepts_line (demo_lib ev) (obj_line CHR ''0'') 0 GENESIS_PREV"
  using demo_check0 by (simp add: accepts_line_def is_ok_def)

lemma demo_classify: "classify (demo_store ev) demo_file = Inr ClassReady"
proof -
  have "takeWhile (\<lambda>b. b \<noteq> newline) (rev (obj_line CHR ''0'')) = rev (obj_line CHR ''0'')"
    using obj_line_simps(1) by (simp add: takeWhile_eq_all_conv)
  then have "split_last demo_file = ([], obj_line CHR ''0'', True)"
    by (simp add: split_last_def demo_file_def after_last_newline_def Let_def del: takeWhile_eq_all_conv)
  moreover have "chain (demo_lib ev) (split_lines []) 0 GENESIS_PREV"
    by (simp add: split_lines_def chain_nil)
  note chain_report [OF this] next_of_Inr [OF this, of 0]
  ultimately show ?thesis
    using demo_accepts0 by (simp add: classify_def) (simp add: demo_file_def)
qed

lemma demo_str_lines: "str_lines demo_file = [obj_line CHR ''0'']"
  "str_lines (demo_file @ with_newline (obj_line CHR ''1'')) = [obj_line CHR ''0'', obj_line CHR ''1'']"
  by (simp_all add: str_lines_def demo_file_def obj_line_def with_newline_def newline_def Let_def)

lemma demo_genesis_pulse: "genesis_pulse (demo_store ev) (obj_line CHR ''0'') = Some ''0''"
  using demo_accepts0 demo_parse(1) by (simp add: genesis_pulse_def) (simp add: obj_value_def obj_line_def json_get_def)

lemma demo_first_line: "first_physical_line demo_file = obj_line CHR ''0''"
  using obj_line_simps(1) by (simp add: first_physical_line_def demo_file_def takeWhile_eq_all_conv takeWhile_append)

definition calm_open :: open_env where
  "calm_open = \<lparr>lock_free = True, read1 = True, read2 = True, meta_ok = True, repair_write = WriteFine,
     genesis_write = WriteFine, repair_ts = demo_ts, genesis_ts = demo_ts\<rparr>"

definition append_with :: "disk_write \<Rightarrow> append_env" where
  "append_with w = \<lparr>rs_read1 = True, rs_read2 = True, rs_meta = True, rs_write = WriteFine, rs_ts = demo_ts,
     rs_fail_ts = demo_ts, gap_ts = demo_ts, gap_write = WriteFine, ev_ts = demo_ts, ev_write = w\<rparr>"

definition demo_prot :: protection where
  "demo_prot = \<lparr>systemd_fd = False, owner_root = True, mode_safe = True, append_flag = True, parent_safe = True\<rparr>"

lemma demo_open:
  "\<exists>s op. open_once (demo_store ev) calm_open False prot ''0'' False demo_file = (Inr (Ready s op), demo_file)"
  using demo_report [of ev]
  by (simp add: open_once_def calm_open_def read_all_def demo_classify demo_first_line demo_genesis_pulse
      repair_class_def after_repair_def finish_open_def Let_def)
    (simp add: demo_file_def MAX_RECEIPT_BYTES_def)

lemma demo_stop: "\<not> is_genesis (ShutdownEv r)" "gap_ok L (ShutdownEv r)" "digests_ok (ShutdownEv r)"
  "\<not> is_recover (ShutdownEv r)" "\<not> is_gap (ShutdownEv r)"
  by (simp_all add: is_genesis_def gap_ok_def is_recover_def is_gap_def)

subsection \<open>Properties\<close>

text \<open>
  Nothing in a receipt file is ever truncated or rewritten: whatever the disk does, an open
  and an append leave the file they found, with bytes added at its end at most.
\<close>

theorem store_only_extends:
  "extends f (snd (open_once S env sys prot pn stop f)) \<and>
   extends (content s) (content (snd (append_event S env' e s)))"
  using open_once_extends append_event_extends by (metis prod.collapse)

text \<open>
  A file that is not this pulse's is left alone. An open writes nothing when protection is
  required and missing, or when the file is not empty and its first line is not this pulse's
  genesis row, and it does not return a store.
\<close>

theorem foreign_file_untouched:
  assumes "stop \<and> \<not> is_protected prot \<or> f \<noteq> [] \<and> genesis_pulse S (first_physical_line f) \<noteq> Some pn"
  shows "snd (open_once S env sys prot pn stop f) = f \<and>
    (\<forall>s op. fst (open_once S env sys prot pn stop f) \<noteq> Inr (Ready s op))"
proof -
  obtain x f' where o: "open_once S env sys prot pn stop f = (x, f')" by force
  from open_once_cases [OF o] assms show ?thesis unfolding o by (cases rule: open_once_cases [OF o]) auto
qed

theorem foreign_file_untouched_witness:
  "snd (open_once \<lparr>jl = demo_lib (\<lambda>_. ShutdownEv ''stop''), ser_event = (\<lambda>_. None), text_row = (\<lambda>_. None)\<rparr>
     calm_open False demo_prot ''other'' False ''junk'') = ''junk''"
proof -
  have "genesis_pulse \<lparr>jl = demo_lib (\<lambda>_. ShutdownEv ''stop''), ser_event = (\<lambda>_. None), text_row = (\<lambda>_. None)\<rparr>
      (first_physical_line ''junk'') \<noteq> Some ''other''"
    by (simp add: genesis_pulse_def first_physical_line_def accepts_line_def check_row_def parse_text_def
        demo_lib_def obj_line_def newline_def)
  then show ?thesis by (intro conjunct1 [OF foreign_file_untouched]) simp
qed

text \<open>
  A store that opened stands at the end of a file that passes: its file verifies without a
  break, the next row it writes has the next sequence number and the head as its \<open>prev\<close>, it is not
  poisoned, and the report and the orphans it returns are those of that file.
\<close>

theorem opened_store_at_end:
  assumes "open_once S env sys prot pn stop f = (Inr (Ready s op), f')"
  shows "content s = f' \<and> \<not> poisoned s \<and> dropped s = 0 \<and>
    first_break (verify_lines (jl S) (Some f')) = None \<and>
    next_seq s = of_nat (rows (verify_lines (jl S) (Some f'))) \<and>
    prev s = head (verify_lines (jl S) (Some f')) \<and>
    open_report op = verify_lines (jl S) (Some f') \<and> orphans op = orphan_streams S f'"
proof -
  from assms have "content s = f' \<and> \<not> poisoned s \<and> dropped s = 0 \<and> (\<exists>n. at_end S s n) \<and>
    open_report op = verify_lines (jl S) (Some f') \<and> orphans op = orphan_streams S f'"
    by (cases rule: open_once_cases) (auto dest: after_repair_Ready)
  then show ?thesis using chain_report by (auto simp: at_end_def)
qed

theorem opened_store_at_end_witness:
  "\<exists>s op. open_once (demo_store (\<lambda>_. ShutdownEv ''stop'')) calm_open False demo_prot ''0'' False demo_file = (Inr (Ready s op), demo_file) \<and>
     content s = demo_file \<and> prev s = hex (replicate 32 CHR 0x11)"
proof -
  obtain s op where o: "open_once (demo_store (\<lambda>_. ShutdownEv ''stop'')) calm_open False demo_prot ''0'' False demo_file =
      (Inr (Ready s op), demo_file)" using demo_open by blast
  from opened_store_at_end [OF o] o demo_report(3) [of "\<lambda>_. ShutdownEv ''stop''"] show ?thesis by simp
qed

text \<open>
  An append. On a store at the end of its file a successful append of a stream event adds
  exactly that event's canonical row, with the next sequence number and chained to the head, and
  the store stands at the new end; the head it returns is the row's.
\<close>

theorem append_adds_one_row:
  assumes "store_lib_ok S" and "at_end S s n" and "\<not> poisoned s"
    and "append_event S env e s = (Inr h, s')"
  shows "\<exists>line. encode_line S (of_nat n) (prev s) (ev_ts env) e = Inr line \<and>
    content s' = content s @ with_newline line \<and> h = \<lparr>head_seq = of_nat n, head_hash = sha256_hex (jl S) line\<rparr> \<and>
    at_end S s' (Suc n) \<and> \<not> poisoned s'"
proof -
  from assms(3,4) have "write_event S (ev_ts env) (ev_write env) e s = (Inr h, s')" and nr: "\<not> is_recover e"
    by (auto simp: append_event_def split: if_splits)
  from write_event_ok [OF assms(1,2) nr this(1)] assms(3) show ?thesis by auto
qed

theorem append_adds_one_row_witness:
  "content (snd (append_event (demo_store (\<lambda>_. ShutdownEv ''stop'')) (append_with WriteFine) (ShutdownEv ''stop'') demo_ready)) =
     demo_file @ with_newline (obj_line CHR ''1'')"
proof -
  let ?S = "demo_store (\<lambda>_. ShutdownEv ''stop'')"
  have enc: "encode_line ?S 1 (hex (replicate 32 CHR 0x11)) demo_ts (ShutdownEv ''stop'') = Inr (obj_line CHR ''1'')"
    using demo_encode1 [of "\<lambda>_. ShutdownEv ''stop''"] by (simp add: demo_stop)
  obtain x s' where a: "append_event ?S (append_with WriteFine) (ShutdownEv ''stop'') demo_ready = (x, s')" by force
  with enc obtain h where x: "x = Inr h"
    by (auto simp: append_event_def demo_stop append_with_def demo_ready_def write_event_def write_all_sync_def Let_def
        checked_add_u64_def)
  from append_adds_one_row [OF demo_store_ok demo_ready_at_end _ a [unfolded x]] enc a show ?thesis
    by (auto simp: demo_ready_def append_with_def)
qed

text \<open>
  A failed append poisons and is counted. When the disk fails an append on a sound store, the
  file holds a prefix of the record beyond what it held, one more event is counted as dropped,
  and the first failure's time is kept for the gap row.
\<close>

theorem failed_append_counted:
  assumes "\<not> poisoned s" and "append_event S env e s = (Inl (AppendFailed d), s')"
  shows "poisoned s' \<and> dropped s' = saturating_inc (dropped s) \<and> d = dropped s' \<and>
    gap_first s' = (case gap_first s of None \<Rightarrow> Some (ev_ts env) | Some g \<Rightarrow> Some g) \<and>
    gap_last s' = Some (ev_ts env) \<and> next_seq s' = next_seq s \<and> prev s' = prev s \<and>
    (\<exists>line k. encode_line S (next_seq s) (prev s) (ev_ts env) e = Inr line \<and>
       content s' = content s @ take k (with_newline line))"
proof -
  from assms have "write_event S (ev_ts env) (ev_write env) e s = (Inl (AppendFailed d), s')"
    by (auto simp: append_event_def split: if_splits)
  moreover have never: "encode_line S a b c e \<noteq> Inl (AppendFailed d)" for a b c
    by (auto simp: encode_line_def split: option.splits sum.splits if_splits)
  ultimately obtain line where enc: "encode_line S (next_seq s) (prev s) (ev_ts env) e = Inr line"
    and w: "write_event S (ev_ts env) (ev_write env) e s = (Inl (AppendFailed d), s')"
    by (auto simp: write_event_def qmark_Inl_iff)
  obtain y f where wr: "write_all_sync (ev_write env) (content s) (with_newline line) = (y, f)" by force
  from enc w wr have l: "encode_line S (next_seq s) (prev s) (ev_ts env) e = Inr line"
    "write_all_sync (ev_write env) (content s) (with_newline line) = (Inl StoreIo, f)"
    "s' = note_failure (ev_ts env) (s\<lparr>content := f\<rparr>)" "d = dropped s'"
    by (cases y; auto simp: write_event_def qmark_Inl_iff Let_def write_all_sync_def
        split: option.splits disk_write.splits)+
  then have "\<exists>k. f = content s @ take k (with_newline line)"
    by (auto simp: write_all_sync_def split: disk_write.splits intro: exI [of _ "length (with_newline line)"])
  with l show ?thesis by (auto simp: note_failure_def split: option.splits)
qed

theorem failed_append_counted_witness:
  "poisoned (snd (append_event (demo_store (\<lambda>_. ShutdownEv ''stop'')) (append_with (WriteStops 3)) (ShutdownEv ''stop'') demo_ready))"
proof -
  let ?S = "demo_store (\<lambda>_. ShutdownEv ''stop'')"
  have enc: "encode_line ?S 1 (hex (replicate 32 CHR 0x11)) demo_ts (ShutdownEv ''stop'') = Inr (obj_line CHR ''1'')"
    using demo_encode1 [of "\<lambda>_. ShutdownEv ''stop''"] by (simp add: demo_stop)
  obtain x s' where a: "append_event ?S (append_with (WriteStops 3)) (ShutdownEv ''stop'') demo_ready = (x, s')" by force
  with enc obtain d where x: "x = Inl (AppendFailed d)"
    by (auto simp: append_event_def demo_stop append_with_def demo_ready_def write_event_def write_all_sync_def Let_def)
  from failed_append_counted [OF _ a [unfolded x]] a show ?thesis by (simp add: demo_ready_def)
qed

text \<open>
  The gap. An append on a poisoned store that is still poisoned after its
  resynchronisation first writes one gap row with the number of events dropped so far and the
  times of the first and the last failure, in order, then the event's row; after it the store is
  sound, counts nothing as dropped and stands at the end of a file that passes.
\<close>

theorem poisoned_append_tells_gap:
  assumes "store_lib_ok S" and "poisoned s" and "resync S env s = (Inr (), s1)" and "poisoned s1"
    and "append_event S env e s = (Inr h, s')"
  shows "\<exists>n first lst gap line. gap_first s1 = Some first \<and> gap_last s1 = Some lst \<and> at_end S s1 n \<and>
    encode_line S (of_nat n) (prev s1) (gap_ts env) (Gap (dropped s1) first (if lst < first then first else lst)) = Inr gap \<and>
    encode_line S (of_nat (Suc n)) (sha256_hex (jl S) gap) (ev_ts env) e = Inr line \<and>
    content s' = content s1 @ with_newline gap @ with_newline line \<and>
    \<not> poisoned s' \<and> dropped s' = 0 \<and> at_end S s' (Suc (Suc n))"
proof -
  from resync_at_end [OF assms(3)] obtain n where n: "at_end S s1 n" by blast
  from assms(2-5) have nr: "\<not> is_recover e" by (auto simp: append_event_def split: if_splits)
  obtain x s2 where g: "write_gap S (gap_ts env) (gap_write env) s1 = (x, s2)" by force
  with assms(2-5) have x: "x = Inr ()" and w: "write_event S (ev_ts env) (ev_write env) e s2 = (Inr h, s')"
    by (cases x; auto simp: append_event_def split: if_splits)+
  from g x obtain first lst where fl: "gap_first s1 = Some first" "gap_last s1 = Some lst"
    by (auto simp: write_gap_def split: option.splits)
  let ?e = "Gap (dropped s1) first (if lst < first then first else lst)"
  obtain y s3 where y: "write_event S (gap_ts env) (gap_write env) ?e s1 = (y, s3)" by force
  with g x fl obtain h0 where h0: "y = Inr h0"
    "s2 = s3\<lparr>poisoned := False, dropped := 0, gap_first := None, gap_last := None\<rparr>"
    by (cases y) (auto simp: write_gap_def Let_def)
  have "\<not> is_recover ?e" by (simp add: is_recover_def)
  from write_event_ok [OF assms(1) n this y [unfolded h0(1)]] obtain gap where gap:
    "encode_line S (of_nat n) (prev s1) (gap_ts env) ?e = Inr gap" "at_end S s3 (Suc n)"
    "content s3 = content s1 @ with_newline gap" "prev s3 = sha256_hex (jl S) gap" by auto
  from gap(2) h0(2) have at2: "at_end S s2 (Suc n)" by (simp add: at_end_def)
  from write_event_ok [OF assms(1) at2 nr w] obtain line where line:
    "encode_line S (of_nat (Suc n)) (prev s2) (ev_ts env) e = Inr line"
    "content s' = content s2 @ with_newline line" "poisoned s' = poisoned s2" "dropped s' = dropped s2"
    "at_end S s' (Suc (Suc n))" by auto
  with gap h0(2) n fl show ?thesis by auto
qed

theorem poisoned_append_tells_gap_witness:
  "content (snd (append_event (demo_store (\<lambda>b. if b then Gap 1 demo_ts demo_ts else ShutdownEv ''stop''))
       (append_with WriteFine) (ShutdownEv ''stop'')
       (demo_ready\<lparr>poisoned := True, dropped := 1, gap_first := Some demo_ts, gap_last := Some demo_ts\<rparr>))) =
     demo_file @ with_newline (obj_line CHR ''1'') @ with_newline (obj_line CHR ''2'')"
proof -
  let ?ev = "\<lambda>b. if b then Gap 1 demo_ts demo_ts else ShutdownEv ''stop''" and ?env = "append_with WriteFine"
  let ?s = "demo_ready\<lparr>poisoned := True, dropped := 1, gap_first := Some demo_ts, gap_last := Some demo_ts\<rparr>"
  have gap: "\<not> is_genesis (?ev True)" "gap_ok (demo_lib ?ev) (?ev True)" "digests_ok (?ev True)"
    by (simp_all add: is_genesis_def gap_ok_def demo_ts_rfc)
  have enc1: "encode_line (demo_store ?ev) 1 (hex (replicate 32 CHR 0x11)) demo_ts (Gap 1 demo_ts demo_ts) = Inr (obj_line CHR ''1'')"
    using demo_encode1 [of ?ev, OF gap] by simp
  have enc2: "encode_line (demo_store ?ev) 2 (hex (replicate 32 CHR 0x22)) demo_ts (ShutdownEv ''stop'') = Inr (obj_line CHR ''2'')"
    using demo_encode2 [of ?ev] by (simp add: demo_stop)
  have "\<not> committed_attempt (demo_store ?ev) demo_file 1"
    by (simp add: committed_attempt_def demo_str_lines) (simp add: demo_store_def obj_line_def)
  then have rs: "resync (demo_store ?ev) ?env ?s = (Inr (), ?s)"
    using demo_report [of ?ev]
    by (simp add: resync_def read_all_def demo_ready_def demo_classify repair_class_def append_with_def
        resync_finish_def Let_def count_landed_def) (simp add: demo_file_def MAX_RECEIPT_BYTES_def)
  obtain x s' where a: "append_event (demo_store ?ev) ?env (ShutdownEv ''stop'') ?s = (x, s')" by force
  with rs enc1 enc2 obtain h where x: "x = Inr h"
    by (auto simp: append_event_def demo_stop append_with_def demo_ready_def write_gap_def write_event_def
        write_all_sync_def Let_def checked_add_u64_def demo_sha_hex)
  have ok: "store_lib_ok (demo_store ?ev)" by (rule demo_store_ok) simp_all
  have p: "poisoned ?s" by simp
  from poisoned_append_tells_gap [OF ok p rs p a [unfolded x]] obtain n gap line where
    l: "encode_line (demo_store ?ev) (of_nat n) (prev ?s) demo_ts (Gap 1 demo_ts demo_ts) = Inr gap"
      "encode_line (demo_store ?ev) (of_nat (Suc n)) (sha256_hex (demo_lib ?ev) gap) demo_ts (ShutdownEv ''stop'') = Inr line"
      "content s' = content ?s @ with_newline gap @ with_newline line" "at_end (demo_store ?ev) ?s n"
    by (auto simp: append_with_def)
  from l(4) have n: "of_nat n = (1::u64)" by (simp add: at_end_def demo_ready_def)
  with l(1) enc1 have g: "gap = obj_line CHR ''1''" by (simp add: demo_ready_def)
  with l(2) n enc2 have "line = obj_line CHR ''2''" by (simp add: demo_sha_hex)
  with g l(3) a show ?thesis by (simp add: demo_ready_def)
qed

text \<open>
  C15: a torn tail is repaired, once and with a trace. A file of this pulse that passes, followed
  by a line a crash cut short (no newline, not a JSON value, within the limits), opens when the
  disk works: the torn bytes stay, a recover row that names their offset, length and digest
  follows, and the store stands behind it.
\<close>

theorem torn_tail_recovered:
  assumes "store_lib_ok S" and "chain (jl S) (split_lines f) n h" and "0 < n" and "Suc n < 2 ^ 64"
    and "genesis_pulse S (first_physical_line f) = Some pn"
    and "t \<noteq> []" and "newline \<notin> set t" and "parse_text (jl S) t = None" and "length t \<le> Chain.MAX_LINE_BYTES"
    and "encode_line S (of_nat n) h (repair_ts env)
      (Recover (of_nat (length f)) (of_nat (length t)) (sha256_hex (jl S) t)) = Inr line"
    and "length (f @ t @ newline # with_newline line) \<le> MAX_RECEIPT_BYTES"
    and "lock_free env" and "read1 env" and "read2 env" and "meta_ok env" and "repair_write env = WriteFine"
  shows "\<exists>s op. open_once S env sys prot pn False (f @ t) =
      (Inr (Ready s op), f @ t @ newline # with_newline line) \<and> recovered op \<and> at_end S s (Suc n)"
proof -
  let ?f2 = "f @ t @ newline # with_newline line"
  have n: "n < 2 ^ 64" using assms(4) by simp
  have len: "length f < 2 ^ 64" using assms(11) by (simp add: MAX_RECEIPT_BYTES_def)
  note c2 = chain_recovered [OF assms(1,2) n assms(7,8,9) len assms(10)]
  from c2 have fp: "f \<noteq> []" using assms(2,3) by (auto simp: split_lines_def elim: chain.cases)
  have "newline \<in> set f" using chain_terminated [OF assms(2)] fp by (metis last_in_set terminated_bytes_def)
  then have "first_physical_line (f @ t) = first_physical_line f"
    by (auto simp: first_physical_line_def takeWhile_append1)
  then have gp: "genesis_pulse S (first_physical_line (f @ t)) = Some pn" using assms(5) by simp
  have rep: "repair_class S (meta_ok env) (repair_write env) (repair_ts env) (f @ t)
      (Torn (length f) t True (of_nat n) h) = (Inr RepairRecovered, ?f2)"
    using assms(10,11,15,16)
    by (simp add: repair_class_def ensure_repair_fits_def write_all_sync_def with_newline_def Let_def)
  have "next_of (verify_lines (jl S) (Some ?f2)) = Inr (of_nat (Suc n))"
    using next_of_Inr [OF c2] assms(4) by simp
  then have fin: "\<exists>s op. finish_open S env prot (True, False, False) ?f2 = (Inr (Ready s op), ?f2)"
    using assms(11,14) chain_report(1) [OF c2] by (simp add: finish_open_def read_all_def Let_def)
  then obtain s op where so: "finish_open S env prot (True, False, False) ?f2 = (Inr (Ready s op), ?f2)" by blast
  have "open_once S env sys prot pn False (f @ t) = (Inr (Ready s op), ?f2)"
    using assms(11,12,13) fp gp classify_torn [OF assms(2,3) n assms(6,7,8,9)] rep so
    by (simp add: open_once_def read_all_def after_repair_def)
  moreover from finish_open_Ready [OF so] obtain k where "recovered op" "at_end S s k" "content s = ?f2" by auto
  moreover from this c2 have "k = Suc n"
    using chain_report(2) by (metis at_end_def)
  ultimately show ?thesis by auto
qed

theorem torn_tail_recovered_witness:
  "\<exists>s op. open_once (demo_store (\<lambda>b. if b then Recover 20 1 (hex (replicate 32 CHR 0x33)) else ShutdownEv ''stop''))
     calm_open False demo_prot ''0'' False (demo_file @ ''x'') =
     (Inr (Ready s op), demo_file @ ''x'' @ newline # with_newline (obj_line CHR ''1'')) \<and> recovered op"
proof -
  let ?ev = "\<lambda>b. if b then Recover 20 1 (hex (replicate 32 CHR 0x33)) else ShutdownEv ''stop''"
  have ok: "store_lib_ok (demo_store ?ev)" by (rule demo_store_ok) simp_all
  have c: "chain (jl (demo_store ?ev)) (split_lines demo_file) 1 (hex (replicate 32 CHR 0x11))"
    using demo_chain0 by (simp add: demo_file_def)
  have rec: "\<not> is_genesis (?ev True)" "gap_ok (demo_lib ?ev) (?ev True)" "digests_ok (?ev True)"
    by (simp_all add: is_genesis_def gap_ok_def demo_digests)
  have enc: "encode_line (demo_store ?ev) (of_nat 1) (hex (replicate 32 CHR 0x11)) (repair_ts calm_open)
      (Recover (of_nat (length demo_file)) (of_nat (length ''x'')) (sha256_hex (jl (demo_store ?ev)) ''x'')) = Inr (obj_line CHR ''1'')"
    using demo_encode1 [of ?ev, OF rec]
    by (simp add: calm_open_def demo_file_def sha256_hex_def) (simp add: demo_lib_def obj_line_def)
  have gp: "genesis_pulse (demo_store ?ev) (first_physical_line demo_file) = Some ''0''"
    by (simp add: demo_first_line demo_genesis_pulse)
  have pt: "parse_text (jl (demo_store ?ev)) ''x'' = None"
    by (simp add: parse_text_def demo_lib_def obj_line_def)
  from torn_tail_recovered [OF ok c _ _ gp _ _ pt _ enc, of False demo_prot] show ?thesis
    by (simp add: calm_open_def newline_def with_newline_def demo_file_def MAX_RECEIPT_BYTES_def Chain.MAX_LINE_BYTES_def) blast
qed

lemma classify_ready:
  assumes c: "chain (jl S) (split_lines f) n h" and n: "n < 2 ^ 64"
    and l: "newline \<notin> set line" "accepts_line (jl S) line (of_nat n) h"
  shows "classify S (f @ with_newline line) = Inr ClassReady"
proof -
  have "takeWhile (\<lambda>b. b \<noteq> newline) (rev (f @ line)) = rev line"
    using takeWhile_rev_tail [OF chain_terminated [OF c] l(1)] .
  then have "split_last (f @ with_newline line) = (f, line, True)"
    by (simp add: split_last_def with_newline_def after_last_newline_def butlast_append Let_def)
  then show ?thesis
    using chain_report [OF c] next_of_Inr [OF c, of "of_nat n"] n l(2)
    by (simp add: classify_def) (simp add: with_newline_def)
qed

text \<open>
  A gap told twice. When the disk syncs neither but keeps the gap row of a store that lost two
  events, the append fails and the store counts three; the next resynchronisation finds the row in
  the file, takes one off, and the store, still poisoned, is about to write a gap of two again: the
  two rows tell four lost events, three were lost.
\<close>

theorem gap_told_twice:
  fixes ev :: "bool \<Rightarrow> receipt_event"
  defines "ev \<equiv> (\<lambda>b. if b then Gap 2 demo_ts demo_ts else ShutdownEv ''stop'')"
  defines "s0 \<equiv> demo_ready\<lparr>poisoned := True, dropped := 2, gap_first := Some demo_ts, gap_last := Some demo_ts\<rparr>"
  shows "\<exists>s1 s2. append_event (demo_store ev) ((append_with WriteFine)\<lparr>gap_write := SyncFails\<rparr>) (ShutdownEv ''stop'') s0 =
      (Inl (AppendFailed 3), s1) \<and> content s1 = demo_file @ with_newline (obj_line CHR ''1'') \<and>
    encode_line (demo_store ev) 1 (prev s0) demo_ts (Gap 2 demo_ts demo_ts) = Inr (obj_line CHR ''1'') \<and>
    resync (demo_store ev) (append_with WriteFine) s1 = (Inr (), s2) \<and> content s2 = content s1 \<and>
    poisoned s2 \<and> dropped s2 = 2"
proof -
  let ?env = "append_with WriteFine" and ?f1 = "demo_file @ with_newline (obj_line CHR ''1'')"
  let ?s1 = "s0\<lparr>content := ?f1, dropped := 3\<rparr>"
  let ?s2 = "?s1\<lparr>dropped := 2, next_seq := 2, prev := sha256_hex (demo_lib ev) (obj_line CHR ''1'')\<rparr>"
  have evT: "ev True = Gap 2 demo_ts demo_ts" by (simp add: ev_def)
  have gap: "\<not> is_genesis (ev True)" "gap_ok (demo_lib ev) (ev True)" "digests_ok (ev True)"
    by (simp_all add: evT is_genesis_def gap_ok_def demo_ts_rfc)
  have enc: "encode_line (demo_store ev) 1 (hex (replicate 32 CHR 0x11)) demo_ts (Gap 2 demo_ts demo_ts) = Inr (obj_line CHR ''1'')"
    using demo_encode1 [of ev, OF gap] evT by simp
  have ok: "store_lib_ok (demo_store ev)" by (rule demo_store_ok) (simp_all add: ev_def)
  have c0: "chain (jl (demo_store ev)) (split_lines demo_file) 1 (hex (replicate 32 CHR 0x11))"
    using demo_chain0 by (simp add: demo_file_def)
  have acc: "accepts_line (jl (demo_store ev)) (obj_line CHR ''1'') (of_nat 1) (hex (replicate 32 CHR 0x11))"
    using demo_check1 [OF gap] by (simp add: accepts_line_def is_ok_def)
  note cls = classify_ready [OF c0 _ obj_line_simps(2) acc, simplified]
  have nr: "\<not> is_recover (Gap 2 demo_ts demo_ts)" by (simp add: is_recover_def)
  have "encode_line (demo_store ev) (of_nat 1) (hex (replicate 32 CHR 0x11)) demo_ts (Gap 2 demo_ts demo_ts) = Inr (obj_line CHR ''1'')"
    using enc by simp
  from chain_encoded [OF ok c0 _ this nr]
  have "chain (jl (demo_store ev)) (split_lines ?f1) (Suc 1) (sha256_hex (jl (demo_store ev)) (obj_line CHR ''1''))" by simp
  note c1 = chain_report [OF this, simplified] next_of_Inr [OF this, of 2, simplified]
  have "\<not> committed_attempt (demo_store ev) demo_file 1"
    by (simp add: committed_attempt_def demo_str_lines) (simp add: demo_store_def obj_line_def)
  then have rs0: "resync (demo_store ev) e s0 = (Inr (), s0)" if "rs_read1 e" "rs_read2 e" for e
    using demo_report [of ev] that
    by (simp add: resync_def read_all_def demo_ready_def demo_classify repair_class_def s0_def
        resync_finish_def Let_def count_landed_def) (simp add: demo_file_def MAX_RECEIPT_BYTES_def)
  have a: "append_event (demo_store ev) (?env\<lparr>gap_write := SyncFails\<rparr>) (ShutdownEv ''stop'') s0 = (Inl (AppendFailed 3), ?s1)"
    using rs0 enc
    by (simp add: append_event_def demo_stop append_with_def)
      (simp add: s0_def demo_ready_def write_gap_def write_event_def write_all_sync_def Let_def note_failure_def
        saturating_inc_def saturating_add_u64_def)
  have "committed_attempt (demo_store ev) ?f1 1"
    by (simp add: committed_attempt_def demo_str_lines) (simp add: demo_store_def evT demo_row_simps demo_de is_recover_def obj_line_def demo_file_def with_newline_def newline_def byte_def)
  then have "resync (demo_store ev) ?env ?s1 = (Inr (), ?s2)"
    using cls c1
    by (simp add: resync_def read_all_def repair_class_def append_with_def
        resync_finish_def Let_def count_landed_def saturating_sub_u64_def s0_def demo_ready_def)
      (simp add: demo_file_def MAX_RECEIPT_BYTES_def with_newline_def word_le_nat_alt)
  with a enc show ?thesis by (intro exI [of _ ?s1] exI [of _ ?s2]) (simp add: s0_def demo_ready_def)
qed

end
