(* ===== verification/Intent.thy ===== *)
theory Intent
  imports Control Chain "HOL-Library.Multiset"
begin

text \<open>
  \<open>src/scheduler/intent.rs\<close>: the persistent queue of one-shot intents, the markers that fill it,
  the rate limit, and the drain loop that claims an intent through a lease, executes it and removes
  it only when the claim is still its own. \<open>tenure_still_leads\<close> is from
  \<open>src/scheduler/runner.rs\<close>.

  The queue file is its bytes behind \<open>serde_json\<close>, which is a parameter with the round trip as
  its contract. What the disk answers, the clock, the result of an execution and the tables of
  Unicode are arguments.
\<close>

subsection \<open>Intents\<close>

datatype intent_source = PulseMarker | EventSource bytes | ScheduledTask bytes | UserCli | ChainOf bytes

datatype intent_priority = Low | Normal | High | Urgent

datatype intent_output = Silent | Share | Call

fun priority_rank :: "intent_priority \<Rightarrow> nat" where
  "priority_rank Low = 0"
| "priority_rank Normal = 1"
| "priority_rank High = 2"
| "priority_rank Urgent = 3"

text \<open>The derived \<open>Ord\<close>: the order of the variants.\<close>

instantiation intent_priority :: linorder
begin

definition less_eq_intent_priority :: "intent_priority \<Rightarrow> intent_priority \<Rightarrow> bool" where
  "less_eq_intent_priority a b \<longleftrightarrow> priority_rank a \<le> priority_rank b"

definition less_intent_priority :: "intent_priority \<Rightarrow> intent_priority \<Rightarrow> bool" where
  "less_intent_priority a b \<longleftrightarrow> priority_rank a < priority_rank b"

instance
proof
  fix a b :: intent_priority
  assume "a \<le> b" "b \<le> a"
  then show "a = b" by (cases a; cases b) (simp_all add: less_eq_intent_priority_def)
qed (auto simp: less_eq_intent_priority_def less_intent_priority_def)

end

record intent_chain =
  chain_description :: bytes
  chain_prompt :: bytes
  chain_output :: intent_output

record intent =
  intent_id :: bytes
  description :: bytes
  prompt :: bytes
  origin :: intent_source
  priority :: intent_priority
  created_at :: int
  follow_up :: "intent_chain option"
  output_routing :: intent_output
  depth :: u32

subsection \<open>The queue\<close>

text \<open>\<open>rooted\<close>: \<open>root_dir\<close> is set.\<close>

record intent_queue =
  intents :: "intent list"
  rooted :: bool

definition push :: "intent \<Rightarrow> nat \<Rightarrow> intent_queue \<Rightarrow> bool \<times> intent_queue" where
  "push i max_size q =
     (if max_size \<le> length (intents q) then (False, q)
      else if 2 \<le> length (filter (\<lambda>j. description j = description i) (intents q)) then (False, q)
      else (True, q\<lparr>intents := intents q @ [i]\<rparr>))"

fun best_index :: "intent list \<Rightarrow> nat \<Rightarrow> nat \<Rightarrow> intent list \<Rightarrow> nat" where
  "best_index xs best i [] = best"
| "best_index xs best i (y # ys) =
     best_index xs (if priority (xs ! best) < priority y then i else best) (Suc i) ys"

definition pop_next :: "intent_queue \<Rightarrow> intent option \<times> intent_queue" where
  "pop_next q =
     (if intents q = [] then (None, q)
      else (let b = best_index (intents q) 0 0 (intents q)
            in (Some (intents q ! b), q\<lparr>intents := take b (intents q) @ drop (Suc b) (intents q)\<rparr>)))"

definition sorted_candidates :: "intent_queue \<Rightarrow> intent list" where
  "sorted_candidates q = sort_key (\<lambda>i. - int (priority_rank (priority i))) (intents q)"

definition remove_by_id :: "bytes \<Rightarrow> intent_queue \<Rightarrow> bool \<times> intent_queue" where
  "remove_by_id x q =
     (let kept = filter (\<lambda>i. intent_id i \<noteq> x) (intents q)
      in (length kept < length (intents q), q\<lparr>intents := kept\<rparr>))"

definition remove_intent :: "bytes \<Rightarrow> intent_queue \<Rightarrow> bool \<times> intent_queue" where
  "remove_intent x q =
     (let kept = filter (\<lambda>i. intent_id i \<noteq> x) (intents q)
      in (length kept < length (intents q), q\<lparr>intents := kept\<rparr>))"

definition clear_queue :: "intent_queue \<Rightarrow> intent_queue" where
  "clear_queue q = q\<lparr>intents := []\<rparr>"

subsection \<open>The queue file\<close>

text \<open>\<open>serde_json\<close> on a queue: the intents are the only field it writes.\<close>

record queue_codec =
  q_de :: "bytes \<Rightarrow> intent list option"
  q_ser :: "intent list \<Rightarrow> bytes option"

definition queue_codec_ok :: "queue_codec \<Rightarrow> bool" where
  "queue_codec_ok C \<longleftrightarrow> (\<forall>xs t. q_ser C xs = Some t \<longrightarrow> q_de C t = Some xs \<and> valid_utf8 t)"

record queue_io =
  q_locks :: bool
  q_reads :: bool
  q_writes :: bool
  q_renames :: bool

datatype pulse_error = QueueIo | QueueJson | MarkerJson | MissingField string

text \<open>\<open>intents.json\<close>, \<open>None\<close> when there is none.\<close>

type_synonym queue_file = "bytes option"

definition load :: "queue_codec \<Rightarrow> queue_io \<Rightarrow> queue_file \<Rightarrow> intent_queue" where
  "load C io d =
     (let parsed = (if q_reads io
                    then Option.bind d (\<lambda>t. if valid_utf8 t then q_de C t else None) else None)
      in \<lparr>intents = (case parsed of None \<Rightarrow> [] | Some xs \<Rightarrow> xs), rooted = True\<rparr>)"

definition save :: "queue_codec \<Rightarrow> queue_io \<Rightarrow> intent_queue \<Rightarrow> queue_file \<Rightarrow> (pulse_error + unit) \<times> queue_file" where
  "save C io q d =
     (if rooted q
      then (case q_ser C (intents q) of
          None \<Rightarrow> (Inl QueueJson, d)
        | Some t \<Rightarrow>
            if \<not> q_writes io then (Inl QueueIo, d)
            else if \<not> q_renames io then (Inl QueueIo, d) else (Inr (), Some t))
      else (Inr (), d))"

definition save_delta ::
  "queue_codec \<Rightarrow> queue_io \<Rightarrow> (intent_queue \<Rightarrow> intent_queue) \<Rightarrow> queue_file \<Rightarrow>
     (pulse_error + intent_queue) \<times> queue_file" where
  "save_delta C io apply d =
     (if \<not> q_locks io then (Inl QueueIo, d)
      else (let disk = apply (load C io d)
            in case save C io disk d of
                 (Inl e, d') \<Rightarrow> (Inl e, d')
               | (Inr _, d') \<Rightarrow> (Inr disk, d')))"

subsection \<open>Intents from markers\<close>

text \<open>\<open>value[key].as_str()\<close>: indexing gives \<open>null\<close> where there is nothing.\<close>

definition str_field :: "bytes \<Rightarrow> json \<Rightarrow> bytes option" where
  "str_field k v =
     (case v of
        JObj kvs \<Rightarrow> (case map_of kvs k of Some (JStr s) \<Rightarrow> Some s | _ \<Rightarrow> None)
      | _ \<Rightarrow> None)"

definition trim_matches :: "bytes \<Rightarrow> bytes list \<Rightarrow> bytes list" where
  "trim_matches c cs = rev (dropWhile (\<lambda>x. x = c) (rev (dropWhile (\<lambda>x. x = c) cs)))"

definition intent_slug :: "unicode \<Rightarrow> bytes \<Rightarrow> bytes" where
  "intent_slug U d =
     concat (take 30 (trim_matches ''-''
       (map (\<lambda>c. if alphanumeric U c then c else ''-'') (utf8_chars (lowercase U d)))))"

definition create_intent_from_marker ::
  "json_lib \<Rightarrow> unicode \<Rightarrow> bytes \<Rightarrow> int \<Rightarrow> bytes \<Rightarrow> intent_source \<Rightarrow> pulse_error + intent" where
  "create_intent_from_marker L U uuid now json_str src =
     (case parse L json_str of
        None \<Rightarrow> Inl MarkerJson
      | Some v \<Rightarrow>
          (case str_field ''description'' v of
             None \<Rightarrow> Inl (MissingField ''description'')
           | Some d \<Rightarrow>
               (case str_field ''prompt'' v of
                  None \<Rightarrow> Inl (MissingField ''prompt'')
                | Some p \<Rightarrow>
                    Inr \<lparr>
                      intent_id = ''intent-'' @ intent_slug U d @ ''-'' @ take 8 uuid,
                      description = d, prompt = p, origin = src,
                      priority = (if str_field ''priority'' v = Some ''low'' then Low
                        else if str_field ''priority'' v = Some ''high'' then High
                        else if str_field ''priority'' v = Some ''urgent'' then Urgent else Normal),
                      created_at = now, follow_up = None,
                      output_routing = (if str_field ''output'' v = Some ''share'' then Share
                        else if str_field ''output'' v = Some ''call'' then Call else Silent),
                      depth = 0\<rparr>)))"

definition create_chain_from_marker :: "json_lib \<Rightarrow> bytes \<Rightarrow> pulse_error + intent_chain" where
  "create_chain_from_marker L json_str =
     (case parse L json_str of
        None \<Rightarrow> Inl MarkerJson
      | Some v \<Rightarrow>
          (case str_field ''description'' v of
             None \<Rightarrow> Inl (MissingField ''description'')
           | Some d \<Rightarrow>
               (case str_field ''prompt'' v of
                  None \<Rightarrow> Inl (MissingField ''prompt'')
                | Some p \<Rightarrow>
                    Inr \<lparr>chain_description = d, chain_prompt = p,
                      chain_output = (if str_field ''output'' v = Some ''share'' then Share
                        else if str_field ''output'' v = Some ''call'' then Call else Silent)\<rparr>)))"

subsection \<open>The rate limit and the polling delay\<close>

record rate_tracker =
  timestamps :: "int list"
  max_per_hour :: u32

definition rate_new :: "u32 \<Rightarrow> rate_tracker" where
  "rate_new m = \<lparr>timestamps = [], max_per_hour = m\<rparr>"

definition one_hour :: int where
  "one_hour = int (secs 3600)"

definition record_and_check :: "int \<Rightarrow> rate_tracker \<Rightarrow> bool \<times> rate_tracker" where
  "record_and_check now r =
     (let kept = filter (\<lambda>t. now - one_hour < t) (timestamps r)
      in if max_per_hour r \<le> of_nat (length kept) then (False, r\<lparr>timestamps := kept\<rparr>)
         else (True, r\<lparr>timestamps := kept @ [now]\<rparr>))"

text \<open>\<open>Duration * u32\<close> panics when it overflows: \<open>None\<close>.\<close>

definition poll_delay :: "nat \<Rightarrow> u32 \<Rightarrow> nat option" where
  "poll_delay poll_interval consecutive_empty =
     (if 3 < consecutive_empty
      then (let d = poll_interval * unat (min consecutive_empty 10)
            in if d < secs (2 ^ 64) then Some d else None)
      else Some poll_interval)"

definition empty_streak :: "unicode \<Rightarrow> u32 \<Rightarrow> bytes option \<Rightarrow> u32" where
  "empty_streak U previous output =
     (case output of
        Some s \<Rightarrow> if blank U s then previous + 1 else 0
      | None \<Rightarrow> previous + 1)"

subsection \<open>Claims\<close>

definition INTENT_LEASE_TTL :: nat where
  "INTENT_LEASE_TTL = secs (30 * 60)"

definition intent_resource :: "bytes \<Rightarrow> bytes" where
  "intent_resource i = ''intent-'' @ lease_safe i"

definition tenure_still_leads :: "int \<Rightarrow> durable \<Rightarrow> bytes \<Rightarrow> int \<Rightarrow> bool" where
  "tenure_still_leads M d holder now =
     (case durable_get d CONTROL_PLANE_RESOURCE of
        None \<Rightarrow> False
      | Some l \<Rightarrow> holder_id l = holder \<and> \<not> is_expired M l now)"

definition drain_may_continue :: "int \<Rightarrow> bool \<Rightarrow> durable \<Rightarrow> bytes \<Rightarrow> int \<Rightarrow> bool" where
  "drain_may_continue M isolation d holder now \<longleftrightarrow> \<not> isolation \<and> tenure_still_leads M d holder now"

text \<open>The disk and the clock at the \<open>n\<close>th candidate are \<open>io n\<close> and \<open>clk n\<close>.\<close>

fun claim_next_intent ::
  "wal_codec \<Rightarrow> int \<Rightarrow> (nat \<Rightarrow> append_io) \<Rightarrow> (nat \<Rightarrow> int) \<Rightarrow> nat \<Rightarrow> bytes \<Rightarrow> intent list \<Rightarrow> durable \<Rightarrow>
     intent option \<times> durable" where
  "claim_next_intent K M io clk n holder [] d = (None, d)"
| "claim_next_intent K M io clk n holder (x # xs) d =
     (case durable_acquire K M (io n) d (intent_resource (intent_id x)) holder INTENT_LEASE_TTL (clk n) of
        (Inr _, d') \<Rightarrow> (Some x, d')
      | (Inl (LeaseErr (Held _ _ _)), d') \<Rightarrow> claim_next_intent K M io clk (Suc n) holder xs d'
      | (Inl _, d') \<Rightarrow> (None, d'))"

definition claim_from_queue ::
  "wal_codec \<Rightarrow> int \<Rightarrow> (nat \<Rightarrow> append_io) \<Rightarrow> (nat \<Rightarrow> int) \<Rightarrow> bytes \<Rightarrow> intent_queue \<Rightarrow> durable \<Rightarrow>
     intent option \<times> durable" where
  "claim_from_queue K M io clk holder q d =
     (let candidates = sorted_candidates q
      in if candidates = [] then (None, d) else claim_next_intent K M io clk 0 holder candidates d)"

definition defer_intent :: "wal_codec \<Rightarrow> append_io \<Rightarrow> int \<Rightarrow> bytes \<Rightarrow> intent \<Rightarrow> durable \<Rightarrow> durable" where
  "defer_intent K io now holder x d = snd (durable_release K io d (intent_resource (intent_id x)) holder now)"

text \<open>
  \<open>commit_intent_completion\<close>: whether the intent was removed, the table, the file, and the
  shared copy of the queue.
\<close>

definition commit_intent_completion ::
  "wal_codec \<Rightarrow> int \<Rightarrow> queue_codec \<Rightarrow> queue_io \<Rightarrow> append_io \<Rightarrow> int \<Rightarrow> int \<Rightarrow> bytes \<Rightarrow> bytes \<Rightarrow>
     durable \<Rightarrow> queue_file \<Rightarrow> intent_queue \<Rightarrow> bool \<times> durable \<times> queue_file \<times> intent_queue" where
  "commit_intent_completion K M C qio rio now now2 holder x d f sh =
     (let resource = intent_resource x
      in case durable_renew M d resource holder INTENT_LEASE_TTL now of
           (Inl _, d1) \<Rightarrow> (False, d1, f, sh)
         | (Inr _, d1) \<Rightarrow>
             (case save_delta C qio (\<lambda>q. snd (remove_by_id x q)) f of
                (y, f1) \<Rightarrow>
                  (True, snd (durable_release K rio d1 resource holder now2), f1,
                   case y of Inr merged \<Rightarrow> merged | Inl _ \<Rightarrow> sh)))"

subsection \<open>What an execution queues\<close>

text \<open>\<open>str::replace\<close> with a non-empty pattern: leftmost matches that do not overlap.\<close>

function replace_all :: "bytes \<Rightarrow> bytes \<Rightarrow> bytes \<Rightarrow> bytes" where
  "replace_all p r [] = []"
| "replace_all p r (c # cs) =
     (if p \<noteq> [] \<and> starts_with p (c # cs) then r @ replace_all p r (drop (length p) (c # cs))
      else c # replace_all p r cs)"
  by pat_completeness auto
termination by (relation "measure (\<lambda>(_, _, s). length s)") (auto simp: neq_Nil_conv)

record autonomy_config =
  max_chain_depth :: u32
  max_queue_size :: nat

text \<open>\<open>save_delta\<close> with a \<open>push\<close>, and the refresh of the shared copy.\<close>

definition enqueue ::
  "queue_codec \<Rightarrow> queue_io \<Rightarrow> autonomy_config \<Rightarrow> intent \<Rightarrow> queue_file \<times> intent_queue \<Rightarrow> queue_file \<times> intent_queue" where
  "enqueue C io cfg x fs =
     (case save_delta C io (\<lambda>q. snd (push x (max_queue_size cfg) q)) (fst fs) of
        (Inr merged, f) \<Rightarrow> (f, merged)
      | (Inl _, f) \<Rightarrow> (f, snd fs))"

text \<open>
  What one queued intent takes from outside: the uuid's text, the clock, and the disk.
\<close>

record mint =
  mint_uuid :: bytes
  mint_now :: int
  mint_io :: queue_io

fun queue_requests ::
  "json_lib \<Rightarrow> unicode \<Rightarrow> queue_codec \<Rightarrow> autonomy_config \<Rightarrow> intent \<Rightarrow> (bytes \<times> mint) list \<Rightarrow>
     queue_file \<times> intent_queue \<Rightarrow> queue_file \<times> intent_queue" where
  "queue_requests L U C cfg par [] fs = fs"
| "queue_requests L U C cfg par ((req, mt) # reqs) fs =
     queue_requests L U C cfg par reqs
       (case create_intent_from_marker L U (mint_uuid mt) (mint_now mt) req (ChainOf (intent_id par)) of
          Inl _ \<Rightarrow> fs
        | Inr x \<Rightarrow>
            (let y = x\<lparr>depth := depth par + 1\<rparr>
             in if max_chain_depth cfg < depth y then fs else enqueue C (mint_io mt) cfg y fs))"

text \<open>
  The intent of a chain; \<open>out\<close> is the response without its prediction markers
  (\<open>strip_prediction_markers\<close>).
\<close>

definition chain_intent :: "intent \<Rightarrow> intent_chain \<Rightarrow> bytes \<Rightarrow> mint \<Rightarrow> intent" where
  "chain_intent par ch out mt =
     \<lparr>intent_id = ''chain-'' @ intent_id par @ ''-'' @ take 8 (mint_uuid mt),
      description = chain_description ch, prompt = replace_all ''{result}'' out (chain_prompt ch),
      origin = ChainOf (intent_id par), priority = priority par, created_at = mint_now mt,
      follow_up = None, output_routing = chain_output ch, depth = depth par + 1\<rparr>"

definition queue_chain ::
  "queue_codec \<Rightarrow> autonomy_config \<Rightarrow> intent \<Rightarrow> bytes \<Rightarrow> intent_chain \<Rightarrow> mint \<Rightarrow>
     queue_file \<times> intent_queue \<Rightarrow> queue_file \<times> intent_queue" where
  "queue_chain C cfg par out ch mt fs =
     (if max_chain_depth cfg < depth par + 1 then fs
      else enqueue C (mint_io mt) cfg (chain_intent par ch out mt) fs)"

text \<open>The queue's part of \<open>execute_intent\<close>: intent markers, the first chain marker, the intent's own chain.\<close>

record followups =
  intent_requests :: "(bytes \<times> mint) list"
  chain_requests :: "bytes list"
  chain_mint :: mint
  inline_mint :: mint
  stripped :: bytes

definition queue_followups ::
  "json_lib \<Rightarrow> unicode \<Rightarrow> queue_codec \<Rightarrow> autonomy_config \<Rightarrow> intent \<Rightarrow> followups \<Rightarrow>
     queue_file \<times> intent_queue \<Rightarrow> queue_file \<times> intent_queue" where
  "queue_followups L U C cfg par fu fs =
     (let fs1 = queue_requests L U C cfg par (intent_requests fu) fs;
          fs2 = (case chain_requests fu of
              [] \<Rightarrow> fs1
            | req # _ \<Rightarrow>
                (case create_chain_from_marker L req of
                   Inl _ \<Rightarrow> fs1
                 | Inr ch \<Rightarrow> queue_chain C cfg par (stripped fu) ch (chain_mint fu) fs1))
      in case follow_up par of
           None \<Rightarrow> fs2
         | Some ch \<Rightarrow> queue_chain C cfg par (stripped fu) ch (inline_mint fu) fs2)"

subsection \<open>The drain loop\<close>

text \<open>
  The loop's state: the lease table it shares, the queue file, the shared copy of the queue, its
  rate tracker and streak, and whether it still runs.
\<close>

record drain =
  dr_leases :: durable
  dr_file :: queue_file
  dr_shared :: intent_queue
  dr_rate :: rate_tracker
  dr_streak :: u32
  dr_runs :: bool

text \<open>
  What one turn takes from outside. \<open>others\<close> is what other tenures and writers do to the lease table
  and the file while the intent executes. \<open>executed\<close> is \<open>None\<close> when the execution failed: it
  queues nothing.
\<close>

record turn =
  isolated :: bool
  lead_now :: int
  claim_io :: "nat \<Rightarrow> append_io"
  claim_clk :: "nat \<Rightarrow> int"
  rate_now :: int
  defer_io :: append_io
  defer_now :: int
  executed :: "(bytes \<times> followups) option"
  others :: "durable \<times> queue_file \<Rightarrow> durable \<times> queue_file"
  commit_qio :: queue_io
  commit_io :: append_io
  commit_now :: int
  commit_now2 :: int

record drain_env =
  wal_codec_of :: wal_codec
  clock_max :: int
  json_of :: json_lib
  unicode_of :: unicode
  queue_codec_of :: queue_codec
  autonomy :: autonomy_config
  tenure_holder :: bytes

definition execute_queue :: "drain_env \<Rightarrow> turn \<Rightarrow> intent \<Rightarrow> queue_file \<times> intent_queue \<Rightarrow> queue_file \<times> intent_queue" where
  "execute_queue E t x fs =
     (case executed t of
        None \<Rightarrow> fs
      | Some (_, fu) \<Rightarrow> queue_followups (json_of E) (unicode_of E) (queue_codec_of E) (autonomy E) x fu fs)"

definition drain_execute :: "drain_env \<Rightarrow> turn \<Rightarrow> intent \<Rightarrow> drain \<Rightarrow> drain" where
  "drain_execute E t x s =
     (let (f1, sh1) = execute_queue E t x (dr_file s, dr_shared s);
          (d2, f2) = others t (dr_leases s, f1)
      in case commit_intent_completion (wal_codec_of E) (clock_max E) (queue_codec_of E) (commit_qio t) (commit_io t)
                (commit_now t) (commit_now2 t) (tenure_holder E) (intent_id x) d2 f2 sh1 of
           (_, d3, f3, sh3) \<Rightarrow>
             s\<lparr>dr_leases := d3, dr_file := f3, dr_shared := sh3,
               dr_streak := empty_streak (unicode_of E) (dr_streak s) (map_option fst (executed t))\<rparr>)"

definition drain_turn :: "drain_env \<Rightarrow> turn \<Rightarrow> drain \<Rightarrow> drain" where
  "drain_turn E t s =
     (if \<not> dr_runs s then s
      else if \<not> drain_may_continue (clock_max E) (isolated t) (dr_leases s) (tenure_holder E) (lead_now t)
        then s\<lparr>dr_runs := False\<rparr>
      else (case claim_from_queue (wal_codec_of E) (clock_max E) (claim_io t) (claim_clk t) (tenure_holder E)
                  (dr_shared s) (dr_leases s) of
          (None, d) \<Rightarrow> s\<lparr>dr_leases := d\<rparr>
        | (Some x, d) \<Rightarrow>
            (case record_and_check (rate_now t) (dr_rate s) of
               (False, r) \<Rightarrow>
                 s\<lparr>dr_rate := r,
                   dr_leases := defer_intent (wal_codec_of E) (defer_io t) (defer_now t) (tenure_holder E) x d\<rparr>
             | (True, r) \<Rightarrow> drain_execute E t x (s\<lparr>dr_rate := r, dr_leases := d\<rparr>))))"

subsection \<open>The order of the queue\<close>

lemma best_index_spec:
  assumes "ys = drop i xs" and "best < length xs"
    and "\<forall>j < i. j < length xs \<longrightarrow> priority (xs ! j) \<le> priority (xs ! best)"
    and "\<forall>j < best. priority (xs ! j) < priority (xs ! best)"
    and "b = best_index xs best i ys"
  shows "b < length xs \<and> (\<forall>j < length xs. priority (xs ! j) \<le> priority (xs ! b)) \<and>
    (\<forall>j < b. priority (xs ! j) < priority (xs ! b))"
  using assms
proof (induction ys arbitrary: i best)
  case Nil
  then show ?case by (auto simp: less_le_trans)
next
  case (Cons y ys)
  then have i: "i < length xs" "y = xs ! i" "ys = drop (Suc i) xs"
    by (metis drop_eq_Nil linorder_not_less list.distinct(1), metis nth_via_drop, metis drop_Suc list.sel(3) tl_drop)
  note next_step = Cons.prems(5) [unfolded best_index.simps]
  show ?case
  proof (cases "priority (xs ! best) < priority y")
    case True
    with next_step have "b = best_index xs i (Suc i) ys" by simp
    moreover have "\<forall>j < Suc i. j < length xs \<longrightarrow> priority (xs ! j) \<le> priority (xs ! i)"
      "\<forall>j < i. priority (xs ! j) < priority (xs ! i)"
      using True i(2) Cons.prems(3) i(1) by (auto simp: less_Suc_eq intro: order.strict_implies_order le_less_trans)
    ultimately show ?thesis using Cons.IH i(1,3) by blast
  next
    case False
    with next_step have "b = best_index xs best (Suc i) ys" by simp
    moreover have "\<forall>j < Suc i. j < length xs \<longrightarrow> priority (xs ! j) \<le> priority (xs ! best)"
      using False i(2) Cons.prems(3) by (auto simp: less_Suc_eq)
    ultimately show ?thesis using Cons.IH i(3) Cons.prems(2,4) by blast
  qed
qed

lemma sort_key_first:
  assumes "\<forall>y \<in> set a. f x < f y" and "\<forall>y \<in> set c. f x \<le> (f y :: 'k :: linorder)"
  shows "sort_key f (a @ x # c) = x # sort_key f (a @ c)"
proof (rule properties_for_sort_key)
  show "mset (x # sort_key f (a @ c)) = mset (a @ x # c)" by simp
  show "sorted (map f (x # sort_key f (a @ c)))" using assms by (auto intro: less_imp_le)
  show "filter (\<lambda>z. f k = f z) (x # sort_key f (a @ c)) = filter (\<lambda>z. f k = f z) (a @ x # c)"
    if "k \<in> set (x # sort_key f (a @ c))" for k
  proof -
    have st: "filter (\<lambda>z. f k = f z) (sort_key f (a @ c)) = filter (\<lambda>z. f k = f z) (a @ c)"
      using sort_key_stable [of f "f k" "a @ c"] by (simp add: eq_commute)
    show ?thesis
    proof (cases "f k = f x")
      case True
      then have "filter (\<lambda>z. f k = f z) a = []" using assms(1) by (auto simp: filter_empty_conv)
      with st True show ?thesis by simp
    qed (use st in simp)
  qed
qed

fun pops :: "nat \<Rightarrow> intent_queue \<Rightarrow> intent list" where
  "pops 0 q = []"
| "pops (Suc n) q = (case pop_next q of (None, _) \<Rightarrow> [] | (Some x, q') \<Rightarrow> x # pops n q')"

lemma pop_next_first:
  assumes "intents q \<noteq> []"
  shows "\<exists>x q'. pop_next q = (Some x, q') \<and> sorted_candidates q = x # sorted_candidates q' \<and>
    length (intents q) = Suc (length (intents q'))"
proof -
  let ?xs = "intents q" and ?b = "best_index (intents q) 0 0 (intents q)"
    and ?f = "\<lambda>i :: intent. - int (priority_rank (priority i))"
  have b: "?b < length ?xs" "\<forall>j < length ?xs. priority (?xs ! j) \<le> priority (?xs ! ?b)"
    "\<forall>j < ?b. priority (?xs ! j) < priority (?xs ! ?b)"
    using best_index_spec [of ?xs 0 ?xs 0, OF _ _ _ _ refl] assms by auto
  from b(1) have xs: "?xs = take ?b ?xs @ ?xs ! ?b # drop (Suc ?b) ?xs" by (rule id_take_nth_drop)
  have "sort_key ?f (take ?b ?xs @ ?xs ! ?b # drop (Suc ?b) ?xs) = ?xs ! ?b # sort_key ?f (take ?b ?xs @ drop (Suc ?b) ?xs)"
    using b by (intro sort_key_first)
      (auto simp: in_set_conv_nth less_intent_priority_def less_eq_intent_priority_def)
  with xs assms b(1) show ?thesis
    by (auto simp: pop_next_def sorted_candidates_def Let_def)
qed

subsection \<open>The file as a store of jobs\<close>

text \<open>
  What the drain needs of a store it shares with other writers: a change that reports success was
  made to what the store held at that moment, and one that fails made none. \<open>sees\<close> says that the
  store could be read.
\<close>

locale delta_store =
  fixes view :: "'d \<Rightarrow> 'j list"
    and delta :: "'io \<Rightarrow> ('j list \<Rightarrow> 'j list) \<Rightarrow> 'd \<Rightarrow> ('e + 'j list) \<times> 'd"
    and sees :: "'io \<Rightarrow> bool"
  assumes delta_ok: "sees io \<Longrightarrow> delta io g d = (Inr q, d') \<Longrightarrow> q = g (view d) \<and> view d' = g (view d)"
    and delta_err: "delta io g d = (Inl e, d') \<Longrightarrow> d' = d"
begin

lemma delta_view: "sees io \<Longrightarrow> delta io g d = (y, d') \<Longrightarrow> view d' = g (view d) \<or> d' = d"
  using delta_ok delta_err by (cases y) blast+

lemma delta_keeps:
  assumes "sees io" and "delta io g d = (y, d')" and "j \<in> set (view d)" and "j \<in> set (g (view d))"
  shows "j \<in> set (view d')"
  using delta_view [OF assms(1,2)] assms(3,4) by auto

lemma delta_frame:
  assumes "sees io" and "delta io g d = (y, d')" and "P (view d)" and "P (view d) \<Longrightarrow> P (g (view d))"
  shows "P (view d')"
  using delta_view [OF assms(1,2)] assms(3,4) by auto

end

definition queue_view :: "queue_codec \<Rightarrow> queue_file \<Rightarrow> intent list" where
  "queue_view C d = (case Option.bind d (\<lambda>t. if valid_utf8 t then q_de C t else None) of None \<Rightarrow> [] | Some xs \<Rightarrow> xs)"

text \<open>\<open>save_delta\<close> as such a store: on the list of intents.\<close>

definition queue_delta ::
  "queue_codec \<Rightarrow> queue_io \<Rightarrow> (intent list \<Rightarrow> intent list) \<Rightarrow> queue_file \<Rightarrow> (pulse_error + intent list) \<times> queue_file" where
  "queue_delta C io g d =
     (case save_delta C io (\<lambda>q. q\<lparr>intents := g (intents q)\<rparr>) d of
        (Inl e, d') \<Rightarrow> (Inl e, d') | (Inr q, d') \<Rightarrow> (Inr (intents q), d'))"

lemma load_reads: "q_reads io \<Longrightarrow> load C io d = \<lparr>intents = queue_view C d, rooted = True\<rparr>"
  by (simp add: load_def queue_view_def)

lemma load_rooted [simp]: "rooted (load C io d)"
  by (simp add: load_def Let_def)

lemma save_Inr: "rooted q \<Longrightarrow> queue_codec_ok C \<Longrightarrow> save C io q d = (Inr u, d') \<Longrightarrow> queue_view C d' = intents q"
proof -
  assume "rooted q" "queue_codec_ok C" "save C io q d = (Inr u, d')"
  then obtain t where "q_ser C (intents q) = Some t" "d' = Some t"
    by (cases "q_ser C (intents q)") (simp_all add: save_def split: if_splits)
  with \<open>queue_codec_ok C\<close> show ?thesis by (simp add: queue_view_def queue_codec_ok_def)
qed

lemma save_Inl: "save C io q d = (Inl e, d') \<Longrightarrow> d' = d"
  by (auto simp: save_def split: option.splits if_splits)

interpretation qs: delta_store "queue_view C" "queue_delta C" "\<lambda>io. q_reads io \<and> queue_codec_ok C"
  for C :: queue_codec
proof (unfold_locales, goal_cases)
  case (1 io g d q d')
  then show ?case
    by (auto simp: queue_delta_def save_delta_def Let_def load_reads
        split: prod.splits sum.splits if_splits dest!: save_Inr [rotated 2])
next
  case (2 io g d e d')
  then show ?case
    by (auto simp: queue_delta_def save_delta_def Let_def split: prod.splits sum.splits if_splits dest: save_Inl)
qed

definition push_list :: "intent \<Rightarrow> nat \<Rightarrow> intent list \<Rightarrow> intent list" where
  "push_list x cap xs = intents (snd (push x cap \<lparr>intents = xs, rooted = True\<rparr>))"

lemma push_delta: "snd (push x cap q) = q\<lparr>intents := push_list x cap (intents q)\<rparr>"
  by (simp add: push_def push_list_def)

lemma remove_delta: "snd (remove_by_id x q) = q\<lparr>intents := filter (\<lambda>i. intent_id i \<noteq> x) (intents q)\<rparr>"
  by (simp add: remove_by_id_def Let_def)

lemma save_delta_queue:
  "save_delta C io (\<lambda>q. q\<lparr>intents := g (intents q)\<rparr>) d = (y, d') \<Longrightarrow> \<exists>y'. queue_delta C io g d = (y', d')"
  by (cases y) (auto simp: queue_delta_def)

subsection \<open>What an execution can add\<close>

text \<open>A queue grows by intents that fit: below the cap, at most twice the same description.\<close>

inductive grows :: "nat \<Rightarrow> (intent \<Rightarrow> bool) \<Rightarrow> intent list \<Rightarrow> intent list \<Rightarrow> bool" for cap P where
  grows_refl: "grows cap P xs xs"
| grows_push: "grows cap P xs ys \<Longrightarrow> P x \<Longrightarrow> grows cap P xs (push_list x cap ys)"

lemma grows_trans: "grows cap P ys zs \<Longrightarrow> grows cap P xs ys \<Longrightarrow> grows cap P xs zs"
  by (induction rule: grows.induct) (auto intro: grows.intros)

lemma grows_facts:
  assumes "grows cap P xs ys"
  shows "set xs \<subseteq> set ys \<and> (\<forall>y \<in> set ys. y \<in> set xs \<or> P y) \<and> length ys \<le> max (length xs) cap \<and>
    (\<forall>ds. length (filter (\<lambda>j. description j = ds) ys) \<le> max (length (filter (\<lambda>j. description j = ds) xs)) 2)"
  using assms
proof induction
  case (grows_push ys x)
  then show ?case by (auto simp: push_list_def push_def)
qed auto

lemma enqueue_grows:
  assumes "q_reads io" and "queue_codec_ok C" and "P x" and "enqueue C io cfg x fs = fs'"
  shows "grows (max_queue_size cfg) P (queue_view C (fst fs)) (queue_view C (fst fs'))"
proof -
  obtain y f where d: "save_delta C io (\<lambda>q. snd (push x (max_queue_size cfg) q)) (fst fs) = (y, f)" by force
  with assms(4) have f: "fst fs' = f" by (cases y) (auto simp: enqueue_def)
  from d obtain y' where "queue_delta C io (push_list x (max_queue_size cfg)) (fst fs) = (y', f)"
    using save_delta_queue [of C io "push_list x (max_queue_size cfg)" "fst fs" y f] by (auto simp: push_delta)
  with qs.delta_view assms(1,2) have "queue_view C f = push_list x (max_queue_size cfg) (queue_view C (fst fs)) \<or> f = fst fs"
    by blast
  with f show ?thesis using grows_push [OF grows_refl, of P x] assms(3) grows_refl by metis
qed

definition child_of :: "autonomy_config \<Rightarrow> intent \<Rightarrow> intent \<Rightarrow> bool" where
  "child_of cfg par y \<longleftrightarrow> depth y \<le> max_chain_depth cfg \<and> depth y = depth par + 1 \<and> origin y = ChainOf (intent_id par)"

lemma created_origin: "create_intent_from_marker L U u now req src = Inr x \<Longrightarrow> origin x = src"
  by (auto simp: create_intent_from_marker_def split: option.splits)

lemma queue_requests_grows:
  assumes "\<forall>(req, mt) \<in> set reqs. q_reads (mint_io mt)" and "queue_codec_ok C"
  shows "grows (max_queue_size cfg) (child_of cfg par) (queue_view C (fst fs))
    (queue_view C (fst (queue_requests L U C cfg par reqs fs)))"
  using assms
proof (induction L U C cfg par reqs fs rule: queue_requests.induct)
  case (2 L U C cfg par req mt reqs fs)
  let ?fs1 = "case create_intent_from_marker L U (mint_uuid mt) (mint_now mt) req (ChainOf (intent_id par)) of
      Inl _ \<Rightarrow> fs
    | Inr x \<Rightarrow> (let y = x\<lparr>depth := depth par + 1\<rparr>
        in if max_chain_depth cfg < depth y then fs else enqueue C (mint_io mt) cfg y fs)"
  have "grows (max_queue_size cfg) (child_of cfg par) (queue_view C (fst fs)) (queue_view C (fst ?fs1))"
  proof (cases "create_intent_from_marker L U (mint_uuid mt) (mint_now mt) req (ChainOf (intent_id par))")
    case (Inr x)
    then have "max_chain_depth cfg < depth par + 1 \<or> child_of cfg par (x\<lparr>depth := depth par + 1\<rparr>)"
      using created_origin by (auto simp: child_of_def not_less)
    with Inr 2(2,3) show ?thesis
      by (auto simp: Let_def intro!: grows_refl enqueue_grows [OF _ _ _ refl])
  qed (simp add: grows_refl)
  moreover have "grows (max_queue_size cfg) (child_of cfg par) (queue_view C (fst ?fs1))
      (queue_view C (fst (queue_requests L U C cfg par reqs ?fs1)))"
    using 2 by simp
  ultimately show ?case using grows_trans by simp
qed (simp add: grows_refl)

lemma queue_chain_grows:
  assumes "q_reads (mint_io mt)" and "queue_codec_ok C"
  shows "grows (max_queue_size cfg) (child_of cfg par) (queue_view C (fst fs))
    (queue_view C (fst (queue_chain C cfg par out ch mt fs)))"
  using assms
  by (auto simp: queue_chain_def child_of_def chain_intent_def not_less
      intro!: grows_refl enqueue_grows [OF _ assms(2) _ refl])

definition followups_read :: "followups \<Rightarrow> bool" where
  "followups_read fu \<longleftrightarrow> (\<forall>(req, mt) \<in> set (intent_requests fu). q_reads (mint_io mt)) \<and>
     q_reads (mint_io (chain_mint fu)) \<and> q_reads (mint_io (inline_mint fu))"

lemma queue_followups_grows:
  assumes "followups_read fu" and "queue_codec_ok C"
  shows "grows (max_queue_size cfg) (child_of cfg par) (queue_view C (fst fs))
    (queue_view C (fst (queue_followups L U C cfg par fu fs)))"
proof -
  let ?G = "grows (max_queue_size cfg) (child_of cfg par)"
  define fs1 where "fs1 = queue_requests L U C cfg par (intent_requests fu) fs"
  define fs2 where "fs2 = (case chain_requests fu of [] \<Rightarrow> fs1 | req # _ \<Rightarrow>
    (case create_chain_from_marker L req of Inl _ \<Rightarrow> fs1
     | Inr ch \<Rightarrow> queue_chain C cfg par (stripped fu) ch (chain_mint fu) fs1))"
  have r: "\<forall>(req, mt) \<in> set (intent_requests fu). q_reads (mint_io mt)" "q_reads (mint_io (chain_mint fu))"
    "q_reads (mint_io (inline_mint fu))" using assms(1) by (simp_all add: followups_read_def)
  have 1: "?G (queue_view C (fst fs)) (queue_view C (fst fs1))"
    unfolding fs1_def by (rule queue_requests_grows [OF r(1) assms(2)])
  have 2: "?G (queue_view C (fst fs1)) (queue_view C (fst fs2))"
    unfolding fs2_def using queue_chain_grows [OF r(2) assms(2)]
    by (auto split: list.splits sum.splits intro: grows_refl)
  have "?G (queue_view C (fst fs2)) (queue_view C (fst (queue_followups L U C cfg par fu fs)))"
    using queue_chain_grows [OF r(3) assms(2)]
    by (auto simp: queue_followups_def Let_def fs1_def [symmetric] fs2_def [symmetric] split: option.splits intro: grows_refl)
  with 1 2 show ?thesis using grows_trans by blast
qed

subsection \<open>The rate limit\<close>

text \<open>The times that pass, of a tracker asked at the times \<open>ts\<close>.\<close>

fun accepted_times :: "rate_tracker \<Rightarrow> int list \<Rightarrow> int list" where
  "accepted_times r [] = []"
| "accepted_times r (t # ts) =
     (case record_and_check t r of (b, r') \<Rightarrow> (if b then [t] else []) @ accepted_times r' ts)"

definition in_hour :: "int \<Rightarrow> int \<Rightarrow> bool" where
  "in_hour t x \<longleftrightarrow> t - one_hour < x \<and> x \<le> t"

lemma accepted_later: "x \<in> set (accepted_times r ts) \<Longrightarrow> x \<in> set ts"
  by (induction r ts rule: accepted_times.induct) (auto split: prod.splits if_splits)

lemma length_filter_mono: "(\<And>x. x \<in> set xs \<Longrightarrow> P x \<Longrightarrow> Q x) \<Longrightarrow> length (filter P xs) \<le> length (filter Q xs)"
  by (induction xs) auto

lemma record_length:
  assumes "record_and_check t r = (b, r')" and "length (timestamps r) \<le> unat (max_per_hour r)"
  shows "length (timestamps r') \<le> unat (max_per_hour r')" "max_per_hour r' = max_per_hour r"
    "timestamps r' = filter (\<lambda>x. t - one_hour < x) (timestamps r) @ (if b then [t] else [])"
proof -
  let ?k = "filter (\<lambda>x. t - one_hour < x) (timestamps r)"
  have k: "length ?k \<le> unat (max_per_hour r)" using assms(2) length_filter_le le_trans by blast
  moreover have "unat (max_per_hour r) < 2 ^ 32" using unsigned_less [of "max_per_hour r", where 'a = nat] by simp
  ultimately have "length ?k < 2 ^ 32" by linarith
  then have "max_per_hour r \<le> of_nat (length ?k) \<longleftrightarrow> unat (max_per_hour r) \<le> length ?k"
    by (simp add: word_le_nat_alt unat_of_nat)
  with assms(1) k show "length (timestamps r') \<le> unat (max_per_hour r')" "max_per_hour r' = max_per_hour r"
    "timestamps r' = ?k @ (if b then [t] else [])"
    by (auto simp: record_and_check_def Let_def split: if_splits)
qed

lemma rate_window:
  assumes "sorted (timestamps r @ ts)" and "length (timestamps r) \<le> unat (max_per_hour r)"
  shows "length (filter (in_hour w) (timestamps r @ accepted_times r ts)) \<le> unat (max_per_hour r)"
  using assms
proof (induction ts arbitrary: r)
  case Nil
  then show ?case using length_filter_le [of "in_hour w" "timestamps r"] by (simp del: length_filter_le)
next
  case (Cons t ts)
  obtain b r' where rc: "record_and_check t r = (b, r')" by force
  note r' = record_length [OF rc Cons.prems(2)]
  have "sorted (timestamps r' @ ts)"
    using Cons.prems(1) r'(3) by (auto simp: sorted_append sorted_wrt_filter)
  from Cons.IH [OF this r'(1)] r'(2)
  have IH: "length (filter (in_hour w) (timestamps r' @ accepted_times r' ts)) \<le> unat (max_per_hour r)" by simp
  have acc: "accepted_times r (t # ts) = (if b then [t] else []) @ accepted_times r' ts" by (simp add: rc)
  show ?case
  proof (cases "t \<le> w")
    case True
    then have "in_hour w x \<longleftrightarrow> in_hour w x \<and> t - one_hour < x" for x by (auto simp: in_hour_def)
    then have "filter (in_hour w) (timestamps r) = filter (in_hour w) (filter (\<lambda>x. t - one_hour < x) (timestamps r))"
      by (simp add: filter_filter conj_commute cong: filter_cong)
    with IH r'(3) acc show ?thesis by simp
  next
    case False
    have "\<not> in_hour w x" if "x \<in> set (accepted_times r (t # ts))" for x
    proof -
      from accepted_later [OF that] Cons.prems(1) have "t \<le> x" by (auto simp: sorted_append)
      with False show ?thesis by (simp add: in_hour_def)
    qed
    then have "filter (in_hour w) (accepted_times r (t # ts)) = []" by (simp add: filter_empty_conv)
    moreover have "length (filter (in_hour w) (timestamps r)) \<le> unat (max_per_hour r)"
      using Cons.prems(2) length_filter_le le_trans by blast
    ultimately show ?thesis by simp
  qed
qed

subsection \<open>The commit\<close>

lemma commit_cases:
  assumes "commit_intent_completion K M C qio rio now now2 holder x d f sh = (b, d', f', sh')"
  obtains "\<not> b" and "d' = d" and "f' = f" and "sh' = sh"
  | l y where "b" and "leases (tbl d) (intent_resource x) = Some l" and "holder_id l = holder"
      and "\<not> is_expired M l now" and "queue_delta C qio (filter (\<lambda>i. intent_id i \<noteq> x)) f = (y, f')"
proof -
  let ?r = "intent_resource x"
  obtain z d1 where r: "durable_renew M d ?r holder INTENT_LEASE_TTL now = (z, d1)" by force
  show thesis
  proof (cases z)
    case (Inl e)
    with r durable_error_tbl(3) have "d1 = d" by metis
    with r Inl assms that(1) show thesis by (simp add: commit_intent_completion_def)
  next
    case (Inr u)
    from dl.ren_ok [OF r [unfolded Inr]] obtain l where l: "leases (tbl d) ?r = Some l" "holder_id l = holder"
      "\<not> is_expired M l now" by blast
    obtain y f1 where y: "save_delta C qio (\<lambda>q. snd (remove_by_id x q)) f = (y, f1)" by force
    with r Inr assms have b: "b" "f' = f1" by (auto simp: commit_intent_completion_def)
    from y obtain y' where "queue_delta C qio (filter (\<lambda>i. intent_id i \<noteq> x)) f = (y', f1)"
      using save_delta_queue [of C qio "filter (\<lambda>i. intent_id i \<noteq> x)" f y f1] by (auto simp: remove_delta)
    with that(2) b l show thesis by simp
  qed
qed

text \<open>The turn executed the intent \<open>y\<close>, and left the table to the others as \<open>d\<close>, the file as \<open>f\<close>.\<close>

definition executes :: "drain_env \<Rightarrow> turn \<Rightarrow> drain \<Rightarrow> intent \<Rightarrow> durable \<Rightarrow> queue_file \<Rightarrow> bool" where
  "executes E t s y d f \<longleftrightarrow> dr_runs s \<and>
     drain_may_continue (clock_max E) (isolated t) (dr_leases s) (tenure_holder E) (lead_now t) \<and>
     claim_from_queue (wal_codec_of E) (clock_max E) (claim_io t) (claim_clk t) (tenure_holder E)
       (dr_shared s) (dr_leases s) = (Some y, d) \<and>
     fst (record_and_check (rate_now t) (dr_rate s)) \<and>
     f = fst (execute_queue E t y (dr_file s, dr_shared s))"

lemma execute_queue_keeps:
  assumes "queue_codec_ok (queue_codec_of E)" and "\<forall>out fu. executed t = Some (out, fu) \<longrightarrow> followups_read fu"
    and "x \<in> set (queue_view (queue_codec_of E) (fst fs))"
  shows "x \<in> set (queue_view (queue_codec_of E) (fst (execute_queue E t y fs)))"
proof (cases "executed t")
  case (Some o')
  then obtain out fu where ex: "executed t = Some (out, fu)" by (cases o') auto
  with grows_facts [OF queue_followups_grows [of fu "queue_codec_of E" "autonomy E" y fs "json_of E" "unicode_of E"]] assms
  show ?thesis by (auto simp: execute_queue_def)
qed (simp add: execute_queue_def assms(3))

lemma drain_turn_cases:
  obtains "dr_file (drain_turn E t s) = dr_file s"
  | y d f sh b d' sh' where "executes E t s y d f"
      and "commit_intent_completion (wal_codec_of E) (clock_max E) (queue_codec_of E) (commit_qio t) (commit_io t)
        (commit_now t) (commit_now2 t) (tenure_holder E) (intent_id y) (fst (others t (d, f))) (snd (others t (d, f))) sh =
        (b, d', dr_file (drain_turn E t s), sh')"
proof -
  obtain c d where c: "claim_from_queue (wal_codec_of E) (clock_max E) (claim_io t) (claim_clk t) (tenure_holder E)
       (dr_shared s) (dr_leases s) = (c, d)" by force
  obtain ok r where r: "record_and_check (rate_now t) (dr_rate s) = (ok, r)" by force
  show thesis
  proof (cases "dr_runs s \<and>
      drain_may_continue (clock_max E) (isolated t) (dr_leases s) (tenure_holder E) (lead_now t) \<and> c \<noteq> None \<and> ok")
    case False
    then show thesis
      using c r by (intro that(1)) (cases c; auto simp: drain_turn_def)
  next
    case True
    then obtain y where y: "c = Some y" by blast
    obtain f sh where f: "execute_queue E t y (dr_file s, dr_shared s) = (f, sh)" by force
    have ex: "executes E t s y d f" using True y c r by (simp add: executes_def f)
    have "drain_turn E t s = drain_execute E t y (s\<lparr>dr_rate := r, dr_leases := d\<rparr>)"
      using True y c r by (simp add: drain_turn_def)
    obtain d2 f2 where o: "others t (d, f) = (d2, f2)" by force
    obtain b d' f' sh' where cm: "commit_intent_completion (wal_codec_of E) (clock_max E) (queue_codec_of E)
        (commit_qio t) (commit_io t) (commit_now t) (commit_now2 t) (tenure_holder E) (intent_id y) d2 f2 sh =
        (b, d', f', sh')" by (metis prod_cases3 surj_pair)
    with \<open>drain_turn E t s = _\<close> f o cm have "dr_file (drain_turn E t s) = f'"
      by (simp add: drain_execute_def Let_def)
    with cm o that(2) [OF ex] show thesis by simp
  qed
qed

subsection \<open>A concrete drain, for the witnesses\<close>

definition demo_intent :: intent where
  "demo_intent = \<lparr>intent_id = ''a'', description = ''d'', prompt = ''p'', origin = UserCli, priority = Normal,
     created_at = 0, follow_up = None, output_routing = Silent, depth = 0\<rparr>"

definition demo_child :: intent where
  "demo_child = \<lparr>intent_id = ''chain-a-'', description = ''d'', prompt = ''q'', origin = ChainOf ''a'', priority = Normal,
     created_at = 0, follow_up = None, output_routing = Silent, depth = 1\<rparr>"

definition demo_queue_codec :: queue_codec where
  "demo_queue_codec = \<lparr>
     q_de = (\<lambda>t. if t = ''1'' then Some [demo_intent] else if t = ''0'' then Some []
       else if t = ''2'' then Some [demo_intent, demo_child] else None),
     q_ser = (\<lambda>xs. if xs = [demo_intent] then Some ''1'' else if xs = [] then Some ''0''
       else if xs = [demo_intent, demo_child] then Some ''2'' else None)\<rparr>"

definition calm_queue :: queue_io where
  "calm_queue = \<lparr>q_locks = True, q_reads = True, q_writes = True, q_renames = True\<rparr>"

definition demo_mint :: mint where
  "demo_mint = \<lparr>mint_uuid = [], mint_now = 0, mint_io = calm_queue\<rparr>"

definition demo_followups :: followups where
  "demo_followups = \<lparr>intent_requests = [], chain_requests = [], chain_mint = demo_mint,
     inline_mint = demo_mint, stripped = []\<rparr>"

definition demo_chaining :: intent where
  "demo_chaining = demo_intent\<lparr>follow_up := Some \<lparr>chain_description = ''d'', chain_prompt = ''q'', chain_output = Silent\<rparr>\<rparr>"

lemma demo_queue_ok: "queue_codec_ok demo_queue_codec"
  by (auto simp: queue_codec_ok_def demo_queue_codec_def demo_child_def demo_intent_def byte_def)

lemma demo_view: "queue_view demo_queue_codec (Some ''1'') = [demo_intent]"
  "queue_view demo_queue_codec (Some ''0'') = []" "queue_view demo_queue_codec (Some ''2'') = [demo_intent, demo_child]"
  by (simp_all add: queue_view_def demo_queue_codec_def byte_def)

lemma demo_followups_read: "followups_read demo_followups"
  by (simp add: followups_read_def demo_followups_def demo_mint_def calm_queue_def)

definition any_lines :: wal_codec where
  "any_lines = \<lparr>enc = (\<lambda>_ _. Some ''e''), dec = (\<lambda>_. None)\<rparr>"

definition demo_env :: drain_env where
  "demo_env = \<lparr>wal_codec_of = any_lines, clock_max = 10000000000000, json_of = demo_lib (\<lambda>_. ShutdownEv ''stop''),
     unicode_of = \<lparr>lowercase = (\<lambda>s. s), alphanumeric = (\<lambda>_. True), whitespace = (\<lambda>_. False)\<rparr>,
     queue_codec_of = demo_queue_codec, autonomy = \<lparr>max_chain_depth = 3, max_queue_size = 5\<rparr>,
     tenure_holder = ''p-t1''\<rparr>"

definition demo_turn :: turn where
  "demo_turn = \<lparr>isolated = False, lead_now = 1, claim_io = (\<lambda>_. io_fine), claim_clk = (\<lambda>_. 1), rate_now = 1,
     defer_io = io_fine, defer_now = 1, executed = Some (''out'', demo_followups), others = (\<lambda>df. df),
     commit_qio = calm_queue, commit_io = io_fine, commit_now = 2, commit_now2 = 3\<rparr>"

definition demo_drain :: drain where
  "demo_drain = \<lparr>dr_leases = plane_table, dr_file = Some ''1'',
     dr_shared = \<lparr>intents = [demo_intent], rooted = True\<rparr>, dr_rate = rate_new 1, dr_streak = 0, dr_runs = True\<rparr>"

definition demo_claim :: lease where
  "demo_claim = \<lparr>resource_id = ''intent-a'', holder_id = ''p-t1'', fencing_token = 1, granted_at = 1, ttl = INTENT_LEASE_TTL\<rparr>"

lemma demo_resource: "intent_resource ''a'' = ''intent-a''"
  by (simp add: intent_resource_def lease_safe_def ascii_alphanumeric_def ascii_digit_def byte_def)

lemma id_ok_intent: "id_ok ''intent-a''"
  by (simp add: id_ok_def MAX_ID_BYTES_def id_char_def ascii_alphanumeric_def ascii_digit_def byte_def)

lemma demo_intent_simps: "intent_id demo_intent = ''a''" "follow_up demo_intent = None"
  by (simp_all add: demo_intent_def)

lemma demo_acquire: "durable_acquire any_lines 10000000000000 io_fine plane_table ''intent-a'' ''p-t1'' INTENT_LEASE_TTL 1 =
  (Inr demo_claim, \<lparr>tbl = \<lparr>leases = (leases (tbl plane_table))(''intent-a'' \<mapsto> demo_claim),
     watermarks = (watermarks (tbl plane_table))(''intent-a'' \<mapsto> 1)\<rparr>,
     wal = (wal plane_table)\<lparr>contents := contents (wal plane_table) @ ''e'' @ [newline]\<rparr>\<rparr>)"
  by (simp add: durable_acquire_Inr_iff acquire_Inr_iff wal_append_Inr_iff id_ok_plane id_ok_intent ttl_ok_def
      INTENT_LEASE_TTL_def MAX_TTL_def secs_def demo_claim_def plane_table_def any_lines_def
      next_token_def free_at_def grant_event_def table_get_def write_error_def enc_line_def io_fine_def)

subsection \<open>Properties\<close>

text \<open>
  The two ways to take intents agree. Popping the whole queue one at a time gives the
  intents in the order of \<open>sorted_candidates\<close>: by priority, and first come first served within one.
\<close>

theorem drained_in_order: "pops (length (intents q)) q = sorted_candidates q"
proof (induction "length (intents q)" arbitrary: q)
  case 0
  then show ?case by (simp add: sorted_candidates_def)
next
  case (Suc n)
  then have "intents q \<noteq> []" by auto
  from pop_next_first [OF this] obtain x q' where
    q: "pop_next q = (Some x, q')" "sorted_candidates q = x # sorted_candidates q'"
      "length (intents q) = Suc (length (intents q'))" by blast
  with Suc.hyps(2) Suc.hyps(1) [of q'] show ?case by simp
qed

text \<open>
  The rate limit is a sliding window. Asked at any times that do not go back, a fresh tracker
  lets at most \<open>max_per_hour\<close> executions through in any hour, not only in the hours that end
  at a question.
\<close>

theorem rate_bounded:
  assumes "sorted ts"
  shows "length (filter (in_hour w) (accepted_times (rate_new m) ts)) \<le> unat m"
  using rate_window [of "rate_new m" ts w] assms by (simp add: rate_new_def)

theorem rate_bounded_witness:
  "length (filter (in_hour 3) (accepted_times (rate_new 2) [1, 2, 3])) \<le> 2 \<and>
   accepted_times (rate_new 2) [1, 2, 3] = [1, 2]"
proof -
  have "length (filter (in_hour 3) (accepted_times (rate_new 2) [1, 2, 3])) \<le> unat (2 :: u32)"
    by (rule rate_bounded) simp
  then show ?thesis by (simp add: record_and_check_def rate_new_def one_hour_def secs_def word_le_nat_alt)
qed

text \<open>
  C16: what an execution can queue. Whatever markers a response carries, and as long as every
  read of the queue file that its follow-ups make succeeds (a file that cannot be read is taken for an empty one and
  replaced: \<open>unread_queue_replaced\<close>), the queue keeps every intent it had; each new one is a child of the
  executed intent, one level deeper and not above the depth limit; the length stays within the
  queue's cap and no description appears more than twice, unless the queue was there already.
\<close>

theorem followups_bounded:
  assumes "queue_codec_ok C" and "followups_read fu"
    and "queue_followups L U C cfg par fu (f, sh) = (f', sh')"
  shows "set (queue_view C f) \<subseteq> set (queue_view C f') \<and>
    (\<forall>y \<in> set (queue_view C f'). y \<in> set (queue_view C f) \<or>
       depth y = depth par + 1 \<and> depth y \<le> max_chain_depth cfg \<and> origin y = ChainOf (intent_id par)) \<and>
    length (queue_view C f') \<le> max (length (queue_view C f)) (max_queue_size cfg) \<and>
    (\<forall>ds. length (filter (\<lambda>j. description j = ds) (queue_view C f')) \<le>
       max (length (filter (\<lambda>j. description j = ds) (queue_view C f))) 2)"
  using grows_facts [OF queue_followups_grows [OF assms(2,1), of cfg par "(f, sh)" L U]] assms(3)
  by (auto simp: child_of_def)

theorem followups_bounded_witness:
  "demo_child \<in> set (queue_view demo_queue_codec (Some ''2'')) \<and> depth demo_child = depth demo_chaining + 1 \<and>
   depth demo_child \<le> 3"
proof -
  let ?cfg = "\<lparr>max_chain_depth = 3, max_queue_size = 5\<rparr>"
  have "enqueue demo_queue_codec calm_queue ?cfg demo_child (Some ''1'', x) = (Some ''2'', \<lparr>intents = [demo_intent, demo_child], rooted = True\<rparr>)" for x
    using demo_view by (simp add: enqueue_def save_delta_def load_reads calm_queue_def push_def save_def)
      (simp add: demo_queue_codec_def demo_intent_def demo_child_def)
  moreover have ci: "chain_intent demo_chaining \<lparr>chain_description = ''d'', chain_prompt = ''q'', chain_output = Silent\<rparr> [] demo_mint = demo_child"
    by (simp add: chain_intent_def demo_chaining_def demo_intent_def demo_child_def demo_mint_def starts_with_def)
  moreover have "depth demo_chaining = 0" "follow_up demo_chaining =
      Some \<lparr>chain_description = ''d'', chain_prompt = ''q'', chain_output = Silent\<rparr>" "mint_io demo_mint = calm_queue"
    by (simp_all add: demo_chaining_def demo_intent_def demo_mint_def)
  ultimately have q: "queue_followups (demo_lib (\<lambda>_. ShutdownEv ''stop'')) (unicode_of demo_env) demo_queue_codec ?cfg demo_chaining
      demo_followups (Some ''1'', \<lparr>intents = [], rooted = True\<rparr>) = (Some ''2'', \<lparr>intents = [demo_intent, demo_child], rooted = True\<rparr>)"
    by (simp add: queue_followups_def demo_followups_def queue_chain_def Let_def)
  from followups_bounded [OF demo_queue_ok demo_followups_read q] demo_view show ?thesis
    by (auto simp: demo_child_def demo_intent_def demo_chaining_def)
qed

text \<open>
  C17: an intent is never lost while the queue file can be read. When the reads of the file at the
  commit and for the follow-ups succeed, an intent that was queued is still queued after a turn of the loop,
  unless another writer took it out or this turn executed it and, when it committed, the table
  still held this tenure's unexpired claim on it. (A read that fails empties the queue:
  \<open>unread_queue_replaced\<close>.)
\<close>

theorem intent_survives_until_committed:
  assumes "queue_codec_ok (queue_codec_of E)"
    and "\<forall>out fu. executed t = Some (out, fu) \<longrightarrow> followups_read fu" and "q_reads (commit_qio t)"
    and "x \<in> set (queue_view (queue_codec_of E) (dr_file s))"
    and "x \<notin> set (queue_view (queue_codec_of E) (dr_file (drain_turn E t s)))"
  shows "\<exists>y d f. executes E t s y d f \<and> x \<in> set (queue_view (queue_codec_of E) f) \<and>
    (x \<notin> set (queue_view (queue_codec_of E) (snd (others t (d, f)))) \<or>
     intent_id y = intent_id x \<and>
     (\<exists>l. leases (tbl (fst (others t (d, f)))) (intent_resource (intent_id x)) = Some l \<and>
        holder_id l = tenure_holder E \<and> \<not> is_expired (clock_max E) l (commit_now t)))"
proof (cases rule: drain_turn_cases [of E t s])
  case 1
  with assms(4,5) show ?thesis by simp
next
  case (2 y d f sh b d' sh')
  let ?C = "queue_codec_of E"
  have "x \<in> set (queue_view ?C f)"
    using 2(1) assms(2,4) execute_queue_keeps [OF assms(1)] by (auto simp: executes_def)
  moreover have "intent_id y = intent_id x \<and> (\<exists>l. leases (tbl (fst (others t (d, f)))) (intent_resource (intent_id x)) = Some l \<and>
      holder_id l = tenure_holder E \<and> \<not> is_expired (clock_max E) l (commit_now t))"
    if o: "x \<in> set (queue_view ?C (snd (others t (d, f))))"
    using 2(2)
  proof (cases rule: commit_cases)
    case 1
    with o assms(5) show ?thesis by simp
  next
    case (2 l z)
    have "q_reads (commit_qio t) \<and> queue_codec_ok ?C" using assms(1,3) by simp
    from qs.delta_keeps [OF this 2(5) o] o assms(5) have "intent_id y = intent_id x" by force
    with 2(2-4) show ?thesis by simp
  qed
  ultimately show ?thesis using 2(1) by blast
qed

theorem intent_survives_until_committed_witness:
  "demo_intent \<in> set (queue_view demo_queue_codec (dr_file demo_drain)) \<and>
   demo_intent \<notin> set (queue_view demo_queue_codec (dr_file (drain_turn demo_env demo_turn demo_drain))) \<and>
   (\<exists>y d f l. executes demo_env demo_turn demo_drain y d f \<and>
      leases (tbl d) ''intent-a'' = Some l \<and> holder_id l = ''p-t1'')"
proof -
  note env = demo_env_def demo_turn_def demo_drain_def
  have lead: "tenure_still_leads 10000000000000 plane_table ''p-t1'' 1"
    by (simp add: tenure_still_leads_def durable_get_def table_get_def plane_table_def plane_lease_def
        CONTROL_PLANE_RESOURCE_def is_expired_def expires_at_def from_std_def)
  obtain d where d: "durable_acquire any_lines 10000000000000 io_fine plane_table ''intent-a'' ''p-t1'' INTENT_LEASE_TTL 1 =
      (Inr demo_claim, d)" "leases (tbl d) = (leases (tbl plane_table))(''intent-a'' \<mapsto> demo_claim)"
    using demo_acquire by simp
  then have cl: "claim_from_queue any_lines 10000000000000 (\<lambda>_. io_fine) (\<lambda>_. 1) ''p-t1''
      \<lparr>intents = [demo_intent], rooted = True\<rparr> plane_table = (Some demo_intent, d)"
    by (simp add: claim_from_queue_def sorted_candidates_def demo_intent_simps demo_resource)
  note lead = lead [folded drain_may_continue_def [of _ False, simplified]]
  have rate: "record_and_check 1 (rate_new 1) = (True, \<lparr>timestamps = [1], max_per_hour = 1\<rparr>)"
    by (simp add: record_and_check_def rate_new_def)
  have ex: "executes demo_env demo_turn demo_drain demo_intent d (Some ''1'')"
    using lead cl rate by (simp add: executes_def env execute_queue_def queue_followups_def demo_followups_def demo_intent_simps)
  have "is_ok (fst (durable_renew 10000000000000 d ''intent-a'' ''p-t1'' INTENT_LEASE_TTL 2))"
    using d(2) by (simp add: durable_renew_def table_renew_def table_get_def demo_claim_def is_expired_def expires_at_def from_std_def
        id_ok_intent id_ok_plane validate_id_ok validate_ttl_ok ttl_ok_def INTENT_LEASE_TTL_def MAX_TTL_def secs_def Let_def)
  then obtain u d1 where rn: "durable_renew 10000000000000 d ''intent-a'' ''p-t1'' INTENT_LEASE_TTL 2 = (Inr u, d1)"
    by (metis is_ok_iff prod.exhaust_sel)
  have sd: "save_delta demo_queue_codec calm_queue (\<lambda>q. snd (remove_by_id ''a'' q)) (Some ''1'') =
      (Inr \<lparr>intents = [], rooted = True\<rparr>, Some ''0'')"
    using demo_view by (simp add: save_delta_def load_reads calm_queue_def remove_by_id_def save_def demo_intent_simps)
      (simp add: demo_queue_codec_def)
  have gone: "dr_file (drain_turn demo_env demo_turn demo_drain) = Some ''0''"
    using lead cl rate rn sd
    by (simp add: drain_turn_def env drain_execute_def execute_queue_def queue_followups_def demo_followups_def
        demo_intent_simps commit_intent_completion_def demo_resource)
  have C: "queue_codec_of demo_env = demo_queue_codec" "dr_file demo_drain = Some ''1''" "tenure_holder demo_env = ''p-t1''"
    "others demo_turn = (\<lambda>df. df)" by (simp_all add: env)
  have "followups_read fu" if "executed demo_turn = Some (out, fu)" for out fu
    using that demo_followups_read by (simp add: env)
  then have "\<exists>y d f. executes demo_env demo_turn demo_drain y d f \<and>
      (demo_intent \<notin> set (queue_view demo_queue_codec f) \<or>
       (\<exists>l. leases (tbl d) (intent_resource (intent_id demo_intent)) = Some l \<and> holder_id l = ''p-t1'')) \<and>
      demo_intent \<in> set (queue_view demo_queue_codec f)"
    using intent_survives_until_committed [of demo_env demo_turn demo_intent demo_drain] gone demo_view demo_queue_ok C
    by (auto simp: demo_turn_def calm_queue_def)
  with gone demo_view C show ?thesis by (auto simp: demo_intent_simps demo_resource)
qed

text \<open>
  A queue that cannot be read is replaced. When the queue file cannot be read, or does not
  parse, an intent that is queued takes the place of every intent that was in it.
\<close>

theorem unread_queue_replaced:
  assumes "q_reads io \<longrightarrow> (\<forall>t. d = Some t \<longrightarrow> valid_utf8 t \<longrightarrow> q_de C t = None)"
    and "q_locks io" and "q_writes io" and "q_renames io" and "q_ser C [x] = Some t" and "0 < max_queue_size cfg"
  shows "enqueue C io cfg x (d, sh) = (Some t, \<lparr>intents = [x], rooted = True\<rparr>)"
proof -
  have "load C io d = \<lparr>intents = [], rooted = True\<rparr>"
    using assms(1) by (cases d) (auto simp: load_def)
  then show ?thesis using assms by (simp add: enqueue_def save_delta_def push_def save_def)
qed

theorem unread_queue_replaced_witness:
  "queue_view demo_queue_codec (Some ''2'') = [demo_intent, demo_child] \<and>
   enqueue demo_queue_codec (calm_queue\<lparr>q_reads := False\<rparr>) (autonomy demo_env) demo_intent (Some ''2'', dr_shared demo_drain) =
     (Some ''1'', \<lparr>intents = [demo_intent], rooted = True\<rparr>)"
  using demo_view
  by (intro conjI unread_queue_replaced)
    (simp_all add: calm_queue_def demo_env_def, simp add: demo_queue_codec_def)

end
