(* ===== verification/Conversation.thy ===== *)
theory Conversation
  imports Prelude
begin

text \<open>
  A conversation and what keeps it small: the messages (\<open>pulse_system_types::llm\<close>, as the source
  builds and matches them), \<open>src/context/tokens.rs\<close>, \<open>micro_compact.rs\<close> and \<open>compact.rs\<close>.

  The JSON of a tool's input is a parameter: the source uses its printed length and its \<open>path\<close>. The
  model call that writes a summary is an argument of the compaction.
\<close>

subsection \<open>Messages\<close>

datatype role = User | Assistant

datatype 'j block = TextBlock bytes | ToolUse bytes bytes 'j | ToolResult bytes bytes "bool option"

datatype 'j content = TextContent bytes | Blocks "'j block list"

datatype source = Human bytes bytes | AssistantReply | ToolOutput bytes | System | ScheduledTask bytes

record 'j message =
  msg_role :: role
  msg_content :: "'j content"
  msg_source :: "source option"

record 'j json_ops =
  json_length :: "'j \<Rightarrow> nat"
  json_path :: "'j \<Rightarrow> bytes option"

definition blocks_of :: "'j message \<Rightarrow> 'j block list" where
  "blocks_of m = (case msg_content m of TextContent _ \<Rightarrow> [] | Blocks bs \<Rightarrow> bs)"

fun join_with :: "bytes \<Rightarrow> bytes list \<Rightarrow> bytes" where
  "join_with sep [] = []"
| "join_with sep [x] = x"
| "join_with sep (x # y # xs) = x @ sep @ join_with sep (y # xs)"

subsection \<open>Sizes\<close>

definition DEFAULT_CONTEXT_BUDGET :: nat where "DEFAULT_CONTEXT_BUDGET = 150000"

definition KEEP_RECENT :: nat where "KEEP_RECENT = 20"

definition MIN_MESSAGES_FOR_COMPACTION :: nat where "MIN_MESSAGES_FOR_COMPACTION = 30"

definition CHARS_PER_TOKEN :: nat where "CHARS_PER_TOKEN = 4"

definition COMPACTION_CIRCUIT_BREAKER_THRESHOLD :: u32 where "COMPACTION_CIRCUIT_BREAKER_THRESHOLD = 3"

definition MAX_REINJECTION_FILES :: nat where "MAX_REINJECTION_FILES = 3"

definition MAX_REINJECTION_TOKENS_PER_FILE :: nat where "MAX_REINJECTION_TOKENS_PER_FILE = 5000"

fun block_chars :: "'j json_ops \<Rightarrow> 'j block \<Rightarrow> nat" where
  "block_chars J (TextBlock s) = length s"
| "block_chars J (ToolUse i name input) = length name + json_length J input"
| "block_chars J (ToolResult i s e) = length s"

definition estimate_message_tokens :: "'j json_ops \<Rightarrow> 'j message \<Rightarrow> nat" where
  "estimate_message_tokens J m =
     (case msg_content m of
        TextContent s \<Rightarrow> length s
      | Blocks bs \<Rightarrow> sum_list (map (block_chars J) bs)) div CHARS_PER_TOKEN + 20"

definition estimate_conversation_tokens :: "'j json_ops \<Rightarrow> 'j message list \<Rightarrow> nat" where
  "estimate_conversation_tokens J ms = sum_list (map (estimate_message_tokens J) ms)"

subsection \<open>Truncation\<close>

text \<open>\<open>str::lines\<close>.\<close>

definition strip_cr :: "bytes \<Rightarrow> bytes" where
  "strip_cr l = (if l \<noteq> [] \<and> last l = CHR 0x0D then butlast l else l)"

function str_lines :: "bytes \<Rightarrow> bytes list" where
  "str_lines s =
     (if s = [] then []
      else (case dropWhile (\<lambda>c. c \<noteq> newline) s of
          [] \<Rightarrow> [s]
        | _ # rest \<Rightarrow> strip_cr (takeWhile (\<lambda>c. c \<noteq> newline) s) # str_lines rest))"
  by pat_completeness auto
termination
proof (relation "measure length")
  fix s :: bytes and x rest
  assume "dropWhile (\<lambda>c. c \<noteq> newline) s = x # rest"
  then have "length (x # rest) \<le> length s" using length_dropWhile_le by metis
  then show "(rest, s) \<in> measure length" by simp
qed simp

declare str_lines.simps [simp del]

definition MICRO_COMPACT_MAX_BLOCK_TOKENS :: nat where "MICRO_COMPACT_MAX_BLOCK_TOKENS = 2000"

definition MICRO_COMPACT_HEAD_LINES :: nat where "MICRO_COMPACT_HEAD_LINES = 20"

definition MICRO_COMPACT_TAIL_LINES :: nat where "MICRO_COMPACT_TAIL_LINES = 10"

definition RESOLVED_AFTER_ASSISTANT_TURNS :: nat where "RESOLVED_AFTER_ASSISTANT_TURNS = 2"

definition MICRO_COMPACT_PROTECTED_RECENT :: nat where "MICRO_COMPACT_PROTECTED_RECENT = 10"

definition STRIP_MIN_CONTENT_BYTES :: nat where "STRIP_MIN_CONTENT_BYTES = 200"

definition truncate_preserving_ends :: "bytes \<Rightarrow> nat \<Rightarrow> nat \<Rightarrow> bytes" where
  "truncate_preserving_ends s head_lines tail_lines =
     (let ls = str_lines s; total = length ls
      in if total \<le> head_lines + tail_lines then s
         else join_with [newline] (take head_lines ls) @ [newline, newline] @ ''[... '' @
           decimal (total - head_lines - tail_lines) @ '' lines truncated ...]'' @ [newline, newline] @
           join_with [newline] (drop (total - tail_lines) ls))"

definition too_large :: "bytes \<Rightarrow> bool" where
  "too_large s \<longleftrightarrow> MICRO_COMPACT_MAX_BLOCK_TOKENS < length s div CHARS_PER_TOKEN"

definition shorten :: "bytes \<Rightarrow> bytes" where
  "shorten s = truncate_preserving_ends s MICRO_COMPACT_HEAD_LINES MICRO_COMPACT_TAIL_LINES"

definition try_truncate_string :: "bytes \<Rightarrow> bytes \<times> bool" where
  "try_truncate_string s = (if too_large s then (shorten s, True) else (s, False))"

fun truncate_result_block :: "'j block \<Rightarrow> 'j block \<times> bool" where
  "truncate_result_block (ToolResult i s e) =
     (if e = Some True then (ToolResult i s e, False)
      else if too_large s then (ToolResult i (shorten s) e, True)
      else (ToolResult i s e, False))"
| "truncate_result_block b = (b, False)"

definition truncate_tool_result_blocks :: "'j block list \<Rightarrow> 'j block list \<times> nat" where
  "truncate_tool_result_blocks bs =
     (map (fst \<circ> truncate_result_block) bs, length (filter (snd \<circ> truncate_result_block) bs))"

fun truncate_block :: "'j block \<Rightarrow> 'j block \<times> bool" where
  "truncate_block (ToolResult i s e) =
     (if e = Some True then (ToolResult i s e, False)
      else (case try_truncate_string s of (s', t) \<Rightarrow> (ToolResult i s' e, t)))"
| "truncate_block (TextBlock s) = (case try_truncate_string s of (s', t) \<Rightarrow> (TextBlock s', t))"
| "truncate_block (ToolUse i name input) = (ToolUse i name input, False)"

definition truncate_message :: "'j message \<Rightarrow> 'j message \<times> nat" where
  "truncate_message m =
     (case msg_content m of
        Blocks bs \<Rightarrow>
          (m\<lparr>msg_content := Blocks (map (fst \<circ> truncate_block) bs)\<rparr>, length (filter (snd \<circ> truncate_block) bs))
      | TextContent s \<Rightarrow>
          (case try_truncate_string s of (s', t) \<Rightarrow> (m\<lparr>msg_content := TextContent s'\<rparr>, if t then 1 else 0)))"

definition truncate_large_blocks :: "'j message list \<Rightarrow> 'j message list \<times> nat" where
  "truncate_large_blocks ms =
     (let cutoff = length ms - MICRO_COMPACT_PROTECTED_RECENT;
          done = map truncate_message (take cutoff ms)
      in (map fst done @ drop cutoff ms, sum_list (map snd done)))"

subsection \<open>Resolved tool calls\<close>

definition strippable_id :: "'j block \<Rightarrow> bytes option" where
  "strippable_id b =
     (case b of
        ToolResult i s e \<Rightarrow> if STRIP_MIN_CONTENT_BYTES < length s \<and> e \<noteq> Some True then Some i else None
      | _ \<Rightarrow> None)"

text \<open>The ids to strip at index \<open>i\<close>; none unless the message is a resolved tool result.\<close>

definition resolved_ids :: "'j message list \<Rightarrow> nat \<Rightarrow> nat \<Rightarrow> bytes list" where
  "resolved_ids ms cutoff i =
     (if (case msg_source (ms ! i) of Some (ToolOutput _) \<Rightarrow> False | _ \<Rightarrow> True) then []
      else if length (filter (\<lambda>m. msg_role m = Assistant) (drop (i + 1) (take cutoff ms))) < RESOLVED_AFTER_ASSISTANT_TURNS
        then []
      else List.map_filter strippable_id (blocks_of (ms ! i)))"

definition resolved :: "'j message list \<Rightarrow> nat \<Rightarrow> (nat \<times> bytes list) list" where
  "resolved ms cutoff =
     filter (\<lambda>(i, ids). ids \<noteq> []) (map (\<lambda>i. (i, resolved_ids ms cutoff i)) [0..<cutoff])"

fun strip_result :: "bytes list \<Rightarrow> 'j block \<Rightarrow> 'j block" where
  "strip_result ids (ToolResult i s e) =
     (if i \<in> set ids
      then ToolResult i (''[Tool output processed '' @ [CHR 0xE2, CHR 0x80, CHR 0x94] @ '' '' @ decimal (length s) @ '' bytes]'') e
      else ToolResult i s e)"
| "strip_result ids b = b"

fun is_stripped :: "bytes list \<Rightarrow> 'j block \<Rightarrow> bool" where
  "is_stripped ids (ToolResult i s e) \<longleftrightarrow> i \<in> set ids"
| "is_stripped ids b \<longleftrightarrow> False"

fun strip_use :: "bytes list \<Rightarrow> 'j block \<Rightarrow> 'j block" where
  "strip_use ids (ToolUse i name input) =
     (if i \<in> set ids then TextBlock (''[Used tool: '' @ name @ '']'') else ToolUse i name input)"
| "strip_use ids b = b"

definition map_blocks :: "('j block \<Rightarrow> 'j block) \<Rightarrow> 'j message \<Rightarrow> 'j message" where
  "map_blocks f m = (case msg_content m of TextContent _ \<Rightarrow> m | Blocks bs \<Rightarrow> m\<lparr>msg_content := Blocks (map f bs)\<rparr>)"

definition strip_pair :: "nat \<times> bytes list \<Rightarrow> 'j message list \<times> nat \<Rightarrow> 'j message list \<times> nat" where
  "strip_pair r acc =
     (case r of (i, ids) \<Rightarrow> case acc of (ms, n) \<Rightarrow>
       (let ms1 = ms[i := map_blocks (strip_result ids) (ms ! i)];
            n1 = n + length (filter (is_stripped ids) (blocks_of (ms ! i)))
        in if 0 < i \<and> msg_role (ms1 ! (i - 1)) = Assistant
           then (ms1[i - 1 := map_blocks (strip_use ids) (ms1 ! (i - 1))], n1)
           else (ms1, n1)))"

definition strip_resolved_tool_pairs :: "'j message list \<Rightarrow> 'j message list \<times> nat" where
  "strip_resolved_tool_pairs ms =
     (let cutoff = length ms - MICRO_COMPACT_PROTECTED_RECENT in fold strip_pair (resolved ms cutoff) (ms, 0))"

subsection \<open>System messages in a row\<close>

fun block_text :: "'j block \<Rightarrow> bytes option" where
  "block_text (TextBlock s) = Some s"
| "block_text (ToolResult i s e) = Some s"
| "block_text (ToolUse i name input) = None"

definition extract_message_text :: "'j message \<Rightarrow> bytes" where
  "extract_message_text m =
     (case msg_content m of
        TextContent s \<Rightarrow> s
      | Blocks bs \<Rightarrow> join_with [newline] (List.map_filter block_text bs))"

definition merge_system :: "'j message \<Rightarrow> 'j message \<Rightarrow> 'j message" where
  "merge_system a b =
     (case msg_content a of
        TextContent s \<Rightarrow> a\<lparr>msg_content := TextContent (s @ [newline, newline] @ extract_message_text b)\<rparr>
      | Blocks bs \<Rightarrow> a\<lparr>msg_content := Blocks (bs @ [TextBlock (extract_message_text b)])\<rparr>)"

definition is_system :: "'j message \<Rightarrow> bool" where
  "is_system m \<longleftrightarrow> msg_source m = Some System"

function collapse_consecutive_system_messages :: "'j message list \<Rightarrow> 'j message list \<times> nat" where
  "collapse_consecutive_system_messages [] = ([], 0)"
| "collapse_consecutive_system_messages [m] = ([m], 0)"
| "collapse_consecutive_system_messages (a # b # ms) =
     (if is_system a \<and> is_system b
      then (case collapse_consecutive_system_messages (merge_system a b # ms) of (r, n) \<Rightarrow> (r, n + 1))
      else (case collapse_consecutive_system_messages (b # ms) of (r, n) \<Rightarrow> (a # r, n)))"
  by pat_completeness auto
termination by (relation "measure length") auto

subsection \<open>The first tier\<close>

record micro_result =
  tokens_saved :: nat
  blocks_truncated :: nat
  pairs_stripped :: nat
  system_messages_collapsed :: nat

definition micro_compact :: "'j json_ops \<Rightarrow> 'j message list \<Rightarrow> 'j message list \<times> micro_result" where
  "micro_compact J ms =
     (if length ms < 3
      then (ms, \<lparr>tokens_saved = 0, blocks_truncated = 0, pairs_stripped = 0, system_messages_collapsed = 0\<rparr>)
      else (case truncate_large_blocks ms of (ms1, t) \<Rightarrow>
            case strip_resolved_tool_pairs ms1 of (ms2, p) \<Rightarrow>
            case collapse_consecutive_system_messages ms2 of (ms3, c) \<Rightarrow>
              (ms3, \<lparr>tokens_saved = estimate_conversation_tokens J ms - estimate_conversation_tokens J ms3,
                 blocks_truncated = t, pairs_stripped = p, system_messages_collapsed = c\<rparr>)))"

subsection \<open>The second tier\<close>

record recent_file =
  file_path :: bytes
  snippet :: bytes
  accessed_at :: int

definition CONTENT_TRUNCATE_LEN :: nat where "CONTENT_TRUNCATE_LEN = 2000"

text \<open>An em dash in UTF-8.\<close>

definition dash :: bytes where
  "dash = [CHR 0xE2, CHR 0x80, CHR 0x94]"

fun summary_text :: "'j block \<Rightarrow> bytes option" where
  "summary_text (TextBlock s) = Some s"
| "summary_text (ToolUse i name input) = Some name"
| "summary_text (ToolResult i s e) = (if 500 < length s then None else Some s)"

definition message_to_text :: "'j message \<Rightarrow> bytes" where
  "message_to_text m =
     (case msg_content m of
        TextContent s \<Rightarrow> s
      | Blocks bs \<Rightarrow> join_with '' '' (List.map_filter summary_text bs))"

definition summary_line :: "'j message \<Rightarrow> bytes option" where
  "summary_line m =
     (let s = message_to_text m
      in if s = [] then None
         else Some ((case msg_role m of User \<Rightarrow> ''User'' | Assistant \<Rightarrow> ''Assistant'') @ '': '' @
           (if CONTENT_TRUNCATE_LEN < length s then safe_truncate s (CONTENT_TRUNCATE_LEN - 3) @ ''...'' else s)))"

definition build_structured_summary_prompt :: "'j message list \<Rightarrow> bytes" where
  "build_structured_summary_prompt ms =
     ''Summarize this conversation using the structured format described in your instructions.'' @
     [newline, newline] @ join_with [newline] (List.map_filter summary_line ms)"

definition file_part :: "recent_file \<Rightarrow> bytes" where
  "file_part f =
     (let max_chars = MAX_REINJECTION_TOKENS_PER_FILE * CHARS_PER_TOKEN;
          body = (if max_chars < length (snippet f)
                  then safe_truncate (snippet f) max_chars @ ''...'' @ [newline] @ ''[truncated '' @ dash @ '' '' @
                    decimal (length (snippet f)) @ '' total bytes]''
                  else snippet f)
      in ''--- '' @ file_path f @ '' ---'' @ [newline] @ body)"

definition build_file_reinjection :: "recent_file list \<Rightarrow> bytes option" where
  "build_file_reinjection files =
     (if files = [] then None
      else Some (join_with [newline, newline]
        ((''[Recently accessed files '' @ dash @ '' re-injected after compaction]'') #
         map file_part (take MAX_REINJECTION_FILES (sort_key (\<lambda>f. - accessed_at f) files)) @
         [''[End recently accessed files]''])))"

text \<open>
  \<open>extract_file_accesses\<close>: the paths of the reads seen so far, and the results they belong to.
\<close>

fun access_step :: "'j json_ops \<Rightarrow> 'j block \<Rightarrow> (bytes \<rightharpoonup> bytes) \<times> (bytes \<times> bytes) list \<Rightarrow>
    (bytes \<rightharpoonup> bytes) \<times> (bytes \<times> bytes) list" where
  "access_step J (ToolUse i name input) (ps, acc) =
     (if name = ''file_read'' \<or> name = ''grep''
      then (case json_path J input of None \<Rightarrow> (ps, acc) | Some path \<Rightarrow> (ps(i \<mapsto> path), acc))
      else (ps, acc))"
| "access_step J (ToolResult i s e) (ps, acc) =
     (if e = Some True then (ps, acc)
      else (case ps i of
          None \<Rightarrow> (ps, acc)
        | Some path \<Rightarrow>
            if s \<noteq> [] \<and> \<not> starts_with ''[Tool output processed'' s then (ps, acc @ [(path, s)]) else (ps, acc)))"
| "access_step J (TextBlock s) a = a"

definition extract_file_accesses :: "'j json_ops \<Rightarrow> 'j message list \<Rightarrow> (bytes \<times> bytes) list" where
  "extract_file_accesses J ms = snd (fold (access_step J) (concat (map blocks_of ms)) (Map.empty, []))"

record compaction_result =
  compacted :: bool
  tokens_before :: nat
  tokens_after :: nat
  messages_summarized :: nat
  breaker_fired :: bool
  files_reinjected :: nat
  new_failures :: u32

definition no_compaction :: compaction_result where
  "no_compaction = \<lparr>compacted = False, tokens_before = 0, tokens_after = 0, messages_summarized = 0,
     breaker_fired = False, files_reinjected = 0, new_failures = 0\<rparr>"

definition system_message :: "bytes \<Rightarrow> 'j message" where
  "system_message s = \<lparr>msg_role = User, msg_content = TextContent s, msg_source = Some System\<rparr>"

definition summary_message :: "bytes \<Rightarrow> 'j message" where
  "summary_message summary =
     system_message (''[Structured context summary of earlier conversation]'' @ [newline, newline] @ summary)"

definition plan_text :: "bytes \<Rightarrow> bytes" where
  "plan_text plan = ''[Active plan '' @ dash @ '' re-injected after compaction]'' @ [newline, newline] @ plan @
     [newline, newline] @ ''[End active plan]''"

text \<open>\<open>Vec::insert\<close>.\<close>

definition insert_at :: "nat \<Rightarrow> 'a \<Rightarrow> 'a list \<Rightarrow> 'a list" where
  "insert_at i x xs = take i xs @ x # drop i xs"

text \<open>
  The parameters of a compaction. \<open>summarise\<close> is the model's answer to the prompt, \<open>None\<close> an error
  of the provider.
\<close>

record 'j compaction_params =
  json_of :: "'j json_ops"
  summarise :: "bytes \<Rightarrow> bytes option"
  context_budget :: nat
  failures :: u32
  recent_files :: "recent_file list"
  active_plan :: "bytes option"

definition budget_of :: "'j compaction_params \<Rightarrow> nat" where
  "budget_of P = (if 0 < context_budget P then context_budget P else DEFAULT_CONTEXT_BUDGET)"

definition reinject_plan :: "'j compaction_params \<Rightarrow> 'j message list \<Rightarrow> 'j message list" where
  "reinject_plan P ms =
     (case active_plan P of
        None \<Rightarrow> ms
      | Some plan \<Rightarrow>
          (let plan_msg = plan_text plan
           in if estimate_conversation_tokens (json_of P) ms + length plan_msg div CHARS_PER_TOKEN < budget_of P
              then insert_at 1 (system_message plan_msg) ms else ms))"

definition reinject_files :: "'j compaction_params \<Rightarrow> 'j message list \<Rightarrow> 'j message list \<times> nat" where
  "reinject_files P ms =
     (let pos = (if active_plan P \<noteq> None then 2 else 1)
      in case build_file_reinjection (recent_files P) of
           None \<Rightarrow> (ms, 0)
         | Some s \<Rightarrow>
             if estimate_conversation_tokens (json_of P) ms + length s div CHARS_PER_TOKEN < budget_of P
             then (insert_at (min pos (length ms)) (system_message s) ms, min (length (recent_files P)) MAX_REINJECTION_FILES)
             else (ms, 0))"

text \<open>
  \<open>compact_with_params\<close>: the conversation, the result, and the messages handed to the archive.
\<close>

definition compact_with_params ::
  "'j compaction_params \<Rightarrow> 'j message list \<Rightarrow> 'j message list \<times> compaction_result \<times> 'j message list" where
  "compact_with_params P ms =
     (let tokens = estimate_conversation_tokens (json_of P);
          total = tokens ms;
          keep_count = min KEEP_RECENT (length ms);
          split_at = length ms - keep_count;
          trimmed = (\<lambda>ms' n fired fs. \<lparr>compacted = True, tokens_before = total, tokens_after = tokens ms',
            messages_summarized = n, breaker_fired = fired, files_reinjected = 0, new_failures = fs\<rparr>)
      in if length ms < MIN_MESSAGES_FOR_COMPACTION then (ms, no_compaction, [])
         else if total \<le> budget_of P then (ms, no_compaction, [])
         else if COMPACTION_CIRCUIT_BREAKER_THRESHOLD \<le> failures P then
           (let ms1 = fst (micro_compact (json_of P) ms);
                drain_count = length ms1 - min KEEP_RECENT (length ms1);
                ms2 = drop drain_count ms1
            in (ms2, trimmed ms2 drain_count True (failures P), []))
         else if split_at < 2 then
           (let ms1 = drop split_at ms in (ms1, trimmed ms1 split_at False (failures P), []))
         else (let old = take split_at ms; kept = drop split_at ms
           in case summarise P (build_structured_summary_prompt old) of
                None \<Rightarrow> (kept, trimmed kept split_at False (failures P + 1), old)
              | Some summary \<Rightarrow>
                  (let ms2 = reinject_plan P (summary_message summary # kept)
                   in case reinject_files P ms2 of
                        (ms3, n) \<Rightarrow>
                          (ms3, \<lparr>compacted = True, tokens_before = total, tokens_after = tokens ms3,
                             messages_summarized = split_at, breaker_fired = False, files_reinjected = n,
                             new_failures = 0\<rparr>, old))))"

subsection \<open>Tool calls and their results\<close>

text \<open>
  What the Messages API asks of a conversation: tool calls are made by the assistant, results come
  from the user, and the results of a message answer exactly the calls of the message before it.
\<close>

fun use_id :: "'j block \<Rightarrow> bytes option" where
  "use_id (ToolUse i name input) = Some i"
| "use_id b = None"

fun result_id :: "'j block \<Rightarrow> bytes option" where
  "result_id (ToolResult i s e) = Some i"
| "result_id b = None"

definition tool_uses :: "'j message \<Rightarrow> bytes set" where
  "tool_uses m = set (List.map_filter use_id (blocks_of m))"

definition tool_results :: "'j message \<Rightarrow> bytes set" where
  "tool_results m = set (List.map_filter result_id (blocks_of m))"

fun tool_pairs_ok :: "bytes set \<Rightarrow> 'j message list \<Rightarrow> bool" where
  "tool_pairs_ok pending [] \<longleftrightarrow> pending = {}"
| "tool_pairs_ok pending (m # ms) \<longleftrightarrow>
     tool_results m = pending \<and> (tool_uses m \<noteq> {} \<longrightarrow> msg_role m = Assistant) \<and>
     (tool_results m \<noteq> {} \<longrightarrow> msg_role m = User) \<and> tool_pairs_ok (tool_uses m) ms"

lemma tool_pairs_nth:
  "tool_pairs_ok us ms \<Longrightarrow> i < length ms \<Longrightarrow>
     tool_results (ms ! i) = (if i = 0 then us else tool_uses (ms ! (i - 1)))"
proof (induction us ms arbitrary: i rule: tool_pairs_ok.induct)
  case (2 us m ms)
  then show ?case by (cases i; cases "i - 1") auto
qed simp

lemma tool_pairs_role:
  "tool_pairs_ok us ms \<Longrightarrow> m \<in> set ms \<Longrightarrow> tool_uses m \<noteq> {} \<Longrightarrow> msg_role m = Assistant"
  by (induction us ms rule: tool_pairs_ok.induct) auto

text \<open>A change of the blocks that keeps the ids keeps the pairs.\<close>

definition same_ids :: "'j message \<Rightarrow> 'j message \<Rightarrow> bool" where
  "same_ids m m' \<longleftrightarrow> tool_uses m' = tool_uses m \<and> tool_results m' = tool_results m \<and> msg_role m' = msg_role m"

lemma tool_pairs_same: "list_all2 same_ids ms ms' \<Longrightarrow> tool_pairs_ok us ms' \<longleftrightarrow> tool_pairs_ok us ms"
  by (induction arbitrary: us rule: list_all2_induct) (auto simp: same_ids_def)

lemma map_blocks_blocks [simp]: "blocks_of (map_blocks f m) = map f (blocks_of m)"
  by (simp add: map_blocks_def blocks_of_def split: content.splits)

lemma map_blocks_fields [simp]: "msg_role (map_blocks f m) = msg_role m" "msg_source (map_blocks f m) = msg_source m"
  by (simp_all add: map_blocks_def split: content.splits)

lemma map_filter_map: "List.map_filter g (map f xs) = List.map_filter (g \<circ> f) xs"
  by (induction xs) (simp_all add: List.map_filter_simps split: option.split)

lemma ids_map_blocks:
  "(\<And>b. use_id (f b) = use_id b) \<Longrightarrow> tool_uses (map_blocks f m) = tool_uses m"
  "(\<And>b. result_id (f b) = result_id b) \<Longrightarrow> tool_results (map_blocks f m) = tool_results m"
  by (simp_all add: tool_uses_def tool_results_def map_filter_map comp_def)

lemma truncate_block_ids [simp]:
  "use_id (fst (truncate_block b)) = use_id b" "result_id (fst (truncate_block b)) = result_id b"
  by (cases b; simp add: try_truncate_string_def)+

lemma truncate_message_ids: "same_ids m (fst (truncate_message m))"
proof (cases "msg_content m")
  case (TextContent s)
  then show ?thesis
    by (simp add: same_ids_def truncate_message_def tool_uses_def tool_results_def blocks_of_def split: prod.split)
next
  case (Blocks bs)
  then have "fst (truncate_message m) = map_blocks (fst \<circ> truncate_block) m"
    by (simp add: truncate_message_def map_blocks_def)
  then show ?thesis by (simp add: same_ids_def ids_map_blocks)
qed

lemma truncate_large_blocks_pairs:
  "tool_pairs_ok us (fst (truncate_large_blocks ms)) \<longleftrightarrow> tool_pairs_ok us ms"
proof (rule tool_pairs_same)
  let ?c = "length ms - MICRO_COMPACT_PROTECTED_RECENT"
  have "list_all2 same_ids xs xs" for xs :: "'a message list" by (simp add: list_all2_refl same_ids_def)
  moreover have "list_all2 same_ids xs (map fst (map truncate_message xs))" for xs :: "'a message list"
    by (simp add: list_all2_map2 list_all2_refl truncate_message_ids)
  ultimately have "list_all2 same_ids (take ?c ms @ drop ?c ms) (map fst (map truncate_message (take ?c ms)) @ drop ?c ms)"
    by (blast intro: list_all2_appendI)
  then show "list_all2 same_ids ms (fst (truncate_large_blocks ms))"
    by (simp add: truncate_large_blocks_def Let_def)
qed

subsection \<open>What the second pass of tier one does to them\<close>

lemma strip_block_ids [simp]:
  "use_id (strip_result ids b) = use_id b" "result_id (strip_result ids b) = result_id b"
  "result_id (strip_use ids b) = result_id b"
  "use_id (strip_use ids b) = (case use_id b of Some i \<Rightarrow> if i \<in> set ids then None else Some i | None \<Rightarrow> None)"
  by (cases b; simp)+

lemma strip_message_ids [simp]:
  "tool_uses (map_blocks (strip_result ids) m) = tool_uses m"
  "tool_results (map_blocks (strip_result ids) m) = tool_results m"
  "tool_results (map_blocks (strip_use ids) m) = tool_results m"
  by (simp_all add: ids_map_blocks)

lemma strip_use_ids [simp]: "tool_uses (map_blocks (strip_use ids) m) = tool_uses m - set ids"
  by (auto simp: tool_uses_def List.map_filter_def split: option.splits if_splits)
    (force split: option.splits)+

text \<open>How a list of messages is changed by the strip: results stay, calls may go.\<close>

definition stripped_from :: "nat \<Rightarrow> 'j message list \<Rightarrow> 'j message list \<Rightarrow> bool" where
  "stripped_from cutoff ms ms' \<longleftrightarrow> length ms' = length ms \<and>
     (\<forall>j<length ms. tool_results (ms' ! j) = tool_results (ms ! j) \<and> tool_uses (ms' ! j) \<subseteq> tool_uses (ms ! j) \<and>
        msg_role (ms' ! j) = msg_role (ms ! j) \<and> msg_source (ms' ! j) = msg_source (ms ! j) \<and>
        (cutoff \<le> j \<longrightarrow> ms' ! j = ms ! j))"

lemma stripped_from_refl: "stripped_from c ms ms"
  by (simp add: stripped_from_def)

lemma stripped_from_trans: "stripped_from c a b \<Longrightarrow> stripped_from c b d \<Longrightarrow> stripped_from c a d"
  by (simp add: stripped_from_def) blast

lemma strip_pair_step:
  assumes "i < c" and "i < length ms"
  shows "stripped_from c ms (fst (strip_pair (i, ids) (ms, n)))"
    and "0 < i \<Longrightarrow> msg_role (ms ! (i - 1)) = Assistant \<Longrightarrow>
      tool_uses (fst (strip_pair (i, ids) (ms, n)) ! (i - 1)) \<inter> set ids = {}"
  using assms by (auto simp: strip_pair_def Let_def stripped_from_def nth_list_update)

lemma strip_fold:
  assumes "\<forall>(i, ids)\<in>set rs. i < c \<and> i < length ms"
  shows "stripped_from c ms (fst (fold strip_pair rs (ms, n)))"
  using assms
proof (induction rs arbitrary: ms n)
  case (Cons r rs)
  obtain i ids where r: "r = (i, ids)" by fastforce
  obtain ms1 n1 where s: "strip_pair r (ms, n) = (ms1, n1)" by fastforce
  have 1: "stripped_from c ms ms1" using strip_pair_step(1) [of i c ms ids n] Cons.prems r s by auto
  then have "stripped_from c ms1 (fst (fold strip_pair rs (ms1, n1)))"
    using Cons.prems by (intro Cons.IH) (auto simp: stripped_from_def)
  with 1 show ?case using s by (auto intro: stripped_from_trans)
qed (simp add: stripped_from_refl)

lemma strip_fold_uses:
  assumes "(i, ids) \<in> set rs" and "\<forall>(i, ids)\<in>set rs. i < c \<and> i < length ms" and "0 < i"
    and "msg_role (ms ! (i - 1)) = Assistant"
  shows "tool_uses (fst (fold strip_pair rs (ms, n)) ! (i - 1)) \<inter> set ids = {}"
  using assms
proof (induction rs arbitrary: ms n)
  case (Cons r rs)
  obtain i' ids' where r: "r = (i', ids')" by fastforce
  obtain ms1 n1 where s: "strip_pair r (ms, n) = (ms1, n1)" by fastforce
  have 1: "stripped_from c ms ms1" using strip_pair_step(1) [of i' c ms ids' n] Cons.prems r s by auto
  have bounds: "\<forall>(i, ids)\<in>set rs. i < c \<and> i < length ms1" using Cons.prems 1 by (auto simp: stripped_from_def)
  show ?case
  proof (cases "r = (i, ids)")
    case True
    then have "tool_uses (ms1 ! (i - 1)) \<inter> set ids = {}"
      using strip_pair_step(2) [of i c ms ids n] Cons.prems s by auto
    moreover have "i - 1 < length ms1" using Cons.prems True 1 by (auto simp: stripped_from_def)
    then have "tool_uses (fst (fold strip_pair rs (ms1, n1)) ! (i - 1)) \<subseteq> tool_uses (ms1 ! (i - 1))"
      using strip_fold [OF bounds] by (simp add: stripped_from_def)
    ultimately show ?thesis using s by auto
  next
    case False
    then have "(i, ids) \<in> set rs" using Cons.prems(1) by simp
    moreover have "msg_role (ms1 ! (i - 1)) = Assistant"
      using Cons.prems 1 False by (auto simp: stripped_from_def)
    ultimately show ?thesis using Cons.IH [of ms1 n1] bounds Cons.prems(3) s by simp
  qed
qed simp

lemma resolved_bounds: "\<forall>(i, ids)\<in>set (resolved ms c). i < c \<and> ids \<noteq> [] \<and> ids = resolved_ids ms c i"
  by (auto simp: resolved_def)

lemma resolved_ids_results: "set (resolved_ids ms c i) \<subseteq> tool_results (ms ! i)"
proof -
  have "set (List.map_filter strippable_id bs) \<subseteq> set (List.map_filter result_id bs)" for bs :: "'a block list"
  proof (induction bs)
    case (Cons b bs)
    then show ?case
      by (cases b) (auto simp: List.map_filter_simps strippable_id_def split: option.splits)
  qed (simp add: List.map_filter_simps)
  then show ?thesis by (auto simp: resolved_ids_def tool_results_def)
qed

lemma strip_stripped_from:
  "stripped_from (length ms - MICRO_COMPACT_PROTECTED_RECENT) ms (fst (strip_resolved_tool_pairs ms))"
  unfolding strip_resolved_tool_pairs_def Let_def
  by (rule strip_fold) (use resolved_bounds [of ms] in fastforce)

text \<open>
  Stripping resolved tool calls breaks the conversation for the API. Whenever the second pass
  of tier one strips anything from a conversation whose calls and results match, they no longer
  match: the result keeps its id, and the call it answers has become text.
\<close>

theorem strip_orphans_results:
  assumes "tool_pairs_ok {} ms" and "resolved ms (length ms - MICRO_COMPACT_PROTECTED_RECENT) \<noteq> []"
  shows "\<not> tool_pairs_ok {} (fst (strip_resolved_tool_pairs ms))"
proof
  let ?c = "length ms - MICRO_COMPACT_PROTECTED_RECENT" and ?ms' = "fst (strip_resolved_tool_pairs ms)"
  assume ok: "tool_pairs_ok {} ?ms'"
  from assms(2) obtain i ids where r: "(i, ids) \<in> set (resolved ms ?c)"
    by (metis list.set_intros(1) neq_Nil_conv surj_pair)
  then have i: "i < ?c" "ids \<noteq> []" "ids = resolved_ids ms ?c i" using resolved_bounds [of ms ?c] by auto
  then obtain x where x: "x \<in> set ids" "x \<in> tool_results (ms ! i)"
    using resolved_ids_results [of ms ?c i] by (metis list.set_intros(1) neq_Nil_conv subsetD)
  have len: "i < length ms" using i(1) by simp
  have pair: "tool_results (ms ! i) = (if i = 0 then {} else tool_uses (ms ! (i - 1)))"
    using tool_pairs_nth [OF assms(1) len] .
  then have i0: "0 < i" using x(2) by (auto split: if_splits)
  then have role: "msg_role (ms ! (i - 1)) = Assistant"
    using tool_pairs_role [OF assms(1), of "ms ! (i - 1)"] pair x(2) len by auto
  have "\<forall>(i, ids)\<in>set (resolved ms ?c). i < ?c \<and> i < length ms" using resolved_bounds [of ms ?c] by fastforce
  then have "tool_uses (?ms' ! (i - 1)) \<inter> set ids = {}"
    using strip_fold_uses [OF r _ i0 role] by (simp add: strip_resolved_tool_pairs_def)
  moreover have "tool_results (?ms' ! i) = tool_results (ms ! i)" "length ?ms' = length ms"
    using strip_stripped_from [of ms] len by (simp_all add: stripped_from_def)
  moreover have "tool_results (?ms' ! i) = tool_uses (?ms' ! (i - 1))"
    using tool_pairs_nth [OF ok, of i] len i0 calculation(3) by simp
  ultimately show False using x by auto
qed

subsection \<open>The newest message stays\<close>

lemma truncate_large_blocks_nth:
  "length (fst (truncate_large_blocks ms)) = length ms"
  "length ms - MICRO_COMPACT_PROTECTED_RECENT \<le> j \<Longrightarrow> j < length ms \<Longrightarrow> fst (truncate_large_blocks ms) ! j = ms ! j"
  by (simp_all add: truncate_large_blocks_def Let_def nth_append)

lemma collapse_last:
  "ms \<noteq> [] \<Longrightarrow> \<not> is_system (last ms) \<Longrightarrow>
     fst (collapse_consecutive_system_messages ms) \<noteq> [] \<and> last (fst (collapse_consecutive_system_messages ms)) = last ms"
proof (induction ms rule: collapse_consecutive_system_messages.induct)
  case (3 a b ms)
  show ?case
  proof (cases "is_system a \<and> is_system b")
    case True
    obtain r n where r: "collapse_consecutive_system_messages (merge_system a b # ms) = (r, n)" by fastforce
    from True 3(4) have "ms \<noteq> []" by auto
    with 3(1) [OF True] 3(4) r True show ?thesis by simp
  next
    case False
    obtain r n where r: "collapse_consecutive_system_messages (b # ms) = (r, n)" by fastforce
    with 3(2) [OF False] 3(4) False show ?thesis by auto
  qed
qed auto

lemma collapse_length: "length (fst (collapse_consecutive_system_messages ms)) \<le> length ms"
  by (induction ms rule: collapse_consecutive_system_messages.induct) (auto split: prod.split)

lemma micro_compact_last:
  assumes "ms \<noteq> []" and "\<not> is_system (last ms)"
  shows "fst (micro_compact J ms) \<noteq> [] \<and> last (fst (micro_compact J ms)) = last ms \<and>
    length (fst (micro_compact J ms)) \<le> length ms"
proof (cases "length ms < 3")
  case False
  let ?ms1 = "fst (truncate_large_blocks ms)" and ?j = "length ms - 1"
  let ?ms2 = "fst (strip_resolved_tool_pairs ?ms1)"
  have j: "?j < length ms" "length ms - MICRO_COMPACT_PROTECTED_RECENT \<le> ?j"
    using assms(1) by (auto simp: MICRO_COMPACT_PROTECTED_RECENT_def)
  have "length ?ms2 = length ms" "?ms2 ! ?j = ms ! ?j"
    using strip_stripped_from [of ?ms1] j truncate_large_blocks_nth(1) [of ms] truncate_large_blocks_nth(2) [OF j(2,1)]
    by (simp_all add: stripped_from_def)
  moreover from this(1) assms(1) have "?ms2 \<noteq> []" by fastforce
  ultimately have "?ms2 \<noteq> []" "last ?ms2 = last ms" using assms(1) by (metis last_conv_nth)+
  then show ?thesis
    using collapse_last [of ?ms2] assms(2) False collapse_length [of ?ms2] \<open>length ?ms2 = length ms\<close>
    by (simp add: micro_compact_def case_prod_beta)
qed (use assms in \<open>simp add: micro_compact_def\<close>)

definition recent_window :: "'j message list \<Rightarrow> 'j message list" where
  "recent_window ms = drop (length ms - KEEP_RECENT) ms"

lemma last_insert_at: "i < length xs \<Longrightarrow> last (insert_at i x xs) = last xs"
  by (simp add: insert_at_def)

lemma insert_at_length [simp]: "length (insert_at i x xs) = Suc (length xs)"
  by (simp add: insert_at_def min_def)

lemma reinject_last:
  assumes "2 < length ms"
  shows "last (reinject_plan P ms) = last ms" and "last (fst (reinject_files P ms)) = last ms"
    and "length (reinject_plan P ms) \<le> length ms + 1" and "length (fst (reinject_files P ms)) \<le> length ms + 1"
    and "2 < length (reinject_plan P ms)"
  using assms
  by (auto simp: reinject_plan_def reinject_files_def Let_def last_insert_at min_def split: option.split)

lemma compact_with_params_newest:
  assumes "ms \<noteq> []" and "\<not> is_system (last ms)"
  shows "case compact_with_params P ms of (ms', res, archived) \<Rightarrow>
       ms' \<noteq> [] \<and> last ms' = last ms \<and>
       (compacted res \<longrightarrow> length ms' \<le> KEEP_RECENT + 3) \<and> (\<not> compacted res \<longrightarrow> ms' = ms) \<and>
       archived @ (if archived = [] then ms else recent_window ms) = ms"
proof -
  let ?tokens = "estimate_conversation_tokens (json_of P)"
  let ?old = "take (length ms - KEEP_RECENT) ms" and ?kept = "recent_window ms"
  consider (idle) "length ms < MIN_MESSAGES_FOR_COMPACTION \<or> ?tokens ms \<le> budget_of P"
    | (breaker) "\<not> length ms < MIN_MESSAGES_FOR_COMPACTION" "\<not> ?tokens ms \<le> budget_of P"
        "COMPACTION_CIRCUIT_BREAKER_THRESHOLD \<le> failures P"
    | (work) "\<not> length ms < MIN_MESSAGES_FOR_COMPACTION" "\<not> ?tokens ms \<le> budget_of P"
        "\<not> COMPACTION_CIRCUIT_BREAKER_THRESHOLD \<le> failures P" by blast
  then show ?thesis
  proof cases
    case idle
    then show ?thesis using assms by (auto simp: compact_with_params_def Let_def no_compaction_def)
  next
    case breaker
    let ?m = "fst (micro_compact (json_of P) ms)"
    have "?m \<noteq> []" "last ?m = last ms" using micro_compact_last [OF assms, of "json_of P"] by auto
    then have "last (drop (length ?m - min KEEP_RECENT (length ?m)) ?m) = last ms"
        "drop (length ?m - min KEEP_RECENT (length ?m)) ?m \<noteq> []"
      by (auto simp: last_drop KEEP_RECENT_def min_def)
    with breaker show ?thesis by (simp add: compact_with_params_def Let_def)
  next
    case work
    then have len: "30 \<le> length ms" by (simp add: MIN_MESSAGES_FOR_COMPACTION_def)
    have kept: "length ?kept = 20" "last ?kept = last ms" "?kept \<noteq> []" "?old @ ?kept = ms" "?old \<noteq> []"
      using len by (auto simp: recent_window_def KEEP_RECENT_def last_drop)
    have split: "length ms - min KEEP_RECENT (length ms) = length ms - KEEP_RECENT" by simp
    have big: "\<not> length ms - KEEP_RECENT < 2" using len by (simp add: KEEP_RECENT_def)
    show ?thesis
    proof (cases "summarise P (build_structured_summary_prompt ?old)")
      case None
      with work kept big show ?thesis
        by (simp add: compact_with_params_def Let_def split recent_window_def [symmetric] KEEP_RECENT_def)
    next
      case (Some summary)
      define ms1 where "ms1 = summary_message summary # ?kept"
      have ms1: "2 < length ms1" "last ms1 = last ms" "length ms1 = 21" using kept by (auto simp: ms1_def)
      define ms3 where "ms3 = fst (reinject_files P (reinject_plan P ms1))"
      have l1: "length (reinject_plan P ms1) \<le> 22" "last (reinject_plan P ms1) = last ms" "2 < length (reinject_plan P ms1)"
        using reinject_last [OF ms1(1), of P] ms1 by auto
      from reinject_last(2,4) [OF l1(3), of P] l1 have ms3: "last ms3 = last ms" "length ms3 \<le> 23" by (auto simp: ms3_def)
      moreover have "ms3 \<noteq> []" using l1(3) by (auto simp: ms3_def reinject_files_def Let_def insert_at_def split: option.split)
      moreover have "\<exists>res. compact_with_params P ms = (ms3, res, ?old) \<and> compacted res"
        using work big Some
        by (simp add: compact_with_params_def Let_def split recent_window_def [symmetric] case_prod_beta
            ms1_def [symmetric] ms3_def [symmetric])
      ultimately show ?thesis using kept by (auto simp: KEEP_RECENT_def)
    qed
  qed
qed

text \<open>
  Compaction keeps the turn's own message. Whatever the sizes, the plan, the files and the answer
  of the summarising model, both tiers leave the newest message of the conversation where and as it
  is, as long as it is not a system message; a second tier that compacts leaves at most
  \<open>KEEP_RECENT + 3\<close> messages, archives only messages that it removes.
\<close>

theorem compaction_keeps_newest:
  assumes "ms \<noteq> []" and "\<not> is_system (last ms)"
  shows "last (fst (micro_compact J ms)) = last ms \<and>
    (case compact_with_params P ms of (ms', res, archived) \<Rightarrow>
       ms' \<noteq> [] \<and> last ms' = last ms \<and>
       (compacted res \<longrightarrow> length ms' \<le> KEEP_RECENT + 3) \<and> (\<not> compacted res \<longrightarrow> ms' = ms) \<and>
       archived @ (if archived = [] then ms else recent_window ms) = ms)"
  using micro_compact_last [OF assms, of J] compact_with_params_newest [OF assms, of P] by (intro conjI) (elim conjE)

text \<open>
  A pass with nothing to do forgets the failures. The counter of consecutive failures that would
  stop the compaction is returned as 0, and so written back as 0, whenever the conversation is short
  or within its budget; since a failed summary trims the conversation below the threshold, a failure
  is forgotten by the next pass over it unless ten messages have been added.
\<close>

theorem idle_pass_forgets_failures:
  assumes "MIN_MESSAGES_FOR_COMPACTION \<le> length ms" and "budget_of P < estimate_conversation_tokens (json_of P) ms"
    and "\<not> COMPACTION_CIRCUIT_BREAKER_THRESHOLD \<le> failures P"
    and "summarise P (build_structured_summary_prompt (take (length ms - KEEP_RECENT) ms)) = None"
    and "length added < 10"
  shows "case compact_with_params P ms of (ms', res, _) \<Rightarrow>
    new_failures res = failures P + 1 \<and>
    new_failures (fst (snd (compact_with_params (P\<lparr>failures := new_failures res\<rparr>) (ms' @ added)))) = 0"
proof -
  have len: "30 \<le> length ms" using assms(1) by (simp add: MIN_MESSAGES_FOR_COMPACTION_def)
  have split: "length ms - min KEEP_RECENT (length ms) = length ms - KEEP_RECENT" by simp
  have big: "\<not> length ms - KEEP_RECENT < 2" using len by (simp add: KEEP_RECENT_def)
  have n: "\<not> length ms < MIN_MESSAGES_FOR_COMPACTION"
      "\<not> estimate_conversation_tokens (json_of P) ms \<le> budget_of P" using assms(1,2) by simp_all
  have c: "\<exists>res. compact_with_params P ms = (recent_window ms, res, take (length ms - KEEP_RECENT) ms) \<and>
      new_failures res = failures P + 1"
    using n assms(3,4) big by (simp add: compact_with_params_def Let_def split recent_window_def [symmetric])
  have "length (recent_window ms) = 20" using len by (simp add: recent_window_def KEEP_RECENT_def)
  then have "compact_with_params Q (recent_window ms @ added) = (recent_window ms @ added, no_compaction, [])" for Q
    using assms(5) by (simp add: compact_with_params_def Let_def MIN_MESSAGES_FOR_COMPACTION_def)
  with c show ?thesis by (auto simp: no_compaction_def)
qed

text \<open>
  Files can land inside the recent window. When there is an active plan that does not fit the
  budget but the recent files do, the files are put at index 2 although no plan was put at index 1:
  the summary, then the first message of the window, then the files, then the rest of the window.
\<close>

theorem files_split_the_window:
  assumes "active_plan P = Some plan" and "build_file_reinjection (recent_files P) = Some files"
    and "\<not> estimate_conversation_tokens (json_of P) (summary_message summary # m # ms) +
      length (plan_text plan) div CHARS_PER_TOKEN < budget_of P"
    and "estimate_conversation_tokens (json_of P) (summary_message summary # m # ms) +
      length files div CHARS_PER_TOKEN < budget_of P"
  shows "fst (reinject_files P (reinject_plan P (summary_message summary # m # ms))) =
    summary_message summary # m # system_message files # ms"
  using assms by (simp add: reinject_plan_def reinject_files_def Let_def insert_at_def)

subsection \<open>Witnesses\<close>

definition says :: "role \<Rightarrow> bytes \<Rightarrow> unit message" where
  "says r s = \<lparr>msg_role = r, msg_content = TextContent s, msg_source = Some (Human ''tui'' ''owner'')\<rparr>"

text \<open>A tool call and its long result, and enough after them.\<close>

definition demo_calls :: "unit message list" where
  "demo_calls =
     [says User ''q'',
      \<lparr>msg_role = Assistant, msg_content = Blocks [ToolUse ''t1'' ''grep'' ()], msg_source = Some AssistantReply\<rparr>,
      \<lparr>msg_role = User, msg_content = Blocks [ToolResult ''t1'' (replicate 201 (CHR ''x'')) None],
        msg_source = Some (ToolOutput ''t1'')\<rparr>,
      says Assistant ''a'', says User ''b'', says Assistant ''c''] @ replicate 10 (says User ''d'')"

lemma says_blocks [simp]: "blocks_of (says r s) = []" "msg_role (says r s) = r"
  by (simp_all add: says_def blocks_of_def)

lemma no_tools [simp]: "tool_uses (says r s) = {}" "tool_results (says r s) = {}"
  by (simp_all add: tool_uses_def tool_results_def List.map_filter_simps)

lemma demo_calls_ok: "tool_pairs_ok {} demo_calls"
  by (simp add: demo_calls_def tool_uses_def tool_results_def blocks_of_def List.map_filter_simps eval_nat_numeral
      says_def)

lemma demo_calls_resolved: "resolved demo_calls (length demo_calls - MICRO_COMPACT_PROTECTED_RECENT) \<noteq> []"
proof -
  have c: "length demo_calls - MICRO_COMPACT_PROTECTED_RECENT = 6"
    by (simp add: demo_calls_def MICRO_COMPACT_PROTECTED_RECENT_def)
  have "resolved_ids demo_calls 6 2 = [''t1'']"
    by (simp add: resolved_ids_def demo_calls_def eval_nat_numeral blocks_of_def List.map_filter_simps
        strippable_id_def STRIP_MIN_CONTENT_BYTES_def RESOLVED_AFTER_ASSISTANT_TURNS_def)
  then have "(2, [''t1'']) \<in> set (resolved demo_calls 6)" by (force simp: resolved_def)
  then show ?thesis unfolding c by auto
qed

theorem strip_orphans_results_witness:
  "\<not> tool_pairs_ok {} (fst (strip_resolved_tool_pairs demo_calls))"
  by (rule strip_orphans_results [OF demo_calls_ok demo_calls_resolved])

definition demo_params :: "unit compaction_params" where
  "demo_params = \<lparr>json_of = \<lparr>json_length = (\<lambda>_. 2), json_path = (\<lambda>_. None)\<rparr>, summarise = (\<lambda>_. None),
     context_budget = 100, failures = 0, recent_files = [], active_plan = None\<rparr>"

theorem compaction_keeps_newest_witness:
  "last (fst (micro_compact (json_of demo_params) demo_calls)) = says User ''d''"
proof -
  have l: "last demo_calls = says User ''d''" by (simp add: demo_calls_def)
  moreover have "\<not> is_system (says User ''d'')" by (simp add: is_system_def says_def)
  moreover have "demo_calls \<noteq> []" by (simp add: demo_calls_def)
  ultimately show ?thesis using compaction_keeps_newest [of demo_calls] by simp
qed

theorem idle_pass_forgets_failures_witness:
  "\<exists>ms. case compact_with_params demo_params ms of (ms', res, _) \<Rightarrow>
    new_failures res = 1 \<and>
    new_failures (fst (snd (compact_with_params (demo_params\<lparr>failures := 1\<rparr>) (ms' @ [says User ''more''])))) = 0"
proof -
  let ?ms = "replicate 30 (says User ''d'')"
  have t: "estimate_message_tokens J (says User ''d'') = 20" for J :: "unit json_ops"
    by (simp add: estimate_message_tokens_def says_def CHARS_PER_TOKEN_def)
  have "estimate_conversation_tokens (json_of demo_params) ?ms = 600"
    by (simp add: estimate_conversation_tokens_def t sum_list_replicate)
  then have "case compact_with_params demo_params ?ms of (ms', res, _) \<Rightarrow>
      new_failures res = failures demo_params + 1 \<and>
      new_failures (fst (snd (compact_with_params (demo_params\<lparr>failures := new_failures res\<rparr>) (ms' @ [says User ''more''])))) = 0"
    by (intro idle_pass_forgets_failures)
      (simp_all add: demo_params_def MIN_MESSAGES_FOR_COMPACTION_def budget_of_def COMPACTION_CIRCUIT_BREAKER_THRESHOLD_def)
  moreover have "failures demo_params = 0" by (simp add: demo_params_def)
  ultimately show ?thesis by (intro exI [of _ ?ms]) (auto split: prod.splits)
qed

theorem files_split_the_window_witness:
  "\<exists>files. fst (reinject_files (demo_params\<lparr>context_budget := 900, active_plan := Some (replicate 4000 (CHR ''p'')),
        recent_files := [\<lparr>file_path = ''f'', snippet = ''x'', accessed_at = 0\<rparr>]\<rparr>)
      (reinject_plan (demo_params\<lparr>context_budget := 900, active_plan := Some (replicate 4000 (CHR ''p'')),
        recent_files := [\<lparr>file_path = ''f'', snippet = ''x'', accessed_at = 0\<rparr>]\<rparr>)
        [summary_message ''s'', says User ''a'', says User ''b''])) =
     [summary_message ''s'', says User ''a'', system_message files, says User ''b'']"
proof -
  let ?P = "demo_params\<lparr>context_budget := 900, active_plan := Some (replicate 4000 (CHR ''p'')),
        recent_files := [\<lparr>file_path = ''f'', snippet = ''x'', accessed_at = 0\<rparr>]\<rparr>"
  let ?ms = "[summary_message ''s'', says User ''a'', says User ''b'']"
  obtain files where f: "build_file_reinjection (recent_files ?P) = Some files" "length files < 400"
    by (simp add: build_file_reinjection_def MAX_REINJECTION_FILES_def file_part_def Let_def dash_def
        MAX_REINJECTION_TOKENS_PER_FILE_def CHARS_PER_TOKEN_def)
  have t: "estimate_conversation_tokens (json_of ?P) ?ms \<le> 100"
    by (simp add: estimate_conversation_tokens_def estimate_message_tokens_def says_def summary_message_def
        system_message_def CHARS_PER_TOKEN_def)
  have "4000 \<le> length (plan_text (replicate 4000 (CHR ''p'')))" by (simp add: plan_text_def)
  then have "1000 \<le> length (plan_text (replicate 4000 (CHR ''p''))) div CHARS_PER_TOKEN"
    by (simp add: CHARS_PER_TOKEN_def div_le_mono [of 4000, simplified])
  moreover have "length files div CHARS_PER_TOKEN \<le> 100" using f(2) by (simp add: CHARS_PER_TOKEN_def)
  moreover have "budget_of ?P = 900" by (simp add: budget_of_def)
  ultimately have "fst (reinject_files ?P (reinject_plan ?P ?ms)) =
      summary_message ''s'' # says User ''a'' # system_message files # [says User ''b'']"
    using f t by (intro files_split_the_window [where plan = "replicate 4000 (CHR ''p'')"]) simp_all
  then show ?thesis by auto
qed

end
