(* ===== verification/TurnStream.thy ===== *)
theory TurnStream
  imports Prelude
begin

text \<open>
  The event stream of one chat turn: \<open>TurnEvent\<close>, \<open>ControlPlane\<close> and the delivery half of
  \<open>ProgressSink\<close> in \<open>src/tool_loop.rs\<close>, and the reader in \<open>chat_stream\<close>
  (\<open>src/server/handlers/chat.rs\<close>). The turn never waits for the client: the channel is bounded, a
  segment that does not fit is parked beside it, a reset travels out of band.
\<close>

subsection \<open>Events and the channel\<close>

datatype turn_status = Thinking | ToolStatus bytes | Responding

datatype reset_reason = FallbackReset | GuardReset | BudgetReset | RefusalReset | ErrorReset

datatype turn_event = Status turn_status | Delta bytes | Segment u32 bool | Reset reset_reason

definition is_reset :: "turn_event \<Rightarrow> bool" where
  "is_reset ev \<longleftrightarrow> (case ev of Reset _ \<Rightarrow> True | _ \<Rightarrow> False)"

definition is_segment :: "turn_event \<Rightarrow> bool" where
  "is_segment ev \<longleftrightarrow> (case ev of Segment _ _ \<Rightarrow> True | _ \<Rightarrow> False)"

definition is_delta :: "turn_event \<Rightarrow> bool" where
  "is_delta ev \<longleftrightarrow> (case ev of Delta _ \<Rightarrow> True | _ \<Rightarrow> False)"

text \<open>
  A bounded \<open>mpsc\<close> channel: everything sent so far, how many of these the receiver has taken, the
  capacity, and whether the receiver is gone.
\<close>

record turn_channel =
  sent :: "turn_event list"
  taken :: nat
  capacity :: nat
  rx_dropped :: bool

definition chan_full :: "turn_channel \<Rightarrow> bool" where
  "chan_full ch \<longleftrightarrow> taken ch + capacity ch \<le> length (sent ch)"

definition STREAM_CHANNEL_CAPACITY :: nat where
  "STREAM_CHANNEL_CAPACITY = 256"

definition chan_new :: turn_channel where
  "chan_new = \<lparr>sent = [], taken = 0, capacity = STREAM_CHANNEL_CAPACITY, rx_dropped = False\<rparr>"

record parked_segment =
  parked :: turn_event
  after :: u64

record control_plane =
  resets :: "turn_event list"
  segments :: "parked_segment list"
  accepted :: u64
  reset_queued :: bool
  plane_closed :: bool

definition plane_new :: control_plane where
  "plane_new = \<lparr>resets = [], segments = [], accepted = 0, reset_queued = False, plane_closed = False\<rparr>"

definition push_reset :: "turn_event \<Rightarrow> control_plane \<Rightarrow> bool \<times> control_plane" where
  "push_reset ev c =
     (if plane_closed c then (False, c) else (True, c\<lparr>resets := resets c @ [ev], reset_queued := True\<rparr>))"

definition note_accepted :: "control_plane \<Rightarrow> control_plane" where
  "note_accepted c = c\<lparr>accepted := saturating_add_u64 (accepted c) 1\<rparr>"

definition push_segment :: "turn_event \<Rightarrow> control_plane \<Rightarrow> bool \<times> control_plane" where
  "push_segment ev c =
     (if plane_closed c then (False, c)
      else (True, c\<lparr>segments := segments c @ [\<lparr>parked = ev, after = accepted c\<rparr>]\<rparr>))"

definition drain_resets :: "control_plane \<Rightarrow> turn_event list \<times> control_plane" where
  "drain_resets c = (resets c, c\<lparr>resets := []\<rparr>)"

definition take_due :: "u64 \<Rightarrow> control_plane \<Rightarrow> turn_event list \<times> control_plane" where
  "take_due written c =
     (map parked (takeWhile (\<lambda>s. after s \<le> written) (segments c)),
      c\<lparr>segments := dropWhile (\<lambda>s. after s \<le> written) (segments c)\<rparr>)"

definition close_plane :: "control_plane \<Rightarrow> control_plane" where
  "close_plane c = c\<lparr>plane_closed := True\<rparr>"

text \<open>The part of \<open>ProgressSink\<close> that delivers.\<close>

record sink_io =
  chan :: turn_channel
  saw_delta :: bool
  control :: "control_plane option"

definition mark_delta :: "turn_event \<Rightarrow> sink_io \<Rightarrow> sink_io" where
  "mark_delta ev io = (if is_delta ev then io\<lparr>saw_delta := True\<rparr> else io)"

definition send_event :: "turn_event \<Rightarrow> sink_io \<Rightarrow> sink_io" where
  "send_event ev io = io\<lparr>chan := (chan io)\<lparr>sent := sent (chan io) @ [ev]\<rparr>\<rparr>"

definition enqueue_event :: "turn_event \<Rightarrow> sink_io \<Rightarrow> bool \<times> sink_io" where
  "enqueue_event ev io =
     (let io1 = mark_delta ev io
      in if rx_dropped (chan io1) \<or> chan_full (chan io1) then (False, io1) else (True, send_event ev io1))"

definition deliver_in_order :: "turn_event \<Rightarrow> control_plane \<Rightarrow> sink_io \<Rightarrow> bool \<times> sink_io" where
  "deliver_in_order ev c io =
     (if rx_dropped (chan io) then (False, io)
      else if \<not> chan_full (chan io)
        then (True, send_event ev (mark_delta ev (io\<lparr>control := Some (note_accepted c)\<rparr>)))
      else if is_segment ev
        then (case push_segment ev c of (ok, c') \<Rightarrow> (ok, io\<lparr>control := Some c'\<rparr>))
      else (False, io))"

definition deliver :: "turn_event \<Rightarrow> sink_io \<Rightarrow> bool \<times> sink_io" where
  "deliver ev io =
     (case control io of
        None \<Rightarrow> enqueue_event ev io
      | Some c \<Rightarrow>
          if is_reset ev then (case push_reset ev c of (ok, c') \<Rightarrow> (ok, io\<lparr>control := Some c'\<rparr>))
          else deliver_in_order ev c io)"

subsection \<open>The reader\<close>

text \<open>
  Where the stream of \<open>chat_stream\<close> stands: the top of the loop, after the resets, waiting, with an
  event taken from the channel, the same after the resets and after the segments, and past the
  loop.
\<close>

datatype reader_at = Top | Dues | Waiting | Got turn_event | GotDues turn_event | Yield turn_event
  | Tail | TailDues | Finished

text \<open>\<open>out\<close> is what the stream has yielded, in order.\<close>

record stream_reader =
  at :: reader_at
  out :: "turn_event list"
  written :: u64
  reset_sent :: bool

definition reader_new :: stream_reader where
  "reader_new = \<lparr>at = Top, out = [], written = 0, reset_sent = False\<rparr>"

definition yield_resets :: "control_plane \<Rightarrow> reader_at \<Rightarrow> stream_reader \<Rightarrow> stream_reader \<times> control_plane" where
  "yield_resets c next_at r =
     (case drain_resets c of (evs, c') \<Rightarrow>
        (r\<lparr>at := next_at, out := out r @ evs, reset_sent := reset_sent r \<or> evs \<noteq> []\<rparr>, c'))"

definition yield_dues :: "u64 \<Rightarrow> control_plane \<Rightarrow> reader_at \<Rightarrow> stream_reader \<Rightarrow> stream_reader \<times> control_plane" where
  "yield_dues w c next_at r = (case take_due w c of (evs, c') \<Rightarrow> (r\<lparr>at := next_at, out := out r @ evs\<rparr>, c'))"

text \<open>
  One step of the reader; \<open>woken\<close> says that the notification of the control plane fired, and
  \<open>tx_dropped\<close> that the turn is over and its sender gone. \<open>None\<close>: it stays where it is.
\<close>

definition reader_step ::
  "bool \<Rightarrow> bool \<Rightarrow> turn_channel \<Rightarrow> control_plane \<Rightarrow> stream_reader \<Rightarrow>
     (turn_channel \<times> control_plane \<times> stream_reader) option" where
  "reader_step woken tx_dropped ch c r =
     (case at r of
        Top \<Rightarrow> (case yield_resets c Dues r of (r', c') \<Rightarrow> Some (ch, c', r'))
      | Dues \<Rightarrow> (case yield_dues (written r) c Waiting r of (r', c') \<Rightarrow> Some (ch, c', r'))
      | Waiting \<Rightarrow>
          if woken then Some (ch, c, r\<lparr>at := Top\<rparr>)
          else if taken ch < length (sent ch)
            then Some (ch\<lparr>taken := taken ch + 1\<rparr>, c, r\<lparr>at := Got (sent ch ! taken ch)\<rparr>)
          else if tx_dropped then Some (ch, c, r\<lparr>at := Tail\<rparr>)
          else None
      | Got ev \<Rightarrow> (case yield_resets c (GotDues ev) r of (r', c') \<Rightarrow> Some (ch, c', r'))
      | GotDues ev \<Rightarrow> (case yield_dues (written r) c (Yield ev) r of (r', c') \<Rightarrow> Some (ch, c', r'))
      | Yield ev \<Rightarrow> Some (ch, c, r\<lparr>at := Top, out := out r @ [ev], written := saturating_add_u64 (written r) 1\<rparr>)
      | Tail \<Rightarrow> (case yield_resets c TailDues r of (r', c') \<Rightarrow> Some (ch, c', r'))
      | TailDues \<Rightarrow> (case yield_dues (- 1) c Finished r of (r', c') \<Rightarrow> Some (ch, c', r'))
      | Finished \<Rightarrow> None)"

text \<open>How the stream ends: with the turn's own outcome, or because a reset was not written.\<close>

definition reset_lost :: "control_plane \<Rightarrow> stream_reader \<Rightarrow> bool" where
  "reset_lost c r \<longleftrightarrow> reset_queued c \<and> \<not> reset_sent r"

subsection \<open>A turn and its reader\<close>

text \<open>
  The turn delivers events, in any number and at any time, until it drops its sender; the reader
  steps in between. \<open>log\<close> records what \<open>deliver\<close> accepted, resets included.
\<close>

record turn_run =
  turn_io :: sink_io
  reader :: stream_reader
  turn_over :: bool
  log :: "turn_event list"

definition run_new :: turn_run where
  "run_new = \<lparr>turn_io = \<lparr>chan = chan_new, saw_delta = False, control = Some plane_new\<rparr>,
     reader = reader_new, turn_over = False, log = []\<rparr>"

inductive turn_step :: "turn_run \<Rightarrow> turn_run \<Rightarrow> bool" where
  produce: "\<not> turn_over s \<Longrightarrow> deliver ev (turn_io s) = (ok, io') \<Longrightarrow>
     turn_step s (s\<lparr>turn_io := io', log := log s @ (if ok then [ev] else [])\<rparr>)"
| finish: "turn_step s (s\<lparr>turn_over := True\<rparr>)"
| hang_up: "control (turn_io s) = Some c \<Longrightarrow>
     turn_step s (s\<lparr>turn_io := (turn_io s)\<lparr>chan := (chan (turn_io s))\<lparr>rx_dropped := True\<rparr>, control := Some (close_plane c)\<rparr>\<rparr>)"
| read: "control (turn_io s) = Some c \<Longrightarrow>
     reader_step woken (turn_over s) (chan (turn_io s)) c (reader s) = Some (ch, c', r) \<Longrightarrow>
     turn_step s (s\<lparr>turn_io := (turn_io s)\<lparr>chan := ch, control := Some c'\<rparr>, reader := r\<rparr>)"

inductive_cases turn_stepE: "turn_step s s'"

subsection \<open>The order of a stream\<close>

text \<open>
  What is still to come: the channel's events from index \<open>i\<close>, each parked segment before the first
  event that was accepted after it.
\<close>

fun to_come :: "nat \<Rightarrow> turn_event list \<Rightarrow> parked_segment list \<Rightarrow> turn_event list" where
  "to_come i evs [] = evs"
| "to_come i [] (s # ss) = parked s # to_come i [] ss"
| "to_come i (e # es) (s # ss) =
     (if unat (after s) \<le> i then parked s # to_come i (e # es) ss else e # to_come (i + 1) es (s # ss))"

lemma to_come_send:
  "\<forall>s\<in>set segs. unat (after s) \<le> i + length evs \<Longrightarrow> to_come i (evs @ [ev]) segs = to_come i evs segs @ [ev]"
proof (induction i evs segs rule: to_come.induct)
  case (3 i e es s ss)
  then show ?case by (cases "unat (after s) \<le> i") auto
qed auto

lemma to_come_park:
  "unat (after s) = i + length evs \<Longrightarrow> to_come i evs (segs @ [s]) = to_come i evs segs @ [parked s]"
proof (induction i evs segs rule: to_come.induct)
  case (1 i evs)
  then show ?case
  proof (induction evs arbitrary: i)
    case (Cons e es)
    then have "to_come (i + 1) es [s] = es @ [parked s]" by simp
    with Cons.prems show ?case by simp
  qed simp
qed auto

lemma to_come_due:
  assumes "unat w = i"
  shows "map parked (takeWhile (\<lambda>s. after s \<le> w) segs) @ to_come i evs (dropWhile (\<lambda>s. after s \<le> w) segs) =
    to_come i evs segs"
  using assms
proof (induction segs)
  case (Cons s ss)
  show ?case
  proof (cases "after s \<le> w")
    case True
    then have "unat (after s) \<le> i" using Cons.prems by (simp add: word_le_nat_alt)
    with Cons True show ?thesis by (cases evs) auto
  qed simp
qed simp

definition next_not_due :: "nat \<Rightarrow> parked_segment list \<Rightarrow> bool" where
  "next_not_due i segs \<longleftrightarrow> (case segs of [] \<Rightarrow> True | s # _ \<Rightarrow> i < unat (after s))"

lemma to_come_event: "next_not_due i segs \<Longrightarrow> to_come i (e # es) segs = e # to_come (i + 1) es segs"
  by (cases segs) (auto simp: next_not_due_def)

lemma not_due_dropWhile: "unat w = i \<Longrightarrow> next_not_due i (dropWhile (\<lambda>s. after s \<le> w) segs)"
  by (induction segs) (auto simp: next_not_due_def word_le_nat_alt)

definition held_event :: "stream_reader \<Rightarrow> turn_event option" where
  "held_event r = (case at r of Got ev \<Rightarrow> Some ev | GotDues ev \<Rightarrow> Some ev | Yield ev \<Rightarrow> Some ev | _ \<Rightarrow> None)"

definition at_tail :: "stream_reader \<Rightarrow> bool" where
  "at_tail r \<longleftrightarrow> at r \<in> {Tail, TailDues, Finished}"

definition shown :: "turn_event list \<Rightarrow> turn_event list" where
  "shown evs = filter (\<lambda>ev. \<not> is_reset ev) evs"

lemma shown_simps [simp]:
  "shown [] = []" "shown (xs @ ys) = shown xs @ shown ys"
  "list_all is_reset xs \<Longrightarrow> shown xs = []" "\<not> is_reset ev \<Longrightarrow> shown [ev] = [ev]"
  "list_all (\<lambda>ev. \<not> is_reset ev) xs \<Longrightarrow> shown xs = xs"
  by (auto simp: shown_def list_all_iff filter_empty_conv filter_id_conv)

definition stream_inv :: "turn_channel \<Rightarrow> control_plane \<Rightarrow> stream_reader \<Rightarrow> bool \<Rightarrow> turn_event list \<Rightarrow> bool" where
  "stream_inv ch c r over lg \<longleftrightarrow>
     unat (accepted c) = length (sent ch) \<and>
     taken ch = unat (written r) + (case held_event r of None \<Rightarrow> 0 | Some _ \<Rightarrow> 1) \<and>
     taken ch \<le> length (sent ch) \<and>
     (\<forall>ev. held_event r = Some ev \<longrightarrow> sent ch ! unat (written r) = ev) \<and>
     (\<forall>ev. at r = Yield ev \<longrightarrow> next_not_due (unat (written r)) (segments c)) \<and>
     (\<forall>s\<in>set (segments c). unat (after s) \<le> length (sent ch) \<and> \<not> is_reset (parked s)) \<and>
     list_all (\<lambda>ev. \<not> is_reset ev) (sent ch) \<and> list_all is_reset (resets c) \<and>
     (at_tail r \<longrightarrow> over \<and> taken ch = length (sent ch)) \<and>
     (at r = Finished \<longrightarrow> segments c = []) \<and>
     (at r \<in> {TailDues, Finished} \<longrightarrow> resets c = []) \<and>
     (reset_sent r \<longleftrightarrow> filter is_reset (out r) \<noteq> []) \<and>
     (reset_queued c \<longleftrightarrow> filter is_reset (out r) @ resets c \<noteq> []) \<and>
     shown (out r) @ to_come (unat (written r)) (drop (unat (written r)) (sent ch)) (segments c) = lg"

lemma unat_note_accepted:
  "unat (accepted c) = n \<Longrightarrow> Suc n < 2 ^ 64 \<Longrightarrow> unat (accepted (note_accepted c)) = Suc n"
  by (simp add: note_accepted_def saturating_add_u64_def unat_word_ariths)

lemma inv_send:
  assumes "stream_inv ch c r False lg" and "\<not> is_reset ev" and "Suc (length (sent ch)) < 2 ^ 64"
  shows "stream_inv (ch\<lparr>sent := sent ch @ [ev]\<rparr>) (note_accepted c) r False (lg @ [ev])"
proof -
  let ?w = "unat (written r)"
  from assms(1) have w: "?w \<le> length (sent ch)" "\<not> at_tail r"
    by (auto simp: stream_inv_def)
  have "to_come ?w (drop ?w (sent ch) @ [ev]) (segments c) = to_come ?w (drop ?w (sent ch)) (segments c) @ [ev]"
    by (rule to_come_send) (use assms(1) w in \<open>auto simp: stream_inv_def\<close>)
  moreover have "held_event r = Some e \<Longrightarrow> (sent ch @ [ev]) ! ?w = e" for e
    using assms(1) by (auto simp: stream_inv_def nth_append split: if_splits)
  moreover have "unat (accepted (note_accepted c)) = Suc (length (sent ch))"
    using assms(1,3) by (intro unat_note_accepted) (simp_all add: stream_inv_def)
  ultimately show ?thesis using assms(1,2) w
    by (auto simp: stream_inv_def at_tail_def note_accepted_def le_SucI)
qed

lemma next_not_due_append:
  "next_not_due i segs \<Longrightarrow> i < unat (after s) \<Longrightarrow> next_not_due i (segs @ [s])"
  by (cases segs) (auto simp: next_not_due_def)

lemma inv_park:
  assumes "stream_inv ch c r False lg" and "\<not> is_reset ev"
  shows "stream_inv ch (c\<lparr>segments := segments c @ [\<lparr>parked = ev, after = accepted c\<rparr>]\<rparr>) r False (lg @ [ev])"
proof -
  let ?w = "unat (written r)" and ?s = "\<lparr>parked = ev, after = accepted c\<rparr>"
  from assms(1) have w: "?w \<le> length (sent ch)" "\<not> at_tail r" by (auto simp: stream_inv_def)
  have "to_come ?w (drop ?w (sent ch)) (segments c @ [?s]) = to_come ?w (drop ?w (sent ch)) (segments c) @ [parked ?s]"
    by (rule to_come_park) (use assms(1) w in \<open>simp add: stream_inv_def\<close>)
  moreover have "next_not_due ?w (segments c @ [?s])" if "at r = Yield e" for e
  proof (rule next_not_due_append)
    show "next_not_due ?w (segments c)" using assms(1) that by (auto simp: stream_inv_def)
    have "held_event r = Some e" using that by (simp add: held_event_def)
    then show "?w < unat (after ?s)" using assms(1) by (auto simp: stream_inv_def)
  qed
  ultimately show ?thesis using assms w by (auto simp: stream_inv_def at_tail_def)
qed

lemma inv_push_reset:
  assumes "stream_inv ch c r False lg" and "is_reset ev"
  shows "stream_inv ch (c\<lparr>resets := resets c @ [ev], reset_queued := True\<rparr>) r False lg"
  using assms by (auto simp: stream_inv_def at_tail_def)

lemma inv_deliver:
  assumes "stream_inv (chan io) c r False lg" and "control io = Some c" and "deliver ev io = (ok, io')"
    and "length (sent (chan io')) < 2 ^ 64"
  shows "\<exists>c'. control io' = Some c' \<and> length (sent (chan io)) \<le> length (sent (chan io')) \<and>
    stream_inv (chan io') c' r False (lg @ (if ok \<and> \<not> is_reset ev then [ev] else []))"
proof (cases "is_reset ev")
  case True
  with assms(2,3) have "(ok, io') = (case push_reset ev c of (ok, c') \<Rightarrow> (ok, io\<lparr>control := Some c'\<rparr>))"
    by (simp add: deliver_def)
  then show ?thesis using True assms(1,2) inv_push_reset [OF assms(1) True]
    by (auto simp: push_reset_def split: if_splits)
next
  case False
  with assms(2,3) have d: "deliver_in_order ev c io = (ok, io')" by (simp add: deliver_def)
  consider "rx_dropped (chan io)" | "\<not> rx_dropped (chan io)" "\<not> chan_full (chan io)"
    | "\<not> rx_dropped (chan io)" "chan_full (chan io)" by blast
  then show ?thesis
  proof cases
    case 1
    with d assms(1,2) show ?thesis by (simp add: deliver_in_order_def)
  next
    case 2
    with d have io': "ok" "io' = send_event ev (mark_delta ev (io\<lparr>control := Some (note_accepted c)\<rparr>))"
      by (auto simp: deliver_in_order_def)
    have "chan io' = (chan io)\<lparr>sent := sent (chan io) @ [ev]\<rparr>" "control io' = Some (note_accepted c)"
      by (simp_all add: io' send_event_def mark_delta_def)
    with inv_send [OF assms(1) False] assms(4) io'(1) False show ?thesis by simp
  next
    case 3
    with d assms(1,2) inv_park [OF assms(1) False] False show ?thesis
      by (auto simp: deliver_in_order_def push_segment_def split: if_splits)
  qed
qed

lemma inv_resets:
  assumes "stream_inv ch c r over lg" and "held_event (r\<lparr>at := a\<rparr>) = held_event r"
    and "at_tail (r\<lparr>at := a\<rparr>) = at_tail r" and "\<forall>ev. a \<noteq> Yield ev" and "a \<noteq> Finished"
    and "yield_resets c a r = (r', c')"
  shows "stream_inv ch c' r' over lg"
proof -
  from assms(6) have r': "r' = r\<lparr>at := a, out := out r @ resets c, reset_sent := reset_sent r \<or> resets c \<noteq> []\<rparr>"
      "c' = c\<lparr>resets := []\<rparr>"
    by (auto simp: yield_resets_def drain_resets_def)
  have "list_all is_reset (resets c)" using assms(1) by (simp add: stream_inv_def)
  then have "filter is_reset (resets c) = resets c" by (simp add: list_all_iff filter_id_conv)
  moreover have "held_event r' = held_event r" "at_tail r' = at_tail r" using assms(2,3)
    by (simp_all add: r' held_event_def at_tail_def)
  ultimately show ?thesis using assms(1,4,5) by (auto simp: stream_inv_def r')
qed

lemma inv_dues:
  assumes "stream_inv ch c r over lg" and "held_event (r\<lparr>at := a\<rparr>) = held_event r"
    and "at_tail (r\<lparr>at := a\<rparr>) = at_tail r" and "a \<notin> {TailDues, Finished}"
    and "yield_dues (written r) c a r = (r', c')"
  shows "stream_inv ch c' r' over lg"
proof -
  let ?P = "\<lambda>s. after s \<le> written r" and ?w = "unat (written r)"
  let ?due = "map parked (takeWhile ?P (segments c))"
  from assms(5) have r': "r' = r\<lparr>at := a, out := out r @ ?due\<rparr>" "c' = c\<lparr>segments := dropWhile ?P (segments c)\<rparr>"
    by (auto simp: yield_dues_def take_due_def)
  have segs: "\<forall>s\<in>set (segments c). unat (after s) \<le> length (sent ch) \<and> \<not> is_reset (parked s)"
    using assms(1) by (simp add: stream_inv_def)
  then have due: "list_all (\<lambda>ev. \<not> is_reset ev) ?due" by (auto simp: list_all_iff dest: set_takeWhileD)
  have o: "filter is_reset (out r') = filter is_reset (out r)"
    using due by (simp add: r' list_all_iff filter_empty_conv)
  have "shown (out r') @ to_come ?w (drop ?w (sent ch)) (segments c') =
      shown (out r) @ ?due @ to_come ?w (drop ?w (sent ch)) (dropWhile ?P (segments c))"
    using due by (simp add: r')
  also have "\<dots> = lg" using assms(1) by (simp add: stream_inv_def to_come_due)
  finally have lg: "shown (out r') @ to_come ?w (drop ?w (sent ch)) (segments c') = lg" .
  have nd: "next_not_due ?w (segments c')" unfolding r'(2) by (simp add: not_due_dropWhile)
  have at: "held_event r' = held_event r" "at_tail r' = at_tail r" using assms(2,3)
    by (simp_all add: r' held_event_def at_tail_def)
  have segs': "\<forall>s\<in>set (segments c'). unat (after s) \<le> length (sent ch) \<and> \<not> is_reset (parked s)"
    using segs by (auto simp: r' dest: set_dropWhileD)
  have same: "written r' = written r" "reset_sent r' = reset_sent r" "accepted c' = accepted c"
      "resets c' = resets c" "reset_queued c' = reset_queued c" "at r' = a" by (simp_all add: r')
  show ?thesis using assms(1,4) lg nd segs' unfolding stream_inv_def same o at
    by (elim conjE, intro conjI) simp_all
qed

lemma inv_reader:
  assumes "stream_inv ch c r over lg" and "reader_step woken over ch c r = Some (ch', c', r')"
    and "length (sent ch) < 2 ^ 64"
  shows "stream_inv ch' c' r' over lg \<and> sent ch' = sent ch"
proof (cases "at r")
  case Top
  then obtain p where "yield_resets c Dues r = p" "ch' = ch" "p = (r', c')"
    using assms(2) by (auto simp: reader_step_def split: prod.splits)
  with inv_resets [OF assms(1), of Dues r' c'] Top show ?thesis by (simp add: held_event_def at_tail_def)
next
  case Dues
  then obtain p where "yield_dues (written r) c Waiting r = p" "ch' = ch" "p = (r', c')"
    using assms(2) by (auto simp: reader_step_def split: prod.splits)
  with inv_dues [OF assms(1), of Waiting r' c'] Dues show ?thesis by (simp add: held_event_def at_tail_def)
next
  case Waiting
  consider (woken) "woken" | (recv) "\<not> woken" "taken ch < length (sent ch)"
    | (tail) "\<not> woken" "\<not> taken ch < length (sent ch)" "over"
    using assms(2) Waiting by (auto simp: reader_step_def split: if_splits)
  then show ?thesis
  proof cases
    case woken
    with assms Waiting have "ch' = ch" "c' = c" "r' = r\<lparr>at := Top\<rparr>" by (auto simp: reader_step_def)
    with assms(1) Waiting show ?thesis by (simp add: stream_inv_def held_event_def at_tail_def)
  next
    case recv
    with assms Waiting have "ch' = ch\<lparr>taken := taken ch + 1\<rparr>" "c' = c" "r' = r\<lparr>at := Got (sent ch ! taken ch)\<rparr>"
      by (auto simp: reader_step_def)
    with assms(1) Waiting recv show ?thesis by (simp add: stream_inv_def held_event_def at_tail_def)
  next
    case tail
    with assms Waiting have "ch' = ch" "c' = c" "r' = r\<lparr>at := Tail\<rparr>" by (auto simp: reader_step_def)
    moreover have "unat (written r) = length (sent ch)"
      using assms(1) Waiting tail by (simp add: stream_inv_def held_event_def)
    ultimately show ?thesis using assms(1) Waiting tail
      by (simp add: stream_inv_def held_event_def at_tail_def)
  qed
next
  case (Got ev)
  then obtain p where "yield_resets c (GotDues ev) r = p" "ch' = ch" "p = (r', c')"
    using assms(2) by (auto simp: reader_step_def split: prod.splits)
  with inv_resets [OF assms(1), of "GotDues ev" r' c'] Got show ?thesis by (simp add: held_event_def at_tail_def)
next
  case (GotDues ev)
  then obtain p where "yield_dues (written r) c (Yield ev) r = p" "ch' = ch" "p = (r', c')"
    using assms(2) by (auto simp: reader_step_def split: prod.splits)
  with inv_dues [OF assms(1), of "Yield ev" r' c'] GotDues show ?thesis by (simp add: held_event_def at_tail_def)
next
  case (Yield ev)
  let ?w = "unat (written r)"
  from assms(2) Yield have r': "ch' = ch" "c' = c"
      "r' = r\<lparr>at := Top, out := out r @ [ev], written := saturating_add_u64 (written r) 1\<rparr>"
    by (auto simp: reader_step_def)
  from assms(1) Yield have inv: "?w < length (sent ch)" "sent ch ! ?w = ev" "next_not_due ?w (segments c)"
      "list_all (\<lambda>ev. \<not> is_reset ev) (sent ch)" "taken ch = Suc ?w"
    by (auto simp: stream_inv_def held_event_def)
  have w': "unat (saturating_add_u64 (written r) 1) = Suc ?w"
    using inv(1) assms(3) by (simp add: saturating_add_u64_def unat_word_ariths)
  have ev: "\<not> is_reset ev" using inv(1,2,4) by (auto simp: list_all_length)
  have d: "drop ?w (sent ch) = ev # drop (Suc ?w) (sent ch)" using inv(1,2) by (simp add: Cons_nth_drop_Suc [symmetric])
  have "to_come ?w (drop ?w (sent ch)) (segments c) = ev # to_come (Suc ?w) (drop (Suc ?w) (sent ch)) (segments c)"
    unfolding d using to_come_event [OF inv(3)] by simp
  with assms(1) inv ev Yield show ?thesis
    by (simp add: stream_inv_def r' w' held_event_def at_tail_def)
next
  case Tail
  then obtain p where "yield_resets c TailDues r = p" "ch' = ch" "p = (r', c')"
    using assms(2) by (auto simp: reader_step_def split: prod.splits)
  with inv_resets [OF assms(1), of TailDues r' c'] Tail show ?thesis by (simp add: held_event_def at_tail_def)
next
  case TailDues
  let ?w = "unat (written r)"
  from assms(2) TailDues have r': "ch' = ch" "c' = c\<lparr>segments := []\<rparr>"
      "r' = r\<lparr>at := Finished, out := out r @ map parked (segments c)\<rparr>"
    by (auto simp: reader_step_def yield_dues_def take_due_def takeWhile_eq_all_conv [THEN iffD2])
  from assms(1) TailDues have inv: "\<forall>s\<in>set (segments c). \<not> is_reset (parked s)" "?w = length (sent ch)"
    by (auto simp: stream_inv_def held_event_def at_tail_def)
  have "to_come i [] segs = map parked segs" for i segs by (induction segs) auto
  then have "to_come ?w (drop ?w (sent ch)) (segments c) = map parked (segments c)" using inv(2) by simp
  moreover have "list_all (\<lambda>ev. \<not> is_reset ev) (map parked (segments c))" using inv(1) by (simp add: list_all_iff)
  moreover from this have "filter is_reset (map parked (segments c)) = []" by (simp add: list_all_iff filter_empty_conv)
  ultimately show ?thesis using assms(1) TailDues inv(2) by (simp add: stream_inv_def r' held_event_def at_tail_def)
next
  case Finished
  with assms(2) show ?thesis by (simp add: reader_step_def)
qed

lemma inv_hang_up: "stream_inv ch c r over lg \<Longrightarrow> stream_inv (ch\<lparr>rx_dropped := b\<rparr>) (close_plane c) r over lg"
  by (auto simp: stream_inv_def close_plane_def)

lemma inv_over: "stream_inv ch c r over lg \<Longrightarrow> stream_inv ch c r True lg"
  by (auto simp: stream_inv_def)

text \<open>No reset is lost: the accepted ones are those yielded and those still queued, in order.\<close>

definition resets_kept :: "control_plane \<Rightarrow> stream_reader \<Rightarrow> turn_event list \<Rightarrow> bool" where
  "resets_kept c r lg \<longleftrightarrow> filter is_reset (out r) @ resets c = filter is_reset lg"

lemma kept_deliver:
  assumes "resets_kept c r lg" and "control io = Some c" and "deliver ev io = (ok, io')" and "control io' = Some c'"
  shows "resets_kept c' r (lg @ (if ok then [ev] else []))"
  using assms
  by (auto simp: resets_kept_def deliver_def push_reset_def deliver_in_order_def push_segment_def send_event_def
      mark_delta_def note_accepted_def split: if_splits)

lemma kept_reader:
  assumes "resets_kept c r lg" and "stream_inv ch c r over lg'"
    and "reader_step woken over ch c r = Some (ch', c', r')"
  shows "resets_kept c' r' lg"
proof -
  have rs: "filter is_reset (resets c) = resets c" using assms(2) by (simp add: stream_inv_def list_all_iff filter_id_conv)
  have ps: "filter is_reset (map parked (takeWhile P (segments c))) = []" for P
    using assms(2) by (auto simp: stream_inv_def filter_empty_conv dest: set_takeWhileD)
  have ev: "\<not> is_reset ev" if "at r = Yield ev" for ev
  proof -
    have "held_event r = Some ev" using that by (simp add: held_event_def)
    with assms(2) have "sent ch ! unat (written r) = ev" "unat (written r) < length (sent ch)"
      "list_all (\<lambda>ev. \<not> is_reset ev) (sent ch)" by (auto simp: stream_inv_def)
    then show ?thesis by (auto simp: list_all_length)
  qed
  have y: "yield_resets c a r = (r2, c2) \<Longrightarrow> resets_kept c2 r2 lg" for a r2 c2
    using assms(1) rs by (auto simp: yield_resets_def drain_resets_def resets_kept_def)
  have d: "yield_dues w c a r = (r2, c2) \<Longrightarrow> resets_kept c2 r2 lg" for w a r2 c2
    using assms(1) ps by (auto simp: yield_dues_def take_due_def resets_kept_def)
  from assms(3) show ?thesis
  proof (cases "at r")
    case (Yield e)
    with assms(1,3) ev [OF Yield] show ?thesis by (auto simp: reader_step_def resets_kept_def)
  next
    case Waiting
    with assms(1,3) show ?thesis by (auto simp: reader_step_def resets_kept_def split: if_splits)
  qed (auto simp: reader_step_def split: prod.splits dest: y d)
qed

definition run_inv :: "turn_run \<Rightarrow> bool" where
  "run_inv s \<longleftrightarrow> (\<exists>c. control (turn_io s) = Some c \<and>
     stream_inv (chan (turn_io s)) c (reader s) (turn_over s) (shown (log s)) \<and> resets_kept c (reader s) (log s))"

lemma run_inv_new: "run_inv run_new"
  by (simp add: run_inv_def run_new_def stream_inv_def chan_new_def plane_new_def reader_new_def
      held_event_def at_tail_def resets_kept_def)

lemma turn_step_inv:
  assumes "turn_step s s'" and "run_inv s" and "length (sent (chan (turn_io s'))) < 2 ^ 64"
  shows "run_inv s' \<and> length (sent (chan (turn_io s))) \<le> length (sent (chan (turn_io s')))"
  using assms
proof (induction rule: turn_step.induct)
  case (produce s ev ok io')
  then obtain c where c: "control (turn_io s) = Some c"
      "stream_inv (chan (turn_io s)) c (reader s) False (shown (log s))" "resets_kept c (reader s) (log s)"
    by (auto simp: run_inv_def)
  have lg: "shown (log s) @ (if ok \<and> \<not> is_reset ev then [ev] else []) = shown (log s @ (if ok then [ev] else []))"
    by (simp add: shown_def)
  have len: "length (sent (chan io')) < 2 ^ 64" using produce(4) by simp
  from inv_deliver [OF c(2,1) produce(2) len] obtain c' where c': "control io' = Some c'"
      "length (sent (chan (turn_io s))) \<le> length (sent (chan io'))"
      "stream_inv (chan io') c' (reader s) False (shown (log s @ (if ok then [ev] else [])))"
    unfolding lg by blast
  with kept_deliver [OF c(3,1) produce(2) c'(1)] produce(1) show ?case by (auto simp: run_inv_def)
next
  case (finish s)
  then show ?case by (auto simp: run_inv_def intro: inv_over)
next
  case (hang_up s c)
  then show ?case by (auto simp: run_inv_def resets_kept_def close_plane_def [of c] intro: inv_hang_up [unfolded close_plane_def])
next
  case (read s c woken ch c' r)
  then have st: "stream_inv (chan (turn_io s)) c (reader s) (turn_over s) (shown (log s))"
      "resets_kept c (reader s) (log s)" by (auto simp: run_inv_def)
  moreover have "length (sent (chan (turn_io s))) < 2 ^ 64"
  proof -
    have "sent ch = sent (chan (turn_io s))"
      using read(2) by (auto simp: reader_step_def split: reader_at.splits prod.splits if_splits)
    then show ?thesis using read(4) by simp
  qed
  ultimately show ?case using inv_reader [OF _ read(2)] kept_reader [OF st(2,1) read(2)] by (auto simp: run_inv_def)
qed

lemma run_inv_reachable:
  "turn_step\<^sup>*\<^sup>* run_new s \<Longrightarrow> length (sent (chan (turn_io s))) < 2 ^ 64 \<Longrightarrow> run_inv s"
proof (induction rule: rtranclp_induct)
  case (step s s')
  have mono: "length (sent (chan (turn_io s))) \<le> length (sent (chan (turn_io s')))"
    using step(2)
  proof (cases rule: turn_step.cases)
    case (produce ev ok io')
    then show ?thesis
      by (auto simp: deliver_def enqueue_event_def deliver_in_order_def send_event_def mark_delta_def Let_def
          split: option.splits prod.splits if_splits)
  next
    case (read c woken ch c' r)
    then show ?thesis by (auto simp: reader_step_def split: reader_at.splits prod.splits if_splits)
  qed auto
  with step turn_step_inv [OF step(2)] show ?case by linarith
qed (simp add: run_inv_new)

text \<open>
  C20: the stream of a turn is in order and complete, up to \<open>2 ^ 64\<close> events. Whatever the interleaving of the turn, the
  client's reads, and the client going away, the events the stream has yielded, besides the resets,
  are a prefix of those the turn's \<open>deliver\<close> accepted, in that order, segments that did not fit
  the channel included; and the resets it has yielded, followed by those still queued, are exactly the
  accepted ones in that order. When the stream has read to the end it has yielded all of both, and
  the error of a reset that was not written does not occur.
\<close>

theorem stream_in_order:
  assumes "turn_step\<^sup>*\<^sup>* run_new s" and "length (sent (chan (turn_io s))) < 2 ^ 64"
  shows "\<exists>c. control (turn_io s) = Some c \<and> prefix (shown (out (reader s))) (shown (log s)) \<and>
    filter is_reset (out (reader s)) @ resets c = filter is_reset (log s) \<and>
    (at (reader s) = Finished \<longrightarrow> shown (out (reader s)) = shown (log s) \<and>
      filter is_reset (out (reader s)) = filter is_reset (log s) \<and> \<not> reset_lost c (reader s))"
proof -
  from run_inv_reachable [OF assms] obtain c where c: "control (turn_io s) = Some c"
      "stream_inv (chan (turn_io s)) c (reader s) (turn_over s) (shown (log s))"
      "filter is_reset (out (reader s)) @ resets c = filter is_reset (log s)" by (auto simp: run_inv_def resets_kept_def)
  let ?w = "unat (written (reader s))"
  have lg: "shown (out (reader s)) @ to_come ?w (drop ?w (sent (chan (turn_io s)))) (segments c) = shown (log s)"
    using c(2) by (simp add: stream_inv_def)
  have "shown (out (reader s)) = shown (log s) \<and> resets c = [] \<and> \<not> reset_lost c (reader s)"
    if "at (reader s) = Finished"
    using c(2) that lg by (simp add: stream_inv_def at_tail_def held_event_def reset_lost_def)
  with c(1,3) lg show ?thesis by (metis prefixI append_Nil2)
qed

text \<open>
  What \<open>deliver\<close> refuses. An event of a live client is refused only when the channel is full and
  it is a status or a delta: a segment or a reset is always taken, and nothing that is refused
  changes the channel or the control plane.
\<close>

theorem deliver_refuses_only_deltas:
  assumes "control io = Some c" and "deliver ev io = (False, io')"
  shows "(rx_dropped (chan io) \<or> plane_closed c \<or> (chan_full (chan io) \<and> \<not> is_segment ev \<and> \<not> is_reset ev)) \<and>
    chan io' = chan io \<and> control io' = Some c"
  using assms
  by (auto simp: deliver_def deliver_in_order_def push_reset_def push_segment_def split: if_splits)

theorem deliver_refuses_only_deltas_witness:
  "\<exists>io'. deliver (Delta ''x'') \<lparr>chan = chan_new\<lparr>capacity := 0\<rparr>, saw_delta = False, control = Some plane_new\<rparr> = (False, io') \<and>
     chan io' = chan_new\<lparr>capacity := 0\<rparr>"
proof -
  let ?io = "\<lparr>chan = chan_new\<lparr>capacity := 0\<rparr>, saw_delta = False, control = Some plane_new\<rparr>"
  have d: "deliver (Delta ''x'') ?io = (False, ?io)"
    by (simp add: deliver_def is_reset_def deliver_in_order_def chan_full_def chan_new_def is_segment_def)
  from deliver_refuses_only_deltas [OF _ d] show ?thesis using d by simp
qed

text \<open>A turn that delivers one delta and ends, and a client that reads to the end.\<close>

definition read_on :: "turn_run \<Rightarrow> turn_run" where
  "read_on s = (case control (turn_io s) of
       None \<Rightarrow> s
     | Some c \<Rightarrow> (case reader_step False (turn_over s) (chan (turn_io s)) c (reader s) of
           None \<Rightarrow> s
         | Some (ch, c', r) \<Rightarrow> s\<lparr>turn_io := (turn_io s)\<lparr>chan := ch, control := Some c'\<rparr>, reader := r\<rparr>))"

lemma read_on_steps: "turn_step\<^sup>*\<^sup>* s ((read_on ^^ n) s)"
proof (induction n)
  case (Suc n)
  have "turn_step\<^sup>*\<^sup>* t (read_on t)" for t
    by (auto simp: read_on_def split: option.splits intro!: r_into_rtranclp turn_step.read)
  with Suc show ?case by (auto intro: rtranclp_trans)
qed simp

definition demo_run :: turn_run where
  "demo_run = (read_on ^^ 11)
     (run_new\<lparr>turn_io := snd (deliver (Delta ''hi'') (turn_io run_new)), log := [Delta ''hi''], turn_over := True\<rparr>)"

lemma demo_run_reachable: "turn_step\<^sup>*\<^sup>* run_new demo_run"
proof -
  let ?s1 = "run_new\<lparr>turn_io := snd (deliver (Delta ''hi'') (turn_io run_new)), log := [Delta ''hi'']\<rparr>"
  have d: "deliver (Delta ''hi'') (turn_io run_new) = (True, snd (deliver (Delta ''hi'') (turn_io run_new)))"
    by (simp add: run_new_def deliver_def is_reset_def deliver_in_order_def chan_new_def chan_full_def
        STREAM_CHANNEL_CAPACITY_def)
  have "turn_step run_new ?s1"
    using turn_step.produce [OF _ d] by (simp add: run_new_def is_reset_def)
  moreover have "turn_step ?s1 (?s1\<lparr>turn_over := True\<rparr>)" by (rule turn_step.finish)
  ultimately have "turn_step\<^sup>*\<^sup>* run_new (?s1\<lparr>turn_over := True\<rparr>)" by simp
  then show ?thesis unfolding demo_run_def using read_on_steps [of "?s1\<lparr>turn_over := True\<rparr>" 11]
    by (simp add: rtranclp_trans)
qed

definition demo_at :: "nat \<Rightarrow> reader_at \<Rightarrow> turn_event list \<Rightarrow> u64 \<Rightarrow> turn_run" where
  "demo_at n a evs w = \<lparr>turn_io = \<lparr>chan = \<lparr>sent = [Delta ''hi''], taken = n, capacity = 256, rx_dropped = False\<rparr>,
     saw_delta = True, control = Some \<lparr>resets = [], segments = [], accepted = 1, reset_queued = False, plane_closed = False\<rparr>\<rparr>,
     reader = \<lparr>at = a, out = evs, written = w, reset_sent = False\<rparr>, turn_over = True, log = [Delta ''hi'']\<rparr>"

lemma read_demo:
  "read_on (demo_at n Top evs w) = demo_at n Dues evs w"
  "read_on (demo_at n Dues evs w) = demo_at n Waiting evs w"
  "read_on (demo_at 0 Waiting evs w) = demo_at 1 (Got (Delta ''hi'')) evs w"
  "read_on (demo_at n (Got ev) evs w) = demo_at n (GotDues ev) evs w"
  "read_on (demo_at n (GotDues ev) evs w) = demo_at n (Yield ev) evs w"
  "read_on (demo_at n (Yield ev) evs 0) = demo_at n Top (evs @ [ev]) 1"
  "read_on (demo_at (Suc 0) Waiting evs w) = demo_at 1 Tail evs w"
  "read_on (demo_at n Tail evs w) = demo_at n TailDues evs w"
  "read_on (demo_at n TailDues evs w) = demo_at n Finished evs w"
  by (simp_all add: read_on_def demo_at_def reader_step_def yield_resets_def drain_resets_def yield_dues_def
      take_due_def saturating_add_u64_def)

lemma demo_run_end: "demo_run = demo_at 1 Finished [Delta ''hi''] 1"
proof -
  have "run_new\<lparr>turn_io := snd (deliver (Delta ''hi'') (turn_io run_new)), log := [Delta ''hi''], turn_over := True\<rparr> =
      demo_at 0 Top [] 0"
    by (simp add: demo_at_def run_new_def deliver_def is_reset_def deliver_in_order_def chan_new_def chan_full_def
        STREAM_CHANNEL_CAPACITY_def plane_new_def reader_new_def send_event_def mark_delta_def is_delta_def
        note_accepted_def saturating_add_u64_def)
  then show ?thesis by (simp add: demo_run_def eval_nat_numeral read_demo)
qed

theorem stream_in_order_witness:
  "at (reader demo_run) = Finished \<and> shown (out (reader demo_run)) = shown [Delta ''hi'']"
proof -
  have d: "length (sent (chan (turn_io demo_run))) < 2 ^ 64" "at (reader demo_run) = Finished" "log demo_run = [Delta ''hi'']"
    by (simp_all add: demo_run_end demo_at_def)
  from stream_in_order [OF demo_run_reachable d(1)] d(2,3) show ?thesis by metis
qed

end
