(* ===== verification/Speech.thy ===== *)
theory Speech
  imports TurnStream
begin

text \<open>
  What a caller hears before the reply guard has read the whole reply: \<open>src/speech_gate.rs\<close> releases
  a clause as soon as the guard can no longer cut it, and the holding \<open>ProgressSink\<close> of
  \<open>src/tool_loop.rs\<close> delivers those clauses and settles the rest when the round ends.

  Offsets are byte offsets, as in the code. The scan automaton (\<open>regex-automata\<close>), the classes
  \<open>\w\<close> and \<open>\s\<close>, and the guard itself (\<open>response-validator\<close>) are parameters with the contract their
  documentation and the repository's tests state.
\<close>

subsection \<open>Characters of a string\<close>

text \<open>\<open>str::trim_end\<close>.\<close>

definition trim_end :: "unicode \<Rightarrow> bytes \<Rightarrow> bytes" where
  "trim_end U s = concat (rev (dropWhile (whitespace U) (rev (utf8_chars s))))"

text \<open>\<open>str::rfind\<close> of one ASCII character.\<close>

definition rfind :: "char \<Rightarrow> bytes \<Rightarrow> nat option" where
  "rfind c s = (case filter (\<lambda>i. s ! i = c) [0..<length s] of [] \<Rightarrow> None | i # is \<Rightarrow> Some (last (i # is)))"

subsection \<open>The markers\<close>

text \<open>The regular expressions of \<open>TURN_MARKERS\<close>: literals, \<open>#{1,3}\<close>, \<open>\s*\<close>, \<open>\s+\<close>, \<open>\w+\<close> and \<open>\b\<close>.\<close>

datatype marker_item = Lit bytes | Hashes | Spaces | Spaces1 | Words1 | Boundary

type_synonym marker = "marker_item list"

record speech_env =
  tables :: unicode
  word_char :: "bytes \<Rightarrow> bool"
  viable :: "bytes \<Rightarrow> bool"

definition TURN_MARKERS :: "marker list" where
  "TURN_MARKERS =
    [[Lit (newline # ''[User]:'')], [Lit (newline # ''[Assistant]:'')], [Lit (newline # ''[Human]:'')],
     [Lit (newline # ''User:'')], [Lit (newline # ''Human:'')], [Lit (newline # ''Assistant:'')],
     [Lit [newline], Hashes, Lit '' User'', Boundary],
     [Lit [newline], Hashes, Lit '' Assistant'', Boundary],
     [Lit [newline], Hashes, Lit '' Human'', Boundary],
     [Lit ''<user>''], [Lit ''</assistant>''], [Lit ''<human>''],
     [Lit (newline # ''**User:**'')], [Lit (newline # ''**Assistant:**'')], [Lit (newline # ''**Human:**'')],
     [Lit (newline # ''[System]:'')], [Lit (newline # ''System:'')], [Lit (newline # ''[AI]:'')],
     [Lit (newline # ''AI:'')],
     [Lit ''<|user|>''], [Lit ''<|assistant|>''], [Lit ''<|system|>''], [Lit ''<|im_start|>''], [Lit ''<|im_end|>''],
     [Lit ''<assistant>''], [Lit ''</user>''], [Lit ''</human>''],
     [Lit (newline # ''>''), Spaces, Lit ''User:''], [Lit (newline # ''>''), Spaces, Lit ''Assistant:''],
     [Lit ''[antml:thinking]''],
     [Lit ''<invoke'', Spaces1, Lit ''name=''],
     [Lit ''<function_calls>''],
     [Lit ''<'', Words1, Lit '':function_calls>'']]"

text \<open>What is left of a string after each way an item can match at its start.\<close>

fun skip_each :: "(bytes \<Rightarrow> bool) \<Rightarrow> bytes list \<Rightarrow> bytes list" where
  "skip_each P [] = [[]]"
| "skip_each P (c # cs) = concat (c # cs) # (if P c then skip_each P cs else [])"

definition skip_some :: "(bytes \<Rightarrow> bool) \<Rightarrow> bytes list \<Rightarrow> bytes list" where
  "skip_some P cs = (case cs of [] \<Rightarrow> [] | c # r \<Rightarrow> if P c then skip_each P r else [])"

fun item_rests :: "speech_env \<Rightarrow> marker_item \<Rightarrow> bytes \<Rightarrow> bytes list" where
  "item_rests E (Lit l) s = (case strip_prefix l s of None \<Rightarrow> [] | Some r \<Rightarrow> [r])"
| "item_rests E Hashes s = List.map_filter (\<lambda>k. strip_prefix (replicate k (CHR ''#'')) s) [1, 2, 3]"
| "item_rests E Spaces s = skip_each (whitespace (tables E)) (utf8_chars s)"
| "item_rests E Spaces1 s = skip_some (whitespace (tables E)) (utf8_chars s)"
| "item_rests E Words1 s = skip_some (word_char E) (utf8_chars s)"
| "item_rests E Boundary s = (case utf8_chars s of [] \<Rightarrow> [s] | c # _ \<Rightarrow> if word_char E c then [] else [s])"

fun marker_rests :: "speech_env \<Rightarrow> marker \<Rightarrow> bytes \<Rightarrow> bytes list" where
  "marker_rests E [] s = [s]"
| "marker_rests E (i # is) s = concat (map (marker_rests E is) (item_rests E i s))"

text \<open>Some marker matches at the start of the string.\<close>

definition marker_here :: "speech_env \<Rightarrow> bytes \<Rightarrow> bool" where
  "marker_here E s \<longleftrightarrow> list_ex (\<lambda>m. marker_rests E m s \<noteq> []) TURN_MARKERS"

definition is_marker_start :: "char \<Rightarrow> bool" where
  "is_marker_start c \<longleftrightarrow> c \<in> {newline, CHR ''<'', CHR ''[''}"

subsection \<open>The gate\<close>

text \<open>Instants are nanoseconds.\<close>

definition FIRST_RELEASE_HOLD :: nat where
  "FIRST_RELEASE_HOLD = 250000000"

definition MIN_RELEASE_BYTES :: nat where
  "MIN_RELEASE_BYTES = 20"

definition NO_CLAUSE_RELEASE_BYTES :: nat where
  "NO_CLAUSE_RELEASE_BYTES = 160"

record speech_gate =
  gate_buf :: bytes
  released :: nat
  sealed :: bool
  first_delta_at :: "nat option"
  gate_closed :: bool

definition gate_new :: speech_gate where
  "gate_new = \<lparr>gate_buf = [], released = 0, sealed = False, first_delta_at = None, gate_closed = False\<rparr>"

definition released_any :: "speech_gate \<Rightarrow> bool" where
  "released_any g \<longleftrightarrow> 0 < released g"

definition note_raw_flush :: "speech_gate \<Rightarrow> speech_gate" where
  "note_raw_flush g = g\<lparr>released := length (gate_buf g)\<rparr>"

definition begin_block :: "speech_gate \<Rightarrow> speech_gate" where
  "begin_block g = g\<lparr>sealed := True\<rparr>"

definition restart_round :: "speech_gate \<Rightarrow> speech_gate" where
  "restart_round g = g\<lparr>gate_buf := [], released := 0, gate_closed := False, sealed := True\<rparr>"

definition hold_open :: "nat \<Rightarrow> speech_gate \<Rightarrow> bool" where
  "hold_open now g \<longleftrightarrow>
     (if released_any g then False
      else (case first_delta_at g of None \<Rightarrow> True | Some start \<Rightarrow> now - start < FIRST_RELEASE_HOLD))"

function earliest_viable :: "(bytes \<Rightarrow> bool) \<Rightarrow> bytes \<Rightarrow> nat \<Rightarrow> nat" where
  "earliest_viable V buf index =
     (if index < length buf then
        if \<not> is_marker_start (buf ! index) then earliest_viable V buf (index + 1)
        else if V (drop index buf) then index
        else earliest_viable V buf (index + 1)
      else length buf)"
  by pat_completeness auto
termination by (relation "measure (\<lambda>(V, buf, index). length buf - index)") auto

declare earliest_viable.simps [simp del]

definition is_clause_punct :: "bytes \<Rightarrow> bool" where
  "is_clause_punct ch \<longleftrightarrow> ch \<in> {''.'', ''!'', ''?'', '';'', '':'', '',''}"

text \<open>\<open>buf[at..].chars().next().is_some_and(is_known_whitespace)\<close>.\<close>

definition space_at :: "unicode \<Rightarrow> bytes \<Rightarrow> nat \<Rightarrow> bool" where
  "space_at U buf i = (case utf8_chars (drop i buf) of [] \<Rightarrow> False | ch # _ \<Rightarrow> whitespace U ch)"

fun clause_scan :: "unicode \<Rightarrow> bytes \<Rightarrow> nat \<Rightarrow> nat \<Rightarrow> bytes list \<Rightarrow> nat option \<Rightarrow> nat option" where
  "clause_scan U buf safe pos [] found = found"
| "clause_scan U buf safe pos (ch # chs) found =
     clause_scan U buf safe (pos + length ch) chs
       (if \<not> is_clause_punct ch then found
        else if space_at U buf (pos + length ch) \<and> pos + length ch \<le> safe then Some (pos + length ch) else found)"

definition last_clause_boundary :: "unicode \<Rightarrow> bytes \<Rightarrow> nat \<Rightarrow> nat \<Rightarrow> nat option" where
  "last_clause_boundary U buf rel safe =
     (let region_end = min safe (length buf)
      in if \<not> char_boundary buf rel \<or> \<not> char_boundary buf region_end then None
         else clause_scan U buf safe rel (utf8_chars (drop rel (take region_end buf))) None)"

text \<open>The two loops that step back over whitespace, down to \<open>lo\<close>.\<close>

function back_over :: "unicode \<Rightarrow> bytes \<Rightarrow> nat \<Rightarrow> nat \<Rightarrow> nat" where
  "back_over U buf lo e =
     (if lo < e \<and> take e buf \<noteq> [] then
        let ch = last (utf8_chars (take e buf))
        in if whitespace U ch \<and> ch \<noteq> [] then back_over U buf lo (e - length ch) else e
      else e)"
  by pat_completeness auto
termination by (relation "measure (\<lambda>(U, buf, lo, e). e)") auto

declare back_over.simps [simp del]

definition last_space_boundary :: "unicode \<Rightarrow> bytes \<Rightarrow> nat \<Rightarrow> nat \<Rightarrow> nat option" where
  "last_space_boundary U buf rel safe =
     (if \<not> char_boundary buf rel \<or> \<not> char_boundary buf safe then None
      else (let e = back_over U buf rel safe
        in case rfind (CHR '' '') (drop rel (take e buf)) of
             None \<Rightarrow> None
           | Some relative \<Rightarrow>
               (let candidate = back_over U buf rel (rel + relative)
                in if rel < candidate then Some candidate else None)))"

definition release_candidate :: "unicode \<Rightarrow> speech_gate \<Rightarrow> nat \<Rightarrow> nat \<Rightarrow> nat option" where
  "release_candidate U g from_pos safe =
     (if safe \<le> from_pos then None
      else (case last_clause_boundary U (gate_buf g) from_pos safe of
          Some e \<Rightarrow> Some e
        | None \<Rightarrow>
            if NO_CLAUSE_RELEASE_BYTES \<le> safe - from_pos then last_space_boundary U (gate_buf g) from_pos safe
            else None))"

definition take_release :: "speech_env \<Rightarrow> nat \<Rightarrow> speech_gate \<Rightarrow> bytes option \<times> speech_gate" where
  "take_release E now g =
     (if sealed g \<or> hold_open now g then (None, g)
      else (let from_pos = released g; safe = earliest_viable (viable E) (gate_buf g) from_pos
        in case release_candidate (tables E) g from_pos safe of
             None \<Rightarrow> (None, g)
           | Some candidate \<Rightarrow>
               if candidate \<le> from_pos \<or> \<not> char_boundary (gate_buf g) candidate then (None, g)
               else if length (trim_end (tables E) (take candidate (gate_buf g))) < MIN_RELEASE_BYTES then (None, g)
               else (let piece = drop from_pos (take candidate (gate_buf g))
                 in if piece = [] then (None, g) else (Some piece, g\<lparr>released := candidate\<rparr>))))"

definition gate_push :: "speech_env \<Rightarrow> bytes \<Rightarrow> nat \<Rightarrow> speech_gate \<Rightarrow> bytes option \<times> speech_gate" where
  "gate_push E s now g =
     (if gate_closed g then (None, g)
      else (let g1 = (if first_delta_at g = None \<and> s \<noteq> [] then g\<lparr>first_delta_at := Some now\<rparr> else g)
        in take_release E now (g1\<lparr>gate_buf := gate_buf g1 @ s\<rparr>)))"

datatype prefix_violation = PrefixViolation

definition gate_finish :: "bytes \<Rightarrow> speech_gate \<Rightarrow> (prefix_violation + bytes option) \<times> speech_gate" where
  "gate_finish kept g =
     (let g1 = g\<lparr>gate_closed := True\<rparr>
      in if \<not> (released g \<le> length (gate_buf g) \<and> char_boundary (gate_buf g) (released g)) then (Inl PrefixViolation, g1)
         else if \<not> starts_with (take (released g) (gate_buf g)) kept then (Inl PrefixViolation, g1)
         else (let rest = drop (released g) kept;
                   g2 = (if starts_with kept (gate_buf g) then g1\<lparr>released := length kept\<rparr>
                         else if starts_with rest (drop (released g) (gate_buf g))
                           then g1\<lparr>released := released g + length rest\<rparr>
                         else g1)
           in (Inr (if rest = [] then None else Some rest), g2)))"

subsection \<open>Facts on characters\<close>

lemma utf8_chars_eq_Nil [simp]: "utf8_chars s = [] \<longleftrightarrow> s = []"
  by (cases s) auto

lemma utf8_chars_append:
  assumes "b = [] \<or> \<not> continuation (hd b)"
  shows "utf8_chars (a @ b) = utf8_chars a @ utf8_chars b"
proof (induction a rule: utf8_chars.induct)
  case (2 c cs)
  from assms have b: "takeWhile continuation b = []" "dropWhile continuation b = b"
    by (cases b; simp)+
  show ?case
  proof (cases "\<forall>x\<in>set cs. continuation x")
    case True
    then have t: "takeWhile continuation cs = cs" "dropWhile continuation cs = []"
        "takeWhile continuation (cs @ b) = cs @ takeWhile continuation b"
        "dropWhile continuation (cs @ b) = dropWhile continuation b"
      by (simp_all add: takeWhile_eq_all_conv [THEN iffD2])
    show ?thesis by (simp add: t b)
  next
    case False
    then have "takeWhile continuation (cs @ b) = takeWhile continuation cs"
        "dropWhile continuation (cs @ b) = dropWhile continuation cs @ b"
      by (auto simp: takeWhile_append dropWhile_append)
    with 2 show ?thesis by simp
  qed
qed simp

lemma utf8_chars_take:
  assumes "k \<le> m" and "k < length s" and "\<not> continuation (s ! k)"
  shows "utf8_chars (take m s) = utf8_chars (take k s) @ utf8_chars (drop k (take m s))"
proof -
  have "take m s = take k s @ drop k (take m s)"
    using assms(1) by (metis append_take_drop_id min.absorb1 take_take)
  moreover have "drop k (take m s) = [] \<or> \<not> continuation (hd (drop k (take m s)))"
    using assms by (cases "k < m") (auto simp: hd_drop_conv_nth)
  ultimately show ?thesis using utf8_chars_append by metis
qed

text \<open>The first \<open>k\<close> bytes end in a character that is not white space.\<close>

definition ends_solid :: "unicode \<Rightarrow> bytes \<Rightarrow> nat \<Rightarrow> bool" where
  "ends_solid U s k \<longleftrightarrow> take k s \<noteq> [] \<and> \<not> whitespace U (last (utf8_chars (take k s)))"

lemma trim_end_prefix:
  assumes "ends_solid U s k" and "k \<le> m" and "k < length s" and "\<not> continuation (s ! k)"
  shows "prefix (take k s) (trim_end U (take m s))"
proof -
  define A where "A = utf8_chars (take k s)"
  define B where "B = utf8_chars (drop k (take m s))"
  have A: "A \<noteq> []" "\<not> whitespace U (last A)" using assms(1) by (auto simp: A_def ends_solid_def)
  have split: "utf8_chars (take m s) = A @ B" unfolding A_def B_def by (rule utf8_chars_take [OF assms(2-4)])
  have keepA: "dropWhile (whitespace U) (rev A) = rev A"
    using A by (cases "rev A") (auto simp: last_rev hd_rev dest: arg_cong [where f = hd])
  have "dropWhile (whitespace U) (rev B @ rev A) =
      (if \<forall>x\<in>set B. whitespace U x then rev A else dropWhile (whitespace U) (rev B) @ rev A)"
    using keepA by (auto simp: dropWhile_append)
  then have "trim_end U (take m s) =
      (if \<forall>x\<in>set B. whitespace U x then concat A else concat A @ concat (rev (dropWhile (whitespace U) (rev B))))"
    by (simp add: trim_end_def split)
  then show ?thesis by (simp add: A_def)
qed

lemma utf8_chars_nonempty: "ch \<in> set (utf8_chars s) \<Longrightarrow> ch \<noteq> []"
  by (induction s rule: utf8_chars.induct) auto

subsection \<open>Where a clause ends\<close>

definition plain_punct :: "unicode \<Rightarrow> bool" where
  "plain_punct U \<longleftrightarrow> (\<forall>ch. is_clause_punct ch \<longrightarrow> \<not> whitespace U ch)"

lemma clause_scan_Some:
  "clause_scan U buf safe pos chs found = Some e \<Longrightarrow> found = Some e \<or>
     (\<exists>a ch b. chs = a @ ch # b \<and> is_clause_punct ch \<and> e = pos + length (concat a) + length ch \<and>
        e \<le> safe \<and> space_at U buf e)"
proof (induction chs arbitrary: pos found)
  case (Cons c cs)
  let ?found = "if \<not> is_clause_punct c then found
    else if space_at U buf (pos + length c) \<and> pos + length c \<le> safe then Some (pos + length c) else found"
  from Cons.prems have "clause_scan U buf safe (pos + length c) cs ?found = Some e" by simp
  from Cons.IH [OF this] show ?case
  proof (elim disjE exE conjE)
    assume "?found = Some e"
    then have "found = Some e \<or> (is_clause_punct c \<and> e = pos + length c \<and> e \<le> safe \<and> space_at U buf e)"
      by (simp split: if_split_asm)
    then show ?thesis
    proof
      assume "is_clause_punct c \<and> e = pos + length c \<and> e \<le> safe \<and> space_at U buf e"
      then have "c # cs = [] @ c # cs \<and> is_clause_punct c \<and> e = pos + length (concat []) + length c \<and>
          e \<le> safe \<and> space_at U buf e" by (elim conjE) simp
      then show ?thesis by blast
    qed simp
  next
    fix a ch b
    assume "cs = a @ ch # b" "is_clause_punct ch" "e = pos + length c + length (concat a) + length ch"
      "e \<le> safe" "space_at U buf e"
    then have "c # cs = (c # a) @ ch # b \<and> is_clause_punct ch \<and> e = pos + length (concat (c # a)) + length ch \<and>
        e \<le> safe \<and> space_at U buf e" by simp
    then show ?thesis by blast
  qed
qed simp

lemma clause_punct_ascii: "is_clause_punct ch \<Longrightarrow> \<exists>c. ch = [c] \<and> \<not> continuation c"
proof -
  assume "is_clause_punct ch"
  then consider "ch = ''.''" | "ch = ''!''" | "ch = ''?''" | "ch = '';''" | "ch = '':''" | "ch = '',''"
    by (auto simp: is_clause_punct_def)
  then show ?thesis by cases (simp_all add: continuation_def byte_def)
qed

lemma take_append_take: "a \<le> n \<Longrightarrow> n \<le> length s \<Longrightarrow> drop a (take n s) = x @ y \<Longrightarrow> take (a + length x) s = take a s @ x"
proof -
  assume a: "a \<le> n" "n \<le> length s" "drop a (take n s) = x @ y"
  have "take n s = take a s @ x @ y" using a by (metis append_take_drop_id min.absorb1 take_take)
  then have "s = take a s @ x @ y @ drop n s" by (metis append.assoc append_take_drop_id)
  then have "take (a + length x) s = take (a + length x) (take a s @ x @ y @ drop n s)" by simp
  also have "\<dots> = take a s @ x" using a by simp
  finally show ?thesis .
qed

lemma last_clause_boundary_sound:
  assumes "plain_punct U" and "last_clause_boundary U buf rel safe = Some c" and "rel \<le> safe"
  shows "c \<le> safe \<and> c < length buf \<and> ends_solid U buf c"
proof -
  let ?r = "min safe (length buf)"
  from assms(2) have "clause_scan U buf safe rel (utf8_chars (drop rel (take ?r buf))) None = Some c"
    by (simp add: last_clause_boundary_def Let_def split: if_splits)
  from clause_scan_Some [OF this] obtain a ch b where
    s: "utf8_chars (drop rel (take ?r buf)) = a @ ch # b" "is_clause_punct ch"
      "c = rel + length (concat a) + length ch" "c \<le> safe" "space_at U buf c" by auto
  from clause_punct_ascii [OF s(2)] obtain p where p: "ch = [p]" "\<not> continuation p" by blast
  have "drop c buf \<noteq> []" using s(5) by (auto simp: space_at_def split: list.splits)
  then have c: "c < length buf" by simp
  have "drop rel (take ?r buf) = (concat a @ [p]) @ concat b"
    using arg_cong [OF s(1), of concat] p by simp
  moreover have "rel \<le> ?r" using c s(3) assms(3) by simp
  ultimately have "take (rel + length (concat a @ [p])) buf = take rel buf @ concat a @ [p]"
    by (intro take_append_take) auto
  then have t: "take c buf = (take rel buf @ concat a) @ [p]" using s(3) p by simp
  have "utf8_chars (take c buf) = utf8_chars (take rel buf @ concat a) @ [[p]]"
    unfolding t using utf8_chars_append [of "[p]" "take rel buf @ concat a"] p(2) by simp
  then have "ends_solid U buf c" using assms(1) s(2) p by (simp add: ends_solid_def t plain_punct_def)
  with c s(4) show ?thesis by simp
qed

lemma back_over_le: "back_over U buf lo e \<le> e"
proof (induction U buf lo e rule: back_over.induct)
  case (1 U buf lo e)
  show ?case
  proof (cases "lo < e \<and> take e buf \<noteq> [] \<and> whitespace U (last (utf8_chars (take e buf))) \<and> last (utf8_chars (take e buf)) \<noteq> []")
    case True
    then have "back_over U buf lo (e - length (last (utf8_chars (take e buf)))) \<le> e - length (last (utf8_chars (take e buf)))"
      using "1.IH" by auto
    with True show ?thesis by (subst back_over.simps) (simp add: Let_def)
  next
    case False then show ?thesis by (subst back_over.simps) (auto simp: Let_def)
  qed
qed

lemma back_over_solid:
  "lo < back_over U buf lo e \<Longrightarrow> buf \<noteq> [] \<Longrightarrow> ends_solid U buf (back_over U buf lo e)"
proof (induction U buf lo e rule: back_over.induct)
  case (1 U buf lo e)
  let ?ch = "last (utf8_chars (take e buf))"
  show ?case
  proof (cases "lo < e \<and> take e buf \<noteq> [] \<and> whitespace U ?ch \<and> ?ch \<noteq> []")
    case True
    then have eq: "back_over U buf lo e = back_over U buf lo (e - length ?ch)"
      by (subst back_over.simps) (simp add: Let_def)
    show ?thesis unfolding eq using "1.IH" "1.prems" True eq by auto
  next
    case False
    then have eq: "back_over U buf lo e = e" by (subst back_over.simps) (auto simp: Let_def)
    with "1.prems" have "lo < e" "take e buf \<noteq> []" by auto
    moreover have "?ch \<noteq> []" using \<open>take e buf \<noteq> []\<close> by (intro utf8_chars_nonempty [of _ "take e buf"] last_in_set) simp
    ultimately show ?thesis using False eq by (auto simp: ends_solid_def)
  qed
qed

lemma rfind_Some: "rfind c s = Some i \<Longrightarrow> i < length s \<and> s ! i = c"
proof -
  assume "rfind c s = Some i"
  then have "filter (\<lambda>i. s ! i = c) [0..<length s] \<noteq> []" "i = last (filter (\<lambda>i. s ! i = c) [0..<length s])"
    by (auto simp: rfind_def split: list.splits)
  then have "i \<in> set (filter (\<lambda>i. s ! i = c) [0..<length s])" using last_in_set by blast
  then show ?thesis by simp
qed

lemma last_space_boundary_sound:
  assumes "last_space_boundary U buf rel safe = Some c"
  shows "c \<le> safe \<and> c < length buf \<and> ends_solid U buf c"
proof -
  define e where "e = back_over U buf rel safe"
  from assms obtain i where i: "rfind (CHR '' '') (drop rel (take e buf)) = Some i"
      and c: "c = back_over U buf rel (rel + i)" "rel < c"
    by (auto simp: last_space_boundary_def Let_def e_def split: if_splits option.splits)
  from rfind_Some [OF i] have "rel + i < length buf" "rel + i < e" by auto
  moreover have "c \<le> rel + i" unfolding c(1) by (rule back_over_le)
  moreover have "e \<le> safe" unfolding e_def by (rule back_over_le)
  moreover have "ends_solid U buf c" unfolding c(1)
    by (rule back_over_solid) (use c \<open>rel + i < length buf\<close> in auto)
  ultimately show ?thesis by auto
qed

lemma release_candidate_sound:
  assumes "plain_punct U" and "release_candidate U g from_pos safe = Some c"
  shows "c \<le> safe \<and> c < length (gate_buf g) \<and> ends_solid U (gate_buf g) c"
  using assms last_clause_boundary_sound [OF assms(1)] last_space_boundary_sound
  by (auto simp: release_candidate_def split: if_splits option.splits)

subsection \<open>Nothing the guard can cut is released\<close>

text \<open>
  The contract of the scan: a suffix it calls dead starts no marker, however the text goes on.
\<close>

definition scan_ok :: "speech_env \<Rightarrow> bool" where
  "scan_ok E \<longleftrightarrow> (\<forall>s t. s \<noteq> [] \<longrightarrow> \<not> viable E s \<longrightarrow> \<not> marker_here E (s @ t))"

text \<open>
  The contract of the guard, for the raw text of one block: it keeps the text, or cuts it where a
  marker starts, trims the end, and keeps nothing when fewer than \<open>MIN_RELEASE_BYTES\<close> are left.
\<close>

definition guard_ok :: "speech_env \<Rightarrow> (bytes \<Rightarrow> bytes) \<Rightarrow> bool" where
  "guard_ok E kept \<longleftrightarrow> (\<forall>s. kept s = s \<or>
     (\<exists>m \<le> length s. marker_here E (drop m s) \<and>
        kept s = (let k = trim_end (tables E) (take m s) in if length k < MIN_RELEASE_BYTES then [] else k)))"

fun marker_head_ok :: "marker \<Rightarrow> bool" where
  "marker_head_ok (Lit (c # l) # is) \<longleftrightarrow> is_marker_start c"
| "marker_head_ok _ \<longleftrightarrow> False"

lemma markers_start:
  assumes "m \<in> set TURN_MARKERS"
  shows "\<exists>c l is. m = Lit (c # l) # is \<and> is_marker_start c"
proof -
  have "list_all marker_head_ok TURN_MARKERS"
    by (simp add: TURN_MARKERS_def is_marker_start_def)
  then have "marker_head_ok m" using assms by (simp add: list_all_iff)
  then show ?thesis by (cases m rule: marker_head_ok.cases) auto
qed

lemma marker_here_start:
  assumes "marker_here E s"
  shows "s \<noteq> [] \<and> is_marker_start (hd s)"
proof -
  from assms obtain m where m: "m \<in> set TURN_MARKERS" "marker_rests E m s \<noteq> []"
    by (auto simp: marker_here_def list_ex_iff)
  from markers_start [OF m(1)] obtain c l is' where "m = Lit (c # l) # is'" "is_marker_start c" by blast
  with m(2) have "strip_prefix (c # l) s \<noteq> None" by (cases "strip_prefix (c # l) s") simp_all
  then obtain r where "s = (c # l) @ r" using strip_prefix_SomeD by blast
  with \<open>is_marker_start c\<close> show ?thesis by simp
qed

lemma earliest_viable_le: "i \<le> length buf \<Longrightarrow> i \<le> earliest_viable V buf i \<and> earliest_viable V buf i \<le> length buf"
proof (induction V buf i rule: earliest_viable.induct)
  case (1 V buf i)
  then show ?case by (subst (1 2) earliest_viable.simps) auto
qed

lemma earliest_viable_dead:
  "i \<le> j \<Longrightarrow> j < earliest_viable V buf i \<Longrightarrow> j < length buf \<Longrightarrow>
     \<not> is_marker_start (buf ! j) \<or> \<not> V (drop j buf)"
proof (induction V buf i rule: earliest_viable.induct)
  case (1 V buf i)
  show ?case
  proof (cases "i < length buf \<and> (\<not> is_marker_start (buf ! i) \<or> \<not> V (drop i buf))")
    case True
    then have "earliest_viable V buf i = earliest_viable V buf (i + 1)" by (subst earliest_viable.simps) auto
    with "1.prems" have "j < earliest_viable V buf (i + 1)" by simp
    with True "1.prems" "1.IH" show ?thesis by (cases "j = i") auto
  next
    case False
    then have "earliest_viable V buf i = i \<or> length buf \<le> i" by (subst earliest_viable.simps) auto
    with "1.prems" show ?thesis by auto
  qed
qed

text \<open>No marker starts in the first \<open>k\<close> bytes, however the text goes on.\<close>

definition dead_to :: "speech_env \<Rightarrow> bytes \<Rightarrow> nat \<Rightarrow> bool" where
  "dead_to E s k \<longleftrightarrow> (\<forall>i<k. \<forall>t. \<not> marker_here E (drop i s @ t))"

lemma dead_to_viable:
  assumes "scan_ok E" and "dead_to E buf i" and "i \<le> length buf"
  shows "dead_to E buf (earliest_viable (viable E) buf i)"
  unfolding dead_to_def
proof (intro allI impI)
  fix j t assume j: "j < earliest_viable (viable E) buf i"
  then have len: "j < length buf" using earliest_viable_le [OF assms(3), of "viable E"] by simp
  show "\<not> marker_here E (drop j buf @ t)"
  proof (cases "j < i")
    case True then show ?thesis using assms(2) by (simp add: dead_to_def)
  next
    case False
    then have "\<not> is_marker_start (buf ! j) \<or> \<not> viable E (drop j buf)"
      using earliest_viable_dead [OF _ j len] by simp
    then show ?thesis
    proof
      assume "\<not> is_marker_start (buf ! j)"
      then show ?thesis using marker_here_start [of E "drop j buf @ t"] len by (auto simp: hd_append hd_drop_conv_nth)
    next
      assume "\<not> viable E (drop j buf)"
      then show ?thesis using assms(1) len by (simp add: scan_ok_def)
    qed
  qed
qed

lemma dead_to_append: "dead_to E s k \<Longrightarrow> k \<le> length s \<Longrightarrow> dead_to E (s @ t) k"
  by (auto simp: dead_to_def)

text \<open>
  The invariant: what is released is dead, ends in a character that is not white space, is long
  enough to be kept, and is followed by a character.
\<close>

definition gate_inv :: "speech_env \<Rightarrow> bytes \<Rightarrow> nat \<Rightarrow> bool" where
  "gate_inv E buf k \<longleftrightarrow> k = 0 \<or>
     (k < length buf \<and> \<not> continuation (buf ! k) \<and> dead_to E buf k \<and> ends_solid (tables E) buf k \<and>
      MIN_RELEASE_BYTES \<le> length (trim_end (tables E) (take k buf)))"

lemma gate_inv_append: "gate_inv E buf k \<Longrightarrow> gate_inv E (buf @ t) k"
  by (auto simp: gate_inv_def nth_append ends_solid_def dead_to_append)

lemma trim_end_length: "length (trim_end U s) \<le> length s"
proof -
  define P where "P = whitespace U"
  have "length (concat (dropWhile P xs)) \<le> length (concat xs)" for xs :: "bytes list"
    by (induction xs) auto
  moreover have "length (concat (rev xs)) = length (concat xs)" for xs :: "bytes list"
    by (induction xs) auto
  ultimately have "length (concat (rev (dropWhile P (rev (utf8_chars s))))) \<le> length (concat (utf8_chars s))"
    by metis
  then show ?thesis by (simp only: trim_end_def P_def concat_utf8_chars)
qed

lemma guard_keeps_released:
  assumes "guard_ok E kept" and "gate_inv E buf k" and "k \<le> length buf"
  shows "prefix (take k buf) (kept (buf @ t))"
proof (cases "k = 0")
  case False
  let ?s = "buf @ t"
  from False assms(2) have inv: "k < length buf" "\<not> continuation (buf ! k)" "dead_to E buf k"
      "ends_solid (tables E) buf k" "MIN_RELEASE_BYTES \<le> length (trim_end (tables E) (take k buf))"
    by (auto simp: gate_inv_def)
  then have inv': "k < length ?s" "\<not> continuation (?s ! k)" "ends_solid (tables E) ?s k" "take k ?s = take k buf"
    using gate_inv_append [OF assms(2), of t] False by (auto simp: gate_inv_def nth_append)
  from assms(1) consider "kept ?s = ?s"
    | m where "m \<le> length ?s" "marker_here E (drop m ?s)"
        "kept ?s = (let l = trim_end (tables E) (take m ?s) in if length l < MIN_RELEASE_BYTES then [] else l)"
    unfolding guard_ok_def by blast
  then show ?thesis
  proof cases
    case 1
    then show ?thesis using take_is_prefix [of k ?s] by (simp only: inv'(4))
  next
    case 2
    have "k \<le> m"
    proof (rule ccontr)
      assume "\<not> k \<le> m"
      then have "\<not> marker_here E (drop m buf @ t)" using inv(3) by (auto simp: dead_to_def)
      moreover have "drop m ?s = drop m buf @ t" using \<open>\<not> k \<le> m\<close> inv(1) by simp
      ultimately show False using 2(2) by simp
    qed
    then have p: "prefix (take k buf) (trim_end (tables E) (take m ?s))"
      using trim_end_prefix [OF inv'(3) _ inv'(1,2)] inv'(4) by metis
    have "MIN_RELEASE_BYTES \<le> length (take k buf)"
      using inv(5) trim_end_length [of "tables E" "take k buf"] by linarith
    then have "\<not> length (trim_end (tables E) (take m ?s)) < MIN_RELEASE_BYTES"
      using prefix_length_le [OF p] by linarith
    with p 2(3) show ?thesis by (simp add: Let_def)
  qed
qed simp

lemma take_release_cases:
  assumes "take_release E now g = (r, g')"
  shows "(r = None \<and> g' = g) \<or> (\<not> sealed g \<and> \<not> hold_open now g \<and> (\<exists>c.
     release_candidate (tables E) g (released g) (earliest_viable (viable E) (gate_buf g) (released g)) = Some c \<and>
     released g < c \<and> char_boundary (gate_buf g) c \<and>
     MIN_RELEASE_BYTES \<le> length (trim_end (tables E) (take c (gate_buf g))) \<and>
     r = Some (drop (released g) (take c (gate_buf g))) \<and> g' = g\<lparr>released := c\<rparr>))"
proof (cases "sealed g \<or> hold_open now g")
  case False
  define rc where "rc = release_candidate (tables E) g (released g) (earliest_viable (viable E) (gate_buf g) (released g))"
  have eq: "take_release E now g = (case rc of None \<Rightarrow> (None, g) | Some candidate \<Rightarrow>
      if candidate \<le> released g \<or> \<not> char_boundary (gate_buf g) candidate then (None, g)
      else if length (trim_end (tables E) (take candidate (gate_buf g))) < MIN_RELEASE_BYTES then (None, g)
      else if drop (released g) (take candidate (gate_buf g)) = [] then (None, g)
      else (Some (drop (released g) (take candidate (gate_buf g))), g\<lparr>released := candidate\<rparr>))"
    unfolding take_release_def Let_def rc_def using False by simp
  show ?thesis
  proof (cases rc)
    case None
    with assms show ?thesis by (simp add: eq)
  next
    case (Some c)
    show ?thesis using assms False unfolding eq Some option.case rc_def [symmetric]
      by (simp add: not_le not_less split: if_split_asm)
  qed
qed (use assms in \<open>simp add: take_release_def\<close>)

lemma take_release_step:
  assumes "plain_punct (tables E)" and "scan_ok E" and "gate_inv E (gate_buf g) (released g)"
    and "released g \<le> length (gate_buf g)" and "take_release E now g = (r, g')"
  shows "gate_inv E (gate_buf g') (released g') \<and> released g' \<le> length (gate_buf g') \<and> gate_buf g' = gate_buf g \<and>
    take (released g') (gate_buf g) = take (released g) (gate_buf g) @ (case r of None \<Rightarrow> [] | Some p \<Rightarrow> p)"
proof (cases "g' = g \<and> r = None")
  case False
  define safe where "safe = earliest_viable (viable E) (gate_buf g) (released g)"
  from False take_release_cases [OF assms(5)] obtain c where c:
      "release_candidate (tables E) g (released g) safe = Some c" "released g < c" "char_boundary (gate_buf g) c"
      "MIN_RELEASE_BYTES \<le> length (trim_end (tables E) (take c (gate_buf g)))"
      "r = Some (drop (released g) (take c (gate_buf g)))" "g' = g\<lparr>released := c\<rparr>"
    unfolding safe_def by blast
  from release_candidate_sound [OF assms(1) c(1)] have s: "c \<le> safe" "c < length (gate_buf g)"
      "ends_solid (tables E) (gate_buf g) c" by auto
  have "dead_to E (gate_buf g) (released g)" using assms(3) by (auto simp: gate_inv_def dead_to_def)
  then have "dead_to E (gate_buf g) c"
    using dead_to_viable [OF assms(2) _ assms(4)] s(1) by (auto simp: safe_def dead_to_def)
  moreover have "\<not> continuation (gate_buf g ! c)" using c(2,3) s(2) by (auto simp: char_boundary_def)
  moreover have "take c (gate_buf g) = take (released g) (gate_buf g) @ drop (released g) (take c (gate_buf g))"
    using c(2) by (metis append_take_drop_id less_imp_le min.absorb1 take_take)
  ultimately show ?thesis using c s by (auto simp: gate_inv_def)
qed (use assms in auto)

subsection \<open>The holding sink\<close>

record held_speech =
  held_deltas :: "bytes list"
  held_segments :: "(u32 \<times> bool) list"
  held_bytes :: nat
  byte_cap :: nat
  overflowed :: bool
  gate :: speech_gate
  ever_released :: bool
  cut_handled :: bool

record progress_sink =
  delivery :: sink_io
  held :: "held_speech option"

definition CLI_HOLD_BYTE_CAP :: nat where
  "CLI_HOLD_BYTE_CAP = 32 * 1024"

text \<open>A \<open>usize\<close> product of a \<open>u32\<close> by 4 cannot saturate on a 64-bit machine.\<close>

definition hold_byte_cap :: "bytes \<Rightarrow> u32 \<Rightarrow> nat" where
  "hold_byte_cap provider max_tokens =
     (if provider = ''cli'' \<or> max_tokens = 0 then CLI_HOLD_BYTE_CAP else max (unat max_tokens * 4) 1)"

definition sink_new :: "sink_io \<Rightarrow> progress_sink" where
  "sink_new io = \<lparr>delivery = io, held = None\<rparr>"

definition holding_capped :: "sink_io \<Rightarrow> nat \<Rightarrow> progress_sink" where
  "holding_capped io cap = \<lparr>delivery = io,
     held = Some \<lparr>held_deltas = [], held_segments = [], held_bytes = 0, byte_cap = cap, overflowed = False,
       gate = gate_new, ever_released = False, cut_handled = False\<rparr>\<rparr>"

definition is_holding :: "progress_sink \<Rightarrow> bool" where
  "is_holding s \<longleftrightarrow> held s \<noteq> None"

text \<open>\<open>deliver\<close> on the sink, and a list of events of which no answer is looked at.\<close>

definition sink_deliver :: "turn_event \<Rightarrow> progress_sink \<Rightarrow> bool \<times> progress_sink" where
  "sink_deliver ev s = (case deliver ev (delivery s) of (ok, io) \<Rightarrow> (ok, s\<lparr>delivery := io\<rparr>))"

definition deliver_each :: "turn_event list \<Rightarrow> progress_sink \<Rightarrow> progress_sink" where
  "deliver_each evs s = fold (\<lambda>ev s. snd (sink_deliver ev s)) evs s"

definition hold_delta :: "speech_env \<Rightarrow> bytes \<Rightarrow> nat \<Rightarrow> held_speech \<Rightarrow> progress_sink \<Rightarrow> bool \<times> progress_sink" where
  "hold_delta E s now buf sink =
     (if overflowed buf then (True, sink)
      else (let next = held_bytes buf + length s
        in if byte_cap buf < next
           then sink_deliver (Reset BudgetReset)
             (sink\<lparr>held := Some (buf\<lparr>held_deltas := [], held_segments := [], overflowed := True\<rparr>)\<rparr>)
           else (case gate_push E s now (gate buf) of (piece, g) \<Rightarrow>
             (True, deliver_each (case piece of None \<Rightarrow> [] | Some p \<Rightarrow> [Delta p])
                (sink\<lparr>held := Some (buf\<lparr>held_bytes := next, gate := g, held_deltas := held_deltas buf @ [s],
                   ever_released := ever_released buf \<or> piece \<noteq> None\<rparr>)\<rparr>)))))"

definition try_send :: "speech_env \<Rightarrow> turn_event \<Rightarrow> nat \<Rightarrow> progress_sink \<Rightarrow> bool \<times> progress_sink" where
  "try_send E ev now sink =
     (case held sink of
        None \<Rightarrow> sink_deliver ev sink
      | Some buf \<Rightarrow>
          (case ev of
             Delta s \<Rightarrow> hold_delta E s now buf sink
           | Segment index tool \<Rightarrow>
               if overflowed buf then (False, sink)
               else (True, sink\<lparr>held := Some (buf\<lparr>held_segments := held_segments buf @ [(index, tool)]\<rparr>)\<rparr>)
           | _ \<Rightarrow> sink_deliver ev sink))"

definition send_now :: "turn_event \<Rightarrow> progress_sink \<Rightarrow> bool \<times> progress_sink" where
  "send_now ev sink = sink_deliver ev sink"

text \<open>The held texts without their first \<open>skip\<close> bytes, which were spoken already.\<close>

fun unspoken :: "nat \<Rightarrow> bytes list \<Rightarrow> bytes list" where
  "unspoken skip [] = []"
| "unspoken skip (s # ss) =
     (if length s \<le> skip then unspoken (skip - length s) ss
      else if skip = 0 then s # unspoken 0 ss
      else if char_boundary s skip then drop skip s # unspoken 0 ss
      else unspoken 0 ss)"

definition flush_held :: "progress_sink \<Rightarrow> progress_sink" where
  "flush_held sink =
     (case held sink of
        None \<Rightarrow> sink
      | Some buf \<Rightarrow>
          (let held_len = sum_list (map length (held_deltas buf));
               skip = released (gate buf) - (length (gate_buf (gate buf)) - held_len)
           in deliver_each (map Delta (unspoken skip (held_deltas buf)) @
                map (\<lambda>(index, tool). Segment index tool) (held_segments buf))
              (sink\<lparr>held := Some (buf\<lparr>gate := note_raw_flush (gate buf), held_deltas := [], held_segments := []\<rparr>)\<rparr>)))"

definition sink_released_any :: "progress_sink \<Rightarrow> bool" where
  "sink_released_any sink \<longleftrightarrow>
     (case held sink of None \<Rightarrow> False | Some buf \<Rightarrow> ever_released buf \<or> released_any (gate buf))"

definition begin_text_block :: "progress_sink \<Rightarrow> progress_sink" where
  "begin_text_block sink =
     (case held sink of None \<Rightarrow> sink | Some buf \<Rightarrow> sink\<lparr>held := Some (buf\<lparr>gate := begin_block (gate buf)\<rparr>)\<rparr>)"

definition begin_next_round :: "progress_sink \<Rightarrow> progress_sink" where
  "begin_next_round sink =
     (case held sink of
        None \<Rightarrow> sink
      | Some buf \<Rightarrow> sink\<lparr>held := Some (buf\<lparr>ever_released := ever_released buf \<or> released_any (gate buf),
          gate := restart_round (gate buf)\<rparr>)\<rparr>)"

definition finish_cut :: "bytes \<Rightarrow> progress_sink \<Rightarrow> bool \<times> progress_sink" where
  "finish_cut kept sink =
     (case held sink of
        None \<Rightarrow> (False, sink)
      | Some buf \<Rightarrow>
          if overflowed buf then (False, sink)
          else if \<not> released_any (gate buf) then
            (if ever_released buf then (True, sink\<lparr>held := Some (buf\<lparr>cut_handled := True\<rparr>)\<rparr>) else (False, sink))
          else (case gate_finish kept (gate buf) of
              (Inr rest, g) \<Rightarrow>
                (True, deliver_each (case rest of None \<Rightarrow> [] | Some r \<Rightarrow> [Delta r])
                   (sink\<lparr>held := Some (buf\<lparr>gate := g, cut_handled := True\<rparr>)\<rparr>))
            | (Inl _, g) \<Rightarrow> (False, sink\<lparr>held := Some (buf\<lparr>gate := g, cut_handled := False\<rparr>)\<rparr>)))"

definition cut_was_handled :: "progress_sink \<Rightarrow> bool" where
  "cut_was_handled sink \<longleftrightarrow> (case held sink of None \<Rightarrow> False | Some buf \<Rightarrow> cut_handled buf)"

definition discard_held :: "progress_sink \<Rightarrow> bool \<times> progress_sink" where
  "discard_held sink =
     (case held sink of
        None \<Rightarrow> (False, sink)
      | Some buf \<Rightarrow>
          (list_ex (\<lambda>s. s \<noteq> []) (held_deltas buf),
           sink\<lparr>held := Some (buf\<lparr>held_deltas := [], held_segments := [], held_bytes := 0\<rparr>)\<rparr>))"

subsection \<open>What is heard\<close>

definition delta_text :: "turn_event \<Rightarrow> bytes" where
  "delta_text ev = (case ev of Delta s \<Rightarrow> s | _ \<Rightarrow> [])"

definition heard :: "sink_io \<Rightarrow> bytes" where
  "heard io = concat (map delta_text (sent (chan io)))"

text \<open>The client is there and the channel has room for \<open>n\<close> more events.\<close>

definition room :: "nat \<Rightarrow> sink_io \<Rightarrow> bool" where
  "room n io \<longleftrightarrow> control io \<noteq> None \<and> \<not> rx_dropped (chan io) \<and> length (sent (chan io)) + n \<le> taken (chan io) + capacity (chan io)"

lemma deliver_room:
  assumes "room (Suc n) io" and "\<not> is_reset ev"
  shows "heard (snd (deliver ev io)) = heard io @ delta_text ev \<and> room n (snd (deliver ev io)) \<and> fst (deliver ev io)"
  using assms
  by (auto simp: room_def deliver_def deliver_in_order_def chan_full_def send_event_def mark_delta_def heard_def
      split: if_splits)

lemma is_reset_simps [simp]:
  "\<not> is_reset (Delta s)" "\<not> is_reset (Status st)" "\<not> is_reset (Segment i t)" "is_reset (Reset r)"
  by (simp_all add: is_reset_def)

lemma delta_text_simps [simp]: "delta_text (Delta s) = s" "delta_text (Segment i t) = []"
  by (simp_all add: delta_text_def)

lemma sink_deliver_fields [simp]:
  "held (snd (sink_deliver ev s)) = held s" "delivery (snd (sink_deliver ev s)) = snd (deliver ev (delivery s))"
  by (simp_all add: sink_deliver_def split: prod.split)

lemma deliver_each_held [simp]: "held (deliver_each evs s) = held s"
  unfolding deliver_each_def by (induction evs arbitrary: s) simp_all

lemma deliver_each_room:
  assumes "room (length evs + n) (delivery s)" and "list_all (\<lambda>ev. \<not> is_reset ev) evs"
  shows "heard (delivery (deliver_each evs s)) = heard (delivery s) @ concat (map delta_text evs) \<and>
    room n (delivery (deliver_each evs s))"
  using assms
proof (induction evs arbitrary: s)
  case (Cons ev evs)
  then have "heard (snd (deliver ev (delivery s))) = heard (delivery s) @ delta_text ev"
      "room (length evs + n) (snd (deliver ev (delivery s)))"
    using deliver_room [of "length evs + n" "delivery s" ev] by auto
  with Cons.IH [of "snd (sink_deliver ev s)"] Cons.prems show ?case by (simp add: deliver_each_def)
qed (simp add: deliver_each_def)

text \<open>A holding sink in its first round, after the text \<open>s\<close>.\<close>

definition round_inv :: "speech_env \<Rightarrow> nat \<Rightarrow> bytes \<Rightarrow> progress_sink \<Rightarrow> held_speech \<Rightarrow> bool" where
  "round_inv E n s sink buf \<longleftrightarrow> held sink = Some buf \<and> \<not> overflowed buf \<and> concat (held_deltas buf) = s \<and>
     gate_buf (gate buf) = s \<and> held_bytes buf = length s \<and> \<not> gate_closed (gate buf) \<and>
     gate_inv E s (released (gate buf)) \<and> released (gate buf) \<le> length s \<and> held_segments buf = [] \<and>
     heard (delivery sink) = take (released (gate buf)) s \<and> (ever_released buf \<longleftrightarrow> 0 < released (gate buf)) \<and>
     room n (delivery sink)"

lemma gate_push_step:
  assumes "plain_punct (tables E)" and "scan_ok E" and "gate_inv E (gate_buf g) (released g)"
    and "released g \<le> length (gate_buf g)" and "\<not> gate_closed g" and "gate_push E s now g = (r, g')"
  shows "gate_buf g' = gate_buf g @ s \<and> gate_inv E (gate_buf g') (released g') \<and> released g' \<le> length (gate_buf g') \<and>
    \<not> gate_closed g' \<and>
    take (released g') (gate_buf g') = take (released g) (gate_buf g) @ (case r of None \<Rightarrow> [] | Some p \<Rightarrow> p) \<and>
    (r = None \<longrightarrow> released g' = released g) \<and> (r \<noteq> None \<longrightarrow> 0 < released g')"
proof -
  define g1 where "g1 = (if first_delta_at g = None \<and> s \<noteq> [] then g\<lparr>first_delta_at := Some now\<rparr> else g)"
  define g2 where "g2 = g1\<lparr>gate_buf := gate_buf g1 @ s\<rparr>"
  have g2: "gate_buf g2 = gate_buf g @ s" "released g2 = released g" "gate_closed g2 = gate_closed g"
    by (simp_all add: g1_def g2_def)
  have t: "take_release E now g2 = (r, g')" using assms(5,6) by (simp add: gate_push_def Let_def g1_def g2_def)
  have closed: "gate_closed g' = gate_closed g2" using take_release_cases [OF t] by auto
  have "gate_inv E (gate_buf g2) (released g2)" using assms(3) by (simp add: g2 gate_inv_append)
  from take_release_step [OF assms(1,2) this _ t] assms(4) g2 closed take_release_cases [OF t] assms(5)
  show ?thesis by (auto simp: g2)
qed

lemma round_step:
  assumes "plain_punct (tables E)" and "scan_ok E" and "round_inv E (Suc n) s sink buf"
    and "length (s @ d) \<le> byte_cap buf"
  shows "\<exists>buf'. round_inv E n (s @ d) (snd (try_send E (Delta d) now sink)) buf' \<and> byte_cap buf' = byte_cap buf"
proof -
  note inv = assms(3) [unfolded round_inv_def]
  obtain piece g where p: "gate_push E d now (gate buf) = (piece, g)" by fastforce
  from inv have g0: "gate_inv E (gate_buf (gate buf)) (released (gate buf))"
      "released (gate buf) \<le> length (gate_buf (gate buf))" "\<not> gate_closed (gate buf)" by auto
  note st = gate_push_step [OF assms(1,2) g0 p]
  define buf' where "buf' = buf\<lparr>held_bytes := length (s @ d), gate := g, held_deltas := held_deltas buf @ [d],
      ever_released := ever_released buf \<or> piece \<noteq> None\<rparr>"
  define evs where "evs = (case piece of None \<Rightarrow> [] | Some p \<Rightarrow> [Delta p])"
  define sink' where "sink' = deliver_each evs (sink\<lparr>held := Some buf'\<rparr>)"
  have "snd (try_send E (Delta d) now sink) = sink'"
    using inv assms(4) by (simp add: try_send_def hold_delta_def Let_def p sink'_def evs_def buf'_def)
  moreover have evs: "concat (map delta_text evs) = (case piece of None \<Rightarrow> [] | Some p \<Rightarrow> p)"
      "list_all (\<lambda>ev. \<not> is_reset ev) evs" "length evs \<le> 1" by (simp_all add: evs_def split: option.split)
  moreover have "room (length evs + n) (delivery sink)" using inv evs(3) by (auto simp: room_def)
  then have "heard (delivery sink') = heard (delivery sink) @ concat (map delta_text evs)" "room n (delivery sink')"
    using deliver_each_room [of evs n "sink\<lparr>held := Some buf'\<rparr>"] evs(2) by (simp_all add: sink'_def)
  moreover have "ever_released buf' \<longleftrightarrow> 0 < released g" using inv st by (auto simp: buf'_def)
  moreover have b: "gate_buf g = s @ d" using st inv by simp
  moreover have "gate_inv E (s @ d) (released g)" "released g \<le> length (s @ d)" "\<not> gate_closed g"
      "take (released g) (s @ d) = take (released (gate buf)) s @ (case piece of None \<Rightarrow> [] | Some p \<Rightarrow> p)"
    using st inv unfolding b by simp_all
  moreover have "held sink' = Some buf'" by (simp add: sink'_def)
  ultimately have "round_inv E n (s @ d) sink' buf'"
    using inv by (simp add: round_inv_def del: take_append) (simp add: buf'_def)
  then show ?thesis using \<open>snd (try_send E (Delta d) now sink) = sink'\<close> by (auto simp: buf'_def)
qed

text \<open>The deltas of a round, each with the time it comes at.\<close>

definition speak :: "speech_env \<Rightarrow> (bytes \<times> nat) list \<Rightarrow> progress_sink \<Rightarrow> progress_sink" where
  "speak E chunks sink = fold (\<lambda>(d, now) k. snd (try_send E (Delta d) now k)) chunks sink"

lemma speak_inv:
  assumes "plain_punct (tables E)" and "scan_ok E" and "round_inv E (length chunks + n) s sink buf"
    and "length s + length (concat (map fst chunks)) \<le> byte_cap buf"
  shows "\<exists>buf'. round_inv E n (s @ concat (map fst chunks)) (speak E chunks sink) buf'"
  using assms
proof (induction chunks arbitrary: s sink buf)
  case (Cons c chunks)
  obtain d now where c: "c = (d, now)" by fastforce
  from Cons.prems c round_step [of E "length chunks + n" s sink buf d now] obtain buf' where b:
      "round_inv E (length chunks + n) (s @ d) (snd (try_send E (Delta d) now sink)) buf'" "byte_cap buf' = byte_cap buf"
    by auto
  from Cons.IH [OF Cons.prems(1,2) b(1)] Cons.prems(4) b(2) c show ?case by (simp add: speak_def)
qed (auto simp: speak_def)

lemma holding_inv:
  assumes "room n io" and "heard io = []"
  shows "round_inv E n [] (holding_capped io cap)
    \<lparr>held_deltas = [], held_segments = [], held_bytes = 0, byte_cap = cap, overflowed = False,
       gate = gate_new, ever_released = False, cut_handled = False\<rparr>"
  using assms by (simp add: round_inv_def holding_capped_def gate_new_def gate_inv_def)

lemma unspoken_concat:
  "skip \<le> length (concat ds) \<Longrightarrow> (skip = 0 \<or> skip < length (concat ds) \<and> \<not> continuation (concat ds ! skip)) \<Longrightarrow>
     concat (unspoken skip ds) = drop skip (concat ds)"
proof (induction skip ds rule: unspoken.induct)
  case (2 skip s ss)
  consider "length s \<le> skip" | "skip = 0" "s \<noteq> []" | "0 < skip" "skip < length s" by fastforce
  then show ?case
  proof cases
    case 1
    have "skip - length s = 0 \<or> skip - length s < length (concat ss) \<and> \<not> continuation (concat ss ! (skip - length s))"
      using 1 2(5,6) by (auto simp: nth_append)
    with 1 2(1) [OF 1] 2(5) show ?thesis by auto
  next
    case zero: 2
    then show ?thesis using 2(2) by auto
  next
    case 3
    then have "char_boundary s skip" using 2(6) by (auto simp: char_boundary_def nth_append)
    with 3 2(3) show ?thesis by auto
  qed
qed simp

lemma unspoken_length: "length (unspoken skip ds) \<le> length ds"
  by (induction skip ds rule: unspoken.induct) auto

lemma speak_deltas:
  assumes "held (speak E chunks sink) = Some buf" and "held sink = Some buf0"
  shows "length (held_deltas buf) \<le> length (held_deltas buf0) + length chunks"
  using assms
proof (induction chunks arbitrary: sink buf0)
  case (Cons c chunks)
  obtain d now where c: "c = (d, now)" by fastforce
  let ?s = "snd (try_send E (Delta d) now sink)"
  obtain piece g where "gate_push E d now (gate buf0) = (piece, g)" by fastforce
  then have "\<exists>buf1. held ?s = Some buf1 \<and> length (held_deltas buf1) \<le> Suc (length (held_deltas buf0))"
    using Cons.prems(2) by (simp add: try_send_def hold_delta_def Let_def)
  then obtain buf1 where b: "held ?s = Some buf1" "length (held_deltas buf1) \<le> Suc (length (held_deltas buf0))"
    by blast
  have "held (speak E chunks ?s) = Some buf" using Cons.prems(1) by (simp add: speak_def c)
  from Cons.IH [OF this b(1)] b(2) show ?case by simp
qed (simp add: speak_def)

lemma finish_cut_settles:
  assumes "guard_ok E kept" and "round_inv E (Suc n) s sink buf"
  shows "if sink_released_any sink
    then fst (finish_cut (kept s) sink) \<and> heard (delivery (snd (finish_cut (kept s) sink))) = kept s
    else heard (delivery sink) = [] \<and> \<not> fst (finish_cut (kept s) sink)"
proof -
  note inv = assms(2) [unfolded round_inv_def]
  let ?k = "released (gate buf)" and ?g = "gate buf"
  have any: "sink_released_any sink \<longleftrightarrow> 0 < ?k" using inv by (auto simp: sink_released_any_def released_any_def)
  show ?thesis
  proof (cases "0 < ?k")
    case False
    with inv any show ?thesis by (simp add: finish_cut_def released_any_def)
  next
    case True
    have p: "prefix (take ?k s) (kept s)" using guard_keeps_released [OF assms(1), of s ?k "[]"] inv by simp
    then obtain r where r: "kept s = take ?k s @ r" by (auto simp: prefix_def)
    have k: "length (take ?k s) = ?k" using inv by simp
    have "char_boundary s ?k" using inv True by (auto simp: gate_inv_def char_boundary_def)
    moreover have "starts_with p (p @ r)" for p by (simp add: starts_with_def)
    then have "starts_with (take ?k s) (kept s)" unfolding r .
    moreover have "drop ?k (kept s) = r" using k by (simp add: r)
    ultimately have f: "fst (gate_finish (kept s) ?g) = Inr (if r = [] then None else Some r)"
      using inv by (simp add: gate_finish_def Let_def)
    obtain g' where g': "gate_finish (kept s) ?g = (Inr (if r = [] then None else Some r), g')"
      using f by (cases "gate_finish (kept s) ?g") simp
    have fc: "finish_cut (kept s) sink = (True, deliver_each (if r = [] then [] else [Delta r])
        (sink\<lparr>held := Some (buf\<lparr>gate := g', cut_handled := True\<rparr>)\<rparr>))"
      using inv True by (simp add: finish_cut_def released_any_def g')
    have "room (length (if r = [] then [] else [Delta r]) + n) (delivery sink)" using inv by (auto simp: room_def)
    then have "heard (delivery (snd (finish_cut (kept s) sink))) = heard (delivery sink) @ r"
      using deliver_each_room [of "if r = [] then [] else [Delta r]" n
          "sink\<lparr>held := Some (buf\<lparr>gate := g', cut_handled := True\<rparr>)\<rparr>"] by (simp add: fc)
    with fc any True inv r show ?thesis by simp
  qed
qed

lemma flush_held_all:
  assumes "round_inv E n s sink buf" and "length (held_deltas buf) \<le> n"
  shows "heard (delivery (flush_held sink)) = s"
proof -
  note inv = assms(1) [unfolded round_inv_def]
  let ?k = "released (gate buf)"
  let ?evs = "map Delta (unspoken ?k (held_deltas buf))"
  have len: "sum_list (map length (held_deltas buf)) = length s"
    using inv by (auto simp: length_concat [symmetric])
  then have "flush_held sink = deliver_each ?evs (sink\<lparr>held :=
      Some (buf\<lparr>gate := note_raw_flush (gate buf), held_deltas := [], held_segments := []\<rparr>)\<rparr>)"
    using inv by (simp add: flush_held_def Let_def)
  moreover have "room (length ?evs + (n - length ?evs)) (delivery sink)"
    using inv unspoken_length [of ?k "held_deltas buf"] assms(2) by (simp add: room_def)
  moreover have "concat (map delta_text ?evs) = concat (unspoken ?k (held_deltas buf))" by (simp add: comp_def)
  moreover have "concat (unspoken ?k (held_deltas buf)) = drop ?k s"
    using unspoken_concat [of ?k "held_deltas buf"] inv by (auto simp: gate_inv_def)
  ultimately show ?thesis using inv deliver_each_room [of ?evs "n - length ?evs"
      "sink\<lparr>held := Some (buf\<lparr>gate := note_raw_flush (gate buf), held_deltas := [], held_segments := []\<rparr>)\<rparr>"]
    by (simp add: list_all_iff)
qed

subsection \<open>Properties\<close>

text \<open>
  C21: a voice caller hears what the guard keeps. The first round of speech is held and released as the
  gate allows, in any chunks at any times, as long as its text is within the byte cap of the hold
  and the channel has room for two events a chunk and one more, so that nothing is dropped (past the
  cap see \<open>budget_drops_speech\<close>; a full channel drops deltas). Before the round ends, what is heard is a prefix of what
  the guard will keep of the text, however it goes on. If the guard keeps the round, the flush
  completes it: every byte is heard once. If the guard cuts it after a release, the cut is settled
  with exactly the text it keeps, and if nothing was released, nothing was heard.
\<close>

theorem voice_hears_kept:
  assumes "plain_punct (tables E)" and "scan_ok E" and "guard_ok E kept"
    and "room (2 * length chunks + 1) io" and "heard io = []"
    and "length (concat (map fst chunks)) \<le> cap"
  shows "let s = concat (map fst chunks); sink = speak E chunks (holding_capped io cap) in
    prefix (heard (delivery sink)) (kept (s @ rest)) \<and>
    heard (delivery (flush_held sink)) = s \<and>
    (if sink_released_any sink
     then fst (finish_cut (kept s) sink) \<and> heard (delivery (snd (finish_cut (kept s) sink))) = kept s
     else heard (delivery sink) = [] \<and> \<not> fst (finish_cut (kept s) sink))"
proof -
  let ?s = "concat (map fst chunks)" and ?sink = "speak E chunks (holding_capped io cap)"
  have r: "room (length chunks + (length chunks + 1)) io" using assms(4) by (simp add: mult_2)
  from speak_inv [OF assms(1,2) holding_inv [OF r assms(5)]] assms(6)
  obtain buf where buf: "round_inv E (length chunks + 1) ?s ?sink buf" by fastforce
  then have inv: "held ?sink = Some buf" "gate_inv E ?s (released (gate buf))" "released (gate buf) \<le> length ?s"
      "heard (delivery ?sink) = take (released (gate buf)) ?s" by (simp_all add: round_inv_def)
  have "prefix (heard (delivery ?sink)) (kept (?s @ rest))"
    unfolding inv(4) by (rule guard_keeps_released [OF assms(3) inv(2,3)])
  moreover have "length (held_deltas buf) \<le> length chunks + 1"
    using speak_deltas [OF inv(1)] by (fastforce simp: holding_capped_def)
  then have "heard (delivery (flush_held ?sink)) = ?s" by (rule flush_held_all [OF buf])
  ultimately show ?thesis using finish_cut_settles [OF assms(3)] buf by (simp add: Let_def)
qed

text \<open>
  Speech past the output budget is dropped, not cut short silently: the delta that crosses the
  cap clears the hold and sends one reset, and no later delta, flush or cut of the turn speaks.
\<close>

theorem budget_drops_speech:
  assumes "held sink = Some buf" and "\<not> overflowed buf" and "byte_cap buf < held_bytes buf + length d"
    and "control (delivery sink) = Some c" and "\<not> plane_closed c"
  shows "let (ok, sink') = try_send E (Delta d) now sink in
    ok \<and> (\<exists>c'. control (delivery sink') = Some c' \<and> resets c' = resets c @ [Reset BudgetReset]) \<and>
    heard (delivery sink') = heard (delivery sink) \<and>
    delivery (speak E chunks sink') = delivery sink' \<and>
    delivery (flush_held (speak E chunks sink')) = delivery sink' \<and>
    finish_cut k (speak E chunks sink') = (False, sink')"
proof -
  define buf' where "buf' = buf\<lparr>held_deltas := [], held_segments := [], overflowed := True\<rparr>"
  define sink' where "sink' = sink\<lparr>delivery := (delivery sink)\<lparr>control := Some (c\<lparr>resets := resets c @ [Reset BudgetReset],
      reset_queued := True\<rparr>)\<rparr>, held := Some buf'\<rparr>"
  have t: "try_send E (Delta d) now sink = (True, sink')"
    using assms by (simp add: try_send_def hold_delta_def Let_def sink_deliver_def deliver_def push_reset_def
        sink'_def buf'_def)
  have "speak E chunks sink' = sink'"
    unfolding speak_def by (induction chunks) (auto simp: try_send_def hold_delta_def sink'_def buf'_def)
  then show ?thesis
    by (simp add: t) (simp add: sink'_def buf'_def flush_held_def deliver_each_def finish_cut_def heard_def)
qed

subsection \<open>Witnesses\<close>

definition demo_env :: speech_env where
  "demo_env = \<lparr>tables = \<lparr>lowercase = (\<lambda>s. s), alphanumeric = list_all ascii_alphanumeric,
       whitespace = list_all ascii_whitespace\<rparr>,
     word_char = list_all ascii_alphanumeric, viable = (\<lambda>s. s \<noteq> [] \<and> is_marker_start (hd s))\<rparr>"

text \<open>A guard that cuts at the first marker.\<close>

definition demo_guard :: "bytes \<Rightarrow> bytes" where
  "demo_guard s = (case find (\<lambda>m. marker_here demo_env (drop m s)) [0..<length s] of
       None \<Rightarrow> s
     | Some m \<Rightarrow> (let k = trim_end (tables demo_env) (take m s) in if length k < MIN_RELEASE_BYTES then [] else k))"

lemma demo_scan_ok: "scan_ok demo_env"
proof -
  have "is_marker_start (hd s)" if "s \<noteq> []" "marker_here demo_env (s @ t)" for s t
    using marker_here_start [OF that(2)] that(1) by simp
  then show ?thesis by (auto simp: scan_ok_def demo_env_def)
qed

lemma demo_guard_ok: "guard_ok demo_env demo_guard"
  unfolding guard_ok_def
proof (intro allI)
  fix s
  show "demo_guard s = s \<or> (\<exists>m\<le>length s. marker_here demo_env (drop m s) \<and>
      demo_guard s = (let k = trim_end (tables demo_env) (take m s) in if length k < MIN_RELEASE_BYTES then [] else k))"
  proof (cases "find (\<lambda>m. marker_here demo_env (drop m s)) [0..<length s]")
    case (Some m)
    then have "m < length s" "marker_here demo_env (drop m s)" by (auto simp: find_Some_iff)
    with Some show ?thesis by (intro disjI2 exI [of _ m]) (simp add: demo_guard_def)
  qed (simp add: demo_guard_def)
qed

lemma demo_plain_punct: "plain_punct (tables demo_env)"
proof -
  have "\<not> ascii_whitespace (CHR ''.'')" "\<not> ascii_whitespace (CHR ''!'')" "\<not> ascii_whitespace (CHR ''?'')"
      "\<not> ascii_whitespace (CHR '';'')" "\<not> ascii_whitespace (CHR '':'')" "\<not> ascii_whitespace (CHR '','')"
    by (simp_all add: ascii_whitespace_def byte_def)
  then show ?thesis by (auto simp: plain_punct_def is_clause_punct_def demo_env_def)
qed

definition demo_io :: sink_io where
  "demo_io = \<lparr>chan = chan_new, saw_delta = False, control = Some plane_new\<rparr>"

definition demo_chunks :: "(bytes \<times> nat) list" where
  "demo_chunks = [(''This is spoken early. '', 0), (''Not '' @ [newline] @ ''User: this'', FIRST_RELEASE_HOLD)]"

theorem voice_hears_kept_witness:
  "let s = concat (map fst demo_chunks); sink = speak demo_env demo_chunks (holding_capped demo_io 100) in
    prefix (heard (delivery sink)) (demo_guard s) \<and> heard (delivery (flush_held sink)) = s"
proof -
  have "room (2 * length demo_chunks + 1) demo_io" "heard demo_io = []" "length (concat (map fst demo_chunks)) \<le> 100"
    by (simp_all add: room_def demo_io_def chan_new_def STREAM_CHANNEL_CAPACITY_def demo_chunks_def heard_def)
  from voice_hears_kept [OF demo_plain_punct demo_scan_ok demo_guard_ok this, of "[]"]
  show ?thesis by (simp add: Let_def)
qed

theorem budget_drops_speech_witness:
  "finish_cut ''x'' (snd (try_send demo_env (Delta ''far too long'') 0 (holding_capped demo_io 3))) =
     (False, snd (try_send demo_env (Delta ''far too long'') 0 (holding_capped demo_io 3)))"
proof -
  let ?sink = "holding_capped demo_io 3"
  have "held ?sink = Some (the (held ?sink))" "\<not> overflowed (the (held ?sink))"
      "byte_cap (the (held ?sink)) < held_bytes (the (held ?sink)) + length ''far too long''"
      "control (delivery ?sink) = Some plane_new" "\<not> plane_closed plane_new"
    by (simp_all add: holding_capped_def demo_io_def plane_new_def)
  from budget_drops_speech [OF this, of demo_env 0 "[]" "''x''"] show ?thesis
    by (simp add: speak_def case_prod_beta)
qed

end
