(* ===== verification/ToolLoop.thy ===== *)
theory ToolLoop
  imports Conversation Speech
begin

text \<open>
  One turn of the model with its tools: \<open>src/tool_loop.rs\<close>, buffered and streamed. The provider, the
  tools and the reply validator (\<open>response-validator\<close>) are parameters; \<open>'w\<close> is the world the
  provider and the tools act on, so each call may answer differently from the one before.
\<close>

subsection \<open>Responses\<close>

datatype stop_reason = EndTurn | MaxTokens | StopSequence | ToolUseStop | OtherStop bytes

record 'j llm_response =
  resp_content :: "'j block list"
  resp_stop :: stop_reason
  resp_model :: bytes
  input_tokens :: "u32 option"
  output_tokens :: "u32 option"

datatype turn_error = RefusalError bytes bytes | QuotaError bytes bytes | EmptyTrunk | FallbackFailed bytes
  | OtherError bytes

text \<open>The blocks as \<open>response-validator\<close> has them: a result without its error flag.\<close>

datatype 'j rv_block = RvText bytes | RvToolUse bytes bytes 'j | RvToolResult bytes bytes

fun convert_to_rv :: "'j block \<Rightarrow> 'j rv_block" where
  "convert_to_rv (TextBlock s) = RvText s"
| "convert_to_rv (ToolUse i name input) = RvToolUse i name input"
| "convert_to_rv (ToolResult i s e) = RvToolResult i s"

fun convert_from_rv :: "'j rv_block \<Rightarrow> 'j block" where
  "convert_from_rv (RvText s) = TextBlock s"
| "convert_from_rv (RvToolUse i name input) = ToolUse i name input"
| "convert_from_rv (RvToolResult i s) = ToolResult i s None"

text \<open>
  The environment of a turn. \<open>rv_validate\<close> gives the sanitized blocks and whether it truncated them,
  \<open>rv_claims\<close> the claims no tool call backs, \<open>find_tool\<close> the registry.
\<close>

record ('j, 'c, 'w) agent =
  chars_of :: unicode
  rv_validate :: "'j rv_block list \<Rightarrow> 'j rv_block list \<times> bool"
  rv_claims :: "'j rv_block list \<Rightarrow> bytes list \<Rightarrow> 'c list"
  find_tool :: "bytes \<Rightarrow> ('j \<Rightarrow> 'w \<Rightarrow> (bytes + bytes) \<times> 'w) option"

definition validate_content_blocks_adapter ::
  "('j, 'c, 'w) agent \<Rightarrow> 'j block list \<Rightarrow> 'j block list \<times> bool" where
  "validate_content_blocks_adapter A bs =
     (case rv_validate A (map convert_to_rv bs) of (r, truncated) \<Rightarrow> (map convert_from_rv r, truncated))"

definition validate_action_claims_adapter :: "('j, 'c, 'w) agent \<Rightarrow> 'j block list \<Rightarrow> bytes list \<Rightarrow> 'c list" where
  "validate_action_claims_adapter A bs used = rv_claims A (map convert_to_rv bs) used"

definition text_blocks_concat :: "'j block list \<Rightarrow> bytes" where
  "text_blocks_concat bs = concat (map (\<lambda>b. case b of TextBlock s \<Rightarrow> s | _ \<Rightarrow> []) bs)"

definition DEFAULT_MAX_TOOL_ROUNDS :: u32 where "DEFAULT_MAX_TOOL_ROUNDS = 25"

definition TOOL_FAILURE_THRESHOLD :: u32 where "TOOL_FAILURE_THRESHOLD = 3"

definition EXPECTATION_VIOLATION_MIXED :: bytes where
  "EXPECTATION_VIOLATION_MIXED = ''[Expectation check] Some of your tool calls succeeded and some failed. '' @
     ''Pause and reassess: is your current approach still valid? If a tool '' @
     ''returned an error, consider why '' @ dash @ '' wrong path, wrong assumption, or '' @
     ''a genuine system issue? Adjust your next step based on what you learned.''"

definition EXPECTATION_VIOLATION_FAILED :: bytes where
  "EXPECTATION_VIOLATION_FAILED = ''[Expectation check] Your tool calls failed this round. Before retrying, '' @
     ''stop and think: what did you expect to happen, and why didn't it? '' @
     ''Consider whether your assumption was wrong rather than just retrying '' @ ''the same approach.''"

definition TOOL_DEGRADED_WARNING :: bytes where
  "TOOL_DEGRADED_WARNING = ''[SYSTEM '' @ dash @ '' Tool Degraded State] '' @
     ''Multiple consecutive tool calls have failed. Tools are currently unreliable. '' @
     ''CRITICAL: Do NOT claim that any file operations, memory updates, or code changes '' @
     ''have been completed. Do NOT narrate successful outcomes. If you cannot accomplish '' @
     ''a task because tools are failing, say so explicitly. You may continue conversing '' @
     ''but must not assert that work has been done unless a tool call succeeds.''"

subsection \<open>The state of a turn\<close>

record round_state =
  total_input_tokens :: u32
  total_output_tokens :: u32
  final_model :: bytes
  rounds :: u32
  tools_used :: "bytes list"
  accumulated_text :: "bytes list"
  consecutive_tool_failures :: u32
  tool_degraded :: bool

definition round_state_new :: round_state where
  "round_state_new = \<lparr>total_input_tokens = 0, total_output_tokens = 0, final_model = [], rounds = 0, tools_used = [],
     accumulated_text = [], consecutive_tool_failures = 0, tool_degraded = False\<rparr>"

record 'c tool_loop_result =
  result_text :: bytes
  result_model :: bytes
  result_input_tokens :: u32
  result_output_tokens :: u32
  tool_rounds :: u32
  was_truncated :: bool
  circuit_breaker_fired :: bool
  action_claim_warnings :: "'c list"
  result_degraded :: bool

definition result_of :: "round_state \<Rightarrow> bool \<Rightarrow> bool \<Rightarrow> 'c list \<Rightarrow> 'c tool_loop_result" where
  "result_of rs truncated fired warnings = \<lparr>result_text = join_with [newline, newline] (accumulated_text rs),
     result_model = final_model rs, result_input_tokens = total_input_tokens rs,
     result_output_tokens = total_output_tokens rs, tool_rounds = rounds rs, was_truncated = truncated,
     circuit_breaker_fired = fired, action_claim_warnings = warnings, result_degraded = tool_degraded rs\<rparr>"

subsection \<open>Tools\<close>

text \<open>Results, whether any call succeeded, whether any failed, the names called, and the world.\<close>

fun execute_tool_calls ::
  "('j, 'c, 'w) agent \<Rightarrow> 'j block list \<Rightarrow> bytes list \<Rightarrow> 'w \<Rightarrow>
     'j block list \<times> bool \<times> bool \<times> bytes list \<times> 'w" where
  "execute_tool_calls A [] used w = ([], False, False, used, w)"
| "execute_tool_calls A (ToolUse i name input # bs) used w =
     (case (case find_tool A name of
              None \<Rightarrow> (Inl (''Unknown tool '' @ [CHR 0x27] @ name @ [CHR 0x27]), w)
            | Some execute \<Rightarrow> execute input w) of
        (Inr output, w') \<Rightarrow>
          (case execute_tool_calls A bs (used @ [name]) w' of
             (rest, s, f, used', w'') \<Rightarrow> (ToolResult i output None # rest, True, f, used', w''))
      | (Inl e, w') \<Rightarrow>
          (case execute_tool_calls A bs (used @ [name]) w' of
             (rest, s, f, used', w'') \<Rightarrow> (ToolResult i (''Error: '' @ e) (Some True) # rest, s, True, used', w'')))"
| "execute_tool_calls A (TextBlock s # bs) used w = execute_tool_calls A bs used w"
| "execute_tool_calls A (ToolResult i s e # bs) used w = execute_tool_calls A bs used w"

definition count_failures :: "bool \<Rightarrow> bool \<Rightarrow> round_state \<Rightarrow> round_state" where
  "count_failures had_success had_failure rs =
     (let rs1 = (if had_success then rs\<lparr>consecutive_tool_failures := 0\<rparr> else rs)
      in if had_failure \<and> \<not> had_success
         then rs1\<lparr>consecutive_tool_failures := consecutive_tool_failures rs1 + 1\<rparr> else rs1)"

definition append_feedback_nudges ::
  "bool \<Rightarrow> bool \<Rightarrow> round_state \<Rightarrow> 'j block list \<Rightarrow> round_state \<times> 'j block list" where
  "append_feedback_nudges had_success had_failure rs results =
     (let rs1 = count_failures had_success had_failure rs;
          degrade = TOOL_FAILURE_THRESHOLD \<le> consecutive_tool_failures rs1 \<and> \<not> tool_degraded rs1;
          rs2 = (if degrade then rs1\<lparr>tool_degraded := True\<rparr> else rs1);
          results1 = (if degrade then results @ [TextBlock TOOL_DEGRADED_WARNING] else results)
      in (rs2,
          if had_failure \<and> had_success then results1 @ [TextBlock EXPECTATION_VIOLATION_MIXED]
          else if had_failure \<and> \<not> tool_degraded rs2 then results1 @ [TextBlock EXPECTATION_VIOLATION_FAILED]
          else results1))"

subsection \<open>A round\<close>

datatype 'c round_outcome = Continue | Done "'c tool_loop_result"

definition assistant_message :: "'j block list \<Rightarrow> 'j message" where
  "assistant_message bs = \<lparr>msg_role = Assistant, msg_content = Blocks bs, msg_source = Some AssistantReply\<rparr>"

definition results_message :: "'j block list \<Rightarrow> 'j message" where
  "results_message bs = \<lparr>msg_role = User, msg_content = Blocks bs,
     msg_source = Some (ToolOutput (case List.map_filter result_id bs of [] \<Rightarrow> [] | i # _ \<Rightarrow> i))\<rparr>"

definition or_zero :: "u32 option \<Rightarrow> u32" where
  "or_zero n = (case n of None \<Rightarrow> 0 | Some k \<Rightarrow> k)"

definition note_response :: "('j, 'c, 'w) agent \<Rightarrow> 'j llm_response \<Rightarrow> 'j block list \<Rightarrow> round_state \<Rightarrow> round_state" where
  "note_response A resp sanitized rs =
     rs\<lparr>total_input_tokens := total_input_tokens rs + or_zero (input_tokens resp),
        total_output_tokens := total_output_tokens rs + or_zero (output_tokens resp),
        final_model := resp_model resp,
        accumulated_text := accumulated_text rs @
          List.map_filter (\<lambda>b. case b of TextBlock s \<Rightarrow> if blank (chars_of A) s then None else Some s | _ \<Rightarrow> None) sanitized\<rparr>"

definition run_tools ::
  "('j, 'c, 'w) agent \<Rightarrow> 'j block list \<Rightarrow> round_state \<Rightarrow> 'j message list \<Rightarrow> 'w \<Rightarrow> round_state \<times> 'j message list \<times> 'w" where
  "run_tools A bs rs msgs w =
     (case execute_tool_calls A bs (tools_used rs) w of
        (results, had_success, had_failure, used, w') \<Rightarrow>
        (case append_feedback_nudges had_success had_failure (rs\<lparr>tools_used := used\<rparr>) results of
           (rs', results') \<Rightarrow>
             (rs', msgs @ [results_message (fst (truncate_tool_result_blocks results'))], w')))"

definition finish_round ::
  "('j, 'c, 'w) agent \<Rightarrow> u32 \<Rightarrow> 'j llm_response \<Rightarrow> round_state \<Rightarrow> 'j message list \<Rightarrow> 'w \<Rightarrow>
     'c round_outcome \<times> round_state \<times> 'j message list \<times> 'w" where
  "finish_round A max_rounds resp rs0 msgs0 w =
     (case validate_content_blocks_adapter A (resp_content resp) of
        (sanitized, truncated) \<Rightarrow>
        (let rs = note_response A resp sanitized rs0;
             msgs = msgs0 @ [assistant_message sanitized]
         in if truncated then (Done (result_of rs True False []), rs, msgs, w)
            else (case resp_stop resp of
                EndTurn \<Rightarrow> (Done (result_of rs False False (validate_action_claims_adapter A sanitized (tools_used rs))), rs, msgs, w)
              | MaxTokens \<Rightarrow> (Done (result_of rs False False (validate_action_claims_adapter A sanitized (tools_used rs))), rs, msgs, w)
              | StopSequence \<Rightarrow> (Done (result_of rs False False (validate_action_claims_adapter A sanitized (tools_used rs))), rs, msgs, w)
              | ToolUseStop \<Rightarrow>
                  (let rs1 = rs\<lparr>rounds := rounds rs + 1\<rparr>
                   in if max_rounds < rounds rs1 then (Done (result_of rs1 False True []), rs1, msgs, w)
                      else (case run_tools A (resp_content resp) rs1 msgs w of
                          (rs2, msgs2, w2) \<Rightarrow> (Continue, rs2, msgs2, w2)))
              | OtherStop _ \<Rightarrow> (Done (result_of rs False False []), rs, msgs, w))))"

text \<open>The provider, with the prompt, the token limit and the tool definitions of the turn applied.\<close>

type_synonym ('j, 'w) provider = "'j message list \<Rightarrow> 'w \<Rightarrow> (turn_error + 'j llm_response) \<times> 'w"

partial_function (option) tool_loop ::
  "('j, 'c, 'w) agent \<Rightarrow> ('j, 'w) provider \<Rightarrow> u32 \<Rightarrow> round_state \<Rightarrow> 'j message list \<Rightarrow> 'w \<Rightarrow>
     ((turn_error + 'c tool_loop_result) \<times> 'j message list \<times> 'w) option" where
  "tool_loop A invoke max_rounds rs msgs w =
     (case invoke msgs w of
        (Inl e, w1) \<Rightarrow> Some (Inl e, msgs, w1)
      | (Inr resp, w1) \<Rightarrow>
          (case finish_round A max_rounds resp rs msgs w1 of
             (Done d, rs', msgs', w2) \<Rightarrow> Some (Inr d, msgs', w2)
           | (Continue, rs', msgs', w2) \<Rightarrow> tool_loop A invoke max_rounds rs' msgs' w2))"

declare tool_loop.simps [simp del]

definition invoke_with_tool_loop ::
  "('j, 'c, 'w) agent \<Rightarrow> ('j, 'w) provider \<Rightarrow> u32 \<Rightarrow> 'j message list \<Rightarrow> 'w \<Rightarrow>
     ((turn_error + 'c tool_loop_result) \<times> 'j message list \<times> 'w) option" where
  "invoke_with_tool_loop A invoke max_rounds msgs w = tool_loop A invoke max_rounds round_state_new msgs w"

subsection \<open>The streamed twin\<close>

datatype 'j stream_event = TextDelta bytes | TextBlockEnd | StreamToolUse bytes bytes 'j | SegmentEnd bool
  | StreamDone "'j llm_response" | StreamError bytes | StreamRefused bytes bytes | StreamQuota bytes bytes

record segments_state =
  next_index :: u32
  from_provider :: bool

definition segments_new :: segments_state where
  "segments_new = \<lparr>next_index = 0, from_provider = False\<rparr>"

definition saturating_add_u32 :: "u32 \<Rightarrow> u32 \<Rightarrow> u32" where
  "saturating_add_u32 a b = (if unat a + unat b < 2 ^ 32 then a + b else - 1)"

definition emit_segment ::
  "speech_env \<Rightarrow> bool \<Rightarrow> bool \<Rightarrow> segments_state \<Rightarrow> progress_sink \<Rightarrow> segments_state \<times> progress_sink" where
  "emit_segment E tool now segs sink =
     (let ev = Segment (next_index segs) tool
      in case (if now then send_now ev sink else try_send E ev 0 sink) of
           (ok, sink') \<Rightarrow>
             (if ok then segs\<lparr>next_index := saturating_add_u32 (next_index segs) 1\<rparr> else segs, sink'))"

definition tell :: "speech_env \<Rightarrow> turn_event \<Rightarrow> progress_sink \<Rightarrow> progress_sink" where
  "tell E ev sink = snd (try_send E ev 0 sink)"

text \<open>
  \<open>stream_one_round\<close>: the events of one provider round, each with the time it comes at.
\<close>

fun stream_one_round ::
  "speech_env \<Rightarrow> ('j stream_event \<times> nat) list \<Rightarrow> bool \<Rightarrow> bytes list \<Rightarrow> segments_state \<Rightarrow> progress_sink \<Rightarrow>
     (turn_error + 'j llm_response \<times> bytes list) \<times> segments_state \<times> progress_sink" where
  "stream_one_round E [] responding names segs sink =
     (Inl (OtherError ''provider stream ended without a final response''), segs, sink)"
| "stream_one_round E ((ev, now) # evs) responding names segs sink =
     (case ev of
        TextDelta s \<Rightarrow>
          (let sink1 = (if responding then sink else tell E (Status Responding) sink)
           in stream_one_round E evs True names segs (snd (try_send E (Delta s) now sink1)))
      | TextBlockEnd \<Rightarrow> stream_one_round E evs responding names segs (begin_text_block sink)
      | StreamToolUse i name input \<Rightarrow> stream_one_round E evs responding (names @ [name]) segs sink
      | SegmentEnd tool \<Rightarrow>
          (case emit_segment E tool False (segs\<lparr>from_provider := True\<rparr>) sink of
             (segs', sink') \<Rightarrow> stream_one_round E evs responding names segs' sink')
      | StreamDone resp \<Rightarrow> (Inr (resp, names), segs, sink)
      | StreamRefused model detail \<Rightarrow> (Inl (RefusalError model detail), segs, sink)
      | StreamQuota model detail \<Rightarrow> (Inl (QuotaError model detail), segs, sink)
      | StreamError e \<Rightarrow> (Inl (OtherError e), segs, sink))"

definition tool_round_survives_guard ::
  "('j, 'c, 'w) agent \<Rightarrow> 'j llm_response \<Rightarrow> u32 \<Rightarrow> u32 \<Rightarrow> bool" where
  "tool_round_survives_guard A resp rounds_so_far max_rounds \<longleftrightarrow>
     \<not> (resp_stop resp \<noteq> ToolUseStop \<or> max_rounds \<le> rounds_so_far) \<and>
     \<not> snd (validate_content_blocks_adapter A (resp_content resp))"

definition tell_tools :: "speech_env \<Rightarrow> bytes list \<Rightarrow> progress_sink \<Rightarrow> progress_sink" where
  "tell_tools E names sink = fold (\<lambda>name k. tell E (Status (ToolStatus name)) k) names sink"

text \<open>What the sink gets between the stream of a round and \<open>finish_round\<close>.\<close>

definition before_finish ::
  "('j, 'c, 'w) agent \<Rightarrow> speech_env \<Rightarrow> bool \<Rightarrow> 'j llm_response \<Rightarrow> bytes list \<Rightarrow> segments_state \<Rightarrow> progress_sink \<Rightarrow>
     segments_state \<times> progress_sink" where
  "before_finish A E survives resp names segs sink =
     (let (segs1, sink1) =
            (if survives \<and> \<not> from_provider segs
             then (case emit_segment E True True segs (flush_held sink) of (g, k) \<Rightarrow> (g, tell_tools E names k))
             else if survives \<and> from_provider segs \<and> is_holding sink then (segs, flush_held sink)
             else (segs, sink));
          (sanitized, truncated) = validate_content_blocks_adapter A (resp_content resp)
      in (segs1, if sink_released_any sink1 \<and> truncated then snd (finish_cut (text_blocks_concat sanitized) sink1) else sink1))"

definition after_done ::
  "speech_env \<Rightarrow> 'c tool_loop_result \<Rightarrow> segments_state \<Rightarrow> progress_sink \<Rightarrow> progress_sink" where
  "after_done E d segs sink =
     (if was_truncated d then sink
      else (let sink1 = flush_held sink
        in if \<not> from_provider segs \<and> 0 < tool_rounds d then snd (emit_segment E False True segs sink1) else sink1))"

definition after_continue ::
  "speech_env \<Rightarrow> bool \<Rightarrow> bytes list \<Rightarrow> segments_state \<Rightarrow> progress_sink \<Rightarrow> segments_state \<times> progress_sink" where
  "after_continue E announced names segs sink =
     (if announced then (segs, sink)
      else (let sink1 = flush_held sink
        in case (if from_provider segs then (segs, sink1) else emit_segment E True True segs sink1) of
             (segs2, sink2) \<Rightarrow> (segs2, tell_tools E names sink2)))"

type_synonym ('j, 'w) streaming_provider = "'j message list \<Rightarrow> 'w \<Rightarrow> ('j stream_event \<times> nat) list \<times> 'w"

partial_function (option) streaming_loop ::
  "('j, 'c, 'w) agent \<Rightarrow> speech_env \<Rightarrow> ('j, 'w) streaming_provider \<Rightarrow> u32 \<Rightarrow> round_state \<Rightarrow> segments_state \<Rightarrow>
     progress_sink \<Rightarrow> 'j message list \<Rightarrow> 'w \<Rightarrow>
     ((turn_error + 'c tool_loop_result) \<times> progress_sink \<times> 'j message list \<times> 'w) option" where
  "streaming_loop A E invoke max_rounds rs segs sink msgs w =
     (let sink1 = tell E (Status Thinking) (if 0 < rounds rs then begin_next_round sink else sink);
          (evs, w1) = invoke msgs w
      in case stream_one_round E evs False [] segs sink1 of
           (Inl e, segs2, sink2) \<Rightarrow> Some (Inl e, sink2, msgs, w1)
         | (Inr (resp, names), segs2, sink2) \<Rightarrow>
             (let survives = tool_round_survives_guard A resp (rounds rs) max_rounds;
                  (segs3, sink3) = before_finish A E survives resp names segs2 sink2
              in case finish_round A max_rounds resp rs msgs w1 of
                   (Done d, rs', msgs', w2) \<Rightarrow> Some (Inr d, after_done E d segs3 sink3, msgs', w2)
                 | (Continue, rs', msgs', w2) \<Rightarrow>
                     (case after_continue E (survives \<and> \<not> from_provider segs2) names segs3 sink3 of
                        (segs4, sink4) \<Rightarrow> streaming_loop A E invoke max_rounds rs' segs4 sink4 msgs' w2)))"

declare streaming_loop.simps [simp del]

definition invoke_with_tool_loop_streaming ::
  "('j, 'c, 'w) agent \<Rightarrow> speech_env \<Rightarrow> ('j, 'w) streaming_provider \<Rightarrow> u32 \<Rightarrow> progress_sink \<Rightarrow> 'j message list \<Rightarrow> 'w \<Rightarrow>
     ((turn_error + 'c tool_loop_result) \<times> progress_sink \<times> 'j message list \<times> 'w) option" where
  "invoke_with_tool_loop_streaming A E invoke max_rounds sink msgs w =
     streaming_loop A E invoke max_rounds round_state_new segments_new sink msgs w"

subsection \<open>A round, by its outcome\<close>

lemma run_tools_rounds:
  assumes "run_tools A bs rs msgs w = (rs', msgs', w')"
  shows "rounds rs' = rounds rs \<and> (\<exists>m. msgs' = msgs @ [m])"
proof -
  obtain results s f used w1 where e: "execute_tool_calls A bs (tools_used rs) w = (results, s, f, used, w1)"
    by (metis prod_cases5)
  obtain rs1 results1 where n: "append_feedback_nudges s f (rs\<lparr>tools_used := used\<rparr>) results = (rs1, results1)" by fastforce
  then have "rounds rs1 = rounds rs" by (auto simp: append_feedback_nudges_def count_failures_def Let_def)
  with assms e n show ?thesis by (auto simp: run_tools_def)
qed

lemma note_response_fields [simp]:
  "rounds (note_response A resp bs rs) = rounds rs"
  "tools_used (note_response A resp bs rs) = tools_used rs"
  by (simp_all add: note_response_def)

definition end_claims :: "('j, 'c, 'w) agent \<Rightarrow> stop_reason \<Rightarrow> 'j block list \<Rightarrow> bytes list \<Rightarrow> 'c list" where
  "end_claims A stop bs used =
     (case stop of OtherStop _ \<Rightarrow> [] | _ \<Rightarrow> validate_action_claims_adapter A bs used)"

lemma finish_round_cases:
  assumes "validate_content_blocks_adapter A (resp_content resp) = (bs, truncated)"
  shows "finish_round A max_rounds resp rs msgs w =
    (let rs1 = note_response A resp bs rs; msgs1 = msgs @ [assistant_message bs] in
     if truncated then (Done (result_of rs1 True False []), rs1, msgs1, w)
     else if resp_stop resp \<noteq> ToolUseStop
       then (Done (result_of rs1 False False (end_claims A (resp_stop resp) bs (tools_used rs))), rs1, msgs1, w)
     else if max_rounds < rounds rs + 1
       then (Done (result_of (rs1\<lparr>rounds := rounds rs + 1\<rparr>) False True []), rs1\<lparr>rounds := rounds rs + 1\<rparr>, msgs1, w)
     else (Continue, run_tools A (resp_content resp) (rs1\<lparr>rounds := rounds rs + 1\<rparr>) msgs1 w))"
  by (cases "resp_stop resp")
    (simp_all add: finish_round_def assms Let_def end_claims_def case_prod_beta)

lemma finish_round_Continue:
  assumes "finish_round A max_rounds resp rs msgs w = (Continue, rs', msgs', w')"
    and "validate_content_blocks_adapter A (resp_content resp) = (bs, truncated)"
  shows "resp_stop resp = ToolUseStop \<and> \<not> truncated \<and> rounds rs' = rounds rs + 1 \<and> rounds rs + 1 \<le> max_rounds \<and>
    run_tools A (resp_content resp) ((note_response A resp bs rs)\<lparr>rounds := rounds rs + 1\<rparr>)
      (msgs @ [assistant_message bs]) w = (rs', msgs', w')"
proof -
  have r: "run_tools A (resp_content resp) ((note_response A resp bs rs)\<lparr>rounds := rounds rs + 1\<rparr>)
      (msgs @ [assistant_message bs]) w = (rs', msgs', w')"
      "resp_stop resp = ToolUseStop" "\<not> truncated" "\<not> max_rounds < rounds rs + 1"
    using assms(1) by (auto simp: finish_round_cases [OF assms(2)] Let_def split: if_split_asm)
  with run_tools_rounds [OF r(1)] show ?thesis by simp
qed

lemma finish_round_Done:
  assumes "finish_round A max_rounds resp rs msgs w = (Done d, rs', msgs', w')"
    and "validate_content_blocks_adapter A (resp_content resp) = (bs, truncated)"
  shows "w' = w \<and> msgs' = msgs @ [assistant_message bs] \<and> (was_truncated d \<longleftrightarrow> truncated) \<and>
    (circuit_breaker_fired d \<longleftrightarrow> resp_stop resp = ToolUseStop \<and> \<not> truncated) \<and>
    (circuit_breaker_fired d \<longrightarrow> max_rounds < rounds rs + 1) \<and>
    tool_rounds d = (if circuit_breaker_fired d then rounds rs + 1 else rounds rs)"
  using assms(1)
  by (auto simp: finish_round_cases [OF assms(2)] Let_def result_of_def split: if_split_asm)

subsection \<open>The loop returns\<close>

lemma rounds_left:
  assumes "(r :: u32) + 1 \<le> m" and "m \<noteq> - 1" and "r \<le> m"
  shows "unat (r + 1) = Suc (unat r)" and "unat r < unat m"
proof -
  have "r \<noteq> - 1" using assms(2,3) by (metis order_antisym word_order.extremum)
  then have "unat (r + 1) = Suc (unat r)"
    by (metis add.commute unatSuc word_order.extremum_unique add_eq_0_iff2 eq_neg_iff_add_eq_0)
  then show "unat (r + 1) = Suc (unat r)" "unat r < unat m"
    using assms(1) by (simp_all add: word_le_nat_alt)
qed

text \<open>
  How a loop that starts in \<open>rs\<close> ends: it returns, having appended at most two messages for each
  round that is left and one more; \<open>calls\<close>, if it counts what the provider is asked, has grown by
  at most the rounds that are left and one.
\<close>

lemma tool_loop_total:
  assumes "max_rounds \<noteq> - 1" and "rounds rs \<le> max_rounds"
    and calls: "\<And>m w. calls (snd (invoke m w)) \<le> Suc (calls w)"
    and tools: "\<And>bs rs msgs w. calls (snd (snd (run_tools A bs rs msgs w))) \<le> (calls w :: nat)"
  shows "\<exists>r msgs' w'. tool_loop A invoke max_rounds rs msgs w = Some (r, msgs', w') \<and> prefix msgs msgs' \<and>
    length msgs' \<le> length msgs + 2 * (unat max_rounds - unat (rounds rs)) + 1 \<and>
    calls w' \<le> calls w + (unat max_rounds - unat (rounds rs)) + 1 \<and>
    (\<forall>d. r = Inr d \<longrightarrow> unat (tool_rounds d) \<le> unat max_rounds + 1)"
  using assms(2)
proof (induction "unat max_rounds - unat (rounds rs)" arbitrary: rs msgs w rule: less_induct)
  case less
  obtain x w1 where i: "invoke msgs w = (x, w1)" by fastforce
  have w1: "calls w1 \<le> Suc (calls w)" using calls [of msgs w] i by simp
  show ?case
  proof (cases x)
    case (Inl e)
    then show ?thesis using i w1 by (subst tool_loop.simps) simp
  next
    case (Inr resp)
    obtain bs t where v: "validate_content_blocks_adapter A (resp_content resp) = (bs, t)" by fastforce
    obtain out rs' msgs' w2 where f: "finish_round A max_rounds resp rs msgs w1 = (out, rs', msgs', w2)"
      by (metis prod_cases4)
    show ?thesis
    proof (cases out)
      case (Done d)
      note fin = finish_round_Done [OF f [unfolded Done] v]
      have "unat (rounds rs + 1) \<le> Suc (unat (rounds rs))" by (simp add: unat_word_ariths)
      moreover have "unat (rounds rs) \<le> unat max_rounds" using less.prems by (simp add: word_le_nat_alt)
      moreover have "tool_rounds d = rounds rs + 1 \<or> tool_rounds d = rounds rs" using fin by presburger
      ultimately have "unat (tool_rounds d) \<le> unat max_rounds + 1" by auto
      moreover have "tool_loop A invoke max_rounds rs msgs w = Some (Inr d, msgs', w2)"
        using i Inr f Done by (subst tool_loop.simps) simp
      moreover have "prefix msgs msgs'" "length msgs' = length msgs + 1" "calls w2 \<le> calls w + 1" using fin w1 by simp_all
      ultimately show ?thesis by (intro exI [of _ "Inr d"] exI [of _ msgs'] exI [of _ w2] conjI) simp_all
    next
      case Continue
      note cont = finish_round_Continue [OF f [unfolded Continue] v]
      have more: "rounds rs' = rounds rs + 1" "rounds rs + 1 \<le> max_rounds" using cont by blast+
      have left: "unat (rounds rs') = Suc (unat (rounds rs))" "unat (rounds rs) < unat max_rounds" "rounds rs' \<le> max_rounds"
        unfolding more(1) by (rule rounds_left [OF more(2) assms(1) less.prems] more(2))+
      have ran: "run_tools A (resp_content resp) ((note_response A resp bs rs)\<lparr>rounds := rounds rs + 1\<rparr>)
          (msgs @ [assistant_message bs]) w1 = (rs', msgs', w2)" using cont by (elim conjE)
      obtain m where m: "msgs' = (msgs @ [assistant_message bs]) @ [m]" using run_tools_rounds [OF ran] by (elim conjE exE)
      have w2: "calls w2 \<le> calls w1"
        using tools [of "resp_content resp" "(note_response A resp bs rs)\<lparr>rounds := rounds rs + 1\<rparr>"
            "msgs @ [assistant_message bs]" w1] unfolding ran by simp
      have "unat max_rounds - unat (rounds rs') < unat max_rounds - unat (rounds rs)" using left by simp
      from less.hyps [OF this left(3), of msgs' w2] obtain r msgs2 w3 where
        ih: "tool_loop A invoke max_rounds rs' msgs' w2 = Some (r, msgs2, w3)" "prefix msgs' msgs2"
          "length msgs2 \<le> length msgs' + 2 * (unat max_rounds - unat (rounds rs')) + 1"
          "calls w3 \<le> calls w2 + (unat max_rounds - unat (rounds rs')) + 1"
          "\<forall>d. r = Inr d \<longrightarrow> unat (tool_rounds d) \<le> unat max_rounds + 1" by blast
      have "tool_loop A invoke max_rounds rs msgs w = Some (r, msgs2, w3)"
        using i Inr f Continue ih(1) by (subst tool_loop.simps) simp
      moreover have "prefix msgs msgs2" using ih(2) unfolding m by (auto simp: prefix_def)
      moreover have "length msgs2 \<le> length msgs + 2 * (unat max_rounds - unat (rounds rs)) + 1"
        using ih(3) left unfolding m by simp
      moreover have "calls w3 \<le> calls w + (unat max_rounds - unat (rounds rs)) + 1"
        using ih(4) left w1 w2 by simp
      ultimately show ?thesis using ih(5) by blast
    qed
  qed
qed


subsection \<open>The streamed twin does what the buffered loop does\<close>

text \<open>The response a stream assembles, or the error it ends with.\<close>

fun stream_outcome :: "('j stream_event \<times> nat) list \<Rightarrow> turn_error + 'j llm_response" where
  "stream_outcome [] = Inl (OtherError ''provider stream ended without a final response'')"
| "stream_outcome ((StreamDone resp, now) # evs) = Inr resp"
| "stream_outcome ((StreamRefused model detail, now) # evs) = Inl (RefusalError model detail)"
| "stream_outcome ((StreamQuota model detail, now) # evs) = Inl (QuotaError model detail)"
| "stream_outcome ((StreamError e, now) # evs) = Inl (OtherError e)"
| "stream_outcome ((ev, now) # evs) = stream_outcome evs"

definition assembled :: "('j, 'w) streaming_provider \<Rightarrow> ('j, 'w) provider" where
  "assembled invoke msgs w = (case invoke msgs w of (evs, w1) \<Rightarrow> (stream_outcome evs, w1))"

lemma stream_one_round_outcome:
  "stream_one_round E evs responding names segs sink = (r, segs', sink') \<Longrightarrow>
     stream_outcome evs = (case r of Inl e \<Rightarrow> Inl e | Inr (resp, names') \<Rightarrow> Inr resp)"
proof (induction E evs responding names segs sink rule: stream_one_round.induct)
  case (2 E ev now evs responding names segs sink)
  then show ?case by (cases ev) (auto simp: Let_def split: prod.splits)
qed auto

lemma streaming_then_buffered:
  "streaming_loop A E invoke max_rounds rs segs sink msgs w = Some z \<Longrightarrow>
     tool_loop A (assembled invoke) max_rounds rs msgs w = (case z of (r, sink', msgs', w') \<Rightarrow> Some (r, msgs', w'))"
proof (induction rule: streaming_loop.raw_induct [rotated, consumes 1, case_names step])
  case (step f A E invoke max_rounds rs segs sink msgs w z)
  let ?sink1 = "tell E (Status Thinking) (if 0 < rounds rs then begin_next_round sink else sink)"
  obtain evs w1 where i: "invoke msgs w = (evs, w1)" by fastforce
  obtain r segs2 sink2 where s: "stream_one_round E evs False [] segs ?sink1 = (r, segs2, sink2)" by (metis prod_cases3)
  note o = stream_one_round_outcome [OF s]
  have I: "assembled invoke msgs w = (stream_outcome evs, w1)" using i by (simp add: assembled_def)
  show ?case
  proof (cases r)
    case (Inl e)
    then show ?thesis using step(2) i s o I by (subst tool_loop.simps) auto
  next
    case (Inr rn)
    obtain resp names where rn: "rn = (resp, names)" by fastforce
    obtain segs3 sink3 where b: "before_finish A E (tool_round_survives_guard A resp (rounds rs) max_rounds) resp names segs2 sink2 =
      (segs3, sink3)" by fastforce
    obtain res rs' msgs' w2 where f: "finish_round A max_rounds resp rs msgs w1 = (res, rs', msgs', w2)"
      by (metis prod_cases4)
    show ?thesis
    proof (cases res)
      case (Done d)
      then show ?thesis using step(2) i s o I Inr rn b f by (subst tool_loop.simps) auto
    next
      case Continue
      obtain segs4 sink4 where c: "after_continue E (tool_round_survives_guard A resp (rounds rs) max_rounds \<and>
        \<not> from_provider segs2) names segs3 sink3 = (segs4, sink4)" by fastforce
      have "f A E invoke max_rounds rs' segs4 sink4 msgs' w2 = Some z"
        using step(2) i s Inr rn b f Continue c by simp
      from step(1) [OF this] show ?thesis using I o Inr rn f Continue by (cases z, subst tool_loop.simps) simp
    qed
  qed
qed

lemma buffered_then_streaming:
  "tool_loop A I max_rounds rs msgs w = Some z \<Longrightarrow> I = assembled invoke \<Longrightarrow>
     \<exists>sink'. streaming_loop A E invoke max_rounds rs segs sink msgs w =
       (case z of (r, msgs', w') \<Rightarrow> Some (r, sink', msgs', w'))"
proof (induction arbitrary: segs sink rule: tool_loop.raw_induct [rotated, consumes 1, case_names step])
  case (step f A I max_rounds rs msgs w z segs sink)
  let ?sink1 = "tell E (Status Thinking) (if 0 < rounds rs then begin_next_round sink else sink)"
  obtain evs w1 where i: "invoke msgs w = (evs, w1)" by fastforce
  obtain r segs2 sink2 where s: "stream_one_round E evs False [] segs ?sink1 = (r, segs2, sink2)" by (metis prod_cases3)
  have I: "I msgs w = (stream_outcome evs, w1)" using step.prems i by (simp add: assembled_def)
  note o = stream_one_round_outcome [OF s]
  show ?case
  proof (cases r)
    case (Inl e)
    then show ?thesis using step(2) i s o I by (subst streaming_loop.simps) auto
  next
    case (Inr rn)
    obtain resp names where rn: "rn = (resp, names)" by fastforce
    obtain segs3 sink3 where b: "before_finish A E (tool_round_survives_guard A resp (rounds rs) max_rounds) resp names segs2 sink2 =
      (segs3, sink3)" by fastforce
    obtain res rs' msgs' w2 where f: "finish_round A max_rounds resp rs msgs w1 = (res, rs', msgs', w2)"
      by (metis prod_cases4)
    show ?thesis
    proof (cases res)
      case (Done d)
      then show ?thesis using step(2) i s o I Inr rn b f by (subst streaming_loop.simps) auto
    next
      case Continue
      obtain segs4 sink4 where c: "after_continue E (tool_round_survives_guard A resp (rounds rs) max_rounds \<and>
        \<not> from_provider segs2) names segs3 sink3 = (segs4, sink4)" by fastforce
      have "f A I max_rounds rs' msgs' w2 = Some z"
        using step(2) I o Inr rn f Continue by simp
      from step(1) [OF this step.prems] obtain sink' where
        "streaming_loop A E invoke max_rounds rs' segs4 sink4 msgs' w2 = (case z of (r, msgs', w') \<Rightarrow> Some (r, sink', msgs', w'))"
        by blast
      then show ?thesis using i s Inr rn b f Continue c by (cases z, subst streaming_loop.simps) auto
    qed
  qed
qed

subsection \<open>Calls and their results\<close>

text \<open>\<open>tool_pairs_ok\<close> without its end: what is open after the messages is \<open>open_calls\<close>.\<close>

primrec paired :: "bytes set \<Rightarrow> 'j message list \<Rightarrow> bool" where
  "paired us [] \<longleftrightarrow> True"
| "paired us (m # ms) \<longleftrightarrow> tool_results m = us \<and> (tool_uses m \<noteq> {} \<longrightarrow> msg_role m = Assistant) \<and>
     (tool_results m \<noteq> {} \<longrightarrow> msg_role m = User) \<and> paired (tool_uses m) ms"

definition open_calls :: "bytes set \<Rightarrow> 'j message list \<Rightarrow> bytes set" where
  "open_calls us ms = (if ms = [] then us else tool_uses (last ms))"

lemma open_calls_simps [simp]:
  "open_calls us [] = us" "open_calls us (m # ms) = open_calls (tool_uses m) ms" "open_calls us (ms @ [m]) = tool_uses m"
  by (simp_all add: open_calls_def)

lemma tool_pairs_paired: "tool_pairs_ok us ms \<longleftrightarrow> paired us ms \<and> open_calls us ms = {}"
  by (induction ms arbitrary: us) auto

lemma paired_snoc:
  "paired us (ms @ [m]) \<longleftrightarrow> paired us ms \<and> tool_results m = open_calls us ms \<and>
     (tool_uses m \<noteq> {} \<longrightarrow> msg_role m = Assistant) \<and> (tool_results m \<noteq> {} \<longrightarrow> msg_role m = User)"
  by (induction ms arbitrary: us) auto

lemma execute_tool_calls_ids:
  "execute_tool_calls A bs used w = (results, s, f, used', w') \<Longrightarrow>
     List.map_filter result_id results = List.map_filter use_id bs \<and> List.map_filter use_id results = []"
proof (induction A bs used w arbitrary: results s f used' w' rule: execute_tool_calls.induct)
  case (2 A i name input bs used w)
  then show ?case by (auto simp: List.map_filter_simps split: sum.splits prod.splits option.splits)
qed (auto simp: List.map_filter_simps)

lemma map_filter_append: "List.map_filter f (xs @ ys) = List.map_filter f xs @ List.map_filter f ys"
  by (induction xs) (auto simp: List.map_filter_simps split: option.split)

lemma nudges_ids:
  assumes "append_feedback_nudges s f rs results = (rs', results')"
  shows "List.map_filter result_id results' = List.map_filter result_id results \<and>
    List.map_filter use_id results' = List.map_filter use_id results"
  using assms by (auto simp: append_feedback_nudges_def Let_def List.map_filter_simps map_filter_append split: if_split_asm)

lemma truncate_result_block_ids [simp]:
  "use_id (fst (truncate_result_block b)) = use_id b" "result_id (fst (truncate_result_block b)) = result_id b"
  by (cases b; simp)+

lemma truncate_blocks_ids:
  "List.map_filter result_id (fst (truncate_tool_result_blocks bs)) = List.map_filter result_id bs"
  "List.map_filter use_id (fst (truncate_tool_result_blocks bs)) = List.map_filter use_id bs"
  by (simp_all add: truncate_tool_result_blocks_def map_filter_map comp_def)

lemma run_tools_answers:
  assumes "run_tools A bs rs msgs w = (rs', msgs', w')"
  shows "\<exists>m. msgs' = msgs @ [m] \<and> msg_role m = User \<and> tool_uses m = {} \<and> tool_results m = set (List.map_filter use_id bs)"
proof -
  obtain results s f used w1 where e: "execute_tool_calls A bs (tools_used rs) w = (results, s, f, used, w1)"
    by (metis prod_cases5)
  obtain rs1 results1 where n: "append_feedback_nudges s f (rs\<lparr>tools_used := used\<rparr>) results = (rs1, results1)" by fastforce
  let ?m = "results_message (fst (truncate_tool_result_blocks results1))"
  have "msgs' = msgs @ [?m]" using assms e n by (simp add: run_tools_def)
  moreover have "msg_role ?m = User" "tool_uses ?m = {}" "tool_results ?m = set (List.map_filter use_id bs)"
    using execute_tool_calls_ids [OF e] nudges_ids [OF n]
    by (simp_all add: results_message_def tool_uses_def tool_results_def blocks_of_def truncate_blocks_ids)
  ultimately show ?thesis by blast
qed

text \<open>
  What the Messages API says of a reply: it has no results, and it stops for tools if it calls one.
\<close>

definition well_formed_reply :: "'j llm_response \<Rightarrow> bool" where
  "well_formed_reply resp \<longleftrightarrow> List.map_filter result_id (resp_content resp) = [] \<and>
     (resp_stop resp = ToolUseStop \<longleftrightarrow> List.map_filter use_id (resp_content resp) \<noteq> [])"

definition keeps_what_it_accepts :: "('j, 'c, 'w) agent \<Rightarrow> bool" where
  "keeps_what_it_accepts A \<longleftrightarrow> (\<forall>bs. \<not> snd (rv_validate A bs) \<longrightarrow> fst (rv_validate A bs) = bs)"

lemma convert_rv_back: "List.map_filter result_id bs = [] \<Longrightarrow> map convert_from_rv (map convert_to_rv bs) = bs"
proof (induction bs)
  case (Cons b bs)
  then show ?case by (cases b) (auto simp: List.map_filter_simps)
qed simp

lemma accepted_unchanged:
  assumes "keeps_what_it_accepts A" and "well_formed_reply resp"
    and "validate_content_blocks_adapter A (resp_content resp) = (bs, False)"
  shows "bs = resp_content resp"
proof -
  obtain rv where rv: "rv_validate A (map convert_to_rv (resp_content resp)) = (rv, False)" "bs = map convert_from_rv rv"
    using assms(3) by (auto simp: validate_content_blocks_adapter_def split: prod.splits)
  then have "rv = map convert_to_rv (resp_content resp)"
    using assms(1) unfolding keeps_what_it_accepts_def by (metis fst_conv snd_conv)
  with rv(2) convert_rv_back assms(2) show ?thesis unfolding well_formed_reply_def by metis
qed

lemma assistant_message_ids:
  "msg_role (assistant_message bs) = Assistant" "tool_uses (assistant_message bs) = set (List.map_filter use_id bs)"
  "tool_results (assistant_message bs) = set (List.map_filter result_id bs)"
  by (simp_all add: assistant_message_def tool_uses_def tool_results_def blocks_of_def)

lemma loop_pairs:
  "tool_loop A invoke max_rounds rs msgs w = Some z \<Longrightarrow> z = (Inr d, msgs', w') \<Longrightarrow> \<not> was_truncated d \<Longrightarrow>
     tool_pairs_ok {} msgs \<Longrightarrow> keeps_what_it_accepts A \<Longrightarrow>
     (\<And>m v resp v'. invoke m v = (Inr resp, v') \<Longrightarrow> well_formed_reply resp) \<Longrightarrow>
     paired {} msgs' \<and> (open_calls {} msgs' = {} \<longleftrightarrow> \<not> circuit_breaker_fired d)"
proof (induction rule: tool_loop.raw_induct [rotated, consumes 1, case_names step])
  case (step f A invoke max_rounds rs msgs w z)
  obtain x w1 where i: "invoke msgs w = (x, w1)" by fastforce
  show ?case
  proof (cases x)
    case (Inl e)
    then show ?thesis using step i by simp
  next
    case (Inr resp)
    have wf: "well_formed_reply resp" using step.prems(5) i Inr by blast
    obtain bs t where v: "validate_content_blocks_adapter A (resp_content resp) = (bs, t)" by fastforce
    obtain res rs1 msgs1 w2 where fr: "finish_round A max_rounds resp rs msgs w1 = (res, rs1, msgs1, w2)"
      by (metis prod_cases4)
    have p: "paired {} msgs" "open_calls {} msgs = {}" using step.prems(3) by (simp_all add: tool_pairs_paired)
    have bs: "\<not> t \<Longrightarrow> bs = resp_content resp"
      using accepted_unchanged [OF step.prems(4) wf] v by simp
    have said: "paired {} (msgs @ [assistant_message (resp_content resp)])"
      using p wf by (simp add: paired_snoc assistant_message_ids well_formed_reply_def)
    show ?thesis
    proof (cases res)
      case (Done d')
      have "d' = d" "msgs1 = msgs'" using step(2) i Inr fr Done step.prems(1) by simp_all
      moreover note fin = finish_round_Done [OF fr [unfolded Done] v]
      ultimately have t: "\<not> t" "msgs' = msgs @ [assistant_message bs]"
          "circuit_breaker_fired d \<longleftrightarrow> resp_stop resp = ToolUseStop" using step.prems(2) by blast+
      with bs said wf show ?thesis by (simp add: assistant_message_ids well_formed_reply_def)
    next
      case Continue
      note cont = finish_round_Continue [OF fr [unfolded Continue] v]
      then obtain rs0 where "run_tools A (resp_content resp) rs0 (msgs @ [assistant_message bs]) w1 = (rs1, msgs1, w2)" "\<not> t"
        by blast
      from run_tools_answers [OF this(1)] bs [OF this(2)] obtain m where
        m: "msgs1 = (msgs @ [assistant_message (resp_content resp)]) @ [m]" "msg_role m = User" "tool_uses m = {}"
          "tool_results m = set (List.map_filter use_id (resp_content resp))" by blast
      then have "tool_pairs_ok {} msgs1"
        using said unfolding tool_pairs_paired m(1) paired_snoc [of _ _ m] open_calls_simps(3) by (simp add: assistant_message_ids)
      moreover have "f A invoke max_rounds rs1 msgs1 w2 = Some z" using step(2) i Inr fr Continue by simp
      ultimately show ?thesis using step(1) step.prems by blast
    qed
  qed
qed

lemma execute_tool_calls_quiet:
  "execute_tool_calls A bs used w = (results, s, f, used', w') \<Longrightarrow>
     (\<And>name run input w. find_tool A name = Some run \<Longrightarrow> calls (snd (run input w)) \<le> calls w) \<Longrightarrow>
     calls w' \<le> (calls w :: nat)"
proof (induction A bs used w arbitrary: results s f used' w' rule: execute_tool_calls.induct)
  case (2 A i name input bs used w)
  obtain x w1 where x: "(case find_tool A name of
      None \<Rightarrow> (Inl (''Unknown tool '' @ [CHR 0x27] @ name @ [CHR 0x27]), w) | Some execute \<Rightarrow> execute input w) = (x, w1)"
    by fastforce
  then have w1: "calls w1 \<le> calls w" using "2.prems"(2) by (auto split: option.splits) (metis snd_conv)
  have ih: "calls w2 \<le> calls w1" if "execute_tool_calls A bs (used @ [name]) w1 = (rest, s', f', u', w2)" for rest s' f' u' w2
    using "2.IH" [OF x [symmetric]] "2.prems"(2) that by (cases x) auto
  show ?case
  proof (cases x)
    case (Inl e)
    then show ?thesis using "2.prems"(1) x ih w1 by (fastforce split: prod.splits)
  next
    case (Inr y)
    then show ?thesis using "2.prems"(1) x ih w1 by (fastforce split: prod.splits)
  qed
qed auto

lemma run_tools_quiet:
  assumes "\<And>name run input w. find_tool A name = Some run \<Longrightarrow> calls (snd (run input w)) \<le> calls w"
  shows "calls (snd (snd (run_tools A bs rs msgs w))) \<le> (calls w :: nat)"
proof -
  obtain results s f used w1 where e: "execute_tool_calls A bs (tools_used rs) w = (results, s, f, used, w1)"
    by (metis prod_cases5)
  then show ?thesis using execute_tool_calls_quiet [OF e, of calls] assms
    by (simp add: run_tools_def case_prod_beta)
qed

text \<open>
  C22: a turn with its tools ends. Whatever the model answers and the tools do, \<open>invoke_with_tool_loop\<close>
  returns unless \<open>max_rounds\<close> is the largest \<open>u32\<close>: the history only grows, by at most two messages a
  round and one more, the model is asked at most \<open>max_rounds + 1\<close> times, and the round count reported
  is at most \<open>max_rounds + 1\<close>. (\<open>calls\<close> reads off the world how often the model was asked.)
\<close>

theorem tool_loop_returns:
  assumes "max_rounds \<noteq> - 1"
    and "\<And>m w. calls (snd (invoke m w)) \<le> Suc (calls w)"
    and "\<And>name run input w. find_tool A name = Some run \<Longrightarrow> calls (snd (run input w)) \<le> calls w"
  shows "\<exists>r msgs' w'. invoke_with_tool_loop A invoke max_rounds msgs w = Some (r, msgs', w') \<and> prefix msgs msgs' \<and>
    length msgs' \<le> length msgs + 2 * unat max_rounds + 1 \<and> calls w' \<le> calls w + unat max_rounds + 1 \<and>
    (\<forall>d. r = Inr d \<longrightarrow> unat (tool_rounds d) \<le> unat max_rounds + 1)"
proof -
  have "calls (snd (snd (run_tools A bs rs ms v))) \<le> calls v" for bs rs ms v
    by (rule run_tools_quiet) (rule assms(3))
  then show ?thesis
    using tool_loop_total [of max_rounds round_state_new calls invoke A msgs w] assms(1,2)
    by (simp add: invoke_with_tool_loop_def round_state_new_def)
qed

text \<open>
  C23: the streamed turn is the buffered turn. Run on the same events, with \<open>stream_outcome\<close> as the
  answer they assemble, \<open>invoke_with_tool_loop_streaming\<close> gives the same result, the same history and
  the same effects as \<open>invoke_with_tool_loop\<close>, and returns exactly when it does; what the sink holds,
  drops or speaks changes nothing.
\<close>

theorem streamed_turn_is_the_buffered_turn:
  "map_option (\<lambda>(r, sink', msgs', w'). (r, msgs', w')) (invoke_with_tool_loop_streaming A E invoke max_rounds sink msgs w) =
     invoke_with_tool_loop A (assembled invoke) max_rounds msgs w"
proof (cases "invoke_with_tool_loop_streaming A E invoke max_rounds sink msgs w")
  case None
  then show ?thesis
    using buffered_then_streaming [of A "assembled invoke" max_rounds round_state_new msgs w _ invoke E segments_new sink]
    by (cases "invoke_with_tool_loop A (assembled invoke) max_rounds msgs w")
      (auto simp: invoke_with_tool_loop_streaming_def invoke_with_tool_loop_def)
next
  case (Some z)
  then show ?thesis
    using streaming_then_buffered [of A E invoke max_rounds round_state_new segments_new sink msgs w z]
    by (cases z) (simp add: invoke_with_tool_loop_streaming_def invoke_with_tool_loop_def)
qed

text \<open>
  Every tool call gets its result in the next message, in every turn the guard does not truncate,
  except the one the circuit breaker ends: there the model's last calls are on record and stay
  unanswered, so whatever plain message comes next, the Messages API has a malformed conversation.
  The replies are as the API promises them, and the guard keeps what it accepts.
\<close>

theorem breaker_leaves_calls_open:
  assumes "invoke_with_tool_loop A invoke max_rounds msgs w = Some (Inr d, msgs', w')" and "\<not> was_truncated d"
    and "tool_pairs_ok {} msgs" and "keeps_what_it_accepts A"
    and "\<And>m v resp v'. invoke m v = (Inr resp, v') \<Longrightarrow> well_formed_reply resp"
    and "tool_uses m = {}" and "tool_results m = {}"
  shows "tool_pairs_ok {} (msgs' @ [m]) \<longleftrightarrow> \<not> circuit_breaker_fired d"
  using loop_pairs [OF assms(1) [unfolded invoke_with_tool_loop_def] refl assms(2-5)] assms(6,7)
  by (auto simp: tool_pairs_paired paired_snoc)

subsection \<open>Concrete turns\<close>

definition demo_reply :: "unit llm_response" where
  "demo_reply = \<lparr>resp_content = [ToolUse ''call'' ''clock'' ()], resp_stop = ToolUseStop, resp_model = ''m'',
     input_tokens = Some 1, output_tokens = None\<rparr>"

definition demo_agent :: "(unit, unit, nat) agent" where
  "demo_agent = \<lparr>chars_of = \<lparr>lowercase = (\<lambda>s. s), alphanumeric = (\<lambda>_. True), whitespace = (\<lambda>c. c = '' '')\<rparr>,
     rv_validate = (\<lambda>bs. (bs, False)), rv_claims = (\<lambda>bs used. []),
     find_tool = (\<lambda>name. if name = ''clock'' then Some (\<lambda>_ w. (Inr ''noon'', w)) else None)\<rparr>"

theorem tool_loop_returns_witness:
  "\<exists>r msgs' w'. invoke_with_tool_loop demo_agent (\<lambda>m w. (Inr demo_reply, Suc w)) 2 [] 0 = Some (r, msgs', w') \<and>
     length msgs' \<le> 5 \<and> w' \<le> 3"
proof -
  have "find_tool demo_agent name = Some run \<Longrightarrow> snd (run input w) = w" for name run input w
    by (auto simp: demo_agent_def split: if_split_asm)
  with tool_loop_returns [of 2 "\<lambda>w. w" "\<lambda>m w. (Inr demo_reply, Suc w)" demo_agent "[]" 0] show ?thesis by auto
qed

theorem breaker_leaves_calls_open_witness:
  "\<exists>d msgs' w'. invoke_with_tool_loop demo_agent (\<lambda>m w. (Inr demo_reply, Suc w)) 0 [] 0 = Some (Inr d, msgs', w') \<and>
     circuit_breaker_fired d \<and> \<not> tool_pairs_ok {} (msgs' @ [says User ''and now?''])"
proof -
  have wf: "well_formed_reply demo_reply"
    by (simp add: well_formed_reply_def demo_reply_def List.map_filter_simps)
  have k: "keeps_what_it_accepts demo_agent" by (simp add: keeps_what_it_accepts_def demo_agent_def)
  obtain d msgs' where r: "invoke_with_tool_loop demo_agent (\<lambda>m w. (Inr demo_reply, Suc w)) 0 [] 0 = Some (Inr d, msgs', 1)"
      "circuit_breaker_fired d" "\<not> was_truncated d"
    by (simp add: invoke_with_tool_loop_def tool_loop.simps finish_round_def validate_content_blocks_adapter_def
        demo_agent_def demo_reply_def round_state_new_def note_response_def Let_def result_of_def)
  from breaker_leaves_calls_open [OF r(1,3) _ k, of "says User ''and now?''"] wf r(2)
  have "\<not> tool_pairs_ok {} (msgs' @ [says User ''and now?''])" by auto
  with r show ?thesis by blast
qed

end
