(* ===== verification/ConvWal.thy ===== *)
theory ConvWal
  imports Conversation
begin

text \<open>
  The log of a conversation: \<open>src/wal.rs\<close>. One file of JSON lines per session and one marker file
  with the last archived sequence number. \<open>serde_json\<close> is the codec parameter; what the operating
  system does to a write is an argument.
\<close>

subsection \<open>Entries\<close>

datatype wal_lane = TrunkLane | QuarantineLane

record 'j wal_entry =
  entry_ts :: int
  entry_seq :: u64
  entry_role :: role
  entry_content :: "'j content"
  entry_channel :: "bytes option"
  entry_sender :: "bytes option"
  entry_lane :: wal_lane

datatype wal_fsync = FsyncUserOnly | FsyncAll | FsyncNone

record 'j entry_codec =
  encode_entry :: "'j wal_entry \<Rightarrow> bytes option"
  decode_entry :: "bytes \<Rightarrow> 'j wal_entry option"

text \<open>What \<open>serde_json\<close> promises: a line of valid UTF-8 that reads back.\<close>

definition line_ok :: "unicode \<Rightarrow> bytes \<Rightarrow> bool" where
  "line_ok U l \<longleftrightarrow> newline \<notin> set l \<and> valid_utf8 l \<and> \<not> blank U l \<and> last l \<noteq> CHR 0x0D"

definition entry_codec_ok :: "unicode \<Rightarrow> 'j entry_codec \<Rightarrow> bool" where
  "entry_codec_ok U C \<longleftrightarrow> (\<forall>e l. encode_entry C e = Some l \<longrightarrow> line_ok U l \<and> decode_entry C l = Some e)"

subsection \<open>Files\<close>

record conv_wal =
  wal_files :: "bytes \<rightharpoonup> bytes"
  wal_marks :: "bytes \<rightharpoonup> bytes"

text \<open>\<open>str::replace\<close> of \<open>:\<close> by \<open>--\<close> and back.\<close>

definition dashed :: "bytes \<Rightarrow> bytes" where
  "dashed k = concat (map (\<lambda>c. if c = CHR '':'' then ''--'' else [c]) k)"

fun undashed :: "bytes \<Rightarrow> bytes" where
  "undashed (a # b # s) =
     (if a = CHR ''-'' \<and> b = CHR ''-'' then CHR '':'' # undashed s else a # undashed (b # s))"
| "undashed s = s"

definition wal_name :: "bytes \<Rightarrow> bytes" where
  "wal_name k = dashed k @ ''.jsonl''"

definition checkpoint_name :: "bytes \<Rightarrow> bytes" where
  "checkpoint_name k = dashed k @ ''.checkpoint''"

text \<open>How a write ends: it is complete, nothing was written, some bytes were, or only the sync failed.\<close>

datatype write_outcome = Complete | OpenFailed | TornAfter nat | SyncFailed

definition should_fsync :: "wal_fsync \<Rightarrow> role \<Rightarrow> bool" where
  "should_fsync policy r = (case policy of FsyncAll \<Rightarrow> True | FsyncUserOnly \<Rightarrow> r = User | FsyncNone \<Rightarrow> False)"

definition file_of :: "bytes option \<Rightarrow> bytes" where
  "file_of f = (case f of None \<Rightarrow> [] | Some bs \<Rightarrow> bs)"

definition append_with_lane ::
  "'j entry_codec \<Rightarrow> wal_fsync \<Rightarrow> write_outcome \<Rightarrow> bytes \<Rightarrow> 'j wal_entry \<Rightarrow> conv_wal \<Rightarrow> bool \<times> conv_wal" where
  "append_with_lane C policy outcome key e d =
     (case encode_entry C e of
        None \<Rightarrow> (False, d)
      | Some l \<Rightarrow>
          (let old = file_of (wal_files d (wal_name key));
               with = (\<lambda>bs. d\<lparr>wal_files := (wal_files d)(wal_name key \<mapsto> old @ bs)\<rparr>)
           in case outcome of
                Complete \<Rightarrow> (True, with (l @ [newline]))
              | OpenFailed \<Rightarrow> (False, d)
              | TornAfter n \<Rightarrow> (False, with (take n (l @ [newline])))
              | SyncFailed \<Rightarrow> (\<not> should_fsync policy (entry_role e), with (l @ [newline]))))"

definition wal_remove :: "bytes \<Rightarrow> conv_wal \<Rightarrow> conv_wal" where
  "wal_remove key d = d\<lparr>wal_files := (wal_files d)(wal_name key := None)\<rparr>"

text \<open>\<open>list_active\<close>, with the names of the directory in the order it lists them.\<close>

definition strip_suffix :: "bytes \<Rightarrow> bytes \<Rightarrow> bytes option" where
  "strip_suffix p s = map_option rev (strip_prefix (rev p) (rev s))"

definition list_active :: "bytes list \<Rightarrow> bytes list" where
  "list_active names = List.map_filter (\<lambda>n. map_option undashed (strip_suffix ''.jsonl'' n)) names"

text \<open>\<open>read\<close>: \<open>None\<close> when the file cannot be read or a line is not UTF-8.\<close>

definition wal_entries :: "unicode \<Rightarrow> 'j entry_codec \<Rightarrow> bytes list \<Rightarrow> 'j wal_entry list" where
  "wal_entries U C ls = List.map_filter (\<lambda>l. if blank U l then None else decode_entry C l) ls"

definition wal_read :: "unicode \<Rightarrow> 'j entry_codec \<Rightarrow> bool \<Rightarrow> bytes \<Rightarrow> conv_wal \<Rightarrow> 'j wal_entry list option" where
  "wal_read U C readable key d =
     (case wal_files d (wal_name key) of
        None \<Rightarrow> Some []
      | Some bs \<Rightarrow>
          if readable \<and> list_all valid_utf8 (str_lines bs) then Some (wal_entries U C (str_lines bs)) else None)"

definition entry_message :: "'j wal_entry \<Rightarrow> 'j message" where
  "entry_message e = \<lparr>msg_role = entry_role e, msg_content = entry_content e, msg_source = None\<rparr>"

definition entries_to_lanes :: "'j wal_entry list \<Rightarrow> 'j message list \<times> 'j message list" where
  "entries_to_lanes es =
     (map entry_message (filter (\<lambda>e. entry_lane e = TrunkLane) es),
      map entry_message (filter (\<lambda>e. entry_lane e = QuarantineLane) es))"

definition file_size :: "bytes \<Rightarrow> conv_wal \<Rightarrow> nat" where
  "file_size key d = length (file_of (wal_files d (wal_name key)))"

subsection \<open>The checkpoint marker\<close>

definition read_checkpoint :: "unicode \<Rightarrow> bytes \<Rightarrow> conv_wal \<Rightarrow> u64" where
  "read_checkpoint U key d =
     (case wal_marks d (checkpoint_name key) of
        None \<Rightarrow> 0
      | Some bs \<Rightarrow> if valid_utf8 bs then (case parse_unsigned 64 (trim U bs) of None \<Rightarrow> 0 | Some n \<Rightarrow> of_nat n) else 0)"

definition write_checkpoint :: "write_outcome \<Rightarrow> bytes \<Rightarrow> u64 \<Rightarrow> conv_wal \<Rightarrow> bool \<times> conv_wal" where
  "write_checkpoint outcome key n d =
     (let mark = (\<lambda>bs. d\<lparr>wal_marks := (wal_marks d)(checkpoint_name key \<mapsto> bs)\<rparr>)
      in case outcome of
           OpenFailed \<Rightarrow> (False, d)
         | TornAfter i \<Rightarrow> (False, mark (take i (decimal (unat n))))
         | _ \<Rightarrow> (True, mark (decimal (unat n))))"

definition remove_checkpoint :: "bytes \<Rightarrow> conv_wal \<Rightarrow> conv_wal" where
  "remove_checkpoint key d = d\<lparr>wal_marks := (wal_marks d)(checkpoint_name key := None)\<rparr>"

definition read_after_checkpoint ::
  "unicode \<Rightarrow> 'j entry_codec \<Rightarrow> bool \<Rightarrow> bytes \<Rightarrow> conv_wal \<Rightarrow> 'j wal_entry list option" where
  "read_after_checkpoint U C readable key d =
     map_option (filter (\<lambda>e. read_checkpoint U key d < entry_seq e)) (wal_read U C readable key d)"

subsection \<open>Lines of a log\<close>

lemma str_lines_nil [simp]: "str_lines [] = []"
  by (subst str_lines.simps) simp

lemma str_lines_line:
  assumes "newline \<notin> set l" and "last l \<noteq> CHR 0x0D"
  shows "str_lines (l @ newline # s) = l # str_lines s"
proof -
  have "takeWhile (\<lambda>c. c \<noteq> newline) (l @ newline # s) = l"
    using assms(1) by (subst takeWhile_append2) auto
  moreover have "dropWhile (\<lambda>c. c \<noteq> newline) (l @ newline # s) = newline # s"
    using assms(1) by (subst dropWhile_append2) auto
  ultimately show ?thesis using assms(2) by (subst str_lines.simps) (simp add: strip_cr_def)
qed

lemma str_lines_rest: "newline \<notin> set l \<Longrightarrow> l \<noteq> [] \<Longrightarrow> str_lines l = [l]"
proof -
  assume l: "newline \<notin> set l" "l \<noteq> []"
  have d: "dropWhile (\<lambda>c. c \<noteq> newline) l = []" unfolding dropWhile_eq_Nil_conv using l(1) by blast
  show ?thesis by (subst str_lines.simps) (simp only: d l(2) if_False list.case)
qed

lemma str_lines_log:
  "list_all (line_ok U) ls \<Longrightarrow> str_lines (concat (map (\<lambda>l. l @ [newline]) ls) @ s) = ls @ str_lines s"
  by (induction ls) (auto simp: line_ok_def str_lines_line)

text \<open>The log of entries, and what is read from it when \<open>s\<close> follows.\<close>

definition entry_line :: "'j entry_codec \<Rightarrow> 'j wal_entry \<Rightarrow> bytes" where
  "entry_line C e = (case encode_entry C e of None \<Rightarrow> [] | Some l \<Rightarrow> l)"

definition entry_log :: "'j entry_codec \<Rightarrow> 'j wal_entry list \<Rightarrow> bytes" where
  "entry_log C es = concat (map (\<lambda>e. entry_line C e @ [newline]) es)"

definition encodes :: "'j entry_codec \<Rightarrow> 'j wal_entry \<Rightarrow> bool" where
  "encodes C e \<longleftrightarrow> encode_entry C e \<noteq> None"

lemma entry_log_simps [simp]:
  "entry_log C [] = []" "entry_log C (es @ [e]) = entry_log C es @ entry_line C e @ [newline]"
  by (simp_all add: entry_log_def)

lemma encodes_line:
  assumes "entry_codec_ok U C" and "encodes C e"
  shows "line_ok U (entry_line C e)" and "decode_entry C (entry_line C e) = Some e"
  using assms by (auto simp: entry_codec_ok_def encodes_def entry_line_def)

lemma wal_entries_Nil [simp]: "wal_entries U C [] = []"
  by (simp add: wal_entries_def List.map_filter_simps)

lemma wal_entries_Cons:
  "wal_entries U C (l # ls) =
     (if blank U l then [] else case decode_entry C l of None \<Rightarrow> [] | Some e \<Rightarrow> [e]) @ wal_entries U C ls"
  by (simp add: wal_entries_def List.map_filter_simps split: option.split)

lemma read_log:
  assumes "entry_codec_ok U C" and "list_all (encodes C) es"
  shows "str_lines (entry_log C es @ s) = map (entry_line C) es @ str_lines s"
    and "wal_entries U C (map (entry_line C) es @ ls) = es @ wal_entries U C ls"
    and "list_all valid_utf8 (map (entry_line C) es)"
proof -
  have l: "list_all (line_ok U) (map (entry_line C) es)"
    using assms encodes_line(1) by (auto simp: list_all_iff)
  show "str_lines (entry_log C es @ s) = map (entry_line C) es @ str_lines s"
    using str_lines_log [OF l] by (simp add: entry_log_def comp_def)
  show "list_all valid_utf8 (map (entry_line C) es)" using l by (auto simp: list_all_iff line_ok_def)
  show "wal_entries U C (map (entry_line C) es @ ls) = es @ wal_entries U C ls"
    using assms(2) encodes_line [OF assms(1)] by (induction es) (auto simp: wal_entries_Cons line_ok_def)
qed

lemma wal_read_log:
  assumes "entry_codec_ok U C" and "list_all (encodes C) es" and "file_of (wal_files d (wal_name k)) = entry_log C es"
  shows "wal_read U C True k d = Some es"
proof (cases "wal_files d (wal_name k)")
  case None
  then have "entry_log C es = []" using assms(3) by (simp add: file_of_def)
  then have "es = []" by (cases es) (simp_all add: entry_log_def)
  with None show ?thesis by (simp add: wal_read_def)
next
  case (Some bs)
  then show ?thesis
    using assms(3) read_log(1,2) [OF assms(1,2), of "[]"] read_log(3) [OF assms(1,2)]
    by (simp add: wal_read_def file_of_def)
qed

subsection \<open>What is appended is read\<close>

lemma append_complete:
  assumes "encodes C e"
  shows "append_with_lane C policy Complete k e d =
    (True, d\<lparr>wal_files := (wal_files d)(wal_name k \<mapsto> file_of (wal_files d (wal_name k)) @ entry_line C e @ [newline])\<rparr>)"
  using assms by (auto simp: append_with_lane_def encodes_def entry_line_def)

definition append_each ::
  "'j entry_codec \<Rightarrow> wal_fsync \<Rightarrow> bytes \<Rightarrow> 'j wal_entry list \<Rightarrow> conv_wal \<Rightarrow> conv_wal" where
  "append_each C policy k es d = fold (\<lambda>e d. snd (append_with_lane C policy Complete k e d)) es d"

lemma append_each_log:
  assumes "list_all (encodes C) es"
  shows "file_of (wal_files (append_each C policy k es d) (wal_name k)) = file_of (wal_files d (wal_name k)) @ entry_log C es"
    and "n \<noteq> wal_name k \<Longrightarrow> wal_files (append_each C policy k es d) n = wal_files d n"
  using assms by (induction es arbitrary: d rule: rev_induct) (auto simp: append_each_def append_complete file_of_def)

subsection \<open>The log as a client sees it\<close>

text \<open>What the turn relies on: a log that holds some entries holds one more after an append, and a read
  gives what it holds.\<close>

locale message_log =
  fixes holds :: "'d \<Rightarrow> 'e list \<Rightarrow> bool" and fits :: "'e \<Rightarrow> bool"
    and append_one :: "'e \<Rightarrow> 'd \<Rightarrow> 'd" and read_all :: "'d \<Rightarrow> 'e list option"
  assumes append_holds: "holds d es \<Longrightarrow> fits e \<Longrightarrow> holds (append_one e d) (es @ [e])"
    and read_holds: "holds d es \<Longrightarrow> read_all d = Some es"
begin

lemma appends_hold: "holds d es \<Longrightarrow> list_all fits es' \<Longrightarrow> holds (fold append_one es' d) (es @ es')"
proof (induction es' arbitrary: d es)
  case (Cons e es')
  then show ?case using append_holds [of d es e] by fastforce
qed simp

lemma read_appended: "holds d es \<Longrightarrow> list_all fits es' \<Longrightarrow> read_all (fold append_one es' d) = Some (es @ es')"
  by (rule read_holds [OF appends_hold])

end

definition log_holds :: "unicode \<Rightarrow> 'j entry_codec \<Rightarrow> bytes \<Rightarrow> conv_wal \<Rightarrow> 'j wal_entry list \<Rightarrow> bool" where
  "log_holds U C k d es \<longleftrightarrow> entry_codec_ok U C \<and> list_all (encodes C) es \<and> file_of (wal_files d (wal_name k)) = entry_log C es"

lemma log_holds_append:
  "log_holds U C k d es \<Longrightarrow> encodes C e \<Longrightarrow> log_holds U C k (snd (append_with_lane C policy Complete k e d)) (es @ [e])"
  by (auto simp: log_holds_def append_complete file_of_def)

interpretation cw: message_log "log_holds U C k" "encodes C" "\<lambda>e d. snd (append_with_lane C policy Complete k e d)"
    "wal_read U C True k" for U C policy k
  by unfold_locales (rule log_holds_append, assumption+, simp add: log_holds_def wal_read_log)

text \<open>A number is read back as it was printed when no digit counts as white space.\<close>

definition digits_solid :: "unicode \<Rightarrow> bool" where
  "digits_solid U \<longleftrightarrow> (\<forall>c. ascii_digit c \<longrightarrow> \<not> whitespace U [c])"

lemma digit_not_continuation: "ascii_digit c \<Longrightarrow> \<not> continuation c"
  by (simp add: ascii_digit_def continuation_def byte_def)

lemma utf8_chars_digits: "list_all ascii_digit s \<Longrightarrow> utf8_chars s = map (\<lambda>c. [c]) s"
proof (induction s)
  case (Cons c s)
  then have "takeWhile continuation s = []" "dropWhile continuation s = s"
    by (cases s; simp add: digit_not_continuation)+
  with Cons show ?case by simp
qed simp

lemma concat_singletons: "concat (map (\<lambda>c. [c]) s) = s"
  by (induction s) simp_all

lemma trim_decimal [simp]: "digits_solid U \<Longrightarrow> trim U (decimal n) = decimal n"
proof -
  assume U: "digits_solid U"
  let ?cs = "map (\<lambda>c. [c]) (decimal n)"
  have "list_all ascii_digit (decimal n)" by (simp add: list_all_iff decimal_digits)
  then have cs: "utf8_chars (decimal n) = ?cs" by (rule utf8_chars_digits)
  have "dropWhile (whitespace U) xs = xs" if "set xs \<subseteq> set ?cs" for xs
    using that U decimal_digits [of _ n] by (cases xs) (auto simp: digits_solid_def)
  then have "dropWhile (whitespace U) (rev (dropWhile (whitespace U) ?cs)) = rev ?cs" by simp
  then show ?thesis by (simp add: trim_def cs rev_map concat_singletons)
qed

lemma valid_utf8_decimal [simp]: "valid_utf8 (decimal n)"
proof (rule valid_utf8_ascii)
  fix c assume "c \<in> set (decimal n)"
  then have "ascii_digit c" by (rule decimal_digits)
  then show "byte c < 128" by (simp add: ascii_digit_def)
qed

lemma read_checkpoint_written:
  assumes "digits_solid U"
  shows "read_checkpoint U k (snd (write_checkpoint Complete k n d)) = n"
proof -
  have "unat n < 2 ^ 64" using unsigned_less [where ?'a = nat, of n] by simp
  then show ?thesis using assms by (simp add: read_checkpoint_def write_checkpoint_def Let_def)
qed


text \<open>
  A torn entry takes the next one with it. When the disk fills up or the process dies in the
  middle of an append, the next append continues on the torn line: it reports success and the session
  counts it, but the joined line does not parse, so what is read back is the log without it; and if
  the tear is inside a character, the joined line is not UTF-8 and the log of the session cannot be
  read at all.
\<close>

theorem torn_entry_takes_the_next:
  assumes "entry_codec_ok U C" and "list_all (encodes C) es" and "encodes C e1" and "encodes C e2"
    and "file_of (wal_files d (wal_name k)) = entry_log C es"
    and "torn = take n (entry_line C e1)" and "0 < n" and "n \<le> length (entry_line C e1)"
    and "decode_entry C (torn @ entry_line C e2) = None"
  shows "fst (append_with_lane C policy (TornAfter n) k e1 d) = False \<and>
    fst (append_with_lane C policy' Complete k e2 (snd (append_with_lane C policy (TornAfter n) k e1 d))) = True \<and>
    wal_read U C True k (snd (append_with_lane C policy' Complete k e2 (snd (append_with_lane C policy (TornAfter n) k e1 d)))) =
      (if valid_utf8 (torn @ entry_line C e2) then Some es else None)"
proof -
  let ?l = "entry_line C e2" and ?d1 = "snd (append_with_lane C policy (TornAfter n) k e1 d)"
  let ?d2 = "snd (append_with_lane C policy' Complete k e2 ?d1)"
  have l2: "line_ok U ?l" using encodes_line(1) assms(1,4) by blast
  have l1: "line_ok U (entry_line C e1)" using encodes_line(1) assms(1,3) by blast
  obtain l where e1: "encode_entry C e1 = Some l" "entry_line C e1 = l"
    using assms(3) by (auto simp: encodes_def entry_line_def)
  have d1: "append_with_lane C policy (TornAfter n) k e1 d =
      (False, d\<lparr>wal_files := (wal_files d)(wal_name k \<mapsto> entry_log C es @ torn)\<rparr>)"
    using assms(5-8) by (simp add: append_with_lane_def e1)
  then have d2: "append_with_lane C policy' Complete k e2 ?d1 =
      (True, d\<lparr>wal_files := (wal_files d)(wal_name k \<mapsto> entry_log C es @ (torn @ ?l) @ [newline])\<rparr>)"
    by (simp add: append_complete [OF assms(4)] file_of_def)
  have t: "newline \<notin> set (torn @ ?l)" "last (torn @ ?l) \<noteq> CHR 0x0D"
  proof -
    have "?l \<noteq> []" using l2 by (auto simp: line_ok_def)
    moreover have "set torn \<subseteq> set (entry_line C e1)" using assms(6) by (simp add: set_take_subset)
    ultimately show "newline \<notin> set (torn @ ?l)" "last (torn @ ?l) \<noteq> CHR 0x0D" using l1 l2 by (auto simp: line_ok_def)
  qed
  have "str_lines (entry_log C es @ (torn @ ?l) @ [newline]) = map (entry_line C) es @ [torn @ ?l]"
    using str_lines_line [OF t, of "[]"] read_log(1) [OF assms(1,2), of "(torn @ ?l) @ [newline]"] by simp
  moreover have "wal_entries U C (map (entry_line C) es @ [torn @ ?l]) = es"
    using read_log(2) [OF assms(1,2), of "[torn @ ?l]"] assms(9) by (simp add: wal_entries_Cons)
  ultimately have "wal_read U C True k ?d2 = (if valid_utf8 (torn @ ?l) then Some es else None)"
    using read_log(3) [OF assms(1,2)] by (simp add: d2 wal_read_def del: append_assoc)
  with d1 d2 show ?thesis by simp
qed

subsection \<open>A concrete log\<close>

definition demo_wal_unicode :: unicode where
  "demo_wal_unicode = \<lparr>lowercase = (\<lambda>s. s), alphanumeric = (\<lambda>_. True), whitespace = (\<lambda>c. c = '' '')\<rparr>"

definition demo_entry :: "wal_lane \<Rightarrow> unit wal_entry" where
  "demo_entry lane = \<lparr>entry_ts = 0, entry_seq = 7, entry_role = User, entry_content = TextContent ''hi'', entry_channel = None,
     entry_sender = None, entry_lane = lane\<rparr>"

definition demo_entry_codec :: "unit entry_codec" where
  "demo_entry_codec = \<lparr>encode_entry = (\<lambda>e. if e = demo_entry TrunkLane then Some ''tt''
       else if e = demo_entry QuarantineLane then Some ''qq'' else None),
     decode_entry = (\<lambda>l. if l = ''tt'' then Some (demo_entry TrunkLane)
       else if l = ''qq'' then Some (demo_entry QuarantineLane) else None)\<rparr>"

lemma demo_lanes: "demo_entry TrunkLane \<noteq> demo_entry QuarantineLane"
  by (simp add: demo_entry_def)

lemma demo_entry_codec_ok: "entry_codec_ok demo_wal_unicode demo_entry_codec"
  using demo_lanes
  by (auto simp: entry_codec_ok_def demo_entry_codec_def line_ok_def newline_def blank_def demo_wal_unicode_def
      continuation_def byte_def in_range_def split: if_split_asm)

lemma demo_encodes: "encodes demo_entry_codec (demo_entry lane)"
  by (cases lane) (simp_all add: encodes_def demo_entry_codec_def)


theorem torn_entry_takes_the_next_witness:
  "\<exists>d. fst (append_with_lane demo_entry_codec FsyncAll Complete ''owner'' (demo_entry QuarantineLane) d) \<and>
     wal_read demo_wal_unicode demo_entry_codec True ''owner''
       (snd (append_with_lane demo_entry_codec FsyncAll Complete ''owner'' (demo_entry QuarantineLane) d)) = Some []"
proof -
  let ?C = demo_entry_codec and ?d = "\<lparr>wal_files = Map.empty, wal_marks = Map.empty\<rparr> :: conv_wal"
  let ?d1 = "snd (append_with_lane ?C FsyncAll (TornAfter 1) ''owner'' (demo_entry TrunkLane) ?d)"
  have l: "entry_line ?C (demo_entry TrunkLane) = ''tt''" "entry_line ?C (demo_entry QuarantineLane) = ''qq''"
    using demo_lanes by (simp_all add: entry_line_def demo_entry_codec_def)
  have "valid_utf8 ''tqq''" by (rule valid_utf8_ascii) (auto simp: byte_def)
  moreover have "decode_entry ?C ''tqq'' = None" by (simp add: demo_entry_codec_def)
  ultimately have "fst (append_with_lane ?C FsyncAll Complete ''owner'' (demo_entry QuarantineLane) ?d1)"
      "wal_read demo_wal_unicode ?C True ''owner''
        (snd (append_with_lane ?C FsyncAll Complete ''owner'' (demo_entry QuarantineLane) ?d1)) = Some []"
    using torn_entry_takes_the_next [OF demo_entry_codec_ok, of "[]" "demo_entry TrunkLane" "demo_entry QuarantineLane"
        ?d "''owner''" "''t''" 1 FsyncAll FsyncAll]
    by (simp_all add: demo_encodes l file_of_def)
  then show ?thesis by blast
qed

end
