(* ===== verification/Admission.thy ===== *)
theory Admission
  imports Prelude "HOL-Library.AList"
begin

text \<open>
  Who a turn runs as: \<open>src/server/auth.rs\<close> (the credential of a request), \<open>src/session_key.rs\<close>
  and the sender rules of \<open>src/session_store.rs\<close> (the session it lands in), the guards of
  \<open>src/server/handlers/chat.rs\<close> and \<open>src/server/turns.rs\<close>, the guests' budget
  (\<open>src/server/guest_budget.rs\<close>), and \<open>src/server/admission.rs\<close>, which joins them.

  The clock, the day and Unicode's tables are arguments. The tokens of a sender's bucket are
  \<open>f64\<close>: their arithmetic is a parameter (\<open>float_ops\<close>), so the theorems hold for whatever rounding
  it has.
\<close>

unbundle bit_operations_syntax

subsection \<open>Credentials\<close>

datatype status = Unauthorized | Forbidden | BadRequest | PayloadTooLarge | TooManyRequests

datatype auth_identity = Owner | Peer bytes | Plugin bytes bytes | Voice

definition require_owner :: "auth_identity \<Rightarrow> status + unit" where
  "require_owner who = (case who of Owner \<Rightarrow> Inr () | Peer _ \<Rightarrow> Inl Forbidden | Plugin _ _ \<Rightarrow> Inl Forbidden | Voice \<Rightarrow> Inl Forbidden)"

definition ct_eq :: "bytes \<Rightarrow> bytes \<Rightarrow> bool" where
  "ct_eq a b \<longleftrightarrow>
     (if length a \<noteq> length b then False
      else foldl (\<lambda>acc (x, y). acc OR ((of_nat (byte x) :: 8 word) XOR of_nat (byte y))) 0 (zip a b) = 0)"

record security_config =
  secret :: "bytes option"
  voice_secret :: "bytes option"

definition voice_credential :: "unicode \<Rightarrow> security_config \<Rightarrow> bytes option" where
  "voice_credential U cfg =
     (case voice_secret cfg of
        None \<Rightarrow> None
      | Some voice \<Rightarrow>
          if blank U voice then None
          else if (case secret cfg of None \<Rightarrow> False | Some own \<Rightarrow> \<not> blank U own \<and> own = voice) then None
          else Some voice)"

definition presents :: "bytes option \<Rightarrow> bytes \<Rightarrow> bool" where
  "presents presented s \<longleftrightarrow> (case presented of None \<Rightarrow> False | Some value \<Rightarrow> ct_eq value s)"

definition identity_for_global_secret ::
  "unicode \<Rightarrow> security_config \<Rightarrow> bytes option \<Rightarrow> status + auth_identity" where
  "identity_for_global_secret U cfg presented =
     (if (case voice_credential U cfg of None \<Rightarrow> False | Some voice \<Rightarrow> presents presented voice) then Inr Voice
      else (case secret cfg of
          None \<Rightarrow> Inr Owner
        | Some s \<Rightarrow>
            if blank U s then Inr Owner
            else if presents presented s then Inr Owner else Inl Unauthorized))"

record peer_config =
  peer_host :: bytes
  peer_port :: "16 word"
  peer_secret :: "bytes option"

text \<open>
  \<open>require_auth\<close>: the path and the two headers, as the strings they are when they are valid. \<open>None\<close>
  is the health endpoint, which runs without an identity.
\<close>

definition require_auth ::
  "unicode \<Rightarrow> security_config \<Rightarrow> (bytes \<rightharpoonup> peer_config) \<Rightarrow> bytes \<Rightarrow> bytes option \<Rightarrow> bytes option \<Rightarrow>
     status + auth_identity option" where
  "require_auth U cfg peers path peer_name presented =
     (if path = ''/health'' then Inr None
      else (let global = (case identity_for_global_secret U cfg presented of Inl e \<Rightarrow> Inl e | Inr who \<Rightarrow> Inr (Some who))
        in case peer_name of
             None \<Rightarrow> global
           | Some name \<Rightarrow>
               (case peers name of
                  None \<Rightarrow> global
                | Some pc \<Rightarrow>
                    (case peer_secret pc of
                       None \<Rightarrow> global
                     | Some s \<Rightarrow> if presents presented s then Inr (Some (Peer name)) else Inl Unauthorized))))"

subsection \<open>Session keys\<close>

datatype principal = POwner | PPeer bytes | PGuest bytes

type_synonym session_key = bytes

definition OWNER_KEY :: session_key where
  "OWNER_KEY = ''owner''"

definition peer_key :: "bytes \<Rightarrow> session_key" where
  "peer_key name = ''peer:'' @ name"

definition guest_key :: "bytes \<Rightarrow> session_key" where
  "guest_key sender = ''guest:'' @ sender"

definition principal_of :: "session_key \<Rightarrow> principal" where
  "principal_of k =
     (if k = OWNER_KEY then POwner
      else (case strip_prefix ''peer:'' k of
          Some name \<Rightarrow> PPeer name
        | None \<Rightarrow> PGuest (case strip_prefix ''guest:'' k of Some s \<Rightarrow> s | None \<Rightarrow> k)))"

definition is_owner :: "session_key \<Rightarrow> bool" where
  "is_owner k \<longleftrightarrow> principal_of k = POwner"

definition is_peer :: "session_key \<Rightarrow> bool" where
  "is_peer k \<longleftrightarrow> (case principal_of k of PPeer _ \<Rightarrow> True | _ \<Rightarrow> False)"

definition is_guest :: "session_key \<Rightarrow> bool" where
  "is_guest k \<longleftrightarrow> (case principal_of k of PGuest _ \<Rightarrow> True | _ \<Rightarrow> False)"

record owner_config =
  owner_name :: "bytes option"
  discord_id :: "bytes option"
  phone :: "bytes option"

definition is_owner_channel :: "bytes \<Rightarrow> bool" where
  "is_owner_channel channel \<longleftrightarrow> channel \<in> {''tui'', ''system'', ''reflection''}"

definition is_owner_identity :: "bytes \<Rightarrow> owner_config \<Rightarrow> bool" where
  "is_owner_identity sender own \<longleftrightarrow>
     discord_id own = Some sender \<or> phone own = Some sender \<or>
     (case owner_name own of None \<Rightarrow> False | Some name \<Rightarrow> eq_ignore_case sender name)"

definition resolve_sender ::
  "bytes \<Rightarrow> bytes option \<Rightarrow> owner_config \<Rightarrow> (bytes \<rightharpoonup> peer_config) \<Rightarrow> session_key" where
  "resolve_sender channel sender own peers =
     (if is_owner_channel channel then OWNER_KEY
      else (case sender of
          None \<Rightarrow> guest_key ''anonymous''
        | Some s \<Rightarrow>
            if is_owner_identity s own then OWNER_KEY
            else if channel = ''comms'' \<and> peers s \<noteq> None then peer_key s
            else guest_key s))"

subsection \<open>The guards of a request\<close>

record chat_request =
  message :: bytes
  channel :: bytes
  sender :: "bytes option"

definition MAX_MESSAGE_LEN :: nat where
  "MAX_MESSAGE_LEN = 100000"

definition MAX_CHANNEL_LEN :: nat where
  "MAX_CHANNEL_LEN = 64"

definition MAX_SENDER_LEN :: nat where
  "MAX_SENDER_LEN = 64"

definition ascii_control :: "char \<Rightarrow> bool" where
  "ascii_control c \<longleftrightarrow> byte c < 32 \<or> byte c = 127"

definition validate_request :: "chat_request \<Rightarrow> status + unit" where
  "validate_request req =
     (if MAX_MESSAGE_LEN < length (message req) then Inl PayloadTooLarge
      else if MAX_CHANNEL_LEN < length (channel req) then Inl BadRequest
      else if sublist ''..'' (channel req) \<or> CHR ''/'' \<in> set (channel req) then Inl BadRequest
      else (case sender req of
          None \<Rightarrow> Inr ()
        | Some s \<Rightarrow>
            if MAX_SENDER_LEN < length s then Inl BadRequest
            else if list_ex ascii_control s then Inl BadRequest else Inr ()))"

definition VOICE_CHANNEL :: bytes where
  "VOICE_CHANNEL = ''voice''"

definition RESERVED_CHANNELS :: "bytes list" where
  "RESERVED_CHANNELS = [''tui'', ''system'', ''reflection'', ''comms'', ''chat'', ''tui-chat'']"

definition is_reserved_channel :: "bytes \<Rightarrow> bool" where
  "is_reserved_channel ch \<longleftrightarrow> list_ex (\<lambda>r. eq_ignore_case r ch) RESERVED_CHANNELS"

definition refuse_voice_off_channel :: "auth_identity \<Rightarrow> bytes \<Rightarrow> status + unit" where
  "refuse_voice_off_channel who ch =
     (if who = Voice \<and> \<not> eq_ignore_case ch VOICE_CHANNEL then Inl Forbidden else Inr ())"

definition refuse_voice_without_sender :: "unicode \<Rightarrow> auth_identity \<Rightarrow> bytes option \<Rightarrow> status + unit" where
  "refuse_voice_without_sender U who sdr =
     (if who = Voice \<and> blank U (case sdr of None \<Rightarrow> [] | Some s \<Rightarrow> s) then Inl BadRequest else Inr ())"

definition refuse_peer_on_owner_channel :: "auth_identity \<Rightarrow> bytes \<Rightarrow> status + unit" where
  "refuse_peer_on_owner_channel who ch =
     (case who of Peer _ \<Rightarrow> if is_owner_channel ch then Inl Forbidden else Inr () | _ \<Rightarrow> Inr ())"

definition uses_voice_pool :: "auth_identity \<Rightarrow> bool" where
  "uses_voice_pool who =
     (case who of Voice \<Rightarrow> True | Plugin _ ch \<Rightarrow> eq_ignore_case ch VOICE_CHANNEL | Owner \<Rightarrow> False | Peer _ \<Rightarrow> False)"

record pulse_config =
  owner :: owner_config
  peers :: "bytes \<rightharpoonup> peer_config"

definition resolve_plugin_key :: "bytes \<Rightarrow> chat_request \<Rightarrow> pulse_config \<Rightarrow> status + session_key" where
  "resolve_plugin_key bound req cfg =
     (if channel req \<noteq> bound \<or> is_reserved_channel (channel req) then Inl Forbidden
      else if eq_ignore_case (channel req) VOICE_CHANNEL
        then Inr (guest_key (case sender req of None \<Rightarrow> ''anonymous'' | Some s \<Rightarrow> s))
      else Inr (resolve_sender (channel req) (sender req) (owner cfg) (peers cfg)))"

text \<open>\<open>TurnRunner::for_plugin\<close>: the channel a plugin may be bound to.\<close>

datatype bind_error = InvalidChannel bytes bytes | ReservedChannel bytes bytes

definition for_plugin :: "bytes \<Rightarrow> bytes \<Rightarrow> bind_error + auth_identity" where
  "for_plugin name ch =
     (if ch = [] \<or> MAX_CHANNEL_LEN < length ch \<or> sublist ''..'' ch \<or> CHR ''/'' \<in> set ch
        then Inl (InvalidChannel name ch)
      else if is_reserved_channel ch then Inl (ReservedChannel name ch)
      else Inr (Plugin name ch))"

subsection \<open>What guests may cost\<close>

definition MAX_TRACKED :: nat where
  "MAX_TRACKED = 1024"

datatype guest_kind = Call | Sender

datatype guest_refusal = DailyBudgetSpent | CallTurnsSpent | SenderRateLimited

text \<open>
  \<open>f64\<close> in the sender's bucket: \<open>f64::from(u32)\<close>, \<open>(tokens + elapsed * per_minute / 60).min(burst)\<close>
  with the elapsed nanoseconds, \<open>tokens < 1.0\<close>, and \<open>tokens - 1.0\<close>.
\<close>

record 'f float_ops =
  f_of_u32 :: "u32 \<Rightarrow> 'f"
  f_refill :: "'f \<Rightarrow> nat \<Rightarrow> 'f \<Rightarrow> 'f \<Rightarrow> 'f"
  f_below_one :: "'f \<Rightarrow> bool"
  f_less_one :: "'f \<Rightarrow> 'f"

record 'f plugin_turns =
  daily_turns :: u32
  voice_turns_per_call :: u32
  guest_burst :: u32
  guest_per_minute :: 'f

record call_use =
  call_turns :: u32
  call_seen :: nat

record 'f sender_bucket =
  tokens :: 'f
  bucket_seen :: nat

text \<open>The hash maps are lists of their entries; days are numbers, instants are nanoseconds.\<close>

record 'f guest_ledger =
  day :: "int option"
  turns_today :: u32
  calls :: "(bytes \<times> call_use) list"
  senders :: "(bytes \<times> 'f sender_bucket) list"

definition ledger_new :: "'f guest_ledger" where
  "ledger_new = \<lparr>day = None, turns_today = 0, calls = [], senders = []\<rparr>"

text \<open>\<open>forget_oldest\<close>; \<open>tie\<close> picks among equally old entries, as the order of the hash map does.\<close>

definition forget_oldest :: "(bytes list \<Rightarrow> bytes) \<Rightarrow> ('v \<Rightarrow> nat) \<Rightarrow> (bytes \<times> 'v) list \<Rightarrow> (bytes \<times> 'v) list" where
  "forget_oldest tie seen m =
     (if length m < MAX_TRACKED then m
      else (let oldest = Min (set (map (\<lambda>kv. seen (snd kv)) m))
            in AList.delete (tie (map fst (filter (\<lambda>kv. seen (snd kv) = oldest) m))) m))"

definition take_call_turn ::
  "(bytes list \<Rightarrow> bytes) \<Rightarrow> bytes \<Rightarrow> u32 \<Rightarrow> nat \<Rightarrow> 'f guest_ledger \<Rightarrow> (guest_refusal + unit) \<times> 'f guest_ledger" where
  "take_call_turn tie who cap now g =
     (let cs = (if map_of (calls g) who = None then forget_oldest tie call_seen (calls g) else calls g);
          call = (case map_of cs who of None \<Rightarrow> \<lparr>call_turns = 0, call_seen = now\<rparr> | Some c \<Rightarrow> c\<lparr>call_seen := now\<rparr>)
      in if 0 < cap \<and> cap \<le> call_turns call
         then (Inl CallTurnsSpent, g\<lparr>calls := AList.update who call cs\<rparr>)
         else (Inr (), g\<lparr>calls := AList.update who (call\<lparr>call_turns := call_turns call + 1\<rparr>) cs\<rparr>))"

definition take_sender_token ::
  "'f float_ops \<Rightarrow> (bytes list \<Rightarrow> bytes) \<Rightarrow> bytes \<Rightarrow> 'f plugin_turns \<Rightarrow> nat \<Rightarrow> 'f guest_ledger \<Rightarrow>
     (guest_refusal + unit) \<times> 'f guest_ledger" where
  "take_sender_token F tie who limits now g =
     (if guest_burst limits = 0 then (Inr (), g)
      else (let burst = f_of_u32 F (guest_burst limits);
                ss = (if map_of (senders g) who = None then forget_oldest tie bucket_seen (senders g) else senders g);
                b = (case map_of ss who of None \<Rightarrow> \<lparr>tokens = burst, bucket_seen = now\<rparr> | Some b \<Rightarrow> b);
                b1 = b\<lparr>tokens := f_refill F (tokens b) (now - bucket_seen b) (guest_per_minute limits) burst,
                       bucket_seen := now\<rparr>
            in if f_below_one F (tokens b1)
               then (Inl SenderRateLimited, g\<lparr>senders := AList.update who b1 ss\<rparr>)
               else (Inr (), g\<lparr>senders := AList.update who (b1\<lparr>tokens := f_less_one F (tokens b1)\<rparr>) ss\<rparr>)))"

definition ledger_admit ::
  "'f float_ops \<Rightarrow> (bytes list \<Rightarrow> bytes) \<Rightarrow> bytes \<Rightarrow> guest_kind \<Rightarrow> 'f plugin_turns \<Rightarrow> nat \<Rightarrow> int \<Rightarrow> 'f guest_ledger \<Rightarrow>
     (guest_refusal + unit) \<times> 'f guest_ledger" where
  "ledger_admit F tie who kind limits now today g0 =
     (let g = (if day g0 \<noteq> Some today then g0\<lparr>day := Some today, turns_today := 0\<rparr> else g0)
      in if 0 < daily_turns limits \<and> daily_turns limits \<le> turns_today g then (Inl DailyBudgetSpent, g)
         else (case (case kind of
                  Call \<Rightarrow> take_call_turn tie who (voice_turns_per_call limits) now g
                | Sender \<Rightarrow> take_sender_token F tie who limits now g) of
              (Inl e, g') \<Rightarrow> (Inl e, g')
            | (Inr _, g') \<Rightarrow> (Inr (), g'\<lparr>turns_today := turns_today g' + 1\<rparr>)))"

subsection \<open>Admission\<close>

record admitted =
  adm_key :: session_key
  adm_call :: bool
  adm_request :: chat_request
  adm_identity :: auth_identity

datatype admit_error = Http status | Guest guest_refusal

definition into_http :: "admit_error \<Rightarrow> status" where
  "into_http e = (case e of Http s \<Rightarrow> s | Guest _ \<Rightarrow> TooManyRequests)"

text \<open>The ledgers: one for each plugin that has been asked for, and the HTTP voice ledger.\<close>

record 'f ledgers =
  plugin_ledgers :: "bytes \<rightharpoonup> 'f guest_ledger"
  http_voice :: "'f guest_ledger"

definition guest_ledger_of :: "bytes \<Rightarrow> 'f ledgers \<Rightarrow> 'f guest_ledger" where
  "guest_ledger_of name ls = (case plugin_ledgers ls name of None \<Rightarrow> ledger_new | Some g \<Rightarrow> g)"

definition resolve_key :: "pulse_config \<Rightarrow> auth_identity \<Rightarrow> chat_request \<Rightarrow> admit_error + session_key" where
  "resolve_key cfg who req =
     (case who of
        Owner \<Rightarrow> Inr (if eq_ignore_case (channel req) VOICE_CHANNEL then OWNER_KEY
                   else resolve_sender (channel req) (sender req) (owner cfg) (peers cfg))
      | Peer name \<Rightarrow> Inr (peer_key name)
      | Plugin name ch \<Rightarrow> map_err Http (resolve_plugin_key ch req cfg)
      | Voice \<Rightarrow> Inr (guest_key (case sender req of None \<Rightarrow> [] | Some s \<Rightarrow> s)))"

definition is_call :: "auth_identity \<Rightarrow> bool" where
  "is_call who =
     (case who of Voice \<Rightarrow> True | Plugin _ ch \<Rightarrow> eq_ignore_case ch VOICE_CHANNEL | Owner \<Rightarrow> False | Peer _ \<Rightarrow> False)"

text \<open>What the environment contributes to an admission: the clock and the day, and the hash order.\<close>

record 'f admit_env =
  float_of :: "'f float_ops"
  limits_of :: "'f plugin_turns"
  tie_of :: "bytes list \<Rightarrow> bytes"
  instant :: nat
  today_of :: int

definition count_guest ::
  "'f admit_env \<Rightarrow> auth_identity \<Rightarrow> session_key \<Rightarrow> bool \<Rightarrow> 'f ledgers \<Rightarrow> (admit_error + unit) \<times> 'f ledgers" where
  "count_guest E who key call ls =
     (let kind = (if call then Call else Sender);
          admit = ledger_admit (float_of E) (tie_of E) key kind (limits_of E) (instant E) (today_of E)
      in case who of
           Owner \<Rightarrow> (Inr (), ls)
         | Peer _ \<Rightarrow> (Inr (), ls)
         | Plugin name _ \<Rightarrow>
             if \<not> is_guest key then (Inr (), ls)
             else (case admit (guest_ledger_of name ls) of
                 (r, g) \<Rightarrow> (map_err Guest r, ls\<lparr>plugin_ledgers := (plugin_ledgers ls)(name \<mapsto> g)\<rparr>))
         | Voice \<Rightarrow>
             if \<not> is_guest key then (Inr (), ls)
             else (case admit (http_voice ls) of (r, g) \<Rightarrow> (map_err Guest r, ls\<lparr>http_voice := g\<rparr>)))"

definition admit_turn ::
  "unicode \<Rightarrow> pulse_config \<Rightarrow> 'f admit_env \<Rightarrow> auth_identity \<Rightarrow> chat_request \<Rightarrow> 'f ledgers \<Rightarrow>
     (admit_error + admitted) \<times> 'f ledgers" where
  "admit_turn U cfg E who req ls =
     qmark (map_err Http (validate_request req)) ls (\<lambda>_.
     qmark (map_err Http (refuse_peer_on_owner_channel who (channel req))) ls (\<lambda>_.
     qmark (map_err Http (refuse_voice_off_channel who (channel req))) ls (\<lambda>_.
     qmark (map_err Http (refuse_voice_without_sender U who (sender req))) ls (\<lambda>_.
     qmark (resolve_key cfg who req) ls (\<lambda>key.
     let call = is_call who
     in case count_guest E who key call ls of
          (Inl e, ls') \<Rightarrow> (Inl e, ls')
        | (Inr _, ls') \<Rightarrow>
            (Inr \<lparr>adm_key = key, adm_call = call, adm_request = req, adm_identity = who\<rparr>, ls'))))))"

subsection \<open>Comparing secrets\<close>

lemma or_eq_0: "(a :: 8 word) OR b = 0 \<longleftrightarrow> a = 0 \<and> b = 0"
  by (auto simp: or_eq_0_iff)

lemma xor_eq_0: "(a :: 8 word) XOR b = 0 \<longleftrightarrow> a = b"
proof
  assume "a XOR b = 0"
  then have "(a XOR b) XOR b = b" by simp
  then show "a = b" by (simp add: xor.assoc)
qed simp

lemma ct_fold_zero:
  "foldl (\<lambda>acc (x, y). acc OR ((of_nat (byte x) :: 8 word) XOR of_nat (byte y))) z ps = 0 \<longleftrightarrow>
     z = 0 \<and> (\<forall>(x, y) \<in> set ps. x = y)"
proof (induction ps arbitrary: z)
  case (Cons p ps)
  obtain x y where p: "p = (x, y)" by force
  have "unat (of_nat (byte c) :: 8 word) = byte c" for c
    by (simp add: byte_def unat_of_nat)
  then have "(of_nat (byte x) :: 8 word) = of_nat (byte y) \<longleftrightarrow> x = y"
    by (metis byte_def of_char_eq_iff)
  with Cons.IH show ?case by (auto simp: p or_eq_0 xor_eq_0)
qed simp

lemma ct_eq_iff: "ct_eq a b \<longleftrightarrow> a = b"
proof -
  have "length a = length b \<Longrightarrow> (\<forall>(x, y) \<in> set (zip a b). x = y) \<longleftrightarrow> a = b"
    by (auto simp: list_eq_iff_nth_eq set_zip)
  then show ?thesis by (simp add: ct_eq_def ct_fold_zero) blast
qed

lemma presents_iff: "presents presented s \<longleftrightarrow> presented = Some s"
  by (auto simp: presents_def ct_eq_iff split: option.splits)

subsection \<open>Keys and their principals\<close>

lemma principal_owner [simp]: "principal_of OWNER_KEY = POwner"
  by (simp add: principal_of_def)

lemma principal_peer [simp]: "principal_of (peer_key n) = PPeer n"
  using strip_prefix_append [of "''peer:''" n] by (simp add: principal_of_def peer_key_def OWNER_KEY_def)

lemma principal_guest [simp]: "principal_of (guest_key s) = PGuest s"
proof -
  have "strip_prefix ''peer:'' (guest_key s) = None" by (simp add: strip_prefix_def guest_key_def)
  then show ?thesis
    using strip_prefix_append [of "''guest:''" s] by (simp add: principal_of_def guest_key_def OWNER_KEY_def)
qed

lemmas key_kinds = is_owner_def is_peer_def is_guest_def

lemma principal_POwner: "principal_of k = POwner \<longleftrightarrow> k = OWNER_KEY"
  by (auto simp: principal_of_def split: option.splits)

lemma principal_PPeer: "principal_of k = PPeer n \<longleftrightarrow> k = peer_key n"
proof
  assume "principal_of k = PPeer n"
  then show "k = peer_key n"
    by (auto simp: principal_of_def peer_key_def split: if_splits option.splits dest: strip_prefix_SomeD)
qed simp

lemma resolve_sender_owner:
  "resolve_sender ch sdr own ps = OWNER_KEY \<longleftrightarrow>
     is_owner_channel ch \<or> (\<exists>s. sdr = Some s \<and> is_owner_identity s own)"
proof -
  have "guest_key s \<noteq> OWNER_KEY" "peer_key s \<noteq> OWNER_KEY" for s
    by (simp_all add: guest_key_def peer_key_def OWNER_KEY_def)
  then show ?thesis by (cases sdr) (simp_all add: resolve_sender_def)
qed

subsection \<open>Admission, step by step\<close>

lemma owner_channels_reserved: "is_owner_channel ch \<Longrightarrow> is_reserved_channel ch"
  by (auto simp: is_owner_channel_def is_reserved_channel_def RESERVED_CHANNELS_def)

lemma admit_turn_Inr:
  assumes "admit_turn U cfg E who req ls = (Inr adm, ls')"
  shows "validate_request req = Inr ()" and "refuse_peer_on_owner_channel who (channel req) = Inr ()"
    and "refuse_voice_off_channel who (channel req) = Inr ()"
    and "refuse_voice_without_sender U who (sender req) = Inr ()"
    and "resolve_key cfg who req = Inr (adm_key adm)"
    and "count_guest E who (adm_key adm) (is_call who) ls = (Inr (), ls')"
    and "adm_call adm = is_call who" and "adm_request adm = req" and "adm_identity adm = who"
proof -
  from assms obtain key where k: "validate_request req = Inr ()" "refuse_peer_on_owner_channel who (channel req) = Inr ()"
    "refuse_voice_off_channel who (channel req) = Inr ()" "refuse_voice_without_sender U who (sender req) = Inr ()"
    "resolve_key cfg who req = Inr key"
    and c: "(case count_guest E who key (is_call who) ls of (Inl e, ls') \<Rightarrow> (Inl e, ls')
      | (Inr _, ls') \<Rightarrow> (Inr \<lparr>adm_key = key, adm_call = is_call who, adm_request = req, adm_identity = who\<rparr>, ls')) = (Inr adm, ls')"
    by (auto simp: admit_turn_def qmark_Inr_iff Let_def)
  from c have "count_guest E who key (is_call who) ls = (Inr (), ls')"
    "adm = \<lparr>adm_key = key, adm_call = is_call who, adm_request = req, adm_identity = who\<rparr>"
    by (auto split: prod.splits sum.splits)
  with k show "validate_request req = Inr ()" "refuse_peer_on_owner_channel who (channel req) = Inr ()"
    "refuse_voice_off_channel who (channel req) = Inr ()" "refuse_voice_without_sender U who (sender req) = Inr ()"
    "resolve_key cfg who req = Inr (adm_key adm)" "count_guest E who (adm_key adm) (is_call who) ls = (Inr (), ls')"
    "adm_call adm = is_call who" "adm_request adm = req" "adm_identity adm = who" by simp_all
qed

subsection \<open>The day's count\<close>

lemma take_turn_day:
  "take_call_turn tie who cap now g = (r, g') \<Longrightarrow> day g' = day g \<and> turns_today g' = turns_today g"
  "take_sender_token F tie who limits now g = (r, g') \<Longrightarrow> day g' = day g \<and> turns_today g' = turns_today g"
  by (auto simp: take_call_turn_def take_sender_token_def Let_def split: if_splits)

text \<open>The turns the ledger has counted on a day.\<close>

definition counted :: "'f guest_ledger \<Rightarrow> int \<Rightarrow> nat" where
  "counted g d = (if day g = Some d then unat (turns_today g) else 0)"

lemma admit_counts:
  assumes "ledger_admit F tie who kind limits now today g = (r, g')" and "0 < daily_turns limits"
  shows "day g' = Some today" "is_ok r \<Longrightarrow> counted g' today = Suc (counted g today)"
    "\<not> is_ok r \<Longrightarrow> counted g' today = counted g today"
    "counted g today \<le> unat (daily_turns limits) \<Longrightarrow> counted g' today \<le> unat (daily_turns limits)"
proof -
  define g1 where "g1 = (if day g \<noteq> Some today then g\<lparr>day := Some today, turns_today := 0\<rparr> else g)"
  have g: "day g1 = Some today" "unat (turns_today g1) = counted g today" by (auto simp: counted_def g1_def)
  have "day g' = Some today \<and> (is_ok r \<longrightarrow> counted g' today = Suc (counted g today)) \<and>
    (\<not> is_ok r \<longrightarrow> counted g' today = counted g today) \<and>
    (counted g today \<le> unat (daily_turns limits) \<longrightarrow> counted g' today \<le> unat (daily_turns limits))"
  proof (cases "daily_turns limits \<le> turns_today g1")
    case True
    with assms have "r = Inl DailyBudgetSpent" "g' = g1"
      by (simp_all add: ledger_admit_def Let_def g1_def [symmetric])
    with g show ?thesis by (simp add: counted_def)
  next
    case False
    obtain y h where t: "(case kind of Call \<Rightarrow> take_call_turn tie who (voice_turns_per_call limits) now g1
        | Sender \<Rightarrow> take_sender_token F tie who limits now g1) = (y, h)" by force
    have "day h = day g1 \<and> turns_today h = turns_today g1"
    proof (cases kind)
      case Call
      with t show ?thesis by (intro take_turn_day(1) [of tie who "voice_turns_per_call limits" now g1 y]) simp
    next
      case Sender
      with t show ?thesis by (intro take_turn_day(2) [of F tie who limits now g1 y]) simp
    qed
    with g(1) have h: "day h = Some today" "turns_today h = turns_today g1" by simp_all
    from False t assms have r: "(r, g') = (case (y, h) of (Inl e, g') \<Rightarrow> (Inl e, g')
      | (Inr _, g') \<Rightarrow> (Inr (), g'\<lparr>turns_today := turns_today g' + 1\<rparr>))"
      by (simp add: ledger_admit_def Let_def g1_def [symmetric])
    from False have lt: "turns_today g1 < daily_turns limits" by simp
    then have "unat (turns_today g1 + 1) = Suc (unat (turns_today g1))" by (rule unat_Suc_less)
    moreover have "unat (turns_today g1) < unat (daily_turns limits)" using lt by (simp add: word_less_nat_alt)
    ultimately have u: "unat (turns_today h + 1) = Suc (counted g today)" "counted g today < unat (daily_turns limits)"
      "unat (turns_today h) = counted g today" by (simp_all only: h(2) g(2))
    show ?thesis
    proof (cases y)
      case (Inl e)
      then have "r = Inl e" "g' = h" using r by simp_all
      moreover from this h(1) u(3) have "counted g' today = counted g today"
        by (simp add: counted_def [of h])
      ultimately show ?thesis using h(1) by simp
    next
      case (Inr x)
      then have "r = Inr ()" and g': "g' = h\<lparr>turns_today := turns_today h + 1\<rparr>" using r by simp_all
      moreover have "counted g' today = Suc (counted g today)"
        unfolding g' counted_def [of "h\<lparr>turns_today := turns_today h + 1\<rparr>"] using h(1) u(1) by simp
      ultimately show ?thesis using h(1) u(2) by simp
    qed
  qed
  then show "day g' = Some today" "is_ok r \<Longrightarrow> counted g' today = Suc (counted g today)"
    "\<not> is_ok r \<Longrightarrow> counted g' today = counted g today"
    "counted g today \<le> unat (daily_turns limits) \<Longrightarrow> counted g' today \<le> unat (daily_turns limits)" by blast+
qed

text \<open>
  A day's guests: each entry is a caller, its kind, the clock, the day and the hash order. The
  outcome of each, and the ledger after them.
\<close>

type_synonym guest_call = "bytes \<times> guest_kind \<times> nat \<times> int \<times> (bytes list \<Rightarrow> bytes)"

fun call_day :: "guest_call \<Rightarrow> int" where
  "call_day (_, _, _, d, _) = d"

fun admit_all :: "'f float_ops \<Rightarrow> 'f plugin_turns \<Rightarrow> guest_call list \<Rightarrow> 'f guest_ledger \<Rightarrow> (int \<times> bool) list" where
  "admit_all F limits [] g = []"
| "admit_all F limits ((who, kind, now, today, tie) # cs) g =
     (case ledger_admit F tie who kind limits now today g of
        (r, g') \<Rightarrow> (today, is_ok r) # admit_all F limits cs g')"

definition allowed_on :: "int \<Rightarrow> (int \<times> bool) list \<Rightarrow> nat" where
  "allowed_on d rs = length (filter (\<lambda>(t, ok). t = d \<and> ok) rs)"

lemma admit_all_count:
  assumes "sorted (map call_day cs)" and "0 < daily_turns limits"
    and "\<And>d. day g = Some d \<Longrightarrow> list_all (\<lambda>c. d \<le> call_day c) cs"
    and "counted g d \<le> unat (daily_turns limits)"
  shows "allowed_on d (admit_all F limits cs g) + counted g d \<le> unat (daily_turns limits) \<or>
    (\<exists>d0. day g = Some d0 \<and> d < d0)"
  using assms
proof (induction F limits cs g rule: admit_all.induct)
  case (1 F limits g)
  then show ?case by (simp add: allowed_on_def)
next
  case (2 F limits who kind now today tie cs g)
  obtain r g' where a: "ledger_admit F tie who kind limits now today g = (r, g')" by force
  note c = admit_counts [OF a 2(3)]
  have sorted: "sorted (map call_day cs)" and later: "list_all (\<lambda>c. today \<le> call_day c) cs"
    using 2(2) by (simp_all add: list_all_iff)
  show ?case
  proof (cases "d = today")
    case True
    have "counted g' d \<le> unat (daily_turns limits)" using c(4) 2(5) True by simp
    then have "allowed_on d (admit_all F limits cs g') + counted g' d \<le> unat (daily_turns limits) \<or>
        (\<exists>d0. day g' = Some d0 \<and> d < d0)"
      using later c(1) by (intro 2(1) [OF a [symmetric] sorted 2(3)]) auto
    then have "allowed_on d (admit_all F limits cs g') + counted g' today \<le> unat (daily_turns limits)"
      using c(1) True by auto
    then show ?thesis using c(2,3) a True by (cases "is_ok r") (simp_all add: allowed_on_def)
  next
    case False
    show ?thesis
    proof (cases "d < today")
      case True
      have "t \<noteq> d" if "(t, ok) \<in> set (admit_all F limits cs g')" for t ok
        using that later True
        by (induction F limits cs g' rule: admit_all.induct) (auto split: prod.splits)
      then have "allowed_on d (admit_all F limits cs g') = 0"
        by (auto simp: allowed_on_def filter_empty_conv)
      then show ?thesis using a False 2(5) by (auto simp: allowed_on_def)
    next
      case notbefore: False
      have z: "counted g' d = 0" using c(1) False by (simp add: counted_def)
      then have "allowed_on d (admit_all F limits cs g') + counted g' d \<le> unat (daily_turns limits) \<or>
          (\<exists>d0. day g' = Some d0 \<and> d < d0)"
        using later c(1) by (intro 2(1) [OF a [symmetric] sorted 2(3)]) auto
      then have "allowed_on d (admit_all F limits cs g') \<le> unat (daily_turns limits)" using z c(1) notbefore by auto
      moreover have "counted g d = 0" using 2(4) [of d] notbefore False by (auto simp: counted_def)
      ultimately show ?thesis using a False by (simp add: allowed_on_def)
    qed
  qed
qed

subsection \<open>Properties\<close>

text \<open>The headers name a peer that has a secret of its own; no owner secret is configured.\<close>

definition named_peer :: "(bytes \<rightharpoonup> peer_config) \<Rightarrow> bytes option \<Rightarrow> bool" where
  "named_peer ps peer_name \<longleftrightarrow> (case peer_name of None \<Rightarrow> False | Some n \<Rightarrow>
     (case ps n of None \<Rightarrow> False | Some pc \<Rightarrow> peer_secret pc \<noteq> None))"

definition no_owner_secret :: "unicode \<Rightarrow> security_config \<Rightarrow> bool" where
  "no_owner_secret U cfg \<longleftrightarrow> (case secret cfg of None \<Rightarrow> True | Some s \<Rightarrow> blank U s)"

definition presents_voice :: "unicode \<Rightarrow> security_config \<Rightarrow> bytes option \<Rightarrow> bool" where
  "presents_voice U cfg presented \<longleftrightarrow> (\<exists>v. voice_secret cfg = Some v \<and> \<not> blank U v \<and> presented = Some v \<and> secret cfg \<noteq> Some v)"

text \<open>
  What a credential buys. A request is a peer exactly when it names a peer that has a secret and
  presents that secret; otherwise it is the voice transport exactly when it presents a voice secret
  that is not the owner's, and the owner exactly when it presents the owner's secret, or none is
  configured and it does not present the voice secret. Nothing authenticates as a plugin, and only
  the health endpoint runs without an identity.
\<close>

theorem auth_decides:
  "(require_auth U cfg ps path peer_name presented = Inr None \<longleftrightarrow> path = ''/health'') \<and>
   (require_auth U cfg ps path peer_name presented = Inr (Some who) \<longleftrightarrow> path \<noteq> ''/health'' \<and>
     (case who of
        Peer n \<Rightarrow> peer_name = Some n \<and> (\<exists>pc s. ps n = Some pc \<and> peer_secret pc = Some s \<and> presented = Some s)
      | Voice \<Rightarrow> \<not> named_peer ps peer_name \<and> presents_voice U cfg presented
      | Owner \<Rightarrow> \<not> named_peer ps peer_name \<and> \<not> presents_voice U cfg presented \<and>
          (no_owner_secret U cfg \<or> presented \<noteq> None \<and> presented = secret cfg)
      | Plugin _ _ \<Rightarrow> False))"
proof -
  have v: "(case voice_credential U cfg of None \<Rightarrow> False | Some voice \<Rightarrow> presents presented voice) \<longleftrightarrow>
      presents_voice U cfg presented"
    by (cases "secret cfg"; cases "voice_secret cfg")
      (auto simp: voice_credential_def presents_voice_def presents_iff)
  have g: "identity_for_global_secret U cfg presented =
      (if presents_voice U cfg presented then Inr Voice
       else if no_owner_secret U cfg \<or> presented \<noteq> None \<and> presented = secret cfg then Inr Owner else Inl Unauthorized)"
    unfolding identity_for_global_secret_def v
    by (cases "secret cfg") (auto simp: no_owner_secret_def presents_iff)
  show ?thesis
  proof (cases "named_peer ps peer_name")
    case True
    then obtain n pc s where "peer_name = Some n" "ps n = Some pc" "peer_secret pc = Some s"
      by (auto simp: named_peer_def split: option.splits)
    with True show ?thesis
      by (cases who) (auto simp: require_auth_def Let_def presents_iff)
  next
    case False
    then have "require_auth U cfg ps path peer_name presented =
        (if path = ''/health'' then Inr None else (case identity_for_global_secret U cfg presented of Inl e \<Rightarrow> Inl e | Inr w \<Rightarrow> Inr (Some w)))"
      by (auto simp: require_auth_def named_peer_def Let_def split: option.splits)
    with False g show ?thesis
      by (cases who) (auto simp: named_peer_def)
  qed
qed

text \<open>
  A peer whose configured secret is empty is no secret at all: whoever names it and sends an
  empty secret header is that peer, whatever owner secret is configured.
\<close>

theorem blank_peer_secret:
  assumes "ps n = Some pc" and "peer_secret pc = Some []" and "path \<noteq> ''/health''"
  shows "require_auth U cfg ps path (Some n) (Some []) = Inr (Some (Peer n))"
  using assms by (simp add: require_auth_def presents_def ct_eq_def Let_def)

definition demo_unicode :: unicode where
  "demo_unicode = \<lparr>lowercase = (\<lambda>s. s), alphanumeric = (\<lambda>_. True), whitespace = (\<lambda>c. c = '' '')\<rparr>"

theorem blank_peer_secret_witness:
  "require_auth demo_unicode \<lparr>secret = Some ''owner-secret'', voice_secret = None\<rparr>
     [''Nova'' \<mapsto> \<lparr>peer_host = ''h'', peer_port = 1, peer_secret = Some []\<rparr>] ''/chat'' (Some ''Nova'') (Some []) =
   Inr (Some (Peer ''Nova''))"
  using blank_peer_secret [of "[''Nova'' \<mapsto> \<lparr>peer_host = ''h'', peer_port = 1, peer_secret = Some []\<rparr>]"
    "''Nova''" "\<lparr>peer_host = ''h'', peer_port = 1, peer_secret = Some []\<rparr>" "''/chat''" demo_unicode] by simp

text \<open>
  Session keys read back. The key of the owner, of a peer and of a guest say so, no two of them
  collide whatever the names are, and no other string is the owner's or a peer's key.
\<close>

theorem session_keys_read_back:
  "principal_of OWNER_KEY = POwner \<and> principal_of (peer_key n) = PPeer n \<and> principal_of (guest_key s) = PGuest s \<and>
   (principal_of k = POwner \<longleftrightarrow> k = OWNER_KEY) \<and> (principal_of k = PPeer n \<longleftrightarrow> k = peer_key n)"
  by (simp add: principal_POwner principal_PPeer)

text \<open>
  C18: nobody else becomes the owner. A turn is admitted with the owner's session only for the owner's
  credential, or for a plugin on its own unreserved text channel whose sender is a configured identity
  of the owner. A peer's turn lands in that peer's session and never on an owner channel, a voice
  turn in the session of the guest it names, and a plugin's turn never in a peer's session.
\<close>

theorem only_owner_becomes_owner:
  assumes "admit_turn U cfg E who req ls = (Inr adm, ls')"
  shows "(principal_of (adm_key adm) = POwner \<longrightarrow> who = Owner \<or>
      (\<exists>n s. who = Plugin n (channel req) \<and> \<not> is_reserved_channel (channel req) \<and>
         \<not> eq_ignore_case (channel req) VOICE_CHANNEL \<and> sender req = Some s \<and> is_owner_identity s (owner cfg))) \<and>
    (case who of
       Peer n \<Rightarrow> adm_key adm = peer_key n \<and> \<not> is_owner_channel (channel req)
     | Voice \<Rightarrow> (\<exists>s. sender req = Some s \<and> \<not> blank U s \<and> adm_key adm = guest_key s \<and> adm_call adm)
     | Plugin n ch \<Rightarrow> channel req = ch \<and> \<not> is_peer (adm_key adm)
     | Owner \<Rightarrow> \<not> adm_call adm)"
proof -
  note a = admit_turn_Inr [OF assms]
  have comms: "is_reserved_channel ''comms''" by (simp add: is_reserved_channel_def RESERVED_CHANNELS_def)
  show ?thesis
  proof (cases who)
    case Owner
    with a show ?thesis by (simp add: is_call_def)
  next
    case (Peer n)
    then have key: "adm_key adm = peer_key n" using a(5) by (simp add: resolve_key_def)
    then have "principal_of (adm_key adm) = PPeer n" by (simp add: principal_PPeer)
    with Peer key a show ?thesis by (auto simp: refuse_peer_on_owner_channel_def split: if_splits)
  next
    case (Plugin n ch)
    then have k: "resolve_plugin_key ch req cfg = Inr (adm_key adm)" using a(5) by (simp add: resolve_key_def)
    then have r: "channel req = ch" "\<not> is_reserved_channel ch" by (auto simp: resolve_plugin_key_def split: if_splits)
    with comms owner_channels_reserved have ch: "ch \<noteq> ''comms''" "\<not> is_owner_channel ch" by auto
    show ?thesis
    proof (cases "eq_ignore_case ch VOICE_CHANNEL")
      case True
      with k r have key: "adm_key adm = guest_key (case sender req of None \<Rightarrow> ''anonymous'' | Some s \<Rightarrow> s)"
        by (simp add: resolve_plugin_key_def)
      have "principal_of (adm_key adm) = PGuest (case sender req of None \<Rightarrow> ''anonymous'' | Some s \<Rightarrow> s)"
        unfolding key by simp
      with r Plugin show ?thesis by (simp add: is_peer_def)
    next
      case False
      with k r have rs: "adm_key adm = resolve_sender ch (sender req) (owner cfg) (peers cfg)"
        by (simp add: resolve_plugin_key_def)
      then have "\<not> is_peer (adm_key adm)"
        using ch by (auto simp: resolve_sender_def is_peer_def split: option.splits)
      with rs r ch False Plugin show ?thesis by (auto simp: principal_POwner resolve_sender_owner)
    qed
  next
    case Voice
    with a obtain s where s: "sender req = Some s" "\<not> blank U s" "adm_key adm = guest_key s" "adm_call adm"
      by (cases "sender req")
        (auto simp: resolve_key_def refuse_voice_without_sender_def is_call_def split: if_splits)
    then have "principal_of (adm_key adm) = PGuest s" by simp
    with Voice s show ?thesis by auto
  qed
qed

text \<open>A token bucket over the integers, for the witnesses.\<close>

definition demo_floats :: "int float_ops" where
  "demo_floats = \<lparr>f_of_u32 = (\<lambda>n. int (unat n)), f_refill = (\<lambda>t e r b. min (t + int e * r) b),
     f_below_one = (\<lambda>t. t < 1), f_less_one = (\<lambda>t. t - 1)\<rparr>"

definition demo_limits :: "int plugin_turns" where
  "demo_limits = \<lparr>daily_turns = 1, voice_turns_per_call = 3, guest_burst = 5, guest_per_minute = 6\<rparr>"

definition demo_admit :: "int admit_env" where
  "demo_admit = \<lparr>float_of = demo_floats, limits_of = demo_limits, tie_of = hd, instant = 7, today_of = 1\<rparr>"

theorem only_owner_becomes_owner_witness:
  "\<exists>adm ls'. admit_turn demo_unicode \<lparr>owner = \<lparr>owner_name = None, discord_id = None, phone = None\<rparr>, peers = Map.empty\<rparr>
     demo_admit Voice \<lparr>message = ''hi'', channel = ''voice'', sender = Some ''owner''\<rparr>
     \<lparr>plugin_ledgers = Map.empty, http_voice = ledger_new\<rparr> = (Inr adm, ls') \<and>
   adm_key adm = guest_key ''owner'' \<and> principal_of (adm_key adm) \<noteq> POwner"
proof -
  let ?U = demo_unicode and ?req = "\<lparr>message = ''hi'', channel = ''voice'', sender = Some ''owner''\<rparr>"
  let ?cfg = "\<lparr>owner = \<lparr>owner_name = None, discord_id = None, phone = None\<rparr>, peers = Map.empty\<rparr>"
  let ?ls = "\<lparr>plugin_ledgers = Map.empty, http_voice = ledger_new\<rparr> :: int ledgers"
  have "\<exists>adm ls'. admit_turn ?U ?cfg demo_admit Voice ?req ?ls = (Inr adm, ls')"
    by (simp add: admit_turn_def validate_request_def MAX_MESSAGE_LEN_def MAX_CHANNEL_LEN_def MAX_SENDER_LEN_def
        ascii_control_def byte_def refuse_peer_on_owner_channel_def refuse_voice_off_channel_def eq_ignore_case_refl
        VOICE_CHANNEL_def refuse_voice_without_sender_def blank_def demo_unicode_def resolve_key_def
        count_guest_def is_guest_def is_call_def demo_admit_def ledger_admit_def ledger_new_def demo_limits_def
        take_call_turn_def forget_oldest_def MAX_TRACKED_def Let_def sublist_code)
  then obtain adm ls' where adm: "admit_turn ?U ?cfg demo_admit Voice ?req ?ls = (Inr adm, ls')" by blast
  from only_owner_becomes_owner [OF adm] have "adm_key adm = guest_key ''owner''" by simp
  with adm show ?thesis by simp
qed

text \<open>
  C19: the daily budget holds. Whatever callers, kinds, hash orders and times of day the guests of a plugin
  come with, when the budget is on (\<open>daily_turns\<close> is not 0, which switches it off) and the days of
  the clock do not go back, at most \<open>daily_turns\<close> of them are let through on any one day.
\<close>

theorem guest_daily_budget:
  assumes "sorted (map call_day cs)" and "0 < daily_turns limits"
  shows "allowed_on d (admit_all F limits cs ledger_new) \<le> unat (daily_turns limits)"
  using admit_all_count [OF assms, of ledger_new d F] by (auto simp: ledger_new_def counted_def)

theorem guest_daily_budget_witness:
  "allowed_on 1 (admit_all demo_floats demo_limits [(''a'', Call, 0, 1, hd), (''b'', Sender, 1, 1, hd)] ledger_new) \<le> 1"
  using guest_daily_budget [of "[(''a'', Call, 0, 1, hd), (''b'', Sender, 1, 1, hd)]" demo_limits 1 demo_floats]
  by (simp add: demo_limits_def)

end
