(* ===== verification/Session.thy ===== *)
theory Session
  imports ConvWal Admission
begin

text \<open>
  A session and what is written when one ends: \<open>SessionData\<close> of \<open>src/session_store.rs\<close> with its
  caps, resets and handoff, and the archive, summary and quarantine files of \<open>src/session.rs\<close>. Times
  are milliseconds. The regular expressions for tags are a parameter, and an archive is the messages
  it holds, not their Markdown. The quality score, a float that only reports read, is left out.
\<close>

subsection \<open>The data of a session\<close>

record health_counters =
  rounds_since_human_input :: u32
  hallucination_count :: u32
  action_claim_count :: u32
  circuit_breaker_count :: u32
  fallback_count :: u32

definition health_default :: health_counters where
  "health_default = \<lparr>rounds_since_human_input = 0, hallucination_count = 0, action_claim_count = 0,
     circuit_breaker_count = 0, fallback_count = 0\<rparr>"

record compaction_metrics =
  estimated_tokens :: nat
  compaction_count :: u32
  micro_compact_savings :: nat
  total_tokens_recovered :: nat
  last_compaction_at :: "int option"
  compaction_failures :: u32
  recently_accessed_files :: "recent_file list"
  system_prompt_tokens :: nat
  session_plan :: "bytes option"

definition compaction_default :: compaction_metrics where
  "compaction_default = \<lparr>estimated_tokens = 0, compaction_count = 0, micro_compact_savings = 0,
     total_tokens_recovered = 0, last_compaction_at = None, compaction_failures = 0,
     recently_accessed_files = [], system_prompt_tokens = 0, session_plan = None\<rparr>"

record wal_state =
  wal_seq :: u64
  since_checkpoint :: u64
  last_checkpoint :: int

record 'j session_data =
  sess_key :: bytes
  sess_channel :: bytes
  sess_sender :: bytes
  messages :: "'j message list"
  created_at :: int
  last_active :: int
  message_count :: nat
  wal :: wal_state
  health :: health_counters
  metrics :: compaction_metrics
  isolation_ephemeral_from :: "nat option"
  isolation_quarantine_from :: "nat option"
  quarantine :: "'j message list"

definition session_new :: "int \<Rightarrow> bytes \<Rightarrow> bytes \<Rightarrow> bytes \<Rightarrow> 'j session_data" where
  "session_new now key ch who = \<lparr>sess_key = key, sess_channel = ch, sess_sender = who, messages = [],
     created_at = now, last_active = now, message_count = 0,
     wal = \<lparr>wal_seq = 0, since_checkpoint = 0, last_checkpoint = now\<rparr>, health = health_default,
     metrics = compaction_default, isolation_ephemeral_from = None, isolation_quarantine_from = None, quarantine = []\<rparr>"

definition MAX_RECENT_FILES :: nat where "MAX_RECENT_FILES = 5"

definition MAX_REINJECTION_FILE_BYTES :: nat where "MAX_REINJECTION_FILE_BYTES = 20000"

definition MAX_MESSAGES_PER_SESSION :: nat where "MAX_MESSAGES_PER_SESSION = 200"

definition MAX_QUARANTINE_MESSAGES :: nat where "MAX_QUARANTINE_MESSAGES = 50"

text \<open>The newest \<open>n\<close> of a list, as \<open>drain(..excess)\<close> leaves it.\<close>

definition newest :: "nat \<Rightarrow> 'a list \<Rightarrow> 'a list" where
  "newest n xs = drop (length xs - n) xs"

definition enforce_message_cap :: "'j session_data \<Rightarrow> 'j session_data" where
  "enforce_message_cap d = d\<lparr>messages := newest MAX_MESSAGES_PER_SESSION (messages d)\<rparr>"

definition enforce_quarantine_cap :: "'j session_data \<Rightarrow> 'j session_data" where
  "enforce_quarantine_cap d = d\<lparr>quarantine := newest MAX_QUARANTINE_MESSAGES (quarantine d)\<rparr>"

text \<open>The first index with the least key, as \<open>min_by_key\<close> finds it.\<close>

fun argmin :: "('a \<Rightarrow> int) \<Rightarrow> 'a list \<Rightarrow> nat" where
  "argmin f [] = 0"
| "argmin f [x] = 0"
| "argmin f (x # y # xs) = (let i = argmin f (y # xs) in if f ((y # xs) ! i) < f x then Suc i else 0)"

fun update_first :: "('a \<Rightarrow> bool) \<Rightarrow> ('a \<Rightarrow> 'a) \<Rightarrow> 'a list \<Rightarrow> 'a list" where
  "update_first P f [] = []"
| "update_first P f (x # xs) = (if P x then f x # xs else x # update_first P f xs)"

definition remove_at :: "nat \<Rightarrow> 'a list \<Rightarrow> 'a list" where
  "remove_at i xs = take i xs @ drop (Suc i) xs"

definition record_access :: "int \<Rightarrow> bytes \<Rightarrow> bytes \<Rightarrow> recent_file list \<Rightarrow> recent_file list" where
  "record_access now path text fs =
     (let snip = (if MAX_REINJECTION_FILE_BYTES < length text then safe_truncate text MAX_REINJECTION_FILE_BYTES else text)
      in if path \<in> file_path ` set fs
         then update_first (\<lambda>f. file_path f = path) (\<lambda>f. f\<lparr>snippet := snip, accessed_at := now\<rparr>) fs
         else (if MAX_RECENT_FILES \<le> length fs then remove_at (argmin accessed_at fs) fs else fs) @
           [\<lparr>file_path = path, snippet = snip, accessed_at = now\<rparr>])"

definition record_file_access :: "int \<Rightarrow> bytes \<Rightarrow> bytes \<Rightarrow> 'j session_data \<Rightarrow> 'j session_data" where
  "record_file_access now path text d =
     d\<lparr>metrics := (metrics d)\<lparr>recently_accessed_files := record_access now path text (recently_accessed_files (metrics d))\<rparr>\<rparr>"

subsection \<open>Limits\<close>

text \<open>\<open>TimeDelta::num_seconds\<close> of a difference in milliseconds, and \<open>as i64\<close>.\<close>

definition num_seconds :: "int \<Rightarrow> int" where
  "num_seconds ms = (if 0 \<le> ms then ms div 1000 else - ((- ms) div 1000))"

definition as_i64 :: "u64 \<Rightarrow> int" where
  "as_i64 n = sint n"

record channel_limits =
  message_cap :: nat
  time_cap_seconds :: u64

definition CALL_LIMITS :: channel_limits where
  "CALL_LIMITS = \<lparr>message_cap = MAX_MESSAGES_PER_SESSION, time_cap_seconds = 0\<rparr>"

definition should_reset :: "channel_limits \<Rightarrow> int \<Rightarrow> 'j session_data \<Rightarrow> bool" where
  "should_reset limits now d \<longleftrightarrow>
     (0 < message_cap limits \<and> message_cap limits \<le> length (messages d)) \<or>
     (0 < time_cap_seconds limits \<and> as_i64 (time_cap_seconds limits) \<le> num_seconds (now - created_at d)) \<or>
     3 \<le> hallucination_count (health d)"

definition is_expired :: "u64 \<Rightarrow> int \<Rightarrow> 'j session_data \<Rightarrow> bool" where
  "is_expired ttl now d \<longleftrightarrow> as_i64 ttl < num_seconds (now - last_active d)"

subsection \<open>The handoff\<close>

text \<open>
  \<open>strip_system_prefixes\<close>: \<open>tag\<close> is the end of the first of the four tag expressions that matches at
  the start of the text. A match is not empty.
\<close>

record text_env =
  text_chars :: unicode
  tag :: "bytes \<Rightarrow> nat option"

function strip_tags :: "text_env \<Rightarrow> bytes \<Rightarrow> bytes" where
  "strip_tags T s =
     (case tag T s of
        None \<Rightarrow> s
      | Some n \<Rightarrow> if n = 0 \<or> length s < n then s else strip_tags T (trim (text_chars T) (drop n s)))"
  by pat_completeness auto
termination
proof (relation "measure (\<lambda>(T, s). length s)")
  fix T :: text_env and s :: bytes and n
  assume "\<not> (n = 0 \<or> length s < n)"
  then have "length (drop n s) < length s" unfolding length_drop by arith
  with trim_length [of "text_chars T" "drop n s"]
  show "((T, trim (text_chars T) (drop n s)), (T, s)) \<in> measure (\<lambda>(T, s). length s)" by simp
qed simp

declare strip_tags.simps [simp del]

definition strip_system_prefixes :: "text_env \<Rightarrow> bytes \<Rightarrow> bytes" where
  "strip_system_prefixes T text =
     (let s = strip_tags T (trim (text_chars T) text)
      in case strip_prefix ''User message: '' s of
           Some rest \<Rightarrow> trim (text_chars T) rest
         | None \<Rightarrow> (case strip_prefix ''User message:'' s of Some rest \<Rightarrow> trim (text_chars T) rest | None \<Rightarrow> s))"

definition from_human :: "'j message \<Rightarrow> bool" where
  "from_human m \<longleftrightarrow> (case msg_source m of Some (Human _ _) \<Rightarrow> True | _ \<Rightarrow> False)"

definition last_where :: "('a \<Rightarrow> bool) \<Rightarrow> 'a list \<Rightarrow> 'a option" where
  "last_where P xs = find P (rev xs)"

definition handoff_human :: "text_env \<Rightarrow> 'j message list \<Rightarrow> bytes" where
  "handoff_human T ms =
     (case last_where from_human ms of
        None \<Rightarrow> []
      | Some m \<Rightarrow>
          (let text = (case msg_content m of TextContent t \<Rightarrow> strip_system_prefixes T t | Blocks _ \<Rightarrow> ''[complex message]'')
           in if text = [] then [] else ''**Last user message:** '' @ text @ [newline, newline]))"

definition handoff_assistant :: "'j message list \<Rightarrow> bytes" where
  "handoff_assistant ms =
     (case last_where (\<lambda>m. msg_role m = Assistant) ms of
        None \<Rightarrow> []
      | Some m \<Rightarrow>
          ''**Last assistant response (truncated):** '' @
          (case msg_content m of
             TextContent t \<Rightarrow> if 500 < length t then safe_truncate t 497 @ ''...'' else t
           | Blocks _ \<Rightarrow> ''[complex response]'') @ [newline, newline])"

definition build_handoff :: "text_env \<Rightarrow> 'j session_data \<Rightarrow> bytes option" where
  "build_handoff T d =
     (if messages d = [] then None
      else Some (''[Session handoff '' @ dash @ '' this is a continuation from a previous session '' @
        ''that was automatically reset to maintain context quality]'' @ [newline, newline] @
        handoff_human T (messages d) @ handoff_assistant (messages d) @
        (case session_plan (metrics d) of
           None \<Rightarrow> [] | Some plan \<Rightarrow> ''**Active plan:** '' @ plan @ [newline, newline]) @
        ''Previous session: '' @ decimal (length (messages d)) @ '' messages, '' @
        decimal (unat (compaction_count (metrics d))) @ '' compaction(s), '' @
        decimal (unat (hallucination_count (health d))) @ '' hallucination(s) detected.'' @ [newline]))"

text \<open>\<open>begin_fresh\<close>: the session that ended, if there was one, and the fresh one.\<close>

definition begin_fresh ::
  "'j json_ops \<Rightarrow> text_env \<Rightarrow> int \<Rightarrow> 'j session_data \<Rightarrow> 'j session_data option \<times> 'j session_data" where
  "begin_fresh J T now d =
     (if messages d = [] \<and> quarantine d = [] then (None, d)
      else (let d1 = d\<lparr>messages := [], quarantine := [], message_count := 0, created_at := now, last_active := now,
                 wal := (wal d)\<lparr>since_checkpoint := 0, last_checkpoint := now\<rparr>, health := health_default,
                 metrics := compaction_default\<rparr>
        in (Some d,
            case build_handoff T d of
              None \<Rightarrow> d1
            | Some text \<Rightarrow> d1\<lparr>metrics := compaction_default\<lparr>estimated_tokens := estimate_message_tokens J (system_message text)\<rparr>,
                messages := [system_message text]\<rparr>)))"

subsection \<open>What is written\<close>

record 'j archive =
  arch_number :: nat
  arch_trigger :: bytes
  arch_channel :: bytes
  arch_key :: "bytes option"
  arch_messages :: "'j message list"

text \<open>The summary that every next session loads.\<close>

record ephemeral =
  eph_pulse :: bytes
  eph_count :: nat
  eph_topics :: "bytes list"
  eph_more :: nat

text \<open>
  The files, the background writes of session files that have been issued and have not landed
  (each the file's name and what it will hold), and what will go wrong with the next archives, in
  order: nothing of the archive is left, or it is written and its index row is not.
\<close>

datatype archive_fault = ArchiveFails | IndexFails

record 'j disk =
  conversations :: "'j archive list"
  summary :: "ephemeral option"
  logbook :: "(bytes \<times> nat \<times> nat option) list"
  quarantine_files :: "(bytes \<times> nat \<times> 'j message list) list"
  session_files :: "bytes \<rightharpoonup> 'j session_data"
  pending_saves :: "(bytes \<times> 'j session_data) list"
  conv_wals :: conv_wal
  archive_faults :: "archive_fault option list"

definition next_fault :: "'j disk \<Rightarrow> archive_fault option \<times> 'j disk" where
  "next_fault D = (case archive_faults D of [] \<Rightarrow> (None, D) | f # fs \<Rightarrow> (f, D\<lparr>archive_faults := fs\<rparr>))"

definition highest_log_number :: "'j disk \<Rightarrow> nat" where
  "highest_log_number D = fold max (map arch_number (conversations D)) 0"

definition archive_conversation ::
  "bytes \<Rightarrow> bytes \<Rightarrow> bytes option \<Rightarrow> 'j message list \<Rightarrow> 'j disk \<Rightarrow> nat option \<times> 'j disk" where
  "archive_conversation trigger ch key ms D =
     (if ms = [] then (None, D)
      else (case next_fault D of
          (Some ArchiveFails, D1) \<Rightarrow> (None, D1)
        | (f, D1) \<Rightarrow>
            (let n = highest_log_number D1 + 1;
                 D2 = D1\<lparr>conversations := conversations D1 @
                   [\<lparr>arch_number = n, arch_trigger = trigger, arch_channel = ch, arch_key = key, arch_messages = ms\<rparr>]\<rparr>
             in (if f = Some IndexFails then None else Some n, D2))))"

definition TOPIC_TRUNCATE_LEN :: nat where "TOPIC_TRUNCATE_LEN = 80"

definition topics_of :: "text_env \<Rightarrow> 'j message list \<Rightarrow> bytes list" where
  "topics_of T ms = filter (\<lambda>s. s \<noteq> []) (map (strip_system_prefixes T)
     (List.map_filter (\<lambda>m. if msg_role m = User then (case msg_content m of TextContent t \<Rightarrow> Some t | Blocks _ \<Rightarrow> None) else None) ms))"

definition topic_line :: "bytes \<Rightarrow> bytes" where
  "topic_line t = (if TOPIC_TRUNCATE_LEN < length t then safe_truncate t (TOPIC_TRUNCATE_LEN - 3) @ ''...'' else t)"

definition write_ephemeral_summary :: "text_env \<Rightarrow> bytes \<Rightarrow> 'j message list \<Rightarrow> 'j disk \<Rightarrow> 'j disk" where
  "write_ephemeral_summary T pulse ms D =
     (if ms = [] then D
      else D\<lparr>summary := Some \<lparr>eph_pulse = pulse, eph_count = length ms,
        eph_topics = map topic_line (take 5 (topics_of T ms)), eph_more = length (topics_of T ms) - 5\<rparr>\<rparr>)"

definition log_session_end :: "bytes \<Rightarrow> 'j message list \<Rightarrow> nat option \<Rightarrow> 'j disk \<Rightarrow> 'j disk" where
  "log_session_end ch ms path D = D\<lparr>logbook := logbook D @ [(ch, length ms, path)]\<rparr>"

definition end_session ::
  "text_env \<Rightarrow> bytes \<Rightarrow> 'j message list \<Rightarrow> bytes \<Rightarrow> bytes \<Rightarrow> bytes option \<Rightarrow> 'j disk \<Rightarrow> nat option \<times> 'j disk" where
  "end_session T pulse ms ch trigger key D =
     (if ms = [] then (None, D)
      else (case archive_conversation trigger ch key ms D of
          (path, D1) \<Rightarrow> (path, log_session_end ch ms path (write_ephemeral_summary T pulse ms D1))))"

definition end_call :: "'j message list \<Rightarrow> bytes \<Rightarrow> bytes \<Rightarrow> bytes \<Rightarrow> 'j disk \<Rightarrow> 'j disk" where
  "end_call ms ch trigger key D =
     (if ms = [] then D
      else (case archive_conversation trigger ch (Some key) ms D of
          (path, D1) \<Rightarrow> log_session_end ch ms path D1))"

text \<open>The first free number from 1; the numbers taken are finite.\<close>

fun first_free :: "nat list \<Rightarrow> nat \<Rightarrow> nat \<Rightarrow> nat" where
  "first_free taken n 0 = n"
| "first_free taken n (Suc k) = (if n \<in> set taken then first_free taken (Suc n) k else n)"

definition archive_quarantine :: "bytes \<Rightarrow> 'j message list \<Rightarrow> 'j disk \<Rightarrow> 'j disk" where
  "archive_quarantine key ms D =
     (if ms = [] then D
      else (let numbers = map (fst \<circ> snd) (filter (\<lambda>f. fst f = dashed key) (quarantine_files D));
                n = first_free numbers 1 (length numbers)
        in case next_fault D of
             (Some _, D1) \<Rightarrow> D1
           | (None, D1) \<Rightarrow> D1\<lparr>quarantine_files := quarantine_files D1 @ [(dashed key, n, ms)]\<rparr>))"

definition reset_session ::
  "'j json_ops \<Rightarrow> text_env \<Rightarrow> bytes \<Rightarrow> int \<Rightarrow> 'j session_data \<Rightarrow> 'j disk \<Rightarrow> 'j session_data \<times> 'j disk" where
  "reset_session J T pulse now d D =
     (case begin_fresh J T now d of
        (None, d1) \<Rightarrow> (d1, D)
      | (Some ended, d1) \<Rightarrow>
          (d1, archive_quarantine (sess_key ended) (quarantine ended)
                 (snd (end_session T pulse (messages ended) (sess_channel ended) ''session-reset'' (Some (sess_key ended)) D))))"

text \<open>What may reach the disk of an ended call: nothing past its isolation watermarks.\<close>

definition up_to :: "nat option \<Rightarrow> 'a list \<Rightarrow> 'a list" where
  "up_to mark xs = (case mark of None \<Rightarrow> xs | Some n \<Rightarrow> take n xs)"

definition archive_call :: "bytes \<Rightarrow> 'j session_data \<Rightarrow> 'j disk \<Rightarrow> 'j disk" where
  "archive_call trigger d D =
     archive_quarantine (sess_key d) (up_to (isolation_quarantine_from d) (quarantine d))
       (end_call (up_to (isolation_ephemeral_from d) (messages d)) (sess_channel d) trigger (sess_key d) D)"

definition archive_on_shutdown :: "text_env \<Rightarrow> bytes \<Rightarrow> bytes \<Rightarrow> 'j session_data \<Rightarrow> 'j disk \<Rightarrow> nat option \<times> 'j disk" where
  "archive_on_shutdown T pulse key d D =
     (if messages d = [] \<and> quarantine d = [] then (None, D)
      else (case end_session T pulse (messages d) (sess_channel d) ''server-shutdown'' (Some key) D of
          (path, D1) \<Rightarrow> (path, archive_quarantine key (quarantine d) D1)))"

end
