(* ===== verification/SessionStore.thy ===== *)
theory SessionStore
  imports Session
begin

text \<open>
  The sessions of a server: \<open>SessionStore\<close> of \<open>src/session_store.rs\<close> and the recovery of orphaned
  logs in \<open>src/wal.rs\<close>. A map is given with the order its hash iterates in (\<open>ks\<close>); \<open>busy\<close> are the
  keys whose lock a turn holds. Session files are written in the background: a write is issued, and
  lands or fails later, in any order with the others.
\<close>

subsection \<open>The store\<close>

record 'j session =
  sdata :: "'j session_data"
  dirty :: bool

record 'j store =
  sessions :: "bytes \<rightharpoonup> 'j session"
  live_calls :: "bytes \<rightharpoonup> 'j session"
  ended_calls :: "'j session_data list"
  ttl_seconds :: u64
  max_sessions :: nat
  store_owner :: owner_config
  store_peers :: "bytes \<rightharpoonup> peer_config"

definition MAX_LIVE_CALLS :: nat where "MAX_LIVE_CALLS = 32"

definition MAX_ENDED_CALLS :: nat where "MAX_ENDED_CALLS = 64"

definition fresh_session :: "int \<Rightarrow> bytes \<Rightarrow> bytes \<Rightarrow> bytes \<Rightarrow> 'j session" where
  "fresh_session now key ch who = \<lparr>sdata = session_new now key ch who, dirty = False\<rparr>"

text \<open>What a session file holds: everything but the isolation watermarks (\<open>serde(skip)\<close>).\<close>

definition serialized :: "'j session_data \<Rightarrow> 'j session_data" where
  "serialized d = d\<lparr>isolation_ephemeral_from := None, isolation_quarantine_from := None\<rparr>"

definition json_name :: "bytes \<Rightarrow> bytes" where
  "json_name k = dashed k @ ''.json''"

text \<open>
  \<open>persist_session_data\<close> hands the write to the pool of blocking threads and returns. The write
  itself serializes the data, writes the file of the same name with \<open>.tmp\<close> and renames it; each of the
  three may fail, which is logged and leaves the session file as it was. The writes of the pool run
  side by side. Those of one file share the \<open>.tmp\<close> file: with another of them under way, whatever they
  wrote of it may become the file (\<open>None\<close> stands for a file that cannot be read).
\<close>

definition persist_session_data :: "'j session_data \<Rightarrow> 'j disk \<Rightarrow> 'j disk" where
  "persist_session_data d D = D\<lparr>pending_saves := pending_saves D @ [(json_name (sess_key d), serialized d)]\<rparr>"

datatype 'j write_end = Landed | WriteFailed | Mixed "'j session_data option"

definition write_fn :: "'j write_end \<Rightarrow> nat \<Rightarrow> 'j disk \<Rightarrow> 'j disk" where
  "write_fn w i D =
     (let (name, d) = pending_saves D ! i;
          others = take i (pending_saves D) @ drop (Suc i) (pending_saves D)
      in D\<lparr>pending_saves := others,
           session_files := (case w of
               Landed \<Rightarrow> (session_files D)(name \<mapsto> d)
             | WriteFailed \<Rightarrow> session_files D
             | Mixed x \<Rightarrow> (if name \<in> fst ` set others then (session_files D)(name := x) else session_files D))\<rparr>)"

text \<open>
  Any run of the pool: which write ends next, and how. \<open>failed\<close> are the files of the writes that did
  not land.
\<close>

inductive writes_end :: "'j disk \<Rightarrow> bytes set \<Rightarrow> 'j disk \<Rightarrow> bool" where
  none_ends: "writes_end D {} D"
| one_ends: "writes_end D failed D' \<Longrightarrow> i < length (pending_saves D') \<Longrightarrow>
     writes_end D (if w = Landed then failed else insert (fst (pending_saves D' ! i)) failed) (write_fn w i D')"

definition last_active_of :: "(bytes \<rightharpoonup> 'j session) \<Rightarrow> bytes \<Rightarrow> int" where
  "last_active_of m k = (case m k of None \<Rightarrow> 0 | Some s \<Rightarrow> last_active (sdata s))"

definition least_active :: "(bytes \<rightharpoonup> 'j session) \<Rightarrow> bytes list \<Rightarrow> bytes option" where
  "least_active m ks = (if ks = [] then None else Some (ks ! argmin (last_active_of m) ks))"

definition evict_lru :: "bytes list \<Rightarrow> 'j store \<Rightarrow> 'j disk \<Rightarrow> 'j store \<times> 'j disk" where
  "evict_lru ks st D =
     (case least_active (sessions st) ks of
        None \<Rightarrow> (st, D)
      | Some k \<Rightarrow>
          (case sessions st k of
             None \<Rightarrow> (st, D)
           | Some s \<Rightarrow> (st\<lparr>sessions := (sessions st)(k := None)\<rparr>, persist_session_data (sdata s) D)))"

definition get_or_create_by_key ::
  "bytes list \<Rightarrow> int \<Rightarrow> bytes \<Rightarrow> bytes \<Rightarrow> bytes \<Rightarrow> 'j store \<Rightarrow> 'j disk \<Rightarrow> 'j session \<times> 'j store \<times> 'j disk" where
  "get_or_create_by_key ks now key ch who st D =
     (case sessions st key of
        Some s \<Rightarrow> (s, st, D)
      | None \<Rightarrow>
          (case (if max_sessions st \<le> length ks then evict_lru ks st D else (st, D)) of
             (st1, D1) \<Rightarrow>
               (let s = fresh_session now key ch who
                in (s, st1\<lparr>sessions := (sessions st1)(key \<mapsto> s)\<rparr>, D1))))"

definition get_existing_by_key :: "bytes \<Rightarrow> 'j store \<Rightarrow> 'j session option" where
  "get_existing_by_key key st = (case sessions st key of Some s \<Rightarrow> Some s | None \<Rightarrow> live_calls st key)"

definition persist :: "bytes \<Rightarrow> 'j store \<Rightarrow> 'j disk \<Rightarrow> 'j store \<times> 'j disk" where
  "persist key st D =
     (case sessions st key of
        None \<Rightarrow> (st, D)
      | Some s \<Rightarrow>
          if dirty s
          then (st\<lparr>sessions := (sessions st)(key \<mapsto> s\<lparr>dirty := False\<rparr>)\<rparr>, persist_session_data (sdata s) D)
          else (st, D))"

definition persist_all :: "bytes list \<Rightarrow> 'j store \<Rightarrow> 'j disk \<Rightarrow> 'j store \<times> 'j disk" where
  "persist_all ks st D = fold (\<lambda>k (st, D). persist k st D) ks (st, D)"

definition has_session :: "bytes \<Rightarrow> 'j store \<Rightarrow> bool" where
  "has_session key st \<longleftrightarrow> sessions st key \<noteq> None \<or> live_calls st key \<noteq> None"

subsection \<open>Voice calls\<close>

definition queue_ended_call :: "'j session_data \<Rightarrow> 'j store \<Rightarrow> 'j store" where
  "queue_ended_call d st = st\<lparr>ended_calls := newest MAX_ENDED_CALLS (ended_calls st @ [d])\<rparr>"

definition end_call_of :: "bytes \<Rightarrow> 'j store \<Rightarrow> 'j store" where
  "end_call_of key st =
     (case live_calls st key of
        None \<Rightarrow> st
      | Some s \<Rightarrow> queue_ended_call (sdata s) (st\<lparr>live_calls := (live_calls st)(key := None)\<rparr>))"

definition end_longest_idle_call :: "bytes set \<Rightarrow> bytes list \<Rightarrow> 'j store \<Rightarrow> 'j store" where
  "end_longest_idle_call busy ks st =
     (case least_active (live_calls st) (filter (\<lambda>k. k \<notin> busy) ks) of
        None \<Rightarrow> st
      | Some k \<Rightarrow> end_call_of k st)"

definition get_or_create_call ::
  "bytes set \<Rightarrow> bytes list \<Rightarrow> int \<Rightarrow> bytes \<Rightarrow> bytes \<Rightarrow> bytes \<Rightarrow> 'j store \<Rightarrow> 'j session \<times> 'j store" where
  "get_or_create_call busy ks now key ch who st =
     (case live_calls st key of
        Some s \<Rightarrow> (s, st)
      | None \<Rightarrow>
          (let st1 = (if MAX_LIVE_CALLS \<le> length ks then end_longest_idle_call busy ks st else st);
               s = fresh_session now key ch who
           in (s, st1\<lparr>live_calls := (live_calls st1)(key \<mapsto> s)\<rparr>)))"

definition end_idle_calls :: "bytes set \<Rightarrow> bytes list \<Rightarrow> u64 \<Rightarrow> int \<Rightarrow> 'j store \<Rightarrow> nat \<times> 'j store" where
  "end_idle_calls busy ks idle now st =
     (let idle_keys = filter (\<lambda>k. k \<notin> busy \<and>
            (case live_calls st k of None \<Rightarrow> False | Some s \<Rightarrow> is_expired idle now (sdata s))) ks
      in (length idle_keys, fold end_call_of idle_keys st))"

definition archive_ended_calls :: "'j store \<Rightarrow> 'j disk \<Rightarrow> nat \<times> 'j store \<times> 'j disk" where
  "archive_ended_calls st D =
     (length (ended_calls st), st\<lparr>ended_calls := []\<rparr>, fold (archive_call ''call-ended'') (ended_calls st) D)"

definition take_all_calls :: "bytes list \<Rightarrow> 'j store \<Rightarrow> 'j session_data list \<times> 'j store" where
  "take_all_calls ks st =
     (map (\<lambda>k. sdata (the (live_calls st k))) (filter (\<lambda>k. live_calls st k \<noteq> None) ks) @ ended_calls st,
      st\<lparr>live_calls := Map.empty, ended_calls := []\<rparr>)"

subsection \<open>Expiry, shutdown and loading\<close>

definition remove_session_file :: "bytes \<Rightarrow> 'j disk \<Rightarrow> 'j disk" where
  "remove_session_file name D = D\<lparr>session_files := (session_files D)(name := None)\<rparr>"

definition expire_one :: "text_env \<Rightarrow> bytes \<Rightarrow> bytes \<Rightarrow> 'j store \<times> 'j disk \<times> nat list \<Rightarrow> 'j store \<times> 'j disk \<times> nat list" where
  "expire_one T pulse key acc =
     (case acc of (st, D, paths) \<Rightarrow>
        (case sessions st key of
           None \<Rightarrow> acc
         | Some s \<Rightarrow>
             (case (if messages (sdata s) = [] then (None, D)
                    else end_session T pulse (messages (sdata s)) (sess_channel (sdata s)) ''session-expired'' (Some key) D) of
                (path, D1) \<Rightarrow>
                  (st\<lparr>sessions := (sessions st)(key := None)\<rparr>, remove_session_file (json_name key) D1,
                   paths @ (case path of None \<Rightarrow> [] | Some n \<Rightarrow> [n])))))"

definition cleanup_expired ::
  "text_env \<Rightarrow> bytes \<Rightarrow> bytes list \<Rightarrow> int \<Rightarrow> 'j store \<Rightarrow> 'j disk \<Rightarrow> 'j store \<times> 'j disk \<times> nat list" where
  "cleanup_expired T pulse ks now st D =
     fold (expire_one T pulse)
       (filter (\<lambda>k. case sessions st k of None \<Rightarrow> False | Some s \<Rightarrow> is_expired (ttl_seconds st) now (sdata s)) ks)
       (st, D, [])"

definition archive_all ::
  "text_env \<Rightarrow> bytes \<Rightarrow> bytes list \<Rightarrow> bytes list \<Rightarrow> 'j store \<Rightarrow> 'j disk \<Rightarrow> 'j store \<times> 'j disk" where
  "archive_all T pulse ks call_ks st D =
     (let D1 = fold (\<lambda>k D. case sessions st k of None \<Rightarrow> D | Some s \<Rightarrow> snd (archive_on_shutdown T pulse k (sdata s) D)) ks D;
          (ended, st1) = take_all_calls call_ks st
      in persist_all ks st1 (fold (archive_call ''server-shutdown'') ended D1))"

definition OLD_PREFIXES :: "bytes list" where
  "OLD_PREFIXES = [''discord'', ''voice'', ''chat'', ''comms'', ''tui'', ''tui-chat'', ''system'', ''reflection'']"

definition is_old_format_key :: "bytes \<Rightarrow> bool" where
  "is_old_format_key k \<longleftrightarrow>
     CHR '':'' \<in> set k \<and> takeWhile (\<lambda>c. c \<noteq> CHR '':'') k \<in> set OLD_PREFIXES"

definition migrate_key :: "bytes \<Rightarrow> 'j store \<Rightarrow> 'j session_data \<Rightarrow> 'j disk \<Rightarrow> bool \<times> 'j session_data \<times> 'j disk" where
  "migrate_key name st d D =
     (if is_old_format_key (sess_key d)
      then (True, d\<lparr>sess_key := resolve_sender (sess_channel d) (Some (sess_sender d)) (store_owner st) (store_peers st)\<rparr>,
        remove_session_file name D)
      else (False, d, D))"

definition merge_loaded :: "'j session_data \<Rightarrow> 'j session \<Rightarrow> 'j session" where
  "merge_loaded d s =
     s\<lparr>sdata := (sdata s)\<lparr>messages := messages (sdata s) @ messages d,
         message_count := max (message_count (sdata s)) (length (messages (sdata s) @ messages d)),
         last_active := max (last_active (sdata s)) (last_active d)\<rparr>, dirty := True\<rparr>"

definition insert_loaded :: "'j session \<Rightarrow> 'j store \<Rightarrow> 'j store" where
  "insert_loaded s st =
     (let key = sess_key (sdata s)
      in case sessions st key of
           Some s0 \<Rightarrow> st\<lparr>sessions := (sessions st)(key \<mapsto> merge_loaded (sdata s) s0)\<rparr>
         | None \<Rightarrow> st\<lparr>sessions := (sessions st)(key \<mapsto> s)\<rparr>)"

text \<open>One session file: its name, and its data unless it cannot be read or parsed.\<close>

definition load_session_file ::
  "text_env \<Rightarrow> bytes \<Rightarrow> int \<Rightarrow> bytes \<times> 'j session_data option \<Rightarrow> 'j store \<times> 'j disk \<Rightarrow> 'j store \<times> 'j disk" where
  "load_session_file T pulse now f acc =
     (case acc of (st, D) \<Rightarrow>
        (case snd f of
           None \<Rightarrow> (st, D)
         | Some d0 \<Rightarrow>
             (case migrate_key (fst f) st d0 D of (migrated, d, D1) \<Rightarrow>
                (if is_expired (ttl_seconds st) now d
                 then (st, remove_session_file (fst f)
                   (if messages d = [] then D1
                    else snd (end_session T pulse (messages d) (sess_channel d) ''session-expired-on-load'' (Some (sess_key d)) D1)))
                 else (insert_loaded \<lparr>sdata = d, dirty = migrated\<rparr> st, D1)))))"

definition load_persisted ::
  "text_env \<Rightarrow> bytes \<Rightarrow> int \<Rightarrow> (bytes \<times> 'j session_data option) list \<Rightarrow> 'j store \<Rightarrow> 'j disk \<Rightarrow> 'j store \<times> 'j disk" where
  "load_persisted T pulse now files st D = fold (load_session_file T pulse now) files (st, D)"

subsection \<open>Orphaned logs\<close>

definition orphan_channel :: "bytes \<Rightarrow> 'j wal_entry list \<Rightarrow> bytes" where
  "orphan_channel key es =
     (case entry_channel (hd es) of Some ch \<Rightarrow> ch | None \<Rightarrow> takeWhile (\<lambda>c. c \<noteq> CHR '':'') key)"

definition drop_wal :: "bytes \<Rightarrow> 'j disk \<Rightarrow> 'j disk" where
  "drop_wal key D = D\<lparr>conv_wals := remove_checkpoint key (wal_remove key (conv_wals D))\<rparr>"

definition recover_one ::
  "text_env \<Rightarrow> 'j entry_codec \<Rightarrow> bytes \<Rightarrow> 'j store \<Rightarrow> bytes \<Rightarrow> 'j disk \<Rightarrow> 'j disk" where
  "recover_one T C pulse st key D =
     (if has_session key st then D
      else (case read_after_checkpoint (text_chars T) C True key (conv_wals D) of
          None \<Rightarrow> D
        | Some es \<Rightarrow>
            if es = [] then drop_wal key D
            else (case entries_to_lanes es of (trunk, quar) \<Rightarrow>
              (case archive_conversation ''crash-recovery'' (orphan_channel key es) (Some key) (trunk @ quar) D of
                 (None, D1) \<Rightarrow> D1
               | (Some _, D1) \<Rightarrow>
                   drop_wal key (snd (end_session T pulse (trunk @ quar) (orphan_channel key es) ''crash-recovery'' (Some key) D1))))))"

definition recover_orphans ::
  "text_env \<Rightarrow> 'j entry_codec \<Rightarrow> bytes \<Rightarrow> bytes list \<Rightarrow> 'j store \<Rightarrow> 'j disk \<Rightarrow> 'j disk" where
  "recover_orphans T C pulse names st D = fold (recover_one T C pulse st) (list_active names) D"

subsection \<open>The least active session\<close>

lemma argmin_less: "xs \<noteq> [] \<Longrightarrow> argmin f xs < length xs"
  by (induction f xs rule: argmin.induct) (auto simp: Let_def)

lemma argmin_least: "x \<in> set xs \<Longrightarrow> f (xs ! argmin f xs) \<le> f x"
proof (induction f xs rule: argmin.induct)
  case (3 f x' y xs)
  then show ?case by (fastforce simp: Let_def)
qed auto

lemma least_active_SomeD:
  "least_active m ks = Some k \<Longrightarrow> k \<in> set ks \<and> (\<forall>k'\<in>set ks. last_active_of m k \<le> last_active_of m k')"
  by (auto simp: least_active_def argmin_less argmin_least split: if_split_asm)

lemma least_active_None [simp]: "least_active m ks = None \<longleftrightarrow> ks = []"
  by (simp add: least_active_def)

text \<open>A listing of a map, as its iterator gives it.\<close>

definition listing :: "(bytes \<rightharpoonup> 'a) \<Rightarrow> bytes list \<Rightarrow> bool" where
  "listing m ks \<longleftrightarrow> distinct ks \<and> set ks = dom m"

lemma listing_card: "listing m ks \<Longrightarrow> card (dom m) = length ks"
  unfolding listing_def by (metis distinct_card)

text \<open>What a session file write leaves alone.\<close>

lemma persist_session_data_fields [simp]:
  "conversations (persist_session_data d D) = conversations D" "summary (persist_session_data d D) = summary D"
  "quarantine_files (persist_session_data d D) = quarantine_files D" "conv_wals (persist_session_data d D) = conv_wals D"
  "logbook (persist_session_data d D) = logbook D" "archive_faults (persist_session_data d D) = archive_faults D"
  "session_files (persist_session_data d D) = session_files D"
  "pending_saves (persist_session_data d D) = pending_saves D @ [(json_name (sess_key d), serialized d)]"
  by (simp_all add: persist_session_data_def)

lemma evict_lru_fields:
  "conversations (snd (evict_lru ks st D)) = conversations D" "summary (snd (evict_lru ks st D)) = summary D"
  "quarantine_files (snd (evict_lru ks st D)) = quarantine_files D"
  by (simp_all add: evict_lru_def split: option.splits)

lemma created_session:
  assumes "get_or_create_by_key ks now key ch who st D = (s, st', D')" and "sessions st key = None"
  shows "s = fresh_session now key ch who \<and> sessions st' key = Some s \<and> conversations D' = conversations D \<and>
    summary D' = summary D \<and> quarantine_files D' = quarantine_files D"
proof -
  obtain st1 D1 where e: "(if max_sessions st \<le> length ks then evict_lru ks st D else (st, D)) = (st1, D1)" by fastforce
  then have "D1 = D \<or> D1 = snd (evict_lru ks st D)" by (auto split: if_split_asm)
  moreover have "s = fresh_session now key ch who" "st' = st1\<lparr>sessions := (sessions st1)(key \<mapsto> s)\<rparr>" "D' = D1"
    using assms e by (auto simp: get_or_create_by_key_def Let_def)
  ultimately show ?thesis using evict_lru_fields [of ks st D] by auto
qed

lemma evict_lru_cases:
  assumes "listing (sessions st) ks"
  shows "evict_lru ks st D = (st, D) \<and> ks = [] \<or>
    (\<exists>k s. least_active (sessions st) ks = Some k \<and> sessions st k = Some s \<and>
      evict_lru ks st D = (st\<lparr>sessions := (sessions st)(k := None)\<rparr>, persist_session_data (sdata s) D))"
proof (cases "least_active (sessions st) ks")
  case None
  then have "ks = []" "evict_lru ks st D = (st, D)" by (simp_all add: evict_lru_def least_active_def split: if_split_asm)
  then show ?thesis by blast
next
  case (Some k)
  then have "k \<in> dom (sessions st)" using assms least_active_SomeD unfolding listing_def by metis
  with Some show ?thesis by (auto simp: evict_lru_def)
qed

text \<open>
  An evicted session is forgotten. When the server is full and a new key comes, a write of the least
  recently active session to its file is issued and the session is dropped; when its key comes back, the session
  that opens is empty, with its log numbered from the start, and the next time it is persisted its file is
  written with only the new messages. No archive was made of the old ones: they are nowhere but in the log.
\<close>

theorem evicted_session_is_forgotten:
  assumes "listing (sessions st) ks" and "max_sessions st \<le> length ks" and "sessions st new = None"
    and "least_active (sessions st) ks = Some k" and "sessions st k = Some s" and "sess_key (sdata s) = k"
    and "get_or_create_by_key ks now new ch who st D = (s1, st1, D1)"
    and "get_or_create_by_key ks1 now1 k ch1 who1 st1 D1 = (s2, st2, D2)"
    and "persist k (st2\<lparr>sessions := (sessions st2)(k \<mapsto> s2\<lparr>sdata := (sdata s2)\<lparr>messages := said\<rparr>, dirty := True\<rparr>)\<rparr>) D2 = (st3, D3)"
  shows "pending_saves D1 = pending_saves D @ [(json_name k, serialized (sdata s))] \<and>
    messages (sdata s2) = [] \<and> quarantine (sdata s2) = [] \<and> wal_seq (wal (sdata s2)) = 0 \<and>
    pending_saves D3 = pending_saves D2 @ [(json_name k, serialized ((sdata s2)\<lparr>messages := said\<rparr>))] \<and>
    conversations D3 = conversations D \<and> summary D3 = summary D \<and> quarantine_files D3 = quarantine_files D"
proof -
  have D1: "D1 = persist_session_data (sdata s) D" and st1: "sessions st1 = (sessions st)(k := None, new \<mapsto> s1)"
    using assms(2-5,7) by (auto simp: get_or_create_by_key_def evict_lru_def Let_def)
  have k: "sessions st1 k = None" using st1 assms(3,5) by auto
  note c2 = created_session [OF assms(8) k]
  have "D3 = persist_session_data ((sdata s2)\<lparr>messages := said\<rparr>) D2" using assms(9) by (simp add: persist_def)
  with c2 D1 assms(6) show ?thesis
    by (simp add: fresh_session_def session_new_def)
qed

subsection \<open>Calls\<close>

lemma newest_length [simp]: "length (newest n xs) \<le> n" "length (newest n xs) \<le> length xs"
  by (auto simp: newest_def)

lemma newest_last: "xs \<noteq> [] \<Longrightarrow> 0 < n \<Longrightarrow> last (newest n xs) = last xs \<and> newest n xs \<noteq> []"
  by (cases xs) (auto simp: newest_def)

lemma newest_all [simp]: "length xs \<le> n \<Longrightarrow> newest n xs = xs"
  by (simp add: newest_def)

lemma end_call_of_fields:
  "sessions (end_call_of k st) = sessions st" "live_calls (end_call_of k st) = (live_calls st)(k := None)"
  "live_calls st k = Some s \<Longrightarrow> ended_calls (end_call_of k st) = newest MAX_ENDED_CALLS (ended_calls st @ [sdata s])"
  "live_calls st k = None \<Longrightarrow> end_call_of k st = st"
  by (auto simp: end_call_of_def queue_ended_call_def split: option.split)

text \<open>
  A voice call never costs anybody but a call that is idle. Admitting a call leaves every session
  alone, and every call whose turn is in flight; the number of live calls stays within
  \<open>MAX_LIVE_CALLS\<close>, or grows by one when all of them are mid-turn; and the one call that is ended to
  make room has been idle the longest and is the newest in the queue for the archive, which stays
  within \<open>MAX_ENDED_CALLS\<close>.
\<close>

theorem calls_cost_only_idle_calls:
  assumes "listing (live_calls st) ks" and "live_calls st key = None" and "length (ended_calls st) \<le> MAX_ENDED_CALLS"
    and "get_or_create_call busy ks now key ch who st = (s, st')"
  shows "sessions st' = sessions st \<and> live_calls st' key = Some s \<and> length (ended_calls st') \<le> MAX_ENDED_CALLS \<and>
    (card (dom (live_calls st')) \<le> max MAX_LIVE_CALLS (card (dom (live_calls st))) \<or> dom (live_calls st) \<subseteq> busy) \<and>
    (\<forall>k c. live_calls st k = Some c \<and> live_calls st' k \<noteq> Some c \<longrightarrow>
       k \<notin> busy \<and> live_calls st' k = None \<and> last (ended_calls st') = sdata c \<and>
       (\<forall>k' c'. live_calls st k' = Some c' \<and> k' \<notin> busy \<longrightarrow> last_active (sdata c) \<le> last_active (sdata c')))"
proof -
  let ?st1 = "if MAX_LIVE_CALLS \<le> length ks then end_longest_idle_call busy ks st else st"
  have st': "s = fresh_session now key ch who" "st' = ?st1\<lparr>live_calls := (live_calls ?st1)(key \<mapsto> s)\<rparr>"
    using assms(2,4) by (auto simp: get_or_create_call_def Let_def)
  have fin: "finite (dom (live_calls st))" using assms(1) unfolding listing_def by (metis List.finite_set)
  have n: "card (dom (live_calls st)) = length ks" by (rule listing_card [OF assms(1)])
  have new: "key \<notin> dom (live_calls st)" using assms(2) by auto
  show ?thesis
  proof (cases "MAX_LIVE_CALLS \<le> length ks \<and> filter (\<lambda>k. k \<notin> busy) ks \<noteq> []")
    case True
    then obtain k where k: "least_active (live_calls st) (filter (\<lambda>k. k \<notin> busy) ks) = Some k"
      by (cases "least_active (live_calls st) (filter (\<lambda>k. k \<notin> busy) ks)") simp_all
    note least = least_active_SomeD [OF k]
    then have kd: "k \<in> dom (live_calls st)" "k \<notin> busy" using assms(1) by (auto simp: listing_def)
    then obtain c where c: "live_calls st k = Some c" by blast
    have st1: "?st1 = end_call_of k st" using True k by (simp add: end_longest_idle_call_def)
    have live: "live_calls st' = (live_calls st)(k := None, key \<mapsto> s)"
      unfolding st'(2) st1 by (simp add: end_call_of_fields)
    have e: "ended_calls st' = newest MAX_ENDED_CALLS (ended_calls st @ [sdata c])"
      unfolding st'(2) st1 using end_call_of_fields(3) [OF c] by simp
    have "dom (live_calls st') = insert key (dom (live_calls st) - {k})" unfolding live using c by auto
    moreover have "0 < card (dom (live_calls st))" using fin kd(1) card_gt_0_iff by blast
    ultimately have "card (dom (live_calls st')) = card (dom (live_calls st))" using fin new kd(1) by simp
    moreover have "last_active (sdata c) \<le> last_active (sdata c')" if "live_calls st k' = Some c'" "k' \<notin> busy" for k' c'
    proof -
      have "k' \<in> set (filter (\<lambda>k. k \<notin> busy) ks)" using that assms(1) by (auto simp: listing_def)
      with least have "last_active_of (live_calls st) k \<le> last_active_of (live_calls st) k'" by blast
      then show ?thesis by (simp add: last_active_of_def c that(1))
    qed
    moreover have "last (ended_calls st') = sdata c" unfolding e
      using newest_last [of "ended_calls st @ [sdata c]" MAX_ENDED_CALLS] by (simp add: MAX_ENDED_CALLS_def)
    moreover have "k0 = k \<and> c0 = c \<and> live_calls st' k0 = None"
      if "live_calls st k0 = Some c0" "live_calls st' k0 \<noteq> Some c0" for k0 c0
    proof -
      have "k0 \<noteq> key" using that(1) assms(2) by auto
      with that c show ?thesis unfolding live by (auto split: if_split_asm)
    qed
    moreover have "sessions st' = sessions st" unfolding st'(2) st1 by (simp add: end_call_of_fields(1))
    moreover have "live_calls st' key = Some s" "length (ended_calls st') \<le> MAX_ENDED_CALLS" unfolding live e by simp_all
    ultimately show ?thesis using kd(2) by fastforce
  next
    case False
    then have st1: "?st1 = st" by (auto simp: end_longest_idle_call_def least_active_def)
    have d: "dom (live_calls st') = insert key (dom (live_calls st))" unfolding st'(2) st1 by auto
    have "card (dom (live_calls st')) = Suc (length ks)" unfolding d using fin new n by simp
    moreover have "dom (live_calls st) \<subseteq> busy" if "filter (\<lambda>k. k \<notin> busy) ks = []"
      using that assms(1) by (auto simp: listing_def filter_empty_conv)
    ultimately have "card (dom (live_calls st')) \<le> max MAX_LIVE_CALLS (card (dom (live_calls st))) \<or> dom (live_calls st) \<subseteq> busy"
      using False by auto
    then show ?thesis unfolding st'(2) st1 using assms(2,3) by auto
  qed
qed

subsection \<open>What reaches the disk\<close>

lemma end_session_plain:
  assumes "ms \<noteq> []" and "archive_faults D = []"
  shows "\<exists>n a. end_session T pulse ms ch trigger key D = (Some n, log_session_end ch ms (Some n)
      (write_ephemeral_summary T pulse ms (D\<lparr>conversations := conversations D @ [a]\<rparr>))) \<and>
    arch_messages a = ms \<and> arch_trigger a = trigger \<and> arch_key a = key"
proof -
  let ?a = "\<lparr>arch_number = highest_log_number D + 1, arch_trigger = trigger, arch_channel = ch, arch_key = key, arch_messages = ms\<rparr>"
  have "archive_conversation trigger ch key ms D = (Some (highest_log_number D + 1), D\<lparr>conversations := conversations D @ [?a]\<rparr>)"
    using assms by (simp add: archive_conversation_def next_fault_def)
  then show ?thesis using assms(1) by (auto simp: end_session_def intro!: exI [of _ ?a])
qed

lemma archive_plain:
  assumes "ms \<noteq> []" and "archive_faults D = []"
  shows "\<exists>n a. archive_conversation trigger ch key ms D = (Some n, D\<lparr>conversations := conversations D @ [a]\<rparr>) \<and>
    arch_messages a = ms \<and> arch_trigger a = trigger \<and> arch_key a = key"
  using assms by (auto simp: archive_conversation_def next_fault_def)

lemma archive_quarantine_fields [simp]:
  "conversations (archive_quarantine k ms D) = conversations D" "summary (archive_quarantine k ms D) = summary D"
  "conv_wals (archive_quarantine k ms D) = conv_wals D" "session_files (archive_quarantine k ms D) = session_files D"
  by (auto simp: archive_quarantine_def next_fault_def Let_def split: list.split option.split)

lemma written_fields [simp]:
  "conversations (log_session_end ch ms p D) = conversations D" "summary (log_session_end ch ms p D) = summary D"
  "conv_wals (log_session_end ch ms p D) = conv_wals D" "quarantine_files (log_session_end ch ms p D) = quarantine_files D"
  "archive_faults (log_session_end ch ms p D) = archive_faults D"
  "conversations (write_ephemeral_summary T pulse ms D) = conversations D"
  "conv_wals (write_ephemeral_summary T pulse ms D) = conv_wals D"
  "quarantine_files (write_ephemeral_summary T pulse ms D) = quarantine_files D"
  "archive_faults (write_ephemeral_summary T pulse ms D) = archive_faults D"
  by (simp_all add: log_session_end_def write_ephemeral_summary_def)

text \<open>
  The isolated tail of a session reaches the disk. A session that was spoken to while isolated keeps
  the mark where that began, and of a voice call nothing past the mark is archived. Of every other
  session everything is: an eviction writes the whole conversation to its file, without the mark, so
  that nothing drops the tail after a restart; and its expiry and the shutdown archive it whole.
\<close>

theorem isolated_tail_reaches_disk:
  assumes "sessions st k = Some s" and "least_active (sessions st) ks = Some k" and "sess_key (sdata s) = k"
    and "isolation_ephemeral_from (sdata s) = Some n" and "0 < n" and "n < length (messages (sdata s))"
    and "archive_faults D = []"
  shows "(\<exists>d. pending_saves (snd (evict_lru ks st D)) = pending_saves D @ [(json_name k, d)] \<and>
        messages d = messages (sdata s) \<and> isolation_ephemeral_from d = None) \<and>
    arch_messages (last (conversations (fst (snd (expire_one T pulse k (st, D, []))))))  = messages (sdata s) \<and>
    arch_messages (last (conversations (snd (archive_on_shutdown T pulse k (sdata s) D)))) = messages (sdata s) \<and>
    arch_messages (last (conversations (archive_call trigger (sdata s) D))) = take n (messages (sdata s))"
proof -
  have ne: "messages (sdata s) \<noteq> []" "take n (messages (sdata s)) \<noteq> []" using assms(5,6) by auto
  have "\<exists>d. pending_saves (snd (evict_lru ks st D)) = pending_saves D @ [(json_name k, d)] \<and>
      messages d = messages (sdata s) \<and> isolation_ephemeral_from d = None"
    using assms(1-3) by (simp add: evict_lru_def serialized_def)
  moreover have "arch_messages (last (conversations (fst (snd (expire_one T pulse k (st, D, [])))))) = messages (sdata s)"
    using end_session_plain [OF ne(1) assms(7), of T pulse "sess_channel (sdata s)" "''session-expired''" "Some k"] ne(1) assms(1)
    by (auto simp: expire_one_def remove_session_file_def)
  moreover have "arch_messages (last (conversations (snd (archive_on_shutdown T pulse k (sdata s) D)))) = messages (sdata s)"
    using end_session_plain [OF ne(1) assms(7), of T pulse "sess_channel (sdata s)" "''server-shutdown''" "Some k"] ne(1)
    by (auto simp: archive_on_shutdown_def)
  moreover have "arch_messages (last (conversations (archive_call trigger (sdata s) D))) = take n (messages (sdata s))"
    using archive_plain [OF ne(2) assms(7), of trigger "sess_channel (sdata s)" "Some (sess_key (sdata s))"] ne(2) assms(4)
    by (auto simp: archive_call_def end_call_def up_to_def)
  ultimately show ?thesis by blast
qed

subsection \<open>Recovery of orphaned logs\<close>

lemma lanes_nonempty: "es \<noteq> [] \<Longrightarrow> fst (entries_to_lanes es) @ snd (entries_to_lanes es) \<noteq> []"
proof -
  assume "es \<noteq> []"
  then obtain e where "e \<in> set es" by (cases es) auto
  then show ?thesis by (cases "entry_lane e") (auto simp: entries_to_lanes_def filter_empty_conv)
qed

text \<open>
  The recovery of an orphaned log archives it twice and summarises what was quarantined. Of a
  session that is not in the store, the messages after the checkpoint go into two archives, the same
  in both, and into the summary that the next session of the default model loads, the quarantine lane
  included; no quarantine file is written, and the log is then removed.
\<close>

theorem recovery_summarises_the_quarantine:
  assumes "\<not> has_session key st" and "read_after_checkpoint (text_chars T) C True key (conv_wals D) = Some es" and "es \<noteq> []"
    and "archive_faults D = []" and "entries_to_lanes es = (trunk, quar)"
  shows "(\<exists>a1 a2. conversations (recover_one T C pulse st key D) = conversations D @ [a1, a2] \<and>
      arch_messages a1 = trunk @ quar \<and> arch_messages a2 = trunk @ quar) \<and>
    map_option eph_count (summary (recover_one T C pulse st key D)) = Some (length trunk + length quar) \<and>
    map_option eph_topics (summary (recover_one T C pulse st key D)) = Some (map topic_line (take 5 (topics_of T (trunk @ quar)))) \<and>
    quarantine_files (recover_one T C pulse st key D) = quarantine_files D \<and>
    wal_files (conv_wals (recover_one T C pulse st key D)) (wal_name key) = None"
proof -
  let ?ms = "trunk @ quar" and ?ch = "orphan_channel key es"
  have ne: "?ms \<noteq> []" using lanes_nonempty [OF assms(3)] assms(5) by simp
  from archive_plain [OF ne assms(4), of "''crash-recovery''" ?ch "Some key"] obtain n1 a1 where
    a1: "archive_conversation ''crash-recovery'' ?ch (Some key) ?ms D = (Some n1, D\<lparr>conversations := conversations D @ [a1]\<rparr>)"
      "arch_messages a1 = ?ms" by blast
  let ?D1 = "D\<lparr>conversations := conversations D @ [a1]\<rparr>"
  have "archive_faults ?D1 = []" using assms(4) by simp
  from end_session_plain [OF ne this, of T pulse ?ch "''crash-recovery''" "Some key"] obtain n2 a2 where
    a2: "end_session T pulse ?ms ?ch ''crash-recovery'' (Some key) ?D1 = (Some n2, log_session_end ?ch ?ms (Some n2)
      (write_ephemeral_summary T pulse ?ms (?D1\<lparr>conversations := conversations ?D1 @ [a2]\<rparr>)))" "arch_messages a2 = ?ms"
    by blast
  have r: "recover_one T C pulse st key D = drop_wal key (log_session_end ?ch ?ms (Some n2)
      (write_ephemeral_summary T pulse ?ms (?D1\<lparr>conversations := conversations ?D1 @ [a2]\<rparr>)))"
    using assms(1-3,5) a1(1) a2(1) by (simp add: recover_one_def)
  show ?thesis unfolding r
    using a1(2) a2(2) ne
    by (auto simp: drop_wal_def write_ephemeral_summary_def log_session_end_def wal_remove_def remove_checkpoint_def)
qed

lemma recover_one_drops:
  assumes "\<not> has_session key st" and "read_after_checkpoint (text_chars T) C True key (conv_wals D) = Some es"
    and "archive_faults D = []"
  shows "\<exists>D'. recover_one T C pulse st key D = drop_wal key D'"
proof (cases "es = []")
  case False
  obtain trunk quar where l: "entries_to_lanes es = (trunk, quar)" by fastforce
  then have "trunk @ quar \<noteq> []" using lanes_nonempty [OF False] by simp
  from archive_plain [OF this assms(3), of "''crash-recovery''" "orphan_channel key es" "Some key"]
  show ?thesis using False assms(1,2) l by (auto simp: recover_one_def)
qed (use assms in \<open>auto simp: recover_one_def\<close>)

lemma strip_suffix_append [simp]: "strip_suffix p (x @ p) = Some x"
  by (simp add: strip_suffix_def)

lemma undashed_dashed_id: "CHR '':'' \<notin> set x \<Longrightarrow> dashed (undashed x) = x"
  by (induction x rule: undashed.induct) (auto simp: dashed_def)

lemma dashed_no_colon: "CHR '':'' \<notin> set (dashed k)"
  by (auto simp: dashed_def)

lemma undashed_hd: "a \<noteq> CHR ''-'' \<Longrightarrow> undashed (a # s) = a # undashed s"
  by (cases s) auto

lemma undashed_no_dashes: "undashed x \<noteq> a @ ''--'' @ b"
proof (induction x arbitrary: a rule: undashed.induct)
  case (1 c d s)
  show ?case
  proof (cases "c = CHR ''-'' \<and> d = CHR ''-''")
    case True
    then show ?thesis using 1(1) by (cases a) auto
  next
    case False
    show ?thesis
    proof (cases a)
      case Nil
      show ?thesis
      proof
        assume eq: "undashed (c # d # s) = a @ ''--'' @ b"
        then have c: "c = CHR ''-''" and u: "undashed (d # s) = CHR ''-'' # b" using False Nil by (auto split: if_split_asm)
        then have "d \<noteq> CHR ''-''" using False by blast
        with u show False by (simp add: undashed_hd)
      qed
    next
      case (Cons a0 a')
      then show ?thesis using 1(2) [of a'] False by auto
    qed
  qed
qed (auto simp: append_eq_Cons_conv Cons_eq_append_conv)

text \<open>
  The log of a live session is taken for an orphan when its key contains two dashes. File names
  write \<open>:\<close> as \<open>--\<close> and are read back so, so such a key is listed as another key: recovery finds no
  session of that name, archives the log of the live session, and removes it.
\<close>

theorem live_log_taken_for_orphan:
  assumes "k = a @ ''--'' @ b" and "has_session k st" and "\<not> has_session (undashed (dashed k)) st"
    and "read_after_checkpoint (text_chars T) C True (undashed (dashed k)) (conv_wals D) = Some es" and "archive_faults D = []"
  shows "list_active [wal_name k] = [undashed (dashed k)] \<and> undashed (dashed k) \<noteq> k \<and>
    wal_name (undashed (dashed k)) = wal_name k \<and>
    wal_files (conv_wals (recover_orphans T C pulse [wal_name k] st D)) (wal_name k) = None"
proof -
  let ?u = "undashed (dashed k)"
  have l: "list_active [wal_name k] = [?u]" by (simp add: list_active_def wal_name_def List.map_filter_simps)
  have n: "wal_name ?u = wal_name k" by (simp add: wal_name_def undashed_dashed_id dashed_no_colon)
  from recover_one_drops [OF assms(3-5), of pulse] obtain D' where "recover_one T C pulse st ?u D = drop_wal ?u D'" by blast
  then have "wal_files (conv_wals (recover_orphans T C pulse [wal_name k] st D)) (wal_name k) = None"
    by (simp add: recover_orphans_def l drop_wal_def remove_checkpoint_def wal_remove_def n)
  with l n show ?thesis using undashed_no_dashes [of "dashed k" a b] assms(1) by simp
qed

subsection \<open>A restart\<close>

text \<open>A session is saved: it is dirty, or its file already holds it.\<close>

definition saved :: "'j disk \<Rightarrow> bytes \<Rightarrow> 'j session \<Rightarrow> bool" where
  "saved D k s \<longleftrightarrow> sess_key (sdata s) = k \<and> (dirty s \<or> session_files D (json_name k) = Some (serialized (sdata s)))"

lemma persist_all_snoc:
  "persist_all (ks @ [k]) st D = persist k (fst (persist_all ks st D)) (snd (persist_all ks st D))"
  by (simp add: persist_all_def case_prod_beta)

lemma persist_other:
  "k' \<noteq> k \<Longrightarrow> sessions (fst (persist k st D)) k' = sessions st k'"
  by (auto simp: persist_def split: option.split)

lemma persist_all_other: "k \<notin> set ks \<Longrightarrow> sessions (fst (persist_all ks st D)) k = sessions st k"
proof (induction ks rule: rev_induct)
  case (snoc k' ks)
  then show ?case by (simp add: persist_all_snoc persist_other)
qed (simp add: persist_all_def)

text \<open>The writes that saving all sessions issues: one for each dirty one.\<close>

definition saves_of :: "'j store \<Rightarrow> bytes list \<Rightarrow> (bytes \<times> 'j session_data) list" where
  "saves_of st ks = concat (map (\<lambda>k. case sessions st k of
     Some s \<Rightarrow> if dirty s then [(json_name (sess_key (sdata s)), serialized (sdata s))] else [] | None \<Rightarrow> []) ks)"

lemma persist_all_saves:
  assumes "distinct ks"
  shows "pending_saves (snd (persist_all ks st D)) = pending_saves D @ saves_of st ks \<and>
    session_files (snd (persist_all ks st D)) = session_files D"
  using assms
proof (induction ks rule: rev_induct)
  case (snoc k ks)
  then have "sessions (fst (persist_all ks st D)) k = sessions st k" using persist_all_other by fastforce
  with snoc show ?case by (simp add: persist_all_snoc persist_def saves_of_def split: option.splits)
qed (simp add: persist_all_def saves_of_def)

lemma saves_of_mem:
  "(n, d) \<in> set (saves_of st ks) \<longleftrightarrow>
     (\<exists>k \<in> set ks. \<exists>s. sessions st k = Some s \<and> dirty s \<and> n = json_name (sess_key (sdata s)) \<and> d = serialized (sdata s))"
proof -
  have "(n, d) \<in> set (case sessions st k of
      Some s \<Rightarrow> if dirty s then [(json_name (sess_key (sdata s)), serialized (sdata s))] else [] | None \<Rightarrow> []) \<longleftrightarrow>
    (\<exists>s. sessions st k = Some s \<and> dirty s \<and> n = json_name (sess_key (sdata s)) \<and> d = serialized (sdata s))" for k
    by (cases "sessions st k") auto
  then show ?thesis by (simp add: saves_of_def)
qed

lemma saves_of_distinct:
  assumes "distinct ks" and "inj_on json_name (set ks)"
    and "\<And>k s. k \<in> set ks \<Longrightarrow> sessions st k = Some s \<Longrightarrow> sess_key (sdata s) = k"
  shows "distinct (map fst (saves_of st ks))"
  using assms
proof (induction ks)
  case (Cons k ks)
  have "json_name k \<notin> fst ` set (saves_of st ks)"
  proof
    assume "json_name k \<in> fst ` set (saves_of st ks)"
    then obtain k' s where "k' \<in> set ks" "sessions st k' = Some s" "json_name k = json_name (sess_key (sdata s))"
      by (auto simp: saves_of_mem)
    then have "json_name k = json_name k'" "k' \<in> set (k # ks)" using Cons.prems(3) [of k' s] by simp_all
    then have "k = k'" using inj_onD [OF Cons.prems(2)] by simp
    with \<open>k' \<in> set ks\<close> Cons.prems(1) show False by simp
  qed
  moreover have "distinct (map fst (saves_of st ks))"
    using Cons.prems(1,3) inj_on_subset [OF Cons.prems(2)] by (intro Cons.IH) auto
  moreover have "saves_of st (k # ks) = saves_of st ks \<or>
      (\<exists>s. sessions st k = Some s \<and> saves_of st (k # ks) = (json_name k, serialized (sdata s)) # saves_of st ks)"
    using Cons.prems(3) [of k] by (cases "sessions st k") (auto simp: saves_of_def)
  ultimately show ?case by auto
qed (simp add: saves_of_def)

text \<open>
  What the pool leaves, when no two of its writes go to one file: each file is as its write landed, or
  as it was.
\<close>

lemma writes_end_files:
  assumes "writes_end D failed D'" and "distinct (map fst (pending_saves D))"
  shows "set (pending_saves D') \<subseteq> set (pending_saves D) \<and> distinct (map fst (pending_saves D')) \<and>
    failed \<subseteq> fst ` set (pending_saves D) \<and> failed \<inter> fst ` set (pending_saves D') = {} \<and>
    (\<forall>n. session_files D' n = (case map_of (pending_saves D) n of
       Some d \<Rightarrow> if n \<in> failed \<or> n \<in> fst ` set (pending_saves D') then session_files D n else Some d
     | None \<Rightarrow> session_files D n))"
  using assms
proof (induction rule: writes_end.induct)
  case (none_ends D)
  then show ?case by (auto split: option.splits simp: rev_image_eqI dest!: map_of_SomeD)
next
  case (one_ends D failed D' i w)
  let ?js = "pending_saves D'" and ?o = "take i (pending_saves D') @ drop (Suc i) (pending_saves D')"
  note ih = one_ends.IH [OF one_ends.prems]
  obtain name d where j: "?js ! i = (name, d)" by fastforce
  have sp: "?js = take i ?js @ (name, d) # drop (Suc i) ?js" using id_take_nth_drop [OF one_ends.hyps(2)] j by simp
  have mem: "set ?js = insert (name, d) (set ?o)" by (subst sp) auto
  have "distinct (map fst (take i ?js @ (name, d) # drop (Suc i) ?js))" using ih sp by metis
  then have dist: "distinct (map fst ?o)" "name \<notin> fst ` set ?o" by auto
  have at: "map_of (pending_saves D) name = Some d"
    using ih mem one_ends.prems by (intro map_of_is_SomeI) auto
  have nf: "name \<notin> failed" "failed \<inter> fst ` set ?o = {}" using ih mem by auto
  have p: "pending_saves (write_fn w i D') = ?o" by (simp add: write_fn_def j Let_def)
  have f: "session_files (write_fn w i D') = (if w = Landed then (session_files D')(name \<mapsto> d) else session_files D')"
    using dist(2) by (auto simp: write_fn_def j Let_def split: write_end.splits)
  have old: "session_files D' name = session_files D name" using ih at mem by auto
  let ?F = "if w = Landed then failed else insert name failed"
  have "name \<in> fst ` set (pending_saves D)" using at by (force dest: map_of_SomeD)
  then have parts: "set ?o \<subseteq> set (pending_saves D)" "?F \<subseteq> fst ` set (pending_saves D)" "?F \<inter> fst ` set ?o = {}"
    using ih mem dist(2) nf(2) by auto
  have files: "session_files (write_fn w i D') n = (case map_of (pending_saves D) n of
       Some d \<Rightarrow> if n \<in> ?F \<or> n \<in> fst ` set ?o then session_files D n else Some d
     | None \<Rightarrow> session_files D n)" for n
  proof (cases "n = name")
    case True
    then show ?thesis using f at dist(2) nf(1) old by auto
  next
    case False
    then have "session_files (write_fn w i D') n = session_files D' n" by (simp add: f)
    with False ih mem show ?thesis by (auto split: option.splits)
  qed
  show ?case unfolding p j fst_conv using parts dist(1) files by blast
qed

lemma load_one_file:
  assumes "\<And>d. x = Some d \<Longrightarrow> json_name (sess_key d) = n \<and> \<not> is_old_format_key (sess_key d)"
  shows "ttl_seconds (fst (load_session_file T pulse now (n, x) (st, D))) = ttl_seconds st"
    and "n \<noteq> json_name k \<Longrightarrow> sessions (fst (load_session_file T pulse now (n, x) (st, D))) k = sessions st k"
  using assms
  by (auto simp: load_session_file_def migrate_key_def insert_loaded_def Let_def split: option.splits)

lemma load_other_files:
  assumes "\<And>n d. n \<in> set names \<Longrightarrow> content n = Some d \<Longrightarrow> json_name (sess_key d) = n \<and> \<not> is_old_format_key (sess_key d)"
    and "json_name k \<notin> set names"
  shows "sessions (fst (load_persisted T pulse now (map (\<lambda>n. (n, content n)) names) st D)) k = sessions st k \<and>
    ttl_seconds (fst (load_persisted T pulse now (map (\<lambda>n. (n, content n)) names) st D)) = ttl_seconds st"
  using assms
proof (induction names arbitrary: st D)
  case (Cons n names)
  obtain st' D' where l: "load_session_file T pulse now (n, content n) (st, D) = (st', D')" by fastforce
  from load_one_file(1) [of "content n" n T pulse now st D] load_one_file(2) [of "content n" n k T pulse now st D] Cons.prems l have
    "ttl_seconds st' = ttl_seconds st" "sessions st' k = sessions st k" by auto
  moreover have "sessions (fst (load_persisted T pulse now (map (\<lambda>n. (n, content n)) names) st' D')) k = sessions st' k \<and>
      ttl_seconds (fst (load_persisted T pulse now (map (\<lambda>n. (n, content n)) names) st' D')) = ttl_seconds st'"
    using Cons.prems by (intro Cons.IH) auto
  moreover have "load_persisted T pulse now (map (\<lambda>n. (n, content n)) (n # names)) st D =
      load_persisted T pulse now (map (\<lambda>n. (n, content n)) names) st' D'"
    by (simp add: load_persisted_def l)
  ultimately show ?case by simp
qed (simp add: load_persisted_def)

lemma load_own_file:
  assumes "distinct names" and "json_name k \<in> set names" and "content (json_name k) = Some d" and "sess_key d = k"
    and "\<And>n d. n \<in> set names \<Longrightarrow> content n = Some d \<Longrightarrow> json_name (sess_key d) = n \<and> \<not> is_old_format_key (sess_key d)"
    and "sessions st k = None"
  shows "sessions (fst (load_persisted T pulse now (map (\<lambda>n. (n, content n)) names) st D)) k =
    (if is_expired (ttl_seconds st) now d then None else Some \<lparr>sdata = d, dirty = False\<rparr>)"
proof -
  let ?load = "\<lambda>names (st, D). load_persisted T pulse now (map (\<lambda>n. (n, content n)) names) st D"
  from assms(1,2) obtain before after where names: "names = before @ json_name k # after"
    "json_name k \<notin> set before" "json_name k \<notin> set after" by (auto simp: in_set_conv_decomp)
  obtain st1 D1 where 1: "?load before (st, D) = (st1, D1)" by fastforce
  obtain st2 D2 where 2: "load_session_file T pulse now (json_name k, content (json_name k)) (st1, D1) = (st2, D2)" by fastforce
  have "?load names (st, D) = ?load after (st2, D2)"
    using 1 2 by (simp add: load_persisted_def names(1))
  moreover have s1: "sessions st1 k = None" "ttl_seconds st1 = ttl_seconds st"
    using load_other_files [where names = before and content = content and k = k and T = T and pulse = pulse and now = now and st = st and D = D] assms(5,6) names 1 by auto
  moreover have "sessions st2 k = (if is_expired (ttl_seconds st) now d then None else Some \<lparr>sdata = d, dirty = False\<rparr>)"
    using 2 s1 assms(3,4) assms(5) [OF assms(2,3)]
    by (auto simp: load_session_file_def migrate_key_def insert_loaded_def Let_def)
  moreover have "sessions (fst (?load after (st2, D2))) k = sessions st2 k"
    using load_other_files [where names = after and content = content and k = k and T = T and pulse = pulse and now = now and st = st2 and D = D2] assms(5) names by auto
  ultimately show ?thesis by simp
qed

text \<open>
  C25: a restart keeps the sessions. After \<open>persist_all\<close>, with no earlier write under way, the
  writes it issued end in any order, each landing or failing. A new process that then reads the
  directory, in any order and with whatever other session files it holds, has every session that was
  dirty and whose write did not fail, or that was not dirty and in its file already: every
  message of both lanes, every counter and mark but the isolation watermarks; it leaves out those
  that have expired by then. No two keys may share a file name, the files are under the names of their keys, and no key is of the old format.
\<close>

theorem restart_keeps_sessions:
  assumes "listing (sessions st) ks" and "inj_on json_name (dom (sessions st))"
    and "\<And>k s. sessions st k = Some s \<Longrightarrow> sess_key (sdata s) = k \<and> \<not> is_old_format_key k"
    and "\<And>n d. session_files D n = Some d \<Longrightarrow> json_name (sess_key d) = n \<and> \<not> is_old_format_key (sess_key d)"
    and "pending_saves D = []" and "persist_all ks st D = (st1, D1)"
    and "writes_end D1 failed D2" and "pending_saves D2 = []"
    and "distinct names" and "dom (session_files D2) \<subseteq> set names"
    and "sessions st0 = Map.empty" and "ttl_seconds st0 = ttl_seconds st"
    and "sessions st k = Some s" and "saved D k s" and "json_name k \<notin> failed"
  shows "sessions (fst (load_persisted T pulse now (map (\<lambda>n. (n, session_files D2 n)) names) st0 D2)) k =
    (if is_expired (ttl_seconds st) now (sdata s) then None else Some \<lparr>sdata = serialized (sdata s), dirty = False\<rparr>)"
proof -
  have ks: "distinct ks" "set ks = dom (sessions st)" using assms(1) by (simp_all add: listing_def)
  have key: "sess_key (sdata s') = k'" if "sessions st k' = Some s'" for k' s'
    using assms(3) [OF that] by simp
  have D1: "pending_saves D1 = saves_of st ks" "session_files D1 = session_files D"
    using persist_all_saves [OF ks(1), of st D] assms(5,6) by simp_all
  have dist: "distinct (map fst (saves_of st ks))"
    using saves_of_distinct [OF ks(1), of st] ks(2) assms(2) key by simp
  have D2: "session_files D2 n = (case map_of (saves_of st ks) n of
      Some d \<Rightarrow> if n \<in> failed then session_files D n else Some d | None \<Rightarrow> session_files D n)" for n
    using writes_end_files [OF assms(7)] dist assms(8) D1 by (simp split: option.split)
  have named: "json_name (sess_key d) = n \<and> \<not> is_old_format_key (sess_key d)" if "session_files D2 n = Some d" for n d
  proof (cases "session_files D n = Some d")
    case False
    with that D2 [of n] have "(n, d) \<in> set (saves_of st ks)" by (auto split: option.splits if_splits dest: map_of_SomeD)
    then show ?thesis using key assms(3) by (auto simp: saves_of_mem serialized_def)
  qed (rule assms(4))
  have own: "session_files D2 (json_name k) = Some (serialized (sdata s))"
  proof (cases "dirty s")
    case True
    then have "(json_name k, serialized (sdata s)) \<in> set (saves_of st ks)"
      using assms(13) key ks(2) by (auto simp: saves_of_mem)
    with dist have "map_of (saves_of st ks) (json_name k) = Some (serialized (sdata s))" by (rule map_of_is_SomeI)
    with D2 assms(15) show ?thesis by simp
  next
    case False
    have "json_name k \<notin> fst ` set (saves_of st ks)"
    proof
      assume "json_name k \<in> fst ` set (saves_of st ks)"
      then obtain k' s' where "sessions st k' = Some s'" "dirty s'" "json_name k = json_name k'"
        using key by (auto simp: saves_of_mem)
      then show False using assms(2,13) False by (auto dest!: inj_onD)
    qed
    then have "map_of (saves_of st ks) (json_name k) = None" by (simp add: map_of_eq_None_iff)
    with D2 [of "json_name k"] assms(14) False show ?thesis by (simp add: saved_def)
  qed
  have "sess_key (serialized (sdata s)) = k" "is_expired (ttl_seconds st) now (serialized (sdata s)) = is_expired (ttl_seconds st) now (sdata s)"
    using key assms(13) by (simp_all add: serialized_def is_expired_def)
  moreover have "json_name k \<in> set names" using assms(10) own by blast
  moreover have "sessions st0 k = None" using assms(11) by simp
  ultimately show ?thesis
    using load_own_file [of names k "session_files D2" "serialized (sdata s)" st0 T pulse now D2] assms(9,12) own named by simp
qed

subsection \<open>Concrete stores\<close>

definition demo_text :: text_env where
  "demo_text = \<lparr>text_chars = demo_wal_unicode, tag = (\<lambda>_. None)\<rparr>"

definition demo_sdata :: "bytes \<Rightarrow> unit session_data" where
  "demo_sdata k = (session_new 0 k ''chat'' ''who'')\<lparr>messages := [says User ''a'', says User ''b''],
     isolation_ephemeral_from := Some 1\<rparr>"

definition demo_session :: "bytes \<Rightarrow> unit session" where
  "demo_session k = \<lparr>sdata = demo_sdata k, dirty = True\<rparr>"

definition demo_sessions :: "unit store" where
  "demo_sessions = \<lparr>sessions = [''owner'' \<mapsto> demo_session ''owner''], live_calls = [''guest:a'' \<mapsto> demo_session ''guest:a''],
     ended_calls = [], ttl_seconds = 86400, max_sessions = 1,
     store_owner = \<lparr>owner_name = None, discord_id = None, phone = None\<rparr>, store_peers = Map.empty\<rparr>"

definition demo_disk :: "unit disk" where
  "demo_disk = \<lparr>conversations = [], summary = None, logbook = [], quarantine_files = [], session_files = Map.empty, pending_saves = [],
     conv_wals = \<lparr>wal_files = Map.empty, wal_marks = Map.empty\<rparr>, archive_faults = []\<rparr>"

definition demo_orphan :: "bytes \<Rightarrow> unit disk" where
  "demo_orphan k = demo_disk\<lparr>conv_wals := \<lparr>wal_files = [wal_name k \<mapsto> entry_log demo_entry_codec [demo_entry TrunkLane, demo_entry QuarantineLane]],
     wal_marks = Map.empty\<rparr>\<rparr>"

lemma demo_sessions_simps [simp]:
  "sessions demo_sessions = [''owner'' \<mapsto> demo_session ''owner'']" "live_calls demo_sessions = [''guest:a'' \<mapsto> demo_session ''guest:a'']"
  "ended_calls demo_sessions = []" "max_sessions demo_sessions = 1" "ttl_seconds demo_sessions = 86400"
  "sdata (demo_session k) = demo_sdata k" "dirty (demo_session k)" "sess_key (demo_sdata k) = k"
  "archive_faults demo_disk = []" "archive_faults (demo_orphan k) = []" "text_chars demo_text = demo_wal_unicode"
  by (simp_all add: demo_sessions_def demo_session_def demo_sdata_def demo_disk_def demo_orphan_def demo_text_def session_new_def)

lemma demo_orphan_read:
  assumes "wal_name k' = wal_name k"
  shows "read_after_checkpoint demo_wal_unicode demo_entry_codec True k' (conv_wals (demo_orphan k)) =
    Some [demo_entry TrunkLane, demo_entry QuarantineLane]"
proof -
  have "wal_read demo_wal_unicode demo_entry_codec True k' (conv_wals (demo_orphan k)) = Some [demo_entry TrunkLane, demo_entry QuarantineLane]"
    by (rule wal_read_log [OF demo_entry_codec_ok]) (simp_all add: demo_encodes demo_orphan_def assms file_of_def)
  then show ?thesis
    by (simp add: read_after_checkpoint_def read_checkpoint_def demo_orphan_def demo_entry_def)
qed

theorem evicted_session_is_forgotten_witness:
  "case get_or_create_by_key [''owner''] 5 ''guest:x'' ''chat'' ''x'' demo_sessions demo_disk of (s1, st1, D1) \<Rightarrow>
     case get_or_create_by_key [''guest:x''] 6 ''owner'' ''chat'' ''o'' st1 D1 of (s2, st2, D2) \<Rightarrow>
       pending_saves D1 = [(json_name ''owner'', serialized (demo_sdata ''owner''))] \<and> messages (sdata s2) = []"
proof -
  obtain s1 st1 D1 where c1: "get_or_create_by_key [''owner''] 5 ''guest:x'' ''chat'' ''x'' demo_sessions demo_disk = (s1, st1, D1)"
    by (metis prod_cases3)
  obtain s2 st2 D2 where c2: "get_or_create_by_key [''guest:x''] 6 ''owner'' ''chat'' ''o'' st1 D1 = (s2, st2, D2)"
    by (metis prod_cases3)
  obtain st3 D3 where c3: "persist ''owner'' (st2\<lparr>sessions := (sessions st2)(''owner'' \<mapsto> s2\<lparr>sdata := (sdata s2)\<lparr>messages := []\<rparr>, dirty := True\<rparr>)\<rparr>) D2 = (st3, D3)"
    by fastforce
  have "listing (sessions demo_sessions) [''owner'']" "least_active (sessions demo_sessions) [''owner''] = Some ''owner''"
    by (auto simp: listing_def least_active_def)
  from evicted_session_is_forgotten [OF this(1) _ _ this(2) _ _ c1 c2 c3] c1 c2 show ?thesis by (simp add: demo_disk_def)
qed

theorem calls_cost_only_idle_calls_witness:
  "case get_or_create_call {} [''guest:a''] 5 ''guest:b'' ''voice'' ''b'' demo_sessions of (s, st') \<Rightarrow>
     sessions st' = sessions demo_sessions \<and> live_calls st' ''guest:b'' = Some s"
proof -
  obtain s st' where c: "get_or_create_call {} [''guest:a''] 5 ''guest:b'' ''voice'' ''b'' demo_sessions = (s, st')" by fastforce
  have "listing (live_calls demo_sessions) [''guest:a'']" by (auto simp: listing_def)
  from calls_cost_only_idle_calls [OF this _ _ c] c show ?thesis by simp
qed

theorem isolated_tail_reaches_disk_witness:
  "\<exists>d. pending_saves (snd (evict_lru [''owner''] demo_sessions demo_disk)) = pending_saves demo_disk @ [(json_name ''owner'', d)] \<and>
     messages d = [says User ''a'', says User ''b'']"
proof -
  have "least_active (sessions demo_sessions) [''owner''] = Some ''owner''" "isolation_ephemeral_from (demo_sdata ''owner'') = Some 1"
      "messages (demo_sdata ''owner'') = [says User ''a'', says User ''b'']"
    by (simp_all add: least_active_def demo_sdata_def)
  then show ?thesis
    using isolated_tail_reaches_disk [of demo_sessions "''owner''" "demo_session ''owner''" "[''owner'']" 1 demo_disk demo_text "[]" "[]"]
    by auto
qed

theorem recovery_summarises_the_quarantine_witness:
  "quarantine_files (recover_one demo_text demo_entry_codec ''Nova'' demo_sessions ''guest:q'' (demo_orphan ''guest:q'')) = [] \<and>
   map_option eph_count (summary (recover_one demo_text demo_entry_codec ''Nova'' demo_sessions ''guest:q'' (demo_orphan ''guest:q''))) = Some 2"
proof -
  have h: "\<not> has_session ''guest:q'' demo_sessions" by (simp add: has_session_def)
  have l: "entries_to_lanes [demo_entry TrunkLane, demo_entry QuarantineLane] =
      ([entry_message (demo_entry TrunkLane)], [entry_message (demo_entry QuarantineLane)])"
    by (simp add: entries_to_lanes_def demo_entry_def)
  have r: "read_after_checkpoint (text_chars demo_text) demo_entry_codec True ''guest:q'' (conv_wals (demo_orphan ''guest:q'')) =
      Some [demo_entry TrunkLane, demo_entry QuarantineLane]" using demo_orphan_read by simp
  have "quarantine_files (demo_orphan ''guest:q'') = []" by (simp add: demo_orphan_def demo_disk_def)
  with recovery_summarises_the_quarantine [OF h r _ _ l, of "''Nova''"] show ?thesis by (simp add: numeral_2_eq_2)
qed

theorem live_log_taken_for_orphan_witness:
  "let k = ''guest:a--b''; st = demo_sessions\<lparr>sessions := [''guest:a--b'' \<mapsto> demo_session ''guest:a--b'']\<rparr> in
     has_session k st \<and> wal_files (conv_wals (demo_orphan k)) (wal_name k) \<noteq> None \<and>
     wal_files (conv_wals (recover_orphans demo_text demo_entry_codec ''Nova'' [wal_name k] st (demo_orphan k))) (wal_name k) = None"
proof -
  let ?k = "''guest:a--b''" and ?st = "demo_sessions\<lparr>sessions := [''guest:a--b'' \<mapsto> demo_session ''guest:a--b'']\<rparr>"
  let ?u = "undashed (dashed ?k)"
  have n: "wal_name ?u = wal_name ?k" unfolding wal_name_def by (simp only: undashed_dashed_id dashed_no_colon not_False_eq_True)
  have "?u \<noteq> ''guest:a'' @ ''--'' @ ''b''" by (rule undashed_no_dashes)
  moreover have "?u \<noteq> ''guest:a''" by (simp add: dashed_def)
  ultimately have "\<not> has_session ?u ?st" "has_session ?k ?st" by (simp_all add: has_session_def)
  moreover have "read_after_checkpoint (text_chars demo_text) demo_entry_codec True ?u (conv_wals (demo_orphan ?k)) =
      Some [demo_entry TrunkLane, demo_entry QuarantineLane]" using demo_orphan_read [OF n] by simp
  ultimately show ?thesis
    using live_log_taken_for_orphan [of ?k "''guest:a''" "''b''" ?st demo_text demo_entry_codec "demo_orphan ?k"
        "[demo_entry TrunkLane, demo_entry QuarantineLane]" "''Nova''"]
    by (simp add: Let_def demo_orphan_def)
qed

theorem restart_keeps_sessions_witness:
  "case persist_all [''owner''] demo_sessions demo_disk of (st1, D1) \<Rightarrow>
     sessions (fst (load_persisted demo_text ''Nova'' 9 (map (\<lambda>n. (n, session_files (write_fn Landed 0 D1) n)) [json_name ''owner''])
       (demo_sessions\<lparr>sessions := Map.empty\<rparr>) (write_fn Landed 0 D1))) ''owner'' =
     Some \<lparr>sdata = serialized (demo_sdata ''owner''), dirty = False\<rparr>"
proof -
  obtain st1 D1 where c: "persist_all [''owner''] demo_sessions demo_disk = (st1, D1)" by fastforce
  then have D1: "D1 = persist_session_data (demo_sdata ''owner'') demo_disk"
    by (simp add: persist_all_def persist_def)
  have "listing (sessions demo_sessions) [''owner'']" "inj_on json_name (dom (sessions demo_sessions))"
    by (auto simp: listing_def inj_on_def)
  moreover have "sess_key (sdata s) = k \<and> \<not> is_old_format_key k" if "sessions demo_sessions k = Some s" for k s
    using that by (auto simp: is_old_format_key_def split: if_split_asm)
  moreover have "saved demo_disk ''owner'' (demo_session ''owner'')" by (simp add: saved_def)
  moreover have e: "\<not> is_expired (ttl_seconds demo_sessions) 9 (demo_sdata ''owner'')"
    by (simp add: is_expired_def num_seconds_def as_i64_def demo_sdata_def session_new_def)
  moreover have "writes_end D1 {} (write_fn Landed 0 D1)"
    using one_ends [OF none_ends, of 0 D1 Landed] by (simp add: D1 demo_disk_def)
  moreover have "pending_saves (write_fn Landed 0 D1) = []" "dom (session_files (write_fn Landed 0 D1)) \<subseteq> set [json_name ''owner'']"
    by (auto simp: write_fn_def D1 demo_disk_def Let_def split: if_split_asm)
  ultimately show ?thesis
    using restart_keeps_sessions [of demo_sessions "[''owner'']" demo_disk st1 D1 "{}" "write_fn Landed 0 D1" "[json_name ''owner'']"
        "demo_sessions\<lparr>sessions := Map.empty\<rparr>" "''owner''" "demo_session ''owner''" demo_text "''Nova''" 9] c
    by (simp add: demo_disk_def)
qed

end
