(* ===== verification/ContextBuffer.thy ===== *)
theory ContextBuffer
  imports Conversation
begin

text \<open>
  The channel context buffer, \<open>src/context_buffer.rs\<close>: the last lines said on a channel, and which of
  them a turn gets to see. Times are milliseconds. A file holds a buffer as it is (\<open>serde_json\<close>); the
  Markdown copy for people is left out.
\<close>

definition MAX_ENTRY_CHARS :: nat where "MAX_ENTRY_CHARS = 500"

record buffer_config =
  buffer_enabled :: bool
  max_messages :: nat
  max_age_minutes :: u64
  max_entries :: nat
  max_inject_chars :: nat
  pulse_filter :: bool

definition buffer_config_default :: buffer_config where
  "buffer_config_default = \<lparr>buffer_enabled = True, max_messages = 5, max_age_minutes = 10, max_entries = 3,
     max_inject_chars = 1000, pulse_filter = True\<rparr>"

record buffer_entry =
  line_sender :: bytes
  line_role :: bytes
  line_text :: bytes
  line_time :: int

record channel_buffer =
  buffer_channel :: bytes
  buffer_entries :: "buffer_entry list"

record buffer_store =
  buffers :: "bytes \<rightharpoonup> channel_buffer"
  kept_messages :: nat

subsection \<open>Recording\<close>

definition truncate_for_buffer :: "bytes \<Rightarrow> nat \<Rightarrow> bytes" where
  "truncate_for_buffer s n = (if length s \<le> n then s else safe_truncate s n @ ''...'')"

definition sanitize_channel_name :: "bytes \<Rightarrow> bytes" where
  "sanitize_channel_name s = map (\<lambda>c. if c = CHR ''/'' \<or> c = CHR '':'' \<or> c = CHR '' '' then CHR ''-'' else c) s"

definition buffer_file :: "bytes \<Rightarrow> bytes" where
  "buffer_file ch = ''context-buffer-'' @ sanitize_channel_name ch @ ''.json''"

definition persist_buffer :: "channel_buffer \<Rightarrow> (bytes \<rightharpoonup> channel_buffer) \<Rightarrow> (bytes \<rightharpoonup> channel_buffer)" where
  "persist_buffer b files = files(buffer_file (buffer_channel b) \<mapsto> b)"

definition record_line ::
  "int \<Rightarrow> bytes \<Rightarrow> bytes \<Rightarrow> bytes \<Rightarrow> bytes \<Rightarrow> buffer_store \<times> (bytes \<rightharpoonup> channel_buffer) \<Rightarrow>
     buffer_store \<times> (bytes \<rightharpoonup> channel_buffer)" where
  "record_line now ch who as s = (\<lambda>(st, files).
     (let e = \<lparr>line_sender = who, line_role = as, line_text = truncate_for_buffer s MAX_ENTRY_CHARS, line_time = now\<rparr>;
          b = (case buffers st ch of None \<Rightarrow> \<lparr>buffer_channel = ch, buffer_entries = []\<rparr> | Some b \<Rightarrow> b);
          es = buffer_entries b @ [e];
          b' = b\<lparr>buffer_entries := drop (length es - kept_messages st) es\<rparr>
      in (st\<lparr>buffers := (buffers st)(ch \<mapsto> b')\<rparr>, persist_buffer b' files)))"

text \<open>The files of the directory in some order; \<open>None\<close> is one that does not parse.\<close>

fun load_from_disk :: "(bytes \<times> channel_buffer option) list \<Rightarrow> buffer_store \<Rightarrow> buffer_store" where
  "load_from_disk [] st = st"
| "load_from_disk ((name, b) # fs) st =
     load_from_disk fs
       (if starts_with ''context-buffer-'' name \<and> starts_with (rev ''.json'') (rev name)
        then (case b of None \<Rightarrow> st | Some b \<Rightarrow> st\<lparr>buffers := (buffers st)(buffer_channel b \<mapsto> b)\<rparr>)
        else st)"

subsection \<open>What a turn gets\<close>

definition is_duplicate :: "unicode \<Rightarrow> bytes \<Rightarrow> bytes list \<Rightarrow> bool" where
  "is_duplicate U s texts \<longleftrightarrow> trim U s \<noteq> [] \<and> list_ex (contains_str (trim U s)) texts"

definition two_digits :: "int \<Rightarrow> bytes" where
  "two_digits n = (if n < 10 then ''0'' @ decimal (nat n) else decimal (nat n))"

definition clock_text :: "int \<Rightarrow> bytes" where
  "clock_text t = two_digits (t div 3600000 mod 24) @ '':'' @ two_digits (t div 60000 mod 60) @ '' UTC''"

definition entry_text :: "buffer_entry \<Rightarrow> bytes" where
  "entry_text e = ''['' @ clock_text (line_time e) @ ''] '' @ line_sender e @ '' ('' @ line_role e @ ''): '' @ line_text e"

definition eligible ::
  "unicode \<Rightarrow> buffer_config \<Rightarrow> int \<Rightarrow> bytes \<Rightarrow> bytes list \<Rightarrow> bytes list \<Rightarrow> buffer_entry \<Rightarrow> bool" where
  "eligible U cfg now pulse humans texts e \<longleftrightarrow>
     \<not> sint (max_age_minutes cfg) * 60000 < now - line_time e \<and>
     (pulse_filter cfg \<longrightarrow>
        list_ex (\<lambda>s. eq_ignore_case s (line_sender e)) humans \<or> eq_ignore_case (line_sender e) pulse) \<and>
     \<not> is_duplicate U (line_text e) texts"

text \<open>The loop over the entries, newest first: what is used up so far, and the lines it goes on to take.\<close>

fun take_lines :: "(buffer_entry \<Rightarrow> bool) \<Rightarrow> buffer_config \<Rightarrow> nat \<Rightarrow> nat \<Rightarrow> buffer_entry list \<Rightarrow> bytes list" where
  "take_lines ok cfg used n [] = []"
| "take_lines ok cfg used n (e # es) =
     (if \<not> ok e then take_lines ok cfg used n es
      else if max_inject_chars cfg < used + length (entry_text e) then []
      else if max_entries cfg \<le> Suc n then [entry_text e]
      else entry_text e # take_lines ok cfg (used + length (entry_text e)) (Suc n) es)"

definition get_context_filtered ::
  "unicode \<Rightarrow> buffer_config \<Rightarrow> int \<Rightarrow> bytes \<Rightarrow> bytes \<Rightarrow> bytes list \<Rightarrow> bytes list \<Rightarrow> buffer_store \<Rightarrow> bytes option" where
  "get_context_filtered U cfg now ch pulse humans texts st =
     (case buffers st ch of
        None \<Rightarrow> None
      | Some b \<Rightarrow>
          (let ls = take_lines (eligible U cfg now pulse humans texts) cfg 0 0 (rev (buffer_entries b))
           in if ls = [] then None else Some (join_with [newline] (rev ls))))"

text \<open>
  \<open>extract_recent_session_texts\<close> and \<open>human_senders\<close> of the chat handler.
\<close>

definition extract_recent_session_texts :: "unicode \<Rightarrow> 'j message list \<Rightarrow> nat \<Rightarrow> bytes list" where
  "extract_recent_session_texts U ms n =
     List.map_filter (\<lambda>m.
       (case msg_content m of
          TextContent s \<Rightarrow> if trim U s = [] then None else Some (trim U s)
        | Blocks bs \<Rightarrow>
            (let s = concat (List.map_filter (\<lambda>b. case b of TextBlock t \<Rightarrow> Some t | _ \<Rightarrow> None) bs)
             in if trim U s = [] then None else Some s)))
       (take n (rev ms))"

definition human_senders :: "bytes \<Rightarrow> bytes option \<Rightarrow> bytes list" where
  "human_senders owner_alias who =
     owner_alias # (case who of None \<Rightarrow> [] | Some s \<Rightarrow> if eq_ignore_case s owner_alias then [] else [s])"

subsection \<open>The lines that are taken\<close>

definition lines_length :: "buffer_entry list \<Rightarrow> nat" where
  "lines_length es = sum_list (map (length \<circ> entry_text) es)"

lemma lines_length_simps [simp]: "lines_length [] = 0" "lines_length (e # es) = length (entry_text e) + lines_length es"
  by (simp_all add: lines_length_def)

lemma take_lines_take:
  "\<exists>m. take_lines ok cfg used n es = map entry_text (take m (filter ok es)) \<and> m \<le> length (filter ok es) \<and>
     used + lines_length (take m (filter ok es)) \<le> max (max_inject_chars cfg) used \<and>
     n + m \<le> max (max_entries cfg) (Suc n) \<and>
     (m < length (filter ok es) \<longrightarrow> max_entries cfg \<le> n + m \<or>
        max_inject_chars cfg < used + lines_length (take (Suc m) (filter ok es)))"
proof (induction ok cfg used n es rule: take_lines.induct)
  case (2 ok cfg used n e es)
  consider (skip) "\<not> ok e" | (full) "ok e" "max_inject_chars cfg < used + length (entry_text e)"
    | (last) "ok e" "\<not> max_inject_chars cfg < used + length (entry_text e)" "max_entries cfg \<le> Suc n"
    | (more) "ok e" "\<not> max_inject_chars cfg < used + length (entry_text e)" "\<not> max_entries cfg \<le> Suc n" by blast
  then show ?case
  proof cases
    case skip
    then show ?thesis using 2(1) by simp
  next
    case full
    then show ?thesis by (intro exI [of _ 0]) simp
  next
    case last
    then show ?thesis by (intro exI [of _ "Suc 0"]) simp
  next
    case more
    from more(1) have "\<not> \<not> ok e" by simp
    from 2(2) [OF this more(2,3)] obtain m where m:
      "take_lines ok cfg (used + length (entry_text e)) (Suc n) es = map entry_text (take m (filter ok es)) \<and>
       m \<le> length (filter ok es) \<and>
       used + length (entry_text e) + lines_length (take m (filter ok es)) \<le>
         max (max_inject_chars cfg) (used + length (entry_text e)) \<and>
       Suc n + m \<le> max (max_entries cfg) (Suc (Suc n)) \<and>
       (m < length (filter ok es) \<longrightarrow> max_entries cfg \<le> Suc n + m \<or>
         max_inject_chars cfg < used + length (entry_text e) + lines_length (take (Suc m) (filter ok es)))"
      by (elim exE) (rule that)
    have room: "max (max_inject_chars cfg) (used + length (entry_text e)) = max_inject_chars cfg"
      "max (max_inject_chars cfg) used = max_inject_chars cfg"
      "max (max_entries cfg) (Suc (Suc n)) = max_entries cfg" "max (max_entries cfg) (Suc n) = max_entries cfg"
      using more(2,3) by (simp_all add: max_def)
    have "filter ok (e # es) = e # filter ok es" using more(1) by simp
    with m more show ?thesis unfolding room by (intro exI [of _ "Suc m"]) (simp add: add.assoc)
  qed
qed simp

lemma rev_take_rev: "rev (take m (rev xs)) = drop (length xs - m) xs"
  by (simp add: take_rev)

text \<open>
  The context a turn gets is the newest of the eligible lines of its channel, in their order:
  at most \<open>max_entries\<close> of them (one when that is 0), together at most \<open>max_inject_chars\<close>, and an
  eligible line is left out only because one of the two limits is reached. A line is eligible when
  it is fresh, said by the pulse or a known person, and not in the session already.
\<close>
theorem context_is_newest_eligible:
  assumes "buffers st ch = Some b"
    and "get_context_filtered U cfg now ch pulse humans texts st = r"
  shows "\<exists>k. let es = filter (eligible U cfg now pulse humans texts) (buffer_entries b) in
    r = (if drop k es = [] then None else Some (join_with [newline] (map entry_text (drop k es)))) \<and> k \<le> length es \<and>
    length (drop k es) \<le> max (max_entries cfg) 1 \<and>
    lines_length (drop k es) \<le> max_inject_chars cfg \<and>
    (0 < k \<longrightarrow> max_entries cfg \<le> length (drop k es) \<or>
       max_inject_chars cfg < lines_length (drop (k - 1) es))"
proof -
  let ?ok = "eligible U cfg now pulse humans texts"
  let ?es = "filter ?ok (buffer_entries b)"
  obtain m where m: "take_lines ?ok cfg 0 0 (rev (buffer_entries b)) = map entry_text (take m (rev ?es))" "m \<le> length ?es"
      "lines_length (take m (rev ?es)) \<le> max_inject_chars cfg" "m \<le> max (max_entries cfg) 1"
      "m < length ?es \<longrightarrow> max_entries cfg \<le> m \<or>
         max_inject_chars cfg < lines_length (take (Suc m) (rev ?es))"
    using take_lines_take [of ?ok cfg 0 0 "rev (buffer_entries b)"] by (auto simp: rev_filter [symmetric])
  have sums: "lines_length (take i (rev xs)) = lines_length (drop (length xs - i) xs)" for i xs
    unfolding lines_length_def by (metis rev_map rev_take_rev sum_list_rev)
  let ?k = "length ?es - m"
  have r: "r = (if drop ?k ?es = [] then None else Some (join_with [newline] (map entry_text (drop ?k ?es))))"
  proof -
    define ls where "ls = map entry_text (take m (rev ?es))"
    have l: "rev ls = map entry_text (drop ?k ?es)" unfolding ls_def by (simp only: rev_map rev_take_rev)
    then have "ls = [] \<longleftrightarrow> drop ?k ?es = []" by (metis map_is_Nil_conv rev_is_Nil_conv)
    moreover have "r = (if ls = [] then None else Some (join_with [newline] (rev ls)))"
      using assms by (auto simp: get_context_filtered_def m(1) Let_def ls_def)
    ultimately show ?thesis unfolding l by (simp only:)
  qed
  have "?k - 1 = length ?es - Suc m" by simp
  with m show ?thesis unfolding Let_def by (intro exI [of _ ?k]) (use r in \<open>auto simp: sums\<close>)
qed

subsection \<open>A restart\<close>

text \<open>
  Two channels whose names differ only in the characters \<open>sanitize_channel_name\<close> replaces share a
  file: what the first said is gone from it once the second speaks, and a restart loads the second
  only.
\<close>
theorem shared_buffer_file_forgets:
  assumes "sanitize_channel_name a = sanitize_channel_name b" and "a \<noteq> b"
    and "\<And>c. buffers st b = Some c \<Longrightarrow> buffer_channel c = b"
    and "record_line t1 a who1 as1 s1 (st, files) = (st1, files1)"
    and "record_line t2 b who2 as2 s2 (st1, files1) = (st2, files2)"
  shows "buffers st2 a \<noteq> None \<and> (\<exists>c. files2 (buffer_file a) = Some c \<and> buffer_channel c = b) \<and>
    buffers (load_from_disk [(buffer_file a, files2 (buffer_file a))] (st2\<lparr>buffers := Map.empty\<rparr>)) a = None"
proof -
  have f: "buffer_file a = buffer_file b" using assms(1) by (simp add: buffer_file_def)
  have st1: "buffers st1 b = buffers st b" "buffers st1 a \<noteq> None"
    using assms(2,4) by (auto simp: record_line_def Let_def)
  have "\<exists>c. files2 (buffer_file b) = Some c \<and> buffer_channel c = b" "buffers st2 a \<noteq> None"
    using assms(2,3,5) st1 by (auto simp: record_line_def Let_def persist_buffer_def split: option.split_asm)
  then show ?thesis using assms(2) by (auto simp: f)
qed

subsection \<open>Concrete inputs\<close>

definition demo_line :: "bytes \<Rightarrow> int \<Rightarrow> buffer_entry" where
  "demo_line who t = \<lparr>line_sender = who, line_role = ''user'', line_text = ''hi'', line_time = t\<rparr>"

definition demo_buffers :: buffer_store where
  "demo_buffers = \<lparr>buffers = [''chat'' \<mapsto> \<lparr>buffer_channel = ''chat'',
     buffer_entries = [demo_line ''D'' 0, demo_line ''Eve'' 1, demo_line ''D'' 2]\<rparr>], kept_messages = 5\<rparr>"

theorem context_is_newest_eligible_witness:
  "let es = [demo_line ''D'' 0, demo_line ''Eve'' 1, demo_line ''D'' 2];
       U = \<lparr>lowercase = id, alphanumeric = \<lambda>c. False, whitespace = \<lambda>c. False\<rparr>
   in \<exists>k. length (drop k (filter (eligible U buffer_config_default 3 ''Nova'' [''D''] []) es)) \<le> 3"
proof -
  let ?U = "\<lparr>lowercase = id, alphanumeric = \<lambda>c. False, whitespace = \<lambda>c. False\<rparr>"
  have b: "buffers demo_buffers ''chat'' = Some \<lparr>buffer_channel = ''chat'',
     buffer_entries = [demo_line ''D'' 0, demo_line ''Eve'' 1, demo_line ''D'' 2]\<rparr>"
    by (simp add: demo_buffers_def)
  from context_is_newest_eligible [OF b refl, of ?U buffer_config_default 3 "''Nova''" "[''D'']" "[]"]
  show ?thesis by (auto simp: Let_def buffer_config_default_def)
qed

theorem shared_buffer_file_forgets_witness:
  "buffers (fst (record_line 2 ''a-b'' ''E'' ''user'' ''yo'' (record_line 1 ''a b'' ''D'' ''user'' ''hi''
     (demo_buffers, Map.empty)))) ''a b'' \<noteq> None"
proof -
  have c: "sanitize_channel_name ''a b'' = sanitize_channel_name ''a-b''" by (simp add: sanitize_channel_name_def)
  have n: "buffers demo_buffers ''a-b'' = Some c \<Longrightarrow> buffer_channel c = ''a-b''" for c by (simp add: demo_buffers_def)
  have d: "''a b'' \<noteq> ''a-b''" by simp
  obtain st1 f1 where r1: "record_line 1 ''a b'' ''D'' ''user'' ''hi'' (demo_buffers, Map.empty) = (st1, f1)" by fastforce
  obtain st2 f2 where r2: "record_line 2 ''a-b'' ''E'' ''user'' ''yo'' (st1, f1) = (st2, f2)" by fastforce
  show ?thesis unfolding r1 r2 fst_conv by (rule conjunct1 [OF shared_buffer_file_forgets [OF c d n r1 r2]])
qed

end
