(* ===== verification/ProviderStatus.thy ===== *)
theory ProviderStatus
  imports ToolLoop
begin

text \<open>
  How the provider is doing, \<open>src/provider_status.rs\<close>: what kind of failure an error is, and the state
  \<open>/health\<close> shows. \<open>to_lowercase\<close> is a parameter, like the other tables of characters.
\<close>

datatype provider_state = Healthy | Degraded | Offline

datatype error_kind = AuthExpired | RateLimit | NetworkError | ProcessSpawn | QuotaExhausted | UnknownError

fun error_kind_text :: "error_kind \<Rightarrow> bytes" where
  "error_kind_text AuthExpired = ''auth_expired''"
| "error_kind_text RateLimit = ''rate_limit''"
| "error_kind_text NetworkError = ''network_error''"
| "error_kind_text ProcessSpawn = ''process_spawn''"
| "error_kind_text QuotaExhausted = ''quota''"
| "error_kind_text UnknownError = ''unknown''"

record provider_status =
  provider_state_of :: provider_state
  error_kind_of :: "error_kind option"
  last_error :: "bytes option"
  last_error_at :: "int option"
  consecutive_failures :: u32
  last_success_at :: "int option"

definition status_default :: provider_status where
  "status_default = \<lparr>provider_state_of = Healthy, error_kind_of = None, last_error = None, last_error_at = None,
     consecutive_failures = 0, last_success_at = None\<rparr>"

definition record_success :: "int \<Rightarrow> provider_status \<Rightarrow> provider_status" where
  "record_success now s = s\<lparr>provider_state_of := Healthy, error_kind_of := None, consecutive_failures := 0,
     last_success_at := Some now\<rparr>"

definition truncate_string :: "bytes \<Rightarrow> nat \<Rightarrow> bytes" where
  "truncate_string s n = (if length s \<le> n then s else take (boundary_below s n) s @ ''...'')"

definition record_failure :: "int \<Rightarrow> bytes \<Rightarrow> error_kind \<Rightarrow> provider_status \<Rightarrow> provider_status" where
  "record_failure now e kind s =
     (let n = consecutive_failures s + 1
      in s\<lparr>consecutive_failures := n, last_error := Some (truncate_string e 500), last_error_at := Some now,
           error_kind_of := Some kind,
           provider_state_of := (case kind of
               AuthExpired \<Rightarrow> Offline | QuotaExhausted \<Rightarrow> Offline | RateLimit \<Rightarrow> Degraded
             | _ \<Rightarrow> if 3 \<le> n then Offline else Degraded)\<rparr>)"

subsection \<open>Classification\<close>

definition QUOTA_ERROR_MARKER :: bytes where "QUOTA_ERROR_MARKER = ''usage quota exhausted''"

definition QUOTA_PHRASES :: "bytes list" where
  "QUOTA_PHRASES = [''payment required'', ''credit balance'', QUOTA_ERROR_MARKER]"

text \<open>\<open>split\<close> at every character that is not a letter or a digit, and the pieces.\<close>

fun alnum_tokens :: "bytes \<Rightarrow> bytes list" where
  "alnum_tokens [] = [[]]"
| "alnum_tokens (c # s) =
     (if ascii_alphanumeric c then (case alnum_tokens s of t # ts \<Rightarrow> (c # t) # ts | [] \<Rightarrow> [[c]])
      else [] # alnum_tokens s)"

definition has_status_token :: "bytes \<Rightarrow> bytes \<Rightarrow> bool" where
  "has_status_token s code \<longleftrightarrow> code \<in> set (alnum_tokens s)"

definition is_quota_exhausted_lower :: "bytes \<Rightarrow> bool" where
  "is_quota_exhausted_lower s \<longleftrightarrow> has_status_token s ''402'' \<or> list_ex (\<lambda>p. contains_str p s) QUOTA_PHRASES"

definition says_any :: "bytes list \<Rightarrow> bytes \<Rightarrow> bool" where
  "says_any ps s \<longleftrightarrow> list_ex (\<lambda>p. contains_str p s) ps"

definition classify_error :: "unicode \<Rightarrow> bytes \<Rightarrow> error_kind" where
  "classify_error U msg =
     (let s = lowercase U msg
      in if is_quota_exhausted_lower s then QuotaExhausted
         else if has_status_token s ''401'' \<or> says_any [''unauthorized'', ''auth'', ''expired'', ''invalid api key''] s
           then AuthExpired
         else if has_status_token s ''429'' \<or> says_any [''rate limit'', ''too many requests''] s then RateLimit
         else if says_any [''connection'', ''timeout'', ''network'', ''dns'', ''unreachable''] s then NetworkError
         else if says_any [''spawn'', ''not found'', ''no such file'', ''permission denied''] s then ProcessSpawn
         else UnknownError)"

text \<open>The text of an error, as \<open>thiserror\<close> derives it.\<close>

fun error_text :: "turn_error \<Rightarrow> bytes" where
  "error_text (RefusalError model detail) =
     ''model '' @ [CHR 0x27] @ model @ [CHR 0x27] @ '' refused the turn (policy refusal): '' @ detail"
| "error_text (QuotaError model detail) =
     ''model '' @ [CHR 0x27] @ model @ [CHR 0x27] @ '': '' @ QUOTA_ERROR_MARKER @ '': '' @ detail"
| "error_text EmptyTrunk = ''invoke_turn_with_refusal_fallback called with an empty trunk''"
| "error_text (FallbackFailed detail) = ''upstream model error''"
| "error_text (OtherError s) = s"

definition classify_failure :: "unicode \<Rightarrow> turn_error \<Rightarrow> error_kind" where
  "classify_failure U e = (case e of QuotaError _ _ \<Rightarrow> QuotaExhausted | _ \<Rightarrow> classify_error U (error_text e))"

text \<open>
  What the classification of a quota error by its text needs of \<open>to_lowercase\<close>: it leaves the text of
  the marker, which is lower-case ASCII, where it is.
\<close>

definition lower_keeps_marker :: "unicode \<Rightarrow> bool" where
  "lower_keeps_marker U \<longleftrightarrow> (\<forall>a b. \<exists>a' b'. lowercase U (a @ QUOTA_ERROR_MARKER @ b) = a' @ QUOTA_ERROR_MARKER @ b')"

text \<open>
  A consumer that has only the text of an error classifies it as one that has the error: the text
  of a quota error carries the marker, which is looked for before anything else.
\<close>
theorem text_classifies_as_error:
  assumes "lower_keeps_marker U"
  shows "classify_error U (error_text e) = classify_failure U e"
proof (cases e)
  case (QuotaError model detail)
  define a where "a = ''model '' @ [CHR 0x27] @ model @ [CHR 0x27] @ '': ''"
  obtain a' b' where l: "lowercase U (a @ QUOTA_ERROR_MARKER @ '': '' @ detail) = a' @ QUOTA_ERROR_MARKER @ b'"
    using assms unfolding lower_keeps_marker_def by blast
  have "error_text e = a @ QUOTA_ERROR_MARKER @ '': '' @ detail" by (simp add: QuotaError a_def)
  with l have "lowercase U (error_text e) = a' @ QUOTA_ERROR_MARKER @ b'" by (simp only:)
  then have "is_quota_exhausted_lower (lowercase U (error_text e))"
    by (simp add: is_quota_exhausted_lower_def QUOTA_PHRASES_def contains_str_append)
  then show ?thesis unfolding classify_error_def classify_failure_def Let_def by (simp add: QuotaError)
qed (simp_all add: classify_failure_def)

subsection \<open>The state after any run of outcomes\<close>

text \<open>An outcome is a success (\<open>None\<close>) or the kind of a failure, with its time and text.\<close>

definition note_outcome :: "error_kind option \<times> int \<times> bytes \<Rightarrow> provider_status \<Rightarrow> provider_status" where
  "note_outcome = (\<lambda>(k, now, e) s. case k of None \<Rightarrow> record_success now s | Some kind \<Rightarrow> record_failure now e kind s)"

definition failing :: "(error_kind option \<times> int \<times> bytes) list \<Rightarrow> nat" where
  "failing os = length (takeWhile (\<lambda>x. fst x \<noteq> None) (rev os))"

definition state_after :: "(error_kind option \<times> int \<times> bytes) list \<Rightarrow> provider_state" where
  "state_after os =
     (if failing os = 0 then Healthy
      else if fst (last os) \<in> {Some AuthExpired, Some QuotaExhausted} then Offline
      else if fst (last os) = Some RateLimit then Degraded
      else if 3 \<le> failing os then Offline else Degraded)"

lemma failing_snoc: "failing (os @ [x]) = (if fst x = None then 0 else Suc (failing os))"
  by (simp add: failing_def)

lemma failing_length: "failing os \<le> length os"
  unfolding failing_def by (metis length_rev length_takeWhile_le)

lemma unat_next: "Suc (unat (c :: u32)) < 2 ^ 32 \<Longrightarrow> unat (c + 1) = Suc (unat c)"
  by (simp add: unat_word_ariths)

lemma failures_counted:
  "length os < 2 ^ 32 \<Longrightarrow> unat (consecutive_failures (fold note_outcome os status_default)) = failing os"
proof (induction os rule: rev_induct)
  case Nil
  then show ?case by (simp add: failing_def status_default_def)
next
  case (snoc x os)
  obtain k now e where x: "x = (k, now, e)" by (cases x)
  let ?c = "consecutive_failures (fold note_outcome os status_default)"
  have "unat ?c = failing os" using snoc by simp
  moreover have "Suc (failing os) < 2 ^ 32" using snoc.prems failing_length [of os] by simp
  ultimately have "unat (?c + 1) = Suc (failing os)" using unat_next [of ?c] by simp
  then show ?case
    by (cases k) (simp_all add: x failing_snoc note_outcome_def record_success_def record_failure_def Let_def)
qed

text \<open>
  The state \<open>/health\<close> shows after any run of turns is a function of its tail: healthy after a
  success; offline after an expired credential or a spent quota, whatever came before; degraded by a
  rate limit, however often; and for every other failure degraded for the first two in a row and
  offline from the third on.
\<close>
theorem status_is_of_the_tail:
  assumes "length os < 2 ^ 32"
  shows "provider_state_of (fold note_outcome os status_default) = state_after os"
proof (cases os rule: rev_exhaust)
  case Nil
  then show ?thesis by (simp add: state_after_def failing_def status_default_def)
next
  case (snoc os' x)
  obtain k now e where x: "x = (k, now, e)" by (cases x)
  have n: "unat (consecutive_failures (fold note_outcome os status_default)) = failing os"
    by (rule failures_counted [OF assms])
  show ?thesis
  proof (cases k)
    case None
    then show ?thesis by (simp add: snoc x state_after_def failing_snoc note_outcome_def record_success_def)
  next
    case (Some kind)
    have "(3 :: u32) \<le> consecutive_failures (fold note_outcome os status_default) \<longleftrightarrow> 3 \<le> failing os"
      using n by (simp add: word_le_nat_alt)
    moreover have "consecutive_failures (fold note_outcome os status_default) =
        consecutive_failures (fold note_outcome os' status_default) + 1"
      by (simp add: snoc x Some note_outcome_def record_failure_def Let_def)
    ultimately show ?thesis
      by (cases kind) (simp_all add: snoc x Some state_after_def failing_snoc note_outcome_def record_failure_def Let_def)
  qed
qed

subsection \<open>Concrete inputs\<close>

theorem text_classifies_as_error_witness:
  "let U = \<lparr>lowercase = id, alphanumeric = \<lambda>c. False, whitespace = \<lambda>c. False\<rparr>
   in classify_error U (error_text (QuotaError ''m'' ''out'')) = QuotaExhausted"
proof -
  have "lower_keeps_marker \<lparr>lowercase = id, alphanumeric = \<lambda>c. False, whitespace = \<lambda>c. False\<rparr>"
    by (auto simp: lower_keeps_marker_def)
  from text_classifies_as_error [OF this, of "QuotaError ''m'' ''out''"] show ?thesis
    unfolding Let_def by (simp only: classify_failure_def turn_error.case)
qed

theorem status_is_of_the_tail_witness:
  "provider_state_of (fold note_outcome [(Some NetworkError, 1, ''x''), (Some UnknownError, 2, ''y''), (Some RateLimit, 3, ''z''),
     (Some NetworkError, 4, ''t'')] status_default) = Offline"
proof -
  let ?os = "[(Some NetworkError, 1 :: int, ''x''), (Some UnknownError, 2, ''y''), (Some RateLimit, 3, ''z''),
     (Some NetworkError, 4, ''t'')]"
  have "length ?os < 2 ^ 32" by simp
  from status_is_of_the_tail [OF this] show ?thesis by (simp add: state_after_def failing_def)
qed

end
