(* ===== verification/Isolation.thy ===== *)
theory Isolation
  imports Admission Conversation
begin

text \<open>
  Isolation mode, \<open>src/server/isolation.rs\<close>: the marker file, the commands of the owner that set and
  remove it, the banner; and which tools a turn gets, \<open>src/tool_surface.rs\<close>. \<open>serde_json\<close>, the printing of
  times and the class of control characters are parameters, and what fails on the disk is given with
  each call.
\<close>

subsection \<open>The marker\<close>

record isolation_marker =
  entered_at :: int
  marker_by :: bytes
  marker_reason :: "bytes option"

record isolation_env =
  iso_chars :: unicode
  is_control :: "bytes \<Rightarrow> bool"
  show_time :: "int \<Rightarrow> bytes"
  encode_marker :: "isolation_marker \<Rightarrow> bytes + bytes"
  decode_marker :: "bytes \<Rightarrow> isolation_marker option"
  min_utc :: int

text \<open>What goes wrong on the disk, each with the text of its error.\<close>

record marker_faults =
  stat_fails :: bool
  read_fails :: bool
  write_error :: "bytes option"
  remove_error :: "bytes option"

definition ENTER_COMMAND :: bytes where "ENTER_COMMAND = ''/isolate''"

definition EXIT_COMMAND :: bytes where "EXIT_COMMAND = ''/resume''"

definition BANNER :: bytes where "BANNER = ''[ISOLATION]''"

definition BACK_TO_NORMAL :: bytes where
  "BACK_TO_NORMAL = ''Back to normal '' @ dash @ '' isolation mode exited; coordinator and subsystems will resume.''"

definition is_active :: "marker_faults \<Rightarrow> bytes option \<Rightarrow> bool" where
  "is_active io m \<longleftrightarrow> stat_fails io \<or> m \<noteq> None"

definition marker_status :: "isolation_env \<Rightarrow> marker_faults \<Rightarrow> bytes option \<Rightarrow> isolation_marker option" where
  "marker_status E io m =
     (case m of
        None \<Rightarrow> None
      | Some s \<Rightarrow>
          if read_fails io \<or> \<not> valid_utf8 s then None
          else Some (case decode_marker E s of
              Some mk \<Rightarrow> mk
            | None \<Rightarrow> \<lparr>entered_at = min_utc E, marker_by = ''unknown (unparseable marker)'', marker_reason = None\<rparr>))"

definition enter ::
  "isolation_env \<Rightarrow> marker_faults \<Rightarrow> int \<Rightarrow> bytes \<Rightarrow> bytes option \<Rightarrow> bytes option \<Rightarrow>
     (bytes + isolation_marker) \<times> bytes option" where
  "enter E io now who reason m =
     (case marker_status E io m of
        Some mk \<Rightarrow> (Inr mk, m)
      | None \<Rightarrow>
          (let mk = \<lparr>entered_at = now, marker_by = who, marker_reason = reason\<rparr>
           in case encode_marker E mk of
                Inl e \<Rightarrow> (Inl e, m)
              | Inr s \<Rightarrow> (case write_error io of Some e \<Rightarrow> (Inl e, m) | None \<Rightarrow> (Inr mk, Some s))))"

definition exit_isolation :: "marker_faults \<Rightarrow> bytes option \<Rightarrow> (bytes + bool) \<times> bytes option" where
  "exit_isolation io m =
     (case remove_error io of
        Some e \<Rightarrow> (Inl e, m)
      | None \<Rightarrow> (case m of None \<Rightarrow> (Inr False, None) | Some _ \<Rightarrow> (Inr True, None)))"

subsection \<open>The commands\<close>

definition sanitize_field :: "isolation_env \<Rightarrow> bytes \<Rightarrow> bytes" where
  "sanitize_field E s = concat (take 256 (filter (\<lambda>c. \<not> is_control E c) (utf8_chars s)))"

datatype command = EnterCommand "bytes option" | ExitCommand

definition first_token :: "unicode \<Rightarrow> bytes \<Rightarrow> bytes" where
  "first_token U s = concat (takeWhile (\<lambda>c. \<not> whitespace U c) (utf8_chars s))"

definition parse_command :: "isolation_env \<Rightarrow> bytes \<Rightarrow> command option" where
  "parse_command E msg =
     (let trimmed = trim (iso_chars E) msg;
          first = first_token (iso_chars E) trimmed
      in if eq_ignore_case first ENTER_COMMAND
         then (let r = sanitize_field E (trim (iso_chars E) (drop (length first) trimmed))
               in Some (EnterCommand (if r = [] then None else Some r)))
         else if eq_ignore_case first EXIT_COMMAND then Some ExitCommand else None)"

datatype intercept = NoCommand | Handled bytes bool

definition enter_on_command ::
  "isolation_env \<Rightarrow> marker_faults \<Rightarrow> int \<Rightarrow> bytes \<Rightarrow> bytes option \<Rightarrow> bytes option \<Rightarrow> intercept \<times> bytes option" where
  "enter_on_command E io now who reason m =
     (case enter E io now (sanitize_field E who) reason m of
        (Inr mk, m') \<Rightarrow>
          (Handled (BANNER @ '' Isolation mode ACTIVE (entered '' @ show_time E (entered_at mk) @ '' by '' @ marker_by mk @
             ''). Minimal core only: this channel, read-only introspection over journal/ and memory/, reasoning. '' @
             ''Coordinator, scheduler, and all state writes are shed. This banner stays on every reply until '' @
             EXIT_COMMAND @ ''. Remember: clean here means healthy IN ISOLATION, not healthy.'') True, m')
      | (Inl e, m') \<Rightarrow> (Handled (''Failed to enter isolation mode: '' @ e) (is_active io m'), m'))"

definition exit_on_command :: "marker_faults \<Rightarrow> bytes option \<Rightarrow> intercept \<times> bytes option" where
  "exit_on_command io m =
     (case exit_isolation io m of
        (Inr True, m') \<Rightarrow> (Handled BACK_TO_NORMAL False, m')
      | (Inr False, m') \<Rightarrow> (Handled (''Not in isolation mode '' @ dash @ '' nothing to resume.'') False, m')
      | (Inl e, m') \<Rightarrow>
          (Handled (BANNER @ '' Failed to exit isolation mode: '' @ e @ '' '' @ dash @ '' still isolated.'') True, m'))"

definition intercept_command ::
  "isolation_env \<Rightarrow> marker_faults \<Rightarrow> int \<Rightarrow> bytes \<Rightarrow> session_key \<Rightarrow> bytes \<Rightarrow> bytes option \<Rightarrow>
     intercept \<times> bytes option" where
  "intercept_command E io now msg key who m =
     (case parse_command E msg of
        None \<Rightarrow> (NoCommand, m)
      | Some c \<Rightarrow>
          if \<not> is_owner key then (Handled ''Isolation commands are restricted to the owner.'' False, m)
          else (case c of
              EnterCommand reason \<Rightarrow> enter_on_command E io now who reason m
            | ExitCommand \<Rightarrow> exit_on_command io m))"

definition banner_wrap :: "bytes \<Rightarrow> bytes" where
  "banner_wrap s = BANNER @ '' '' @ s"

subsection \<open>Who flips it\<close>

lemma marker_status_Some: "marker_status E io m = Some mk \<Longrightarrow> m \<noteq> None"
  by (auto simp: marker_status_def split: option.splits)

lemma enter_cases:
  assumes "enter E io now who reason m = (r, m')"
  shows "(\<exists>mk. r = Inr mk) \<longrightarrow> m' \<noteq> None" and
    "m' \<noteq> m \<longrightarrow> (\<exists>s. m' = Some s \<and> encode_marker E \<lparr>entered_at = now, marker_by = who, marker_reason = reason\<rparr> = Inr s)"
  using assms marker_status_Some [of E io m]
  by (auto simp: enter_def Let_def split: option.splits sum.splits)

lemma parse_command_reason:
  "parse_command E msg = Some (EnterCommand reason) \<Longrightarrow> reason = None \<or> (\<exists>s. reason = Some (sanitize_field E s))"
  by (auto simp: parse_command_def Let_def split: if_split_asm)

text \<open>
  Only the owner's command changes the marker, and anybody else learns nothing of it. What a
  command writes has its fields cleaned, and while \<open>stat\<close> works the answer to the owner says truly
  whether the pulse is isolated now.
\<close>
theorem only_the_owner_flips_isolation:
  assumes "intercept_command E io now msg key who m = (r, m')"
  shows "(\<not> is_owner key \<longrightarrow> m' = m \<and> r \<in> {NoCommand, Handled ''Isolation commands are restricted to the owner.'' False}) \<and>
    (m' \<noteq> m \<longrightarrow> m' = None \<or> (\<exists>reason s. m' = Some s \<and> (reason = None \<or> (\<exists>t. reason = Some (sanitize_field E t))) \<and>
        encode_marker E \<lparr>entered_at = now, marker_by = sanitize_field E who, marker_reason = reason\<rparr> = Inr s)) \<and>
    (is_owner key \<and> \<not> stat_fails io \<and> (m = None \<longrightarrow> remove_error io = None) \<longrightarrow>
       (\<forall>s isolated. r = Handled s isolated \<longrightarrow> isolated = is_active io m'))"
proof (cases "parse_command E msg")
  case None
  then show ?thesis using assms by (simp add: intercept_command_def)
next
  case (Some c)
  show ?thesis
  proof (cases "is_owner key")
    case False
    then show ?thesis using assms Some by (simp add: intercept_command_def)
  next
    case True
    note run = assms [unfolded intercept_command_def Some option.case] 
    show ?thesis
    proof (cases c)
      case (EnterCommand reason)
      obtain x m2 where e: "enter E io now (sanitize_field E who) reason m = (x, m2)" by fastforce
      have "m' = m2" and "\<forall>s isolated. r = Handled s isolated \<longrightarrow> isolated = is_active io m2"
        using run True EnterCommand e enter_cases(1) [OF e] by (auto simp: enter_on_command_def is_active_def split: sum.splits)
      then show ?thesis using True enter_cases(2) [OF e] parse_command_reason [OF Some [unfolded EnterCommand]] by blast
    next
      case ExitCommand
      then show ?thesis using run True
        by (auto simp: exit_on_command_def exit_isolation_def is_active_def split: option.splits)
    qed
  qed
qed

subsection \<open>Tools\<close>

datatype tool_surface = NoTools | Restricted | FullTools

definition surface_for :: "session_key \<Rightarrow> tool_surface" where
  "surface_for key = (if is_owner key then FullTools else NoTools)"

fun surface_rank :: "tool_surface \<Rightarrow> nat" where
  "surface_rank NoTools = 0" | "surface_rank Restricted = 1" | "surface_rank FullTools = 2"

text \<open>\<open>Ord\<close> is derived: the order of the constructors.\<close>

instantiation tool_surface :: linorder
begin
definition less_eq_tool_surface :: "tool_surface \<Rightarrow> tool_surface \<Rightarrow> bool" where
  "a \<le> b \<longleftrightarrow> surface_rank a \<le> surface_rank b"
definition less_tool_surface :: "tool_surface \<Rightarrow> tool_surface \<Rightarrow> bool" where
  "a < b \<longleftrightarrow> surface_rank a < surface_rank b"
instance
proof
  fix a b :: tool_surface
  show "a \<le> b \<Longrightarrow> b \<le> a \<Longrightarrow> a = b" by (cases a; cases b) (simp_all add: less_eq_tool_surface_def)
qed (auto simp: less_eq_tool_surface_def less_tool_surface_def)
end

definition effective :: "tool_surface option \<Rightarrow> bool \<Rightarrow> tool_surface" where
  "effective turn isolated =
     (let s = (case turn of None \<Rightarrow> NoTools | Some s \<Rightarrow> s) in if isolated then min s Restricted else s)"

text \<open>\<open>narrowed_tools\<close> of \<open>src/server/setup.rs\<close>: the registry of a turn, from the full and the read-only one.\<close>

definition tools_for :: "('n \<rightharpoonup> 't) \<Rightarrow> ('n \<rightharpoonup> 't) \<Rightarrow> tool_surface \<Rightarrow> ('n \<rightharpoonup> 't)" where
  "tools_for full readonly s = (case s of FullTools \<Rightarrow> full | Restricted \<Rightarrow> readonly | NoTools \<Rightarrow> Map.empty)"

lemma effective_le [simp]: "effective turn isolated \<le> (case turn of None \<Rightarrow> NoTools | Some s \<Rightarrow> s)"
  by (auto simp: effective_def Let_def)

lemma effective_isolated: "effective turn True \<le> Restricted"
  by (simp add: effective_def Let_def)

lemma tools_of_others: "\<not> is_owner key \<Longrightarrow> tools_for full readonly (effective (Some (surface_for key)) isolated) = Map.empty"
  by (simp add: effective_def surface_for_def tools_for_def min_def less_eq_tool_surface_def)

subsection \<open>A concrete input\<close>

definition demo_isolation :: isolation_env where
  "demo_isolation = \<lparr>iso_chars = \<lparr>lowercase = id, alphanumeric = \<lambda>c. False, whitespace = \<lambda>c. c = '' ''\<rparr>,
     is_control = (\<lambda>c. False), show_time = (\<lambda>t. ''now''), encode_marker = (\<lambda>mk. Inr (marker_by mk)),
     decode_marker = (\<lambda>s. None), min_utc = 0\<rparr>"

definition demo_faults :: marker_faults where
  "demo_faults = \<lparr>stat_fails = False, read_fails = False, write_error = None, remove_error = None\<rparr>"

theorem only_the_owner_flips_isolation_witness:
  "snd (intercept_command demo_isolation demo_faults 1 ''/resume'' (guest_key ''x'') ''x'' (Some ''D'')) = Some ''D''"
proof -
  obtain r m' where i: "intercept_command demo_isolation demo_faults 1 ''/resume'' (guest_key ''x'') ''x'' (Some ''D'') = (r, m')"
    by fastforce
  have "\<not> is_owner (guest_key ''x'')"
    by (simp add: is_owner_def principal_of_def guest_key_def OWNER_KEY_def strip_prefix_def)
  with only_the_owner_flips_isolation [OF i] show ?thesis unfolding i by simp
qed

end
