(* ===== verification/TurnCommit.thy ===== *)
theory TurnCommit
  imports Turn
begin

text \<open>
  The end of a turn, in \<open>commit_turn\<close> of \<open>src/server/handlers/chat/steps.rs\<close> with \<open>maybe_checkpoint\<close> of
  \<open>chat.rs\<close>, and the whole turn, \<open>run_resolved_turn\<close> and \<open>run_turn\<close>.
\<close>

subsection \<open>Counters and marks\<close>

definition anchor_isolation_after_turn :: "pre_turn_marks \<Rightarrow> bool \<Rightarrow> 'j session_data \<Rightarrow> 'j session_data" where
  "anchor_isolation_after_turn before quar d =
     (let from_trunk = (case isolation_ephemeral_from d of None \<Rightarrow> trunk_len before | Some n \<Rightarrow> n);
          from_quar = (case isolation_quarantine_from d of None \<Rightarrow> quarantine_len before | Some n \<Rightarrow> n);
          d1 = d\<lparr>isolation_ephemeral_from := Some from_trunk, isolation_quarantine_from := Some from_quar\<rparr>
      in if quar then d1\<lparr>quarantine := take from_quar (quarantine d1)\<rparr> else d1)"

definition commit_turn_counters :: "bool \<Rightarrow> bool \<Rightarrow> 'j session_data \<Rightarrow> 'j session_data" where
  "commit_turn_counters isol quar d =
     (let d1 = d\<lparr>message_count := message_count d + 1\<rparr>;
          d2 = (if isol then d1 else d1\<lparr>wal := (wal d1)\<lparr>since_checkpoint := since_checkpoint (wal d1) + 1\<rparr>\<rparr>)
      in if quar then d2\<lparr>health := (health d2)\<lparr>fallback_count := fallback_count (health d2) + 1\<rparr>\<rparr> else d2)"

definition track_file_accesses :: "'j json_ops \<Rightarrow> int \<Rightarrow> u32 \<Rightarrow> 'j session_data \<Rightarrow> 'j session_data" where
  "track_file_accesses J now n d =
     (if n = 0 then d
      else fold (\<lambda>(path, s) d. record_file_access now path s d) (extract_file_accesses J (messages d)) d)"

subsection \<open>The log\<close>

definition turn_lane :: "bool \<Rightarrow> wal_lane" where
  "turn_lane quar = (if quar then QuarantineLane else TrunkLane)"

definition append_wal ::
  "('j, 'c, 'w) turn_config \<Rightarrow> write_outcome \<Rightarrow> bytes \<Rightarrow> 'j wal_entry \<Rightarrow> wal_state \<times> 'j disk \<Rightarrow> wal_state \<times> 'j disk" where
  "append_wal cfg outcome key e = (\<lambda>(ws, dk).
     (let n = wal_seq ws + 1
      in case append_with_lane (turn_codec cfg) (turn_fsync cfg) outcome key (e\<lparr>entry_seq := n\<rparr>) (conv_wals dk) of
           (ok, c) \<Rightarrow> (if ok then ws\<lparr>wal_seq := n\<rparr> else ws, dk\<lparr>conv_wals := c\<rparr>)))"

definition user_entry :: "int \<Rightarrow> chat_request \<Rightarrow> bytes \<Rightarrow> wal_lane \<Rightarrow> 'j wal_entry" where
  "user_entry now req s lane = \<lparr>entry_ts = now, entry_seq = 0, entry_role = User, entry_content = TextContent s,
     entry_channel = Some (channel req), entry_sender = sender req, entry_lane = lane\<rparr>"

definition reply_entry :: "int \<Rightarrow> bytes \<Rightarrow> wal_lane \<Rightarrow> 'j wal_entry" where
  "reply_entry now s lane = \<lparr>entry_ts = now, entry_seq = 0, entry_role = Assistant, entry_content = TextContent s,
     entry_channel = None, entry_sender = None, entry_lane = lane\<rparr>"

definition commit_to_wal ::
  "('j, 'c, 'w) turn_config \<Rightarrow> turn_chances \<Rightarrow> turn_scope \<Rightarrow> bytes \<Rightarrow> bytes \<Rightarrow> wal_lane \<Rightarrow> wal_state \<times> 'j disk \<Rightarrow>
     wal_state \<times> 'j disk" where
  "commit_to_wal cfg X t s reply lane c =
     (if \<not> has_wal cfg \<or> \<not> persists t then c
      else append_wal cfg (reply_write X) (scope_key t) (reply_entry (now_after X) reply lane)
        (append_wal cfg (user_write X) (scope_key t) (user_entry (now_after X) (scope_request t) s lane) c))"

definition record_guard_hits :: "'c tool_loop_result \<Rightarrow> health_counters \<Rightarrow> health_counters" where
  "record_guard_hits r h =
     (let h1 = h\<lparr>rounds_since_human_input := rounds_since_human_input h + 1\<rparr>;
          h2 = (if was_truncated r then h1\<lparr>hallucination_count := hallucination_count h1 + 1\<rparr> else h1);
          h3 = (if circuit_breaker_fired r then h2\<lparr>circuit_breaker_count := circuit_breaker_count h2 + 1\<rparr> else h2)
      in if action_claim_warnings r = [] then h3
         else h3\<lparr>action_claim_count := action_claim_count h3 + of_nat (length (action_claim_warnings r))\<rparr>)"

subsection \<open>The checkpoint\<close>

definition checkpoint_due :: "sessions_config \<Rightarrow> int \<Rightarrow> nat \<Rightarrow> wal_state \<Rightarrow> bool" where
  "checkpoint_due cfg now log_bytes ws \<longleftrightarrow>
     checkpoint_interval cfg \<le> since_checkpoint ws \<or>
     as_i64 (checkpoint_time cfg) \<le> num_seconds (now - last_checkpoint ws) \<or>
     unat (wal_max_size cfg) \<le> log_bytes"

definition maybe_checkpoint ::
  "('j, 'c, 'w) turn_config \<Rightarrow> turn_chances \<Rightarrow> turn_scope \<Rightarrow> 'j session_data \<Rightarrow> 'j disk \<Rightarrow> 'j session_data \<times> 'j disk" where
  "maybe_checkpoint cfg X t d dk =
     (if \<not> checkpoint_enabled (sessions_cfg cfg) \<or> \<not> has_wal cfg then (d, dk)
      else if \<not> checkpoint_due (sessions_cfg cfg) (now_after X) (ConvWal.file_size (scope_key t) (conv_wals dk)) (wal d)
        then (d, dk)
      else (case archive_conversation ''checkpoint'' (channel (scope_request t)) (Some (scope_key t)) (messages d) dk of
          (None, dk1) \<Rightarrow> (d, dk1)
        | (Some n, dk1) \<Rightarrow>
            (d\<lparr>wal := (wal d)\<lparr>last_checkpoint := now_after X, since_checkpoint := 0\<rparr>\<rparr>,
             dk1\<lparr>conv_wals := snd (write_checkpoint (mark_write X) (scope_key t) (wal_seq (wal d)) (conv_wals dk1))\<rparr>)))"

subsection \<open>Committing\<close>

text \<open>The session after a successful turn, before it is checkpointed, and the log.\<close>

definition commit_session ::
  "('j, 'c, 'w) turn_config \<Rightarrow> turn_chances \<Rightarrow> turn_scope \<Rightarrow> pre_turn_marks \<Rightarrow> bytes \<Rightarrow> 'c turn_result \<Rightarrow>
     'j session_data \<Rightarrow> 'j disk \<Rightarrow> 'j session_data \<times> 'j disk" where
  "commit_session cfg X t before s res d dk =
     (let quar = quarantined res;
          r = turn_outcome res;
          d1 = (if isolated t then anchor_isolation_after_turn before quar d else d);
          d2 = commit_turn_counters (isolated t) quar d1;
          d3 = track_file_accesses (turn_json cfg) (now_after X) (tool_rounds r) d2
      in case commit_to_wal cfg X t s (result_text r) (turn_lane quar) (wal d3, dk) of
           (ws, dk1) \<Rightarrow>
             (let d4 = d3\<lparr>wal := ws\<rparr>;
                  d5 = d4\<lparr>health := record_guard_hits r (health d4)\<rparr>
              in (enforce_message_cap (estimate_again (turn_json cfg) d5), dk1)))"

definition turn_response :: "turn_scope \<Rightarrow> 'c tool_loop_result \<Rightarrow> bool \<Rightarrow> chat_response" where
  "turn_response t r fallback =
     (let reveal = isolated t \<and> \<not> is_guest (scope_key t)
      in \<lparr>response = (if reveal then banner_wrap (result_text r) else result_text r), response_model = result_model r,
          response_input_tokens = Some (result_input_tokens r), response_output_tokens = Some (result_output_tokens r),
          response_isolation = reveal, response_truncated = was_truncated r, response_fallback = fallback\<rparr>)"

definition release_and_persist :: "turn_scope \<Rightarrow> 'j session \<Rightarrow> 'j daemon \<Rightarrow> 'j daemon" where
  "release_and_persist t s D =
     (if persists t
      then (let D1 = put_session t (s\<lparr>dirty := True\<rparr>) D
        in case persist (scope_key t) (the_store D1) (the_disk D1) of
             (st, dk) \<Rightarrow> D1\<lparr>the_store := st, the_disk := dk\<rparr>)
      else put_session t s D)"

definition commit_turn ::
  "('j, 'c, 'w) turn_config \<Rightarrow> turn_chances \<Rightarrow> turn_scope \<Rightarrow> pre_turn_marks \<Rightarrow> bytes \<Rightarrow> 'c turn_result \<Rightarrow>
     'j session \<Rightarrow> 'j daemon \<Rightarrow> chat_response \<times> 'j daemon" where
  "commit_turn cfg X t before s res sess D =
     (case commit_session cfg X t before s res (sdata sess) (the_disk D) of
        (d1, dk1) \<Rightarrow>
        (case (if persists t then maybe_checkpoint cfg X t d1 dk1 else (d1, dk1)) of
           (d2, dk2) \<Rightarrow>
             (let D1 = record_channel_line (now_after X) t (pulse_name cfg) ''assistant'' (result_text (turn_outcome res))
                         (D\<lparr>the_disk := dk2\<rparr>)
              in (turn_response t (turn_outcome res) (quarantined res),
                  release_and_persist t (sess\<lparr>sdata := d2\<rparr>) D1))))"

subsection \<open>The turn\<close>

text \<open>Everything before the provider call: the guard with the session, the marks, and the daemon.\<close>

definition prepare_turn ::
  "('j, 'c, 'w) turn_config \<Rightarrow> ('j, 'w) turn_models \<Rightarrow> turn_chances \<Rightarrow> turn_scope \<Rightarrow> bytes \<Rightarrow> 'j session \<Rightarrow> 'j daemon \<Rightarrow>
     'j turn_guard \<times> pre_turn_marks \<times> 'j daemon" where
  "prepare_turn cfg M X t s sess D =
     (let d0 = (sdata sess)\<lparr>last_active := now_before X\<rparr>;
          d1 = track_isolation_window (turn_json cfg) (isolated t) d0;
          before = marks_of d1
      in case maybe_reset_session cfg (now_before X) t d1 D of
           (d2, D1) \<Rightarrow>
             (let g = push_user_turn t s (guard_new d2)
              in case compact_context cfg (summary_answer M) (now_before X) t (inner g) D1 of
                   (d3, D2) \<Rightarrow>
                     (let g1 = rearm_at_last_user (g\<lparr>inner := d3\<rparr>);
                          d4 = inner g1
                      in (g1\<lparr>inner := d4\<lparr>metrics := (metrics d4)\<lparr>system_prompt_tokens := length (turn_system_prompt cfg t) div 4\<rparr>\<rparr>\<rparr>,
                          before, D2))))"

definition turn_tools :: "('j, 'c, 'w) turn_config \<Rightarrow> tool_surface option \<Rightarrow> bool \<Rightarrow> ('j, 'c, 'w) agent" where
  "turn_tools cfg surface isol =
     (let A = turn_agent cfg
      in A\<lparr>find_tool := tools_for (find_tool A) (readonly_tools cfg) (effective surface isol)\<rparr>)"

definition turn_sink :: "('j, 'c, 'w) turn_config \<Rightarrow> bool \<Rightarrow> sink_io option \<Rightarrow> progress_sink option" where
  "turn_sink cfg hold io =
     map_option (\<lambda>io. if hold then holding_capped io (hold_byte_cap (provider_name cfg) (llm_max_tokens cfg)) else sink_new io) io"

text \<open>What a client on the voice pool is told of a failure, and of a reply that the guard cut.\<close>

definition announce_failure ::
  "speech_env \<Rightarrow> bool \<Rightarrow> turn_error \<Rightarrow> progress_sink option \<Rightarrow> bool \<times> progress_sink option" where
  "announce_failure E hold e sink =
     (case sink of
        None \<Rightarrow> (True, None)
      | Some k \<Rightarrow>
          if hold \<and> sink_released_any k
          then (case try_send E (Reset (if is_refusal e then RefusalReset else ErrorReset)) 0 k of (ok, k') \<Rightarrow> (ok, Some k'))
          else (True, Some k))"

definition announce_cut ::
  "speech_env \<Rightarrow> bool \<Rightarrow> 'c tool_loop_result \<Rightarrow> progress_sink option \<Rightarrow> bool \<times> progress_sink option" where
  "announce_cut E hold r sink =
     (case sink of
        None \<Rightarrow> (True, None)
      | Some k \<Rightarrow>
          if was_truncated r \<and> \<not> cut_was_handled k
          then (case try_send E (Reset GuardReset) 0 (snd (discard_held k)) of
              (False, k1) \<Rightarrow> (False, Some k1)
            | (True, k1) \<Rightarrow>
                (True, Some (if hold \<and> result_text r \<noteq> [] then snd (send_now (Delta (result_text r)) k1) else k1)))
          else (True, Some k))"

text \<open>
  \<open>run_resolved_turn\<close>, under the tool surface of its scope. An error is the body of a 500, the only
  status it has.
\<close>

definition turn_after_provider ::
  "('j, 'c, 'w) turn_config \<Rightarrow> turn_chances \<Rightarrow> turn_scope \<Rightarrow> bool \<Rightarrow> pre_turn_marks \<Rightarrow> bytes \<Rightarrow> 'j session \<Rightarrow> 'j turn_guard \<Rightarrow>
     turn_error + 'c turn_result \<Rightarrow> progress_sink option \<Rightarrow> 'j daemon \<Rightarrow>
     (bytes + chat_response) \<times> progress_sink option \<times> 'j daemon" where
  "turn_after_provider cfg X t hold before s sess g outcome sink D0 =
     (let D = D0\<lparr>the_provider := record_provider_outcome (chars_of (turn_agent cfg)) (now_after X) (scope_key t) outcome
                 (the_provider D0)\<rparr>;
          rolled_back = put_session t (sess\<lparr>sdata := drop_guard (turn_json cfg) g\<rparr>) D
      in case outcome of
           Inl e \<Rightarrow>
             (case announce_failure (turn_speech cfg) hold e sink of
                (ok, sink1) \<Rightarrow>
                  (Inl (if ok then public_failure_message (isolated_failing X) e else NOT_DELIVERED), sink1, rolled_back))
         | Inr res \<Rightarrow>
             (case announce_cut (turn_speech cfg) hold (turn_outcome res) sink of
                (False, sink1) \<Rightarrow> (Inl NOT_DELIVERED, sink1, rolled_back)
              | (True, sink1) \<Rightarrow>
                  (case commit_turn cfg X (resample_isolation (isolated_after X) t) before s res
                          (sess\<lparr>sdata := inner (disarm g)\<rparr>) D of
                     (resp, D1) \<Rightarrow> (Inr resp, sink1, D1))))"

definition run_resolved_turn ::
  "('j, 'c, 'w) turn_config \<Rightarrow> ('j, 'w) turn_models \<Rightarrow> turn_chances \<Rightarrow> marker_faults \<Rightarrow> tool_surface option \<Rightarrow> admitted \<Rightarrow>
     sink_io option \<Rightarrow> 'j daemon \<Rightarrow> 'w \<Rightarrow>
     ((bytes + chat_response) \<times> progress_sink option \<times> 'j daemon \<times> 'w) option" where
  "run_resolved_turn cfg M X io surface adm sink D w =
     (let req = adm_request adm;
          key = adm_key adm;
          hold = uses_voice_pool (adm_identity adm);
          label = (case sender req of None \<Rightarrow> ''unknown'' | Some who \<Rightarrow> who)
      in case isolation_command_reply (turn_isolation cfg) io (now_before X) req key label (the_marker D) of
           (Some resp, m) \<Rightarrow> Some (Inr resp, None, D\<lparr>the_marker := m\<rparr>, w)
         | (None, m) \<Rightarrow>
             (let t = scope_new req key label (adm_call adm) (isolated_before X);
                  s = compose_user_message cfg (now_before X) t D;
                  D1 = record_channel_line (now_before X) t label ''user'' (message req) D
              in case open_session X t D1 of
                   (sess, D2) \<Rightarrow>
                   (case prepare_turn cfg M X t s sess D2 of
                      (g, before, D3) \<Rightarrow>
                        (let capped = fallback_cap_reached (health (inner g))
                         in case invoke_turn_with_refusal_fallback (turn_tools cfg surface (isolated t)) (turn_speech cfg) M
                                   (turn_system_prompt cfg t) (fallback_builder cfg M t (\<not> capped))
                                   (turn_sink cfg hold sink) (inner g) w of
                              None \<Rightarrow> None
                            | Some (outcome, sink1, d, w1) \<Rightarrow>
                                (case turn_after_provider cfg X t hold before s sess (g\<lparr>inner := d\<rparr>) outcome sink1 D3 of
                                   (r, sink2, D4) \<Rightarrow> Some (r, sink2, D4, w1))))))"

definition run_turn ::
  "('j, 'c, 'w) turn_config \<Rightarrow> ('j, 'w) turn_models \<Rightarrow> turn_chances \<Rightarrow> marker_faults \<Rightarrow> admitted \<Rightarrow>
     sink_io option \<Rightarrow> 'j daemon \<Rightarrow> 'w \<Rightarrow>
     ((bytes + chat_response) \<times> progress_sink option \<times> 'j daemon \<times> 'w) option" where
  "run_turn cfg M X io adm sink D w = run_resolved_turn cfg M X io (Some (surface_for (adm_key adm))) adm sink D w"

end
