(* ===== verification/TurnSafety.thy ===== *)
theory TurnSafety
  imports TurnCommit
begin

text \<open>
  What a turn of the conversation does to its session, its log and the rest of the daemon: the
  properties of \<open>Turn\<close> and \<open>TurnCommit\<close>.
\<close>

subsection \<open>The model's answer\<close>

lemma run_rounds: "MAX_TOOL_ROUNDS \<noteq> - 1" "rounds round_state_new \<le> MAX_TOOL_ROUNDS"
  by (simp_all add: MAX_TOOL_ROUNDS_def DEFAULT_MAX_TOOL_ROUNDS_def round_state_new_def)

lemma tool_loop_appends:
  "\<exists>r ms' w'. invoke_with_tool_loop A invoke MAX_TOOL_ROUNDS ms w = Some (r, ms', w') \<and> prefix ms ms'"
  using tool_loop_total [OF run_rounds, where calls = "\<lambda>_. 0"] unfolding invoke_with_tool_loop_def by fastforce

lemma default_outcome_total:
  "\<exists>r sink' ms' w'. default_outcome A E M prompt sink ms w = Some (r, sink', ms', w') \<and> prefix ms ms'"
proof (cases sink)
  case None
  from tool_loop_appends [of A "buffered M prompt" ms w] show ?thesis
    unfolding default_outcome_def None by fastforce
next
  case (Some k)
  obtain r ms' w' where b: "tool_loop A (assembled (streaming M prompt)) MAX_TOOL_ROUNDS round_state_new ms w = Some (r, ms', w')"
      and p: "prefix ms ms'"
    using tool_loop_appends [of A "assembled (streaming M prompt)" ms w] unfolding invoke_with_tool_loop_def by blast
  obtain k' where "invoke_with_tool_loop_streaming A E (streaming M prompt) MAX_TOOL_ROUNDS k ms w = Some (r, k', ms', w')"
    using buffered_then_streaming [OF b refl, of E segments_new k] unfolding invoke_with_tool_loop_streaming_def by auto
  with p show ?thesis unfolding default_outcome_def Some by fastforce
qed

text \<open>The exchange a fallback leaves in the quarantine lane.\<close>

definition exchange :: "'j message \<Rightarrow> bytes \<Rightarrow> 'j message list" where
  "exchange m s = [m, \<lparr>msg_role = Assistant, msg_content = TextContent s, msg_source = None\<rparr>]"

text \<open>What a turn may do to the lanes of its session, by its outcome.\<close>

definition lanes_after :: "'j session_data \<Rightarrow> turn_error + 'c turn_result \<Rightarrow> 'j session_data \<Rightarrow> bool" where
  "lanes_after d r d' \<longleftrightarrow>
     (case r of
        Inl e \<Rightarrow> d' = d\<lparr>messages := butlast (messages d)\<rparr>
      | Inr res \<Rightarrow>
          if quarantined res
          then d' = enforce_quarantine_cap (d\<lparr>messages := butlast (messages d),
            quarantine := quarantine d @ exchange (last (messages d)) (result_text (turn_outcome res))\<rparr>)
          else (\<exists>ms. d' = d\<lparr>messages := messages d @ ms\<rparr>))"

lemma run_fallback_lanes:
  "\<exists>r sink' d' w'. run_fallback A E prompt built m sink d w = Some (r, sink', d', w') \<and>
     (case r of Inl e \<Rightarrow> d' = d
      | Inr res \<Rightarrow> quarantined res \<and>
          d' = enforce_quarantine_cap (d\<lparr>quarantine := quarantine d @ exchange m (result_text (turn_outcome res))\<rparr>))"
proof (cases built)
  case (Inr fallback)
  obtain ok sink1 where a: "announce_fallback E sink = (ok, sink1)" by fastforce
  obtain r ms' w' where l: "invoke_with_tool_loop A (fallback prompt) MAX_TOOL_ROUNDS (messages d @ quarantine d @ [m]) w = Some (r, ms', w')"
    using tool_loop_appends [of A "fallback prompt" "messages d @ quarantine d @ [m]" w] by blast
  show ?thesis
    by (cases ok; cases r) (simp_all add: run_fallback_def Inr a l exchange_def)
qed (simp add: run_fallback_def)

lemma truncated_to_turn:
  assumes "prefix ms ms'" and "ms \<noteq> []"
  shows "take (length ms - 1) ms' = butlast ms" and "ms' ! (length ms - 1) = last ms"
  using assms by (auto simp: prefix_def butlast_conv_take nth_append last_conv_nth)

lemma invoke_turn_lanes:
  assumes "messages d \<noteq> []"
  shows "\<exists>r sink' d' w'. invoke_turn_with_refusal_fallback A E M prompt build sink d w = Some (r, sink', d', w') \<and>
    lanes_after d r d' \<and> (\<forall>res. r = Inr res \<and> quarantined res \<longrightarrow> build \<noteq> None)"
proof -
  obtain r sink1 ms w1 where o: "default_outcome A E M prompt sink (messages d) w = Some (r, sink1, ms, w1)"
      and p: "prefix (messages d) ms"
    using default_outcome_total [of A E M prompt sink "messages d" w] by blast
  note cut = truncated_to_turn [OF p assms]
  show ?thesis
  proof (cases r)
    case (Inr res)
    then show ?thesis using o p assms
      by (auto simp: invoke_turn_with_refusal_fallback_def lanes_after_def prefix_def)
  next
    case (Inl e)
    show ?thesis
    proof (cases "is_refusal e \<and> build \<noteq> None")
      case True
      then obtain built where b: "build = Some built" by blast
      define d1 where "d1 = d\<lparr>messages := butlast (messages d)\<rparr>"
      obtain r2 sink2 d2 w2 where f: "run_fallback A E prompt built (last (messages d)) sink1 d1 w1 = Some (r2, sink2, d2, w2)"
          "case r2 of Inl e \<Rightarrow> d2 = d1 | Inr res \<Rightarrow> quarantined res \<and>
             d2 = enforce_quarantine_cap (d1\<lparr>quarantine := quarantine d1 @ exchange (last (messages d)) (result_text (turn_outcome res))\<rparr>)"
        using run_fallback_lanes [of A E prompt built "last (messages d)" sink1 d1 w1] by (elim exE conjE) (rule that)
      have "invoke_turn_with_refusal_fallback A E M prompt build sink d w = Some (r2, sink2, d2, w2)"
        using o assms True Inl f(1) b cut by (simp add: invoke_turn_with_refusal_fallback_def d1_def)
      moreover have "lanes_after d r2 d2" using f(2) by (auto simp: lanes_after_def d1_def split: sum.splits)
      ultimately show ?thesis using b by blast
    next
      case False
      then have "invoke_turn_with_refusal_fallback A E M prompt build sink d w =
          Some (Inl e, sink1, d\<lparr>messages := butlast (messages d)\<rparr>, w1)"
        using o assms Inl cut by (cases "is_refusal e"; cases build) (simp_all add: invoke_turn_with_refusal_fallback_def)
      then show ?thesis by (simp add: lanes_after_def)
    qed
  qed
qed

subsection \<open>The session a turn starts with\<close>

lemma estimate_again_fields [simp]:
  "messages (estimate_again J d) = messages d" "quarantine (estimate_again J d) = quarantine d"
  "isolation_ephemeral_from (estimate_again J d) = isolation_ephemeral_from d"
  "isolation_quarantine_from (estimate_again J d) = isolation_quarantine_from d"
  "wal (estimate_again J d) = wal d" "health (estimate_again J d) = health d"
  "message_count (estimate_again J d) = message_count d" "sess_key (estimate_again J d) = sess_key d"
  by (simp_all add: estimate_again_def)

text \<open>What compaction leaves alone.\<close>

definition same_but_trunk :: "'j session_data \<Rightarrow> 'j session_data \<Rightarrow> bool" where
  "same_but_trunk d d' \<longleftrightarrow> quarantine d' = quarantine d \<and> wal d' = wal d \<and> health d' = health d \<and>
     message_count d' = message_count d \<and> isolation_ephemeral_from d' = isolation_ephemeral_from d \<and>
     isolation_quarantine_from d' = isolation_quarantine_from d"

lemma apply_micro_compact_fields [simp]:
  "messages (apply_micro_compact J d) = fst (micro_compact J (messages d))"
  "same_but_trunk d (apply_micro_compact J d)"
  by (simp_all add: apply_micro_compact_def same_but_trunk_def Let_def split: prod.split)

lemma compact_context_newest:
  assumes "compact_context cfg answer now t d D = (d', D')"
    and "messages d \<noteq> []" and "\<not> is_system (last (messages d))"
  shows "messages d' \<noteq> [] \<and> last (messages d') = last (messages d) \<and>
    length (messages d') \<le> max (length (messages d)) (KEEP_RECENT + 3) \<and> same_but_trunk d d' \<and>
    the_store D' = the_store D \<and> the_buffers D' = the_buffers D \<and> the_marker D' = the_marker D \<and>
    the_provider D' = the_provider D \<and> (isolated t \<longrightarrow> D' = D)"
proof -
  let ?d1 = "apply_micro_compact (turn_json cfg) d"
  note m = micro_compact_last [OF assms(2,3), of "turn_json cfg"]
  have q: "same_but_trunk d ?d1" by simp
  show ?thesis
  proof (cases "isolated t")
    case True
    then show ?thesis using assms(1) m q by (auto simp: compact_context_def Let_def)
  next
    case False
    define P where "P = \<lparr>json_of = turn_json cfg, summarise = answer, context_budget = llm_budget cfg,
          failures = compaction_failures (metrics ?d1), recent_files = recently_accessed_files (metrics ?d1),
          active_plan = session_plan (metrics ?d1)\<rparr>"
    obtain ms r archived where c: "compact_with_params P (messages ?d1) = (ms, r, archived)" by (metis prod_cases3)
    have n: "messages ?d1 \<noteq> []" "\<not> is_system (last (messages ?d1))" using m assms(3) by auto
    note k0 = compact_with_params_newest [OF n, of P, unfolded c prod.case]
    have "length ms \<le> max (length (messages ?d1)) (KEEP_RECENT + 3)"
    proof (cases "compacted r")
      case True
      with k0 have "length ms \<le> KEEP_RECENT + 3" by (elim conjE) (rule mp)
      then show ?thesis by simp
    next
      case False
      with k0 have "ms = messages ?d1" by (elim conjE) (rule mp)
      then show ?thesis by (simp only: max.cobounded1)
    qed
    moreover have "length (messages ?d1) \<le> length (messages d)" using m by (elim conjE) (simp only: apply_micro_compact_fields)
    ultimately have "length ms \<le> max (length (messages d)) (KEEP_RECENT + 3)" by (meson le_trans max.mono order_refl)
    moreover have "ms \<noteq> []" by (rule conjunct1 [OF k0])
    moreover have "last ms = last (messages ?d1)" by (rule conjunct1 [OF conjunct2 [OF k0]])
    moreover have "last (messages ?d1) = last (messages d)" using m by (elim conjE) (simp only: apply_micro_compact_fields)
    ultimately have k: "ms \<noteq> []" "last ms = last (messages d)" "length ms \<le> max (length (messages d)) (KEEP_RECENT + 3)"
      by (simp_all only: simp_thms)
    define d2 where "d2 = ?d1\<lparr>messages := ms\<rparr>"
    define d3 where "d3 = d2\<lparr>metrics := (metrics d2)\<lparr>compaction_failures := new_failures r\<rparr>\<rparr>"
    define D2 where "D2 = (if archived = [] then D
      else D\<lparr>the_disk := snd (archive_conversation ''compaction'' (channel (scope_request t)) (Some (scope_key t)) archived (the_disk D))\<rparr>)"
    have "compact_context cfg answer now t d D = (if compacted r then note_compaction (turn_json cfg) now r d3 else d3, D2)"
      using False c by (simp add: compact_context_def auto_compact_def P_def [symmetric] d2_def d3_def D2_def Let_def)
    with assms(1) have d': "d' = (if compacted r then note_compaction (turn_json cfg) now r d3 else d3)" and D': "D' = D2"
      by simp_all
    have "messages d' = ms" "same_but_trunk d d'"
      using q by (auto simp: d' d3_def d2_def note_compaction_def same_but_trunk_def)
    moreover have "the_store D' = the_store D" "the_buffers D' = the_buffers D" "the_marker D' = the_marker D"
      "the_provider D' = the_provider D" by (simp_all add: D' D2_def)
    ultimately show ?thesis using k False by simp
  qed
qed

lemma user_message_simps [simp]: "\<not> is_system (user_message t s)" "human_turn (user_message t s)"
  by (simp_all add: user_message_def is_system_def human_turn_def from_human_def)

text \<open>The session after the window is tracked and a reset was due, before the user's message.\<close>

definition session_opened ::
  "('j, 'c, 'w) turn_config \<Rightarrow> turn_chances \<Rightarrow> turn_scope \<Rightarrow> 'j session \<Rightarrow> 'j daemon \<Rightarrow> 'j session_data \<times> 'j daemon" where
  "session_opened cfg X t sess D = maybe_reset_session cfg (now_before X) t
     (track_isolation_window (turn_json cfg) (isolated t) ((sdata sess)\<lparr>last_active := now_before X\<rparr>)) D"

lemma prepared:
  assumes "prepare_turn cfg M X t s sess D = (g, before, D')"
  shows "\<exists>d2 D1. session_opened cfg X t sess D = (d2, D1) \<and>
    messages (inner g) \<noteq> [] \<and> last (messages (inner g)) = user_message t s \<and>
    watermark g = Some (length (messages (inner g)) - 1) \<and>
    length (messages (inner g)) \<le> max (Suc (length (messages d2))) (KEEP_RECENT + 3) \<and>
    same_but_trunk (d2\<lparr>health := (health d2)\<lparr>rounds_since_human_input := 0\<rparr>\<rparr>) (inner g) \<and>
    the_store D' = the_store D1 \<and> the_buffers D' = the_buffers D1 \<and> the_marker D' = the_marker D1 \<and>
    the_provider D' = the_provider D1 \<and> (isolated t \<longrightarrow> D' = D1) \<and>
    before = marks_of (track_isolation_window (turn_json cfg) (isolated t) ((sdata sess)\<lparr>last_active := now_before X\<rparr>))"
proof -
  obtain d2 D1 where o: "session_opened cfg X t sess D = (d2, D1)" by fastforce
  let ?g = "push_user_turn t s (guard_new d2)"
  obtain d3 D2 where c: "compact_context cfg (summary_answer M) (now_before X) t (inner ?g) D1 = (d3, D2)" by fastforce
  have i: "inner ?g = d2\<lparr>messages := messages d2 @ [user_message t s], health := (health d2)\<lparr>rounds_since_human_input := 0\<rparr>\<rparr>"
      "watermark ?g = Some (length (messages d2))"
    by (simp_all add: push_user_turn_def guard_new_def arm_def Let_def)
  have n: "messages (inner ?g) \<noteq> []" "\<not> is_system (last (messages (inner ?g)))" by (simp_all add: i)
  note k = compact_context_newest [OF c n]
  have r: "watermark (rearm_at_last_user (?g\<lparr>inner := d3\<rparr>)) = Some (length (messages d3) - 1)"
      "inner (rearm_at_last_user (?g\<lparr>inner := d3\<rparr>)) = d3"
    using k by (simp_all add: rearm_at_last_user_def i Let_def)
  have p: "g = rearm_at_last_user (?g\<lparr>inner := d3\<rparr>)\<lparr>inner := d3\<lparr>metrics := (metrics d3)\<lparr>system_prompt_tokens :=
        length (turn_system_prompt cfg t) div 4\<rparr>\<rparr>\<rparr>" "D' = D2"
      "before = marks_of (track_isolation_window (turn_json cfg) (isolated t) ((sdata sess)\<lparr>last_active := now_before X\<rparr>))"
    using assms o c by (simp_all add: prepare_turn_def session_opened_def Let_def r)
  show ?thesis
    using k o p r i by (intro exI [of _ d2] exI [of _ D1]) (auto simp: same_but_trunk_def)
qed

lemma prepared_newest:
  assumes "prepare_turn cfg M X t s sess D = (g, before, D')"
  shows "messages (inner g) \<noteq> [] \<and> last (messages (inner g)) = user_message t s \<and>
    watermark g = Some (length (messages (inner g)) - 1)"
  using prepared [OF assms] by (elim exE conjE) (intro conjI)

subsection \<open>A turn by its outcome\<close>

definition scope_of :: "turn_chances \<Rightarrow> admitted \<Rightarrow> turn_scope" where
  "scope_of X adm = scope_new (adm_request adm) (adm_key adm)
     (case sender (adm_request adm) of None \<Rightarrow> ''unknown'' | Some who \<Rightarrow> who) (adm_call adm) (isolated_before X)"

lemma scope_of_fields [simp]:
  "scope_key (scope_of X adm) = adm_key adm" "scope_is_call (scope_of X adm) = adm_call adm"
  "isolated (scope_of X adm) = isolated_before X" "scope_request (scope_of X adm) = adm_request adm"
  by (simp_all add: scope_of_def scope_new_def)

definition heard_line :: "turn_chances \<Rightarrow> admitted \<Rightarrow> 'j daemon \<Rightarrow> 'j daemon" where
  "heard_line X adm D = record_channel_line (now_before X) (scope_of X adm) (sender_label (scope_of X adm)) ''user''
     (message (adm_request adm)) D"

text \<open>The session of a turn where the store keeps it.\<close>

definition the_session :: "turn_scope \<Rightarrow> 'j daemon \<Rightarrow> 'j session option" where
  "the_session t D = (if scope_is_call t then live_calls (the_store D) (scope_key t) else sessions (the_store D) (scope_key t))"

lemma the_session_put [simp]: "the_session t (put_session t s D) = Some s"
  by (simp add: the_session_def put_session_def Let_def)

lemma put_session_fields [simp]:
  "the_disk (put_session t s D) = the_disk D" "the_buffers (put_session t s D) = the_buffers D"
  "the_marker (put_session t s D) = the_marker D" "the_provider (put_session t s D) = the_provider D"
  by (simp_all add: put_session_def Let_def)

text \<open>The steps of a turn that gets to the provider, with what each hands to the next.\<close>

definition turn_steps ::
  "('j, 'c, 'w) turn_config \<Rightarrow> ('j, 'w) turn_models \<Rightarrow> turn_chances \<Rightarrow> admitted \<Rightarrow> 'j daemon \<Rightarrow> bytes \<Rightarrow> 'j session \<Rightarrow>
     'j daemon \<Rightarrow> 'j turn_guard \<Rightarrow> pre_turn_marks \<Rightarrow> 'j daemon \<Rightarrow> bool" where
  "turn_steps cfg M X adm D s sess D2 g before D3 \<longleftrightarrow>
     open_session X (scope_of X adm) (heard_line X adm D) = (sess, D2) \<and>
     prepare_turn cfg M X (scope_of X adm) s sess D2 = (g, before, D3)"

lemma run_turn_cases:
  fixes cfg :: "('j, 'c, 'w) turn_config"
  shows "(\<exists>resp m. isolation_command_reply (turn_isolation cfg) io (now_before X) (adm_request adm) (adm_key adm)
        (sender_label (scope_of X adm)) (the_marker D) = (Some resp, m) \<and>
      run_turn cfg M X io adm sink D w = Some (Inr resp, None, D\<lparr>the_marker := m\<rparr>, w)) \<or>
    (\<exists>m s sess D2 g before D3 outcome sink1 d w1 r sink2 D4.
      isolation_command_reply (turn_isolation cfg) io (now_before X) (adm_request adm) (adm_key adm)
        (sender_label (scope_of X adm)) (the_marker D) = (None, m) \<and>
      turn_steps cfg M X adm D s sess D2 g before D3 \<and> lanes_after (inner g) outcome d \<and>
      (\<forall>res. outcome = Inr res \<and> quarantined res \<longrightarrow>
         fallback_builder cfg M (scope_of X adm) (\<not> fallback_cap_reached (health (inner g))) \<noteq> None) \<and>
      turn_after_provider cfg X (scope_of X adm) (uses_voice_pool (adm_identity adm)) before s sess (g\<lparr>inner := d\<rparr>)
        (outcome :: turn_error + 'c turn_result) sink1 D3 = (r, sink2, D4) \<and>
      run_turn cfg M X io adm sink D w = Some (r, sink2, D4, w1))"
proof -
  define t where "t = scope_of X adm"
  have t: "scope_new (adm_request adm) (adm_key adm) (case sender (adm_request adm) of None \<Rightarrow> ''unknown'' | Some who \<Rightarrow> who)
      (adm_call adm) (isolated_before X) = t" by (simp add: t_def scope_of_def)
  have label: "(case sender (adm_request adm) of None \<Rightarrow> ''unknown'' | Some who \<Rightarrow> who) = sender_label t"
    by (simp add: t_def scope_of_def scope_new_def)
  have t': "scope_new (adm_request adm) (adm_key adm) (sender_label t) (adm_call adm) (isolated_before X) = t"
    using t unfolding label .
  note defs = run_turn_def run_resolved_turn_def Let_def label t'
  obtain reply m where i: "isolation_command_reply (turn_isolation cfg) io (now_before X) (adm_request adm) (adm_key adm)
      (sender_label t) (the_marker D) = (reply, m)" by fastforce
  show ?thesis
  proof (cases reply)
    case (Some resp)
    then have "run_turn cfg M X io adm sink D w = Some (Inr resp, None, D\<lparr>the_marker := m\<rparr>, w)"
      using i by (simp add: defs)
    with i Some show ?thesis unfolding t_def by blast
  next
    case None
    define s where "s = compose_user_message cfg (now_before X) t D"
    obtain sess D2 where o: "open_session X t (heard_line X adm D) = (sess, D2)" by fastforce
    obtain g before D3 where p: "prepare_turn cfg M X t s sess D2 = (g, before, D3)" by (metis prod_cases3)
    have n: "messages (inner g) \<noteq> []" using prepared [OF p] by (elim exE conjE)
    obtain outcome sink1 d w1 where v:
      "invoke_turn_with_refusal_fallback (turn_tools cfg (Some (surface_for (adm_key adm))) (isolated t)) (turn_speech cfg) M
         (turn_system_prompt cfg t) (fallback_builder cfg M t (\<not> fallback_cap_reached (health (inner g))))
         (turn_sink cfg (uses_voice_pool (adm_identity adm)) sink) (inner g) w = Some (outcome, sink1, d, w1)"
      "lanes_after (inner g) outcome d"
      "\<forall>res. outcome = Inr res \<and> quarantined res \<longrightarrow> fallback_builder cfg M t (\<not> fallback_cap_reached (health (inner g))) \<noteq> None"
      using invoke_turn_lanes [OF n, of "turn_tools cfg (Some (surface_for (adm_key adm))) (isolated t)" "turn_speech cfg" M
          "turn_system_prompt cfg t" "fallback_builder cfg M t (\<not> fallback_cap_reached (health (inner g)))"
          "turn_sink cfg (uses_voice_pool (adm_identity adm)) sink" w]
      by (elim exE conjE) (rule that)
    obtain r sink2 D4 where a: "turn_after_provider cfg X t (uses_voice_pool (adm_identity adm)) before s sess (g\<lparr>inner := d\<rparr>)
        outcome sink1 D3 = (r, sink2, D4)" by (metis prod_cases3)
    have h: "record_channel_line (now_before X) t (sender_label t) ''user'' (message (adm_request adm)) D = heard_line X adm D"
      by (simp add: heard_line_def t_def)
    have "run_turn cfg M X io adm sink D w = Some (r, sink2, D4, w1)"
      using i None o p v(1) a by (simp add: defs h s_def [symmetric])
    moreover have "turn_steps cfg M X adm D s sess D2 g before D3" using o p by (simp add: turn_steps_def t_def)
    ultimately show ?thesis
      using i v(2,3) a unfolding None t_def by blast
  qed
qed

lemma run_turn_ended:
  fixes cfg :: "('j, 'c, 'w) turn_config"
  assumes "run_turn cfg M X io adm sink D w = Some (r, sink', D', w')"
  obtains (command) resp m where "isolation_command_reply (turn_isolation cfg) io (now_before X) (adm_request adm)
        (adm_key adm) (sender_label (scope_of X adm)) (the_marker D) = (Some resp, m)"
      and "r = Inr resp" and "D' = D\<lparr>the_marker := m\<rparr>"
  | (ran) s sess D2 g before D3 outcome sink1 d where "turn_steps cfg M X adm D s sess D2 g before D3"
      and "lanes_after (inner g) outcome d"
      and "\<forall>res. outcome = Inr res \<and> quarantined res \<longrightarrow>
         fallback_builder cfg M (scope_of X adm) (\<not> fallback_cap_reached (health (inner g))) \<noteq> None"
      and "turn_after_provider cfg X (scope_of X adm) (uses_voice_pool (adm_identity adm)) before s sess (g\<lparr>inner := d\<rparr>)
        (outcome :: turn_error + 'c turn_result) sink1 D3 = (r, sink', D')"
  using run_turn_cases [of cfg io X adm D M sink w]
proof (elim disjE exE conjE)
  fix resp m
  assume "run_turn cfg M X io adm sink D w = Some (Inr resp, None, D\<lparr>the_marker := m\<rparr>, w)"
  with assms have "r = Inr resp" "D' = D\<lparr>the_marker := m\<rparr>" by simp_all
  then show thesis if "isolation_command_reply (turn_isolation cfg) io (now_before X) (adm_request adm) (adm_key adm)
        (sender_label (scope_of X adm)) (the_marker D) = (Some resp, m)"
    using command that by blast
next
  fix m s sess D2 g before D3 outcome sink1 d w1 r2 sink2 D4
  assume a: "turn_steps cfg M X adm D s sess D2 g before D3" "lanes_after (inner g) (outcome :: turn_error + 'c turn_result) d"
    "\<forall>res. outcome = Inr res \<and> quarantined res \<longrightarrow>
         fallback_builder cfg M (scope_of X adm) (\<not> fallback_cap_reached (health (inner g))) \<noteq> None"
    "turn_after_provider cfg X (scope_of X adm) (uses_voice_pool (adm_identity adm)) before s sess (g\<lparr>inner := d\<rparr>)
        outcome sink1 D3 = (r2, sink2, D4)"
    "run_turn cfg M X io adm sink D w = Some (r2, sink2, D4, w1)"
  from assms a(5) have "r2 = r" "sink2 = sink'" "D4 = D'" by simp_all
  with a(1-4) show thesis by (intro ran) simp_all
qed

text \<open>
  A turn returns: whatever the model answers and the tools do, whichever of the two providers runs,
  it ends with a response or an error.
\<close>
theorem turn_returns:
  "\<exists>r sink' D' w'. run_turn cfg M X io adm sink D w = Some (r, sink', D', w')"
  using run_turn_cases [of cfg io X adm D M sink w] by blast

subsection \<open>A turn that fails\<close>

lemma lanes_after_rest:
  assumes "lanes_after d r d'"
  shows "wal d' = wal d \<and> health d' = health d \<and> message_count d' = message_count d \<and>
    isolation_ephemeral_from d' = isolation_ephemeral_from d \<and> isolation_quarantine_from d' = isolation_quarantine_from d \<and>
    (prefix (messages d) (messages d') \<or> messages d' = butlast (messages d)) \<and>
    ((\<forall>res. r = Inr res \<longrightarrow> \<not> quarantined res) \<longrightarrow> quarantine d' = quarantine d)"
  using assms by (cases r) (auto simp: lanes_after_def enforce_quarantine_cap_def split: if_split_asm)

text \<open>The guard takes back the user's message and whatever followed it, and nothing else.\<close>

lemma dropped_guard:
  assumes "messages d \<noteq> []" and "watermark g = Some (length (messages d) - 1)" and "lanes_after d r (inner g)"
  shows "messages (drop_guard J g) = butlast (messages d)" and "same_but_trunk (inner g) (drop_guard J g)"
proof -
  from lanes_after_rest [OF assms(3)] consider
    (longer) "prefix (messages d) (messages (inner g))" | (cut) "messages (inner g) = butlast (messages d)" by blast
  then show "messages (drop_guard J g) = butlast (messages d)"
  proof cases
    case longer
    then have "length (messages d) - 1 < length (messages (inner g))"
      using assms(1) by (cases "messages d") (auto simp: prefix_def)
    then show ?thesis using assms(2) truncated_to_turn(1) [OF longer assms(1)] by (simp add: drop_guard_def)
  next
    case cut
    then show ?thesis using assms(2) by (simp add: drop_guard_def)
  qed
  show "same_but_trunk (inner g) (drop_guard J g)"
    using assms(2) by (simp add: drop_guard_def same_but_trunk_def)
qed

lemma after_failure:
  assumes "turn_after_provider cfg X t hold before s sess g outcome sink1 D3 = (Inl e, sink2, D4)"
  shows "\<exists>ps. D4 = put_session t (sess\<lparr>sdata := drop_guard (turn_json cfg) g\<rparr>) (D3\<lparr>the_provider := ps\<rparr>)"
    and "e \<noteq> NOT_DELIVERED \<Longrightarrow> \<exists>e'. outcome = Inl e'"
  using assms by (auto simp: turn_after_provider_def Let_def split: sum.splits prod.splits bool.splits if_splits)

text \<open>
  C10: A turn that fails leaves no trace of itself. Its session keeps the history the compaction left,
  without the user's message; its counters, its log position and its isolation marks are as before
  the provider call, and so is its quarantine lane, but for one case: when a reply of the fallback
  model was cut and the reset that says so could not be delivered, the turn fails as not delivered and the lane
  holds its exchange (the oldest messages past the lane's cap going). Nothing was written to the
  log, the archive, a session file or a context buffer after the compaction.
\<close>
theorem failed_turn_leaves_no_trace:
  assumes "run_turn cfg M X io adm sink D w = Some (Inl e, sink', D', w')"
  shows "\<exists>s sess D2 g before D3 d'. turn_steps cfg M X adm D s sess D2 g before D3 \<and>
    last (messages (inner g)) = user_message (scope_of X adm) s \<and>
    the_session (scope_of X adm) D' = Some (sess\<lparr>sdata := d'\<rparr>) \<and> messages d' = butlast (messages (inner g)) \<and>
    wal d' = wal (inner g) \<and> health d' = health (inner g) \<and> message_count d' = message_count (inner g) \<and>
    isolation_ephemeral_from d' = isolation_ephemeral_from (inner g) \<and>
    isolation_quarantine_from d' = isolation_quarantine_from (inner g) \<and>
    (quarantine d' = quarantine (inner g) \<or>
      e = NOT_DELIVERED \<and> fallback_builder cfg M (scope_of X adm) (\<not> fallback_cap_reached (health (inner g))) \<noteq> None \<and>
      (\<exists>reply. quarantine d' = newest MAX_QUARANTINE_MESSAGES
        (quarantine (inner g) @ exchange (user_message (scope_of X adm) s) reply))) \<and>
    the_disk D' = the_disk D3 \<and> the_buffers D' = the_buffers D3"
proof -
  let ?t = "scope_of X adm"
  from assms obtain s sess D2 g before D3 outcome sink1 d where
    steps: "turn_steps cfg M X adm D s sess D2 g before D3" and lanes: "lanes_after (inner g) outcome d"
    and built: "\<forall>res. outcome = Inr res \<and> quarantined res \<longrightarrow>
      fallback_builder cfg M ?t (\<not> fallback_cap_reached (health (inner g))) \<noteq> None"
    and after: "turn_after_provider cfg X ?t (uses_voice_pool (adm_identity adm)) before s sess (g\<lparr>inner := d\<rparr>)
        outcome sink1 D3 = (Inl e, sink', D')"
    by (cases rule: run_turn_ended) simp_all
  from steps have "prepare_turn cfg M X ?t s sess D2 = (g, before, D3)" by (simp add: turn_steps_def)
  from prepared_newest [OF this] have n: "messages (inner g) \<noteq> []" "last (messages (inner g)) = user_message ?t s"
      "watermark g = Some (length (messages (inner g)) - 1)" by simp_all
  let ?g = "g\<lparr>inner := d\<rparr>" and ?d = "drop_guard (turn_json cfg) (g\<lparr>inner := d\<rparr>)"
  have g: "watermark ?g = Some (length (messages (inner g)) - 1)" "lanes_after (inner g) outcome (inner ?g)"
    using n(3) lanes by simp_all
  note dropped = dropped_guard [OF n(1) g, of "turn_json cfg"]
  note rest = lanes_after_rest [OF lanes]
  have "wal ?d = wal (inner g) \<and> health ?d = health (inner g) \<and> message_count ?d = message_count (inner g) \<and>
    isolation_ephemeral_from ?d = isolation_ephemeral_from (inner g) \<and>
    isolation_quarantine_from ?d = isolation_quarantine_from (inner g)"
    using dropped(2) rest by (simp add: same_but_trunk_def)
  moreover have "quarantine ?d = quarantine (inner g) \<or>
      e = NOT_DELIVERED \<and> fallback_builder cfg M ?t (\<not> fallback_cap_reached (health (inner g))) \<noteq> None \<and>
      (\<exists>reply. quarantine ?d = newest MAX_QUARANTINE_MESSAGES (quarantine (inner g) @ exchange (user_message ?t s) reply))"
  proof (cases "\<exists>res. outcome = Inr res \<and> quarantined res")
    case True
    then obtain res where res: "outcome = Inr res" "quarantined res" by blast
    have "e = NOT_DELIVERED" using after_failure(2) [OF after] res(1) by auto
    moreover have "quarantine ?d = newest MAX_QUARANTINE_MESSAGES
        (quarantine (inner g) @ exchange (user_message ?t s) (result_text (turn_outcome res)))"
      using dropped(2) lanes res n(2) by (auto simp: same_but_trunk_def lanes_after_def enforce_quarantine_cap_def)
    ultimately show ?thesis using built res by blast
  next
    case False
    then show ?thesis using dropped(2) rest by (auto simp: same_but_trunk_def)
  qed
  moreover have "the_session ?t D' = Some (sess\<lparr>sdata := ?d\<rparr>)" "the_disk D' = the_disk D3" "the_buffers D' = the_buffers D3"
    using after_failure(1) [OF after] by auto
  ultimately show ?thesis using steps n(2) dropped(1) by blast
qed

subsection \<open>A turn that succeeds\<close>

lemma after_success:
  assumes "turn_after_provider cfg X t hold before s sess g outcome sink1 D3 = (Inr resp, sink2, D4)"
  shows "\<exists>res. outcome = Inr res \<and>
    commit_turn cfg X (resample_isolation (isolated_after X) t) before s res (sess\<lparr>sdata := inner g\<rparr>)
      (D3\<lparr>the_provider := record_provider_outcome (chars_of (turn_agent cfg)) (now_after X) (scope_key t) outcome
          (the_provider D3)\<rparr>) = (resp, D4)"
  using assms by (auto simp: turn_after_provider_def disarm_def Let_def split: sum.splits prod.splits bool.splits)

lemma commit_turn_response:
  assumes "commit_turn cfg X t before s res sess D = (resp, D')"
  shows "resp = turn_response t (turn_outcome res) (quarantined res)"
  using assms by (simp add: commit_turn_def Let_def split: prod.splits)

lemma command_reply_plain:
  "isolation_command_reply E io now req key label m = (Some resp, m') \<Longrightarrow> \<not> response_fallback resp"
  by (auto simp: isolation_command_reply_def split: prod.splits intercept.splits)

text \<open>What a reset leaves of the counters.\<close>

lemma opened_rounds:
  assumes "prepare_turn cfg M X t s sess D = (g, before, D')"
  shows "fallback_count (health (inner g)) = fallback_count (health (fst (session_opened cfg X t sess D)))"
proof -
  obtain d2 D1 where "session_opened cfg X t sess D = (d2, D1)"
      "same_but_trunk (d2\<lparr>health := (health d2)\<lparr>rounds_since_human_input := 0\<rparr>\<rparr>) (inner g)"
    using prepared [OF assms] by (elim exE conjE)
  then show ?thesis by (simp add: same_but_trunk_def)
qed

text \<open>
  C14: A reply comes from the fallback model only for the owner, only outside isolation, only when the
  configuration names a model for it, and only while the session has used fewer than
  \<open>MAX_FALLBACKS_PER_SESSION\<close>.
\<close>
theorem fallback_only_for_owner:
  assumes "run_turn cfg M X io adm sink D w = Some (Inr resp, sink', D', w')" and "response_fallback resp"
  shows "is_owner (adm_key adm) \<and> \<not> isolated_before X \<and> fallback_target cfg \<noteq> None \<and>
    (\<exists>sess D2. open_session X (scope_of X adm) (heard_line X adm D) = (sess, D2) \<and>
       fallback_count (health (fst (session_opened cfg X (scope_of X adm) sess D2))) < MAX_FALLBACKS_PER_SESSION)"
proof -
  let ?t = "scope_of X adm"
  from assms(1) obtain s sess D2 g before D3 outcome sink1 d where
    steps: "turn_steps cfg M X adm D s sess D2 g before D3"
    and built: "\<forall>res. outcome = Inr res \<and> quarantined res \<longrightarrow>
         fallback_builder cfg M ?t (\<not> fallback_cap_reached (health (inner g))) \<noteq> None"
    and after: "turn_after_provider cfg X ?t (uses_voice_pool (adm_identity adm)) before s sess (g\<lparr>inner := d\<rparr>)
        outcome sink1 D3 = (Inr resp, sink', D')"
  proof (cases rule: run_turn_ended)
    case (command resp' m)
    then show ?thesis using command_reply_plain [OF command(1)] assms(2) by simp
  next
    case (ran s sess D2 g before D3 outcome sink1 d)
    then show ?thesis using that by blast
  qed
  obtain res where res: "outcome = Inr res" "resp = turn_response (resample_isolation (isolated_after X) ?t) (turn_outcome res) (quarantined res)"
    using after_success [OF after] commit_turn_response by (elim exE conjE) blast
  with assms(2) have "quarantined res" by (simp add: turn_response_def Let_def)
  with built res(1) have "fallback_builder cfg M ?t (\<not> fallback_cap_reached (health (inner g))) \<noteq> None" by simp
  then have "is_owner (adm_key adm)" "\<not> isolated_before X" "fallback_target cfg \<noteq> None" "\<not> fallback_cap_reached (health (inner g))"
    by (auto simp: fallback_builder_def gated_fallback_def split: option.splits if_splits)
  moreover have "open_session X ?t (heard_line X adm D) = (sess, D2)" "prepare_turn cfg M X ?t s sess D2 = (g, before, D3)"
    using steps by (simp_all add: turn_steps_def)
  ultimately show ?thesis using opened_rounds [of cfg M X ?t s sess D2] by (auto simp: fallback_cap_reached_def)
qed

subsection \<open>A turn for somebody else\<close>

lemma opened_provider:
  "session_opened cfg X t sess D = (d, D1) \<Longrightarrow> the_provider D1 = the_provider D \<and> the_marker D1 = the_marker D \<and> the_buffers D1 = the_buffers D"
  by (auto simp: session_opened_def maybe_reset_session_def reset_now_def split: if_splits prod.splits option.splits)

lemma open_session_posture:
  "open_session X t D = (sess, D2) \<Longrightarrow> the_provider D2 = the_provider D \<and> the_marker D2 = the_marker D \<and> the_buffers D2 = the_buffers D"
  by (auto simp: open_session_def Let_def split: if_splits prod.splits)

lemma record_channel_line_posture [simp]:
  "the_provider (record_channel_line now t who as s D) = the_provider D"
  "the_marker (record_channel_line now t who as s D) = the_marker D"
  "the_store (record_channel_line now t who as s D) = the_store D"
  "the_disk (record_channel_line now t who as s D) = the_disk D"
  by (simp_all add: record_channel_line_def)

lemma heard_line_posture [simp]:
  "the_provider (heard_line X adm D) = the_provider D" "the_marker (heard_line X adm D) = the_marker D"
  "the_store (heard_line X adm D) = the_store D" "the_disk (heard_line X adm D) = the_disk D"
  by (simp_all add: heard_line_def)

lemma prepared_posture:
  assumes "turn_steps cfg M X adm D s sess D2 g before D3"
  shows "the_provider D3 = the_provider D" "the_marker D3 = the_marker D" "the_buffers D3 = the_buffers (heard_line X adm D)"
proof -
  have o: "open_session X (scope_of X adm) (heard_line X adm D) = (sess, D2)"
    and p: "prepare_turn cfg M X (scope_of X adm) s sess D2 = (g, before, D3)"
    using assms by (simp_all add: turn_steps_def)
  obtain d2 D1 where q: "session_opened cfg X (scope_of X adm) sess D2 = (d2, D1)" "the_provider D3 = the_provider D1"
      "the_marker D3 = the_marker D1" "the_buffers D3 = the_buffers D1"
    using prepared [OF p] by (elim exE conjE)
  from opened_provider [OF q(1)] open_session_posture [OF o] q
  show "the_provider D3 = the_provider D" "the_marker D3 = the_marker D" "the_buffers D3 = the_buffers (heard_line X adm D)"
    by simp_all
qed

lemma commit_turn_posture:
  assumes "commit_turn cfg X t before s res sess D = (resp, D')"
  shows "the_provider D' = the_provider D" "the_marker D' = the_marker D"
  using assms by (auto simp: commit_turn_def release_and_persist_def Let_def split: prod.splits if_splits)

text \<open>
  Whoever is not the owner moves neither the isolation marker nor the provider status \<open>/health\<close>
  shows, whatever they say and however their turn ends; and their turn is the same whatever tools
  the registries hold: none of them can run in it.
\<close>
theorem others_move_nothing:
  assumes "run_turn cfg M X io adm sink D w = Some (r, sink', D', w')" and "\<not> is_owner (adm_key adm)"
  shows "the_marker D' = the_marker D \<and> the_provider D' = the_provider D \<and>
    turn_tools cfg (Some (surface_for (adm_key adm))) isol = (turn_agent cfg)\<lparr>find_tool := Map.empty\<rparr>"
proof -
  have "the_marker D' = the_marker D \<and> the_provider D' = the_provider D"
    using assms(1)
  proof (cases rule: run_turn_ended)
    case (command resp m)
    then show ?thesis using assms(2)
      by (auto simp: isolation_command_reply_def intercept_command_def split: prod.splits option.splits intercept.splits)
  next
    case (ran s sess D2 g before D3 outcome sink1 d)
    note posture = prepared_posture [OF ran(1)]
    have p: "record_provider_outcome U now (adm_key adm) outcome ps = ps" for U now ps
      using assms(2) by (simp add: record_provider_outcome_def)
    show ?thesis
    proof (cases r)
      case (Inl e)
      with ran(4) show ?thesis using posture
        by (auto simp: turn_after_provider_def p Let_def split: sum.splits prod.splits bool.splits if_splits)
    next
      case (Inr resp)
      from after_success [OF ran(4) [unfolded Inr]] obtain res where
        "commit_turn cfg X (resample_isolation (isolated_after X) (scope_of X adm)) before s res
          (sess\<lparr>sdata := inner (g\<lparr>inner := d\<rparr>)\<rparr>) (D3\<lparr>the_provider := the_provider D3\<rparr>) = (resp, D')"
        by (auto simp: p)
      from commit_turn_posture [OF this] show ?thesis using posture by simp
    qed
  qed
  moreover have "turn_tools cfg (Some (surface_for (adm_key adm))) isol = (turn_agent cfg)\<lparr>find_tool := Map.empty\<rparr>"
    using assms(2) by (simp add: turn_tools_def Let_def tools_of_others)
  ultimately show ?thesis by blast
qed

subsection \<open>The session a commit leaves\<close>

lemma record_accesses_fields [simp]:
  "messages (fold (\<lambda>(path, s) d. record_file_access now path s d) fs d) = messages d"
  "quarantine (fold (\<lambda>(path, s) d. record_file_access now path s d) fs d) = quarantine d"
  "isolation_ephemeral_from (fold (\<lambda>(path, s) d. record_file_access now path s d) fs d) = isolation_ephemeral_from d"
  "isolation_quarantine_from (fold (\<lambda>(path, s) d. record_file_access now path s d) fs d) = isolation_quarantine_from d"
  "wal (fold (\<lambda>(path, s) d. record_file_access now path s d) fs d) = wal d"
  by (induction fs arbitrary: d) (auto simp: record_file_access_def)

lemma track_file_accesses_fields [simp]:
  "messages (track_file_accesses J now n d) = messages d" "quarantine (track_file_accesses J now n d) = quarantine d"
  "isolation_ephemeral_from (track_file_accesses J now n d) = isolation_ephemeral_from d"
  "isolation_quarantine_from (track_file_accesses J now n d) = isolation_quarantine_from d"
  "wal (track_file_accesses J now n d) = wal d"
  by (simp_all add: track_file_accesses_def)

lemma commit_turn_counters_fields [simp]:
  "messages (commit_turn_counters isol quar d) = messages d" "quarantine (commit_turn_counters isol quar d) = quarantine d"
  "isolation_ephemeral_from (commit_turn_counters isol quar d) = isolation_ephemeral_from d"
  "isolation_quarantine_from (commit_turn_counters isol quar d) = isolation_quarantine_from d"
  "wal_seq (wal (commit_turn_counters isol quar d)) = wal_seq (wal d)"
  by (simp_all add: commit_turn_counters_def Let_def)

definition mark_after :: "nat option \<Rightarrow> nat \<Rightarrow> nat" where
  "mark_after m n = (case m of None \<Rightarrow> n | Some k \<Rightarrow> k)"

lemma anchor_fields [simp]:
  "messages (anchor_isolation_after_turn before quar d) = messages d"
  "quarantine (anchor_isolation_after_turn before quar d) =
     (if quar then take (mark_after (isolation_quarantine_from d) (quarantine_len before)) (quarantine d) else quarantine d)"
  "isolation_ephemeral_from (anchor_isolation_after_turn before quar d) = Some (mark_after (isolation_ephemeral_from d) (trunk_len before))"
  "isolation_quarantine_from (anchor_isolation_after_turn before quar d) =
     Some (mark_after (isolation_quarantine_from d) (quarantine_len before))"
  by (simp_all add: anchor_isolation_after_turn_def mark_after_def Let_def)

lemma commit_session_fields:
  assumes "commit_session cfg X t before s res d dk = (d', dk')"
  shows "messages d' = newest MAX_MESSAGES_PER_SESSION (messages d)"
    and "quarantine d' = (if isolated t \<and> quarantined res
      then take (mark_after (isolation_quarantine_from d) (quarantine_len before)) (quarantine d) else quarantine d)"
    and "isolation_ephemeral_from d' = (if isolated t then Some (mark_after (isolation_ephemeral_from d) (trunk_len before))
      else isolation_ephemeral_from d)"
    and "isolation_quarantine_from d' = (if isolated t then Some (mark_after (isolation_quarantine_from d) (quarantine_len before))
      else isolation_quarantine_from d)"
    and "\<not> persists t \<Longrightarrow> dk' = dk"
  using assms by (auto simp: commit_session_def enforce_message_cap_def commit_to_wal_def Let_def split: prod.splits)

lemma commit_turn_isolated:
  assumes "commit_turn cfg X t before s res sess D = (resp, D')" and "isolated t"
  shows "the_disk D' = the_disk D" "the_buffers D' = the_buffers D"
proof -
  have n: "\<not> persists t" using assms(2) by (simp add: persists_def)
  obtain d1 dk1 where c: "commit_session cfg X t before s res (sdata sess) (the_disk D) = (d1, dk1)" by fastforce
  have "dk1 = the_disk D" by (rule commit_session_fields(5) [OF c n])
  then show "the_disk D' = the_disk D" "the_buffers D' = the_buffers D"
    using assms c n by (auto simp: commit_turn_def release_and_persist_def record_channel_line_def Let_def)
qed

subsection \<open>Isolation\<close>

text \<open>What opening a session costs the disk: the write of the session that is evicted to make room.\<close>

definition evicts :: "turn_chances \<Rightarrow> admitted \<Rightarrow> 'j daemon \<Rightarrow> 'j daemon \<Rightarrow> bool" where
  "evicts X adm D D' \<longleftrightarrow> \<not> adm_call adm \<and> sessions (the_store D) (adm_key adm) = None \<and>
     max_sessions (the_store D) \<le> length (session_order X) \<and>
     (\<exists>k s. least_active (sessions (the_store D)) (session_order X) = Some k \<and> sessions (the_store D) k = Some s \<and>
        the_disk D' = persist_session_data (sdata s) (the_disk D))"

lemma open_session_disk:
  assumes "open_session X (scope_of X adm) D = (sess, D2)"
  shows "the_disk D2 = the_disk D \<or> evicts X adm D D2"
  using assms
  by (auto simp: open_session_def get_or_create_by_key_def evict_lru_def evicts_def Let_def
      split: if_splits prod.splits option.splits)

text \<open>
  C13: An isolated turn writes nothing of itself: when the marker is there as the turn is admitted, no log,
  archive, session file or context buffer changes, whatever the turn does, except that a sender
  without a session who comes to a full store has the least active session of somebody else
  written to its file and evicted. A turn that sees the marker only after the model has answered writes
  nothing from there.
\<close>
theorem isolated_turn_writes_nothing:
  assumes "run_turn cfg M X io adm sink D w = Some (r, sink', D', w')"
  shows "(isolated_before X \<longrightarrow> the_buffers D' = the_buffers D \<and> (the_disk D' = the_disk D \<or> evicts X adm D D')) \<and>
    (isolated_after X \<longrightarrow> (the_disk D' = the_disk D \<and> the_buffers D' = the_buffers D) \<or>
      (\<exists>s sess D2 g before D3. turn_steps cfg M X adm D s sess D2 g before D3 \<and>
        the_disk D' = the_disk D3 \<and> the_buffers D' = the_buffers D3))"
  using assms
proof (cases rule: run_turn_ended)
  case (command resp m)
  then show ?thesis by simp
next
  case (ran s sess D2 g before D3 outcome sink1 d)
  let ?t = "scope_of X adm"
  have rest: "the_disk D' = the_disk D3 \<and> the_buffers D' = the_buffers D3" if "isolated_before X \<or> isolated_after X"
  proof (cases r)
    case (Inl e)
    from after_failure(1) [OF ran(4) [unfolded Inl]] show ?thesis by auto
  next
    case (Inr resp)
    from after_success [OF ran(4) [unfolded Inr]] obtain res ps where
      c: "commit_turn cfg X (resample_isolation (isolated_after X) ?t) before s res
        (sess\<lparr>sdata := inner (g\<lparr>inner := d\<rparr>)\<rparr>) (D3\<lparr>the_provider := ps\<rparr>) = (resp, D')" by blast
    have "isolated (resample_isolation (isolated_after X) ?t)" using that by (auto simp: resample_isolation_def)
    from commit_turn_isolated [OF c this] show ?thesis by simp
  qed
  have "(the_disk D3 = the_disk D \<or> evicts X adm D D3) \<and> the_buffers D3 = the_buffers D" if i: "isolated_before X"
  proof -
    have o: "open_session X ?t (heard_line X adm D) = (sess, D2)" and p: "prepare_turn cfg M X ?t s sess D2 = (g, before, D3)"
      using ran(1) by (simp_all add: turn_steps_def)
    have h: "heard_line X adm D = D" using i by (simp add: heard_line_def record_channel_line_def)
    obtain d2 D1 where q: "session_opened cfg X ?t sess D2 = (d2, D1)" "D3 = D1" using prepared [OF p] i by auto
    then have "D3 = D2" using i by (simp add: session_opened_def maybe_reset_session_def)
    moreover have "the_disk D2 = the_disk D \<or> evicts X adm D D2" using open_session_disk [of X adm D] o by (simp add: h)
    moreover have "the_buffers D2 = the_buffers D" using open_session_posture [OF o] by (simp add: h)
    ultimately show ?thesis by simp
  qed
  moreover have "evicts X adm D D3 \<Longrightarrow> the_disk D' = the_disk D3 \<Longrightarrow> evicts X adm D D'" by (simp add: evicts_def)
  ultimately have "isolated_before X \<longrightarrow> the_buffers D' = the_buffers D \<and> (the_disk D' = the_disk D \<or> evicts X adm D D')"
    using rest by auto
  moreover have "isolated_after X \<longrightarrow> (\<exists>s sess D2 g before D3. turn_steps cfg M X adm D s sess D2 g before D3 \<and>
        the_disk D' = the_disk D3 \<and> the_buffers D' = the_buffers D3)"
    using rest ran(1) by blast
  ultimately show ?thesis by blast
qed

text \<open>
  The end of isolation sheds what was said in it only while the history in front of its mark
  keeps its length. When a commit cuts \<open>k\<close> messages off an over-long trunk, the next ordinary turn
  keeps the first \<open>k\<close> messages that were said in isolation as its newest history.
\<close>
theorem isolated_tail_survives_the_cap:
  assumes "isolated t" and "isolation_ephemeral_from d = Some n"
    and "length (messages d) = MAX_MESSAGES_PER_SESSION + k" and "k \<le> n" and "n + k \<le> length (messages d)"
    and "commit_session cfg X t before s res d dk = (d', dk')"
  shows "messages (track_isolation_window J False d') = drop k (take n (messages d)) @ take k (drop n (messages d))"
proof -
  note c = commit_session_fields [OF assms(6)]
  have "messages d' = drop k (messages d)" using c(1) assms(3) by (simp add: newest_def)
  moreover have "isolation_ephemeral_from d' = Some n" using c(3) assms(1,2) by (simp add: mark_after_def)
  ultimately have "messages (track_isolation_window J False d') = take n (drop k (messages d))"
    by (simp add: track_isolation_window_def close_isolation_window_def shed_isolation_quarantine_def split: option.split)
  also have "\<dots> = drop k (take (n + k) (messages d))" by (simp add: drop_take add.commute)
  also have "\<dots> = drop k (take n (messages d)) @ take k (drop n (messages d))"
    using assms(4,5) by (simp add: take_add drop_append)
  finally show ?thesis .
qed

subsection \<open>Well-formed sessions\<close>

text \<open>The quarantine lane is a run of exchanges: what a person said and what the fallback answered.\<close>

fun exchanges :: "'j message list \<Rightarrow> bool" where
  "exchanges [] \<longleftrightarrow> True"
| "exchanges [m] \<longleftrightarrow> False"
| "exchanges (m # a # ms) \<longleftrightarrow> human_turn m \<and> msg_role a = Assistant \<and> exchanges ms"

lemma exchanges_even: "exchanges ms \<Longrightarrow> even (length ms)"
  by (induction ms rule: exchanges.induct) auto

lemma exchanges_append: "exchanges xs \<Longrightarrow> exchanges ys \<Longrightarrow> exchanges (xs @ ys)"
  by (induction xs rule: exchanges.induct) auto

lemma exchanges_take: "exchanges ms \<Longrightarrow> even n \<Longrightarrow> exchanges (take n ms)"
proof (induction ms arbitrary: n rule: exchanges.induct)
  case (3 m a ms)
  then show ?case by (cases n; cases "n - 1") auto
qed auto

lemma exchanges_drop: "exchanges ms \<Longrightarrow> even n \<Longrightarrow> exchanges (drop n ms)"
proof (induction ms arbitrary: n rule: exchanges.induct)
  case (3 m a ms)
  then show ?case by (cases n; cases "n - 1") auto
qed auto

definition quarantine_ok :: "'j session_data \<Rightarrow> bool" where
  "quarantine_ok d \<longleftrightarrow> length (quarantine d) \<le> MAX_QUARANTINE_MESSAGES \<and> exchanges (quarantine d) \<and>
     (\<forall>n. isolation_quarantine_from d = Some n \<longrightarrow> even n)"

definition session_ok :: "'j session_data \<Rightarrow> bool" where
  "session_ok d \<longleftrightarrow> length (messages d) \<le> MAX_MESSAGES_PER_SESSION \<and> quarantine_ok d"

definition store_ok :: "'j store \<Rightarrow> bool" where
  "store_ok st \<longleftrightarrow> (\<forall>k s. sessions st k = Some s \<longrightarrow> session_ok (sdata s)) \<and>
     (\<forall>k s. live_calls st k = Some s \<longrightarrow> session_ok (sdata s))"

lemma same_but_trunk_quarantine: "same_but_trunk d d' \<Longrightarrow> quarantine_ok d' \<longleftrightarrow> quarantine_ok d"
  by (simp add: same_but_trunk_def quarantine_ok_def)

lemma fresh_ok: "session_ok (sdata (fresh_session now key ch who))"
  by (simp add: fresh_session_def session_new_def session_ok_def quarantine_ok_def)

lemma evict_lru_ok: "store_ok st \<Longrightarrow> store_ok (fst (evict_lru ks st dk))"
  by (auto simp: evict_lru_def store_ok_def split: option.splits if_splits)

lemma get_or_create_by_key_ok:
  assumes "get_or_create_by_key ks now key ch who st dk = (s, st', dk')" and "store_ok st"
  shows "session_ok (sdata s) \<and> store_ok st'"
proof (cases "sessions st key")
  case None
  define st1 where "st1 = fst (if max_sessions st \<le> length ks then evict_lru ks st dk else (st, dk))"
  have "store_ok st1" using evict_lru_ok [OF assms(2)] assms(2) by (simp add: st1_def)
  moreover have "s = fresh_session now key ch who" "st' = st1\<lparr>sessions := (sessions st1)(key \<mapsto> s)\<rparr>"
    using assms(1) None by (auto simp: get_or_create_by_key_def st1_def Let_def case_prod_beta)
  ultimately show ?thesis using fresh_ok by (auto simp: store_ok_def)
next
  case (Some a)
  then show ?thesis using assms by (auto simp: get_or_create_by_key_def store_ok_def)
qed

lemma get_or_create_call_ok:
  assumes "get_or_create_call busy ks now key ch who st = (s, st')" and "store_ok st"
  shows "session_ok (sdata s) \<and> store_ok st'"
proof (cases "live_calls st key")
  case None
  define st1 where "st1 = (if MAX_LIVE_CALLS \<le> length ks then end_longest_idle_call busy ks st else st)"
  have "store_ok st1" using assms(2)
    by (auto simp: st1_def end_longest_idle_call_def end_call_of_def queue_ended_call_def store_ok_def split: option.split)
  moreover have "s = fresh_session now key ch who" "st' = st1\<lparr>live_calls := (live_calls st1)(key \<mapsto> s)\<rparr>"
    using assms(1) None by (auto simp: get_or_create_call_def st1_def Let_def)
  ultimately show ?thesis using fresh_ok by (auto simp: store_ok_def)
next
  case (Some a)
  then show ?thesis using assms by (auto simp: get_or_create_call_def store_ok_def)
qed

lemma open_session_ok:
  assumes "open_session X t D = (sess, D2)" and "store_ok (the_store D)"
  shows "session_ok (sdata sess)" "store_ok (the_store D2)"
  using assms get_or_create_by_key_ok get_or_create_call_ok
  by (fastforce simp: open_session_def Let_def split: if_splits prod.splits)+

lemma tracked_ok:
  assumes "session_ok d"
  shows "session_ok (track_isolation_window J active d)"
  using assms exchanges_even [of "quarantine d"]
  by (auto simp: track_isolation_window_def open_isolation_window_def close_isolation_window_def shed_isolation_quarantine_def
      session_ok_def quarantine_ok_def exchanges_take split: option.splits)

lemma begin_fresh_ok:
  assumes "begin_fresh J T now d = (x, d')" and "session_ok d"
  shows "session_ok d'"
  using assms by (auto simp: begin_fresh_def session_ok_def quarantine_ok_def Let_def MAX_MESSAGES_PER_SESSION_def
      split: if_splits option.splits)

lemma opened_ok:
  assumes "session_opened cfg X t sess D = (d, D1)" and "session_ok (sdata sess)"
  shows "session_ok d" and "store_ok (the_store D) \<Longrightarrow> store_ok (the_store D1)"
proof -
  let ?d = "track_isolation_window (turn_json cfg) (isolated t) ((sdata sess)\<lparr>last_active := now_before X\<rparr>)"
  have "session_ok ((sdata sess)\<lparr>last_active := now_before X\<rparr>)" using assms(2) by (simp add: session_ok_def quarantine_ok_def)
  then have ok: "session_ok ?d" by (rule tracked_ok)
  obtain x d' where b: "begin_fresh (turn_json cfg) (turn_tags cfg) (now_before X) ?d = (x, d')" by fastforce
  have "d = ?d \<or> d = d'"
    using assms(1) b by (auto simp: session_opened_def maybe_reset_session_def reset_now_def reset_session_def split: if_splits option.splits prod.splits)
  with ok begin_fresh_ok [OF b ok] show "session_ok d" by auto
  show "store_ok (the_store D1)" if "store_ok (the_store D)"
    using assms(1) that by (auto simp: session_opened_def maybe_reset_session_def reset_now_def queue_ended_call_def store_ok_def
        split: if_splits option.splits prod.splits)
qed

lemma lanes_after_quarantine_ok:
  assumes "lanes_after d r d'" and "quarantine_ok d" and "human_turn (last (messages d))"
  shows "quarantine_ok d'"
proof (cases "\<exists>res. r = Inr res \<and> quarantined res")
  case False
  with assms(1,2) show ?thesis by (auto simp: lanes_after_def quarantine_ok_def split: sum.splits)
next
  case True
  then obtain res where res: "r = Inr res" "quarantined res" by blast
  let ?q = "quarantine d @ exchange (last (messages d)) (result_text (turn_outcome res))"
  have q: "exchanges ?q" using assms(2,3) by (auto simp: quarantine_ok_def exchange_def intro!: exchanges_append)
  have "quarantine d' = newest MAX_QUARANTINE_MESSAGES ?q" "isolation_quarantine_from d' = isolation_quarantine_from d"
    using assms(1) res by (simp_all add: lanes_after_def enforce_quarantine_cap_def)
  moreover have "even (length ?q - MAX_QUARANTINE_MESSAGES)"
    using exchanges_even [OF q] by (simp add: MAX_QUARANTINE_MESSAGES_def)
  moreover from this have "exchanges (newest MAX_QUARANTINE_MESSAGES ?q)" unfolding newest_def by (rule exchanges_drop [OF q])
  ultimately show ?thesis using assms(2) by (simp add: quarantine_ok_def)
qed


lemma put_session_ok: "store_ok (the_store D) \<Longrightarrow> session_ok (sdata s) \<Longrightarrow> store_ok (the_store (put_session t s D))"
  by (auto simp: put_session_def store_ok_def Let_def)

lemma persist_ok: "store_ok st \<Longrightarrow> store_ok (fst (persist k st dk))"
  by (auto simp: persist_def store_ok_def split: option.splits)

lemma release_ok:
  assumes "store_ok (the_store D)" and "session_ok (sdata s)"
  shows "store_ok (the_store (release_and_persist t s D))"
proof -
  have "store_ok (the_store (put_session t (s\<lparr>dirty := True\<rparr>) D))" using assms by (simp add: put_session_ok)
  from persist_ok [OF this] put_session_ok [OF assms] show ?thesis
    by (simp add: release_and_persist_def Let_def case_prod_beta)
qed

lemma maybe_checkpoint_fields:
  assumes "maybe_checkpoint cfg X t d dk = (d', dk')"
  shows "messages d' = messages d" "quarantine d' = quarantine d" "isolation_quarantine_from d' = isolation_quarantine_from d"
  using assms by (auto simp: maybe_checkpoint_def split: if_splits prod.splits option.splits)

lemma commit_turn_ok:
  assumes "commit_turn cfg X t before s res sess D = (resp, D')" and "store_ok (the_store D)"
    and "quarantine_ok (sdata sess)" and "even (quarantine_len before)"
  shows "store_ok (the_store D')"
proof -
  obtain d1 dk1 where c: "commit_session cfg X t before s res (sdata sess) (the_disk D) = (d1, dk1)" by fastforce
  obtain d2 dk2 where m: "(if persists t then maybe_checkpoint cfg X t d1 dk1 else (d1, dk1)) = (d2, dk2)" by fastforce
  have d2: "messages d2 = messages d1" "quarantine d2 = quarantine d1" "isolation_quarantine_from d2 = isolation_quarantine_from d1"
    using m maybe_checkpoint_fields [of cfg X t d1 dk1 d2 dk2] by (auto split: if_splits)
  have "even (mark_after (isolation_quarantine_from (sdata sess)) (quarantine_len before))"
    using assms(3,4) by (simp add: mark_after_def quarantine_ok_def split: option.split)
  then have "quarantine_ok d1"
    using commit_session_fields(2,4) [OF c] assms(3) by (auto simp: quarantine_ok_def exchanges_take split: if_splits)
  moreover have "length (messages d1) \<le> MAX_MESSAGES_PER_SESSION" using commit_session_fields(1) [OF c] by simp
  ultimately have "session_ok d2" using d2 by (simp add: session_ok_def quarantine_ok_def)
  then have ok: "session_ok (sdata (sess\<lparr>sdata := d2\<rparr>))" by simp
  have "the_store D' = the_store (release_and_persist t (sess\<lparr>sdata := d2\<rparr>) (record_channel_line (now_after X) t (pulse_name cfg)
      ''assistant'' (result_text (turn_outcome res)) (D\<lparr>the_disk := dk2\<rparr>)))"
    using assms(1) c m by (simp add: commit_turn_def Let_def)
  then show ?thesis using release_ok [OF _ ok] assms(2) by simp
qed

text \<open>
  C12: Every session stays well formed: a turn, whatever its outcome, keeps each session of the store
  within its two caps, each quarantine lane a run of exchanges, and the mark an isolation window
  sets in the quarantine lane between two exchanges. (The mark in the trunk can be anywhere: see
  \<open>isolated_tail_survives_the_cap\<close>.)
\<close>
theorem turn_keeps_sessions_ok:
  assumes "run_turn cfg M X io adm sink D w = Some (r, sink', D', w')" and "store_ok (the_store D)"
  shows "store_ok (the_store D')"
  using assms(1)
proof (cases rule: run_turn_ended)
  case (command resp m)
  then show ?thesis using assms(2) by simp
next
  case (ran s sess D2 g before D3 outcome sink1 d)
  let ?t = "scope_of X adm" and ?J = "turn_json cfg"
  have o: "open_session X ?t (heard_line X adm D) = (sess, D2)" and p: "prepare_turn cfg M X ?t s sess D2 = (g, before, D3)"
    using ran(1) by (simp_all add: turn_steps_def)
  have sess: "session_ok (sdata sess)" "store_ok (the_store D2)" using open_session_ok [OF o] assms(2) by simp_all
  obtain d2 D1 where q: "session_opened cfg X ?t sess D2 = (d2, D1)" "the_store D3 = the_store D1"
      "length (messages (inner g)) \<le> max (Suc (length (messages d2))) (KEEP_RECENT + 3)"
      "same_but_trunk (d2\<lparr>health := (health d2)\<lparr>rounds_since_human_input := 0\<rparr>\<rparr>) (inner g)"
      "before = marks_of (track_isolation_window ?J (isolated ?t) ((sdata sess)\<lparr>last_active := now_before X\<rparr>))"
    using prepared [OF p] by (elim exE conjE)
  note new = prepared_newest [OF p]
  have d2: "session_ok d2" "store_ok (the_store D3)" using opened_ok [OF q(1) sess(1)] sess(2) q(2) by simp_all
  have qg: "quarantine_ok (inner g)" using d2(1) same_but_trunk_quarantine [OF q(4)] by (simp add: session_ok_def quarantine_ok_def)
  have len: "length (messages (inner g)) \<le> Suc MAX_MESSAGES_PER_SESSION"
    using q(3) d2(1) by (simp add: session_ok_def MAX_MESSAGES_PER_SESSION_def KEEP_RECENT_def max_def split: if_split_asm)
  have human: "human_turn (last (messages (inner g)))" using new by simp
  have qd: "quarantine_ok d" by (rule lanes_after_quarantine_ok [OF ran(2) qg human])
  show ?thesis
  proof (cases r)
    case (Inl e)
    from after_failure(1) [OF ran(4) [unfolded Inl]] obtain ps where
      D': "D' = put_session ?t (sess\<lparr>sdata := drop_guard ?J (g\<lparr>inner := d\<rparr>)\<rparr>) (D3\<lparr>the_provider := ps\<rparr>)" by blast
    have "messages (inner g) \<noteq> []" "watermark (g\<lparr>inner := d\<rparr>) = Some (length (messages (inner g)) - 1)"
        "lanes_after (inner g) outcome (inner (g\<lparr>inner := d\<rparr>))" using new ran(2) by simp_all
    from dropped_guard [OF this, of ?J] qd len have "session_ok (drop_guard ?J (g\<lparr>inner := d\<rparr>))"
      by (simp add: session_ok_def same_but_trunk_quarantine)
    then show ?thesis unfolding D' by (intro put_session_ok) (simp_all add: d2(2))
  next
    case (Inr resp)
    from after_success [OF ran(4) [unfolded Inr]] obtain res ps where
      c: "commit_turn cfg X (resample_isolation (isolated_after X) ?t) before s res (sess\<lparr>sdata := d\<rparr>)
        (D3\<lparr>the_provider := ps\<rparr>) = (resp, D')" by auto
    have "session_ok (track_isolation_window ?J (isolated ?t) ((sdata sess)\<lparr>last_active := now_before X\<rparr>))"
      using sess(1) by (intro tracked_ok) (simp add: session_ok_def quarantine_ok_def)
    then have "even (quarantine_len before)"
      unfolding q(5) by (simp add: marks_of_def session_ok_def quarantine_ok_def exchanges_even)
    with commit_turn_ok [OF c] d2(2) qd show ?thesis by simp
  qed
qed

subsection \<open>The log of a turn\<close>

lemma append_wal_complete:
  assumes "encodes (turn_codec cfg) (e\<lparr>entry_seq := wal_seq ws + 1\<rparr>)"
  shows "append_wal cfg Complete key e (ws, dk) = (ws\<lparr>wal_seq := wal_seq ws + 1\<rparr>,
    dk\<lparr>conv_wals := snd (append_with_lane (turn_codec cfg) (turn_fsync cfg) Complete key (e\<lparr>entry_seq := wal_seq ws + 1\<rparr>) (conv_wals dk))\<rparr>)"
  using assms by (simp add: append_wal_def append_complete Let_def)

text \<open>
  A committed turn is in the log. When both writes succeed, the log of the session holds after the
  commit what it held before and then the user's message and the reply, in this order, in the lane
  of the turn and with the next two sequence numbers.
\<close>
theorem committed_exchange_is_logged:
  assumes "log_holds U (turn_codec cfg) (scope_key t) (conv_wals dk) es" and "has_wal cfg" and "persists t"
    and "user_write X = Complete" and "reply_write X = Complete"
    and "u = (user_entry (now_after X) (scope_request t) s lane)\<lparr>entry_seq := wal_seq ws + 1\<rparr>"
    and "a = (reply_entry (now_after X) reply lane)\<lparr>entry_seq := wal_seq ws + 2\<rparr>"
    and "encodes (turn_codec cfg) u" and "encodes (turn_codec cfg) a"
    and "commit_to_wal cfg X t s reply lane (ws, dk) = (ws', dk')"
  shows "wal_read U (turn_codec cfg) True (scope_key t) (conv_wals dk') = Some (es @ [u, a]) \<and> wal_seq ws' = wal_seq ws + 2"
proof -
  let ?key = "scope_key t" and ?ws = "ws\<lparr>wal_seq := wal_seq ws + 1\<rparr>"
  let ?append = "\<lambda>e d. snd (append_with_lane (turn_codec cfg) (turn_fsync cfg) Complete ?key e d)"
  have seq: "(wal_seq ws + 1) + 1 = wal_seq ws + 2" by simp
  have first: "append_wal cfg Complete ?key (user_entry (now_after X) (scope_request t) s lane) (ws, dk) =
      (?ws, dk\<lparr>conv_wals := ?append u (conv_wals dk)\<rparr>)"
    using append_wal_complete [of cfg ws "user_entry (now_after X) (scope_request t) s lane"] assms(6,8) by simp
  have "append_wal cfg Complete ?key (reply_entry (now_after X) reply lane) (?ws, dk\<lparr>conv_wals := ?append u (conv_wals dk)\<rparr>) =
      (?ws\<lparr>wal_seq := wal_seq ws + 2\<rparr>, dk\<lparr>conv_wals := ?append a (?append u (conv_wals dk))\<rparr>)"
    using append_wal_complete [of cfg ?ws "reply_entry (now_after X) reply lane"] assms(7,9) seq by simp
  with first have "ws' = ?ws\<lparr>wal_seq := wal_seq ws + 2\<rparr>" "conv_wals dk' = fold ?append [u, a] (conv_wals dk)"
    using assms(2-5,10) by (auto simp: commit_to_wal_def)
  then show ?thesis using cw.read_appended [OF assms(1), of "[u, a]" "turn_fsync cfg"] assms(8,9) by simp
qed

text \<open>
  C11: A checkpoint covers the log. The log of the session can be read, and none of its entries is numbered
  above the session's count (a session that was evicted and begun anew counts from 0 again). When a commit takes a checkpoint, its archive holds the whole trunk and the
  counters start again; if its mark is written, recovery finds nothing after it that it would archive
  again, and if the file of the mark cannot be opened, recovery finds all it would have found before, and archives it again. Otherwise
  the log, its mark and the counters are as they were.
\<close>
theorem checkpoint_covers_the_log:
  assumes "wal_read U (turn_codec cfg) True (scope_key t) (conv_wals dk) = Some es" and "digits_solid U"
    and "\<forall>e \<in> set es. entry_seq e \<le> wal_seq (wal d)"
    and "maybe_checkpoint cfg X t d dk = (d', dk')"
  shows "(wal d' = wal d \<and> conv_wals dk' = conv_wals dk) \<or>
    (since_checkpoint (wal d') = 0 \<and> arch_messages (last (conversations dk')) = messages d \<and>
     arch_key (last (conversations dk')) = Some (scope_key t) \<and>
     (case mark_write X of
        OpenFailed \<Rightarrow> read_after_checkpoint U (turn_codec cfg) True (scope_key t) (conv_wals dk') =
          read_after_checkpoint U (turn_codec cfg) True (scope_key t) (conv_wals dk)
      | TornAfter i \<Rightarrow> True
      | _ \<Rightarrow> read_after_checkpoint U (turn_codec cfg) True (scope_key t) (conv_wals dk') = Some []))"
proof (cases "checkpoint_enabled (sessions_cfg cfg) \<and> has_wal cfg \<and>
    checkpoint_due (sessions_cfg cfg) (now_after X) (ConvWal.file_size (scope_key t) (conv_wals dk)) (wal d)")
  case False
  then have "d' = d" "dk' = dk" using assms(4) by (auto simp: maybe_checkpoint_def split: if_splits)
  then show ?thesis by simp
next
  case True
  obtain n dk1 where arch: "archive_conversation ''checkpoint'' (channel (scope_request t)) (Some (scope_key t)) (messages d) dk = (n, dk1)"
    by fastforce
  have c: "conv_wals dk1 = conv_wals dk" "n \<noteq> None \<Longrightarrow> arch_messages (last (conversations dk1)) = messages d \<and>
      arch_key (last (conversations dk1)) = Some (scope_key t)"
    using arch by (auto simp: archive_conversation_def next_fault_def Let_def split: if_splits list.splits option.splits archive_fault.splits)
  show ?thesis
  proof (cases n)
    case None
    then show ?thesis using assms(4) True arch c by (auto simp: maybe_checkpoint_def)
  next
    case (Some k)
    let ?mark = "\<lambda>oc. snd (write_checkpoint oc (scope_key t) (wal_seq (wal d)) (conv_wals dk))"
    have r: "d' = d\<lparr>wal := (wal d)\<lparr>last_checkpoint := now_after X, since_checkpoint := 0\<rparr>\<rparr>"
        "dk' = dk1\<lparr>conv_wals := ?mark (mark_write X)\<rparr>"
      using assms(4) True arch Some c(1) by (auto simp: maybe_checkpoint_def)
    have "wal_read U (turn_codec cfg) True (scope_key t) (?mark Complete) = Some es"
      using assms(1) by (simp add: wal_read_def write_checkpoint_def Let_def)
    moreover have "filter (\<lambda>e. wal_seq (wal d) < entry_seq e) es = []" using assms(3) by (auto simp: filter_empty_conv)
    ultimately have all: "read_after_checkpoint U (turn_codec cfg) True (scope_key t) (?mark Complete) = Some []"
      by (simp add: read_after_checkpoint_def read_checkpoint_written [OF assms(2)])
    have "?mark SyncFailed = ?mark Complete" "?mark OpenFailed = conv_wals dk"
      by (simp_all add: write_checkpoint_def Let_def)
    then show ?thesis using r c(2) Some all by (cases "mark_write X") simp_all
  qed
qed

subsection \<open>Concrete turns\<close>

definition demo_limits_none :: channel_limits where
  "demo_limits_none = \<lparr>message_cap = 0, time_cap_seconds = 0\<rparr>"

definition demo_turn_agent :: "(unit, unit, unit) agent" where
  "demo_turn_agent = \<lparr>chars_of = demo_wal_unicode, rv_validate = (\<lambda>bs. (bs, False)), rv_claims = (\<lambda>bs used. []),
     find_tool = Map.empty\<rparr>"

definition demo_config :: "(unit, unit, unit) turn_config" where
  "demo_config = \<lparr>turn_json = \<lparr>json_length = (\<lambda>_. 2), json_path = (\<lambda>_. None)\<rparr>, turn_tags = demo_text,
     turn_agent = demo_turn_agent, readonly_tools = Map.empty, turn_speech = demo_env, turn_codec = demo_entry_codec,
     turn_isolation = demo_isolation, turn_fsync = FsyncAll, has_wal = True, pulse_name = ''Nova'', owner_alias = ''D'',
     sessions_cfg = \<lparr>owner_limits = demo_limits_none, peer_limits = demo_limits_none, guest_limits = demo_limits_none,
       checkpoint_enabled = True, checkpoint_interval = 1, checkpoint_time = 60, wal_max_size = 100\<rparr>,
     buffer_cfg = buffer_config_default, detects_injection = False, injection_scan = (\<lambda>_. False), llm_budget = 0,
     llm_max_tokens = 1, provider_name = ''p'', base_prompt = ''be'', fallback_on_refusal = True, fallback_model = Some ''f''\<rparr>"

text \<open>A model that answers everything with \<open>answer\<close>, and a fallback that answers everything with \<open>other\<close>.\<close>

definition demo_models :: "turn_error + unit llm_response \<Rightarrow> unit llm_response \<Rightarrow> (unit, unit) turn_models" where
  "demo_models answer other = \<lparr>buffered = (\<lambda>p ms w. (answer, w)), streaming = (\<lambda>p ms w. ([], w)),
     build_fallback = (\<lambda>m. Inr (\<lambda>p ms w. (Inr other, w))), summary_answer = (\<lambda>_. None)\<rparr>"

definition demo_answer :: "unit llm_response" where
  "demo_answer = \<lparr>resp_content = [], resp_stop = EndTurn, resp_model = ''f'', input_tokens = None, output_tokens = None\<rparr>"

definition demo_chances :: "bool \<Rightarrow> turn_chances" where
  "demo_chances isol = \<lparr>isolated_before = isol, isolated_after = False, isolated_failing = False, now_before = 0, now_after = 0,
     user_write = Complete, reply_write = Complete, mark_write = Complete, session_order = [], call_order = [],
     busy_calls = {}\<rparr>"

definition demo_admitted :: "session_key \<Rightarrow> admitted" where
  "demo_admitted key = \<lparr>adm_key = key, adm_call = False, adm_request = \<lparr>message = ''hi'', channel = ''c'', sender = None\<rparr>,
     adm_identity = Owner\<rparr>"

definition demo_daemon :: "unit daemon" where
  "demo_daemon = \<lparr>the_store = demo_sessions\<lparr>sessions := [''owner'' \<mapsto> fresh_session 0 ''owner'' ''c'' ''D'',
       ''guest:x'' \<mapsto> fresh_session 0 ''guest:x'' ''c'' ''x''], live_calls := Map.empty\<rparr>, the_disk = demo_disk,
     the_buffers = None, the_marker = None, the_provider = status_default\<rparr>"

lemma demo_selectors [simp]:
  "turn_agent demo_config = demo_turn_agent" "turn_codec demo_config = demo_entry_codec" "has_wal demo_config"
  "turn_isolation demo_config = demo_isolation" "fallback_target demo_config = Some ''f''"
  "isolated_before (demo_chances isol) = isol" "\<not> isolated_after (demo_chances isol)"
  "adm_key (demo_admitted key) = key" "\<not> adm_call (demo_admitted key)"
  "message (adm_request (demo_admitted key)) = ''hi''" "sender (adm_request (demo_admitted key)) = None"
  "buffered (demo_models answer other) p = (\<lambda>ms w. (answer, w))"
  "build_fallback (demo_models answer other) m = Inr (\<lambda>p ms w. (Inr other, w))"
  by (simp_all add: demo_config_def demo_chances_def demo_admitted_def demo_models_def fallback_target_def demo_turn_agent_def
      demo_wal_unicode_def trim_def)

lemma demo_command: "isolation_command_reply demo_isolation io now (adm_request (demo_admitted key)) key' label m = (None, m)"
  by (simp add: isolation_command_reply_def intercept_command_def parse_command_def demo_isolation_def trim_def first_token_def
      eq_ignore_case_def ENTER_COMMAND_def EXIT_COMMAND_def ascii_lower_def byte_def)

lemma demo_cap:
  assumes "open_session X (scope_of X (demo_admitted ''owner'')) (heard_line X (demo_admitted ''owner'') demo_daemon) = (sess, D2)"
    and "prepare_turn demo_config M X (scope_of X (demo_admitted ''owner'')) s sess D2 = (g, before, D3)" and "X = demo_chances isol"
  shows "\<not> fallback_cap_reached (health (inner g))"
proof -
  have s: "sess = fresh_session 0 ''owner'' ''c'' ''D''" using assms(1,3)
    by (auto simp: open_session_def heard_line_def record_channel_line_def get_or_create_by_key_def demo_daemon_def
        demo_sessions_def Let_def split: option.splits if_splits)
  have l: "session_limits demo_config (scope_of X (demo_admitted ''owner'')) = demo_limits_none"
    by (simp add: session_limits_def get_identity_limits_def demo_config_def split: principal.split)
  have "health (fst (session_opened demo_config X (scope_of X (demo_admitted ''owner'')) sess D2)) = health (sdata sess)"
    using assms(3) l by (cases isol)
      (simp_all add: session_opened_def maybe_reset_session_def s fresh_session_def session_new_def track_isolation_window_def
        open_isolation_window_def close_isolation_window_def shed_isolation_quarantine_def should_reset_def demo_limits_none_def
        health_default_def Let_def)
  then show ?thesis using opened_rounds [OF assms(2)]
    by (simp add: fallback_cap_reached_def s fresh_session_def session_new_def MAX_FALLBACKS_PER_SESSION_def health_default_def)
qed

text \<open>A turn that asks a model which answers \<open>answer\<close>: what the handler gets from it.\<close>

lemma demo_run:
  fixes isol answer other
  defines "M \<equiv> demo_models answer other" and "X \<equiv> demo_chances isol" and "adm \<equiv> demo_admitted ''owner''"
  assumes v: "\<forall>A E p b d. messages d \<noteq> [] \<and> b = fallback_builder demo_config M (scope_of X adm) True \<longrightarrow>
    (\<exists>r' d'. invoke_turn_with_refusal_fallback A E M p b None d () = Some (r', None, d', ()) \<and> P r')"
  shows "\<exists>r s D' r' d' sess g before D3. run_turn demo_config M X demo_faults adm None demo_daemon () = Some (r, None, D', ()) \<and>
    P r' \<and> turn_after_provider demo_config X (scope_of X adm) False before s sess (g\<lparr>inner := d'\<rparr>) r' None D3 = (r, None, D')"
proof -
  let ?t = "scope_of X adm"
  obtain sess D2 where o: "open_session X ?t (heard_line X adm demo_daemon) = (sess, D2)" by fastforce
  define s where "s = compose_user_message demo_config (now_before X) ?t demo_daemon"
  obtain g before D3 where p: "prepare_turn demo_config M X ?t s sess D2 = (g, before, D3)" by (metis prod_cases3)
  from v conjunct1 [OF prepared_newest [OF p]] obtain r' d' where
    i: "invoke_turn_with_refusal_fallback (turn_tools demo_config (Some (surface_for ''owner'')) isol) (turn_speech demo_config) M
      (turn_system_prompt demo_config ?t) (fallback_builder demo_config M ?t True) None (inner g) () = Some (r', None, d', ())" "P r'"
    by blast
  obtain r sink D' where a: "turn_after_provider demo_config X ?t False before s sess (g\<lparr>inner := d'\<rparr>) r' None D3 = (r, sink, D')"
    by (metis prod_cases3)
  have "sink = None"
    using a by (auto simp: turn_after_provider_def announce_failure_def announce_cut_def Let_def split: sum.splits prod.splits)
  moreover have "run_turn demo_config M X demo_faults adm None demo_daemon () = Some (r, sink, D', ())"
  proof -
    have t: "scope_new (adm_request adm) ''owner'' ''unknown'' False isol = ?t" by (simp add: scope_of_def adm_def X_def)
    have h: "record_channel_line (now_before X) ?t ''unknown'' ''user'' ''hi'' demo_daemon = heard_line X adm demo_daemon"
      by (simp add: heard_line_def scope_of_def scope_new_def adm_def)
    have pool: "uses_voice_pool (adm_identity adm) = False" by (simp add: uses_voice_pool_def adm_def demo_admitted_def)
    have sink: "turn_sink demo_config hold None = None" for hold by (simp add: turn_sink_def)
    have sel: "adm_key adm = ''owner''" "adm_call adm = False" "message (adm_request adm) = ''hi''" "sender (adm_request adm) = None"
        "isolated_before X = isol" "isolated ?t = isol" by (simp_all add: adm_def X_def)
    have cmd: "isolation_command_reply demo_isolation io now (adm_request adm) key' label m = (None, m)" for io now key' label m
      unfolding adm_def by (rule demo_command)
    show ?thesis
      unfolding run_turn_def run_resolved_turn_def Let_def sel option.case pool demo_selectors cmd prod.case t h o
      using i(1) a demo_cap [OF o [unfolded adm_def] p [unfolded adm_def] X_def [THEN meta_eq_to_obj_eq]] by (simp add: s_def [symmetric] p sel sink)
  qed
  ultimately show ?thesis using i(2) a by blast
qed

text \<open>A provider that fails, and one that gives the demo's answer.\<close>

lemma demo_rounds:
  "invoke_with_tool_loop A (\<lambda>ms w. (Inl e, w)) n msgs () = Some (Inl e, msgs, ())"
  "\<exists>r ms. invoke_with_tool_loop A (\<lambda>ms w. (Inr demo_answer, w)) n msgs () = Some (Inr r, ms, ())"
proof -
  show "invoke_with_tool_loop A (\<lambda>ms w. (Inl e, w)) n msgs () = Some (Inl e, msgs, ())"
    by (simp add: invoke_with_tool_loop_def tool_loop.simps)
  obtain bs cut where "validate_content_blocks_adapter A [] = (bs, cut)" by fastforce
  then show "\<exists>r ms. invoke_with_tool_loop A (\<lambda>ms w. (Inr demo_answer, w)) n msgs () = Some (Inr r, ms, ())"
    by (cases cut) (simp_all add: invoke_with_tool_loop_def tool_loop.simps finish_round_def demo_answer_def Let_def)
qed

lemma demo_ended:
  assumes "turn_after_provider cfg X t False before s sess g outcome None D3 = (r, sink, D4)"
  shows "outcome = Inl e \<Longrightarrow> isl r" and "outcome = Inr res \<Longrightarrow> \<exists>resp. r = Inr resp \<and> response_fallback resp = quarantined res"
proof -
  show "isl r" if "outcome = Inl e" using assms that by (auto simp: turn_after_provider_def Let_def split: prod.splits bool.splits)
  assume "outcome = Inr res"
  with assms obtain g' D resp where "commit_turn cfg X (resample_isolation (isolated_after X) t) before s res g' D = (resp, D4)"
      and "r = Inr resp"
    by (auto simp: turn_after_provider_def announce_cut_def Let_def split: prod.splits bool.splits if_splits)
  then show "\<exists>resp. r = Inr resp \<and> response_fallback resp = quarantined res"
    using commit_turn_response by (fastforce simp: turn_response_def Let_def)
qed

theorem failed_turn_leaves_no_trace_witness:
  "\<exists>e D' d'. run_turn demo_config (demo_models (Inl (OtherError ''x'')) demo_answer) (demo_chances True) demo_faults
      (demo_admitted ''owner'') None demo_daemon () = Some (Inl e, None, D', ()) \<and>
    the_session (scope_of (demo_chances True) (demo_admitted ''owner'')) D' = Some d'"
proof -
  let ?M = "demo_models (Inl (OtherError ''x'')) demo_answer"
  have v: "\<exists>r' d'. invoke_turn_with_refusal_fallback A E ?M p b None d () = Some (r', None, d', ()) \<and> r' = Inl (OtherError ''x'')"
    if "messages d \<noteq> []" for A E p b and d :: "unit session_data"
    using that by (simp add: invoke_turn_with_refusal_fallback_def default_outcome_def demo_rounds is_refusal_def split: option.split)
  from demo_run [of "Inl (OtherError ''x'')" demo_answer True "\<lambda>r. r = Inl (OtherError ''x'')"] v
  obtain r s D' r' d' sess g before D3 where
    r: "run_turn demo_config ?M (demo_chances True) demo_faults (demo_admitted ''owner'') None demo_daemon () = Some (r, None, D', ())"
    and a: "turn_after_provider demo_config (demo_chances True) (scope_of (demo_chances True) (demo_admitted ''owner'')) False before s
      sess (g\<lparr>inner := d'\<rparr>) r' None D3 = (r, None, D')" "r' = Inl (OtherError ''x'')" by blast
  from demo_ended(1) [OF a] obtain e where "r = Inl e" by (cases r) simp_all
  from failed_turn_leaves_no_trace [OF r [unfolded this]] show ?thesis using r \<open>r = Inl e\<close> by blast
qed

theorem fallback_only_for_owner_witness:
  "\<exists>resp D'. run_turn demo_config (demo_models (Inl (RefusalError ''m'' ''no'')) demo_answer) (demo_chances False) demo_faults
      (demo_admitted ''owner'') None demo_daemon () = Some (Inr resp, None, D', ()) \<and> response_fallback resp \<and> is_owner ''owner''"
proof -
  let ?M = "demo_models (Inl (RefusalError ''m'' ''no'')) demo_answer" and ?P = "\<lambda>r. \<exists>res. r = Inr res \<and> quarantined res"
  have v: "\<forall>A E p b (d :: unit session_data). messages d \<noteq> [] \<and>
      b = fallback_builder demo_config ?M (scope_of (demo_chances False) (demo_admitted ''owner'')) True \<longrightarrow>
    (\<exists>r' d'. invoke_turn_with_refusal_fallback A E ?M p b None d () = Some (r', None, d', ()) \<and> ?P r')"
  proof (intro allI impI)
    fix A E p b and d :: "unit session_data"
    assume that: "messages d \<noteq> [] \<and>
      b = fallback_builder demo_config ?M (scope_of (demo_chances False) (demo_admitted ''owner'')) True"
    have b: "b = Some (Inr (\<lambda>p ms w. (Inr demo_answer, w)))"
      using that by (simp add: fallback_builder_def gated_fallback_def is_owner_def principal_of_def OWNER_KEY_def)
    obtain r ms where "invoke_with_tool_loop A (\<lambda>ms w. (Inr demo_answer, w)) MAX_TOOL_ROUNDS
        (butlast (messages d) @ quarantine d @ [last (messages d)]) () = Some (Inr r, ms, ())"
      using demo_rounds(2) by blast
    then show "\<exists>r' d'. invoke_turn_with_refusal_fallback A E ?M p b None d () = Some (r', None, d', ()) \<and> ?P r'" using conjunct1 [OF that]
      unfolding b by (simp add: invoke_turn_with_refusal_fallback_def default_outcome_def demo_rounds is_refusal_def run_fallback_def
          announce_fallback_def speak_fallback_def last_conv_nth butlast_conv_take Let_def)
  qed
  from demo_run [of "Inl (RefusalError ''m'' ''no'')" demo_answer False ?P, OF v]
  obtain r s D' r' d' sess g before D3 res where
    r: "run_turn demo_config ?M (demo_chances False) demo_faults (demo_admitted ''owner'') None demo_daemon () = Some (r, None, D', ())"
    and a: "turn_after_provider demo_config (demo_chances False) (scope_of (demo_chances False) (demo_admitted ''owner'')) False before s
      sess (g\<lparr>inner := d'\<rparr>) r' None D3 = (r, None, D')" and "r' = Inr res" "quarantined res" by (elim exE conjE) (rule that)
  with demo_ended(2) [OF a] obtain resp where f: "r = Inr resp" "response_fallback resp" by blast
  from fallback_only_for_owner [OF r [unfolded f(1)] f(2)] show ?thesis using r f by auto
qed

text \<open>A turn of the demo that returns, whoever it is for.\<close>

lemma demo_turn:
  obtains r sink D' where "run_turn demo_config (demo_models (Inr demo_answer) demo_answer) (demo_chances isol) demo_faults
    (demo_admitted key) None demo_daemon () = Some (r, sink, D', ())"
  using run_turn_cases [of demo_config demo_faults "demo_chances isol" "demo_admitted key" demo_daemon
      "demo_models (Inr demo_answer) demo_answer" None "()"] by (elim disjE exE conjE) (auto intro: that)

theorem others_move_nothing_witness:
  "\<exists>r sink D'. run_turn demo_config (demo_models (Inr demo_answer) demo_answer) (demo_chances False) demo_faults
      (demo_admitted ''guest:x'') None demo_daemon () = Some (r, sink, D', ()) \<and> \<not> is_owner ''guest:x'' \<and> the_marker D' = None"
proof -
  obtain r sink D' where r: "run_turn demo_config (demo_models (Inr demo_answer) demo_answer) (demo_chances False) demo_faults
    (demo_admitted ''guest:x'') None demo_daemon () = Some (r, sink, D', ())" by (rule demo_turn)
  have o: "\<not> is_owner ''guest:x''" by code_simp
  from others_move_nothing [OF r] o have "the_marker D' = the_marker demo_daemon" by simp
  then show ?thesis using r o by (auto simp: demo_daemon_def)
qed

theorem isolated_turn_writes_nothing_witness:
  "\<exists>r sink D'. run_turn demo_config (demo_models (Inr demo_answer) demo_answer) (demo_chances True) demo_faults
      (demo_admitted ''owner'') None demo_daemon () = Some (r, sink, D', ()) \<and>
    the_disk D' = the_disk demo_daemon \<and> the_buffers D' = the_buffers demo_daemon"
proof -
  obtain r sink D' where r: "run_turn demo_config (demo_models (Inr demo_answer) demo_answer) (demo_chances True) demo_faults
    (demo_admitted ''owner'') None demo_daemon () = Some (r, sink, D', ())" by (rule demo_turn)
  have "sessions (the_store demo_daemon) ''owner'' \<noteq> None" by (simp add: demo_daemon_def)
  with isolated_turn_writes_nothing [OF r] have "the_disk D' = the_disk demo_daemon \<and> the_buffers D' = the_buffers demo_daemon"
    by (auto simp: evicts_def)
  with r show ?thesis by blast
qed

theorem turn_keeps_sessions_ok_witness:
  "\<exists>r sink D'. run_turn demo_config (demo_models (Inr demo_answer) demo_answer) (demo_chances False) demo_faults
      (demo_admitted ''guest:x'') None demo_daemon () = Some (r, sink, D', ()) \<and> store_ok (the_store D')"
proof -
  obtain r sink D' where r: "run_turn demo_config (demo_models (Inr demo_answer) demo_answer) (demo_chances False) demo_faults
    (demo_admitted ''guest:x'') None demo_daemon () = Some (r, sink, D', ())" by (rule demo_turn)
  have "store_ok (the_store demo_daemon)" by (auto simp: store_ok_def demo_daemon_def demo_sessions_def fresh_ok split: if_splits)
  from turn_keeps_sessions_ok [OF r this] r show ?thesis by blast
qed

theorem isolated_tail_survives_the_cap_witness:
  "\<exists>(d :: unit session_data) d'. length (messages d) = 201 \<and>
    messages (track_isolation_window (turn_json demo_config) False d') = drop 1 (take 200 (messages d)) @ [last (messages d)]"
proof -
  define t where "t = scope_of (demo_chances True) (demo_admitted ''owner'')"
  define d :: "unit session_data" where "d = (session_new 0 ''owner'' ''c'' ''D'')\<lparr>messages := replicate 200 (says User ''a'') @ [says User ''b''],
    isolation_ephemeral_from := Some 200 :: nat option\<rparr>"
  obtain d' dk' where c: "commit_session demo_config (demo_chances True) t (marks_of d) ''b''
      \<lparr>turn_outcome = result_of round_state_new False False [], quarantined = False\<rparr> d demo_disk = (d', dk')" by fastforce
  have "messages (track_isolation_window (turn_json demo_config) False d') = drop 1 (take 200 (messages d)) @ take 1 (drop 200 (messages d))"
    by (rule isolated_tail_survives_the_cap [OF _ _ _ _ _ c])
      (simp_all add: t_def d_def MAX_MESSAGES_PER_SESSION_def)
  then have "length (messages d) = 201 \<and>
    messages (track_isolation_window (turn_json demo_config) False d') = drop 1 (take 200 (messages d)) @ [last (messages d)]" by (simp add: d_def)
  then show ?thesis by blast
qed

text \<open>A codec that knows the two entries of one exchange.\<close>

definition demo_exchange_codec :: "unit wal_entry \<Rightarrow> unit wal_entry \<Rightarrow> unit entry_codec" where
  "demo_exchange_codec u a = \<lparr>encode_entry = (\<lambda>e. if e = u then Some ''uu'' else if e = a then Some ''aa'' else None),
     decode_entry = (\<lambda>l. if l = ''uu'' then Some u else if l = ''aa'' then Some a else None)\<rparr>"

lemma demo_exchange_codec_ok: "u \<noteq> a \<Longrightarrow> entry_codec_ok demo_wal_unicode (demo_exchange_codec u a)"
  by (auto simp: entry_codec_ok_def demo_exchange_codec_def line_ok_def newline_def blank_def demo_wal_unicode_def
      continuation_def byte_def in_range_def split: if_split_asm)

theorem committed_exchange_is_logged_witness:
  "\<exists>u a ws' dk'. commit_to_wal (demo_config\<lparr>turn_codec := demo_exchange_codec u a\<rparr>) (demo_chances False)
      (scope_of (demo_chances False) (demo_admitted ''owner'')) ''hi'' ''yes'' TrunkLane
      (wal (session_new 0 ''owner'' ''c'' ''D'' :: unit session_data), demo_disk) = (ws', dk') \<and>
    wal_read demo_wal_unicode (demo_exchange_codec u a) True ''owner'' (conv_wals dk') = Some [u, a]"
proof -
  let ?X = "demo_chances False" and ?ws = "wal (session_new 0 ''owner'' ''c'' ''D'' :: unit session_data)"
  let ?t = "scope_of ?X (demo_admitted ''owner'')"
  define u :: "unit wal_entry" where
    "u = (user_entry (now_after ?X) (scope_request ?t) ''hi'' TrunkLane)\<lparr>entry_seq := wal_seq ?ws + 1\<rparr>"
  define a :: "unit wal_entry" where "a = (reply_entry (now_after ?X) ''yes'' TrunkLane)\<lparr>entry_seq := wal_seq ?ws + 2\<rparr>"
  let ?C = "demo_exchange_codec u a" let ?cfg = "demo_config\<lparr>turn_codec := ?C\<rparr>"
  have "u \<noteq> a" by (simp add: u_def a_def user_entry_def reply_entry_def)
  note ok = demo_exchange_codec_ok [OF this]
  have l: "log_holds demo_wal_unicode (turn_codec ?cfg) (scope_key ?t) (conv_wals (demo_disk :: unit disk)) []"
    using ok by (simp add: log_holds_def demo_disk_def entry_log_def file_of_def)
  have e: "encodes (turn_codec ?cfg) u" "encodes (turn_codec ?cfg) a" by (simp_all add: encodes_def demo_exchange_codec_def)
  obtain ws' dk' where c: "commit_to_wal ?cfg ?X ?t ''hi'' ''yes'' TrunkLane (?ws, demo_disk) = (ws', dk')" by fastforce
  have p: "has_wal ?cfg" "persists ?t" "user_write ?X = Complete" "reply_write ?X = Complete"
    by (simp_all add: persists_def demo_chances_def)
  from committed_exchange_is_logged [OF l p u_def a_def e c] have
    "wal_read demo_wal_unicode ?C True ''owner'' (conv_wals dk') = Some [u, a]" by simp
  with c show ?thesis by blast
qed

theorem checkpoint_covers_the_log_witness:
  "\<exists>d' dk'. maybe_checkpoint demo_config (demo_chances False) (scope_of (demo_chances False) (demo_admitted ''owner''))
      ((demo_sdata ''owner'')\<lparr>wal := (wal (demo_sdata ''owner''))\<lparr>since_checkpoint := 1\<rparr>\<rparr>) demo_disk = (d', dk') \<and>
    since_checkpoint (wal d') = 0 \<and> arch_messages (last (conversations dk')) = [says User ''a'', says User ''b''] \<and>
    read_after_checkpoint demo_wal_unicode demo_entry_codec True ''owner'' (conv_wals dk') = Some []"
proof -
  let ?X = "demo_chances False" let ?t = "scope_of ?X (demo_admitted ''owner'')"
  let ?d = "(demo_sdata ''owner'')\<lparr>wal := (wal (demo_sdata ''owner''))\<lparr>since_checkpoint := 1\<rparr>\<rparr>"
  obtain d' dk' where c: "maybe_checkpoint demo_config ?X ?t ?d demo_disk = (d', dk')" by fastforce
  have l: "wal_read demo_wal_unicode (turn_codec demo_config) True (scope_key ?t) (conv_wals (demo_disk :: unit disk)) = Some []"
    by (simp add: wal_read_def demo_disk_def)
  have u: "digits_solid demo_wal_unicode" by (auto simp: digits_solid_def demo_wal_unicode_def ascii_digit_def byte_def)
  have m: "mark_write ?X = Complete" by (simp add: demo_chances_def)
  have "since_checkpoint (wal d') \<noteq> 1"
    using c by (auto simp: maybe_checkpoint_def demo_config_def checkpoint_due_def archive_conversation_def next_fault_def
        demo_disk_def demo_sdata_def Let_def split: if_splits)
  then have "wal d' \<noteq> wal ?d" by auto
  with checkpoint_covers_the_log [OF l u _ c] m have "since_checkpoint (wal d') = 0" 
      "arch_messages (last (conversations dk')) = messages ?d"
      "read_after_checkpoint demo_wal_unicode demo_entry_codec True ''owner'' (conv_wals dk') = Some []" by simp_all
  with c show ?thesis by (intro exI [of _ d'] exI [of _ dk']) (simp add: demo_sdata_def)
qed

end
