(* ===== verification/Outreach.thy ===== *)
theory Outreach
  imports Intent Conversation
begin

text \<open>
  Messages the pulse sends unprompted: \<open>src/outreach/mod.rs\<close>, \<open>feedback.rs\<close>, \<open>store.rs\<close> and
  \<open>novelty.rs\<close>. A candidate passes a quality gate, the quiet hours and a daily cap per kind, and is
  recorded in \<open>outreach.json\<close> in the same locked change. Regular expressions, time zones, the
  embedding model, \<open>f64\<close> and \<open>serde_json\<close> are parameters.
\<close>

subsection \<open>Kinds, costs and candidates\<close>

datatype salience_kind = Finding | Development | Blocking | Callback

definition ALL_KINDS :: "salience_kind list" where
  "ALL_KINDS = [Finding, Development, Blocking, Callback]"

fun kind_text :: "salience_kind \<Rightarrow> bytes" where
  "kind_text Finding = ''finding''"
| "kind_text Development = ''development''"
| "kind_text Blocking = ''blocking''"
| "kind_text Callback = ''callback''"

definition kind_from_label :: "unicode \<Rightarrow> bytes \<Rightarrow> salience_kind option" where
  "kind_from_label U l =
     (let s = map ascii_lower (trim U l)
      in if s = ''finding'' then Some Finding else if s = ''development'' then Some Development
         else if s = ''blocking'' then Some Blocking else if s = ''callback'' then Some Callback else None)"

datatype cost = Nothing | Read | Decision

fun cost_text :: "cost \<Rightarrow> bytes" where
  "cost_text Nothing = ''nothing''"
| "cost_text Read = ''read''"
| "cost_text Decision = ''decision''"

definition cost_from_label :: "unicode \<Rightarrow> bytes \<Rightarrow> cost option" where
  "cost_from_label U l =
     (let s = map ascii_lower (trim U l)
      in if starts_with ''nothing'' s \<or> s = ''none'' then Some Nothing
         else if contains_str ''decision'' s \<or> contains_str ''decide'' s then Some Decision
         else if contains_str ''read'' s then Some Read else None)"

record 'f outreach_candidate =
  cand_kind :: salience_kind
  thread_id :: "bytes option"
  headline :: bytes
  evidence :: bytes
  confidence :: 'f

subsection \<open>What the environment supplies\<close>

text \<open>\<open>f64\<close>: \<open>a <= b\<close>, \<open>n as f64 / m as f64\<close>, membership in \<open>0.0..=1.0\<close>, its text (\<open>{}\<close> and \<open>{:.2}\<close>), and
  \<open>as_f64\<close> with the clamp to \<open>0.0\<close>, \<open>1.0\<close>.\<close>

record 'f floats =
  f_le :: "'f \<Rightarrow> 'f \<Rightarrow> bool"
  ratio :: "nat \<Rightarrow> nat \<Rightarrow> 'f"
  unit_interval :: "'f \<Rightarrow> bool"
  f_text :: "'f \<Rightarrow> bytes"
  f_fixed :: "'f \<Rightarrow> bytes"
  f_half :: 'f
  f_clamp :: "'f \<Rightarrow> 'f"
  as_f64 :: "json \<Rightarrow> 'f option"

text \<open>
  The matches of the regular expressions (for a cost line what follows the colon), the local calendar
  day and hour of an instant, and the novelty oracle.
\<close>

record 'f outreach_env =
  out_chars :: unicode
  floats_of :: "'f floats"
  cost_lines :: "bytes \<Rightarrow> bytes list"
  uuids :: "bytes \<Rightarrow> bytes list"
  urls :: "bytes \<Rightarrow> bytes list"
  file_lines :: "bytes \<Rightarrow> bytes list"
  command_span :: "bytes \<Rightarrow> bytes option"
  local_day :: "int \<Rightarrow> int"
  local_hour :: "int \<Rightarrow> u32"
  max_similarity :: "bytes \<Rightarrow> bytes list \<Rightarrow> bytes + 'f"

definition first_some :: "('a \<Rightarrow> 'b option) \<Rightarrow> 'a list \<Rightarrow> 'b option" where
  "first_some f xs = (case List.map_filter f xs of [] \<Rightarrow> None | y # _ \<Rightarrow> Some y)"

definition trim_start :: "unicode \<Rightarrow> bytes \<Rightarrow> bytes" where
  "trim_start U s = concat (dropWhile (whitespace U) (utf8_chars s))"

definition trim_end :: "unicode \<Rightarrow> bytes \<Rightarrow> bytes" where
  "trim_end U s = concat (rev (dropWhile (whitespace U) (rev (utf8_chars s))))"

definition stated_cost :: "'f outreach_env \<Rightarrow> bytes \<Rightarrow> cost option" where
  "stated_cost E ev = first_some (cost_from_label (out_chars E)) (cost_lines E ev)"

definition with_cost_line :: "'f outreach_env \<Rightarrow> bytes \<Rightarrow> cost \<Rightarrow> bytes" where
  "with_cost_line E ev c =
     (if stated_cost E ev \<noteq> None then ev else trim_end (out_chars E) ev @ [newline] @ ''Cost: '' @ cost_text c)"

subsection \<open>The gate\<close>

datatype external_referent = FileLine bytes | PredictionId bytes | Url bytes | ToolMeasurement bytes

definition find_tool_measurement :: "'f outreach_env \<Rightarrow> bytes \<Rightarrow> bytes option" where
  "find_tool_measurement E ev =
     first_some (\<lambda>line.
       if \<not> list_ex ascii_digit line then None
       else (case command_span E line of
           Some command \<Rightarrow> Some command
         | None \<Rightarrow>
             (let trimmed = trim_start (out_chars E) line
              in if starts_with ''$ '' trimmed then Some (trim_end (out_chars E) trimmed) else None))) (str_lines ev)"

definition SELF_AUTHORED_DOCS :: "bytes list" where
  "SELF_AUTHORED_DOCS = [''LEARNING.md'', ''THOUGHTS.md'', ''CURIOSITY.md'', ''REFLECTIONS.md'', ''PRAXIS.md'',
     ''FINDINGS.md'', ''LOGBOOK.md'', ''SELF.md'', ''MEMORY.md'', ''EPHEMERAL.md'', ''THOUGHT_STACK.md'']"

definition is_self_authored :: "bytes \<Rightarrow> bool" where
  "is_self_authored path =
     (let file = rev (takeWhile (\<lambda>c. c \<noteq> CHR ''/'') (rev path));
          name = takeWhile (\<lambda>c. c \<noteq> CHR '':'') file
      in list_ex (\<lambda>d. eq_ignore_case d name) SELF_AUTHORED_DOCS)"

definition find_referent :: "'f outreach_env \<Rightarrow> bytes \<Rightarrow> salience_kind \<Rightarrow> bytes list \<Rightarrow> external_referent option" where
  "find_referent E ev kind preds =
     (case find (\<lambda>u. u \<in> set preds) (uuids E ev) of
        Some u \<Rightarrow> Some (PredictionId u)
      | None \<Rightarrow>
          (case urls E ev of
             u # _ \<Rightarrow> Some (Url u)
           | [] \<Rightarrow>
               (case find (\<lambda>f. kind \<noteq> Development \<or> \<not> is_self_authored f) (file_lines E ev) of
                  Some f \<Rightarrow> Some (FileLine f)
                | None \<Rightarrow> map_option ToolMeasurement (find_tool_measurement E ev))))"

datatype 'f rejection_reason =
    Disabled | Malformed bytes | NoExternalReferent | NoCostStated | Restatement 'f | NoveltyUnavailable bytes
  | QuietHours u32 | DailyCapReached u32 u32 | StoreUnavailable bytes

record 'f gate_pass =
  referent :: external_referent
  pass_cost :: cost
  similarity :: 'f

definition evaluate_gate ::
  "'f outreach_env \<Rightarrow> 'f \<Rightarrow> bytes list \<Rightarrow> bytes list \<Rightarrow> 'f outreach_candidate \<Rightarrow> 'f rejection_reason + 'f gate_pass" where
  "evaluate_gate E similarity_max corpus preds c =
     (if trim (out_chars E) (headline c) = [] then Inl (Malformed ''empty headline'')
      else if trim (out_chars E) (evidence c) = [] then Inl (Malformed ''empty evidence'')
      else if \<not> unit_interval (floats_of E) (confidence c)
        then Inl (Malformed (''confidence '' @ f_text (floats_of E) (confidence c) @ '' outside [0,1]''))
      else (case find_referent E (evidence c) (cand_kind c) preds of
          None \<Rightarrow> Inl NoExternalReferent
        | Some r \<Rightarrow>
            (case stated_cost E (evidence c) of
               None \<Rightarrow> Inl NoCostStated
             | Some cost \<Rightarrow>
                 (case max_similarity E (headline c) corpus of
                    Inl detail \<Rightarrow> Inl (NoveltyUnavailable detail)
                  | Inr s \<Rightarrow>
                      if f_le (floats_of E) similarity_max s then Inl (Restatement s)
                      else Inr \<lparr>referent = r, pass_cost = cost, similarity = s\<rparr>))))"

subsection \<open>Timing and budget\<close>

record 'f outreach_config =
  outreach_enabled :: bool
  quiet_hours_start :: u32
  quiet_hours_end :: u32
  cap_finding :: u32
  cap_development :: u32
  cap_callback :: u32
  feedback_window :: nat
  response_rate_floor :: 'f
  novelty_similarity_max :: 'f

definition cap_for :: "'f outreach_config \<Rightarrow> salience_kind \<Rightarrow> u32 option" where
  "cap_for cfg k =
     (case k of Finding \<Rightarrow> Some (cap_finding cfg) | Development \<Rightarrow> Some (cap_development cfg)
      | Callback \<Rightarrow> Some (cap_callback cfg) | Blocking \<Rightarrow> None)"

definition is_quiet_hour :: "u32 \<Rightarrow> u32 \<Rightarrow> u32 \<Rightarrow> bool" where
  "is_quiet_hour hour start end' =
     (if start = end' then False
      else if start < end' then start \<le> hour \<and> hour < end'
      else start \<le> hour \<or> hour < end')"

definition check_quiet_hours :: "salience_kind \<Rightarrow> u32 \<Rightarrow> 'f outreach_config \<Rightarrow> 'f rejection_reason + unit" where
  "check_quiet_hours k hour cfg =
     (if k = Blocking then Inr ()
      else if is_quiet_hour hour (quiet_hours_start cfg) (quiet_hours_end cfg) then Inl (QuietHours hour)
      else Inr ())"

definition check_cap :: "u32 \<Rightarrow> u32 option \<Rightarrow> 'f rejection_reason + unit" where
  "check_cap n cap =
     (case cap of
        None \<Rightarrow> Inr ()
      | Some c \<Rightarrow> if n < c then Inr () else Inl (DailyCapReached c n))"

subsection \<open>The record\<close>

datatype rating = Useful | Noise

definition rating_from_label :: "unicode \<Rightarrow> bytes \<Rightarrow> rating option" where
  "rating_from_label U l =
     (let s = map ascii_lower (dropWhile (\<lambda>c. c = CHR ''/'') (trim U l))
      in if s = ''useful'' then Some Useful else if s = ''noise'' then Some Noise else None)"

record 'f sent_message =
  sent_id :: bytes
  sent_kind :: salience_kind
  sent_thread :: "bytes option"
  sent_headline :: bytes
  sent_evidence :: bytes
  sent_confidence :: 'f
  sent_cost :: cost
  sent_at :: int
  responded_at :: "int option"
  sent_rating :: "rating option"

definition responded :: "'f sent_message \<Rightarrow> bool" where
  "responded m \<longleftrightarrow> responded_at m \<noteq> None"

definition response_latency :: "'f sent_message \<Rightarrow> int option" where
  "response_latency m = map_option (\<lambda>at. at - sent_at m) (responded_at m)"

record 'f rejected_candidate =
  rej_kind :: salience_kind
  rej_headline :: bytes
  rej_reason :: "'f rejection_reason"
  rejected_at :: int

record announced_tightening =
  ann_kind :: salience_kind
  ann_cap :: u32
  announced_at :: int

record 'f outreach_store =
  sent :: "'f sent_message list"
  rejections :: "'f rejected_candidate list"
  announced_tightenings :: "announced_tightening list"

definition store_default :: "'f outreach_store" where
  "store_default = \<lparr>sent = [], rejections = [], announced_tightenings = []\<rparr>"

definition MAX_SENT :: nat where "MAX_SENT = 200"

definition MAX_REJECTIONS :: nat where "MAX_REJECTIONS = 100"

definition prune_front :: "'a list \<Rightarrow> nat \<Rightarrow> 'a list" where
  "prune_front xs n = drop (length xs - n) xs"

definition record_sent :: "'f sent_message \<Rightarrow> 'f outreach_store \<Rightarrow> 'f outreach_store" where
  "record_sent m st = st\<lparr>sent := prune_front (sent st @ [m]) MAX_SENT\<rparr>"

definition record_rejection :: "'f rejected_candidate \<Rightarrow> 'f outreach_store \<Rightarrow> 'f outreach_store" where
  "record_rejection r st = st\<lparr>rejections := prune_front (rejections st @ [r]) MAX_REJECTIONS\<rparr>"

definition recent :: "'f outreach_store \<Rightarrow> salience_kind \<Rightarrow> nat \<Rightarrow> 'f sent_message list" where
  "recent st k window = prune_front (filter (\<lambda>m. sent_kind m = k) (sent st)) window"

definition u32_of :: "nat \<Rightarrow> u32" where
  "u32_of n = (if n < 2 ^ 32 then of_nat n else - 1)"

definition sent_today :: "'f outreach_env \<Rightarrow> 'f outreach_store \<Rightarrow> salience_kind \<Rightarrow> int \<Rightarrow> u32" where
  "sent_today E st k now =
     u32_of (length (filter (\<lambda>m. sent_kind m = k \<and> local_day E (sent_at m) = local_day E now) (sent st)))"

text \<open>The first message with the id is changed.\<close>

fun mark_first :: "bytes \<Rightarrow> int \<Rightarrow> rating option \<Rightarrow> 'f sent_message list \<Rightarrow> bool \<times> 'f sent_message list" where
  "mark_first i now r [] = (False, [])"
| "mark_first i now r (m # ms) =
     (if sent_id m = i
      then (True, m\<lparr>responded_at := (case responded_at m of None \<Rightarrow> Some now | Some t \<Rightarrow> Some t),
                    sent_rating := (if r \<noteq> None then r else sent_rating m)\<rparr> # ms)
      else (case mark_first i now r ms of (found, ms') \<Rightarrow> (found, m # ms')))"

definition mark_responded :: "bytes \<Rightarrow> int \<Rightarrow> rating option \<Rightarrow> 'f outreach_store \<Rightarrow> bool \<times> 'f outreach_store" where
  "mark_responded i now r st = (case mark_first i now r (sent st) of (found, ms) \<Rightarrow> (found, st\<lparr>sent := ms\<rparr>))"

definition announced :: "'f outreach_store \<Rightarrow> salience_kind \<Rightarrow> announced_tightening option" where
  "announced st k = find (\<lambda>a. ann_kind a = k) (announced_tightenings st)"

definition clear_announcement :: "salience_kind \<Rightarrow> 'f outreach_store \<Rightarrow> 'f outreach_store" where
  "clear_announcement k st = st\<lparr>announced_tightenings := filter (\<lambda>a. ann_kind a \<noteq> k) (announced_tightenings st)\<rparr>"

definition record_announcement :: "salience_kind \<Rightarrow> u32 \<Rightarrow> int \<Rightarrow> 'f outreach_store \<Rightarrow> 'f outreach_store" where
  "record_announcement k cap now st =
     st\<lparr>announced_tightenings := filter (\<lambda>a. ann_kind a \<noteq> k) (announced_tightenings st) @
          [\<lparr>ann_kind = k, ann_cap = cap, announced_at = now\<rparr>]\<rparr>"

definition sent_headlines :: "'f outreach_store \<Rightarrow> bytes list" where
  "sent_headlines st = map sent_headline (sent st)"

definition unanswered :: "'f outreach_store \<Rightarrow> 'f sent_message list" where
  "unanswered st = rev (filter (\<lambda>m. \<not> responded m) (sent st))"

subsection \<open>Feedback\<close>

definition response_rate :: "'f floats \<Rightarrow> 'f outreach_store \<Rightarrow> salience_kind \<Rightarrow> nat \<Rightarrow> 'f option" where
  "response_rate F st k window =
     (if window = 0 then None
      else (let ms = recent st k window
            in if length ms < window then None else Some (ratio F (length (filter responded ms)) (length ms))))"

record 'f tightening =
  tight_kind :: salience_kind
  base_cap :: u32
  tightened_cap :: u32
  tight_rate :: 'f
  tight_floor :: 'f
  tight_window :: nat

definition tightening_of :: "'f floats \<Rightarrow> 'f outreach_store \<Rightarrow> 'f outreach_config \<Rightarrow> salience_kind \<Rightarrow> 'f tightening option" where
  "tightening_of F st cfg k =
     (case cap_for cfg k of
        None \<Rightarrow> None
      | Some base \<Rightarrow>
          (case response_rate F st k (feedback_window cfg) of
             None \<Rightarrow> None
           | Some rate \<Rightarrow>
               if f_le F (response_rate_floor cfg) rate then None
               else Some \<lparr>tight_kind = k, base_cap = base, tightened_cap = base div 2, tight_rate = rate,
                 tight_floor = response_rate_floor cfg, tight_window = feedback_window cfg\<rparr>))"

definition effective_cap :: "'f floats \<Rightarrow> 'f outreach_store \<Rightarrow> 'f outreach_config \<Rightarrow> salience_kind \<Rightarrow> u32 option" where
  "effective_cap F st cfg k =
     (case cap_for cfg k of
        None \<Rightarrow> None
      | Some base \<Rightarrow> Some (case tightening_of F st cfg k of None \<Rightarrow> base | Some t \<Rightarrow> tightened_cap t))"

definition reconcile_tightening ::
  "'f floats \<Rightarrow> 'f outreach_config \<Rightarrow> salience_kind \<Rightarrow> 'f outreach_store \<Rightarrow> 'f tightening option \<times> 'f outreach_store" where
  "reconcile_tightening F cfg k st =
     (case tightening_of F st cfg k of
        None \<Rightarrow> (None, clear_announcement k st)
      | Some t \<Rightarrow>
          ((case announced st k of
              Some a \<Rightarrow> if ann_cap a = tightened_cap t then None else Some t
            | None \<Rightarrow> Some t), st))"

record 'f kind_status =
  ks_kind :: salience_kind
  ks_base_cap :: "u32 option"
  ks_effective_cap :: "u32 option"
  ks_sent_today :: u32
  ks_response_rate :: "'f option"
  ks_window_filled :: nat
  ks_window_target :: nat
  ks_tightened :: bool
  ks_announced :: bool

definition kind_status_of :: "'f outreach_env \<Rightarrow> 'f outreach_store \<Rightarrow> 'f outreach_config \<Rightarrow> salience_kind \<Rightarrow> int \<Rightarrow> 'f kind_status" where
  "kind_status_of E st cfg k now =
     (let F = floats_of E
      in \<lparr>ks_kind = k, ks_base_cap = cap_for cfg k, ks_effective_cap = effective_cap F st cfg k,
          ks_sent_today = sent_today E st k now, ks_response_rate = response_rate F st k (feedback_window cfg),
          ks_window_filled = length (recent st k (feedback_window cfg)), ks_window_target = feedback_window cfg,
          ks_tightened = (tightening_of F st cfg k \<noteq> None), ks_announced = (announced st k \<noteq> None)\<rparr>)"

subsection \<open>The corpus\<close>

definition MAX_CORPUS :: nat where "MAX_CORPUS = 400"

definition JOURNAL_DOCS :: "bytes list" where
  "JOURNAL_DOCS = [''LEARNING.md'', ''THOUGHTS.md'', ''CURIOSITY.md'', ''REFLECTIONS.md'', ''PRAXIS.md'', ''FINDINGS.md'']"

definition headings :: "unicode \<Rightarrow> bytes \<Rightarrow> bytes list" where
  "headings U content =
     List.map_filter (\<lambda>line.
       (let trimmed = trim_start U line
        in if \<not> starts_with ''##'' trimmed then None
           else (let s = trim U (dropWhile (\<lambda>c. c = CHR ''#'') trimmed) in if s = [] then None else Some s)))
       (str_lines content)"

text \<open>\<open>docs\<close>: what reading a document gives, \<open>None\<close> when it cannot be read.\<close>

definition journal_headings :: "unicode \<Rightarrow> (bytes \<Rightarrow> bytes option) \<Rightarrow> bytes list" where
  "journal_headings U docs = concat (map (headings U) (List.map_filter docs JOURNAL_DOCS))"

definition build_corpus :: "unicode \<Rightarrow> (bytes \<Rightarrow> bytes option) \<Rightarrow> 'f outreach_store \<Rightarrow> bytes list" where
  "build_corpus U docs st = prune_front (sent_headlines st @ journal_headings U docs) MAX_CORPUS"

subsection \<open>The file\<close>

record 'f outreach_codec =
  encode_store :: "'f outreach_store \<Rightarrow> bytes"
  decode_store :: "bytes \<Rightarrow> 'f outreach_store option"

text \<open>How the operations on the file end: the error of each, if any; \<open>corrupt_text\<close> is the error a
  malformed file gives.\<close>

record outreach_io =
  lock_error :: "bytes option"
  read_error :: "bytes option"
  rename_fails :: bool
  write_error :: "bytes option"
  corrupt_text :: bytes

text \<open>\<open>outreach.json\<close>, when there is one, and the corrupt files put aside.\<close>

record outreach_disk =
  outreach_file :: "bytes option"
  corrupt_files :: "bytes list"

definition load_open :: "'f outreach_codec \<Rightarrow> outreach_io \<Rightarrow> outreach_disk \<Rightarrow> 'f outreach_store" where
  "load_open C io d =
     (case outreach_file d of
        None \<Rightarrow> store_default
      | Some t \<Rightarrow>
          if read_error io \<noteq> None \<or> \<not> valid_utf8 t then store_default
          else (case decode_store C t of None \<Rightarrow> store_default | Some st \<Rightarrow> st))"

definition load_strict :: "'f outreach_codec \<Rightarrow> outreach_io \<Rightarrow> outreach_disk \<Rightarrow> (bytes + 'f outreach_store) \<times> outreach_disk" where
  "load_strict C io d =
     (case outreach_file d of
        None \<Rightarrow> (Inr store_default, d)
      | Some t \<Rightarrow>
          (case read_error io of
             Some e \<Rightarrow> (Inl e, d)
           | None \<Rightarrow>
               if \<not> valid_utf8 t then (Inl (corrupt_text io), d)
               else (case decode_store C t of
                   Some st \<Rightarrow> (Inr st, d)
                 | None \<Rightarrow>
                     (Inl (corrupt_text io),
                      if rename_fails io then d
                      else d\<lparr>outreach_file := None, corrupt_files := corrupt_files d @ [t]\<rparr>))))"

definition outreach_delta ::
  "'f outreach_codec \<Rightarrow> outreach_io \<Rightarrow> ('f outreach_store \<Rightarrow> 'a \<times> 'f outreach_store) \<Rightarrow> outreach_disk \<Rightarrow>
     (bytes + 'a) \<times> outreach_disk" where
  "outreach_delta C io apply d =
     (case lock_error io of
        Some e \<Rightarrow> (Inl e, d)
      | None \<Rightarrow>
          (case load_strict C io d of
             (Inl e, d1) \<Rightarrow> (Inl e, d1)
           | (Inr st, d1) \<Rightarrow>
               (case apply st of
                  (out, st') \<Rightarrow>
                    (case write_error io of
                       Some e \<Rightarrow> (Inl e, d1)
                     | None \<Rightarrow> (Inr out, d1\<lparr>outreach_file := Some (encode_store C st')\<rparr>)))))"

subsection \<open>Admission\<close>

datatype 'f decision = Admitted bytes | Rejected "'f rejection_reason"

record 'f admission =
  the_decision :: "'f decision"
  pending_notice :: "'f tightening option"

text \<open>What one admission depends on besides the candidate: the clock, the journal documents, the
  predictions that have resolved, the identifier a message would get.\<close>

record admission_context =
  ctx_now :: int
  ctx_docs :: "bytes \<Rightarrow> bytes option"
  ctx_resolved :: "bytes list"
  ctx_uuid :: bytes
  ctx_io :: outreach_io

definition sent_of :: "bytes \<Rightarrow> int \<Rightarrow> cost \<Rightarrow> 'f outreach_candidate \<Rightarrow> 'f sent_message" where
  "sent_of i now c x = \<lparr>sent_id = i, sent_kind = cand_kind x, sent_thread = thread_id x, sent_headline = headline x,
     sent_evidence = evidence x, sent_confidence = confidence x, sent_cost = c, sent_at = now, responded_at = None,
     sent_rating = None\<rparr>"

definition decide ::
  "'f outreach_env \<Rightarrow> 'f outreach_config \<Rightarrow> admission_context \<Rightarrow> 'f outreach_candidate \<Rightarrow> 'f outreach_store \<Rightarrow>
     'f decision \<times> 'f outreach_store" where
  "decide E cfg ctx x st =
     (let now = ctx_now ctx
      in case check_quiet_hours (cand_kind x) (local_hour E now) cfg of
           Inl reason \<Rightarrow> (Rejected reason, st)
         | Inr _ \<Rightarrow>
             (case check_cap (sent_today E st (cand_kind x) now) (effective_cap (floats_of E) st cfg (cand_kind x)) of
                Inl reason \<Rightarrow> (Rejected reason, st)
              | Inr _ \<Rightarrow>
                  (case evaluate_gate E (novelty_similarity_max cfg) (build_corpus (out_chars E) (ctx_docs ctx) st)
                          (ctx_resolved ctx) x of
                     Inl reason \<Rightarrow> (Rejected reason, st)
                   | Inr pass \<Rightarrow>
                       (let i = ''outreach-'' @ take 8 (ctx_uuid ctx)
                        in (Admitted i, record_sent (sent_of i now (pass_cost pass) x) st)))))"

definition admit_in ::
  "'f outreach_env \<Rightarrow> 'f outreach_config \<Rightarrow> admission_context \<Rightarrow> 'f outreach_candidate \<Rightarrow> 'f outreach_store \<Rightarrow>
     'f admission \<times> 'f outreach_store" where
  "admit_in E cfg ctx x st0 =
     (case reconcile_tightening (floats_of E) cfg (cand_kind x) st0 of
        (notice, st1) \<Rightarrow>
          (case decide E cfg ctx x st1 of
             (verdict, st2) \<Rightarrow>
               (\<lparr>the_decision = verdict, pending_notice = notice\<rparr>,
                case verdict of
                  Rejected reason \<Rightarrow> record_rejection \<lparr>rej_kind = cand_kind x, rej_headline = headline x,
                    rej_reason = reason, rejected_at = ctx_now ctx\<rparr> st2
                | Admitted _ \<Rightarrow> st2)))"

definition admit ::
  "'f outreach_env \<Rightarrow> 'f outreach_codec \<Rightarrow> 'f outreach_config \<Rightarrow> admission_context \<Rightarrow> 'f outreach_candidate \<Rightarrow> outreach_disk \<Rightarrow>
     'f admission \<times> outreach_disk" where
  "admit E C cfg ctx x d =
     (if \<not> outreach_enabled cfg then (\<lparr>the_decision = Rejected Disabled, pending_notice = None\<rparr>, d)
      else (case outreach_delta C (ctx_io ctx) (admit_in E cfg ctx x) d of
          (Inr a, d') \<Rightarrow> (a, d')
        | (Inl e, d') \<Rightarrow> (\<lparr>the_decision = Rejected (StoreUnavailable e), pending_notice = None\<rparr>, d')))"

text \<open>\<open>mark_announced\<close> and \<open>record_response\<close>.\<close>

definition mark_announced :: "'f outreach_codec \<Rightarrow> outreach_io \<Rightarrow> 'f tightening \<Rightarrow> int \<Rightarrow> outreach_disk \<Rightarrow> (bytes + unit) \<times> outreach_disk" where
  "mark_announced C io t now = outreach_delta C io (\<lambda>st. ((), record_announcement (tight_kind t) (tightened_cap t) now st))"

definition record_response :: "'f outreach_codec \<Rightarrow> outreach_io \<Rightarrow> bytes \<Rightarrow> rating option \<Rightarrow> int \<Rightarrow> outreach_disk \<Rightarrow> (bytes + bool) \<times> outreach_disk" where
  "record_response C io i r now = outreach_delta C io (mark_responded i now r)"

text \<open>\<open>create_salience_from_marker\<close> of \<open>src/scheduler/intent.rs\<close>.\<close>

definition trimmed_field :: "unicode \<Rightarrow> bytes \<Rightarrow> json \<Rightarrow> bytes option" where
  "trimmed_field U k v =
     (case str_field k v of
        None \<Rightarrow> None
      | Some s \<Rightarrow> (let s' = trim U s in if s' = [] then None else Some s'))"

datatype salience_error = BadJson | Missing bytes | UnknownKind bytes

definition create_salience_from_marker ::
  "json_lib \<Rightarrow> 'f outreach_env \<Rightarrow> bytes \<Rightarrow> salience_error + 'f outreach_candidate" where
  "create_salience_from_marker L E json_str =
     (let U = out_chars E; F = floats_of E
      in case parse L json_str of
           None \<Rightarrow> Inl BadJson
         | Some v \<Rightarrow>
             (case str_field ''kind'' v of
                None \<Rightarrow> Inl (Missing ''kind'')
              | Some l \<Rightarrow>
                  (case kind_from_label U l of
                     None \<Rightarrow> Inl (UnknownKind l)
                   | Some k \<Rightarrow>
                       (case (trimmed_field U ''headline'' v, trimmed_field U ''evidence'' v) of
                          (None, _) \<Rightarrow> Inl (Missing ''headline'')
                        | (Some h, None) \<Rightarrow> Inl (Missing ''evidence'')
                        | (Some h, Some ev) \<Rightarrow>
                            Inr \<lparr>cand_kind = k, thread_id = trimmed_field U ''thread_id'' v, headline = h,
                              evidence = (case Option.bind (str_field ''cost'' v) (cost_from_label U) of
                                  Some c \<Rightarrow> with_cost_line E ev c | None \<Rightarrow> ev),
                              confidence = f_clamp F (case v of
                                  JObj kvs \<Rightarrow> (case Option.bind (map_of kvs ''confidence'') (as_f64 F) of
                                      Some f \<Rightarrow> f | None \<Rightarrow> f_half F)
                                | _ \<Rightarrow> f_half F)\<rparr>))))"

end
