(* ===== verification/Events.thy ===== *)
theory Events
  imports Outreach Isolation
begin

text \<open>
  The event listener: \<open>src/events/mod.rs\<close>, \<open>src/events/listener.rs\<close> and the fire records of
  \<open>src/scheduler/evaluator.rs\<close>. Events become intents; the pulse's own never do, the others pass
  a circuit breaker, and unprompted messages pass the outreach admission instead.
\<close>

subsection \<open>Events\<close>

datatype interaction_source = ChatWith bytes | CommsWith bytes | TaskRun bytes | ResearchOn bytes

datatype conversation_trust = OwnerTrust | LocalPeer | RemotePeer | Public

datatype plugin_state_change = Failed | Recovered

datatype 'f pulse_event =
    PostInteraction interaction_source conversation_trust bytes u32 u32
  | PipelineAlert bytes nat nat
  | PipelineFrozen u32
  | CognitiveHealthChanged bytes bytes "bytes list"
  | PipelineConversionLow u32 u32
  | PluginStateChanged bytes plugin_state_change
  | ProviderError bytes bytes bytes
  | Salience "'f outreach_candidate"

fun event_type :: "'f pulse_event \<Rightarrow> bytes" where
  "event_type (PostInteraction (ChatWith ch) trust s i out) = ''post_conversation''"
| "event_type (PostInteraction (CommsWith who) trust s i out) = ''post_comms_'' @ who"
| "event_type (PostInteraction (TaskRun task) trust s i out) = ''post_task_'' @ task"
| "event_type (PostInteraction (ResearchOn topic) trust s i out) = ''post_research_'' @ topic"
| "event_type (PipelineAlert doc n limit) = ''pipeline_alert_'' @ doc"
| "event_type (PipelineFrozen n) = ''pipeline_frozen''"
| "event_type (CognitiveHealthChanged old new sugg) = ''cognitive_decline''"
| "event_type (PipelineConversionLow n m) = ''pipeline_conversion_low''"
| "event_type (PluginStateChanged plug new) = ''plugin_state_'' @ plug"
| "event_type (ProviderError e k task) = ''provider_error''"
| "event_type (Salience x) = ''salience_'' @ kind_text (cand_kind x)"

fun is_self_event :: "'f pulse_event \<Rightarrow> bool" where
  "is_self_event (PostInteraction src trust s i out) = True"
| "is_self_event (PipelineAlert doc n limit) = True"
| "is_self_event (PipelineFrozen n) = True"
| "is_self_event (CognitiveHealthChanged old new sugg) = True"
| "is_self_event (PipelineConversionLow n m) = True"
| "is_self_event _ = False"

subsection \<open>The circuit breaker\<close>

text \<open>Times are in nanoseconds.\<close>

definition minutes :: "int \<Rightarrow> int" where "minutes n = n * 60 * 1000000000"

definition EVENT_COOLDOWN_MINUTES :: int where "EVENT_COOLDOWN_MINUTES = 60"

definition MAX_CONSECUTIVE_FIRES :: u32 where "MAX_CONSECUTIVE_FIRES = 3"

definition BREAKER_RESET_MINUTES :: int where "BREAKER_RESET_MINUTES = 6 * 60"

datatype breaker_decision = Pass | Cooldown int | Open u32 int

record breaker_entry =
  last_queued :: int
  fires :: u32
  open_reported :: bool

type_synonym event_breaker = "bytes \<rightharpoonup> breaker_entry"

definition decay :: "int \<Rightarrow> breaker_entry \<Rightarrow> breaker_entry" where
  "decay elapsed e = (if 0 < fires e \<and> minutes BREAKER_RESET_MINUTES \<le> elapsed then e\<lparr>fires := 0, open_reported := False\<rparr> else e)"

text \<open>\<open>num_minutes\<close> truncates towards zero.\<close>

definition num_minutes :: "int \<Rightarrow> int" where
  "num_minutes d = (if 0 \<le> d then d div minutes 1 else - ((- d) div minutes 1))"

definition breaker_check :: "bytes \<Rightarrow> int \<Rightarrow> event_breaker \<Rightarrow> breaker_decision \<times> event_breaker" where
  "breaker_check ty now B =
     (case B ty of
        None \<Rightarrow> (Pass, B)
      | Some e0 \<Rightarrow>
          (let elapsed = now - last_queued e0; e = decay elapsed e0; B' = B(ty \<mapsto> e)
           in if elapsed < minutes EVENT_COOLDOWN_MINUTES
              then (Cooldown (EVENT_COOLDOWN_MINUTES - num_minutes elapsed), B')
              else if MAX_CONSECUTIVE_FIRES \<le> fires e
              then (Open (fires e) (last_queued e + minutes BREAKER_RESET_MINUTES), B')
              else (Pass, B')))"

definition should_report_open :: "bytes \<Rightarrow> event_breaker \<Rightarrow> bool \<times> event_breaker" where
  "should_report_open ty B =
     (case B ty of
        Some e \<Rightarrow> if open_reported e then (False, B) else (True, B(ty \<mapsto> e\<lparr>open_reported := True\<rparr>))
      | None \<Rightarrow> (False, B))"

definition breaker_record_fire :: "bytes \<Rightarrow> int \<Rightarrow> event_breaker \<Rightarrow> event_breaker" where
  "breaker_record_fire ty now B =
     (let e = (case B ty of Some e \<Rightarrow> e | None \<Rightarrow> \<lparr>last_queued = now, fires = 0, open_reported = False\<rparr>)
      in B(ty \<mapsto> e\<lparr>last_queued := now, fires := fires e + 1\<rparr>))"

subsection \<open>The record of fires\<close>

record event_state =
  last_fired :: int
  doc_timestamps :: "bytes \<rightharpoonup> int"
  last_response_had_tools :: bool
  suppression_count :: u32
  signal_count_at_fire :: "nat option"

type_synonym scheduler_state = "bytes \<rightharpoonup> event_state"

definition PIPELINE_DOCS :: "bytes list" where
  "PIPELINE_DOCS = [''LEARNING.md'', ''THOUGHTS.md'', ''CURIOSITY.md'', ''REFLECTIONS.md'', ''PRAXIS.md'']"

text \<open>\<open>mtime\<close>: the modification time of a document in seconds, \<open>None\<close> when it cannot be had; a time
  before the epoch counts as 0.\<close>

definition read_doc_timestamps :: "(bytes \<Rightarrow> int option) \<Rightarrow> bytes \<rightharpoonup> int" where
  "read_doc_timestamps mtime = (\<lambda>doc. if doc \<in> set PIPELINE_DOCS then map_option (max 0) (mtime doc) else None)"

definition state_record_fire :: "bytes \<Rightarrow> int \<Rightarrow> (bytes \<Rightarrow> int option) \<Rightarrow> scheduler_state \<Rightarrow> scheduler_state" where
  "state_record_fire ty now mtime st =
     st(ty \<mapsto> \<lparr>last_fired = now, doc_timestamps = read_doc_timestamps mtime, last_response_had_tools = False,
       suppression_count = 0, signal_count_at_fire = None\<rparr>)"

definition record_suppression :: "bytes \<Rightarrow> scheduler_state \<Rightarrow> scheduler_state" where
  "record_suppression ty st =
     (case st ty of Some e \<Rightarrow> st(ty \<mapsto> e\<lparr>suppression_count := suppression_count e + 1\<rparr>) | None \<Rightarrow> st)"

definition record_response_quality :: "bytes \<Rightarrow> bool \<Rightarrow> scheduler_state \<Rightarrow> scheduler_state" where
  "record_response_quality ty had_tools st =
     (case st ty of Some e \<Rightarrow> st(ty \<mapsto> e\<lparr>last_response_had_tools := had_tools\<rparr>) | None \<Rightarrow> st)"

subsection \<open>The intent of an admitted message\<close>

definition salience_prompt :: "'f floats \<Rightarrow> 'f outreach_candidate \<Rightarrow> bytes" where
  "salience_prompt F x =
     ''You raised this as worth telling D unprompted, and it cleared the outreach '' @
     ''quality gate. Write the message.'' @ [newline, newline] @
     ''Kind: '' @ kind_text (cand_kind x) @ [newline] @
     ''Headline: '' @ headline x @ [newline] @
     ''Confidence: '' @ f_fixed F (confidence x) @ [newline] @
     ''Evidence you cited:'' @ [newline] @ evidence x @ [newline] @
     (case thread_id x of
        None \<Rightarrow> []
      | Some i \<Rightarrow> [newline] @ ''This continues thread '' @ [CHR 0x27] @ i @ [CHR 0x27] @ '' '' @ [CHR 0xE2, CHR 0x80, CHR 0x94] @
          '' say so if the continuation is the point.'' @ [newline]) @ [newline] @
     ''Write it as a short Discord message and emit it with a [SHARE:] marker. '' @
     ''Requirements, all of them load-bearing:'' @ [newline] @
     ''1. Lead with the claim itself, not with the fact that you are reaching out. '' @
     ''No preamble, no '' @ [CHR 0x27] @ ''I'' @ [CHR 0x27] @ ''ve been thinking about'' @ [CHR 0x27] @ ''.'' @ [newline] @
     ''2. Carry the external referent through verbatim '' @ [CHR 0xE2, CHR 0x80, CHR 0x94] @ '' the file and line, URL '' @
     ''or measured number. It is the part of this D can check, and '' @
     ''the part you did not author.'' @ [newline] @
     ''3. End with the cost line exactly as stated above: what you are asking for '' @
     ''is nothing, a read, or a decision.'' @ [newline] @
     ''4. Keep it under 150 words. If it does not fit, the claim is not sharp yet.'' @ [newline] @
     ''5. Do not restate the evidence twice, and do not pad with hedging.'' @ [newline, newline] @
     ''Emit exactly one [SHARE:] marker. Do not queue intents or schedule tasks '' @
     ''from this '' @ [CHR 0xE2, CHR 0x80, CHR 0x94] @ '' it is one message, not a work item.''"

definition salience_intent :: "'f floats \<Rightarrow> bytes \<Rightarrow> int \<Rightarrow> 'f outreach_candidate \<Rightarrow> intent" where
  "salience_intent F uuid now x =
     \<lparr>intent_id = ''event-salience-'' @ take 8 uuid,
      description = ''Outreach ('' @ kind_text (cand_kind x) @ ''): '' @ headline x,
      prompt = salience_prompt F x,
      origin = EventSource (''salience_'' @ kind_text (cand_kind x)),
      priority = (if cand_kind x = Blocking then Urgent else Normal),
      created_at = now, follow_up = None, output_routing = Share, depth = 0\<rparr>"

fun translate_event :: "'f floats \<Rightarrow> bytes \<Rightarrow> int \<Rightarrow> 'f pulse_event \<Rightarrow> intent option" where
  "translate_event F uuid now (Salience x) = Some (salience_intent F uuid now x)"
| "translate_event F uuid now _ = None"

subsection \<open>The listener\<close>

record listener =
  breaker :: event_breaker
  eval_state :: scheduler_state
  eval_file :: "scheduler_state option"
  intents_file :: queue_file
  shared_queue :: intent_queue
  channel_disk :: outreach_disk

text \<open>What the environment decides while one event is handled.\<close>

record event_chance =
  ev_now :: int
  ev_isolated :: bool
  ev_context :: admission_context
  notice_delivered :: bool
  notice_now :: int
  notice_io :: outreach_io
  ev_uuid :: bytes
  ev_created :: int
  ev_queue_io :: queue_io
  ev_mtime :: "bytes \<Rightarrow> int option"
  ev_fired :: int
  saves_state :: bool
  ev_fire_now :: int

record 'f listener_config =
  ls_env :: "'f outreach_env"
  ls_codec :: "'f outreach_codec"
  ls_outreach :: "'f outreach_config"
  ls_queue_codec :: queue_codec
  ls_max_queue :: nat

definition announce_tightening :: "'f listener_config \<Rightarrow> event_chance \<Rightarrow> 'f tightening \<Rightarrow> outreach_disk \<Rightarrow> outreach_disk" where
  "announce_tightening K ch t d =
     (if notice_delivered ch then snd (mark_announced (ls_codec K) (notice_io ch) t (notice_now ch) d) else d)"

definition admit_salience :: "'f listener_config \<Rightarrow> event_chance \<Rightarrow> 'f outreach_candidate \<Rightarrow> outreach_disk \<Rightarrow> bool \<times> outreach_disk" where
  "admit_salience K ch x d =
     (case admit (ls_env K) (ls_codec K) (ls_outreach K) (ev_context ch) x d of
        (a, d1) \<Rightarrow>
          ((case the_decision a of Admitted _ \<Rightarrow> True | Rejected _ \<Rightarrow> False),
           (case pending_notice a of None \<Rightarrow> d1 | Some t \<Rightarrow> announce_tightening K ch t d1)))"

text \<open>The change of the queue file; the first component is what \<open>push\<close> answered inside it.\<close>

definition push_event :: "'f listener_config \<Rightarrow> event_chance \<Rightarrow> intent \<Rightarrow> listener \<Rightarrow> bool \<times> listener" where
  "push_event K ch i L =
     (let C = ls_queue_codec K; io = ev_queue_io ch;
          pushed = (q_locks io \<and> fst (push i (ls_max_queue K) (load C io (intents_file L))))
      in case save_delta C io (\<lambda>q. snd (push i (ls_max_queue K) q)) (intents_file L) of
           (Inr q, f) \<Rightarrow> (pushed, L\<lparr>intents_file := f, shared_queue := q\<rparr>)
         | (Inl _, f) \<Rightarrow> (pushed, L\<lparr>intents_file := f\<rparr>))"

definition note_fire :: "event_chance \<Rightarrow> bytes \<Rightarrow> listener \<Rightarrow> listener" where
  "note_fire ch ty L =
     (let st = state_record_fire ty (ev_fired ch) (ev_mtime ch) (eval_state L)
      in L\<lparr>eval_state := st, eval_file := (if saves_state ch then Some st else eval_file L),
           breaker := breaker_record_fire ty (ev_fire_now ch) (breaker L)\<rparr>)"

text \<open>One received event; the first component says whether an intent was queued.\<close>

definition handle_event :: "'f listener_config \<Rightarrow> event_chance \<Rightarrow> 'f pulse_event \<Rightarrow> listener \<Rightarrow> bool \<times> listener" where
  "handle_event K ch e L =
     (if is_self_event e then (False, L)
      else
        (let ty = event_type e;
             (verdict, B) = (case e of Salience _ \<Rightarrow> (Pass, breaker L) | _ \<Rightarrow> breaker_check ty (ev_now ch) (breaker L));
             L1 = L\<lparr>breaker := B\<rparr>
         in case verdict of
              Cooldown _ \<Rightarrow> (False, L1)
            | Open _ _ \<Rightarrow> (False, L1\<lparr>breaker := snd (should_report_open ty B)\<rparr>)
            | Pass \<Rightarrow>
                if ev_isolated ch then (False, L1)
                else
                  (case (case e of Salience x \<Rightarrow> admit_salience K ch x (channel_disk L1) | _ \<Rightarrow> (True, channel_disk L1)) of
                     (False, d) \<Rightarrow> (False, L1\<lparr>channel_disk := d\<rparr>)
                   | (True, d) \<Rightarrow>
                       (let L2 = L1\<lparr>channel_disk := d\<rparr>
                        in case translate_event (floats_of (ls_env K)) (ev_uuid ch) (ev_created ch) e of
                             None \<Rightarrow> (False, L2)
                           | Some i \<Rightarrow>
                               (case push_event K ch i L2 of
                                  (True, L3) \<Rightarrow> (True, note_fire ch ty L3)
                                | (False, L3) \<Rightarrow> (False, L3))))))"

text \<open>\<open>event_listener\<close>: the events in the order they arrive; a lagging receiver misses some of them.\<close>

fun listen :: "'f listener_config \<Rightarrow> (event_chance \<times> 'f pulse_event) list \<Rightarrow> listener \<Rightarrow> (event_chance \<times> 'f pulse_event) list \<times> listener" where
  "listen K [] L = ([], L)"
| "listen K ((ch, e) # es) L =
     (case handle_event K ch e L of
        (queued, L1) \<Rightarrow> (case listen K es L1 of (qs, L2) \<Rightarrow> (if queued then (ch, e) # qs else qs, L2)))"

subsection \<open>What the breaker promises\<close>

text \<open>The length of the run of fires that ends now: how many of the last ones came without a quiet gap.\<close>

fun burst :: "int list \<Rightarrow> nat" where
  "burst [] = 0"
| "burst [t] = 1"
| "burst (t # u # ts) = (if minutes BREAKER_RESET_MINUTES \<le> t - u then 1 else Suc (burst (u # ts)))"

text \<open>An attempt: the time it is checked, whether an intent is queued then, and the time that is recorded.\<close>

fun attempts :: "bytes \<Rightarrow> (int \<times> bool \<times> int) list \<Rightarrow> event_breaker \<Rightarrow> int list \<times> event_breaker" where
  "attempts ty [] B = ([], B)"
| "attempts ty ((now, queues, at) # rest) B =
     (case breaker_check ty now B of
        (Pass, B1) \<Rightarrow>
          if queues then (case attempts ty rest (breaker_record_fire ty at B1) of (fs, B2) \<Rightarrow> (at # fs, B2))
          else attempts ty rest B1
      | (Open _ _, B1) \<Rightarrow> attempts ty rest (snd (should_report_open ty B1))
      | (Cooldown _, B1) \<Rightarrow> attempts ty rest B1)"

text \<open>The clock never runs backwards from \<open>t\<close> on.\<close>

fun clock_runs :: "int \<Rightarrow> (int \<times> bool \<times> int) list \<Rightarrow> bool" where
  "clock_runs t [] = True"
| "clock_runs t ((now, queues, at) # rest) \<longleftrightarrow> t \<le> now \<and> now \<le> at \<and> clock_runs at rest"

lemma clock_runs_earlier: "clock_runs t as \<Longrightarrow> t' \<le> t \<Longrightarrow> clock_runs t' as"
  by (cases as) auto

text \<open>Fires, newest first, that keep the cooldown and the limit.\<close>

fun paced :: "int list \<Rightarrow> bool" where
  "paced [] = True"
| "paced [t] = True"
| "paced (t # u # ts) \<longleftrightarrow> minutes EVENT_COOLDOWN_MINUTES \<le> t - u \<and> burst (t # u # ts) \<le> 3 \<and> paced (u # ts)"

text \<open>The entry knows the last fire and counts at least the run it ends; it counts none only when the
  channel has been quiet by time \<open>now\<close>.\<close>

definition breaker_ok :: "bytes \<Rightarrow> int \<Rightarrow> int list \<Rightarrow> event_breaker \<Rightarrow> bool" where
  "breaker_ok ty now ts B \<longleftrightarrow>
     (case B ty of
        None \<Rightarrow> ts = []
      | Some e \<Rightarrow> ts \<noteq> [] \<and> last_queued e = hd ts \<and> unat (fires e) \<le> 3 \<and>
          (if fires e = 0 then minutes BREAKER_RESET_MINUTES \<le> now - hd ts else burst ts \<le> unat (fires e)))"

lemma check_ok:
  assumes "breaker_ok ty now0 ts B" and "now0 \<le> now" and "breaker_check ty now B = (verdict, B')"
  shows "breaker_ok ty now ts B'"
    and "verdict = Pass \<Longrightarrow> ts \<noteq> [] \<Longrightarrow> minutes EVENT_COOLDOWN_MINUTES \<le> now - hd ts \<and>
      (minutes BREAKER_RESET_MINUTES \<le> now - hd ts \<or> burst ts \<le> 2)"
proof -
  have three: "unat (x :: u32) \<le> 2" if "\<not> MAX_CONSECUTIVE_FIRES \<le> x" for x
    using that by (simp add: MAX_CONSECUTIVE_FIRES_def word_le_nat_alt)
  show "breaker_ok ty now ts B'"
    using assms by (auto simp: breaker_ok_def breaker_check_def decay_def Let_def word_gt_0 split: option.splits if_splits)
  assume "verdict = Pass" "ts \<noteq> []"
  then obtain e where e: "B ty = Some e" using assms(1) by (cases "B ty") (auto simp: breaker_ok_def)
  have d: "\<not> now - last_queued e < minutes EVENT_COOLDOWN_MINUTES"
      "\<not> MAX_CONSECUTIVE_FIRES \<le> fires (decay (now - last_queued e) e)"
    using assms(3) \<open>verdict = Pass\<close> e by (auto simp: breaker_check_def Let_def split: if_splits)
  show "minutes EVENT_COOLDOWN_MINUTES \<le> now - hd ts \<and> (minutes BREAKER_RESET_MINUTES \<le> now - hd ts \<or> burst ts \<le> 2)"
  proof (cases "minutes BREAKER_RESET_MINUTES \<le> now - hd ts")
    case True
    then show ?thesis using assms(1) d(1) e by (auto simp: breaker_ok_def)
  next
    case False
    then have "decay (now - last_queued e) e = e" "fires e \<noteq> 0"
      using assms(1,2) e by (auto simp: breaker_ok_def decay_def split: if_splits)
    then show ?thesis using assms(1) d e three [of "fires e"] by (auto simp: breaker_ok_def)
  qed
qed

lemma check_None: "breaker_check ty now B = (verdict, B') \<Longrightarrow> B' ty = None \<longleftrightarrow> B ty = None"
  by (auto simp: breaker_check_def Let_def split: option.splits if_splits)

lemma fire_ok:
  assumes "breaker_ok ty now0 ts B" and "now0 \<le> now" and "breaker_check ty now B = (Pass, B')" and "now \<le> at" and "paced ts"
  shows "breaker_ok ty at (at # ts) (breaker_record_fire ty at B')" and "paced (at # ts)"
proof -
  note c = check_ok [OF assms(1-3)]
  have gap: "minutes EVENT_COOLDOWN_MINUTES \<le> at - hd ts \<and> (minutes BREAKER_RESET_MINUTES \<le> at - hd ts \<or> burst ts \<le> 2)"
    if "ts \<noteq> []" using c(2) [OF refl that] assms(4) by auto
  have b: "burst (at # ts) \<le> 3" using gap by (cases ts) auto
  show "paced (at # ts)" using gap b assms(5) by (cases ts) auto
  show "breaker_ok ty at (at # ts) (breaker_record_fire ty at B')"
  proof (cases "B' ty")
    case None
    then have "ts = []" using c(1) by (simp add: breaker_ok_def)
    then show ?thesis using None by (simp add: breaker_ok_def breaker_record_fire_def)
  next
    case (Some e)
    then obtain e0 where e0: "B ty = Some e0" using check_None [OF assms(3)] by (cases "B ty") auto
    have "\<not> MAX_CONSECUTIVE_FIRES \<le> fires e"
      using assms(3) e0 Some by (auto simp: breaker_check_def Let_def split: if_splits)
    then have f: "unat (fires e) \<le> 2" by (simp add: MAX_CONSECUTIVE_FIRES_def word_le_nat_alt)
    then have u: "unat (fires e + 1) = Suc (unat (fires e))" by (simp add: unat_word_ariths)
    have "burst (at # ts) \<le> Suc (unat (fires e))"
    proof (cases "fires e = 0")
      case True
      then have "minutes BREAKER_RESET_MINUTES \<le> at - hd ts" "ts \<noteq> []"
        using c(1) Some assms(4) by (auto simp: breaker_ok_def)
      then show ?thesis by (cases ts) auto
    next
      case False
      then show ?thesis using c(1) Some by (cases ts) (auto simp: breaker_ok_def)
    qed
    then show ?thesis using Some u f by (auto simp: breaker_ok_def breaker_record_fire_def)
  qed
qed

lemma check_open:
  assumes "breaker_check ty now B = (Open n t, B')"
  shows "\<exists>e. B' ty = Some e \<and> MAX_CONSECUTIVE_FIRES \<le> fires e \<and> n = fires e \<and> t = last_queued e + minutes BREAKER_RESET_MINUTES"
  using assms by (auto simp: breaker_check_def Let_def split: option.splits if_splits)

lemma report_ok: "breaker_ok ty now ts B \<Longrightarrow> breaker_ok ty now ts (snd (should_report_open ty B))"
  by (auto simp: breaker_ok_def should_report_open_def split: option.splits)

lemma attempts_paced:
  assumes "attempts ty as B = (fs, B')" and "breaker_ok ty T ts B" and "paced ts"
    and "clock_runs T as"
  shows "paced (rev fs @ ts)"
  using assms
proof (induction as arbitrary: B fs T ts)
  case (Cons a as)
  obtain now q at where a: "a = (now, q, at)" by (cases a)
  obtain verdict B1 where c: "breaker_check ty now B = (verdict, B1)" by fastforce
  have s: "T \<le> now" "now \<le> at" "clock_runs at as" using Cons.prems(4) by (simp_all add: a)
  note s' = clock_runs_earlier [OF s(3,2)]
  note ok = check_ok(1) [OF Cons.prems(2) s(1) c]
  show ?case
  proof (cases "verdict = Pass \<and> q")
    case True
    obtain fs' where f: "attempts ty as (breaker_record_fire ty at B1) = (fs', B')" "fs = at # fs'"
      using Cons.prems(1) True c by (auto simp: a split: prod.splits)
    note fire = fire_ok [OF Cons.prems(2) s(1) c [unfolded conjunct1 [OF True]] s(2) Cons.prems(3)]
    from Cons.IH [OF f(1) fire s(3)] show ?thesis by (simp add: f(2))
  next
    case False
    then obtain B2 where "attempts ty as B2 = (fs, B')" "breaker_ok ty now ts B2"
      using Cons.prems(1) c ok report_ok [OF ok] by (cases verdict) (auto simp: a split: if_splits)
    from Cons.IH [OF this Cons.prems(3) s'] show ?thesis .
  qed
qed simp

lemma burst_pos: "0 < burst (t # ts)"
  by (cases ts) auto

lemma paced_append: "paced (xs @ ys) \<Longrightarrow> paced ys"
proof (induction xs)
  case (Cons x xs)
  then show ?case by (cases "xs @ ys") auto
qed simp

text \<open>
  The breaker bounds bursts: as long as the clock does not run backwards, any two fires of an
  event that follow each other are a cooldown apart, and of any four in a row two are a reset apart,
  whatever the attempts between them.
\<close>
theorem breaker_bounds_bursts:
  assumes "clock_runs t as" and "attempts ty as Map.empty = (fs, B)"
  shows "(\<forall>xs a b ys. fs = xs @ [a, b] @ ys \<longrightarrow> minutes EVENT_COOLDOWN_MINUTES \<le> b - a) \<and>
    (\<forall>xs a b c d ys. fs = xs @ [a, b, c, d] @ ys \<longrightarrow>
       minutes BREAKER_RESET_MINUTES \<le> b - a \<or> minutes BREAKER_RESET_MINUTES \<le> c - b \<or> minutes BREAKER_RESET_MINUTES \<le> d - c)"
proof -
  from attempts_paced [OF assms(2) _ _ assms(1), of "[]"] have p: "paced (rev fs)" by (simp add: breaker_ok_def)
  have "minutes EVENT_COOLDOWN_MINUTES \<le> b - a" if "fs = xs @ [a, b] @ ys" for xs a b ys
    using p paced_append [of "rev ys" "b # a # rev xs"] that by simp
  moreover have "minutes BREAKER_RESET_MINUTES \<le> b - a \<or> minutes BREAKER_RESET_MINUTES \<le> c - b \<or> minutes BREAKER_RESET_MINUTES \<le> d - c"
    if "fs = xs @ [a, b, c, d] @ ys" for xs a b c d ys
    using p paced_append [of "rev ys" "d # c # b # a # rev xs"] that burst_pos [of a "rev xs"] by (auto split: if_splits)
  ultimately show ?thesis by blast
qed

text \<open>
  An open breaker closes: whatever was reported of it, from the time it names on the next event of
  that type passes.
\<close>
theorem open_breaker_closes:
  assumes "breaker_check ty now B = (Open n t, B')" and "t \<le> later"
  shows "fst (breaker_check ty later B') = Pass \<and> fst (breaker_check ty later (snd (should_report_open ty B'))) = Pass"
proof -
  obtain e where e: "B' ty = Some e" "MAX_CONSECUTIVE_FIRES \<le> fires e" "t = last_queued e + minutes BREAKER_RESET_MINUTES"
    using check_open [OF assms(1)] by blast
  then have "0 < fires e" by (auto simp: MAX_CONSECUTIVE_FIRES_def word_le_nat_alt word_less_nat_alt)
  then show ?thesis using e assms(2)
    by (auto simp: breaker_check_def decay_def should_report_open_def Let_def minutes_def BREAKER_RESET_MINUTES_def
        EVENT_COOLDOWN_MINUTES_def MAX_CONSECUTIVE_FIRES_def)
qed

text \<open>Six fires wanted an hour apart: three pass, and after six hours of quiet another.\<close>

definition demo_attempts :: "(int \<times> bool \<times> int) list" where
  "demo_attempts = map (\<lambda>h. (minutes h, True, minutes h)) [0, 60, 120, 180, 240, 480]"

theorem breaker_bounds_bursts_witness:
  "\<exists>B. attempts ''x'' demo_attempts Map.empty = ([minutes 0, minutes 60, minutes 120, minutes 480], B) \<and>
    minutes BREAKER_RESET_MINUTES \<le> minutes 480 - minutes 120"
proof -
  have "fst (attempts ''x'' demo_attempts Map.empty) = [minutes 0, minutes 60, minutes 120, minutes 480]" by code_simp
  then obtain B where r: "attempts ''x'' demo_attempts Map.empty = ([minutes 0, minutes 60, minutes 120, minutes 480], B)"
    by (metis prod.collapse)
  have "clock_runs 0 demo_attempts" by code_simp
  from conjunct2 [OF breaker_bounds_bursts [OF this r], rule_format, of "[]" "minutes 0" "minutes 60" "minutes 120" "minutes 480" "[]"]
  show ?thesis using r by (auto simp: minutes_def BREAKER_RESET_MINUTES_def)
qed

theorem open_breaker_closes_witness:
  "\<exists>n t B. breaker_check ''x'' (minutes 180) [''x'' \<mapsto> \<lparr>last_queued = minutes 120, fires = 3, open_reported = False\<rparr>] = (Open n t, B) \<and>
    fst (breaker_check ''x'' (minutes 480) B) = Pass"
proof -
  let ?B = "[''x'' \<mapsto> \<lparr>last_queued = minutes 120, fires = 3, open_reported = False\<rparr>]"
  have c: "breaker_check ''x'' (minutes 180) ?B = (Open 3 (minutes 480), ?B)"
    by (auto simp: breaker_check_def decay_def minutes_def BREAKER_RESET_MINUTES_def EVENT_COOLDOWN_MINUTES_def
        MAX_CONSECUTIVE_FIRES_def Let_def fun_upd_def)
  from open_breaker_closes [OF this, of "minutes 480"] c show ?thesis by blast
qed

end
