(* ===== verification/OutreachSafety.thy ===== *)
theory OutreachSafety
  imports Outreach "HOL-Library.Countable"
begin

text \<open>
  What the outreach channel promises: the caps, the quiet hours, the gate, the feedback.
\<close>

subsection \<open>Quiet hours\<close>

text \<open>
  The quiet window is the arc of the clock from its first hour up to its last, also over midnight:
  an hour is quiet exactly when the clock, started at the first hour of the window, shows it before
  the hour after the window.
\<close>
theorem quiet_window_is_an_arc:
  assumes "unat h < 24" and "unat s < 24" and "unat e < 24"
  shows "is_quiet_hour h s e \<longleftrightarrow> (unat h + 24 - unat s) mod 24 < (unat e + 24 - unat s) mod 24"
proof -
  have eq: "s = e \<longleftrightarrow> unat s = unat e" by (simp add: word_unat_eq_iff)
  have m: "(a + 24 - b) mod 24 = (if b \<le> a then a - b else a + 24 - b)" if "a < 24" "b < 24" for a b :: nat
  proof (cases "b \<le> a")
    case True
    then have "a + 24 - b = 24 + (a - b)" using that by simp
    then have "(a + 24 - b) mod 24 = (a - b) mod 24" by (simp only: mod_add_self1)
    then show ?thesis using that True by simp
  qed (use that in simp)
  show ?thesis
    unfolding is_quiet_hour_def m [OF assms(1,2)] m [OF assms(3,2)] eq word_less_nat_alt word_le_nat_alt
    using assms by auto
qed

theorem quiet_window_is_an_arc_witness:
  "is_quiet_hour 2 23 8 \<and> \<not> is_quiet_hour 12 23 8"
  using quiet_window_is_an_arc [of 2 23 8] quiet_window_is_an_arc [of 12 23 8] by simp

subsection \<open>Admission\<close>

lemma first_some_None [simp]: "first_some f xs = None \<longleftrightarrow> (\<forall>x \<in> set xs. f x = None)"
  by (induction xs) (auto simp: first_some_def List.map_filter_def)

text \<open>What a candidate has to clear, in a store.\<close>

definition clears :: "'f outreach_env \<Rightarrow> 'f outreach_config \<Rightarrow> admission_context \<Rightarrow> 'f outreach_candidate \<Rightarrow> 'f outreach_store \<Rightarrow> bool" where
  "clears E cfg ctx x st \<longleftrightarrow>
     (cand_kind x = Blocking \<or> \<not> is_quiet_hour (local_hour E (ctx_now ctx)) (quiet_hours_start cfg) (quiet_hours_end cfg)) \<and>
     (\<forall>c. effective_cap (floats_of E) st cfg (cand_kind x) = Some c \<longrightarrow> sent_today E st (cand_kind x) (ctx_now ctx) < c) \<and>
     trim (out_chars E) (headline x) \<noteq> [] \<and> trim (out_chars E) (evidence x) \<noteq> [] \<and>
     unit_interval (floats_of E) (confidence x) \<and>
     find_referent E (evidence x) (cand_kind x) (ctx_resolved ctx) \<noteq> None \<and> stated_cost E (evidence x) \<noteq> None \<and>
     (\<exists>s. max_similarity E (headline x) (build_corpus (out_chars E) (ctx_docs ctx) st) = Inr s \<and>
        \<not> f_le (floats_of E) (novelty_similarity_max cfg) s)"

lemma decide_cases:
  "decide E cfg ctx x st =
     (if clears E cfg ctx x st
      then (Admitted (''outreach-'' @ take 8 (ctx_uuid ctx)),
            record_sent (sent_of (''outreach-'' @ take 8 (ctx_uuid ctx)) (ctx_now ctx) (the (stated_cost E (evidence x))) x) st)
      else (Rejected (case fst (decide E cfg ctx x st) of Rejected r \<Rightarrow> r), st))"
  by (auto simp: decide_def clears_def check_quiet_hours_def check_cap_def evaluate_gate_def Let_def
      split: option.splits sum.splits if_splits)

lemma reconcile_keeps [simp]:
  "sent (snd (reconcile_tightening F cfg k st)) = sent st"
  by (simp add: reconcile_tightening_def clear_announcement_def split: option.split)

lemma tightening_sent: "sent st' = sent st \<Longrightarrow> tightening_of F st' cfg k = tightening_of F st cfg k"
  by (simp add: tightening_of_def response_rate_def recent_def cong: option.case_cong)

lemma clears_sent:
  assumes "sent st' = sent st"
  shows "clears E cfg ctx x st' \<longleftrightarrow> clears E cfg ctx x st"
proof -
  have "effective_cap (floats_of E) st' cfg (cand_kind x) = effective_cap (floats_of E) st cfg (cand_kind x)"
    using tightening_sent [OF assms] by (simp add: effective_cap_def cong: option.case_cong)
  moreover have "sent_today E st' = sent_today E st" using assms by (intro ext) (simp add: sent_today_def)
  moreover have "build_corpus U docs st' = build_corpus U docs st" for U docs
    using assms by (simp add: build_corpus_def sent_headlines_def)
  ultimately show ?thesis by (simp only: clears_def)
qed

definition message_for :: "'f outreach_env \<Rightarrow> admission_context \<Rightarrow> 'f outreach_candidate \<Rightarrow> 'f sent_message" where
  "message_for E ctx x = sent_of (''outreach-'' @ take 8 (ctx_uuid ctx)) (ctx_now ctx) (the (stated_cost E (evidence x))) x"

lemma admit_in_cases:
  assumes "admit_in E cfg ctx x st = (a, st')"
  shows "clears E cfg ctx x st \<Longrightarrow>
      the_decision a = Admitted (''outreach-'' @ take 8 (ctx_uuid ctx)) \<and>
      sent st' = prune_front (sent st @ [message_for E ctx x]) MAX_SENT"
    and "\<not> clears E cfg ctx x st \<Longrightarrow>
      (\<exists>r. the_decision a = Rejected r \<and> rejections st' \<noteq> [] \<and> rej_reason (last (rejections st')) = r) \<and> sent st' = sent st"
    and "pending_notice a = fst (reconcile_tightening (floats_of E) cfg (cand_kind x) st)"
proof -
  obtain notice st1 where r: "reconcile_tightening (floats_of E) cfg (cand_kind x) st = (notice, st1)" by fastforce
  have s: "sent st1 = sent st" using reconcile_keeps [of "floats_of E" cfg "cand_kind x" st] by (simp add: r)
  note c = clears_sent [OF s, of E cfg ctx x]
  show "clears E cfg ctx x st \<Longrightarrow>
      the_decision a = Admitted (''outreach-'' @ take 8 (ctx_uuid ctx)) \<and>
      sent st' = prune_front (sent st @ [message_for E ctx x]) MAX_SENT"
    using assms s c by (auto simp: admit_in_def r decide_cases message_for_def record_sent_def)
  show "\<not> clears E cfg ctx x st \<Longrightarrow>
      (\<exists>r. the_decision a = Rejected r \<and> rejections st' \<noteq> [] \<and> rej_reason (last (rejections st')) = r) \<and> sent st' = sent st"
  proof -
    assume n: "\<not> clears E cfg ctx x st"
    obtain y st2 where d: "decide E cfg ctx x st1 = (y, st2)" by fastforce
    then obtain reason where y: "y = Rejected reason" "st2 = st1" using n c by (subst (asm) decide_cases) auto
    show ?thesis using assms s
      by (auto simp: admit_in_def r d y record_rejection_def prune_front_def MAX_REJECTIONS_def)
  qed
  show "pending_notice a = fst (reconcile_tightening (floats_of E) cfg (cand_kind x) st)"
    using assms by (auto simp: admit_in_def r split: prod.splits)
qed

lemma load_strict_cases:
  obtains (read) st where "load_strict C io d = (Inr st, d)"
  | (failed) e where "load_strict C io d = (Inl e, d)"
  | (aside) t e where "outreach_file d = Some t"
      and "load_strict C io d = (Inl e, d\<lparr>outreach_file := None, corrupt_files := corrupt_files d @ [t]\<rparr>)"
proof (cases "outreach_file d")
  case (Some t)
  show ?thesis
  proof (cases "read_error io = None \<and> valid_utf8 t \<and> decode_store C t = None \<and> \<not> rename_fails io")
    case True
    then show ?thesis using Some by (intro aside [of t "corrupt_text io"]) (simp_all add: load_strict_def)
  next
    case False
    then show ?thesis using Some read failed
      by (cases "read_error io"; cases "valid_utf8 t"; cases "decode_store C t") (auto simp: load_strict_def)
  qed
qed (use read in \<open>simp add: load_strict_def\<close>)

text \<open>What an admission leaves on the disk, by its outcome.\<close>

lemma admit_cases:
  assumes "admit E C cfg ctx x d = (a, d')"
  obtains (admitted) st st' where "outreach_enabled cfg" and "lock_error (ctx_io ctx) = None"
      and "write_error (ctx_io ctx) = None" and "load_strict C (ctx_io ctx) d = (Inr st, d)" and "clears E cfg ctx x st"
      and "the_decision a = Admitted (''outreach-'' @ take 8 (ctx_uuid ctx))"
      and "sent st' = prune_front (sent st @ [message_for E ctx x]) MAX_SENT"
      and "d' = d\<lparr>outreach_file := Some (encode_store C st')\<rparr>"
  | (rejected) st st' r where "load_strict C (ctx_io ctx) d = (Inr st, d)" and "\<not> clears E cfg ctx x st"
      and "the_decision a = Rejected r" and "rejections st' \<noteq> []" and "rej_reason (last (rejections st')) = r"
      and "sent st' = sent st" and "d' = d\<lparr>outreach_file := Some (encode_store C st')\<rparr>"
      and "pending_notice a = fst (reconcile_tightening (floats_of E) cfg (cand_kind x) st)"
  | (unwritten) r where "the_decision a = Rejected r" and "d' = d"
      and "\<not> outreach_enabled cfg \<or> lock_error (ctx_io ctx) \<noteq> None \<or> write_error (ctx_io ctx) \<noteq> None \<or>
        (\<exists>e. load_strict C (ctx_io ctx) d = (Inl e, d))"
  | (aside) t e where "outreach_file d = Some t" and "the_decision a = Rejected (StoreUnavailable e)"
      and "load_strict C (ctx_io ctx) d = (Inl e, d')"
      and "d' = d\<lparr>outreach_file := None, corrupt_files := corrupt_files d @ [t]\<rparr>"
proof (cases "outreach_enabled cfg \<and> lock_error (ctx_io ctx) = None")
  case False
  show ?thesis
  proof (cases "outreach_enabled cfg")
    case True
    with False obtain e where "lock_error (ctx_io ctx) = Some e" by auto
    then show ?thesis using assms True by (intro unwritten [of "StoreUnavailable e"]) (auto simp: admit_def outreach_delta_def)
  qed (use assms in \<open>intro unwritten [of Disabled], auto simp: admit_def\<close>)
next
  case on: True
  show ?thesis
  proof (cases rule: load_strict_cases [of C "ctx_io ctx" d])
    case (read st)
    obtain b st' where i: "admit_in E cfg ctx x st = (b, st')" by fastforce
    show ?thesis
    proof (cases "write_error (ctx_io ctx)")
      case None
      then have r: "a = b" "d' = d\<lparr>outreach_file := Some (encode_store C st')\<rparr>"
        using assms on read i by (simp_all add: admit_def outreach_delta_def)
      show ?thesis
      proof (cases "clears E cfg ctx x st")
        case True
        with admit_in_cases(1) [OF i] admitted [OF _ _ None read True _ _ r(2)] on r(1) show ?thesis by simp
      next
        case False
        with admit_in_cases(2,3) [OF i] rejected [OF read False _ _ _ _ r(2)] r(1) show ?thesis by auto
      qed
    next
      case (Some e)
      then show ?thesis using assms on read i by (intro unwritten [of "StoreUnavailable e"]) (auto simp: admit_def outreach_delta_def)
    qed
  next
    case (failed e)
    then show ?thesis using assms on by (intro unwritten [of "StoreUnavailable e"]) (auto simp: admit_def outreach_delta_def)
  next
    case (aside t e)
    then show ?thesis using assms on by (intro that(4)) (auto simp: admit_def outreach_delta_def)
  qed
qed

text \<open>
  A candidate is admitted exactly when the channel is on, the store can be locked, read and
  written, and the candidate clears quiet hours, cap and gate against it; then it is recorded as
  sent. A refused one leaves the messages as they were, and is logged with its reason unless the
  store was unavailable; then the file is as it was, or put aside because it was corrupt.
\<close>
theorem admitted_iff_cleared:
  assumes "admit E C cfg ctx x d = (a, d')"
  shows "((\<exists>i. the_decision a = Admitted i) \<longleftrightarrow>
      outreach_enabled cfg \<and> lock_error (ctx_io ctx) = None \<and> write_error (ctx_io ctx) = None \<and>
      (\<exists>st. load_strict C (ctx_io ctx) d = (Inr st, d) \<and> clears E cfg ctx x st)) \<and>
    (case the_decision a of
       Admitted i \<Rightarrow> \<exists>st st'. load_strict C (ctx_io ctx) d = (Inr st, d) \<and> d' = d\<lparr>outreach_file := Some (encode_store C st')\<rparr> \<and>
         sent st' = prune_front (sent st @ [message_for E ctx x]) MAX_SENT
     | Rejected r \<Rightarrow> d' = d \<or>
         (\<exists>st st'. load_strict C (ctx_io ctx) d = (Inr st, d) \<and> d' = d\<lparr>outreach_file := Some (encode_store C st')\<rparr> \<and>
            sent st' = sent st \<and> rejections st' \<noteq> [] \<and> rej_reason (last (rejections st')) = r) \<or>
         (\<exists>t. outreach_file d = Some t \<and> d' = d\<lparr>outreach_file := None, corrupt_files := corrupt_files d @ [t]\<rparr>))"
  using assms
proof (cases rule: admit_cases)
  case (aside t e)
  have "outreach_file d' = None" using aside(4) by simp
  with aside(1) have "d' \<noteq> d" by auto
  with aside show ?thesis by auto
qed auto

subsection \<open>The daily caps\<close>

text \<open>What happens to the channel: candidates, answers to messages, notices that went out.\<close>

datatype 'f channel_event =
    Candidate admission_context "'f outreach_candidate"
  | Answer outreach_io bytes "rating option" int
  | Notice outreach_io "'f tightening" int

text \<open>A step, and the kind and time of the message it admits.\<close>

fun channel_step ::
  "'f outreach_env \<Rightarrow> 'f outreach_codec \<Rightarrow> 'f outreach_config \<Rightarrow> 'f channel_event \<Rightarrow> outreach_disk \<Rightarrow>
     (salience_kind \<times> int) list \<times> outreach_disk" where
  "channel_step E C cfg (Candidate ctx x) d =
     (case admit E C cfg ctx x d of
        (a, d') \<Rightarrow> (case the_decision a of Admitted _ \<Rightarrow> [(cand_kind x, ctx_now ctx)] | Rejected _ \<Rightarrow> [], d'))"
| "channel_step E C cfg (Answer io i r now) d = ([], snd (record_response C io i r now d))"
| "channel_step E C cfg (Notice io t now) d = ([], snd (mark_announced C io t now d))"

fun run_channel ::
  "'f outreach_env \<Rightarrow> 'f outreach_codec \<Rightarrow> 'f outreach_config \<Rightarrow> 'f channel_event list \<Rightarrow> outreach_disk \<Rightarrow>
     (salience_kind \<times> int) list \<times> outreach_disk" where
  "run_channel E C cfg [] d = ([], d)"
| "run_channel E C cfg (s # ss) d =
     (case channel_step E C cfg s d of
        (xs, d1) \<Rightarrow> (case run_channel E C cfg ss d1 of (ys, d2) \<Rightarrow> (xs @ ys, d2)))"

definition stamp :: "'f sent_message \<Rightarrow> salience_kind \<times> int" where
  "stamp m = (sent_kind m, sent_at m)"

text \<open>What is relied on of the encoding: kinds and times are read back. A number may come back
  rounded.\<close>

definition keeps_stamps :: "'f outreach_codec \<Rightarrow> bool" where
  "keeps_stamps C \<longleftrightarrow> (\<forall>st. valid_utf8 (encode_store C st) \<and>
     (\<exists>st'. decode_store C (encode_store C st) = Some st' \<and> map stamp (sent st') = map stamp (sent st)))"

definition recorded :: "'f outreach_codec \<Rightarrow> outreach_disk \<Rightarrow> (salience_kind \<times> int) list option" where
  "recorded C d =
     (case outreach_file d of
        None \<Rightarrow> Some []
      | Some t \<Rightarrow> if valid_utf8 t then map_option (\<lambda>st. map stamp (sent st)) (decode_store C t) else None)"

definition of_day :: "'f outreach_env \<Rightarrow> salience_kind \<Rightarrow> int \<Rightarrow> (salience_kind \<times> int) list \<Rightarrow> nat" where
  "of_day E k now xs = length (filter (\<lambda>(k', t). k' = k \<and> local_day E t = local_day E now) xs)"

lemma of_day_append [simp]: "of_day E k now (xs @ ys) = of_day E k now xs + of_day E k now ys"
  by (simp add: of_day_def)

lemma recorded_written: "keeps_stamps C \<Longrightarrow> recorded C (d\<lparr>outreach_file := Some (encode_store C st)\<rparr>) = Some (map stamp (sent st))"
  by (auto simp: keeps_stamps_def recorded_def)

lemma load_recorded:
  assumes "recorded C d = Some ks"
  shows "load_strict C io d = (Inr st, d1) \<Longrightarrow> map stamp (sent st) = ks \<and> d1 = d"
    and "load_strict C io d = (Inl e, d1) \<Longrightarrow> d1 = d"
  using assms by (auto simp: load_strict_def recorded_def store_default_def split: option.splits if_splits)

lemma delta_recorded:
  assumes "recorded C d = Some ks" and "keeps_stamps C" and "\<And>st. map stamp (sent (snd (f st))) = map stamp (sent st)"
  shows "recorded C (snd (outreach_delta C io f d)) = Some ks"
proof (cases "lock_error io")
  case None
  obtain y d1 where l: "load_strict C io d = (y, d1)" by fastforce
  show ?thesis
  proof (cases y)
    case (Inl e)
    have "d1 = d" using load_recorded(2) [OF assms(1) l [unfolded Inl]] .
    with Inl show ?thesis using None l assms(1) by (simp add: outreach_delta_def)
  next
    case (Inr st)
    then have st: "map stamp (sent st) = ks" "d1 = d" using load_recorded(1) [OF assms(1)] l by auto
    show ?thesis
      using None l Inr assms(1) assms(3) [of st] st recorded_written [OF assms(2)]
      by (auto simp: outreach_delta_def split: prod.splits option.splits)
  qed
qed (use assms(1) in \<open>simp add: outreach_delta_def\<close>)

lemma mark_first_stamps [simp]: "map stamp (snd (mark_first i now r ms)) = map stamp ms"
  by (induction ms) (auto simp: stamp_def split: prod.splits)

lemma mark_responded_stamps [simp]: "map stamp (sent (snd (mark_responded i now r st))) = map stamp (sent st)"
proof -
  have "sent (snd (mark_responded i now r st)) = snd (mark_first i now r (sent st))"
    by (simp add: mark_responded_def split: prod.split)
  then show ?thesis by simp
qed

lemma of_stamps: "of_day E k now (map stamp ms) = length (filter (\<lambda>m. sent_kind m = k \<and> local_day E (sent_at m) = local_day E now) ms)"
  by (induction ms) (auto simp: of_day_def stamp_def)

lemma u32_of_less: "u32_of n < c \<Longrightarrow> n < unat c"
proof (cases "n < 2 ^ 32")
  case True
  then show "u32_of n < c \<Longrightarrow> n < unat c"
    by (simp add: u32_of_def word_less_nat_alt unat_of_nat take_bit_nat_eq_self)
next
  case False
  then have "u32_of n = - 1" by (simp add: u32_of_def)
  moreover have "\<not> (- 1 < c)" using word_n1_ge [of c] by (simp add: not_less)
  ultimately show "u32_of n < c \<Longrightarrow> n < unat c" by simp
qed

lemma effective_cap_le:
  assumes "cap_for cfg k = Some c"
  obtains c' where "effective_cap F st cfg k = Some c'" and "unat c' \<le> unat c"
proof (cases "tightening_of F st cfg k")
  case None
  then show ?thesis using that [of c] assms by (simp add: effective_cap_def)
next
  case (Some t)
  then have "tightened_cap t = c div 2"
    using assms by (auto simp: tightening_of_def Let_def split: option.splits if_splits)
  then show ?thesis using that [of "c div 2"] assms Some by (simp add: effective_cap_def unat_div)
qed

lemma clears_below_cap:
  assumes "clears E cfg ctx x st" and "cap_for cfg (cand_kind x) = Some c"
  shows "of_day E (cand_kind x) (ctx_now ctx) (map stamp (sent st)) < unat c"
proof -
  obtain c' where c': "effective_cap (floats_of E) st cfg (cand_kind x) = Some c'" "unat c' \<le> unat c"
    by (rule effective_cap_le [OF assms(2)])
  then have "sent_today E st (cand_kind x) (ctx_now ctx) < c'" using assms(1) by (simp add: clears_def)
  from u32_of_less [OF this [unfolded sent_today_def]] c'(2) show ?thesis by (simp add: of_stamps)
qed

lemma prune_map: "map f (prune_front xs n) = prune_front (map f xs) n"
  by (simp add: prune_front_def drop_map)

lemma stamp_message [simp]: "stamp (message_for E ctx x) = (cand_kind x, ctx_now ctx)"
  by (simp add: stamp_def message_for_def sent_of_def)

lemma step_recorded:
  assumes "recorded C d = Some ks" and "keeps_stamps C" and "channel_step E C cfg s d = (xs, d')"
  shows "(xs = [] \<and> recorded C d' = Some ks) \<or>
    (\<exists>k now. xs = [(k, now)] \<and> recorded C d' = Some (prune_front (ks @ xs) MAX_SENT) \<and>
       (\<forall>c. cap_for cfg k = Some c \<longrightarrow> of_day E k now ks < unat c))"
proof (cases s)
  case (Candidate ctx x)
  obtain a where a: "admit E C cfg ctx x d = (a, d')" using assms(3) by (auto simp: Candidate split: prod.splits)
  then show ?thesis
  proof (cases rule: admit_cases)
    case (admitted st st')
    have st: "map stamp (sent st) = ks" using load_recorded(1) [OF assms(1) admitted(4)] by simp
    have xs: "xs = [(cand_kind x, ctx_now ctx)]" using assms(3) a admitted(6) by (simp add: Candidate)
    have "map stamp (sent st') = prune_front (ks @ xs) MAX_SENT"
      using admitted(7) st xs by (simp add: prune_map)
    then have "recorded C d' = Some (prune_front (ks @ xs) MAX_SENT)"
      using recorded_written [OF assms(2)] admitted(8) by simp
    then show ?thesis using clears_below_cap [OF admitted(5)] st xs by auto
  next
    case (rejected st st' r)
    then show ?thesis
      using assms(3) a load_recorded(1) [OF assms(1) rejected(1)] recorded_written [OF assms(2)] by (simp add: Candidate)
  next
    case (unwritten r)
    then show ?thesis using assms(1,3) a by (simp add: Candidate)
  next
    case (aside t e)
    then have "d' = d" using load_recorded(2) [OF assms(1)] by blast
    then show ?thesis using aside(1,4) by (cases d) simp
  qed
next
  case (Answer io i r now)
  then show ?thesis using assms(3) delta_recorded [OF assms(1,2) mark_responded_stamps] by (auto simp: record_response_def)
next
  case (Notice io t now)
  then show ?thesis using assms(3) delta_recorded [OF assms(1,2), of "\<lambda>st. ((), record_announcement (tight_kind t) (tightened_cap t) now st)"]
    by (auto simp: mark_announced_def record_announcement_def)
qed

lemma run_recorded:
  assumes "keeps_stamps C" and "run_channel E C cfg ss d = (xs, d')" and "recorded C d = Some ks"
    and "length ks + length xs \<le> MAX_SENT" and "cap_for cfg k = Some c" and "of_day E k now ks \<le> unat c"
  shows "of_day E k now (ks @ xs) \<le> unat c"
  using assms(2-4,6)
proof (induction ss arbitrary: d ks xs)
  case (Cons s ss)
  obtain us d1 where u: "channel_step E C cfg s d = (us, d1)" by fastforce
  obtain vs where v: "run_channel E C cfg ss d1 = (vs, d')" "xs = us @ vs" using Cons.prems(1) u by (auto split: prod.splits)
  have n: "length (ks @ us) + length vs \<le> MAX_SENT" using Cons.prems(3) v(2) by simp
  from step_recorded [OF Cons.prems(2) assms(1) u] have "recorded C d1 = Some (ks @ us) \<and> of_day E k now (ks @ us) \<le> unat c"
  proof (elim disjE exE conjE)
    fix k' now'
    assume us: "us = [(k', now')]" and r: "recorded C d1 = Some (prune_front (ks @ us) MAX_SENT)"
      and below: "\<forall>c. cap_for cfg k' = Some c \<longrightarrow> of_day E k' now' ks < unat c"
    have "prune_front (ks @ us) MAX_SENT = ks @ us" using n by (simp add: prune_front_def)
    moreover have "of_day E k now (ks @ us) \<le> unat c"
    proof (cases "k' = k \<and> local_day E now' = local_day E now")
      case True
      then have "of_day E k now ks < unat c" using below assms(5) by (simp add: of_day_def)
      then show ?thesis using us by (simp add: of_day_def)
    next
      case False
      then show ?thesis using us Cons.prems(4) by (auto simp: of_day_def)
    qed
    ultimately show ?thesis using r by simp
  qed (use Cons.prems(4) in simp)
  with Cons.IH [OF v(1) _ n] show ?case by (simp add: v(2))
qed simp

text \<open>
  C26: A kind's daily cap holds: whatever candidates come, at whatever times and with whatever write
  errors, and whatever answers and notices come between them, a pulse that has recorded at most
  \<open>MAX_SENT\<close> messages has sent at most \<open>cap\<close> of a capped kind on any one local day.
\<close>
theorem daily_cap_holds:
  assumes "keeps_stamps C" and "run_channel E C cfg ss \<lparr>outreach_file = None, corrupt_files = []\<rparr> = (xs, d')"
    and "length xs \<le> MAX_SENT" and "cap_for cfg k = Some c"
  shows "length (filter (\<lambda>(k', t). k' = k \<and> local_day E t = local_day E now) xs) \<le> unat c"
  using run_recorded [OF assms(1,2) _ _ assms(4), of "[]" now] assms(3) by (simp add: recorded_def of_day_def)

subsection \<open>Feedback\<close>

lemma effective_cap_sent: "sent st' = sent st \<Longrightarrow> effective_cap F st' cfg k = effective_cap F st cfg k"
  using tightening_sent [of st' st] by (simp add: effective_cap_def cong: option.case_cong)

lemma capped_at:
  assumes "admit E C cfg ctx x d = (a, d')" and "the_decision a = Rejected (DailyCapReached c n)"
  obtains st where "load_strict C (ctx_io ctx) d = (Inr st, d)"
    and "effective_cap (floats_of E) st cfg (cand_kind x) = Some c" and "n = sent_today E st (cand_kind x) (ctx_now ctx)"
    and "pending_notice a = fst (reconcile_tightening (floats_of E) cfg (cand_kind x) st)"
  using assms(1)
proof (cases rule: admit_cases)
  case (rejected st st' r)
  obtain b st2 where i: "admit_in E cfg ctx x st = (b, st2)" by fastforce
  have b: "b = a"
    using assms rejected(1) i by (auto simp: admit_def outreach_delta_def split: if_splits option.splits)
  obtain notice st1 where q: "reconcile_tightening (floats_of E) cfg (cand_kind x) st = (notice, st1)" by fastforce
  have s: "sent st1 = sent st" using reconcile_keeps [of "floats_of E" cfg "cand_kind x" st] by (simp add: q)
  have "fst (decide E cfg ctx x st1) = Rejected (DailyCapReached c n)"
    using i assms(2) b by (auto simp: admit_in_def q split: prod.splits)
  then have "effective_cap (floats_of E) st1 cfg (cand_kind x) = Some c \<and> n = sent_today E st1 (cand_kind x) (ctx_now ctx)"
    by (auto simp: decide_def check_quiet_hours_def check_cap_def evaluate_gate_def Let_def split: sum.splits option.splits if_splits)
  moreover have "sent_today E st1 = sent_today E st" using s by (intro ext) (simp add: sent_today_def)
  ultimately show ?thesis using that rejected(1,8) effective_cap_sent [OF s] by metis
next
  case (aside t e)
  then show ?thesis using assms(2) by simp
next
  case (unwritten r)
  then show ?thesis using assms by (auto simp: admit_def outreach_delta_def split: if_splits option.splits sum.splits prod.splits)
qed (use assms(2) in simp)

text \<open>
  The channel is never throttled in silence: when a candidate is refused by less than the
  configured cap, that cap is its half, and either a notice of exactly this tightening goes with the
  refusal or the store says it was announced before.
\<close>
theorem throttling_is_announced:
  assumes "admit E C cfg ctx x d = (a, d')" and "the_decision a = Rejected (DailyCapReached c n)"
    and "cap_for cfg (cand_kind x) = Some base" and "c \<noteq> base"
  shows "c = base div 2 \<and>
    ((\<exists>t. pending_notice a = Some t \<and> tight_kind t = cand_kind x \<and> tightened_cap t = c) \<or>
     (\<exists>st ann. load_strict C (ctx_io ctx) d = (Inr st, d) \<and> announced st (cand_kind x) = Some ann \<and> ann_cap ann = c))"
proof -
  obtain st where st: "load_strict C (ctx_io ctx) d = (Inr st, d)"
    "effective_cap (floats_of E) st cfg (cand_kind x) = Some c"
    "pending_notice a = fst (reconcile_tightening (floats_of E) cfg (cand_kind x) st)"
    using capped_at [OF assms(1,2)] by metis
  then obtain t where t: "tightening_of (floats_of E) st cfg (cand_kind x) = Some t" "tightened_cap t = c"
    using assms(3,4) by (auto simp: effective_cap_def split: option.splits)
  moreover have "tight_kind t = cand_kind x \<and> tightened_cap t = base div 2"
    using t(1) assms(3) by (auto simp: tightening_of_def split: option.splits if_splits)
  ultimately show ?thesis using st by (auto simp: reconcile_tightening_def split: option.splits if_splits)
qed

text \<open>An answer, message by message.\<close>

definition answered :: "'f sent_message \<Rightarrow> 'f sent_message \<Rightarrow> bool" where
  "answered m m' \<longleftrightarrow> sent_kind m' = sent_kind m \<and> (responded m \<longrightarrow> responded m')"

lemma mark_first_answered:
  "mark_first i now r ms = (found, ms') \<Longrightarrow> list_all2 answered ms ms' \<and> (found \<longleftrightarrow> i \<in> sent_id ` set ms) \<and> (\<not> found \<longrightarrow> ms' = ms)"
  by (induction ms arbitrary: found ms')
    (auto simp: answered_def responded_def list_all2_refl split: if_splits prod.splits option.splits)

lemma answered_filter:
  "list_all2 answered ms ms' \<Longrightarrow> list_all2 answered (filter (\<lambda>m. sent_kind m = k) ms) (filter (\<lambda>m. sent_kind m = k) ms')"
  by (induction rule: list_all2_induct) (auto simp: answered_def)

lemma answered_count: "list_all2 answered ms ms' \<Longrightarrow> length (filter responded ms) \<le> length (filter responded ms')"
  by (induction rule: list_all2_induct) (auto simp: answered_def)

lemma mark_first_again:
  "mark_first i now r ms = (True, ms') \<Longrightarrow> mark_first i later None ms' = (True, ms')"
  by (induction ms arbitrary: ms') (auto split: if_splits prod.splits option.splits)

text \<open>Division by the length of the window is monotone.\<close>

definition ratio_mono :: "'f floats \<Rightarrow> bool" where
  "ratio_mono F \<longleftrightarrow> (\<forall>a b n y. a \<le> b \<and> f_le F y (ratio F a n) \<longrightarrow> f_le F y (ratio F b n))"

text \<open>
  An answer counts once and never against the pulse: an unknown identifier changes nothing, a
  second answer without a rating changes nothing, and no answer lowers the cap in force of any kind.
\<close>
theorem answer_never_tightens:
  assumes "ratio_mono F" and "mark_responded i now r st = (found, st')"
  shows "(found \<longleftrightarrow> i \<in> sent_id ` set (sent st)) \<and> (\<not> found \<longrightarrow> st' = st) \<and>
    (found \<longrightarrow> mark_responded i later None st' = (True, st')) \<and>
    (case (effective_cap F st cfg k, effective_cap F st' cfg k) of
       (Some c, Some c') \<Rightarrow> c \<le> c' | (None, None) \<Rightarrow> True | _ \<Rightarrow> False)"
proof -
  obtain ms where m: "mark_first i now r (sent st) = (found, ms)" and st': "st' = st\<lparr>sent := ms\<rparr>"
    using assms(2) by (auto simp: mark_responded_def split: prod.splits)
  note a = mark_first_answered [OF m]
  let ?w = "feedback_window cfg"
  have w: "list_all2 answered (recent st k ?w) (recent st' k ?w)"
    using answered_filter [OF conjunct1 [OF a], of k] list_all2_lengthD [OF answered_filter [OF conjunct1 [OF a], of k]]
    by (simp add: recent_def prune_front_def st')
  have stays: "tightening_of F st' cfg k = None" if "tightening_of F st cfg k = None"
    using that assms(1) answered_count [OF w] list_all2_lengthD [OF w]
    by (auto simp: tightening_of_def response_rate_def ratio_mono_def Let_def split: option.splits if_splits)
  have "case (effective_cap F st cfg k, effective_cap F st' cfg k) of
       (Some c, Some c') \<Rightarrow> c \<le> c' | (None, None) \<Rightarrow> True | _ \<Rightarrow> False"
  proof (cases "cap_for cfg k")
    case (Some c)
    have half: "tightened_cap t = c div 2" if "tightening_of F s cfg k = Some t" for s t
      using that Some by (auto simp: tightening_of_def split: option.splits if_splits)
    have "c div 2 \<le> c" by (simp add: word_le_nat_alt unat_div)
    then show ?thesis using Some stays half [of st] half [of st']
      by (cases "tightening_of F st cfg k"; cases "tightening_of F st' cfg k") (simp_all add: effective_cap_def)
  qed (simp add: effective_cap_def)
  moreover have "\<not> found \<longrightarrow> st' = st" using a by (simp add: st')
  moreover have "found \<longrightarrow> mark_responded i later None st' = (True, st')"
    using m mark_first_again [of i now r "sent st" ms later] by (auto simp: mark_responded_def st')
  ultimately show ?thesis using a by blast
qed

subsection \<open>What the bounds of the store and of the corpus cost\<close>

lemma record_sent_fold:
  "sent (fold record_sent ms st) = (if ms = [] then sent st else prune_front (sent st @ ms) MAX_SENT)"
proof (induction ms rule: rev_induct)
  case (snoc m ms)
  have "prune_front (prune_front xs n @ [y]) n = prune_front (xs @ [y]) n" if "0 < n" for xs :: "'a sent_message list" and y n
    using that by (cases "n \<le> length xs") (auto simp: prune_front_def Suc_diff_le)
  then show ?case using snoc by (auto simp: record_sent_def MAX_SENT_def)
qed simp

text \<open>\<open>Blocking\<close> has no cap: as many of its messages as the log holds push out what the other caps count.\<close>

lemma blocking_resets_the_cap:
  assumes "length ms = MAX_SENT" and "\<forall>m \<in> set ms. sent_kind m = Blocking" and "k \<noteq> Blocking"
  shows "sent_today E (fold record_sent ms st) k now = 0"
proof -
  have "ms \<noteq> []" using assms(1) by (auto simp: MAX_SENT_def)
  then have "sent (fold record_sent ms st) = ms" using assms(1) by (simp add: record_sent_fold prune_front_def)
  moreover have "filter (\<lambda>m. sent_kind m = k \<and> local_day E (sent_at m) = local_day E now) ms = []"
    using assms(2,3) by (auto simp: filter_empty_conv)
  ultimately show ?thesis by (simp add: sent_today_def u32_of_def)
qed

text \<open>A corrupt file costs one change; the next one starts with an empty store.\<close>

lemma corrupt_file_resets:
  assumes "outreach_file d = Some t" and "load_strict C io d = (Inl e, d1)" and "d1 \<noteq> d"
  shows "load_strict C io' d1 = (Inr store_default, d1)"
  using assms by (auto simp: load_strict_def split: option.splits if_splits)

text \<open>Enough headings in the journal hide every message that was sent from the check for novelty.\<close>

lemma journal_hides_what_was_sent:
  assumes "MAX_CORPUS \<le> length (journal_headings U docs)"
  shows "build_corpus U docs st = build_corpus U docs store_default"
  using assms by (simp add: build_corpus_def prune_front_def sent_headlines_def store_default_def)

subsection \<open>Concrete instances\<close>

instance salience_kind :: countable by countable_datatype

definition demo_floats :: "nat floats" where
  "demo_floats = \<lparr>f_le = (\<le>), ratio = (\<lambda>a b. a * 100 div b), unit_interval = (\<lambda>x. x \<le> 100), f_text = (\<lambda>_. ''?''), f_fixed = (\<lambda>_. ''?''),
     f_half = 50, f_clamp = min 100, as_f64 = (\<lambda>_. None)\<rparr>"

definition demo_channel :: "nat outreach_env" where
  "demo_channel = \<lparr>out_chars = \<lparr>lowercase = id, alphanumeric = \<lambda>c. True, whitespace = \<lambda>c. c = '' ''\<rparr>,
     floats_of = demo_floats, cost_lines = (\<lambda>_. [''read'']), uuids = (\<lambda>_. []), urls = (\<lambda>_. [''http://a'']),
     file_lines = (\<lambda>_. []), command_span = (\<lambda>_. None), local_day = (\<lambda>t. t div 24), local_hour = (\<lambda>t. word_of_int (t mod 24)),
     max_similarity = (\<lambda>_ _. Inr 0)\<rparr>"

definition unstamp :: "salience_kind \<times> int \<Rightarrow> nat sent_message" where
  "unstamp = (\<lambda>(k, t). \<lparr>sent_id = ''a'', sent_kind = k, sent_thread = None, sent_headline = [], sent_evidence = [],
     sent_confidence = 0, sent_cost = Read, sent_at = t, responded_at = None, sent_rating = None\<rparr>)"

definition demo_stamps :: "nat outreach_codec" where
  "demo_stamps = \<lparr>encode_store = (\<lambda>st. decimal (to_nat (map stamp (sent st)))),
     decode_store = (\<lambda>t. Some \<lparr>sent = map unstamp (from_nat (digits_value t)), rejections = [], announced_tightenings = []\<rparr>)\<rparr>"

lemma demo_stamps_ok: "keeps_stamps demo_stamps"
proof -
  have "valid_utf8 (decimal n)" for n
  proof (rule valid_utf8_ascii)
    fix c assume "c \<in> set (decimal n)"
    from decimal_digits [OF this] show "byte c < 128" by (simp add: ascii_digit_def)
  qed
  moreover have "stamp (unstamp x) = x" for x by (cases x) (simp add: stamp_def unstamp_def)
  ultimately show ?thesis by (simp add: keeps_stamps_def demo_stamps_def digits_value_decimal)
qed

definition demo_caps :: "nat outreach_config" where
  "demo_caps = \<lparr>outreach_enabled = True, quiet_hours_start = 23, quiet_hours_end = 8, cap_finding = 2, cap_development = 1,
     cap_callback = 2, feedback_window = 2, response_rate_floor = 30, novelty_similarity_max = 85\<rparr>"

definition demo_outreach_io :: outreach_io where
  "demo_outreach_io = \<lparr>lock_error = None, read_error = None, rename_fails = False, write_error = None, corrupt_text = ''bad''\<rparr>"

definition demo_context :: "int \<Rightarrow> admission_context" where
  "demo_context now = \<lparr>ctx_now = now, ctx_docs = (\<lambda>_. None), ctx_resolved = [], ctx_uuid = ''1234'', ctx_io = demo_outreach_io\<rparr>"

definition demo_candidate :: "nat outreach_candidate" where
  "demo_candidate = \<lparr>cand_kind = Finding, thread_id = None, headline = ''h'', evidence = ''e'', confidence = 50\<rparr>"

definition no_file :: outreach_disk where
  "no_file = \<lparr>outreach_file = None, corrupt_files = []\<rparr>"

lemma demo_clears: "clears demo_channel demo_caps (demo_context 12) demo_candidate store_default"
  by (simp add: clears_def demo_channel_def demo_caps_def demo_context_def demo_candidate_def store_default_def is_quiet_hour_def
        effective_cap_def cap_for_def tightening_of_def response_rate_def recent_def prune_front_def sent_today_def u32_of_def
        demo_floats_def find_referent_def stated_cost_def first_some_def List.map_filter_def trim_def
        cost_from_label_def starts_with_def ascii_lower_def byte_def continuation_def)

theorem admitted_iff_cleared_witness:
  "\<exists>a d' i. admit demo_channel demo_stamps demo_caps (demo_context 12) demo_candidate no_file = (a, d') \<and> the_decision a = Admitted i"
proof -
  obtain a d' where a: "admit demo_channel demo_stamps demo_caps (demo_context 12) demo_candidate no_file = (a, d')" by fastforce
  have "load_strict demo_stamps demo_outreach_io no_file = (Inr store_default, no_file)"
    by (simp add: load_strict_def no_file_def)
  moreover note demo_clears
  ultimately have "\<exists>i. the_decision a = Admitted i"
    using admitted_iff_cleared [OF a] by (auto simp: demo_caps_def demo_context_def demo_outreach_io_def)
  with a show ?thesis by blast
qed

lemma run_length: "run_channel E C cfg ss d = (xs, d') \<Longrightarrow> length xs \<le> length ss"
proof (induction ss arbitrary: d xs)
  case (Cons s ss)
  obtain us d1 where u: "channel_step E C cfg s d = (us, d1)" by fastforce
  then have "length us \<le> 1" by (cases s) (auto split: prod.splits decision.splits)
  then show ?case using Cons u by (fastforce split: prod.splits)
qed simp

theorem daily_cap_holds_witness:
  "\<exists>xs d'. run_channel demo_channel demo_stamps demo_caps
      [Candidate (demo_context 12) demo_candidate, Candidate (demo_context 13) demo_candidate, Candidate (demo_context 14) demo_candidate]
      \<lparr>outreach_file = None, corrupt_files = []\<rparr> = (xs, d') \<and>
    length (filter (\<lambda>(k, t). k = Finding \<and> local_day demo_channel t = local_day demo_channel 0) xs) \<le> 2"
proof -
  obtain xs d' where r: "run_channel demo_channel demo_stamps demo_caps
      [Candidate (demo_context 12) demo_candidate, Candidate (demo_context 13) demo_candidate, Candidate (demo_context 14) demo_candidate]
      \<lparr>outreach_file = None, corrupt_files = []\<rparr> = (xs, d')" by fastforce
  have "length xs \<le> MAX_SENT" using run_length [OF r] by (simp add: MAX_SENT_def)
  moreover have "cap_for demo_caps Finding = Some 2" by (simp add: cap_for_def demo_caps_def)
  ultimately have "length (filter (\<lambda>(k, t). k = Finding \<and> local_day demo_channel t = local_day demo_channel 0) xs) \<le> unat (2 :: u32)"
    by (rule daily_cap_holds [OF demo_stamps_ok r])
  with r show ?thesis by auto
qed

text \<open>Two findings of today that nobody answered.\<close>

definition demo_unanswered :: "nat outreach_store" where
  "demo_unanswered = \<lparr>sent = [unstamp (Finding, 12), unstamp (Finding, 13)], rejections = [], announced_tightenings = []\<rparr>"

definition demo_fixed :: "nat outreach_codec" where
  "demo_fixed = \<lparr>encode_store = (\<lambda>_. []), decode_store = (\<lambda>_. Some demo_unanswered)\<rparr>"

theorem throttling_is_announced_witness:
  "\<exists>a d' t. admit demo_channel demo_fixed demo_caps (demo_context 14) demo_candidate (no_file\<lparr>outreach_file := Some []\<rparr>) = (a, d') \<and>
    the_decision a = Rejected (DailyCapReached 1 2) \<and> pending_notice a = Some t \<and> tightened_cap t = 1"
proof -
  obtain a d' where a: "admit demo_channel demo_fixed demo_caps (demo_context 14) demo_candidate
    (no_file\<lparr>outreach_file := Some []\<rparr>) = (a, d')" by fastforce
  have l: "load_strict demo_fixed demo_outreach_io (no_file\<lparr>outreach_file := Some []\<rparr>) = (Inr demo_unanswered, no_file\<lparr>outreach_file := Some []\<rparr>)"
    by (simp add: load_strict_def demo_fixed_def demo_outreach_io_def)
  have t: "tightening_of demo_floats demo_unanswered demo_caps Finding =
      Some \<lparr>tight_kind = Finding, base_cap = 2, tightened_cap = 1, tight_rate = 0, tight_floor = 30, tight_window = 2\<rparr>"
    by (simp add: tightening_of_def cap_for_def demo_caps_def response_rate_def recent_def prune_front_def demo_unanswered_def
        unstamp_def responded_def demo_floats_def)
  have n: "reconcile_tightening demo_floats demo_caps Finding demo_unanswered =
      (Some \<lparr>tight_kind = Finding, base_cap = 2, tightened_cap = 1, tight_rate = 0, tight_floor = 30, tight_window = 2\<rparr>, demo_unanswered)"
  proof -
    have "announced demo_unanswered Finding = None" by (simp add: announced_def demo_unanswered_def)
    then show ?thesis by (simp add: reconcile_tightening_def t)
  qed
  have c: "effective_cap demo_floats demo_unanswered demo_caps Finding = Some 1" "cap_for demo_caps Finding = Some 2"
    using t by (simp_all add: effective_cap_def cap_for_def demo_caps_def)
  have "fst (decide demo_channel demo_caps (demo_context 14) demo_candidate demo_unanswered) = Rejected (DailyCapReached 1 2)"
    using c(1) by (simp add: decide_def check_quiet_hours_def is_quiet_hour_def check_cap_def sent_today_def u32_of_def demo_channel_def
        demo_caps_def demo_context_def demo_candidate_def demo_unanswered_def unstamp_def)
  then have dec: "the_decision a = Rejected (DailyCapReached 1 2)"
    using a l n by (auto simp: admit_def outreach_delta_def admit_in_def demo_context_def demo_outreach_io_def demo_caps_def
        demo_channel_def demo_candidate_def split: prod.splits)
  have "\<not> (\<exists>st ann. load_strict demo_fixed (ctx_io (demo_context 14)) (no_file\<lparr>outreach_file := Some []\<rparr>) =
      (Inr st, no_file\<lparr>outreach_file := Some []\<rparr>) \<and> announced st Finding = Some ann \<and> ann_cap ann = 1)"
    using l by (auto simp: demo_context_def announced_def demo_unanswered_def)
  with throttling_is_announced [OF a dec] c(2) dec a show ?thesis by (auto simp: demo_candidate_def)
qed

theorem answer_never_tightens_witness:
  "\<exists>st'. mark_responded ''a'' 15 (Some Useful) demo_unanswered = (True, st') \<and>
    mark_responded ''a'' 16 None st' = (True, st')"
proof -
  obtain found st' where r: "mark_responded ''a'' 15 (Some Useful) demo_unanswered = (found, st')" by fastforce
  have "ratio_mono demo_floats"
    by (auto simp: ratio_mono_def demo_floats_def intro: order_trans [OF _ div_le_mono [OF mult_le_mono1]])
  from answer_never_tightens [OF this r] have "found \<longleftrightarrow> ''a'' \<in> sent_id ` set (sent demo_unanswered)"
      "found \<longrightarrow> mark_responded ''a'' 16 None st' = (True, st')" by blast+
  with r show ?thesis by (simp add: demo_unanswered_def unstamp_def)
qed

end
