(* ===== verification/EventSafety.thy ===== *)
theory EventSafety
  imports Events OutreachSafety "HOL-Library.Sublist"
begin

text \<open>
  The listener composed with the outreach channel and the intent queue: what an event can do to them.
\<close>

subsection \<open>One event\<close>

fun candidate_of :: "'f pulse_event \<Rightarrow> 'f outreach_candidate option" where
  "candidate_of (Salience x) = Some x"
| "candidate_of _ = None"

text \<open>An event that is shed, or is no candidate, moves the breaker at most.\<close>

lemma handle_shed:
  assumes "handle_event K ch e L = (queued, L')" and "candidate_of e = None \<or> ev_isolated ch"
  shows "\<not> queued \<and> L' = L\<lparr>breaker := breaker L'\<rparr>"
  using assms
  by (cases e) (auto simp: handle_event_def Let_def split: prod.splits breaker_decision.splits if_splits)

lemma push_event_fields:
  assumes "push_event K ch i L = (pushed, L')"
  shows "channel_disk L' = channel_disk L" and "eval_state L' = eval_state L" and "eval_file L' = eval_file L"
    and "breaker L' = breaker L"
    and "\<exists>y. queue_delta (ls_queue_codec K) (ev_queue_io ch) (push_list i (ls_max_queue K)) (intents_file L) = (y, intents_file L')"
proof -
  let ?C = "ls_queue_codec K" and ?io = "ev_queue_io ch" and ?m = "ls_max_queue K"
  obtain y f where d: "save_delta ?C ?io (\<lambda>q. snd (push i ?m q)) (intents_file L) = (y, f)" by fastforce
  then have f: "intents_file L' = f" "channel_disk L' = channel_disk L" "eval_state L' = eval_state L" "eval_file L' = eval_file L"
      "breaker L' = breaker L"
    using assms by (auto simp: push_event_def Let_def split: sum.splits)
  show "channel_disk L' = channel_disk L" "eval_state L' = eval_state L" "eval_file L' = eval_file L" "breaker L' = breaker L"
    by (fact f)+
  show "\<exists>y. queue_delta ?C ?io (push_list i ?m) (intents_file L) = (y, intents_file L')"
    using save_delta_queue [of ?C ?io "push_list i ?m" "intents_file L" y f] d by (simp add: push_delta f(1))
qed

lemma handle_candidate:
  assumes "handle_event K ch (Salience x) L = (queued, L')" and "\<not> ev_isolated ch"
    and "admit_salience K ch x (channel_disk L) = (ok, d)"
  shows "channel_disk L' = d" and "\<not> ok \<Longrightarrow> \<not> queued \<and> L' = L\<lparr>channel_disk := d\<rparr>"
    and "ok \<Longrightarrow> \<exists>y. queue_delta (ls_queue_codec K) (ev_queue_io ch)
       (push_list (salience_intent (floats_of (ls_env K)) (ev_uuid ch) (ev_created ch) x) (ls_max_queue K)) (intents_file L) =
       (y, intents_file L')"
proof -
  let ?i = "salience_intent (floats_of (ls_env K)) (ev_uuid ch) (ev_created ch) x"
  show no: "\<not> ok \<Longrightarrow> \<not> queued \<and> L' = L\<lparr>channel_disk := d\<rparr>"
    using assms by (auto simp: handle_event_def Let_def)
  obtain pushed L3 where p: "push_event K ch ?i (L\<lparr>channel_disk := d\<rparr>) = (pushed, L3)" by fastforce
  have yes: "L' = (if pushed then note_fire ch (event_type (Salience x)) L3 else L3)" if ok
    using assms that p by (auto simp: handle_event_def Let_def split: bool.splits)
  note f = push_event_fields [OF p]
  show "channel_disk L' = d" using no yes f(1) by (cases ok) (auto simp: note_fire_def Let_def)
  show "ok \<Longrightarrow> \<exists>y. queue_delta (ls_queue_codec K) (ev_queue_io ch) (push_list ?i (ls_max_queue K)) (intents_file L) = (y, intents_file L')"
    using yes f(5) by (auto simp: note_fire_def Let_def)
qed

text \<open>An intent that fits counts as queued although the queue file could not be written.\<close>

lemma unsaved_intent_counts_as_queued:
  assumes "push_event K ch i L = (pushed, L')" and "q_locks (ev_queue_io ch)" and "\<not> q_writes (ev_queue_io ch)"
    and "fst (push i (ls_max_queue K) (load (ls_queue_codec K) (ev_queue_io ch) (intents_file L)))"
  shows "pushed \<and> intents_file L' = intents_file L \<and> shared_queue L' = shared_queue L"
proof -
  have "rooted (snd (push i (ls_max_queue K) (load (ls_queue_codec K) (ev_queue_io ch) (intents_file L))))"
    by (simp add: push_def)
  then show ?thesis using assms by (auto simp: push_event_def save_delta_def save_def Let_def split: option.splits sum.splits)
qed

text \<open>
  Only an admitted message reaches the intent queue: an event the pulse raised about itself, any
  other event that is no candidate and whatever arrives in isolation leaves queue, outreach record
  and fire records alone; a candidate is queued only when the outreach admission let it through,
  and then the queue file gains its intent, if it fits, and nothing else.
\<close>
theorem only_admitted_outreach_is_queued:
  assumes "handle_event K ch e L = (queued, L')"
  shows "(candidate_of e = None \<or> ev_isolated ch \<longrightarrow> \<not> queued \<and> L' = L\<lparr>breaker := breaker L'\<rparr>) \<and>
    (queued \<or> intents_file L' \<noteq> intents_file L \<longrightarrow>
       (\<exists>x a d i. candidate_of e = Some x \<and> \<not> ev_isolated ch \<and>
          admit (ls_env K) (ls_codec K) (ls_outreach K) (ev_context ch) x (channel_disk L) = (a, d) \<and>
          the_decision a = Admitted i \<and>
          (q_reads (ev_queue_io ch) \<and> queue_codec_ok (ls_queue_codec K) \<longrightarrow>
             intents_file L' = intents_file L \<or>
             queue_view (ls_queue_codec K) (intents_file L') =
               push_list (salience_intent (floats_of (ls_env K)) (ev_uuid ch) (ev_created ch) x) (ls_max_queue K)
                 (queue_view (ls_queue_codec K) (intents_file L)))))"
proof (cases "candidate_of e = None \<or> ev_isolated ch")
  case True
  from handle_shed [OF assms True] have "\<not> queued" "L' = L\<lparr>breaker := breaker L'\<rparr>" by simp_all
  moreover from this(2) have "intents_file L' = intents_file L" by (metis listener.simps(4) listener.surjective listener.update_convs(1))
  ultimately show ?thesis by simp
next
  case False
  then obtain x where e: "e = Salience x" by (cases e) auto
  obtain a d1 where a: "admit (ls_env K) (ls_codec K) (ls_outreach K) (ev_context ch) x (channel_disk L) = (a, d1)" by fastforce
  obtain ok d where s: "admit_salience K ch x (channel_disk L) = (ok, d)" by fastforce
  have ok: "ok \<longleftrightarrow> (\<exists>i. the_decision a = Admitted i)" using s a by (auto simp: admit_salience_def split: decision.splits)
  note h = handle_candidate [OF assms [unfolded e] _ s]
  show ?thesis
  proof (cases ok)
    case True
    then obtain y where "queue_delta (ls_queue_codec K) (ev_queue_io ch)
       (push_list (salience_intent (floats_of (ls_env K)) (ev_uuid ch) (ev_created ch) x) (ls_max_queue K)) (intents_file L) =
       (y, intents_file L')" using h(3) False by blast
    from qs.delta_view [OF _ this] show ?thesis using e a True ok False by auto
  next
    case no: False
    with h(2) False have "\<not> queued" "intents_file L' = intents_file L" by simp_all
    then show ?thesis using False e by simp
  qed
qed

subsection \<open>A run of the listener\<close>

text \<open>The outreach channel as the listener drives it: each candidate that is not shed, and the notice that
  went out with it.\<close>

definition event_stamp :: "event_chance \<times> 'f pulse_event \<Rightarrow> (salience_kind \<times> int) list" where
  "event_stamp p = (case candidate_of (snd p) of None \<Rightarrow> [] | Some x \<Rightarrow> [(cand_kind x, ctx_now (ev_context (fst p)))])"

lemma run_channel_append:
  "run_channel E C cfg ss d = (xs, d1) \<Longrightarrow> run_channel E C cfg ts d1 = (ys, d2) \<Longrightarrow> run_channel E C cfg (ss @ ts) d = (xs @ ys, d2)"
  by (induction ss arbitrary: d xs) (auto split: prod.splits)

lemma admit_salience_steps:
  assumes "admit_salience K ch x d = (ok, d')"
  shows "\<exists>ss. run_channel (ls_env K) (ls_codec K) (ls_outreach K) ss d =
    (if ok then [(cand_kind x, ctx_now (ev_context ch))] else [], d')"
proof -
  obtain a d1 where a: "admit (ls_env K) (ls_codec K) (ls_outreach K) (ev_context ch) x d = (a, d1)" by fastforce
  have one: "channel_step (ls_env K) (ls_codec K) (ls_outreach K) (Candidate (ev_context ch) x) d =
      (if ok then [(cand_kind x, ctx_now (ev_context ch))] else [], d1)"
    using assms a by (auto simp: admit_salience_def split: decision.splits)
  consider "d' = d1" | t where "d' = snd (mark_announced (ls_codec K) (notice_io ch) t (notice_now ch) d1)"
    using assms a by (auto simp: admit_salience_def announce_tightening_def split: option.splits if_splits)
  then show ?thesis
  proof cases
    case 1
    then show ?thesis using one by (intro exI [of _ "[Candidate (ev_context ch) x]"]) simp
  next
    case (2 t)
    then show ?thesis using one
      by (intro exI [of _ "[Candidate (ev_context ch) x, Notice (notice_io ch) t (notice_now ch)]"]) simp
  qed
qed

lemma handle_refines:
  assumes "handle_event K ch e L = (queued, L')"
  shows "\<exists>ss xs. run_channel (ls_env K) (ls_codec K) (ls_outreach K) ss (channel_disk L) = (xs, channel_disk L') \<and>
    subseq xs (event_stamp (ch, e)) \<and> (queued \<longrightarrow> xs = event_stamp (ch, e))"
proof (cases "candidate_of e = None \<or> ev_isolated ch")
  case True
  from handle_shed [OF assms True] have "\<not> queued" "L' = L\<lparr>breaker := breaker L'\<rparr>" by simp_all
  moreover from this(2) have "channel_disk L' = channel_disk L" by (metis listener.select_convs(6) listener.surjective listener.update_convs(1))
  ultimately show ?thesis by (intro exI [of _ "[]"]) simp
next
  case False
  then obtain x where e: "e = Salience x" by (cases e) auto
  obtain ok d where s: "admit_salience K ch x (channel_disk L) = (ok, d)" by fastforce
  obtain ss where "run_channel (ls_env K) (ls_codec K) (ls_outreach K) ss (channel_disk L) =
    (if ok then [(cand_kind x, ctx_now (ev_context ch))] else [], d)" using admit_salience_steps [OF s] by blast
  with handle_candidate(1,2) [OF assms [unfolded e] _ s] False show ?thesis
    by (intro exI [of _ ss]) (auto simp: event_stamp_def e)
qed

lemma listener_steps:
  assumes "listen K es L = (qs, L')"
  shows "\<exists>ss xs. run_channel (ls_env K) (ls_codec K) (ls_outreach K) ss (channel_disk L) = (xs, channel_disk L') \<and>
    subseq (concat (map event_stamp qs)) xs \<and> subseq xs (concat (map event_stamp es))"
  using assms
proof (induction es arbitrary: L qs)
  case Nil
  then show ?case by (intro exI [of _ "[]"]) simp
next
  case (Cons p es)
  obtain ch e where p: "p = (ch, e)" by (cases p)
  obtain queued L1 where h: "handle_event K ch e L = (queued, L1)" by fastforce
  obtain qs1 where l: "listen K es L1 = (qs1, L')" "qs = (if queued then (ch, e) # qs1 else qs1)"
    using Cons.prems h by (auto simp: p split: prod.splits)
  obtain ss xs where s: "run_channel (ls_env K) (ls_codec K) (ls_outreach K) ss (channel_disk L) = (xs, channel_disk L1)"
      "subseq xs (event_stamp (ch, e))" "queued \<longrightarrow> xs = event_stamp (ch, e)" using handle_refines [OF h] by blast
  obtain ts ys where t: "run_channel (ls_env K) (ls_codec K) (ls_outreach K) ts (channel_disk L1) = (ys, channel_disk L')"
      "subseq (concat (map event_stamp qs1)) ys" "subseq ys (concat (map event_stamp es))" using Cons.IH [OF l(1)] by blast
  have "subseq (concat (map event_stamp qs)) (xs @ ys)"
    using s(3) t(2) l(2) by (auto intro: list_emb_append_mono list_emb_append2)
  moreover have "subseq (xs @ ys) (concat (map event_stamp (p # es)))"
    using s(2) t(3) by (simp add: p list_emb_append_mono)
  ultimately show ?case using run_channel_append [OF s(1) t(1)] by blast
qed

text \<open>
  C27: The listener is a client of the outreach channel: what any run of it does to the record of sent
  messages is a run of admissions, answers and notices, it queues only what that run admits, in this
  order, and that run admits only candidates the listener received.
\<close>
theorem listener_refines_channel:
  assumes "listen K es L = (qs, L')"
  shows "\<exists>ss xs. run_channel (ls_env K) (ls_codec K) (ls_outreach K) ss (channel_disk L) = (xs, channel_disk L') \<and>
    subseq (concat (map event_stamp qs)) xs \<and> subseq xs (concat (map event_stamp es))"
  using listener_steps [OF assms] .

text \<open>
  The caps bound what is queued: a listener of a pulse without record, whatever the events, has
  queued at most \<open>cap\<close> messages of a capped kind admitted on any one local day, as long as it
  received at most \<open>MAX_SENT\<close> candidates.
\<close>
theorem queued_outreach_within_cap:
  assumes "listen K es L = (qs, L')" and "channel_disk L = \<lparr>outreach_file = None, corrupt_files = []\<rparr>"
    and "keeps_stamps (ls_codec K)" and "length (concat (map event_stamp es)) \<le> MAX_SENT"
    and "cap_for (ls_outreach K) k = Some c"
  shows "length (filter (\<lambda>(k', t). k' = k \<and> local_day (ls_env K) t = local_day (ls_env K) now) (concat (map event_stamp qs))) \<le> unat c"
proof -
  let ?P = "\<lambda>(k', t). k' = k \<and> local_day (ls_env K) t = local_day (ls_env K) now"
  obtain ss xs where r: "run_channel (ls_env K) (ls_codec K) (ls_outreach K) ss (channel_disk L) = (xs, channel_disk L')"
    "subseq (concat (map event_stamp qs)) xs" "subseq xs (concat (map event_stamp es))"
    using listener_steps [OF assms(1)] by blast
  have "length (filter ?P (concat (map event_stamp qs))) \<le> length (filter ?P xs)"
    using r(2) by (intro list_emb_length [OF subseq_filter])
  also have "\<dots> \<le> unat c"
    using run_recorded [OF assms(3) r(1) _ _ assms(5), of "[]" now] list_emb_length [OF r(3)] assms(2,4)
    by (simp add: recorded_def of_day_def)
  finally show ?thesis .
qed

subsection \<open>Concrete instances\<close>

definition demo_listening :: "nat listener_config" where
  "demo_listening = \<lparr>ls_env = demo_channel, ls_codec = demo_stamps, ls_outreach = demo_caps, ls_queue_codec = demo_queue_codec,
     ls_max_queue = 5\<rparr>"

definition demo_chance :: event_chance where
  "demo_chance = \<lparr>ev_now = 12, ev_isolated = False, ev_context = demo_context 12, notice_delivered = True, notice_now = 12,
     notice_io = demo_outreach_io, ev_uuid = ''1234'', ev_created = 12, ev_queue_io = calm_queue, ev_mtime = (\<lambda>_. None),
     ev_fired = 12, saves_state = True, ev_fire_now = 12\<rparr>"

definition demo_listener :: listener where
  "demo_listener = \<lparr>breaker = Map.empty, eval_state = Map.empty, eval_file = None, intents_file = None,
     shared_queue = \<lparr>intents = [], rooted = True\<rparr>, channel_disk = \<lparr>outreach_file = None, corrupt_files = []\<rparr>\<rparr>"

lemma demo_admitted_salience:
  "\<exists>d. admit_salience demo_listening demo_chance demo_candidate (channel_disk demo_listener) = (True, d)"
proof -
  obtain a d where a: "admit demo_channel demo_stamps demo_caps (demo_context 12) demo_candidate no_file = (a, d)" by fastforce
  have "\<exists>i. the_decision a = Admitted i"
    using a
  proof (cases rule: admit_cases)
    case (rejected st st' r)
    then have "st = store_default" by (simp add: load_strict_def no_file_def)
    with rejected(2) demo_clears show ?thesis by simp
  next
    case (unwritten r)
    then show ?thesis by (auto simp: demo_caps_def demo_context_def demo_outreach_io_def load_strict_def no_file_def)
  qed (auto simp: no_file_def)
  with a show ?thesis
    by (auto simp: admit_salience_def demo_listening_def demo_chance_def demo_listener_def no_file_def split: option.splits)
qed

theorem only_admitted_outreach_is_queued_witness:
  "\<exists>L'. handle_event demo_listening demo_chance (Salience demo_candidate) demo_listener = (True, L') \<and>
    (\<exists>a d i. admit demo_channel demo_stamps demo_caps (demo_context 12) demo_candidate (channel_disk demo_listener) = (a, d) \<and>
      the_decision a = Admitted i)"
proof -
  obtain d where s: "admit_salience demo_listening demo_chance demo_candidate (channel_disk demo_listener) = (True, d)"
    using demo_admitted_salience by blast
  obtain q L' where h: "handle_event demo_listening demo_chance (Salience demo_candidate) demo_listener = (q, L')" by fastforce
  have q
    using h s by (auto simp: handle_event_def Let_def push_event_def demo_chance_def calm_queue_def push_def load_def
        demo_listening_def demo_listener_def split: prod.splits sum.splits if_splits)
  with only_admitted_outreach_is_queued [OF h] h show ?thesis by (auto simp: demo_listening_def demo_chance_def)
qed

theorem listener_refines_channel_witness:
  "\<exists>qs L' ss xs. listen demo_listening [(demo_chance, Salience demo_candidate)] demo_listener = (qs, L') \<and>
    run_channel demo_channel demo_stamps demo_caps ss (channel_disk demo_listener) = (xs, channel_disk L') \<and>
    subseq (concat (map event_stamp qs)) xs"
proof -
  obtain qs L' where l: "listen demo_listening [(demo_chance, Salience demo_candidate)] demo_listener = (qs, L')" by fastforce
  from listener_refines_channel [OF l] l show ?thesis unfolding demo_listening_def by auto
qed

theorem queued_outreach_within_cap_witness:
  "\<exists>qs L'. listen demo_listening [(demo_chance, Salience demo_candidate)] demo_listener = (qs, L') \<and>
    length (filter (\<lambda>(k, t). k = Finding \<and> local_day demo_channel t = local_day demo_channel 12) (concat (map event_stamp qs))) \<le> unat (2 :: u32)"
proof -
  obtain qs L' where l: "listen demo_listening [(demo_chance, Salience demo_candidate)] demo_listener = (qs, L')" by fastforce
  have c: "cap_for (ls_outreach demo_listening) Finding = Some 2" "keeps_stamps (ls_codec demo_listening)"
      "channel_disk demo_listener = \<lparr>outreach_file = None, corrupt_files = []\<rparr>"
      "length (concat (map event_stamp [(demo_chance, Salience demo_candidate)])) \<le> MAX_SENT"
    by (simp_all add: demo_listening_def cap_for_def demo_caps_def demo_stamps_ok demo_listener_def event_stamp_def MAX_SENT_def)
  from queued_outreach_within_cap [OF l c(3,2,4,1), of 12] l show ?thesis by (auto simp: demo_listening_def)
qed

end
