(* ===== verification/Health.thy ===== *)
theory Health
  imports Conversation
begin

text \<open>
  Whether the scheduled tasks are alive, \<open>src/scheduler/health.rs\<close>: what each task's last cycles did,
  the three rules that turn it into alerts and their all-clears, the file it is kept in, and what
  the status command shows of it. An instant is a number of nanoseconds, so a \<open>Duration\<close> is the
  difference of two. \<open>serde_json\<close> and chrono's date format are parameters. A \<open>BTreeMap\<close> is the list
  of its entries in the order of their keys.
\<close>

subsection \<open>Arithmetic and maps\<close>

definition saturating_inc :: "u32 \<Rightarrow> u32" where
  "saturating_inc n = (if n = - 1 then n else n + 1)"

definition saturating_mul_u64 :: "u64 \<Rightarrow> u64 \<Rightarrow> u64" where
  "saturating_mul_u64 a b = (if unat a * unat b < 2 ^ 64 then a * b else - 1)"

text \<open>\<open>BTreeMap::insert\<close>.\<close>

fun bt_insert :: "bytes \<Rightarrow> 'v \<Rightarrow> (bytes \<times> 'v) list \<Rightarrow> (bytes \<times> 'v) list" where
  "bt_insert k v [] = [(k, v)]"
| "bt_insert k v ((j, u) # m) =
     (if k < j then (k, v) # (j, u) # m else if k = j then (k, v) # m else (j, u) # bt_insert k v m)"

definition bt_ok :: "(bytes \<times> 'v) list \<Rightarrow> bool" where
  "bt_ok m \<longleftrightarrow> sorted_wrt (<) (map fst m)"

subsection \<open>The state\<close>

record outcome_record =
  at :: int
  outcome_ok :: bool

text \<open>A recovery awaiting its announcement.\<close>

record resolution =
  failures :: u32
  streak_started :: "int option"
  recovered_at :: int

record task_health =
  task_name :: bytes
  consecutive_failures :: u32
  last_success :: "int option"
  last_failure :: "int option"
  first_failure_of_streak :: "int option"
  last_alert_at :: "int option"
  alerts_sent_this_streak :: u32
  last_error :: "bytes option"
  pending_resolution :: "resolution option"
  recent_outcomes :: "outcome_record list"
  flap_last_alert_at :: "int option"
  flap_alerts_sent :: u32
  flap_baseline_at :: "int option"

definition health_default :: task_health where
  "health_default =
     \<lparr>task_name = [], consecutive_failures = 0, last_success = None, last_failure = None,
      first_failure_of_streak = None, last_alert_at = None, alerts_sent_this_streak = 0,
      last_error = None, pending_resolution = None, recent_outcomes = [],
      flap_last_alert_at = None, flap_alerts_sent = 0, flap_baseline_at = None\<rparr>"

record global_resolution =
  silent_since :: int
  silence_ended_at :: int
  ended_by :: bytes

record global_health =
  global_last_alert_at :: "int option"
  global_alerts_sent :: u32
  global_pending :: "global_resolution option"

definition global_default :: global_health where
  "global_default = \<lparr>global_last_alert_at = None, global_alerts_sent = 0, global_pending = None\<rparr>"

record task_health_file =
  created_at :: int
  tasks :: "(bytes \<times> task_health) list"
  global :: global_health

definition file_default :: "int \<Rightarrow> task_health_file" where
  "file_default now = \<lparr>created_at = now, tasks = [], global = global_default\<rparr>"

definition get :: "task_health_file \<Rightarrow> bytes \<Rightarrow> task_health option" where
  "get s task_id = map_of (tasks s) task_id"

definition OUTCOME_WINDOW_CAPACITY :: nat where "OUTCOME_WINDOW_CAPACITY = 20"

definition MAX_ERROR_LEN :: nat where "MAX_ERROR_LEN = 300"

subsection \<open>Recording outcomes\<close>

definition stored_error :: "bytes \<Rightarrow> bytes" where
  "stored_error e = safe_truncate e MAX_ERROR_LEN"

definition push_outcome :: "int \<Rightarrow> bool \<Rightarrow> task_health \<Rightarrow> task_health" where
  "push_outcome now ok h =
     (let os = recent_outcomes h @ [\<lparr>at = now, outcome_ok = ok\<rparr>]
      in h\<lparr>recent_outcomes := drop (length os - OUTCOME_WINDOW_CAPACITY) os\<rparr>)"

definition last_success_any :: "task_health_file \<Rightarrow> int option" where
  "last_success_any s =
     (case List.map_filter (last_success \<circ> snd) (tasks s) of
        [] \<Rightarrow> None | t # ts \<Rightarrow> Some (foldl max t ts))"

definition entry :: "bytes \<Rightarrow> bytes \<Rightarrow> task_health_file \<Rightarrow> task_health" where
  "entry task_id name s =
     (let h = (case get s task_id of None \<Rightarrow> health_default | Some h \<Rightarrow> h)
      in if name = [] then h else h\<lparr>task_name := name\<rparr>)"

definition put :: "bytes \<Rightarrow> task_health \<Rightarrow> task_health_file \<Rightarrow> task_health_file" where
  "put task_id h s = s\<lparr>tasks := bt_insert task_id h (tasks s)\<rparr>"

text \<open>The part of \<open>record_success\<close> and \<open>record_failure\<close> that is about the task's own entry.\<close>

definition health_success :: "int \<Rightarrow> task_health \<Rightarrow> task_health" where
  "health_success now h =
     push_outcome now True
       (h\<lparr>pending_resolution :=
            (if 0 < alerts_sent_this_streak h
             then Some \<lparr>failures = consecutive_failures h, streak_started = first_failure_of_streak h,
                        recovered_at = now\<rparr>
             else pending_resolution h),
          consecutive_failures := 0, first_failure_of_streak := None, last_alert_at := None,
          alerts_sent_this_streak := 0, last_success := Some now\<rparr>)"

definition health_failure :: "bytes \<Rightarrow> int \<Rightarrow> task_health \<Rightarrow> task_health" where
  "health_failure e now h =
     (let h1 = (if consecutive_failures h = 0
                then h\<lparr>first_failure_of_streak := Some now, last_alert_at := None,
                       alerts_sent_this_streak := 0\<rparr>
                else h)
      in push_outcome now False
           (h1\<lparr>consecutive_failures := saturating_inc (consecutive_failures h1),
               last_failure := Some now, last_error := Some (stored_error e)\<rparr>))"

definition record_success :: "bytes \<Rightarrow> bytes \<Rightarrow> int \<Rightarrow> task_health_file \<Rightarrow> task_health_file" where
  "record_success task_id name now s =
     (let silence_alerted = 0 < global_alerts_sent (global s);
          since = (case last_success_any s of None \<Rightarrow> created_at s | Some t \<Rightarrow> t)
      in (put task_id (health_success now (entry task_id name s)) s)
           \<lparr>global := global_default\<lparr>global_pending :=
              (if silence_alerted
               then Some \<lparr>silent_since = since, silence_ended_at = now, ended_by = task_id\<rparr>
               else None)\<rparr>\<rparr>)"

definition record_failure :: "bytes \<Rightarrow> bytes \<Rightarrow> bytes \<Rightarrow> int \<Rightarrow> task_health_file \<Rightarrow> task_health_file" where
  "record_failure task_id name e now s = put task_id (health_failure e now (entry task_id name s)) s"

definition failure_is_news_for :: "task_health option \<Rightarrow> bytes \<Rightarrow> bool" where
  "failure_is_news_for h e \<longleftrightarrow>
     (case h of
        None \<Rightarrow> True
      | Some h \<Rightarrow> consecutive_failures h = 0 \<or> last_error h \<noteq> Some (stored_error e))"

definition failure_is_news :: "task_health_file \<Rightarrow> bytes \<Rightarrow> bytes \<Rightarrow> bool" where
  "failure_is_news s task_id e \<longleftrightarrow> failure_is_news_for (get s task_id) e"

definition streak_of :: "task_health_file \<Rightarrow> bytes \<Rightarrow> u32" where
  "streak_of s task_id = (case get s task_id of None \<Rightarrow> 0 | Some h \<Rightarrow> consecutive_failures h)"

subsection \<open>The rules\<close>

record liveness_config =
  liveness_enabled :: bool
  alert_after_consecutive_failures :: u32
  global_silence_alert_hours :: u64
  alert_backoff_hours :: u64
  flap_enabled :: bool
  flap_window_size :: u32
  flap_window_hours :: u64
  flap_min_samples :: u32
  flap_min_success_percent :: u32

definition HOUR :: int where "HOUR = 3600 * 1000000000"

definition hours :: "u64 \<Rightarrow> int" where
  "hours v = int (unat (min v 8760)) * HOUR"

definition LATE_BACKOFF_MULTIPLIER :: u64 where "LATE_BACKOFF_MULTIPLIER = 4"

definition backoff :: "u32 \<Rightarrow> liveness_config \<Rightarrow> int" where
  "backoff alerts_sent c =
     (if alerts_sent \<le> 1 then hours (alert_backoff_hours c)
      else hours (saturating_mul_u64 (alert_backoff_hours c) LATE_BACKOFF_MULTIPLIER))"

definition alert_due :: "int option \<Rightarrow> u32 \<Rightarrow> liveness_config \<Rightarrow> int \<Rightarrow> bool" where
  "alert_due last_at alerts_sent c now \<longleftrightarrow>
     (case last_at of None \<Rightarrow> True | Some sent_at \<Rightarrow> backoff alerts_sent c \<le> now - sent_at)"

record flap_window =
  fw_failures :: u32
  fw_total :: u32
  fw_started :: int
  fw_ended :: int

definition success_percent :: "flap_window \<Rightarrow> u32" where
  "success_percent w =
     (if fw_total w = 0 then 100
      else (if fw_total w \<le> fw_failures w then 0 else fw_total w - fw_failures w) * 100 div fw_total w)"

definition span :: "flap_window \<Rightarrow> int" where
  "span w = fw_ended w - fw_started w"

datatype flap_judgement = Insufficient | HealthyWindow flap_window | Flapping flap_window

text \<open>The earliest instant chrono has, in the year -262143.\<close>

definition MIN_UTC :: int where "MIN_UTC = - 8334601228800 * 1000000000"

text \<open>The cycles the flap rule judges.\<close>

definition flap_sample :: "task_health \<Rightarrow> liveness_config \<Rightarrow> int \<Rightarrow> outcome_record list" where
  "flap_sample h c now =
     (let horizon = now - hours (flap_window_hours c);
          baseline = (case flap_baseline_at h of None \<Rightarrow> MIN_UTC | Some b \<Rightarrow> b);
          size = max 1 (min (unat (flap_window_size c)) OUTCOME_WINDOW_CAPACITY);
          sample = filter (\<lambda>o'. horizon \<le> at o' \<and> baseline < at o') (recent_outcomes h)
      in drop (length sample - size) sample)"

definition flap_verdict :: "task_health \<Rightarrow> liveness_config \<Rightarrow> int \<Rightarrow> flap_judgement" where
  "flap_verdict h c now =
     (if \<not> flap_enabled c then Insufficient
      else
        let sample = flap_sample h c now; total = (of_nat (length sample) :: u32)
        in if sample = [] then Insufficient
           else if total < max (flap_min_samples c) 2 then Insufficient
           else
             let window = \<lparr>fw_failures = of_nat (length (filter (\<lambda>o'. \<not> outcome_ok o') sample)),
                           fw_total = total, fw_started = at (hd sample), fw_ended = at (last sample)\<rparr>
             in if success_percent window < flap_min_success_percent c then Flapping window
                else HealthyWindow window)"

text \<open>The messages that owe delivery to the operator.\<close>

datatype liveness_alert =
    TaskFailing bytes bytes u32 "int option" "bytes option" u32
  | TaskRecovered bytes bytes u32 "int option" int
  | TaskFlapping bytes bytes flap_window "bytes option" u32
  | TaskFlapResolved bytes bytes flap_window
  | GlobalSilence int int bool nat u32
  | GlobalRecovered int int bytes

definition pending_flap_alert :: "bytes \<Rightarrow> task_health \<Rightarrow> liveness_config \<Rightarrow> int \<Rightarrow> liveness_alert option" where
  "pending_flap_alert task_id h c now =
     (case flap_verdict h c now of
        Flapping w \<Rightarrow>
          if alert_due (flap_last_alert_at h) (flap_alerts_sent h) c now
          then Some (TaskFlapping task_id (task_name h) w (last_error h) (flap_alerts_sent h)) else None
      | HealthyWindow w \<Rightarrow>
          if 0 < flap_alerts_sent h then Some (TaskFlapResolved task_id (task_name h) w) else None
      | Insufficient \<Rightarrow> None)"

text \<open>What one entry owes.\<close>

definition health_alert :: "bytes \<Rightarrow> task_health \<Rightarrow> liveness_config \<Rightarrow> int \<Rightarrow> liveness_alert option" where
  "health_alert task_id h c now =
     (case pending_resolution h of
        Some r \<Rightarrow> Some (TaskRecovered task_id (task_name h) (failures r) (streak_started r) (recovered_at r))
      | None \<Rightarrow>
          if alert_after_consecutive_failures c \<le> consecutive_failures h then
            (if alert_due (last_alert_at h) (alerts_sent_this_streak h) c now
             then Some (TaskFailing task_id (task_name h) (consecutive_failures h)
                          (first_failure_of_streak h) (last_error h) (alerts_sent_this_streak h))
             else None)
          else pending_flap_alert task_id h c now)"

definition pending_task_alert :: "bytes \<Rightarrow> liveness_config \<Rightarrow> int \<Rightarrow> task_health_file \<Rightarrow> liveness_alert option" where
  "pending_task_alert task_id c now s =
     (case get s task_id of None \<Rightarrow> None | Some h \<Rightarrow> health_alert task_id h c now)"

text \<open>What a delivered alert leaves in the entry; \<open>None\<close> for the global ones, which are ignored.\<close>

fun health_delivered :: "liveness_alert \<Rightarrow> int \<Rightarrow> task_health \<Rightarrow> task_health option" where
  "health_delivered (TaskRecovered _ _ _ _ _) now h = Some (h\<lparr>pending_resolution := None\<rparr>)"
| "health_delivered (TaskFailing _ _ _ _ _ _) now h =
     Some (h\<lparr>last_alert_at := Some now,
             alerts_sent_this_streak := saturating_inc (alerts_sent_this_streak h),
             flap_baseline_at := Some now\<rparr>)"
| "health_delivered (TaskFlapping _ _ _ _ _) now h =
     Some (h\<lparr>flap_last_alert_at := Some now, flap_alerts_sent := saturating_inc (flap_alerts_sent h)\<rparr>)"
| "health_delivered (TaskFlapResolved _ _ _) now h =
     Some (h\<lparr>flap_last_alert_at := None, flap_alerts_sent := 0, flap_baseline_at := Some now\<rparr>)"
| "health_delivered (GlobalSilence _ _ _ _ _) now h = None"
| "health_delivered (GlobalRecovered _ _ _) now h = None"

text \<open>The mutators say whether they persist.\<close>

definition mark_task_alert_delivered ::
  "bytes \<Rightarrow> liveness_alert \<Rightarrow> int \<Rightarrow> task_health_file \<Rightarrow> task_health_file option" where
  "mark_task_alert_delivered task_id a now s =
     (case get s task_id of
        None \<Rightarrow> None
      | Some h \<Rightarrow> map_option (\<lambda>h'. put task_id h' s) (health_delivered a now h))"

definition pending_global_alert :: "liveness_config \<Rightarrow> nat \<Rightarrow> int \<Rightarrow> task_health_file \<Rightarrow> liveness_alert option" where
  "pending_global_alert c enabled_tasks now s =
     (case global_pending (global s) of
        Some r \<Rightarrow> Some (GlobalRecovered (silent_since r) (silence_ended_at r - silent_since r) (ended_by r))
      | None \<Rightarrow>
          if enabled_tasks = 0 then None
          else
            let since = (case last_success_any s of None \<Rightarrow> created_at s | Some t \<Rightarrow> t);
                silent_for = now - since
            in if silent_for < hours (global_silence_alert_hours c) then None
               else if \<not> alert_due (global_last_alert_at (global s)) (global_alerts_sent (global s)) c now
               then None
               else Some (GlobalSilence since silent_for (last_success_any s \<noteq> None) enabled_tasks
                            (global_alerts_sent (global s))))"

fun global_delivered :: "liveness_alert \<Rightarrow> int \<Rightarrow> global_health \<Rightarrow> global_health option" where
  "global_delivered (GlobalRecovered _ _ _) now g = Some (g\<lparr>global_pending := None\<rparr>)"
| "global_delivered (GlobalSilence _ _ _ _ _) now g =
     Some (g\<lparr>global_last_alert_at := Some now,
             global_alerts_sent := saturating_inc (global_alerts_sent g)\<rparr>)"
| "global_delivered _ now g = None"

definition mark_global_alert_delivered ::
  "liveness_alert \<Rightarrow> int \<Rightarrow> task_health_file \<Rightarrow> task_health_file option" where
  "mark_global_alert_delivered a now s = map_option (\<lambda>g. s\<lparr>global := g\<rparr>) (global_delivered a now (global s))"

end
