(* ===== verification/HealthReport.thy ===== *)
theory HealthReport
  imports Health
begin

text \<open>
  The file of the health store and what is said of it: \<open>load\<close>, \<open>save\<close> and \<open>persist\<close> of
  \<open>TaskHealthStore\<close>, the text of each alert, and the lines of the status command
  (\<open>src/scheduler/health.rs\<close>).
\<close>

subsection \<open>The file\<close>

record health_codec =
  encode_file :: "task_health_file \<Rightarrow> bytes"
  decode_file :: "bytes \<Rightarrow> task_health_file option"

text \<open>What \<open>serde_json\<close> promises: a file is text, and what was written is what is read.\<close>

definition health_codec_ok :: "health_codec \<Rightarrow> bool" where
  "health_codec_ok C \<longleftrightarrow>
     (\<forall>f. bt_ok (tasks f) \<longrightarrow> decode_file C (encode_file C f) = Some f \<and> valid_utf8 (encode_file C f))"

record health_disk =
  health_json :: "bytes option"
  health_tmp :: "bytes option"

text \<open>How a save ends: the write of the temporary file fails and leaves some bytes in it, the rename
  fails, or both are done.\<close>

datatype save_end = WriteFails "bytes option" | RenameFails | Saved

definition save_file :: "health_codec \<Rightarrow> save_end \<Rightarrow> task_health_file \<Rightarrow> health_disk \<Rightarrow> bool \<times> health_disk" where
  "save_file C e f d =
     (case e of
        WriteFails left \<Rightarrow> (False, d\<lparr>health_tmp := left\<rparr>)
      | RenameFails \<Rightarrow> (False, d\<lparr>health_tmp := Some (encode_file C f)\<rparr>)
      | Saved \<Rightarrow> (True, \<lparr>health_json = Some (encode_file C f), health_tmp = None\<rparr>))"

definition persist_file :: "health_codec \<Rightarrow> save_end \<Rightarrow> task_health_file \<Rightarrow> health_disk \<Rightarrow> health_disk" where
  "persist_file C e f d = snd (save_file C e f d)"

definition load_file :: "health_codec \<Rightarrow> bool \<Rightarrow> int \<Rightarrow> health_disk \<Rightarrow> task_health_file" where
  "load_file C reads now d =
     (case health_json d of
        None \<Rightarrow> file_default now
      | Some t \<Rightarrow>
          if \<not> reads \<or> \<not> valid_utf8 t then file_default now
          else (case decode_file C t of None \<Rightarrow> file_default now | Some f \<Rightarrow> f))"

text \<open>A save that does not finish leaves the file as it was; one that does is read back.\<close>

lemma save_is_atomic:
  "health_json (persist_file C e f d) = health_json d \<or> health_json (persist_file C e f d) = Some (encode_file C f)"
  by (cases e) (simp_all add: persist_file_def save_file_def)

lemma save_then_load:
  "health_codec_ok C \<Longrightarrow> bt_ok (tasks f) \<Longrightarrow> save_file C e f d = (True, d') \<Longrightarrow> load_file C True now d' = f"
  by (cases e) (auto simp: save_file_def load_file_def health_codec_ok_def)

subsection \<open>Texts\<close>

text \<open>chrono's \<open>%Y-%m-%d %H:%M UTC\<close> is the parameter \<open>fmt\<close>.\<close>

definition display_name :: "bytes \<Rightarrow> bytes \<Rightarrow> bytes" where
  "display_name name task_id = (if name = [] then task_id else name)"

definition format_duration :: "int \<Rightarrow> bytes" where
  "format_duration d =
     (let total = nat (max 0 (d div 1000000000));
          ds = total div 86400; hs = total mod 86400 div 3600; ms = total mod 3600 div 60
      in if 0 < ds then decimal ds @ ''d '' @ decimal hs @ ''h''
         else if 0 < hs then decimal hs @ ''h '' @ decimal ms @ ''m''
         else if 0 < ms then decimal ms @ ''m''
         else decimal total @ ''s'')"

definition format_age :: "int option \<Rightarrow> int \<Rightarrow> bytes" where
  "format_age t now = (case t of Some ts \<Rightarrow> format_duration (now - ts) @ '' ago'' | None \<Rightarrow> ''never'')"

definition arrow :: bytes where
  "arrow = [CHR 0xE2, CHR 0x86, CHR 0x92]"

definition format_window :: "(int \<Rightarrow> bytes) \<Rightarrow> flap_window \<Rightarrow> int \<Rightarrow> bytes" where
  "format_window fmt w now =
     fmt (fw_started w) @ '' '' @ arrow @ '' '' @ fmt (fw_ended w) @ '' ('' @ format_duration (span w) @
     '', ended '' @ format_age (Some (fw_ended w)) now @ '')''"

definition format_instant :: "(int \<Rightarrow> bytes) \<Rightarrow> int option \<Rightarrow> int \<Rightarrow> bytes" where
  "format_instant fmt t now =
     (case t of
        Some ts \<Rightarrow> fmt ts @ '' ('' @ format_duration (now - ts) @ '' ago)''
      | None \<Rightarrow> ''unknown'')"

definition repeat_text :: "bytes \<Rightarrow> u32 \<Rightarrow> bytes" where
  "repeat_text what n =
     (if 0 < n then newline # ''Still '' @ what @ '' (alert #'' @ decimal (unat (n + 1)) @ '').'' else [])"

definition error_text :: "bytes option \<Rightarrow> bytes" where
  "error_text e = (case e of None \<Rightarrow> [] | Some t \<Rightarrow> newline # ''Last error: '' @ t)"

definition window_text :: "flap_window \<Rightarrow> bytes" where
  "window_text w =
     decimal (unat (fw_failures w)) @ '' of '' @ decimal (unat (fw_total w)) @ '' recent cycles failed ('' @
     decimal (unat (success_percent w)) @ ''% success).''"

fun message :: "(int \<Rightarrow> bytes) \<Rightarrow> int \<Rightarrow> liveness_alert \<Rightarrow> bytes" where
  "message fmt now (TaskFailing i name n started err repeat) =
     ''[ALERT] Scheduled task '' @ [CHR 0x27] @ display_name name i @ [CHR 0x27] @ '' ('' @ i @
     '') has failed '' @ decimal (unat n) @ '' time(s) in a row.'' @
     [newline] @ ''Streak started: '' @ format_instant fmt started now @ error_text err @
     repeat_text ''failing'' repeat"
| "message fmt now (TaskRecovered i name n started recovered) =
     ''[RESOLVED] Scheduled task '' @ [CHR 0x27] @ display_name name i @ [CHR 0x27] @ '' ('' @ i @
     '') succeeded again after '' @ decimal (unat n) @ '' consecutive failure(s) '' @ dash @
     '' broken for '' @ (case started of Some t \<Rightarrow> format_duration (recovered - t) | None \<Rightarrow> ''unknown'') @
     '' (since '' @ format_instant fmt started now @ '').''"
| "message fmt now (TaskFlapping i name w err repeat) =
     ''[ALERT] Scheduled task '' @ [CHR 0x27] @ display_name name i @ [CHR 0x27] @ '' ('' @ i @
     '') is failing intermittently: '' @ window_text w @ [newline] @ ''Window: '' @ format_window fmt w now @
     error_text err @ repeat_text ''flapping'' repeat"
| "message fmt now (TaskFlapResolved i name w) =
     ''[RESOLVED] Scheduled task '' @ [CHR 0x27] @ display_name name i @ [CHR 0x27] @ '' ('' @ i @
     '') is no longer failing intermittently: '' @ window_text w @ [newline] @ ''Window: '' @
     format_window fmt w now"
| "message fmt now (GlobalSilence since silent ever n repeat) =
     (if ever
      then ''[ALERT] LIVENESS: no scheduled task has succeeded in '' @ format_duration silent @
           ''. Last success: '' @ format_instant fmt (Some since) now @ ''.''
      else ''[ALERT] LIVENESS: no scheduled task has EVER succeeded '' @ dash @ '' silent for '' @
           format_duration silent @ '' since tracking began ('' @ format_instant fmt (Some since) now @ '').'') @
     [newline] @ decimal n @ '' task(s) enabled. Run `pulse-null status` for per-task detail.'' @
     repeat_text ''silent'' repeat"
| "message fmt now (GlobalRecovered since silent i) =
     ''[RESOLVED] LIVENESS: task '' @ [CHR 0x27] @ i @ [CHR 0x27] @ '' succeeded '' @ dash @
     '' the schedule is alive again after '' @ format_duration silent @ '' of silence (since '' @
     format_instant fmt (Some since) now @ '').''"

text \<open>\<open>LivenessAlert::task_id\<close>.\<close>

fun alert_task :: "liveness_alert \<Rightarrow> bytes option" where
  "alert_task (TaskFailing i _ _ _ _ _) = Some i"
| "alert_task (TaskRecovered i _ _ _ _) = Some i"
| "alert_task (TaskFlapping i _ _ _ _) = Some i"
| "alert_task (TaskFlapResolved i _ _) = Some i"
| "alert_task (GlobalSilence _ _ _ _ _) = None"
| "alert_task (GlobalRecovered _ _ _) = None"

subsection \<open>The status command\<close>

datatype task_status_level =
  StatusOk | StatusIdle | StatusStale | StatusFlapping | StatusDegraded | StatusFailing | StatusDisabled

fun marker :: "task_status_level \<Rightarrow> bytes" where
  "marker StatusOk = ''[ OK  ]''"
| "marker StatusIdle = ''[IDLE ]''"
| "marker StatusStale = ''[STALE]''"
| "marker StatusFlapping = ''[FLAP ]''"
| "marker StatusDegraded = ''[WARN ]''"
| "marker StatusFailing = ''[FAIL ]''"
| "marker StatusDisabled = ''[ off ]''"

definition is_problem :: "task_status_level \<Rightarrow> bool" where
  "is_problem l \<longleftrightarrow> l \<in> {StatusStale, StatusFlapping, StatusDegraded, StatusFailing}"

record task_status_view =
  view_id :: bytes
  view_name :: bytes
  view_enabled :: bool
  view_interval :: "int option"
  view_health :: "task_health option"

definition STALE_INTERVAL_MULTIPLIER :: int where "STALE_INTERVAL_MULTIPLIER = 2"

definition is_stale :: "task_status_view \<Rightarrow> int \<Rightarrow> bool" where
  "is_stale v now \<longleftrightarrow>
     (case (view_interval v, view_health v) of
        (Some i, Some h) \<Rightarrow>
          (case last_success h of None \<Rightarrow> False | Some t \<Rightarrow> i * STALE_INTERVAL_MULTIPLIER < now - t)
      | _ \<Rightarrow> False)"

definition classify :: "task_status_view \<Rightarrow> liveness_config \<Rightarrow> int \<Rightarrow> task_status_level" where
  "classify v c now =
     (if \<not> view_enabled v then StatusDisabled
      else case view_health v of
        None \<Rightarrow> StatusIdle
      | Some h \<Rightarrow>
          if alert_after_consecutive_failures c \<le> consecutive_failures h then StatusFailing
          else if is_stale v now then StatusStale
          else (case flap_verdict h c now of
              Flapping _ \<Rightarrow> StatusFlapping
            | _ \<Rightarrow>
                if 0 < consecutive_failures h then StatusDegraded
                else (case last_success h of Some _ \<Rightarrow> StatusOk | None \<Rightarrow> StatusIdle)))"

definition status_line :: "task_status_view \<Rightarrow> liveness_config \<Rightarrow> int \<Rightarrow> bytes" where
  "status_line v c now =
     (let level = classify v c now
      in marker level @ '' '' @ display_name (view_name v) (view_id v) @ '' ('' @ view_id v @ '') '' @ dash @
         '' last success '' @ format_age (Option.bind (view_health v) last_success) now @
         (case view_health v of
            Some h \<Rightarrow>
              if 0 < consecutive_failures h
              then ''; '' @ decimal (unat (consecutive_failures h)) @ '' consecutive failure(s), last '' @
                   format_age (last_failure h) now
              else []
          | None \<Rightarrow> []) @
         (if level = StatusStale
          then (case view_interval v of
                  Some i \<Rightarrow> ''; STALE (interval '' @ format_duration i @ '')''
                | None \<Rightarrow> [])
          else []) @
         (if level = StatusFlapping
          then (case map_option (\<lambda>h. flap_verdict h c now) (view_health v) of
                  Some (Flapping w) \<Rightarrow>
                    ''; FLAPPING ('' @ decimal (unat (fw_failures w)) @ '' of '' @ decimal (unat (fw_total w)) @
                    '' recent cycles failed over '' @ format_duration (span w) @ '')''
                | _ \<Rightarrow> [])
          else []))"

text \<open>
  What the marks mean: a task is shown as fine exactly when it is enabled, has succeeded within
  twice its interval, is in no streak of failures, and has not lost too many of its recent cycles.
\<close>

lemma shown_ok_iff:
  "classify v c now = StatusOk \<longleftrightarrow>
     view_enabled v \<and> \<not> is_stale v now \<and>
     (\<exists>h. view_health v = Some h \<and> last_success h \<noteq> None \<and> consecutive_failures h = 0 \<and>
          alert_after_consecutive_failures c \<noteq> 0 \<and> (\<forall>w. flap_verdict h c now \<noteq> Flapping w))"
  by (auto simp: classify_def word_gt_0 split: option.splits flap_judgement.splits)

end
