(* ===== verification/HealthSafety.thy ===== *)
theory HealthSafety
  imports HealthReport
begin

text \<open>
  What the health store keeps: its well-formedness, what it remembers of the history of each task,
  and how its two rules about a task share the failures.
\<close>

subsection \<open>The map of tasks\<close>

lemma map_of_bt_insert: "map_of (bt_insert k v m) = (map_of m)(k \<mapsto> v)"
  by (induction m) (auto simp: fun_eq_iff)

lemma set_bt_insert: "fst ` set (bt_insert k v m) = insert k (fst ` set m)"
proof (induction m)
  case (Cons e m)
  then show ?case by (cases e) (simp add: insert_commute insert_absorb2)
qed simp

lemma bt_ok_insert: "bt_ok m \<Longrightarrow> bt_ok (bt_insert k v m)"
proof (induction m)
  case (Cons e m)
  then show ?case
    using set_bt_insert [of k v m] by (cases e) (simp add: bt_ok_def, metis less_trans linorder_neqE)
qed (simp add: bt_ok_def)

lemma get_put [simp]: "get (put k h s) j = (if j = k then Some h else get s j)"
  by (simp add: get_def put_def map_of_bt_insert)

lemma put_frame [simp]:
  "global (put k h s) = global s" "created_at (put k h s) = created_at s"
  by (simp_all add: put_def)

lemma get_global [simp]: "get (s\<lparr>global := g\<rparr>) j = get s j"
  by (simp add: get_def)

subsection \<open>Runs of the store\<close>

text \<open>The calls of the mutators, with the instants their callers pass.\<close>

datatype health_op =
    Succeeded bytes bytes int
  | Failed bytes bytes bytes int
  | TaskTold bytes liveness_alert int
  | GlobalTold liveness_alert int

fun health_op_step :: "health_op \<Rightarrow> task_health_file \<Rightarrow> task_health_file" where
  "health_op_step (Succeeded i n t) s = record_success i n t s"
| "health_op_step (Failed i n e t) s = record_failure i n e t s"
| "health_op_step (TaskTold i a t) s =
     (case mark_task_alert_delivered i a t s of None \<Rightarrow> s | Some s' \<Rightarrow> s')"
| "health_op_step (GlobalTold a t) s =
     (case mark_global_alert_delivered a t s of None \<Rightarrow> s | Some s' \<Rightarrow> s')"

definition health_run :: "health_op list \<Rightarrow> task_health_file \<Rightarrow> task_health_file" where
  "health_run ops s = foldl (\<lambda>s x. health_op_step x s) s ops"

lemma health_run_simps [simp]:
  "health_run [] s = s"
  "health_run (x # ops) s = health_run ops (health_op_step x s)"
  by (simp_all add: health_run_def)

lemma health_run_append [simp]: "health_run (xs @ ys) s = health_run ys (health_run xs s)"
  by (simp add: health_run_def)

text \<open>What a step does to the entry of one task.\<close>

lemma get_success:
  "get (record_success i n t s) j =
     (if j = i then Some (health_success t (entry i n s)) else get s j)"
  by (simp add: record_success_def Let_def)

lemma get_failure:
  "get (record_failure i n e t s) j =
     (if j = i then Some (health_failure e t (entry i n s)) else get s j)"
  by (simp add: record_failure_def)

lemma get_told:
  "get (health_op_step (TaskTold i a t) s) j =
     (if j = i then map_option (\<lambda>h. case health_delivered a t h of None \<Rightarrow> h | Some h' \<Rightarrow> h') (get s i)
      else get s j)"
  by (auto simp: mark_task_alert_delivered_def split: option.splits)

lemma get_global_told: "get (health_op_step (GlobalTold a t) s) j = get s j"
  by (auto simp: mark_global_alert_delivered_def split: option.splits)

lemmas get_step = get_success get_failure get_told get_global_told

subsection \<open>Well-formedness\<close>

definition health_ok :: "task_health \<Rightarrow> bool" where
  "health_ok h \<longleftrightarrow>
     length (recent_outcomes h) \<le> OUTCOME_WINDOW_CAPACITY \<and>
     (first_failure_of_streak h = None \<longleftrightarrow> consecutive_failures h = 0) \<and>
     (last_alert_at h = None \<longleftrightarrow> alerts_sent_this_streak h = 0) \<and>
     (flap_last_alert_at h = None \<longleftrightarrow> flap_alerts_sent h = 0) \<and>
     (consecutive_failures h \<noteq> 0 \<longrightarrow>
        last_failure h \<noteq> None \<and> (\<exists>e. last_error h = Some e \<and> length e \<le> MAX_ERROR_LEN))"

definition health_file_ok :: "task_health_file \<Rightarrow> bool" where
  "health_file_ok s \<longleftrightarrow>
     bt_ok (tasks s) \<and> (\<forall>i h. get s i = Some h \<longrightarrow> health_ok h) \<and>
     (global_last_alert_at (global s) = None \<longleftrightarrow> global_alerts_sent (global s) = 0)"

lemma saturating_inc_pos [simp]: "saturating_inc n \<noteq> 0"
proof (cases "n = - 1")
  case False
  then have "n + 1 \<noteq> 0" by (metis add_eq_0_iff2 minus_equation_iff)
  with False show ?thesis by (simp add: saturating_inc_def)
qed (simp add: saturating_inc_def)

lemma push_outcome_fields [simp]:
  "consecutive_failures (push_outcome t ok h) = consecutive_failures h"
  "first_failure_of_streak (push_outcome t ok h) = first_failure_of_streak h"
  "last_alert_at (push_outcome t ok h) = last_alert_at h"
  "alerts_sent_this_streak (push_outcome t ok h) = alerts_sent_this_streak h"
  "last_success (push_outcome t ok h) = last_success h"
  "last_failure (push_outcome t ok h) = last_failure h"
  "last_error (push_outcome t ok h) = last_error h"
  "pending_resolution (push_outcome t ok h) = pending_resolution h"
  "flap_last_alert_at (push_outcome t ok h) = flap_last_alert_at h"
  "flap_alerts_sent (push_outcome t ok h) = flap_alerts_sent h"
  "flap_baseline_at (push_outcome t ok h) = flap_baseline_at h"
  "task_name (push_outcome t ok h) = task_name h"
  by (simp_all add: push_outcome_def Let_def)

lemma push_outcome_length:
  "length (recent_outcomes (push_outcome t ok h)) \<le> OUTCOME_WINDOW_CAPACITY"
  by (simp add: push_outcome_def Let_def)

lemma health_ok_default [simp]: "health_ok health_default"
  by (simp add: health_ok_def health_default_def)

lemma health_ok_name [simp]: "health_ok (h\<lparr>task_name := n\<rparr>) \<longleftrightarrow> health_ok h"
  by (simp add: health_ok_def)

lemma health_success_fields [simp]:
  "consecutive_failures (health_success t h) = 0"
  "first_failure_of_streak (health_success t h) = None"
  "last_alert_at (health_success t h) = None"
  "alerts_sent_this_streak (health_success t h) = 0"
  "last_success (health_success t h) = Some t"
  "last_failure (health_success t h) = last_failure h"
  "last_error (health_success t h) = last_error h"
  "flap_last_alert_at (health_success t h) = flap_last_alert_at h"
  "flap_alerts_sent (health_success t h) = flap_alerts_sent h"
  "flap_baseline_at (health_success t h) = flap_baseline_at h"
  by (simp_all add: health_success_def)

lemma health_failure_fields [simp]:
  "consecutive_failures (health_failure e t h) = saturating_inc (consecutive_failures h)"
  "first_failure_of_streak (health_failure e t h) =
     (if consecutive_failures h = 0 then Some t else first_failure_of_streak h)"
  "last_alert_at (health_failure e t h) = (if consecutive_failures h = 0 then None else last_alert_at h)"
  "alerts_sent_this_streak (health_failure e t h) =
     (if consecutive_failures h = 0 then 0 else alerts_sent_this_streak h)"
  "last_success (health_failure e t h) = last_success h"
  "last_failure (health_failure e t h) = Some t"
  "last_error (health_failure e t h) = Some (stored_error e)"
  "pending_resolution (health_failure e t h) = pending_resolution h"
  "flap_last_alert_at (health_failure e t h) = flap_last_alert_at h"
  "flap_alerts_sent (health_failure e t h) = flap_alerts_sent h"
  "flap_baseline_at (health_failure e t h) = flap_baseline_at h"
  by (simp_all add: health_failure_def Let_def)

lemma recent_outcomes_length:
  "length (recent_outcomes (health_success t h)) \<le> OUTCOME_WINDOW_CAPACITY"
  "length (recent_outcomes (health_failure e t h)) \<le> OUTCOME_WINDOW_CAPACITY"
  by (simp_all add: health_success_def health_failure_def Let_def push_outcome_length)

lemma health_ok_success: "health_ok h \<Longrightarrow> health_ok (health_success t h)"
  by (simp add: health_ok_def recent_outcomes_length)

lemma health_ok_failure: "health_ok h \<Longrightarrow> health_ok (health_failure e t h)"
  by (cases "consecutive_failures h = 0")
    (simp_all add: health_ok_def recent_outcomes_length stored_error_def safe_truncate_length)

lemma health_ok_delivered: "health_ok h \<Longrightarrow> health_delivered a t h = Some h' \<Longrightarrow> health_ok h'"
  by (cases a; simp only: health_delivered.simps option.inject option.distinct; hypsubst; simp add: health_ok_def)

lemma health_ok_entry: "health_file_ok s \<Longrightarrow> health_ok (entry i n s)"
  by (auto simp: entry_def health_file_ok_def Let_def split: option.splits)

lemma bt_ok_put [simp]: "bt_ok (tasks s) \<Longrightarrow> bt_ok (tasks (put i h s))"
  by (simp add: put_def bt_ok_insert)

lemma health_file_ok_put:
  "health_file_ok s \<Longrightarrow> health_ok h \<Longrightarrow> health_file_ok (put i h s)"
  by (auto simp: health_file_ok_def)

lemma health_file_ok_step: "health_file_ok s \<Longrightarrow> health_file_ok (health_op_step x s)"
proof (cases x)
  case (Succeeded i n t)
  assume s: "health_file_ok s"
  have "health_file_ok (put i (health_success t (entry i n s)) s)"
    by (intro health_file_ok_put health_ok_success health_ok_entry s)
  with Succeeded show ?thesis
    by (auto simp: record_success_def Let_def health_file_ok_def global_default_def)
next
  case (Failed i n e t)
  assume s: "health_file_ok s"
  from Failed show ?thesis
    by (simp add: record_failure_def) (intro health_file_ok_put health_ok_failure health_ok_entry s)
next
  case (TaskTold i a t)
  assume s: "health_file_ok s"
  show ?thesis
  proof (cases "mark_task_alert_delivered i a t s")
    case (Some s')
    then obtain h h' where h: "get s i = Some h" "health_delivered a t h = Some h'" "s' = put i h' s"
      by (auto simp: mark_task_alert_delivered_def split: option.splits)
    from h(1) s have "health_ok h" by (simp add: health_file_ok_def)
    from this h(2) have "health_ok h'" by (rule health_ok_delivered)
    with s Some h(3) TaskTold show ?thesis by (simp add: health_file_ok_put)
  qed (use s TaskTold in simp)
next
  case (GlobalTold a t)
  assume "health_file_ok s"
  with GlobalTold show ?thesis
    by (cases a) (auto simp: mark_global_alert_delivered_def health_file_ok_def)
qed

lemma health_file_ok_run: "health_file_ok s \<Longrightarrow> health_file_ok (health_run ops s)"
  by (induction ops arbitrary: s) (auto simp: health_file_ok_step)

lemma health_file_ok_default [simp]: "health_file_ok (file_default t)"
  by (simp add: health_file_ok_def file_default_def global_default_def bt_ok_def get_def)

subsection \<open>What the store remembers\<close>

text \<open>The cycles of a task in a run, oldest first.\<close>

fun cycle_of :: "bytes \<Rightarrow> health_op \<Rightarrow> outcome_record list" where
  "cycle_of i (Succeeded j n t) = (if j = i then [\<lparr>at = t, outcome_ok = True\<rparr>] else [])"
| "cycle_of i (Failed j n e t) = (if j = i then [\<lparr>at = t, outcome_ok = False\<rparr>] else [])"
| "cycle_of i (TaskTold j a t) = []"
| "cycle_of i (GlobalTold a t) = []"

definition cycles :: "bytes \<Rightarrow> health_op list \<Rightarrow> outcome_record list" where
  "cycles i ops = concat (map (cycle_of i) ops)"

definition last_n :: "nat \<Rightarrow> 'a list \<Rightarrow> 'a list" where
  "last_n n xs = drop (length xs - n) xs"

lemma last_n_short: "length xs \<le> n \<Longrightarrow> last_n n xs = xs"
  by (simp add: last_n_def)

lemma last_n_last_n: "last_n n (last_n n xs @ ys) = last_n n (xs @ ys)"
  by (cases "length xs \<le> n") (simp_all add: last_n_def add.commute)

definition recorded :: "task_health_file \<Rightarrow> bytes \<Rightarrow> outcome_record list" where
  "recorded s i = (case get s i of None \<Rightarrow> [] | Some h \<Rightarrow> recent_outcomes h)"

definition last_success_of :: "task_health_file \<Rightarrow> bytes \<Rightarrow> int option" where
  "last_success_of s i = Option.bind (get s i) last_success"

lemma recent_entry: "recent_outcomes (entry i n s) = recorded s i"
  by (auto simp: entry_def recorded_def health_default_def Let_def split: option.splits)

lemma streak_entry: "consecutive_failures (entry i n s) = streak_of s i"
  by (auto simp: entry_def streak_of_def health_default_def Let_def split: option.splits)

lemma last_success_entry: "last_success (entry i n s) = last_success_of s i"
  by (auto simp: entry_def last_success_of_def health_default_def Let_def split: option.splits)

lemma recent_success: "recent_outcomes (health_success t h) =
    last_n OUTCOME_WINDOW_CAPACITY (recent_outcomes h @ [\<lparr>at = t, outcome_ok = True\<rparr>])"
  by (simp add: health_success_def push_outcome_def last_n_def Let_def)

lemma recent_failure: "recent_outcomes (health_failure e t h) =
    last_n OUTCOME_WINDOW_CAPACITY (recent_outcomes h @ [\<lparr>at = t, outcome_ok = False\<rparr>])"
  by (simp add: health_failure_def push_outcome_def last_n_def Let_def)

lemma told_keeps:
  "health_delivered a t h = Some h' \<Longrightarrow>
     recent_outcomes h' = recent_outcomes h \<and> consecutive_failures h' = consecutive_failures h \<and>
     last_success h' = last_success h"
  by (cases a) auto

lemma recorded_length: "health_file_ok s \<Longrightarrow> length (recorded s i) \<le> OUTCOME_WINDOW_CAPACITY"
  by (auto simp: recorded_def health_file_ok_def health_ok_def split: option.splits)

lemma told_get:
  "get (health_op_step (TaskTold j a t) s) i = get s i \<or>
   (\<exists>h h'. get s i = Some h \<and> health_delivered a t h = Some h' \<and>
           get (health_op_step (TaskTold j a t) s) i = Some h')"
  unfolding get_told by (cases "j = i"; cases "get s j") (auto split: option.split)

lemma recorded_step:
  assumes "health_file_ok s"
  shows "recorded (health_op_step x s) i = last_n OUTCOME_WINDOW_CAPACITY (recorded s i @ cycle_of i x)"
proof (cases x)
  case (Succeeded j n t)
  then show ?thesis
    using recorded_length [OF assms, of i] recent_entry [of i n s]
    by (auto simp: recorded_def get_success recent_success last_n_short)
next
  case (Failed j n e t)
  then show ?thesis
    using recorded_length [OF assms, of i] recent_entry [of i n s]
    by (auto simp: recorded_def get_failure recent_failure last_n_short)
next
  case (TaskTold j a t)
  then show ?thesis
    using recorded_length [OF assms, of i] told_get [of j a t s i] told_keeps
    by (auto simp: recorded_def last_n_short simp del: health_op_step.simps)
next
  case (GlobalTold a t)
  then show ?thesis
    using recorded_length [OF assms, of i]
    by (simp add: recorded_def get_global_told last_n_short del: health_op_step.simps)
qed

lemma recorded_run:
  "health_file_ok s \<Longrightarrow>
     recorded (health_run ops s) i = last_n OUTCOME_WINDOW_CAPACITY (recorded s i @ cycles i ops)"
proof (induction ops arbitrary: s)
  case Nil
  then show ?case using recorded_length [of s i] by (simp add: cycles_def last_n_short)
next
  case (Cons x ops)
  then show ?case
    by (simp add: health_file_ok_step recorded_step cycles_def last_n_last_n)
qed

lemma streak_step:
  "streak_of (health_op_step x s) i =
     foldl (\<lambda>n c. if outcome_ok c then 0 else saturating_inc n) (streak_of s i) (cycle_of i x)"
proof (cases x)
  case (TaskTold j a t)
  then show ?thesis
    using told_get [of j a t s i] told_keeps by (auto simp: streak_of_def simp del: health_op_step.simps)
next
  case (GlobalTold a t)
  then show ?thesis by (simp add: streak_of_def get_global_told del: health_op_step.simps)
qed (auto simp: streak_of_def get_success get_failure streak_entry [unfolded streak_of_def])

lemma last_success_step:
  "last_success_of (health_op_step x s) i =
     foldl (\<lambda>l c. if outcome_ok c then Some (at c) else l) (last_success_of s i) (cycle_of i x)"
proof (cases x)
  case (TaskTold j a t)
  then show ?thesis
    using told_get [of j a t s i] told_keeps
    by (auto simp: last_success_of_def simp del: health_op_step.simps)
next
  case (GlobalTold a t)
  then show ?thesis by (simp add: last_success_of_def get_global_told del: health_op_step.simps)
qed (auto simp: last_success_of_def get_success get_failure last_success_entry [unfolded last_success_of_def])

lemma streak_run:
  "streak_of (health_run ops s) i =
     foldl (\<lambda>n c. if outcome_ok c then 0 else saturating_inc n) (streak_of s i) (cycles i ops)"
  by (induction ops arbitrary: s) (simp_all add: cycles_def streak_step)

lemma last_success_run:
  "last_success_of (health_run ops s) i =
     foldl (\<lambda>l c. if outcome_ok c then Some (at c) else l) (last_success_of s i) (cycles i ops)"
  by (induction ops arbitrary: s) (simp_all add: cycles_def last_success_step)

lemma unat_saturating_inc: "unat (saturating_inc n) = min (Suc (unat n)) (2 ^ 32 - 1)"
proof (cases "n = - 1")
  case True
  then show ?thesis by (simp add: saturating_inc_def unsigned_minus_1_eq_mask mask_eq_exp_minus_1)
next
  case False
  then have "unat n \<noteq> 2 ^ 32 - 1"
    using unsigned_word_eqI [of n "- 1 :: u32", where 'a = nat]
    by (auto simp: unsigned_minus_1_eq_mask mask_eq_exp_minus_1)
  with unsigned_less [of n, where 'a = nat] have "Suc (unat n) < 2 ^ 32" by simp
  with False show ?thesis by (simp add: saturating_inc_def unat_word_ariths)
qed

lemma fold_streak:
  "unat (foldl (\<lambda>n c. if outcome_ok c then 0 else saturating_inc n) (0 :: u32) cs) =
     min (length (takeWhile (\<lambda>c. \<not> outcome_ok c) (rev cs))) (2 ^ 32 - 1)"
  by (induction cs rule: rev_induct) (auto simp: unat_saturating_inc)

lemma fold_last_success:
  "foldl (\<lambda>l c. if outcome_ok c then Some (at c) else l) None cs = map_option at (List.find outcome_ok (rev cs))"
  by (induction cs rule: rev_induct) simp_all

text \<open>
  C33: whatever is recorded and announced, the store reads back the history of each task: the streak
  is the number of failures since the last success (up to the largest \<open>u32\<close>), the outcomes kept
  are the last twenty cycles in order, and the last success is the instant of the last cycle that
  succeeded.
\<close>

theorem store_reads_the_history:
  fixes ops created i
  defines "s \<equiv> health_run ops (file_default created)"
  shows "unat (streak_of s i) = min (length (takeWhile (\<lambda>c. \<not> outcome_ok c) (rev (cycles i ops)))) (2 ^ 32 - 1) \<and>
    recorded s i = drop (length (cycles i ops) - 20) (cycles i ops) \<and>
    last_success_of s i = map_option at (List.find outcome_ok (rev (cycles i ops)))"
proof -
  have n: "get (file_default created) i = None" by (simp add: get_def file_default_def)
  then have "streak_of (file_default created) i = 0" "recorded (file_default created) i = []"
    "last_success_of (file_default created) i = None"
    by (simp_all add: streak_of_def recorded_def last_success_of_def)
  then show ?thesis
    by (simp add: s_def streak_run last_success_run recorded_run fold_streak fold_last_success
        last_n_def OUTCOME_WINDOW_CAPACITY_def)
qed

subsection \<open>The flap rule\<close>

lemma flap_sample_length: "length (flap_sample h c now) \<le> OUTCOME_WINDOW_CAPACITY"
  by (simp add: flap_sample_def Let_def OUTCOME_WINDOW_CAPACITY_def)

lemma flap_sample_member:
  assumes "x \<in> set (flap_sample h c now)"
  shows "x \<in> set (recent_outcomes h) \<and> now - hours (flap_window_hours c) \<le> at x \<and>
    (\<forall>b. flap_baseline_at h = Some b \<longrightarrow> b < at x)"
  using in_set_dropD [OF assms [unfolded flap_sample_def Let_def]] by auto

lemma unat_small: "n \<le> OUTCOME_WINDOW_CAPACITY \<Longrightarrow> unat (of_nat n :: u32) = n"
  by (simp add: unat_of_nat OUTCOME_WINDOW_CAPACITY_def)

text \<open>No multiplication of the percentage wraps in a window of at most twenty cycles.\<close>

lemma success_percent_value:
  assumes T: "unat (fw_total w) \<le> 20" "fw_total w \<noteq> 0" and F: "fw_failures w \<le> fw_total w"
  shows "unat (success_percent w) = (unat (fw_total w) - unat (fw_failures w)) * 100 div unat (fw_total w)"
proof -
  have d: "unat (fw_total w - fw_failures w) = unat (fw_total w) - unat (fw_failures w)"
    using F by (rule unat_sub)
  have "unat (fw_total w - fw_failures w) * unat (100 :: u32) < 2 ^ LENGTH(32)" using T(1) d by simp
  then have "unat ((fw_total w - fw_failures w) * 100) = unat (fw_total w - fw_failures w) * unat (100 :: u32)"
    by (rule unat_mult_lem [THEN iffD1])
  with d have "unat ((fw_total w - fw_failures w) * 100) = (unat (fw_total w) - unat (fw_failures w)) * 100"
    by simp
  moreover have "(if fw_total w \<le> fw_failures w then 0 else fw_total w - fw_failures w) = fw_total w - fw_failures w"
    using F by auto
  ultimately show ?thesis using T(2) by (simp add: success_percent_def unat_div)
qed

text \<open>
  The window a flap alert or its all-clear reports is one of two to twenty kept cycles of the
  task, the first of them within the configured hours and after the last report of the streak rule;
  the failures are at most the cycles, the share of successes is exact (nothing wraps), and
  the task is called flapping exactly when the share is below the configured floor.
\<close>

theorem flap_window_is_sound:
  assumes v: "flap_verdict h c now = v" and w: "v = Flapping w \<or> v = HealthyWindow w"
  shows "2 \<le> unat (fw_total w) \<and> unat (fw_total w) \<le> 20 \<and> fw_failures w \<le> fw_total w \<and>
    (\<exists>x\<in>set (recent_outcomes h). fw_started w = at x) \<and>
    now - hours (flap_window_hours c) \<le> fw_started w \<and>
    (\<forall>b. flap_baseline_at h = Some b \<longrightarrow> b < fw_started w) \<and>
    unat (success_percent w) = (unat (fw_total w) - unat (fw_failures w)) * 100 div unat (fw_total w) \<and>
    (v = Flapping w \<longleftrightarrow> success_percent w < flap_min_success_percent c)"
proof -
  let ?s = "flap_sample h c now"
  let ?f = "filter (\<lambda>o'. \<not> outcome_ok o') ?s"
  have ne: "?s \<noteq> []" and two: "\<not> (of_nat (length ?s) :: u32) < max (flap_min_samples c) 2"
    and wd: "w = \<lparr>fw_failures = of_nat (length ?f), fw_total = of_nat (length ?s),
                  fw_started = at (hd ?s), fw_ended = at (last ?s)\<rparr>"
    and vd: "v = (if success_percent w < flap_min_success_percent c then Flapping w else HealthyWindow w)"
    using v w by (auto simp: flap_verdict_def Let_def split: if_splits)
  have l: "length ?s \<le> OUTCOME_WINDOW_CAPACITY" by (rule flap_sample_length)
  have f: "length ?f \<le> length ?s" by (rule length_filter_le)
  have T: "unat (fw_total w) = length ?s" using wd l by (simp add: unat_small)
  have F: "unat (fw_failures w) = length ?f" using wd unat_small [of "length ?f"] order_trans [OF f l] by simp
  from two have "(2 :: u32) \<le> of_nat (length ?s)" by (simp add: not_less)
  then have t2: "2 \<le> length ?s" using l by (simp add: word_le_nat_alt unat_small)
  have le: "fw_failures w \<le> fw_total w" using T F f by (simp add: word_le_nat_alt)
  have T20: "unat (fw_total w) \<le> 20" using T l by (simp add: OUTCOME_WINDOW_CAPACITY_def)
  have T0: "fw_total w \<noteq> 0" using T t2 by auto
  note p = success_percent_value [OF T20 T0 le]
  note m = flap_sample_member [OF hd_in_set [OF ne]]
  show ?thesis using p le t2 T T20 m vd by (auto simp: wd)
qed

definition demo_liveness :: liveness_config where
  "demo_liveness =
     \<lparr>liveness_enabled = True, alert_after_consecutive_failures = 3, global_silence_alert_hours = 6,
      alert_backoff_hours = 6, flap_enabled = True, flap_window_size = 4, flap_window_hours = 1,
      flap_min_samples = 2, flap_min_success_percent = 60\<rparr>"

definition demo_outcome :: "int \<Rightarrow> bool \<Rightarrow> outcome_record" where
  "demo_outcome t ok = \<lparr>at = t, outcome_ok = ok\<rparr>"

theorem flap_window_is_sound_witness:
  "\<exists>h w. flap_verdict h demo_liveness 6 = Flapping w \<and> fw_started w = 2 \<and> unat (success_percent w) = 25"
proof -
  let ?h = "health_default\<lparr>recent_outcomes :=
    [demo_outcome 1 True, demo_outcome 2 False, demo_outcome 3 True, demo_outcome 4 False, demo_outcome 5 False]\<rparr>"
  let ?w = "\<lparr>fw_failures = 3, fw_total = 4, fw_started = 2, fw_ended = 5\<rparr>"
  have v: "flap_verdict ?h demo_liveness 6 = Flapping ?w"
    by (simp add: flap_verdict_def flap_sample_def Let_def demo_liveness_def demo_outcome_def health_default_def
        hours_def HOUR_def MIN_UTC_def OUTCOME_WINDOW_CAPACITY_def success_percent_def)
  with flap_window_is_sound [OF v, of ?w] show ?thesis
    by (intro exI [where x = ?h] exI [where x = ?w]) simp
qed

subsection \<open>The two rules never report the same failures\<close>

definition baseline_after :: "int \<Rightarrow> task_health_file \<Rightarrow> bytes \<Rightarrow> bool" where
  "baseline_after t s i \<longleftrightarrow> (\<exists>h b. get s i = Some h \<and> flap_baseline_at h = Some b \<and> t \<le> b)"

fun told_after :: "int \<Rightarrow> health_op \<Rightarrow> bool" where
  "told_after t (TaskTold i a t') \<longleftrightarrow> t \<le> t'"
| "told_after t _ \<longleftrightarrow> True"

lemma baseline_entry: "baseline_after t s i \<Longrightarrow> \<exists>b. flap_baseline_at (entry i n s) = Some b \<and> t \<le> b"
  by (auto simp: baseline_after_def entry_def Let_def)

lemma delivered_baseline:
  "health_delivered a t' h = Some h' \<Longrightarrow> flap_baseline_at h' = flap_baseline_at h \<or> flap_baseline_at h' = Some t'"
  by (cases a) auto

lemma baseline_step:
  assumes b: "baseline_after t s i" and x: "told_after t x"
  shows "baseline_after t (health_op_step x s) i"
proof (cases x)
  case (Succeeded j n t')
  with b baseline_entry [OF b, of n] show ?thesis by (auto simp: baseline_after_def get_success)
next
  case (Failed j n e t')
  with b baseline_entry [OF b, of n] show ?thesis by (auto simp: baseline_after_def get_failure)
next
  case (TaskTold j a t')
  with b x told_get [of j a t' s i] delivered_baseline show ?thesis
    by (fastforce simp: baseline_after_def simp del: health_op_step.simps)
next
  case (GlobalTold a t')
  with b show ?thesis by (simp add: baseline_after_def get_global_told del: health_op_step.simps)
qed

lemma baseline_run:
  "baseline_after t s i \<Longrightarrow> list_all (told_after t) ops \<Longrightarrow> baseline_after t (health_run ops s) i"
  by (induction ops arbitrary: s) (simp_all add: baseline_step)

lemma pending_flapping:
  assumes "pending_task_alert i c now s = Some (TaskFlapping j n w e r)"
  shows "\<exists>h. get s i = Some h \<and> flap_verdict h c now = Flapping w"
  using assms
  by (auto simp: pending_task_alert_def health_alert_def pending_flap_alert_def
      split: option.splits if_splits flap_judgement.splits)

text \<open>
  Failures that were reported as a streak are never reported again as flapping: whatever is
  recorded and announced after the announcement of a streak at \<open>t\<close>, the window of a flap alert
  begins after \<open>t\<close>.
\<close>

theorem streak_is_not_reported_as_flapping:
  assumes "get s i \<noteq> None"
    and "list_all (told_after t) ops"
    and "pending_task_alert i c now (health_run (TaskTold i (TaskFailing j n k f e r) t # ops) s) =
           Some (TaskFlapping j' n' w e' r')"
  shows "t < fw_started w"
proof -
  let ?s = "health_run (TaskTold i (TaskFailing j n k f e r) t # ops) s"
  obtain h where h: "get s i = Some h" using assms(1) by auto
  then have "baseline_after t (health_op_step (TaskTold i (TaskFailing j n k f e r) t) s) i"
    by (simp add: baseline_after_def mark_task_alert_delivered_def)
  from baseline_run [OF this assms(2)] have b: "baseline_after t ?s i" by simp
  from pending_flapping [OF assms(3)] obtain h' where h': "get ?s i = Some h'" "flap_verdict h' c now = Flapping w"
    by blast
  with b obtain b' where "flap_baseline_at h' = Some b'" "t \<le> b'" by (auto simp: baseline_after_def)
  with flap_window_is_sound [OF h'(2), of w] show ?thesis by force
qed

definition demo_cycles :: "health_op list" where
  "demo_cycles = [Failed ''t'' [] ''x'' 1, Succeeded ''t'' [] 2, Failed ''t'' [] ''x'' 3, Succeeded ''t'' [] 4]"

theorem streak_is_not_reported_as_flapping_witness:
  "\<exists>w. pending_task_alert ''t'' demo_liveness 5
      (health_run (TaskTold ''t'' (TaskFailing ''t'' [] 3 None None 0) 0 # demo_cycles)
        (put ''t'' health_default (file_default 0))) = Some (TaskFlapping ''t'' [] w (Some ''x'') 0) \<and>
    0 < fw_started w"
proof -
  let ?s = "put ''t'' health_default (file_default 0)"
  let ?w = "\<lparr>fw_failures = 2, fw_total = 4, fw_started = 1, fw_ended = 4\<rparr>"
  have f: "pending_task_alert ''t'' demo_liveness 5
      (health_run (TaskTold ''t'' (TaskFailing ''t'' [] 3 None None 0) 0 # demo_cycles) ?s) =
      Some (TaskFlapping ''t'' [] ?w (Some ''x'') 0)" by code_simp
  have "0 < fw_started ?w"
    by (rule streak_is_not_reported_as_flapping [OF _ _ f]) (simp_all add: demo_cycles_def)
  with f show ?thesis by blast
qed

end
