(* ===== verification/Liveness.thy ===== *)
theory Liveness
  imports HealthSafety
begin

text \<open>
  Saying what the health store decides, \<open>src/scheduler/liveness.rs\<close> and \<open>deliver_liveness_alert\<close> of
  \<open>output.rs\<close>: an outcome is recorded and the alert it makes due is delivered, and a watchdog
  retries. First one pass at a time, with what the webhook answers given by the environment; then
  the tasks and the watchdog interleaved. There deciding is a step of its own, and so is a refusal by the
  webhook; that the webhook takes an alert and that the store commits it is one step (\<open>accept\<close>),
  although the code takes the store's lock again in between.
\<close>

subsection \<open>Delivery\<close>

datatype webhook_reply = ClientFails bytes | Status nat bytes | RequestFails bytes

definition deliver_liveness_alert :: "bytes option \<Rightarrow> webhook_reply \<Rightarrow> bytes + unit" where
  "deliver_liveness_alert webhook reply =
     (case webhook of
        None \<Rightarrow> Inr ()
      | Some url \<Rightarrow>
          if url = [] then Inr ()
          else (case reply of
              ClientFails e \<Rightarrow> Inl (''client build failed: '' @ e)
            | Status code shown \<Rightarrow>
                if 200 \<le> code \<and> code < 300 then Inr () else Inl (''webhook returned '' @ shown)
            | RequestFails e \<Rightarrow> Inl (''webhook request failed: '' @ e)))"

definition deliver :: "bytes option \<Rightarrow> webhook_reply \<Rightarrow> bool" where
  "deliver webhook reply \<longleftrightarrow> is_ok (deliver_liveness_alert webhook reply)"

text \<open>
  The store, its file, and the alerts that counted as delivered with the instant of the commit.
\<close>

record live_state =
  store :: task_health_file
  disk :: health_disk
  posted :: "(int \<times> liveness_alert) list"

text \<open>A mutator persists what it left, unless it ignored the call.\<close>

definition mutate :: "health_codec \<Rightarrow> save_end \<Rightarrow> (task_health_file \<Rightarrow> task_health_file option) \<Rightarrow> live_state \<Rightarrow> live_state" where
  "mutate C e g st =
     (case g (store st) of
        None \<Rightarrow> st
      | Some s \<Rightarrow> st\<lparr>store := s, disk := persist_file C e s (disk st)\<rparr>)"

text \<open>What the environment decides of one delivery: when it looks, what the webhook answers, when it
  commits, how the save ends.\<close>

record delivery =
  looks_at :: int
  answer :: webhook_reply
  commits_at :: int
  saves :: save_end

definition deliver_task_alert ::
  "health_codec \<Rightarrow> liveness_config \<Rightarrow> bytes option \<Rightarrow> delivery \<Rightarrow> bytes \<Rightarrow> live_state \<Rightarrow> live_state" where
  "deliver_task_alert C c hook v task_id st =
     (case pending_task_alert task_id c (looks_at v) (store st) of
        None \<Rightarrow> st
      | Some a \<Rightarrow>
          if deliver hook (answer v)
          then mutate C (saves v) (mark_task_alert_delivered task_id a (commits_at v))
                 (st\<lparr>posted := posted st @ [(commits_at v, a)]\<rparr>)
          else st)"

datatype task_outcome = Success | Failure bytes

definition record_outcome ::
  "health_codec \<Rightarrow> liveness_config \<Rightarrow> bytes option \<Rightarrow> int \<Rightarrow> save_end \<Rightarrow> delivery \<Rightarrow> bytes \<Rightarrow> bytes \<Rightarrow> task_outcome \<Rightarrow>
     live_state \<Rightarrow> live_state" where
  "record_outcome C c hook now e v task_id name outcome st =
     (if \<not> liveness_enabled c then st
      else deliver_task_alert C c hook v task_id
        (mutate C e
          (\<lambda>s. Some (case outcome of
              Success \<Rightarrow> record_success task_id name now s
            | Failure reason \<Rightarrow> record_failure task_id name reason now s)) st))"

text \<open>One pass of the watchdog over the enabled tasks, each with its delivery, then the global rule.\<close>

definition deliver_global_alert ::
  "health_codec \<Rightarrow> liveness_config \<Rightarrow> bytes option \<Rightarrow> delivery \<Rightarrow> nat \<Rightarrow> live_state \<Rightarrow> live_state" where
  "deliver_global_alert C c hook v n st =
     (case pending_global_alert c n (looks_at v) (store st) of
        None \<Rightarrow> st
      | Some a \<Rightarrow>
          if deliver hook (answer v)
          then mutate C (saves v) (mark_global_alert_delivered a (commits_at v))
                 (st\<lparr>posted := posted st @ [(commits_at v, a)]\<rparr>)
          else st)"

definition watchdog_tick ::
  "health_codec \<Rightarrow> liveness_config \<Rightarrow> bytes option \<Rightarrow> (bytes \<times> delivery) list \<Rightarrow> delivery \<Rightarrow> live_state \<Rightarrow> live_state" where
  "watchdog_tick C c hook enabled v st =
     deliver_global_alert C c hook v (length enabled)
       (foldl (\<lambda>st (i, u). deliver_task_alert C c hook u i st) st enabled)"

subsection \<open>The backoff ladder\<close>

text \<open>
  The streak rule, the flap rule and the global rule repeat their alert by one discipline: an alert
  is owed only when the ladder lets it, and telling it moves the ladder.
\<close>

locale ladder =
  fixes told_at :: "'s \<Rightarrow> int option"
    and told_count :: "'s \<Rightarrow> u32"
    and owes :: "liveness_config \<Rightarrow> int \<Rightarrow> 's \<Rightarrow> bool"
    and tell :: "int \<Rightarrow> 's \<Rightarrow> 's"
  assumes owes_due: "owes c now s \<Longrightarrow> alert_due (told_at s) (told_count s) c now"
    and tell_at: "told_at (tell t s) = Some t"
    and tell_count: "told_count (tell t s) = saturating_inc (told_count s)"
begin

lemma waits:
  assumes "owes c now s'" and "told_at s' = told_at (tell t s)" and "told_count s' = told_count (tell t s)"
  shows "t + backoff (saturating_inc (told_count s)) c \<le> now"
  using owes_due [OF assms(1)] assms(2,3) by (simp add: tell_at tell_count alert_due_def)

end

lemma hours_mono: "a \<le> b \<Longrightarrow> hours a \<le> hours b"
proof -
  assume "a \<le> b"
  then have "min a 8760 \<le> min b 8760" by (rule min.mono) simp
  then show ?thesis by (simp add: hours_def HOUR_def word_le_def)
qed

lemma backoff_least: "hours (alert_backoff_hours c) \<le> backoff n c"
proof -
  let ?h = "alert_backoff_hours c"
  have "?h \<le> saturating_mul_u64 ?h LATE_BACKOFF_MULTIPLIER"
  proof (cases "unat ?h * 4 < 2 ^ 64")
    case True
    then have "unat (?h * 4) = unat ?h * 4" using unat_mult_lem [of ?h 4] by simp
    with True show ?thesis by (simp add: saturating_mul_u64_def LATE_BACKOFF_MULTIPLIER_def word_le_nat_alt)
  qed (simp add: saturating_mul_u64_def LATE_BACKOFF_MULTIPLIER_def)
  then show ?thesis by (simp add: backoff_def hours_mono)
qed

definition owes_streak :: "bytes \<Rightarrow> liveness_config \<Rightarrow> int \<Rightarrow> task_health \<Rightarrow> bool" where
  "owes_streak i c now h \<longleftrightarrow>
     pending_resolution h = None \<and> alert_after_consecutive_failures c \<le> consecutive_failures h \<and>
     health_alert i h c now \<noteq> None"

definition owes_flap :: "bytes \<Rightarrow> liveness_config \<Rightarrow> int \<Rightarrow> task_health \<Rightarrow> bool" where
  "owes_flap i c now h \<longleftrightarrow> (\<exists>w. flap_verdict h c now = Flapping w) \<and> pending_flap_alert i h c now \<noteq> None"

definition owes_global :: "nat \<Rightarrow> liveness_config \<Rightarrow> int \<Rightarrow> task_health_file \<Rightarrow> bool" where
  "owes_global n c now s \<longleftrightarrow> global_pending (global s) = None \<and> pending_global_alert c n now s \<noteq> None"

interpretation streak: ladder last_alert_at alerts_sent_this_streak "owes_streak i"
    "\<lambda>t h. the (health_delivered (TaskFailing i n k f e r) t h)" for i n k f e r
  by unfold_locales (auto simp: owes_streak_def health_alert_def split: if_splits)

interpretation flap: ladder flap_last_alert_at flap_alerts_sent "owes_flap i"
    "\<lambda>t h. the (health_delivered (TaskFlapping i n w e r) t h)" for i n w e r
  by unfold_locales (auto simp: owes_flap_def pending_flap_alert_def split: if_splits)

interpretation silence: ladder "\<lambda>s. global_last_alert_at (global s)" "\<lambda>s. global_alerts_sent (global s)"
    "owes_global k" "\<lambda>t s. the (mark_global_alert_delivered (GlobalSilence since d ever n r) t s)" for k since d ever n r
  by unfold_locales
    (auto simp: owes_global_def pending_global_alert_def mark_global_alert_delivered_def Let_def split: if_splits)

text \<open>What leaves the ladder of a task's streak where it is.\<close>

fun streak_quiet :: "bytes \<Rightarrow> health_op \<Rightarrow> bool" where
  "streak_quiet i (Succeeded j n t) \<longleftrightarrow> j \<noteq> i"
| "streak_quiet i (TaskTold j a t) \<longleftrightarrow> j \<noteq> i"
| "streak_quiet i _ \<longleftrightarrow> True"

definition on_ladder :: "bytes \<Rightarrow> int option \<Rightarrow> u32 \<Rightarrow> task_health_file \<Rightarrow> bool" where
  "on_ladder i l k s \<longleftrightarrow>
     (\<exists>h. get s i = Some h \<and> consecutive_failures h \<noteq> 0 \<and> last_alert_at h = l \<and> alerts_sent_this_streak h = k)"

lemma entry_known: "get s i = Some h \<Longrightarrow> entry i n s = h \<or> entry i n s = h\<lparr>task_name := n\<rparr>"
  by (simp add: entry_def)

lemma on_ladder_step: "on_ladder i l k s \<Longrightarrow> streak_quiet i x \<Longrightarrow> on_ladder i l k (health_op_step x s)"
proof (cases x)
  case (Failed j n e t)
  assume "on_ladder i l k s"
  then obtain h where h: "get s i = Some h" "consecutive_failures h \<noteq> 0" "last_alert_at h = l"
    "alerts_sent_this_streak h = k" by (auto simp: on_ladder_def)
  then show ?thesis using entry_known [OF h(1), of n] by (auto simp: on_ladder_def get_failure Failed)
next
  case (TaskTold j a t)
  assume "on_ladder i l k s" "streak_quiet i x"
  then show ?thesis using get_told [of j a t s i] by (simp add: on_ladder_def TaskTold del: health_op_step.simps)
next
  case (GlobalTold a t)
  assume "on_ladder i l k s"
  then show ?thesis by (simp add: on_ladder_def get_global_told GlobalTold del: health_op_step.simps)
qed (auto simp: on_ladder_def get_success)

lemma on_ladder_run:
  "on_ladder i l k s \<Longrightarrow> list_all (streak_quiet i) ops \<Longrightarrow> on_ladder i l k (health_run ops s)"
  by (induction ops arbitrary: s) (simp_all add: on_ladder_step)

lemma pending_failing:
  assumes "pending_task_alert i c now s = Some (TaskFailing j n k f e r)"
  shows "\<exists>h. get s i = Some h \<and> owes_streak i c now h"
  using assms
  by (auto simp: pending_task_alert_def health_alert_def pending_flap_alert_def owes_streak_def
      split: option.splits if_splits flap_judgement.splits)

text \<open>
  The alerts of one streak keep their distance: after an alert committed at \<open>t1\<close>, and
  whatever fails and whatever is said of other tasks, no alert of that streak is owed before the
  configured hours have passed, and after the second one not before the longer wait.
\<close>

theorem streak_alerts_back_off:
  assumes h: "get s i = Some h" "consecutive_failures h \<noteq> 0"
    and ops: "list_all (streak_quiet i) ops"
    and p: "pending_task_alert i c t2 (health_run (TaskTold i (TaskFailing j n k f e r) t1 # ops) s) =
              Some (TaskFailing j' n' k' f' e' r')"
  shows "t1 + backoff (saturating_inc (alerts_sent_this_streak h)) c \<le> t2 \<and>
    t1 + hours (alert_backoff_hours c) \<le> t2"
proof -
  let ?s1 = "health_op_step (TaskTold i (TaskFailing j n k f e r) t1) s"
  have "on_ladder i (Some t1) (saturating_inc (alerts_sent_this_streak h)) ?s1"
    using h by (simp add: on_ladder_def mark_task_alert_delivered_def)
  from on_ladder_run [OF this ops] obtain h' where
    h': "get (health_run ops ?s1) i = Some h'" "last_alert_at h' = Some t1"
      "alerts_sent_this_streak h' = saturating_inc (alerts_sent_this_streak h)"
    by (auto simp: on_ladder_def)
  from pending_failing [OF p] h'(1) have "owes_streak i c t2 h'" by auto
  from streak.waits [OF this, where s = h and t = t1] h' backoff_least [of c "saturating_inc (alerts_sent_this_streak h)"]
  show ?thesis by simp
qed

theorem streak_alerts_back_off_witness:
  "pending_task_alert ''t'' demo_liveness (6 * HOUR)
     (health_run (TaskTold ''t'' (TaskFailing ''t'' [] 3 None None 0) 0 # [Failed ''t'' [] ''x'' 1])
       (put ''t'' (health_default\<lparr>consecutive_failures := 3\<rparr>) (file_default 0))) =
     Some (TaskFailing ''t'' [] 4 None (Some ''x'') 1) \<and> hours (alert_backoff_hours demo_liveness) \<le> 6 * HOUR"
proof -
  let ?h = "health_default\<lparr>consecutive_failures := 3\<rparr>"
  let ?s = "put ''t'' ?h (file_default 0)"
  have p: "pending_task_alert ''t'' demo_liveness (6 * HOUR)
     (health_run (TaskTold ''t'' (TaskFailing ''t'' [] 3 None None 0) 0 # [Failed ''t'' [] ''x'' 1]) ?s) =
     Some (TaskFailing ''t'' [] 4 None (Some ''x'') 1)" by code_simp
  have g: "get ?s ''t'' = Some ?h" by simp
  from streak_alerts_back_off [OF g _ _ p] p show ?thesis by simp
qed

subsection \<open>A failing task is announced\<close>

datatype live_event =
    Outcome int save_end delivery bytes bytes task_outcome
  | Tick "(bytes \<times> delivery) list" delivery

fun live_event_step :: "health_codec \<Rightarrow> liveness_config \<Rightarrow> bytes option \<Rightarrow> live_event \<Rightarrow> live_state \<Rightarrow> live_state" where
  "live_event_step C c hook (Outcome now e v i n r) st = record_outcome C c hook now e v i n r st"
| "live_event_step C c hook (Tick enabled v) st = watchdog_tick C c hook enabled v st"

definition live_run :: "health_codec \<Rightarrow> liveness_config \<Rightarrow> bytes option \<Rightarrow> live_event list \<Rightarrow> live_state \<Rightarrow> live_state" where
  "live_run C c hook evs st = foldl (\<lambda>st x. live_event_step C c hook x st) st evs"

text \<open>The webhook takes nothing about \<open>i\<close>, and \<open>i\<close> does not succeed.\<close>

fun unheard :: "bytes option \<Rightarrow> bytes \<Rightarrow> live_event \<Rightarrow> bool" where
  "unheard hook i (Outcome now e v j n r) \<longleftrightarrow> j = i \<longrightarrow> r \<noteq> Success \<and> \<not> deliver hook (answer v)"
| "unheard hook i (Tick enabled v) \<longleftrightarrow> list_all (\<lambda>(j, u). j = i \<longrightarrow> \<not> deliver hook (answer u)) enabled"

text \<open>A delivery about \<open>i\<close> that the webhook takes.\<close>

fun heard :: "bytes option \<Rightarrow> bytes \<Rightarrow> live_event \<Rightarrow> bool" where
  "heard hook i (Outcome now e v j n r) \<longleftrightarrow> j = i \<and> r \<noteq> Success \<and> deliver hook (answer v)"
| "heard hook i (Tick enabled v) \<longleftrightarrow> (\<exists>(j, u)\<in>set enabled. j = i \<and> deliver hook (answer u))"

text \<open>At or past the threshold, with nothing said of this streak and no all-clear owed.\<close>

definition untold :: "liveness_config \<Rightarrow> bytes \<Rightarrow> live_state \<Rightarrow> bool" where
  "untold c i st \<longleftrightarrow>
     (\<exists>h. get (store st) i = Some h \<and> alert_after_consecutive_failures c \<le> consecutive_failures h \<and>
          consecutive_failures h \<noteq> 0 \<and> last_alert_at h = None \<and> pending_resolution h = None)"

fun streak_alert :: "bytes \<Rightarrow> liveness_alert \<Rightarrow> bool" where
  "streak_alert i (TaskFailing j n k f e r) \<longleftrightarrow> j = i"
| "streak_alert i _ \<longleftrightarrow> False"

definition announced :: "bytes \<Rightarrow> live_state \<Rightarrow> live_state \<Rightarrow> bool" where
  "announced i st st' \<longleftrightarrow>
     (\<exists>new. posted st' = posted st @ new \<and> (\<exists>p\<in>set new. streak_alert i (snd p)))"

lemma owed_when_untold:
  assumes "untold c i st"
  shows "\<exists>n k f e. pending_task_alert i c now (store st) = Some (TaskFailing i n k f e
           (case get (store st) i of None \<Rightarrow> 0 | Some h \<Rightarrow> alerts_sent_this_streak h))"
  using assms by (auto simp: untold_def pending_task_alert_def health_alert_def alert_due_def)

lemma posted_mutate [simp]: "posted (mutate C e g st) = posted st"
  by (simp add: mutate_def split: option.split)

lemma store_mutate [simp]: "store (mutate C e g st) = (case g (store st) of None \<Rightarrow> store st | Some s \<Rightarrow> s)"
  by (simp add: mutate_def split: option.split)

lemma posted_grows:
  "\<exists>new. posted (deliver_task_alert C c hook v i st) = posted st @ new"
  "\<exists>new. posted (deliver_global_alert C c hook v n st) = posted st @ new"
  by (simp_all add: deliver_task_alert_def deliver_global_alert_def split: option.split)

lemma posted_fold: "\<exists>new. posted (foldl (\<lambda>st (i, u). deliver_task_alert C c hook u i st) st xs) = posted st @ new"
proof (induction xs arbitrary: st)
  case (Cons x xs)
  obtain i u where x: "x = (i, u)" by (cases x)
  from posted_grows(1) [of C c hook u i st] obtain a where "posted (deliver_task_alert C c hook u i st) = posted st @ a"
    by blast
  with Cons.IH [of "deliver_task_alert C c hook u i st"] show ?case by (auto simp: x)
qed simp

lemma untold_frame: "get (store st') i = get (store st) i \<Longrightarrow> untold c i st \<Longrightarrow> untold c i st'"
  by (simp add: untold_def)

lemma deliver_other:
  "j \<noteq> i \<Longrightarrow> get (store (deliver_task_alert C c hook v j st)) i = get (store st) i"
  by (auto simp: deliver_task_alert_def mark_task_alert_delivered_def split: option.split)

lemma deliver_refused: "\<not> deliver hook (answer v) \<Longrightarrow> deliver_task_alert C c hook v i st = st"
  by (simp add: deliver_task_alert_def split: option.split)

lemma deliver_global_frame: "get (store (deliver_global_alert C c hook v n st)) i = get (store st) i"
  by (auto simp: deliver_global_alert_def mark_global_alert_delivered_def split: option.split)

lemma deliver_accepted:
  assumes "untold c i st" and "deliver hook (answer v)"
  shows "announced i st (deliver_task_alert C c hook v i st)"
  using owed_when_untold [OF assms(1), of "looks_at v"] assms(2)
  by (auto simp: deliver_task_alert_def announced_def)

lemma announced_more:
  assumes "announced i st st'" and "posted st'' = posted st' @ new"
  shows "announced i st st''"
proof -
  from assms(1) obtain m where m: "posted st' = posted st @ m" "\<exists>p\<in>set m. streak_alert i (snd p)"
    by (auto simp: announced_def)
  with assms(2) have "posted st'' = posted st @ (m @ new)" by simp
  with m(2) show ?thesis unfolding announced_def by (intro exI [where x = "m @ new"]) auto
qed

lemma announced_later:
  assumes "posted st' = posted st @ new" and "announced i st' st''"
  shows "announced i st st''"
proof -
  from assms(2) obtain m where m: "posted st'' = posted st' @ m" "\<exists>p\<in>set m. streak_alert i (snd p)"
    by (auto simp: announced_def)
  with assms(1) have "posted st'' = posted st @ (new @ m)" by simp
  with m(2) show ?thesis unfolding announced_def by (intro exI [where x = "new @ m"]) auto
qed

text \<open>A failure recorded in that state leaves it; one below the threshold may reach it.\<close>

lemma saturating_inc_le: "n \<le> saturating_inc n"
  unfolding word_le_nat_alt unat_saturating_inc using unsigned_less [of n, where 'a = nat] by simp

lemma untold_failure:
  assumes "untold c i st" and "store st' = record_failure i n e t (store st)"
  shows "untold c i st'"
proof -
  from assms(1) obtain h where h: "get (store st) i = Some h"
    "alert_after_consecutive_failures c \<le> consecutive_failures h" "consecutive_failures h \<noteq> 0"
    "last_alert_at h = None" "pending_resolution h = None" by (auto simp: untold_def)
  note le = order_trans [OF h(2) saturating_inc_le]
  show ?thesis using entry_known [OF h(1), of n] h le by (auto simp: untold_def assms(2) get_failure)
qed

lemma fold_refused:
  "list_all (\<lambda>(j, u). j = i \<longrightarrow> \<not> deliver hook (answer u)) xs \<Longrightarrow>
     get (store (foldl (\<lambda>st (i, u). deliver_task_alert C c hook u i st) st xs)) i = get (store st) i"
proof (induction xs arbitrary: st)
  case (Cons x xs)
  obtain j u where x: "x = (j, u)" by (cases x)
  have "get (store (deliver_task_alert C c hook u j st)) i = get (store st) i"
    using Cons.prems deliver_refused [of hook u C c j st] by (cases "j = i") (auto simp: x deliver_other)
  with Cons x show ?case by simp
qed simp

lemma untold_unheard:
  assumes "untold c i st" and "unheard hook i x"
  shows "untold c i (live_event_step C c hook x st) \<and> (\<exists>new. posted (live_event_step C c hook x st) = posted st @ new)"
proof (cases x)
  case (Outcome now e v j n r)
  show ?thesis
  proof (cases "liveness_enabled c")
    case en: True
    let ?g = "\<lambda>s. Some (case r of Success \<Rightarrow> record_success j n now s | Failure reason \<Rightarrow> record_failure j n reason now s)"
    let ?st = "mutate C e ?g st"
    have r: "live_event_step C c hook x st = deliver_task_alert C c hook v j ?st"
      using en by (simp add: Outcome record_outcome_def)
    have p: "\<exists>new. posted (deliver_task_alert C c hook v j ?st) = posted st @ new"
      using posted_grows(1) [of C c hook v j ?st] by simp
    show ?thesis
    proof (cases "j = i")
      case True
      with assms(2) Outcome obtain reason where f: "r = Failure reason" "\<not> deliver hook (answer v)"
        by (cases r) auto
      with True have "untold c i ?st" by (intro untold_failure [OF assms(1)]) simp
      with r p f True show ?thesis by (simp add: deliver_refused)
    next
      case False
      then have "get (store (deliver_task_alert C c hook v j ?st)) i = get (store st) i"
        by (simp add: deliver_other get_success get_failure split: task_outcome.split)
      with r p assms(1) show ?thesis by (simp add: untold_frame)
    qed
  qed (use assms in \<open>simp add: Outcome record_outcome_def\<close>)
next
  case (Tick xs v)
  let ?f = "foldl (\<lambda>st (i, u). deliver_task_alert C c hook u i st) st xs"
  have "get (store ?f) i = get (store st) i" using assms(2) fold_refused [of i hook xs C c st] Tick by simp
  moreover obtain a where "posted ?f = posted st @ a" using posted_fold [of C c hook st xs] by blast
  moreover obtain b where "posted (deliver_global_alert C c hook v (length xs) ?f) = posted ?f @ b"
    using posted_grows(2) [of C c hook v "length xs" ?f] by blast
  ultimately show ?thesis
    using assms(1) by (simp add: Tick watchdog_tick_def deliver_global_frame untold_def)
qed

lemma untold_run:
  "untold c i st \<Longrightarrow> list_all (unheard hook i) evs \<Longrightarrow>
     untold c i (live_run C c hook evs st) \<and> (\<exists>new. posted (live_run C c hook evs st) = posted st @ new)"
proof (induction evs arbitrary: st)
  case (Cons x evs)
  from Cons.prems untold_unheard [of c i st hook x C]
  have u: "untold c i (live_event_step C c hook x st)"
    and p: "\<exists>new. posted (live_event_step C c hook x st) = posted st @ new" by simp_all
  from Cons.IH [OF u] Cons.prems(2) p show ?case by (auto simp: live_run_def)
qed (simp add: live_run_def)

lemma fold_accepted:
  "untold c i st \<Longrightarrow> \<exists>(j, u)\<in>set xs. j = i \<and> deliver hook (answer u) \<Longrightarrow>
     announced i st (foldl (\<lambda>st (i, u). deliver_task_alert C c hook u i st) st xs)"
proof (induction xs arbitrary: st)
  case (Cons x xs)
  obtain j u where x: "x = (j, u)" by (cases x)
  let ?st = "deliver_task_alert C c hook u j st"
  show ?case
  proof (cases "j = i \<and> deliver hook (answer u)")
    case True
    then have "announced i st ?st" using Cons.prems(1) by (simp add: deliver_accepted)
    with posted_fold [of C c hook ?st xs] show ?thesis by (auto simp: x intro: announced_more)
  next
    case False
    then have "get (store ?st) i = get (store st) i"
      using deliver_refused [of hook u C c j st] by (cases "j = i") (auto simp: deliver_other)
    with Cons.prems(1) have "untold c i ?st" by (simp add: untold_frame)
    moreover have "\<exists>(j, u)\<in>set xs. j = i \<and> deliver hook (answer u)" using Cons.prems(2) False x by auto
    ultimately have "announced i ?st (foldl (\<lambda>st (i, u). deliver_task_alert C c hook u i st) ?st xs)" by (rule Cons.IH)
    with posted_grows(1) [of C c hook u j st] show ?thesis by (auto simp: x intro: announced_later)
  qed
qed simp

lemma heard_announces:
  assumes "untold c i st" and "heard hook i x" and "liveness_enabled c"
  shows "announced i st (live_event_step C c hook x st)"
proof (cases x)
  case (Outcome now e v j n r)
  with assms(2) obtain reason where f: "j = i" "r = Failure reason" "deliver hook (answer v)" by (cases r) auto
  let ?st = "mutate C e (\<lambda>s. Some (record_failure i n reason now s)) st"
  have "untold c i ?st" by (rule untold_failure [OF assms(1)]) simp
  from deliver_accepted [OF this f(3), of C] have "announced i ?st (deliver_task_alert C c hook v i ?st)" .
  with f Outcome assms(3) show ?thesis by (auto simp: record_outcome_def announced_def)
next
  case (Tick xs v)
  let ?f = "foldl (\<lambda>st (i, u). deliver_task_alert C c hook u i st) st xs"
  have "announced i st ?f" using assms(1,2) Tick by (intro fold_accepted) auto
  with posted_grows(2) [of C c hook v "length xs" ?f] show ?thesis
    by (auto simp: Tick watchdog_tick_def intro: announced_more)
qed

text \<open>
  C31: with the liveness alarm on, a task at or past its threshold that has not been announced, and of which no all-clear is
  owed from an earlier streak (that one is told first), is announced as soon as the webhook takes a message about it,
  at one of its further failures or in a pass of the watchdog, whatever fails, succeeds and is
  refused before that: the alert is not lost.
\<close>

theorem failing_task_is_announced:
  assumes "liveness_enabled c" and "untold c i st" and "list_all (unheard hook i) evs" and "heard hook i x"
  shows "announced i st (live_run C c hook (evs @ [x]) st)"
proof -
  have e: "live_run C c hook (evs @ [x]) st = live_event_step C c hook x (live_run C c hook evs st)"
    by (simp add: live_run_def)
  from untold_run [OF assms(2,3), of C] have u: "untold c i (live_run C c hook evs st)"
    and p: "\<exists>new. posted (live_run C c hook evs st) = posted st @ new" by simp_all
  from heard_announces [OF u assms(4,1), of C] p show ?thesis
    unfolding e by (auto intro: announced_later)
qed

definition demo_delivery :: "nat \<Rightarrow> int \<Rightarrow> delivery" where
  "demo_delivery code t = \<lparr>looks_at = t, answer = Status code [], commits_at = t, saves = Saved\<rparr>"

definition demo_health_codec :: health_codec where
  "demo_health_codec = \<lparr>encode_file = (\<lambda>f. decimal (length (tasks f))), decode_file = (\<lambda>_. None)\<rparr>"

theorem failing_task_is_announced_witness:
  "announced ''t'' \<lparr>store = put ''t'' (health_default\<lparr>consecutive_failures := 3\<rparr>) (file_default 0),
        disk = \<lparr>health_json = None, health_tmp = None\<rparr>, posted = []\<rparr>
     (live_run demo_health_codec demo_liveness (Some ''http'')
       ([Outcome 1 Saved (demo_delivery 500 1) ''t'' [] (Failure ''x''),
         Outcome 2 Saved (demo_delivery 200 2) ''u'' [] Success,
         Tick [(''t'', demo_delivery 503 3)] (demo_delivery 200 3)] @ [Tick [(''t'', demo_delivery 204 4)] (demo_delivery 500 4)])
       \<lparr>store = put ''t'' (health_default\<lparr>consecutive_failures := 3\<rparr>) (file_default 0),
        disk = \<lparr>health_json = None, health_tmp = None\<rparr>, posted = []\<rparr>)"
  by (rule failing_task_is_announced)
    (simp_all add: demo_liveness_def untold_def health_default_def demo_delivery_def deliver_def
      deliver_liveness_alert_def)

subsection \<open>The tasks and the watchdog at once\<close>

text \<open>
  The store is locked to record, to decide and to commit, but not while the webhook is called. So an
  alert that was decided is in flight, and anything may be recorded, decided or committed before its
  own delivery ends.
\<close>

record live_conf =
  table :: task_health_file
  in_flight :: "liveness_alert list"
  delivered :: "liveness_alert list"

definition told_op :: "liveness_alert \<Rightarrow> int \<Rightarrow> health_op" where
  "told_op a t = (case alert_task a of Some i \<Rightarrow> TaskTold i a t | None \<Rightarrow> GlobalTold a t)"

inductive live_step :: "liveness_config \<Rightarrow> live_conf \<Rightarrow> live_conf \<Rightarrow> bool" for c where
  succeed: "live_step c x (x\<lparr>table := record_success i n t (table x)\<rparr>)"
| fail: "live_step c x (x\<lparr>table := record_failure i n e t (table x)\<rparr>)"
| decide: "pending_task_alert i c t (table x) = Some a \<Longrightarrow>
    live_step c x (x\<lparr>in_flight := in_flight x @ [a]\<rparr>)"
| decide_global: "pending_global_alert c k t (table x) = Some a \<Longrightarrow>
    live_step c x (x\<lparr>in_flight := in_flight x @ [a]\<rparr>)"
| accept: "in_flight x = as @ a # bs \<Longrightarrow>
    live_step c x (x\<lparr>table := health_op_step (told_op a t) (table x), in_flight := as @ bs,
                     delivered := delivered x @ [a]\<rparr>)"
| refuse: "in_flight x = as @ a # bs \<Longrightarrow> live_step c x (x\<lparr>in_flight := as @ bs\<rparr>)"

inductive live_reach :: "liveness_config \<Rightarrow> int \<Rightarrow> live_conf \<Rightarrow> bool" for c created where
  start: "live_reach c created \<lparr>table = file_default created, in_flight = [], delivered = []\<rparr>"
| step: "live_reach c created x \<Longrightarrow> live_step c x y \<Longrightarrow> live_reach c created y"

text \<open>Which alert an all-clear answers.\<close>

datatype alarm = StreakAlarm bytes | FlapAlarm bytes | SilenceAlarm

fun raises :: "liveness_alert \<Rightarrow> alarm option" where
  "raises (TaskFailing i _ _ _ _ _) = Some (StreakAlarm i)"
| "raises (TaskFlapping i _ _ _ _) = Some (FlapAlarm i)"
| "raises (GlobalSilence _ _ _ _ _) = Some SilenceAlarm"
| "raises _ = None"

fun clears :: "liveness_alert \<Rightarrow> alarm option" where
  "clears (TaskRecovered i _ _ _ _) = Some (StreakAlarm i)"
| "clears (TaskFlapResolved i _ _) = Some (FlapAlarm i)"
| "clears (GlobalRecovered _ _ _) = Some SilenceAlarm"
| "clears _ = None"

definition raised :: "alarm \<Rightarrow> liveness_alert list \<Rightarrow> bool" where
  "raised m as \<longleftrightarrow> (\<exists>a\<in>set as. raises a = Some m)"

lemma raised_append [simp]: "raised m (as @ bs) \<longleftrightarrow> raised m as \<or> raised m bs"
  by (auto simp: raised_def)

lemma raised_single [simp]: "raised m [a] \<longleftrightarrow> raises a = Some m" "\<not> raised m []"
  by (simp_all add: raised_def)

text \<open>The marks in the store of an alarm that was raised.\<close>

definition marked :: "task_health_file \<Rightarrow> alarm \<Rightarrow> bool" where
  "marked s m \<longleftrightarrow>
     (case m of
        StreakAlarm i \<Rightarrow> \<exists>h. get s i = Some h \<and> (alerts_sent_this_streak h \<noteq> 0 \<or> pending_resolution h \<noteq> None)
      | FlapAlarm i \<Rightarrow> \<exists>h. get s i = Some h \<and> flap_alerts_sent h \<noteq> 0
      | SilenceAlarm \<Rightarrow> global_alerts_sent (global s) \<noteq> 0 \<or> global_pending (global s) \<noteq> None)"

definition live_inv :: "live_conf \<Rightarrow> bool" where
  "live_inv x \<longleftrightarrow>
     (\<forall>m. marked (table x) m \<longrightarrow> raised m (delivered x)) \<and>
     (\<forall>a\<in>set (in_flight x). \<forall>m. clears a = Some m \<longrightarrow> raised m (delivered x)) \<and>
     (\<forall>as a bs m. delivered x = as @ a # bs \<longrightarrow> clears a = Some m \<longrightarrow> raised m as)"

lemma marked_success: "marked (record_success i n t s) m \<Longrightarrow> marked s m"
  by (cases "get s i")
    (auto simp: marked_def get_success entry_def health_success_def health_default_def record_success_def
      global_default_def word_gt_0 Let_def split: alarm.splits if_splits)

lemma marked_failure: "marked (record_failure i n e t s) m \<Longrightarrow> marked s m"
  by (cases "get s i")
    (auto simp: marked_def get_failure entry_def health_default_def Let_def record_failure_def
      split: alarm.splits if_splits)

lemma marked_told: "marked (health_op_step (told_op a t) s) m \<Longrightarrow> marked s m \<or> raises a = Some m"
  by (cases a)
    (auto simp: marked_def told_op_def mark_task_alert_delivered_def mark_global_alert_delivered_def
      split: alarm.splits option.splits if_splits)

lemma decided_clears:
  "pending_task_alert i c t s = Some a \<Longrightarrow> clears a = Some m \<Longrightarrow> marked s m"
  by (auto simp: pending_task_alert_def health_alert_def pending_flap_alert_def marked_def word_gt_0
      split: option.splits if_splits flap_judgement.splits)

lemma decided_global_clears:
  "pending_global_alert c k t s = Some a \<Longrightarrow> clears a = Some m \<Longrightarrow> marked s m"
  by (auto simp: pending_global_alert_def marked_def Let_def split: option.splits if_splits)

lemma snoc_split: "xs @ [x] = as @ a # bs \<Longrightarrow> (bs = [] \<and> as = xs \<and> a = x) \<or> (\<exists>cs. bs = cs @ [x] \<and> xs = as @ a # cs)"
  by (cases bs rule: rev_cases) auto

lemma live_inv_step:
  assumes "live_step c x y" and "live_inv x"
  shows "live_inv y"
  using assms
proof (cases rule: live_step.cases)
  case (accept as a bs t)
  from assms(2) accept have a: "\<And>m. clears a = Some m \<Longrightarrow> raised m (delivered x)"
    and o: "\<And>ds b es m. delivered x = ds @ b # es \<Longrightarrow> clears b = Some m \<Longrightarrow> raised m ds"
    by (auto simp: live_inv_def)
  have "raised m ds" if "delivered x @ [a] = ds @ b # es" "clears b = Some m" for ds b es m
    using snoc_split [OF that(1)] a o that(2) by auto
  moreover have "raised m (delivered x) \<or> raises a = Some m"
    if "marked (health_op_step (told_op a t) (table x)) m" for m
    using marked_told [OF that] assms(2) by (auto simp: live_inv_def)
  ultimately show ?thesis using assms(2) accept by (auto simp: live_inv_def simp del: health_op_step.simps)
qed (auto simp: live_inv_def dest: marked_success marked_failure decided_clears decided_global_clears)

lemma live_inv_reach: "live_reach c created x \<Longrightarrow> live_inv x"
proof (induction rule: live_reach.induct)
  case start
  have "\<not> marked (file_default created) m" for m
    by (cases m) (simp_all add: marked_def get_def file_default_def global_default_def)
  then show ?case by (simp add: live_inv_def)
qed (rule live_inv_step)

text \<open>
  C32: an all-clear is never sent unasked: in every interleaving of the tasks, the watchdog and
  their deliveries, each \<open>[RESOLVED]\<close> that reached the webhook comes after an \<open>[ALERT]\<close> of the same
  kind (and about the same task) that reached it.
\<close>

theorem all_clear_follows_its_alert:
  assumes "live_reach c created x" and "delivered x = as @ a # bs" and "clears a = Some m"
  shows "\<exists>b\<in>set as. raises b = Some m"
  using live_inv_reach [OF assms(1)] assms(2,3) by (auto simp: live_inv_def raised_def)

subsection \<open>What is lost\<close>

text \<open>
  The all-clear of an alerted silence is dropped by the next success, of any task, that comes before
  the watchdog sends it.
\<close>

lemma second_success_drops_the_all_clear:
  "global_pending (global (record_success j m t2 (record_success i n t1 s))) = None"
  by (simp add: record_success_def Let_def global_default_def)

definition demo_alert :: liveness_alert where
  "demo_alert = GlobalSilence 0 (6 * HOUR) False 1 0"

definition demo_told :: task_health_file where
  "demo_told = health_op_step (GlobalTold demo_alert (6 * HOUR)) (file_default 0)"

lemma demo_alerted:
  "live_reach demo_liveness 0 \<lparr>table = demo_told, in_flight = [], delivered = [demo_alert]\<rparr>"
proof -
  let ?f = "file_default 0"
  have p: "pending_global_alert demo_liveness 1 (6 * HOUR) ?f = Some demo_alert" by code_simp
  note s0 = live_reach.start [of demo_liveness 0]
  note s1 = live_reach.step [OF s0 live_step.decide_global [where x = "\<lparr>table = ?f, in_flight = [], delivered = []\<rparr>", simplified, OF p]]
  have "live_step demo_liveness \<lparr>table = ?f, in_flight = [demo_alert], delivered = []\<rparr>
      \<lparr>table = demo_told, in_flight = [], delivered = [demo_alert]\<rparr>"
    using live_step.accept [of "\<lparr>table = ?f, in_flight = [demo_alert], delivered = []\<rparr>" "[]" demo_alert "[]" demo_liveness "6 * HOUR"]
    by (simp add: told_op_def demo_alert_def demo_told_def del: health_op_step.simps)
  with s1 show ?thesis by (simp add: live_reach.step)
qed

lemma alerted_silence_unanswered:
  "\<exists>x. live_reach demo_liveness 0 x \<and> raised SilenceAlarm (delivered x) \<and> in_flight x = [] \<and>
     global_alerts_sent (global (table x)) = 0 \<and> global_pending (global (table x)) = None"
proof -
  let ?h = "record_success ''u'' [] (8 * HOUR) (record_success ''t'' [] (7 * HOUR) demo_told)"
  note s3 = live_reach.step [OF demo_alerted live_step.succeed [of demo_liveness _ "''t''" "[]" "7 * HOUR"]]
  note s4 = live_reach.step [OF s3 live_step.succeed [of demo_liveness _ "''u''" "[]" "8 * HOUR"]]
  then have "live_reach demo_liveness 0 \<lparr>table = ?h, in_flight = [], delivered = [demo_alert]\<rparr>" by simp
  then show ?thesis
    by (intro exI [where x = "\<lparr>table = ?h, in_flight = [], delivered = [demo_alert]\<rparr>"])
      (simp add: record_success_def Let_def global_default_def raised_def demo_alert_def)
qed

text \<open>
  An alert whose delivery ends after the task has recovered is committed to the streak after it: the
  recovery was not announced, and the next failure forgets that anything was sent.
\<close>

lemma late_commit_is_forgotten:
  assumes "pending_resolution h = None" and "alerts_sent_this_streak h = 0"
    and "health_delivered (TaskFailing i n k f e r) t2 (health_success t1 h) = Some h'"
  shows "alerts_sent_this_streak (health_failure e' t3 h') = 0 \<and> pending_resolution (health_failure e' t3 h') = None"
  using assms by (auto simp: health_success_def)

theorem all_clear_follows_its_alert_witness:
  "\<exists>x as a. live_reach demo_liveness 0 x \<and> delivered x = as @ [a] \<and> clears a = Some SilenceAlarm \<and>
     (\<exists>b\<in>set as. raises b = Some SilenceAlarm)"
proof -
  let ?s = "record_success ''t'' [] (7 * HOUR) demo_told"
  let ?a = "GlobalRecovered 0 (7 * HOUR) ''t''"
  let ?x = "\<lparr>table = ?s, in_flight = [?a], delivered = [demo_alert]\<rparr>"
  let ?y = "\<lparr>table = health_op_step (told_op ?a (8 * HOUR)) ?s, in_flight = [], delivered = [demo_alert] @ [?a]\<rparr>"
  have p: "pending_global_alert demo_liveness 1 (8 * HOUR) ?s = Some ?a" by code_simp
  note s3 = live_reach.step [OF demo_alerted live_step.succeed [of demo_liveness _ "''t''" "[]" "7 * HOUR"]]
  note s4 = live_reach.step [OF s3 live_step.decide_global [of demo_liveness 1 "8 * HOUR" _ ?a]]
  have "live_reach demo_liveness 0 ?x" using s4 p by simp
  moreover have "live_step demo_liveness ?x ?y"
    using live_step.accept [of ?x "[]" ?a "[]" demo_liveness "8 * HOUR"] by (simp del: health_op_step.simps)
  ultimately have y: "live_reach demo_liveness 0 ?y" by (rule live_reach.step)
  from all_clear_follows_its_alert [OF y, of "[demo_alert]" ?a "[]" SilenceAlarm] y show ?thesis
    by (intro exI [where x = ?y] exI [where x = "[demo_alert]"] exI [where x = ?a])
      (simp del: health_op_step.simps)
qed

end
