(* ===== verification/Schedule.thy ===== *)
theory Schedule
  imports Intent Health
begin

text \<open>
  The schedule, \<open>src/scheduler/mod.rs\<close> and \<open>dynamic.rs\<close>: its entries with their model overrides, the
  file that every change is reconciled with, and the task a marker asks for. \<open>serde_json\<close> and the
  \<open>cron\<close> crate are parameters.
\<close>

subsection \<open>Entries\<close>

datatype task_creator = SystemCreated | PulseCreated | UserCreated

record scheduled_task =
  task_id :: bytes
  sched_name :: bytes
  cron :: bytes
  channel :: bytes
  task_prompt :: bytes
  routing :: intent_output
  enabled :: bool
  created_by :: task_creator
  evaluator :: "bytes option"

record schedule_entry =
  task :: scheduled_task
  model :: "bytes option"

definition model_override :: "unicode \<Rightarrow> schedule_entry \<Rightarrow> bytes option" where
  "model_override U e =
     Option.bind (model e) (\<lambda>m. let t = trim U m in if t = [] then None else Some t)"

definition effective_model :: "unicode \<Rightarrow> bytes \<Rightarrow> schedule_entry \<Rightarrow> bytes" where
  "effective_model U default_model e = (case model_override U e of None \<Rightarrow> default_model | Some m \<Rightarrow> m)"

definition entry_of_task :: "scheduled_task \<Rightarrow> schedule_entry" where
  "entry_of_task t = \<lparr>task = t, model = None\<rparr>"

type_synonym schedule = "schedule_entry list"

definition find_task :: "schedule \<Rightarrow> bytes \<Rightarrow> schedule_entry option" where
  "find_task s i = List.find (\<lambda>e. task_id (task e) = i) s"

text \<open>\<open>add_task\<close>: \<open>find_task_mut\<close> gives the first entry with the id, which is replaced in its place.\<close>

fun replace_task :: "schedule_entry \<Rightarrow> schedule \<Rightarrow> schedule option" where
  "replace_task e [] = None"
| "replace_task e (x # s) =
     (if task_id (task x) = task_id (task e)
      then Some ((if model e = None then e\<lparr>model := model x\<rparr> else e) # s)
      else map_option ((#) x) (replace_task e s))"

definition add_task :: "schedule_entry \<Rightarrow> schedule \<Rightarrow> schedule" where
  "add_task e s = (case replace_task e s of Some s' \<Rightarrow> s' | None \<Rightarrow> s @ [e])"

definition remove_task :: "bytes \<Rightarrow> schedule \<Rightarrow> bool \<times> schedule" where
  "remove_task i s =
     (let kept = filter (\<lambda>e. task_id (task e) \<noteq> i) s in (length kept < length s, kept))"

subsection \<open>The file\<close>

record schedule_codec =
  encode_schedule :: "schedule \<Rightarrow> bytes option"
  decode_schedule :: "bytes \<Rightarrow> schedule option"
  decode_bare :: "bytes \<Rightarrow> schedule option"

definition schedule_codec_ok :: "schedule_codec \<Rightarrow> bool" where
  "schedule_codec_ok C \<longleftrightarrow> 
     (\<forall>s t. encode_schedule C s = Some t \<longrightarrow> decode_schedule C t = Some s \<and> valid_utf8 t)"

record schedule_io =
  sched_locks :: bool
  sched_reads :: bool
  sched_writes :: bool
  sched_renames :: bool

datatype scheduler_error = SchedIo | SchedJson | CronParse bytes

definition load_schedule :: "schedule_codec \<Rightarrow> schedule_io \<Rightarrow> bytes option \<Rightarrow> scheduler_error + schedule" where
  "load_schedule C io d =
     (case d of
        None \<Rightarrow> Inl SchedIo
      | Some t \<Rightarrow>
          if \<not> sched_reads io \<or> \<not> valid_utf8 t then Inl SchedIo
          else (case decode_schedule C t of
              Some s \<Rightarrow> Inr s
            | None \<Rightarrow> (case decode_bare C t of Some s \<Rightarrow> Inr s | None \<Rightarrow> Inl SchedJson)))"

definition save_schedule ::
  "schedule_codec \<Rightarrow> schedule_io \<Rightarrow> schedule \<Rightarrow> bytes option \<Rightarrow> (scheduler_error + unit) \<times> bytes option" where
  "save_schedule C io s d =
     (case encode_schedule C s of
        None \<Rightarrow> (Inl SchedJson, d)
      | Some t \<Rightarrow>
          if \<not> sched_writes io \<or> \<not> sched_renames io then (Inl SchedIo, d) else (Inr (), Some t))"

text \<open>At boot: the defaults (\<open>default_tasks\<close>) are written when there is no file.\<close>

definition load_or_init ::
  "schedule_codec \<Rightarrow> schedule_io \<Rightarrow> scheduled_task list \<Rightarrow> bytes option \<Rightarrow> (scheduler_error + schedule) \<times> bytes option" where
  "load_or_init C io defaults d =
     (case d of
        None \<Rightarrow>
          (let s = map entry_of_task defaults
           in case save_schedule C io s d of (Inl e, d') \<Rightarrow> (Inl e, d') | (Inr _, d') \<Rightarrow> (Inr s, d'))
      | Some _ \<Rightarrow> (load_schedule C io d, d))"

definition schedule_delta ::
  "schedule_codec \<Rightarrow> schedule_io \<Rightarrow> (schedule \<Rightarrow> schedule) \<Rightarrow> bytes option \<Rightarrow> (scheduler_error + schedule) \<times> bytes option" where
  "schedule_delta C io apply d =
     (if \<not> sched_locks io then (Inl SchedIo, d)
      else case load_schedule C io d of
        Inl e \<Rightarrow> (Inl e, d)
      | Inr s \<Rightarrow>
          (case save_schedule C io (apply s) d of
             (Inl e, d') \<Rightarrow> (Inl e, d') | (Inr _, d') \<Rightarrow> (Inr (apply s), d')))"

subsection \<open>Cron expressions and tasks from markers\<close>

text \<open>\<open>str::split_whitespace\<close>.\<close>

fun split_chars :: "(bytes \<Rightarrow> bool) \<Rightarrow> bytes list \<Rightarrow> bytes list list" where
  "split_chars P [] = [[]]"
| "split_chars P (c # cs) =
     (if P c then [] # split_chars P cs
      else (case split_chars P cs of [] \<Rightarrow> [[c]] | w # ws \<Rightarrow> (c # w) # ws))"

definition split_whitespace :: "unicode \<Rightarrow> bytes \<Rightarrow> bytes list" where
  "split_whitespace U s = map concat (filter (\<lambda>w. w \<noteq> []) (split_chars (whitespace U) (utf8_chars s)))"

definition normalize_cron :: "unicode \<Rightarrow> bytes \<Rightarrow> bytes" where
  "normalize_cron U expr =
     (case split_whitespace U expr of
        [a, b, c, d, e, f] \<Rightarrow>
          if f = ''0'' then a @ '' '' @ b @ '' '' @ c @ '' '' @ d @ '' '' @ e @ '' 7'' else expr
      | _ \<Rightarrow> expr)"

text \<open>The \<open>cron\<close> crate: whether an expression parses, with the error otherwise, and its first instant
  after a given one.\<close>

record cron_lib =
  cron_error :: "bytes \<Rightarrow> bytes option"
  next_after :: "bytes \<Rightarrow> int \<Rightarrow> int option"

text \<open>\<open>interval_from_cron\<close> of \<open>health.rs\<close>.\<close>

definition interval_from_cron :: "unicode \<Rightarrow> cron_lib \<Rightarrow> bytes \<Rightarrow> int \<Rightarrow> int option" where
  "interval_from_cron U K expr now =
     (let e = normalize_cron U expr
      in if cron_error K e \<noteq> None then None
         else Option.bind (next_after K e now)
           (\<lambda>a. Option.bind (next_after K e a) (\<lambda>b. Some (b - a))))"

datatype marker_error = BadMarkerJson | MissingIn bytes | InvalidCron bytes bytes

definition task_slug :: "unicode \<Rightarrow> bytes \<Rightarrow> bytes" where
  "task_slug U name =
     concat (trim_matches ''-''
       (map (\<lambda>c. if alphanumeric U c then c else ''-'') (utf8_chars (lowercase U name))))"

definition create_task_from_marker ::
  "json_lib \<Rightarrow> unicode \<Rightarrow> cron_lib \<Rightarrow> bytes \<Rightarrow> marker_error + scheduled_task" where
  "create_task_from_marker L U K json_str =
     (case parse L json_str of
        None \<Rightarrow> Inl BadMarkerJson
      | Some v \<Rightarrow>
          (case str_field ''name'' v of
             None \<Rightarrow> Inl (MissingIn ''name'')
           | Some n \<Rightarrow>
          (case str_field ''cron'' v of
             None \<Rightarrow> Inl (MissingIn ''cron'')
           | Some c0 \<Rightarrow>
          (case str_field ''prompt'' v of
             None \<Rightarrow> Inl (MissingIn ''prompt'')
           | Some p \<Rightarrow>
               (let c = normalize_cron U c0
                in case cron_error K c of
                     Some e \<Rightarrow> Inl (InvalidCron c e)
                   | None \<Rightarrow>
                       Inr \<lparr>task_id = task_slug U n, sched_name = n, cron = c, channel = ''system'',
                         task_prompt = p,
                         routing = (if str_field ''output'' v = Some ''share'' then Share
                           else if str_field ''output'' v = Some ''call'' then Call else Silent),
                         enabled = True, created_by = PulseCreated, evaluator = None\<rparr>)))))"

subsection \<open>What a change keeps\<close>

definition schedule_view :: "schedule_codec \<Rightarrow> bytes option \<Rightarrow> schedule" where
  "schedule_view C d =
     (case load_schedule C \<lparr>sched_locks = True, sched_reads = True, sched_writes = True, sched_renames = True\<rparr> d of
        Inl _ \<Rightarrow> [] | Inr s \<Rightarrow> s)"

lemma load_schedule_view: "load_schedule C io d = Inr s \<Longrightarrow> schedule_view C d = s"
  by (auto simp: schedule_view_def load_schedule_def split: option.splits if_splits)

lemma schedule_view_saved: "schedule_codec_ok C \<Longrightarrow> encode_schedule C s = Some t \<Longrightarrow> schedule_view C (Some t) = s"
  by (simp add: schedule_view_def load_schedule_def schedule_codec_ok_def)

lemma save_schedule_Inr: "schedule_codec_ok C \<Longrightarrow> save_schedule C io s d = (Inr u, d') \<Longrightarrow> schedule_view C d' = s"
  by (cases "encode_schedule C s")
    (simp_all add: save_schedule_def schedule_view_saved split: if_splits, metis schedule_view_saved)

lemma save_schedule_Inl: "save_schedule C io s d = (Inl e, d') \<Longrightarrow> d' = d"
  by (auto simp: save_schedule_def split: option.splits if_splits)

interpretation sched: delta_store "schedule_view C" "schedule_delta C" "\<lambda>io. schedule_codec_ok C"
  for C :: schedule_codec
proof (unfold_locales, goal_cases)
  case (1 io g d q d')
  then show ?case
    by (auto simp: schedule_delta_def split: sum.splits if_splits prod.splits
        dest!: load_schedule_view save_schedule_Inr)
next
  case (2 io g d e d')
  then show ?case
    by (auto simp: schedule_delta_def split: sum.splits if_splits prod.splits dest: save_schedule_Inl)
qed

lemma replace_task_None: "replace_task e s = None \<longleftrightarrow> find_task s (task_id (task e)) = None"
  by (induction s) (auto simp: find_task_def)

lemma find_replaced:
  "replace_task e s = Some s' \<Longrightarrow>
     find_task s' i =
       (if i = task_id (task e)
        then Some (if model e = None then e\<lparr>model := Option.bind (find_task s i) model\<rparr> else e)
        else find_task s i)"
proof (induction s arbitrary: s')
  case (Cons x s)
  then show ?case by (auto simp: find_task_def split: if_splits)
qed simp

text \<open>
  After a task is added, looking it up gives the new definition, on the model the new one
  names or, when it names none, on the model its predecessor was pinned to; every other task is
  found as before.
\<close>

theorem added_task_keeps_its_model:
  "find_task (add_task e s) i =
     (if i = task_id (task e)
      then Some (if model e = None then e\<lparr>model := Option.bind (find_task s i) model\<rparr> else e)
      else find_task s i)"
proof (cases "replace_task e s")
  case None
  then have n: "find_task s (task_id (task e)) = None" by (simp add: replace_task_None)
  have "find_task (s @ [e]) j = (case find_task s j of Some x \<Rightarrow> Some x
      | None \<Rightarrow> if task_id (task e) = j then Some e else None)" for j
    by (induction s) (auto simp: find_task_def)
  with n None show ?thesis by (auto simp: add_task_def split: option.splits)
next
  case (Some s')
  then show ?thesis by (simp add: add_task_def find_replaced)
qed

lemma find_removed: "find_task (snd (remove_task i s)) j = (if j = i then None else find_task s j)"
  by (induction s) (auto simp: remove_task_def find_task_def Let_def)

text \<open>A change of an unreadable or missing file fails and makes none: the defaults come only at boot.\<close>

lemma unreadable_schedule_is_not_replaced:
  "load_schedule C io d = Inl e \<Longrightarrow> snd (schedule_delta C io g d) = d"
  by (simp add: schedule_delta_def)

text \<open>
  A task added by a running pulse is a change of the file as it is at that moment: whatever
  other programs wrote to it, every other task is there afterwards as it was before, and the added
  one is there when the change reports success; a failed change leaves the file as it was.
\<close>

theorem added_task_spares_the_rest:
  assumes C: "schedule_codec_ok C" and d: "schedule_delta C io (add_task e) d = (r, d')"
  shows "(\<forall>j. j \<noteq> task_id (task e) \<longrightarrow> find_task (schedule_view C d') j = find_task (schedule_view C d) j) \<and>
    (case r of
       Inl _ \<Rightarrow> d' = d
     | Inr s \<Rightarrow> s = schedule_view C d' \<and> find_task s (task_id (task e)) \<noteq> None)"
proof (cases r)
  case (Inl er)
  with sched.delta_err [of C io "add_task e" d er d'] d show ?thesis by simp
next
  case (Inr s)
  with sched.delta_ok [OF C, of io "add_task e" d s d'] d show ?thesis by (simp add: added_task_keeps_its_model)
qed

definition demo_task :: "bytes \<Rightarrow> scheduled_task" where
  "demo_task i = \<lparr>task_id = i, sched_name = i, cron = ''0 0 8 * * *'', channel = ''system'', task_prompt = ''p'',
     routing = Silent, enabled = True, created_by = PulseCreated, evaluator = None\<rparr>"

definition demo_schedule_codec :: schedule_codec where
  "demo_schedule_codec =
     (let two = [entry_of_task (demo_task ''a''), entry_of_task (demo_task ''b'')];
          one = [entry_of_task (demo_task ''a'')]
      in \<lparr>encode_schedule = (\<lambda>s. if s = one then Some ''1'' else if s = two then Some ''2'' else None),
          decode_schedule = (\<lambda>t. if t = ''1'' then Some one else if t = ''2'' then Some two else None),
          decode_bare = (\<lambda>_. None)\<rparr>)"

definition demo_sched_io :: schedule_io where
  "demo_sched_io = \<lparr>sched_locks = True, sched_reads = True, sched_writes = True, sched_renames = True\<rparr>"

theorem added_task_spares_the_rest_witness:
  "schedule_delta demo_schedule_codec demo_sched_io (add_task (entry_of_task (demo_task ''b''))) (Some ''1'') =
     (Inr [entry_of_task (demo_task ''a''), entry_of_task (demo_task ''b'')], Some ''2'') \<and>
   find_task (schedule_view demo_schedule_codec (Some ''2'')) ''a'' =
     find_task (schedule_view demo_schedule_codec (Some ''1'')) ''a''"
proof -
  have d: "schedule_delta demo_schedule_codec demo_sched_io (add_task (entry_of_task (demo_task ''b''))) (Some ''1'') =
     (Inr [entry_of_task (demo_task ''a''), entry_of_task (demo_task ''b'')], Some ''2'')" by code_simp
  have "schedule_codec_ok demo_schedule_codec"
    by (simp add: schedule_codec_ok_def demo_schedule_codec_def Let_def valid_utf8_ascii byte_def)
  from added_task_spares_the_rest [OF this d] d show ?thesis
    by (simp add: entry_of_task_def demo_task_def)
qed

end
