(* ===== verification/Output.thy ===== *)
theory Output
  imports Intent
begin

text \<open>
  The markers of a response, \<open>src/scheduler/output.rs\<close>: the brace-balanced scan for \<open>[FARM: ..]\<close> and
  \<open>[SALIENCE: ..]\<close>, the lazy patterns of the other five, and the text that is left. The patterns
  are those of the \<open>regex\<close> crate, written out: leftmost match, \<open>\s*\<close> greedy, the rest lazy.
  \<open>\s\<close> and \<open>char::is_whitespace\<close> are the same property of Unicode.
\<close>

subsection \<open>Finding\<close>

text \<open>\<open>str::find\<close>: what is before the first occurrence, and what is after it.\<close>

fun split_first :: "bytes \<Rightarrow> bytes \<Rightarrow> (bytes \<times> bytes) option" where
  "split_first p [] = (if p = [] then Some ([], []) else None)"
| "split_first p (c # s) =
     (if starts_with p (c # s) then Some ([], drop (length p) (c # s))
      else map_option (\<lambda>(a, b). (c # a, b)) (split_first p s))"

definition skip_space :: "unicode \<Rightarrow> bytes \<Rightarrow> bytes" where
  "skip_space U s = concat (dropWhile (whitespace U) (utf8_chars s))"

lemma skip_space_length: "length (skip_space U s) \<le> length s"
proof -
  have c: "length (concat (dropWhile P xs)) \<le> length (concat xs)" for P and xs :: "bytes list"
    by (induction xs) auto
  show ?thesis using c [of "whitespace U" "utf8_chars s"] by (simp add: skip_space_def)
qed

lemma split_first_Some: "split_first p s = Some (a, b) \<Longrightarrow> s = a @ p @ b"
proof (induction s arbitrary: a)
  case (Cons c s)
  show ?case
  proof (cases "starts_with p (c # s)")
    case True
    with Cons.prems show ?thesis by (auto simp: starts_with_def) (metis append_take_drop_id)
  next
    case False
    with Cons show ?thesis by (auto split: option.splits)
  qed
qed (auto split: if_splits)

subsection \<open>The brace scan\<close>

text \<open>
  The payload from its opening brace to the brace that closes it, and what is after it. The
  characters it looks for are single bytes, so the walk is over bytes.
\<close>

fun brace_scan :: "bool \<Rightarrow> bool \<Rightarrow> nat \<Rightarrow> bytes \<Rightarrow> (bytes \<times> bytes) option" where
  "brace_scan in_string escaped level [] = None"
| "brace_scan in_string escaped level (c # cs) =
     (if in_string then
        map_option (\<lambda>(p, r). (c # p, r))
          (if escaped then brace_scan True False level cs
           else if c = CHR 0x5C then brace_scan True True level cs
           else brace_scan (c \<noteq> CHR 0x22) False level cs)
      else if c = CHR 0x22 then map_option (\<lambda>(p, r). (c # p, r)) (brace_scan True escaped level cs)
      else if c = CHR ''{'' then map_option (\<lambda>(p, r). (c # p, r)) (brace_scan False escaped (level + 1) cs)
      else if c = CHR ''}'' then
        (if level - 1 = 0 then Some ([c], cs)
         else map_option (\<lambda>(p, r). (c # p, r)) (brace_scan False escaped (level - 1) cs))
      else map_option (\<lambda>(p, r). (c # p, r)) (brace_scan False escaped level cs))"

lemma brace_scan_Some: "brace_scan i e d s = Some (p, r) \<Longrightarrow> s = p @ r"
proof (induction s arbitrary: i e d p)
  case (Cons c s)
  then show ?case by (auto split: if_splits)
qed simp

text \<open>
  What follows a tag, when it is a marker: its payload and what is after its closing bracket.
\<close>

definition json_marker :: "unicode \<Rightarrow> bytes \<Rightarrow> (bytes \<times> bytes) option" where
  "json_marker U after_tag =
     (case split_first ''{'' after_tag of
        None \<Rightarrow> None
      | Some (gap, body) \<Rightarrow>
          if \<not> blank U gap then None
          else (case brace_scan False False 0 (CHR ''{'' # body) of
              None \<Rightarrow> None
            | Some (payload, tail) \<Rightarrow>
                if starts_with '']'' (skip_space U tail)
                then map_option (\<lambda>(_, rest). (payload, rest)) (split_first '']'' tail)
                else None))"

lemma json_marker_text:
  assumes "json_marker U s = Some (payload, rest)"
  shows "\<exists>gap close. s = gap @ payload @ close @ '']'' @ rest \<and> blank U gap \<and> hd payload = CHR ''{'' \<and>
    brace_scan False False 0 (payload @ close @ '']'' @ rest) = Some (payload, close @ '']'' @ rest)"
proof -
  from assms obtain gap body tail close where
    s: "split_first ''{'' s = Some (gap, body)" "blank U gap"
      "brace_scan False False 0 (CHR ''{'' # body) = Some (payload, tail)"
      "split_first '']'' tail = Some (close, rest)"
    by (auto simp: json_marker_def split: option.splits prod.splits if_splits)
  from s(3) have "hd payload = CHR ''{''" by auto
  with split_first_Some [OF s(1)] split_first_Some [OF s(4)] brace_scan_Some [OF s(3)]
  show ?thesis using s(2,3) by (intro exI [where x = gap] exI [where x = close]) simp
qed

lemma json_marker_shorter: "json_marker U s = Some (payload, rest) \<Longrightarrow> length rest < length s"
  using json_marker_text by fastforce

function extract_json_markers :: "unicode \<Rightarrow> bytes \<Rightarrow> bytes \<Rightarrow> bytes list \<times> bytes" where
  "extract_json_markers U tag content =
     (let open = ''['' @ tag @ '':'' in
      case split_first open content of
        None \<Rightarrow> ([], content)
      | Some (before, after_tag) \<Rightarrow>
          (case json_marker U after_tag of
             Some (payload, rest) \<Rightarrow>
               (case extract_json_markers U tag rest of (ps, clean) \<Rightarrow> (payload # ps, before @ clean))
           | None \<Rightarrow>
               (case extract_json_markers U tag after_tag of (ps, clean) \<Rightarrow> (ps, before @ open @ clean))))"
  by pat_completeness auto

termination
  by (relation "measure (\<lambda>(U, tag, content). length content)")
    (auto dest!: split_first_Some json_marker_shorter)

declare extract_json_markers.simps [simp del]

subsection \<open>The lazy patterns\<close>

text \<open>\<open>\[TAG:\s*([\s\S]*?)\]\<close> at the beginning of a text: its capture, and what is after the match.\<close>

definition plain_marker :: "unicode \<Rightarrow> bytes \<Rightarrow> bytes \<Rightarrow> (bytes \<times> bytes) option" where
  "plain_marker U tag s =
     Option.bind (strip_prefix (''['' @ tag @ '':'') s) (\<lambda>r. split_first '']'' (skip_space U r))"

text \<open>\<open>\[TAG:\s*(\{[\s\S]*?\})\]\<close> at the beginning of a text.\<close>

definition object_marker :: "unicode \<Rightarrow> bytes \<Rightarrow> bytes \<Rightarrow> (bytes \<times> bytes) option" where
  "object_marker U tag s =
     Option.bind (strip_prefix (''['' @ tag @ '':'') s)
       (\<lambda>r. case skip_space U r of
              c # body \<Rightarrow>
                if c = CHR ''{'' then map_option (\<lambda>(b, rest). (c # b @ ''}'', rest)) (split_first ''}]'' body)
                else None
            | [] \<Rightarrow> None)"

text \<open>\<open>captures_iter\<close> and \<open>replace_all\<close> with the empty text: the captures, and the text between the matches.\<close>

function matches :: "(bytes \<Rightarrow> (bytes \<times> bytes) option) \<Rightarrow> bytes \<Rightarrow> bytes list \<times> bytes" where
  "matches m [] = ([], [])"
| "matches m (c # s) =
     (case m (c # s) of
        Some (capture, rest) \<Rightarrow>
          if length rest \<le> length s
          then (case matches m rest of (cs, clean) \<Rightarrow> (capture # cs, clean)) else ([], c # s)
      | None \<Rightarrow> (case matches m s of (cs, clean) \<Rightarrow> (cs, c # clean)))"
  by pat_completeness auto
termination by (relation "measure (\<lambda>(m, s). length s)") auto

record parsed_output =
  clean_content :: bytes
  share_content :: "bytes list"
  call_content :: "bytes list"
  schedule_requests :: "bytes list"
  parsed_intents :: "bytes list"
  parsed_chains :: "bytes list"
  farm_requests :: "bytes list"
  salience_requests :: "bytes list"

definition parse_output :: "unicode \<Rightarrow> bytes \<Rightarrow> parsed_output" where
  "parse_output U raw =
     (let (farms, no_farm) = extract_json_markers U ''FARM'' raw;
          (saliences, content) = extract_json_markers U ''SALIENCE'' no_farm;
          SHARE = plain_marker U ''SHARE''; CALL = plain_marker U ''CALL'';
          SCHEDULE = object_marker U ''SCHEDULE''; INTENT = object_marker U ''INTENT'';
          CHAIN = object_marker U ''CHAIN'';
          found = (\<lambda>m. map (trim U) (fst (matches m content)));
          clean = snd (matches CHAIN (snd (matches INTENT (snd (matches SCHEDULE
                    (snd (matches CALL (snd (matches SHARE content)))))))))
      in \<lparr>clean_content = trim U clean, share_content = found SHARE, call_content = found CALL,
          schedule_requests = found SCHEDULE, parsed_intents = found INTENT,
          parsed_chains = found CHAIN, farm_requests = farms, salience_requests = saliences\<rparr>)"

subsection \<open>What the scan takes and what it leaves\<close>

lemma brace_scan_prefix: "brace_scan i e l (p @ r) = Some (p, r) \<longleftrightarrow> brace_scan i e l p = Some (p, [])"
proof (induction p arbitrary: i e l)
  case Nil
  have "brace_scan i e l r \<noteq> Some ([], r)" for i e l by (cases r) auto
  then show ?case by simp
next
  case (Cons c p)
  then show ?case by (auto split: if_splits)
qed

text \<open>
  What the scan is to find, said without it: an object is a pair of braces around items, which are
  characters, strings and objects; in a string a backslash protects the character after it.
\<close>

datatype letter = Raw char | Escaped char

datatype item = Letter char | Quoted "letter list" | Object "item list"

fun letter_text :: "letter \<Rightarrow> bytes" where
  "letter_text (Raw c) = [c]"
| "letter_text (Escaped c) = [CHR 0x5C, c]"

fun letter_ok :: "letter \<Rightarrow> bool" where
  "letter_ok (Raw c) \<longleftrightarrow> c \<noteq> CHR 0x22 \<and> c \<noteq> CHR 0x5C"
| "letter_ok (Escaped c) \<longleftrightarrow> True"

definition letters_text :: "letter list \<Rightarrow> bytes" where
  "letters_text ls = concat (map letter_text ls)"

fun item_text :: "item \<Rightarrow> bytes" where
  "item_text (Letter c) = [c]"
| "item_text (Quoted ls) = CHR 0x22 # letters_text ls @ [CHR 0x22]"
| "item_text (Object ks) = CHR ''{'' # concat (map item_text ks) @ ''}''"

fun item_ok :: "item \<Rightarrow> bool" where
  "item_ok (Letter c) \<longleftrightarrow> c \<notin> {CHR 0x22, CHR ''{'', CHR ''}''}"
| "item_ok (Quoted ls) \<longleftrightarrow> list_all letter_ok ls"
| "item_ok (Object ks) \<longleftrightarrow> (\<forall>k\<in>set ks. item_ok k)"

definition items_text :: "item list \<Rightarrow> bytes" where
  "items_text ks = concat (map item_text ks)"

lemma text_simps [simp]:
  "letters_text [] = []" "letters_text (l # ls) = letter_text l @ letters_text ls"
  "items_text [] = []" "items_text (k # ks) = item_text k @ items_text ks"
  by (simp_all add: letters_text_def items_text_def)

definition balanced :: "bytes \<Rightarrow> bool" where
  "balanced p \<longleftrightarrow> (\<exists>ks. list_all item_ok ks \<and> p = item_text (Object ks))"

abbreviation prefixed :: "bytes \<Rightarrow> (bytes \<times> bytes) option \<Rightarrow> (bytes \<times> bytes) option" where
  "prefixed a \<equiv> map_option (\<lambda>(p, r). (a @ p, r))"

lemma prefixed_prefixed [simp]: "prefixed a (prefixed b x) = prefixed (a @ b) x" "prefixed [] x = x"
  by (cases x; auto)+

lemma scan_letters:
  "list_all letter_ok ls \<Longrightarrow>
     brace_scan True False n (letters_text ls @ CHR 0x22 # r) = prefixed (letters_text ls @ [CHR 0x22]) (brace_scan False False n r)"
proof (induction ls)
  case (Cons l ls)
  then show ?case by (cases l) (auto simp: option.map_comp comp_def split_def intro: map_option_cong)
qed simp

lemma scan_item:
  "item_ok k \<Longrightarrow> n \<noteq> 0 \<Longrightarrow>
     brace_scan False False n (item_text k @ r) = prefixed (item_text k) (brace_scan False False n r)"
proof (induction k arbitrary: n r)
  case (Quoted ls)
  then show ?case using scan_letters [of ls n r] by (simp add: option.map_comp comp_def split_def)
next
  case (Object ks)
  have "brace_scan False False (Suc n) (items_text js @ t) = prefixed (items_text js) (brace_scan False False (Suc n) t)"
    if "set js \<subseteq> set ks" for js t
    using that
  proof (induction js)
    case (Cons j js)
    then show ?case using Object.IH [of j "Suc n" "items_text js @ t"] Object.prems by simp
  qed (simp add: option.map_id)
  from this [of ks "CHR ''}'' # r"] Object.prems(2) show ?case
    by (simp add: items_text_def option.map_comp comp_def split_def)
qed auto

lemma scan_items:
  "list_all item_ok ks \<Longrightarrow> n \<noteq> 0 \<Longrightarrow>
     brace_scan False False n (items_text ks @ r) = prefixed (items_text ks) (brace_scan False False n r)"
  by (induction ks) (simp_all add: scan_item option.map_id)

lemma scan_object:
  "list_all item_ok ks \<Longrightarrow> brace_scan False False 0 (item_text (Object ks) @ r) = Some (item_text (Object ks), r)"
  using scan_items [of ks 1 "CHR ''}'' # r"] by (simp add: items_text_def)

text \<open>Back: what the scan of \<open>n\<close> open braces takes closes each of them after some items.\<close>

definition closes :: "nat \<Rightarrow> bytes \<Rightarrow> bool" where
  "closes n p \<longleftrightarrow>
     (\<exists>kss. length kss = n \<and> list_all (list_all item_ok) kss \<and> p = concat (map (\<lambda>ks. items_text ks @ ''}'') kss))"

definition closes_string :: "nat \<Rightarrow> bytes \<Rightarrow> bool" where
  "closes_string n p \<longleftrightarrow> (\<exists>ls q. list_all letter_ok ls \<and> p = letters_text ls @ CHR 0x22 # q \<and> closes n q)"

lemma closes_item: "closes n p \<Longrightarrow> n \<noteq> 0 \<Longrightarrow> item_ok k \<Longrightarrow> closes n (item_text k @ p)"
proof -
  assume "closes n p" "n \<noteq> 0" "item_ok k"
  then obtain ks kss where "Suc (length kss) = n" "list_all (list_all item_ok) (ks # kss)"
      "p = concat (map (\<lambda>ks. items_text ks @ ''}'') (ks # kss))"
    by (cases n) (auto simp: closes_def length_Suc_conv)
  with \<open>item_ok k\<close> show ?thesis
    unfolding closes_def by (intro exI [where x = "(k # ks) # kss"]) simp
qed

lemma closes_close: "closes n p \<Longrightarrow> closes (Suc n) (CHR ''}'' # p)"
  unfolding closes_def by (elim exE) (rule_tac x = "[] # kss" in exI, simp)

lemma closes_one: "closes 1 ''}''"
  unfolding closes_def by (intro exI [where x = "[[]]"]) simp

lemma closes_string_end: "closes n p \<Longrightarrow> closes_string n (CHR 0x22 # p)"
  unfolding closes_string_def by (intro exI [where x = "[]"] exI [where x = p]) simp

lemma closes_string_letter: "closes_string n p \<Longrightarrow> letter_ok l \<Longrightarrow> closes_string n (letter_text l @ p)"
proof -
  assume "closes_string n p" "letter_ok l"
  then obtain ls q where "list_all letter_ok ls" "p = letters_text ls @ CHR 0x22 # q" "closes n q"
    by (auto simp: closes_string_def)
  with \<open>letter_ok l\<close> show ?thesis
    unfolding closes_string_def by (intro exI [where x = "l # ls"] exI [where x = q]) simp
qed

lemma closes_quoted: "closes_string n p \<Longrightarrow> n \<noteq> 0 \<Longrightarrow> closes n (CHR 0x22 # p)"
  unfolding closes_string_def using closes_item [of n _ "Quoted _"] by auto

lemma closes_open: "closes (Suc n) p \<Longrightarrow> n \<noteq> 0 \<Longrightarrow> closes n (CHR ''{'' # p)"
proof -
  assume c: "closes (Suc n) p" and n: "n \<noteq> 0"
  then obtain ks kss where k: "length kss = n" "list_all item_ok ks" "list_all (list_all item_ok) kss"
      "p = items_text ks @ ''}'' @ concat (map (\<lambda>ks. items_text ks @ ''}'') kss)"
    by (auto simp: closes_def length_Suc_conv)
  then have "closes n (concat (map (\<lambda>ks. items_text ks @ ''}'') kss))" by (auto simp: closes_def)
  from closes_item [OF this n, of "Object ks"] k show ?thesis by (simp add: items_text_def list_all_iff)
qed

lemma scan_closes:
  assumes "brace_scan i e n s = Some (p, r)" and "n \<noteq> 0" and "e \<Longrightarrow> i"
  shows "(\<not> i \<longrightarrow> closes n p) \<and> (i \<longrightarrow> \<not> e \<longrightarrow> closes_string n p) \<and>
    (i \<longrightarrow> e \<longrightarrow> closes_string n (tl p))"
  using assms
proof (induction i e n s arbitrary: p rule: brace_scan.induct)
  case (2 i e n c cs)
  from "2.prems"(1) obtain q where q: "p = c # q" by (auto split: if_splits)
  show ?case
  proof (cases i)
    case True
    consider (esc) "e" | (backslash) "\<not> e" "c = CHR 0x5C" | (other) "\<not> e" "c \<noteq> CHR 0x5C" by blast
    then show ?thesis
    proof cases
      case esc
      with "2.prems" q True "2.IH"(1) [OF True esc, of q] show ?thesis by simp
    next
      case backslash
      with "2.prems" q True "2.IH"(2) [OF True backslash, of q] have t: "closes_string n (tl q)" by simp
      from backslash True "2.prems"(1) q have "brace_scan True True n cs = Some (q, r)" by auto
      then obtain d where "q = d # tl q" by (cases cs) (auto split: if_splits)
      with closes_string_letter [OF t, of "Escaped d"] backslash q True show ?thesis by simp
    next
      case other
      have "brace_scan (c \<noteq> CHR 0x22) False n cs = Some (q, r)" using "2.prems"(1) q True other by auto
      with "2.prems"(2) True "2.IH"(3) [OF True other, of q]
      have "c = CHR 0x22 \<Longrightarrow> closes n q" "c \<noteq> CHR 0x22 \<Longrightarrow> closes_string n q" by auto
      with closes_string_end [of n q] closes_string_letter [of n q "Raw c"] other True q show ?thesis
        by (cases "c = CHR 0x22") auto
    qed
  next
    case False
    with "2.prems"(3) have e: "\<not> e" by blast
    consider (quote) "c = CHR 0x22" | (brace) "c = CHR ''{''" | (final) "c = CHR ''}''" "n - 1 = 0"
      | (inner) "c = CHR ''}''" "n - 1 \<noteq> 0" | (other) "c \<noteq> CHR 0x22" "c \<noteq> CHR ''{''" "c \<noteq> CHR ''}''" by blast
    then show ?thesis
    proof cases
      case quote
      with "2.prems" q False e "2.IH"(4) [OF False quote, of q] have "closes_string n q" by auto
      with closes_quoted [OF this "2.prems"(2)] quote False q show ?thesis by simp
    next
      case brace
      with "2.prems" q False e "2.IH"(5) [OF False _ brace, of q] have "closes (Suc n) q" by auto
      with closes_open [OF this "2.prems"(2)] brace False q show ?thesis by simp
    next
      case final
      with "2.prems" have "n = 1" "p = ''}''" using False by auto
      with closes_one False show ?thesis by simp
    next
      case inner
      with "2.prems" q False e "2.IH"(6) [OF False _ _ inner, of q] have "closes (n - 1) q" by auto
      from closes_close [OF this] inner "2.prems"(2) False q show ?thesis by simp
    next
      case other
      with "2.prems" q False e "2.IH"(7) [OF False other, of q] have "closes n q" by auto
      from closes_item [OF this "2.prems"(2), of "Letter c"] other False q show ?thesis by simp
    qed
  qed
qed simp

lemma balanced_iff: "balanced p \<longleftrightarrow> hd p = CHR ''{'' \<and> brace_scan False False 0 p = Some (p, [])"
proof
  assume "balanced p"
  then show "hd p = CHR ''{'' \<and> brace_scan False False 0 p = Some (p, [])"
    using scan_object [of _ "[]"] by (auto simp: balanced_def simp del: brace_scan.simps)
next
  assume r: "hd p = CHR ''{'' \<and> brace_scan False False 0 p = Some (p, [])"
  then obtain q where q: "p = CHR ''{'' # q" "brace_scan False False 1 q = Some (q, [])"
    by (cases p) auto
  from scan_closes [OF q(2)] have "closes 1 q" by simp
  then obtain ks where "list_all item_ok ks" "q = items_text ks @ ''}''"
    by (auto simp: closes_def length_Suc_conv)
  with q(1) show "balanced p" by (auto simp: balanced_def items_text_def)
qed

datatype piece = Plain bytes | Marker bytes bytes bytes

fun piece_text :: "bytes \<Rightarrow> piece \<Rightarrow> bytes" where
  "piece_text tag (Plain t) = t"
| "piece_text tag (Marker gap payload close) = ''['' @ tag @ '':'' @ gap @ payload @ close @ '']''"

fun piece_payload :: "piece \<Rightarrow> bytes list" where
  "piece_payload (Plain t) = []"
| "piece_payload (Marker gap payload close) = [payload]"

fun piece_plain :: "piece \<Rightarrow> bytes" where
  "piece_plain (Plain t) = t"
| "piece_plain (Marker gap payload close) = []"

fun piece_ok :: "unicode \<Rightarrow> piece \<Rightarrow> bool" where
  "piece_ok U (Plain t) \<longleftrightarrow> True"
| "piece_ok U (Marker gap payload close) \<longleftrightarrow> blank U gap \<and> balanced payload"

text \<open>
  The scan for a tag neither invents nor loses text: a response is cut into pieces, the payloads
  it returns are those of the marker pieces in their order, each an object with balanced
  braces, and the clean text is all the rest.
\<close>

theorem markers_partition_the_text:
  "\<exists>ps. concat (map (piece_text tag) ps) = content \<and> list_all (piece_ok U) ps \<and>
     extract_json_markers U tag content = (concat (map piece_payload ps), concat (map piece_plain ps))"
proof (induction U tag content rule: extract_json_markers.induct)
  case (1 U tag content)
  let ?open = "''['' @ tag @ '':''"
  show ?case
  proof (cases "split_first ?open content")
    case None
    then show ?thesis
      by (intro exI [where x = "[Plain content]"]) (simp add: extract_json_markers.simps [of U tag content])
  next
    case (Some ba)
    then obtain before after where f: "split_first ?open content = Some (before, after)" by (cases ba) simp
    note c = split_first_Some [OF f]
    show ?thesis
    proof (cases "json_marker U after")
      case None
      from "1.IH"(1) [OF refl f refl None] obtain ps where
        ps: "concat (map (piece_text tag) ps) = after" "list_all (piece_ok U) ps"
          "extract_json_markers U tag after = (concat (map piece_payload ps), concat (map piece_plain ps))" by blast
      have "extract_json_markers U tag content = (concat (map piece_payload ps), before @ ?open @ concat (map piece_plain ps))"
        using f None ps(3) by (simp add: extract_json_markers.simps [of U tag content])
      with ps c show ?thesis by (intro exI [where x = "Plain (before @ ?open) # ps"]) simp
    next
      case (Some pr)
      then obtain payload rest where m: "json_marker U after = Some (payload, rest)" by (cases pr) simp
      from json_marker_text [OF m] obtain gap close where
        g: "after = gap @ payload @ close @ '']'' @ rest" "blank U gap" "hd payload = CHR ''{''"
          "brace_scan False False 0 (payload @ close @ '']'' @ rest) = Some (payload, close @ '']'' @ rest)"
        by blast
      from g(3,4) have b: "balanced payload" by (simp add: balanced_iff brace_scan_prefix del: brace_scan.simps)
      from "1.IH"(2) [OF refl f refl m refl] obtain ps where
        ps: "concat (map (piece_text tag) ps) = rest" "list_all (piece_ok U) ps"
          "extract_json_markers U tag rest = (concat (map piece_payload ps), concat (map piece_plain ps))" by blast
      have "extract_json_markers U tag content = (payload # concat (map piece_payload ps), before @ concat (map piece_plain ps))"
        using f m ps(3) by (simp add: extract_json_markers.simps [of U tag content])
      with ps(1,2) c g(1,2) b show ?thesis
        by (intro exI [where x = "Plain before # Marker gap payload close # ps"]) simp
    qed
  qed
qed

lemma split_first_before:
  assumes "split_first p (a @ p) = Some (a, [])"
  shows "split_first p (a @ p @ b) = Some (a, b)"
  using assms
proof (induction a)
  case Nil
  then show ?case by (cases p; cases b) (auto simp: starts_with_def)
next
  case (Cons c a)
  have "starts_with p (c # a @ p @ b) = starts_with p (c # a @ p)"
    using take_append [of "length p" "c # a @ p" b] by (simp add: starts_with_def)
  with Cons show ?case by (auto split: if_splits option.splits)
qed

lemma split_first_char: "c \<notin> set a \<Longrightarrow> split_first [c] (a @ c # b) = Some (a, b)"
  by (induction a) (auto simp: starts_with_def)

lemma skip_space_stop:
  "\<not> whitespace U [c] \<Longrightarrow> s = [] \<or> \<not> continuation (hd s) \<Longrightarrow> skip_space U (c # s) = c # s"
  by (cases s) (auto simp: skip_space_def)

text \<open>
  C34: what a pulse writes as a marker is read back: a balanced object, with blanks before it at
  most, after text that does not contain the tag, gives its payload first, whatever brackets and
  strings the object holds, and the text before it and the rest are read on as if it was not there.
\<close>

theorem written_marker_is_read:
  assumes "split_first (''['' @ tag @ '':'') (before @ ''['' @ tag @ '':'') = Some (before, [])"
    and "blank U gap" and "CHR ''{'' \<notin> set gap"
    and "balanced payload"
    and "\<not> whitespace U '']''" and "rest = [] \<or> \<not> continuation (hd rest)"
  shows "extract_json_markers U tag (before @ (''['' @ tag @ '':'') @ gap @ payload @ '']'' @ rest) =
    (payload # fst (extract_json_markers U tag rest), before @ snd (extract_json_markers U tag rest))"
proof -
  let ?open = "''['' @ tag @ '':''" and ?after = "gap @ payload @ '']'' @ rest"
  have "payload \<noteq> []" using assms(4) by (auto simp: balanced_def)
  then obtain body where p: "payload = CHR ''{'' # body" using assms(4) by (cases payload) (auto simp: balanced_iff)
  have s: "split_first ?open (before @ ?open @ ?after) = Some (before, ?after)"
    by (rule split_first_before [OF assms(1)])
  have b: "split_first ''{'' ?after = Some (gap, body @ '']'' @ rest)"
    using split_first_char [OF assms(3), of "body @ '']'' @ rest"] p by simp
  have sc: "brace_scan False False 0 (CHR ''{'' # body @ '']'' @ rest) = Some (payload, '']'' @ rest)"
    using assms(4) brace_scan_prefix [of False False 0 payload "'']'' @ rest"] p
    by (simp add: balanced_iff del: brace_scan.simps)
  have "starts_with '']'' (skip_space U ('']'' @ rest))"
    using skip_space_stop [OF assms(5,6)] by (simp add: starts_with_def)
  moreover have "split_first '']'' ('']'' @ rest) = Some ([], rest)"
    by (simp add: starts_with_def)
  ultimately have "json_marker U ?after = Some (payload, rest)"
    using b assms(2) sc by (simp add: json_marker_def del: brace_scan.simps)
  with s show ?thesis
    by (subst extract_json_markers.simps) (simp add: Let_def split: prod.split)
qed

definition demo_chars :: unicode where
  "demo_chars = \<lparr>lowercase = id, alphanumeric = (\<lambda>_. True), whitespace = (\<lambda>c. c = '' '')\<rparr>"

theorem written_marker_is_read_witness:
  "extract_json_markers demo_chars ''FARM''
     (''a'' @ (''['' @ ''FARM'' @ '':'') @ '' '' @ (''{'' @ [CHR 0x22] @ ''}]'' @ [CHR 0x22] @ ''}'') @ '']'' @ ''b'') =
   ([''{'' @ [CHR 0x22] @ ''}]'' @ [CHR 0x22] @ ''}''], ''ab'')"
  using written_marker_is_read [of "''FARM''" "''a''" demo_chars "'' ''" "''{'' @ [CHR 0x22] @ ''}]'' @ [CHR 0x22] @ ''}''" "''b''"]
  by (simp add: starts_with_def balanced_iff demo_chars_def blank_def continuation_def byte_def
      extract_json_markers.simps [of _ _ "''b''"])

subsection \<open>Where the patterns fall short\<close>

text \<open>The lazy pattern ends an object at the first brace and bracket, inside a string or not.\<close>

lemma nested_object_is_cut:
  "object_marker demo_chars ''INTENT'' (''[INTENT: {'' @ [CHR 0x22] @ ''a}]b'' @ [CHR 0x22] @ ''}] c'') =
     Some (''{'' @ [CHR 0x22] @ ''a}'', ''b'' @ [CHR 0x22] @ ''}] c'')"
  by code_simp

text \<open>Taking one marker out can put another together.\<close>

lemma removal_makes_a_marker:
  "fst (matches (plain_marker demo_chars ''SHARE'') ''[SHA[FARM: {}]RE: x] y'') = [] \<and>
   share_content (parse_output demo_chars ''[SHA[FARM: {}]RE: x] y'') = [''x'']"
  by code_simp

end
