(* ===== verification/Alerts.thy ===== *)
theory Alerts
  imports Output Conversation
begin

text \<open>
  What scheduled work has to say to the owner, \<open>src/scheduler/alerts.rs\<close>: the queue that a consumer
  drains, its file, and the texts that are made fit for a message. \<open>serde_json\<close> and Unicode's
  control characters are parameters.
\<close>

subsection \<open>The queue\<close>

record alert =
  alert_id :: bytes
  source_task :: bytes
  alert_content :: bytes
  alert_at :: int
  target_channel :: "bytes option"

record alert_codec =
  encode_alerts :: "alert list \<Rightarrow> bytes"
  decode_alerts :: "bytes \<Rightarrow> alert list option"

definition alert_codec_ok :: "alert_codec \<Rightarrow> bool" where
  "alert_codec_ok C \<longleftrightarrow>
     (\<forall>as. decode_alerts C (encode_alerts C as) = Some as \<and> valid_utf8 (encode_alerts C as))"

text \<open>The queue in memory and \<open>alerts.json\<close>.\<close>

record alert_queue =
  pending_alerts :: "alert list"
  alert_file :: "bytes option"

definition load_alerts :: "alert_codec \<Rightarrow> bool \<Rightarrow> bytes option \<Rightarrow> alert_queue" where
  "load_alerts C reads d =
     \<lparr>pending_alerts = (case d of
          None \<Rightarrow> []
        | Some t \<Rightarrow>
            if \<not> reads \<or> \<not> valid_utf8 t then []
            else (case decode_alerts C t of None \<Rightarrow> [] | Some as \<Rightarrow> as)),
      alert_file = d\<rparr>"

definition save_alerts :: "alert_codec \<Rightarrow> bool \<Rightarrow> alert_queue \<Rightarrow> alert_queue" where
  "save_alerts C writes q =
     (if writes then q\<lparr>alert_file := Some (encode_alerts C (pending_alerts q))\<rparr> else q)"

definition push_alert :: "alert_codec \<Rightarrow> bool \<Rightarrow> alert \<Rightarrow> alert_queue \<Rightarrow> alert_queue" where
  "push_alert C writes a q = save_alerts C writes (q\<lparr>pending_alerts := pending_alerts q @ [a]\<rparr>)"

definition drain_alerts :: "alert_codec \<Rightarrow> bool \<Rightarrow> alert_queue \<Rightarrow> alert list \<times> alert_queue" where
  "drain_alerts C writes q =
     (if pending_alerts q = [] then ([], q)
      else (pending_alerts q, save_alerts C writes (q\<lparr>pending_alerts := []\<rparr>)))"

subsection \<open>Texts of alerts\<close>

definition MAX_ALERT_CONTENT_LEN :: nat where "MAX_ALERT_CONTENT_LEN = 1800"

text \<open>The zero-width, direction and byte-order characters that are dropped, in UTF-8.\<close>

definition invisible :: "bytes \<Rightarrow> bool" where
  "invisible c \<longleftrightarrow>
     (case c of
        [a, b, d] \<Rightarrow>
          (a = CHR 0xE2 \<and> b = CHR 0x80 \<and> (in_range 0x8B 0x8F d \<or> in_range 0xAA 0xAE d)) \<or>
          (a = CHR 0xE2 \<and> b = CHR 0x81 \<and> in_range 0xA6 0xA9 d) \<or>
          (a = CHR 0xEF \<and> b = CHR 0xBB \<and> d = CHR 0xBF)
      | _ \<Rightarrow> False)"

definition alert_char :: "(bytes \<Rightarrow> bool) \<Rightarrow> bytes \<Rightarrow> bytes" where
  "alert_char control c =
     (if c \<in> {[CHR 0x0A], [CHR 0x0D], [CHR 0x09]} then '' ''
      else if c = ''@'' then ''#''
      else if invisible c then []
      else if control c then []
      else c)"

text \<open>The loop: a character that is dropped does not look at the length, one that is kept does.\<close>

fun sanitize_chars :: "(bytes \<Rightarrow> bool) \<Rightarrow> nat \<Rightarrow> bytes list \<Rightarrow> bytes \<Rightarrow> bytes" where
  "sanitize_chars control n [] out = out"
| "sanitize_chars control n (c # cs) out =
     (let k = alert_char control c
      in if k = [] then sanitize_chars control n cs out
         else if n \<le> length (out @ k) then out @ k else sanitize_chars control n cs (out @ k))"

definition sanitize_alert_text :: "(bytes \<Rightarrow> bool) \<Rightarrow> bytes \<Rightarrow> nat \<Rightarrow> bytes" where
  "sanitize_alert_text control s n = sanitize_chars control n (utf8_chars s) []"

definition slug_for_alert_id :: "bytes \<Rightarrow> bytes" where
  "slug_for_alert_id s =
     take 40 (concat (filter
       (\<lambda>c. case c of [b] \<Rightarrow> ascii_alphanumeric b \<or> b \<in> {CHR ''-'', CHR ''_''} | _ \<Rightarrow> False) (utf8_chars s)))"

definition alert_from_share :: "bytes \<Rightarrow> int \<Rightarrow> bytes \<Rightarrow> bytes \<Rightarrow> alert" where
  "alert_from_share uuid now name content =
     \<lparr>alert_id = ''alert-'' @ name @ ''-'' @ take 8 uuid, source_task = name, alert_content = content,
      alert_at = now, target_channel = None\<rparr>"

definition alert_from_store_failure :: "(bytes \<Rightarrow> bool) \<Rightarrow> bytes \<Rightarrow> int \<Rightarrow> bytes \<Rightarrow> bytes \<Rightarrow> alert" where
  "alert_from_store_failure control uuid now task_name e =
     (let name = sanitize_alert_text control task_name 80
      in \<lparr>alert_id = ''alert-'' @ slug_for_alert_id name @ ''-'' @ take 8 uuid, source_task = name,
          alert_content = ''prediction store write failed during '' @ [CHR 0x27] @ name @ [CHR 0x27] @ '': '' @
            sanitize_alert_text control e 400 @ '' '' @ dash @ '' markers from this session were NOT persisted'',
          alert_at = now, target_channel = None\<rparr>)"

subsection \<open>What the owner gets\<close>

datatype alert_op = PushAlert alert bool | DrainAlerts bool

text \<open>A run of the queue: what was handed to consumers, in order, and the queue.\<close>

fun alert_run :: "alert_codec \<Rightarrow> alert_op list \<Rightarrow> alert_queue \<Rightarrow> alert list \<times> alert_queue" where
  "alert_run C [] q = ([], q)"
| "alert_run C (PushAlert a w # ops) q = alert_run C ops (push_alert C w a q)"
| "alert_run C (DrainAlerts w # ops) q =
     (case drain_alerts C w q of
        (as, q1) \<Rightarrow> (case alert_run C ops q1 of (bs, q2) \<Rightarrow> (as @ bs, q2)))"

fun pushed_alerts :: "alert_op list \<Rightarrow> alert list" where
  "pushed_alerts [] = []"
| "pushed_alerts (PushAlert a w # ops) = a # pushed_alerts ops"
| "pushed_alerts (DrainAlerts w # ops) = pushed_alerts ops"

lemma save_alerts_pending [simp]: "pending_alerts (save_alerts C w q) = pending_alerts q"
  by (simp add: save_alerts_def)

lemma push_alert_pending [simp]: "pending_alerts (push_alert C w a q) = pending_alerts q @ [a]"
  by (simp add: push_alert_def)

text \<open>
  While the process runs, every alert is handed out once and in the order of its arrival, whatever
  the disk does: what consumers got, followed by what is pending, is what was there and what came.
\<close>

lemma alerts_handed_out_once:
  "alert_run C ops q = (got, q') \<Longrightarrow> got @ pending_alerts q' = pending_alerts q @ pushed_alerts ops"
proof (induction C ops q arbitrary: got q' rule: alert_run.induct)
  case (3 C w ops q)
  then show ?case by (auto simp: drain_alerts_def split: if_splits prod.splits)
qed auto

text \<open>A restart gives back the pending alerts when the last save succeeded.\<close>

lemma saved_alerts_survive:
  "alert_codec_ok C \<Longrightarrow> load_alerts C True (alert_file (push_alert C True a q)) = push_alert C True a q"
  by (simp add: load_alerts_def push_alert_def save_alerts_def alert_codec_ok_def)

lemma sanitize_chars_length:
  assumes "length out < n" and "\<And>c. c \<in> set cs \<Longrightarrow> length c \<le> 4"
  shows "length (sanitize_chars control n cs out) < n + 4"
  using assms
proof (induction cs arbitrary: out)
  case (Cons c cs)
  let ?k = "alert_char control c"
  have k: "length ?k \<le> 4" using Cons.prems(2) [of c] by (auto simp: alert_char_def)
  show ?case
  proof (cases "?k = []")
    case True
    with Cons show ?thesis by simp
  next
    case False
    show ?thesis
    proof (cases "n \<le> length (out @ ?k)")
      case True
      with False k Cons.prems(1) show ?thesis by simp
    next
      case f: False
      then have l: "length (out @ ?k) < n" by simp
      have "length (sanitize_chars control n cs (out @ ?k)) < n + 4"
        by (rule Cons.IH [OF l]) (simp add: Cons.prems(2))
      with False f show ?thesis by simp
    qed
  qed
qed simp

lemma sanitize_chars_bytes:
  "b \<in> set (sanitize_chars control n cs out) \<Longrightarrow>
     b \<in> set out \<or> (\<exists>c\<in>set cs. b \<in> set (alert_char control c))"
proof (induction cs arbitrary: out)
  case (Cons c cs)
  let ?k = "alert_char control c"
  show ?case
  proof (cases "?k = []")
    case True
    with Cons show ?thesis by simp
  next
    case False
    show ?thesis
    proof (cases "n \<le> length (out @ ?k)")
      case True
      with False Cons.prems show ?thesis by auto
    next
      case f: False
      with False Cons.prems have "b \<in> set (sanitize_chars control n cs (out @ ?k))" by simp
      from Cons.IH [OF this] show ?thesis by auto
    qed
  qed
qed simp

lemma utf8_char_single: "c \<in> set (utf8_chars s) \<Longrightarrow> x \<in> set c \<Longrightarrow> \<not> continuation x \<Longrightarrow> x = hd c \<and> c \<noteq> []"
  by (induction s rule: utf8_chars.induct) (auto dest: set_takeWhileD)

text \<open>
  No field of an alert can ping anybody or add a line to it: a sanitised text holds no at sign and
  no line break or tab, and it is at most three bytes longer than its cap.
\<close>

theorem alert_text_is_defused:
  assumes "0 < n" and "\<And>c. c \<in> set (utf8_chars s) \<Longrightarrow> length c \<le> 4"
    and "\<And>c. c \<in> set (utf8_chars s) \<Longrightarrow> \<not> continuation (hd c) \<and> (length c = 1 \<longleftrightarrow> byte (hd c) < 128)"
  shows "length (sanitize_alert_text control s n) < n + 4 \<and>
    set (sanitize_alert_text control s n) \<inter> {CHR ''@'', CHR 0x0A, CHR 0x0D, CHR 0x09} = {}"
proof -
  have "CHR ''@'' \<notin> set (sanitize_alert_text control s n) \<and> CHR 0x0A \<notin> set (sanitize_alert_text control s n) \<and>
    CHR 0x0D \<notin> set (sanitize_alert_text control s n) \<and> CHR 0x09 \<notin> set (sanitize_alert_text control s n)"
  proof -
    have no: "b \<notin> set (sanitize_alert_text control s n)"
      if b: "b \<in> {CHR ''@'', CHR 0x0A, CHR 0x0D, CHR 0x09}" for b
    proof
      assume "b \<in> set (sanitize_alert_text control s n)"
      then obtain c where c: "c \<in> set (utf8_chars s)" "b \<in> set (alert_char control c)"
        using sanitize_chars_bytes unfolding sanitize_alert_text_def by fastforce
      from c(2) b have k: "b \<in> set c" "c \<notin> {[CHR 0x0A], [CHR 0x0D], [CHR 0x09]}" "c \<noteq> ''@''"
        by (auto simp: alert_char_def split: if_splits)
      have nb: "\<not> continuation b" "byte b < 128" using b by (auto simp: continuation_def byte_def)
      from utf8_char_single [OF c(1) k(1) nb(1)] have h: "b = hd c" "c \<noteq> []" by auto
      with assms(3) [OF c(1)] nb(2) have "length c = 1" by simp
      with h have "c = [b]" by (cases c) auto
      with k b show False by auto
    qed
    then show ?thesis by simp
  qed
  moreover have "length (sanitize_alert_text control s n) < n + 4"
    unfolding sanitize_alert_text_def using assms(1,2) by (intro sanitize_chars_length) auto
  ultimately show ?thesis by auto
qed

theorem alert_text_is_defused_witness:
  "length (sanitize_alert_text (\<lambda>_. False) ''a@b'' 2) < 2 + 4 \<and>
   set (sanitize_alert_text (\<lambda>_. False) ''a@b'' 2) \<inter> {CHR ''@'', CHR 0x0A, CHR 0x0D, CHR 0x09} = {}"
  by (rule alert_text_is_defused) (auto simp: continuation_def byte_def)

end
