(* ===== verification/Tension.thy ===== *)
theory Tension
  imports Schedule Conversation
begin

text \<open>
  The tension store, \<open>src/tension/mod.rs\<close>: threads that grow louder while nobody works on them, the
  update law, the discharge that needs an artifact, tombstones, and the obligation that a full store
  raises. The arithmetic of \<open>f64\<close> is a parameter, of which the properties use what IEEE 754 says
  of ordering and rounding. The correlation metrics are not modelled.
\<close>

subsection \<open>Floating point\<close>

record 'f f64_lib =
  of_i64 :: "int \<Rightarrow> 'f"
  f_add :: "'f \<Rightarrow> 'f \<Rightarrow> 'f"
  f_sub :: "'f \<Rightarrow> 'f \<Rightarrow> 'f"
  f_mul :: "'f \<Rightarrow> 'f \<Rightarrow> 'f"
  f_div :: "'f \<Rightarrow> 'f \<Rightarrow> 'f"
  f_exp2 :: "'f \<Rightarrow> 'f"
  f_le :: "'f \<Rightarrow> 'f \<Rightarrow> bool"
  f_total :: "'f \<Rightarrow> 'f \<Rightarrow> bool"
  f_finite :: "'f \<Rightarrow> bool"
  f_nan :: "'f \<Rightarrow> bool"

abbreviation f_zero :: "'f f64_lib \<Rightarrow> 'f" where
  "f_zero F \<equiv> of_i64 F 0"

definition f_less :: "'f f64_lib \<Rightarrow> 'f \<Rightarrow> 'f \<Rightarrow> bool" where
  "f_less F x y \<longleftrightarrow> f_le F x y \<and> \<not> f_le F y x"

text \<open>\<open>f64::max\<close> ignores a NaN; \<open>f64::clamp\<close> keeps it.\<close>

definition f_max :: "'f f64_lib \<Rightarrow> 'f \<Rightarrow> 'f \<Rightarrow> 'f" where
  "f_max F x y = (if f_nan F x then y else if f_nan F y then x else if f_le F x y then y else x)"

definition f_clamp :: "'f f64_lib \<Rightarrow> 'f \<Rightarrow> 'f \<Rightarrow> 'f \<Rightarrow> 'f" where
  "f_clamp F x lo hi = (let y = (if f_less F x lo then lo else x) in if f_less F hi y then hi else y)"

text \<open>
  What the code relies on: \<open>\<le>\<close> is a total preorder of the numbers that are not NaN, \<open>total_cmp\<close> a total
  preorder of all that agrees with it; small integers are finite and ordered; rounding is monotone,
  so adding something that is not negative does not lower a finite number and subtracting it does
  not raise it; the factors of a finite product are finite, and it is not negative when they are not.
\<close>

definition f64_order :: "'f f64_lib \<Rightarrow> bool" where
  "f64_order F \<longleftrightarrow>
     (\<forall>x y. f_le F x y \<longrightarrow> \<not> f_nan F x \<and> \<not> f_nan F y) \<and>
     (\<forall>x y. \<not> f_nan F x \<longrightarrow> \<not> f_nan F y \<longrightarrow> f_le F x y \<or> f_le F y x) \<and>
     (\<forall>x y z. f_le F x y \<longrightarrow> f_le F y z \<longrightarrow> f_le F x z) \<and>
     (\<forall>x. f_finite F x \<longrightarrow> \<not> f_nan F x) \<and>
     (\<forall>x y z. f_finite F x \<longrightarrow> f_finite F z \<longrightarrow> f_le F x y \<longrightarrow> f_le F y z \<longrightarrow> f_finite F y)"

definition f64_casts :: "'f f64_lib \<Rightarrow> bool" where
  "f64_casts F \<longleftrightarrow>
     (\<forall>i. \<bar>i\<bar> \<le> 2 ^ 53 \<longrightarrow> f_finite F (of_i64 F i)) \<and>
     (\<forall>i j. \<bar>i\<bar> \<le> 2 ^ 53 \<longrightarrow> \<bar>j\<bar> \<le> 2 ^ 53 \<longrightarrow> i \<le> j \<longrightarrow> f_le F (of_i64 F i) (of_i64 F j))"

definition f64_rounds :: "'f f64_lib \<Rightarrow> bool" where
  "f64_rounds F \<longleftrightarrow>
     (\<forall>x y. f_finite F x \<longrightarrow> f_finite F y \<longrightarrow> f_le F (f_zero F) y \<longrightarrow> f_le F x (f_add F x y)) \<and>
     (\<forall>x y. f_finite F x \<longrightarrow> f_le F (f_zero F) y \<longrightarrow> f_le F (f_sub F x y) x) \<and>
     (\<forall>x y. f_finite F (f_mul F x y) \<longrightarrow> f_finite F x \<and> f_finite F y) \<and>
     (\<forall>x y. f_le F (f_zero F) x \<longrightarrow> f_le F (f_zero F) y \<longrightarrow> f_finite F (f_mul F x y) \<longrightarrow>
        f_le F (f_zero F) (f_mul F x y))"

definition f64_sorts :: "'f f64_lib \<Rightarrow> bool" where
  "f64_sorts F \<longleftrightarrow>
     (\<forall>x y. f_total F x y \<or> f_total F y x) \<and>
     (\<forall>x y z. f_total F x y \<longrightarrow> f_total F y z \<longrightarrow> f_total F x z) \<and>
     (\<forall>x y. f_total F x y \<longrightarrow> \<not> f_nan F x \<longrightarrow> \<not> f_nan F y \<longrightarrow> f_le F x y)"

definition f64_ok :: "'f f64_lib \<Rightarrow> bool" where
  "f64_ok F \<longleftrightarrow> f64_order F \<and> f64_casts F \<and> f64_rounds F \<and> f64_sorts F"

subsection \<open>Threads\<close>

datatype thread_origin =
    PredictionError bytes | OpenQuestion bytes | CallbackItem bytes | Adverse bytes | UserRaised bytes

datatype thread_resolution = Answered | Dissolved | Superseded bytes | Abandoned

datatype work_artifact = FileDiff bytes int | ResolvedPrediction bytes | ToolResult bytes u32

record 'f work_record =
  work_at :: int
  work_cycle :: u64
  work_artifact_of :: work_artifact
  tension_after :: 'f

record 'f thread =
  th_id :: bytes
  th_label :: bytes
  th_content :: bytes
  th_origin :: thread_origin
  th_created :: int
  th_touched :: int
  th_touches :: u32
  th_tension :: 'f
  th_resolved_at :: "int option"
  th_resolution :: "thread_resolution option"
  th_reason :: "bytes option"
  th_created_cycle :: u64
  th_worked_cycle :: "u64 option"
  th_mentions :: u32
  th_log :: "'f work_record list"

definition is_live :: "'f thread \<Rightarrow> bool" where
  "is_live t \<longleftrightarrow> th_resolution t = None"

text \<open>\<open>num_seconds\<close> of a difference of instants in nanoseconds.\<close>

definition whole_seconds :: "int \<Rightarrow> int" where
  "whole_seconds d = (if 0 \<le> d then d div 1000000000 else - ((- d) div 1000000000))"

definition hours_between :: "'f f64_lib \<Rightarrow> int \<Rightarrow> int \<Rightarrow> 'f" where
  "hours_between F since now =
     f_max F (f_div F (of_i64 F (whole_seconds (now - since))) (of_i64 F 3600)) (f_zero F)"

definition hours_untouched :: "'f f64_lib \<Rightarrow> 'f thread \<Rightarrow> int \<Rightarrow> 'f" where
  "hours_untouched F t now = hours_between F (th_touched t) now"

definition age_hours :: "'f f64_lib \<Rightarrow> 'f thread \<Rightarrow> int \<Rightarrow> 'f" where
  "age_hours F t now = hours_between F (th_created t) now"

record thread_draft =
  draft_label :: bytes
  draft_content :: bytes
  draft_origin :: thread_origin

record 'f triage_candidate =
  pick_id :: bytes
  pick_label :: bytes
  pick_tension :: 'f
  pick_age :: 'f

record 'f triage_demand =
  demand_raised :: int
  demand_live :: nat
  demand_cap :: nat
  demand_picks :: "'f triage_candidate list"

record cycle_ledger =
  cycles_run :: u64
  last_selected :: "bytes option"
  reach_cycles :: u64
  last_cycle_at :: "int option"

record refusal_notice =
  refused_marker :: bytes
  refused_thread :: bytes
  refused_why :: bytes

record 'f tension_store =
  threads :: "'f thread list"
  ledger :: cycle_ledger
  last_tick_at :: "int option"
  triage :: "'f triage_demand option"
  last_refusals :: "refusal_notice list"

record 'f tension_config =
  tension_enabled :: bool
  base_rate :: 'f
  age_weight_half :: 'f
  work_credit :: 'f
  cycle_threshold :: 'f
  floor_interval_hours :: u64
  max_live_threads :: nat
  top_k_injected :: nat

datatype open_outcome = Opened bytes | AlreadyOpen bytes | OpenedOverCap bytes nat

datatype 'f work_outcome = Credited 'f | AlreadyCreditedThisCycle | WorkAlreadyResolved | WorkUnknownThread

datatype resolve_outcome = Resolved | AlreadyResolved | UnknownThread

text \<open>A verdict that claims work carries the artifact, one that does not carries a reason.\<close>

datatype resolution_verdict =
    AnsweredBy work_artifact | DissolvedFor bytes | SupersededBy bytes work_artifact | AbandonedFor bytes

fun split_verdict :: "resolution_verdict \<Rightarrow> thread_resolution \<times> bytes option \<times> work_artifact option" where
  "split_verdict (AnsweredBy a) = (Answered, None, Some a)"
| "split_verdict (DissolvedFor r) = (Dissolved, Some r, None)"
| "split_verdict (SupersededBy by' a) = (Superseded by', None, Some a)"
| "split_verdict (AbandonedFor r) = (Abandoned, Some r, None)"

subsection \<open>Reading\<close>

definition store_empty :: "'f tension_store" where
  "store_empty =
     \<lparr>threads = [], ledger = \<lparr>cycles_run = 0, last_selected = None, reach_cycles = 0, last_cycle_at = None\<rparr>,
      last_tick_at = None, triage = None, last_refusals = []\<rparr>"

definition live :: "'f tension_store \<Rightarrow> 'f thread list" where
  "live s = filter is_live (threads s)"

definition live_count :: "'f tension_store \<Rightarrow> nat" where
  "live_count s = length (live s)"

definition tombstones :: "'f tension_store \<Rightarrow> 'f thread list" where
  "tombstones s = filter (\<lambda>t. \<not> is_live t) (threads s)"

definition find_thread :: "'f tension_store \<Rightarrow> bytes \<Rightarrow> 'f thread option" where
  "find_thread s i = List.find (\<lambda>t. th_id t = i) (threads s)"

text \<open>\<open>sort_by\<close> is stable.\<close>

fun insert_by :: "('a \<Rightarrow> 'a \<Rightarrow> bool) \<Rightarrow> 'a \<Rightarrow> 'a list \<Rightarrow> 'a list" where
  "insert_by le x [] = [x]"
| "insert_by le x (y # ys) = (if le x y then x # y # ys else y # insert_by le x ys)"

definition sort_by :: "('a \<Rightarrow> 'a \<Rightarrow> bool) \<Rightarrow> 'a list \<Rightarrow> 'a list" where
  "sort_by le xs = foldr (insert_by le) xs []"

definition presses_more :: "'f f64_lib \<Rightarrow> 'f thread \<Rightarrow> 'f thread \<Rightarrow> bool" where
  "presses_more F a b \<longleftrightarrow>
     f_total F (th_tension b) (th_tension a) \<and>
     (f_total F (th_tension a) (th_tension b) \<longrightarrow> th_created a \<le> th_created b)"

definition presses_less :: "'f f64_lib \<Rightarrow> 'f thread \<Rightarrow> 'f thread \<Rightarrow> bool" where
  "presses_less F a b \<longleftrightarrow>
     f_total F (th_tension a) (th_tension b) \<and>
     (f_total F (th_tension b) (th_tension a) \<longrightarrow> th_created a \<le> th_created b)"

definition top_k :: "'f f64_lib \<Rightarrow> nat \<Rightarrow> 'f tension_store \<Rightarrow> 'f thread list" where
  "top_k F k s = take k (sort_by (presses_more F) (live s))"

definition max_tension :: "'f f64_lib \<Rightarrow> 'f tension_store \<Rightarrow> 'f" where
  "max_tension F s = foldl (f_max F) (f_zero F) (map th_tension (live s))"

definition hours_since_last_cycle :: "'f f64_lib \<Rightarrow> 'f tension_store \<Rightarrow> int \<Rightarrow> 'f option" where
  "hours_since_last_cycle F s now = map_option (\<lambda>at. hours_between F at now) (last_cycle_at (ledger s))"

subsection \<open>Changing\<close>

text \<open>\<open>iter_mut().find(..)\<close>: the change of the first element that fits.\<close>

fun update_first :: "('a \<Rightarrow> bool) \<Rightarrow> ('a \<Rightarrow> 'a) \<Rightarrow> 'a list \<Rightarrow> 'a list" where
  "update_first P f [] = []"
| "update_first P f (x # xs) = (if P x then f x # xs else x # update_first P f xs)"

definition MAX_TENSION :: int where "MAX_TENSION = 1000"

definition MAX_WORK_LOG :: nat where "MAX_WORK_LOG = 10"

definition TRIAGE_CANDIDATES :: nat where "TRIAGE_CANDIDATES = 5"

definition REACH_MIN_AGE_CYCLES :: u64 where "REACH_MIN_AGE_CYCLES = 10"

definition normalize_label :: "unicode \<Rightarrow> bytes \<Rightarrow> bytes" where
  "normalize_label U s = lowercase U (join_with '' '' (split_whitespace U s))"

text \<open>The loop of \<open>mint_id\<close> over the uuids that are drawn; \<open>None\<close> when all of them are taken.\<close>

fun mint_id :: "bytes list \<Rightarrow> 'f thread list \<Rightarrow> bytes option" where
  "mint_id [] ts = None"
| "mint_id (u # us) ts =
     (let candidate = ''t-'' @ take 8 u
      in if list_ex (\<lambda>t. th_id t = candidate) ts then mint_id us ts else Some candidate)"

definition raise_triage :: "'f f64_lib \<Rightarrow> 'f tension_config \<Rightarrow> nat \<Rightarrow> int \<Rightarrow> 'f tension_store \<Rightarrow> 'f tension_store" where
  "raise_triage F c n now s =
     s\<lparr>triage := Some
        \<lparr>demand_raised = (case triage s of None \<Rightarrow> now | Some d \<Rightarrow> demand_raised d),
         demand_live = n, demand_cap = max_live_threads c,
         demand_picks = map (\<lambda>t. \<lparr>pick_id = th_id t, pick_label = th_label t, pick_tension = th_tension t,
                                     pick_age = age_hours F t now\<rparr>)
           (take TRIAGE_CANDIDATES (sort_by (presses_less F) (live s)))\<rparr>\<rparr>"

definition new_thread :: "'f f64_lib \<Rightarrow> bytes \<Rightarrow> thread_draft \<Rightarrow> int \<Rightarrow> u64 \<Rightarrow> 'f thread" where
  "new_thread F i d now cycle =
     \<lparr>th_id = i, th_label = draft_label d, th_content = draft_content d, th_origin = draft_origin d,
      th_created = now, th_touched = now, th_touches = 0, th_tension = f_zero F, th_resolved_at = None,
      th_resolution = None, th_reason = None, th_created_cycle = cycle, th_worked_cycle = None,
      th_mentions = 0, th_log = []\<rparr>"

definition mention :: "'f thread \<Rightarrow> 'f thread" where
  "mention t = t\<lparr>th_mentions := saturating_inc (th_mentions t)\<rparr>"

definition same_thread :: "unicode \<Rightarrow> thread_draft \<Rightarrow> 'f thread \<Rightarrow> bool" where
  "same_thread U d t \<longleftrightarrow>
     is_live t \<and> (th_origin t = draft_origin d \<or> normalize_label U (th_label t) = normalize_label U (draft_label d))"

definition open_thread ::
  "'f f64_lib \<Rightarrow> unicode \<Rightarrow> 'f tension_config \<Rightarrow> bytes list \<Rightarrow> thread_draft \<Rightarrow> int \<Rightarrow> 'f tension_store \<Rightarrow>
     (open_outcome \<times> 'f tension_store) option" where
  "open_thread F U c draws d now s =
     (case List.find (same_thread U d) (threads s) of
        Some t \<Rightarrow> Some (AlreadyOpen (th_id t), s\<lparr>threads := update_first (same_thread U d) mention (threads s)\<rparr>)
      | None \<Rightarrow>
          (case mint_id draws (threads s) of
             None \<Rightarrow> None
           | Some i \<Rightarrow>
               (let s1 = s\<lparr>threads := threads s @ [new_thread F i d now (cycles_run (ledger s))]\<rparr>; n = live_count s1
                in if max_live_threads c < n then Some (OpenedOverCap i n, raise_triage F c n now s1)
                   else Some (Opened i, s1))))"

definition note_mention :: "bytes \<Rightarrow> 'f tension_store \<Rightarrow> bool \<times> 'f tension_store" where
  "note_mention i s =
     (case find_thread s i of
        None \<Rightarrow> (False, s)
      | Some _ \<Rightarrow> (True, s\<lparr>threads := update_first (\<lambda>t. th_id t = i) mention (threads s)\<rparr>))"

definition age_weight :: "'f f64_lib \<Rightarrow> 'f \<Rightarrow> 'f \<Rightarrow> 'f" where
  "age_weight F h half =
     (if f_nan F half \<or> f_le F half (f_zero F) \<or> \<not> f_finite F h then of_i64 F 1
      else
        let weight = f_exp2 F (f_div F (f_max F h (f_zero F)) half)
        in if f_finite F weight then f_clamp F weight (of_i64 F 1) (of_i64 F 64) else of_i64 F 64)"

definition tick_periods_since :: "'f f64_lib \<Rightarrow> int option \<Rightarrow> int \<Rightarrow> 'f" where
  "tick_periods_since F previous now =
     (case previous of
        None \<Rightarrow> of_i64 F 1
      | Some p \<Rightarrow>
          f_clamp F (f_div F (f_div F (of_i64 F (whole_seconds (now - p))) (of_i64 F 60)) (of_i64 F 20))
            (f_zero F) (of_i64 F 72))"

definition bounded :: "'f f64_lib \<Rightarrow> 'f \<Rightarrow> 'f" where
  "bounded F x = f_clamp F x (f_zero F) (of_i64 F MAX_TENSION)"

definition tick_thread :: "'f f64_lib \<Rightarrow> 'f tension_config \<Rightarrow> 'f \<Rightarrow> int \<Rightarrow> 'f thread \<Rightarrow> 'f thread" where
  "tick_thread F c periods now t =
     (let accrual = f_mul F (f_mul F (f_max F (base_rate c) (f_zero F))
            (age_weight F (hours_untouched F t now) (age_weight_half c))) periods
      in if f_finite F accrual then t\<lparr>th_tension := bounded F (f_add F (th_tension t) accrual)\<rparr> else t)"

record 'f tick_report =
  tick_live :: nat
  tick_periods :: 'f
  tick_max :: 'f
  tick_total :: 'f

definition tick :: "'f f64_lib \<Rightarrow> 'f tension_config \<Rightarrow> int \<Rightarrow> 'f tension_store \<Rightarrow> 'f tick_report \<times> 'f tension_store" where
  "tick F c now s =
     (let periods = tick_periods_since F (last_tick_at s) now;
          s1 = s\<lparr>threads := map (\<lambda>t. if is_live t then tick_thread F c periods now t else t) (threads s),
                 last_tick_at := Some now\<rparr>
      in (\<lparr>tick_live = live_count s1, tick_periods = periods, tick_max = max_tension F s1,
           tick_total = foldl (f_add F) (f_zero F) (map th_tension (live s1))\<rparr>, s1))"

definition push_work :: "'f work_record \<Rightarrow> 'f work_record list \<Rightarrow> 'f work_record list" where
  "push_work r log = (let l = log @ [r] in drop (length l - MAX_WORK_LOG) l)"

definition credit_thread ::
  "'f f64_lib \<Rightarrow> 'f tension_config \<Rightarrow> work_artifact \<Rightarrow> int \<Rightarrow> u64 \<Rightarrow> 'f thread \<Rightarrow> 'f thread" where
  "credit_thread F c a now cycle t =
     (let x = bounded F (f_sub F (th_tension t) (f_max F (work_credit c) (f_zero F)))
      in t\<lparr>th_tension := x, th_touched := now, th_touches := saturating_inc (th_touches t),
           th_worked_cycle := Some cycle,
           th_log := push_work \<lparr>work_at = now, work_cycle = cycle, work_artifact_of = a, tension_after = x\<rparr> (th_log t)\<rparr>)"

definition credit_work ::
  "'f f64_lib \<Rightarrow> 'f tension_config \<Rightarrow> bytes \<Rightarrow> work_artifact \<Rightarrow> int \<Rightarrow> 'f tension_store \<Rightarrow> 'f work_outcome \<times> 'f tension_store" where
  "credit_work F c i a now s =
     (let cycle = cycles_run (ledger s) in
      case find_thread s i of
        None \<Rightarrow> (WorkUnknownThread, s)
      | Some t \<Rightarrow>
          if \<not> is_live t then (WorkAlreadyResolved, s)
          else if th_worked_cycle t = Some cycle then (AlreadyCreditedThisCycle, s)
          else (Credited (th_tension (credit_thread F c a now cycle t)),
                s\<lparr>threads := update_first (\<lambda>t. th_id t = i) (credit_thread F c a now cycle) (threads s)\<rparr>))"

definition retire :: "resolution_verdict \<Rightarrow> int \<Rightarrow> u64 \<Rightarrow> 'f thread \<Rightarrow> 'f thread" where
  "retire v now cycle t =
     (case split_verdict v of
        (r, reason, artifact) \<Rightarrow>
          (case artifact of
             None \<Rightarrow> t
           | Some a \<Rightarrow>
               t\<lparr>th_log := push_work \<lparr>work_at = now, work_cycle = cycle, work_artifact_of = a,
                                      tension_after = th_tension t\<rparr> (th_log t)\<rparr>)
          \<lparr>th_resolved_at := Some now, th_resolution := Some r, th_reason := reason\<rparr>)"

definition settle_triage :: "'f f64_lib \<Rightarrow> 'f tension_config \<Rightarrow> int \<Rightarrow> 'f tension_store \<Rightarrow> 'f tension_store" where
  "settle_triage F c now s =
     (if triage s = None then s
      else if live_count s \<le> max_live_threads c then s\<lparr>triage := None\<rparr>
      else raise_triage F c (live_count s) now s)"

definition resolve ::
  "'f f64_lib \<Rightarrow> 'f tension_config \<Rightarrow> bytes \<Rightarrow> resolution_verdict \<Rightarrow> int \<Rightarrow> 'f tension_store \<Rightarrow> resolve_outcome \<times> 'f tension_store" where
  "resolve F c i v now s =
     (case find_thread s i of
        None \<Rightarrow> (UnknownThread, s)
      | Some t \<Rightarrow>
          if \<not> is_live t then (AlreadyResolved, s)
          else (Resolved, settle_triage F c now
            (s\<lparr>threads := update_first (\<lambda>t. th_id t = i) (retire v now (cycles_run (ledger s))) (threads s)\<rparr>)))"

record cycle_report =
  report_cycle :: u64
  report_selected :: "bytes option"
  reached_past_recency :: bool

definition record_cycle :: "'f f64_lib \<Rightarrow> int \<Rightarrow> 'f tension_store \<Rightarrow> cycle_report \<times> 'f tension_store" where
  "record_cycle F now s =
     (let cycle = saturating_add_u64 (cycles_run (ledger s)) 1;
          selected = (case top_k F 1 s of [] \<Rightarrow> None | t # _ \<Rightarrow> Some t);
          reached = (case selected of
              None \<Rightarrow> False
            | Some t \<Rightarrow> last_selected (ledger s) \<noteq> Some (th_id t) \<and>
                REACH_MIN_AGE_CYCLES < saturating_sub_u64 cycle (th_created_cycle t))
      in (\<lparr>report_cycle = cycle, report_selected = map_option th_id selected, reached_past_recency = reached\<rparr>,
          s\<lparr>ledger := \<lparr>cycles_run = cycle, last_selected = map_option th_id selected,
                       reach_cycles = (if reached then saturating_add_u64 (reach_cycles (ledger s)) 1
                                       else reach_cycles (ledger s)),
                       last_cycle_at = Some now\<rparr>\<rparr>))"

end
