(* ===== verification/Ingest.thy ===== *)
theory Ingest
  imports Tension Output Alerts
begin

text \<open>
  What a finished cycle does to the tension store, \<open>src/tension/ingest.rs\<close>: the three markers, the
  evidence a claim of work is checked against, the threads of recorded prediction errors, mentions,
  and the refusals kept for the next prompt. The payloads of markers are read by derived
  deserialisers, which are parameters, as are the modification times of files.
\<close>

subsection \<open>Text\<close>

definition MAX_MARKER_PAYLOAD_LEN :: nat where "MAX_MARKER_PAYLOAD_LEN = 4096"
definition MAX_LABEL_LEN :: nat where "MAX_LABEL_LEN = 120"
definition MAX_CONTENT_LEN :: nat where "MAX_CONTENT_LEN = 800"
definition MAX_ID_LEN :: nat where "MAX_ID_LEN = 64"
definition MAX_REASON_LEN :: nat where "MAX_REASON_LEN = 300"

definition unsafe_char :: "bytes \<Rightarrow> bool" where
  "unsafe_char ch \<longleftrightarrow>
     ch \<in> {''['', '']'', ''<'', ''>'', [CHR 0x60], [CHR 0x0A], [CHR 0x0D], [CHR 0x00]}"

text \<open>The loop stops when it has kept \<open>n\<close> characters, of which every call asks for at least one.\<close>

definition sanitize_field :: "unicode \<Rightarrow> bytes \<Rightarrow> nat \<Rightarrow> bytes" where
  "sanitize_field U s n = trim U (concat (take n (filter (\<lambda>ch. \<not> unsafe_char ch) (utf8_chars s))))"

definition sanitize_id :: "bytes \<Rightarrow> bytes" where
  "sanitize_id s =
     concat (take MAX_ID_LEN (filter
       (\<lambda>ch. case ch of [b] \<Rightarrow> ascii_alphanumeric b \<or> b \<in> {CHR ''-'', CHR ''_''} | _ \<Rightarrow> False) (utf8_chars s)))"

subsection \<open>Markers\<close>

text \<open>\<open>\}\s*\]\<close> lazily: the text before the first brace that, blanks apart, a bracket follows.\<close>

fun spaced_close :: "unicode \<Rightarrow> bytes \<Rightarrow> (bytes \<times> bytes) option" where
  "spaced_close U [] = None"
| "spaced_close U (ch # s) =
     (if ch = CHR ''}'' \<and> starts_with '']'' (skip_space U s) then Some ([], drop 1 (skip_space U s))
      else map_option (\<lambda>(b, r). (ch # b, r)) (spaced_close U s))"

definition thread_marker_at :: "unicode \<Rightarrow> bytes \<Rightarrow> bytes \<Rightarrow> (bytes \<times> bytes) option" where
  "thread_marker_at U tag s =
     Option.bind (strip_prefix (''['' @ tag @ '':'') s)
       (\<lambda>r. case skip_space U r of
              ch # body \<Rightarrow>
                if ch = CHR ''{'' then map_option (\<lambda>(b, rest). (ch # b @ ''}'', rest)) (spaced_close U body) else None
            | [] \<Rightarrow> None)"

record evidence_claim =
  claim_file :: "bytes option"
  claim_prediction :: "bytes option"
  claim_tool :: "bytes option"

record thread_payload =
  payload_label :: bytes
  payload_content :: bytes
  payload_origin :: "bytes option"
  payload_ref :: "bytes option"

record work_payload =
  work_id :: bytes
  work_claim :: evidence_claim

record resolve_payload =
  res_id :: bytes
  res_resolution :: bytes
  res_reason :: "bytes option"
  res_by :: "bytes option"
  res_claim :: evidence_claim

record payload_lib =
  de_thread :: "bytes \<Rightarrow> thread_payload option"
  de_work :: "bytes \<Rightarrow> work_payload option"
  de_resolve :: "bytes \<Rightarrow> resolve_payload option"

definition parse_payload :: "(bytes \<Rightarrow> 'p option) \<Rightarrow> bytes \<Rightarrow> 'p option" where
  "parse_payload de payload = (if MAX_MARKER_PAYLOAD_LEN < length payload then None else de payload)"

definition payloads :: "unicode \<Rightarrow> bytes \<Rightarrow> (bytes \<Rightarrow> 'p option) \<Rightarrow> bytes \<Rightarrow> 'p list" where
  "payloads U tag de text = List.map_filter (parse_payload de) (fst (matches (thread_marker_at U tag) text))"

definition origin_named :: "unicode \<Rightarrow> bytes option \<Rightarrow> bytes \<Rightarrow> thread_origin" where
  "origin_named U claimed reference =
     (case claimed of
        None \<Rightarrow> UserRaised reference
      | Some raw \<Rightarrow>
          (let nm = trim U raw in
           if eq_ignore_case nm ''open_question'' then OpenQuestion reference
           else if eq_ignore_case nm ''callback'' then CallbackItem reference
           else if eq_ignore_case nm ''adverse'' then Adverse reference
           else UserRaised reference))"

definition draft_of :: "unicode \<Rightarrow> thread_payload \<Rightarrow> thread_draft option" where
  "draft_of U m =
     (let l = sanitize_field U (trim U (payload_label m)) MAX_LABEL_LEN;
          t = sanitize_field U (trim U (payload_content m)) MAX_CONTENT_LEN
      in if l = [] \<or> t = [] then None
         else
           let reference = (case payload_ref m of
               None \<Rightarrow> l
             | Some r \<Rightarrow> (let r' = sanitize_field U (trim U r) MAX_ID_LEN in if r' = [] then l else r'))
           in Some \<lparr>draft_label = l, draft_content = t, draft_origin = origin_named U (payload_origin m) reference\<rparr>)"

definition parse_threads :: "unicode \<Rightarrow> payload_lib \<Rightarrow> bytes \<Rightarrow> thread_draft list" where
  "parse_threads U L text = List.map_filter (draft_of U) (payloads U ''THREAD'' (de_thread L) text)"

definition claim_of :: "unicode \<Rightarrow> work_payload \<Rightarrow> (bytes \<times> evidence_claim) option" where
  "claim_of U m = (let i = sanitize_id (trim U (work_id m)) in if i = [] then None else Some (i, work_claim m))"

definition parse_work_claims :: "unicode \<Rightarrow> payload_lib \<Rightarrow> bytes \<Rightarrow> (bytes \<times> evidence_claim) list" where
  "parse_work_claims U L text = List.map_filter (claim_of U) (payloads U ''THREAD-WORK'' (de_work L) text)"

datatype resolution_kind = KAnswered | KDissolved | KSuperseded | KAbandoned

record parsed_resolution =
  pres_id :: bytes
  pres_kind :: resolution_kind
  pres_reason :: "bytes option"
  pres_by :: "bytes option"
  pres_claim :: evidence_claim

definition kind_named :: "unicode \<Rightarrow> bytes \<Rightarrow> resolution_kind option" where
  "kind_named U raw =
     (let k = trim U raw in
      if eq_ignore_case k ''answered'' then Some KAnswered
      else if eq_ignore_case k ''dissolved'' then Some KDissolved
      else if eq_ignore_case k ''superseded'' then Some KSuperseded
      else if eq_ignore_case k ''abandoned'' then Some KAbandoned
      else None)"

definition non_empty_field :: "unicode \<Rightarrow> nat \<Rightarrow> bytes option \<Rightarrow> bytes option" where
  "non_empty_field U n v =
     Option.bind v (\<lambda>t. let t' = sanitize_field U (trim U t) n in if t' = [] then None else Some t')"

definition resolution_of :: "unicode \<Rightarrow> resolve_payload \<Rightarrow> parsed_resolution option" where
  "resolution_of U m =
     (let i = sanitize_id (trim U (res_id m)) in
      if i = [] then None
      else map_option (\<lambda>k. \<lparr>pres_id = i, pres_kind = k, pres_reason = non_empty_field U MAX_REASON_LEN (res_reason m),
             pres_by = non_empty_field U MAX_ID_LEN (res_by m), pres_claim = res_claim m\<rparr>)
           (kind_named U (res_resolution m)))"

definition parse_resolutions :: "unicode \<Rightarrow> payload_lib \<Rightarrow> bytes \<Rightarrow> parsed_resolution list" where
  "parse_resolutions U L text =
     List.map_filter (resolution_of U) (payloads U ''THREAD-RESOLVE'' (de_resolve L) text)"

definition strip_thread_markers :: "unicode \<Rightarrow> bytes \<Rightarrow> bytes" where
  "strip_thread_markers U text =
     trim U (snd (matches (thread_marker_at U ''THREAD'')
       (snd (matches (thread_marker_at U ''THREAD-WORK'') (snd (matches (thread_marker_at U ''THREAD-RESOLVE'') text))))))"

subsection \<open>Evidence\<close>

text \<open>\<open>Path::components\<close> of a Unix path: the root and parent hops are refused, empty parts and dots skipped.\<close>

definition path_parts :: "bytes \<Rightarrow> bytes list" where
  "path_parts p = map concat (split_chars (\<lambda>ch. ch = ''/'') (map (\<lambda>b. [b]) p))"

definition pulse_relative_path :: "unicode \<Rightarrow> bytes \<Rightarrow> bytes list option" where
  "pulse_relative_path U raw =
     (let p = trim U raw; parts = filter (\<lambda>w. w \<notin> {[], ''.''}) (path_parts p)
      in if starts_with ''/'' p \<or> ''..'' \<in> set parts \<or> parts = [] then None else Some parts)"

definition JOURNAL_FILES :: "bytes list" where
  "JOURNAL_FILES =
     [''LEARNING.md'', ''THOUGHTS.md'', ''CURIOSITY.md'', ''REFLECTIONS.md'', ''PRAXIS.md'', ''LOGBOOK.md'',
      ''EPHEMERAL.md'', ''FINDINGS.md'', ''MEMORY.md'', ''SELF.md'', ''THOUGHT_STACK.md'', ''CALLBACK.md'']"

definition is_journal_path :: "bytes list \<Rightarrow> bool" where
  "is_journal_path parts \<longleftrightarrow> ''journal'' \<in> set parts \<or> last parts \<in> set JOURNAL_FILES"

datatype rejection_side = ClaimantConduct | ChannelCapability

datatype evidence_rejection =
    NoEvidence
  | PathOutsidePulse bytes
  | PathInJournal bytes
  | FileMissing bytes
  | FileUnchanged bytes
  | PredictionNotResolved bytes
  | NoToolRan bytes
  | ToolRoundsUnobservable bytes

fun rejection_side_of :: "evidence_rejection \<Rightarrow> rejection_side" where
  "rejection_side_of (ToolRoundsUnobservable t) = ChannelCapability"
| "rejection_side_of _ = ClaimantConduct"

abbreviation quoted :: "bytes \<Rightarrow> bytes" where
  "quoted s \<equiv> [CHR 0x27] @ s @ [CHR 0x27]"

fun rejection_text :: "evidence_rejection \<Rightarrow> bytes" where
  "rejection_text NoEvidence =
     ''claim: no artifact named '' @ dash @ '' discharge needs a file changed outside the journal, or a tool that ran''"
| "rejection_text (PathOutsidePulse p) = ''claim: path '' @ quoted p @ '' is not inside the pulse root''"
| "rejection_text (PathInJournal p) =
     ''claim: path '' @ quoted p @ '' is journal text; writing about a thread is not working it''"
| "rejection_text (FileMissing p) = ''claim: file '' @ quoted p @ '' does not exist''"
| "rejection_text (FileUnchanged p) = ''claim: file '' @ quoted p @ '' was not modified during this cycle''"
| "rejection_text (PredictionNotResolved i) = ''claim: prediction '' @ quoted i @ '' did not resolve during this cycle''"
| "rejection_text (NoToolRan t) = ''claim: no tool ran this cycle, so '' @ quoted t @ '' cannot be evidence''"
| "rejection_text (ToolRoundsUnobservable t) =
     ''channel: '' @ quoted t @ '' may have run, but this runtime'' @ [CHR 0x27] @
     ''s agent CLI runs its own tools and reports no tool rounds, so the tool rung cannot verify it '' @ dash @
     '' name the file it changed''"

text \<open>The facts of a cycle: \<open>modified\<close> is what \<open>metadata\<close> tells of a path under the root.\<close>

record work_evidence =
  modified :: "bytes list \<Rightarrow> int option"
  resolved_ids :: "bytes list"
  tool_rounds :: u32
  rounds_observable :: bool
  cycle_started :: int

definition verify_file :: "unicode \<Rightarrow> work_evidence \<Rightarrow> bytes \<Rightarrow> evidence_rejection + work_artifact" where
  "verify_file U W raw =
     (let cleaned = sanitize_field U raw 512
      in case pulse_relative_path U cleaned of
           None \<Rightarrow> Inl (PathOutsidePulse cleaned)
         | Some parts \<Rightarrow>
             if is_journal_path parts then Inl (PathInJournal cleaned)
             else (case modified W parts of
                 None \<Rightarrow> Inl (FileMissing cleaned)
               | Some m \<Rightarrow>
                   if m < cycle_started W then Inl (FileUnchanged cleaned)
                   else Inr (FileDiff (join_with ''/'' parts) m)))"

definition verify_prediction :: "work_evidence \<Rightarrow> bytes \<Rightarrow> evidence_rejection + work_artifact" where
  "verify_prediction W raw =
     (let i = sanitize_id raw
      in if i \<in> set (resolved_ids W) then Inr (ResolvedPrediction i) else Inl (PredictionNotResolved i))"

definition verify_tool :: "unicode \<Rightarrow> work_evidence \<Rightarrow> bytes \<Rightarrow> evidence_rejection + work_artifact" where
  "verify_tool U W raw =
     (let t = sanitize_field U raw MAX_ID_LEN
      in if 0 < tool_rounds W then Inr (ToolResult t (tool_rounds W))
         else Inl (if rounds_observable W then NoToolRan t else ToolRoundsUnobservable t))"

text \<open>One rung of the ladder: what held stays, and a rung that is named replaces the last refusal.\<close>

definition rung :: "('r \<Rightarrow> evidence_rejection + work_artifact) \<Rightarrow> 'r option \<Rightarrow>
     evidence_rejection + work_artifact \<Rightarrow> evidence_rejection + work_artifact" where
  "rung check claimed r = (case r of Inr a \<Rightarrow> Inr a | Inl e \<Rightarrow> (case claimed of None \<Rightarrow> Inl e | Some x \<Rightarrow> check x))"

definition verify :: "unicode \<Rightarrow> work_evidence \<Rightarrow> evidence_claim \<Rightarrow> evidence_rejection + work_artifact" where
  "verify U W cl =
     rung (verify_tool U W) (claim_tool cl)
       (rung (verify_prediction W) (claim_prediction cl)
         (rung (verify_file U W) (claim_file cl) (Inl NoEvidence)))"

definition build_verdict ::
  "unicode \<Rightarrow> work_evidence \<Rightarrow> parsed_resolution \<Rightarrow> (bytes \<times> rejection_side) + resolution_verdict" where
  "build_verdict U W p =
     (case pres_kind p of
        KAnswered \<Rightarrow>
          (case verify U W (pres_claim p) of
             Inr a \<Rightarrow> Inr (AnsweredBy a)
           | Inl e \<Rightarrow> Inl (quoted ''answered'' @ '' claims work was done: '' @ rejection_text e, rejection_side_of e))
      | KSuperseded \<Rightarrow>
          (case pres_by p of
             None \<Rightarrow> Inl (quoted ''superseded'' @ '' needs a '' @ quoted ''by'' @ '' naming what replaced it'', ClaimantConduct)
           | Some by' \<Rightarrow>
               (case verify U W (pres_claim p) of
                  Inr a \<Rightarrow> Inr (SupersededBy by' a)
                | Inl e \<Rightarrow> Inl (quoted ''superseded'' @ '' claims work was done: '' @ rejection_text e, rejection_side_of e)))
      | KDissolved \<Rightarrow>
          (case pres_reason p of
             Some r \<Rightarrow> Inr (DissolvedFor r)
           | None \<Rightarrow> Inl (quoted ''dissolved'' @ '' needs a reason the question was malformed'', ClaimantConduct))
      | KAbandoned \<Rightarrow>
          (case pres_reason p of
             Some r \<Rightarrow> Inr (AbandonedFor r)
           | None \<Rightarrow> Inl (quoted ''abandoned'' @ '' needs a reason '' @ dash @ '' a give-up is recorded, not erased'',
                          ClaimantConduct)))"

subsection \<open>Applying a cycle\<close>

record ingest_rejection =
  rej_marker :: bytes
  rej_thread :: bytes
  rej_reason :: bytes
  rej_side :: rejection_side

record 'f ingest_report =
  opened :: "bytes list"
  already_open :: nat
  discharged :: "(bytes \<times> 'f) list"
  resolved :: "bytes list"
  mentions :: nat
  rejections :: "ingest_rejection list"
  report_triage :: "'f triage_demand option"

definition report_empty :: "'f ingest_report" where
  "report_empty =
     \<lparr>opened = [], already_open = 0, discharged = [], resolved = [], mentions = 0, rejections = [], report_triage = None\<rparr>"

type_synonym 'f ingest_state = "'f ingest_report \<times> 'f tension_store"

definition note_open :: "open_outcome \<Rightarrow> 'f tension_store \<Rightarrow> 'f ingest_report \<Rightarrow> 'f ingest_report" where
  "note_open x s r =
     (case x of
        Opened i \<Rightarrow> r\<lparr>opened := opened r @ [i]\<rparr>
      | AlreadyOpen _ \<Rightarrow> r\<lparr>already_open := already_open r + 1\<rparr>
      | OpenedOverCap i _ \<Rightarrow> r\<lparr>opened := opened r @ [i], report_triage := triage s\<rparr>)"

text \<open>The drafts in their order, each with the uuids that are drawn for it.\<close>

fun open_drafts ::
  "'f f64_lib \<Rightarrow> unicode \<Rightarrow> 'f tension_config \<Rightarrow> (nat \<Rightarrow> bytes list) \<Rightarrow> int \<Rightarrow> nat \<Rightarrow> thread_draft list \<Rightarrow>
     'f ingest_state \<Rightarrow> 'f ingest_state option" where
  "open_drafts F U c draws now n [] st = Some st"
| "open_drafts F U c draws now n (d # ds) (r, s) =
     Option.bind (open_thread F U c (draws n) d now s)
       (\<lambda>(x, s'). open_drafts F U c draws now (Suc n) ds (note_open x s' r, s'))"

definition refuse :: "bytes \<Rightarrow> bytes \<Rightarrow> bytes \<times> rejection_side \<Rightarrow> 'f ingest_report \<Rightarrow> 'f ingest_report" where
  "refuse m i why r =
     r\<lparr>rejections := rejections r @ [\<lparr>rej_marker = m, rej_thread = i, rej_reason = fst why, rej_side = snd why\<rparr>]\<rparr>"

fun work_outcome_reason :: "'f work_outcome \<Rightarrow> bytes" where
  "work_outcome_reason AlreadyCreditedThisCycle = ''thread already took its one discharge this cycle''"
| "work_outcome_reason WorkAlreadyResolved = ''thread is already resolved''"
| "work_outcome_reason WorkUnknownThread = ''no thread with this id''"
| "work_outcome_reason (Credited x) = []"

definition apply_work ::
  "'f f64_lib \<Rightarrow> unicode \<Rightarrow> 'f tension_config \<Rightarrow> work_evidence \<Rightarrow> int \<Rightarrow> bytes \<times> evidence_claim \<Rightarrow>
     'f ingest_state \<Rightarrow> 'f ingest_state" where
  "apply_work F U c W now w st =
     (case st of (r, s) \<Rightarrow>
        (case verify U W (snd w) of
           Inl e \<Rightarrow> (refuse ''THREAD-WORK'' (fst w) (rejection_text e, rejection_side_of e) r, s)
         | Inr a \<Rightarrow>
             (case credit_work F c (fst w) a now s of
                (Credited x, s') \<Rightarrow> (r\<lparr>discharged := discharged r @ [(fst w, x)]\<rparr>, s')
              | (other, s') \<Rightarrow>
                  (refuse ''THREAD-WORK'' (fst w) (work_outcome_reason other, ClaimantConduct) r, s'))))"

definition apply_resolution ::
  "'f f64_lib \<Rightarrow> unicode \<Rightarrow> 'f tension_config \<Rightarrow> work_evidence \<Rightarrow> int \<Rightarrow> parsed_resolution \<Rightarrow>
     'f ingest_state \<Rightarrow> 'f ingest_state" where
  "apply_resolution F U c W now p st =
     (case st of (r, s) \<Rightarrow>
        (case build_verdict U W p of
           Inl why \<Rightarrow> (refuse ''THREAD-RESOLVE'' (pres_id p) why r, s)
         | Inr v \<Rightarrow>
             (case resolve F c (pres_id p) v now s of
                (Resolved, s') \<Rightarrow> (r\<lparr>resolved := resolved r @ [pres_id p]\<rparr>, s')
              | (AlreadyResolved, s') \<Rightarrow>
                  (refuse ''THREAD-RESOLVE'' (pres_id p) (''claim: thread is already resolved'', ClaimantConduct) r, s')
              | (UnknownThread, s') \<Rightarrow>
                  (refuse ''THREAD-RESOLVE'' (pres_id p) (''claim: no thread with this id'', ClaimantConduct) r, s'))))"

definition apply_markers ::
  "'f f64_lib \<Rightarrow> unicode \<Rightarrow> payload_lib \<Rightarrow> 'f tension_config \<Rightarrow> (nat \<Rightarrow> bytes list) \<Rightarrow> work_evidence \<Rightarrow> int \<Rightarrow> bytes \<Rightarrow>
     'f tension_store \<Rightarrow> 'f ingest_state option" where
  "apply_markers F U L c draws W now raw s =
     map_option
       (\<lambda>st. fold (apply_resolution F U c W now) (parse_resolutions U L raw)
          (fold (apply_work F U c W now) (parse_work_claims U L raw) st))
       (open_drafts F U c draws now 0 (parse_threads U L raw) (report_empty, s))"

definition credit_resolved ::
  "'f f64_lib \<Rightarrow> 'f tension_config \<Rightarrow> int \<Rightarrow> bytes \<Rightarrow> bytes \<Rightarrow> (bytes \<times> 'f) list \<times> 'f tension_store \<Rightarrow>
     (bytes \<times> 'f) list \<times> 'f tension_store" where
  "credit_resolved F c now pid i st =
     (case credit_work F c i (ResolvedPrediction pid) now (snd st) of
        (Credited x, s') \<Rightarrow> (fst st @ [(i, x)], s')
      | (_, s') \<Rightarrow> (fst st, s'))"

definition credit_prediction ::
  "'f f64_lib \<Rightarrow> 'f tension_config \<Rightarrow> int \<Rightarrow> bytes \<Rightarrow> (bytes \<times> 'f) list \<times> 'f tension_store \<Rightarrow>
     (bytes \<times> 'f) list \<times> 'f tension_store" where
  "credit_prediction F c now pid st =
     fold (credit_resolved F c now pid)
       (map th_id (filter (\<lambda>t. th_origin t = PredictionError pid) (live (snd st)))) st"

definition credit_resolved_predictions ::
  "'f f64_lib \<Rightarrow> 'f tension_config \<Rightarrow> int \<Rightarrow> bytes list \<Rightarrow> 'f tension_store \<Rightarrow> (bytes \<times> 'f) list \<times> 'f tension_store" where
  "credit_resolved_predictions F c now pids s = fold (credit_prediction F c now) pids ([], s)"

text \<open>The recorded predictions, as far as the tension store reads them (\<open>src/prediction/mod.rs\<close>).\<close>

datatype error_direction =
  Overconfident | Underconfident | Misdirected | Novel | WellCalibrated | Void | UnknownDirection

fun direction_text :: "error_direction \<Rightarrow> bytes" where
  "direction_text Overconfident = ''overconfident''"
| "direction_text Underconfident = ''underconfident''"
| "direction_text Misdirected = ''misdirected''"
| "direction_text Novel = ''novel''"
| "direction_text WellCalibrated = ''well-calibrated''"
| "direction_text Void = ''void''"
| "direction_text UnknownDirection = ''unknown''"

record prediction =
  pred_id :: bytes
  pred_content :: bytes
  pred_resolution :: "(bytes \<times> error_direction) option"

definition is_void :: "prediction \<Rightarrow> bool" where
  "is_void p \<longleftrightarrow> map_option snd (pred_resolution p) = Some Void"

record 'f prediction_error =
  perr_id :: bytes
  perr_surprise :: 'f
  perr_direction :: error_direction
  perr_insight :: "bytes option"
  perr_processed :: bool
  perr_predicted :: "bytes option"
  perr_actual :: "bytes option"

record 'f prediction_stack =
  predictions :: "prediction list"
  pred_errors :: "'f prediction_error list"
  surprise_threshold :: 'f

definition unprocessed_errors :: "'f prediction_stack \<Rightarrow> 'f prediction_error list" where
  "unprocessed_errors st = filter (\<lambda>e. \<not> perr_processed e) (pred_errors st)"

definition evidential_resolutions :: "bytes list \<Rightarrow> 'f prediction_stack option \<Rightarrow> bytes list" where
  "evidential_resolutions ids st =
     filter (\<lambda>i. \<not> (case st of None \<Rightarrow> False | Some k \<Rightarrow> list_ex (\<lambda>p. pred_id p = i \<and> is_void p) (predictions k))) ids"

fun first_some :: "'a option list \<Rightarrow> 'a \<Rightarrow> 'a" where
  "first_some [] d = d"
| "first_some (None # xs) d = first_some xs d"
| "first_some (Some x # xs) d = x"

text \<open>\<open>two\<close> is the format \<open>{:.2}\<close>.\<close>

definition error_draft :: "unicode \<Rightarrow> ('f \<Rightarrow> bytes) \<Rightarrow> 'f prediction_stack \<Rightarrow> 'f prediction_error \<Rightarrow> thread_draft" where
  "error_draft U two st e =
     (let p = List.find (\<lambda>p. pred_id p = perr_id e) (predictions st);
          predicted = first_some [perr_predicted e, map_option pred_content p] ''(prediction text no longer on record)'';
          actual = first_some [perr_actual e, map_option fst (Option.bind p pred_resolution)] ''(outcome no longer on record)'';
          insight = first_some [perr_insight e] ''no insight recorded''
      in \<lparr>draft_label = sanitize_field U (''prediction error: '' @ insight) MAX_LABEL_LEN,
          draft_content = sanitize_field U (''Predicted: '' @ predicted @ [newline] @ ''Actual: '' @ actual @ [newline] @
            ''Surprise '' @ two (perr_surprise e) @ '' ('' @ direction_text (perr_direction e) @ ''). Insight: '' @ insight)
            MAX_CONTENT_LEN,
          draft_origin = PredictionError (perr_id e)\<rparr>)"

fun ingest_errors ::
  "'f f64_lib \<Rightarrow> unicode \<Rightarrow> ('f \<Rightarrow> bytes) \<Rightarrow> 'f tension_config \<Rightarrow> (nat \<Rightarrow> bytes list) \<Rightarrow> 'f prediction_stack \<Rightarrow> int \<Rightarrow>
     nat \<Rightarrow> 'f prediction_error list \<Rightarrow> 'f ingest_state \<Rightarrow> 'f ingest_state option" where
  "ingest_errors F U two c draws stk now n [] st = Some st"
| "ingest_errors F U two c draws stk now n (e # es) (r, s) =
     (if f_le F (perr_surprise e) (surprise_threshold stk) then ingest_errors F U two c draws stk now n es (r, s)
      else if list_ex (\<lambda>t. th_origin t = PredictionError (perr_id e)) (threads s)
        then ingest_errors F U two c draws stk now n es (r\<lparr>already_open := already_open r + 1\<rparr>, s)
      else
        Option.bind (open_thread F U c (draws n) (error_draft U two stk e) now s)
          (\<lambda>(x, s'). ingest_errors F U two c draws stk now (Suc n) es (note_open x s' r, s')))"

definition ingest_prediction_errors ::
  "'f f64_lib \<Rightarrow> unicode \<Rightarrow> ('f \<Rightarrow> bytes) \<Rightarrow> 'f tension_config \<Rightarrow> (nat \<Rightarrow> bytes list) \<Rightarrow> 'f prediction_stack \<Rightarrow> int \<Rightarrow>
     'f tension_store \<Rightarrow> 'f ingest_state option" where
  "ingest_prediction_errors F U two c draws stk now s =
     ingest_errors F U two c draws stk now 0 (unprocessed_errors stk) (report_empty, s)"

definition note_mentions :: "bytes \<Rightarrow> bytes list \<Rightarrow> 'f tension_store \<Rightarrow> nat \<times> 'f tension_store" where
  "note_mentions text acted_on s =
     (let hit = map th_id (filter (\<lambda>t. contains_str (th_id t) text \<and> th_id t \<notin> set acted_on) (live s))
      in (length hit, fold (\<lambda>i s. snd (note_mention i s)) hit s))"

text \<open>The uuids of a cycle: one source for the markers' threads, one for those of prediction errors.\<close>

record cycle_draws =
  marker_draws :: "nat \<Rightarrow> bytes list"
  error_draws :: "nat \<Rightarrow> bytes list"

definition notice_of :: "unicode \<Rightarrow> ingest_rejection \<Rightarrow> refusal_notice" where
  "notice_of U x =
     \<lparr>refused_marker = rej_marker x, refused_thread = rej_thread x,
      refused_why = sanitize_field U (rej_reason x) MAX_REASON_LEN\<rparr>"

definition merge_reports :: "'f ingest_report \<Rightarrow> 'f ingest_report \<Rightarrow> 'f ingest_report" where
  "merge_reports r x =
     r\<lparr>opened := opened r @ opened x, already_open := already_open r + already_open x,
       report_triage := (if report_triage x = None then report_triage r else report_triage x)\<rparr>"

definition ingest_stack ::
  "'f f64_lib \<Rightarrow> unicode \<Rightarrow> ('f \<Rightarrow> bytes) \<Rightarrow> 'f tension_config \<Rightarrow> (nat \<Rightarrow> bytes list) \<Rightarrow> 'f prediction_stack option \<Rightarrow> int \<Rightarrow>
     'f ingest_state \<Rightarrow> 'f ingest_state option" where
  "ingest_stack F U two c draws stk now st =
     (case stk of
        None \<Rightarrow> Some st
      | Some k \<Rightarrow>
          map_option (\<lambda>(x, s). (merge_reports (fst st) x, s)) (ingest_prediction_errors F U two c draws k now (snd st)))"

definition finish_cycle :: "unicode \<Rightarrow> bytes \<Rightarrow> 'f ingest_state \<Rightarrow> 'f ingest_state" where
  "finish_cycle U raw st =
     (case st of (r, s) \<Rightarrow>
        (case note_mentions raw (map fst (discharged r) @ resolved r) s of
           (n, s') \<Rightarrow> (r\<lparr>mentions := n\<rparr>, s'\<lparr>last_refusals := map (notice_of U) (rejections r)\<rparr>)))"

definition apply_cycle ::
  "'f f64_lib \<Rightarrow> unicode \<Rightarrow> payload_lib \<Rightarrow> ('f \<Rightarrow> bytes) \<Rightarrow> 'f tension_config \<Rightarrow> cycle_draws \<Rightarrow> bytes \<Rightarrow> work_evidence \<Rightarrow>
     'f prediction_stack option \<Rightarrow> bytes list \<Rightarrow> int \<Rightarrow> 'f tension_store \<Rightarrow> 'f ingest_state option" where
  "apply_cycle F U L two c draws raw W stk pids now s =
     Option.bind (apply_markers F U L c (marker_draws draws) W now raw s)
       (\<lambda>(r, s1). case credit_resolved_predictions F c now pids s1 of
          (credited, s2) \<Rightarrow>
            map_option (finish_cycle U raw)
              (ingest_stack F U two c (error_draws draws) stk now (r\<lparr>discharged := discharged r @ credited\<rparr>, s2)))"

end
