(* ===== verification/TensionSafety.thy ===== *)
theory TensionSafety
  imports Tension
begin

text \<open>
  What the tension store promises over any run of its operations: it stays sound, a thread that is not
  worked on never gets quieter, one discharge per thread and cycle, and no thread is ever lost.
\<close>

subsection \<open>Floating point facts\<close>

lemma f64_nan: "f64_ok F \<Longrightarrow> f_le F x y \<Longrightarrow> \<not> f_nan F x \<and> \<not> f_nan F y"
  unfolding f64_ok_def f64_order_def by blast

lemma f64_linear: "f64_ok F \<Longrightarrow> \<not> f_nan F x \<Longrightarrow> \<not> f_nan F y \<Longrightarrow> f_le F x y \<or> f_le F y x"
  unfolding f64_ok_def f64_order_def by blast

lemma f64_trans: "f64_ok F \<Longrightarrow> f_le F x y \<Longrightarrow> f_le F y z \<Longrightarrow> f_le F x z"
  by (rule f64_ok_def [THEN iffD1, THEN conjunct1, unfolded f64_order_def, THEN conjunct2, THEN conjunct2,
    THEN conjunct1, rule_format])

lemma f64_finite: "f64_ok F \<Longrightarrow> f_finite F x \<Longrightarrow> \<not> f_nan F x"
  unfolding f64_ok_def f64_order_def by blast

lemmas f64_between =
  f64_ok_def [THEN iffD1, THEN conjunct1, unfolded f64_order_def, THEN conjunct2, THEN conjunct2, THEN conjunct2,
    THEN conjunct2, rule_format]

lemma f64_int: "f64_ok F \<Longrightarrow> \<bar>i\<bar> \<le> 2 ^ 53 \<Longrightarrow> f_finite F (of_i64 F i)"
  by (simp add: f64_ok_def f64_casts_def)

lemma f64_int_le: "f64_ok F \<Longrightarrow> \<bar>i\<bar> \<le> 2 ^ 53 \<Longrightarrow> \<bar>j\<bar> \<le> 2 ^ 53 \<Longrightarrow> i \<le> j \<Longrightarrow> f_le F (of_i64 F i) (of_i64 F j)"
  by (simp add: f64_ok_def f64_casts_def)

lemma f64_add: "f64_ok F \<Longrightarrow> f_finite F x \<Longrightarrow> f_finite F y \<Longrightarrow> f_le F (f_zero F) y \<Longrightarrow> f_le F x (f_add F x y)"
  unfolding f64_ok_def f64_rounds_def by blast

lemma f64_sub: "f64_ok F \<Longrightarrow> f_finite F x \<Longrightarrow> f_le F (f_zero F) y \<Longrightarrow> f_le F (f_sub F x y) x"
  unfolding f64_ok_def f64_rounds_def by blast

lemma f64_factors: "f64_ok F \<Longrightarrow> f_finite F (f_mul F x y) \<Longrightarrow> f_finite F x \<and> f_finite F y"
  unfolding f64_ok_def f64_rounds_def by blast

lemma f64_mul:
  "f64_ok F \<Longrightarrow> f_le F (f_zero F) x \<Longrightarrow> f_le F (f_zero F) y \<Longrightarrow> f_finite F (f_mul F x y) \<Longrightarrow>
     f_le F (f_zero F) (f_mul F x y)"
  unfolding f64_ok_def f64_rounds_def by blast

lemma f64_sort: "f64_ok F \<Longrightarrow> f_total F x y \<or> f_total F y x"
  unfolding f64_ok_def f64_sorts_def by blast

lemma f64_sort_trans: "f64_ok F \<Longrightarrow> f_total F x y \<Longrightarrow> f_total F y z \<Longrightarrow> f_total F x z"
  unfolding f64_ok_def f64_sorts_def by (elim conjE) blast

lemma f64_sort_le: "f64_ok F \<Longrightarrow> f_total F x y \<Longrightarrow> \<not> f_nan F x \<Longrightarrow> \<not> f_nan F y \<Longrightarrow> f_le F x y"
  unfolding f64_ok_def f64_sorts_def by blast

lemma f64_refl: "f64_ok F \<Longrightarrow> \<not> f_nan F x \<Longrightarrow> f_le F x x"
  using f64_linear [of F x x] by simp

lemma zero_le_int: "f64_ok F \<Longrightarrow> 0 \<le> j \<Longrightarrow> j \<le> 2 ^ 53 \<Longrightarrow> f_le F (f_zero F) (of_i64 F j)"
  by (simp add: f64_int_le)

lemma clamp_in_range:
  assumes F: "f64_ok F" and x: "\<not> f_nan F x" and lh: "f_le F lo hi"
  shows "f_le F lo (f_clamp F x lo hi) \<and> f_le F (f_clamp F x lo hi) hi"
proof -
  from f64_nan [OF F lh] have n: "\<not> f_nan F lo" "\<not> f_nan F hi" by auto
  note r = f64_refl [OF F n(1)] f64_refl [OF F n(2)] f64_linear [OF F n(1) x] f64_linear [OF F n(2) x]
  show ?thesis
  proof (cases "f_less F x lo")
    case True
    then show ?thesis using r(1,2) lh by (simp add: f_clamp_def f_less_def Let_def)
  next
    case False
    with r(3) have "f_le F lo x" by (auto simp: f_less_def)
    with False r lh show ?thesis by (auto simp: f_clamp_def f_less_def Let_def)
  qed
qed

lemma clamp_not_below:
  assumes F: "f64_ok F" and "f_le F y x" and "f_le F y hi"
  shows "f_le F y (f_clamp F x lo hi)"
  using assms(2,3) f64_trans [OF F assms(2)] by (simp add: f_clamp_def f_less_def Let_def)

lemma clamp_not_above:
  assumes F: "f64_ok F" and "f_le F x y" and "f_le F lo y"
  shows "f_le F (f_clamp F x lo hi) y"
  using assms(2,3) f64_trans [OF F _ assms(2), of hi] f64_trans [OF F _ assms(3), of hi]
  by (simp add: f_clamp_def f_less_def Let_def)

lemma clamp_nan: "f64_ok F \<Longrightarrow> f_nan F x \<Longrightarrow> f_clamp F x lo hi = x"
  using f64_nan [of F] by (auto simp: f_clamp_def f_less_def Let_def)

lemma max_zero: "f64_ok F \<Longrightarrow> f_le F (f_zero F) (f_max F x (f_zero F))"
proof -
  assume F: "f64_ok F"
  then have n: "\<not> f_nan F (f_zero F)" using f64_int [of F 0] f64_finite by fastforce
  show ?thesis
    using f64_refl [OF F n] f64_linear [OF F n, of x] n by (auto simp: f_max_def)
qed

lemma weight_positive: "f64_ok F \<Longrightarrow> f_le F (f_zero F) (age_weight F h half)"
proof -
  assume F: "f64_ok F"
  have z: "f_le F (f_zero F) (of_i64 F 1)" "f_le F (f_zero F) (of_i64 F 64)" "f_le F (of_i64 F 1) (of_i64 F 64)"
    using zero_le_int [OF F, of 1] zero_le_int [OF F, of 64] f64_int_le [OF F, of 1 64] by simp_all
  have "f_le F (f_zero F) (f_clamp F w (of_i64 F 1) (of_i64 F 64))" if "f_finite F w" for w
    using clamp_in_range [OF F f64_finite [OF F that] z(3)] f64_trans [OF F z(1)] by blast
  with z show ?thesis by (simp add: age_weight_def Let_def)
qed

lemma periods_positive: "f64_ok F \<Longrightarrow> f_nan F (tick_periods_since F p now) \<or> f_le F (f_zero F) (tick_periods_since F p now)"
proof -
  assume F: "f64_ok F"
  note z = zero_le_int [OF F, of 1] zero_le_int [OF F, of 72]
  have "f_nan F (f_clamp F x (f_zero F) (of_i64 F 72)) \<or> f_le F (f_zero F) (f_clamp F x (f_zero F) (of_i64 F 72))" for x
    using clamp_nan [OF F, of x] clamp_in_range [OF F, of x] z by (cases "f_nan F x") simp_all
  with z show ?thesis by (simp add: tick_periods_since_def split: option.split)
qed

definition tension_ok :: "'f f64_lib \<Rightarrow> 'f \<Rightarrow> bool" where
  "tension_ok F x \<longleftrightarrow> f_le F (f_zero F) x \<and> f_le F x (of_i64 F MAX_TENSION)"

lemma tension_finite: "f64_ok F \<Longrightarrow> tension_ok F x \<Longrightarrow> f_finite F x"
  using f64_between [of F "f_zero F" "of_i64 F 1000" x] f64_int [of F 0] f64_int [of F 1000]
  by (simp add: tension_ok_def MAX_TENSION_def)

lemma bounded_ok: "f64_ok F \<Longrightarrow> \<not> f_nan F x \<Longrightarrow> tension_ok F (bounded F x)"
  using clamp_in_range [of F x "f_zero F" "of_i64 F 1000"] zero_le_int [of F 1000]
  by (simp add: tension_ok_def bounded_def MAX_TENSION_def)

lemma bounded_not_below:
  "f64_ok F \<Longrightarrow> tension_ok F y \<Longrightarrow> f_le F y x \<Longrightarrow> f_le F y (bounded F x)"
  by (simp add: bounded_def tension_ok_def clamp_not_below)

lemma tension_zero: "f64_ok F \<Longrightarrow> tension_ok F (f_zero F)"
  using zero_le_int [of F 0] zero_le_int [of F 1000] by (simp add: tension_ok_def MAX_TENSION_def)

lemma tick_thread_louder:
  assumes F: "f64_ok F" and t: "tension_ok F (th_tension t)" and p: "f_nan F p \<or> f_le F (f_zero F) p"
  shows "tension_ok F (th_tension (tick_thread F c p now t)) \<and>
    f_le F (th_tension t) (th_tension (tick_thread F c p now t))"
proof -
  let ?b = "f_mul F (f_max F (base_rate c) (f_zero F)) (age_weight F (hours_untouched F t now) (age_weight_half c))"
  let ?a = "f_mul F ?b p"
  have fin: "f_finite F (th_tension t)" by (rule tension_finite [OF F t])
  show ?thesis
  proof (cases "f_finite F ?a")
    case True
    from f64_factors [OF F this] have f: "f_finite F ?b" "f_finite F p" by auto
    have "f_le F (f_zero F) ?b" by (rule f64_mul [OF F max_zero [OF F] weight_positive [OF F] f(1)])
    moreover have "f_le F (f_zero F) p" using p f64_finite [OF F f(2)] by simp
    ultimately have "f_le F (f_zero F) ?a" by (rule f64_mul [OF F _ _ True])
    then have a: "f_le F (th_tension t) (f_add F (th_tension t) ?a)" by (rule f64_add [OF F fin True])
    with f64_nan [OF F a] bounded_not_below [OF F t a] bounded_ok [OF F] True show ?thesis
      by (simp add: tick_thread_def Let_def)
  qed (use t f64_refl [OF F f64_finite [OF F fin]] in \<open>simp add: tick_thread_def Let_def\<close>)
qed

lemma credit_thread_ok:
  assumes F: "f64_ok F" and t: "tension_ok F (th_tension t)"
  shows "tension_ok F (th_tension (credit_thread F c a now n t)) \<and>
    f_le F (th_tension (credit_thread F c a now n t)) (th_tension t)"
proof -
  have s: "f_le F (f_sub F (th_tension t) (f_max F (work_credit c) (f_zero F))) (th_tension t)" (is "f_le F ?x _")
    by (rule f64_sub [OF F tension_finite [OF F t] max_zero [OF F]])
  have "f_le F (bounded F ?x) (th_tension t)"
    using clamp_not_above [OF F s] t by (simp add: bounded_def tension_ok_def)
  with bounded_ok [OF F] f64_nan [OF F s] show ?thesis by (simp add: credit_thread_def Let_def)
qed

subsection \<open>Lists of threads\<close>

text \<open>Every thread is still in its place, changed as \<open>R\<close> allows; new ones come after them.\<close>

definition evolves :: "('a \<Rightarrow> 'a \<Rightarrow> bool) \<Rightarrow> 'a list \<Rightarrow> 'a list \<Rightarrow> bool" where
  "evolves R ts ts' \<longleftrightarrow> list_all2 R ts (take (length ts) ts')"

lemma evolves_trans:
  assumes "evolves R ts us" and "evolves R us vs" and "\<And>a b c. R a b \<Longrightarrow> R b c \<Longrightarrow> R a c"
  shows "evolves R ts vs"
proof -
  from assms(1) have l: "length ts \<le> length us" by (auto simp: evolves_def dest: list_all2_lengthD)
  from assms(2) have "list_all2 R (take (length ts) us) (take (length ts) (take (length us) vs))"
    unfolding evolves_def by (rule list_all2_takeI)
  with l have "list_all2 R (take (length ts) us) (take (length ts) vs)" by (simp add: min_absorb1)
  with assms(1) show ?thesis
    unfolding evolves_def list_all2_conv_all_nth using assms(3) by metis
qed

lemma evolves_map: "(\<And>t. t \<in> set ts \<Longrightarrow> R t (f t)) \<Longrightarrow> evolves R ts (map f ts)"
  by (simp add: evolves_def list_all2_conv_all_nth)

lemma evolves_append: "(\<And>t. R t t) \<Longrightarrow> evolves R ts (ts @ us)"
  by (simp add: evolves_def list_all2_refl)

lemma length_update_first [simp]: "length (update_first P f ts) = length ts"
  by (induction ts) auto

lemma evolves_update:
  assumes r: "\<And>t. R t t" and u: "\<And>t. List.find P ts = Some t \<Longrightarrow> R t (f t)"
  shows "evolves R ts (update_first P f ts)"
proof -
  have "list_all2 R ts (update_first P f ts)" using u by (induction ts) (auto simp: r list_all2_refl)
  then show ?thesis by (simp add: evolves_def)
qed

lemma set_update_first: "t' \<in> set (update_first P f ts) \<Longrightarrow> t' \<in> set ts \<or> (\<exists>t\<in>set ts. P t \<and> t' = f t)"
  by (induction ts) (auto split: if_splits)

lemma map_update_first: "(\<And>t. g (f t) = g t) \<Longrightarrow> map g (update_first P f ts) = map g ts"
  by (induction ts) auto

lemma find_in_set: "List.find P xs = Some x \<Longrightarrow> x \<in> set xs \<and> P x"
  by (induction xs) (auto split: if_splits)

lemma find_evolves:
  assumes "evolves R ts ts'" and "\<And>a b. R a b \<Longrightarrow> th_id b = th_id a" and "List.find (\<lambda>t. th_id t = i) ts = Some t"
  shows "\<exists>t'. List.find (\<lambda>t. th_id t = i) ts' = Some t' \<and> R t t'"
proof -
  have "\<exists>t'. List.find (\<lambda>t. th_id t = i) (us @ vs) = Some t' \<and> R t t'" if "list_all2 R ts us" for us vs
    using that assms(3)
  proof (induction ts us rule: list_all2_induct)
    case (Cons a as b bs)
    then show ?case using assms(2) [of a b] by (auto split: if_splits)
  qed simp
  from this [OF assms(1) [unfolded evolves_def], of "drop (length ts) ts'"] show ?thesis by simp
qed

subsection \<open>Runs\<close>

datatype tension_op =
    OpenOp "bytes list" thread_draft int
  | MentionOp bytes
  | TickOp int
  | WorkOp bytes work_artifact int
  | ResolveOp bytes resolution_verdict int
  | CycleOp int
  | RefuseOp "refusal_notice list"

fun tension_step :: "'f f64_lib \<Rightarrow> unicode \<Rightarrow> 'f tension_config \<Rightarrow> tension_op \<Rightarrow> 'f tension_store \<Rightarrow> 'f tension_store" where
  "tension_step F U c (OpenOp draws d now) s = (case open_thread F U c draws d now s of None \<Rightarrow> s | Some (_, s') \<Rightarrow> s')"
| "tension_step F U c (MentionOp i) s = snd (note_mention i s)"
| "tension_step F U c (TickOp now) s = snd (tick F c now s)"
| "tension_step F U c (WorkOp i a now) s = snd (credit_work F c i a now s)"
| "tension_step F U c (ResolveOp i v now) s = snd (resolve F c i v now s)"
| "tension_step F U c (CycleOp now) s = snd (record_cycle F now s)"
| "tension_step F U c (RefuseOp ns) s = s\<lparr>last_refusals := ns\<rparr>"

definition tension_run :: "'f f64_lib \<Rightarrow> unicode \<Rightarrow> 'f tension_config \<Rightarrow> tension_op list \<Rightarrow> 'f tension_store \<Rightarrow> 'f tension_store" where
  "tension_run F U c ops s = foldl (\<lambda>s x. tension_step F U c x s) s ops"

lemma tension_run_simps [simp]:
  "tension_run F U c [] s = s"
  "tension_run F U c (x # ops) s = tension_run F U c ops (tension_step F U c x s)"
  by (simp_all add: tension_run_def)

lemma triage_threads [simp]:
  "threads (raise_triage F c n now s) = threads s" "ledger (raise_triage F c n now s) = ledger s"
  "threads (settle_triage F c now s) = threads s" "ledger (settle_triage F c now s) = ledger s"
  by (simp_all add: raise_triage_def settle_triage_def)

text \<open>
  A law of threads: a relation that every change allows, in a run of the allowed operations, and a
  property that new threads have and changes keep.
\<close>

locale thread_law =
  fixes F :: "'f f64_lib" and U :: unicode and c :: "'f tension_config"
    and allowed :: "tension_op \<Rightarrow> bool" and R :: "'f thread \<Rightarrow> 'f thread \<Rightarrow> bool"
  assumes same: "R t t"
    and chain: "R t u \<Longrightarrow> R u v \<Longrightarrow> R t v"
    and mentioned: "R t (mention t)"
    and ticked: "is_live t \<Longrightarrow> R t (tick_thread F c (tick_periods_since F p now) now t)"
    and credited: "allowed (WorkOp i a now) \<Longrightarrow> th_id t = i \<Longrightarrow> is_live t \<Longrightarrow> R t (credit_thread F c a now n t)"
    and retired: "allowed (ResolveOp i verdict now) \<Longrightarrow> th_id t = i \<Longrightarrow> is_live t \<Longrightarrow> R t (retire verdict now n t)"
begin

lemma stays: "evolves R ts ts"
  using evolves_append [of R ts "[]", OF same] by simp

lemma step:
  assumes "allowed x"
  shows "evolves R (threads s) (threads (tension_step F U c x s))"
proof (cases x)
  case (OpenOp draws d now)
  then show ?thesis
    using evolves_update [of R "same_thread U d" "threads s" mention, OF same mentioned]
      evolves_append [of R "threads s", OF same] stays
    by (auto simp: open_thread_def Let_def split: option.split)
next
  case (MentionOp i)
  then show ?thesis
    using evolves_update [of R _ "threads s" mention, OF same mentioned] stays
    by (auto simp: note_mention_def split: option.split)
next
  case (TickOp now)
  then show ?thesis by (auto simp: tick_def Let_def intro!: evolves_map same ticked)
next
  case (WorkOp i a now)
  let ?f = "credit_thread F c a now (cycles_run (ledger s))"
  show ?thesis
  proof (cases "find_thread s i")
    case (Some t)
    have "evolves R (threads s) (update_first (\<lambda>t. th_id t = i) ?f (threads s))" if "is_live t"
      using Some that credited [OF assms [unfolded WorkOp]]
      by (intro evolves_update same) (auto simp: find_thread_def dest: find_in_set)
    with Some stays show ?thesis by (simp add: WorkOp credit_work_def Let_def)
  qed (simp add: WorkOp credit_work_def Let_def stays)
next
  case (ResolveOp i v now)
  let ?f = "retire v now (cycles_run (ledger s))"
  show ?thesis
  proof (cases "find_thread s i")
    case (Some t)
    have "evolves R (threads s) (update_first (\<lambda>t. th_id t = i) ?f (threads s))" if "is_live t"
      using Some that retired [OF assms [unfolded ResolveOp]]
      by (intro evolves_update same) (auto simp: find_thread_def dest: find_in_set)
    with Some stays show ?thesis by (simp add: ResolveOp resolve_def Let_def)
  qed (simp add: ResolveOp resolve_def Let_def stays)
qed (simp_all add: record_cycle_def Let_def stays)

lemma run: "list_all allowed ops \<Longrightarrow> evolves R (threads s) (threads (tension_run F U c ops s))"
proof (induction ops arbitrary: s)
  case (Cons x ops)
  then show ?case using evolves_trans [OF step Cons.IH chain] by simp
qed (simp add: stays)

lemma run_find:
  assumes "list_all allowed ops" and "find_thread s i = Some t" and "\<And>a b. R a b \<Longrightarrow> th_id b = th_id a"
  shows "\<exists>t'. find_thread (tension_run F U c ops s) i = Some t' \<and> R t t'"
  using find_evolves [OF run [OF assms(1)] assms(3)] assms(2) by (simp add: find_thread_def)

end

lemma mention_simps [simp]:
  "th_id (mention t) = th_id t" "th_tension (mention t) = th_tension t" "is_live (mention t) = is_live t"
  "th_resolution (mention t) = th_resolution t" "th_worked_cycle (mention t) = th_worked_cycle t"
  "th_log (mention t) = th_log t" "th_resolved_at (mention t) = th_resolved_at t"
  by (simp_all add: mention_def is_live_def)

lemma credit_thread_simps [simp]:
  "th_id (credit_thread F c a now n t) = th_id t" "is_live (credit_thread F c a now n t) = is_live t"
  "th_worked_cycle (credit_thread F c a now n t) = Some n"
  by (simp_all add: credit_thread_def Let_def is_live_def)

lemma tick_thread_same:
  "\<exists>x. tick_thread F c p now t = t\<lparr>th_tension := x\<rparr>"
proof -
  have "\<exists>x. t = t\<lparr>th_tension := x\<rparr>" by (intro exI [where x = "th_tension t"]) simp
  then show ?thesis by (auto simp: tick_thread_def Let_def)
qed

text \<open>Work nothing: the tension of the thread \<open>i\<close> does not fall.\<close>

definition not_quieter :: "'f f64_lib \<Rightarrow> bytes \<Rightarrow> 'f thread \<Rightarrow> 'f thread \<Rightarrow> bool" where
  "not_quieter F i t u \<longleftrightarrow>
     th_id u = th_id t \<and>
     (f64_ok F \<longrightarrow> tension_ok F (th_tension t) \<longrightarrow> th_id t = i \<longrightarrow>
        tension_ok F (th_tension u) \<and> f_le F (th_tension t) (th_tension u))"

fun works_on :: "bytes \<Rightarrow> tension_op \<Rightarrow> bool" where
  "works_on i (WorkOp j a now) \<longleftrightarrow> j = i"
| "works_on i _ \<longleftrightarrow> False"

interpretation silence: thread_law F U c "\<lambda>x. \<not> works_on i x" "not_quieter F i" for F U c i
proof unfold_locales
  fix t p now
  show "not_quieter F i t (tick_thread F c (tick_periods_since F p now) now t)"
    using tick_thread_same [of F c "tick_periods_since F p now" now t]
      tick_thread_louder [of F t "tick_periods_since F p now" c now] periods_positive [of F p now]
    by (auto simp: not_quieter_def)
next
  fix t u v
  show "not_quieter F i t u \<Longrightarrow> not_quieter F i u v \<Longrightarrow> not_quieter F i t v"
    by (auto simp: not_quieter_def intro: f64_trans)
qed (auto simp: not_quieter_def retire_def f64_refl f64_nan tension_ok_def split: prod.split option.split)

text \<open>What nothing changes of a thread; a retired one only counts mentions.\<close>

definition kept :: "'f thread \<Rightarrow> 'f thread \<Rightarrow> bool" where
  "kept t u \<longleftrightarrow>
     th_id u = th_id t \<and> th_label u = th_label t \<and> th_content u = th_content t \<and> th_origin u = th_origin t \<and>
     th_created u = th_created t \<and> th_created_cycle u = th_created_cycle t \<and>
     (\<not> is_live t \<longrightarrow> u = t\<lparr>th_mentions := th_mentions u\<rparr>)"

interpretation memory: thread_law F U c "\<lambda>_. True" kept for F U c
proof unfold_locales
  fix t :: "'a thread" and u v
  show "kept t u \<Longrightarrow> kept u v \<Longrightarrow> kept t v"
    by (cases t; cases u; cases v) (auto simp: kept_def is_live_def)
next
  fix t p now
  show "is_live t \<Longrightarrow> kept t (tick_thread F c (tick_periods_since F p now) now t)"
    using tick_thread_same [of F c "tick_periods_since F p now" now t] by (auto simp: kept_def)
qed (auto simp: kept_def mention_def credit_thread_def retire_def Let_def split: prod.split option.split)

subsection \<open>A sound store\<close>

fun backed :: "thread_resolution option \<Rightarrow> 'f work_record list \<Rightarrow> bytes option \<Rightarrow> bool" where
  "backed None log reason \<longleftrightarrow> True"
| "backed (Some Answered) log reason \<longleftrightarrow> log \<noteq> []"
| "backed (Some (Superseded by')) log reason \<longleftrightarrow> log \<noteq> []"
| "backed (Some Dissolved) log reason \<longleftrightarrow> reason \<noteq> None"
| "backed (Some Abandoned) log reason \<longleftrightarrow> reason \<noteq> None"

definition thread_ok :: "'f f64_lib \<Rightarrow> u64 \<Rightarrow> 'f thread \<Rightarrow> bool" where
  "thread_ok F n t \<longleftrightarrow>
     tension_ok F (th_tension t) \<and> length (th_log t) \<le> MAX_WORK_LOG \<and>
     th_created_cycle t \<le> n \<and> (\<forall>k. th_worked_cycle t = Some k \<longrightarrow> k \<le> n) \<and>
     (th_resolution t = None \<longleftrightarrow> th_resolved_at t = None) \<and>
     backed (th_resolution t) (th_log t) (th_reason t)"

definition store_ok :: "'f f64_lib \<Rightarrow> 'f tension_config \<Rightarrow> 'f tension_store \<Rightarrow> bool" where
  "store_ok F c s \<longleftrightarrow>
     distinct (map th_id (threads s)) \<and> (\<forall>t\<in>set (threads s). thread_ok F (cycles_run (ledger s)) t) \<and>
     reach_cycles (ledger s) \<le> cycles_run (ledger s) \<and>
     (max_live_threads c < live_count s \<longrightarrow> triage s \<noteq> None)"

lemma push_work_simps [simp]: "length (push_work r l) \<le> MAX_WORK_LOG" "push_work r l \<noteq> []"
  by (simp_all add: push_work_def Let_def MAX_WORK_LOG_def)

lemma thread_ok_mention: "thread_ok F n t \<Longrightarrow> thread_ok F n (mention t)"
  by (simp add: thread_ok_def mention_def)

lemma thread_ok_tick: "f64_ok F \<Longrightarrow> thread_ok F n t \<Longrightarrow> thread_ok F n (tick_thread F c (tick_periods_since F p now) now t)"
  using tick_thread_same [of F c "tick_periods_since F p now" now t]
    tick_thread_louder [of F t "tick_periods_since F p now" c now] periods_positive [of F p now]
  by (auto simp: thread_ok_def)

lemma thread_ok_credit: "f64_ok F \<Longrightarrow> thread_ok F n t \<Longrightarrow> is_live t \<Longrightarrow> thread_ok F n (credit_thread F c a now n t)"
  using credit_thread_ok [of F t c a now n] by (simp add: thread_ok_def credit_thread_def is_live_def Let_def)

lemma thread_ok_retire: "thread_ok F n t \<Longrightarrow> thread_ok F n (retire v now n t)"
  by (cases v) (simp_all add: thread_ok_def retire_def)

lemma thread_ok_new: "f64_ok F \<Longrightarrow> thread_ok F n (new_thread F i d now n)"
  by (simp add: thread_ok_def new_thread_def tension_zero)

lemma unat_saturating_add: "unat (saturating_add_u64 a k) = min (unat a + unat k) (2 ^ 64 - 1)"
proof (cases "unat a + unat k < 2 ^ 64")
  case True
  then have "unat (a + k) = unat a + unat k" using unat_add_lem [of a k] by simp
  with True show ?thesis by (simp add: saturating_add_u64_def)
qed (simp add: saturating_add_u64_def unsigned_minus_1_eq_mask mask_eq_exp_minus_1)

lemma saturating_add_grows: "n \<le> saturating_add_u64 n k"
  using unsigned_less [of n, where 'a = nat] by (simp add: word_le_nat_alt unat_saturating_add)

lemma saturating_add_mono: "n \<le> m \<Longrightarrow> saturating_add_u64 n k \<le> saturating_add_u64 m k"
  by (simp add: word_le_nat_alt unat_saturating_add)

lemma thread_ok_later: "thread_ok F n t \<Longrightarrow> n \<le> m \<Longrightarrow> thread_ok F m t"
  by (auto simp: thread_ok_def intro: order_trans)

lemma live_count_flags: "live_count s = length (filter (\<lambda>b. b) (map is_live (threads s)))"
  by (simp add: live_count_def live_def filter_map comp_def)

lemma retire_id [simp]: "th_id (retire v now n t) = th_id t"
  by (cases v) (simp_all add: retire_def)

lemma tick_thread_simps [simp]:
  "th_id (tick_thread F c p now t) = th_id t" "is_live (tick_thread F c p now t) = is_live t"
  by (simp_all add: tick_thread_def is_live_def Let_def)

lemma mint_id_fresh: "mint_id us ts = Some i \<Longrightarrow> i \<notin> th_id ` set ts"
  by (induction us) (auto simp: Let_def list_ex_iff split: if_splits)

lemma store_ok_update:
  assumes s: "store_ok F c s"
    and f: "\<And>t. th_id (f t) = th_id t" "\<And>t. is_live (f t) = is_live t"
    and k: "\<And>t. t \<in> set (threads s) \<Longrightarrow> P t \<Longrightarrow> thread_ok F (cycles_run (ledger s)) (f t)"
  shows "store_ok F c (s\<lparr>threads := update_first P f (threads s)\<rparr>)"
  using s k set_update_first [of _ P f "threads s"]
  by (fastforce simp: store_ok_def live_count_flags map_update_first f)

lemma find_id_unique:
  "distinct (map th_id ts) \<Longrightarrow> List.find (\<lambda>t. th_id t = i) ts = Some t \<Longrightarrow> u \<in> set ts \<Longrightarrow> th_id u = i \<Longrightarrow> u = t"
  by (induction ts) (auto split: if_splits)

lemma settle_triage_ok:
  "max_live_threads c < live_count (settle_triage F c now s) \<Longrightarrow> triage s \<noteq> None \<or> live_count s \<le> max_live_threads c \<Longrightarrow>
     triage (settle_triage F c now s) \<noteq> None"
  by (auto simp: settle_triage_def raise_triage_def live_count_def live_def split: if_splits)

lemma live_count_retire: "live_count (s\<lparr>threads := update_first P (retire v now n) (threads s)\<rparr>) \<le> live_count s"
proof -
  have "\<not> is_live (retire v now n t)" for t by (cases v) (simp_all add: retire_def is_live_def)
  then have "length (filter is_live (update_first P (retire v now n) ts)) \<le> length (filter is_live ts)" for ts
    by (induction ts) auto
  then show ?thesis by (simp add: live_count_def live_def)
qed

lemma store_ok_open: "f64_ok F \<Longrightarrow> store_ok F c s \<Longrightarrow> store_ok F c (tension_step F U c (OpenOp draws d now) s)"
proof -
  assume F: "f64_ok F" and s: "store_ok F c s"
  show ?thesis
  proof (cases "List.find (same_thread U d) (threads s)")
    case None
    show ?thesis
    proof (cases "mint_id draws (threads s)")
      case (Some i)
      let ?s1 = "s\<lparr>threads := threads s @ [new_thread F i d now (cycles_run (ledger s))]\<rparr>"
      have n: "i \<notin> th_id ` set (threads s)" by (rule mint_id_fresh [OF Some])
      have "distinct (map th_id (threads ?s1))" "\<forall>t\<in>set (threads ?s1). thread_ok F (cycles_run (ledger s)) t"
        using s n thread_ok_new [OF F, of "cycles_run (ledger s)" i d now] by (auto simp: store_ok_def new_thread_def)
      with s None Some show ?thesis
        by (auto simp: open_thread_def Let_def store_ok_def raise_triage_def live_count_def live_def)
    qed (use s None in \<open>simp add: open_thread_def\<close>)
  next
    case (Some t)
    have "store_ok F c (s\<lparr>threads := update_first (same_thread U d) mention (threads s)\<rparr>)"
      by (rule store_ok_update [OF s]) (use s in \<open>auto simp: store_ok_def thread_ok_mention\<close>)
    with Some show ?thesis by (simp add: open_thread_def)
  qed
qed

lemma store_ok_work: "f64_ok F \<Longrightarrow> store_ok F c s \<Longrightarrow> store_ok F c (tension_step F U c (WorkOp i a now) s)"
proof -
  assume F: "f64_ok F" and s: "store_ok F c s"
  let ?f = "credit_thread F c a now (cycles_run (ledger s))"
  have "store_ok F c (s\<lparr>threads := update_first (\<lambda>t. th_id t = i) ?f (threads s)\<rparr>)"
    if t: "find_thread s i = Some t" "is_live t" for t
  proof (rule store_ok_update [OF s])
    fix u assume u: "u \<in> set (threads s)" "th_id u = i"
    with s t(1) have "u = t" using find_id_unique by (auto simp: store_ok_def find_thread_def)
    with s u t(2) show "thread_ok F (cycles_run (ledger s)) (?f u)"
      by (auto simp: store_ok_def intro: thread_ok_credit [OF F])
  qed simp_all
  with s show ?thesis by (auto simp: credit_work_def Let_def split: option.split)
qed

lemma store_ok_resolve: "store_ok F c s \<Longrightarrow> store_ok F c (tension_step F U c (ResolveOp i v now) s)"
proof -
  assume s: "store_ok F c s"
  let ?f = "retire v now (cycles_run (ledger s))"
  let ?s1 = "s\<lparr>threads := update_first (\<lambda>t. th_id t = i) ?f (threads s)\<rparr>"
  have "distinct (map th_id (threads ?s1))" using s by (simp add: store_ok_def map_update_first)
  moreover have "\<forall>t\<in>set (threads ?s1). thread_ok F (cycles_run (ledger s)) t"
    using s set_update_first [of _ "\<lambda>t. th_id t = i" ?f "threads s"] by (auto simp: store_ok_def intro: thread_ok_retire)
  moreover have "triage ?s1 \<noteq> None \<or> live_count ?s1 \<le> max_live_threads c"
    using s live_count_retire [where s = s and P = "\<lambda>t. th_id t = i" and v = v and now = now and n = "cycles_run (ledger s)"] by (auto simp: store_ok_def)
  ultimately have "store_ok F c (settle_triage F c now ?s1)"
    using s settle_triage_ok [of c F now ?s1] by (auto simp: store_ok_def)
  with s show ?thesis by (auto simp: resolve_def Let_def split: option.split)
qed

lemma store_ok_cycle: "store_ok F c s \<Longrightarrow> store_ok F c (tension_step F U c (CycleOp now) s)"
proof -
  assume s: "store_ok F c s"
  let ?n = "cycles_run (ledger s)"
  have g: "?n \<le> saturating_add_u64 ?n 1" by (rule saturating_add_grows)
  have "saturating_add_u64 (reach_cycles (ledger s)) 1 \<le> saturating_add_u64 ?n 1"
    using s by (simp add: store_ok_def saturating_add_mono)
  with s g thread_ok_later [OF _ g] show ?thesis
    by (auto simp: store_ok_def record_cycle_def Let_def live_count_def live_def intro: order_trans)
qed

lemma store_ok_step:
  assumes F: "f64_ok F" and s: "store_ok F c s"
  shows "store_ok F c (tension_step F U c x s)"
proof (cases x)
  case (OpenOp draws d now)
  show ?thesis unfolding OpenOp by (rule store_ok_open [OF F s])
next
  case (WorkOp i a now)
  show ?thesis unfolding WorkOp by (rule store_ok_work [OF F s])
next
  case (ResolveOp i v now)
  show ?thesis unfolding ResolveOp by (rule store_ok_resolve [OF s])
next
  case (CycleOp now)
  show ?thesis unfolding CycleOp by (rule store_ok_cycle [OF s])
next
  case (RefuseOp ns)
  with s show ?thesis by (simp add: store_ok_def live_count_def live_def)
next
  case (MentionOp i)
  have "store_ok F c (s\<lparr>threads := update_first (\<lambda>t. th_id t = i) mention (threads s)\<rparr>)"
    by (rule store_ok_update [OF s]) (use s in \<open>auto simp: store_ok_def thread_ok_mention\<close>)
  with s show ?thesis by (simp add: MentionOp note_mention_def split: option.split)
next
  case (TickOp now)
  have "filter is_live (map (\<lambda>t. if is_live t then tick_thread F c p now t else t) ts) =
      map (tick_thread F c p now) (filter is_live ts)" for p ts
    by (induction ts) auto
  moreover have "map th_id (map (\<lambda>t. if is_live t then tick_thread F c p now t else t) ts) = map th_id ts" for p ts
    by (induction ts) auto
  ultimately show ?thesis
    using s thread_ok_tick [OF F]
    by (auto simp: TickOp tick_def store_ok_def Let_def live_count_def live_def simp del: map_map)
qed

lemma store_ok_run: "f64_ok F \<Longrightarrow> store_ok F c s \<Longrightarrow> store_ok F c (tension_run F U c ops s)"
  by (induction ops arbitrary: s) (simp_all add: store_ok_step)

text \<open>
  C37: whatever is opened, mentioned, ticked, worked, resolved and cycled, the store stays sound: no two
  threads share an id, every tension is a number from 0 to 1000, a thread is retired exactly when it
  says when, an answered or superseded one has an artifact on record and a dissolved or abandoned
  one a reason, and a store with more live threads than its cap owes a triage.
\<close>

theorem tension_store_stays_sound:
  assumes "f64_ok F"
  shows "store_ok F c (tension_run F U c ops store_empty)"
  using store_ok_run [OF assms, of c store_empty U ops]
  by (simp add: store_ok_def store_empty_def live_count_def live_def)

lemma unworked_law:
  assumes "f64_ok F" and "store_ok F c s" and "find_thread s i = Some t"
    and "list_all (\<lambda>x. \<not> works_on i x) ops"
  shows "\<exists>t'. find_thread (tension_run F U c ops s) i = Some t' \<and> f_le F (th_tension t) (th_tension t')"
proof -
  from silence.run_find [OF assms(4,3), of F U c] obtain t' where
    t': "find_thread (tension_run F U c ops s) i = Some t'" "not_quieter F i t t'"
    by (auto simp: not_quieter_def)
  from assms(3) have "t \<in> set (threads s)" "th_id t = i"
    using find_in_set unfolding find_thread_def by fastforce+
  with t' assms(1,2) show ?thesis by (auto simp: not_quieter_def store_ok_def thread_ok_def)
qed

text \<open>
  An unworked thread never gets quieter: over any run in which it is not credited with work,
  whatever is said of it and whatever happens to other threads, its tension does not fall.
\<close>

theorem unworked_thread_is_never_quieter:
  assumes "f64_ok F" and "store_ok F c s" and "find_thread s i = Some t"
    and "list_all (\<lambda>x. \<not> works_on i x) ops"
  shows "\<exists>t'. find_thread (tension_run F U c ops s) i = Some t' \<and> f_le F (th_tension t) (th_tension t')"
  using assms by (rule unworked_law)

text \<open>
  Nothing is forgotten: a thread is found after any run with its label, its content, its origin and
  the instant it was opened, and once retired it does not change but for its count of mentions.
\<close>

theorem no_thread_is_lost:
  assumes "find_thread s i = Some t"
  shows "\<exists>t'. find_thread (tension_run F U c ops s) i = Some t' \<and>
    th_label t' = th_label t \<and> th_content t' = th_content t \<and> th_origin t' = th_origin t \<and> th_created t' = th_created t \<and>
    (th_resolution t \<noteq> None \<longrightarrow> t' = t\<lparr>th_mentions := th_mentions t'\<rparr>)"
proof -
  have "list_all (\<lambda>_. True) ops" by (simp add: list_all_iff)
  from memory.run_find [OF this assms, of F U c] obtain t' where
    "find_thread (tension_run F U c ops s) i = Some t'" "kept t t'" by (auto simp: kept_def)
  then show ?thesis by (auto simp: kept_def is_live_def)
qed

subsection \<open>One discharge in a cycle\<close>

fun is_credited :: "'f work_outcome \<Rightarrow> bool" where
  "is_credited (Credited x) \<longleftrightarrow> True"
| "is_credited _ \<longleftrightarrow> False"

text \<open>How often a run lowers the thread \<open>i\<close>, and how many cycles it opens.\<close>

fun credits :: "'f f64_lib \<Rightarrow> unicode \<Rightarrow> 'f tension_config \<Rightarrow> bytes \<Rightarrow> tension_op list \<Rightarrow> 'f tension_store \<Rightarrow> nat" where
  "credits F U c i [] s = 0"
| "credits F U c i (x # ops) s =
     (case x of WorkOp j a now \<Rightarrow> if j = i \<and> is_credited (fst (credit_work F c i a now s)) then 1 else 0 | _ \<Rightarrow> 0) +
     credits F U c i ops (tension_step F U c x s)"

fun opens_cycle :: "tension_op \<Rightarrow> bool" where
  "opens_cycle (CycleOp now) \<longleftrightarrow> True"
| "opens_cycle _ \<longleftrightarrow> False"

definition allowance :: "bytes \<Rightarrow> 'f tension_store \<Rightarrow> nat" where
  "allowance i s =
     (case find_thread s i of
        Some t \<Rightarrow> if th_worked_cycle t = Some (cycles_run (ledger s)) then 0 else 1
      | None \<Rightarrow> 1)"

definition same_work :: "bytes \<Rightarrow> 'f thread \<Rightarrow> 'f thread \<Rightarrow> bool" where
  "same_work i t u \<longleftrightarrow> th_id u = th_id t \<and> (th_id t = i \<longrightarrow> th_worked_cycle u = th_worked_cycle t)"

interpretation work_marks: thread_law F U c "\<lambda>x. \<not> works_on i x" "same_work i" for F U c i
proof unfold_locales
  fix t p now
  show "same_work i t (tick_thread F c (tick_periods_since F p now) now t)"
    using tick_thread_same [of F c "tick_periods_since F p now" now t] by (auto simp: same_work_def)
qed (auto simp: same_work_def retire_def split: prod.split option.split)

lemma step_cycles: "\<not> opens_cycle x \<Longrightarrow> cycles_run (ledger (tension_step F U c x s)) = cycles_run (ledger s)"
  by (cases x) (auto simp: open_thread_def note_mention_def tick_def credit_work_def resolve_def Let_def
      split: option.splits)

lemma allowance_le: "allowance i s \<le> 1"
  by (simp add: allowance_def split: option.split)

lemma allowance_step:
  assumes "\<not> works_on i x" and "\<not> opens_cycle x"
  shows "allowance i (tension_step F U c x s) \<le> allowance i s"
proof (cases "find_thread s i")
  case (Some t)
  have "list_all (\<lambda>x. \<not> works_on i x) [x]" using assms(1) by simp
  from work_marks.run_find [OF this Some, of F U c] obtain t' where
    "find_thread (tension_step F U c x s) i = Some t'" "same_work i t t'" by (auto simp: same_work_def)
  moreover have "th_id t = i" using Some find_in_set unfolding find_thread_def by fastforce
  ultimately show ?thesis using Some step_cycles [OF assms(2), of F U c s] by (simp add: allowance_def same_work_def)
qed (use allowance_le in \<open>simp add: allowance_def\<close>)

lemma find_update_first:
  "(\<And>t. th_id (f t) = th_id t) \<Longrightarrow>
     List.find (\<lambda>t. th_id t = i) (update_first (\<lambda>t. th_id t = i) f ts) = map_option f (List.find (\<lambda>t. th_id t = i) ts)"
  by (induction ts) auto

lemma allowance_work:
  "(if is_credited (fst (credit_work F c i a now s)) then 1 else 0) +
     allowance i (snd (credit_work F c i a now s)) \<le> allowance i s"
proof (cases "find_thread s i")
  case (Some t)
  then show ?thesis
    by (auto simp: credit_work_def Let_def allowance_def find_thread_def find_update_first)
qed (simp add: credit_work_def Let_def)

text \<open>
  C38: talk cannot pay twice: in any run a thread is discharged at most once for each cycle that the run
  opens, and once more for the cycle it began in.
\<close>

theorem one_discharge_per_cycle:
  "credits F U c i ops s \<le> length (filter opens_cycle ops) + 1"
proof -
  have "credits F U c i ops s \<le> length (filter opens_cycle ops) + allowance i s"
  proof (induction ops arbitrary: s)
    case (Cons x ops)
    note IH = Cons.IH [of "tension_step F U c x s"]
    consider (work) a now where "x = WorkOp i a now" | (cycle) "opens_cycle x" | (other) "\<not> works_on i x" "\<not> opens_cycle x"
      by (cases x) auto
    then show ?case
    proof cases
      case work
      then show ?thesis using IH allowance_work [of F c i a now s] by simp
    next
      case cycle
      then obtain now where "x = CycleOp now" by (cases x) auto
      then show ?thesis using IH allowance_le [of i "tension_step F U c x s"] by simp
    next
      case other
      then have "credits F U c i (x # ops) s = credits F U c i ops (tension_step F U c x s)" by (cases x) auto
      with other IH allowance_step [OF other, of F U c s] show ?thesis by simp
    qed
  qed simp
  with allowance_le [of i s] show ?thesis by simp
qed

subsection \<open>Ranking\<close>

lemma set_insert_by [simp]: "set (insert_by le x ys) = insert x (set ys)"
  by (induction ys) auto

lemma length_insert_by [simp]: "length (insert_by le x ys) = Suc (length ys)"
  by (induction ys) auto

lemma sort_by_simps [simp]: "set (sort_by le xs) = set xs" "length (sort_by le xs) = length xs"
  by (induction xs) (simp_all add: sort_by_def)

lemma sorted_insert_by:
  assumes "\<And>a b. le a b \<or> le b a" and "\<And>a b c. le a b \<Longrightarrow> le b c \<Longrightarrow> le a c" and "sorted_wrt le ys"
  shows "sorted_wrt le (insert_by le x ys)"
  using assms(3)
proof (induction ys)
  case (Cons y ys)
  show ?case
  proof (cases "le x y")
    case True
    with Cons.prems assms(2) [OF True] show ?thesis by auto
  next
    case False
    with assms(1) have "le y x" by blast
    with Cons False show ?thesis by simp
  qed
qed simp

lemma sorted_sort_by:
  assumes "\<And>a b. le a b \<or> le b a" and "\<And>a b c. le a b \<Longrightarrow> le b c \<Longrightarrow> le a c"
  shows "sorted_wrt le (sort_by le xs)"
  by (induction xs) (simp_all add: sort_by_def sorted_insert_by [OF assms])

lemma presses_more_order:
  assumes "f64_ok F"
  shows "presses_more F a b \<or> presses_more F b a" and "presses_more F a b \<Longrightarrow> presses_more F b d \<Longrightarrow> presses_more F a d"
proof -
  show "presses_more F a b \<or> presses_more F b a"
    using f64_sort [OF assms, of "th_tension a" "th_tension b"] by (auto simp: presses_more_def)
  assume ab: "presses_more F a b" and bd: "presses_more F b d"
  note t = f64_sort_trans [OF assms]
  have "f_total F (th_tension d) (th_tension a)" using ab bd t by (simp add: presses_more_def) blast
  moreover have "th_created a \<le> th_created d" if e: "f_total F (th_tension a) (th_tension d)"
  proof -
    have "f_total F (th_tension a) (th_tension b)" by (rule t [OF e]) (use bd in \<open>simp add: presses_more_def\<close>)
    moreover have "f_total F (th_tension b) (th_tension d)"
      by (rule t [OF _ e]) (use ab in \<open>simp add: presses_more_def\<close>)
    ultimately show ?thesis using ab bd by (simp add: presses_more_def)
  qed
  ultimately show "presses_more F a d" by (simp add: presses_more_def)
qed

lemma presses_less_order:
  assumes "f64_ok F"
  shows "presses_less F a b \<or> presses_less F b a" and "presses_less F a b \<Longrightarrow> presses_less F b d \<Longrightarrow> presses_less F a d"
proof -
  show "presses_less F a b \<or> presses_less F b a"
    using f64_sort [OF assms, of "th_tension a" "th_tension b"] by (auto simp: presses_less_def)
  assume ab: "presses_less F a b" and bd: "presses_less F b d"
  note t = f64_sort_trans [OF assms]
  have "f_total F (th_tension a) (th_tension d)" using ab bd t by (simp add: presses_less_def) blast
  moreover have "th_created a \<le> th_created d" if e: "f_total F (th_tension d) (th_tension a)"
  proof -
    have "f_total F (th_tension b) (th_tension a)" by (rule t [OF _ e]) (use bd in \<open>simp add: presses_less_def\<close>)
    moreover have "f_total F (th_tension d) (th_tension b)"
      by (rule t [OF e]) (use ab in \<open>simp add: presses_less_def\<close>)
    ultimately show ?thesis using ab bd by (simp add: presses_less_def)
  qed
  ultimately show "presses_less F a d" by (simp add: presses_less_def)
qed

lemma taken_first:
  assumes "sorted_wrt le (sort_by le xs)" and "t \<in> set (take k (sort_by le xs))" and "u \<in> set xs"
    and "u \<notin> set (take k (sort_by le xs))"
  shows "le t u"
proof -
  have "set xs = set (take k (sort_by le xs)) \<union> set (drop k (sort_by le xs))"
    by (metis append_take_drop_id set_append sort_by_simps(1))
  with assms(3,4) have "u \<in> set (drop k (sort_by le xs))" by blast
  moreover have "sorted_wrt le (take k (sort_by le xs) @ drop k (sort_by le xs))" using assms(1) by simp
  ultimately show ?thesis using assms(2) unfolding sorted_wrt_append by blast
qed

text \<open>
  The prompt gets the threads that press most: as many as it asks for or as there are, all of them
  live, by falling tension and the older first, and no live thread left out comes before one of them.
\<close>

theorem most_pressing_are_injected:
  assumes "f64_ok F"
  shows "sorted_wrt (presses_more F) (top_k F k s) \<and> length (top_k F k s) = min k (live_count s) \<and>
    set (top_k F k s) \<subseteq> set (live s) \<and>
    (\<forall>t\<in>set (top_k F k s). \<forall>u\<in>set (live s) - set (top_k F k s). presses_more F t u)"
proof -
  have s: "sorted_wrt (presses_more F) (sort_by (presses_more F) (live s))"
    by (rule sorted_sort_by) (use presses_more_order [OF assms] in blast)+
  then have "sorted_wrt (presses_more F) (top_k F k s)" unfolding top_k_def by (rule sorted_wrt_take)
  moreover have "set (top_k F k s) \<subseteq> set (live s)"
    using set_take_subset [of k "sort_by (presses_more F) (live s)"] by (simp add: top_k_def)
  ultimately show ?thesis using taken_first [OF s] by (auto simp: top_k_def live_count_def)
qed

text \<open>
  A full store drops nothing: a thread opened past the cap is in the store and live, as all that
  were, and the store then demands a triage of as many threads as it holds, since the instant
  the demand was first raised, offering up to five live threads that press least.
\<close>

theorem full_store_demands_triage:
  assumes F: "f64_ok F" and o: "open_thread F U c draws d now s = Some (OpenedOverCap i n, s')"
  shows "max_live_threads c < n \<and> live s' = live s @ [new_thread F i d now (cycles_run (ledger s))] \<and>
    (\<exists>td. triage s' = Some td \<and> demand_live td = live_count s' \<and> demand_live td = n \<and>
       demand_raised td = (case triage s of None \<Rightarrow> now | Some e \<Rightarrow> demand_raised e) \<and>
       length (demand_picks td) = min 5 n \<and>
       (\<exists>ts. map pick_id (demand_picks td) = map th_id ts \<and> set ts \<subseteq> set (live s') \<and>
          (\<forall>t\<in>set ts. \<forall>u\<in>set (live s') - set ts. presses_less F t u)))"
proof -
  let ?s1 = "s\<lparr>threads := threads s @ [new_thread F i d now (cycles_run (ledger s))]\<rparr>"
  have e: "s' = raise_triage F c n now ?s1" "n = live_count ?s1" "max_live_threads c < n"
    using o by (auto simp: open_thread_def Let_def split: option.splits if_splits)
  have l: "live s' = live ?s1" by (simp add: live_def e(1))
  have l1: "live ?s1 = live s @ [new_thread F i d now (cycles_run (ledger s))]"
    by (simp add: live_def is_live_def new_thread_def)
  let ?ts = "take TRIAGE_CANDIDATES (sort_by (presses_less F) (live ?s1))"
  have s: "sorted_wrt (presses_less F) (sort_by (presses_less F) (live ?s1))"
    by (rule sorted_sort_by) (use presses_less_order [OF F] in blast)+
  have "set ?ts \<subseteq> set (live s')"
    using set_take_subset [of TRIAGE_CANDIDATES "sort_by (presses_less F) (live ?s1)"] by (simp only: l sort_by_simps)
  moreover have "\<forall>t\<in>set ?ts. \<forall>u\<in>set (live s') - set ?ts. presses_less F t u"
    using taken_first [OF s, of _ TRIAGE_CANDIDATES] unfolding l by blast
  moreover have "map pick_id (demand_picks (the (triage s'))) = map th_id ?ts"
    by (simp add: e(1) raise_triage_def live_def)
  ultimately have "\<exists>ts. map pick_id (demand_picks (the (triage s'))) = map th_id ts \<and> set ts \<subseteq> set (live s') \<and>
      (\<forall>t\<in>set ts. \<forall>u\<in>set (live s') - set ts. presses_less F t u)" by blast
  moreover have "triage s' = Some (the (triage s'))" by (simp add: e(1) raise_triage_def)
  ultimately show ?thesis
    using l l1 e(2,3)
    by (intro conjI exI [where x = "the (triage s')"])
      (simp_all add: e(1) raise_triage_def live_count_def TRIAGE_CANDIDATES_def)
qed

subsection \<open>A concrete store, for the witnesses\<close>

definition int_f64 :: "int f64_lib" where
  "int_f64 =
     \<lparr>of_i64 = (\<lambda>i. i), f_add = (+), f_sub = (-), f_mul = (*), f_div = (div), f_exp2 = (\<lambda>x. 2 ^ nat x), f_le = (\<le>),
      f_total = (\<le>), f_finite = (\<lambda>_. True), f_nan = (\<lambda>_. False)\<rparr>"

lemma int_f64_ok: "f64_ok int_f64"
  by (auto simp: f64_ok_def f64_order_def f64_casts_def f64_rounds_def f64_sorts_def int_f64_def)

definition plain_chars :: unicode where
  "plain_chars = \<lparr>lowercase = id, alphanumeric = (\<lambda>_. True), whitespace = (\<lambda>c. c = '' '')\<rparr>"

definition demo_tension :: "int tension_config" where
  "demo_tension =
     \<lparr>tension_enabled = True, base_rate = 1, age_weight_half = 72, work_credit = 1, cycle_threshold = 2,
      floor_interval_hours = 6, max_live_threads = 1, top_k_injected = 5\<rparr>"

definition demo_draft :: "bytes \<Rightarrow> thread_draft" where
  "demo_draft l = \<lparr>draft_label = l, draft_content = l, draft_origin = UserRaised l\<rparr>"

definition demo_store :: "int tension_store" where
  "demo_store =
     store_empty\<lparr>threads := [(new_thread int_f64 ''t-1'' (demo_draft ''a'') 0 0)\<lparr>th_tension := 1\<rparr>]\<rparr>"

lemma demo_threads_ok: "store_ok int_f64 demo_tension demo_store"
  by (simp add: store_ok_def demo_store_def store_empty_def live_count_def live_def demo_tension_def thread_ok_def
      new_thread_def tension_ok_def int_f64_def MAX_TENSION_def is_live_def)

lemma demo_store_find: "\<exists>t. find_thread demo_store ''t-1'' = Some t \<and> th_tension t = 1"
  by (simp add: demo_store_def store_empty_def find_thread_def new_thread_def)

theorem tension_store_stays_sound_witness:
  "store_ok int_f64 demo_tension
     (tension_run int_f64 plain_chars demo_tension
        [OpenOp [''1''] (demo_draft ''a'') 0, TickOp 0, WorkOp ''t-1'' (ToolResult ''x'' 1) 5] store_empty)"
  by (rule tension_store_stays_sound [OF int_f64_ok])

theorem unworked_thread_is_never_quieter_witness:
  "\<exists>t'. find_thread (tension_run int_f64 plain_chars demo_tension [TickOp 0, MentionOp ''t-1''] demo_store) ''t-1'' = Some t' \<and>
     1 \<le> th_tension t'"
proof -
  from demo_store_find obtain t where t: "find_thread demo_store ''t-1'' = Some t" "th_tension t = 1" by blast
  from unworked_thread_is_never_quieter [OF int_f64_ok demo_threads_ok t(1), of "[TickOp 0, MentionOp ''t-1'']" plain_chars] t(2)
  show ?thesis by (auto simp: int_f64_def)
qed

theorem no_thread_is_lost_witness:
  "\<exists>t'. find_thread (tension_run int_f64 plain_chars demo_tension [ResolveOp ''t-1'' (AbandonedFor ''r'') 3] demo_store) ''t-1'' =
     Some t' \<and> th_content t' = ''a''"
proof -
  have "\<exists>t. find_thread demo_store ''t-1'' = Some t \<and> th_content t = ''a''"
    by (simp add: demo_store_def store_empty_def find_thread_def new_thread_def demo_draft_def)
  then obtain t where t: "find_thread demo_store ''t-1'' = Some t" "th_content t = ''a''" by blast
  from no_thread_is_lost [OF t(1)] t(2) show ?thesis by fastforce
qed

theorem most_pressing_are_injected_witness:
  "length (top_k int_f64 3 demo_store) = 1"
  using most_pressing_are_injected [OF int_f64_ok, of 3 demo_store]
  by (simp add: live_count_def live_def demo_store_def store_empty_def is_live_def new_thread_def)

theorem full_store_demands_triage_witness:
  "\<exists>s' td. open_thread int_f64 plain_chars demo_tension [''2''] (demo_draft ''b'') 7 demo_store = Some (OpenedOverCap ''t-2'' 2, s') \<and>
     triage s' = Some td \<and> demand_live td = 2"
proof -
  have "\<exists>s'. open_thread int_f64 plain_chars demo_tension [''2''] (demo_draft ''b'') 7 demo_store = Some (OpenedOverCap ''t-2'' 2, s')"
    by (simp add: open_thread_def demo_store_def store_empty_def demo_draft_def new_thread_def same_thread_def is_live_def
        normalize_label_def plain_chars_def split_whitespace_def live_count_def live_def demo_tension_def Let_def
        continuation_def byte_def)
  then obtain s' where "open_thread int_f64 plain_chars demo_tension [''2''] (demo_draft ''b'') 7 demo_store =
      Some (OpenedOverCap ''t-2'' 2, s')" by blast
  with full_store_demands_triage [OF int_f64_ok this] show ?thesis by blast
qed

end
