(* ===== verification/IngestSafety.thy ===== *)
theory IngestSafety
  imports Ingest TensionSafety
begin

text \<open>
  The discharge firewall: what a finished cycle does to the store is a run of its operations in which
  every discharge and every claim that work was done rests on something that is true of the cycle.
\<close>

subsection \<open>Evidence\<close>

fun artifact_true :: "work_evidence \<Rightarrow> work_artifact \<Rightarrow> bool" where
  "artifact_true W (FileDiff p m) \<longleftrightarrow>
     (\<exists>parts. parts \<noteq> [] \<and> ''..'' \<notin> set parts \<and> \<not> is_journal_path parts \<and> p = join_with ''/'' parts \<and>
        modified W parts = Some m \<and> cycle_started W \<le> m)"
| "artifact_true W (ResolvedPrediction i) \<longleftrightarrow> i \<in> set (resolved_ids W)"
| "artifact_true W (ToolResult t n) \<longleftrightarrow> n = tool_rounds W \<and> 0 < n"

lemma relative_parts: "pulse_relative_path U raw = Some parts \<Longrightarrow> parts \<noteq> [] \<and> ''..'' \<notin> set parts"
  by (auto simp: pulse_relative_path_def Let_def split: if_splits)

lemma verify_file_true: "verify_file U W raw = Inr a \<Longrightarrow> artifact_true W a"
  using relative_parts by (fastforce simp: verify_file_def Let_def split: option.splits if_splits)

lemma verify_true: "verify U W cl = Inr a \<Longrightarrow> artifact_true W a"
  using verify_file_true
  by (auto simp: verify_def rung_def verify_tool_def verify_prediction_def Let_def split: sum.splits option.splits if_splits)

fun verdict_true :: "work_evidence \<Rightarrow> resolution_verdict \<Rightarrow> bool" where
  "verdict_true W (AnsweredBy a) \<longleftrightarrow> artifact_true W a"
| "verdict_true W (SupersededBy by' a) \<longleftrightarrow> artifact_true W a"
| "verdict_true W (DissolvedFor r) \<longleftrightarrow> r \<noteq> []"
| "verdict_true W (AbandonedFor r) \<longleftrightarrow> r \<noteq> []"

lemma non_empty_field_Some: "non_empty_field U n v = Some t \<Longrightarrow> t \<noteq> []"
  by (cases v) (auto simp: non_empty_field_def Let_def split: if_splits)

lemma verdict_ok:
  assumes "build_verdict U W p = Inr v" and "\<And>r. pres_reason p = Some r \<Longrightarrow> r \<noteq> []"
  shows "verdict_true W v"
  using assms verify_true
  by (auto simp: build_verdict_def split: resolution_kind.splits sum.splits option.splits)

lemma map_filter_in: "x \<in> set (List.map_filter f xs) \<Longrightarrow> \<exists>y\<in>set xs. f y = Some x"
  by (induction xs) (auto split: option.splits)

lemma parsed_reasons: "p \<in> set (parse_resolutions U L raw) \<Longrightarrow> pres_reason p = Some r \<Longrightarrow> r \<noteq> []"
  using non_empty_field_Some
  by (fastforce simp: parse_resolutions_def resolution_of_def Let_def dest!: map_filter_in split: if_splits)

subsection \<open>A cycle is a run\<close>

fun op_true :: "work_evidence \<Rightarrow> tension_op \<Rightarrow> bool" where
  "op_true W (WorkOp i a now) \<longleftrightarrow> artifact_true W a"
| "op_true W (ResolveOp i v now) \<longleftrightarrow> verdict_true W v"
| "op_true W _ \<longleftrightarrow> True"

definition reaches ::
  "'f f64_lib \<Rightarrow> unicode \<Rightarrow> 'f tension_config \<Rightarrow> work_evidence \<Rightarrow> 'f tension_store \<Rightarrow> 'f tension_store \<Rightarrow> bool" where
  "reaches F U c W s s' \<longleftrightarrow> (\<exists>ops. list_all (op_true W) ops \<and> s' = tension_run F U c ops s)"

lemma reaches_refl: "reaches F U c W s s"
  unfolding reaches_def by (intro exI [where x = "[]"]) simp

lemma reaches_step: "op_true W x \<Longrightarrow> reaches F U c W s (tension_step F U c x s)"
  unfolding reaches_def by (intro exI [where x = "[x]"]) simp

lemma tension_run_append: "tension_run F U c (xs @ ys) s = tension_run F U c ys (tension_run F U c xs s)"
  by (simp add: tension_run_def)

lemma reaches_trans: "reaches F U c W a b \<Longrightarrow> reaches F U c W b d \<Longrightarrow> reaches F U c W a d"
  unfolding reaches_def by (metis list_all_append tension_run_append)

lemma reaches_open: "open_thread F U c draws d now s = Some (x, s') \<Longrightarrow> reaches F U c W s s'"
  using reaches_step [of W "OpenOp draws d now" F U c s] by simp

lemma reaches_drafts: "open_drafts F U c draws now n ds (r, s) = Some (r', s') \<Longrightarrow> reaches F U c W s s'"
proof (induction ds arbitrary: n r s)
  case (Cons d ds)
  then obtain x s1 where "open_thread F U c (draws n) d now s = Some (x, s1)"
      "open_drafts F U c draws now (Suc n) ds (note_open x s1 r, s1) = Some (r', s')"
    by (auto simp: bind_eq_Some_conv)
  with Cons.IH reaches_open reaches_trans show ?case by metis
qed (simp add: reaches_refl)

lemma reaches_credit: "artifact_true W a \<Longrightarrow> reaches F U c W s (snd (credit_work F c i a now s))"
  using reaches_step [of W "WorkOp i a now" F U c s] by simp

lemma reaches_resolve: "verdict_true W v \<Longrightarrow> reaches F U c W s (snd (resolve F c i v now s))"
  using reaches_step [of W "ResolveOp i v now" F U c s] by simp

lemma reaches_fold:
  assumes "\<And>x st. x \<in> set xs \<Longrightarrow> reaches F U c W (snd st) (snd (f x st))"
  shows "reaches F U c W (snd st) (snd (fold f xs st))"
  using assms
proof (induction xs arbitrary: st)
  case (Cons x xs)
  then have "reaches F U c W (snd st) (snd (f x st))" "reaches F U c W (snd (f x st)) (snd (fold f xs (f x st)))" by simp_all
  then show ?case using reaches_trans by simp
qed (simp add: reaches_refl)

lemma apply_work_snd:
  "snd (apply_work F U c W now w (r, s)) =
     (case verify U W (snd w) of Inl e \<Rightarrow> s | Inr a \<Rightarrow> snd (credit_work F c (fst w) a now s))"
  by (simp add: apply_work_def split: sum.split prod.split work_outcome.split)

lemma reaches_work: "reaches F U c W (snd st) (snd (apply_work F U c W now w st))"
  by (cases st) (auto simp: apply_work_snd reaches_refl reaches_credit verify_true split: sum.split)

lemma apply_resolution_snd:
  "snd (apply_resolution F U c W now p (r, s)) =
     (case build_verdict U W p of Inl e \<Rightarrow> s | Inr v \<Rightarrow> snd (resolve F c (pres_id p) v now s))"
  by (simp add: apply_resolution_def split: sum.split prod.split resolve_outcome.split)

lemma reaches_resolution:
  "p \<in> set (parse_resolutions U L raw) \<Longrightarrow> reaches F U c W (snd st) (snd (apply_resolution F U c W now p st))"
  using parsed_reasons
  by (cases st) (fastforce simp: apply_resolution_snd reaches_refl split: sum.split intro!: reaches_resolve verdict_ok)

lemma reaches_markers: "apply_markers F U L c draws W now raw s = Some (r, s') \<Longrightarrow> reaches F U c W s s'"
proof -
  assume "apply_markers F U L c draws W now raw s = Some (r, s')"
  then obtain st where o: "open_drafts F U c draws now 0 (parse_threads U L raw) (report_empty, s) = Some st"
      and s': "(r, s') = fold (apply_resolution F U c W now) (parse_resolutions U L raw)
        (fold (apply_work F U c W now) (parse_work_claims U L raw) st)"
    by (auto simp: apply_markers_def)
  let ?st = "fold (apply_work F U c W now) (parse_work_claims U L raw) st"
  have "reaches F U c W s (snd st)" using reaches_drafts o by (metis prod.collapse)
  moreover have "reaches F U c W (snd st) (snd ?st)" by (rule reaches_fold) (rule reaches_work)
  moreover have "reaches F U c W (snd ?st) (snd (r, s'))"
    unfolding s' by (rule reaches_fold) (rule reaches_resolution)
  ultimately show ?thesis using reaches_trans by (metis snd_conv)
qed

lemma credit_resolved_snd: "snd (credit_resolved F c now pid i st) = snd (credit_work F c i (ResolvedPrediction pid) now (snd st))"
  by (simp add: credit_resolved_def split: prod.split work_outcome.split)

lemma reaches_predictions:
  assumes "set pids \<subseteq> set (resolved_ids W)"
  shows "reaches F U c W s (snd (credit_resolved_predictions F c now pids s))"
proof -
  have "reaches F U c W (snd st) (snd (credit_prediction F c now pid st))" if "pid \<in> set pids" for pid st
    unfolding credit_prediction_def
    by (rule reaches_fold) (use that assms in \<open>auto simp: credit_resolved_snd intro!: reaches_credit\<close>)
  from reaches_fold [of pids F U c W "credit_prediction F c now" "([], s)", OF this]
  show ?thesis by (simp add: credit_resolved_predictions_def)
qed

lemma reaches_errors: "ingest_errors F U two c draws stk now n es (r, s) = Some (r', s') \<Longrightarrow> reaches F U c W s s'"
proof (induction es arbitrary: n r s)
  case (Cons e es)
  show ?case
  proof (cases "f_le F (perr_surprise e) (surprise_threshold stk) \<or> list_ex (\<lambda>t. th_origin t = PredictionError (perr_id e)) (threads s)")
    case False
    with Cons.prems obtain x s1 where "open_thread F U c (draws n) (error_draft U two stk e) now s = Some (x, s1)"
        "ingest_errors F U two c draws stk now (Suc n) es (note_open x s1 r, s1) = Some (r', s')"
      by (auto simp: bind_eq_Some_conv)
    with Cons.IH reaches_open reaches_trans show ?thesis by metis
  qed (use Cons in \<open>auto split: if_splits\<close>)
qed (simp add: reaches_refl)

lemma reaches_stack: "ingest_stack F U two c draws stk now st = Some st' \<Longrightarrow> reaches F U c W (snd st) (snd st')"
  using reaches_errors [of F U two c draws _ now 0 _ report_empty "snd st"] reaches_refl
  by (cases stk) (auto simp: ingest_stack_def ingest_prediction_errors_def)

lemma reaches_mentions: "reaches F U c W s (snd (note_mentions raw acted s))"
proof -
  have "reaches F U c W s (fold (\<lambda>i s. snd (note_mention i s)) is s)" for "is"
  proof (induction "is" arbitrary: s)
    case (Cons i "is")
    show ?case
      using reaches_trans [OF reaches_step [of W "MentionOp i" F U c s] Cons] by simp
  qed (simp add: reaches_refl)
  then show ?thesis by (simp add: note_mentions_def Let_def)
qed

lemma reaches_finish: "reaches F U c W (snd st) (snd (finish_cycle U raw st))"
proof (cases st)
  case (Pair r s)
  let ?s1 = "snd (note_mentions raw (map fst (discharged r) @ resolved r) s)"
  have "reaches F U c W ?s1 (?s1\<lparr>last_refusals := map (notice_of U) (rejections r)\<rparr>)"
    using reaches_step [of W "RefuseOp (map (notice_of U) (rejections r))" F U c ?s1] by simp
  from reaches_trans [OF reaches_mentions this] show ?thesis
    by (simp add: Pair finish_cycle_def split_beta)
qed

lemma cycle_is_run:
  assumes "apply_cycle F U L two c draws raw W stk (resolved_ids W) now s = Some (r, s')"
  shows "\<exists>ops. list_all (op_true W) ops \<and> s' = tension_run F U c ops s"
proof -
  from assms obtain r1 s1 credited s2 st where
    m: "apply_markers F U L c (marker_draws draws) W now raw s = Some (r1, s1)" and
    p: "credit_resolved_predictions F c now (resolved_ids W) s1 = (credited, s2)" and
    i: "ingest_stack F U two c (error_draws draws) stk now (r1\<lparr>discharged := discharged r1 @ credited\<rparr>, s2) = Some st" and
    f: "(r, s') = finish_cycle U raw st"
    by (auto simp: apply_cycle_def bind_eq_Some_conv split_beta prod_eq_iff)
  from reaches_markers [OF m] have "reaches F U c W s s1" .
  moreover have "reaches F U c W s1 s2" using reaches_predictions [of "resolved_ids W" W F U c s1 now] p by simp
  moreover have "reaches F U c W s2 (snd st)" using reaches_stack [OF i] by simp
  moreover have "reaches F U c W (snd st) s'" using reaches_finish [of F U c W st raw] f by (metis snd_conv)
  ultimately have "reaches F U c W s s'" using reaches_trans by blast
  then show ?thesis by (simp add: reaches_def)
qed

text \<open>
  C36: a finished cycle is a run of the store's own operations in which nothing is taken on faith: every
  discharge, and every verdict that claims work, carries an artifact that is true of the cycle (a file
  outside the journal that moved since the cycle began, a prediction that resolved, or a tool
  that ran), and every other verdict a reason.
\<close>

theorem cycle_discharges_on_evidence:
  assumes "apply_cycle F U L two c draws raw W stk (resolved_ids W) now s = Some (r, s')"
  shows "\<exists>ops. list_all (op_true W) ops \<and> s' = tension_run F U c ops s"
  using assms by (rule cycle_is_run)

subsection \<open>Words alone\<close>

text \<open>A cycle in which nothing ran, nothing resolved, and no file outside the journal moved.\<close>

definition idle :: "work_evidence \<Rightarrow> bool" where
  "idle W \<longleftrightarrow>
     tool_rounds W = 0 \<and> resolved_ids W = [] \<and>
     (\<forall>parts m. modified W parts = Some m \<longrightarrow> \<not> is_journal_path parts \<longrightarrow> m < cycle_started W)"

lemma idle_no_artifact: "idle W \<Longrightarrow> \<not> artifact_true W a"
  by (cases a) (fastforce simp: idle_def)+

fun wordy :: "tension_op \<Rightarrow> bool" where
  "wordy (WorkOp i a now) \<longleftrightarrow> False"
| "wordy (ResolveOp i (AnsweredBy a) now) \<longleftrightarrow> False"
| "wordy (ResolveOp i (SupersededBy by' a) now) \<longleftrightarrow> False"
| "wordy (ResolveOp i (DissolvedFor r) now) \<longleftrightarrow> r \<noteq> []"
| "wordy (ResolveOp i (AbandonedFor r) now) \<longleftrightarrow> r \<noteq> []"
| "wordy _ \<longleftrightarrow> True"

lemma idle_wordy: "idle W \<Longrightarrow> op_true W x \<Longrightarrow> wordy x"
proof (cases x)
  case (ResolveOp i v now)
  then show "idle W \<Longrightarrow> op_true W x \<Longrightarrow> wordy x" using idle_no_artifact by (cases v) auto
qed (use idle_no_artifact in auto)

text \<open>What words can do to a thread: leave it, or retire it with a reason and no artifact.\<close>

definition given_up :: "'f thread \<Rightarrow> bool" where
  "given_up u \<longleftrightarrow> th_resolution u \<in> {Some Dissolved, Some Abandoned} \<and> th_reason u \<notin> {None, Some []}"

definition shelved :: "'f thread \<Rightarrow> 'f thread \<Rightarrow> bool" where
  "shelved t u \<longleftrightarrow>
     th_id u = th_id t \<and> th_log u = th_log t \<and>
     (th_resolution u = th_resolution t \<and> th_reason u = th_reason t \<or> is_live t \<and> given_up u)"

interpretation words: thread_law F U c wordy shelved for F U c
proof unfold_locales
  fix i verdict now t n
  show "wordy (ResolveOp i verdict now) \<Longrightarrow> is_live t \<Longrightarrow> shelved t (retire verdict now n t)"
    by (cases verdict) (simp_all add: shelved_def given_up_def retire_def)
next
  fix t u v :: "'a thread"
  show "shelved t u \<Longrightarrow> shelved u v \<Longrightarrow> shelved t v"
    by (auto simp: shelved_def given_up_def is_live_def)
next
  fix t p now
  show "shelved t (tick_thread F c (tick_periods_since F p now) now t)"
    using tick_thread_same [of F c "tick_periods_since F p now" now t] by (auto simp: shelved_def)
qed (auto simp: shelved_def mention_def)

lemma wordy_works_nothing: "wordy x \<Longrightarrow> \<not> works_on i x"
  by (cases x) auto

text \<open>
  C35: words alone discharge nothing: in a cycle in which no tool ran, no prediction resolved and no file
  outside the journal moved, whatever the mind writes leaves every thread at least as loud, with no
  work on its record, and retires a live one only as dissolved or abandoned, with a reason.
\<close>

theorem words_alone_discharge_nothing:
  assumes "f64_ok F" and "store_ok F c s" and "idle W"
    and "apply_cycle F U L two c draws raw W stk (resolved_ids W) now s = Some (r, s')"
    and "find_thread s i = Some t"
  shows "\<exists>t'. find_thread s' i = Some t' \<and> f_le F (th_tension t) (th_tension t') \<and> th_log t' = th_log t \<and>
    (th_resolution t' = th_resolution t \<or> th_resolution t = None \<and> given_up t')"
proof -
  from cycle_is_run [OF assms(4)] obtain ops where
    ops: "list_all (op_true W) ops" and s': "s' = tension_run F U c ops s" by blast
  from ops have w: "list_all wordy ops" using idle_wordy [OF assms(3)] by (auto simp: list_all_iff)
  then have n: "list_all (\<lambda>x. \<not> works_on i x) ops" using wordy_works_nothing by (auto simp: list_all_iff)
  from words.run_find [OF w assms(5), of F U c] obtain t' where
    t': "find_thread s' i = Some t'" "shelved t t'" by (auto simp: s' shelved_def)
  from unworked_law [OF assms(1,2,5) n, of U] t'(1) have "f_le F (th_tension t) (th_tension t')" by (auto simp: s')
  with t' show ?thesis by (auto simp: shelved_def is_live_def)
qed

subsection \<open>Refusals\<close>

text \<open>What the claims of one kind add to a report: \<open>ids\<close> are the threads they name.\<close>

definition refusals_of :: "bytes \<Rightarrow> 'f ingest_report \<Rightarrow> bytes list" where
  "refusals_of m r = map rej_thread (filter (\<lambda>x. rej_marker x = m) (rejections r))"

definition same_account :: "'f ingest_report \<Rightarrow> 'f ingest_report \<Rightarrow> bool" where
  "same_account r r' \<longleftrightarrow> discharged r' = discharged r \<and> resolved r' = resolved r \<and> rejections r' = rejections r"

lemma apply_work_account:
  "(\<exists>x. discharged (fst (apply_work F U c W now w st)) = discharged (fst st) @ [(fst w, x)] \<and>
      rejections (fst (apply_work F U c W now w st)) = rejections (fst st) \<or>
    discharged (fst (apply_work F U c W now w st)) = discharged (fst st) \<and>
      (\<exists>x. rej_marker x = ''THREAD-WORK'' \<and> rej_thread x = fst w \<and>
        rejections (fst (apply_work F U c W now w st)) = rejections (fst st) @ [x])) \<and>
   resolved (fst (apply_work F U c W now w st)) = resolved (fst st)"
  by (cases st) (auto simp: apply_work_def refuse_def split: sum.split prod.split work_outcome.split)

lemma apply_resolution_account:
  "(resolved (fst (apply_resolution F U c W now p st)) = resolved (fst st) @ [pres_id p] \<and>
      rejections (fst (apply_resolution F U c W now p st)) = rejections (fst st) \<or>
    resolved (fst (apply_resolution F U c W now p st)) = resolved (fst st) \<and>
      (\<exists>x. rej_marker x = ''THREAD-RESOLVE'' \<and> rej_thread x = pres_id p \<and>
        rejections (fst (apply_resolution F U c W now p st)) = rejections (fst st) @ [x])) \<and>
   discharged (fst (apply_resolution F U c W now p st)) = discharged (fst st)"
  by (cases st) (auto simp: apply_resolution_def refuse_def split: sum.split prod.split resolve_outcome.split)

lemma works_account:
  "\<exists>d. discharged (fst (fold (apply_work F U c W now) ws st)) = discharged (fst st) @ d \<and>
     resolved (fst (fold (apply_work F U c W now) ws st)) = resolved (fst st) \<and>
     mset (refusals_of ''THREAD-WORK'' (fst (fold (apply_work F U c W now) ws st))) + mset (map fst d) =
       mset (refusals_of ''THREAD-WORK'' (fst st)) + mset (map fst ws) \<and>
     refusals_of ''THREAD-RESOLVE'' (fst (fold (apply_work F U c W now) ws st)) = refusals_of ''THREAD-RESOLVE'' (fst st)"
proof (induction ws arbitrary: st)
  case (Cons w ws)
  let ?st = "apply_work F U c W now w st"
  from Cons.IH [of ?st] obtain d where d: "discharged (fst (fold (apply_work F U c W now) ws ?st)) = discharged (fst ?st) @ d"
    "resolved (fst (fold (apply_work F U c W now) ws ?st)) = resolved (fst ?st)"
    "mset (refusals_of ''THREAD-WORK'' (fst (fold (apply_work F U c W now) ws ?st))) + mset (map fst d) =
       mset (refusals_of ''THREAD-WORK'' (fst ?st)) + mset (map fst ws)"
    "refusals_of ''THREAD-RESOLVE'' (fst (fold (apply_work F U c W now) ws ?st)) = refusals_of ''THREAD-RESOLVE'' (fst ?st)"
    by blast
  from apply_work_account [of F U c W now w st] show ?case
  proof (elim conjE disjE exE)
    fix x assume a: "discharged (fst ?st) = discharged (fst st) @ [(fst w, x)]" "rejections (fst ?st) = rejections (fst st)"
      "resolved (fst ?st) = resolved (fst st)"
    with d show ?case by (intro exI [of _ "(fst w, x) # d"]) (simp add: refusals_of_def)
  next
    fix x assume a: "discharged (fst ?st) = discharged (fst st)" "rej_marker x = ''THREAD-WORK''" "rej_thread x = fst w"
      "rejections (fst ?st) = rejections (fst st) @ [x]" "resolved (fst ?st) = resolved (fst st)"
    with d show ?case by (intro exI [of _ d]) (simp add: refusals_of_def)
  qed
qed simp

lemma resolutions_account:
  "\<exists>d. resolved (fst (fold (apply_resolution F U c W now) ps st)) = resolved (fst st) @ d \<and>
     discharged (fst (fold (apply_resolution F U c W now) ps st)) = discharged (fst st) \<and>
     mset (refusals_of ''THREAD-RESOLVE'' (fst (fold (apply_resolution F U c W now) ps st))) + mset d =
       mset (refusals_of ''THREAD-RESOLVE'' (fst st)) + mset (map pres_id ps) \<and>
     refusals_of ''THREAD-WORK'' (fst (fold (apply_resolution F U c W now) ps st)) = refusals_of ''THREAD-WORK'' (fst st)"
proof (induction ps arbitrary: st)
  case (Cons p ps)
  let ?st = "apply_resolution F U c W now p st"
  from Cons.IH [of ?st] obtain d where d: "resolved (fst (fold (apply_resolution F U c W now) ps ?st)) = resolved (fst ?st) @ d"
    "discharged (fst (fold (apply_resolution F U c W now) ps ?st)) = discharged (fst ?st)"
    "mset (refusals_of ''THREAD-RESOLVE'' (fst (fold (apply_resolution F U c W now) ps ?st))) + mset d =
       mset (refusals_of ''THREAD-RESOLVE'' (fst ?st)) + mset (map pres_id ps)"
    "refusals_of ''THREAD-WORK'' (fst (fold (apply_resolution F U c W now) ps ?st)) = refusals_of ''THREAD-WORK'' (fst ?st)"
    by blast
  from apply_resolution_account [of F U c W now p st] show ?case
  proof (elim conjE disjE exE)
    assume a: "resolved (fst ?st) = resolved (fst st) @ [pres_id p]" "rejections (fst ?st) = rejections (fst st)"
      "discharged (fst ?st) = discharged (fst st)"
    with d show ?case by (intro exI [of _ "pres_id p # d"]) (simp add: refusals_of_def)
  next
    fix x assume a: "resolved (fst ?st) = resolved (fst st)" "rej_marker x = ''THREAD-RESOLVE''" "rej_thread x = pres_id p"
      "rejections (fst ?st) = rejections (fst st) @ [x]" "discharged (fst ?st) = discharged (fst st)"
    with d show ?case by (intro exI [of _ d]) (simp add: refusals_of_def)
  qed
qed simp

lemma note_open_account: "same_account r (note_open x s r)"
  by (cases x) (simp_all add: note_open_def same_account_def)

lemma same_account_trans: "same_account a b \<Longrightarrow> same_account b d \<Longrightarrow> same_account a d"
  by (simp add: same_account_def)

lemma drafts_account: "open_drafts F U c draws now n ds st = Some st' \<Longrightarrow> same_account (fst st) (fst st')"
proof (induction F U c draws now n ds st rule: open_drafts.induct)
  case (2 F U c draws now n d ds r s)
  then show ?case using note_open_account same_account_trans by (fastforce simp: bind_eq_Some_conv)
qed (simp add: same_account_def)

lemma markers_account:
  assumes "apply_markers F U L c draws W now raw s = Some (r, s')"
  shows "mset (map fst (parse_work_claims U L raw)) = mset (map fst (discharged r)) + mset (refusals_of ''THREAD-WORK'' r) \<and>
    mset (map pres_id (parse_resolutions U L raw)) = mset (resolved r) + mset (refusals_of ''THREAD-RESOLVE'' r)"
proof -
  from assms obtain st where st: "open_drafts F U c draws now 0 (parse_threads U L raw) (report_empty, s) = Some st"
    and r: "(r, s') = fold (apply_resolution F U c W now) (parse_resolutions U L raw)
        (fold (apply_work F U c W now) (parse_work_claims U L raw) st)"
    by (auto simp: apply_markers_def)
  from drafts_account [OF st] have e: "discharged (fst st) = []" "resolved (fst st) = []" "refusals_of m (fst st) = []" for m
    by (simp_all add: same_account_def report_empty_def refusals_of_def)
  let ?w = "fold (apply_work F U c W now) (parse_work_claims U L raw) st"
  from works_account [of F U c W now "parse_work_claims U L raw" st] e have w: "resolved (fst ?w) = []"
    "mset (refusals_of ''THREAD-WORK'' (fst ?w)) + mset (map fst (discharged (fst ?w))) = mset (map fst (parse_work_claims U L raw))"
    "refusals_of ''THREAD-RESOLVE'' (fst ?w) = []" by auto
  from r have "r = fst (fold (apply_resolution F U c W now) (parse_resolutions U L raw) ?w)" by (metis fst_conv)
  with resolutions_account [of F U c W now "parse_resolutions U L raw" ?w] w show ?thesis
    by (auto simp: add.commute)
qed

lemma stack_account: "ingest_stack F U two c draws stk now st = Some st' \<Longrightarrow> same_account (fst st) (fst st')"
  by (cases stk) (auto simp: ingest_stack_def merge_reports_def same_account_def)

text \<open>
  C39: nothing that was understood is refused in silence. The markers of work and of resolution that
  the text makes and that parse (one of an unknown kind, with broken JSON, over the size limit or with an empty id is
  skipped, with a line in the log) are all accounted for, each as often as it was made: every claim of work
  is a discharge of this cycle or a refusal, every resolution is carried out or a refusal, and the
  store keeps all refusals, with their reasons, for the next prompt. (A cycle has no result when the ids it
  draws for new threads are all taken: the code draws until one is free.) The remaining discharges are those that resolved
  predictions earned.
\<close>

theorem refused_claims_are_told:
  assumes "apply_cycle F U L two c draws raw W stk pids now s = Some (r, s')"
  shows "(\<exists>worked credited. discharged r = worked @ credited \<and>
      mset (map fst (parse_work_claims U L raw)) = mset (map fst worked) + mset (refusals_of ''THREAD-WORK'' r)) \<and>
    mset (map pres_id (parse_resolutions U L raw)) = mset (resolved r) + mset (refusals_of ''THREAD-RESOLVE'' r) \<and>
    last_refusals s' = map (notice_of U) (rejections r)"
proof -
  from assms obtain r1 s1 credited s2 st where
    m: "apply_markers F U L c (marker_draws draws) W now raw s = Some (r1, s1)" and
    i: "ingest_stack F U two c (error_draws draws) stk now (r1\<lparr>discharged := discharged r1 @ credited\<rparr>, s2) = Some st" and
    f: "(r, s') = finish_cycle U raw st"
    by (auto simp: apply_cycle_def bind_eq_Some_conv split_beta prod_eq_iff)
  from stack_account [OF i] have a: "discharged (fst st) = discharged r1 @ credited" "resolved (fst st) = resolved r1"
    "rejections (fst st) = rejections r1" by (simp_all add: same_account_def)
  from f have b: "discharged r = discharged (fst st)" "resolved r = resolved (fst st)" "rejections r = rejections (fst st)"
    "last_refusals s' = map (notice_of U) (rejections r)"
    by (auto simp: finish_cycle_def split_beta)
  from a b have q: "refusals_of k r = refusals_of k r1" for k by (simp add: refusals_of_def)
  from markers_account [OF m] a b(1,2,4) q show ?thesis
    by (intro conjI exI [of _ "discharged r1"] exI [of _ credited]) simp_all
qed

subsection \<open>A concrete cycle, for the witnesses\<close>

definition demo_payloads :: payload_lib where
  "demo_payloads =
     \<lparr>de_thread = (\<lambda>_. None),
      de_work = (\<lambda>_. Some \<lparr>work_id = ''t-1'', work_claim = \<lparr>claim_file = None, claim_prediction = None, claim_tool = Some ''sh''\<rparr>\<rparr>),
      de_resolve = (\<lambda>_. None)\<rparr>"

definition demo_evidence :: "u32 \<Rightarrow> work_evidence" where
  "demo_evidence n =
     \<lparr>modified = (\<lambda>_. None), resolved_ids = [], tool_rounds = n, rounds_observable = True, cycle_started = 3\<rparr>"

abbreviation demo_cycle :: "u32 \<Rightarrow> int ingest_state option" where
  "demo_cycle n \<equiv>
     apply_cycle int_f64 plain_chars demo_payloads (\<lambda>_. []) demo_tension
       \<lparr>marker_draws = (\<lambda>_. []), error_draws = (\<lambda>_. [])\<rparr> ''[THREAD-WORK:{}]'' (demo_evidence n) None [] 5 demo_store"

lemma demo_claims:
  "parse_work_claims plain_chars demo_payloads ''[THREAD-WORK:{}]'' =
     [(''t-1'', \<lparr>claim_file = None, claim_prediction = None, claim_tool = Some ''sh''\<rparr>)]"
  by code_simp

lemma demo_cycle_works: "map_option (\<lambda>st. discharged (fst st)) (demo_cycle 1) = Some [(''t-1'', 0)]"
  by code_simp

lemma demo_cycle_refuses: "map_option (\<lambda>st. map rej_thread (rejections (fst st))) (demo_cycle 0) = Some [''t-1'']"
  by code_simp

theorem cycle_discharges_on_evidence_witness:
  "\<exists>r s' ops. demo_cycle 1 = Some (r, s') \<and> discharged r = [(''t-1'', 0)] \<and>
     list_all (op_true (demo_evidence 1)) ops \<and> s' = tension_run int_f64 plain_chars demo_tension ops demo_store"
proof -
  from demo_cycle_works obtain r s' where s: "demo_cycle 1 = Some (r, s')" "discharged r = [(''t-1'', 0)]" by auto
  have "resolved_ids (demo_evidence 1) = []" by (simp add: demo_evidence_def)
  with cycle_discharges_on_evidence [of int_f64 plain_chars demo_payloads "\<lambda>_. []" demo_tension _ _ "demo_evidence 1"] s
  show ?thesis by metis
qed

theorem words_alone_discharge_nothing_witness:
  "\<exists>r s' t'. demo_cycle 0 = Some (r, s') \<and> find_thread s' ''t-1'' = Some t' \<and> 1 \<le> th_tension t'"
proof -
  from demo_cycle_refuses obtain r s' where s: "demo_cycle 0 = Some (r, s')" by auto
  have e: "idle (demo_evidence 0)" "resolved_ids (demo_evidence 0) = []" by (simp_all add: idle_def demo_evidence_def)
  from demo_store_find obtain t where t: "find_thread demo_store ''t-1'' = Some t" "th_tension t = 1" by blast
  from words_alone_discharge_nothing [OF int_f64_ok demo_threads_ok e(1) _ t(1)] s e(2) t(2) show ?thesis
    by (fastforce simp: int_f64_def)
qed

theorem refused_claims_are_told_witness:
  "\<exists>r s'. demo_cycle 0 = Some (r, s') \<and> map refused_thread (last_refusals s') = [''t-1''] \<and>
     mset (resolved r) + mset (refusals_of ''THREAD-RESOLVE'' r) =
       mset (map pres_id (parse_resolutions plain_chars demo_payloads ''[THREAD-WORK:{}]''))"
proof -
  from demo_cycle_refuses obtain r s' where s: "demo_cycle 0 = Some (r, s')" "map rej_thread (rejections r) = [''t-1'']" by auto
  from refused_claims_are_told [OF s(1)] s show ?thesis by (auto simp: comp_def notice_of_def)
qed

end
