(* ===== verification/TensionCycle.thy ===== *)
theory TensionCycle
  imports IngestSafety
begin

text \<open>
  The tension store on disk, \<open>src/tension/store.rs\<close>, the two ends of a cognitive cycle,
  \<open>src/scheduler/tension_cycle.rs\<close>, and the salience gate of \<open>src/scheduler/evaluator.rs\<close>. JSON, the
  outcome of file operations and number formats are parameters; the metrics that \<open>open_cycle\<close> logs
  are not modelled.
\<close>

subsection \<open>The file\<close>

record 'f tension_codec =
  ser_tension :: "'f tension_store \<Rightarrow> bytes"
  de_tension :: "bytes \<Rightarrow> 'f tension_store option"

record tension_io =
  lock_failure :: "bytes option"
  read_failure :: "bytes option"
  quarantine_fails :: bool
  write_failure :: "bytes option"
  corrupt_notice :: bytes
  write_stamp :: int

text \<open>\<open>tension.json\<close>, when there is one, with its modification time, and the corrupt files put aside.\<close>

record tension_disk =
  tension_file :: "(bytes \<times> int) option"
  quarantined :: "bytes list"

definition load_tension :: "'f tension_codec \<Rightarrow> tension_io \<Rightarrow> tension_disk \<Rightarrow> 'f tension_store" where
  "load_tension K io d =
     (case tension_file d of
        None \<Rightarrow> store_empty
      | Some (t, m) \<Rightarrow>
          if read_failure io \<noteq> None \<or> \<not> valid_utf8 t then store_empty
          else (case de_tension K t of None \<Rightarrow> store_empty | Some s \<Rightarrow> s))"

definition load_tension_strict :: "'f tension_codec \<Rightarrow> tension_io \<Rightarrow> tension_disk \<Rightarrow> (bytes + 'f tension_store) \<times> tension_disk" where
  "load_tension_strict K io d =
     (case tension_file d of
        None \<Rightarrow> (Inr store_empty, d)
      | Some (t, m) \<Rightarrow>
          (case read_failure io of
             Some e \<Rightarrow> (Inl e, d)
           | None \<Rightarrow>
               if \<not> valid_utf8 t then (Inl (corrupt_notice io), d)
               else (case de_tension K t of
                  Some s \<Rightarrow> (Inr s, d)
                | None \<Rightarrow>
                    (Inl (corrupt_notice io),
                     if quarantine_fails io then d
                     else d\<lparr>tension_file := None, quarantined := quarantined d @ [t]\<rparr>))))"

text \<open>The change is an option for the loop of \<open>mint_id\<close>: \<open>None\<close> when it did not end.\<close>

definition tension_delta ::
  "'f tension_codec \<Rightarrow> tension_io \<Rightarrow> ('f tension_store \<Rightarrow> ('a \<times> 'f tension_store) option) \<Rightarrow> tension_disk \<Rightarrow>
     ((bytes + 'a) \<times> tension_disk) option" where
  "tension_delta K io apply d =
     (case lock_failure io of
        Some e \<Rightarrow> Some (Inl e, d)
      | None \<Rightarrow>
          (case load_tension_strict K io d of
             (Inl e, d1) \<Rightarrow> Some (Inl e, d1)
           | (Inr s, d1) \<Rightarrow>
               map_option
                 (\<lambda>(out, s').
                    case write_failure io of
                      Some e \<Rightarrow> (Inl e, d1)
                    | None \<Rightarrow> (Inr out, d1\<lparr>tension_file := Some (ser_tension K s', write_stamp io)\<rparr>))
                 (apply s)))"

subsection \<open>Alerts of a cycle\<close>

definition MAX_ALERT_SKIP_ENTRIES :: nat where "MAX_ALERT_SKIP_ENTRIES = 10"

text \<open>The loop over the lines: it stops at the first that would pass the limit, and counts the others.\<close>

fun push_lines :: "bytes list \<Rightarrow> bytes \<Rightarrow> nat \<Rightarrow> bytes \<times> nat" where
  "push_lines [] content shown = (content, shown)"
| "push_lines (l # ls) content shown =
     (if MAX_ALERT_CONTENT_LEN < length content + length l then (content, shown)
      else push_lines ls (content @ l) (shown + 1))"

definition alert_named :: "bytes \<Rightarrow> int \<Rightarrow> bytes \<Rightarrow> bytes \<Rightarrow> alert" where
  "alert_named uuid now nm content =
     \<lparr>alert_id = ''alert-'' @ slug_for_alert_id nm @ ''-'' @ take 8 uuid, source_task = nm,
      alert_content = content, alert_at = now, target_channel = None\<rparr>"

definition refusal_line :: "(bytes \<Rightarrow> bool) \<Rightarrow> ingest_rejection \<Rightarrow> bytes" where
  "refusal_line control x =
     [newline] @ ''- ['' @ rej_marker x @ ''] '' @ sanitize_alert_text control (rej_thread x) 64 @ '': '' @
       sanitize_alert_text control (rej_reason x) 300"

text \<open>The ellipsis in UTF-8.\<close>

definition ellipsis :: bytes where
  "ellipsis = [CHR 0xE2, CHR 0x80, CHR 0xA6]"

definition alert_from_tension_rejections ::
  "(bytes \<Rightarrow> bool) \<Rightarrow> bytes \<Rightarrow> int \<Rightarrow> bytes \<Rightarrow> ingest_rejection list \<Rightarrow> alert" where
  "alert_from_tension_rejections control uuid now source rs =
     (let nm = sanitize_alert_text control source 80;
          head = decimal (length rs) @ '' tension marker(s) refused during '' @ quoted nm @ '' '' @ dash @
            '' the threads were NOT discharged:'';
          (content, shown) = push_lines (map (refusal_line control) (take MAX_ALERT_SKIP_ENTRIES rs)) head 0;
          more = (if shown < length rs then [newline] @ ellipsis @ ''and '' @ decimal (length rs - shown) @ '' more'' else []);
          capability = length (filter (\<lambda>x. rej_side x = ChannelCapability) rs);
          note = (if 0 < capability
             then [newline, newline] @ decimal capability @
               '' of these are runtime limits rather than failed claims: the rung named cannot be verified under this configuration, whatever was done.''
             else [])
      in alert_named uuid now nm (content @ more @ note))"

text \<open>The formats \<open>{:.2}\<close> and \<open>{:.0}\<close> of a float, and RFC 3339 of an instant.\<close>

record 'f number_text =
  two_places :: "'f \<Rightarrow> bytes"
  no_places :: "'f \<Rightarrow> bytes"
  stamp_text :: "int \<Rightarrow> bytes"

definition triage_line :: "(bytes \<Rightarrow> bool) \<Rightarrow> 'f number_text \<Rightarrow> 'f triage_candidate \<Rightarrow> bytes" where
  "triage_line control N x =
     [newline] @ ''- '' @ sanitize_alert_text control (pick_id x) 64 @ '' (tension '' @ two_places N (pick_tension x) @
       '', '' @ no_places N (pick_age x) @ ''h old): '' @ sanitize_alert_text control (pick_label x) 120"

definition alert_from_tension_triage ::
  "(bytes \<Rightarrow> bool) \<Rightarrow> 'f number_text \<Rightarrow> bytes \<Rightarrow> int \<Rightarrow> bytes \<Rightarrow> 'f triage_demand \<Rightarrow> alert" where
  "alert_from_tension_triage control N uuid now source td =
     (let nm = sanitize_alert_text control source 80;
          head = ''Tension store over cap after '' @ quoted nm @ '': '' @ decimal (demand_live td) @
            '' live threads against a cap of '' @ decimal (demand_cap td) @ ''. Nothing was dropped '' @ dash @
            '' resolve or abandon one. Lowest-pressure candidates:'';
          (content, shown) = push_lines (map (triage_line control N) (take MAX_ALERT_SKIP_ENTRIES (demand_picks td))) head 0
      in alert_named uuid now nm (content @ [newline] @ ''(raised '' @ stamp_text N (demand_raised td) @ '')''))"

subsection \<open>The ends of a cycle\<close>

definition open_cycle ::
  "'f f64_lib \<Rightarrow> 'f tension_codec \<Rightarrow> 'f tension_config \<Rightarrow> tension_io \<Rightarrow> int \<Rightarrow> tension_disk \<Rightarrow> cycle_report option \<times> tension_disk" where
  "open_cycle F K c io now d =
     (if \<not> tension_enabled c then (None, d)
      else
        (case tension_delta K io (\<lambda>s. Some (record_cycle F now s)) d of
           Some (Inr x, d') \<Rightarrow> (Some x, d')
         | Some (Inl e, d') \<Rightarrow> (None, d')
         | None \<Rightarrow> (None, d)))"

record cycle_outcome =
  cycle_label :: bytes
  raw_output :: bytes
  outcome_resolved :: "bytes list"
  outcome_rounds :: u32
  outcome_started :: int

text \<open>
  What \<open>metadata\<close> tells once the store's lock is held: of \<open>tension.json\<close> what this model says, of every
  other path what it is given.
\<close>

definition evidence_of ::
  "(bytes list \<Rightarrow> int option) \<Rightarrow> bool \<Rightarrow> bytes list \<Rightarrow> cycle_outcome \<Rightarrow> tension_disk \<Rightarrow> work_evidence" where
  "evidence_of elsewhere observable ids x d =
     \<lparr>modified = (\<lambda>parts. if parts = [''tension.json''] then map_option snd (tension_file d) else elsewhere parts),
      resolved_ids = ids, tool_rounds = outcome_rounds x, rounds_observable = observable,
      cycle_started = outcome_started x\<rparr>"

text \<open>The random and formatting parts of a cycle's end.\<close>

record 'f cycle_env =
  env_draws :: cycle_draws
  env_numbers :: "'f number_text"
  env_control :: "bytes \<Rightarrow> bool"
  env_uuid :: "nat \<Rightarrow> bytes"
  env_now :: int

definition surface :: "'f cycle_env \<Rightarrow> bytes \<Rightarrow> 'f ingest_report \<Rightarrow> alert list" where
  "surface V nm r =
     (if rejections r = [] then []
      else [alert_from_tension_rejections (env_control V) (env_uuid V 0) (env_now V) nm (rejections r)]) @
     (case report_triage r of
        None \<Rightarrow> []
      | Some td \<Rightarrow> [alert_from_tension_triage (env_control V) (env_numbers V) (env_uuid V 1) (env_now V) nm td])"

text \<open>The alerts it pushes, in their order, and the disk.\<close>

definition close_cycle ::
  "'f f64_lib \<Rightarrow> unicode \<Rightarrow> payload_lib \<Rightarrow> 'f tension_codec \<Rightarrow> 'f tension_config \<Rightarrow> tension_io \<Rightarrow> 'f cycle_env \<Rightarrow>
     (bytes list \<Rightarrow> int option) \<Rightarrow> bool \<Rightarrow> 'f prediction_stack option \<Rightarrow> cycle_outcome \<Rightarrow> tension_disk \<Rightarrow>
     (alert list \<times> tension_disk) option" where
  "close_cycle F U L K c io V elsewhere observable stk x d =
     (if \<not> tension_enabled c then Some ([], d)
      else
        (let ids = evidential_resolutions (outcome_resolved x) stk;
             W = evidence_of elsewhere observable ids x d
         in map_option
              (\<lambda>(res, d').
                 (case res of
                    Inr r \<Rightarrow> surface V (cycle_label x) r
                  | Inl e \<Rightarrow> [alert_from_store_failure (env_control V) (env_uuid V 0) (env_now V) (cycle_label x) e], d'))
              (tension_delta K io
                 (apply_cycle F U L (two_places (env_numbers V)) c (env_draws V) (raw_output x) W stk ids (env_now V)) d)))"

subsection \<open>The salience gate\<close>

datatype eval_decision = EvalFire | EvalSuppress

datatype salience_reason =
  TensionAboveThreshold | VigilDeclining | FloorInterval | NoCycleRecorded | Suppressed

record 'f salience_decision =
  salience_verdict :: eval_decision
  salience_reason_of :: salience_reason
  salience_max :: 'f
  salience_threshold :: 'f
  salience_hours :: "'f option"
  salience_floor :: u64
  salience_vigil :: bool
  salience_live :: nat

definition evaluate_salience ::
  "'f f64_lib \<Rightarrow> 'f tension_config \<Rightarrow> 'f tension_store \<Rightarrow> bool \<Rightarrow> int \<Rightarrow> 'f salience_decision" where
  "evaluate_salience F c s vigil now =
     (let top = max_tension F s; hours = hours_since_last_cycle F s now;
          why = (if f_less F (cycle_threshold c) top then TensionAboveThreshold
                 else if vigil then VigilDeclining
                 else (case hours of
                     None \<Rightarrow> NoCycleRecorded
                   | Some h \<Rightarrow> if f_less F (of_i64 F (uint (floor_interval_hours c))) h then FloorInterval else Suppressed))
      in \<lparr>salience_verdict = (if why = Suppressed then EvalSuppress else EvalFire), salience_reason_of = why,
          salience_max = top, salience_threshold = cycle_threshold c, salience_hours = hours,
          salience_floor = floor_interval_hours c, salience_vigil = vigil, salience_live = live_count s\<rparr>)"

text \<open>
  \<open>analysis.json\<close> of vigil, if it can be read. \<open>as_u64\<close> of a number is one whose text has neither a
  fraction, an exponent nor a sign.
\<close>

definition vigil_signal_declining :: "json_lib \<Rightarrow> bytes option \<Rightarrow> bool" where
  "vigil_signal_declining J f =
     (case Option.bind f (parse J) of
        Some (JObj kvs) \<Rightarrow>
          (case map_of kvs ''declining_count'' of
             Some (JNum n) \<Rightarrow> \<not> is_float n \<and> CHR ''-'' \<notin> set n \<and> n \<noteq> ''0''
           | _ \<Rightarrow> False)
      | _ \<Rightarrow> False)"

definition salience_decide ::
  "'f f64_lib \<Rightarrow> 'f tension_codec \<Rightarrow> 'f tension_config \<Rightarrow> tension_io \<Rightarrow> bool \<Rightarrow> int \<Rightarrow> tension_disk \<Rightarrow> 'f salience_decision" where
  "salience_decide F K c io vigil now d = evaluate_salience F c (load_tension K io d) vigil now"

text \<open>Whether a task with this evaluator is gated at all.\<close>

definition gated_by_salience :: "bytes \<Rightarrow> 'f tension_config \<Rightarrow> bool" where
  "gated_by_salience nm c \<longleftrightarrow> nm = ''salience'' \<and> tension_enabled c"

end
