(* ===== verification/TaskLoop.thy ===== *)
theory TaskLoop
  imports Liveness Schedule Alerts Events ProviderStatus TensionCycle
begin

text \<open>
  One scheduled task, \<open>src/scheduler/runner.rs\<close> and \<open>diagnostics.rs\<close>: the checks before a fire, the
  fire itself (the model it runs on, the call of the provider, the markers of the response), the
  report of a failure, the outcome it records, and the lease it runs under. The result of the
  tool loop, what its tools write to the files of the host, what opening the cognitive cycle does to
  its file, the salience gate's decision, and what disk, clock and webhooks do are arguments. The two ends of a
  cognitive cycle are in \<open>TensionCycle\<close>; of the end, which comes after the markers are routed, only that
  theory speaks. Farms are in \<open>Farm\<close>; the interaction record, monitors and graph are not followed.
\<close>

subsection \<open>The state\<close>

record task_config =
  tc_json :: json_lib
  tc_chars :: unicode
  tc_cron :: cron_lib
  tc_sched :: schedule_codec
  tc_queue :: queue_codec
  tc_health :: health_codec
  tc_alerts :: alert_codec
  tc_wal :: wal_codec
  tc_max_time :: int
  tc_live :: liveness_config
  tc_autonomy :: "autonomy_config option"
  tc_model :: bytes
  tc_builds :: "bytes \<Rightarrow> bytes + unit"
  tc_report_errors :: bool
  tc_diagnostics_webhook :: "bytes option"
  tc_share_webhook :: "bytes option"
  tc_call_endpoint :: "bytes option"
  tc_strips :: "bytes \<Rightarrow> bytes"

text \<open>
  What the loops of a pulse share: the lease table, the schedule's file and shared copy, the intent
  queue's file and shared copy, the alert queue, the liveness store, the provider's status, the
  evaluator's records, the tension store's file, what was posted to which webhook, the calls requested of the call endpoint
  (what is to be said and the context), the provider errors
  emitted (text, kind, task), and the payloads handed to the
  event bus (\<open>emit_salience_markers\<close>) and to the farm (\<open>run_farm_from_marker\<close>).
\<close>

record task_host =
  leases_of :: durable
  sched_file :: "bytes option"
  shared :: schedule
  queue_of :: "queue_file \<times> intent_queue"
  alerts_of :: alert_queue
  live_of :: live_state
  status_of :: provider_status
  evals :: scheduler_state
  tension_of :: tension_disk
  posts :: "(bytes \<times> bytes) list"
  calls_made :: "(bytes \<times> bytes \<times> bytes) list"
  told_errors :: "(bytes \<times> bytes \<times> bytes) list"
  raised :: "(bytes \<times> bytes) list"
  farmed :: "(bytes \<times> bytes) list"

subsection \<open>The gate\<close>

datatype fire_gate = Fire | Skip | StopLoop

text \<open>What the environment decides of one pass of the gate; \<open>evals_read\<close> is what the evaluator's file
  holds, \<open>eval_fires\<close> what the evaluator that the task names decides, if there is one.\<close>

record gate_chance =
  g_sched_io :: schedule_io
  evals_read :: scheduler_state
  eval_fires :: "bool option"
  g_faults :: marker_faults
  g_marker :: "bytes option"
  lead_clock :: int
  claim_clock :: int
  g_claim_io :: append_io

definition TASK_LEASE_TTL :: nat where "TASK_LEASE_TTL = secs (30 * 60)"

definition task_resource :: "bytes \<Rightarrow> bytes" where
  "task_resource i = ''task-'' @ lease_safe i"

definition task_enabled_on_disk :: "task_config \<Rightarrow> schedule_io \<Rightarrow> bytes \<Rightarrow> task_host \<Rightarrow> bool option \<times> task_host" where
  "task_enabled_on_disk T io i h =
     (case load_schedule (tc_sched T) io (sched_file h) of
        Inr fresh \<Rightarrow> (map_option (\<lambda>e. enabled (task e)) (find_task fresh i), h\<lparr>shared := fresh\<rparr>)
      | Inl _ \<Rightarrow> (map_option (\<lambda>e. enabled (task e)) (find_task (shared h) i), h))"

definition still_enabled :: "bool option \<Rightarrow> bool" where
  "still_enabled e \<longleftrightarrow> e = Some True"

text \<open>\<open>evaluator_decision\<close>: a task whose evaluator does not resolve fires.\<close>

definition evaluator_suppresses :: "scheduled_task \<Rightarrow> gate_chance \<Rightarrow> task_host \<Rightarrow> bool \<times> task_host" where
  "evaluator_suppresses t ch h =
     (case evaluator t of
        None \<Rightarrow> (False, h)
      | Some ty \<Rightarrow>
          (let h1 = h\<lparr>evals := evals_read ch\<rparr>
           in if (case eval_fires ch of Some f \<Rightarrow> f | None \<Rightarrow> True) then (False, h1)
              else (True, h1\<lparr>evals := record_suppression (task_id t) (evals h1)\<rparr>)))"

definition claim_lease :: "task_config \<Rightarrow> gate_chance \<Rightarrow> bytes \<Rightarrow> bytes \<Rightarrow> task_host \<Rightarrow> bool \<times> task_host" where
  "claim_lease T ch i holder h =
     (case durable_acquire (tc_wal T) (tc_max_time T) (g_claim_io ch) (leases_of h) (task_resource i) holder
             TASK_LEASE_TTL (claim_clock ch) of
        (r, d) \<Rightarrow> (is_ok r, h\<lparr>leases_of := d\<rparr>))"

definition gate :: "task_config \<Rightarrow> gate_chance \<Rightarrow> scheduled_task \<Rightarrow> bytes \<Rightarrow> task_host \<Rightarrow> fire_gate \<times> task_host" where
  "gate T ch t holder h =
     (let (en, h1) = task_enabled_on_disk T (g_sched_io ch) (task_id t) h
      in if \<not> still_enabled en then (StopLoop, h1)
         else
           let (suppressed, h2) = evaluator_suppresses t ch h1
           in if suppressed then (Skip, h2)
              else if is_active (g_faults ch) (g_marker ch) then (StopLoop, h2)
              else if \<not> tenure_still_leads (tc_max_time T) (leases_of h2) holder (lead_clock ch) then (StopLoop, h2)
              else (case claim_lease T ch (task_id t) holder h2 of
                  (True, h3) \<Rightarrow> (Fire, h3)
                | (False, h3) \<Rightarrow> (Skip, h3)))"

subsection \<open>The markers of a response\<close>

text \<open>One minted object per marker: its uuid, instant and disk; \<open>m_saves\<close> is for the alert's file.\<close>

record marker_chance =
  m_mint :: mint
  m_sched_io :: schedule_io
  m_saves :: bool

definition route_schedule :: "task_config \<Rightarrow> marker_chance \<Rightarrow> bytes \<Rightarrow> task_host \<Rightarrow> task_host" where
  "route_schedule T mc req h =
     (case create_task_from_marker (tc_json T) (tc_chars T) (tc_cron T) req of
        Inl _ \<Rightarrow> h
      | Inr new \<Rightarrow>
          (case schedule_delta (tc_sched T) (m_sched_io mc) (add_task (entry_of_task new)) (sched_file h) of
             (Inr merged, f) \<Rightarrow> h\<lparr>sched_file := f, shared := merged\<rparr>
           | (Inl _, f) \<Rightarrow> h\<lparr>sched_file := f\<rparr>))"

definition route_share :: "task_config \<Rightarrow> marker_chance \<Rightarrow> bytes \<Rightarrow> bytes \<Rightarrow> task_host \<Rightarrow> task_host" where
  "route_share T mc name content h =
     (let a = alert_from_share (mint_uuid (m_mint mc)) (mint_now (m_mint mc)) name content;
         h1 = h\<lparr>alerts_of := push_alert (tc_alerts T) (m_saves mc) a (alerts_of h)\<rparr>
      in case tc_share_webhook T of
           None \<Rightarrow> h1
         | Some url \<Rightarrow>
             if url = [] then h1
             else h1\<lparr>posts := posts h1 @ [(url, ''**'' @ name @ ''**'' @ [newline] @ content)]\<rparr>)"

definition route_call :: "task_config \<Rightarrow> bytes \<Rightarrow> bytes \<Rightarrow> task_host \<Rightarrow> task_host" where
  "route_call T name content h =
     (case tc_call_endpoint T of
        None \<Rightarrow> h
      | Some url \<Rightarrow>
          if url = [] then h
          else h\<lparr>calls_made := calls_made h @
            [(url, content, ''Scheduled task '' @ [CHR 0x27] @ name @ [CHR 0x27] @ '' requested a call.'')]\<rparr>)"

definition route_intent :: "task_config \<Rightarrow> marker_chance \<Rightarrow> autonomy_config \<Rightarrow> bytes \<Rightarrow> bytes \<Rightarrow> task_host \<Rightarrow> task_host" where
  "route_intent T mc au i req h =
     (case create_intent_from_marker (tc_json T) (tc_chars T) (mint_uuid (m_mint mc)) (mint_now (m_mint mc)) req
             (ScheduledTask i) of
        Inl _ \<Rightarrow> h
      | Inr x \<Rightarrow> h\<lparr>queue_of := enqueue (tc_queue T) (mint_io (m_mint mc)) au x (queue_of h)\<rparr>)"

text \<open>The intent of a task's chain; \<open>tc_strips\<close> takes the prediction and thread markers out.\<close>

definition task_chain_intent :: "task_config \<Rightarrow> mint \<Rightarrow> bytes \<Rightarrow> intent_chain \<Rightarrow> bytes \<Rightarrow> intent" where
  "task_chain_intent T mt i ch clean =
     \<lparr>intent_id = ''chain-'' @ i @ ''-'' @ take 8 (mint_uuid mt),
      description = chain_description ch, prompt = replace_all ''{result}'' (tc_strips T clean) (chain_prompt ch),
      origin = ScheduledTask i, priority = Normal, created_at = mint_now mt, follow_up = None,
      output_routing = chain_output ch, depth = 0\<rparr>"

definition route_chain :: "task_config \<Rightarrow> marker_chance \<Rightarrow> autonomy_config \<Rightarrow> bytes \<Rightarrow> bytes \<Rightarrow> bytes \<Rightarrow> task_host \<Rightarrow> task_host" where
  "route_chain T mc au i clean req h =
     (case create_chain_from_marker (tc_json T) req of
        Inl _ \<Rightarrow> h
      | Inr ch \<Rightarrow>
          h\<lparr>queue_of := enqueue (tc_queue T) (mint_io (m_mint mc)) au (task_chain_intent T (m_mint mc) i ch clean)
                          (queue_of h)\<rparr>)"

text \<open>
  The order of the code: schedules, salience, shares, calls, intents and the first chain when the
  pulse is autonomous, the first farm. \<open>mcs\<close> gives the \<open>n\<close>th marker of each kind its chances.
\<close>

definition each_marker :: "(nat \<Rightarrow> marker_chance) \<Rightarrow> (marker_chance \<Rightarrow> bytes \<Rightarrow> task_host \<Rightarrow> task_host) \<Rightarrow> bytes list \<Rightarrow> task_host \<Rightarrow> task_host" where
  "each_marker mcs f xs h = fold (\<lambda>(n, x). f (mcs n) x) (zip [0..<length xs] xs) h"

definition route_queue ::
  "task_config \<Rightarrow> (bytes \<Rightarrow> nat \<Rightarrow> marker_chance) \<Rightarrow> bytes \<Rightarrow> parsed_output \<Rightarrow> task_host \<Rightarrow> task_host" where
  "route_queue T mcs i p h =
     (case tc_autonomy T of
        None \<Rightarrow> h
      | Some au \<Rightarrow>
          (let h1 = each_marker (mcs ''INTENT'') (\<lambda>mc. route_intent T mc au i) (parsed_intents p) h
           in case parsed_chains p of
                [] \<Rightarrow> h1
              | req # _ \<Rightarrow> route_chain T (mcs ''CHAIN'' 0) au i (clean_content p) req h1))"

definition route_output_markers ::
  "task_config \<Rightarrow> (bytes \<Rightarrow> nat \<Rightarrow> marker_chance) \<Rightarrow> scheduled_task \<Rightarrow> parsed_output \<Rightarrow> task_host \<Rightarrow> task_host" where
  "route_output_markers T mcs t p h =
     (let h1 = each_marker (mcs ''SCHEDULE'') (route_schedule T) (schedule_requests p) h;
          h2 = h1\<lparr>raised := raised h1 @ map (Pair (task_id t)) (salience_requests p)\<rparr>;
          h3 = each_marker (mcs ''SHARE'') (\<lambda>mc. route_share T mc (sched_name t)) (share_content p) h2;
          h4 = fold (route_call T (sched_name t)) (call_content p) h3;
          h5 = route_queue T mcs (task_id t) p h4
      in case farm_requests p of
           [] \<Rightarrow> h5
         | req # _ \<Rightarrow> h5\<lparr>farmed := farmed h5 @ [(task_id t, req)]\<rparr>)"

subsection \<open>Diagnostics\<close>

datatype destination = Dedicated bytes | SharedChannel bytes | LogOnly

definition non_empty_url :: "unicode \<Rightarrow> bytes option \<Rightarrow> bytes option" where
  "non_empty_url U v = Option.bind v (\<lambda>u. let t = trim U u in if t = [] then None else Some t)"

definition diagnostic_destination :: "task_config \<Rightarrow> destination" where
  "diagnostic_destination T =
     (case non_empty_url (tc_chars T) (tc_diagnostics_webhook T) of
        Some url \<Rightarrow> Dedicated url
      | None \<Rightarrow>
          (case non_empty_url (tc_chars T) (tc_share_webhook T) of
             Some url \<Rightarrow> SharedChannel url
           | None \<Rightarrow> LogOnly))"

definition MAX_WEBHOOK_ERROR_LEN :: nat where "MAX_WEBHOOK_ERROR_LEN = 1500"

definition truncated_error :: "bytes \<Rightarrow> bytes" where
  "truncated_error e =
     (let kept = safe_truncate e MAX_WEBHOOK_ERROR_LEN
      in if length kept = length e then kept
         else kept @ [CHR 0xE2, CHR 0x80, CHR 0xA6] @ '' (truncated; full text in the journal)'')"

definition render_diagnostic :: "bytes \<Rightarrow> bytes \<Rightarrow> bytes \<Rightarrow> bytes \<Rightarrow> bytes \<Rightarrow> u32 \<Rightarrow> bytes" where
  "render_diagnostic i name kind e on_model prior =
     ''[task-error] '' @ (if name = [] then i else name) @ '' ('' @ i @ '') '' @ dash @ '' failure #'' @
     decimal (unat (prior + 1)) @ '', '' @
     (if prior = 0 then ''first of a new streak'' else ''new error text for this streak'') @
     ''; kind='' @ kind @ ''; model='' @ on_model @ [newline] @ truncated_error e"

definition report_failure :: "task_config \<Rightarrow> schedule_entry \<Rightarrow> bytes \<Rightarrow> task_host \<Rightarrow> task_host" where
  "report_failure T e err h =
     (if \<not> tc_report_errors T then h
      else
        let t = task e; s = store (live_of h)
        in if \<not> failure_is_news s (task_id t) err then h
           else
             let text = render_diagnostic (task_id t) (sched_name t)
                   (error_kind_text (classify_error (tc_chars T) err)) err
                   (effective_model (tc_chars T) (tc_model T) e) (streak_of s (task_id t))
             in case diagnostic_destination T of
                  Dedicated url \<Rightarrow> h\<lparr>posts := posts h @ [(url, text)]\<rparr>
                | SharedChannel url \<Rightarrow> h\<lparr>posts := posts h @ [(url, text)]\<rparr>
                | LogOnly \<Rightarrow> h)"

subsection \<open>A fire\<close>

text \<open>What the tools of a call may do to the files that the host keeps; its memory they do not reach.\<close>

record tool_writes =
  w_sched :: "bytes option \<Rightarrow> bytes option"
  w_queue :: "queue_file \<Rightarrow> queue_file"
  w_alerts :: "bytes option \<Rightarrow> bytes option"
  w_health :: "health_disk \<Rightarrow> health_disk"
  w_tension :: "tension_disk \<Rightarrow> tension_disk"

definition tools_wrote :: "tool_writes \<Rightarrow> task_host \<Rightarrow> task_host" where
  "tools_wrote W h =
     h\<lparr>sched_file := w_sched W (sched_file h), queue_of := apfst (w_queue W) (queue_of h),
       alerts_of := (alerts_of h)\<lparr>alert_file := w_alerts W (alert_file (alerts_of h))\<rparr>,
       live_of := (live_of h)\<lparr>disk := w_health W (disk (live_of h))\<rparr>,
       tension_of := w_tension W (tension_of h)\<rparr>"

text \<open>
  What the environment decides of one fire: whether the prompt can be built, what opening the cycle
  does to the tension store's file (\<open>open_cycle\<close>), what the call of the provider (through the tool
  loop when the pulse is autonomous) gives, which is the response and its tool rounds or an error,
  and what its tools wrote, and the instants, documents and disks of what follows.
\<close>

record run_chance =
  prompt_error :: "bytes option"
  cycle_opened :: "tension_disk \<Rightarrow> tension_disk"
  call_writes :: tool_writes
  provider_result :: "turn_error + bytes \<times> u32"
  provider_clock :: int
  fire_clock :: int
  doc_times :: "bytes \<Rightarrow> int option"
  markers_of :: "bytes \<Rightarrow> nat \<Rightarrow> marker_chance"
  outcome_clock :: int
  outcome_saves :: save_end
  outcome_delivery :: delivery
  release_clock :: int
  release_io :: append_io

text \<open>The override the fire uses is that of the shared schedule, which the gate has just refreshed.\<close>

definition current_override :: "schedule_entry \<Rightarrow> task_host \<Rightarrow> bytes option" where
  "current_override e h = (case find_task (shared h) (task_id (task e)) of None \<Rightarrow> model e | Some f \<Rightarrow> model f)"

definition resolve_provider_override :: "task_config \<Rightarrow> bytes option \<Rightarrow> bytes + bytes option" where
  "resolve_provider_override T m =
     (case non_empty_url (tc_chars T) m of
        None \<Rightarrow> Inr None
      | Some name \<Rightarrow>
          (case tc_builds T name of
             Inr _ \<Rightarrow> Inr (Some name)
           | Inl e \<Rightarrow>
               Inl (''model override '' @ [CHR 0x27] @ name @ [CHR 0x27] @ '' could not be applied: '' @ e)))"

definition handle_provider_error :: "task_config \<Rightarrow> int \<Rightarrow> bytes \<Rightarrow> turn_error \<Rightarrow> task_host \<Rightarrow> task_host" where
  "handle_provider_error T now i e h =
     (let kind = classify_failure (tc_chars T) e; shown = error_kind_text kind
      in h\<lparr>status_of := ProviderStatus.record_failure now
             (''autonomous turn failed ('' @ shown @ '')'') kind (status_of h),
           told_errors := told_errors h @ [(error_text e, shown, i)]\<rparr>)"

definition note_evaluated_fire :: "scheduled_task \<Rightarrow> run_chance \<Rightarrow> u32 \<Rightarrow> task_host \<Rightarrow> task_host" where
  "note_evaluated_fire t rc n h =
     (if evaluator t = None then h
      else h\<lparr>evals := record_response_quality (task_id t) (0 < n)
             (state_record_fire (task_id t) (fire_clock rc) (doc_times rc) (evals h))\<rparr>)"

text \<open>
  The host when the provider's call is over, answered or not: the cycle was opened, and what the
  tool rounds of an autonomous pulse wrote is written, also when a later round ended in an error.
\<close>

definition provider_called :: "task_config \<Rightarrow> run_chance \<Rightarrow> task_host \<Rightarrow> task_host" where
  "provider_called T rc h =
     (let h1 = h\<lparr>tension_of := cycle_opened rc (tension_of h)\<rparr>
      in if tc_autonomy T = None then h1 else tools_wrote (call_writes rc) h1)"

text \<open>The outcome and the model that answered.\<close>

definition execute_task ::
  "task_config \<Rightarrow> run_chance \<Rightarrow> schedule_entry \<Rightarrow> task_host \<Rightarrow> (task_outcome \<times> bytes option) \<times> task_host" where
  "execute_task T rc e h =
     (case resolve_provider_override T (current_override e h) of
        Inl failure \<Rightarrow> ((Failure failure, None), h)
      | Inr overridden \<Rightarrow>
          (case prompt_error rc of
             Some err \<Rightarrow> ((Failure (''system prompt build failed: '' @ err), None), h)
           | None \<Rightarrow>
               (case provider_result rc of
                  Inl err \<Rightarrow> ((Failure (error_text err), None),
                     handle_provider_error T (provider_clock rc) (task_id (task e)) err (provider_called T rc h))
                | Inr (response, used_rounds) \<Rightarrow>
                    (let used = (case overridden of Some name \<Rightarrow> name | None \<Rightarrow> tc_model T);
                         h0 = provider_called T rc h;
                         h1 = h0\<lparr>status_of := ProviderStatus.record_success (provider_clock rc) (status_of h0)\<rparr>;
                         h2 = note_evaluated_fire (task e) rc used_rounds h1;
                         h3 = route_output_markers T (markers_of rc) (task e) (parse_output (tc_chars T) response) h2
                     in ((Success, Some used), h3)))))"

text \<open>A built-in handler answers for its task without a model.\<close>

definition execute_fire ::
  "task_config \<Rightarrow> run_chance \<Rightarrow> schedule_entry \<Rightarrow> task_host \<Rightarrow> (task_outcome \<times> bytes option) \<times> task_host" where
  "execute_fire T rc e h =
     (if task_id (task e) = ''trajectory-mining'' then ((Success, None), h) else execute_task T rc e h)"

definition release_task_lease :: "task_config \<Rightarrow> run_chance \<Rightarrow> bytes \<Rightarrow> bytes \<Rightarrow> task_host \<Rightarrow> task_host" where
  "release_task_lease T rc i holder h =
     h\<lparr>leases_of := snd (durable_release (tc_wal T) (release_io rc) (leases_of h) (task_resource i) holder
          (release_clock rc))\<rparr>"

definition run_fire ::
  "task_config \<Rightarrow> run_chance \<Rightarrow> schedule_entry \<Rightarrow> bytes \<Rightarrow> task_host \<Rightarrow> (task_outcome \<times> bytes option) \<times> task_host" where
  "run_fire T rc e holder h =
     (case execute_fire T rc e h of
        ((outcome, used), h1) \<Rightarrow>
          (let h2 = (case outcome of Failure err \<Rightarrow> report_failure T e err h1 | Success \<Rightarrow> h1);
               h3 = h2\<lparr>live_of := record_outcome (tc_health T) (tc_live T) (tc_share_webhook T) (outcome_clock rc)
                      (outcome_saves rc) (outcome_delivery rc) (task_id (task e)) (sched_name (task e)) outcome
                      (live_of h2)\<rparr>
           in ((outcome, used), release_task_lease T rc (task_id (task e)) holder h3)))"

text \<open>One tick of the loop: whether it goes on, and what ran.\<close>

definition task_tick ::
  "task_config \<Rightarrow> gate_chance \<Rightarrow> run_chance \<Rightarrow> schedule_entry \<Rightarrow> bytes \<Rightarrow> task_host \<Rightarrow>
     (bool \<times> (task_outcome \<times> bytes option) option) \<times> task_host" where
  "task_tick T ch rc e holder h =
     (case gate T ch (task e) holder h of
        (Fire, h1) \<Rightarrow> (case run_fire T rc e holder h1 of (r, h2) \<Rightarrow> ((True, Some r), h2))
      | (Skip, h1) \<Rightarrow> ((True, None), h1)
      | (StopLoop, h1) \<Rightarrow> ((False, None), h1))"

end
