(* ===== verification/TaskSafety.thy ===== *)
theory TaskSafety
  imports TaskLoop
begin

text \<open>
  When a scheduled task fires, what a fire leaves when it fails, which model it runs on, and what is
  said of a failure that repeats.
\<close>

subsection \<open>The gate\<close>

lemma enabled_frame:
  "task_enabled_on_disk T io i h = (en, h1) \<Longrightarrow> leases_of h1 = leases_of h \<and> evals h1 = evals h"
  by (auto simp: task_enabled_on_disk_def split: sum.splits)

lemma suppress_frame: "evaluator_suppresses t ch h = (b, h1) \<Longrightarrow> leases_of h1 = leases_of h"
  by (auto simp: evaluator_suppresses_def Let_def split: option.splits if_splits)

definition eval_lets :: "scheduled_task \<Rightarrow> gate_chance \<Rightarrow> bool" where
  "eval_lets t ch \<longleftrightarrow> evaluator t = None \<or> eval_fires ch \<noteq> Some False"

lemma suppresses_iff: "fst (evaluator_suppresses t ch h) \<longleftrightarrow> \<not> eval_lets t ch"
  by (auto simp: evaluator_suppresses_def eval_lets_def Let_def split: option.splits)

lemma gate_Fire:
  assumes "gate T ch t holder h = (Fire, h')"
  obtains l where "fst (task_enabled_on_disk T (g_sched_io ch) (task_id t) h) = Some True"
    and "eval_lets t ch" and "\<not> is_active (g_faults ch) (g_marker ch)"
    and "tenure_still_leads (tc_max_time T) (leases_of h) holder (lead_clock ch)"
    and "durable_acquire (tc_wal T) (tc_max_time T) (g_claim_io ch) (leases_of h) (task_resource (task_id t)) holder
           TASK_LEASE_TTL (claim_clock ch) = (Inr l, leases_of h')"
proof -
  obtain en h1 where e: "task_enabled_on_disk T (g_sched_io ch) (task_id t) h = (en, h1)" by force
  obtain s h2 where s: "evaluator_suppresses t ch h1 = (s, h2)" by force
  from e s have l: "leases_of h2 = leases_of h" using enabled_frame suppress_frame by metis
  obtain x d where d: "durable_acquire (tc_wal T) (tc_max_time T) (g_claim_io ch) (leases_of h2)
      (task_resource (task_id t)) holder TASK_LEASE_TTL (claim_clock ch) = (x, d)" by force
  from assms e s d have g: "still_enabled en" "\<not> s" "\<not> is_active (g_faults ch) (g_marker ch)"
      "tenure_still_leads (tc_max_time T) (leases_of h2) holder (lead_clock ch)" "is_ok x" "leases_of h' = d"
    by (auto simp: gate_def Let_def claim_lease_def split: if_splits bool.splits)
  moreover from g(5) obtain y where "x = Inr y" by (auto simp: is_ok_iff)
  moreover have "eval_lets t ch" using suppresses_iff [of t ch h1] s g(2) by simp
  ultimately show thesis using that [of y] e d l by (simp add: still_enabled_def)
qed

text \<open>
  C28: a task fires only when everything lets it: the schedule on the disk (the shared copy, when that
  cannot be read) has it enabled, its evaluator does not hold it back, there is no isolation
  marker, its own tenure holds an unexpired control plane, and it has been granted the task's
  lease, for half an hour and with a token above all earlier ones.
\<close>

theorem task_fires_only_when_cleared:
  assumes "gate T ch t holder h = (Fire, h')"
  shows "fst (task_enabled_on_disk T (g_sched_io ch) (task_id t) h) = Some True \<and>
    (evaluator t = None \<or> eval_fires ch \<noteq> Some False) \<and>
    \<not> is_active (g_faults ch) (g_marker ch) \<and>
    (\<exists>p. durable_get (leases_of h) CONTROL_PLANE_RESOURCE = Some p \<and> holder_id p = holder \<and>
         \<not> is_expired (tc_max_time T) p (lead_clock ch)) \<and>
    (\<exists>l. durable_get (leases_of h') (task_resource (task_id t)) = Some l \<and> holder_id l = holder \<and>
         granted_at l = claim_clock ch \<and> ttl l = TASK_LEASE_TTL \<and>
         (\<forall>w. watermarks (tbl (leases_of h)) (task_resource (task_id t)) = Some w \<longrightarrow> w < fencing_token l))"
proof -
  from assms obtain l where g: "fst (task_enabled_on_disk T (g_sched_io ch) (task_id t) h) = Some True"
    "eval_lets t ch" "\<not> is_active (g_faults ch) (g_marker ch)"
    "tenure_still_leads (tc_max_time T) (leases_of h) holder (lead_clock ch)"
    "durable_acquire (tc_wal T) (tc_max_time T) (g_claim_io ch) (leases_of h) (task_resource (task_id t)) holder
       TASK_LEASE_TTL (claim_clock ch) = (Inr l, leases_of h')" by (rule gate_Fire)
  note a = dl.acq_ok [OF g(5)]
  from g(4) have "\<exists>p. durable_get (leases_of h) CONTROL_PLANE_RESOURCE = Some p \<and> holder_id p = holder \<and>
      \<not> is_expired (tc_max_time T) p (lead_clock ch)"
    by (simp add: tenure_still_leads_def split: option.splits)
  with g(1-3) a show ?thesis by (auto simp: eval_lets_def durable_get_def table_get_def)
qed

lemma task_lease_expiry:
  assumes "ttl l = TASK_LEASE_TTL" and "granted_at l + int TASK_LEASE_TTL \<le> M"
  shows "is_expired M l now \<longleftrightarrow> granted_at l + int TASK_LEASE_TTL \<le> now"
  using assms by (simp add: is_expired_def expires_at_def from_std_def TASK_LEASE_TTL_def secs_def)

text \<open>
  C29: a task has one run at a time: once it has fired, and as long as its lease was not
  released, no loop of any tenure fires it, or a task that shares its lease, within the half hour.
\<close>

theorem one_run_at_a_time:
  assumes f: "gate T ch t holder h = (Fire, h1)"
    and kept: "durable_get (leases_of h2) (task_resource (task_id t)) =
                 durable_get (leases_of h1) (task_resource (task_id t))"
    and same: "task_resource (task_id t') = task_resource (task_id t)" "tc_max_time T' = tc_max_time T"
    and clock: "claim_clock ch' < claim_clock ch + int TASK_LEASE_TTL"
      "claim_clock ch + int TASK_LEASE_TTL \<le> tc_max_time T"
  shows "fst (gate T' ch' t' holder' h2) \<noteq> Fire"
proof
  assume "fst (gate T' ch' t' holder' h2) = Fire"
  then obtain h3 where "gate T' ch' t' holder' h2 = (Fire, h3)" by (metis prod.collapse)
  then obtain l' where a: "durable_acquire (tc_wal T') (tc_max_time T') (g_claim_io ch') (leases_of h2)
      (task_resource (task_id t')) holder' TASK_LEASE_TTL (claim_clock ch') = (Inr l', leases_of h3)"
    by (rule gate_Fire)
  from task_fires_only_when_cleared [OF f] obtain l where
    l: "durable_get (leases_of h1) (task_resource (task_id t)) = Some l" "granted_at l = claim_clock ch"
      "ttl l = TASK_LEASE_TTL" by blast
  have "\<not> is_expired (tc_max_time T) l (claim_clock ch')"
    using task_lease_expiry [OF l(3)] l(2) clock by simp
  with dl.acq_ok [OF a] l(1) kept same show False by (simp add: durable_get_def table_get_def)
qed

subsection \<open>A fire that fails\<close>

text \<open>The host a failed call leaves: as it was, if the provider was not called, or with what was written in the call.\<close>

definition failed_call :: "task_config \<Rightarrow> run_chance \<Rightarrow> task_host \<Rightarrow> task_host \<Rightarrow> bool" where
  "failed_call T rc h h0 \<longleftrightarrow>
     h0 = h \<or> prompt_error rc = None \<and> (\<exists>x. provider_result rc = Inl x) \<and> h0 = provider_called T rc h"

lemma failed_call_memory:
  "failed_call T rc h h0 \<Longrightarrow> shared h0 = shared h \<and> evals h0 = evals h \<and> raised h0 = raised h \<and> farmed h0 = farmed h \<and>
     calls_made h0 = calls_made h \<and> posts h0 = posts h \<and> leases_of h0 = leases_of h \<and> store (live_of h0) = store (live_of h)"
  by (auto simp: failed_call_def provider_called_def tools_wrote_def Let_def)

lemma provider_error_frame:
  "\<exists>st l. handle_provider_error T now i x h = h\<lparr>status_of := st, told_errors := l\<rparr>"
  unfolding handle_provider_error_def Let_def by blast

lemma execute_task_failure:
  assumes "execute_task T rc e h = ((Failure err, used), h1)"
  shows "used = None \<and> (\<exists>h0 st l. failed_call T rc h h0 \<and> h1 = h0\<lparr>status_of := st, told_errors := l\<rparr>)"
proof -
  have "used = None \<and> (h1 = h \<or> prompt_error rc = None \<and> (\<exists>x. provider_result rc = Inl x \<and>
      h1 = handle_provider_error T (provider_clock rc) (task_id (task e)) x (provider_called T rc h)))"
    using assms by (auto simp: execute_task_def Let_def split: sum.splits option.splits prod.splits)
  moreover have "failed_call T rc h h" "h = h\<lparr>status_of := status_of h, told_errors := told_errors h\<rparr>"
    by (simp_all add: failed_call_def)
  moreover have "failed_call T rc h (provider_called T rc h)" if "prompt_error rc = None" "provider_result rc = Inl x" for x
    using that by (auto simp: failed_call_def)
  ultimately show ?thesis using provider_error_frame by metis
qed

lemma report_failure_cases:
  "report_failure T e err h = h \<or> (\<exists>p. report_failure T e err h = h\<lparr>posts := posts h @ [p]\<rparr>)"
proof (cases "tc_report_errors T \<and> failure_is_news (store (live_of h)) (task_id (task e)) err")
  case True
  show ?thesis
  proof (cases "diagnostic_destination T")
    case LogOnly
    then show ?thesis by (simp add: report_failure_def Let_def)
  next
    case (Dedicated url)
    show ?thesis by (intro disjI2 exI) (simp add: report_failure_def Let_def True Dedicated)
  next
    case (SharedChannel url)
    show ?thesis by (intro disjI2 exI) (simp add: report_failure_def Let_def True SharedChannel)
  qed
qed (auto simp: report_failure_def)

lemma report_failure_frame:
  "\<exists>ps. report_failure T e err h = h\<lparr>posts := posts h @ ps\<rparr> \<and> length ps \<le> 1"
  using report_failure_cases [of T e err h]
proof
  assume "report_failure T e err h = h"
  then show ?thesis by (intro exI [where x = "[]"]) simp
next
  assume "\<exists>p. report_failure T e err h = h\<lparr>posts := posts h @ [p]\<rparr>"
  then obtain p where "report_failure T e err h = h\<lparr>posts := posts h @ [p]\<rparr>" by blast
  then show ?thesis by (intro exI [where x = "[p]"]) simp
qed

text \<open>A failure is known to the store: it is the task's last one, in a streak that goes on.\<close>

definition known_failure :: "bytes \<Rightarrow> bytes \<Rightarrow> task_health_file \<Rightarrow> bool" where
  "known_failure i err s \<longleftrightarrow>
     (\<exists>x. get s i = Some x \<and> Health.consecutive_failures x \<noteq> 0 \<and> Health.last_error x = Some (stored_error err))"

lemma delivered_known:
  "health_delivered a t x = Some y \<Longrightarrow>
     Health.consecutive_failures y = Health.consecutive_failures x \<and> Health.last_error y = Health.last_error x"
  by (cases a) auto

lemma known_failure_step: "known_failure i err s \<Longrightarrow> cycle_of i x = [] \<Longrightarrow> known_failure i err (health_op_step x s)"
proof (cases x)
  case (TaskTold j a t)
  assume "known_failure i err s"
  with told_get [of j a t s i] delivered_known show ?thesis
    by (fastforce simp: known_failure_def TaskTold simp del: health_op_step.simps)
next
  case (GlobalTold a t)
  assume "known_failure i err s"
  then show ?thesis by (simp add: known_failure_def get_global_told GlobalTold del: health_op_step.simps)
qed (auto simp: known_failure_def get_success get_failure split: if_splits)

lemma known_failure_run:
  "known_failure i err s \<Longrightarrow> list_all (\<lambda>x. cycle_of i x = []) ops \<Longrightarrow> known_failure i err (health_run ops s)"
  by (induction ops arbitrary: s) (simp_all add: known_failure_step)

lemma known_is_not_news: "known_failure i err s \<Longrightarrow> stored_error err' = stored_error err \<Longrightarrow> \<not> failure_is_news s i err'"
  by (auto simp: known_failure_def failure_is_news_def failure_is_news_for_def)

lemma deliver_known: "known_failure i err (store st) \<Longrightarrow> known_failure i err (store (deliver_task_alert C c hook v j st))"
proof -
  assume k: "known_failure i err (store st)"
  show ?thesis
  proof (cases "pending_task_alert j c (looks_at v) (store st)")
    case (Some a)
    from known_failure_step [OF k, of "TaskTold j a (commits_at v)"] k Some show ?thesis
      by (auto simp: deliver_task_alert_def split: option.splits)
  qed (use k in \<open>simp add: deliver_task_alert_def\<close>)
qed

lemma recorded_failure_known:
  assumes "liveness_enabled c"
  shows "known_failure i err (store (record_outcome C c hook now e v i n (Failure err) st))"
  unfolding record_outcome_def
  using assms by (simp, intro deliver_known) (auto simp: known_failure_def get_failure)

lemma failed_fire:
  assumes "run_fire T rc e holder h = ((Failure err, used), h')"
  shows "used = None \<and> (\<exists>h0 ps st l. failed_call T rc h h0 \<and> length ps \<le> 1 \<and>
    report_failure T e err (h0\<lparr>status_of := st, told_errors := l\<rparr>) = h0\<lparr>status_of := st, told_errors := l, posts := posts h @ ps\<rparr> \<and>
    h' = h0\<lparr>status_of := st, told_errors := l, posts := posts h @ ps,
      live_of := record_outcome (tc_health T) (tc_live T) (tc_share_webhook T) (outcome_clock rc) (outcome_saves rc)
        (outcome_delivery rc) (task_id (task e)) (sched_name (task e)) (Failure err) (live_of h0),
      leases_of := snd (durable_release (tc_wal T) (release_io rc) (leases_of h) (task_resource (task_id (task e)))
        holder (release_clock rc))\<rparr>)"
proof -
  obtain out u h1 where x: "execute_fire T rc e h = ((out, u), h1)" by (metis prod.collapse)
  with assms have o: "out = Failure err" "u = used" by (auto simp: run_fire_def Let_def)
  with x have "execute_task T rc e h = ((Failure err, used), h1)"
    by (simp add: execute_fire_def split: if_splits)
  from execute_task_failure [OF this] obtain h0 st l where
    f: "used = None" "failed_call T rc h h0" "h1 = h0\<lparr>status_of := st, told_errors := l\<rparr>" by blast
  from report_failure_frame obtain ps where
    ps: "report_failure T e err h1 = h1\<lparr>posts := posts h1 @ ps\<rparr>" "length ps \<le> 1" by blast
  note m = failed_call_memory [OF f(2)]
  have "h' = release_task_lease T rc (task_id (task e)) holder
      ((report_failure T e err h1)\<lparr>live_of := record_outcome (tc_health T) (tc_live T) (tc_share_webhook T)
         (outcome_clock rc) (outcome_saves rc) (outcome_delivery rc) (task_id (task e)) (sched_name (task e))
         (Failure err) (live_of (report_failure T e err h1))\<rparr>)"
    using assms x o by (simp add: run_fire_def Let_def)
  with ps f m show ?thesis
    by (intro conjI exI [of _ h0] exI [of _ ps] exI [of _ st] exI [of _ l]) (simp_all add: release_task_lease_def)
qed

lemma failed_fire_shared:
  assumes "run_fire T rc e holder h = ((Failure err, used), h')"
  shows "shared h' = shared h"
proof -
  from failed_fire [OF assms] obtain h0 where "failed_call T rc h h0" "shared h' = shared h0" by fastforce
  with failed_call_memory show ?thesis by metis
qed

text \<open>
  C30: a fire that fails routes nothing of a response: no task, intent, alert, call, salience marker or
  farm comes of one, and no evaluator record. What the host keeps in its files is as it was, or, when it is the
  provider's call that failed, as the opening of the cycle and the tools of its earlier rounds
  left it (they may have written any of them; a pulse that is not autonomous has no tools). At most one diagnostic is posted; with the liveness alarm on the store knows
  the failure; and the release of the lease is tried, and frees it when it could be logged.
\<close>

theorem failed_fire_does_no_work:
  assumes "run_fire T rc e holder h = ((Failure err, used), h')"
  shows "used = None \<and>
    (\<exists>h0. (h0 = h \<or> prompt_error rc = None \<and> (\<exists>x. provider_result rc = Inl x) \<and> h0 = provider_called T rc h) \<and>
      sched_file h' = sched_file h0 \<and> queue_of h' = queue_of h0 \<and> alerts_of h' = alerts_of h0 \<and> tension_of h' = tension_of h0) \<and>
    shared h' = shared h \<and> snd (queue_of h') = snd (queue_of h) \<and> pending_alerts (alerts_of h') = pending_alerts (alerts_of h) \<and>
    evals h' = evals h \<and> raised h' = raised h \<and> farmed h' = farmed h \<and> calls_made h' = calls_made h \<and>
    (\<exists>ps. posts h' = posts h @ ps \<and> length ps \<le> 1) \<and>
    (liveness_enabled (tc_live T) \<longrightarrow> known_failure (task_id (task e)) err (store (live_of h'))) \<and>
    (\<exists>r. durable_release (tc_wal T) (release_io rc) (leases_of h) (task_resource (task_id (task e))) holder (release_clock rc) =
        (r, leases_of h') \<and>
      (is_ok r \<longrightarrow> durable_get (leases_of h') (task_resource (task_id (task e))) = None))"
proof -
  from failed_fire [OF assms] obtain h0 ps st l where f: "used = None" "failed_call T rc h h0" "length ps \<le> 1"
    "h' = h0\<lparr>status_of := st, told_errors := l, posts := posts h @ ps,
      live_of := record_outcome (tc_health T) (tc_live T) (tc_share_webhook T) (outcome_clock rc) (outcome_saves rc)
        (outcome_delivery rc) (task_id (task e)) (sched_name (task e)) (Failure err) (live_of h0),
      leases_of := snd (durable_release (tc_wal T) (release_io rc) (leases_of h) (task_resource (task_id (task e)))
        holder (release_clock rc))\<rparr>" by blast
  note m = failed_call_memory [OF f(2)]
  have q: "snd (queue_of h0) = snd (queue_of h)" "pending_alerts (alerts_of h0) = pending_alerts (alerts_of h)"
    using f(2) by (auto simp: failed_call_def provider_called_def tools_wrote_def Let_def)
  obtain r d where d: "durable_release (tc_wal T) (release_io rc) (leases_of h) (task_resource (task_id (task e)))
      holder (release_clock rc) = (r, d)" by fastforce
  have "durable_get d (task_resource (task_id (task e))) = None" if "is_ok r"
    using dl.rel_ok [of "tc_wal T" "release_io rc" "leases_of h"] d that
    by (auto simp: is_ok_iff durable_get_def table_get_def)
  then have lease: "\<exists>r. durable_release (tc_wal T) (release_io rc) (leases_of h) (task_resource (task_id (task e))) holder (release_clock rc) =
        (r, leases_of h') \<and>
      (is_ok r \<longrightarrow> durable_get (leases_of h') (task_resource (task_id (task e))) = None)"
    using f(4) d by simp
  have known: "liveness_enabled (tc_live T) \<longrightarrow> known_failure (task_id (task e)) err (store (live_of h'))"
    using recorded_failure_known f(4) by simp
  have h0: "h0 = h \<or> prompt_error rc = None \<and> (\<exists>x. provider_result rc = Inl x) \<and> h0 = provider_called T rc h"
    using f(2) by (simp add: failed_call_def)
  show ?thesis
    by (intro conjI f(1) exI [of _ h0] h0 known lease exI [of _ ps] f(3)) (simp_all add: f(4) m q)
qed

subsection \<open>The model of a fire\<close>

text \<open>
  A task pinned to a model runs on that model or not at all: a fire that a model answered was
  answered by the one the refreshed schedule names for the task, and by the default only when it
  names none; a model that cannot be had makes the fire fail before the provider is called.
\<close>

theorem pinned_task_runs_on_its_model:
  assumes "run_fire T rc e holder h = ((outcome, used), h')"
  shows "(\<forall>m. used = Some m \<longrightarrow>
      outcome = Success \<and>
      m = (case non_empty_url (tc_chars T) (current_override e h) of Some p \<Rightarrow> p | None \<Rightarrow> tc_model T) \<and>
      (\<forall>p. non_empty_url (tc_chars T) (current_override e h) = Some p \<longrightarrow> is_ok (tc_builds T p))) \<and>
    (\<forall>p. non_empty_url (tc_chars T) (current_override e h) = Some p \<longrightarrow> \<not> is_ok (tc_builds T p) \<longrightarrow>
      task_id (task e) \<noteq> ''trajectory-mining'' \<longrightarrow>
      (\<exists>err. outcome = Failure err) \<and> status_of h' = status_of h)"
proof -
  obtain out u h1 where x: "execute_fire T rc e h = ((out, u), h1)" by (metis prod.collapse)
  with assms have o: "outcome = out" "used = u" by (auto simp: run_fire_def Let_def)
  have "status_of h' = status_of h1"
  proof (cases out)
    case (Failure err)
    from report_failure_frame obtain ps where "report_failure T e err h1 = h1\<lparr>posts := posts h1 @ ps\<rparr>" by blast
    with assms x Failure show ?thesis by (auto simp: run_fire_def Let_def release_task_lease_def)
  qed (use assms x in \<open>auto simp: run_fire_def Let_def release_task_lease_def\<close>)
  with x o show ?thesis
    by (auto simp: execute_fire_def execute_task_def resolve_provider_override_def Let_def
        split: if_splits sum.splits option.splits prod.splits)
qed

subsection \<open>A failure that repeats\<close>

text \<open>
  The diagnostics channel hears of a failure once: after a fire failed, a later fire of the task
  that fails with the same error (as far as the store keeps it) posts nothing, whatever was
  recorded of other tasks and announced in between.
\<close>

theorem repeated_failure_is_silent:
  assumes r1: "run_fire T rc e holder h = ((Failure err, u), h1)" and live: "liveness_enabled (tc_live T)"
    and between: "store (live_of h2) = health_run ops (store (live_of h1))"
      "list_all (\<lambda>x. cycle_of (task_id (task e)) x = []) ops"
    and r2: "run_fire T rc' e holder' h2 = ((Failure err', u'), h3)" and same: "stored_error err' = stored_error err"
  shows "posts h3 = posts h2"
proof -
  let ?i = "task_id (task e)"
  have "known_failure ?i err (store (live_of h1))"
    using failed_fire [OF r1] recorded_failure_known [OF live] by fastforce
  from known_failure_run [OF this between(2)] have k: "known_failure ?i err (store (live_of h2))"
    by (simp add: between(1))
  from failed_fire [OF r2] obtain h0 ps st l where h0: "failed_call T rc' h2 h0"
    "report_failure T e err' (h0\<lparr>status_of := st, told_errors := l\<rparr>) = h0\<lparr>status_of := st, told_errors := l, posts := posts h2 @ ps\<rparr>"
    "posts h3 = posts h2 @ ps" by fastforce
  note m = failed_call_memory [OF h0(1)]
  have "\<not> failure_is_news (store (live_of h0)) ?i err'" using known_is_not_news [OF k same] m by simp
  then have "report_failure T e err' (h0\<lparr>status_of := st, told_errors := l\<rparr>) = h0\<lparr>status_of := st, told_errors := l\<rparr>"
    by (simp add: report_failure_def)
  with h0(2) have "posts (h0\<lparr>status_of := st, told_errors := l\<rparr>) = posts (h0\<lparr>status_of := st, told_errors := l, posts := posts h2 @ ps\<rparr>)"
    by metis
  with m h0(3) show ?thesis by simp
qed

text \<open>
  The diagnostic names the model of the entry the loop was started with, not the one the fire ran on:
  with an override given since, the two differ.
\<close>

lemma diagnostic_names_the_old_model:
  assumes "find_task (shared h) (task_id (task e)) = Some (e\<lparr>model := Some p\<rparr>)"
  shows "current_override e h = Some p \<and>
    (model e = None \<longrightarrow> effective_model (tc_chars T) (tc_model T) e = tc_model T)"
  using assms by (simp add: current_override_def effective_model_def model_override_def)

text \<open>Two tasks whose names differ in letters a lease name cannot hold share one lease.\<close>

lemma accented_tasks_share_a_lease:
  "task_resource [CHR 0xC3, CHR 0xA9] = task_resource [CHR 0xC3, CHR 0xA8]"
  by code_simp

subsection \<open>A concrete pulse, for the witnesses\<close>

definition demo_tasks :: task_config where
  "demo_tasks =
     \<lparr>tc_json = demo_lib (\<lambda>_. ShutdownEv ''stop''), tc_chars = demo_chars,
      tc_cron = \<lparr>cron_error = (\<lambda>_. None), next_after = (\<lambda>_ t. Some (t + 1))\<rparr>,
      tc_sched = demo_schedule_codec, tc_queue = demo_queue_codec, tc_health = demo_health_codec,
      tc_alerts = \<lparr>encode_alerts = (\<lambda>_. []), decode_alerts = (\<lambda>_. None)\<rparr>, tc_wal = any_lines,
      tc_max_time = 10000000000000, tc_live = demo_liveness, tc_autonomy = None, tc_model = ''m'',
      tc_builds = (\<lambda>n. if n = ''good'' then Inr () else Inl ''no''), tc_report_errors = True,
      tc_diagnostics_webhook = Some ''d'', tc_share_webhook = None, tc_call_endpoint = None, tc_strips = id\<rparr>"

definition demo_host :: task_host where
  "demo_host =
     \<lparr>leases_of = plane_table, sched_file = Some ''1'', shared = [],
      queue_of = (None, \<lparr>intents = [], rooted = True\<rparr>), alerts_of = \<lparr>pending_alerts = [], alert_file = None\<rparr>,
      live_of = \<lparr>store = file_default 0, disk = \<lparr>health_json = None, health_tmp = None\<rparr>, posted = []\<rparr>,
      status_of = status_default, evals = Map.empty,
      tension_of = \<lparr>tension_file = None, quarantined = []\<rparr>, posts = [], calls_made = [], told_errors = [], raised = [], farmed = []\<rparr>"

definition demo_pass :: "int \<Rightarrow> gate_chance" where
  "demo_pass t =
     \<lparr>g_sched_io = demo_sched_io, evals_read = Map.empty, eval_fires = None,
      g_faults = \<lparr>stat_fails = False, read_fails = False, write_error = None, remove_error = None\<rparr>,
      g_marker = None, lead_clock = t, claim_clock = t, g_claim_io = io_fine\<rparr>"

definition demo_run :: "(turn_error + bytes \<times> u32) \<Rightarrow> run_chance" where
  "demo_run r =
     \<lparr>prompt_error = None, cycle_opened = id, call_writes = \<lparr>w_sched = id, w_queue = id, w_alerts = id, w_health = id, w_tension = id\<rparr>,
      provider_result = r, provider_clock = 2, fire_clock = 2, doc_times = (\<lambda>_. None),
      markers_of = (\<lambda>_ _. \<lparr>m_mint = demo_mint, m_sched_io = demo_sched_io, m_saves = True\<rparr>),
      outcome_clock = 3, outcome_saves = Saved, outcome_delivery = demo_delivery 200 3, release_clock = 4,
      release_io = io_fine\<rparr>"

definition demo_task_lease :: lease where
  "demo_task_lease = \<lparr>resource_id = ''task-a'', holder_id = ''p-t1'', fencing_token = 1, granted_at = 1, ttl = TASK_LEASE_TTL\<rparr>"

definition demo_claimed :: durable where
  "demo_claimed =
     \<lparr>tbl = \<lparr>leases = (leases (tbl plane_table))(''task-a'' \<mapsto> demo_task_lease),
              watermarks = (watermarks (tbl plane_table))(''task-a'' \<mapsto> 1)\<rparr>,
      wal = (wal plane_table)\<lparr>contents := contents (wal plane_table) @ ''e'' @ [newline]\<rparr>\<rparr>"

lemma demo_task_resource: "task_resource ''a'' = ''task-a''"
  by (simp add: task_resource_def lease_safe_def ascii_alphanumeric_def ascii_digit_def byte_def)

lemma demo_task_acquire:
  "durable_acquire any_lines 10000000000000 io_fine plane_table ''task-a'' ''p-t1'' TASK_LEASE_TTL 1 =
     (Inr demo_task_lease, demo_claimed)"
  by (simp add: durable_acquire_Inr_iff acquire_Inr_iff wal_append_Inr_iff id_ok_plane id_ok_orphan ttl_ok_def
      TASK_LEASE_TTL_def MAX_TTL_def secs_def demo_task_lease_def demo_claimed_def plane_table_def any_lines_def
      next_token_def free_at_def grant_event_def table_get_def LeaseWal.write_error_def enc_line_def io_fine_def)

lemma demo_enabled:
  "task_enabled_on_disk demo_tasks demo_sched_io ''a'' demo_host =
     (Some True, demo_host\<lparr>shared := [entry_of_task (demo_task ''a'')]\<rparr>)"
  by (simp add: task_enabled_on_disk_def load_schedule_def demo_tasks_def demo_host_def demo_schedule_codec_def
      demo_sched_io_def Let_def find_task_def entry_of_task_def demo_task_def byte_def)

lemma demo_gate:
  "gate demo_tasks (demo_pass 1) (demo_task ''a'') ''p-t1'' demo_host =
     (Fire, demo_host\<lparr>shared := [entry_of_task (demo_task ''a'')], leases_of := demo_claimed\<rparr>)"
proof -
  have t: "task_id (demo_task ''a'') = ''a''" "evaluator (demo_task ''a'') = None" by (simp_all add: demo_task_def)
  have "tenure_still_leads 10000000000000 plane_table ''p-t1'' 1"
    by (simp add: tenure_still_leads_def durable_get_def table_get_def plane_table_def plane_lease_def
        CONTROL_PLANE_RESOURCE_def is_expired_def expires_at_def from_std_def)
  then show ?thesis
    using demo_enabled demo_task_acquire
    by (simp add: gate_def t demo_pass_def still_enabled_def evaluator_suppresses_def is_active_def claim_lease_def
        demo_task_resource demo_host_def demo_tasks_def)
qed

theorem task_fires_only_when_cleared_witness:
  "\<exists>h'. gate demo_tasks (demo_pass 1) (demo_task ''a'') ''p-t1'' demo_host = (Fire, h') \<and>
     (\<exists>l. durable_get (leases_of h') ''task-a'' = Some l \<and> holder_id l = ''p-t1'' \<and> granted_at l = 1)"
proof -
  have "task_id (demo_task ''a'') = ''a''" by (simp add: demo_task_def)
  with task_fires_only_when_cleared [OF demo_gate] demo_gate show ?thesis
    by (auto simp: demo_task_resource demo_pass_def)
qed

theorem one_run_at_a_time_witness:
  "fst (gate demo_tasks (demo_pass 2) (demo_task ''a'') ''p-t2''
     (demo_host\<lparr>shared := [entry_of_task (demo_task ''a'')], leases_of := demo_claimed\<rparr>)) \<noteq> Fire"
  by (rule one_run_at_a_time [OF demo_gate refl refl refl]) (simp_all add: demo_pass_def demo_tasks_def TASK_LEASE_TTL_def secs_def)

lemma demo_run_fails:
  "shared h = [] \<Longrightarrow>
   fst (run_fire demo_tasks (demo_run (Inl (OtherError ''boom''))) (entry_of_task (demo_task ''a'')) ''p-t1'' h) =
     (Failure ''boom'', None)"
  by (simp add: run_fire_def execute_fire_def execute_task_def demo_task_def entry_of_task_def demo_run_def
      demo_tasks_def resolve_provider_override_def current_override_def non_empty_url_def find_task_def Let_def)

definition demo_failed :: task_host where
  "demo_failed = snd (run_fire demo_tasks (demo_run (Inl (OtherError ''boom''))) (entry_of_task (demo_task ''a'')) ''p-t1'' demo_host)"

lemma demo_failed:
  "run_fire demo_tasks (demo_run (Inl (OtherError ''boom''))) (entry_of_task (demo_task ''a'')) ''p-t1'' demo_host =
     ((Failure ''boom'', None), demo_failed)"
  using demo_run_fails [of demo_host] by (simp add: demo_failed_def demo_host_def prod_eq_iff)

theorem failed_fire_does_no_work_witness:
  "run_fire demo_tasks (demo_run (Inl (OtherError ''boom''))) (entry_of_task (demo_task ''a'')) ''p-t1'' demo_host =
     ((Failure ''boom'', None), demo_failed) \<and> sched_file demo_failed = Some ''1'' \<and> queue_of demo_failed = queue_of demo_host"
  using failed_fire_does_no_work [OF demo_failed] demo_failed
  by (auto simp: demo_host_def provider_called_def demo_tasks_def Let_def)

lemma fst_run_fire: "fst (run_fire T rc e holder h) = fst (execute_fire T rc e h)"
  by (simp add: run_fire_def Let_def split: prod.split)

lemma execute_task_answered:
  "resolve_provider_override T (current_override e h) = Inr (Some p) \<Longrightarrow> prompt_error rc = None \<Longrightarrow>
     provider_result rc = Inr (x, n) \<Longrightarrow> fst (execute_task T rc e h) = (Success, Some p)"
  by (simp add: execute_task_def Let_def)

theorem pinned_task_runs_on_its_model_witness:
  "\<exists>h' outcome. run_fire demo_tasks (demo_run (Inr (''hi'', 0))) (entry_of_task (demo_task ''a''))  ''p-t1''
       (demo_host\<lparr>shared := [(entry_of_task (demo_task ''a''))\<lparr>model := Some ''good''\<rparr>]\<rparr>) = ((outcome, Some ''good''), h') \<and>
     outcome = Success"
proof -
  let ?e = "entry_of_task (demo_task ''a'')" and ?rc = "demo_run (Inr (''hi'', 0))"
  let ?h = "demo_host\<lparr>shared := [?e\<lparr>model := Some ''good''\<rparr>]\<rparr>"
  have t: "trim demo_chars ''good'' = ''good''" by code_simp
  have i: "task_id (task ?e) = ''a''" by (simp add: entry_of_task_def demo_task_def)
  have "current_override ?e ?h = Some ''good''"
    by (simp add: current_override_def find_task_def i)
  then have "resolve_provider_override demo_tasks (current_override ?e ?h) = Inr (Some ''good'')"
    by (simp add: resolve_provider_override_def non_empty_url_def demo_tasks_def t)
  then have "fst (execute_task demo_tasks ?rc ?e ?h) = (Success, Some ''good'')"
    by (rule execute_task_answered) (simp_all add: demo_run_def)
  then have "fst (run_fire demo_tasks ?rc ?e ''p-t1'' ?h) = (Success, Some ''good'')"
    by (simp add: fst_run_fire execute_fire_def i)
  then obtain h' where r: "run_fire demo_tasks ?rc ?e ''p-t1'' ?h = ((Success, Some ''good''), h')"
    by (metis prod.collapse)
  with pinned_task_runs_on_its_model [OF r] show ?thesis by blast
qed

theorem repeated_failure_is_silent_witness:
  "\<exists>h3. run_fire demo_tasks (demo_run (Inl (OtherError ''boom''))) (entry_of_task (demo_task ''a'')) ''p-t1'' demo_failed =
     ((Failure ''boom'', None), h3) \<and> posts h3 = posts demo_failed"
proof -
  have "shared demo_failed = []" using failed_fire_shared [OF demo_failed] by (simp add: demo_host_def)
  from demo_run_fails [OF this] obtain h3 where
    r: "run_fire demo_tasks (demo_run (Inl (OtherError ''boom''))) (entry_of_task (demo_task ''a'')) ''p-t1'' demo_failed =
      ((Failure ''boom'', None), h3)" by (metis prod.collapse)
  have "liveness_enabled (tc_live demo_tasks)" by (simp add: demo_tasks_def demo_liveness_def)
  from repeated_failure_is_silent [OF demo_failed this _ _ r refl, of "[]"] r show ?thesis by simp
qed

end
