(* ===== verification/CycleSafety.thy ===== *)
theory CycleSafety
  imports TensionCycle
begin

text \<open>
  What the ends of a cycle promise: no stored text is lost to a failed write, the gate opens while a
  thread presses or a cycle is overdue, an alert of refusals fits a message; and what the discharge
  firewall lets through.
\<close>

subsection \<open>The file\<close>

definition kept_texts :: "tension_disk \<Rightarrow> bytes set" where
  "kept_texts d = set (quarantined d) \<union> (case tension_file d of None \<Rightarrow> {} | Some (t, m) \<Rightarrow> {t})"

lemma load_strict_keeps:
  "load_tension_strict K io d = (res, d') \<Longrightarrow>
     kept_texts d' = kept_texts d \<and>
     (\<forall>s. res = Inr s \<longrightarrow> d' = d \<and>
        (tension_file d = None \<and> s = store_empty \<or> (\<exists>t m. tension_file d = Some (t, m) \<and> de_tension K t = Some s)))"
  by (auto simp: load_tension_strict_def kept_texts_def split: option.splits if_splits)

text \<open>
  A change of the store fails closed: when it fails for any reason every text that was on disk is
  still there, in its place or put aside; when it succeeds the new file holds the change of what the
  old one held, or of an empty store only if there was no file, and nothing put aside is lost.
\<close>

theorem failed_change_keeps_the_store:
  assumes "tension_delta K io apply d = Some (res, d')"
  shows "case res of
      Inl e \<Rightarrow> kept_texts d' = kept_texts d
    | Inr x \<Rightarrow> quarantined d' = quarantined d \<and>
        (\<exists>s s'. (tension_file d = None \<and> s = store_empty \<or> (\<exists>t m. tension_file d = Some (t, m) \<and> de_tension K t = Some s)) \<and>
           apply s = Some (x, s') \<and> tension_file d' = Some (ser_tension K s', write_stamp io))"
proof -
  obtain l d1 where l: "load_tension_strict K io d = (l, d1)" by fastforce
  from load_strict_keeps [OF l] assms show ?thesis
    by (cases l) (auto simp: tension_delta_def l split: option.splits)
qed

subsection \<open>The gate\<close>

lemma max_keeps:
  assumes F: "f64_ok F" and "\<not> f_nan F x" and "\<not> f_nan F y"
  shows "\<not> f_nan F (f_max F x y) \<and> f_le F x (f_max F x y) \<and> f_le F y (f_max F x y)"
  using assms f64_refl [OF F] f64_linear [OF F assms(2,3)] by (auto simp: f_max_def)

lemma fold_max_above:
  assumes F: "f64_ok F" and "\<not> f_nan F x" and "\<forall>y\<in>set ys. \<not> f_nan F y"
  shows "f_le F x (foldl (f_max F) x ys) \<and> (\<forall>y\<in>set ys. f_le F y (foldl (f_max F) x ys))"
  using assms(2,3)
proof (induction ys arbitrary: x)
  case (Cons y ys)
  with max_keeps [OF F, of x y] Cons.IH [of "f_max F x y"] f64_trans [OF F] show ?case by simp blast
qed (simp add: f64_refl [OF F])

lemma thread_tension_finite: "f64_ok F \<Longrightarrow> store_ok F c s \<Longrightarrow> t \<in> set (threads s) \<Longrightarrow> tension_ok F (th_tension t)"
  by (auto simp: store_ok_def thread_ok_def)

lemma max_tension_above:
  assumes F: "f64_ok F" and s: "store_ok F c s" and t: "t \<in> set (live s)"
  shows "f_le F (th_tension t) (max_tension F s)"
proof -
  have "\<not> f_nan F (f_zero F)" using f64_int [OF F, of 0] f64_finite [OF F] by simp
  moreover have "\<forall>y\<in>set (map th_tension (live s)). \<not> f_nan F y"
    using thread_tension_finite [OF F s] tension_finite [OF F] f64_finite [OF F] by (auto simp: live_def)
  ultimately show ?thesis
    using fold_max_above [OF F, of "f_zero F" "map th_tension (live s)"] t by (simp add: max_tension_def)
qed

fun settles :: "bytes \<Rightarrow> tension_op \<Rightarrow> bool" where
  "settles i (WorkOp j a now) \<longleftrightarrow> j = i"
| "settles i (ResolveOp j v now) \<longleftrightarrow> j = i"
| "settles i _ \<longleftrightarrow> False"

definition still_live :: "bytes \<Rightarrow> 'f thread \<Rightarrow> 'f thread \<Rightarrow> bool" where
  "still_live i t u \<longleftrightarrow> th_id u = th_id t \<and> (th_id t = i \<longrightarrow> is_live t \<longrightarrow> is_live u)"

interpretation unsettled: thread_law F U c "\<lambda>x. \<not> settles i x" "still_live i" for F U c i
  by unfold_locales (auto simp: still_live_def)

text \<open>
  C40: a pressing thread keeps the gate open: while a live thread is above the threshold and is neither
  worked on nor retired, whatever else happens to the store, the salience gate fires.
\<close>

theorem pressing_thread_keeps_the_gate_open:
  assumes F: "f64_ok F" and s: "store_ok F c s" and t: "find_thread s i = Some t" "is_live t"
    and p: "f_less F (cycle_threshold c) (th_tension t)" and ops: "list_all (\<lambda>x. \<not> settles i x) ops"
  shows "salience_verdict (evaluate_salience F c (tension_run F U c ops s) vigil now) = EvalFire"
proof -
  let ?s = "tension_run F U c ops s"
  have w: "list_all (\<lambda>x. \<not> works_on i x) ops"
    using ops unfolding list_all_iff by (metis settles.simps(1) works_on.elims(2))
  from unworked_law [OF F s t(1) w, of U] obtain t' where
    t': "find_thread ?s i = Some t'" "f_le F (th_tension t) (th_tension t')" by blast
  from unsettled.run_find [OF ops t(1), of F U c] t' have "still_live i t t'" by (auto simp: still_live_def)
  moreover from t(1) have "th_id t = i" using find_in_set unfolding find_thread_def by fastforce
  ultimately have "t' \<in> set (live ?s)"
    using t(2) t'(1) find_in_set unfolding find_thread_def live_def still_live_def by fastforce
  from max_tension_above [OF F store_ok_run [OF F s] this] t'(2) p
  have "f_less F (cycle_threshold c) (max_tension F ?s)"
    unfolding f_less_def using f64_trans [OF F] by blast
  then show ?thesis by (simp add: evaluate_salience_def Let_def)
qed

lemma run_ledger: "list_all (\<lambda>x. \<not> opens_cycle x) ops \<Longrightarrow> ledger (tension_run F U c ops s) = ledger s"
proof (induction ops arbitrary: s)
  case (Cons x ops)
  have "ledger (tension_step F U c x s) = ledger s"
    using Cons.prems by (cases x) (auto simp: open_thread_def note_mention_def tick_def credit_work_def resolve_def Let_def
      split: option.splits)
  with Cons show ?case by simp
qed simp

text \<open>
  Quiet cannot starve the mind: when no cycle was ever opened, or the last one is longer ago than the
  floor, the gate fires, however low the tension and whatever else happened since.
\<close>

theorem quiet_store_cannot_starve:
  assumes "list_all (\<lambda>x. \<not> opens_cycle x) ops"
    and "case last_cycle_at (ledger s) of None \<Rightarrow> True
      | Some past \<Rightarrow> f_less F (of_i64 F (uint (floor_interval_hours c))) (hours_between F past now)"
  shows "salience_verdict (evaluate_salience F c (tension_run F U c ops s) vigil now) = EvalFire"
  using run_ledger [OF assms(1), of F U c s] assms(2)
  by (auto simp: evaluate_salience_def hours_since_last_cycle_def Let_def split: option.splits)

subsection \<open>The alert of refusals\<close>

lemma push_lines_bound:
  "length content \<le> MAX_ALERT_CONTENT_LEN \<Longrightarrow> length (fst (push_lines ls content n)) \<le> MAX_ALERT_CONTENT_LEN"
  by (induction ls arbitrary: content n) auto

lemma length_dash: "length dash = 3" "length ellipsis = 3"
  by (simp_all add: dash_def ellipsis_def)

lemma valid_head: "valid_utf8 r \<Longrightarrow> takeWhile continuation r = [] \<and> dropWhile continuation r = r"
  by (cases r) (auto simp: continuation_def in_range_def split: if_splits)

lemma in_range_continuation: "in_range a b x \<Longrightarrow> 0x80 \<le> a \<Longrightarrow> b \<le> 0xBF \<Longrightarrow> continuation x"
  by (simp add: in_range_def continuation_def)

lemma valid_utf8_step:
  "valid_utf8 (a # bs) \<Longrightarrow> \<exists>cs r. bs = cs @ r \<and> list_all continuation cs \<and> length cs \<le> 3 \<and> valid_utf8 r"
proof -
  assume v: "valid_utf8 (a # bs)"
  consider "byte a < 128" | "\<not> byte a < 128" "in_range 0xC2 0xDF a"
    | "\<not> byte a < 128" "\<not> in_range 0xC2 0xDF a" "in_range 0xE0 0xEF a"
    | "\<not> byte a < 128" "\<not> in_range 0xC2 0xDF a" "\<not> in_range 0xE0 0xEF a" "in_range 0xF0 0xF4 a"
    using v by (auto split: if_splits)
  then show ?thesis
  proof cases
    case 1
    with v show ?thesis by (intro exI [where x = "[]"] exI [where x = bs]) simp
  next
    case 2
    with v obtain x r where "bs = x # r" "continuation x" "valid_utf8 r" by (auto split: list.splits)
    then show ?thesis by (intro exI [where x = "[x]"] exI [where x = r]) simp
  next
    case 3
    with v obtain x y r where "bs = x # y # r"
        "in_range (if byte a = 0xE0 then 0xA0 else 0x80) (if byte a = 0xED then 0x9F else 0xBF) x" "continuation y" "valid_utf8 r"
      by (simp only: valid_utf8.simps if_False if_True) (auto split: list.splits)
    moreover from this have "continuation x" by (auto simp: in_range_def continuation_def split: if_splits)
    ultimately show ?thesis
      by (intro exI [where x = "[x, y]"] exI [where x = r]) simp
  next
    case 4
    with v obtain x y z r where "bs = x # y # z # r"
        "in_range (if byte a = 0xF0 then 0x90 else 0x80) (if byte a = 0xF4 then 0x8F else 0xBF) x"
        "continuation y" "continuation z" "valid_utf8 r"
      by (simp only: valid_utf8.simps if_False if_True) (auto split: list.splits)
    moreover from this have "continuation x" by (auto simp: in_range_def continuation_def split: if_splits)
    ultimately show ?thesis
      by (intro exI [where x = "[x, y, z]"] exI [where x = r]) simp
  qed
qed

lemma valid_utf8_lengths: "valid_utf8 s \<Longrightarrow> ch \<in> set (utf8_chars s) \<Longrightarrow> length ch \<le> 4"
proof (induction "length s" arbitrary: s rule: less_induct)
  case less
  show ?case
  proof (cases s)
    case (Cons a bs)
    from less.prems(1) valid_utf8_step obtain cs r where
      r: "bs = cs @ r" "list_all continuation cs" "length cs \<le> 3" "valid_utf8 r" unfolding Cons by blast
    then have "takeWhile continuation bs = cs" "dropWhile continuation bs = r"
      using valid_head [OF r(4)] by (auto simp: list_all_iff)
    then have "utf8_chars s = (a # cs) # utf8_chars r" by (simp add: Cons)
    with less.prems(2) less.hyps [OF _ r(4)] r(1,3) Cons show ?thesis by auto
  qed (use less in simp)
qed

text \<open>
  The alert that reports refusals fits the two thousand bytes a message may have, whatever the
  refused markers say and however many (below ten thousand million) there are.
\<close>

theorem refusal_alert_fits:
  assumes "length rs < 10 ^ 10" and "valid_utf8 source"
  shows "length (alert_content (alert_from_tension_rejections control uuid now source rs)) < 2000"
proof -
  let ?nm = "sanitize_alert_text control source 80"
  let ?cap = "length (filter (\<lambda>x. rej_side x = ChannelCapability) rs)"
  let ?head = "decimal (length rs) @ '' tension marker(s) refused during '' @ quoted ?nm @ '' '' @ dash @ '' the threads were NOT discharged:''"
  obtain content shown where p:
    "push_lines (map (refusal_line control) (take MAX_ALERT_SKIP_ENTRIES rs)) ?head 0 = (content, shown)" by fastforce
  have d: "length (decimal n) \<le> 10" if "n \<le> length rs" for n
    using that assms by (intro decimal_length) simp_all
  have "length ?nm < 80 + 4"
    unfolding sanitize_alert_text_def by (rule sanitize_chars_length) (use valid_utf8_lengths [OF assms(2)] in simp_all)
  then have "length ?head \<le> MAX_ALERT_CONTENT_LEN"
    using d [of "length rs"] by (simp add: length_dash MAX_ALERT_CONTENT_LEN_def)
  from push_lines_bound [OF this, of "map (refusal_line control) (take MAX_ALERT_SKIP_ENTRIES rs)" 0] p
  have "length content \<le> 1800" by (simp add: MAX_ALERT_CONTENT_LEN_def)
  moreover have "length (decimal (length rs - shown)) \<le> 10" "length (decimal ?cap) \<le> 10"
    by (rule d, simp)+
  ultimately show ?thesis
    unfolding alert_from_tension_rejections_def alert_named_def Let_def p prod.case by (simp add: length_dash)
qed

subsection \<open>What passes for evidence\<close>

lemma store_path:
  assumes "\<not> whitespace U ''t''" and "\<not> whitespace U ''n''"
  shows "sanitize_field U ''tension.json'' 512 = ''tension.json''"
    and "pulse_relative_path U ''tension.json'' = Some [''tension.json'']"
proof -
  have c: "utf8_chars ''tension.json'' = map (\<lambda>b. [b]) ''tension.json''" by code_simp
  then have t: "trim U ''tension.json'' = ''tension.json''" using assms by (simp add: trim_def)
  with c show "sanitize_field U ''tension.json'' 512 = ''tension.json''"
    by (simp add: sanitize_field_def unsafe_char_def)
  have "path_parts ''tension.json'' = [''tension.json'']" by code_simp
  moreover have "\<not> starts_with ''/'' ''tension.json''" by code_simp
  ultimately show "pulse_relative_path U ''tension.json'' = Some [''tension.json'']"
    using t by (simp add: pulse_relative_path_def Let_def)
qed

text \<open>
  The instant a cycle began is taken before \<open>open_cycle\<close> writes the store, so the store's own file has
  moved since: a claim that names it holds in every cycle, although nothing but words was offered.
\<close>

theorem store_file_passes_for_evidence:
  assumes "\<not> whitespace U ''t''" and "\<not> whitespace U ''n''"
    and "open_cycle F K c io now d = (Some rep, d')" and "outcome_started x \<le> write_stamp io"
  shows "verify U (evidence_of elsewhere observable ids x d')
      \<lparr>claim_file = Some ''tension.json'', claim_prediction = None, claim_tool = None\<rparr> =
    Inr (FileDiff ''tension.json'' (write_stamp io))"
proof -
  from assms(3) have "\<exists>t. tension_file d' = Some (t, write_stamp io)"
    by (auto simp: open_cycle_def tension_delta_def split: if_splits option.splits sum.splits prod.splits)
  with assms(4) show ?thesis
    by (auto simp: verify_def rung_def verify_file_def store_path [OF assms(1,2)] Let_def evidence_of_def
        is_journal_path_def JOURNAL_FILES_def join_with.simps)
qed

subsection \<open>Witnesses\<close>

definition demo_tension_codec :: "int tension_codec" where
  "demo_tension_codec = \<lparr>ser_tension = (\<lambda>_. ''s''), de_tension = (\<lambda>t. if t = ''s'' then Some demo_store else None)\<rparr>"

definition demo_tension_io :: tension_io where
  "demo_tension_io =
     \<lparr>lock_failure = None, read_failure = None, quarantine_fails = False, write_failure = None, corrupt_notice = ''corrupt'',
      write_stamp = 4\<rparr>"

theorem failed_change_keeps_the_store_witness:
  "\<exists>d'. tension_delta demo_tension_codec demo_tension_io (\<lambda>s. Some ((), s)) \<lparr>tension_file = Some (''x'', 0), quarantined = []\<rparr> =
     Some (Inl ''corrupt'', d') \<and> ''x'' \<in> kept_texts d'"
proof -
  have "\<exists>d'. tension_delta demo_tension_codec demo_tension_io (\<lambda>s. Some ((), s)) \<lparr>tension_file = Some (''x'', 0), quarantined = []\<rparr> =
     Some (Inl ''corrupt'', d')"
    by (simp add: tension_delta_def load_tension_strict_def demo_tension_codec_def demo_tension_io_def byte_def)
  then obtain d' where d: "tension_delta demo_tension_codec demo_tension_io (\<lambda>s. Some ((), s))
      \<lparr>tension_file = Some (''x'', 0), quarantined = []\<rparr> = Some (Inl ''corrupt'', d')" by blast
  from failed_change_keeps_the_store [OF d] d show ?thesis by (auto simp: kept_texts_def)
qed

theorem pressing_thread_keeps_the_gate_open_witness:
  "salience_verdict (evaluate_salience int_f64 (demo_tension\<lparr>cycle_threshold := 0\<rparr>)
     (tension_run int_f64 plain_chars (demo_tension\<lparr>cycle_threshold := 0\<rparr>) [TickOp 0, MentionOp ''t-1''] demo_store) False 9) = EvalFire"
proof -
  from demo_store_find obtain t where t: "find_thread demo_store ''t-1'' = Some t" "th_tension t = 1" by blast
  have s: "store_ok int_f64 (demo_tension\<lparr>cycle_threshold := 0\<rparr>) demo_store"
    using demo_threads_ok by (simp add: store_ok_def demo_tension_def)
  have l: "is_live t" using t by (auto simp: demo_store_def store_empty_def find_thread_def new_thread_def is_live_def split: if_splits)
  have p: "f_less int_f64 (cycle_threshold (demo_tension\<lparr>cycle_threshold := 0\<rparr>)) (th_tension t)"
    using t(2) by (simp add: f_less_def int_f64_def)
  show ?thesis by (rule pressing_thread_keeps_the_gate_open [OF int_f64_ok s t(1) l p]) simp
qed

theorem quiet_store_cannot_starve_witness:
  "salience_verdict (evaluate_salience int_f64 demo_tension
     (tension_run int_f64 plain_chars demo_tension [MentionOp ''t-1''] demo_store) False 9) = EvalFire"
  by (rule quiet_store_cannot_starve) (simp_all add: demo_store_def store_empty_def)

theorem refusal_alert_fits_witness:
  "length (alert_content (alert_from_tension_rejections (\<lambda>_. False) ''u'' 0 ''task'' [])) < 2000"
  by (rule refusal_alert_fits) (simp_all add: byte_def)

theorem store_file_passes_for_evidence_witness:
  "\<exists>rep d'. open_cycle int_f64 demo_tension_codec demo_tension demo_tension_io 3 \<lparr>tension_file = None, quarantined = []\<rparr> = (Some rep, d') \<and>
     verify plain_chars (evidence_of (\<lambda>_. None) True []
         \<lparr>cycle_label = [], raw_output = [], outcome_resolved = [], outcome_rounds = 0, outcome_started = 3\<rparr> d')
       \<lparr>claim_file = Some ''tension.json'', claim_prediction = None, claim_tool = None\<rparr> = Inr (FileDiff ''tension.json'' 4)"
proof -
  have "\<exists>rep d'. open_cycle int_f64 demo_tension_codec demo_tension demo_tension_io 3 \<lparr>tension_file = None, quarantined = []\<rparr> = (Some rep, d')"
    by (simp add: open_cycle_def demo_tension_def tension_delta_def load_tension_strict_def demo_tension_io_def split: prod.split)
  then obtain rep d' where o: "open_cycle int_f64 demo_tension_codec demo_tension demo_tension_io 3
      \<lparr>tension_file = None, quarantined = []\<rparr> = (Some rep, d')" by blast
  have "write_stamp demo_tension_io = 4" by (simp add: demo_tension_io_def)
  with o store_file_passes_for_evidence [OF _ _ o, of plain_chars] show ?thesis by (fastforce simp: plain_chars_def)
qed

end
