(* ===== verification/Spec2Isabelle.thy ===== *)
theory Spec2Isabelle
  imports Farm ReceiptFormat ReceiptStore Intent ToolLoop SessionStore ContextBuffer TurnSafety EventSafety TaskSafety CycleSafety
begin

text \<open>
  Verification of \<open>pulse-null\<close>, a daemon that runs one long-lived AI agent (a pulse). The daemon
  stays safe across crashes, wedged predecessors and concurrent writers because of a small core:
  leases with fencing tokens on a log, a leadership loop over them, work that is claimed and
  committed through them, and a hash-chained record of what was done. This development models that
  core and proves what it promises.

  \<^bold>\<open>Parts and theories.\<close>

  \<^item> \<open>Prelude\<close>: bytes, UTF-8, decimal text, checked arithmetic of \<open>u64\<close>, the \<open>?\<close> operator.
  \<^item> \<open>Lease\<close> (\<open>src/coordinator/lease.rs\<close>): the in-memory table; \<open>acquire\<close>, \<open>renew\<close>, \<open>release\<close>,
    \<open>apply\<close>. The locale \<open>lease_service\<close> states what a client may rely on; it is interpreted for the
    table here and for the durable table in \<open>Durable\<close>.
  \<^item> \<open>Fenced\<close> (\<open>fenced.rs\<close>): the resource that refuses old tokens, as an interpretation of
    the locale \<open>fence\<close>.
  \<^item> \<open>LeaseWal\<close> (\<open>wal.rs\<close> of the coordinator): the log file, its repair, append, replay.
  \<^item> \<open>Durable\<close> (\<open>durable.rs\<close>): the table whose grants are logged before they are returned.
  \<^item> \<open>Recovery\<close>: crashes at every byte of a write, as a step relation, and its invariant.
  \<^item> \<open>LeaseSafety\<close>: the properties of the lease layer.
  \<^item> \<open>Control\<close> (\<open>control.rs\<close>): the leadership loop as a state machine, with the claimants;
    \<open>scheduler::start\<close> of \<open>src/scheduler/mod.rs\<close>, what it spawns and what it leaves when it fails.
  \<^item> \<open>Farm\<close> (\<open>farm.rs\<close>): delegated subtasks, with reclaimed children.
  \<^item> \<open>Chain\<close> (\<open>src/oneself/event.rs\<close>, \<open>chain.rs\<close>): receipt rows, canonical text, the chain.
  \<^item> \<open>ReceiptFormat\<close>: what a receipt file is, byte by byte and apart from the checks of \<open>chain.rs\<close>; the
    verifier accepts these files and no others.
  \<^item> \<open>ReceiptStore\<close> (\<open>src/oneself/store.rs\<close>, \<open>protect.rs\<close>): the appender of a receipt file.
  \<^item> \<open>Intent\<close> (\<open>src/scheduler/intent.rs\<close>): the intent queue and the loop that drains it.
  \<^item> \<open>Admission\<close> (\<open>src/server/auth.rs\<close>, \<open>admission.rs\<close>, \<open>guest_budget.rs\<close>, \<open>src/session_key.rs\<close>):
    who a chat turn runs as, and what the guests of a plugin may cost.
  \<^item> \<open>Conversation\<close> (\<open>src/context/\<close>): messages, token estimates, the two tiers of compaction.
  \<^item> \<open>TurnStream\<close> (\<open>src/tool_loop.rs\<close>, \<open>server/handlers/chat.rs\<close>): the control plane and the sink of a
    streamed turn, and the reader that yields them to the client.
  \<^item> \<open>Speech\<close> (\<open>src/speech_gate.rs\<close>): which words of an answer may be spoken before the guard decides.
  \<^item> \<open>ToolLoop\<close> (\<open>src/tool_loop.rs\<close>): the rounds of a turn with its tools, buffered and streamed.
  \<^item> \<open>ConvWal\<close> (\<open>src/wal.rs\<close>): the log of a conversation, its checkpoints, torn writes.
  \<^item> \<open>Session\<close> (\<open>src/session_store.rs\<close>, \<open>src/session.rs\<close>): the data of a session, its caps, resets and
    the handoff; what the end of a session leaves on the disk.
  \<^item> \<open>SessionStore\<close> (\<open>src/session_store.rs\<close>, \<open>recover_orphans\<close> of \<open>src/wal.rs\<close>): the live sessions and
    voice calls, eviction, expiry, loading, shutdown, recovery; persistence as jobs that a pool of
    threads ends later, in any order, each landing, failing, or mixed up with another of its file.
  \<^item> \<open>ContextBuffer\<close> (\<open>src/context_buffer.rs\<close>): the recent lines of each channel and what a turn is
    told of them.
  \<^item> \<open>ProviderStatus\<close> (\<open>src/provider_status.rs\<close>): the state behind \<open>/health\<close>, the kinds of errors.
  \<^item> \<open>Isolation\<close> (\<open>src/server/isolation.rs\<close>, \<open>src/tool_surface.rs\<close>): the marker, its commands, and the
    tools a turn gets.
  \<^item> \<open>Turn\<close> and \<open>TurnCommit\<close> (\<open>src/server/handlers/chat.rs\<close>, \<open>chat/steps.rs\<close>): one turn from
    its message to its response, as one function \<open>run_turn\<close> over the record \<open>daemon\<close>.
  \<^item> \<open>TurnSafety\<close>: what a turn keeps and leaves, by its outcome.
  \<^item> \<open>Outreach\<close> (\<open>src/outreach/\<close>): candidates for unprompted messages, the gate, quiet hours, caps, the
    locked store, feedback, the corpus; \<open>OutreachSafety\<close> its properties over runs.
  \<^item> \<open>Events\<close> (\<open>src/events/\<close>): the events, the circuit breaker, the listener; \<open>EventSafety\<close>: what the
    listener does to the outreach record and the intent queue.
  \<^item> \<open>Health\<close> (\<open>src/scheduler/health.rs\<close>): what is known of each scheduled task, when an alert is owed;
    \<open>HealthReport\<close>: its file, its texts, the status of a task; \<open>HealthSafety\<close>: its properties.
  \<^item> \<open>Liveness\<close> (\<open>src/scheduler/liveness.rs\<close>): deciding, posting and committing alerts, by the tasks and
    by the watchdog, alone and interleaved.
  \<^item> \<open>Output\<close> (\<open>src/scheduler/output.rs\<close>): the markers of a response.
  \<^item> \<open>Schedule\<close> (\<open>src/scheduler/mod.rs\<close>, \<open>dynamic.rs\<close>): the schedule, its file, tasks made by markers.
  \<^item> \<open>Alerts\<close> (\<open>src/scheduler/alerts.rs\<close>): the queue of alerts, and text made harmless.
  \<^item> \<open>TaskLoop\<close> (\<open>src/scheduler/runner.rs\<close>, \<open>diagnostics.rs\<close>): the gate and the fire of a scheduled
    task over the record \<open>task_host\<close>. What opening a cycle does to the tension file and what the tools
    of a call write are arguments of a fire, in its failing paths too; \<open>TaskSafety\<close> its properties.
  \<^item> \<open>Tension\<close> (\<open>src/tension/mod.rs\<close>): the threads that grow louder while nobody works on them, the law
    of their tension, discharge, tombstones, triage; \<open>TensionSafety\<close> its properties over runs.
  \<^item> \<open>Ingest\<close> (\<open>src/tension/ingest.rs\<close>): the thread markers of a response, the evidence a claim of work
    is checked against, and the whole applied cycle; \<open>IngestSafety\<close>: what a discharge rests on.
  \<^item> \<open>TensionCycle\<close> (\<open>src/tension/store.rs\<close>, \<open>src/scheduler/tension_cycle.rs\<close>, \<open>evaluator.rs\<close>): the file
    of the store, the opening and closing of a cycle with its alerts, the salience gate;
    \<open>CycleSafety\<close> its properties.

  \<^bold>\<open>How they interact.\<close> \<open>Control\<close>, \<open>Farm\<close> and \<open>Intent\<close> share one durable table: the loop holds
  the control plane, a farm takes one lease per attempt of a subtask, the drain one per intent. They
  use the durable table through the facts of its interpretation (\<open>dl\<close>). \<open>ReceiptStore\<close> uses
  \<open>Chain\<close> both to check what it opens and to check each line before it writes it. A turn
  (\<open>run_turn\<close>) composes the session store, the context buffers, the isolation marker, compaction,
  the tool loop and its streamed twin, the provider status and the conversation log in the order of
  the code; it uses the log through the interpretation \<open>cw\<close> of the locale \<open>message_log\<close>. The event listener
  admits through the outreach store and queues through the intent queue's locked change; its runs
  are shown to be runs of the outreach record. A scheduled task (\<open>task_tick\<close>) composes the schedule's
  file (interpretation \<open>sched\<close> of \<open>delta_store\<close>), the durable lease table, the isolation marker, the
  provider status, the evaluator's records, the markers of \<open>Output\<close> with the queues they go to, the
  diagnostics, and the liveness store; the three rules of that store that repeat an alert are
  interpretations of the locale \<open>ladder\<close>. The end of a cognitive cycle runs the tension store's own operations: \<open>IngestSafety\<close>
  shows it is a run of them, so what \<open>TensionSafety\<close> proves of runs through the locale \<open>thread_law\<close>
  (interpretations \<open>silence\<close>, \<open>memory\<close>, \<open>work_marks\<close>, \<open>words\<close>, \<open>unsettled\<close>) holds of cycles.

  \<^bold>\<open>How code becomes HOL.\<close> A method with \<open>&mut self\<close> is a function from a state to a result
  and a state; \<open>Result\<close> is a sum with the error left, so each early return and each \<open>?\<close> is a branch.
  Machine integers are words of their width. What the environment decides (the clock, the outcome
  of a write, which of several waits fires first) is an argument, in a record where there are
  many, so a theorem holds for every outcome. Loops of tasks are step relations, whose
  interleavings are all orders of their steps. Third-party code (\<open>serde_json\<close>, SHA-256) is a
  record of functions with its documented contract as a named predicate (\<open>codec_ok\<close>,
  \<open>row_codec_ok\<close>, \<open>store_lib_ok\<close>, \<open>queue_codec_ok\<close>), as is the arithmetic of \<open>f64\<close> (\<open>f64_ok\<close>); each has a concrete instance in the
  witnesses.

  \<^bold>\<open>What the lemmas show.\<close> Per component: success and failure of each operation as equations
  (\<open>.._Inr_iff\<close>, \<open>.._Inl\<close>), the invariant and that every operation keeps it (\<open>table_wf\<close>,
  \<open>durable_inv\<close>, \<open>ctl_inv\<close>, \<open>at_end\<close>), then the properties, each right after its statement in
  words. Refinement: the durable table simulates the bare table through its log. Bounds: tokens,
  sequence numbers and identifiers stay within their widths.

  \<^bold>\<open>Bounds.\<close> No fuel is used: every loop here is structural, has a measure, or is a step
  relation. Limits of the code (line lengths, file size, eight subtasks, the queue's cap) are the
  code's constants.

  \<^bold>\<open>Not modelled.\<close> Terminal UI, HTTP routing, prompt texts, provider clients, child processes,
  plugins, network anchors and the floating-point scores of the probes; of a turn its receipt, the
  caliber outcome, the compaction signal, the post-interaction event and the audit; of a scheduled
  task its receipt, interaction record, monitors and graph (the opening and the closing of its cognitive
  cycle are modelled in \<open>TensionCycle\<close>; the closing is not composed into the fire); of the tension store the logged correlation with recency and the rendering of threads; the cosine of
  embeddings and the wording of an outreach notice; logging; system calls
  below the level of \<open>open\<close>, \<open>write\<close>, \<open>sync\<close> and \<open>lock\<close>. Time is an integer that the caller
  supplies.
\<close>

end
